(* ===== verification/Prelude.thy ===== *)
theory Prelude
  imports Main "HOL-Library.Word"
begin

text \<open>
  Shared vocabulary of the development: the fixed-width types of
  \<^verbatim>\<open>common/misc/fixed_types.h\<close>, the ways a step of the simulator can stop, a result
  type with its bind, and checked access to C++ buffers and arrays.

  The simulator aborts on \<^verbatim>\<open>assert\<close> and on \<^verbatim>\<open>LOG_PRINT_ERROR\<close> /
  \<^verbatim>\<open>LOG_ASSERT_ERROR\<close> (\<^verbatim>\<open>common/misc/log.h\<close>, built without \<^verbatim>\<open>NDEBUG\<close>).
  A read or write outside a buffer, a use of a null pointer and a use of an uninitialised
  variable are undefined behaviour in C++; the model stops there with an error of its own,
  so that a successful result never depends on undefined behaviour.
\<close>

section \<open>Types\<close>

type_synonym u8 = "8 word"
type_synonym u32 = "32 word"
type_synonym u64 = "64 word"

text \<open>\<^verbatim>\<open>core_id_t\<close> and \<^verbatim>\<open>SubsecondTime\<close> (femtoseconds in 64 bits).\<close>

type_synonym core_id = int
type_synonym time = u64

text \<open>\<^verbatim>\<open>SubsecondTime::getPS\<close>.\<close>

definition getPS :: "time \<Rightarrow> u64" where
  "getPS t = t div 1000"

definition INVALID_CORE_ID :: core_id where "INVALID_CORE_ID = - 1"
definition INVALID_ADDRESS :: u64 where "INVALID_ADDRESS = - 1"

datatype sim_error =
    Assert_Failed   \<comment> \<open>\<^verbatim>\<open>assert\<close> or \<^verbatim>\<open>LOG_ASSERT_ERROR\<close>\<close>
  | Log_Error       \<comment> \<open>\<^verbatim>\<open>LOG_PRINT_ERROR\<close>, which calls \<^verbatim>\<open>exit\<close>\<close>
  | Out_Of_Bounds   \<comment> \<open>access outside a buffer, vector or array\<close>
  | Null_Deref      \<comment> \<open>use of a null pointer\<close>
  | Uninitialised   \<comment> \<open>use of a variable that was never assigned\<close>
  | Undefined       \<comment> \<open>division by zero, shift by a negative or too large amount, use of a deleted buffer\<close>
  | Out_Of_Fuel     \<comment> \<open>no error of the code: the model stopped a loop that had not ended\<close>

type_synonym 'a res = "sim_error + 'a"

text \<open>A data pointer of type \<^verbatim>\<open>Byte*\<close>: \<open>None\<close> is \<^verbatim>\<open>nullptr\<close>, \<open>Some b\<close> points at the
  first of the bytes \<open>b\<close> that may be accessed through it.\<close>

type_synonym byte_ptr = "u8 list option"

named_theorems res_simps \<open>rules that take a successful computation apart\<close>

section \<open>Results\<close>

definition rbind :: "'a res \<Rightarrow> ('a \<Rightarrow> 'b res) \<Rightarrow> 'b res" where
  "rbind m f = (case m of Inl e \<Rightarrow> Inl e | Inr x \<Rightarrow> f x)"

lemma rbind_Inr [simp]: "rbind (Inr x) f = f x"
  by (simp add: rbind_def)

lemma rbind_Inl [simp]: "rbind (Inl e) f = Inl e"
  by (simp add: rbind_def)

lemma rbind_eq_Inr [res_simps]: "rbind m f = Inr y \<longleftrightarrow> (\<exists>x. m = Inr x \<and> f x = Inr y)"
  by (cases m) auto

lemma rbindE: "rbind m f = Inr y \<Longrightarrow> (\<And>x. m = Inr x \<Longrightarrow> f x = Inr y \<Longrightarrow> P) \<Longrightarrow> P"
  by (cases m) auto

lemma rbind2E:
  "rbind m (\<lambda>(u, v). f u v) = Inr y \<Longrightarrow> (\<And>u v. m = Inr (u, v) \<Longrightarrow> f u v = Inr y \<Longrightarrow> P) \<Longrightarrow> P"
  by (cases m) auto

lemma rbind3E:
  "rbind m (\<lambda>(u, v, w). f u v w) = Inr y \<Longrightarrow> (\<And>u v w. m = Inr (u, v, w) \<Longrightarrow> f u v w = Inr y \<Longrightarrow> P) \<Longrightarrow> P"
  by (cases m) auto

lemma rbind_eq_Inl: "rbind m f = Inl e \<longleftrightarrow> m = Inl e \<or> (\<exists>x. m = Inr x \<and> f x = Inl e)"
  by (cases m) auto

lemma rbind_assoc: "rbind (rbind m f) g = rbind m (\<lambda>x. rbind (f x) g)"
  by (simp add: rbind_def split: sum.splits)

lemma rbind_cong [fundef_cong]:
  "m = m' \<Longrightarrow> (\<And>x. m' = Inr x \<Longrightarrow> f x = g x) \<Longrightarrow> rbind m f = rbind m' g"
  by (cases m') auto

lemma if_Inl_eq_Inr [res_simps]:
  "((if c then Inl e else k) = Inr y) \<longleftrightarrow> \<not> c \<and> k = Inr y"
  "((if c then k else Inl e) = Inr y) \<longleftrightarrow> c \<and> k = Inr y"
  by auto

text \<open>\<open>fold_r f xs s\<close> runs \<open>f\<close> over the elements in order and stops at the first error.\<close>

fun fold_r :: "('a \<Rightarrow> 's \<Rightarrow> 's res) \<Rightarrow> 'a list \<Rightarrow> 's \<Rightarrow> 's res" where
  "fold_r f [] s = Inr s"
| "fold_r f (x # xs) s = rbind (f x s) (fold_r f xs)"

lemma fold_r_append: "fold_r f (xs @ ys) s = rbind (fold_r f xs s) (fold_r f ys)"
  by (induction xs arbitrary: s) (auto simp: rbind_def split: sum.splits)

lemma fold_r_inv:
  assumes "fold_r f xs s = Inr t" and "P s"
    and "\<And>x s t. x \<in> set xs \<Longrightarrow> f x s = Inr t \<Longrightarrow> P s \<Longrightarrow> P t"
  shows "P t"
  using assms by (induction xs arbitrary: s) (auto simp: res_simps)

lemma fold_r_ok:
  assumes "\<And>x s. x \<in> set xs \<Longrightarrow> P s \<Longrightarrow> \<exists>t. f x s = Inr t \<and> P t" and "P s"
  shows "\<exists>t. fold_r f xs s = Inr t \<and> P t"
  using assms
proof (induction xs arbitrary: s)
  case (Cons x xs)
  then obtain u where "f x s = Inr u" "P u" by (metis list.set_intros(1))
  with Cons show ?case by auto
qed auto

text \<open>\<open>map_r f xs\<close> collects the results of \<open>f\<close> in order.\<close>

fun map_r :: "('a \<Rightarrow> 'b res) \<Rightarrow> 'a list \<Rightarrow> 'b list res" where
  "map_r f [] = Inr []"
| "map_r f (x # xs) = rbind (f x) (\<lambda>y. rbind (map_r f xs) (\<lambda>ys. Inr (y # ys)))"

section \<open>Unsigned 32-bit arithmetic on naturals\<close>

text \<open>
  Sizes and offsets are \<^verbatim>\<open>UInt32\<close> in the source. The model keeps them as naturals below
  $2^{32}$ and writes the wrap-around of their sums and differences out.
\<close>

definition add32 :: "nat \<Rightarrow> nat \<Rightarrow> nat" where
  "add32 a b = (a + b) mod 2 ^ 32"

definition sub32 :: "nat \<Rightarrow> nat \<Rightarrow> nat" where
  "sub32 a b = (a + 2 ^ 32 - b) mod 2 ^ 32"

lemma add32_exact [simp]: "a + b < 2 ^ 32 \<Longrightarrow> add32 a b = a + b"
  by (simp add: add32_def)

lemma sub32_exact [simp]: "b \<le> a \<Longrightarrow> a < 2 ^ 32 \<Longrightarrow> sub32 a b = a - b"
  by (simp add: sub32_def mod_if)

text \<open>Evaluation goes through binary integers.\<close>

lemma add32_code [code]: "add32 a b = nat ((int a + int b) mod 2 ^ 32)"
  by (simp add: add32_def nat_mod_distrib nat_add_distrib)

lemma sub32_code [code]: "sub32 a b = nat (max 0 (int a + 2 ^ 32 - int b) mod 2 ^ 32)"
  by (auto simp: sub32_def nat_mod_distrib nat_diff_distrib nat_add_distrib max_def)

section \<open>Checked access to buffers\<close>

definition nth_r :: "'a list \<Rightarrow> nat \<Rightarrow> 'a res" where
  "nth_r xs i = (if i < length xs then Inr (xs ! i) else Inl Out_Of_Bounds)"

definition upd_r :: "'a list \<Rightarrow> nat \<Rightarrow> 'a \<Rightarrow> 'a list res" where
  "upd_r xs i v = (if i < length xs then Inr (xs[i := v]) else Inl Out_Of_Bounds)"

text \<open>\<open>read_n b i n\<close> are the \<open>n\<close> elements \<^verbatim>\<open>std::copy_n(&b[i], n, ...)\<close> reads;
  \<open>write_n d i xs\<close> is the destination after \<^verbatim>\<open>std::copy_n(xs, n, &d[i])\<close>.\<close>

definition read_n :: "'a list \<Rightarrow> nat \<Rightarrow> nat \<Rightarrow> 'a list res" where
  "read_n b i n = (if i + n \<le> length b then Inr (take n (drop i b)) else Inl Out_Of_Bounds)"

definition overwrite :: "nat \<Rightarrow> 'a list \<Rightarrow> 'a list \<Rightarrow> 'a list" where
  "overwrite i xs d = take i d @ xs @ drop (i + length xs) d"

definition write_n :: "'a list \<Rightarrow> nat \<Rightarrow> 'a list \<Rightarrow> 'a list res" where
  "write_n d i xs =
     (if i + length xs \<le> length d then Inr (overwrite i xs d) else Inl Out_Of_Bounds)"

definition deref :: "byte_ptr \<Rightarrow> u8 list res" where
  "deref p = (case p of None \<Rightarrow> Inl Null_Deref | Some b \<Rightarrow> Inr b)"

lemma nth_r_eq_Inr [res_simps]: "nth_r xs i = Inr v \<longleftrightarrow> i < length xs \<and> v = xs ! i"
  by (auto simp: nth_r_def)

lemma upd_r_eq_Inr [res_simps]: "upd_r xs i v = Inr ys \<longleftrightarrow> i < length xs \<and> ys = xs[i := v]"
  by (auto simp: upd_r_def)

lemma read_n_eq_Inr [res_simps]:
  "read_n b i n = Inr xs \<longleftrightarrow> i + n \<le> length b \<and> xs = take n (drop i b)"
  by (auto simp: read_n_def)

lemma write_n_eq_Inr [res_simps]:
  "write_n d i xs = Inr d' \<longleftrightarrow>
     i + length xs \<le> length d \<and> d' = overwrite i xs d"
  by (auto simp: write_n_def)

lemma deref_eq_Inr [res_simps]: "deref p = Inr b \<longleftrightarrow> p = Some b"
  by (cases p) (auto simp: deref_def)

lemma nth_r_ok [simp]: "i < length xs \<Longrightarrow> nth_r xs i = Inr (xs ! i)"
  by (simp add: nth_r_def)

lemma upd_r_ok [simp]: "i < length xs \<Longrightarrow> upd_r xs i v = Inr (xs[i := v])"
  by (simp add: upd_r_def)

lemma read_n_ok [simp]: "i + n \<le> length b \<Longrightarrow> read_n b i n = Inr (take n (drop i b))"
  by (simp add: read_n_def)

lemma write_n_ok [simp]:
  "i + length xs \<le> length d \<Longrightarrow> write_n d i xs = Inr (overwrite i xs d)"
  by (simp add: write_n_def)

lemma deref_Some [simp]: "deref (Some b) = Inr b"
  by (simp add: deref_def)

lemma length_overwrite [simp]: "i + length xs \<le> length d \<Longrightarrow> length (overwrite i xs d) = length d"
  by (simp add: overwrite_def)

lemma overwrite_all [simp]: "length xs = length d \<Longrightarrow> overwrite 0 xs d = xs"
  by (simp add: overwrite_def)

lemma read_overwrite [simp]:
  "i + length xs \<le> length d \<Longrightarrow> take (length xs) (drop i (overwrite i xs d)) = xs"
  by (simp add: overwrite_def)

lemma nth_overwrite:
  "i + length xs \<le> length d \<Longrightarrow> k < length d \<Longrightarrow>
     overwrite i xs d ! k = (if i \<le> k \<and> k < i + length xs then xs ! (k - i) else d ! k)"
  by (auto simp: overwrite_def nth_append)

section \<open>Lists\<close>

lemma find_Some_iff_set:
  "(\<exists>x. find P xs = Some x) \<longleftrightarrow> (\<exists>x \<in> set xs. P x)"
  by (metis find_None_iff not_None_eq)

lemma find_SomeD: "find P xs = Some x \<Longrightarrow> P x \<and> x \<in> set xs"
  by (metis find_Some_iff nth_mem)

lemma list_all2_update_same:
  "list_all2 R xs ys \<Longrightarrow> R x y \<Longrightarrow> list_all2 R (xs[i := x]) (ys[i := y])"
  by (simp add: list_all2_update_cong)

lemma list_all2_in_right: "list_all2 R xs ys \<Longrightarrow> y \<in> set ys \<Longrightarrow> \<exists>x \<in> set xs. R x y"
  by (induction rule: list_all2_induct) auto

lemma map_update_same: "i < length xs \<Longrightarrow> f y = f (xs ! i) \<Longrightarrow> map f (xs[i := y]) = map f xs"
  by (simp add: map_update list_update_same_conv)

lemma list_all_upd: "list_all P xs \<Longrightarrow> P x \<Longrightarrow> list_all P (xs[i := x])"
  unfolding list_all_iff using set_update_subset_insert [of xs i x] by blast

lemma length_filter_update:
  assumes "i < length xs"
  shows "int (length (filter P (xs[i := x]))) =
    int (length (filter P xs)) - (if P (xs ! i) then 1 else 0) + (if P x then 1 else 0)"
  using assms
proof (induction xs arbitrary: i)
  case (Cons y ys)
  show ?case
  proof (cases i)
    case (Suc j)
    with Cons.prems have "j < length ys" by simp
    from Cons.IH [OF this] show ?thesis by (auto simp: Suc split: if_splits)
  qed (use Cons.prems in auto)
qed simp

section \<open>Fuel\<close>

named_theorems live_intros \<open>rules that show that a computation does not run out of fuel\<close>

definition live :: "'a res \<Rightarrow> bool" where
  "live m \<longleftrightarrow> m \<noteq> Inl Out_Of_Fuel"

lemma live_Inr [live_intros]: "live (Inr x)"
  by (simp add: live_def)

lemma live_Inl [live_intros]: "err \<noteq> Out_Of_Fuel \<Longrightarrow> live (Inl err)"
  by (simp add: live_def)

lemma live_rbind [live_intros]: "live m \<Longrightarrow> (\<And>x. m = Inr x \<Longrightarrow> live (f x)) \<Longrightarrow> live (rbind m f)"
  by (cases m) (auto simp: live_def)

lemma live_if [live_intros]: "(c \<Longrightarrow> live m) \<Longrightarrow> (\<not> c \<Longrightarrow> live n) \<Longrightarrow> live (if c then m else n)"
  by simp

lemma live_prod [live_intros]: "(\<And>x y. p = (x, y) \<Longrightarrow> live (f x y)) \<Longrightarrow> live (case p of (x, y) \<Rightarrow> f x y)"
  by (cases p) simp

lemma live_option [live_intros]:
  "(p = None \<Longrightarrow> live m) \<Longrightarrow> (\<And>x. p = Some x \<Longrightarrow> live (f x)) \<Longrightarrow> live (case p of None \<Rightarrow> m | Some x \<Rightarrow> f x)"
  by (cases p) simp_all

lemma live_fold_r [live_intros]: "(\<And>x s. live (f x s)) \<Longrightarrow> live (fold_r f xs s)"
  by (induction xs arbitrary: s) (auto intro!: live_intros)

lemma live_nth_r [live_intros]: "live (nth_r xs n)"
  by (simp add: nth_r_def live_def)

lemma live_upd_r [live_intros]: "live (upd_r xs n x)"
  by (simp add: upd_r_def live_def)

lemma live_read_n [live_intros]: "live (read_n xs n k)"
  by (simp add: read_n_def live_def)

lemma live_write_n [live_intros]: "live (write_n xs n ys)"
  by (simp add: write_n_def live_def)

lemma live_map_r [live_intros]: "(\<And>x. live (f x)) \<Longrightarrow> live (map_r f xs)"
  by (induction xs) (auto intro!: live_intros)

end
