(* ===== verification/Dish.thy ===== *)
theory Dish
  imports Prelude
begin

text \<open>
  The constants of the DISH compression scheme (\<^verbatim>\<open>cache/compress_utils.h\<close>), the
  4-byte granules of a cache line, and the per-cache compression controller
  \<^verbatim>\<open>CacheCompressionCntlr\<close> (\<^verbatim>\<open>cache/cache.h\<close>).
\<close>

unbundle bit_operations_syntax

section \<open>Constants\<close>

definition SUPERBLOCK_SIZE :: nat where "SUPERBLOCK_SIZE = 4"
definition SCHEME1_DICT_SIZE :: nat where "SCHEME1_DICT_SIZE = 8"
definition SCHEME2_DICT_SIZE :: nat where "SCHEME2_DICT_SIZE = 4"
definition GRANULARITY_BYTES :: nat where "GRANULARITY_BYTES = 4"
definition BLOCK_ENTRIES :: nat where "BLOCK_ENTRIES = 16"
definition SCHEME2_OFFSET_BITS :: nat where "SCHEME2_OFFSET_BITS = 4"
definition SCHEME2_OFFSET_MASK :: u32 where "SCHEME2_OFFSET_MASK = 0xf"

lemmas dish_consts = SUPERBLOCK_SIZE_def SCHEME1_DICT_SIZE_def SCHEME2_DICT_SIZE_def
  GRANULARITY_BYTES_def BLOCK_ENTRIES_def SCHEME2_OFFSET_BITS_def SCHEME2_OFFSET_MASK_def

datatype scheme_t = INVALID | UNCOMPRESSED | SCHEME1 | SCHEME2

section \<open>Lines as 4-byte granules\<close>

text \<open>
  \<^verbatim>\<open>reinterpret_cast<const UInt32*>\<close> on a byte buffer reads little-endian words (the
  simulator runs as a Pin tool on x86). \<open>chunks bs\<close> are the words of a buffer in order;
  \<open>rd_chunks p n\<close> are the first \<open>n\<close> of them, where all \<open>4 * n\<close> bytes must be readable.
\<close>

definition word32 :: "u8 \<Rightarrow> u8 \<Rightarrow> u8 \<Rightarrow> u8 \<Rightarrow> u32" where
  "word32 a b c d =
     ucast a OR push_bit 8 (ucast b) OR push_bit 16 (ucast c) OR push_bit 24 (ucast d)"

fun chunks :: "u8 list \<Rightarrow> u32 list" where
  "chunks (a # b # c # d # bs) = word32 a b c d # chunks bs"
| "chunks _ = []"

definition rd_chunks :: "u8 list \<Rightarrow> nat \<Rightarrow> u32 list res" where
  "rd_chunks bs n =
     (if n * GRANULARITY_BYTES \<le> length bs then Inr (take n (chunks bs)) else Inl Out_Of_Bounds)"

text \<open>The bytes of a granule and of a list of granules: the inverse direction.\<close>

definition bytes_of :: "u32 \<Rightarrow> u8 list" where
  "bytes_of w = [ucast w, ucast (drop_bit 8 w), ucast (drop_bit 16 w), ucast (drop_bit 24 w)]"

definition unchunks :: "u32 list \<Rightarrow> u8 list" where
  "unchunks ws = concat (map bytes_of ws)"

lemma not_bit_u8 [simp]:
  "\<not> bit (a :: u8) (8 + n)" "\<not> bit (a :: u8) (16 + n)" "\<not> bit (a :: u8) (24 + n)"
  using bit_imp_le_length [of a] by force+

lemma bytes_of_word32: "bytes_of (word32 a b c d) = [a, b, c, d]"
  unfolding bytes_of_def word32_def
  by (auto intro!: bit_word_eqI simp: bit_simps)

lemma unchunks_chunks: "4 dvd length bs \<Longrightarrow> unchunks (chunks bs) = bs"
proof (induction bs rule: chunks.induct)
  case (1 a b c d bs)
  from "1.prems" have "4 dvd length bs" by simp presburger
  with 1 show ?case by (simp add: unchunks_def bytes_of_word32)
qed (auto simp: unchunks_def, presburger+)

lemma length_chunks [simp]: "length (chunks bs) = length bs div 4"
  by (induction bs rule: chunks.induct) auto

lemma rd_chunks_eq_Inr [res_simps]:
  "rd_chunks bs n = Inr ws \<longleftrightarrow> n * 4 \<le> length bs \<and> ws = take n (chunks bs)"
  by (auto simp: rd_chunks_def GRANULARITY_BYTES_def)

lemma rd_chunks_ok [simp]: "n * 4 \<le> length bs \<Longrightarrow> rd_chunks bs n = Inr (take n (chunks bs))"
  by (simp add: rd_chunks_def GRANULARITY_BYTES_def)

text \<open>The two halves a granule is split into by the second scheme.\<close>

definition upper :: "u32 \<Rightarrow> u32" where
  "upper w = drop_bit SCHEME2_OFFSET_BITS w"

definition lower :: "u32 \<Rightarrow> u8" where
  "lower w = ucast (w AND SCHEME2_OFFSET_MASK)"

definition join :: "u32 \<Rightarrow> u8 \<Rightarrow> u32" where
  "join u l = push_bit SCHEME2_OFFSET_BITS u OR ucast l"

lemma join_upper_lower [simp]: "join (upper w) (lower w) = w"
proof (rule bit_word_eqI)
  fix n assume "n < LENGTH(32)"
  have "bit (0xf :: u32) n \<longleftrightarrow> n < 4"
    using \<open>n < LENGTH(32)\<close> bit_mask_iff [where ?'a = u32, of 4 n]
    by (simp add: mask_eq_exp_minus_1)
  then show "bit (join (upper w) (lower w)) n = bit w n"
    using \<open>n < LENGTH(32)\<close>
    by (auto simp: join_def upper_def lower_def SCHEME2_OFFSET_BITS_def SCHEME2_OFFSET_MASK_def
        bit_simps)
qed

section \<open>The compression controller\<close>

record cache_compression_cntlr =
  m_compressible :: bool
  m_change_scheme_otf :: bool
  m_prune_dish_entries :: bool
  num_scheme1 :: int
  num_scheme2 :: int

definition CacheCompressionCntlr :: "bool \<Rightarrow> bool \<Rightarrow> bool \<Rightarrow> cache_compression_cntlr" where
  "CacheCompressionCntlr compressible otf prune =
     \<lparr> m_compressible = compressible, m_change_scheme_otf = otf,
       m_prune_dish_entries = prune, num_scheme1 = 0, num_scheme2 = 0 \<rparr>"

definition getDefaultScheme :: "cache_compression_cntlr \<Rightarrow> scheme_t" where
  "getDefaultScheme c = (if num_scheme1 c \<ge> num_scheme2 c then SCHEME1 else SCHEME2)"

fun cntlr_evict :: "scheme_t \<Rightarrow> cache_compression_cntlr \<Rightarrow> cache_compression_cntlr" where
  "cntlr_evict SCHEME1 c = c\<lparr>num_scheme1 := num_scheme1 c - 1\<rparr>"
| "cntlr_evict SCHEME2 c = c\<lparr>num_scheme2 := num_scheme2 c - 1\<rparr>"
| "cntlr_evict _ c = c"

fun cntlr_insert :: "scheme_t \<Rightarrow> cache_compression_cntlr \<Rightarrow> cache_compression_cntlr" where
  "cntlr_insert SCHEME1 c = c\<lparr>num_scheme1 := num_scheme1 c + 1\<rparr>"
| "cntlr_insert SCHEME2 c = c\<lparr>num_scheme2 := num_scheme2 c + 1\<rparr>"
| "cntlr_insert _ c = c"

definition canCompress :: "cache_compression_cntlr \<Rightarrow> bool" where
  "canCompress c = m_compressible c"

definition canChangeSchemeOTF :: "cache_compression_cntlr \<Rightarrow> bool" where
  "canChangeSchemeOTF c = (m_compressible c \<and> m_change_scheme_otf c)"

definition shouldPruneDISHEntries :: "cache_compression_cntlr \<Rightarrow> bool" where
  "shouldPruneDISHEntries c = (m_compressible c \<and> m_prune_dish_entries c)"

lemmas cntlr_defs = getDefaultScheme_def canCompress_def canChangeSchemeOTF_def
  shouldPruneDISHEntries_def

text \<open>The switches are fixed at construction: no operation of the controller writes them.\<close>

lemma cntlr_config [simp]:
  "m_compressible (cntlr_insert s c) = m_compressible c"
  "m_compressible (cntlr_evict s c) = m_compressible c"
  "m_change_scheme_otf (cntlr_insert s c) = m_change_scheme_otf c"
  "m_change_scheme_otf (cntlr_evict s c) = m_change_scheme_otf c"
  "m_prune_dish_entries (cntlr_insert s c) = m_prune_dish_entries c"
  "m_prune_dish_entries (cntlr_evict s c) = m_prune_dish_entries c"
  by (cases s; simp)+

text \<open>What one superblock frame in scheme \<open>s\<close> contributes to the two counters.\<close>

definition scheme_count :: "scheme_t \<Rightarrow> cache_compression_cntlr \<Rightarrow> int" where
  "scheme_count s c = (case s of SCHEME1 \<Rightarrow> num_scheme1 c | SCHEME2 \<Rightarrow> num_scheme2 c | _ \<Rightarrow> 0)"

end
