(* ===== verification/Block_Data.thy ===== *)
theory Block_Data
  imports Dish
begin

text \<open>
  The superblock frame \<^verbatim>\<open>BlockData\<close> (\<^verbatim>\<open>cache/block_data.h\<close>, \<^verbatim>\<open>block_data.cc\<close>): up to
  four cache lines that share one frame, kept raw in \<open>m_data\<close> and, when there is more than
  one, encoded by a dictionary of 4-byte values (scheme 1) or of 28-bit prefixes (scheme 2).

  This theory holds the record, one definition per member function and the facts that need
  no invariant. The hash containers of the source are lists in iteration order, with new
  elements at the front (the order in which libstdc++ keeps elements of distinct buckets); the
  properties proved of them do not depend on that order. \<^verbatim>\<open>dump\<close>, the log lines and the
  registration of statistics are left out.
\<close>

unbundle bit_operations_syntax

section \<open>Hash containers\<close>

definition uset_insert :: "'a \<Rightarrow> 'a list \<Rightarrow> 'a list" where
  "uset_insert x xs = (if x \<in> set xs then xs else x # xs)"

definition umap_insert :: "'k \<Rightarrow> 'v \<Rightarrow> ('k \<times> 'v) list \<Rightarrow> ('k \<times> 'v) list" where
  "umap_insert k v m = (if k \<in> fst ` set m then m else (k, v) # m)"

definition umap_erase :: "'k \<Rightarrow> ('k \<times> 'v) list \<Rightarrow> ('k \<times> 'v) list" where
  "umap_erase k m = filter (\<lambda>e. fst e \<noteq> k) m"

section \<open>The record\<close>

record block_data =
  m_blocksize :: nat
  m_chunks_per_block :: nat
  m_scheme :: scheme_t
  m_valid :: "bool list"
  m_data :: "u8 list list"
  m_dict :: "(u8 \<times> u32) list"
  m_free_ptrs :: "u8 list"
  m_used_ptrs :: "u8 list"
  m_data_ptrs :: "u8 list list"
  m_data_offsets :: "u8 list list"
  m_otf_switch :: u64
  m_scheme1_1x :: u64
  m_scheme1_2x :: u64
  m_scheme1_3x :: u64
  m_scheme1_4x :: u64
  m_scheme2_1x :: u64
  m_scheme2_2x :: u64
  m_scheme2_3x :: u64
  m_scheme2_4x :: u64
  m_uncompressed_1x :: u64

section \<open>Dictionary\<close>

definition lookupDictEntry :: "block_data \<Rightarrow> u32 \<Rightarrow> u8 option" where
  "lookupDictEntry b value = map_option fst (find (\<lambda>entry. snd entry = value) (m_dict b))"

definition insertDictEntry :: "u32 \<Rightarrow> block_data \<Rightarrow> (u8 \<times> block_data) res" where
  "insertDictEntry value b =
     (case lookupDictEntry b value of
        Some ptr \<Rightarrow> Inr (ptr, b)
      | None \<Rightarrow>
          (case m_free_ptrs b of
             [] \<Rightarrow> Inl Log_Error
           | ptr # free \<Rightarrow>
               Inr (ptr, b\<lparr> m_free_ptrs := free,
                             m_dict := umap_insert ptr value (m_dict b),
                             m_used_ptrs := uset_insert ptr (m_used_ptrs b) \<rparr>)))"

definition removeDictEntry :: "u8 \<Rightarrow> block_data \<Rightarrow> block_data res" where
  "removeDictEntry ptr b =
     (if ptr \<notin> set (m_used_ptrs b) then Inl Log_Error
      else Inr (b\<lparr> m_used_ptrs := filter (\<lambda>p. p \<noteq> ptr) (m_used_ptrs b),
                   m_dict := umap_erase ptr (m_dict b),
                   m_free_ptrs := uset_insert ptr (m_free_ptrs b) \<rparr>))"

text \<open>\<^verbatim>\<open>for (UInt8 p = 0; p < size; ++p) m_free_ptrs.insert(p);\<close>\<close>

definition fill_free :: "nat \<Rightarrow> u8 list \<Rightarrow> u8 list" where
  "fill_free n fr = fold uset_insert (map of_nat [0..<n]) fr"

definition clear_dict :: "block_data \<Rightarrow> block_data" where
  "clear_dict b = b\<lparr> m_dict := [], m_free_ptrs := [], m_used_ptrs := [] \<rparr>"

definition changeScheme :: "scheme_t \<Rightarrow> block_data \<Rightarrow> block_data" where
  "changeScheme new_scheme b =
     (let b1 =
        (case (m_scheme b, new_scheme) of
           (UNCOMPRESSED, SCHEME1) \<Rightarrow>
             b\<lparr> m_free_ptrs := fill_free SCHEME1_DICT_SIZE (m_free_ptrs b) \<rparr>
         | (UNCOMPRESSED, SCHEME2) \<Rightarrow>
             b\<lparr> m_free_ptrs := fill_free SCHEME2_DICT_SIZE (m_free_ptrs b) \<rparr>
         | (SCHEME1, UNCOMPRESSED) \<Rightarrow> clear_dict b
         | (SCHEME1, SCHEME2) \<Rightarrow>
             (clear_dict b)\<lparr> m_otf_switch := m_otf_switch b + 1,
                             m_free_ptrs := fill_free SCHEME2_DICT_SIZE [] \<rparr>
         | (SCHEME2, UNCOMPRESSED) \<Rightarrow> clear_dict b
         | (SCHEME2, SCHEME1) \<Rightarrow>
             (clear_dict b)\<lparr> m_otf_switch := m_otf_switch b + 1,
                             m_free_ptrs := fill_free SCHEME1_DICT_SIZE [] \<rparr>
         | _ \<Rightarrow> b)
      in b1\<lparr> m_scheme := new_scheme \<rparr>)"

section \<open>Construction and validity\<close>

definition BlockData :: "nat \<Rightarrow> block_data" where
  "BlockData blocksize =
     changeScheme UNCOMPRESSED
     \<lparr> m_blocksize = blocksize, m_chunks_per_block = blocksize div GRANULARITY_BYTES,
       m_scheme = UNCOMPRESSED, m_valid = replicate SUPERBLOCK_SIZE False,
       m_data = replicate SUPERBLOCK_SIZE (replicate blocksize 0),
       m_dict = [], m_free_ptrs = [], m_used_ptrs = [],
       m_data_ptrs = replicate SUPERBLOCK_SIZE (replicate BLOCK_ENTRIES 0),
       m_data_offsets = replicate SUPERBLOCK_SIZE (replicate BLOCK_ENTRIES 0),
       m_otf_switch = 0, m_scheme1_1x = 0, m_scheme1_2x = 0, m_scheme1_3x = 0,
       m_scheme1_4x = 0, m_scheme2_1x = 0, m_scheme2_2x = 0, m_scheme2_3x = 0,
       m_scheme2_4x = 0, m_uncompressed_1x = 0 \<rparr>"

definition bd_isValid :: "block_data \<Rightarrow> bool" where
  "bd_isValid b = list_ex (\<lambda>i. m_valid b ! i) [0..<SUPERBLOCK_SIZE]"

definition bd_isValid_at :: "block_data \<Rightarrow> nat \<Rightarrow> bool res" where
  "bd_isValid_at b block_id =
     (if \<not> block_id < SUPERBLOCK_SIZE then Inl Assert_Failed else nth_r (m_valid b) block_id)"

definition getFirstValid :: "block_data \<Rightarrow> nat" where
  "getFirstValid b =
     (case find (\<lambda>i. m_valid b ! i) [0..<SUPERBLOCK_SIZE] of
        Some i \<Rightarrow> i | None \<Rightarrow> SUPERBLOCK_SIZE)"

definition getNumValid :: "block_data \<Rightarrow> nat" where
  "getNumValid b = length (filter (\<lambda>i. m_valid b ! i) [0..<SUPERBLOCK_SIZE])"

section \<open>Compressibility\<close>

text \<open>\<^verbatim>\<open>std::copy_n(&src[i], n, &dst[j])\<close>: the new destination.\<close>

definition copy_n :: "'a list \<Rightarrow> nat \<Rightarrow> nat \<Rightarrow> 'a list \<Rightarrow> nat \<Rightarrow> 'a list res" where
  "copy_n src i n dst j = rbind (read_n src i n) (\<lambda>xs. write_n dst j xs)"

text \<open>
  The line as it would be after the write, as the compressibility checks build it: the three
  \<^verbatim>\<open>copy_n\<close> calls into \<^verbatim>\<open>test_data\<close>. The checks differ in where they start reading
  \<^verbatim>\<open>wr_data\<close>: at \<open>src = offset\<close> in three of the four copies of this code and at \<open>src = 0\<close>
  in one.
\<close>

definition test_data :: "block_data \<Rightarrow> nat \<Rightarrow> nat \<Rightarrow> nat \<Rightarrow> u8 list \<Rightarrow> nat \<Rightarrow> u8 list res" where
  "test_data b block_id offset src wr bytes =
     rbind (nth_r (m_data b) block_id) (\<lambda>old.
     rbind (copy_n old 0 offset (replicate (m_blocksize b) 0) 0) (\<lambda>t1.
     rbind (copy_n wr src bytes t1 offset) (\<lambda>t2.
     copy_n old (add32 offset bytes) (sub32 (m_blocksize b) (add32 offset bytes))
       t2 (add32 offset bytes))))"

text \<open>The granules of line \<open>i\<close> of the frame (\<open>i\<close> is a loop index below
  \<^verbatim>\<open>SUPERBLOCK_SIZE\<close>, and every line has \<open>m_blocksize\<close> bytes).\<close>

definition line_chunks :: "block_data \<Rightarrow> nat \<Rightarrow> u32 list" where
  "line_chunks b i = take (m_chunks_per_block b) (chunks (m_data b ! i))"

text \<open>The loop that spends one free dictionary entry per granule that is not in the
  dictionary, and stops when none is left.\<close>

fun fits_vacancies :: "(u32 \<Rightarrow> bool) \<Rightarrow> nat \<Rightarrow> u32 list \<Rightarrow> bool" where
  "fits_vacancies present tmp_vacancies [] = True"
| "fits_vacancies present tmp_vacancies (c # cs) =
     (if present c then fits_vacancies present tmp_vacancies cs
      else if tmp_vacancies = 0 then False
      else fits_vacancies present (tmp_vacancies - 1) cs)"

definition in_dict :: "block_data \<Rightarrow> u32 \<Rightarrow> bool" where
  "in_dict b value = (lookupDictEntry b value \<noteq> None)"

text \<open>The loop over the other valid lines in the \<^verbatim>\<open>SCHEME2\<close> branch of
  \<^verbatim>\<open>isScheme1Compressible\<close>: its inner loop runs over \<^verbatim>\<open>j\<close> but reads
  \<^verbatim>\<open>data_chunks[i]\<close>, so that one granule of each line is collected.\<close>

definition rd_chunk :: "u8 list \<Rightarrow> nat \<Rightarrow> u32 res" where
  "rd_chunk bs i =
     (if (i + 1) * GRANULARITY_BYTES \<le> length bs then Inr (chunks bs ! i) else Inl Out_Of_Bounds)"

definition other_chunks_i :: "block_data \<Rightarrow> nat \<Rightarrow> u32 list res" where
  "other_chunks_i b block_id =
     fold_r (\<lambda>i acc.
         if m_valid b ! i \<and> i \<noteq> block_id
         then fold_r (\<lambda>j acc. rbind (rd_chunk (m_data b ! i) i) (\<lambda>c. Inr (c # acc)))
                [0..<m_chunks_per_block b] acc
         else Inr acc)
       [0..<SUPERBLOCK_SIZE] []"

definition other_uppers :: "block_data \<Rightarrow> nat \<Rightarrow> u32 list" where
  "other_uppers b block_id =
     concat (map (\<lambda>i. if m_valid b ! i \<and> i \<noteq> block_id then map upper (line_chunks b i) else [])
       [0..<SUPERBLOCK_SIZE])"

definition isScheme1Compressible ::
    "block_data \<Rightarrow> nat \<Rightarrow> nat \<Rightarrow> byte_ptr \<Rightarrow> nat \<Rightarrow> cache_compression_cntlr \<Rightarrow> bool res" where
  "isScheme1Compressible b block_id offset wr_data bytes cntlr =
     (case wr_data of None \<Rightarrow> Inl Assert_Failed
      | Some wr \<Rightarrow>
        if \<not> bd_isValid b then Inr False
        else if \<not> canCompress cntlr then Inr False
        else rbind (bd_isValid_at b block_id) (\<lambda>v.
          if \<not> ((\<not> v \<and> offset = 0 \<and> bytes = m_blocksize b) \<or> v) then Inl Assert_Failed
          else case m_scheme b of
            SCHEME1 \<Rightarrow>
              rbind (test_data b block_id offset offset wr bytes) (\<lambda>t.
              rbind (rd_chunks t (m_chunks_per_block b)) (\<lambda>cs.
              Inr (fits_vacancies (in_dict b) (length (m_free_ptrs b)) cs)))
          | SCHEME2 \<Rightarrow>
              if canChangeSchemeOTF cntlr then
                rbind (other_chunks_i b block_id) (\<lambda>others.
                rbind (test_data b block_id offset offset wr bytes) (\<lambda>t.
                rbind (rd_chunks t (m_chunks_per_block b)) (\<lambda>cs.
                Inr (card (set (others @ cs)) \<le> SCHEME1_DICT_SIZE))))
              else Inr False
          | UNCOMPRESSED \<Rightarrow>
              (let u = getFirstValid b;
                   others = (if u \<noteq> block_id then line_chunks b u else [])
               in rbind (rd_chunks wr (m_chunks_per_block b)) (\<lambda>cs.
                  Inr (card (set (others @ cs)) \<le> SCHEME1_DICT_SIZE)))
          | INVALID \<Rightarrow> Inr False))"

definition isScheme2Compressible ::
    "block_data \<Rightarrow> nat \<Rightarrow> nat \<Rightarrow> byte_ptr \<Rightarrow> nat \<Rightarrow> cache_compression_cntlr \<Rightarrow> bool res" where
  "isScheme2Compressible b block_id offset wr_data bytes cntlr =
     (case wr_data of None \<Rightarrow> Inl Assert_Failed
      | Some wr \<Rightarrow>
        if \<not> bd_isValid b then Inr False
        else if \<not> canCompress cntlr then Inr False
        else rbind (bd_isValid_at b block_id) (\<lambda>v.
          if \<not> ((\<not> v \<and> offset = 0 \<and> bytes = m_blocksize b) \<or> v) then Inl Assert_Failed
          else case m_scheme b of
            SCHEME1 \<Rightarrow>
              if canChangeSchemeOTF cntlr then
                rbind (test_data b block_id offset offset wr bytes) (\<lambda>t.
                rbind (rd_chunks t (m_chunks_per_block b)) (\<lambda>cs.
                Inr (card (set (other_uppers b block_id @ map upper cs)) \<le> SCHEME2_DICT_SIZE)))
              else Inr False
          | SCHEME2 \<Rightarrow>
              rbind (test_data b block_id offset 0 wr bytes) (\<lambda>t.
              rbind (rd_chunks t (m_chunks_per_block b)) (\<lambda>cs.
              Inr (fits_vacancies (in_dict b) (length (m_free_ptrs b)) (map upper cs))))
          | UNCOMPRESSED \<Rightarrow>
              (let u = getFirstValid b;
                   others = (if u \<noteq> block_id then map upper (line_chunks b u) else []);
                   n_chunks = bytes div GRANULARITY_BYTES
               in rbind (rd_chunks wr n_chunks) (\<lambda>cs.
                  Inr (card (set (others @ map upper cs)) \<le> SCHEME2_DICT_SIZE)))
          | INVALID \<Rightarrow> Inr False))"

definition isCompressible ::
    "block_data \<Rightarrow> nat \<Rightarrow> nat \<Rightarrow> byte_ptr \<Rightarrow> nat \<Rightarrow> scheme_t \<Rightarrow>
     cache_compression_cntlr \<Rightarrow> bool res" where
  "isCompressible b block_id offset wr_data bytes try_scheme cntlr =
     (if \<not> add32 offset bytes \<le> m_blocksize b then Inl Assert_Failed
      else if \<not> block_id < SUPERBLOCK_SIZE then Inl Assert_Failed
      else if canCompress cntlr then
        (if \<not> bd_isValid b then Inr True
         else case try_scheme of
             SCHEME1 \<Rightarrow> isScheme1Compressible b block_id offset wr_data bytes cntlr
           | SCHEME2 \<Rightarrow> isScheme2Compressible b block_id offset wr_data bytes cntlr
           | UNCOMPRESSED \<Rightarrow> nth_r (m_valid b) block_id
           | INVALID \<Rightarrow> Inl Log_Error)
      else if try_scheme = UNCOMPRESSED then nth_r (m_valid b) block_id else Inr False)"

section \<open>Compaction\<close>

text \<open>Whether a valid line holds a granule equal to the dictionary value. Both compaction
  routines compare the stored value with the whole granule.\<close>

definition entry_used :: "block_data \<Rightarrow> u32 \<Rightarrow> bool" where
  "entry_used b v =
     list_ex (\<lambda>i. m_valid b ! i \<and> v \<in> set (line_chunks b i)) [0..<SUPERBLOCK_SIZE]"

definition erase_entry :: "u8 \<Rightarrow> block_data \<Rightarrow> block_data" where
  "erase_entry ptr b =
     b\<lparr> m_used_ptrs := filter (\<lambda>p. p \<noteq> ptr) (m_used_ptrs b),
        m_dict := umap_erase ptr (m_dict b),
        m_free_ptrs := uset_insert ptr (m_free_ptrs b) \<rparr>"

definition compactScheme1 :: "block_data \<Rightarrow> block_data" where
  "compactScheme1 b =
     fold (\<lambda>entry b. if entry_used b (snd entry) then b else erase_entry (fst entry) b)
       (m_dict b) b"

definition compactScheme2 :: "block_data \<Rightarrow> block_data" where
  "compactScheme2 b =
     fold (\<lambda>entry b. if entry_used b (snd entry) then b else erase_entry (fst entry) b)
       (m_dict b) b"

definition compact :: "block_data \<Rightarrow> block_data res" where
  "compact b =
     (if \<not> bd_isValid b then Inr b
      else case m_scheme b of
          SCHEME1 \<Rightarrow> Inr (compactScheme1 b)
        | SCHEME2 \<Rightarrow> Inr (compactScheme2 b)
        | UNCOMPRESSED \<Rightarrow> Inr b
        | INVALID \<Rightarrow> Inl Assert_Failed)"

section \<open>Compression\<close>

definition set_ptr :: "nat \<Rightarrow> nat \<Rightarrow> u8 \<Rightarrow> block_data \<Rightarrow> block_data res" where
  "set_ptr i j p b =
     rbind (nth_r (m_data_ptrs b) i) (\<lambda>row.
     rbind (upd_r row j p) (\<lambda>row'.
     Inr (b\<lparr> m_data_ptrs := (m_data_ptrs b)[i := row'] \<rparr>)))"

definition set_offset :: "nat \<Rightarrow> nat \<Rightarrow> u8 \<Rightarrow> block_data \<Rightarrow> block_data res" where
  "set_offset i j off b =
     rbind (nth_r (m_data_offsets b) i) (\<lambda>row.
     rbind (upd_r row j off) (\<lambda>row'.
     Inr (b\<lparr> m_data_offsets := (m_data_offsets b)[i := row'] \<rparr>)))"

text \<open>\<^verbatim>\<open>m_data_ptrs[i][j] = insertDictEntry(chunk)\<close> for every granule of a line, and its
  counterpart that also stores the low bits.\<close>

definition put_chunk1 :: "nat \<Rightarrow> nat \<times> u32 \<Rightarrow> block_data \<Rightarrow> block_data res" where
  "put_chunk1 i jc b =
     rbind (insertDictEntry (snd jc) b) (\<lambda>(ptr, b1). set_ptr i (fst jc) ptr b1)"

definition put_chunk2 :: "nat \<Rightarrow> nat \<times> u32 \<Rightarrow> block_data \<Rightarrow> block_data res" where
  "put_chunk2 i jc b =
     rbind (insertDictEntry (upper (snd jc)) b) (\<lambda>(ptr, b1).
     rbind (set_ptr i (fst jc) ptr b1) (\<lambda>b2.
     set_offset i (fst jc) (lower (snd jc)) b2))"

definition encode_line1 :: "nat \<Rightarrow> block_data \<Rightarrow> block_data res" where
  "encode_line1 i b = fold_r (put_chunk1 i) (enumerate 0 (line_chunks b i)) b"

definition encode_line2 :: "nat \<Rightarrow> block_data \<Rightarrow> block_data res" where
  "encode_line2 i b = fold_r (put_chunk2 i) (enumerate 0 (line_chunks b i)) b"

text \<open>The assertions both compression routines open with.\<close>

definition compress_pre ::
    "block_data \<Rightarrow> nat \<Rightarrow> nat \<Rightarrow> byte_ptr \<Rightarrow> nat \<Rightarrow> u8 list res" where
  "compress_pre b block_id offset wr_data bytes =
     (case wr_data of None \<Rightarrow> Inl Assert_Failed
      | Some wr \<Rightarrow>
        if \<not> bd_isValid b then Inl Assert_Failed
        else rbind (bd_isValid_at b block_id) (\<lambda>v.
          if \<not> ((\<not> v \<and> offset = 0 \<and> bytes = m_blocksize b) \<or> v) then Inl Assert_Failed
          else if \<not> ((m_scheme b = UNCOMPRESSED \<and> offset = 0 \<and> bytes = m_blocksize b)
                     \<or> m_scheme b \<noteq> UNCOMPRESSED) then Inl Assert_Failed
          else Inr wr))"

text \<open>\<^verbatim>\<open>std::copy_n(wr_data, bytes, &m_data[block_id][offset])\<close>, reading from the start of
  \<^verbatim>\<open>wr_data\<close>.\<close>

definition store_raw :: "nat \<Rightarrow> nat \<Rightarrow> nat \<Rightarrow> u8 list \<Rightarrow> nat \<Rightarrow> block_data \<Rightarrow> block_data res" where
  "store_raw block_id offset src wr bytes b =
     rbind (nth_r (m_data b) block_id) (\<lambda>old.
     rbind (copy_n wr src bytes old offset) (\<lambda>new.
     Inr (b\<lparr> m_data := (m_data b)[block_id := new] \<rparr>)))"

text \<open>The part of \<^verbatim>\<open>compressScheme1\<close> after the raw copy: enter the line into the
  dictionary, changing the scheme of the frame first where it has another one.\<close>

definition recode1 ::
    "nat \<Rightarrow> block_data \<Rightarrow> cache_compression_cntlr \<Rightarrow> (block_data \<times> cache_compression_cntlr) res" where
  "recode1 block_id b cntlr =
     (case m_scheme b of
        SCHEME1 \<Rightarrow> rbind (encode_line1 block_id b) (\<lambda>b1. Inr (b1, cntlr))
      | UNCOMPRESSED \<Rightarrow>
          (let cntlr1 = cntlr_insert SCHEME1 cntlr;
               b1 = changeScheme SCHEME1 b;
               u = getFirstValid b1
           in rbind (if u \<noteq> block_id then encode_line1 u b1 else Inr b1) (\<lambda>b2.
              rbind (encode_line1 block_id b2) (\<lambda>b3. Inr (b3, cntlr1))))
      | SCHEME2 \<Rightarrow>
          (let cntlr1 = cntlr_insert SCHEME1 (cntlr_evict SCHEME2 cntlr);
               b1 = changeScheme SCHEME1 b
           in rbind (fold_r (\<lambda>i b. if m_valid b ! i then encode_line1 i b else Inr b)
                       [0..<SUPERBLOCK_SIZE] b1) (\<lambda>b2. Inr (b2, cntlr1)))
      | INVALID \<Rightarrow> Inl Assert_Failed)"

definition compressScheme1 ::
    "block_data \<Rightarrow> nat \<Rightarrow> nat \<Rightarrow> byte_ptr \<Rightarrow> nat \<Rightarrow> cache_compression_cntlr \<Rightarrow>
     (block_data \<times> cache_compression_cntlr) res" where
  "compressScheme1 b block_id offset wr_data bytes cntlr =
     rbind (compress_pre b block_id offset wr_data bytes) (\<lambda>wr.
     rbind (isScheme1Compressible b block_id offset wr_data bytes cntlr) (\<lambda>ok.
     if \<not> ok then Inl Assert_Failed
     else rbind (store_raw block_id offset 0 wr bytes b) (\<lambda>b1. recode1 block_id b1 cntlr)))"

definition recode2 ::
    "nat \<Rightarrow> block_data \<Rightarrow> cache_compression_cntlr \<Rightarrow> (block_data \<times> cache_compression_cntlr) res" where
  "recode2 block_id b cntlr =
     (case m_scheme b of
        SCHEME1 \<Rightarrow>
          (let cntlr1 = cntlr_insert SCHEME2 (cntlr_evict SCHEME1 cntlr);
               b1 = changeScheme SCHEME2 b
           in rbind (fold_r (\<lambda>i b. if m_valid b ! i then encode_line2 i b else Inr b)
                       [0..<SUPERBLOCK_SIZE] b1) (\<lambda>b2. Inr (b2, cntlr1)))
      | SCHEME2 \<Rightarrow> rbind (encode_line2 block_id b) (\<lambda>b1. Inr (b1, cntlr))
      | UNCOMPRESSED \<Rightarrow>
          (let cntlr1 = cntlr_insert SCHEME2 cntlr;
               b1 = changeScheme SCHEME2 b;
               u = getFirstValid b1
           in rbind (if u \<noteq> block_id then encode_line2 u b1 else Inr b1) (\<lambda>b2.
              rbind (encode_line2 block_id b2) (\<lambda>b3. Inr (b3, cntlr1))))
      | INVALID \<Rightarrow> Inl Assert_Failed)"

definition compressScheme2 ::
    "block_data \<Rightarrow> nat \<Rightarrow> nat \<Rightarrow> byte_ptr \<Rightarrow> nat \<Rightarrow> cache_compression_cntlr \<Rightarrow>
     (block_data \<times> cache_compression_cntlr) res" where
  "compressScheme2 b block_id offset wr_data bytes cntlr =
     rbind (compress_pre b block_id offset wr_data bytes) (\<lambda>wr.
     rbind (isScheme2Compressible b block_id offset wr_data bytes cntlr) (\<lambda>ok.
     if \<not> ok then Inl Assert_Failed
     else rbind (store_raw block_id offset 0 wr bytes b) (\<lambda>b1. recode2 block_id b1 cntlr)))"

section \<open>Choice of a scheme\<close>

definition getSchemeForWrite ::
    "block_data \<Rightarrow> nat \<Rightarrow> nat \<Rightarrow> byte_ptr \<Rightarrow> nat \<Rightarrow> cache_compression_cntlr \<Rightarrow> scheme_t res" where
  "getSchemeForWrite b block_id offset wr_data bytes cntlr =
     (if \<not> bd_isValid b then Inr INVALID
      else rbind (nth_r (m_valid b) block_id) (\<lambda>v.
        if \<not> v then Inr INVALID
        else case m_scheme b of
          UNCOMPRESSED \<Rightarrow> Inr UNCOMPRESSED
        | SCHEME1 \<Rightarrow>
            rbind (isScheme1Compressible b block_id offset wr_data bytes cntlr) (\<lambda>ok1.
            if ok1 then Inr SCHEME1
            else if canChangeSchemeOTF cntlr then
              rbind (isScheme2Compressible b block_id offset wr_data bytes cntlr) (\<lambda>ok2.
              Inr (if ok2 then SCHEME2 else INVALID))
            else Inr INVALID)
        | SCHEME2 \<Rightarrow>
            rbind (isScheme2Compressible b block_id offset wr_data bytes cntlr) (\<lambda>ok2.
            if ok2 then Inr SCHEME2
            else if canChangeSchemeOTF cntlr then
              rbind (isScheme1Compressible b block_id offset wr_data bytes cntlr) (\<lambda>ok1.
              Inr (if ok1 then SCHEME1 else INVALID))
            else Inr INVALID)
        | INVALID \<Rightarrow> Inl Assert_Failed))"

definition getSchemeForInsertion ::
    "block_data \<Rightarrow> nat \<Rightarrow> byte_ptr \<Rightarrow> cache_compression_cntlr \<Rightarrow> scheme_t res" where
  "getSchemeForInsertion b block_id wr_data cntlr =
     (let s1 = (\<lambda>_::unit. isScheme1Compressible b block_id 0 wr_data (m_blocksize b) cntlr);
          s2 = (\<lambda>_::unit. isScheme2Compressible b block_id 0 wr_data (m_blocksize b) cntlr)
      in if canCompress cntlr then
           (if bd_isValid b then
              rbind (nth_r (m_valid b) block_id) (\<lambda>v.
              if v then Inr INVALID
              else case m_scheme b of
                UNCOMPRESSED \<Rightarrow>
                  (case getDefaultScheme cntlr of
                     SCHEME1 \<Rightarrow>
                       rbind (s1 ()) (\<lambda>ok1. if ok1 then Inr SCHEME1
                       else rbind (s2 ()) (\<lambda>ok2. Inr (if ok2 then SCHEME2 else INVALID)))
                   | SCHEME2 \<Rightarrow>
                       rbind (s2 ()) (\<lambda>ok2. if ok2 then Inr SCHEME2
                       else rbind (s2 ()) (\<lambda>ok2'. Inr (if ok2' then SCHEME1 else INVALID)))
                   | _ \<Rightarrow> Inl Assert_Failed)
              | SCHEME1 \<Rightarrow>
                  rbind (s1 ()) (\<lambda>ok1. if ok1 then Inr SCHEME1
                  else if canChangeSchemeOTF cntlr then
                    rbind (s2 ()) (\<lambda>ok2. Inr (if ok2 then SCHEME2 else INVALID))
                  else Inr INVALID)
              | SCHEME2 \<Rightarrow>
                  rbind (s2 ()) (\<lambda>ok2. if ok2 then Inr SCHEME2
                  else if canChangeSchemeOTF cntlr then
                    rbind (s1 ()) (\<lambda>ok1. Inr (if ok1 then SCHEME1 else INVALID))
                  else Inr INVALID)
              | INVALID \<Rightarrow> Inl Assert_Failed)
            else Inr UNCOMPRESSED)
         else if bd_isValid b then Inr INVALID
         else Inr UNCOMPRESSED)"

section \<open>Public operations\<close>

definition canWriteBlockData ::
    "block_data \<Rightarrow> nat \<Rightarrow> nat \<Rightarrow> byte_ptr \<Rightarrow> nat \<Rightarrow> cache_compression_cntlr \<Rightarrow> bool res" where
  "canWriteBlockData b block_id offset wr_data bytes cntlr =
     (if \<not> ((wr_data = None \<and> offset = 0 \<and> bytes = 0) \<or> wr_data \<noteq> None) then Inl Assert_Failed
      else rbind (nth_r (m_valid b) block_id) (\<lambda>v.
        if \<not> v then Inr False
        else if wr_data = None then Inr True
        else rbind (getSchemeForWrite b block_id offset wr_data bytes cntlr) (\<lambda>s.
          Inr (s \<noteq> INVALID))))"

definition maybe_compact :: "cache_compression_cntlr \<Rightarrow> block_data \<Rightarrow> block_data res" where
  "maybe_compact cntlr b = (if shouldPruneDISHEntries cntlr then compact b else Inr b)"

definition writeBlockData ::
    "block_data \<Rightarrow> nat \<Rightarrow> nat \<Rightarrow> byte_ptr \<Rightarrow> nat \<Rightarrow> cache_compression_cntlr \<Rightarrow>
     (block_data \<times> cache_compression_cntlr) res" where
  "writeBlockData b block_id offset wr_data bytes cntlr =
     (if \<not> (wr_data \<noteq> None \<or> bytes = 0) then Inl Assert_Failed
      else rbind
        (case wr_data of
           None \<Rightarrow> Inr (b, cntlr)
         | Some wr \<Rightarrow>
             rbind (getSchemeForWrite b block_id offset wr_data bytes cntlr) (\<lambda>new_scheme.
             case new_scheme of
               UNCOMPRESSED \<Rightarrow>
                 rbind (store_raw block_id offset offset wr bytes b) (\<lambda>b1. Inr (b1, cntlr))
             | SCHEME1 \<Rightarrow> compressScheme1 b block_id offset wr_data bytes cntlr
             | SCHEME2 \<Rightarrow> compressScheme2 b block_id offset wr_data bytes cntlr
             | INVALID \<Rightarrow> Inl Assert_Failed))
        (\<lambda>(b1, cntlr1). rbind (maybe_compact cntlr1 b1) (\<lambda>b2. Inr (b2, cntlr1))))"

definition readBlockData :: "block_data \<Rightarrow> nat \<Rightarrow> nat \<Rightarrow> nat \<Rightarrow> byte_ptr \<Rightarrow> byte_ptr res" where
  "readBlockData b block_id offset bytes rd_data =
     (case rd_data of
        None \<Rightarrow> if \<not> bytes = 0 then Inl Assert_Failed else Inr None
      | Some rd \<Rightarrow>
          rbind (nth_r (m_valid b) block_id) (\<lambda>v.
          if \<not> v then Inl Assert_Failed
          else rbind (nth_r (m_data b) block_id) (\<lambda>line.
               rbind (copy_n line offset bytes rd offset) (\<lambda>rd'. Inr (Some rd')))))"

definition canInsertBlockData ::
    "block_data \<Rightarrow> nat \<Rightarrow> byte_ptr \<Rightarrow> cache_compression_cntlr \<Rightarrow> bool res" where
  "canInsertBlockData b block_id ins_data cntlr =
     rbind (nth_r (m_valid b) block_id) (\<lambda>v.
     if v then Inr False
     else if ins_data = None then Inr True
     else rbind (getSchemeForInsertion b block_id ins_data cntlr) (\<lambda>s. Inr (s \<noteq> INVALID)))"

definition updateStatistics :: "block_data \<Rightarrow> block_data" where
  "updateStatistics b =
     (case m_scheme b of
        UNCOMPRESSED \<Rightarrow>
          if bd_isValid b then b\<lparr> m_uncompressed_1x := m_uncompressed_1x b + 1 \<rparr> else b
      | SCHEME1 \<Rightarrow>
          (let n = getNumValid b in
           if n = 1 then b\<lparr> m_scheme1_1x := m_scheme1_1x b + 1 \<rparr>
           else if n = 2 then b\<lparr> m_scheme1_2x := m_scheme1_2x b + 1 \<rparr>
           else if n = 3 then b\<lparr> m_scheme1_3x := m_scheme1_3x b + 1 \<rparr>
           else if n = 4 then b\<lparr> m_scheme1_4x := m_scheme1_4x b + 1 \<rparr>
           else b)
      | SCHEME2 \<Rightarrow>
          (let n = getNumValid b in
           if n = 1 then b\<lparr> m_scheme2_1x := m_scheme2_1x b + 1 \<rparr>
           else if n = 2 then b\<lparr> m_scheme2_2x := m_scheme2_2x b + 1 \<rparr>
           else if n = 3 then b\<lparr> m_scheme2_3x := m_scheme2_3x b + 1 \<rparr>
           else if n = 4 then b\<lparr> m_scheme2_4x := m_scheme2_4x b + 1 \<rparr>
           else b)
      | INVALID \<Rightarrow> b)"

definition insertBlockData ::
    "block_data \<Rightarrow> nat \<Rightarrow> byte_ptr \<Rightarrow> cache_compression_cntlr \<Rightarrow>
     (block_data \<times> cache_compression_cntlr) res" where
  "insertBlockData b block_id ins_data cntlr =
     rbind (nth_r (m_valid b) block_id) (\<lambda>v.
     if v then Inl Assert_Failed
     else rbind
       (case ins_data of
          None \<Rightarrow> Inr (b, cntlr)
        | Some ins \<Rightarrow>
            rbind (getSchemeForInsertion b block_id ins_data cntlr) (\<lambda>new_scheme.
            case new_scheme of
              UNCOMPRESSED \<Rightarrow>
                rbind (store_raw block_id 0 0 ins (m_blocksize b) b) (\<lambda>b1. Inr (b1, cntlr))
            | SCHEME1 \<Rightarrow> compressScheme1 b block_id 0 ins_data (m_blocksize b) cntlr
            | SCHEME2 \<Rightarrow> compressScheme2 b block_id 0 ins_data (m_blocksize b) cntlr
            | INVALID \<Rightarrow> Inl Assert_Failed))
       (\<lambda>(b1, cntlr1).
          rbind (maybe_compact cntlr1 (b1\<lparr> m_valid := (m_valid b1)[block_id := True] \<rparr>)) (\<lambda>b2.
          Inr (updateStatistics b2, cntlr1))))"

text \<open>\<^verbatim>\<open>m_valid[block_id] = false; std::fill_n(&m_data[block_id][0], m_blocksize, 0);\<close>\<close>

definition clear_line :: "nat \<Rightarrow> block_data \<Rightarrow> block_data" where
  "clear_line block_id b =
     b\<lparr> m_valid := (m_valid b)[block_id := False],
        m_data := (m_data b)[block_id := replicate (m_blocksize b) 0] \<rparr>"

definition evictBlockData ::
    "block_data \<Rightarrow> nat \<Rightarrow> byte_ptr \<Rightarrow> cache_compression_cntlr \<Rightarrow>
     (byte_ptr \<times> block_data \<times> cache_compression_cntlr) res" where
  "evictBlockData b block_id evict_data cntlr =
     rbind (nth_r (m_valid b) block_id) (\<lambda>v.
     if \<not> v then Inl Assert_Failed
     else rbind
       (case evict_data of
          None \<Rightarrow> Inr None
        | Some buf \<Rightarrow>
            rbind (nth_r (m_data b) block_id) (\<lambda>line.
            rbind (copy_n line 0 (m_blocksize b) buf 0) (\<lambda>buf'. Inr (Some buf'))))
       (\<lambda>out.
          let b1 = clear_line block_id b
          in if \<not> bd_isValid b1
             then Inr (out, changeScheme UNCOMPRESSED b1, cntlr_evict (m_scheme b1) cntlr)
             else rbind (maybe_compact cntlr b1) (\<lambda>b2. Inr (out, b2, cntlr))))"

definition invalidateBlockData ::
    "block_data \<Rightarrow> nat \<Rightarrow> cache_compression_cntlr \<Rightarrow>
     (block_data \<times> cache_compression_cntlr) res" where
  "invalidateBlockData b block_id cntlr =
     (if \<not> block_id < length (m_valid b) then Inl Out_Of_Bounds
      else let b1 = clear_line block_id b
           in if \<not> bd_isValid b1
              then Inr (changeScheme UNCOMPRESSED b1, cntlr_evict (m_scheme b1) cntlr)
              else Inr (b1, cntlr))"

end
