(* ===== verification/Block_Data_Dict.thy ===== *)
theory Block_Data_Dict
  imports Block_Data
begin

text \<open>
  The dictionary of a superblock frame: its invariant, what inserting and erasing an entry do
  to it, and the encoding of lines into it. The two compression schemes store a granule in
  different ways but rely on the same contract, the locale \<open>granule_encoder\<close>; the loops over a
  line are treated once inside the locale, which is interpreted on \<open>put_chunk1\<close> and
  \<open>put_chunk2\<close>.
\<close>

section \<open>Invariants\<close>

fun dict_size :: "scheme_t \<Rightarrow> nat" where
  "dict_size SCHEME1 = SCHEME1_DICT_SIZE"
| "dict_size SCHEME2 = SCHEME2_DICT_SIZE"
| "dict_size _ = 0"

definition ptr_range :: "nat \<Rightarrow> u8 set" where
  "ptr_range n = of_nat ` {0..<n}"

text \<open>Free and used pointers partition the pointers of the current scheme, the used ones are
  the keys of the dictionary, and no value is stored twice.\<close>

definition dict_ok :: "block_data \<Rightarrow> bool" where
  "dict_ok b \<longleftrightarrow>
     distinct (map fst (m_dict b)) \<and> distinct (map snd (m_dict b)) \<and>
     distinct (m_free_ptrs b) \<and> distinct (m_used_ptrs b) \<and>
     set (m_used_ptrs b) = fst ` set (m_dict b) \<and>
     set (m_free_ptrs b) \<inter> fst ` set (m_dict b) = {} \<and>
     set (m_free_ptrs b) \<union> fst ` set (m_dict b) = ptr_range (dict_size (m_scheme b))"

definition shape_ok :: "block_data \<Rightarrow> bool" where
  "shape_ok b \<longleftrightarrow>
     m_blocksize b < 2 ^ 32 \<and>
     m_chunks_per_block b = m_blocksize b div GRANULARITY_BYTES \<and>
     length (m_valid b) = SUPERBLOCK_SIZE \<and>
     length (m_data b) = SUPERBLOCK_SIZE \<and>
     (\<forall>row \<in> set (m_data b). length row = m_blocksize b) \<and>
     length (m_data_ptrs b) = SUPERBLOCK_SIZE \<and>
     (\<forall>row \<in> set (m_data_ptrs b). length row = BLOCK_ENTRIES) \<and>
     length (m_data_offsets b) = SUPERBLOCK_SIZE \<and>
     (\<forall>row \<in> set (m_data_offsets b). length row = BLOCK_ENTRIES)"

text \<open>What encoding a line leaves alone: everything but the dictionary and the pointers.\<close>

definition lines_eq :: "block_data \<Rightarrow> block_data \<Rightarrow> bool" where
  "lines_eq b b' \<longleftrightarrow>
     m_blocksize b' = m_blocksize b \<and> m_chunks_per_block b' = m_chunks_per_block b \<and>
     m_scheme b' = m_scheme b \<and> m_valid b' = m_valid b \<and> m_data b' = m_data b"

lemma lines_eq_refl [simp]: "lines_eq b b"
  by (simp add: lines_eq_def)

lemma lines_eq_trans: "lines_eq a b \<Longrightarrow> lines_eq b c \<Longrightarrow> lines_eq a c"
  by (simp add: lines_eq_def)

lemma lines_eq_line_chunks: "lines_eq b b' \<Longrightarrow> line_chunks b' i = line_chunks b i"
  by (simp add: lines_eq_def line_chunks_def)

lemma lines_eq_isValid: "lines_eq b b' \<Longrightarrow> bd_isValid b' = bd_isValid b"
  by (simp add: lines_eq_def bd_isValid_def)

definition dict_vals :: "block_data \<Rightarrow> u32 set" where
  "dict_vals b = snd ` set (m_dict b)"

lemma in_dict_iff: "in_dict b v \<longleftrightarrow> v \<in> dict_vals b"
  unfolding in_dict_def lookupDictEntry_def dict_vals_def
  using find_Some_iff_set [of "\<lambda>e. snd e = v" "m_dict b"] by auto

lemma finite_dict_vals [simp]: "finite (dict_vals b)"
  by (simp add: dict_vals_def)

section \<open>Single entries\<close>

lemma inj_on_of_nat_u8: "n \<le> 256 \<Longrightarrow> inj_on (of_nat :: nat \<Rightarrow> u8) {0..<n}"
proof (rule inj_onI)
  fix x y assume "n \<le> 256" "x \<in> {0..<n}" "y \<in> {0..<n}" "(of_nat x :: u8) = of_nat y"
  then have "unat (of_nat x :: u8) = unat (of_nat y :: u8)" "x < 256" "y < 256" by auto
  then show "x = y" by (simp add: unat_of_nat)
qed

lemma card_ptr_range: "n \<le> 256 \<Longrightarrow> card (ptr_range n) = n"
  by (simp add: ptr_range_def card_image inj_on_of_nat_u8)

lemma dict_size_le [simp]: "dict_size s \<le> 256"
  by (cases s) (simp_all add: dish_consts)

text \<open>Dictionary entries and free pointers add up to the size of the dictionary.\<close>

lemma dict_ok_count:
  assumes "dict_ok b"
  shows "length (m_dict b) + length (m_free_ptrs b) = dict_size (m_scheme b)"
proof -
  let ?F = "set (m_free_ptrs b)" and ?U = "fst ` set (m_dict b)"
  have "card (?F \<union> ?U) = card ?F + card ?U"
    using assms by (intro card_Un_disjoint) (simp_all add: dict_ok_def)
  moreover have "card ?F = length (m_free_ptrs b)"
    using assms by (simp add: dict_ok_def distinct_card)
  moreover have "card ?U = length (m_dict b)"
    using assms distinct_card [of "map fst (m_dict b)"] by (simp add: dict_ok_def)
  moreover have "card (?F \<union> ?U) = dict_size (m_scheme b)"
    using assms by (simp add: dict_ok_def card_ptr_range)
  ultimately show ?thesis by simp
qed

lemma lookup_SomeD:
  "lookupDictEntry b v = Some p \<Longrightarrow> dict_ok b \<Longrightarrow> map_of (m_dict b) p = Some v"
  unfolding lookupDictEntry_def dict_ok_def
  by (auto dest!: find_SomeD intro!: map_of_is_SomeI)

lemma lookup_map_of:
  assumes "dict_ok b" and "map_of (m_dict b) p = Some v"
  shows "lookupDictEntry b v = Some p"
proof -
  have mem: "(p, v) \<in> set (m_dict b)" using assms(2) by (rule map_of_SomeD)
  then have "\<exists>e \<in> set (m_dict b). snd e = v" by (intro bexI [of _ "(p, v)"]) simp_all
  then obtain e where e: "find (\<lambda>entry. snd entry = v) (m_dict b) = Some e"
    by (auto simp: find_Some_iff_set [symmetric])
  then have "snd e = v" "e \<in> set (m_dict b)" by (auto dest: find_SomeD)
  moreover have "inj_on snd (set (m_dict b))"
    using assms(1) by (simp add: dict_ok_def distinct_map)
  ultimately have "e = (p, v)" using mem by (metis inj_onD snd_conv)
  with e show ?thesis by (simp add: lookupDictEntry_def)
qed

lemma insertDictEntry_cases:
  assumes "insertDictEntry v b = Inr (p, b')" and "dict_ok b"
  obtains (hit) "lookupDictEntry b v = Some p" "b' = b" "in_dict b v"
  | (miss) free where "\<not> in_dict b v" "m_free_ptrs b = p # free" "p \<notin> fst ` set (m_dict b)"
      "b' = b\<lparr> m_free_ptrs := free, m_dict := (p, v) # m_dict b,
                m_used_ptrs := p # m_used_ptrs b \<rparr>"
proof (cases "lookupDictEntry b v")
  case (Some q)
  then have "q = p" "b' = b" using assms(1) by (simp_all add: insertDictEntry_def)
  with Some show thesis by (intro hit) (simp_all add: in_dict_def)
next
  case None
  with assms obtain free where fr: "m_free_ptrs b = p # free"
    and b': "b' = b\<lparr> m_free_ptrs := free, m_dict := umap_insert p v (m_dict b),
                m_used_ptrs := uset_insert p (m_used_ptrs b) \<rparr>"
    by (auto simp: insertDictEntry_def split: list.splits)
  have "p \<notin> set (m_used_ptrs b)" "p \<notin> fst ` set (m_dict b)"
    using assms(2) fr by (auto simp: dict_ok_def)
  with None fr b' show thesis
    by (intro miss [of free]) (auto simp: in_dict_def umap_insert_def uset_insert_def)
qed

lemma insertDictEntry_dict_ok:
  assumes "insertDictEntry v b = Inr (p, b')" and "dict_ok b"
  shows "dict_ok b'"
  using assms
proof (cases rule: insertDictEntry_cases)
  case (miss free)
  then show ?thesis using assms(2)
    by (auto simp: dict_ok_def in_dict_iff dict_vals_def)
qed (use assms in simp)

lemma insertDictEntry_map_of:
  assumes "insertDictEntry v b = Inr (p, b')" and "dict_ok b"
  shows "map_of (m_dict b') p = Some v" and "map_of (m_dict b) \<subseteq>\<^sub>m map_of (m_dict b')"
    and "dict_vals b' = insert v (dict_vals b)"
    and "length (m_free_ptrs b') = length (m_free_ptrs b) - (if in_dict b v then 0 else 1)"
proof -
  have "map_of (m_dict b') p = Some v \<and> map_of (m_dict b) \<subseteq>\<^sub>m map_of (m_dict b') \<and>
      dict_vals b' = insert v (dict_vals b) \<and>
      length (m_free_ptrs b') = length (m_free_ptrs b) - (if in_dict b v then 0 else 1)"
    using assms
  proof (cases rule: insertDictEntry_cases)
    case hit
    then show ?thesis using assms(2) lookup_SomeD by (auto simp: in_dict_iff)
  next
    case (miss free)
    then have "map_of (m_dict b) p = None" by (simp add: map_of_eq_None_iff)
    with miss show ?thesis by (auto simp: map_le_def dict_vals_def)
  qed
  then show "map_of (m_dict b') p = Some v" "map_of (m_dict b) \<subseteq>\<^sub>m map_of (m_dict b')"
    "dict_vals b' = insert v (dict_vals b)"
    "length (m_free_ptrs b') = length (m_free_ptrs b) - (if in_dict b v then 0 else 1)"
    by auto
qed

lemma insertDictEntry_ok:
  "in_dict b v \<or> m_free_ptrs b \<noteq> [] \<Longrightarrow> \<exists>p b'. insertDictEntry v b = Inr (p, b')"
  by (auto simp: insertDictEntry_def in_dict_def split: option.splits list.splits)

lemma insertDictEntry_frame:
  assumes "insertDictEntry v b = Inr (p, b')"
  shows "lines_eq b b'" "m_data_ptrs b' = m_data_ptrs b" "m_data_offsets b' = m_data_offsets b"
  using assms
  by (auto simp: insertDictEntry_def lines_eq_def split: option.splits list.splits)

lemma insertDictEntry_full:
  "insertDictEntry v b = Inl Log_Error \<longleftrightarrow> \<not> in_dict b v \<and> m_free_ptrs b = []"
  by (auto simp: insertDictEntry_def in_dict_def split: option.splits list.splits)

section \<open>Encoding a line\<close>

text \<open>
  The contract of one assignment \<^verbatim>\<open>m_data_ptrs[i][j] = insertDictEntry(...)\<close>: \<open>key\<close> is the
  value that goes into the dictionary, \<open>dec b i j\<close> is what the frame \<open>b\<close> decodes entry \<open>j\<close> of
  line \<open>i\<close> to. \<open>decodes dec b i\<close> says that line \<open>i\<close> decodes, entry by entry, to its raw
  granules.
\<close>

definition decodes :: "(block_data \<Rightarrow> nat \<Rightarrow> nat \<Rightarrow> u32 option) \<Rightarrow> block_data \<Rightarrow> nat \<Rightarrow> bool" where
  "decodes dec b i \<longleftrightarrow>
     (\<forall>j < length (line_chunks b i). dec b i j = Some (line_chunks b i ! j))"

locale granule_encoder =
  fixes put :: "nat \<Rightarrow> nat \<times> u32 \<Rightarrow> block_data \<Rightarrow> block_data res"
    and key :: "u32 \<Rightarrow> u32"
    and dec :: "block_data \<Rightarrow> nat \<Rightarrow> nat \<Rightarrow> u32 option"
  assumes put_ok: "shape_ok b \<Longrightarrow> i < SUPERBLOCK_SIZE \<Longrightarrow> j < BLOCK_ENTRIES \<Longrightarrow>
      in_dict b (key c) \<or> m_free_ptrs b \<noteq> [] \<Longrightarrow> \<exists>b'. put i (j, c) b = Inr b'"
    and put_room: "put i (j, c) b = Inr b' \<Longrightarrow> in_dict b (key c) \<or> m_free_ptrs b \<noteq> []"
    and put_dict_ok: "put i (j, c) b = Inr b' \<Longrightarrow> dict_ok b \<Longrightarrow> dict_ok b'"
    and put_shape_ok: "put i (j, c) b = Inr b' \<Longrightarrow> shape_ok b \<Longrightarrow> shape_ok b'"
    and put_frame: "put i (j, c) b = Inr b' \<Longrightarrow> lines_eq b b'"
    and put_dec: "put i (j, c) b = Inr b' \<Longrightarrow> dict_ok b \<Longrightarrow> dec b' i j = Some c"
    and put_dec_other: "put i (j, c) b = Inr b' \<Longrightarrow> dict_ok b \<Longrightarrow> (i', j') \<noteq> (i, j) \<Longrightarrow>
      dec b i' j' = Some d \<Longrightarrow> dec b' i' j' = Some d"
    and put_vals: "put i (j, c) b = Inr b' \<Longrightarrow> dict_ok b \<Longrightarrow>
      dict_vals b' = insert (key c) (dict_vals b)"
    and put_free: "put i (j, c) b = Inr b' \<Longrightarrow> dict_ok b \<Longrightarrow>
      length (m_free_ptrs b') = length (m_free_ptrs b) - (if in_dict b (key c) then 0 else 1)"
begin

text \<open>A whole line, starting at entry \<open>k\<close>.\<close>

lemma enc_inv:
  assumes "fold_r (put i) (enumerate k cs) b = Inr b'" and "dict_ok b"
  shows "dict_ok b' \<and> lines_eq b b' \<and> (shape_ok b \<longrightarrow> shape_ok b')"
  using assms
proof (induction cs arbitrary: k b)
  case (Cons c cs)
  then obtain b1 where 1: "put i (k, c) b = Inr b1"
    and 2: "fold_r (put i) (enumerate (Suc k) cs) b1 = Inr b'"
    by (auto simp: res_simps)
  from Cons.IH [OF 2] 1 Cons.prems(2) show ?case
    using put_dict_ok put_frame put_shape_ok lines_eq_trans by blast
qed simp

lemma enc_dec_other:
  assumes "fold_r (put i) (enumerate k cs) b = Inr b'" and "dict_ok b"
    and "i' \<noteq> i \<or> j' < k" and "dec b i' j' = Some d"
  shows "dec b' i' j' = Some d"
  using assms
proof (induction cs arbitrary: k b)
  case (Cons c cs)
  then obtain b1 where 1: "put i (k, c) b = Inr b1"
    and 2: "fold_r (put i) (enumerate (Suc k) cs) b1 = Inr b'"
    by (auto simp: res_simps)
  have "dec b1 i' j' = Some d"
    using put_dec_other [OF 1 Cons.prems(2)] Cons.prems(3,4) by auto
  with Cons.IH [OF 2] put_dict_ok [OF 1 Cons.prems(2)] Cons.prems(3) show ?case by auto
qed simp

lemma enc_dec:
  assumes "fold_r (put i) (enumerate k cs) b = Inr b'" and "dict_ok b" and "m < length cs"
  shows "dec b' i (k + m) = Some (cs ! m)"
  using assms
proof (induction cs arbitrary: k b m)
  case (Cons c cs)
  then obtain b1 where 1: "put i (k, c) b = Inr b1"
    and 2: "fold_r (put i) (enumerate (Suc k) cs) b1 = Inr b'"
    by (auto simp: res_simps)
  have ok1: "dict_ok b1" by (rule put_dict_ok [OF 1 Cons.prems(2)])
  show ?case
  proof (cases m)
    case 0
    have "dec b1 i k = Some c" by (rule put_dec [OF 1 Cons.prems(2)])
    from enc_dec_other [OF 2 ok1 _ this] show ?thesis by (simp add: 0)
  next
    case (Suc n)
    with Cons.IH [OF 2 ok1, of n] Cons.prems(3) show ?thesis by simp
  qed
qed simp

lemma enc_vals:
  assumes "fold_r (put i) (enumerate k cs) b = Inr b'" and "dict_ok b"
  shows "dict_vals b' = dict_vals b \<union> key ` set cs"
  using assms
proof (induction cs arbitrary: k b)
  case (Cons c cs)
  then obtain b1 where 1: "put i (k, c) b = Inr b1"
    and 2: "fold_r (put i) (enumerate (Suc k) cs) b1 = Inr b'"
    by (auto simp: res_simps)
  from Cons.IH [OF 2 put_dict_ok [OF 1 Cons.prems(2)]] put_vals [OF 1 Cons.prems(2)]
  show ?case by simp
qed simp

lemma line_enc:
  assumes "fold_r (put i) (enumerate 0 (line_chunks b i)) b = Inr b'" and "dict_ok b"
  shows "decodes dec b' i" and "decodes dec b i' \<Longrightarrow> decodes dec b' i'"
proof -
  have le: "lines_eq b b'" using enc_inv [OF assms] by simp
  show 1: "decodes dec b' i"
    using enc_dec [OF assms] by (simp add: decodes_def lines_eq_line_chunks [OF le])
  show "decodes dec b' i'" if "decodes dec b i'"
  proof (cases "i' = i")
    case False
    then show ?thesis
      using that enc_dec_other [OF assms] by (simp add: decodes_def lines_eq_line_chunks [OF le])
  qed (simp add: 1)
qed

text \<open>Re-encoding every valid line, as a change of scheme does.\<close>

lemma lines_enc:
  assumes "fold_r (\<lambda>i b. if m_valid b ! i
      then fold_r (put i) (enumerate 0 (line_chunks b i)) b else Inr b) is b = Inr b'"
    and "dict_ok b"
  shows "dict_ok b' \<and> lines_eq b b' \<and> (shape_ok b \<longrightarrow> shape_ok b') \<and>
    (\<forall>i. (i \<in> set is \<and> m_valid b ! i \<or> decodes dec b i) \<longrightarrow> decodes dec b' i)"
  using assms
proof (induction "is" arbitrary: b)
  case (Cons i "is")
  then obtain b1 where
    1: "(if m_valid b ! i then fold_r (put i) (enumerate 0 (line_chunks b i)) b else Inr b) = Inr b1"
    and 2: "fold_r (\<lambda>i b. if m_valid b ! i
      then fold_r (put i) (enumerate 0 (line_chunks b i)) b else Inr b) is b1 = Inr b'"
    by (auto simp: res_simps)
  show ?case
  proof (cases "m_valid b ! i")
    case True
    with 1 have e: "fold_r (put i) (enumerate 0 (line_chunks b i)) b = Inr b1" by simp
    note inv = enc_inv [OF e Cons.prems(2)]
    then have "m_valid b1 = m_valid b" by (simp add: lines_eq_def)
    with Cons.IH [OF 2] inv line_enc [OF e Cons.prems(2)] show ?thesis
      by (metis lines_eq_trans set_ConsD)
  next
    case False
    with 1 Cons.IH [OF 2] Cons.prems show ?thesis by auto
  qed
qed simp

text \<open>Encoding a line succeeds exactly when the dictionary has a free entry for every
  value it does not hold yet.\<close>

lemma enc_ok_iff:
  assumes "dict_ok b" "shape_ok b" "i < SUPERBLOCK_SIZE" "k + length cs \<le> BLOCK_ENTRIES"
  shows "(\<exists>b'. fold_r (put i) (enumerate k cs) b = Inr b') \<longleftrightarrow>
     card (key ` set cs - dict_vals b) \<le> length (m_free_ptrs b)"
  using assms
proof (induction cs arbitrary: k b)
  case (Cons c cs)
  let ?need = "\<lambda>b cs. card (key ` set cs - dict_vals b)"
  show ?case
  proof (cases "in_dict b (key c) \<or> m_free_ptrs b \<noteq> []")
    case True
    with Cons.prems put_ok [of b i k c] obtain b1 where 1: "put i (k, c) b = Inr b1" by auto
    have ok1: "dict_ok b1" "shape_ok b1"
      using put_dict_ok [OF 1] put_shape_ok [OF 1] Cons.prems by auto
    have vals: "dict_vals b1 = insert (key c) (dict_vals b)"
      by (rule put_vals [OF 1 Cons.prems(1)])
    have "?need b (c # cs) = (if in_dict b (key c) then 0 else 1) + ?need b1 cs"
    proof (cases "in_dict b (key c)")
      case True
      then show ?thesis by (simp add: vals in_dict_iff insert_absorb insert_Diff_if)
    next
      case False
      then have "key ` set (c # cs) - dict_vals b =
          insert (key c) (key ` set cs - dict_vals b1)"
        by (auto simp: vals in_dict_iff)
      then show ?thesis using False by (simp add: vals)
    qed
    moreover have "length (m_free_ptrs b) =
        (if in_dict b (key c) then 0 else 1) + length (m_free_ptrs b1)"
      using put_free [OF 1 Cons.prems(1)] True by auto
    ultimately show ?thesis using Cons.IH [OF ok1 Cons.prems(3), of "Suc k"] Cons.prems(4) 1
      by auto
  next
    case False
    then have "card (key ` set (c # cs) - dict_vals b) \<noteq> 0"
      by (auto simp: in_dict_iff insert_Diff_if)
    moreover have "fold_r (put i) (enumerate k (c # cs)) b \<noteq> Inr b'" for b'
      using put_room [of i k c b] False by (auto simp: res_simps)
    ultimately show ?thesis using False by auto
  qed
qed simp

end

section \<open>The two encoders\<close>

text \<open>The granule \<open>j\<close> of line \<open>i\<close> as the pointers, the dictionary and the offsets encode it. In
  the second scheme the stored value must be a prefix, that is, leave room for the offset.\<close>

definition dec1 :: "block_data \<Rightarrow> nat \<Rightarrow> nat \<Rightarrow> u32 option" where
  "dec1 b i j = map_of (m_dict b) (m_data_ptrs b ! i ! j)"

definition join_prefix :: "u32 \<Rightarrow> u8 \<Rightarrow> u32 option" where
  "join_prefix u l = (if upper (join u l) = u then Some (join u l) else None)"

definition dec2 :: "block_data \<Rightarrow> nat \<Rightarrow> nat \<Rightarrow> u32 option" where
  "dec2 b i j =
     Option.bind (map_of (m_dict b) (m_data_ptrs b ! i ! j))
       (\<lambda>u. join_prefix u (m_data_offsets b ! i ! j))"

lemma set_ptr_eq_Inr [res_simps]:
  "set_ptr i j p b = Inr b' \<longleftrightarrow>
     i < length (m_data_ptrs b) \<and> j < length (m_data_ptrs b ! i) \<and>
     b' = b\<lparr> m_data_ptrs := (m_data_ptrs b)[i := (m_data_ptrs b ! i)[j := p]] \<rparr>"
  by (auto simp: set_ptr_def res_simps)

lemma set_offset_eq_Inr [res_simps]:
  "set_offset i j p b = Inr b' \<longleftrightarrow>
     i < length (m_data_offsets b) \<and> j < length (m_data_offsets b ! i) \<and>
     b' = b\<lparr> m_data_offsets := (m_data_offsets b)[i := (m_data_offsets b ! i)[j := p]] \<rparr>"
  by (auto simp: set_offset_def res_simps)

lemma put_chunk1_eq_Inr [res_simps]:
  "put_chunk1 i (j, c) b = Inr b' \<longleftrightarrow>
     (\<exists>p b1. insertDictEntry c b = Inr (p, b1) \<and> set_ptr i j p b1 = Inr b')"
  by (auto simp: put_chunk1_def rbind_eq_Inr split: prod.splits)

lemma put_chunk2_eq_Inr [res_simps]:
  "put_chunk2 i (j, c) b = Inr b' \<longleftrightarrow>
     (\<exists>p b1 b2. insertDictEntry (upper c) b = Inr (p, b1) \<and> set_ptr i j p b1 = Inr b2 \<and>
        set_offset i j (lower c) b2 = Inr b')"
  by (auto simp: put_chunk2_def rbind_eq_Inr split: prod.splits)

lemma shape_ok_rows:
  assumes "shape_ok b" "i < SUPERBLOCK_SIZE"
  shows "i < length (m_data_ptrs b)" "length (m_data_ptrs b ! i) = BLOCK_ENTRIES"
    "i < length (m_data_offsets b)" "length (m_data_offsets b ! i) = BLOCK_ENTRIES"
    "i < length (m_data b)" "length (m_data b ! i) = m_blocksize b" "i < length (m_valid b)"
  using assms by (auto simp: shape_ok_def)

lemma shape_ok_upd_ptrs:
  assumes "shape_ok b" "i < length (m_data_ptrs b)"
  shows "shape_ok (b\<lparr> m_data_ptrs := (m_data_ptrs b)[i := (m_data_ptrs b ! i)[j := p]] \<rparr>)"
  using assms by (auto simp: shape_ok_def dest!: set_update_subset_insert [THEN subsetD])

lemma shape_ok_upd_offsets:
  assumes "shape_ok b" "i < length (m_data_offsets b)"
  shows "shape_ok (b\<lparr> m_data_offsets := (m_data_offsets b)[i := (m_data_offsets b ! i)[j := p]] \<rparr>)"
  using assms by (auto simp: shape_ok_def dest!: set_update_subset_insert [THEN subsetD])

lemma insertDictEntry_shape_ok:
  assumes "insertDictEntry v b = Inr (p, b')" "shape_ok b"
  shows "shape_ok b'"
  using assms insertDictEntry_frame [OF assms(1)] by (simp add: shape_ok_def lines_eq_def)

lemma dict_ok_cong:
  assumes "m_dict b' = m_dict b" "m_free_ptrs b' = m_free_ptrs b"
    "m_used_ptrs b' = m_used_ptrs b" "m_scheme b' = m_scheme b"
  shows "dict_ok b' = dict_ok b"
  using assms by (simp add: dict_ok_def)

lemma map_leD_Some: "m \<subseteq>\<^sub>m m' \<Longrightarrow> m x = Some y \<Longrightarrow> m' x = Some y"
  by (metis domI map_le_def)

interpretation enc1: granule_encoder put_chunk1 "\<lambda>c. c" dec1
proof
  fix b :: block_data and i j :: nat and c :: u32
  assume "shape_ok b" "i < SUPERBLOCK_SIZE" "j < BLOCK_ENTRIES"
    and "in_dict b c \<or> m_free_ptrs b \<noteq> []"
  moreover from this(4) obtain p b1 where "insertDictEntry c b = Inr (p, b1)"
    using insertDictEntry_ok by blast
  ultimately show "\<exists>b'. put_chunk1 i (j, c) b = Inr b'"
    using insertDictEntry_frame [of c b p b1] shape_ok_rows [of b i]
    by (auto simp: put_chunk1_eq_Inr set_ptr_eq_Inr)
next
  fix b b' :: block_data and i j :: nat and c :: u32
  assume "put_chunk1 i (j, c) b = Inr b'"
  then obtain p b1 where 1: "insertDictEntry c b = Inr (p, b1)"
    and i: "i < length (m_data_ptrs b1)" and j: "j < length (m_data_ptrs b1 ! i)"
    and b': "b' = b1\<lparr> m_data_ptrs := (m_data_ptrs b1)[i := (m_data_ptrs b1 ! i)[j := p]] \<rparr>"
    by (auto simp: res_simps)
  show "in_dict b c \<or> m_free_ptrs b \<noteq> []"
    using 1 insertDictEntry_full [of c b] by auto
  show "lines_eq b b'" using insertDictEntry_frame [OF 1] b' by (simp add: lines_eq_def)
  show "shape_ok b'" if "shape_ok b"
    using insertDictEntry_shape_ok [OF 1 that] shape_ok_upd_ptrs i b' by simp
  assume ok: "dict_ok b"
  show "dict_ok b'"
    using insertDictEntry_dict_ok [OF 1 ok] b' dict_ok_cong [of b' b1] by simp
  show "dec1 b' i j = Some c"
    using insertDictEntry_map_of(1) [OF 1 ok] i j b' by (simp add: dec1_def)
  show "dict_vals b' = insert c (dict_vals b)"
    using insertDictEntry_map_of(3) [OF 1 ok] b' by (simp add: dict_vals_def)
  show "length (m_free_ptrs b') = length (m_free_ptrs b) - (if in_dict b c then 0 else 1)"
    using insertDictEntry_map_of(4) [OF 1 ok] b' by simp
  fix i' j' d
  assume "(i', j') \<noteq> (i, j)" "dec1 b i' j' = Some d"
  then show "dec1 b' i' j' = Some d"
    using insertDictEntry_map_of(2) [OF 1 ok] insertDictEntry_frame(2) [OF 1] i j b'
    by (cases "i' = i") (auto simp: dec1_def intro: map_leD_Some)
qed

interpretation enc2: granule_encoder put_chunk2 upper dec2
proof
  fix b :: block_data and i j :: nat and c :: u32
  assume "shape_ok b" "i < SUPERBLOCK_SIZE" "j < BLOCK_ENTRIES"
    and "in_dict b (upper c) \<or> m_free_ptrs b \<noteq> []"
  moreover from this(4) obtain p b1 where "insertDictEntry (upper c) b = Inr (p, b1)"
    using insertDictEntry_ok by blast
  ultimately show "\<exists>b'. put_chunk2 i (j, c) b = Inr b'"
    using insertDictEntry_frame [of "upper c" b p b1] shape_ok_rows [of b i]
    by (auto simp: put_chunk2_eq_Inr set_ptr_eq_Inr set_offset_eq_Inr)
next
  fix b b' :: block_data and i j :: nat and c :: u32
  assume "put_chunk2 i (j, c) b = Inr b'"
  then obtain p b1 where 1: "insertDictEntry (upper c) b = Inr (p, b1)"
    and i: "i < length (m_data_ptrs b1)" and j: "j < length (m_data_ptrs b1 ! i)"
    and io: "i < length (m_data_offsets b1)" and jo: "j < length (m_data_offsets b1 ! i)"
    and b': "b' = b1\<lparr> m_data_ptrs := (m_data_ptrs b1)[i := (m_data_ptrs b1 ! i)[j := p]],
      m_data_offsets := (m_data_offsets b1)[i := (m_data_offsets b1 ! i)[j := lower c]] \<rparr>"
    by (auto simp: res_simps)
  show "in_dict b (upper c) \<or> m_free_ptrs b \<noteq> []"
    using 1 insertDictEntry_full [of "upper c" b] by auto
  show "lines_eq b b'" using insertDictEntry_frame [OF 1] b' by (simp add: lines_eq_def)
  show "shape_ok b'" if "shape_ok b"
    using shape_ok_upd_offsets [OF shape_ok_upd_ptrs [OF insertDictEntry_shape_ok [OF 1 that] i]]
      io b' by simp
  assume ok: "dict_ok b"
  show "dict_ok b'"
    using insertDictEntry_dict_ok [OF 1 ok] b' dict_ok_cong [of b' b1] by simp
  show "dec2 b' i j = Some c"
    using insertDictEntry_map_of(1) [OF 1 ok] i j io jo b' by (simp add: dec2_def join_prefix_def)
  show "dict_vals b' = insert (upper c) (dict_vals b)"
    using insertDictEntry_map_of(3) [OF 1 ok] b' by (simp add: dict_vals_def)
  show "length (m_free_ptrs b') = length (m_free_ptrs b) - (if in_dict b (upper c) then 0 else 1)"
    using insertDictEntry_map_of(4) [OF 1 ok] b' by simp
  fix i' j' d
  assume ne: "(i', j') \<noteq> (i, j)" and "dec2 b i' j' = Some d"
  then obtain u where "map_of (m_dict b) (m_data_ptrs b ! i' ! j') = Some u"
    and "join_prefix u (m_data_offsets b ! i' ! j') = Some d"
    by (auto simp: dec2_def Option.bind_eq_Some_conv)
  then show "dec2 b' i' j' = Some d"
    using insertDictEntry_map_of(2) [OF 1 ok] insertDictEntry_frame(2,3) [OF 1] i j io jo b' ne
    by (cases "i' = i") (auto simp: dec2_def dest: map_leD_Some)
qed

section \<open>The vacancy check\<close>

text \<open>The loop of the compressibility checks spends an entry for every occurrence of a
  missing value, so it never promises more than the dictionary can take.\<close>

lemma fits_vacancies_card:
  "fits_vacancies P v cs \<Longrightarrow> card (set cs - {c. P c}) \<le> v"
proof (induction cs arbitrary: v)
  case (Cons c cs)
  show ?case
  proof (cases "P c")
    case False
    with Cons.prems have "v \<noteq> 0" "fits_vacancies P (v - 1) cs" by (auto split: if_splits)
    with Cons.IH [of "v - 1"] have "card (set cs - {c. P c}) \<le> v - 1" by simp
    moreover have "set (c # cs) - {c. P c} = insert c (set cs - {c. P c})" using False by auto
    ultimately show ?thesis using \<open>v \<noteq> 0\<close> card_insert_le_m1 [of v] by simp
  qed (use Cons in \<open>simp add: insert_Diff_if\<close>)
qed simp

lemma fits_vacancies_dict:
  "fits_vacancies (in_dict b) v cs \<Longrightarrow> card (set cs - dict_vals b) \<le> v"
  using fits_vacancies_card [of "in_dict b" v cs] by (simp add: in_dict_iff)

end
