(* ===== verification/Block_Data_Coding.thy ===== *)
theory Block_Data_Coding
  imports Block_Data_Dict
begin

text \<open>
  Changes of scheme and the re-encoding of a frame. \<open>frame_encoder\<close> extends the contract of a
  granule encoder by the three cases of \<^verbatim>\<open>compressScheme1\<close> / \<^verbatim>\<open>compressScheme2\<close> after the
  raw copy; it is interpreted on \<open>recode1\<close> and \<open>recode2\<close>.
\<close>

section \<open>Change of scheme\<close>

definition data_eq :: "block_data \<Rightarrow> block_data \<Rightarrow> bool" where
  "data_eq b b' \<longleftrightarrow>
     m_blocksize b' = m_blocksize b \<and> m_chunks_per_block b' = m_chunks_per_block b \<and>
     m_valid b' = m_valid b \<and> m_data b' = m_data b"

lemma data_eq_refl [simp]: "data_eq b b"
  by (simp add: data_eq_def)

lemma data_eq_trans: "data_eq a b \<Longrightarrow> data_eq b c \<Longrightarrow> data_eq a c"
  by (simp add: data_eq_def)

lemma lines_eq_iff: "lines_eq b b' \<longleftrightarrow> data_eq b b' \<and> m_scheme b' = m_scheme b"
  by (auto simp: lines_eq_def data_eq_def)

lemma data_eq_line_chunks: "data_eq b b' \<Longrightarrow> line_chunks b' i = line_chunks b i"
  by (simp add: data_eq_def line_chunks_def)

lemma data_eq_valid:
  assumes "data_eq b b'"
  shows "bd_isValid b' = bd_isValid b" "getFirstValid b' = getFirstValid b"
    "getNumValid b' = getNumValid b"
  using assms by (simp_all add: data_eq_def bd_isValid_def getFirstValid_def getNumValid_def)

lemma fold_uset_insert:
  assumes "distinct ys"
  shows "distinct (fold uset_insert xs ys) \<and> set (fold uset_insert xs ys) = set xs \<union> set ys"
  using assms
proof (induction xs arbitrary: ys)
  case (Cons x xs)
  from Cons.IH [of "uset_insert x ys"] Cons.prems show ?case
    by (auto simp: uset_insert_def split: if_splits)
qed simp

lemma fill_free_props:
  "distinct (fill_free n []) \<and> set (fill_free n []) = ptr_range n"
  using fold_uset_insert [of "[]" "map of_nat [0..<n]"]
  by (simp add: fill_free_def ptr_range_def)

lemma ptr_range_0 [simp]: "ptr_range 0 = {}"
  by (simp add: ptr_range_def)

lemma dict_ok_uncompressed:
  assumes "dict_ok b" "m_scheme b = UNCOMPRESSED"
  shows "m_dict b = []" "m_free_ptrs b = []" "m_used_ptrs b = []"
  using assms by (auto simp: dict_ok_def)

lemma changeScheme_scheme [simp]: "m_scheme (changeScheme s b) = s"
  by (simp add: changeScheme_def)

lemma changeScheme_data [simp]:
  "m_blocksize (changeScheme s b) = m_blocksize b"
  "m_chunks_per_block (changeScheme s b) = m_chunks_per_block b"
  "m_valid (changeScheme s b) = m_valid b"
  "m_data (changeScheme s b) = m_data b"
  "m_data_ptrs (changeScheme s b) = m_data_ptrs b"
  "m_data_offsets (changeScheme s b) = m_data_offsets b"
  by (cases "m_scheme b"; cases s; simp add: changeScheme_def clear_dict_def)+

lemma changeScheme_data_eq [simp]: "data_eq b (changeScheme s b)"
  by (simp add: data_eq_def)

lemma changeScheme_shape_ok: "shape_ok b \<Longrightarrow> shape_ok (changeScheme s b)"
  by (simp add: shape_ok_def)

lemma changeScheme_same: "m_scheme b = s \<Longrightarrow> changeScheme s b = b"
  by (cases s) (simp_all add: changeScheme_def)

text \<open>After a real change of scheme the dictionary is empty and every pointer of the new
  scheme is free.\<close>

lemma changeScheme_fresh:
  assumes "dict_ok b" "m_scheme b \<noteq> INVALID" "s \<noteq> INVALID" "m_scheme b \<noteq> s"
  shows "m_dict (changeScheme s b) = []" "m_used_ptrs (changeScheme s b) = []"
    "m_free_ptrs (changeScheme s b) = fill_free (dict_size s) []"
  using assms dict_ok_uncompressed [OF assms(1)]
  by (cases "m_scheme b"; cases s; simp add: changeScheme_def clear_dict_def fill_free_def)+

lemma changeScheme_dict_ok:
  assumes "dict_ok b" "m_scheme b \<noteq> INVALID" "s \<noteq> INVALID"
  shows "dict_ok (changeScheme s b)"
proof (cases "m_scheme b = s")
  case False
  with changeScheme_fresh [OF assms] show ?thesis
    by (simp add: dict_ok_def fill_free_props)
qed (use assms changeScheme_same [of b s] in simp)

text \<open>The number of free entries, for a frame in good order.\<close>

lemma free_count:
  assumes "dict_ok b"
  shows "length (m_free_ptrs b) = dict_size (m_scheme b) - card (dict_vals b)"
proof -
  have "card (dict_vals b) = length (m_dict b)"
    using assms distinct_card [of "map snd (m_dict b)"] by (simp add: dict_ok_def dict_vals_def)
  with dict_ok_count [OF assms] show ?thesis by simp
qed

lemma getFirstValid_valid:
  assumes "bd_isValid b"
  shows "getFirstValid b < SUPERBLOCK_SIZE" "m_valid b ! getFirstValid b"
proof -
  from assms obtain i where "find (\<lambda>i. m_valid b ! i) [0..<SUPERBLOCK_SIZE] = Some i"
    using find_Some_iff_set [of "\<lambda>i. m_valid b ! i" "[0..<SUPERBLOCK_SIZE]"]
    by (auto simp: bd_isValid_def list_ex_iff)
  then show "getFirstValid b < SUPERBLOCK_SIZE" "m_valid b ! getFirstValid b"
    by (auto simp: getFirstValid_def dest: find_SomeD)
qed

section \<open>Re-encoding a frame\<close>

locale frame_encoder = granule_encoder put key dec
  for put :: "nat \<Rightarrow> nat \<times> u32 \<Rightarrow> block_data \<Rightarrow> block_data res"
    and key :: "u32 \<Rightarrow> u32" and dec :: "block_data \<Rightarrow> nat \<Rightarrow> nat \<Rightarrow> u32 option" +
  fixes sch :: scheme_t
    and recode :: "nat \<Rightarrow> block_data \<Rightarrow> cache_compression_cntlr \<Rightarrow>
      (block_data \<times> cache_compression_cntlr) res"
  assumes sch: "sch = SCHEME1 \<or> sch = SCHEME2"
    and recode_same: "m_scheme b = sch \<Longrightarrow> recode blk b c =
      rbind (fold_r (put blk) (enumerate 0 (line_chunks b blk)) b) (\<lambda>b1. Inr (b1, c))"
    and recode_raw: "m_scheme b = UNCOMPRESSED \<Longrightarrow> recode blk b c =
      rbind (if getFirstValid b \<noteq> blk
             then fold_r (put (getFirstValid b)) (enumerate 0 (line_chunks b (getFirstValid b)))
               (changeScheme sch b)
             else Inr (changeScheme sch b)) (\<lambda>b2.
      rbind (fold_r (put blk) (enumerate 0 (line_chunks b2 blk)) b2) (\<lambda>b3.
      Inr (b3, cntlr_insert sch c)))"
    and recode_other: "m_scheme b \<noteq> sch \<Longrightarrow> m_scheme b \<noteq> UNCOMPRESSED \<Longrightarrow>
      m_scheme b \<noteq> INVALID \<Longrightarrow> recode blk b c =
      rbind (fold_r (\<lambda>i b. if m_valid b ! i
               then fold_r (put i) (enumerate 0 (line_chunks b i)) b else Inr b)
             [0..<SUPERBLOCK_SIZE] (changeScheme sch b)) (\<lambda>b2.
      Inr (b2, cntlr_insert sch (cntlr_evict (m_scheme b) c)))"
begin

lemma sch_valid [simp]: "sch \<noteq> INVALID" "sch \<noteq> UNCOMPRESSED"
  using sch by auto

lemma recode_raw_cases:
  assumes "recode blk b c = Inr (b', c')" "dict_ok b" "m_scheme b = UNCOMPRESSED"
  obtains b2 where "dict_ok b2" "lines_eq (changeScheme sch b) b2" "shape_ok b \<longrightarrow> shape_ok b2"
    "getFirstValid b \<noteq> blk \<longrightarrow> decodes dec b2 (getFirstValid b)"
    "fold_r (put blk) (enumerate 0 (line_chunks b2 blk)) b2 = Inr b'" "c' = cntlr_insert sch c"
proof -
  let ?u = "getFirstValid b" and ?b1 = "changeScheme sch b"
  have ok1: "dict_ok ?b1" using assms(2,3) by (simp add: changeScheme_dict_ok)
  from assms(1) obtain b2 where
    2: "(if ?u \<noteq> blk then fold_r (put ?u) (enumerate 0 (line_chunks b ?u)) ?b1 else Inr ?b1) = Inr b2"
    and 3: "fold_r (put blk) (enumerate 0 (line_chunks b2 blk)) b2 = Inr b'"
    and c': "c' = cntlr_insert sch c"
    by (auto simp: recode_raw [OF assms(3)] rbind_eq_Inr)
  show thesis
  proof (cases "?u = blk")
    case True
    with 2 3 c' ok1 show thesis by (intro that [of b2]) (auto simp: changeScheme_shape_ok)
  next
    case False
    with 2 have e: "fold_r (put ?u) (enumerate 0 (line_chunks ?b1 ?u)) ?b1 = Inr b2"
      by (simp add: line_chunks_def)
    from enc_inv [OF e ok1] line_enc(1) [OF e ok1] 3 c' show thesis
      by (intro that [of b2]) (auto simp: changeScheme_shape_ok)
  qed
qed

lemma recode_inv:
  assumes r: "recode blk b c = Inr (b', c')" and ok: "dict_ok b" and ni: "m_scheme b \<noteq> INVALID"
  shows "dict_ok b' \<and> data_eq b b' \<and> m_scheme b' = sch \<and> (shape_ok b \<longrightarrow> shape_ok b')"
proof -
  consider "m_scheme b = sch" | "m_scheme b = UNCOMPRESSED"
    | "m_scheme b \<noteq> sch" "m_scheme b \<noteq> UNCOMPRESSED" by blast
  then show ?thesis
  proof cases
    case 1
    with r obtain "fold_r (put blk) (enumerate 0 (line_chunks b blk)) b = Inr b'"
      by (auto simp: recode_same rbind_eq_Inr)
    from enc_inv [OF this ok] 1 show ?thesis by (auto simp: lines_eq_iff)
  next
    case 2
    with r ok obtain b2 where b2: "dict_ok b2" "lines_eq (changeScheme sch b) b2"
      "shape_ok b \<longrightarrow> shape_ok b2" "fold_r (put blk) (enumerate 0 (line_chunks b2 blk)) b2 = Inr b'"
      by (auto elim: recode_raw_cases)
    have de: "data_eq b b2"
      using data_eq_trans [OF changeScheme_data_eq] b2(2) unfolding lines_eq_iff by blast
    from enc_inv [OF b2(4,1)] b2(2,3) de show ?thesis
      using data_eq_trans [OF de] by (auto simp: lines_eq_iff)
  next
    case 3
    with r ni have e: "fold_r (\<lambda>i b. if m_valid b ! i
               then fold_r (put i) (enumerate 0 (line_chunks b i)) b else Inr b)
             [0..<SUPERBLOCK_SIZE] (changeScheme sch b) = Inr b'"
      by (auto simp: recode_other rbind_eq_Inr)
    from lines_enc [OF e] ok ni show ?thesis
      using changeScheme_dict_ok changeScheme_shape_ok data_eq_trans [OF changeScheme_data_eq]
      by (auto simp: lines_eq_iff)
  qed
qed

text \<open>What decodes after the call.\<close>

lemma recode_decodes_same:
  assumes "recode blk b c = Inr (b', c')" "dict_ok b" "m_scheme b = sch"
  shows "decodes dec b' blk" and "decodes dec b i \<Longrightarrow> decodes dec b' i"
proof -
  from assms have e: "fold_r (put blk) (enumerate 0 (line_chunks b blk)) b = Inr b'"
    by (auto simp: recode_same rbind_eq_Inr)
  show "decodes dec b' blk" "decodes dec b i \<Longrightarrow> decodes dec b' i"
    using line_enc [OF e assms(2)] by auto
qed

lemma recode_decodes_raw:
  assumes "recode blk b c = Inr (b', c')" "dict_ok b" "m_scheme b = UNCOMPRESSED"
  shows "decodes dec b' blk" and "decodes dec b' (getFirstValid b)"
proof -
  from assms obtain b2 where b2: "dict_ok b2"
      "getFirstValid b \<noteq> blk \<longrightarrow> decodes dec b2 (getFirstValid b)"
      "fold_r (put blk) (enumerate 0 (line_chunks b2 blk)) b2 = Inr b'"
    by (auto elim: recode_raw_cases)
  show 1: "decodes dec b' blk" by (rule line_enc(1) [OF b2(3,1)])
  show "decodes dec b' (getFirstValid b)"
    using 1 b2(2) line_enc(2) [OF b2(3,1)] by (cases "getFirstValid b = blk") auto
qed

lemma recode_decodes_other:
  assumes "recode blk b c = Inr (b', c')" "dict_ok b" "m_scheme b \<noteq> sch"
    "m_scheme b \<noteq> UNCOMPRESSED" "m_scheme b \<noteq> INVALID" "i < SUPERBLOCK_SIZE" "m_valid b ! i"
  shows "decodes dec b' i"
proof -
  have "fold_r (\<lambda>i b. if m_valid b ! i
               then fold_r (put i) (enumerate 0 (line_chunks b i)) b else Inr b)
             [0..<SUPERBLOCK_SIZE] (changeScheme sch b) = Inr b'"
    using assms(1,3-5) by (auto simp: recode_other rbind_eq_Inr)
  from lines_enc [OF this] assms show ?thesis by (simp add: changeScheme_dict_ok)
qed

text \<open>All three together: whichever scheme the frame comes from, every valid line and the
  line just stored decode afterwards. A frame that comes from the other scheme needs the
  stored line to be marked valid already, since only valid lines are re-encoded.\<close>

lemma recode_decodes:
  assumes r: "recode blk b c = Inr (b', c')" and ok: "dict_ok b" "m_scheme b \<noteq> INVALID"
    and "m_scheme b = sch \<Longrightarrow> i \<noteq> blk \<Longrightarrow> decodes dec b i"
    and "m_scheme b = UNCOMPRESSED \<Longrightarrow> i \<noteq> blk \<Longrightarrow> i = getFirstValid b"
    and "m_scheme b \<noteq> sch \<Longrightarrow> m_scheme b \<noteq> UNCOMPRESSED \<Longrightarrow> i < SUPERBLOCK_SIZE \<and> m_valid b ! i"
  shows "decodes dec b' i"
proof -
  consider "m_scheme b = sch" | "m_scheme b = UNCOMPRESSED"
    | "m_scheme b \<noteq> sch" "m_scheme b \<noteq> UNCOMPRESSED" by blast
  then show ?thesis
  proof cases
    case 1
    then show ?thesis using recode_decodes_same [OF r ok(1)] assms(4) by (cases "i = blk") auto
  next
    case 2
    then show ?thesis using recode_decodes_raw [OF r ok(1)] assms(5) by (cases "i = blk") auto
  next
    case 3
    then show ?thesis using recode_decodes_other [OF r ok(1)] ok(2) assms(6) by auto
  qed
qed

text \<open>When the call succeeds.\<close>

lemma recode_same_ok:
  assumes "dict_ok b" "shape_ok b" "blk < SUPERBLOCK_SIZE" "m_chunks_per_block b \<le> BLOCK_ENTRIES"
    "m_scheme b = sch" "card (key ` set (line_chunks b blk) - dict_vals b) \<le> length (m_free_ptrs b)"
  shows "\<exists>b' c'. recode blk b c = Inr (b', c')"
proof -
  have "length (line_chunks b blk) \<le> BLOCK_ENTRIES"
    using assms(4) by (simp add: line_chunks_def min_le_iff_disj)
  with enc_ok_iff [OF assms(1-3), of 0] assms(6) show ?thesis
    by (auto simp: recode_same [OF assms(5)] rbind_eq_Inr)
qed

lemma recode_raw_ok:
  assumes ok: "dict_ok b" and sh: "shape_ok b" and blk: "blk < SUPERBLOCK_SIZE"
    and n: "m_chunks_per_block b \<le> BLOCK_ENTRIES" and m: "m_scheme b = UNCOMPRESSED"
    and v: "bd_isValid b" and ne: "getFirstValid b \<noteq> blk"
    and room: "card (key ` (set (line_chunks b (getFirstValid b)) \<union> set (line_chunks b blk)))
      \<le> dict_size sch"
  shows "\<exists>b' c'. recode blk b c = Inr (b', c')"
proof -
  let ?u = "getFirstValid b" and ?b1 = "changeScheme sch b"
  have len: "length (line_chunks b i) \<le> BLOCK_ENTRIES" for i
    using n by (simp add: line_chunks_def min_le_iff_disj)
  have ok1: "dict_ok ?b1" "shape_ok ?b1"
    using ok sh m by (simp_all add: changeScheme_dict_ok changeScheme_shape_ok)
  have v1: "dict_vals ?b1 = {}"
    using changeScheme_fresh(1) [OF ok, of sch] m sch_valid(2) [symmetric]
    by (simp add: dict_vals_def)
  let ?K = "\<lambda>i. key ` set (line_chunks b i)"
  have "card (?K ?u) \<le> card (?K ?u \<union> ?K blk)" by (intro card_mono) auto
  with room have "card (?K ?u) \<le> dict_size sch" by (simp add: image_Un)
  with enc_ok_iff [OF ok1 getFirstValid_valid(1) [OF v], of 0 "line_chunks b ?u"] len v1
  obtain b2 where e: "fold_r (put ?u) (enumerate 0 (line_chunks b ?u)) ?b1 = Inr b2"
    using free_count [OF ok1(1)] by auto
  note b2 = enc_inv [OF e ok1(1)] enc_vals [OF e ok1(1)]
  have "line_chunks b2 blk = line_chunks b blk"
    using b2(1) by (simp add: lines_eq_def line_chunks_def)
  moreover have "card (?K blk - ?K ?u) = card (?K ?u \<union> ?K blk) - card (?K ?u)"
    using card_Un_disjoint [of "?K ?u" "?K blk - ?K ?u"] by simp
  ultimately have "card (key ` set (line_chunks b2 blk) - dict_vals b2) \<le> length (m_free_ptrs b2)"
    using free_count [of b2] b2 v1 room by (simp add: lines_eq_def image_Un)
  with enc_ok_iff [of b2 blk 0 "line_chunks b2 blk"] b2(1) ok1(2) blk len
    \<open>line_chunks b2 blk = line_chunks b blk\<close>
  obtain b3 where "fold_r (put blk) (enumerate 0 (line_chunks b2 blk)) b2 = Inr b3" by auto
  with e ne show ?thesis by (simp add: recode_raw [OF m])
qed

text \<open>The controller's counters follow the scheme of the frame.\<close>

lemma recode_counts:
  assumes "recode blk b c = Inr (b', c')" "m_scheme b \<noteq> INVALID"
  shows "num_scheme1 c' = num_scheme1 c + of_bool (sch = SCHEME1) - of_bool (m_scheme b = SCHEME1)"
    and "num_scheme2 c' = num_scheme2 c + of_bool (sch = SCHEME2) - of_bool (m_scheme b = SCHEME2)"
    and "m_compressible c' = m_compressible c" "m_change_scheme_otf c' = m_change_scheme_otf c"
    "m_prune_dish_entries c' = m_prune_dish_entries c"
proof -
  have "c' = (if m_scheme b = sch then c else cntlr_insert sch (cntlr_evict (m_scheme b) c))"
    using assms(1,2)
    by (cases "m_scheme b = sch"; cases "m_scheme b = UNCOMPRESSED")
       (auto simp: recode_same recode_raw recode_other rbind_eq_Inr)
  then show "num_scheme1 c' = num_scheme1 c + of_bool (sch = SCHEME1) - of_bool (m_scheme b = SCHEME1)"
    "num_scheme2 c' = num_scheme2 c + of_bool (sch = SCHEME2) - of_bool (m_scheme b = SCHEME2)"
    "m_compressible c' = m_compressible c" "m_change_scheme_otf c' = m_change_scheme_otf c"
    "m_prune_dish_entries c' = m_prune_dish_entries c"
    using sch assms(2) by (cases "m_scheme b"; auto)+
qed

end

interpretation frame1: frame_encoder put_chunk1 "\<lambda>c. c" dec1 SCHEME1 recode1
proof
  fix b :: block_data and blk :: nat and c :: cache_compression_cntlr
  show "SCHEME1 = SCHEME1 \<or> SCHEME1 = SCHEME2" by simp
  show "recode1 blk b c = rbind (fold_r (put_chunk1 blk) (enumerate 0 (line_chunks b blk)) b)
      (\<lambda>b1. Inr (b1, c))" if "m_scheme b = SCHEME1"
    using that by (simp add: recode1_def encode_line1_def)
  show "recode1 blk b c =
      rbind (if getFirstValid b \<noteq> blk
             then fold_r (put_chunk1 (getFirstValid b))
               (enumerate 0 (line_chunks b (getFirstValid b))) (changeScheme SCHEME1 b)
             else Inr (changeScheme SCHEME1 b)) (\<lambda>b2.
      rbind (fold_r (put_chunk1 blk) (enumerate 0 (line_chunks b2 blk)) b2) (\<lambda>b3.
      Inr (b3, cntlr_insert SCHEME1 c)))" if "m_scheme b = UNCOMPRESSED"
    using that data_eq_valid(2) [OF changeScheme_data_eq]
      data_eq_line_chunks [OF changeScheme_data_eq]
    by (simp add: recode1_def encode_line1_def Let_def)
  show "recode1 blk b c =
      rbind (fold_r (\<lambda>i b. if m_valid b ! i
               then fold_r (put_chunk1 i) (enumerate 0 (line_chunks b i)) b else Inr b)
             [0..<SUPERBLOCK_SIZE] (changeScheme SCHEME1 b)) (\<lambda>b2.
      Inr (b2, cntlr_insert SCHEME1 (cntlr_evict (m_scheme b) c)))"
    if "m_scheme b \<noteq> SCHEME1" "m_scheme b \<noteq> UNCOMPRESSED" "m_scheme b \<noteq> INVALID"
    using that unfolding recode1_def encode_line1_def by (cases "m_scheme b") simp_all
qed

interpretation frame2: frame_encoder put_chunk2 upper dec2 SCHEME2 recode2
proof
  fix b :: block_data and blk :: nat and c :: cache_compression_cntlr
  show "SCHEME2 = SCHEME1 \<or> SCHEME2 = SCHEME2" by simp
  show "recode2 blk b c = rbind (fold_r (put_chunk2 blk) (enumerate 0 (line_chunks b blk)) b)
      (\<lambda>b1. Inr (b1, c))" if "m_scheme b = SCHEME2"
    using that by (simp add: recode2_def encode_line2_def)
  show "recode2 blk b c =
      rbind (if getFirstValid b \<noteq> blk
             then fold_r (put_chunk2 (getFirstValid b))
               (enumerate 0 (line_chunks b (getFirstValid b))) (changeScheme SCHEME2 b)
             else Inr (changeScheme SCHEME2 b)) (\<lambda>b2.
      rbind (fold_r (put_chunk2 blk) (enumerate 0 (line_chunks b2 blk)) b2) (\<lambda>b3.
      Inr (b3, cntlr_insert SCHEME2 c)))" if "m_scheme b = UNCOMPRESSED"
    using that data_eq_valid(2) [OF changeScheme_data_eq]
      data_eq_line_chunks [OF changeScheme_data_eq]
    by (simp add: recode2_def encode_line2_def Let_def)
  show "recode2 blk b c =
      rbind (fold_r (\<lambda>i b. if m_valid b ! i
               then fold_r (put_chunk2 i) (enumerate 0 (line_chunks b i)) b else Inr b)
             [0..<SUPERBLOCK_SIZE] (changeScheme SCHEME2 b)) (\<lambda>b2.
      Inr (b2, cntlr_insert SCHEME2 (cntlr_evict (m_scheme b) c)))"
    if "m_scheme b \<noteq> SCHEME2" "m_scheme b \<noteq> UNCOMPRESSED" "m_scheme b \<noteq> INVALID"
    using that unfolding recode2_def encode_line2_def by (cases "m_scheme b") simp_all
qed

end
