(* ===== verification/Block_Data_Frame.thy ===== *)
theory Block_Data_Frame
  imports Block_Data_Coding
begin

text \<open>
  The invariant of a superblock frame and its preservation by the operations that change it:
  storing a raw line, compaction, statistics, compression.
\<close>

section \<open>The invariants\<close>

definition frame_ok :: "block_data \<Rightarrow> bool" where
  "frame_ok b \<longleftrightarrow> shape_ok b \<and> dict_ok b \<and> m_scheme b \<noteq> INVALID \<and>
     (\<not> bd_isValid b \<longrightarrow> m_scheme b = UNCOMPRESSED)"

text \<open>What the encoded form of line \<open>i\<close> decodes to, as bytes. A frame that is not compressed
  holds its line raw.\<close>

definition decode_chunk :: "block_data \<Rightarrow> nat \<Rightarrow> nat \<Rightarrow> u32 option" where
  "decode_chunk b i j =
     (case m_scheme b of
        SCHEME1 \<Rightarrow> dec1 b i j
      | SCHEME2 \<Rightarrow> dec2 b i j
      | _ \<Rightarrow> Some (line_chunks b i ! j))"

definition decode_line :: "block_data \<Rightarrow> nat \<Rightarrow> u8 list option" where
  "decode_line b i =
     map_option unchunks (those (map (decode_chunk b i) [0..<m_chunks_per_block b]))"

definition line_decodes :: "block_data \<Rightarrow> nat \<Rightarrow> bool" where
  "line_decodes b i = decodes decode_chunk b i"

text \<open>Every valid line decodes to its raw bytes, and an uncompressed frame holds at most one
  line.\<close>

definition coded_ok :: "block_data \<Rightarrow> bool" where
  "coded_ok b \<longleftrightarrow>
     (\<forall>i < SUPERBLOCK_SIZE. m_valid b ! i \<longrightarrow> line_decodes b i) \<and>
     (m_scheme b = UNCOMPRESSED \<longrightarrow>
        (\<forall>i < SUPERBLOCK_SIZE. m_valid b ! i \<longrightarrow> i = getFirstValid b))"

lemma line_decodes_simps:
  "m_scheme b = SCHEME1 \<Longrightarrow> line_decodes b i = decodes dec1 b i"
  "m_scheme b = SCHEME2 \<Longrightarrow> line_decodes b i = decodes dec2 b i"
  "m_scheme b = UNCOMPRESSED \<Longrightarrow> line_decodes b i"
  by (simp_all add: line_decodes_def decodes_def decode_chunk_def)

lemma those_map_Some: "(\<And>x. x \<in> set xs \<Longrightarrow> f x = Some (g x)) \<Longrightarrow> those (map f xs) = Some (map g xs)"
  by (induction xs) auto

lemma length_line_chunks:
  assumes "shape_ok b" "i < SUPERBLOCK_SIZE"
  shows "length (line_chunks b i) = m_chunks_per_block b"
  using assms by (simp add: line_chunks_def shape_ok_def GRANULARITY_BYTES_def)

lemma decode_line_raw:
  assumes "shape_ok b" "i < SUPERBLOCK_SIZE" "4 dvd m_blocksize b" "line_decodes b i"
  shows "decode_line b i = Some (m_data b ! i)"
proof -
  note len = length_line_chunks [OF assms(1,2)]
  have row: "length (m_data b ! i) = m_blocksize b" using assms(1,2) by (rule shape_ok_rows)
  have "those (map (decode_chunk b i) [0..<m_chunks_per_block b]) =
      Some (map (\<lambda>j. line_chunks b i ! j) [0..<m_chunks_per_block b])"
    using assms(4) len by (intro those_map_Some) (simp add: line_decodes_def decodes_def)
  also have "map (\<lambda>j. line_chunks b i ! j) [0..<m_chunks_per_block b] = line_chunks b i"
    by (simp add: len [symmetric] map_nth)
  also have "line_chunks b i = chunks (m_data b ! i)"
    using assms(1) row by (simp add: line_chunks_def shape_ok_def GRANULARITY_BYTES_def)
  finally show ?thesis using row assms(3) by (simp add: decode_line_def unchunks_chunks)
qed

section \<open>Storing a raw line\<close>

definition set_line :: "nat \<Rightarrow> u8 list \<Rightarrow> block_data \<Rightarrow> block_data" where
  "set_line blk new b = b\<lparr> m_data := (m_data b)[blk := new] \<rparr>"

lemma set_line_simps [simp]:
  "m_blocksize (set_line blk new b) = m_blocksize b"
  "m_chunks_per_block (set_line blk new b) = m_chunks_per_block b"
  "m_scheme (set_line blk new b) = m_scheme b"
  "m_valid (set_line blk new b) = m_valid b"
  "m_data (set_line blk new b) = (m_data b)[blk := new]"
  "m_dict (set_line blk new b) = m_dict b"
  "m_free_ptrs (set_line blk new b) = m_free_ptrs b"
  "m_used_ptrs (set_line blk new b) = m_used_ptrs b"
  "m_data_ptrs (set_line blk new b) = m_data_ptrs b"
  "m_data_offsets (set_line blk new b) = m_data_offsets b"
  by (simp_all add: set_line_def)

lemma set_line_valid [simp]:
  "bd_isValid (set_line blk new b) = bd_isValid b"
  "getFirstValid (set_line blk new b) = getFirstValid b"
  by (simp_all add: bd_isValid_def getFirstValid_def)

lemma set_line_dict_ok [simp]: "dict_ok (set_line blk new b) = dict_ok b"
  by (rule dict_ok_cong) simp_all

lemma set_line_shape_ok:
  assumes "shape_ok b" "length new = m_blocksize b"
  shows "shape_ok (set_line blk new b)"
  using assms by (auto simp: shape_ok_def dest!: set_update_subset_insert [THEN subsetD])

lemma line_chunks_set_line [simp]: "i \<noteq> blk \<Longrightarrow> line_chunks (set_line blk new b) i = line_chunks b i"
  by (simp add: line_chunks_def)

lemma decodes_set_line:
  "i \<noteq> blk \<Longrightarrow> decodes dec1 (set_line blk new b) i = decodes dec1 b i"
  "i \<noteq> blk \<Longrightarrow> decodes dec2 (set_line blk new b) i = decodes dec2 b i"
  by (simp_all add: decodes_def dec1_def dec2_def)

lemma copy_n_eq_Inr [res_simps]:
  "copy_n src i n dst j = Inr dst' \<longleftrightarrow>
     i + n \<le> length src \<and> j + n \<le> length dst \<and> dst' = overwrite j (take n (drop i src)) dst"
  by (auto simp: copy_n_def res_simps min_def)

lemma store_raw_eq_Inr [res_simps]:
  "store_raw blk off src wr n b = Inr b' \<longleftrightarrow>
     blk < length (m_data b) \<and> src + n \<le> length wr \<and> off + n \<le> length (m_data b ! blk) \<and>
     b' = set_line blk (overwrite off (take n (drop src wr)) (m_data b ! blk)) b"
  by (auto simp: store_raw_def set_line_def res_simps)

section \<open>Compaction\<close>

lemma erase_entry_frame [simp]:
  "m_blocksize (erase_entry p b) = m_blocksize b"
  "m_chunks_per_block (erase_entry p b) = m_chunks_per_block b"
  "m_scheme (erase_entry p b) = m_scheme b" "m_valid (erase_entry p b) = m_valid b"
  "m_data (erase_entry p b) = m_data b" "m_data_ptrs (erase_entry p b) = m_data_ptrs b"
  "m_data_offsets (erase_entry p b) = m_data_offsets b"
  "entry_used (erase_entry p b) v = entry_used b v"
  by (simp_all add: erase_entry_def entry_used_def line_chunks_def)

lemma erase_entry_dict:
  assumes "dict_ok b" "e \<in> set (m_dict b)"
  shows "m_dict (erase_entry (fst e) b) = filter (\<lambda>x. x \<noteq> e) (m_dict b)"
proof -
  have "x = e" if "x \<in> set (m_dict b)" "fst x = fst e" for x
    using assms that by (auto simp: dict_ok_def distinct_map inj_on_def)
  then show ?thesis by (auto simp: erase_entry_def umap_erase_def intro!: filter_cong)
qed

lemma erase_entry_dict_ok:
  assumes ok: "dict_ok b" and e: "e \<in> set (m_dict b)"
  shows "dict_ok (erase_entry (fst e) b)"
proof -
  let ?b = "erase_entry (fst e) b"
  have inj: "inj_on fst (set (m_dict b))" using ok by (simp add: dict_ok_def distinct_map)
  have keys: "fst ` set (m_dict ?b) = fst ` set (m_dict b) - {fst e}"
    using e inj by (auto simp: erase_entry_dict [OF ok e] dest: inj_onD)
  have fr: "fst e \<notin> set (m_free_ptrs b)" using ok e by (auto simp: dict_ok_def)
  then have free: "m_free_ptrs ?b = fst e # m_free_ptrs b"
    by (simp add: erase_entry_def uset_insert_def)
  have dist: "distinct (map fst (m_dict ?b))" "distinct (map snd (m_dict ?b))"
    using ok by (auto simp: erase_entry_dict [OF ok e] dict_ok_def intro: distinct_map_filter)
  have used: "set (m_used_ptrs ?b) = fst ` set (m_dict ?b)" "distinct (m_used_ptrs ?b)"
    using ok unfolding keys by (auto simp: erase_entry_def dict_ok_def)
  have "set (m_free_ptrs ?b) \<inter> fst ` set (m_dict ?b) = {}"
    using ok unfolding free keys by (auto simp: dict_ok_def)
  moreover have "set (m_free_ptrs ?b) \<union> fst ` set (m_dict ?b) = ptr_range (dict_size (m_scheme b))"
    using ok e unfolding free keys by (auto simp: dict_ok_def)
  ultimately show ?thesis
    using dist used free fr ok by (simp add: dict_ok_def)
qed

definition prune_step :: "u8 \<times> u32 \<Rightarrow> block_data \<Rightarrow> block_data" where
  "prune_step e b = (if entry_used b (snd e) then b else erase_entry (fst e) b)"

lemma prune_step_frame:
  "lines_eq b (prune_step e b)" "m_data_ptrs (prune_step e b) = m_data_ptrs b"
  "m_data_offsets (prune_step e b) = m_data_offsets b"
  "entry_used (prune_step e b) v = entry_used b v"
  by (simp_all add: prune_step_def lines_eq_def)

lemma prune_fold:
  assumes "dict_ok b" "set es \<subseteq> set (m_dict b)" "distinct es"
  shows "dict_ok (fold prune_step es b) \<and> lines_eq b (fold prune_step es b) \<and>
    m_data_ptrs (fold prune_step es b) = m_data_ptrs b \<and>
    m_data_offsets (fold prune_step es b) = m_data_offsets b \<and>
    m_dict (fold prune_step es b) =
      filter (\<lambda>e. e \<in> set es \<longrightarrow> entry_used b (snd e)) (m_dict b)"
  using assms
proof (induction es arbitrary: b)
  case (Cons e es)
  let ?b1 = "prune_step e b"
  have e: "e \<in> set (m_dict b)" using Cons.prems by simp
  have d1: "m_dict ?b1 = filter (\<lambda>x. x = e \<longrightarrow> entry_used b (snd x)) (m_dict b)"
    using erase_entry_dict [OF Cons.prems(1) e] by (auto simp: prune_step_def intro!: filter_cong)
  have ok1: "dict_ok ?b1"
    using erase_entry_dict_ok [OF Cons.prems(1) e] Cons.prems(1) by (simp add: prune_step_def)
  have "set es \<subseteq> set (m_dict ?b1)" using Cons.prems(2,3) d1 by auto
  from Cons.IH [OF ok1 this] Cons.prems(3) prune_step_frame [where b = b and e = e] d1 show ?case
    using lines_eq_trans [of b ?b1] by (auto simp: filter_filter intro!: filter_cong)
qed simp

lemma compact_fold:
  "compactScheme1 b = fold prune_step (m_dict b) b" "compactScheme2 b = fold prune_step (m_dict b) b"
  by (simp_all add: compactScheme1_def compactScheme2_def prune_step_def [abs_def])

text \<open>Both compaction routines keep the frame in good order and keep exactly the entries whose
  value occurs as a granule of a valid line.\<close>

lemma compact_pruned:
  assumes "compact b = Inr b'" "dict_ok b"
  shows "dict_ok b' \<and> lines_eq b b' \<and> m_data_ptrs b' = m_data_ptrs b \<and>
    m_data_offsets b' = m_data_offsets b"
    and "bd_isValid b \<Longrightarrow> m_scheme b = SCHEME1 \<or> m_scheme b = SCHEME2 \<Longrightarrow>
      m_dict b' = filter (\<lambda>e. entry_used b (snd e)) (m_dict b)"
proof -
  have dist: "distinct (m_dict b)" using assms(2) by (auto simp: dict_ok_def distinct_map)
  have c: "b' = (if bd_isValid b \<and> (m_scheme b = SCHEME1 \<or> m_scheme b = SCHEME2)
      then fold prune_step (m_dict b) b else b)"
    using assms(1) by (cases "m_scheme b") (auto simp: compact_def compact_fold split: if_splits)
  note pf = prune_fold [OF assms(2) subset_refl dist]
  show "dict_ok b' \<and> lines_eq b b' \<and> m_data_ptrs b' = m_data_ptrs b \<and>
      m_data_offsets b' = m_data_offsets b"
    using pf assms(2) c by auto
  show "m_dict b' = filter (\<lambda>e. entry_used b (snd e)) (m_dict b)"
    if "bd_isValid b" "m_scheme b = SCHEME1 \<or> m_scheme b = SCHEME2"
    using pf c that by (auto intro!: filter_cong)
qed

text \<open>In the first scheme the entries a line needs are its granules, so they survive.\<close>

lemma compact_decodes1:
  assumes c: "compact b = Inr b'" and ok: "dict_ok b" and m: "m_scheme b = SCHEME1"
    and i: "i < SUPERBLOCK_SIZE" "m_valid b ! i" and d: "decodes dec1 b i"
  shows "decodes dec1 b' i"
proof -
  have valid: "bd_isValid b" using i by (auto simp: bd_isValid_def list_ex_iff)
  note cp = compact_pruned(1) [OF c ok] compact_pruned(2) [OF c ok valid] m
  have chunks_eq: "line_chunks b' i = line_chunks b i"
    using cp(1) lines_eq_line_chunks by blast
  show ?thesis
    unfolding decodes_def
  proof (intro allI impI)
    fix j assume "j < length (line_chunks b' i)"
    then have j: "j < length (line_chunks b i)"
      by (simp add: chunks_eq)
    let ?p = "m_data_ptrs b ! i ! j" and ?v = "line_chunks b i ! j"
    have "(?p, ?v) \<in> set (m_dict b)"
      using d j by (auto simp: decodes_def dec1_def dest: map_of_SomeD)
    moreover have "entry_used b ?v" using i j by (auto simp: entry_used_def list_ex_iff)
    ultimately have "(?p, ?v) \<in> set (m_dict b')" using cp(2,3) by simp
    then have "map_of (m_dict b') ?p = Some ?v"
      using cp(1) by (intro map_of_is_SomeI) (simp_all add: dict_ok_def)
    then show "dec1 b' i j = Some (line_chunks b' i ! j)"
      using cp(1) by (simp add: dec1_def chunks_eq)
  qed
qed

section \<open>Statistics\<close>

lemma updateStatistics_frame [simp]:
  "m_blocksize (updateStatistics b) = m_blocksize b"
  "m_chunks_per_block (updateStatistics b) = m_chunks_per_block b"
  "m_scheme (updateStatistics b) = m_scheme b" "m_valid (updateStatistics b) = m_valid b"
  "m_data (updateStatistics b) = m_data b" "m_dict (updateStatistics b) = m_dict b"
  "m_free_ptrs (updateStatistics b) = m_free_ptrs b"
  "m_used_ptrs (updateStatistics b) = m_used_ptrs b"
  "m_data_ptrs (updateStatistics b) = m_data_ptrs b"
  "m_data_offsets (updateStatistics b) = m_data_offsets b"
  by (cases "m_scheme b"; simp add: updateStatistics_def Let_def)+

lemma updateStatistics_ok [simp]:
  "dict_ok (updateStatistics b) = dict_ok b" "shape_ok (updateStatistics b) = shape_ok b"
  "bd_isValid (updateStatistics b) = bd_isValid b"
  "getFirstValid (updateStatistics b) = getFirstValid b"
  "line_chunks (updateStatistics b) i = line_chunks b i"
  "dec1 (updateStatistics b) = dec1 b" "dec2 (updateStatistics b) = dec2 b"
  by (simp_all add: dict_ok_def shape_ok_def bd_isValid_def getFirstValid_def line_chunks_def
      dec1_def [abs_def] dec2_def [abs_def])

lemma updateStatistics_decodes [simp]:
  "line_decodes (updateStatistics b) i = line_decodes b i"
  by (cases "m_scheme b") (simp_all add: line_decodes_def decodes_def decode_chunk_def)

end
