(* ===== verification/Block_Data_Ops.thy ===== *)
theory Block_Data_Ops
  imports Block_Data_Frame
begin

text \<open>
  The public operations of a superblock frame: every branch of them keeps the frame in good
  order, what they do to the stored bytes and to the validity bits, when they keep every line
  decodable, and when they succeed.
\<close>

section \<open>Compression\<close>

text \<open>The outcome of either compression routine: the bytes are stored at \<open>off\<close>, the frame is in
  the new scheme and in good order.\<close>

definition compressed_to ::
    "scheme_t \<Rightarrow> block_data \<Rightarrow> nat \<Rightarrow> nat \<Rightarrow> u8 list \<Rightarrow> nat \<Rightarrow> block_data \<Rightarrow> bool" where
  "compressed_to sch b blk off w n b' \<longleftrightarrow>
     dict_ok b' \<and> shape_ok b' \<and> m_scheme b' = sch \<and> bd_isValid b \<and> blk < SUPERBLOCK_SIZE \<and>
     n \<le> length w \<and> off + n \<le> m_blocksize b \<and>
     data_eq (set_line blk (overwrite off (take n w) (m_data b ! blk)) b) b'"

lemma compress_pre_eq_Inr [res_simps]:
  "compress_pre b blk off wr n = Inr w \<longleftrightarrow>
     wr = Some w \<and> bd_isValid b \<and> blk < SUPERBLOCK_SIZE \<and> blk < length (m_valid b) \<and>
     (m_valid b ! blk \<or> off = 0 \<and> n = m_blocksize b) \<and>
     (m_scheme b = UNCOMPRESSED \<longrightarrow> off = 0 \<and> n = m_blocksize b)"
  by (cases wr) (auto simp: compress_pre_def bd_isValid_at_def res_simps)

lemma compressScheme1_cases:
  assumes "compressScheme1 b blk off wr n c = Inr (b', c')" "shape_ok b"
  obtains w where "wr = Some w" "bd_isValid b" "blk < SUPERBLOCK_SIZE" "n \<le> length w"
    "off + n \<le> m_blocksize b" "isScheme1Compressible b blk off wr n c = Inr True"
    "m_valid b ! blk \<or> off = 0 \<and> n = m_blocksize b"
    "recode1 blk (set_line blk (overwrite off (take n w) (m_data b ! blk)) b) c = Inr (b', c')"
  using assms shape_ok_rows [OF assms(2)] by (auto simp: compressScheme1_def res_simps)

lemma compressScheme2_cases:
  assumes "compressScheme2 b blk off wr n c = Inr (b', c')" "shape_ok b"
  obtains w where "wr = Some w" "bd_isValid b" "blk < SUPERBLOCK_SIZE" "n \<le> length w"
    "off + n \<le> m_blocksize b" "isScheme2Compressible b blk off wr n c = Inr True"
    "m_valid b ! blk \<or> off = 0 \<and> n = m_blocksize b"
    "recode2 blk (set_line blk (overwrite off (take n w) (m_data b ! blk)) b) c = Inr (b', c')"
  using assms shape_ok_rows [OF assms(2)] by (auto simp: compressScheme2_def res_simps)

lemma set_line_overwrite_ok:
  assumes "shape_ok b" "blk < SUPERBLOCK_SIZE" "n \<le> length w" "off + n \<le> m_blocksize b"
  shows "shape_ok (set_line blk (overwrite off (take n w) (m_data b ! blk)) b)"
  using assms shape_ok_rows(6) [OF assms(1,2)] by (intro set_line_shape_ok) simp_all

lemma compressScheme1_post:
  assumes "compressScheme1 b blk off wr n c = Inr (b', c')" "frame_ok b"
  obtains w where "wr = Some w" "compressed_to SCHEME1 b blk off w n b'"
proof -
  have ok: "shape_ok b" "dict_ok b" "m_scheme b \<noteq> INVALID" using assms(2) by (auto simp: frame_ok_def)
  from compressScheme1_cases [OF assms(1) ok(1)] obtain w where
    w: "wr = Some w" "bd_isValid b" "blk < SUPERBLOCK_SIZE" "n \<le> length w" "off + n \<le> m_blocksize b"
    and r: "recode1 blk (set_line blk (overwrite off (take n w) (m_data b ! blk)) b) c = Inr (b', c')"
    by blast
  from frame1.recode_inv [OF r] ok(2,3) w set_line_overwrite_ok [OF ok(1) w(3-5)]
  show thesis by (intro that [of w]) (simp_all add: compressed_to_def)
qed

lemma compressScheme2_post:
  assumes "compressScheme2 b blk off wr n c = Inr (b', c')" "frame_ok b"
  obtains w where "wr = Some w" "compressed_to SCHEME2 b blk off w n b'"
proof -
  have ok: "shape_ok b" "dict_ok b" "m_scheme b \<noteq> INVALID" using assms(2) by (auto simp: frame_ok_def)
  from compressScheme2_cases [OF assms(1) ok(1)] obtain w where
    w: "wr = Some w" "bd_isValid b" "blk < SUPERBLOCK_SIZE" "n \<le> length w" "off + n \<le> m_blocksize b"
    and r: "recode2 blk (set_line blk (overwrite off (take n w) (m_data b ! blk)) b) c = Inr (b', c')"
    by blast
  from frame2.recode_inv [OF r] ok(2,3) w set_line_overwrite_ok [OF ok(1) w(3-5)]
  show thesis by (intro that [of w]) (simp_all add: compressed_to_def)
qed

text \<open>Decodability. The side condition excludes one case: a line inserted into a frame that
  is in the other scheme.\<close>

lemma compressScheme1_decodes:
  assumes "compressScheme1 b blk off wr n c = Inr (b', c')" "frame_ok b" "coded_ok b"
    and "m_valid b ! blk \<or> m_scheme b \<noteq> SCHEME2"
    and i: "i < SUPERBLOCK_SIZE" "m_valid b ! i \<or> i = blk"
  shows "line_decodes b' i"
proof -
  have ok: "shape_ok b" "dict_ok b" "m_scheme b \<noteq> INVALID" using assms(2) by (auto simp: frame_ok_def)
  from compressScheme1_cases [OF assms(1) ok(1)] obtain w where
    r: "recode1 blk (set_line blk (overwrite off (take n w) (m_data b ! blk)) b) c = Inr (b', c')"
    by blast
  have "decodes dec1 b' i"
    by (rule frame1.recode_decodes [OF r])
       (use ok assms(3,4) i in \<open>auto simp: coded_ok_def line_decodes_simps decodes_set_line\<close>,
        cases "m_scheme b", auto)
  moreover have "m_scheme b' = SCHEME1"
    using frame1.recode_inv [OF r] ok by simp
  ultimately show ?thesis by (simp add: line_decodes_simps)
qed

lemma compressScheme2_decodes:
  assumes "compressScheme2 b blk off wr n c = Inr (b', c')" "frame_ok b" "coded_ok b"
    and "m_valid b ! blk \<or> m_scheme b \<noteq> SCHEME1"
    and i: "i < SUPERBLOCK_SIZE" "m_valid b ! i \<or> i = blk"
  shows "line_decodes b' i"
proof -
  have ok: "shape_ok b" "dict_ok b" "m_scheme b \<noteq> INVALID" using assms(2) by (auto simp: frame_ok_def)
  from compressScheme2_cases [OF assms(1) ok(1)] obtain w where
    r: "recode2 blk (set_line blk (overwrite off (take n w) (m_data b ! blk)) b) c = Inr (b', c')"
    by blast
  have "decodes dec2 b' i"
    by (rule frame2.recode_decodes [OF r])
       (use ok assms(3,4) i in \<open>auto simp: coded_ok_def line_decodes_simps decodes_set_line\<close>,
        cases "m_scheme b", auto)
  moreover have "m_scheme b' = SCHEME2"
    using frame2.recode_inv [OF r] ok by simp
  ultimately show ?thesis by (simp add: line_decodes_simps)
qed

section \<open>Writing\<close>

lemma maybe_compact_ok:
  assumes "maybe_compact c b = Inr b'" "dict_ok b" "shape_ok b"
  shows "dict_ok b' \<and> shape_ok b' \<and> lines_eq b b'"
proof (cases "shouldPruneDISHEntries c")
  case True
  with assms(1) have "compact b = Inr b'" by (simp add: maybe_compact_def)
  from compact_pruned(1) [OF this assms(2)] assms(3) show ?thesis
    by (auto simp: shape_ok_def lines_eq_def)
qed (use assms in \<open>simp add: maybe_compact_def\<close>)

lemma maybe_compact_decodes:
  assumes "maybe_compact c b = Inr b'" "dict_ok b" "shouldPruneDISHEntries c \<longrightarrow> m_scheme b \<noteq> SCHEME2"
    "m_scheme b \<noteq> INVALID" "i < SUPERBLOCK_SIZE" "m_valid b ! i" "line_decodes b i"
  shows "line_decodes b' i"
proof (cases "shouldPruneDISHEntries c")
  case True
  with assms(1) have c: "compact b = Inr b'" by (simp add: maybe_compact_def)
  have "m_scheme b' = m_scheme b"
    using compact_pruned(1) [OF c assms(2)] by (simp add: lines_eq_def)
  with True assms compact_decodes1 [OF c assms(2)] show ?thesis
    by (cases "m_scheme b") (auto simp: line_decodes_simps)
qed (use assms in \<open>simp add: maybe_compact_def\<close>)

lemma maybe_compact_total:
  "m_scheme b \<noteq> INVALID \<Longrightarrow> \<exists>b'. maybe_compact c b = Inr b'"
  by (cases "m_scheme b") (auto simp: maybe_compact_def compact_def)

text \<open>The four ways a write can go.\<close>

lemma writeBlockData_cases:
  assumes "writeBlockData b blk off wr n c = Inr (b', c')" "frame_ok b"
  obtains (null) "wr = None" "c' = c" "maybe_compact c b = Inr b'"
  | (raw) w where "wr = Some w" "m_scheme b = UNCOMPRESSED" "m_valid b ! blk" "c' = c"
      "blk < SUPERBLOCK_SIZE" "off + n \<le> length w" "off + n \<le> m_blocksize b"
      "maybe_compact c (set_line blk (overwrite off (take n (drop off w)) (m_data b ! blk)) b) = Inr b'"
  | (s1) b1 where "compressScheme1 b blk off wr n c = Inr (b1, c')" "m_valid b ! blk"
      "m_scheme b \<noteq> UNCOMPRESSED" "maybe_compact c' b1 = Inr b'"
  | (s2) b1 where "compressScheme2 b blk off wr n c = Inr (b1, c')" "m_valid b ! blk"
      "m_scheme b \<noteq> UNCOMPRESSED" "maybe_compact c' b1 = Inr b'"
proof (cases wr)
  case None
  then show thesis using assms(1) by (intro null) (auto simp: writeBlockData_def res_simps)
next
  case (Some w)
  with assms(1) obtain s b1 c1 where s: "getSchemeForWrite b blk off wr n c = Inr s"
    and b1: "(case s of
               UNCOMPRESSED \<Rightarrow> rbind (store_raw blk off off w n b) (\<lambda>b1. Inr (b1, c))
             | SCHEME1 \<Rightarrow> compressScheme1 b blk off wr n c
             | SCHEME2 \<Rightarrow> compressScheme2 b blk off wr n c
             | INVALID \<Rightarrow> Inl Assert_Failed) = Inr (b1, c1)"
    and m: "maybe_compact c1 b1 = Inr b'" "c' = c1"
    by (auto simp: writeBlockData_def rbind_eq_Inr split: prod.splits)
  have len: "blk < length (m_valid b)" if "s \<noteq> INVALID"
    using s that by (auto simp: getSchemeForWrite_def res_simps split: if_splits)
  have v: "m_valid b ! blk" if "s \<noteq> INVALID"
    using s that by (auto simp: getSchemeForWrite_def res_simps split: if_splits)
  have u: "s = UNCOMPRESSED \<longleftrightarrow> m_scheme b = UNCOMPRESSED" if "s \<noteq> INVALID"
    using s that by (cases "m_scheme b")
      (auto simp: getSchemeForWrite_def rbind_eq_Inr split: if_splits)
  have len4: "length (m_valid b) = SUPERBLOCK_SIZE"
    using assms(2) by (simp add: frame_ok_def shape_ok_def)
  show thesis
  proof (cases s)
    case INVALID
    then show thesis using b1 by simp
  next
    case UNCOMPRESSED
    then have blk: "blk < SUPERBLOCK_SIZE" using len len4 by simp
    have "length (m_data b ! blk) = m_blocksize b"
      using shape_ok_rows(6) [OF _ blk] assms(2) by (simp add: frame_ok_def)
    with UNCOMPRESSED b1 m v u Some blk show thesis
      by (intro raw [of w]) (auto simp: res_simps)
  next
    case SCHEME1
    with b1 m v u show thesis by (intro s1 [of b1]) auto
  next
    case SCHEME2
    with b1 m v u show thesis by (intro s2 [of b1]) auto
  qed
qed

lemma data_eq_frame_ok:
  assumes "data_eq (set_line blk new b) b'" "dict_ok b'" "shape_ok b'" "m_scheme b' \<noteq> INVALID"
    "bd_isValid b \<or> m_scheme b' = UNCOMPRESSED"
  shows "frame_ok b'"
  using assms data_eq_valid(1) [OF assms(1)] by (auto simp: frame_ok_def)

lemma maybe_compact_frame_ok:
  assumes "maybe_compact c b = Inr b'" "frame_ok b"
  shows "frame_ok b'" "data_eq b b'" "m_scheme b' = m_scheme b"
  using maybe_compact_ok [OF assms(1)] assms(2) data_eq_valid(1) [of b b']
  by (auto simp: frame_ok_def lines_eq_iff)

lemma compressed_to_frame_ok:
  assumes "compressed_to sch b blk off w n b'" "sch \<noteq> INVALID"
  shows "frame_ok b'"
  using assms by (auto simp: compressed_to_def intro: data_eq_frame_ok)

text \<open>What a write does: the frame stays in good order, the validity bits stay, and the bytes
  go to the addressed line at \<open>off\<close>. They come from the start of the buffer when the frame is
  compressed and from \<open>off\<close> on when it is not.\<close>

lemma writeBlockData_effect:
  assumes wr: "writeBlockData b blk off wr n c = Inr (b', c')" and ok: "frame_ok b"
  shows "frame_ok b' \<and> m_valid b' = m_valid b \<and> m_blocksize b' = m_blocksize b \<and>
    m_data b' = (case wr of None \<Rightarrow> m_data b
      | Some w \<Rightarrow> (m_data b)[blk := overwrite off
          (take n (drop (if m_scheme b = UNCOMPRESSED then off else 0) w)) (m_data b ! blk)])"
  using assms
proof (cases rule: writeBlockData_cases)
  case null
  with maybe_compact_frame_ok [OF null(3) ok] show ?thesis by (simp add: data_eq_def)
next
  case (raw w)
  let ?b1 = "set_line blk (overwrite off (take n (drop off w)) (m_data b ! blk)) b"
  have "length (m_data b ! blk) = m_blocksize b"
    using ok raw by (intro shape_ok_rows(6)) (auto simp: frame_ok_def)
  then have "frame_ok ?b1" using ok raw by (simp add: frame_ok_def set_line_shape_ok)
  from maybe_compact_frame_ok [OF raw(8) this] raw show ?thesis by (simp add: data_eq_def)
next
  case (s1 b1)
  from compressScheme1_post [OF s1(1) ok] obtain w
    where w: "wr = Some w" "compressed_to SCHEME1 b blk off w n b1" by blast
  from maybe_compact_frame_ok [OF s1(4) compressed_to_frame_ok [OF w(2)]] w s1(3)
  show ?thesis by (simp add: data_eq_def compressed_to_def)
next
  case (s2 b1)
  from compressScheme2_post [OF s2(1) ok] obtain w
    where w: "wr = Some w" "compressed_to SCHEME2 b blk off w n b1" by blast
  from maybe_compact_frame_ok [OF s2(4) compressed_to_frame_ok [OF w(2)]] w s2(3)
  show ?thesis by (simp add: data_eq_def compressed_to_def)
qed

lemma compress_config:
  assumes "compressScheme1 b blk off wr n c = Inr (b', c') \<or>
      compressScheme2 b blk off wr n c = Inr (b', c')" "frame_ok b"
  shows "m_compressible c' = m_compressible c" "m_change_scheme_otf c' = m_change_scheme_otf c"
    "m_prune_dish_entries c' = m_prune_dish_entries c"
    "num_scheme1 c' = num_scheme1 c + of_bool (m_scheme b' = SCHEME1) - of_bool (m_scheme b = SCHEME1)"
    "num_scheme2 c' = num_scheme2 c + of_bool (m_scheme b' = SCHEME2) - of_bool (m_scheme b = SCHEME2)"
proof -
  have ok: "shape_ok b" "dict_ok b" "m_scheme b \<noteq> INVALID" using assms(2) by (auto simp: frame_ok_def)
  have "m_compressible c' = m_compressible c \<and> m_change_scheme_otf c' = m_change_scheme_otf c \<and>
    m_prune_dish_entries c' = m_prune_dish_entries c \<and>
    num_scheme1 c' = num_scheme1 c + of_bool (m_scheme b' = SCHEME1) - of_bool (m_scheme b = SCHEME1) \<and>
    num_scheme2 c' = num_scheme2 c + of_bool (m_scheme b' = SCHEME2) - of_bool (m_scheme b = SCHEME2)"
    using assms(1)
  proof
    assume "compressScheme1 b blk off wr n c = Inr (b', c')"
    from compressScheme1_cases [OF this ok(1)] obtain w where
      "recode1 blk (set_line blk (overwrite off (take n w) (m_data b ! blk)) b) c = Inr (b', c')"
      by blast
    from frame1.recode_counts [OF this] frame1.recode_inv [OF this] ok show ?thesis by simp
  next
    assume "compressScheme2 b blk off wr n c = Inr (b', c')"
    from compressScheme2_cases [OF this ok(1)] obtain w where
      "recode2 blk (set_line blk (overwrite off (take n w) (m_data b ! blk)) b) c = Inr (b', c')"
      by blast
    from frame2.recode_counts [OF this] frame2.recode_inv [OF this] ok show ?thesis by simp
  qed
  then show "m_compressible c' = m_compressible c" "m_change_scheme_otf c' = m_change_scheme_otf c"
    "m_prune_dish_entries c' = m_prune_dish_entries c"
    "num_scheme1 c' = num_scheme1 c + of_bool (m_scheme b' = SCHEME1) - of_bool (m_scheme b = SCHEME1)"
    "num_scheme2 c' = num_scheme2 c + of_bool (m_scheme b' = SCHEME2) - of_bool (m_scheme b = SCHEME2)"
    by auto
qed

text \<open>\<open>counted c b c' b'\<close>: the controller's switches are unchanged and its counters moved with the
  scheme of the frame.\<close>

definition counted ::
    "cache_compression_cntlr \<Rightarrow> block_data \<Rightarrow> cache_compression_cntlr \<Rightarrow> block_data \<Rightarrow> bool" where
  "counted c b c' b' \<longleftrightarrow>
     m_compressible c' = m_compressible c \<and> m_change_scheme_otf c' = m_change_scheme_otf c \<and>
     m_prune_dish_entries c' = m_prune_dish_entries c \<and>
     num_scheme1 c' = num_scheme1 c + of_bool (m_scheme b' = SCHEME1) - of_bool (m_scheme b = SCHEME1) \<and>
     num_scheme2 c' = num_scheme2 c + of_bool (m_scheme b' = SCHEME2) - of_bool (m_scheme b = SCHEME2)"

lemma counted_refl: "m_scheme b' = m_scheme b \<Longrightarrow> counted c b c b'"
  by (simp add: counted_def)

lemma counted_switches:
  assumes "counted c b c' b'"
  shows "shouldPruneDISHEntries c' = shouldPruneDISHEntries c"
    "canChangeSchemeOTF c' = canChangeSchemeOTF c" "canCompress c' = canCompress c"
  using assms by (simp_all add: counted_def cntlr_defs)

lemma compress_counted:
  assumes "compressScheme1 b blk off wr n c = Inr (b', c') \<or>
      compressScheme2 b blk off wr n c = Inr (b', c')" "frame_ok b"
  shows "counted c b c' b'"
  using compress_config [OF assms] by (simp add: counted_def)

lemma writeBlockData_counted:
  assumes wr: "writeBlockData b blk off wr n c = Inr (b', c')" and ok: "frame_ok b"
  shows "counted c b c' b'"
  using assms
proof (cases rule: writeBlockData_cases)
  case null
  with maybe_compact_frame_ok(3) [OF null(3) ok] show ?thesis by (simp add: counted_refl)
next
  case (raw w)
  let ?b1 = "set_line blk (overwrite off (take n (drop off w)) (m_data b ! blk)) b"
  have "length (m_data b ! blk) = m_blocksize b"
    using ok raw by (intro shape_ok_rows(6)) (auto simp: frame_ok_def)
  then have "frame_ok ?b1" using ok raw by (simp add: frame_ok_def set_line_shape_ok)
  from maybe_compact_frame_ok(3) [OF raw(8) this] raw show ?thesis by (simp add: counted_refl)
next
  case (s1 b1)
  from compressScheme1_post [OF s1(1) ok] obtain w
    where w: "wr = Some w" "compressed_to SCHEME1 b blk off w n b1" by blast
  from maybe_compact_frame_ok(3) [OF s1(4) compressed_to_frame_ok [OF w(2)]]
    compress_counted [OF disjI1 [OF s1(1)] ok] show ?thesis by (simp add: counted_def)
next
  case (s2 b1)
  from compressScheme2_post [OF s2(1) ok] obtain w
    where w: "wr = Some w" "compressed_to SCHEME2 b blk off w n b1" by blast
  from maybe_compact_frame_ok(3) [OF s2(4) compressed_to_frame_ok [OF w(2)]]
    compress_counted [OF disjI2 [OF s2(1)] ok] show ?thesis by (simp add: counted_def)
qed

text \<open>Writes keep every line decodable, on-the-fly changes of scheme included. Pruning must be
  off where the frame ends in the second scheme.\<close>

lemma coded_okI:
  assumes "m_scheme b \<noteq> UNCOMPRESSED" "\<And>i. i < SUPERBLOCK_SIZE \<Longrightarrow> m_valid b ! i \<Longrightarrow> line_decodes b i"
  shows "coded_ok b"
  using assms by (simp add: coded_ok_def)

lemma maybe_compact_coded_ok:
  assumes "maybe_compact c b = Inr b'" "frame_ok b" "coded_ok b"
    "shouldPruneDISHEntries c \<longrightarrow> m_scheme b \<noteq> SCHEME2"
  shows "coded_ok b'"
proof -
  note f = maybe_compact_frame_ok [OF assms(1,2)]
  have "line_decodes b' i" if "i < SUPERBLOCK_SIZE" "m_valid b ! i" for i
    using maybe_compact_decodes [OF assms(1) _ assms(4) _ that] assms(2,3) that
    by (auto simp: frame_ok_def coded_ok_def)
  then show ?thesis
    using f assms(3) data_eq_valid(2) [OF f(2)] by (simp add: coded_ok_def data_eq_def)
qed

lemma writeBlockData_coded_ok:
  assumes wr: "writeBlockData b blk off wr n c = Inr (b', c')" and ok: "frame_ok b" "coded_ok b"
    and p: "shouldPruneDISHEntries c \<longrightarrow> m_scheme b' \<noteq> SCHEME2"
  shows "coded_ok b'"
  using assms(1,2)
proof (cases rule: writeBlockData_cases)
  case null
  with maybe_compact_frame_ok(3) [OF null(3) ok(1)] p maybe_compact_coded_ok [OF null(3) ok]
  show ?thesis by simp
next
  case (raw w)
  let ?b1 = "set_line blk (overwrite off (take n (drop off w)) (m_data b ! blk)) b"
  have "length (m_data b ! blk) = m_blocksize b"
    using ok raw by (intro shape_ok_rows(6)) (auto simp: frame_ok_def)
  then have f: "frame_ok ?b1" using ok raw by (simp add: frame_ok_def set_line_shape_ok)
  have "coded_ok ?b1" using ok(2) raw by (simp add: coded_ok_def line_decodes_simps)
  from maybe_compact_coded_ok [OF raw(8) f this] raw show ?thesis by simp
next
  case (s1 b1)
  from compressScheme1_post [OF s1(1) ok(1)] obtain w
    where w: "wr = Some w" "compressed_to SCHEME1 b blk off w n b1" by blast
  note f = compressed_to_frame_ok [OF w(2)]
  have "coded_ok b1"
    by (rule coded_okI) (use w compressScheme1_decodes [OF s1(1) ok] s1(2) in
      \<open>simp_all add: compressed_to_def data_eq_def\<close>)
  from maybe_compact_coded_ok [OF s1(4) f this] w show ?thesis by (simp add: compressed_to_def)
next
  case (s2 b1)
  from compressScheme2_post [OF s2(1) ok(1)] obtain w
    where w: "wr = Some w" "compressed_to SCHEME2 b blk off w n b1" by blast
  note f = compressed_to_frame_ok [OF w(2)]
  have cd: "coded_ok b1"
    by (rule coded_okI) (use w compressScheme2_decodes [OF s2(1) ok] s2(2) in
      \<open>simp_all add: compressed_to_def data_eq_def\<close>)
  have "m_scheme b' = SCHEME2"
    using maybe_compact_frame_ok(3) [OF s2(4) f] w by (simp add: compressed_to_def)
  then have "\<not> shouldPruneDISHEntries c'"
    using p counted_switches(1) [OF compress_counted [OF disjI2 [OF s2(1)] ok(1)]] by simp
  with maybe_compact_coded_ok [OF s2(4) f cd] show ?thesis by simp
qed

section \<open>Inserting\<close>

definition set_valid :: "nat \<Rightarrow> block_data \<Rightarrow> block_data" where
  "set_valid blk b = b\<lparr> m_valid := (m_valid b)[blk := True] \<rparr>"

lemma set_valid_simps [simp]:
  "m_blocksize (set_valid blk b) = m_blocksize b"
  "m_chunks_per_block (set_valid blk b) = m_chunks_per_block b"
  "m_scheme (set_valid blk b) = m_scheme b"
  "m_valid (set_valid blk b) = (m_valid b)[blk := True]"
  "m_data (set_valid blk b) = m_data b"
  "dict_ok (set_valid blk b) = dict_ok b" "shape_ok (set_valid blk b) = shape_ok b"
  "line_chunks (set_valid blk b) i = line_chunks b i"
  "dec1 (set_valid blk b) = dec1 b" "dec2 (set_valid blk b) = dec2 b"
  by (simp_all add: set_valid_def dict_ok_def shape_ok_def line_chunks_def dec1_def [abs_def]
      dec2_def [abs_def])

lemma set_valid_line_decodes [simp]: "line_decodes (set_valid blk b) i = line_decodes b i"
  by (cases "m_scheme b") (simp_all add: line_decodes_def decodes_def decode_chunk_def)

lemma set_valid_frame_ok:
  assumes "shape_ok b" "dict_ok b" "m_scheme b \<noteq> INVALID" "blk < SUPERBLOCK_SIZE"
  shows "frame_ok (set_valid blk b)"
proof -
  have "bd_isValid (set_valid blk b)"
    using assms(1,4) by (auto simp: bd_isValid_def list_ex_iff shape_ok_def intro!: bexI [of _ blk])
  with assms show ?thesis by (simp add: frame_ok_def)
qed

lemma getSchemeForInsertion_valid:
  assumes "getSchemeForInsertion b blk wr c = Inr s"
  shows "s = UNCOMPRESSED \<Longrightarrow> \<not> bd_isValid b"
    and "s = SCHEME1 \<or> s = SCHEME2 \<Longrightarrow> bd_isValid b \<and> \<not> m_valid b ! blk"
    and "s = SCHEME1 \<Longrightarrow> \<not> canChangeSchemeOTF c \<Longrightarrow> m_scheme b \<noteq> SCHEME2"
    and "s = SCHEME2 \<Longrightarrow> \<not> canChangeSchemeOTF c \<Longrightarrow> m_scheme b \<noteq> SCHEME1"
  using assms
  by (auto simp: getSchemeForInsertion_def Let_def res_simps
      split: if_splits scheme_t.splits)

lemma insertBlockData_cases:
  assumes "insertBlockData b blk ins c = Inr (b', c')" "frame_ok b"
  obtains (ins) b1 b2 where "blk < SUPERBLOCK_SIZE" "\<not> m_valid b ! blk"
    "maybe_compact c' (set_valid blk b1) = Inr b2" "b' = updateStatistics b2"
    "(ins = None \<and> b1 = b \<and> c' = c) \<or>
     (\<exists>w. ins = Some w \<and> \<not> bd_isValid b \<and> c' = c \<and> m_blocksize b \<le> length w \<and>
        b1 = set_line blk (take (m_blocksize b) w) b) \<or>
     (compressScheme1 b blk 0 ins (m_blocksize b) c = Inr (b1, c') \<and>
        (canChangeSchemeOTF c \<or> m_scheme b \<noteq> SCHEME2)) \<or>
     (compressScheme2 b blk 0 ins (m_blocksize b) c = Inr (b1, c') \<and>
        (canChangeSchemeOTF c \<or> m_scheme b \<noteq> SCHEME1))"
proof -
  have len4: "length (m_valid b) = SUPERBLOCK_SIZE"
    using assms(2) by (simp add: frame_ok_def shape_ok_def)
  from assms(1) obtain b1 b2 where blk: "blk < length (m_valid b)" "\<not> m_valid b ! blk"
    and b1: "(case ins of
          None \<Rightarrow> Inr (b, c)
        | Some w \<Rightarrow>
            rbind (getSchemeForInsertion b blk ins c) (\<lambda>new_scheme.
            case new_scheme of
              UNCOMPRESSED \<Rightarrow> rbind (store_raw blk 0 0 w (m_blocksize b) b) (\<lambda>b1. Inr (b1, c))
            | SCHEME1 \<Rightarrow> compressScheme1 b blk 0 ins (m_blocksize b) c
            | SCHEME2 \<Rightarrow> compressScheme2 b blk 0 ins (m_blocksize b) c
            | INVALID \<Rightarrow> Inl Assert_Failed)) = Inr (b1, c')"
    and b2: "maybe_compact c' (set_valid blk b1) = Inr b2" "b' = updateStatistics b2"
    by (auto simp: insertBlockData_def set_valid_def res_simps split: prod.splits)
  have row: "length (m_data b ! blk) = m_blocksize b"
    using shape_ok_rows(6) blk(1) len4 assms(2) by (simp add: frame_ok_def)
  show thesis
  proof (rule ins [OF _ blk(2) b2])
    show "blk < SUPERBLOCK_SIZE" using blk(1) len4 by simp
    show "(ins = None \<and> b1 = b \<and> c' = c) \<or>
     (\<exists>w. ins = Some w \<and> \<not> bd_isValid b \<and> c' = c \<and> m_blocksize b \<le> length w \<and>
        b1 = set_line blk (take (m_blocksize b) w) b) \<or>
     (compressScheme1 b blk 0 ins (m_blocksize b) c = Inr (b1, c') \<and>
        (canChangeSchemeOTF c \<or> m_scheme b \<noteq> SCHEME2)) \<or>
     (compressScheme2 b blk 0 ins (m_blocksize b) c = Inr (b1, c') \<and>
        (canChangeSchemeOTF c \<or> m_scheme b \<noteq> SCHEME1))"
    proof (cases ins)
      case (Some w)
      with b1 obtain s where s: "getSchemeForInsertion b blk ins c = Inr s" by (auto simp: res_simps)
      show ?thesis
        using b1 Some s row getSchemeForInsertion_valid [OF s]
        by (cases s) (auto simp: res_simps)
    qed (use b1 in simp)
  qed
qed

text \<open>The frame before the validity bit is set: in good order, and holding the new bytes.\<close>

lemma insert_body:
  assumes ok: "frame_ok b" and blk: "blk < SUPERBLOCK_SIZE"
    and "(ins = None \<and> b1 = b \<and> c' = c) \<or>
     (\<exists>w. ins = Some w \<and> \<not> bd_isValid b \<and> c' = c \<and> m_blocksize b \<le> length w \<and>
        b1 = set_line blk (take (m_blocksize b) w) b) \<or>
     (compressScheme1 b blk 0 ins (m_blocksize b) c = Inr (b1, c') \<and> P1) \<or>
     (compressScheme2 b blk 0 ins (m_blocksize b) c = Inr (b1, c') \<and> P2)"
  shows "shape_ok b1 \<and> dict_ok b1 \<and> m_scheme b1 \<noteq> INVALID \<and> m_valid b1 = m_valid b \<and>
    m_blocksize b1 = m_blocksize b \<and> counted c b c' b1 \<and>
    m_data b1 = (case ins of None \<Rightarrow> m_data b
      | Some w \<Rightarrow> (m_data b)[blk := take (m_blocksize b) w]) \<and>
    (\<forall>w. ins = Some w \<longrightarrow> m_blocksize b \<le> length w)"
  using assms(3)
proof (elim disjE conjE exE)
  assume "ins = None" "b1 = b" "c' = c"
  then show ?thesis using ok by (simp add: frame_ok_def counted_refl)
next
  fix w assume "ins = Some w" "c' = c" "m_blocksize b \<le> length w"
    "b1 = set_line blk (take (m_blocksize b) w) b"
  then show ?thesis using ok by (simp add: frame_ok_def counted_refl set_line_shape_ok)
next
  assume c: "compressScheme1 b blk 0 ins (m_blocksize b) c = Inr (b1, c')"
  from compressScheme1_post [OF c ok] obtain w
    where w: "ins = Some w" "compressed_to SCHEME1 b blk 0 w (m_blocksize b) b1" by blast
  from w shape_ok_rows(6) [OF _ blk] ok compress_counted [OF disjI1 [OF c] ok] show ?thesis
    by (simp add: compressed_to_def data_eq_def frame_ok_def)
next
  assume c: "compressScheme2 b blk 0 ins (m_blocksize b) c = Inr (b1, c')"
  from compressScheme2_post [OF c ok] obtain w
    where w: "ins = Some w" "compressed_to SCHEME2 b blk 0 w (m_blocksize b) b1" by blast
  from w shape_ok_rows(6) [OF _ blk] ok compress_counted [OF disjI2 [OF c] ok] show ?thesis
    by (simp add: compressed_to_def data_eq_def frame_ok_def)
qed

lemma updateStatistics_frame_ok [simp]: "frame_ok (updateStatistics b) = frame_ok b"
  by (simp add: frame_ok_def)

lemma insertBlockData_effect:
  assumes i: "insertBlockData b blk ins c = Inr (b', c')" and ok: "frame_ok b"
  shows "frame_ok b' \<and> blk < SUPERBLOCK_SIZE \<and> \<not> m_valid b ! blk \<and>
    m_valid b' = (m_valid b)[blk := True] \<and> m_blocksize b' = m_blocksize b \<and> counted c b c' b' \<and>
    m_data b' = (case ins of None \<Rightarrow> m_data b
      | Some w \<Rightarrow> (m_data b)[blk := take (m_blocksize b) w]) \<and>
    (\<forall>w. ins = Some w \<longrightarrow> m_blocksize b \<le> length w)"
  using assms
proof (cases rule: insertBlockData_cases)
  case (ins b1 b2)
  note body = insert_body [OF ok ins(1,5)]
  then have "frame_ok (set_valid blk b1)" using ins(1) by (intro set_valid_frame_ok) auto
  from maybe_compact_frame_ok [OF ins(3) this] body ins(1,2,4) show ?thesis
    by (simp add: data_eq_def counted_def)
qed

lemma insertBlockData_coded_ok:
  assumes i: "insertBlockData b blk (Some w) c = Inr (b', c')" and ok: "frame_ok b" "coded_ok b"
    and otf: "\<not> canChangeSchemeOTF c" and p: "shouldPruneDISHEntries c \<longrightarrow> m_scheme b' \<noteq> SCHEME2"
  shows "coded_ok b'"
  using assms(1,2)
proof (cases rule: insertBlockData_cases)
  case (ins b1 b2)
  note body = insert_body [OF ok(1) ins(1,5)]
  then have f: "frame_ok (set_valid blk b1)" using ins(1) by (intro set_valid_frame_ok) auto
  note mc = maybe_compact_frame_ok [OF ins(3) f]
  have dec: "line_decodes b1 i" if "i < SUPERBLOCK_SIZE" "m_valid b ! i \<or> i = blk"
      "m_scheme b1 \<noteq> UNCOMPRESSED" for i
    using ins(5) that ok(1)
      compressScheme1_decodes [of b blk 0 "Some w" "m_blocksize b" c b1 c', OF _ ok _ that(1,2)]
      compressScheme2_decodes [of b blk 0 "Some w" "m_blocksize b" c b1 c', OF _ ok _ that(1,2)] otf
    by (auto simp: frame_ok_def)
  have len: "blk < length (m_valid b)" using ins(1) ok(1) by (simp add: frame_ok_def shape_ok_def)
  have "coded_ok (set_valid blk b1)"
  proof (cases "m_scheme b1 = UNCOMPRESSED")
    case True
    then have "\<not> bd_isValid b"
      using ins(5) compressScheme1_post [OF _ ok(1), of blk 0 "Some w" "m_blocksize b" c b1 c']
        compressScheme2_post [OF _ ok(1), of blk 0 "Some w" "m_blocksize b" c b1 c']
      by (auto simp: compressed_to_def)
    then have one: "m_valid (set_valid blk b1) ! k \<longleftrightarrow> k = blk" if "k < SUPERBLOCK_SIZE" for k
      using body len that by (auto simp: bd_isValid_def list_ex_iff nth_list_update)
    then have "getFirstValid (set_valid blk b1) = blk"
      using getFirstValid_valid [of "set_valid blk b1"] ins(1)
      by (auto simp: bd_isValid_def list_ex_iff)
    with one True show ?thesis by (simp add: coded_ok_def line_decodes_simps)
  next
    case False
    then show ?thesis using dec body len
      by (intro coded_okI) (auto simp: nth_list_update split: if_splits)
  qed
  moreover have "shouldPruneDISHEntries c' = shouldPruneDISHEntries c"
    using body counted_switches by blast
  ultimately have "coded_ok b2"
    using maybe_compact_coded_ok [OF ins(3) f] p mc(3) ins(4) by simp
  with ins(4) show ?thesis by (simp add: coded_ok_def)
qed

section \<open>Evicting and invalidating\<close>

lemma clear_line_simps [simp]:
  "m_blocksize (clear_line blk b) = m_blocksize b"
  "m_chunks_per_block (clear_line blk b) = m_chunks_per_block b"
  "m_scheme (clear_line blk b) = m_scheme b"
  "m_valid (clear_line blk b) = (m_valid b)[blk := False]"
  "m_data (clear_line blk b) = (m_data b)[blk := replicate (m_blocksize b) 0]"
  "dict_ok (clear_line blk b) = dict_ok b"
  "dec1 (clear_line blk b) = dec1 b" "dec2 (clear_line blk b) = dec2 b"
  "i \<noteq> blk \<Longrightarrow> line_chunks (clear_line blk b) i = line_chunks b i"
  by (simp_all add: clear_line_def dict_ok_def line_chunks_def dec1_def [abs_def] dec2_def [abs_def])

lemma clear_line_shape_ok: "shape_ok b \<Longrightarrow> shape_ok (clear_line blk b)"
  by (auto simp: shape_ok_def clear_line_def dest!: set_update_subset_insert [THEN subsetD])

lemma clear_line_line_decodes:
  "i \<noteq> blk \<Longrightarrow> line_decodes (clear_line blk b) i = line_decodes b i"
  by (cases "m_scheme b") (simp_all add: line_decodes_def decodes_def decode_chunk_def)

lemma clear_line_coded_ok:
  assumes "coded_ok b" "shape_ok b"
  shows "coded_ok (clear_line blk b)"
proof -
  have sub: "m_valid b ! i \<and> i \<noteq> blk" if "m_valid (clear_line blk b) ! i" "i < SUPERBLOCK_SIZE" for i
    using that assms(2) by (cases "i = blk") (auto simp: shape_ok_def)
  have "i = getFirstValid (clear_line blk b)"
    if "m_scheme b = UNCOMPRESSED" "m_valid (clear_line blk b) ! i" "i < SUPERBLOCK_SIZE" for i
  proof -
    have "bd_isValid (clear_line blk b)" using that(2,3) by (auto simp: bd_isValid_def list_ex_iff)
    note f = getFirstValid_valid [OF this]
    have "k = getFirstValid b" if "m_valid (clear_line blk b) ! k" "k < SUPERBLOCK_SIZE" for k
      using sub [OF that] that(2) assms(1) \<open>m_scheme b = UNCOMPRESSED\<close> by (simp add: coded_ok_def)
    from this [OF that(2,3)] this [OF f(2,1)] show ?thesis by simp
  qed
  with assms(1) sub show ?thesis
    by (auto simp: coded_ok_def clear_line_line_decodes simp del: clear_line_simps(4))
qed

text \<open>The common tail: the last line gone, the frame goes back to uncompressed and gives up
  its place in the counters.\<close>

lemma retire_ok:
  assumes "frame_ok b"
  shows "frame_ok (changeScheme UNCOMPRESSED (clear_line blk b))"
    and "counted c b (cntlr_evict (m_scheme b) c) (changeScheme UNCOMPRESSED (clear_line blk b))"
proof -
  let ?b = "changeScheme UNCOMPRESSED (clear_line blk b)"
  have "dict_ok ?b" using assms by (intro changeScheme_dict_ok) (simp_all add: frame_ok_def)
  moreover have "shape_ok ?b"
    using assms by (intro changeScheme_shape_ok clear_line_shape_ok) (simp add: frame_ok_def)
  ultimately show "frame_ok ?b" by (simp add: frame_ok_def)
  show "counted c b (cntlr_evict (m_scheme b) c) ?b"
    by (cases "m_scheme b") (simp_all add: counted_def)
qed

lemma retire_coded_ok:
  "\<not> bd_isValid (clear_line blk b) \<Longrightarrow> coded_ok (changeScheme UNCOMPRESSED (clear_line blk b))"
  by (auto simp: coded_ok_def line_decodes_simps bd_isValid_def list_ex_iff simp del: clear_line_simps(4))

lemma clear_line_frame_ok: "frame_ok b \<Longrightarrow> bd_isValid (clear_line blk b) \<Longrightarrow> frame_ok (clear_line blk b)"
  by (simp add: frame_ok_def clear_line_shape_ok)

lemma evictBlockData_cases:
  assumes "evictBlockData b blk buf c = Inr (out, b', c')" "frame_ok b"
  obtains (last) "\<not> bd_isValid (clear_line blk b)" "blk < SUPERBLOCK_SIZE" "m_valid b ! blk"
      "b' = changeScheme UNCOMPRESSED (clear_line blk b)" "c' = cntlr_evict (m_scheme b) c"
      "out = map_option (overwrite 0 (m_data b ! blk)) buf"
  | (more) "bd_isValid (clear_line blk b)" "blk < SUPERBLOCK_SIZE" "m_valid b ! blk"
      "maybe_compact c (clear_line blk b) = Inr b'" "c' = c"
      "out = map_option (overwrite 0 (m_data b ! blk)) buf"
proof -
  have sh: "shape_ok b" using assms(2) by (simp add: frame_ok_def)
  from assms(1) have blk: "blk < length (m_valid b)" "m_valid b ! blk"
    by (auto simp: evictBlockData_def res_simps)
  then have blk4: "blk < SUPERBLOCK_SIZE" using sh by (simp add: shape_ok_def)
  from assms(1) shape_ok_rows(5,6) [OF sh blk4] have
    out: "out = map_option (overwrite 0 (m_data b ! blk)) buf"
    by (auto simp: evictBlockData_def Let_def res_simps split: option.splits if_splits)
  show thesis
  proof (cases "bd_isValid (clear_line blk b)")
    case True
    with assms(1) have "maybe_compact c (clear_line blk b) = Inr b'" "c' = c"
      by (auto simp: evictBlockData_def Let_def res_simps)
    with True blk4 blk(2) out show thesis by (intro more)
  next
    case False
    with assms(1) have "b' = changeScheme UNCOMPRESSED (clear_line blk b)"
      "c' = cntlr_evict (m_scheme b) c"
      by (auto simp: evictBlockData_def Let_def res_simps)
    with False blk4 blk(2) out show thesis by (intro last)
  qed
qed

lemma evictBlockData_effect:
  assumes e: "evictBlockData b blk buf c = Inr (out, b', c')" and ok: "frame_ok b"
  shows "frame_ok b' \<and> counted c b c' b' \<and> blk < SUPERBLOCK_SIZE \<and> m_valid b ! blk \<and>
    m_valid b' = (m_valid b)[blk := False] \<and> m_blocksize b' = m_blocksize b \<and>
    m_data b' = (m_data b)[blk := replicate (m_blocksize b) 0] \<and>
    out = map_option (overwrite 0 (m_data b ! blk)) buf"
  using assms
proof (cases rule: evictBlockData_cases)
  case last
  with retire_ok [OF ok, where blk = blk] show ?thesis by simp
next
  case more
  from maybe_compact_frame_ok [OF more(4) clear_line_frame_ok [OF ok more(1)]] more show ?thesis
    by (simp add: data_eq_def counted_refl)
qed

lemma evictBlockData_coded_ok:
  assumes e: "evictBlockData b blk buf c = Inr (out, b', c')" and ok: "frame_ok b" "coded_ok b"
    and p: "shouldPruneDISHEntries c \<longrightarrow> m_scheme b' \<noteq> SCHEME2"
  shows "coded_ok b'"
  using assms(1,2)
proof (cases rule: evictBlockData_cases)
  case last
  then show ?thesis by (simp add: retire_coded_ok)
next
  case more
  have f: "frame_ok (clear_line blk b)" by (rule clear_line_frame_ok [OF ok(1) more(1)])
  have "coded_ok (clear_line blk b)"
    using ok by (intro clear_line_coded_ok) (simp_all add: frame_ok_def)
  from maybe_compact_coded_ok [OF more(4) f this] maybe_compact_frame_ok(3) [OF more(4) f] p
  show ?thesis by simp
qed

lemma invalidateBlockData_effect:
  assumes i: "invalidateBlockData b blk c = Inr (b', c')" and ok: "frame_ok b"
  shows "frame_ok b' \<and> counted c b c' b' \<and> blk < SUPERBLOCK_SIZE \<and>
    m_valid b' = (m_valid b)[blk := False] \<and> m_blocksize b' = m_blocksize b \<and>
    m_data b' = (m_data b)[blk := replicate (m_blocksize b) 0]"
proof -
  have blk: "blk < SUPERBLOCK_SIZE"
    using assms by (auto simp: invalidateBlockData_def frame_ok_def shape_ok_def split: if_splits)
  show ?thesis
  proof (cases "bd_isValid (clear_line blk b)")
    case True
    with i have "b' = clear_line blk b" "c' = c"
      by (auto simp: invalidateBlockData_def Let_def split: if_splits)
    with True blk clear_line_frame_ok [OF ok] show ?thesis by (simp add: counted_refl)
  next
    case False
    with i have "b' = changeScheme UNCOMPRESSED (clear_line blk b)"
      "c' = cntlr_evict (m_scheme b) c"
      by (auto simp: invalidateBlockData_def Let_def split: if_splits)
    with blk retire_ok [OF ok, where blk = blk] show ?thesis by simp
  qed
qed

lemma invalidateBlockData_coded_ok:
  assumes "invalidateBlockData b blk c = Inr (b', c')" "frame_ok b" "coded_ok b"
  shows "coded_ok b'"
  using assms clear_line_coded_ok [of b blk] retire_coded_ok [of blk b]
  by (auto simp: invalidateBlockData_def Let_def frame_ok_def split: if_splits)

end
