(* ===== verification/Block_Data_Safe.thy ===== *)
theory Block_Data_Safe
  imports Block_Data_Ops
begin

text \<open>
  The compressibility checks are sound for accesses at offset 0, which are the insertions and
  the writes of whole lines: when a check says yes, the operation it guards runs to its end. The
  frame stays in one scheme (no change on the fly), and a line has at most
  \<^verbatim>\<open>DISH::BLOCK_ENTRIES\<close> granules, that is 64 bytes.
\<close>

lemma chunks_short: "length bs < 4 \<Longrightarrow> chunks bs = []"
  by (metis div_less length_0_conv length_chunks)

lemma take_chunks_take: "n * 4 \<le> m \<Longrightarrow> take n (chunks (take m w)) = take n (chunks w)"
proof (induction n arbitrary: w m)
  case (Suc n)
  show ?case
  proof (cases "length w < 4")
    case True
    then have "length (take m w) < 4" by simp
    with True show ?thesis by (simp only: chunks_short)
  next
    case False
    then obtain a b c d bs where w: "w = a # b # c # d # bs"
      by (cases w rule: chunks.cases) auto
    from Suc.prems have m: "m = Suc (Suc (Suc (Suc (m - 4))))" and le: "n * 4 \<le> m - 4" by auto
    have "take m w = a # b # c # d # take (m - 4) bs" unfolding w by (subst m) simp
    then show ?thesis using Suc.IH [OF le] w by simp
  qed
qed simp

lemma test_data_0:
  assumes "shape_ok b" "blk < SUPERBLOCK_SIZE" "n \<le> length w" "n \<le> m_blocksize b"
  shows "test_data b blk 0 0 w n = Inr (overwrite 0 (take n w) (m_data b ! blk))"
proof -
  have bs: "m_blocksize b < 2 ^ 32" using assms(1) by (simp add: shape_ok_def)
  have a: "add32 0 n = n" using bs assms(4) by simp
  have s: "sub32 (m_blocksize b) n = m_blocksize b - n" using bs assms(4) by simp
  have row: "blk < length (m_data b)" "length (m_data b ! blk) = m_blocksize b"
    using shape_ok_rows [OF assms(1,2)] by auto
  show ?thesis
    using row assms(3,4)
    by (simp add: test_data_def a s copy_n_def overwrite_def)
qed

section \<open>Compression succeeds where the check passes\<close>

lemma compressScheme1_ok:
  assumes ok: "frame_ok b" and n: "m_chunks_per_block b \<le> BLOCK_ENTRIES"
    and c: "isScheme1Compressible b blk 0 (Some w) k cntlr = Inr True"
    and k: "k \<le> length w" "k \<le> m_blocksize b"
    and u: "m_scheme b = UNCOMPRESSED \<Longrightarrow> k = m_blocksize b \<and> \<not> m_valid b ! blk"
    and s: "m_scheme b \<noteq> SCHEME2"
  shows "\<exists>r. compressScheme1 b blk 0 (Some w) k cntlr = Inr r"
proof -
  have ok': "shape_ok b" "dict_ok b" "m_scheme b \<noteq> INVALID" using ok by (auto simp: frame_ok_def)
  from c have v: "bd_isValid b" "blk < SUPERBLOCK_SIZE" "m_valid b ! blk \<or> k = m_blocksize b"
    by (auto simp: isScheme1Compressible_def bd_isValid_at_def res_simps split: if_splits)
  let ?b1 = "set_line blk (overwrite 0 (take k w) (m_data b ! blk)) b"
  have sh1: "shape_ok ?b1" using set_line_overwrite_ok [OF ok'(1) v(2) k(1), of 0] k by simp
  note rows = shape_ok_rows [OF ok'(1) v(2)]
  have ck: "m_chunks_per_block b * 4 \<le> m_blocksize b"
    using ok'(1) by (simp add: shape_ok_def GRANULARITY_BYTES_def)
  have "\<exists>b' c'. recode1 blk ?b1 cntlr = Inr (b', c')"
  proof (cases "m_scheme b")
    case SCHEME1
    have lc: "line_chunks ?b1 blk =
        take (m_chunks_per_block b) (chunks (overwrite 0 (take k w) (m_data b ! blk)))"
      using rows by (simp add: line_chunks_def)
    from c SCHEME1 v test_data_0 [OF ok'(1) v(2) k]
    have "fits_vacancies (in_dict b) (length (m_free_ptrs b)) (line_chunks ?b1 blk)"
      by (auto simp: isScheme1Compressible_def bd_isValid_at_def res_simps lc split: if_splits)
    from fits_vacancies_dict [OF this]
    show ?thesis using ok' sh1 v(2) n SCHEME1
      by (intro frame1.recode_same_ok) (simp_all add: dict_vals_def)
  next
    case UNCOMPRESSED
    from u [OF UNCOMPRESSED] have kb: "k = m_blocksize b" and nv: "\<not> m_valid b ! blk" by auto
    have ne: "getFirstValid b \<noteq> blk" using getFirstValid_valid(2) [OF v(1)] nv by auto
    have lc: "line_chunks ?b1 blk = take (m_chunks_per_block b) (chunks w)"
      using rows kb k ck by (simp add: line_chunks_def take_chunks_take)
    from c UNCOMPRESSED v ne
    have "card (set (line_chunks b (getFirstValid b) @ line_chunks ?b1 blk)) \<le> SCHEME1_DICT_SIZE"
      by (auto simp: isScheme1Compressible_def bd_isValid_at_def Let_def res_simps lc
          split: if_splits)
    then show ?thesis using ok' sh1 v n UNCOMPRESSED ne
      by (intro frame1.recode_raw_ok) simp_all
  qed (use ok' s in auto)
  with v k u rows c show ?thesis
    by (auto simp: compressScheme1_def rbind_eq_Inr compress_pre_eq_Inr store_raw_eq_Inr)
qed

lemma compressScheme2_ok:
  assumes ok: "frame_ok b" and n: "m_chunks_per_block b \<le> BLOCK_ENTRIES"
    and c: "isScheme2Compressible b blk 0 (Some w) k cntlr = Inr True"
    and k: "k \<le> length w" "k \<le> m_blocksize b"
    and u: "m_scheme b = UNCOMPRESSED \<Longrightarrow> k = m_blocksize b \<and> \<not> m_valid b ! blk"
    and s: "m_scheme b \<noteq> SCHEME1"
  shows "\<exists>r. compressScheme2 b blk 0 (Some w) k cntlr = Inr r"
proof -
  have ok': "shape_ok b" "dict_ok b" "m_scheme b \<noteq> INVALID" using ok by (auto simp: frame_ok_def)
  from c have v: "bd_isValid b" "blk < SUPERBLOCK_SIZE" "m_valid b ! blk \<or> k = m_blocksize b"
    by (auto simp: isScheme2Compressible_def bd_isValid_at_def res_simps split: if_splits)
  let ?b1 = "set_line blk (overwrite 0 (take k w) (m_data b ! blk)) b"
  have sh1: "shape_ok ?b1" using set_line_overwrite_ok [OF ok'(1) v(2) k(1), of 0] k by simp
  note rows = shape_ok_rows [OF ok'(1) v(2)]
  have ck: "m_chunks_per_block b * 4 \<le> m_blocksize b"
    and cb: "m_chunks_per_block b = m_blocksize b div GRANULARITY_BYTES"
    using ok'(1) by (simp_all add: shape_ok_def GRANULARITY_BYTES_def)
  have "\<exists>b' c'. recode2 blk ?b1 cntlr = Inr (b', c')"
  proof (cases "m_scheme b")
    case SCHEME2
    have lc: "line_chunks ?b1 blk =
        take (m_chunks_per_block b) (chunks (overwrite 0 (take k w) (m_data b ! blk)))"
      using rows by (simp add: line_chunks_def)
    from c SCHEME2 v test_data_0 [OF ok'(1) v(2) k]
    have "fits_vacancies (in_dict b) (length (m_free_ptrs b)) (map upper (line_chunks ?b1 blk))"
      by (auto simp: isScheme2Compressible_def bd_isValid_at_def res_simps lc split: if_splits)
    from fits_vacancies_dict [OF this]
    show ?thesis using ok' sh1 v(2) n SCHEME2
      by (intro frame2.recode_same_ok) (simp_all add: dict_vals_def)
  next
    case UNCOMPRESSED
    from u [OF UNCOMPRESSED] have kb: "k = m_blocksize b" and nv: "\<not> m_valid b ! blk" by auto
    have ne: "getFirstValid b \<noteq> blk" using getFirstValid_valid(2) [OF v(1)] nv by auto
    have lc: "line_chunks ?b1 blk = take (m_chunks_per_block b) (chunks w)"
      using rows kb k ck by (simp add: line_chunks_def take_chunks_take)
    have "card (set (map upper (line_chunks b (getFirstValid b)) @ map upper (line_chunks ?b1 blk)))
        \<le> SCHEME2_DICT_SIZE"
      unfolding lc using c UNCOMPRESSED v ne kb
      by (auto simp: isScheme2Compressible_def bd_isValid_at_def Let_def res_simps cb
          split: if_splits)
    then show ?thesis using ok' sh1 v n UNCOMPRESSED ne
      by (intro frame2.recode_raw_ok) (simp_all add: image_Un)
  qed (use ok' s in auto)
  with v k u rows c show ?thesis
    by (auto simp: compressScheme2_def rbind_eq_Inr compress_pre_eq_Inr store_raw_eq_Inr)
qed

section \<open>The guards of the public operations\<close>

lemma getSchemeForInsertion_check:
  assumes "getSchemeForInsertion b blk wr c = Inr s"
  shows "s = SCHEME1 \<Longrightarrow> isScheme1Compressible b blk 0 wr (m_blocksize b) c = Inr True"
    and "s = SCHEME2 \<Longrightarrow> isScheme2Compressible b blk 0 wr (m_blocksize b) c = Inr True"
  using assms
  by (auto simp: getSchemeForInsertion_def Let_def res_simps split: if_splits scheme_t.splits)

lemma insertBlockData_ok:
  assumes ok: "frame_ok b" and n: "m_chunks_per_block b \<le> BLOCK_ENTRIES"
    and w: "m_blocksize b \<le> length w" and otf: "\<not> canChangeSchemeOTF c"
    and can: "canInsertBlockData b blk (Some w) c = Inr True"
  shows "\<exists>r. insertBlockData b blk (Some w) c = Inr r"
proof -
  have ok': "shape_ok b" "dict_ok b" "m_scheme b \<noteq> INVALID" using ok by (auto simp: frame_ok_def)
  from can obtain s where blk: "blk < length (m_valid b)" "\<not> m_valid b ! blk"
    and s: "getSchemeForInsertion b blk (Some w) c = Inr s" "s \<noteq> INVALID"
    by (auto simp: canInsertBlockData_def res_simps split: if_splits)
  then have blk4: "blk < SUPERBLOCK_SIZE" using ok' by (simp add: shape_ok_def)
  note val = getSchemeForInsertion_valid [OF s(1)] and chk = getSchemeForInsertion_check [OF s(1)]
  let ?body = "case s of
        UNCOMPRESSED \<Rightarrow> rbind (store_raw blk 0 0 w (m_blocksize b) b) (\<lambda>b1. Inr (b1, c))
      | SCHEME1 \<Rightarrow> compressScheme1 b blk 0 (Some w) (m_blocksize b) c
      | SCHEME2 \<Rightarrow> compressScheme2 b blk 0 (Some w) (m_blocksize b) c
      | INVALID \<Rightarrow> Inl Assert_Failed"
  have "\<exists>b1 c1. ?body = Inr (b1, c1) \<and> m_scheme b1 \<noteq> INVALID"
  proof (cases s)
    case UNCOMPRESSED
    then show ?thesis using w shape_ok_rows(5,6) [OF ok'(1) blk4] ok' by (auto simp: res_simps)
  next
    case SCHEME1
    then obtain b1 c1 where r: "compressScheme1 b blk 0 (Some w) (m_blocksize b) c = Inr (b1, c1)"
      using compressScheme1_ok [OF ok n chk(1) w] blk val(3) otf by fastforce
    then have "m_scheme b1 = SCHEME1"
      using compressScheme1_post [OF r ok] by (metis compressed_to_def)
    with r SCHEME1 show ?thesis by simp
  next
    case SCHEME2
    then obtain b1 c1 where r: "compressScheme2 b blk 0 (Some w) (m_blocksize b) c = Inr (b1, c1)"
      using compressScheme2_ok [OF ok n chk(2) w] blk val(4) otf by fastforce
    then have "m_scheme b1 = SCHEME2"
      using compressScheme2_post [OF r ok] by (metis compressed_to_def)
    with r SCHEME2 show ?thesis by simp
  qed (use s in simp)
  then obtain b1 c1 where b1: "?body = Inr (b1, c1)" "m_scheme b1 \<noteq> INVALID" by blast
  then obtain b2 where "maybe_compact c1 (b1\<lparr>m_valid := (m_valid b1)[blk := True]\<rparr>) = Inr b2"
    using maybe_compact_total [of "b1\<lparr>m_valid := (m_valid b1)[blk := True]\<rparr>" c1] by auto
  with b1 blk s show ?thesis by (simp add: insertBlockData_def)
qed

lemma writeBlockData_ok:
  assumes ok: "frame_ok b" and n: "m_chunks_per_block b \<le> BLOCK_ENTRIES"
    and k: "k \<le> length w" "k \<le> m_blocksize b" and otf: "\<not> canChangeSchemeOTF c"
    and can: "canWriteBlockData b blk 0 (Some w) k c = Inr True"
  shows "\<exists>r. writeBlockData b blk 0 (Some w) k c = Inr r"
proof -
  have ok': "shape_ok b" "dict_ok b" "m_scheme b \<noteq> INVALID" using ok by (auto simp: frame_ok_def)
  from can obtain s where blk: "blk < length (m_valid b)" "m_valid b ! blk"
    and s: "getSchemeForWrite b blk 0 (Some w) k c = Inr s" "s \<noteq> INVALID"
    by (auto simp: canWriteBlockData_def res_simps split: if_splits)
  then have blk4: "blk < SUPERBLOCK_SIZE" using ok' by (simp add: shape_ok_def)
  have v: "bd_isValid b" using blk blk4 by (auto simp: bd_isValid_def list_ex_iff)
  have sch: "s = m_scheme b" "s = SCHEME1 \<Longrightarrow> isScheme1Compressible b blk 0 (Some w) k c = Inr True"
    "s = SCHEME2 \<Longrightarrow> isScheme2Compressible b blk 0 (Some w) k c = Inr True"
    using s v blk otf
    by (auto simp: getSchemeForWrite_def res_simps split: if_splits scheme_t.splits)
  let ?body = "case s of
        UNCOMPRESSED \<Rightarrow> rbind (store_raw blk 0 0 w k b) (\<lambda>b1. Inr (b1, c))
      | SCHEME1 \<Rightarrow> compressScheme1 b blk 0 (Some w) k c
      | SCHEME2 \<Rightarrow> compressScheme2 b blk 0 (Some w) k c
      | INVALID \<Rightarrow> Inl Assert_Failed"
  have "\<exists>b1 c1. ?body = Inr (b1, c1) \<and> m_scheme b1 \<noteq> INVALID"
  proof (cases s)
    case UNCOMPRESSED
    then show ?thesis using k shape_ok_rows(5,6) [OF ok'(1) blk4] ok' by (auto simp: res_simps)
  next
    case SCHEME1
    then obtain b1 c1 where r: "compressScheme1 b blk 0 (Some w) k c = Inr (b1, c1)"
      using compressScheme1_ok [OF ok n sch(2) k] sch(1) by fastforce
    then have "m_scheme b1 = SCHEME1"
      using compressScheme1_post [OF r ok] by (metis compressed_to_def)
    with r SCHEME1 show ?thesis by simp
  next
    case SCHEME2
    then obtain b1 c1 where r: "compressScheme2 b blk 0 (Some w) k c = Inr (b1, c1)"
      using compressScheme2_ok [OF ok n sch(3) k] sch(1) by fastforce
    then have "m_scheme b1 = SCHEME2"
      using compressScheme2_post [OF r ok] by (metis compressed_to_def)
    with r SCHEME2 show ?thesis by simp
  qed (use s in simp)
  then obtain b1 c1 where b1: "?body = Inr (b1, c1)" "m_scheme b1 \<noteq> INVALID" by blast
  then obtain b2 where "maybe_compact c1 b1 = Inr b2" using maybe_compact_total by blast
  with b1 s show ?thesis by (simp add: writeBlockData_def)
qed

end
