(* ===== verification/Block_Data_Props.thy ===== *)
theory Block_Data_Props
  imports Block_Data_Safe
begin

text \<open>
  The properties of a superblock frame. \<open>frame_run\<close> are the frames reachable from a newly
  constructed one by the four operations that change a frame. The controller is shared by all
  frames of a cache, so each operation may see other counters than the one before; only its
  switches are fixed.
\<close>

section \<open>Reachable frames\<close>

definition switches :: "cache_compression_cntlr \<Rightarrow> bool \<times> bool \<times> bool" where
  "switches c = (m_compressible c, m_change_scheme_otf c, m_prune_dish_entries c)"

text \<open>\<open>frame_run sw data bs b\<close>: the frame \<open>b\<close> of lines of \<open>bs\<close> bytes is reachable under the
  switches \<open>sw\<close>; with \<open>data\<close>, every insertion carried data (the TLBs insert none).\<close>

inductive frame_run :: "bool \<times> bool \<times> bool \<Rightarrow> bool \<Rightarrow> nat \<Rightarrow> block_data \<Rightarrow> bool"
  for sw :: "bool \<times> bool \<times> bool" and data :: bool and bs :: nat where
  r_init: "frame_run sw data bs (BlockData bs)"
| r_write: "frame_run sw data bs b \<Longrightarrow> switches c = sw \<Longrightarrow>
    writeBlockData b blk off wr n c = Inr (b', c') \<Longrightarrow> frame_run sw data bs b'"
| r_insert: "frame_run sw data bs b \<Longrightarrow> switches c = sw \<Longrightarrow> data \<longrightarrow> ins \<noteq> None \<Longrightarrow>
    insertBlockData b blk ins c = Inr (b', c') \<Longrightarrow> frame_run sw data bs b'"
| r_evict: "frame_run sw data bs b \<Longrightarrow> switches c = sw \<Longrightarrow>
    evictBlockData b blk buf c = Inr (out, b', c') \<Longrightarrow> frame_run sw data bs b'"
| r_invalidate: "frame_run sw data bs b \<Longrightarrow> switches c = sw \<Longrightarrow>
    invalidateBlockData b blk c = Inr (b', c') \<Longrightarrow> frame_run sw data bs b'"

lemma frame_ok_BlockData: "bs < 2 ^ 32 \<Longrightarrow> frame_ok (BlockData bs)"
  by (simp add: BlockData_def changeScheme_same frame_ok_def shape_ok_def dict_ok_def)

lemma coded_ok_BlockData: "coded_ok (BlockData bs)"
  by (simp add: BlockData_def changeScheme_same coded_ok_def line_decodes_simps)

lemma frame_run_ok:
  assumes "frame_run sw data bs b" "bs < 2 ^ 32"
  shows "frame_ok b \<and> m_blocksize b = bs"
  using assms
proof (induction rule: frame_run.induct)
  case r_init
  then show ?case using frame_ok_BlockData by (simp add: BlockData_def changeScheme_same)
next
  case (r_write b c blk off wr n b' c')
  then show ?case using writeBlockData_effect [OF r_write.hyps(3)] by simp
next
  case (r_insert b c ins blk b' c')
  then show ?case using insertBlockData_effect [OF r_insert.hyps(4)] by simp
next
  case (r_evict b c blk buf out b' c')
  then show ?case using evictBlockData_effect [OF r_evict.hyps(3)] by simp
next
  case (r_invalidate b c blk b' c')
  then show ?case using invalidateBlockData_effect [OF r_invalidate.hyps(3)] by simp
qed

lemma frame_run_coded:
  assumes "frame_run (cmp, False, False) True bs b" "bs < 2 ^ 32"
  shows "coded_ok b"
proof -
  have off: "\<not> canChangeSchemeOTF c" "\<not> shouldPruneDISHEntries c"
    if "switches c = (cmp, False, False)" for c
    using that by (simp_all add: switches_def cntlr_defs)
  show ?thesis
    using assms
  proof (induction rule: frame_run.induct)
    case r_init
    show ?case by (rule coded_ok_BlockData)
  next
    case (r_write b c blk off wr n b' c')
    then show ?case
      using writeBlockData_coded_ok [OF r_write.hyps(3)] frame_run_ok [OF r_write.hyps(1)] off by blast
  next
    case (r_insert b c ins blk b' c')
    then obtain w where "ins = Some w" by auto
    then show ?case using r_insert insertBlockData_coded_ok frame_run_ok [OF r_insert.hyps(1)] off by blast
  next
    case (r_evict b c blk buf out b' c')
    then show ?case
      using evictBlockData_coded_ok [OF r_evict.hyps(3)] frame_run_ok [OF r_evict.hyps(1)] off by blast
  next
    case (r_invalidate b c blk b' c')
    then show ?case
      using invalidateBlockData_coded_ok [OF r_invalidate.hyps(3)] frame_run_ok [OF r_invalidate.hyps(1)]
      by blast
  qed
qed

section \<open>A concrete run\<close>

text \<open>Two lines of eight bytes that share a granule, inserted into an empty compressible
  frame.\<close>

definition ex_cntlr :: cache_compression_cntlr where
  "ex_cntlr = CacheCompressionCntlr True False False"

definition ex_w0 :: "u8 list" where "ex_w0 = [1, 0, 0, 0, 2, 0, 0, 0]"
definition ex_w1 :: "u8 list" where "ex_w1 = [2, 0, 0, 0, 3, 0, 0, 0]"

definition res_of :: "'a \<Rightarrow> 'a res \<Rightarrow> 'a" where
  "res_of d r = (case r of Inl _ \<Rightarrow> d | Inr x \<Rightarrow> x)"

definition ex_f1 :: "block_data \<times> cache_compression_cntlr" where
  "ex_f1 = res_of (BlockData 8, ex_cntlr) (insertBlockData (BlockData 8) 0 (Some ex_w0) ex_cntlr)"

definition ex_f2 :: "block_data \<times> cache_compression_cntlr" where
  "ex_f2 = res_of ex_f1 (insertBlockData (fst ex_f1) 1 (Some ex_w1) (snd ex_f1))"

lemma res_of_Inr: "\<not> isl r \<Longrightarrow> r = Inr (res_of d r)"
  by (cases r) (simp_all add: res_of_def)

lemma ex_f1_step: "insertBlockData (BlockData 8) 0 (Some ex_w0) ex_cntlr = Inr (fst ex_f1, snd ex_f1)"
proof -
  have "\<not> isl (insertBlockData (BlockData 8) 0 (Some ex_w0) ex_cntlr)" by code_simp
  from res_of_Inr [OF this] show ?thesis by (simp add: ex_f1_def)
qed

lemma ex_f2_step: "insertBlockData (fst ex_f1) 1 (Some ex_w1) (snd ex_f1) = Inr (fst ex_f2, snd ex_f2)"
proof -
  have "\<not> isl (insertBlockData (fst ex_f1) 1 (Some ex_w1) (snd ex_f1))" by code_simp
  from res_of_Inr [OF this] show ?thesis by (simp add: ex_f2_def)
qed

lemma ex_switches: "switches ex_cntlr = (True, False, False)" "switches (snd ex_f1) = (True, False, False)"
  by code_simp+

lemma ex_f1_run: "frame_run (True, False, False) True 8 (fst ex_f1)"
  by (rule frame_run.r_insert [OF frame_run.r_init ex_switches(1) _ ex_f1_step]) simp

lemma ex_f2_run: "frame_run (True, False, False) True 8 (fst ex_f2)"
  by (rule frame_run.r_insert [OF ex_f1_run ex_switches(2) _ ex_f2_step]) simp

lemmas ex_f1_ok = conjunct1 [OF frame_run_ok [OF ex_f1_run, simplified]]
lemmas ex_f2_ok = conjunct1 [OF frame_run_ok [OF ex_f2_run, simplified]]


definition ex_view :: "block_data \<Rightarrow> scheme_t \<times> bool list \<times> u8 list list" where
  "ex_view b = (m_scheme b, m_valid b, m_data b)"

lemma ex_f2_view: "ex_view (fst ex_f2) = (SCHEME1, [True, True, False, False],
    [ex_w0, ex_w1, replicate 8 0, replicate 8 0])"
  by code_simp

lemmas ex_f2_frame = ex_f2_view [unfolded ex_view_def prod.inject]

section \<open>Invariants of reachable frames\<close>

text \<open>C1: in every reachable frame, whatever the switches and with or without data, the
  free and used dictionary pointers partition the pointers of the current scheme, the used ones
  are the keys of the dictionary, no value is stored twice, all arrays keep their sizes, and an
  empty frame is uncompressed.\<close>

theorem frame_invariant:
  assumes "frame_run sw data bs b" "bs < 2 ^ 32"
  shows "frame_ok b \<and> m_blocksize b = bs \<and>
    length (m_dict b) + length (m_free_ptrs b) = dict_size (m_scheme b)"
  using frame_run_ok [OF assms] dict_ok_count by (auto simp: frame_ok_def)

theorem frame_invariant_witness:
  "frame_run (True, False, False) True 8 (fst ex_f2) \<and>
    length (m_dict (fst ex_f2)) + length (m_free_ptrs (fst ex_f2)) = 8"
  using frame_invariant [OF ex_f2_run] ex_f2_run ex_f2_frame by (simp add: dish_consts)

text \<open>C2: compression is lossless. In every frame reachable by operations whose insertions carry
  data, without on-the-fly changes of scheme and without pruning, the bytes that the dictionary, the pointers and the offsets of a
  valid line encode are exactly the bytes the line holds.\<close>

theorem compression_lossless:
  assumes "frame_run (cmp, False, False) True bs b" "bs < 2 ^ 32" "4 dvd bs"
    and "i < SUPERBLOCK_SIZE" "m_valid b ! i"
  shows "decode_line b i = Some (m_data b ! i)"
proof -
  have "shape_ok b" "m_blocksize b = bs"
    using frame_run_ok [OF assms(1,2)] by (auto simp: frame_ok_def)
  moreover have "line_decodes b i"
    using frame_run_coded [OF assms(1,2)] assms(4,5) by (simp add: coded_ok_def)
  ultimately show ?thesis using assms(3,4) by (intro decode_line_raw) simp_all
qed

theorem compression_lossless_witness: "decode_line (fst ex_f2) 1 = Some ex_w1"
  using compression_lossless [OF ex_f2_run, of 1] ex_f2_frame by (simp add: dish_consts)

text \<open>The distinct granules of the valid lines of a frame.\<close>

definition frame_granules :: "block_data \<Rightarrow> u32 set" where
  "frame_granules b = (\<Union>i \<in> {i. i < SUPERBLOCK_SIZE \<and> m_valid b ! i}. set (line_chunks b i))"

lemma frame_granules_decode:
  assumes "coded_ok b" "v \<in> frame_granules b"
  obtains i j where "decode_chunk b i j = Some v"
proof -
  from assms(2) obtain i j where "i < SUPERBLOCK_SIZE" "m_valid b ! i" "j < length (line_chunks b i)"
    "v = line_chunks b i ! j"
    by (auto simp: frame_granules_def in_set_conv_nth)
  with assms(1) that show thesis by (auto simp: coded_ok_def line_decodes_def decodes_def)
qed

lemma frame_granules_in_dict:
  assumes "coded_ok b"
  shows "m_scheme b = SCHEME1 \<Longrightarrow> frame_granules b \<subseteq> dict_vals b"
    and "m_scheme b = SCHEME2 \<Longrightarrow> upper ` frame_granules b \<subseteq> dict_vals b"
  by (auto elim!: frame_granules_decode [OF assms]
      simp: decode_chunk_def dec1_def dec2_def join_prefix_def Option.bind_eq_Some_conv dict_vals_def
      dest!: map_of_SomeD split: option.splits if_splits; force)+

lemma card_dict_vals: "dict_ok b \<Longrightarrow> card (dict_vals b) \<le> dict_size (m_scheme b)"
  using dict_ok_count [of b] card_image_le [of "set (m_dict b)" snd] card_length [of "m_dict b"]
  by (simp add: dict_vals_def)

text \<open>C15: the storage a frame claims is enough for what it holds. When every insertion carries
  data (the frames of a TLB carry none), and without on-the-fly changes and pruning, an
  uncompressed reachable frame holds at most one line, a frame in the first scheme holds
  lines with at most eight different granules altogether, and one in the second scheme lines
  with at most four different prefixes.\<close>

theorem frame_capacity:
  assumes "frame_run (cmp, False, False) True bs b" "bs < 2 ^ 32"
  shows "(m_scheme b = UNCOMPRESSED \<longrightarrow> getNumValid b \<le> 1) \<and>
    (m_scheme b = SCHEME1 \<longrightarrow> card (frame_granules b) \<le> SCHEME1_DICT_SIZE) \<and>
    (m_scheme b = SCHEME2 \<longrightarrow> card (upper ` frame_granules b) \<le> SCHEME2_DICT_SIZE)"
proof (intro conjI impI)
  have co: "coded_ok b" by (rule frame_run_coded [OF assms])
  have dict: "card A \<le> dict_size (m_scheme b)" if "A \<subseteq> dict_vals b" for A
    using card_mono [OF finite_dict_vals that] card_dict_vals frame_run_ok [OF assms]
    by (auto simp: frame_ok_def intro: le_trans)
  show "card (frame_granules b) \<le> SCHEME1_DICT_SIZE" if "m_scheme b = SCHEME1"
    using dict [OF frame_granules_in_dict(1) [OF co that]] that by simp
  show "card (upper ` frame_granules b) \<le> SCHEME2_DICT_SIZE" if "m_scheme b = SCHEME2"
    using dict [OF frame_granules_in_dict(2) [OF co that]] that by simp
  assume "m_scheme b = UNCOMPRESSED"
  then have "set (filter (\<lambda>i. m_valid b ! i) [0..<SUPERBLOCK_SIZE]) \<subseteq> {getFirstValid b}"
    using co by (auto simp: coded_ok_def)
  then have "card (set (filter (\<lambda>i. m_valid b ! i) [0..<SUPERBLOCK_SIZE])) \<le> 1"
    using card_mono [of "{getFirstValid b}"] by fastforce
  moreover have "distinct (filter (\<lambda>i. m_valid b ! i) [0..<SUPERBLOCK_SIZE])" by simp
  ultimately show "getNumValid b \<le> 1" unfolding getNumValid_def using distinct_card by metis
qed

theorem frame_capacity_witness:
  "m_scheme (fst ex_f2) = SCHEME1 \<and> card (frame_granules (fst ex_f2)) \<le> 8"
  using frame_capacity [OF ex_f2_run] ex_f2_frame by (simp add: dish_consts)


section \<open>Reading back\<close>

lemma readBlockData_valid:
  assumes "shape_ok b" "i < SUPERBLOCK_SIZE" "m_valid b ! i" "off + n \<le> m_blocksize b"
    "off + n \<le> length buf"
  shows "readBlockData b i off n (Some buf) =
    Inr (Some (overwrite off (take n (drop off (m_data b ! i))) buf))"
  using assms shape_ok_rows(1,5,6) [OF assms(1,2)]
  by (simp add: readBlockData_def copy_n_def shape_ok_def)

text \<open>C14: a line that was inserted reads back as the bytes given to the insertion, under every
  scheme chosen for it and whatever else the frame holds, and every other line reads as before.\<close>

theorem insert_then_read:
  assumes ins: "insertBlockData b blk (Some w) c = Inr (b', c')" and ok: "frame_ok b"
    and buf: "length buf = m_blocksize b"
  shows "readBlockData b' blk 0 (m_blocksize b) (Some buf) = Inr (Some (take (m_blocksize b) w)) \<and>
    (\<forall>i. i < SUPERBLOCK_SIZE \<and> i \<noteq> blk \<and> m_valid b ! i \<longrightarrow>
       readBlockData b' i 0 (m_blocksize b) (Some buf) = readBlockData b i 0 (m_blocksize b) (Some buf))"
proof (intro conjI allI impI)
  note e = insertBlockData_effect [OF ins ok]
  have sh: "shape_ok b" "shape_ok b'" using ok e by (auto simp: frame_ok_def)
  have len: "length (m_valid b) = SUPERBLOCK_SIZE" "length (m_data b) = SUPERBLOCK_SIZE"
    using sh by (auto simp: shape_ok_def)
  show "readBlockData b' blk 0 (m_blocksize b) (Some buf) = Inr (Some (take (m_blocksize b) w))"
    using readBlockData_valid [OF sh(2), of blk 0 "m_blocksize b" buf] e len buf by simp
  fix i assume i: "i < SUPERBLOCK_SIZE \<and> i \<noteq> blk \<and> m_valid b ! i"
  show "readBlockData b' i 0 (m_blocksize b) (Some buf) = readBlockData b i 0 (m_blocksize b) (Some buf)"
    using readBlockData_valid [OF sh(2), of i 0 "m_blocksize b" buf]
      readBlockData_valid [OF sh(1), of i 0 "m_blocksize b" buf] e len buf i by simp
qed

lemma ex_f1_size: "m_blocksize (fst ex_f1) = 8" "m_blocksize (fst ex_f2) = 8"
  using frame_run_ok [OF ex_f1_run] frame_run_ok [OF ex_f2_run] by simp_all

theorem insert_then_read_witness:
  "readBlockData (fst ex_f2) 1 0 8 (Some (replicate 8 0)) = Inr (Some ex_w1)"
  using insert_then_read [OF ex_f2_step ex_f1_ok, of "replicate 8 0"]
  by (simp add: ex_f1_size) (simp add: ex_w1_def)

text \<open>C28: a write that starts at the beginning of the line, or that goes to an uncompressed
  frame, stores the given bytes at the given place of the line and nothing else, on every branch,
  a change of scheme included.\<close>

theorem write_then_read:
  assumes wr: "writeBlockData b blk off (Some w) n c = Inr (b', c')" and ok: "frame_ok b"
    and blk: "blk < SUPERBLOCK_SIZE" "m_valid b ! blk" and n: "off + n \<le> m_blocksize b" "off + n \<le> length w"
    and off: "off = 0 \<or> m_scheme b = UNCOMPRESSED"
    and buf: "length buf = m_blocksize b"
  shows "readBlockData b' blk 0 (m_blocksize b) (Some buf) =
      Inr (Some (overwrite off (take n (drop off w)) (m_data b ! blk))) \<and>
    (\<forall>i. i < SUPERBLOCK_SIZE \<and> i \<noteq> blk \<and> m_valid b ! i \<longrightarrow>
       readBlockData b' i 0 (m_blocksize b) (Some buf) = readBlockData b i 0 (m_blocksize b) (Some buf))"
proof (intro conjI allI impI)
  note e = writeBlockData_effect [OF wr ok]
  have sh: "shape_ok b" "shape_ok b'" using ok e by (auto simp: frame_ok_def)
  have len: "length (m_data b) = SUPERBLOCK_SIZE" "length (m_data b ! blk) = m_blocksize b"
    using sh shape_ok_rows(6) [OF sh(1) blk(1)] by (auto simp: shape_ok_def)
  have src: "(if m_scheme b = UNCOMPRESSED then off else 0) = off" using off by auto
  show "readBlockData b' blk 0 (m_blocksize b) (Some buf) =
      Inr (Some (overwrite off (take n (drop off w)) (m_data b ! blk)))"
    using readBlockData_valid [OF sh(2) blk(1), of 0 "m_blocksize b" buf] e len buf blk n
    by (simp add: src)
  fix i assume i: "i < SUPERBLOCK_SIZE \<and> i \<noteq> blk \<and> m_valid b ! i"
  show "readBlockData b' i 0 (m_blocksize b) (Some buf) = readBlockData b i 0 (m_blocksize b) (Some buf)"
    using readBlockData_valid [OF sh(2), of i 0 "m_blocksize b" buf]
      readBlockData_valid [OF sh(1), of i 0 "m_blocksize b" buf] e len buf i by simp
qed

definition ex_f3 :: "block_data \<times> cache_compression_cntlr" where
  "ex_f3 = res_of ex_f2 (writeBlockData (fst ex_f2) 1 0 (Some ex_w0) 4 (snd ex_f2))"

lemma ex_f3_step: "writeBlockData (fst ex_f2) 1 0 (Some ex_w0) 4 (snd ex_f2) = Inr (fst ex_f3, snd ex_f3)"
proof -
  have "\<not> isl (writeBlockData (fst ex_f2) 1 0 (Some ex_w0) 4 (snd ex_f2))" by code_simp
  from res_of_Inr [OF this] show ?thesis by (simp add: ex_f3_def)
qed

theorem write_then_read_witness:
  "readBlockData (fst ex_f3) 1 0 8 (Some (replicate 8 0)) = Inr (Some [1, 0, 0, 0, 3, 0, 0, 0])"
  using write_then_read [OF ex_f3_step ex_f2_ok, of "replicate 8 0"] ex_f2_frame
  by (simp add: ex_f1_size dish_consts ex_w0_def ex_w1_def overwrite_def)

text \<open>C37: evicting a line hands out exactly its bytes, leaves the other lines alone, and when
  it was the last one the frame returns to the uncompressed scheme with an empty dictionary and
  is taken out of the controller's count.\<close>

theorem evict_returns_line:
  assumes ev: "evictBlockData b blk (Some buf) c = Inr (out, b', c')" and ok: "frame_ok b"
    and buf: "length buf = m_blocksize b"
  shows "out = Some (m_data b ! blk) \<and> m_valid b' = (m_valid b)[blk := False] \<and>
    (\<forall>i. i \<noteq> blk \<longrightarrow> m_data b' ! i = m_data b ! i) \<and>
    (\<not> bd_isValid b' \<longrightarrow> m_scheme b' = UNCOMPRESSED \<and> m_dict b' = [] \<and> m_free_ptrs b' = []) \<and>
    counted c b c' b'"
proof -
  note e = evictBlockData_effect [OF ev ok]
  have "length (m_data b ! blk) = m_blocksize b"
    using ok e by (intro shape_ok_rows(6)) (simp_all add: frame_ok_def)
  moreover have "m_dict b' = [] \<and> m_free_ptrs b' = []" if "m_scheme b' = UNCOMPRESSED"
    using dict_ok_count [of b'] e that by (simp add: frame_ok_def)
  ultimately show ?thesis using e buf by (simp add: frame_ok_def)
qed

theorem evict_returns_line_witness:
  "\<exists>b c. evictBlockData (fst ex_f2) 1 (Some (replicate 8 0)) (snd ex_f2) = Inr (Some ex_w1, b, c) \<and> m_valid b = [True, False, False, False]"
proof -
  have "\<not> isl (evictBlockData (fst ex_f2) 1 (Some (replicate 8 0)) (snd ex_f2))" by code_simp
  then obtain out b c where r: "evictBlockData (fst ex_f2) 1 (Some (replicate 8 0)) (snd ex_f2) = Inr (out, b, c)"
    by (auto simp: isl_def split: sum.splits) (metis prod_cases3 sum.exhaust)
  from evict_returns_line [OF r ex_f2_ok] ex_f2_frame have "out = Some ex_w1" "m_valid b = [True, False, False, False]"
    by (simp_all add: ex_f1_size)
  with r show ?thesis by blast
qed

section \<open>The checks before a change\<close>

text \<open>C13: the check made before an insertion decides it. When it answers yes, the insertion runs
  to its end: no assertion fails and the dictionary does not overflow; when it answers no, the
  insertion would stop at an assertion. The lines are at most 64 bytes, the room the pointer
  arrays have, and on-the-fly changes are off.\<close>

theorem canInsert_decides:
  assumes "frame_ok b" "m_chunks_per_block b \<le> BLOCK_ENTRIES" "m_blocksize b \<le> length w"
    "\<not> canChangeSchemeOTF c" "canInsertBlockData b blk (Some w) c = Inr ok"
  shows "ok \<longleftrightarrow> (\<exists>r. insertBlockData b blk (Some w) c = Inr r)"
proof
  assume ok
  then show "\<exists>r. insertBlockData b blk (Some w) c = Inr r"
    using assms by (intro insertBlockData_ok) simp_all
next
  assume "\<exists>r. insertBlockData b blk (Some w) c = Inr r"
  with assms(5) show ok
    by (auto simp: canInsertBlockData_def insertBlockData_def res_simps split: if_splits scheme_t.splits)
      (metis scheme_t.exhaust)
qed

lemma ex_f1_chunks: "m_chunks_per_block (fst ex_f1) = 2" "m_chunks_per_block (fst ex_f2) = 2"
  using ex_f1_ok ex_f2_ok ex_f1_size by (simp_all add: frame_ok_def shape_ok_def dish_consts)

lemma ex_no_otf: "\<not> canChangeSchemeOTF (snd ex_f1)" "\<not> canChangeSchemeOTF (snd ex_f2)"
  by code_simp+

lemma ex_can: "canInsertBlockData (fst ex_f1) 1 (Some ex_w1) (snd ex_f1) = Inr True"
  "canWriteBlockData (fst ex_f2) 1 0 (Some ex_w0) 4 (snd ex_f2) = Inr True"
  by code_simp+

theorem canInsert_decides_witness:
  "\<exists>r. insertBlockData (fst ex_f1) 1 (Some ex_w1) (snd ex_f1) = Inr r"
  using canInsert_decides [OF ex_f1_ok _ _ ex_no_otf(1) ex_can(1)]
  by (simp add: ex_f1_chunks ex_f1_size ex_w1_def dish_consts)

text \<open>C36: the check made before a write decides it in the same way, for writes that start at the
  beginning of the line, with on-the-fly changes off and lines of at most 64 bytes: it answers yes
  exactly when the write runs to its end.\<close>

theorem canWrite_decides:
  assumes "frame_ok b" "m_chunks_per_block b \<le> BLOCK_ENTRIES"
    "n \<le> length w" "n \<le> m_blocksize b" "\<not> canChangeSchemeOTF c"
    "canWriteBlockData b blk 0 (Some w) n c = Inr ok"
  shows "ok \<longleftrightarrow> (\<exists>r. writeBlockData b blk 0 (Some w) n c = Inr r)"
proof
  assume ok
  then show "\<exists>r. writeBlockData b blk 0 (Some w) n c = Inr r"
    using assms by (intro writeBlockData_ok) simp_all
next
  assume "\<exists>r. writeBlockData b blk 0 (Some w) n c = Inr r"
  with assms(6) show ok
    by (auto simp: canWriteBlockData_def writeBlockData_def getSchemeForWrite_def res_simps
        split: if_splits scheme_t.splits)
qed

theorem canWrite_decides_witness:
  "\<exists>r. writeBlockData (fst ex_f2) 1 0 (Some ex_w0) 4 (snd ex_f2) = Inr r"
  using canWrite_decides [OF ex_f2_ok _ _ _ ex_no_otf(2) ex_can(2)]
  by (simp add: ex_f1_chunks ex_f1_size ex_w0_def dish_consts)

section \<open>Compaction\<close>

lemma entry_used_iff: "entry_used b v \<longleftrightarrow> v \<in> frame_granules b"
  by (auto simp: entry_used_def frame_granules_def list_ex_iff)

text \<open>Compacting a frame in the first scheme gives back exactly the dictionary entries that
  no granule of a valid line uses, keeps the dictionary well formed, and every valid line that
  decoded to its bytes still does.\<close>

lemma compact_scheme1:
  assumes "compact b = Inr b'" "frame_ok b" "bd_isValid b" "m_scheme b = SCHEME1"
  shows "set (m_dict b') = {e \<in> set (m_dict b). snd e \<in> frame_granules b} \<and> dict_ok b' \<and>
    (\<forall>i < SUPERBLOCK_SIZE. m_valid b ! i \<and> line_decodes b i \<longrightarrow>
       line_decodes b' i \<and> m_data b' ! i = m_data b ! i)"
proof -
  have ok: "dict_ok b" using assms(2) by (simp add: frame_ok_def)
  note cp = compact_pruned(1) [OF assms(1) ok] compact_pruned(2) [OF assms(1) ok assms(3)]
  have "set (m_dict b') = {e \<in> set (m_dict b). snd e \<in> frame_granules b}"
    using cp(2) assms(4) by (simp add: entry_used_iff)
  moreover have "line_decodes b' i" if "i < SUPERBLOCK_SIZE" "m_valid b ! i" "line_decodes b i" for i
    using compact_decodes1 [OF assms(1) ok assms(4) that(1,2)] that(3) cp(1) assms(4)
    by (simp add: line_decodes_simps lines_eq_def)
  ultimately show ?thesis using cp(1) by (simp add: lines_eq_def)
qed

section \<open>Behaviour that departs from the intent\<close>

text \<open>A line of the second scheme: two granules with the prefix 1 and different low bits.\<close>

definition ex_s2 :: block_data where
  "ex_s2 = res_of (BlockData 8)
     (encode_line2 0 (changeScheme SCHEME2
       (set_valid 0 (set_line 0 [16, 0, 0, 0, 17, 0, 0, 0] (BlockData 8)))))"

lemma those_None: "None \<in> set xs \<Longrightarrow> those xs = None"
  by (induction xs) (auto split: option.splits)

lemma map_of_filter_out:
  assumes "distinct (map fst al)" "map_of al k = Some v" "\<not> P v"
  shows "map_of (filter (\<lambda>e. P (snd e)) al) k = None"
  using assms by (induction al) (auto simp: map_of_eq_None_iff dest!: map_of_SomeD split: if_splits)

text \<open>C29: compaction of the second scheme compares the stored 28-bit prefixes with whole granules. It
  keeps exactly the entries whose prefix happens to be a granule of a valid line, so every line with a
  granule whose prefix is no granule of the frame loses an entry it is encoded with: it decoded before
  the compaction, and does not decode after it.\<close>

theorem compact_scheme2_loses_entry:
  assumes ok: "frame_ok b" "m_scheme b = SCHEME2" and i: "i < SUPERBLOCK_SIZE" "m_valid b ! i" "line_decodes b i"
    and v: "v \<in> set (line_chunks b i)" "upper v \<notin> frame_granules b"
  shows "set (m_dict (compactScheme2 b)) = {e \<in> set (m_dict b). snd e \<in> frame_granules b} \<and>
    decode_line (compactScheme2 b) i = None"
proof -
  have val: "bd_isValid b" using i ok(1) by (auto simp: bd_isValid_def frame_ok_def shape_ok_def list_ex_iff in_set_conv_nth)
  then have cp: "compact b = Inr (compactScheme2 b)" using ok(2) by (simp add: compact_def)
  have d: "dict_ok b" "shape_ok b" using ok(1) by (simp_all add: frame_ok_def)
  note p = compact_pruned(1) [OF cp d(1)] compact_pruned(2) [OF cp d(1) val]
  from v(1) obtain j where j: "j < length (line_chunks b i)" "line_chunks b i ! j = v" by (auto simp: in_set_conv_nth)
  have "dec2 b i j = Some v" using i(3) ok(2) j by (simp add: line_decodes_simps decodes_def)
  then have u: "map_of (m_dict b) (m_data_ptrs b ! i ! j) = Some (upper v)"
    by (auto simp: dec2_def join_prefix_def Option.bind_eq_Some_conv split: if_splits)
  have "distinct (map fst (m_dict b))" using d(1) by (simp add: dict_ok_def)
  from map_of_filter_out [OF this u, of "entry_used b"] v(2)
  have "map_of (m_dict (compactScheme2 b)) (m_data_ptrs b ! i ! j) = None" using p(2) ok(2) by (simp add: entry_used_iff)
  then have "decode_chunk (compactScheme2 b) i j = None"
    using p(1) ok(2) by (simp add: decode_chunk_def lines_eq_def dec2_def)
  moreover have "j < m_chunks_per_block (compactScheme2 b)"
    using j(1) p(1) length_line_chunks [OF d(2) i(1)] by (simp add: lines_eq_def)
  ultimately have "None \<in> set (map (decode_chunk (compactScheme2 b) i) [0..<m_chunks_per_block (compactScheme2 b)])"
    by force
  then have "those (map (decode_chunk (compactScheme2 b) i) [0..<m_chunks_per_block (compactScheme2 b)]) = None"
    by (rule those_None)
  then show ?thesis using p(2) ok(2) by (auto simp: decode_line_def entry_used_iff)
qed

theorem compact_scheme2_loses_entry_witness:
  "decode_line ex_s2 0 = Some [16, 0, 0, 0, 17, 0, 0, 0] \<and> decode_line (compactScheme2 ex_s2) 0 = None"
proof -
  have d: "decode_line ex_s2 0 = Some [16, 0, 0, 0, 17, 0, 0, 0]" and s: "m_scheme ex_s2 = SCHEME2" by code_simp+
  have "m_blocksize ex_s2 = 8" "m_chunks_per_block ex_s2 = 2" "length (m_valid ex_s2) = SUPERBLOCK_SIZE"
    "length (m_data ex_s2) = SUPERBLOCK_SIZE" "\<forall>row \<in> set (m_data ex_s2). length row = 8"
    "length (m_data_ptrs ex_s2) = SUPERBLOCK_SIZE" "\<forall>row \<in> set (m_data_ptrs ex_s2). length row = BLOCK_ENTRIES"
    "length (m_data_offsets ex_s2) = SUPERBLOCK_SIZE" "\<forall>row \<in> set (m_data_offsets ex_s2). length row = BLOCK_ENTRIES"
    "bd_isValid ex_s2" "dict_ok ex_s2" by code_simp+
  then have "frame_ok ex_s2" using d by (simp add: frame_ok_def shape_ok_def dish_consts s)
  moreover have "m_valid ex_s2 ! 0" "16 \<in> set (line_chunks ex_s2 0)" by code_simp+
  moreover have "line_decodes ex_s2 0" by code_simp
  moreover have "\<not> entry_used ex_s2 (upper 16)" by code_simp
  then have "upper 16 \<notin> frame_granules ex_s2" by (simp only: entry_used_iff not_False_eq_True)
  ultimately show ?thesis using compact_scheme2_loses_entry [of ex_s2 0 16] d s by (simp add: dish_consts)
qed

text \<open>C30: a write of \<open>n\<close> bytes at an offset into a compressed frame takes the bytes from the
  start of the caller's buffer, not from the offset the compressibility check and the uncompressed
  path use.\<close>

theorem write_compressed_source:
  assumes "writeBlockData b blk off (Some w) n c = Inr (b', c')" "frame_ok b"
    "m_scheme b = SCHEME1 \<or> m_scheme b = SCHEME2"
  shows "m_data b' = (m_data b)[blk := overwrite off (take n w) (m_data b ! blk)]"
  using writeBlockData_effect [OF assms(1,2)] assms(3) by auto

text \<open>The second word of the first line is written with the value 1 that stands at that place of
  the buffer; the line gets the buffer's first word, 3, instead.\<close>

definition ex_w2 :: "u8 list" where "ex_w2 = [3, 0, 0, 0, 1, 0, 0, 0]"

definition ex_f5 :: "block_data \<times> cache_compression_cntlr" where
  "ex_f5 = res_of ex_f2 (writeBlockData (fst ex_f2) 0 4 (Some ex_w2) 4 (snd ex_f2))"

lemma ex_f5_step: "writeBlockData (fst ex_f2) 0 4 (Some ex_w2) 4 (snd ex_f2) = Inr (fst ex_f5, snd ex_f5)"
proof -
  have "\<not> isl (writeBlockData (fst ex_f2) 0 4 (Some ex_w2) 4 (snd ex_f2))" by code_simp
  from res_of_Inr [OF this] show ?thesis by (simp add: ex_f5_def)
qed

theorem write_compressed_source_witness:
  "m_data (fst ex_f5) ! 0 = [1, 0, 0, 0, 3, 0, 0, 0] \<and> take 4 (drop 4 ex_w2) = [1, 0, 0, 0]"
  using write_compressed_source [OF ex_f5_step ex_f2_ok] ex_f2_frame
  by (simp add: ex_w2_def ex_w0_def overwrite_def)

end
