(* ===== verification/Utils.thy ===== *)
theory Utils
  imports Prelude
begin

text \<open>
  The bit utilities of \<^verbatim>\<open>common/misc/utils.cc\<close>: power-of-two test, logarithms and
  population count. They are proved equal to what their names say, on 32- and 64-bit words.
\<close>

unbundle bit_operations_syntax

section \<open>Definitions\<close>

definition isPower2 :: "u32 \<Rightarrow> bool" where
  "isPower2 n = (n AND (n - 1) = 0)"

text \<open>One line \<^verbatim>\<open>if (n & m) { p += k; n >>= k; }\<close> of \<^verbatim>\<open>floorLog2\<close>.\<close>

definition log_step :: "u32 \<Rightarrow> nat \<Rightarrow> int \<times> u32 \<Rightarrow> int \<times> u32" where
  "log_step m k pn =
     (if snd pn AND m \<noteq> 0 then (fst pn + int k, drop_bit k (snd pn)) else pn)"

definition floorLog2 :: "u32 \<Rightarrow> int" where
  "floorLog2 n =
     (if n = 0 then -1
      else
        let pn = log_step 0x0000000c 2 (log_step 0x000000f0 4
                   (log_step 0x0000ff00 8 (log_step 0xffff0000 16 (0, n))))
        in fst pn + (if snd pn AND 0x00000002 \<noteq> 0 then 1 else 0))"

definition ceilLog2 :: "u32 \<Rightarrow> int" where
  "ceilLog2 n = floorLog2 (n - 1) + 1"

text \<open>The loop \<^verbatim>\<open>for (result = 1; n &= n - 1; ++result)\<close>.\<close>

lemma clear_lowest_less: "n \<noteq> 0 \<Longrightarrow> n AND (n - 1) < (n :: 'a::len word)"
proof -
  assume "n \<noteq> 0"
  then have "n - 1 < n" by (simp add: word_less_nat_alt unat_minus_one unat_gt_0)
  moreover have "n AND (n - 1) \<le> n - 1" by (rule word_and_le1)
  ultimately show ?thesis by (rule order.strict_trans1 [rotated])
qed

function count_loop :: "u64 \<Rightarrow> u64 \<Rightarrow> u64" where
  "count_loop result n =
     (let n' = n AND (n - 1) in if n' = 0 then result else count_loop (result + 1) n')"
  by pat_completeness auto
termination
proof (relation "measure (\<lambda>(_, n). unat n)")
  fix result n n' :: u64
  assume "n' = n AND (n - 1)" "n' \<noteq> 0"
  then have "n' < n" using clear_lowest_less [of n] by (cases "n = 0") auto
  then show "((result + 1, n'), result, n) \<in> measure (\<lambda>(_, n). unat n)"
    by (simp add: word_less_nat_alt)
qed simp

declare count_loop.simps [simp del]

definition countBits :: "u64 \<Rightarrow> u64" where
  "countBits n = (if n = 0 then 0 else count_loop 1 n)"

section \<open>Clearing the lowest bit\<close>

text \<open>The number of one bits of a natural number.\<close>

fun ones :: "nat \<Rightarrow> nat" where
  "ones n = (if n = 0 then 0 else n mod 2 + ones (n div 2))"

declare ones.simps [simp del]

definition clear_low :: "nat \<Rightarrow> nat" where
  "clear_low n = n AND (n - 1)"

lemma ones_0 [simp]: "ones 0 = 0"
  by (simp add: ones.simps)

lemma ones_double [simp]: "ones (2 * n) = ones n" "ones (Suc (2 * n)) = Suc (ones n)"
  by (simp_all add: ones.simps [of "2 * n"] ones.simps [of "Suc (2 * n)"])

lemma ones_eq_0 [simp]: "ones n = 0 \<longleftrightarrow> n = 0"
proof (induction n rule: ones.induct)
  case (1 n)
  then show ?case by (cases "n = 0") (auto simp: ones.simps [of n])
qed

lemma clear_low_odd: "clear_low (Suc (2 * n)) = 2 * n"
  by (simp add: clear_low_def and_nat_rec [of "Suc (2 * n)"])

lemma clear_low_even: "0 < n \<Longrightarrow> clear_low (2 * n) = 2 * clear_low n"
proof -
  assume "0 < n"
  then have d: "(2 * n - Suc 0) div 2 = n - Suc 0" by auto
  show ?thesis by (simp add: clear_low_def and_nat_rec [of "2 * n"] d)
qed

lemma nat_bit_cases:
  obtains (zero) "n = (0 :: nat)" | (even) m where "0 < m" "m < n" "n = 2 * m"
  | (odd) m where "m < n" "n = Suc (2 * m)"
proof (cases "even n")
  case True
  then obtain m where "n = 2 * m" by (elim evenE)
  then show thesis using zero even [of m] by (cases "m = 0") auto
next
  case False
  then obtain m where "n = 2 * m + 1" by (elim oddE)
  then show thesis using odd [of m] by simp
qed

lemma ones_clear_low: "0 < n \<Longrightarrow> Suc (ones (clear_low n)) = ones n"
proof (induction n rule: less_induct)
  case (less n)
  show ?case
  proof (cases n rule: nat_bit_cases)
    case (even m)
    then show ?thesis using less.IH [of m] by (simp add: clear_low_even)
  next
    case (odd m)
    then show ?thesis by (simp add: clear_low_odd)
  qed (use less.prems in simp)
qed

lemma clear_low_eq_0: "0 < n \<Longrightarrow> clear_low n = 0 \<longleftrightarrow> (\<exists>k. n = 2 ^ k)"
proof (induction n rule: less_induct)
  case (less n)
  show ?case
  proof (cases n rule: nat_bit_cases)
    case (even m)
    have "(\<exists>k. n = 2 ^ k) \<longleftrightarrow> (\<exists>k. m = 2 ^ k)"
    proof
      assume "\<exists>k. n = 2 ^ k"
      then obtain k where k: "2 * m = 2 ^ k" using even by auto
      with \<open>0 < m\<close> have "k \<noteq> 0" by (intro notI) simp
      then obtain j where "k = Suc j" by (cases k) auto
      with k show "\<exists>k. m = 2 ^ k" by auto
    next
      assume "\<exists>k. m = 2 ^ k"
      then obtain k where "m = 2 ^ k" ..
      then have "n = 2 ^ Suc k" using even by simp
      then show "\<exists>k. n = 2 ^ k" ..
    qed
    then show ?thesis using even less.IH [of m] by (simp add: clear_low_even)
  next
    case (odd m)
    have "(\<exists>k. Suc (2 * m) = 2 ^ k) \<longleftrightarrow> m = 0"
    proof
      assume "\<exists>k. Suc (2 * m) = 2 ^ k"
      then obtain k where k: "Suc (2 * m) = 2 ^ k" ..
      then have "odd ((2 :: nat) ^ k)" by (metis even_Suc even_mult_iff even_numeral)
      then have "k = 0" by simp
      with k show "m = 0" by simp
    qed (auto intro: exI [of _ 0])
    then show ?thesis using odd by (simp add: clear_low_odd)
  qed (use less.prems in simp)
qed

lemma unat_clear_lowest: "unat (n AND (n - 1)) = clear_low (unat (n :: 'a::len word))"
proof (cases "n = 0")
  case False
  then have "unat (n - 1) = unat n - 1" by (simp add: unat_minus_one)
  then show ?thesis by (simp add: clear_low_def unsigned_and_eq)
qed (simp add: clear_low_def)

lemma ones_less: "n < 2 ^ k \<Longrightarrow> ones n \<le> k"
proof (induction k arbitrary: n)
  case (Suc k)
  show ?case
  proof (cases n rule: nat_bit_cases)
    case (even m)
    then show ?thesis using Suc.IH [of m] Suc.prems by simp
  next
    case (odd m)
    then show ?thesis using Suc.IH [of m] Suc.prems by simp
  qed simp
qed simp

lemma count_loop_ones: "n \<noteq> 0 \<Longrightarrow> count_loop r n = r + of_nat (ones (unat n) - 1)"
proof (induction r n rule: count_loop.induct)
  case (1 r n)
  have pos: "0 < unat n" using "1.prems" by (simp add: unat_gt_0)
  note step = ones_clear_low [OF pos, folded unat_clear_lowest]
  show ?case
  proof (cases "n AND (n - 1) = 0")
    case True
    then show ?thesis using step by (simp add: count_loop.simps [of r n])
  next
    case False
    have "0 < ones (unat (n AND (n - 1)))" using False by (simp add: neq0_conv [symmetric] unat_eq_0)
    then obtain j where j: "ones (unat (n AND (n - 1))) = Suc j" by (cases "ones (unat (n AND (n - 1)))") auto
    have "ones (unat n) = Suc (Suc j)" using step j by simp
    then show ?thesis
      using "1.IH" [OF refl False False] False j
      by (simp add: count_loop.simps [of r n] Let_def del: count_loop.simps)
  qed
qed

section \<open>Logarithms\<close>

text \<open>\<open>log_inv N b (p, n)\<close>: what is left of \<open>N\<close> after \<open>p\<close> shifts is \<open>n\<close>, and it has at most
  \<open>b\<close> bits.\<close>

definition log_inv :: "u32 \<Rightarrow> nat \<Rightarrow> int \<times> u32 \<Rightarrow> bool" where
  "log_inv N b pn \<longleftrightarrow> 0 \<le> fst pn \<and> 0 < unat (snd pn) \<and> unat (snd pn) < 2 ^ b \<and>
     unat (snd pn) = unat N div 2 ^ nat (fst pn)"

lemma unat_drop_bit: "unat (drop_bit k (n :: 'a::len word)) = unat n div 2 ^ k"
  unfolding unat_drop_bit_eq by (rule drop_bit_eq_div)

lemma and_high_bits:
  assumes "unat (n :: u32) < 2 ^ (k + k)"
  shows "n AND push_bit k (mask k) \<noteq> 0 \<longleftrightarrow> 2 ^ k \<le> unat n"
proof -
  have "n AND push_bit k (mask k) = push_bit k (drop_bit k n)"
  proof (rule bit_word_eqI)
    fix i assume "i < LENGTH(32)"
    have "\<not> bit n i" if "k + k \<le> i"
    proof -
      have "unat n < 2 ^ i" using assms that by (meson less_le_trans one_le_numeral power_increasing)
      then have "\<not> bit (unat n) i" by (metis bit_take_bit_iff less_irrefl take_bit_nat_eq_self)
      then show ?thesis using \<open>i < LENGTH(32)\<close> by (simp add: bit_simps)
    qed
    then show "bit (n AND push_bit k (mask k)) i = bit (push_bit k (drop_bit k n)) i"
      by (auto simp: bit_simps) (meson less_diff_conv2 not_le)
  qed
  moreover have "drop_bit k (push_bit k (drop_bit k n)) = drop_bit k n"
    by (rule bit_word_eqI) (auto simp: bit_simps dest: bit_imp_le_length)
  then have "push_bit k (drop_bit k n) = 0 \<longleftrightarrow> drop_bit k n = 0"
    by (metis drop_bit_of_0 push_bit_of_0)
  moreover have "drop_bit k n = 0 \<longleftrightarrow> unat n < 2 ^ k"
    using unat_drop_bit [of k n] by (auto simp: div_eq_0_iff simp flip: unat_eq_0)
  ultimately show ?thesis by (simp add: not_less)
qed

lemma log_step_inv:
  assumes inv: "log_inv N (k + k) pn" and m: "m = push_bit k (mask k)"
  shows "log_inv N k (log_step m k pn)"
proof (cases "snd pn AND m \<noteq> 0")
  case True
  then have ge: "2 ^ k \<le> unat (snd pn)" using and_high_bits inv m by (simp add: log_inv_def)
  have pos: "0 < unat (snd pn) div 2 ^ k" using ge by (simp add: div_greater_zero_iff)
  have less: "unat (snd pn) div 2 ^ k < 2 ^ k"
    using inv by (simp add: log_inv_def less_mult_imp_div_less power_add)
  have "unat (snd pn) div 2 ^ k = unat N div 2 ^ nat (fst pn + int k)"
    using inv by (simp add: log_inv_def div_mult2_eq [symmetric] power_add [symmetric] nat_add_distrib)
  with pos less True inv show ?thesis
    by (simp add: log_inv_def log_step_def unat_drop_bit)
next
  case False
  then have "unat (snd pn) < 2 ^ k" using and_high_bits inv m by (fastforce simp: log_inv_def)
  with False inv show ?thesis by (simp add: log_inv_def log_step_def)
qed

text \<open>The value of \<^verbatim>\<open>floorLog2\<close> is the exponent of the largest power of two that is not
  above the argument.\<close>

lemma floorLog2_bounds:
  assumes "n \<noteq> 0"
  shows "0 \<le> floorLog2 n" "2 ^ nat (floorLog2 n) \<le> unat n" "unat n < 2 ^ Suc (nat (floorLog2 n))"
proof -
  have "log_inv n 32 (0, n)" using assms unsigned_less [of n] by (simp add: log_inv_def unat_gt_0)
  then have "log_inv n 16 (log_step 0xffff0000 16 (0, n))"
    by (intro log_step_inv) (simp_all add: mask_eq_exp_minus_1)
  then have "log_inv n 8 (log_step 0x0000ff00 8 (log_step 0xffff0000 16 (0, n)))"
    by (intro log_step_inv) (simp_all add: mask_eq_exp_minus_1)
  then have "log_inv n 4 (log_step 0x000000f0 4 (log_step 0x0000ff00 8 (log_step 0xffff0000 16 (0, n))))"
    by (intro log_step_inv) (simp_all add: mask_eq_exp_minus_1)
  then have 2: "log_inv n 2 (log_step 0x0000000c 2 (log_step 0x000000f0 4
      (log_step 0x0000ff00 8 (log_step 0xffff0000 16 (0, n)))))" (is "log_inv n 2 ?pn")
    by (intro log_step_inv) (simp_all add: mask_eq_exp_minus_1)
  obtain p x where px: "?pn = (p, x)" by fastforce
  have "log_inv n (1 + 1) ?pn" using 2 by (simp add: numeral_2_eq_2)
  then have "log_inv n 1 (log_step 2 1 ?pn)"
    by (intro log_step_inv) (simp_all add: mask_eq_exp_minus_1)
  moreover have "fst (log_step 2 1 ?pn) = floorLog2 n"
    unfolding floorLog2_def Let_def log_step_def [of 2 1 ?pn] using assms by simp
  ultimately have p: "0 \<le> floorLog2 n" "unat n div 2 ^ nat (floorLog2 n) = 1"
    by (auto simp: log_inv_def)
  show "0 \<le> floorLog2 n" by (rule p)
  show "2 ^ nat (floorLog2 n) \<le> unat n" using p(2) by (metis div_less not_le zero_neq_one)
  show "unat n < 2 ^ Suc (nat (floorLog2 n))"
    using p(2) dividend_less_div_times [of "2 ^ nat (floorLog2 n)" "unat n"] by simp
qed

text \<open>Logarithm of a natural number, the value of \<^verbatim>\<open>(UInt32) std::log2(x)\<close> for \<open>x\<close> in the
  range of \<^verbatim>\<open>UInt32\<close>.\<close>

fun log2_nat :: "nat \<Rightarrow> nat" where
  "log2_nat n = (if n < 2 then 0 else Suc (log2_nat (n div 2)))"

declare log2_nat.simps [simp del]

lemma log2_nat_unique: "2 ^ k \<le> n \<Longrightarrow> n < 2 ^ Suc k \<Longrightarrow> log2_nat n = k"
proof (induction k arbitrary: n)
  case (Suc k)
  have "2 ^ k \<le> n div 2" "n div 2 < 2 ^ Suc k" using Suc.prems by auto
  from Suc.IH [OF this] Suc.prems(1) show ?case
    using le_trans [of 2 "2 ^ Suc k" n] by (simp add: log2_nat.simps [of n])
qed (simp add: log2_nat.simps)

lemma log2_nat_power [simp]: "log2_nat (2 ^ k) = k"
  by (rule log2_nat_unique) simp_all

lemma floorLog2_eq: "n \<noteq> 0 \<Longrightarrow> floorLog2 n = int (log2_nat (unat n))"
  using floorLog2_bounds [of n] log2_nat_unique [of "nat (floorLog2 n)" "unat n"] by simp

lemma ceilLog2_bounds:
  assumes "1 < n"
  shows "unat n \<le> 2 ^ nat (ceilLog2 n)" "2 ^ nat (ceilLog2 n) < 2 * unat n"
proof -
  have n: "n \<noteq> 0" "n - 1 \<noteq> 0" using assms by auto
  have u: "unat (n - 1) = unat n - 1" "0 < unat n" using n by (simp_all add: unat_minus_one unat_gt_0)
  note b = floorLog2_bounds [OF n(2)]
  have c: "nat (ceilLog2 n) = Suc (nat (floorLog2 (n - 1)))"
    using b(1) by (simp add: ceilLog2_def nat_add_distrib)
  show "unat n \<le> 2 ^ nat (ceilLog2 n)" using b(3) u by (simp add: c)
  show "2 ^ nat (ceilLog2 n) < 2 * unat n" using b(2) u by (simp add: c)
qed

section \<open>Properties\<close>

text \<open>The bit tricks compute what their names say: \<^verbatim>\<open>isPower2\<close> holds for 0 and the powers
  of two, \<^verbatim>\<open>floorLog2\<close> is -1 for 0 and else the integer logarithm, \<^verbatim>\<open>ceilLog2\<close> is the
  least exponent whose power of two reaches the argument.\<close>

lemma utils_log2:
  "(isPower2 n \<longleftrightarrow> n = 0 \<or> (\<exists>k. unat n = 2 ^ k)) \<and>
   floorLog2 n = (if n = 0 then -1 else int (log2_nat (unat n))) \<and>
   ceilLog2 n = (if n = 0 then 32 else if n = 1 then 0 else int (LEAST k. unat n \<le> 2 ^ k))"
proof (intro conjI)
  show "isPower2 n \<longleftrightarrow> n = 0 \<or> (\<exists>k. unat n = 2 ^ k)"
  proof (cases "n = 0")
    case False
    then have "0 < unat n" by (simp add: unat_gt_0)
    from clear_low_eq_0 [OF this] unat_clear_lowest [of n] False show ?thesis
      unfolding isPower2_def by (metis unat_eq_0)
  qed (simp add: isPower2_def)
  show "floorLog2 n = (if n = 0 then -1 else int (log2_nat (unat n)))"
    using floorLog2_eq by (simp add: floorLog2_def)
  have "(LEAST k. unat n \<le> 2 ^ k) = nat (ceilLog2 n)" if "1 < n"
  proof (rule Least_equality)
    fix k assume "unat n \<le> 2 ^ k"
    then have "(2 :: nat) ^ nat (ceilLog2 n) < 2 ^ Suc k" using ceilLog2_bounds(2) [OF that] by simp
    then show "nat (ceilLog2 n) \<le> k" using power_less_imp_less_exp [of 2] by (metis less_Suc_eq_le one_less_numeral_iff semiring_norm(76))
  qed (rule ceilLog2_bounds [OF that])
  moreover have "0 \<le> ceilLog2 n" if "1 < n"
    using that floorLog2_bounds(1) [of "n - 1"] by (auto simp: ceilLog2_def)
  moreover have "1 < n" if "n \<noteq> 0" "n \<noteq> 1" using that by unat_arith
  moreover have "ceilLog2 0 = 32"
    using floorLog2_eq [of "- 1"] log2_nat_unique [of 31 "unat (- 1 :: u32)"]
    by (simp add: ceilLog2_def unsigned_minus_1_eq_mask mask_eq_exp_minus_1)
  moreover have "ceilLog2 1 = 0" by (simp add: ceilLog2_def floorLog2_def)
  ultimately show "ceilLog2 n = (if n = 0 then 32 else if n = 1 then 0 else int (LEAST k. unat n \<le> 2 ^ k))"
    by auto
qed

text \<open>\<^verbatim>\<open>countBits\<close> ends on every input and returns the number of one bits.\<close>

lemma countBits_ones: "unat (countBits n) = ones (unat n)"
proof (cases "n = 0")
  case False
  then have pos: "0 < ones (unat n)" by (simp add: neq0_conv [symmetric] unat_eq_0)
  have "ones (unat n) \<le> 64" using ones_less [of "unat n" 64] unsigned_less [of n] by simp
  then have "unat (of_nat (ones (unat n)) :: u64) = ones (unat n)" by (simp add: unat_of_nat)
  moreover have "countBits n = of_nat (ones (unat n))"
    using False pos by (cases "ones (unat n)") (simp_all add: countBits_def count_loop_ones)
  ultimately show ?thesis by simp
qed (simp add: countBits_def)

end
