(* ===== verification/Address.thy ===== *)
theory Address
  imports Dish Utils
begin

text \<open>
  Address arithmetic: \<^verbatim>\<open>AddressHomeLookup\<close> (\<^verbatim>\<open>memory_subsystem/address_home_lookup.cc\<close>),
  which distributes addresses over home nodes, \<^verbatim>\<open>CacheBase\<close> (\<^verbatim>\<open>cache/cache_base.cc\<close>) and
  \<^verbatim>\<open>Cache::splitAddress\<close>, \<^verbatim>\<open>Cache::tagToAddress\<close> (\<^verbatim>\<open>cache/cache.cc\<close>). Addresses are
  64-bit words.
\<close>

unbundle bit_operations_syntax

section \<open>Home nodes\<close>

record address_home_lookup =
  m_ahl_param :: nat
  m_ahl_mask :: u64
  m_core_list :: "int list"
  m_total_modules :: nat
  m_ahl_block_size :: nat

definition AddressHomeLookup :: "nat \<Rightarrow> int list \<Rightarrow> nat \<Rightarrow> address_home_lookup res" where
  "AddressHomeLookup ahl_param core_list cache_block_size =
     (if 31 \<le> ahl_param then Inl Undefined
      else if \<not> (2 ^ ahl_param \<ge> sint (of_nat cache_block_size :: u32)) then Inl Assert_Failed
      else Inr \<lparr> m_ahl_param = ahl_param, m_ahl_mask = push_bit ahl_param 1 - 1,
                 m_core_list = core_list, m_total_modules = length core_list,
                 m_ahl_block_size = cache_block_size \<rparr>)"

definition getHome :: "address_home_lookup \<Rightarrow> u64 \<Rightarrow> int res" where
  "getHome h address =
     (if m_total_modules h = 0 then Inl Undefined
      else
        let module_num =
              sint (ucast (drop_bit (m_ahl_param h) address mod of_nat (m_total_modules h)) :: u32)
        in if \<not> (0 \<le> module_num \<and> module_num < sint (of_nat (m_total_modules h) :: u32))
           then Inl Assert_Failed
           else nth_r (m_core_list h) (nat module_num))"

definition getLinearBlock :: "address_home_lookup \<Rightarrow> u64 \<Rightarrow> u64 res" where
  "getLinearBlock h address =
     (if m_total_modules h = 0 then Inl Undefined
      else Inr (drop_bit (m_ahl_param h) address div of_nat (m_total_modules h)))"

definition getLinearAddress :: "address_home_lookup \<Rightarrow> u64 \<Rightarrow> u64 res" where
  "getLinearAddress h address =
     rbind (getLinearBlock h address) (\<lambda>blk.
     Inr (push_bit (m_ahl_param h) blk OR (address AND m_ahl_mask h)))"

section \<open>Cache geometry\<close>

datatype access_t = INVALID_ACCESS_TYPE | LOAD | STORE
datatype cache_t = INVALID_CACHE_TYPE | PR_L1_CACHE | PR_L2_CACHE | SHARED_CACHE
datatype hash_t = INVALID_HASH_TYPE | HASH_MASK | HASH_MOD | HASH_RNG1_MOD | HASH_RNG2_MOD

datatype ReplacementPolicy =
    ROUND_ROBIN | LRU | LRU_QBS | NRU | MRU | NMRU | PLRU | SRRIP | SRRIP_QBS | RANDOM

record cache_base =
  m_cache_size :: u64
  m_cb_associativity :: nat
  m_cb_blocksize :: nat
  m_hash :: hash_t
  m_num_sets :: nat
  m_ahl :: "address_home_lookup option"
  m_log_blocksize :: int

definition CacheBase ::
    "nat \<Rightarrow> nat \<Rightarrow> nat \<Rightarrow> hash_t \<Rightarrow> address_home_lookup option \<Rightarrow> cache_base res" where
  "CacheBase num_sets associativity blocksize hash ahl =
     (if floorLog2 (of_nat num_sets) < 0 then Inl Undefined
      else if \<not> (num_sets = 2 ^ nat (floorLog2 (of_nat num_sets)) \<or> hash \<noteq> HASH_MASK)
      then Inl Assert_Failed
      else Inr \<lparr> m_cache_size = of_nat num_sets * of_nat associativity * of_nat blocksize,
                 m_cb_associativity = associativity, m_cb_blocksize = blocksize,
                 m_hash = hash, m_num_sets = num_sets, m_ahl = ahl,
                 m_log_blocksize = floorLog2 (of_nat blocksize) \<rparr>)"

definition parseAddressHash :: "string \<Rightarrow> hash_t res" where
  "parseAddressHash hash_name =
     (if hash_name = ''mask'' then Inr HASH_MASK
      else if hash_name = ''mod'' then Inr HASH_MOD
      else if hash_name = ''rng1_mod'' then Inr HASH_RNG1_MOD
      else if hash_name = ''rng2_mod'' then Inr HASH_RNG2_MOD
      else Inl Log_Error)"

text \<open>The five values \<^verbatim>\<open>splitAddress\<close> can store through its pointer arguments.\<close>

record split =
  s_tag :: u64
  s_supertag :: u64
  s_set_index :: nat
  s_block_id :: nat
  s_offset :: nat

definition splitAddress :: "cache_base \<Rightarrow> u64 \<Rightarrow> split res" where
  "splitAddress cb addr =
     (if m_cb_blocksize cb = 0 then Inl Undefined
      else
        let log2_superblock_size = log2_nat SUPERBLOCK_SIZE;
            log2_blocksize = log2_nat (m_cb_blocksize cb)
        in rbind (case m_ahl cb of None \<Rightarrow> Inr addr | Some h \<Rightarrow> getLinearAddress h addr) (\<lambda>linear_addr.
           let superblock_num = drop_bit log2_blocksize linear_addr;
               block_num = drop_bit SUPERBLOCK_SIZE superblock_num
           in if m_hash cb = HASH_MASK
              then Inr \<lparr> s_tag = drop_bit log2_blocksize addr,
                         s_supertag = drop_bit log2_superblock_size superblock_num,
                         s_set_index = unat (block_num AND of_nat (sub32 (m_num_sets cb) 1)),
                         s_block_id = unat (superblock_num AND of_nat (SUPERBLOCK_SIZE - 1)),
                         s_offset = unat (addr AND of_nat (m_cb_blocksize cb - 1)) \<rparr>
              else Inl Log_Error))"

definition tagToAddress :: "cache_base \<Rightarrow> u64 \<Rightarrow> u64 res" where
  "tagToAddress cb tag =
     (if m_cb_blocksize cb = 0 then Inl Undefined
      else Inr (push_bit (log2_nat (m_cb_blocksize cb)) tag))"

section \<open>Home nodes partition the addresses\<close>

lemma AddressHomeLookup_eq_Inr:
  "AddressHomeLookup p cs bs = Inr h \<Longrightarrow>
     m_ahl_param h = p \<and> p < 31 \<and> m_ahl_mask h = mask p \<and> m_core_list h = cs \<and>
     m_total_modules h = length cs"
  by (auto simp: AddressHomeLookup_def mask_eq_exp_minus_1 push_bit_eq_mult split: if_splits)

lemma take_bit_self: "unat (x :: 'a::len word) < 2 ^ n \<Longrightarrow> take_bit n x = x"
  by (rule word_unat_eq_iff [THEN iffD2]) (simp add: unsigned_take_bit_eq take_bit_nat_eq_self)

lemma linear_parts:
  fixes x y a b :: u64
  assumes "push_bit p x OR (a AND mask p) = push_bit p y OR (b AND mask p)" "p < 64"
    and "unat x < 2 ^ (64 - p)" "unat y < 2 ^ (64 - p)"
  shows "x = y" "a AND mask p = b AND mask p"
proof -
  have "a AND mask p = (push_bit p x OR (a AND mask p)) AND mask p"
    by (rule bit_word_eqI) (auto simp: bit_simps)
  moreover have "b AND mask p = (push_bit p y OR (b AND mask p)) AND mask p"
    by (rule bit_word_eqI) (auto simp: bit_simps)
  ultimately show "a AND mask p = b AND mask p" using assms(1) by simp
  have "take_bit (64 - p) x = drop_bit p (push_bit p x OR (a AND mask p))"
    using assms(2) by (intro bit_word_eqI) (auto simp: bit_simps)
  moreover have "take_bit (64 - p) y = drop_bit p (push_bit p y OR (b AND mask p))"
    using assms(2) by (intro bit_word_eqI) (auto simp: bit_simps)
  moreover have "take_bit (64 - p) x = x" "take_bit (64 - p) y = y"
    using assms(3,4) by (simp_all add: take_bit_self)
  ultimately show "x = y" using assms(1) by simp
qed

lemma word_split: "push_bit p (drop_bit p x) OR (x AND mask p) = (x :: 'a::len word)"
  by (rule bit_word_eqI) (auto simp: bit_simps dest: bit_imp_le_length)

lemma home_module:
  assumes "n < 2 ^ 31" "0 < n"
  shows "sint (ucast ((x :: u64) mod of_nat n) :: u32) = int (unat x mod n)"
    "sint (of_nat n :: u32) = int n"
proof -
  have n: "unat (of_nat n :: u64) = n" using assms(1) by (simp add: unat_of_nat)
  have small: "sint (of_nat m :: u32) = int m" if "m < 2 ^ 31" for m
    using that by (simp add: signed_of_nat signed_take_bit_int_eq_self)
  then show "sint (of_nat n :: u32) = int n" using assms(1) by blast
  have "(ucast (x mod of_nat n) :: u32) = of_nat (unat x mod n)"
    using n by (simp add: word_unat_eq_iff unsigned_ucast_eq unsigned_of_nat unat_mod)
  moreover have "unat x mod n < 2 ^ 31" using assms by (meson less_trans mod_less_divisor)
  ultimately show "sint (ucast (x mod of_nat n) :: u32) = int (unat x mod n)" using small by simp
qed

lemma getHome_eq:
  assumes "AddressHomeLookup p cs bs = Inr h" "cs \<noteq> []" "length cs < 2 ^ 31"
  shows "getHome h a = Inr (cs ! (unat (drop_bit p a) mod length cs))"
proof -
  note h = AddressHomeLookup_eq_Inr [OF assms(1)]
  have n: "0 < length cs" using assms(2) by simp
  note m = home_module [OF assms(3) n]
  show ?thesis using h n by (simp add: getHome_def m Let_def)
qed

text \<open>C31: address interleaving over distinct nodes loses nothing. Every address has a home among the configured
  nodes, and a home node together with the node-local linear address identifies the address:
  two addresses with the same home and the same linear address are equal.\<close>

theorem home_and_linear_address_injective:
  assumes h: "AddressHomeLookup p cs bs = Inr h" and cs: "cs \<noteq> []" "length cs < 2 ^ 31" "distinct cs"
    and home: "getHome h a = getHome h b" and lin: "getLinearAddress h a = getLinearAddress h b"
  shows "a = b \<and> (\<exists>c \<in> set cs. getHome h a = Inr c)"
proof -
  note hp = AddressHomeLookup_eq_Inr [OF h]
  let ?n = "length cs" and ?x = "drop_bit p a" and ?y = "drop_bit p b"
  have n: "0 < ?n" using cs by simp
  have un: "unat (of_nat ?n :: u64) = ?n" using cs(2) by (simp add: unat_of_nat)
  have lt: "unat (drop_bit p z) < 2 ^ (64 - p)" for z :: u64
  proof -
    have "unat z < 2 ^ (64 - p) * 2 ^ p"
      using unsigned_less [of z, where ?'a = nat] hp by (simp add: power_add [symmetric])
    then show ?thesis by (simp add: unat_drop_bit less_mult_imp_div_less)
  qed
  have ltd: "unat (drop_bit p z div of_nat ?n) < 2 ^ (64 - p)" for z :: u64
    using lt [of z] by (simp add: unat_div un) (meson div_le_dividend le_less_trans)
  have "push_bit p (?x div of_nat ?n) OR (a AND mask p) = push_bit p (?y div of_nat ?n) OR (b AND mask p)"
    using lin hp n by (simp add: getLinearAddress_def getLinearBlock_def)
  from linear_parts [OF this _ ltd ltd] hp have
    q: "?x div of_nat ?n = ?y div of_nat ?n" and low: "a AND mask p = b AND mask p" by auto
  have q': "unat ?x div ?n = unat ?y div ?n" using q unat_div un by metis
  have "unat ?x mod ?n = unat ?y mod ?n"
    using home getHome_eq [OF h cs(1,2)] nth_eq_iff_index_eq [OF cs(3)] n by simp
  with q' have "unat ?x = unat ?y" by (metis div_mult_mod_eq)
  then have "?x = ?y" by (simp add: word_unat_eq_iff)
  then have "a = b" using low by (metis word_split)
  moreover have "\<exists>c \<in> set cs. getHome h a = Inr c" using getHome_eq [OF h cs(1,2)] n by simp
  ultimately show ?thesis by simp
qed

definition ex_ahl :: address_home_lookup where
  "ex_ahl = \<lparr> m_ahl_param = 6, m_ahl_mask = 63, m_core_list = [0, 4], m_total_modules = 2,
     m_ahl_block_size = 64 \<rparr>"

theorem home_and_linear_address_injective_witness:
  "AddressHomeLookup 6 [0, 4] 64 = Inr ex_ahl \<and> (\<exists>c \<in> {0, 4}. getHome ex_ahl 0x1234 = Inr c)"
proof -
  have h: "AddressHomeLookup 6 [0, 4] 64 = Inr ex_ahl"
    by (simp add: AddressHomeLookup_def ex_ahl_def push_bit_eq_mult)
  from home_and_linear_address_injective [OF h, of "0x1234" "0x1234"] h show ?thesis by simp
qed

section \<open>Splitting an address\<close>

text \<open>The geometries the simulator is configured with: sizes are powers of two, sets are selected
  by a mask, and home nodes interleave at a granularity no finer than a line.\<close>

definition geometry_ok :: "cache_base \<Rightarrow> bool" where
  "geometry_ok cb \<longleftrightarrow> m_hash cb = HASH_MASK \<and>
     (\<exists>k < 32. m_cb_blocksize cb = 2 ^ k) \<and> (\<exists>k < 32. m_num_sets cb = 2 ^ k) \<and>
     (case m_ahl cb of None \<Rightarrow> True
      | Some h \<Rightarrow> 0 < m_total_modules h \<and> log2_nat (m_cb_blocksize cb) \<le> m_ahl_param h \<and>
          m_ahl_param h < 31 \<and> m_ahl_mask h = mask (m_ahl_param h))"

definition linear :: "cache_base \<Rightarrow> u64 \<Rightarrow> u64" where
  "linear cb a = (case m_ahl cb of None \<Rightarrow> a
     | Some h \<Rightarrow> push_bit (m_ahl_param h)
         (drop_bit (m_ahl_param h) a div of_nat (m_total_modules h)) OR (a AND m_ahl_mask h))"

abbreviation log_bs :: "cache_base \<Rightarrow> nat" where
  "log_bs cb \<equiv> log2_nat (m_cb_blocksize cb)"

lemma geometry_log: "geometry_ok cb \<Longrightarrow> m_cb_blocksize cb = 2 ^ log_bs cb \<and> log_bs cb < 32"
  by (auto simp: geometry_ok_def)

lemma mask_word: "k < 64 \<Longrightarrow> (of_nat (2 ^ k - 1) :: u64) = mask k"
  by (simp add: mask_eq_exp_minus_1 of_nat_diff)

lemma geometry_masks:
  assumes "geometry_ok cb"
  shows "(of_nat (m_cb_blocksize cb - 1) :: u64) = mask (log_bs cb)"
    and "(of_nat (sub32 (m_num_sets cb) 1) :: u64) = mask (log2_nat (m_num_sets cb))"
    and "m_num_sets cb = 2 ^ log2_nat (m_num_sets cb)"
proof -
  show "(of_nat (m_cb_blocksize cb - 1) :: u64) = mask (log_bs cb)"
    using geometry_log [OF assms] mask_word [of "log_bs cb"] by simp
  from assms obtain k where k: "k < 32" "m_num_sets cb = 2 ^ k" by (auto simp: geometry_ok_def)
  have "(2 :: nat) ^ k < 2 ^ 32" using k(1) by (rule power_strict_increasing) simp
  then have "sub32 (2 ^ k) 1 = 2 ^ k - 1" by (intro sub32_exact) simp_all
  then show "(of_nat (sub32 (m_num_sets cb) 1) :: u64) = mask (log2_nat (m_num_sets cb))"
    using k mask_word [of k] by simp
  show "m_num_sets cb = 2 ^ log2_nat (m_num_sets cb)" using k by simp
qed

lemma splitAddress_eq:
  assumes "geometry_ok cb"
  shows "splitAddress cb a = Inr
    \<lparr> s_tag = drop_bit (log_bs cb) a,
      s_supertag = drop_bit (log_bs cb + 2) (linear cb a),
      s_set_index = unat (drop_bit (log_bs cb + 4) (linear cb a) AND mask (log2_nat (m_num_sets cb))),
      s_block_id = unat (drop_bit (log_bs cb) (linear cb a) AND 3),
      s_offset = unat (a AND mask (log_bs cb)) \<rparr>"
proof -
  note geo = geometry_masks [OF assms]
  have l2: "log2_nat SUPERBLOCK_SIZE = 2" using log2_nat_power [of 2] by (simp add: dish_consts)
  have bs: "m_cb_blocksize cb \<noteq> 0" "m_hash cb = HASH_MASK" using assms by (auto simp: geometry_ok_def)
  have lin: "(case m_ahl cb of None \<Rightarrow> Inr a | Some h \<Rightarrow> getLinearAddress h a) = Inr (linear cb a)"
    using assms by (cases "m_ahl cb")
      (auto simp: geometry_ok_def linear_def getLinearAddress_def getLinearBlock_def)
  show ?thesis
    unfolding splitAddress_def Let_def lin l2 geo(1,2) using bs
    by (simp add: SUPERBLOCK_SIZE_def drop_bit_drop_bit add.commute)
qed

text \<open>The address of the line, and that everything but the offset depends on the line only.\<close>

lemma linear_line:
  assumes "geometry_ok cb" "drop_bit (log_bs cb) a = drop_bit (log_bs cb) b"
  shows "drop_bit (log_bs cb) (linear cb a) = drop_bit (log_bs cb) (linear cb b)"
proof (cases "m_ahl cb")
  case (Some h)
  let ?k = "log_bs cb" and ?p = "m_ahl_param h"
  have kp: "?k \<le> ?p" "?p < 31" "m_ahl_mask h = mask ?p"
    using assms(1) Some by (auto simp: geometry_ok_def)
  have bits: "bit a i = bit b i" if "?k \<le> i" for i
  proof -
    have "bit (drop_bit ?k a) (i - ?k) = bit (drop_bit ?k b) (i - ?k)" using assms(2) by simp
    then show ?thesis using that by (simp add: bit_drop_bit_eq)
  qed
  have up: "drop_bit ?p a = drop_bit ?p b"
    using bits kp(1) by (intro bit_word_eqI) (simp add: bit_simps)
  show ?thesis using Some kp bits up by (intro bit_word_eqI) (auto simp: linear_def bit_simps)
qed (use assms in \<open>simp add: linear_def\<close>)

definition line_addr :: "cache_base \<Rightarrow> u64 \<Rightarrow> u64" where
  "line_addr cb a = push_bit (log_bs cb) (drop_bit (log_bs cb) a)"

lemma drop_line_addr: "drop_bit (log_bs cb) (line_addr cb a) = drop_bit (log_bs cb) a"
  by (rule bit_word_eqI) (auto simp: line_addr_def bit_simps dest: bit_imp_le_length)

lemma split_line_addr:
  assumes "geometry_ok cb" "splitAddress cb a = Inr sp"
  shows "splitAddress cb (line_addr cb a) = Inr (sp\<lparr> s_offset := 0 \<rparr>)"
proof -
  have l: "drop_bit (log_bs cb) (linear cb (line_addr cb a)) = drop_bit (log_bs cb) (linear cb a)"
    by (rule linear_line [OF assms(1) drop_line_addr])
  then have d: "drop_bit (log_bs cb + j) (linear cb (line_addr cb a)) = drop_bit (log_bs cb + j) (linear cb a)" for j
  proof -
    have "drop_bit j (drop_bit (log_bs cb) (linear cb (line_addr cb a))) =
        drop_bit j (drop_bit (log_bs cb) (linear cb a))" using l by simp
    then show ?thesis by (simp add: drop_bit_drop_bit add.commute)
  qed
  have "line_addr cb a AND mask (log_bs cb) = 0"
    by (rule bit_word_eqI) (auto simp: line_addr_def bit_simps)
  then show ?thesis
    using assms(2) l d [of 2] d [of 4] by (auto simp: splitAddress_eq [OF assms(1)] drop_line_addr)
qed

lemma and_mask_lt: "k < 64 \<Longrightarrow> unat ((w :: u64) AND mask k) < 2 ^ k"
  by (simp add: take_bit_eq_mask [symmetric] unsigned_take_bit_eq)

text \<open>C24: splitting an address into tag, set, position in the superblock and offset is exact:
  the tag gives back the address of the line and the offset the rest, the parts are in range, and
  the tag alone determines the superblock, the set and the position, which is what the insertion
  of a line relies on when it recomputes them from the tag.\<close>

theorem split_address_roundtrip:
  assumes geo: "geometry_ok cb" and sp: "splitAddress cb addr = Inr sp"
  shows "\<exists>base. tagToAddress cb (s_tag sp) = Inr base \<and> base + of_nat (s_offset sp) = addr \<and>
    splitAddress cb base = Inr (sp\<lparr> s_offset := 0 \<rparr>) \<and>
    s_offset sp < m_cb_blocksize cb \<and> s_set_index sp < m_num_sets cb \<and> s_block_id sp < SUPERBLOCK_SIZE"
proof (intro exI conjI)
  note lt = and_mask_lt
  note sp' = sp [unfolded splitAddress_eq [OF geo]]
  have bs: "m_cb_blocksize cb = 2 ^ log_bs cb" "log_bs cb < 32" using geometry_log [OF geo] by auto
  have ns: "m_num_sets cb = 2 ^ log2_nat (m_num_sets cb)" by (rule geometry_masks(3) [OF geo])
  show "tagToAddress cb (s_tag sp) = Inr (line_addr cb addr)"
    using sp' geo by (auto simp: tagToAddress_def line_addr_def geometry_ok_def)
  show "line_addr cb addr + of_nat (s_offset sp) = addr"
  proof -
    have "line_addr cb addr AND (addr AND mask (log_bs cb)) = 0"
      by (rule bit_word_eqI) (auto simp: line_addr_def bit_simps)
    then have "line_addr cb addr + (addr AND mask (log_bs cb)) =
        line_addr cb addr OR (addr AND mask (log_bs cb))"
      by (rule disjunctive_add_eq_or)
    then show ?thesis using sp' word_split [of "log_bs cb" addr] by (auto simp: line_addr_def)
  qed
  show "splitAddress cb (line_addr cb addr) = Inr (sp\<lparr> s_offset := 0 \<rparr>)"
    by (rule split_line_addr [OF geo sp])
  show "s_offset sp < m_cb_blocksize cb"
    by (subst bs(1)) (use sp' bs(2) in \<open>auto intro!: lt\<close>)
  have "log2_nat (m_num_sets cb) < 64" using geo by (auto simp: geometry_ok_def)
  then show "s_set_index sp < m_num_sets cb" by (subst ns) (use sp' in \<open>auto intro!: lt\<close>)
  show "s_block_id sp < SUPERBLOCK_SIZE"
    using sp' lt [of 2] by (auto simp: dish_consts mask_eq_exp_minus_1)
qed

text \<open>A 64-set cache of 64-byte lines, without and with interleaved home nodes.\<close>

definition ex_cb :: cache_base where
  "ex_cb = \<lparr> m_cache_size = 64 * 4 * 64, m_cb_associativity = 4, m_cb_blocksize = 64,
     m_hash = HASH_MASK, m_num_sets = 64, m_ahl = None, m_log_blocksize = 6 \<rparr>"

lemma ex_log_bs: "log2_nat 64 = 6"
  using log2_nat_power [of 6] by simp

lemma ex_cb_ok: "geometry_ok ex_cb" "geometry_ok (ex_cb\<lparr> m_ahl := Some ex_ahl \<rparr>)"
proof -
  have "\<exists>k < 32. (64 :: nat) = 2 ^ k" by (intro exI [of _ 6]) simp
  then show "geometry_ok ex_cb" "geometry_ok (ex_cb\<lparr> m_ahl := Some ex_ahl \<rparr>)"
    by (auto simp: geometry_ok_def ex_cb_def ex_ahl_def ex_log_bs mask_eq_exp_minus_1)
qed

theorem split_address_roundtrip_witness:
  "\<exists>sp base. splitAddress (ex_cb\<lparr> m_ahl := Some ex_ahl \<rparr>) 0x12345 = Inr sp \<and>
     tagToAddress (ex_cb\<lparr> m_ahl := Some ex_ahl \<rparr>) (s_tag sp) = Inr base \<and>
     base + of_nat (s_offset sp) = 0x12345"
  using split_address_roundtrip [OF ex_cb_ok(2)] splitAddress_eq [OF ex_cb_ok(2), of "0x12345"] by blast

text \<open>C32: the lines of one superblock fall into one set, so a set can keep them in one frame; without
  interleaving the superblock and the position in it identify the line. The set index is taken from
  the superblock number without its two low bits, so four neighbouring superblocks share a set.\<close>

theorem superblock_in_one_set:
  assumes geo: "geometry_ok cb" and a: "splitAddress cb a = Inr sa" and b: "splitAddress cb b = Inr sb"
    and super: "s_supertag sa = s_supertag sb"
  shows "s_set_index sa = s_set_index sb \<and>
    s_set_index sa = unat (drop_bit 2 (s_supertag sa) AND mask (log2_nat (m_num_sets cb))) \<and>
    (m_ahl cb = None \<and> s_block_id sa = s_block_id sb \<longrightarrow> s_tag sa = s_tag sb)"
proof (intro conjI)
  note sa = a [unfolded splitAddress_eq [OF geo]] and sb = b [unfolded splitAddress_eq [OF geo]]
  have idx: "s_set_index s = unat (drop_bit 2 (s_supertag s) AND mask (log2_nat (m_num_sets cb)))"
    if "splitAddress cb x = Inr s" for x s
  proof -
    have "drop_bit 2 (drop_bit (log_bs cb + 2) y) = drop_bit (log_bs cb + 4) y" for y :: u64
      by (simp add: drop_bit_drop_bit eval_nat_numeral)
    then show ?thesis using that by (auto simp: splitAddress_eq [OF geo])
  qed
  show "s_set_index sa = s_set_index sb" using idx [OF a] idx [OF b] super by simp
  show "s_set_index sa = unat (drop_bit 2 (s_supertag sa) AND mask (log2_nat (m_num_sets cb)))"
    by (rule idx [OF a])
  show "m_ahl cb = None \<and> s_block_id sa = s_block_id sb \<longrightarrow> s_tag sa = s_tag sb"
  proof (intro impI, elim conjE)
    assume "m_ahl cb = None" "s_block_id sa = s_block_id sb"
    then have low: "s_tag sa AND mask 2 = s_tag sb AND mask 2"
      using sa sb by (auto simp: linear_def mask_eq_exp_minus_1 word_unat_eq_iff)
    have "drop_bit 2 (s_tag sa) = drop_bit 2 (s_tag sb)"
      using sa sb super \<open>m_ahl cb = None\<close> by (auto simp: linear_def drop_bit_drop_bit add.commute)
    with low show "s_tag sa = s_tag sb" by (metis word_split)
  qed
qed

theorem superblock_in_one_set_witness:
  "\<exists>sa sb. splitAddress ex_cb 0x1000 = Inr sa \<and> splitAddress ex_cb 0x10c0 = Inr sb \<and>
     s_set_index sa = s_set_index sb"
proof -
  from splitAddress_eq [OF ex_cb_ok(1)] obtain sa sb where
    s: "splitAddress ex_cb 0x1000 = Inr sa" "splitAddress ex_cb 0x10c0 = Inr sb" by blast
  have "s_supertag sa = s_supertag sb"
    using s [unfolded splitAddress_eq [OF ex_cb_ok(1)]] by (auto simp: linear_def ex_cb_def ex_log_bs)
  from superblock_in_one_set [OF ex_cb_ok(1) s this] s show ?thesis by blast
qed

text \<open>What a set works with: the superblock and the position of the line with a given tag.\<close>

definition tag_place :: "cache_base \<Rightarrow> u64 \<Rightarrow> u64 \<times> nat" where
  "tag_place cb tag =
     (let w = drop_bit (log_bs cb) (linear cb (push_bit (log_bs cb) tag))
      in (drop_bit 2 w, unat (w AND 3)))"

lemma tag_place_split:
  assumes "geometry_ok cb" "splitAddress cb a = Inr sp"
  shows "tag_place cb (s_tag sp) = (s_supertag sp, s_block_id sp)"
  using split_line_addr [OF assms] assms(2)
  by (auto simp: splitAddress_eq [OF assms(1)] tag_place_def line_addr_def drop_bit_drop_bit Let_def)

lemma tag_place_block: "snd (tag_place cb tag) < SUPERBLOCK_SIZE"
proof -
  have "unat (w AND 3) < 4" for w :: u64
    using and_mask_lt [of 2 w] by (simp add: mask_eq_exp_minus_1)
  then show ?thesis by (simp add: tag_place_def Let_def dish_consts)
qed

text \<open>The call \<^verbatim>\<open>splitAddress(tagToAddress(tag), ...)\<close> an insertion makes.\<close>

lemma split_of_tag:
  assumes "geometry_ok cb"
  shows "\<exists>addr sp. tagToAddress cb tag = Inr addr \<and> splitAddress cb addr = Inr sp \<and>
    (s_supertag sp, s_block_id sp) = tag_place cb tag"
  using assms
  by (auto simp: splitAddress_eq [OF assms] tagToAddress_def tag_place_def geometry_ok_def Let_def
      drop_bit_drop_bit)

end
