(* ===== verification/Cache_Block_Info.thy ===== *)
theory Cache_Block_Info
  imports Address
begin

text \<open>
  Per-line bookkeeping: \<^verbatim>\<open>CacheState\<close> (\<^verbatim>\<open>cache/cache_state.h\<close>), \<^verbatim>\<open>CacheBlockInfo\<close>
  (\<^verbatim>\<open>cache/cache_block_info.h\<close>, \<^verbatim>\<open>.cc\<close>) and its subclass \<^verbatim>\<open>PrL2CacheBlockInfo\<close>
  (\<^verbatim>\<open>cache/pr_l2_cache_block_info.cc\<close>). The dynamic class of an object is its field
  \<open>m_kind\<close>; the field \<open>m_cached_loc_bitvec\<close> belongs to the second-level class only. The classes for
  the first level and for shared caches add nothing (\<^verbatim>\<open>ENABLE_TRACK_SHARING_PREVCACHES\<close> is not
  defined).
\<close>

unbundle bit_operations_syntax

section \<open>Coherence states\<close>

datatype cstate_t = INVALID | SHARED | SHARED_UPGRADING | EXCLUSIVE | OWNED | MODIFIED
  | INVALID_COLD | INVALID_EVICT | INVALID_COHERENCY

definition readable :: "cstate_t \<Rightarrow> bool" where
  "readable s = (s = MODIFIED \<or> s = OWNED \<or> s = SHARED \<or> s = EXCLUSIVE)"

definition writable :: "cstate_t \<Rightarrow> bool" where
  "writable s = (s = MODIFIED)"

section \<open>Block infos\<close>

definition TAG_UNUSED :: u64 where "TAG_UNUSED = - 1"

datatype option_t = PREFETCH | WARMUP

fun option_bit :: "option_t \<Rightarrow> nat" where
  "option_bit PREFETCH = 0"
| "option_bit WARMUP = 1"

definition BitsUsedOffset :: nat where "BitsUsedOffset = 3"

record cache_block_info =
  m_kind :: cache_t
  m_tag :: u64
  m_cstate :: cstate_t
  m_owner :: u64
  m_used :: u8
  m_options :: u8
  m_cached_loc_bitvec :: u32

definition CacheBlockInfo :: "cache_t \<Rightarrow> u64 \<Rightarrow> cstate_t \<Rightarrow> u64 \<Rightarrow> cache_block_info" where
  "CacheBlockInfo kind tag cstate options =
     \<lparr> m_kind = kind, m_tag = tag, m_cstate = cstate, m_owner = 0, m_used = 0,
       m_options = ucast options, m_cached_loc_bitvec = 0 \<rparr>"

definition cbi_create :: "cache_t \<Rightarrow> cache_block_info res" where
  "cbi_create cache_type =
     (case cache_type of
        PR_L1_CACHE \<Rightarrow> Inr (CacheBlockInfo PR_L1_CACHE TAG_UNUSED INVALID 0)
      | PR_L2_CACHE \<Rightarrow> Inr (CacheBlockInfo PR_L2_CACHE TAG_UNUSED INVALID 0)
      | SHARED_CACHE \<Rightarrow> Inr (CacheBlockInfo SHARED_CACHE TAG_UNUSED INVALID 0)
      | INVALID_CACHE_TYPE \<Rightarrow> Inl Log_Error)"

definition cbi_isValid :: "cache_block_info \<Rightarrow> bool" where
  "cbi_isValid i = (m_tag i \<noteq> TAG_UNUSED)"

definition hasOption :: "cache_block_info \<Rightarrow> option_t \<Rightarrow> bool" where
  "hasOption i opt = (m_options i AND push_bit (option_bit opt) 1 \<noteq> 0)"

definition setOption :: "option_t \<Rightarrow> cache_block_info \<Rightarrow> cache_block_info" where
  "setOption opt i = i\<lparr> m_options := m_options i OR push_bit (option_bit opt) 1 \<rparr>"

definition clearOption :: "option_t \<Rightarrow> cache_block_info \<Rightarrow> cache_block_info" where
  "clearOption opt i = i\<lparr> m_options := m_options i AND NOT (push_bit (option_bit opt) 1) \<rparr>"

definition getOptionName :: "option_t \<Rightarrow> string" where
  "getOptionName opt = (case opt of PREFETCH \<Rightarrow> ''prefetch'' | WARMUP \<Rightarrow> ''warmup'')"

text \<open>\<^verbatim>\<open>updateUsage(BitsUsedType)\<close> and \<^verbatim>\<open>updateUsage(offset, size)\<close>: whether new bits were set, and
  the new object. \<^verbatim>\<open>offset + size - 1\<close> is 32-bit arithmetic; the mask is computed on 64 bits, where a
  shift by more than 63 is undefined, and truncated to 8.\<close>

definition updateUsage :: "u8 \<Rightarrow> cache_block_info \<Rightarrow> bool \<times> cache_block_info" where
  "updateUsage used i = (used AND NOT (m_used i) \<noteq> 0, i\<lparr> m_used := m_used i OR used \<rparr>)"

definition usage_mask :: "u32 \<Rightarrow> u32 \<Rightarrow> u64 res" where
  "usage_mask offset sz =
     (let first = unat (drop_bit BitsUsedOffset offset);
          last = unat (drop_bit BitsUsedOffset (offset + sz - 1))
      in if 63 < first \<or> 63 < last + 1 then Inl Undefined
         else Inr ((push_bit (last + 1) 1 - 1) AND NOT (push_bit first 1 - 1)))"

definition updateUsage_range ::
    "u32 \<Rightarrow> u32 \<Rightarrow> cache_block_info \<Rightarrow> (bool \<times> cache_block_info) res" where
  "updateUsage_range offset sz i =
     rbind (usage_mask offset sz) (\<lambda>m. Inr (updateUsage (ucast m) i))"

section \<open>Where a second-level line is cached\<close>

datatype mem_component = INVALID_MEM_COMPONENT | CORE | L1_ICACHE | L1_DCACHE | L2_CACHE | L3_CACHE
  | L4_CACHE | LAST_LEVEL_CACHE | TAG_DIR | NUCA_CACHE | DRAM_CACHE | DRAM

fun component_num :: "mem_component \<Rightarrow> nat" where
  "component_num INVALID_MEM_COMPONENT = 0"
| "component_num CORE = 1"
| "component_num L1_ICACHE = 2"
| "component_num L1_DCACHE = 3"
| "component_num L2_CACHE = 4"
| "component_num L3_CACHE = 5"
| "component_num L4_CACHE = 6"
| "component_num LAST_LEVEL_CACHE = 20"
| "component_num TAG_DIR = 21"
| "component_num NUCA_CACHE = 22"
| "component_num DRAM_CACHE = 23"
| "component_num DRAM = 24"

definition loc_bit :: "mem_component \<Rightarrow> u32" where
  "loc_bit c = push_bit (component_num c) 1"

definition getCachedLoc :: "cache_block_info \<Rightarrow> mem_component res" where
  "getCachedLoc i =
     (if m_cached_loc_bitvec i = (loc_bit L1_ICACHE OR loc_bit L1_DCACHE) then Inl Assert_Failed
      else if m_cached_loc_bitvec i = loc_bit L1_ICACHE then Inr L1_ICACHE
      else if m_cached_loc_bitvec i = loc_bit L1_DCACHE then Inr L1_DCACHE
      else if m_cached_loc_bitvec i = 0 then Inr INVALID_MEM_COMPONENT
      else Inl Log_Error)"

definition setCachedLoc :: "mem_component \<Rightarrow> cache_block_info \<Rightarrow> cache_block_info res" where
  "setCachedLoc cached_loc i =
     (if cached_loc = INVALID_MEM_COMPONENT then Inl Assert_Failed
      else if m_cached_loc_bitvec i AND loc_bit cached_loc \<noteq> 0 then Inl Assert_Failed
      else Inr (i\<lparr> m_cached_loc_bitvec := m_cached_loc_bitvec i OR loc_bit cached_loc \<rparr>))"

definition clearCachedLoc :: "mem_component \<Rightarrow> cache_block_info \<Rightarrow> cache_block_info res" where
  "clearCachedLoc cached_loc i =
     (if cached_loc = INVALID_MEM_COMPONENT then Inl Assert_Failed
      else if m_cached_loc_bitvec i AND loc_bit cached_loc = 0 then Inl Assert_Failed
      else Inr (i\<lparr> m_cached_loc_bitvec := m_cached_loc_bitvec i AND NOT (loc_bit cached_loc) \<rparr>))"

section \<open>Virtual operations\<close>

definition cbi_invalidate :: "cache_block_info \<Rightarrow> cache_block_info" where
  "cbi_invalidate i =
     (let i1 = (if m_kind i = PR_L2_CACHE then i\<lparr> m_cached_loc_bitvec := 0 \<rparr> else i)
      in i1\<lparr> m_tag := TAG_UNUSED, m_cstate := INVALID \<rparr>)"

text \<open>\<^verbatim>\<open>dst->clone(src)\<close>; the callers pass objects of the same class.\<close>

definition cbi_clone :: "cache_block_info \<Rightarrow> cache_block_info \<Rightarrow> cache_block_info" where
  "cbi_clone src dst =
     (let d1 = (if m_kind dst = PR_L2_CACHE
                then dst\<lparr> m_cached_loc_bitvec := m_cached_loc_bitvec src \<rparr> else dst)
      in d1\<lparr> m_tag := m_tag src, m_cstate := m_cstate src, m_owner := m_owner src,
             m_used := m_used src, m_options := m_options src \<rparr>)"

section \<open>Properties\<close>

lemma and_exp: "w AND 2 ^ k \<noteq> 0 \<longleftrightarrow> bit (w :: 'a::len word) k" "w AND 2 ^ k = 0 \<longleftrightarrow> \<not> bit w k"
  by (simp_all add: bit_iff_and_push_bit_not_eq_0)

lemma component_num_less: "component_num c < 32"
  by (cases c) simp_all

lemma loc_bit_iff: "bit (loc_bit c) n \<longleftrightarrow> n = component_num c"
  using component_num_less [of c] by (auto simp: loc_bit_def bit_simps)

lemma component_num_inj: "component_num c = component_num d \<longleftrightarrow> c = d"
  by (cases c; cases d) simp_all

lemma option_bit_inj: "option_bit a = option_bit b \<longleftrightarrow> a = b"
  by (cases a; cases b; simp)

lemma option_bit_less: "option_bit a < 8"
  by (cases a) simp_all

text \<open>The option bits of a line behave like a set of options.\<close>

lemma option_bits:
  "(hasOption (setOption a i) b \<longleftrightarrow> a = b \<or> hasOption i b) \<and>
   (hasOption (clearOption a i) b \<longleftrightarrow> a \<noteq> b \<and> hasOption i b)"
  using option_bit_inj [of a b] option_bit_less [of b]
  by (auto simp: hasOption_def setOption_def clearOption_def and_exp bit_simps)

lemma usage_mask_bits:
  assumes "unat offset + unat sz \<le> 64" "0 < sz"
  shows "\<exists>m. usage_mask offset sz = Inr m \<and>
    (\<forall>n < 64. bit m n \<longleftrightarrow> unat offset div 8 \<le> n \<and> n \<le> (unat offset + unat sz - 1) div 8)"
proof -
  have s1: "1 \<le> unat sz" using assms(2) by (simp add: word_less_nat_alt Suc_leI)
  have "unat (offset + sz) = unat offset + unat sz"
    using assms(1) by (subst unat_add_lem [THEN iffD1]) simp_all
  moreover from this s1 have "offset + sz \<noteq> 0" by (auto simp: unat_eq_0 [symmetric])
  ultimately have last: "unat (offset + sz - 1) = unat offset + unat sz - 1" by (simp add: unat_minus_one)
  have div8: "unat (drop_bit BitsUsedOffset w) = unat w div 8" for w :: u32
    by (simp add: unat_drop_bit BitsUsedOffset_def)
  have le: "unat offset div 8 \<le> 8" "(unat offset + unat sz - 1) div 8 < 8" using assms(1) s1 by auto
  have m: "(push_bit k 1 - 1 :: u64) = mask k" for k
    by (simp add: mask_eq_exp_minus_1)
  let ?m = "mask ((unat offset + unat sz - 1) div 8 + 1) AND NOT (mask (unat offset div 8)) :: u64"
  have "usage_mask offset sz = Inr ?m"
    unfolding usage_mask_def Let_def div8 last m using le by simp
  moreover have "bit ?m n \<longleftrightarrow> unat offset div 8 \<le> n \<and> n \<le> (unat offset + unat sz - 1) div 8" if "n < 64" for n
    using that by (auto simp: bit_and_iff bit_not_iff bit_mask_iff)
  ultimately show ?thesis by blast
qed

text \<open>An access of \<open>sz\<close> bytes within a 64-byte line marks exactly the 8-byte words it touches
  as used, and the result tells whether one of them was unused before.\<close>

lemma updateUsage_marks:
  assumes "unat offset + unat sz \<le> 64" "0 < sz"
  shows "\<exists>fresh i'. updateUsage_range offset sz i = Inr (fresh, i') \<and>
    (\<forall>n < 8. bit (m_used i') n \<longleftrightarrow> bit (m_used i) n \<or>
       (unat offset div 8 \<le> n \<and> n \<le> (unat offset + unat sz - 1) div 8)) \<and>
    (fresh \<longleftrightarrow> (\<exists>n. \<not> bit (m_used i) n \<and> bit (m_used i') n))"
proof -
  from usage_mask_bits [OF assms] obtain m where m: "usage_mask offset sz = Inr m"
    "\<forall>n < 64. bit m n \<longleftrightarrow> unat offset div 8 \<le> n \<and> n \<le> (unat offset + unat sz - 1) div 8" by blast
  have "(ucast m AND NOT (m_used i) \<noteq> 0) \<longleftrightarrow> (\<exists>n. \<not> bit (m_used i) n \<and> bit (m_used i OR ucast m) n)"
    by (auto simp: bit_eq_iff bit_simps)
  with m show ?thesis
    by (auto simp: updateUsage_range_def updateUsage_def bit_simps)
qed

text \<open>The record of the first-level caches that hold a second-level line. Marking a location and
  clearing it again restores the record, a location cannot be marked twice nor cleared when it is
  not marked, and after one of the first-level caches was marked alone the lookup finds it.\<close>

lemma cached_loc_roundtrip:
  assumes "setCachedLoc c i = Inr i'"
  shows "clearCachedLoc c i' = Inr i \<and> setCachedLoc c i' = Inl Assert_Failed \<and>
    clearCachedLoc c i = Inl Assert_Failed \<and>
    (m_cached_loc_bitvec i = 0 \<and> c \<in> {L1_ICACHE, L1_DCACHE} \<longrightarrow> getCachedLoc i' = Inr c)"
proof (intro conjI)
  have c: "c \<noteq> INVALID_MEM_COMPONENT" "m_cached_loc_bitvec i AND loc_bit c = 0"
    "i' = i\<lparr> m_cached_loc_bitvec := m_cached_loc_bitvec i OR loc_bit c \<rparr>"
    using assms by (auto simp: setCachedLoc_def split: if_splits)
  have nb: "\<not> bit (m_cached_loc_bitvec i) (component_num c)"
    using c(2) by (simp add: loc_bit_def and_exp)
  have "(m_cached_loc_bitvec i OR loc_bit c) AND NOT (loc_bit c) = m_cached_loc_bitvec i"
    using nb by (intro bit_word_eqI) (auto simp: bit_simps loc_bit_iff)
  moreover have set': "(m_cached_loc_bitvec i OR loc_bit c) AND loc_bit c \<noteq> 0"
    using component_num_less [of c] by (simp add: loc_bit_def and_exp bit_simps)
  ultimately show "clearCachedLoc c i' = Inr i" using c by (simp add: clearCachedLoc_def)
  show "setCachedLoc c i' = Inl Assert_Failed" using c set' by (simp add: setCachedLoc_def)
  show "clearCachedLoc c i = Inl Assert_Failed" using c by (simp add: clearCachedLoc_def)
  show "m_cached_loc_bitvec i = 0 \<and> c \<in> {L1_ICACHE, L1_DCACHE} \<longrightarrow> getCachedLoc i' = Inr c"
    using c by (auto simp: getCachedLoc_def loc_bit_def)
qed

end
