(* ===== verification/Superblock_Info.thy ===== *)
theory Superblock_Info
  imports Cache_Block_Info
begin

text \<open>
  The tags of a superblock frame: \<^verbatim>\<open>SuperblockInfo\<close> (\<^verbatim>\<open>cache/superblock_info.cc\<close>). Up to four
  lines with a common supertag; a slot is a null pointer or an object of its own. \<^verbatim>\<open>dump\<close> and the
  log lines are left out, and so are the \<^verbatim>\<open>LOG_ASSERT_WARNING\<close> calls, which only print.
\<close>

section \<open>Definitions\<close>

record superblock_info =
  m_supertag :: u64
  m_block_infos :: "cache_block_info option list"

definition SuperblockInfo :: superblock_info where
  "SuperblockInfo = \<lparr> m_supertag = TAG_UNUSED, m_block_infos = replicate SUPERBLOCK_SIZE None \<rparr>"

definition sb_peekBlock :: "superblock_info \<Rightarrow> nat \<Rightarrow> cache_block_info option res" where
  "sb_peekBlock sb block_id = nth_r (m_block_infos sb) block_id"

definition slot_valid :: "cache_block_info option \<Rightarrow> bool" where
  "slot_valid p = (case p of None \<Rightarrow> False | Some i \<Rightarrow> cbi_isValid i)"

definition sb_isValid :: "superblock_info \<Rightarrow> bool" where
  "sb_isValid sb = list_ex slot_valid (m_block_infos sb)"

definition sb_isValid_at :: "superblock_info \<Rightarrow> nat \<Rightarrow> bool res" where
  "sb_isValid_at sb block_id = rbind (nth_r (m_block_infos sb) block_id) (\<lambda>p. Inr (slot_valid p))"

definition canInsertBlockInfo :: "superblock_info \<Rightarrow> u64 \<Rightarrow> nat \<Rightarrow> bool res" where
  "canInsertBlockInfo sb supertag block_id =
     (if \<not> sb_isValid sb then Inr True
      else rbind (sb_isValid_at sb block_id) (\<lambda>v.
        Inr (\<not> v \<and> supertag = m_supertag sb)))"

definition swapBlockInfo ::
    "nat \<Rightarrow> cache_block_info option \<Rightarrow> superblock_info \<Rightarrow> (cache_block_info option \<times> superblock_info) res" where
  "swapBlockInfo block_id inout sb =
     rbind (nth_r (m_block_infos sb) block_id) (\<lambda>p.
     Inr (p, sb\<lparr> m_block_infos := (m_block_infos sb)[block_id := inout] \<rparr>))"

definition evictBlockInfo ::
    "nat \<Rightarrow> superblock_info \<Rightarrow> (cache_block_info option \<times> superblock_info) res" where
  "evictBlockInfo block_id sb =
     rbind (nth_r (m_block_infos sb) block_id) (\<lambda>evict_block.
     let sb1 = sb\<lparr> m_block_infos := (m_block_infos sb)[block_id := None] \<rparr>
     in Inr (evict_block, if \<not> sb_isValid sb1 then sb1\<lparr> m_supertag := TAG_UNUSED \<rparr> else sb1))"

definition insertBlockInfo ::
    "u64 \<Rightarrow> nat \<Rightarrow> cache_block_info option \<Rightarrow> superblock_info \<Rightarrow> superblock_info res" where
  "insertBlockInfo supertag block_id ins_block_info sb =
     (let sb1 = (if \<not> sb_isValid sb then sb\<lparr> m_supertag := supertag \<rparr> else sb)
      in rbind (upd_r (m_block_infos sb1) block_id ins_block_info) (\<lambda>infos.
         Inr (sb1\<lparr> m_block_infos := infos \<rparr>)))"

text \<open>\<open>compareTags sb tag\<close> is the position that the loop stores, if it finds one.\<close>

definition compareTags :: "superblock_info \<Rightarrow> u64 \<Rightarrow> nat option" where
  "compareTags sb tag =
     find (\<lambda>i. case m_block_infos sb ! i of None \<Rightarrow> False
            | Some info \<Rightarrow> cbi_isValid info \<and> tag = m_tag info) [0..<SUPERBLOCK_SIZE]"

definition sb_isValidReplacement :: "superblock_info \<Rightarrow> bool" where
  "sb_isValidReplacement sb =
     list_all (\<lambda>i. case m_block_infos sb ! i of None \<Rightarrow> True
            | Some info \<Rightarrow> \<not> (cbi_isValid info \<and> m_cstate info = SHARED_UPGRADING))
       [0..<SUPERBLOCK_SIZE]"

definition invalidateBlockInfo :: "u64 \<Rightarrow> nat \<Rightarrow> superblock_info \<Rightarrow> superblock_info res" where
  "invalidateBlockInfo tag block_id sb =
     rbind (nth_r (m_block_infos sb) block_id) (\<lambda>p.
     case p of
       None \<Rightarrow> Inl Null_Deref
     | Some info \<Rightarrow>
         if tag \<noteq> m_tag info then Inl Assert_Failed
         else
           let sb1 = sb\<lparr> m_block_infos := (m_block_infos sb)[block_id := Some (cbi_invalidate info)] \<rparr>
           in Inr (if \<not> sb_isValid sb1 then sb1\<lparr> m_supertag := TAG_UNUSED \<rparr> else sb1))"

section \<open>Invariant\<close>

text \<open>Every valid line of a superblock has the place its tag asks for: the supertag of the
  superblock, and its own position in it. An empty superblock has no supertag.\<close>

definition sb_ok :: "cache_base \<Rightarrow> superblock_info \<Rightarrow> bool" where
  "sb_ok cb sb \<longleftrightarrow> length (m_block_infos sb) = SUPERBLOCK_SIZE \<and>
     (\<forall>i info. i < SUPERBLOCK_SIZE \<and> m_block_infos sb ! i = Some info \<and> cbi_isValid info \<longrightarrow>
        tag_place cb (m_tag info) = (m_supertag sb, i)) \<and>
     (\<not> sb_isValid sb \<longrightarrow> m_supertag sb = TAG_UNUSED)"

lemma slot_valid_simps [simp]: "slot_valid None = False" "slot_valid (Some i) = cbi_isValid i"
  by (simp_all add: slot_valid_def)

lemma slot_valid_iff: "slot_valid p \<longleftrightarrow> (\<exists>i. p = Some i \<and> cbi_isValid i)"
  by (cases p) simp_all

lemma sb_isValid_iff:
  assumes "length (m_block_infos sb) = SUPERBLOCK_SIZE"
  shows "sb_isValid sb \<longleftrightarrow> (\<exists>i < SUPERBLOCK_SIZE. slot_valid (m_block_infos sb ! i))"
  using assms by (auto simp: sb_isValid_def list_ex_iff in_set_conv_nth) (metis nth_mem)

lemma compareTags_eq_Some:
  assumes "sb_ok cb sb"
  shows "compareTags sb tag = Some i \<longleftrightarrow>
    i < SUPERBLOCK_SIZE \<and> (\<exists>info. m_block_infos sb ! i = Some info \<and> cbi_isValid info \<and> m_tag info = tag)"
    (is "?l = ?r")
proof -
  let ?P = "\<lambda>i. case m_block_infos sb ! i of None \<Rightarrow> False
            | Some info \<Rightarrow> cbi_isValid info \<and> tag = m_tag info"
  have P: "?P j \<longleftrightarrow> (\<exists>info. m_block_infos sb ! j = Some info \<and> cbi_isValid info \<and> m_tag info = tag)" for j
    by (cases "m_block_infos sb ! j") auto
  have uniq: "j = snd (tag_place cb tag)" if "?P j" "j < SUPERBLOCK_SIZE" for j
    using that assms unfolding P sb_ok_def by force
  show ?thesis
  proof
    assume ?l
    then show ?r unfolding compareTags_def using find_SomeD [of ?P] P by fastforce
  next
    assume r: ?r
    then have "\<exists>x \<in> set [0..<SUPERBLOCK_SIZE]. ?P x" using P by auto
    then obtain j where j: "find ?P [0..<SUPERBLOCK_SIZE] = Some j"
      by (auto simp: find_Some_iff_set [symmetric] simp del: set_upt)
    have "?P j \<and> j < SUPERBLOCK_SIZE" using find_SomeD [OF j] by simp
    then have "j = i" using uniq r P by blast
    with j show ?l by (simp add: compareTags_def)
  qed
qed

text \<open>The validity of the four slots, as one list: what the data frame keeps in \<open>m_valid\<close>.\<close>

definition valids :: "superblock_info \<Rightarrow> bool list" where
  "valids sb = map slot_valid (m_block_infos sb)"

lemma sb_isValid_valids: "sb_isValid sb = (True \<in> set (valids sb))"
  by (auto simp: sb_isValid_def valids_def list_ex_iff)

lemma sb_ok_SuperblockInfo: "sb_ok cb SuperblockInfo" "valids SuperblockInfo = replicate SUPERBLOCK_SIZE False"
  by (auto simp: sb_ok_def SuperblockInfo_def sb_isValid_def list_ex_iff valids_def)

lemma sb_ok_length [simp]: "sb_ok cb sb \<Longrightarrow> length (m_block_infos sb) = SUPERBLOCK_SIZE"
  by (simp add: sb_ok_def)

lemma canInsertBlockInfo_eq_Inr:
  "sb_ok cb sb \<Longrightarrow> blk < SUPERBLOCK_SIZE \<Longrightarrow> canInsertBlockInfo sb st blk =
     Inr (\<not> sb_isValid sb \<or> \<not> slot_valid (m_block_infos sb ! blk) \<and> st = m_supertag sb)"
  by (simp add: canInsertBlockInfo_def sb_isValid_at_def)

text \<open>Each operation that changes the tags keeps the invariant, and its effect on the slots.\<close>

lemma insertBlockInfo_ok:
  assumes ok: "sb_ok cb sb" and can: "canInsertBlockInfo sb st blk = Inr True"
    and place: "tag_place cb (m_tag info) = (st, blk)" and v: "cbi_isValid info"
  shows "\<exists>sb'. insertBlockInfo st blk (Some info) sb = Inr sb' \<and> sb_ok cb sb' \<and>
    m_block_infos sb' = (m_block_infos sb)[blk := Some info] \<and> valids sb' = (valids sb)[blk := True]"
proof -
  have blk: "blk < SUPERBLOCK_SIZE" using tag_place_block [of cb "m_tag info"] place by simp
  let ?st = "if sb_isValid sb then m_supertag sb else st"
  let ?sb = "sb\<lparr> m_supertag := ?st, m_block_infos := (m_block_infos sb)[blk := Some info] \<rparr>"
  have ins: "insertBlockInfo st blk (Some info) sb = Inr ?sb"
    using ok blk by (simp add: insertBlockInfo_def Let_def)
  have st: "?st = st" using can canInsertBlockInfo_eq_Inr [OF ok blk] by auto
  have none: "\<not> slot_valid (m_block_infos sb ! i)" if "\<not> sb_isValid sb" "i < SUPERBLOCK_SIZE" for i
    using that sb_isValid_iff [of sb] ok by auto
  have "tag_place cb (m_tag x) = (?st, i)"
    if "i < SUPERBLOCK_SIZE" "m_block_infos ?sb ! i = Some x" "cbi_isValid x" for i x
  proof (cases "i = blk")
    case True
    with that place st ok show ?thesis by simp
  next
    case False
    with that have x: "m_block_infos sb ! i = Some x" by simp
    with none [of i] that have "sb_isValid sb" by auto
    with x ok that show ?thesis by (simp add: sb_ok_def)
  qed
  moreover have "sb_isValid ?sb"
    using ok blk v by (auto simp: sb_isValid_iff)
  ultimately have "sb_ok cb ?sb" using ok by (auto simp: sb_ok_def)
  with ins v show ?thesis by (auto simp: valids_def map_update)
qed

lemma clear_slot_ok:
  fixes sb :: superblock_info
  defines "sb1 p blk \<equiv> sb\<lparr> m_block_infos := (m_block_infos sb)[blk := p] \<rparr>"
  assumes ok: "sb_ok cb sb" and p: "\<not> slot_valid p"
  shows "sb_ok cb (if \<not> sb_isValid (sb1 p blk) then (sb1 p blk)\<lparr> m_supertag := TAG_UNUSED \<rparr> else sb1 p blk)"
proof (cases "sb_isValid (sb1 p blk)")
  case True
  have "m_block_infos sb ! i = Some x"
    if "m_block_infos (sb1 p blk) ! i = Some x" "cbi_isValid x" "i < SUPERBLOCK_SIZE" for i x
    using that p ok by (cases "i = blk") (auto simp: sb1_def)
  with True ok show ?thesis by (auto simp: sb_ok_def sb1_def)
next
  case False
  then have "\<not> slot_valid (m_block_infos (sb1 p blk) ! i)" if "i < SUPERBLOCK_SIZE" for i
    using that ok sb_isValid_iff [of "sb1 p blk"] by (auto simp: sb1_def)
  with False ok show ?thesis by (fastforce simp: sb_ok_def sb1_def slot_valid_iff)
qed

lemma evictBlockInfo_ok:
  assumes ok: "sb_ok cb sb" and blk: "blk < SUPERBLOCK_SIZE"
  shows "\<exists>sb'. evictBlockInfo blk sb = Inr (m_block_infos sb ! blk, sb') \<and> sb_ok cb sb' \<and>
    m_block_infos sb' = (m_block_infos sb)[blk := None] \<and> valids sb' = (valids sb)[blk := False]"
proof -
  let ?sb = "sb\<lparr> m_block_infos := (m_block_infos sb)[blk := None] \<rparr>"
  have "sb_ok cb (if \<not> sb_isValid ?sb then ?sb\<lparr> m_supertag := TAG_UNUSED \<rparr> else ?sb)"
    using ok by (rule clear_slot_ok) simp
  then show ?thesis using ok blk by (auto simp: evictBlockInfo_def Let_def valids_def map_update)
qed

lemma cbi_invalidate_invalid [simp]: "cbi_isValid (cbi_invalidate i) = False"
  by (simp add: cbi_isValid_def cbi_invalidate_def Let_def)

lemma invalidateBlockInfo_ok:
  assumes ok: "sb_ok cb sb" and blk: "blk < SUPERBLOCK_SIZE"
    and info: "m_block_infos sb ! blk = Some info" "m_tag info = tag"
  shows "\<exists>sb'. invalidateBlockInfo tag blk sb = Inr sb' \<and> sb_ok cb sb' \<and>
    m_block_infos sb' = (m_block_infos sb)[blk := Some (cbi_invalidate info)] \<and>
    valids sb' = (valids sb)[blk := False]"
proof -
  let ?sb = "sb\<lparr> m_block_infos := (m_block_infos sb)[blk := Some (cbi_invalidate info)] \<rparr>"
  have "sb_ok cb (if \<not> sb_isValid ?sb then ?sb\<lparr> m_supertag := TAG_UNUSED \<rparr> else ?sb)"
    using ok by (rule clear_slot_ok) simp
  then show ?thesis
    using ok blk info by (auto simp: invalidateBlockInfo_def Let_def valids_def map_update)
qed

end
