(* ===== verification/Replacement.thy ===== *)
theory Replacement
  imports Superblock_Info Block_Data
begin

text \<open>
  A cache set and its replacement policy: \<^verbatim>\<open>CacheSet\<close> (\<^verbatim>\<open>cache/cache_set.h\<close>), \<^verbatim>\<open>CacheSetLRU\<close>
  (\<^verbatim>\<open>cache/cache_set_lru.cc\<close>) and \<^verbatim>\<open>CacheSetLRUQBS\<close> (\<^verbatim>\<open>cache/cache_set_lruqbs.cc\<close>). The subclass is
  the field \<open>m_policy\<close>. The table \<^verbatim>\<open>m_lru_places\<close> maps every way to its element of the linked list
  \<^verbatim>\<open>m_lru_priorities\<close>, least recently used first; the model keeps the list, and erasing through the
  stored iterator is removing the element. An access through a way with no entry is undefined.

  Objects a set shares with the other sets of its cache, the compression controller and the
  statistics \<^verbatim>\<open>CacheSetInfo\<close>, are a second state component. The cache controller, which lives above
  the cache, is a parameter: \<open>None\<close> for a null pointer, else its query \<^verbatim>\<open>isInLowerLevelCache\<close>; its
  counter of lookups is kept with the shared state.
\<close>

section \<open>State\<close>

record cache_set =
  m_policy :: ReplacementPolicy
  m_associativity :: nat
  m_set_blocksize :: nat
  m_superblock_info_ways :: "superblock_info list"
  m_data_ways :: "block_data list"
  m_evict_bc_write :: u64
  m_num_attempts :: nat
  m_lru_priorities :: "nat list"

record cache_set_info =
  m_access :: "u64 list"
  m_attempts :: "u64 list"

record cache_shared =
  m_compress_cntlr :: cache_compression_cntlr
  m_set_info :: cache_set_info
  qbs_lookups :: nat

type_synonym cache_cntlr = "(cache_block_info \<Rightarrow> bool) option"

type_synonym set_state = "cache_set \<times> cache_shared"

section \<open>Statistics\<close>

definition CacheSetInfoLRU :: "nat \<Rightarrow> cache_set_info" where
  "CacheSetInfoLRU associativity = \<lparr> m_access = replicate associativity 0, m_attempts = [] \<rparr>"

definition CacheSetInfoLRUQBS :: "nat \<Rightarrow> nat \<Rightarrow> cache_set_info" where
  "CacheSetInfoLRUQBS associativity num_attempts =
     \<lparr> m_access = replicate associativity 0, m_attempts = replicate num_attempts 0 \<rparr>"

definition si_increment :: "nat \<Rightarrow> cache_shared \<Rightarrow> cache_shared res" where
  "si_increment way sh =
     (if \<not> way < length (m_access (m_set_info sh)) then Inl Assert_Failed
      else Inr (sh\<lparr> m_set_info := (m_set_info sh)\<lparr> m_access :=
                  (m_access (m_set_info sh))[way := m_access (m_set_info sh) ! way + 1] \<rparr> \<rparr>))"

definition incrementAttempt :: "nat \<Rightarrow> cache_shared \<Rightarrow> cache_shared res" where
  "incrementAttempt attempt sh =
     (let att = m_attempts (m_set_info sh)
      in if \<not> attempt \<le> length att then Inl Assert_Failed
         else if att \<noteq> [] then
           rbind (nth_r att attempt) (\<lambda>n.
           Inr (sh\<lparr> m_set_info := (m_set_info sh)\<lparr> m_attempts := att[attempt := n + 1] \<rparr> \<rparr>))
         else if \<not> attempt = 0 then Inl Assert_Failed else Inr sh)"

section \<open>LRU\<close>

definition moveToMRU :: "nat \<Rightarrow> cache_set \<Rightarrow> cache_set res" where
  "moveToMRU accessed_way st =
     (if \<not> accessed_way < m_associativity st then Inl Assert_Failed
      else if accessed_way \<notin> set (m_lru_priorities st) then Inl Undefined
      else Inr (st\<lparr> m_lru_priorities := remove1 accessed_way (m_lru_priorities st) @ [accessed_way] \<rparr>))"

definition cs_isValidReplacement :: "cache_set \<Rightarrow> nat \<Rightarrow> bool" where
  "cs_isValidReplacement st way = sb_isValidReplacement (m_superblock_info_ways st ! way)"

text \<open>The first way whose superblock holds no line, and the first way in LRU order that may be
  replaced.\<close>

definition find_unallocated :: "cache_set \<Rightarrow> nat option" where
  "find_unallocated st =
     find (\<lambda>i. \<not> sb_isValid (m_superblock_info_ways st ! i)) [0..<m_associativity st]"

definition find_victim :: "cache_set \<Rightarrow> nat option" where
  "find_victim st = find (cs_isValidReplacement st) (m_lru_priorities st)"

definition lru_getReplacementWay ::
    "bool \<Rightarrow> cache_cntlr \<Rightarrow> set_state \<Rightarrow> (nat \<times> set_state) res" where
  "lru_getReplacementWay allow_fwd_inv cntlr s =
     (case s of (st, sh) \<Rightarrow>
        case find_unallocated st of
          Some i \<Rightarrow> rbind (moveToMRU i st) (\<lambda>st1. Inr (i, st1, sh))
        | None \<Rightarrow>
            (case find_victim st of
               None \<Rightarrow> Inr (m_associativity st, st, sh)
             | Some repl_way \<Rightarrow> rbind (moveToMRU repl_way st) (\<lambda>st1. Inr (repl_way, st1, sh))))"

text \<open>The position of a way in the list, \<^verbatim>\<open>std::distance(begin(), m_lru_places[way])\<close>.\<close>

definition prev_priority :: "nat \<Rightarrow> cache_set \<Rightarrow> nat res" where
  "prev_priority way st =
     (if way \<notin> set (m_lru_priorities st) then Inl Undefined
      else Inr (length (takeWhile (\<lambda>w. w \<noteq> way) (m_lru_priorities st))))"

definition lru_updateReplacementWay :: "nat \<Rightarrow> set_state \<Rightarrow> set_state res" where
  "lru_updateReplacementWay accessed_way s =
     (case s of (st, sh) \<Rightarrow>
        rbind (prev_priority accessed_way st) (\<lambda>p.
        rbind (si_increment p sh) (\<lambda>sh1.
        rbind (moveToMRU accessed_way st) (\<lambda>st1. Inr (st1, sh1)))))"

section \<open>LRU with query-based selection\<close>

text \<open>Whether a valid line of the superblock is in a lower-level cache; without a controller the
  query is a call through a null pointer.\<close>

definition qbs_reject :: "cache_cntlr \<Rightarrow> superblock_info \<Rightarrow> bool res" where
  "qbs_reject cntlr superblock =
     fold_r (\<lambda>i rej.
         case m_block_infos superblock ! i of
           None \<Rightarrow> Inr rej
         | Some block_info \<Rightarrow>
             if \<not> cbi_isValid block_info then Inr rej
             else case cntlr of
                 None \<Rightarrow> Inl Null_Deref
               | Some isInLowerLevelCache \<Rightarrow> Inr (rej \<or> isInLowerLevelCache block_info))
       [0..<SUPERBLOCK_SIZE] False"

text \<open>The loop over the attempts; the first argument counts the attempts that remain.\<close>

fun qbs_loop :: "nat \<Rightarrow> bool \<Rightarrow> cache_cntlr \<Rightarrow> set_state \<Rightarrow> (nat \<times> set_state) res" where
  "qbs_loop 0 allow_fwd_inv cntlr (st, sh) = Inr (m_associativity st, st, sh)"
| "qbs_loop (Suc n) allow_fwd_inv cntlr (st, sh) =
     (let attempt = m_num_attempts st - Suc n
      in case find_victim st of
           None \<Rightarrow> Inr (m_associativity st, st, sh)
         | Some repl_way \<Rightarrow>
             rbind (qbs_reject cntlr (m_superblock_info_ways st ! repl_way)) (\<lambda>reject.
             if attempt + 1 < m_num_attempts st then
               (if reject then
                  rbind (moveToMRU repl_way st) (\<lambda>st1.
                  qbs_loop n allow_fwd_inv cntlr (st1, sh\<lparr> qbs_lookups := qbs_lookups sh + 1 \<rparr>))
                else
                  rbind (moveToMRU repl_way st) (\<lambda>st1.
                  rbind (incrementAttempt attempt sh) (\<lambda>sh1. Inr (repl_way, st1, sh1))))
             else if \<not> reject \<or> (reject \<and> allow_fwd_inv) then
               rbind (moveToMRU repl_way st) (\<lambda>st1.
               rbind (incrementAttempt attempt sh) (\<lambda>sh1. Inr (repl_way, st1, sh1)))
             else qbs_loop n allow_fwd_inv cntlr (st, sh)))"

definition qbs_getReplacementWay ::
    "bool \<Rightarrow> cache_cntlr \<Rightarrow> set_state \<Rightarrow> (nat \<times> set_state) res" where
  "qbs_getReplacementWay allow_fwd_inv cntlr s =
     (case s of (st, sh) \<Rightarrow>
        case find_unallocated st of
          Some i \<Rightarrow> rbind (moveToMRU i st) (\<lambda>st1. Inr (i, st1, sh))
        | None \<Rightarrow> qbs_loop (m_num_attempts st) allow_fwd_inv cntlr (st, sh))"

definition qbs_updateReplacementWay :: "nat \<Rightarrow> set_state \<Rightarrow> set_state res" where
  "qbs_updateReplacementWay accessed_way s =
     (case s of (st, sh) \<Rightarrow>
        rbind (prev_priority accessed_way st) (\<lambda>p.
        rbind (si_increment p sh) (\<lambda>sh1.
        rbind (moveToMRU accessed_way st) (\<lambda>st1. Inr (st1, sh1)))))"

section \<open>Dispatch\<close>

text \<open>The virtual calls. Sets with another policy are never constructed.\<close>

definition getReplacementWay ::
    "bool \<Rightarrow> cache_cntlr \<Rightarrow> set_state \<Rightarrow> (nat \<times> set_state) res" where
  "getReplacementWay allow_fwd_inv cntlr s =
     (case m_policy (fst s) of
        LRU \<Rightarrow> lru_getReplacementWay allow_fwd_inv cntlr s
      | LRU_QBS \<Rightarrow> qbs_getReplacementWay allow_fwd_inv cntlr s
      | _ \<Rightarrow> Inl Undefined)"

definition updateReplacementWay :: "nat \<Rightarrow> set_state \<Rightarrow> set_state res" where
  "updateReplacementWay accessed_way s =
     (case m_policy (fst s) of
        LRU \<Rightarrow> lru_updateReplacementWay accessed_way s
      | LRU_QBS \<Rightarrow> qbs_updateReplacementWay accessed_way s
      | _ \<Rightarrow> Inl Undefined)"

section \<open>The contract of a replacement policy\<close>

text \<open>The list of priorities is a permutation of the ways, and the histogram has an entry per
  way and per attempt (a plain LRU set makes none).\<close>

definition lru_ok :: "set_state \<Rightarrow> bool" where
  "lru_ok s \<longleftrightarrow> distinct (m_lru_priorities (fst s)) \<and>
     set (m_lru_priorities (fst s)) = {0..<m_associativity (fst s)} \<and>
     length (m_access (m_set_info (snd s))) = m_associativity (fst s) \<and>
     length (m_attempts (m_set_info (snd s))) = m_num_attempts (fst s)"

text \<open>What a policy may change: the priorities and the statistics.\<close>

definition same_lines :: "set_state \<Rightarrow> set_state \<Rightarrow> bool" where
  "same_lines s s' \<longleftrightarrow>
     m_policy (fst s') = m_policy (fst s) \<and> m_associativity (fst s') = m_associativity (fst s) \<and>
     m_set_blocksize (fst s') = m_set_blocksize (fst s) \<and>
     m_superblock_info_ways (fst s') = m_superblock_info_ways (fst s) \<and>
     m_data_ways (fst s') = m_data_ways (fst s) \<and> m_evict_bc_write (fst s') = m_evict_bc_write (fst s) \<and>
     m_num_attempts (fst s') = m_num_attempts (fst s) \<and>
     m_compress_cntlr (snd s') = m_compress_cntlr (snd s)"

lemma same_lines_refl [simp]: "same_lines s s"
  by (simp add: same_lines_def)

lemma same_lines_trans: "same_lines s t \<Longrightarrow> same_lines t u \<Longrightarrow> same_lines s u"
  by (simp add: same_lines_def)

lemma remdups_removeAll_append:
  "w \<in> set ys \<Longrightarrow> remdups (removeAll w xs @ ys) = remdups (xs @ ys)"
  by (induction xs) auto

locale replacement_policy =
  fixes repl :: "bool \<Rightarrow> cache_cntlr \<Rightarrow> set_state \<Rightarrow> (nat \<times> set_state) res"
    and upd :: "nat \<Rightarrow> set_state \<Rightarrow> set_state res"
  assumes repl_keeps: "lru_ok s \<Longrightarrow> repl fwd cntlr s = Inr (w, s') \<Longrightarrow>
      same_lines s s' \<and> lru_ok s' \<and> w \<le> m_associativity (fst s) \<and>
      (w < m_associativity (fst s) \<longrightarrow> last (m_lru_priorities (fst s')) = w)"
    and repl_empty: "lru_ok s \<Longrightarrow> i < m_associativity (fst s) \<Longrightarrow>
      \<not> sb_isValid (m_superblock_info_ways (fst s) ! i) \<Longrightarrow>
      \<exists>w s'. repl fwd cntlr s = Inr (w, s') \<and> w < m_associativity (fst s) \<and>
        \<not> sb_isValid (m_superblock_info_ways (fst s) ! w)"
    and repl_allowed: "lru_ok s \<Longrightarrow> repl fwd cntlr s = Inr (w, s') \<Longrightarrow> w < m_associativity (fst s) \<Longrightarrow>
      \<not> sb_isValid (m_superblock_info_ways (fst s) ! w) \<or> cs_isValidReplacement (fst s) w"
    and repl_total: "lru_ok s \<Longrightarrow> \<exists>r. repl fwd (Some q) s = Inr r"
    and upd_moves: "lru_ok s \<Longrightarrow> w < m_associativity (fst s) \<Longrightarrow>
      \<exists>s'. upd w s = Inr s' \<and> same_lines s s' \<and> lru_ok s' \<and>
        m_lru_priorities (fst s') = remove1 w (m_lru_priorities (fst s)) @ [w]"

begin

text \<open>Accesses keep the ways in order of recency: after any sequence of accesses the list is the
  sequence without all but the last occurrence of each way.\<close>

lemma upd_run:
  assumes "lru_ok s" "set ws \<subseteq> {0..<m_associativity (fst s)}"
  shows "\<exists>s'. fold_r upd ws s = Inr s' \<and> same_lines s s' \<and> lru_ok s' \<and>
    m_lru_priorities (fst s') = remdups (m_lru_priorities (fst s) @ ws)"
  using assms
proof (induction ws arbitrary: s)
  case Nil
  then show ?case by (auto simp: lru_ok_def same_lines_def distinct_remdups_id)
next
  case (Cons w ws)
  then have w: "w < m_associativity (fst s)" by simp
  from upd_moves [OF Cons.prems(1) w] obtain s1 where s1: "upd w s = Inr s1" "same_lines s s1" "lru_ok s1"
    "m_lru_priorities (fst s1) = remove1 w (m_lru_priorities (fst s)) @ [w]" by blast
  have a: "m_associativity (fst s1) = m_associativity (fst s)"
    using s1(2) by (simp add: same_lines_def)
  with Cons.prems(2) have "set ws \<subseteq> {0..<m_associativity (fst s1)}" by simp
  from Cons.IH [OF s1(3) this] obtain s' where s': "fold_r upd ws s1 = Inr s'" "same_lines s1 s'" "lru_ok s'"
    "m_lru_priorities (fst s') = remdups (m_lru_priorities (fst s1) @ ws)" by blast
  have "distinct (m_lru_priorities (fst s))" using Cons.prems(1) by (simp add: lru_ok_def)
  then have "remdups ((remove1 w (m_lru_priorities (fst s)) @ [w]) @ ws) =
      remdups (m_lru_priorities (fst s) @ w # ws)"
    using remdups_removeAll_append [of w "w # ws" "m_lru_priorities (fst s)"]
    by (simp add: distinct_remove1_removeAll)
  then show ?case using s1 s' same_lines_trans [OF s1(2) s'(2)] by auto
qed

end

section \<open>Both policies meet the contract\<close>

lemma moveToMRU_ok:
  assumes "lru_ok (st, sh)" "w < m_associativity st"
  obtains st' where "moveToMRU w st = Inr st'" "lru_ok (st', sh)" "same_lines (st, sh) (st', sh)"
    "m_lru_priorities st' = remove1 w (m_lru_priorities st) @ [w]"
proof
  let ?st = "st\<lparr> m_lru_priorities := remove1 w (m_lru_priorities st) @ [w] \<rparr>"
  show "moveToMRU w st = Inr ?st" using assms by (simp add: moveToMRU_def lru_ok_def)
  have "insert w (set (m_lru_priorities st) - {w}) = set (m_lru_priorities st)"
    using assms by (simp add: lru_ok_def insert_absorb)
  then show "lru_ok (?st, sh)" using assms by (simp add: lru_ok_def)
  show "same_lines (st, sh) (?st, sh)" by (simp add: same_lines_def)
qed simp

lemma moveToMRU_last:
  assumes "lru_ok (st, sh)" "w < m_associativity st"
  shows "\<exists>st'. moveToMRU w st = Inr st' \<and> lru_ok (st', sh) \<and> same_lines (st, sh) (st', sh) \<and>
    last (m_lru_priorities st') = w"
proof -
  from moveToMRU_ok [OF assms] obtain st' where "moveToMRU w st = Inr st'" "lru_ok (st', sh)"
    "same_lines (st, sh) (st', sh)" "m_lru_priorities st' = remove1 w (m_lru_priorities st) @ [w]" .
  then show ?thesis by auto
qed

lemma find_unallocated_SomeD:
  "find_unallocated st = Some i \<Longrightarrow> i < m_associativity st \<and> \<not> sb_isValid (m_superblock_info_ways st ! i)"
  unfolding find_unallocated_def by (drule find_SomeD) simp

lemma find_unallocated_ex:
  assumes "i < m_associativity st" "\<not> sb_isValid (m_superblock_info_ways st ! i)"
  obtains j where "find_unallocated st = Some j"
proof -
  have "\<exists>x \<in> set [0..<m_associativity st]. \<not> sb_isValid (m_superblock_info_ways st ! x)"
    using assms by auto
  then show thesis using that unfolding find_unallocated_def find_Some_iff_set [symmetric] by blast
qed

lemma find_victim_SomeD:
  "find_victim st = Some w \<Longrightarrow> lru_ok (st, sh) \<Longrightarrow> w < m_associativity st \<and> cs_isValidReplacement st w"
  unfolding find_victim_def by (drule find_SomeD) (auto simp: lru_ok_def)

lemma length_takeWhile_less: "x \<in> set xs \<Longrightarrow> length (takeWhile (\<lambda>y. y \<noteq> x) xs) < length xs"
  by (induction xs) auto

text \<open>The move of the accessed way, which both policies make in the same words.\<close>

lemma touch_moves:
  assumes "lru_ok s" "w < m_associativity (fst s)"
    and upd: "upd w s = (case s of (st, sh) \<Rightarrow>
        rbind (prev_priority w st) (\<lambda>p.
        rbind (si_increment p sh) (\<lambda>sh1.
        rbind (moveToMRU w st) (\<lambda>st1. Inr (st1, sh1)))))"
  shows "\<exists>s'. upd w s = Inr s' \<and> same_lines s s' \<and> lru_ok s' \<and>
    m_lru_priorities (fst s') = remove1 w (m_lru_priorities (fst s)) @ [w]"
proof -
  obtain st sh where s: "s = (st, sh)" by fastforce
  obtain st1 where m: "moveToMRU w st = Inr st1" "lru_ok (st1, sh)" "same_lines (st, sh) (st1, sh)"
    "m_lru_priorities st1 = remove1 w (m_lru_priorities st) @ [w]"
    using moveToMRU_ok [of st sh w] assms(1,2) s by auto
  have w: "w \<in> set (m_lru_priorities st)" using assms(1,2) s by (simp add: lru_ok_def)
  let ?p = "length (takeWhile (\<lambda>x. x \<noteq> w) (m_lru_priorities st))"
  have p: "prev_priority w st = Inr ?p" using w by (simp add: prev_priority_def)
  have "length (m_lru_priorities st) = m_associativity st"
    using assms(1) s distinct_card [of "m_lru_priorities st"] by (simp add: lru_ok_def)
  moreover have "?p < length (m_lru_priorities st)" using length_takeWhile_less [OF w] by simp
  ultimately have "?p < length (m_access (m_set_info sh))" using assms(1) s by (simp add: lru_ok_def)
  then obtain sh1 where sh1: "si_increment ?p sh = Inr sh1" "m_compress_cntlr sh1 = m_compress_cntlr sh"
    "length (m_access (m_set_info sh1)) = length (m_access (m_set_info sh))"
    "m_attempts (m_set_info sh1) = m_attempts (m_set_info sh)"
    by (simp add: si_increment_def)
  have "upd w s = Inr (st1, sh1)" using upd p m(1) sh1(1) by (simp add: s)
  moreover have "lru_ok (st1, sh1)" using m(2) sh1 by (simp add: lru_ok_def)
  moreover have "same_lines s (st1, sh1)" using m(3) sh1(2) by (simp add: s same_lines_def)
  ultimately show ?thesis using m(4) s by auto
qed

interpretation lru: replacement_policy lru_getReplacementWay lru_updateReplacementWay
proof
  fix s s' :: set_state and fwd cntlr w
  obtain st sh where s: "s = (st, sh)" by fastforce
  assume ok: "lru_ok s"
  have move: "\<exists>st'. moveToMRU w st = Inr st' \<and> lru_ok (st', sh) \<and> same_lines (st, sh) (st', sh) \<and>
      last (m_lru_priorities st') = w" if "w < m_associativity st" for w
    using ok s moveToMRU_last [OF _ that] by blast
  show "\<exists>r. lru_getReplacementWay fwd (Some q) s = Inr r" for q
  proof (cases "find_unallocated st")
    case None
    show ?thesis
    proof (cases "find_victim st")
      case (Some v)
      then show ?thesis using None move [of v] find_victim_SomeD [OF Some] ok s
        by (auto simp: lru_getReplacementWay_def)
    qed (use None s in \<open>simp add: lru_getReplacementWay_def\<close>)
  next
    case (Some i)
    then show ?thesis using move [of i] find_unallocated_SomeD [OF Some] s
      by (auto simp: lru_getReplacementWay_def)
  qed
  show "\<exists>w s'. lru_getReplacementWay fwd cntlr s = Inr (w, s') \<and> w < m_associativity (fst s) \<and>
        \<not> sb_isValid (m_superblock_info_ways (fst s) ! w)"
    if i: "i < m_associativity (fst s)" "\<not> sb_isValid (m_superblock_info_ways (fst s) ! i)" for i
  proof -
    obtain j where "find_unallocated st = Some j" using find_unallocated_ex i s by auto
    with move [of j] find_unallocated_SomeD [OF this] s show ?thesis
      by (auto simp: lru_getReplacementWay_def)
  qed
  assume r: "lru_getReplacementWay fwd cntlr s = Inr (w, s')"
  show "same_lines s s' \<and> lru_ok s' \<and> w \<le> m_associativity (fst s) \<and>
      (w < m_associativity (fst s) \<longrightarrow> last (m_lru_priorities (fst s')) = w)"
    using r s ok move find_unallocated_SomeD [of st] find_victim_SomeD [of st _ sh]
    by (fastforce simp: lru_getReplacementWay_def res_simps split: option.splits)
  show "\<not> sb_isValid (m_superblock_info_ways (fst s) ! w) \<or> cs_isValidReplacement (fst s) w"
    if "w < m_associativity (fst s)"
    using r s ok that find_unallocated_SomeD [of st] find_victim_SomeD [of st _ sh]
    by (auto simp: lru_getReplacementWay_def res_simps split: option.splits)
next
  fix s :: set_state and w
  assume "lru_ok s" "w < m_associativity (fst s)"
  then show "\<exists>s'. lru_updateReplacementWay w s = Inr s' \<and> same_lines s s' \<and> lru_ok s' \<and>
        m_lru_priorities (fst s') = remove1 w (m_lru_priorities (fst s)) @ [w]"
    by (rule touch_moves) (simp add: lru_updateReplacementWay_def)
qed

lemma qbs_reject_total: "\<exists>rej. qbs_reject (Some q) sb = Inr rej"
proof -
  have "\<exists>t. qbs_reject (Some q) sb = Inr t \<and> True"
    unfolding qbs_reject_def by (rule fold_r_ok) (auto split: option.splits)
  then show ?thesis by simp
qed

lemma incrementAttempt_ok:
  assumes "lru_ok (st, sh)" "attempt < m_num_attempts st"
  shows "\<exists>sh'. incrementAttempt attempt sh = Inr sh' \<and> lru_ok (st, sh') \<and>
    m_compress_cntlr sh' = m_compress_cntlr sh"
  using assms by (auto simp: incrementAttempt_def Let_def lru_ok_def)

text \<open>What the attempts may do: the chosen way is one that may be replaced, and it is the most
  recently used one afterwards.\<close>

definition qbs_post :: "set_state \<Rightarrow> nat \<times> set_state \<Rightarrow> bool" where
  "qbs_post s r \<longleftrightarrow> same_lines s (snd r) \<and> lru_ok (snd r) \<and> fst r \<le> m_associativity (fst s) \<and>
     (fst r < m_associativity (fst s) \<longrightarrow>
        last (m_lru_priorities (fst (snd r))) = fst r \<and> cs_isValidReplacement (fst s) (fst r))"

lemma cs_isValidReplacement_same: "same_lines s s' \<Longrightarrow> cs_isValidReplacement (fst s') = cs_isValidReplacement (fst s)"
  by (simp add: cs_isValidReplacement_def [abs_def] same_lines_def)

lemma qbs_post_trans: "same_lines s t \<Longrightarrow> qbs_post t r \<Longrightarrow> qbs_post s r"
  using cs_isValidReplacement_same [of s t] by (auto simp: qbs_post_def same_lines_def)

lemma lru_ok_lookups [simp]: "lru_ok (st, sh\<lparr> qbs_lookups := k \<rparr>) = lru_ok (st, sh)"
  by (simp add: lru_ok_def)

lemma qbs_loop_post:
  assumes "lru_ok s" "n \<le> m_num_attempts (fst s)" "qbs_loop n fwd cntlr s = Inr r"
  shows "qbs_post s r"
  using assms
proof (induction n arbitrary: s)
  case 0
  then show ?case by (cases s) (auto simp: qbs_post_def)
next
  case (Suc n)
  obtain st sh where s: "s = (st, sh)" by fastforce
  show ?case
  proof (cases "find_victim st")
    case None
    then show ?thesis using Suc.prems s by (auto simp: qbs_post_def)
  next
    case (Some w)
    note w = find_victim_SomeD [OF Some, of sh]
    have ok: "lru_ok (st, sh)" using Suc.prems s by simp
    let ?a = "m_num_attempts st - Suc n"
    from Suc.prems(3) Some obtain rej where rej: "qbs_reject cntlr (m_superblock_info_ways st ! w) = Inr rej"
      by (auto simp: s res_simps Let_def)
    from moveToMRU_last [OF ok conjunct1 [OF w [OF ok]]] obtain st1 where st1: "moveToMRU w st = Inr st1"
      "lru_ok (st1, sh)" "same_lines (st, sh) (st1, sh)" "last (m_lru_priorities st1) = w" by blast
    have fin: "qbs_post s r" if "rbind (incrementAttempt ?a sh) (\<lambda>sh1. Inr (w, st1, sh1)) = Inr r"
    proof -
      have a: "?a < m_num_attempts st1" using Suc.prems(2) s st1(3) by (simp add: same_lines_def)
      from incrementAttempt_ok [OF st1(2) a] obtain sh1 where "incrementAttempt ?a sh = Inr sh1"
        "lru_ok (st1, sh1)" "m_compress_cntlr sh1 = m_compress_cntlr sh" by blast
      then show ?thesis using that w [OF ok] st1(3,4) s by (auto simp: qbs_post_def same_lines_def)
    qed
    let ?sh = "sh\<lparr> qbs_lookups := qbs_lookups sh + 1 \<rparr>"
    have again: "qbs_post s r" if "qbs_loop n fwd cntlr (st1, ?sh) = Inr r"
    proof (rule qbs_post_trans)
      show "same_lines s (st1, ?sh)" using st1(3) s by (simp add: same_lines_def)
      show "qbs_post (st1, ?sh) r"
        using that st1 Suc.prems(2) s by (intro Suc.IH) (simp_all add: same_lines_def)
    qed
    have skip: "qbs_post s r" if "qbs_loop n fwd cntlr s = Inr r"
      using that Suc.prems by (intro Suc.IH) simp_all
    show ?thesis
      using Suc.prems(3) Some rej st1(1) fin again skip by (auto simp: s Let_def split: if_splits)
  qed
qed

lemma qbs_loop_total:
  assumes "lru_ok s" "n \<le> m_num_attempts (fst s)"
  shows "\<exists>r. qbs_loop n fwd (Some q) s = Inr r"
  using assms
proof (induction n arbitrary: s)
  case 0
  then show ?case by (cases s) simp
next
  case (Suc n)
  obtain st sh where s: "s = (st, sh)" by fastforce
  show ?case
  proof (cases "find_victim st")
    case None
    then show ?thesis by (simp add: s)
  next
    case (Some w)
    have ok: "lru_ok (st, sh)" using Suc.prems s by simp
    obtain rej where rej: "qbs_reject (Some q) (m_superblock_info_ways st ! w) = Inr rej"
      using qbs_reject_total by blast
    from moveToMRU_last [OF ok] find_victim_SomeD [OF Some ok] obtain st1 where
      st1: "moveToMRU w st = Inr st1" "lru_ok (st1, sh)" "same_lines (st, sh) (st1, sh)" by blast
    have n: "m_num_attempts st1 = m_num_attempts st" using st1(3) by (simp add: same_lines_def)
    from incrementAttempt_ok [OF st1(2), of "m_num_attempts st - Suc n"] Suc.prems(2) n s obtain sh1
      where "incrementAttempt (m_num_attempts st - Suc n) sh = Inr sh1" by auto
    moreover from Suc.IH [of "(st1, sh\<lparr> qbs_lookups := qbs_lookups sh + 1 \<rparr>)"] st1(2) Suc.prems(2) n s
    obtain r1 where "qbs_loop n fwd (Some q) (st1, sh\<lparr> qbs_lookups := qbs_lookups sh + 1 \<rparr>) = Inr r1" by auto
    moreover from Suc.IH [of s] Suc.prems obtain r2 where "qbs_loop n fwd (Some q) (st, sh) = Inr r2"
      by (auto simp: s)
    ultimately show ?thesis using Some rej st1(1)
      by (cases r1; cases r2; cases fwd; cases rej) (simp_all add: s Let_def)
  qed
qed

interpretation qbs: replacement_policy qbs_getReplacementWay qbs_updateReplacementWay
proof
  fix s s' :: set_state and fwd cntlr w
  obtain st sh where s: "s = (st, sh)" by fastforce
  assume ok: "lru_ok s"
  have move: "\<exists>st'. moveToMRU w st = Inr st' \<and> lru_ok (st', sh) \<and> same_lines (st, sh) (st', sh) \<and>
      last (m_lru_priorities st') = w" if "w < m_associativity st" for w
    using ok s moveToMRU_last [OF _ that] by blast
  show "\<exists>r. qbs_getReplacementWay fwd (Some q) s = Inr r" for q
  proof (cases "find_unallocated st")
    case None
    then show ?thesis using qbs_loop_total [OF ok, of "m_num_attempts st"] s
      by (simp add: qbs_getReplacementWay_def)
  next
    case (Some i)
    then show ?thesis using move [of i] find_unallocated_SomeD [OF Some] s
      by (auto simp: qbs_getReplacementWay_def)
  qed
  show "\<exists>w s'. qbs_getReplacementWay fwd cntlr s = Inr (w, s') \<and> w < m_associativity (fst s) \<and>
        \<not> sb_isValid (m_superblock_info_ways (fst s) ! w)"
    if i: "i < m_associativity (fst s)" "\<not> sb_isValid (m_superblock_info_ways (fst s) ! i)" for i
  proof -
    obtain j where "find_unallocated st = Some j" using find_unallocated_ex i s by auto
    with move [of j] find_unallocated_SomeD [OF this] s show ?thesis
      by (auto simp: qbs_getReplacementWay_def)
  qed
  assume r: "qbs_getReplacementWay fwd cntlr s = Inr (w, s')"
  have cases: "qbs_post s (w, s') \<or> (find_unallocated st = Some w \<and> same_lines s s' \<and> lru_ok s' \<and>
      last (m_lru_priorities (fst s')) = w)"
  proof (cases "find_unallocated st")
    case None
    then have "qbs_loop (m_num_attempts st) fwd cntlr s = Inr (w, s')"
      using r s by (simp add: qbs_getReplacementWay_def)
    then have "qbs_post s (w, s')" by (rule qbs_loop_post [OF ok, rotated]) (simp add: s)
    then show ?thesis ..
  next
    case (Some i)
    then show ?thesis using r s move [of i] find_unallocated_SomeD [OF Some]
      by (auto simp: qbs_getReplacementWay_def res_simps)
  qed
  show "same_lines s s' \<and> lru_ok s' \<and> w \<le> m_associativity (fst s) \<and>
      (w < m_associativity (fst s) \<longrightarrow> last (m_lru_priorities (fst s')) = w)"
    using cases find_unallocated_SomeD [of st w] s by (auto simp: qbs_post_def)
  show "\<not> sb_isValid (m_superblock_info_ways (fst s) ! w) \<or> cs_isValidReplacement (fst s) w"
    if "w < m_associativity (fst s)"
    using cases that find_unallocated_SomeD [of st w] s by (auto simp: qbs_post_def)
next
  fix s :: set_state and w
  assume "lru_ok s" "w < m_associativity (fst s)"
  then show "\<exists>s'. qbs_updateReplacementWay w s = Inr s' \<and> same_lines s s' \<and> lru_ok s' \<and>
        m_lru_priorities (fst s') = remove1 w (m_lru_priorities (fst s)) @ [w]"
    by (rule touch_moves) (simp add: qbs_updateReplacementWay_def)
qed

section \<open>The virtual calls\<close>

definition policy_ok :: "set_state \<Rightarrow> bool" where
  "policy_ok s \<longleftrightarrow> lru_ok s \<and> m_policy (fst s) \<in> {LRU, LRU_QBS}"

lemma getReplacementWay_keeps:
  assumes "policy_ok s" "getReplacementWay fwd cntlr s = Inr (w, s')"
  shows "same_lines s s'" "policy_ok s'" "w \<le> m_associativity (fst s)"
    "w < m_associativity (fst s) \<Longrightarrow> \<not> sb_isValid (m_superblock_info_ways (fst s) ! w) \<or> cs_isValidReplacement (fst s) w"
  using assms lru.repl_keeps [of s fwd cntlr w s'] qbs.repl_keeps [of s fwd cntlr w s']
    lru.repl_allowed [of s fwd cntlr w s'] qbs.repl_allowed [of s fwd cntlr w s']
  by (auto simp: policy_ok_def getReplacementWay_def same_lines_def)

lemma getReplacementWay_total: "policy_ok s \<Longrightarrow> \<exists>r. getReplacementWay fwd (Some q) s = Inr r"
  using lru.repl_total [of s fwd q] qbs.repl_total [of s fwd q]
  by (auto simp: policy_ok_def getReplacementWay_def)

lemma updateReplacementWay_moves:
  assumes "policy_ok s" "w < m_associativity (fst s)"
  shows "\<exists>s'. updateReplacementWay w s = Inr s' \<and> same_lines s s' \<and> policy_ok s' \<and>
    m_lru_priorities (fst s') = remove1 w (m_lru_priorities (fst s)) @ [w]"
  using assms lru.upd_moves [of s w] qbs.upd_moves [of s w]
  by (auto simp: policy_ok_def updateReplacementWay_def same_lines_def)

section \<open>Properties\<close>

text \<open>C22: under both policies, any sequence of accesses to ways of the set succeeds and leaves the
  list of priorities in order of recency: it is the old list followed by the accesses, with only the
  last occurrence of each way kept. So its head is the least recently used way.\<close>

theorem lru_order_is_recency:
  assumes "lru_ok s" "set ws \<subseteq> {0..<m_associativity (fst s)}"
  shows "(\<exists>s'. fold_r lru_updateReplacementWay ws s = Inr s' \<and> same_lines s s' \<and> lru_ok s' \<and>
      m_lru_priorities (fst s') = remdups (m_lru_priorities (fst s) @ ws)) \<and>
    (\<exists>s'. fold_r qbs_updateReplacementWay ws s = Inr s' \<and> same_lines s s' \<and> lru_ok s' \<and>
      m_lru_priorities (fst s') = remdups (m_lru_priorities (fst s) @ ws))"
  by (intro conjI lru.upd_run [OF assms] qbs.upd_run [OF assms])

definition ex_lru :: set_state where
  "ex_lru =
     (\<lparr> m_policy = LRU, m_associativity = 4, m_set_blocksize = 64,
        m_superblock_info_ways = replicate 4 SuperblockInfo, m_data_ways = replicate 4 (BlockData 64),
        m_evict_bc_write = 0, m_num_attempts = 0, m_lru_priorities = [0, 1, 2, 3] \<rparr>,
      \<lparr> m_compress_cntlr = CacheCompressionCntlr True False False, m_set_info = CacheSetInfoLRU 4,
        qbs_lookups = 0 \<rparr>)"

lemma ex_lru_ok: "lru_ok ex_lru"
  by (auto simp: lru_ok_def ex_lru_def CacheSetInfoLRU_def)

theorem lru_order_is_recency_witness:
  "\<exists>s'. fold_r lru_updateReplacementWay [0, 2, 0] ex_lru = Inr s' \<and> m_lru_priorities (fst s') = [1, 3, 2, 0]"
  using lru_order_is_recency [OF ex_lru_ok, of "[0, 2, 0]"] by (auto simp: ex_lru_def)

lemma qbs_reject_iff:
  assumes "qbs_reject (Some q) sb = Inr rej" "length (m_block_infos sb) = SUPERBLOCK_SIZE"
  shows "rej \<longleftrightarrow> (\<exists>info. Some info \<in> set (m_block_infos sb) \<and> cbi_isValid info \<and> q info)"
proof -
  have len: "length (m_block_infos sb) = 4" using assms(2) by (simp add: dish_consts)
  then obtain a b c d where "m_block_infos sb = [a, b, c, d]"
    by (auto simp: numeral_eq_Suc length_Suc_conv)
  then show ?thesis using assms(1)
    by (auto simp: qbs_reject_def dish_consts upt_rec split: option.splits if_splits)
qed

text \<open>No valid line of a way is in a lower-level cache.\<close>

definition spared :: "(cache_block_info \<Rightarrow> bool) \<Rightarrow> cache_set \<Rightarrow> nat \<Rightarrow> bool" where
  "spared q st w \<longleftrightarrow> (\<forall>info. Some info \<in> set (m_block_infos (m_superblock_info_ways st ! w)) \<and>
     cbi_isValid info \<longrightarrow> \<not> q info)"

lemma spared_code [code]:
  "spared q st w = list_all (\<lambda>p. case p of None \<Rightarrow> True | Some info \<Rightarrow> \<not> (cbi_isValid info \<and> q info))
     (m_block_infos (m_superblock_info_ways st ! w))"
  by (auto simp: spared_def list_all_iff split: option.splits)

definition slots_ok :: "cache_set \<Rightarrow> bool" where
  "slots_ok st \<longleftrightarrow> length (m_superblock_info_ways st) = m_associativity st \<and>
     (\<forall>sb \<in> set (m_superblock_info_ways st). length (m_block_infos sb) = SUPERBLOCK_SIZE)"

text \<open>The ways that may be replaced, least recently used first. A rejected way goes to the end of the
  list, so the attempts go round it.\<close>

definition candidates :: "cache_set \<Rightarrow> nat list" where
  "candidates st = filter (cs_isValidReplacement st) (m_lru_priorities st)"

text \<open>What query-based selection promises with \<open>n\<close> attempts that may reject and one more: the first
  candidate that no lower-level cache holds a line of, among the first \<open>n\<close>; if there is none, the
  candidate it has come to, provided that it is spared or lines may be invalidated below.\<close>

definition qbs_choice :: "nat \<Rightarrow> bool \<Rightarrow> (nat \<Rightarrow> bool) \<Rightarrow> nat list \<Rightarrow> nat option" where
  "qbs_choice n fwd ok cs =
     (case find ok (take n cs) of
        Some v \<Rightarrow> Some v
      | None \<Rightarrow> let c = cs ! (n mod length cs) in if ok c \<or> fwd then Some c else None)"

definition qbs_rejections :: "nat \<Rightarrow> (nat \<Rightarrow> bool) \<Rightarrow> nat list \<Rightarrow> nat" where
  "qbs_rejections n ok cs =
     (case find ok (take n cs) of Some v \<Rightarrow> length (takeWhile (\<lambda>v. \<not> ok v) cs) | None \<Rightarrow> n)"

lemma find_append_no: "\<not> ok c \<Longrightarrow> find ok (take n (cs @ [c])) = find ok (take n cs)"
proof (induction cs arbitrary: n)
  case Nil
  then show ?case by (cases n) simp_all
next
  case (Cons x xs)
  then show ?case by (cases n) simp_all
qed

lemma takeWhile_append_found: "find ok (take n cs) = Some v \<Longrightarrow> takeWhile (\<lambda>v. \<not> ok v) (cs @ ds) = takeWhile (\<lambda>v. \<not> ok v) cs"
  by (auto simp: find_Some_iff dest!: nth_mem in_set_takeD intro: takeWhile_append1)

lemma qbs_choice_reject:
  assumes "\<not> ok c"
  shows "qbs_choice (Suc n) fwd ok (c # cs) = qbs_choice n fwd ok (cs @ [c])"
    "qbs_rejections (Suc n) ok (c # cs) = Suc (qbs_rejections n ok (cs @ [c]))"
proof -
  have "(c # cs) ! (Suc n mod Suc (length cs)) = rotate1 (c # cs) ! (n mod Suc (length cs))"
    by (subst nth_rotate1) (simp_all add: mod_Suc_eq)
  then show "qbs_choice (Suc n) fwd ok (c # cs) = qbs_choice n fwd ok (cs @ [c])"
    using assms by (simp add: qbs_choice_def find_append_no Let_def del: take_append split: option.split)
  show "qbs_rejections (Suc n) ok (c # cs) = Suc (qbs_rejections n ok (cs @ [c]))"
    using assms takeWhile_append_found [of ok n cs _ "[c]"]
    by (simp add: qbs_rejections_def find_append_no del: take_append split: option.splits)
qed

lemma find_victim_candidates: "find_victim st = (case candidates st of [] \<Rightarrow> None | c # _ \<Rightarrow> Some c)"
proof -
  have "find P xs = (case filter P xs of [] \<Rightarrow> None | c # _ \<Rightarrow> Some c)" for P and xs :: "nat list"
    by (induction xs) simp_all
  then show ?thesis by (simp add: find_victim_def candidates_def)
qed

lemma candidates_rotate:
  assumes "lru_ok (st, sh)" "candidates st = c # cs" "m_lru_priorities st' = remove1 c (m_lru_priorities st) @ [c]"
    "same_lines (st, sh) (st', sh')"
  shows "candidates st' = cs @ [c]"
proof -
  have "cs_isValidReplacement st c" using assms(2) by (auto simp: candidates_def filter_eq_Cons_iff)
  moreover have "filter (cs_isValidReplacement st) (remove1 c (m_lru_priorities st)) = cs"
    using assms(2) by (simp add: candidates_def filter_remove1)
  ultimately show ?thesis
    using assms(3) cs_isValidReplacement_same [OF assms(4)] by (simp add: candidates_def)
qed

lemma qbs_reject_spared:
  assumes "slots_ok st" "w < m_associativity st"
  shows "qbs_reject (Some q) (m_superblock_info_ways st ! w) = Inr (\<not> spared q st w)"
proof -
  obtain rej where r: "qbs_reject (Some q) (m_superblock_info_ways st ! w) = Inr rej" using qbs_reject_total by blast
  have "length (m_block_infos (m_superblock_info_ways st ! w)) = SUPERBLOCK_SIZE" using assms by (simp add: slots_ok_def)
  from qbs_reject_iff [OF r this] show ?thesis by (auto simp: r spared_def)
qed

lemma qbs_loop_chooses:
  assumes "lru_ok (st, sh)" "slots_ok st" "Suc n \<le> m_num_attempts st" "candidates st \<noteq> []"
  shows "\<exists>st' sh'. qbs_loop (Suc n) fwd (Some q) (st, sh) =
      Inr (case qbs_choice n fwd (spared q st) (candidates st) of Some w \<Rightarrow> w | None \<Rightarrow> m_associativity st, st', sh') \<and>
    qbs_lookups sh' = qbs_lookups sh + qbs_rejections n (spared q st) (candidates st)"
  using assms
proof (induction n arbitrary: st sh)
  case (Suc n)
  obtain c cs where c: "candidates st = c # cs" using Suc.prems(4) by (cases "candidates st") auto
  have v: "find_victim st = Some c" by (simp add: find_victim_candidates c)
  have w: "c < m_associativity st" using find_victim_SomeD [OF v Suc.prems(1)] by simp
  note rej = qbs_reject_spared [OF Suc.prems(2) w, of q]
  from moveToMRU_ok [OF Suc.prems(1) w] obtain st1 where m: "moveToMRU c st = Inr st1" "lru_ok (st1, sh)"
    "same_lines (st, sh) (st1, sh)" "m_lru_priorities st1 = remove1 c (m_lru_priorities st) @ [c]" .
  have a: "m_num_attempts st - Suc (Suc n) + 1 < m_num_attempts st" using Suc.prems(3) by linarith
  let ?sh = "sh\<lparr> qbs_lookups := qbs_lookups sh + 1 \<rparr>"
  show ?case
  proof (cases "spared q st c")
    case True
    from incrementAttempt_ok [OF m(2), of "m_num_attempts st - Suc (Suc n)"] m(3) Suc.prems(3) obtain sh1 where
      i: "incrementAttempt (m_num_attempts st - Suc (Suc n)) sh = Inr sh1" by (auto simp: same_lines_def)
    then have "qbs_lookups sh1 = qbs_lookups sh" by (auto simp: incrementAttempt_def Let_def res_simps split: if_splits)
    then show ?thesis using v rej m(1) a i True
      by (simp add: Let_def c qbs_choice_def qbs_rejections_def)
  next
    case False
    have sp: "spared q st1 = spared q st" "m_associativity st1 = m_associativity st" "slots_ok st1"
      "m_num_attempts st1 = m_num_attempts st"
      using m(3) Suc.prems(2) by (simp_all add: same_lines_def spared_def [abs_def] slots_ok_def)
    note cs1 = candidates_rotate [OF Suc.prems(1) c m(4,3)]
    from Suc.IH [of st1 ?sh] m(2) sp Suc.prems(3) cs1 obtain st' sh' where
      "qbs_loop (Suc n) fwd (Some q) (st1, ?sh) =
        Inr (case qbs_choice n fwd (spared q st) (cs @ [c]) of Some w \<Rightarrow> w | None \<Rightarrow> m_associativity st, st', sh')"
      "qbs_lookups sh' = qbs_lookups ?sh + qbs_rejections n (spared q st) (cs @ [c])"
      unfolding sp(2) [symmetric] by (auto simp del: qbs_loop.simps)
    moreover have "qbs_loop (Suc (Suc n)) fwd (Some q) (st, sh) = qbs_loop (Suc n) fwd (Some q) (st1, ?sh)"
      using a by (subst qbs_loop.simps) (simp add: Let_def v rej m(1) False del: qbs_loop.simps)
    ultimately show ?thesis using qbs_choice_reject [where ok = "spared q st" and c = c, OF False] by (simp add: c del: qbs_loop.simps)
  qed
next
  case 0
  obtain c cs where c: "candidates st = c # cs" using 0(4) by (cases "candidates st") auto
  have v: "find_victim st = Some c" by (simp add: find_victim_candidates c)
  have w: "c < m_associativity st" using find_victim_SomeD [OF v 0(1)] by simp
  note rej = qbs_reject_spared [OF 0(2) w, of q]
  from moveToMRU_ok [OF 0(1) w] obtain st1 where m: "moveToMRU c st = Inr st1" "lru_ok (st1, sh)"
    "same_lines (st, sh) (st1, sh)" .
  from incrementAttempt_ok [OF m(2), of "m_num_attempts st - 1"] m(3) 0(3) obtain sh1 where
    i: "incrementAttempt (m_num_attempts st - Suc 0) sh = Inr sh1" by (auto simp: same_lines_def)
  then have "qbs_lookups sh1 = qbs_lookups sh" by (auto simp: incrementAttempt_def Let_def res_simps split: if_splits)
  moreover have "\<not> m_num_attempts st - Suc 0 + 1 < m_num_attempts st" using 0(3) by linarith
  ultimately show ?case using v rej m(1) i
    by (auto simp: Let_def c qbs_choice_def qbs_rejections_def)
qed

text \<open>C23: the choice of query-based selection in a set without an empty superblock, with a controller,
  at least one attempt and at least one way that may be replaced, whether or not lines may be
  invalidated in lower-level caches (\<^verbatim>\<open>cache.cc\<close> always allows it). With \<open>n + 1\<close> attempts it takes the
  least recently used candidate of the first \<open>n\<close> that has no valid line in a lower-level cache. If
  there is none it takes the candidate after \<open>n\<close> rejections, counted round the list, when
  invalidation is allowed or that one is spared, and otherwise no way (the associativity). The
  controller's lookup counter rises by one per rejection before the last attempt.\<close>

theorem qbs_spares_lower_levels:
  assumes "lru_ok (st, sh)" "slots_ok st" "m_num_attempts st = Suc n" "candidates st \<noteq> []"
    and full: "\<forall>sb \<in> set (m_superblock_info_ways st). sb_isValid sb"
  shows "\<exists>st' sh'. qbs_getReplacementWay fwd (Some q) (st, sh) =
      Inr (case qbs_choice n fwd (spared q st) (candidates st) of Some w \<Rightarrow> w | None \<Rightarrow> m_associativity st, st', sh') \<and>
    qbs_lookups sh' = qbs_lookups sh + qbs_rejections n (spared q st) (candidates st)"
proof -
  have "find_unallocated st = None"
    using full assms(2) find_unallocated_SomeD [of st] by (cases "find_unallocated st") (auto simp: slots_ok_def)
  with qbs_loop_chooses [OF assms(1,2) _ assms(4), of n fwd q] assms(3) show ?thesis
    by (simp add: qbs_getReplacementWay_def del: qbs_loop.simps)
qed

text \<open>Example: four ways with one line each and three attempts; lower-level caches hold the lines of
  ways 2 and 0, the least recently used ones.\<close>

definition ex_qbs :: set_state where
  "ex_qbs = ((fst ex_lru)\<lparr> m_policy := LRU_QBS, m_num_attempts := 3, m_lru_priorities := [2, 0, 3, 1],
       m_superblock_info_ways := map (\<lambda>t. \<lparr> m_supertag = t,
         m_block_infos = [Some (CacheBlockInfo SHARED_CACHE (4 * t) SHARED 0), None, None, None] \<rparr>) [0, 1, 2, 3] \<rparr>,
     (snd ex_lru)\<lparr> m_set_info := CacheSetInfoLRUQBS 4 3 \<rparr>)"

lemma ex_qbs_ok: "lru_ok ex_qbs" "slots_ok (fst ex_qbs)" "m_num_attempts (fst ex_qbs) = Suc 2"
  "candidates (fst ex_qbs) = [2, 0, 3, 1]" "\<forall>sb \<in> set (m_superblock_info_ways (fst ex_qbs)). sb_isValid sb"
  by code_simp+

theorem qbs_spares_lower_levels_witness:
  "\<exists>st sh. qbs_getReplacementWay True (Some (\<lambda>i. m_tag i \<in> {0, 8})) ex_qbs = Inr (3, st, sh) \<and> qbs_lookups sh = 2"
proof -
  have "qbs_choice 2 True (spared (\<lambda>i. m_tag i \<in> {0, 8}) (fst ex_qbs)) [2, 0, 3, 1] = Some 3"
    "qbs_rejections 2 (spared (\<lambda>i. m_tag i \<in> {0, 8}) (fst ex_qbs)) [2, 0, 3, 1] = 2"
    by code_simp+
  moreover have "qbs_lookups (snd ex_qbs) = 0" by (simp add: ex_qbs_def ex_lru_def)
  ultimately show ?thesis
    using qbs_spares_lower_levels [of "fst ex_qbs" "snd ex_qbs" 2 True "\<lambda>i. m_tag i \<in> {0, 8}"] ex_qbs_ok by auto
qed

end
