(* ===== verification/Cache_Set.thy ===== *)
theory Cache_Set
  imports Replacement
begin

text \<open>
  The operations of a cache set (\<^verbatim>\<open>cache/cache_set.cc\<close>): reading, writing, finding, invalidating and
  inserting lines. The parent cache enters through its geometry, which the set uses to translate
  between tags and addresses. Lines that leave the set are appended to the list of writebacks, as
  address, block info and data.
\<close>

type_synonym writeback = "u64 \<times> cache_block_info \<times> u8 list"

section \<open>Construction\<close>

definition parsePolicyType :: "string \<Rightarrow> ReplacementPolicy res" where
  "parsePolicyType policy =
     (if policy = ''round_robin'' then Inr ROUND_ROBIN
      else if policy = ''lru'' then Inr LRU
      else if policy = ''lru_qbs'' then Inr LRU_QBS
      else if policy = ''nru'' then Inr NRU
      else if policy = ''mru'' then Inr MRU
      else if policy = ''nmru'' then Inr NMRU
      else if policy = ''plru'' then Inr PLRU
      else if policy = ''srrip'' then Inr SRRIP
      else if policy = ''srrip_qbs'' then Inr SRRIP_QBS
      else if policy = ''random'' then Inr RANDOM
      else Inl Log_Error)"

text \<open>The number of attempts comes from the configuration, for the one policy that has it.\<close>

definition getNumQBSAttempts :: "ReplacementPolicy \<Rightarrow> nat \<Rightarrow> nat" where
  "getNumQBSAttempts policy cfg_attempts = (if policy = LRU_QBS then cfg_attempts mod 2 ^ 8 else 1)"

definition CacheSet :: "ReplacementPolicy \<Rightarrow> nat \<Rightarrow> nat \<Rightarrow> nat \<Rightarrow> cache_set" where
  "CacheSet policy associativity blocksize num_attempts =
     \<lparr> m_policy = policy, m_associativity = associativity, m_set_blocksize = blocksize,
       m_superblock_info_ways = replicate associativity SuperblockInfo,
       m_data_ways = replicate associativity (BlockData blocksize), m_evict_bc_write = 0,
       m_num_attempts = num_attempts, m_lru_priorities = [0..<associativity] \<rparr>"

definition createCacheSet :: "string \<Rightarrow> nat \<Rightarrow> nat \<Rightarrow> nat \<Rightarrow> cache_set res" where
  "createCacheSet policy_name associativity blocksize cfg_attempts =
     rbind (parsePolicyType policy_name) (\<lambda>policy.
     case policy of
       LRU \<Rightarrow> Inr (CacheSet LRU associativity blocksize 0)
     | LRU_QBS \<Rightarrow> Inr (CacheSet LRU_QBS associativity blocksize (getNumQBSAttempts policy cfg_attempts))
     | _ \<Rightarrow> Inl Log_Error)"

definition createCacheSetInfo :: "string \<Rightarrow> nat \<Rightarrow> nat \<Rightarrow> cache_set_info res" where
  "createCacheSetInfo policy_name associativity cfg_attempts =
     rbind (parsePolicyType policy_name) (\<lambda>policy.
     case policy of
       LRU \<Rightarrow> Inr (CacheSetInfoLRU associativity)
     | LRU_QBS \<Rightarrow> Inr (CacheSetInfoLRUQBS associativity (getNumQBSAttempts policy cfg_attempts))
     | _ \<Rightarrow> Inl Log_Error)"

section \<open>Finding and reading\<close>

definition cs_peekBlock :: "cache_set \<Rightarrow> nat \<Rightarrow> nat \<Rightarrow> cache_block_info option res" where
  "cs_peekBlock st way block_id =
     (if \<not> way < m_associativity st then Inl Assert_Failed
      else rbind (nth_r (m_superblock_info_ways st) way) (\<lambda>sb. sb_peekBlock sb block_id))"

text \<open>The way and the block info of a resident line.\<close>

definition cs_find :: "cache_set \<Rightarrow> u64 \<Rightarrow> nat \<Rightarrow> (nat \<times> cache_block_info) option res" where
  "cs_find st tag block_id =
     (case find (\<lambda>w. compareTags (m_superblock_info_ways st ! w) tag \<noteq> None) [0..<m_associativity st] of
        None \<Rightarrow> Inr None
      | Some way \<Rightarrow>
          if compareTags (m_superblock_info_ways st ! way) tag \<noteq> Some block_id then Inl Assert_Failed
          else rbind (sb_peekBlock (m_superblock_info_ways st ! way) block_id) (\<lambda>p.
               Inr (map_option (Pair way) p)))"

definition readLine ::
    "nat \<Rightarrow> nat \<Rightarrow> nat \<Rightarrow> nat \<Rightarrow> bool \<Rightarrow> byte_ptr \<Rightarrow> set_state \<Rightarrow> (byte_ptr \<times> set_state) res" where
  "readLine way block_id offset bytes update_replacement rd_data s =
     (if \<not> add32 offset bytes \<le> m_set_blocksize (fst s) then Inl Assert_Failed
      else
        rbind (case rd_data of
                 None \<Rightarrow> Inr None
               | Some _ \<Rightarrow>
                   rbind (nth_r (m_superblock_info_ways (fst s)) way) (\<lambda>superblock_info.
                   rbind (sb_isValid_at superblock_info block_id) (\<lambda>v.
                   if \<not> v then Inl Assert_Failed
                   else rbind (nth_r (m_data_ways (fst s)) way) (\<lambda>super_data.
                        readBlockData super_data block_id offset bytes rd_data)))) (\<lambda>rd.
        rbind (if update_replacement then updateReplacementWay way s else Inr s) (\<lambda>s1.
        Inr (rd, s1))))"

section \<open>Invalidation\<close>

definition put_way :: "nat \<Rightarrow> superblock_info \<Rightarrow> block_data \<Rightarrow> cache_set \<Rightarrow> cache_set" where
  "put_way w sb bd st =
     st\<lparr> m_superblock_info_ways := (m_superblock_info_ways st)[w := sb],
         m_data_ways := (m_data_ways st)[w := bd] \<rparr>"

definition cs_invalidate :: "u64 \<Rightarrow> nat \<Rightarrow> set_state \<Rightarrow> set_state res" where
  "cs_invalidate tag block_id s =
     (case s of (st, sh) \<Rightarrow>
        rbind (cs_find st tag block_id) (\<lambda>found.
        case found of
          None \<Rightarrow> Inr (st, sh)
        | Some (inv_way, _) \<Rightarrow>
            rbind (nth_r (m_superblock_info_ways st) inv_way) (\<lambda>sb.
            rbind (invalidateBlockInfo tag block_id sb) (\<lambda>sb1.
            rbind (nth_r (m_data_ways st) inv_way) (\<lambda>bd.
            rbind (invalidateBlockData bd block_id (m_compress_cntlr sh)) (\<lambda>(bd1, c1).
            Inr (put_way inv_way sb1 bd1 st, sh\<lparr> m_compress_cntlr := c1 \<rparr>)))))))"

section \<open>Insertion\<close>

text \<open>The first insertion attempt: the first way whose superblock can take the tag and whose frame can
  take the data.\<close>

fun find_merge ::
    "cache_set \<Rightarrow> cache_compression_cntlr \<Rightarrow> u64 \<Rightarrow> nat \<Rightarrow> byte_ptr \<Rightarrow> nat list \<Rightarrow> nat option res" where
  "find_merge st c supertag block_id ins_data [] = Inr None"
| "find_merge st c supertag block_id ins_data (w # ws) =
     rbind (canInsertBlockInfo (m_superblock_info_ways st ! w) supertag block_id) (\<lambda>can_info.
     if \<not> can_info then find_merge st c supertag block_id ins_data ws
     else
       rbind (canInsertBlockData (m_data_ways st ! w) block_id ins_data c) (\<lambda>can_data.
       if can_data then Inr (Some w) else find_merge st c supertag block_id ins_data ws))"

text \<open>Data first, then the tag, into way \<open>w\<close>.\<close>

definition insert_at ::
    "nat \<Rightarrow> u64 \<Rightarrow> nat \<Rightarrow> cache_block_info \<Rightarrow> byte_ptr \<Rightarrow> set_state \<Rightarrow> set_state res" where
  "insert_at w supertag block_id info ins_data s =
     (case s of (st, sh) \<Rightarrow>
        rbind (nth_r (m_data_ways st) w) (\<lambda>bd.
        rbind (insertBlockData bd block_id ins_data (m_compress_cntlr sh)) (\<lambda>(bd1, c1).
        rbind (nth_r (m_superblock_info_ways st) w) (\<lambda>sb.
        rbind (insertBlockInfo supertag block_id (Some info) sb) (\<lambda>sb1.
        Inr (put_way w sb1 bd1 st, sh\<lparr> m_compress_cntlr := c1 \<rparr>))))))"

text \<open>One step of the loop that empties the replaced superblock.\<close>

definition evict_block ::
    "cache_base \<Rightarrow> nat \<Rightarrow> nat \<Rightarrow>
     superblock_info \<times> block_data \<times> cache_compression_cntlr \<times> writeback list \<Rightarrow>
     (superblock_info \<times> block_data \<times> cache_compression_cntlr \<times> writeback list) res" where
  "evict_block cb bs i r =
     (case r of (sb, bd, c, wbs) \<Rightarrow>
        rbind (sb_isValid_at sb i) (\<lambda>v.
        if \<not> v then Inr r
        else
          rbind (evictBlockInfo i sb) (\<lambda>(p, sb1).
          case p of
            None \<Rightarrow> Inl Null_Deref
          | Some info \<Rightarrow>
              rbind (tagToAddress cb (m_tag info)) (\<lambda>evict_addr.
              rbind (evictBlockData bd i (Some (replicate bs 0)) c) (\<lambda>(buf, bd1, c1).
              rbind (deref buf) (\<lambda>data.
              Inr (sb1, bd1, c1, wbs @ [(evict_addr, info, data)])))))))"

definition evict_way ::
    "cache_base \<Rightarrow> nat \<Rightarrow> set_state \<times> writeback list \<Rightarrow> (set_state \<times> writeback list) res" where
  "evict_way cb w r =
     (case r of ((st, sh), wbs) \<Rightarrow>
        rbind (nth_r (m_superblock_info_ways st) w) (\<lambda>sb.
        rbind (nth_r (m_data_ways st) w) (\<lambda>bd.
        rbind (fold_r (evict_block cb (m_set_blocksize st)) [0..<SUPERBLOCK_SIZE]
                 (sb, bd, m_compress_cntlr sh, wbs)) (\<lambda>(sb1, bd1, c1, wbs1).
        if sb_isValid sb1 then Inl Assert_Failed
        else Inr ((put_way w sb1 bd1 st, sh\<lparr> m_compress_cntlr := c1 \<rparr>), wbs1)))))"

definition insertLine ::
    "cache_base \<Rightarrow> cache_block_info option \<Rightarrow> byte_ptr \<Rightarrow> bool \<Rightarrow> cache_cntlr \<Rightarrow>
     set_state \<times> writeback list \<Rightarrow> (set_state \<times> writeback list) res" where
  "insertLine cb ins_block_info ins_data allow_fwd_inv cntlr r =
     (case (ins_block_info, r) of
        (None, _) \<Rightarrow> Inl Assert_Failed
      | (Some info, (st, sh), wbs) \<Rightarrow>
          rbind (tagToAddress cb (m_tag info)) (\<lambda>ins_addr.
          rbind (splitAddress cb ins_addr) (\<lambda>sp.
          rbind (find_merge st (m_compress_cntlr sh) (s_supertag sp) (s_block_id sp) ins_data
                   [0..<m_associativity st]) (\<lambda>merge.
          case merge of
            Some w \<Rightarrow>
              rbind (insert_at w (s_supertag sp) (s_block_id sp) info ins_data (st, sh)) (\<lambda>s1.
              Inr (s1, wbs))
          | None \<Rightarrow>
              rbind (getReplacementWay allow_fwd_inv cntlr (st, sh)) (\<lambda>(repl_way, s1).
              if repl_way = m_associativity st then
                rbind (deref ins_data) (\<lambda>d.
                rbind (read_n d 0 (m_set_blocksize st)) (\<lambda>ins_block_data.
                Inr (s1, wbs @ [(ins_addr, info, ins_block_data)])))
              else
                rbind (evict_way cb repl_way (s1, wbs)) (\<lambda>(s2, wbs2).
                rbind (insert_at repl_way (s_supertag sp) (s_block_id sp) info ins_data s2) (\<lambda>s3.
                Inr (s3, wbs2))))))))"

section \<open>Writing\<close>

definition writeLine ::
    "cache_base \<Rightarrow> u64 \<Rightarrow> nat \<Rightarrow> nat \<Rightarrow> byte_ptr \<Rightarrow> nat \<Rightarrow> bool \<Rightarrow> bool \<Rightarrow> cache_cntlr \<Rightarrow>
     set_state \<times> writeback list \<Rightarrow> (set_state \<times> writeback list) res" where
  "writeLine cb tag block_id offset wr_data bytes update_replacement is_writeback cntlr r =
     (case r of ((st, sh), wbs) \<Rightarrow>
        if \<not> add32 offset bytes \<le> m_set_blocksize st then Inl Assert_Failed
        else if \<not> ((wr_data = None \<and> offset = 0 \<and> bytes = 0) \<or> wr_data \<noteq> None) then Inl Assert_Failed
        else
          rbind (cs_find st tag block_id) (\<lambda>found.
          case found of
            None \<Rightarrow> Inl Assert_Failed
          | Some (init_way, _) \<Rightarrow>
              rbind (nth_r (m_superblock_info_ways st) init_way) (\<lambda>sb.
              rbind (nth_r (m_data_ways st) init_way) (\<lambda>bd.
              rbind (canWriteBlockData bd block_id offset wr_data bytes (m_compress_cntlr sh)) (\<lambda>can.
              rbind
                (if can then
                   rbind (writeBlockData bd block_id offset wr_data bytes (m_compress_cntlr sh)) (\<lambda>(bd1, c1).
                   Inr (Some init_way, (put_way init_way sb bd1 st, sh\<lparr> m_compress_cntlr := c1 \<rparr>), wbs))
                 else
                   rbind (evictBlockData bd block_id (Some (replicate (m_set_blocksize st) 0))
                            (m_compress_cntlr sh)) (\<lambda>(buf, bd1, c1).
                   rbind (evictBlockInfo block_id sb) (\<lambda>(mod_block_info, sb1).
                   rbind (deref buf) (\<lambda>mod0.
                   rbind (copy_n (case wr_data of None \<Rightarrow> [] | Some w \<Rightarrow> w) offset bytes mod0 0) (\<lambda>mod_block_data.
                   let st1 = put_way init_way sb1 bd1 (st\<lparr> m_evict_bc_write := m_evict_bc_write st + 1 \<rparr>)
                   in rbind (insertLine cb mod_block_info (Some mod_block_data) (\<not> is_writeback) cntlr
                               ((st1, sh\<lparr> m_compress_cntlr := c1 \<rparr>), wbs)) (\<lambda>r2.
                      if is_writeback then Inr (None, r2)
                      else rbind (cs_find (fst (fst r2)) tag block_id) (\<lambda>found2.
                           case found2 of
                             None \<Rightarrow> Inl Assert_Failed
                           | Some (final_way, _) \<Rightarrow> Inr (Some final_way, r2))))))))
                (\<lambda>(final_way, s2, wbs2).
                   if update_replacement then
                     (case final_way of
                        None \<Rightarrow> Inl Uninitialised
                      | Some w \<Rightarrow> rbind (updateReplacementWay w s2) (\<lambda>s3. Inr (s3, wbs2)))
                   else Inr (s2, wbs2)))))))"

end
