(* ===== verification/Cache_Set_Inv.thy ===== *)
theory Cache_Set_Inv
  imports Cache_Set Block_Data_Safe
begin

text \<open>
  The invariant of a cache set and the lines it holds. Tags and data of a way describe the same
  valid lines, each line has the place its tag asks for, and the priorities are a permutation of the
  ways. \<open>lines st\<close> is the abstract content of a set: the pairs of block info and data bytes it holds.
\<close>

section \<open>Definitions\<close>

definition way_ok :: "cache_base \<Rightarrow> nat \<Rightarrow> superblock_info \<Rightarrow> block_data \<Rightarrow> bool" where
  "way_ok cb bs sb bd \<longleftrightarrow> sb_ok cb sb \<and> frame_ok bd \<and> m_blocksize bd = bs \<and> m_valid bd = valids sb"

definition slot_lines :: "superblock_info \<Rightarrow> block_data \<Rightarrow> nat \<Rightarrow> (cache_block_info \<times> u8 list) set" where
  "slot_lines sb bd i = {(info, d). m_block_infos sb ! i = Some info \<and> cbi_isValid info \<and> d = m_data bd ! i}"

definition way_lines :: "superblock_info \<Rightarrow> block_data \<Rightarrow> (cache_block_info \<times> u8 list) set" where
  "way_lines sb bd = (\<Union>i < SUPERBLOCK_SIZE. slot_lines sb bd i)"

definition set_ok :: "cache_base \<Rightarrow> set_state \<Rightarrow> bool" where
  "set_ok cb s \<longleftrightarrow> policy_ok s \<and> m_set_blocksize (fst s) = m_cb_blocksize cb \<and>
     length (m_superblock_info_ways (fst s)) = m_associativity (fst s) \<and>
     length (m_data_ways (fst s)) = m_associativity (fst s) \<and>
     (\<forall>w < m_associativity (fst s).
        way_ok cb (m_cb_blocksize cb) (m_superblock_info_ways (fst s) ! w) (m_data_ways (fst s) ! w))"

definition lines :: "cache_set \<Rightarrow> (cache_block_info \<times> u8 list) set" where
  "lines st = (\<Union>w < m_associativity st. way_lines (m_superblock_info_ways st ! w) (m_data_ways st ! w))"

definition tags_of :: "(cache_block_info \<times> u8 list) set \<Rightarrow> u64 set" where
  "tags_of L = (\<lambda>l. m_tag (fst l)) ` L"

text \<open>No tag is in two ways.\<close>

definition unique_tags :: "cache_set \<Rightarrow> bool" where
  "unique_tags st \<longleftrightarrow> (\<forall>w w'. w < m_associativity st \<and> w' < m_associativity st \<and> w \<noteq> w' \<longrightarrow>
     tags_of (way_lines (m_superblock_info_ways st ! w) (m_data_ways st ! w)) \<inter>
     tags_of (way_lines (m_superblock_info_ways st ! w') (m_data_ways st ! w')) = {})"

definition wb_lines :: "writeback list \<Rightarrow> (cache_block_info \<times> u8 list) set" where
  "wb_lines wbs = snd ` set wbs"

text \<open>Every written-back line carries the address of its tag.\<close>

definition wb_addrs :: "cache_base \<Rightarrow> writeback list \<Rightarrow> bool" where
  "wb_addrs cb wbs = list_all (\<lambda>wb. tagToAddress cb (m_tag (fst (snd wb))) = Inr (fst wb)) wbs"

section \<open>One way\<close>

lemma way_lines_iff:
  "(info, d) \<in> way_lines sb bd \<longleftrightarrow> (\<exists>i < SUPERBLOCK_SIZE.
     m_block_infos sb ! i = Some info \<and> cbi_isValid info \<and> d = m_data bd ! i)"
  by (auto simp: way_lines_def slot_lines_def)

lemma way_lines_split:
  assumes "blk < SUPERBLOCK_SIZE"
  shows "way_lines sb bd = slot_lines sb bd blk \<union> (\<Union>i \<in> {..<SUPERBLOCK_SIZE} - {blk}. slot_lines sb bd i)"
  using assms by (auto simp: way_lines_def)

text \<open>Changing one slot of a way.\<close>

lemma way_lines_update:
  assumes "m_block_infos sb1 = (m_block_infos sb)[blk := p]" "m_data bd1 = (m_data bd)[blk := x]"
    "blk < SUPERBLOCK_SIZE"
  shows "way_lines sb1 bd1 = slot_lines sb1 bd1 blk \<union> (\<Union>i \<in> {..<SUPERBLOCK_SIZE} - {blk}. slot_lines sb bd i)"
proof -
  have "slot_lines sb1 bd1 i = slot_lines sb bd i" if "i \<in> {..<SUPERBLOCK_SIZE} - {blk}" for i
    using that assms(1,2) by (simp add: slot_lines_def)
  then show ?thesis using way_lines_split [OF assms(3), of sb1 bd1] by simp
qed

lemma slot_lines_empty: "\<not> slot_valid (m_block_infos sb ! i) \<Longrightarrow> slot_lines sb bd i = {}"
  by (auto simp: slot_lines_def slot_valid_iff)

lemma slot_lines_valid: "m_block_infos sb ! i = Some info \<Longrightarrow> cbi_isValid info \<Longrightarrow> slot_lines sb bd i = {(info, m_data bd ! i)}"
  by (auto simp: slot_lines_def)

lemma way_ok_valid:
  assumes "way_ok cb bs sb bd" "i < SUPERBLOCK_SIZE"
  shows "m_valid bd ! i = slot_valid (m_block_infos sb ! i)" "i < length (m_valid bd)"
    "i < length (m_block_infos sb)" "i < length (m_data bd)" "length (m_data bd ! i) = bs"
  using assms shape_ok_rows(5,6) [of bd i]
  by (auto simp: way_ok_def valids_def sb_ok_def frame_ok_def shape_ok_def)

lemma way_ok_isValid:
  assumes "way_ok cb bs sb bd"
  shows "bd_isValid bd = sb_isValid sb"
proof -
  have len: "length (m_block_infos sb) = SUPERBLOCK_SIZE" using assms by (simp add: way_ok_def sb_ok_def)
  show ?thesis using way_ok_valid(1) [OF assms] sb_isValid_iff [OF len]
    by (auto simp: bd_isValid_def list_ex_iff)
qed

lemma way_ok_new: "bs < 2 ^ 32 \<Longrightarrow> way_ok cb bs SuperblockInfo (BlockData bs)"
  by (simp add: way_ok_def sb_ok_SuperblockInfo frame_ok_def BlockData_def changeScheme_same
      shape_ok_def dict_ok_def)

text \<open>Tags within a way are distinct: the tag determines the position.\<close>

lemma way_tag_place:
  assumes "way_ok cb bs sb bd" "(info, d) \<in> way_lines sb bd"
  shows "tag_place cb (m_tag info) = (m_supertag sb, snd (tag_place cb (m_tag info)))"
    "m_block_infos sb ! snd (tag_place cb (m_tag info)) = Some info"
    "d = m_data bd ! snd (tag_place cb (m_tag info))"
  using assms by (force simp: way_lines_iff way_ok_def sb_ok_def)+

lemma way_line_unique:
  "way_ok cb bs sb bd \<Longrightarrow> l \<in> way_lines sb bd \<Longrightarrow> l' \<in> way_lines sb bd \<Longrightarrow>
     m_tag (fst l) = m_tag (fst l') \<Longrightarrow> l = l'"
  using way_tag_place [of cb bs sb bd] by (cases l; cases l') (metis fst_conv option.inject)

lemma insert_way:
  assumes ok: "way_ok cb bs sb bd" and can: "canInsertBlockInfo sb st blk = Inr True"
    and place: "tag_place cb (m_tag info) = (st, blk)" and v: "cbi_isValid info"
    and bd1: "insertBlockData bd blk ins c = Inr (bd1, c1)"
  shows "\<exists>sb1. insertBlockInfo st blk (Some info) sb = Inr sb1 \<and> way_ok cb bs sb1 bd1 \<and>
    way_lines sb1 bd1 = insert (info, case ins of None \<Rightarrow> m_data bd ! blk | Some w \<Rightarrow> take bs w)
      (way_lines sb bd)"
proof -
  have ok': "sb_ok cb sb" "frame_ok bd" "m_blocksize bd = bs" "m_valid bd = valids sb"
    using ok by (auto simp: way_ok_def)
  from insertBlockInfo_ok [OF ok'(1) can place v] obtain sb1 where sb1:
    "insertBlockInfo st blk (Some info) sb = Inr sb1" "sb_ok cb sb1"
    "m_block_infos sb1 = (m_block_infos sb)[blk := Some info]" "valids sb1 = (valids sb)[blk := True]" by blast
  note e = insertBlockData_effect [OF bd1 ok'(2)]
  have blk: "blk < SUPERBLOCK_SIZE" "\<not> slot_valid (m_block_infos sb ! blk)"
    using e way_ok_valid(1) [OF ok] by auto
  have len: "blk < length (m_block_infos sb)" "blk < length (m_data bd)"
    using way_ok_valid(3,4) [OF ok blk(1)] by auto
  let ?d = "case ins of None \<Rightarrow> m_data bd ! blk | Some w \<Rightarrow> take bs w"
  have data: "m_data bd1 = (m_data bd)[blk := ?d]"
    using e ok'(3) by (auto split: option.splits)
  have "slot_lines sb1 bd1 blk = {(info, ?d)}"
    using slot_lines_valid [of sb1 blk info bd1] sb1(3) data len v by simp
  then have "way_lines sb1 bd1 = insert (info, ?d) (way_lines sb bd)"
    using way_lines_update [OF sb1(3) data blk(1)] way_lines_split [OF blk(1), of sb bd]
      slot_lines_empty [OF blk(2)] by simp
  with sb1 e ok' show ?thesis by (auto simp: way_ok_def)
qed

lemma counted_trans: "counted c b c1 b1 \<Longrightarrow> counted c1 b1 c2 b2 \<Longrightarrow> counted c b c2 b2"
  by (auto simp: counted_def)

lemma evictBlockData_total:
  assumes "frame_ok b" "blk < SUPERBLOCK_SIZE" "m_valid b ! blk" "length buf = m_blocksize b"
  shows "\<exists>r. evictBlockData b blk (Some buf) c = Inr r"
proof -
  have sh: "shape_ok b" "m_scheme b \<noteq> scheme_t.INVALID" using assms(1) by (auto simp: frame_ok_def)
  have len: "blk < length (m_valid b)" using sh assms(2) by (simp add: shape_ok_def)
  obtain b2 where "maybe_compact c (clear_line blk b) = Inr b2"
    using maybe_compact_total [of "clear_line blk b" c] sh by auto
  then show ?thesis
    using assms len shape_ok_rows(5,6) [OF sh(1) assms(2)]
    by (auto simp: evictBlockData_def copy_n_def Let_def)
qed

lemma evict_slot:
  assumes ok: "way_ok cb bs sb bd" and i: "i < SUPERBLOCK_SIZE"
    and info: "m_block_infos sb ! i = Some info" "cbi_isValid info"
  shows "\<exists>sb1 bd1 c1. evictBlockInfo i sb = Inr (Some info, sb1) \<and>
    evictBlockData bd i (Some (replicate bs 0)) c = Inr (Some (m_data bd ! i), bd1, c1) \<and>
    way_ok cb bs sb1 bd1 \<and> counted c bd c1 bd1 \<and>
    way_lines sb bd = insert (info, m_data bd ! i) (way_lines sb1 bd1) \<and>
    m_tag info \<notin> tags_of (way_lines sb1 bd1) \<and> m_block_infos sb1 = (m_block_infos sb)[i := None]"
proof -
  have ok': "sb_ok cb sb" "frame_ok bd" "m_blocksize bd = bs" "m_valid bd = valids sb"
    using ok by (auto simp: way_ok_def)
  from evictBlockInfo_ok [OF ok'(1) i] info obtain sb1 where sb1:
    "evictBlockInfo i sb = Inr (Some info, sb1)" "sb_ok cb sb1"
    "m_block_infos sb1 = (m_block_infos sb)[i := None]" "valids sb1 = (valids sb)[i := False]" by auto
  have v: "m_valid bd ! i" using way_ok_valid(1) [OF ok i] info by simp
  from evictBlockData_total [OF ok'(2) i v, of "replicate bs 0" c] obtain buf bd1 c1 where
    bd1: "evictBlockData bd i (Some (replicate bs 0)) c = Inr (buf, bd1, c1)" using ok'(3) by auto
  note e = evictBlockData_effect [OF bd1 ok'(2)]
  have len: "length (m_data bd ! i) = bs" "i < length (m_data bd)" "i < length (m_block_infos sb)"
    using way_ok_valid [OF ok i] by auto
  have buf: "buf = Some (m_data bd ! i)" using e len by simp
  have ok1: "way_ok cb bs sb1 bd1" using e sb1 ok' by (simp add: way_ok_def)
  have data: "m_data bd1 = (m_data bd)[i := replicate bs 0]" using e ok'(3) by simp
  have rest: "way_lines sb1 bd1 = (\<Union>j \<in> {..<SUPERBLOCK_SIZE} - {i}. slot_lines sb bd j)"
    using way_lines_update [OF sb1(3) data i] slot_lines_empty [of sb1 i bd1] sb1(3) len by simp
  have all: "way_lines sb bd = insert (info, m_data bd ! i) (way_lines sb1 bd1)"
    using way_lines_split [OF i, of sb bd] slot_lines_valid [OF info] rest by simp
  have "m_tag info \<notin> tags_of (way_lines sb1 bd1)"
  proof
    assume "m_tag info \<in> tags_of (way_lines sb1 bd1)"
    then obtain l where l: "l \<in> way_lines sb1 bd1" "m_tag (fst l) = m_tag info" by (auto simp: tags_of_def)
    then have "m_block_infos sb1 ! snd (tag_place cb (m_tag info)) = Some (fst l)"
      using way_tag_place(2) [OF ok1, of "fst l" "snd l"] by simp
    moreover have "snd (tag_place cb (m_tag info)) = i"
      using ok'(1) i info by (simp add: sb_ok_def)
    ultimately show False using sb1(3) len by simp
  qed
  with sb1 bd1 buf ok1 e all show ?thesis by blast
qed

definition evicted ::
    "cache_base \<Rightarrow> nat \<Rightarrow> superblock_info \<times> block_data \<times> cache_compression_cntlr \<times> writeback list \<Rightarrow>
     superblock_info \<times> block_data \<times> cache_compression_cntlr \<times> writeback list \<Rightarrow> bool" where
  "evicted cb bs r r' \<longleftrightarrow> (case (r, r') of ((sb, bd, c, wbs), (sb', bd', c', wbs')) \<Rightarrow>
     way_ok cb bs sb' bd' \<and> counted c bd c' bd' \<and>
     (\<exists>new. wbs' = wbs @ new \<and> wb_addrs cb new \<and> way_lines sb bd = way_lines sb' bd' \<union> wb_lines new \<and>
        tags_of (way_lines sb' bd') \<inter> tags_of (wb_lines new) = {}))"

lemma evicted_refl: "way_ok cb bs sb bd \<Longrightarrow> evicted cb bs (sb, bd, c, wbs) (sb, bd, c, wbs)"
  by (auto simp: evicted_def counted_refl wb_addrs_def wb_lines_def tags_of_def)

lemma tags_of_Un [simp]: "tags_of (A \<union> B) = tags_of A \<union> tags_of B" "tags_of (insert x A) = insert (m_tag (fst x)) (tags_of A)"
  "tags_of {} = {}"
  by (auto simp: tags_of_def)

lemma wb_lines_simps [simp]: "wb_lines (xs @ ys) = wb_lines xs \<union> wb_lines ys" "wb_lines [] = {}"
  "wb_lines [(a, info, d)] = {(info, d)}"
  by (auto simp: wb_lines_def)

lemma wb_addrs_simps [simp]: "wb_addrs cb (xs @ ys) = (wb_addrs cb xs \<and> wb_addrs cb ys)" "wb_addrs cb []"
  "wb_addrs cb [(a, info, d)] = (tagToAddress cb (m_tag info) = Inr a)"
  by (auto simp: wb_addrs_def)

lemma evicted_trans:
  assumes "evicted cb bs r s" "evicted cb bs s t"
  shows "evicted cb bs r t"
proof -
  obtain sb bd c wbs sb' bd' c' wbs' sb'' bd'' c'' wbs'' where
    rst: "r = (sb, bd, c, wbs)" "s = (sb', bd', c', wbs')" "t = (sb'', bd'', c'', wbs'')"
    by (metis prod.exhaust)
  from assms obtain new new' where n: "wbs' = wbs @ new" "wb_addrs cb new"
    "way_lines sb bd = way_lines sb' bd' \<union> wb_lines new" "tags_of (way_lines sb' bd') \<inter> tags_of (wb_lines new) = {}"
    "wbs'' = wbs' @ new'" "wb_addrs cb new'"
    "way_lines sb' bd' = way_lines sb'' bd'' \<union> wb_lines new'" "tags_of (way_lines sb'' bd'') \<inter> tags_of (wb_lines new') = {}"
    by (auto simp: evicted_def rst)
  have "\<exists>m. wbs'' = wbs @ m \<and> wb_addrs cb m \<and> way_lines sb bd = way_lines sb'' bd'' \<union> wb_lines m \<and>
      tags_of (way_lines sb'' bd'') \<inter> tags_of (wb_lines m) = {}"
    using n by (intro exI [of _ "new @ new'"]) auto
  moreover have "counted c bd c'' bd''" using assms by (auto simp: evicted_def rst intro: counted_trans)
  ultimately show ?thesis using assms by (simp add: evicted_def rst)
qed

lemma evict_block_step:
  assumes geo: "geometry_ok cb" and ok: "way_ok cb bs sb bd" and i: "i < SUPERBLOCK_SIZE"
  shows "\<exists>r'. evict_block cb bs i (sb, bd, c, wbs) = Inr r' \<and> evicted cb bs (sb, bd, c, wbs) r' \<and>
    m_block_infos (fst r') = (if slot_valid (m_block_infos sb ! i) then (m_block_infos sb)[i := None]
      else m_block_infos sb)"
proof (cases "slot_valid (m_block_infos sb ! i)")
  case False
  then show ?thesis using way_ok_valid(3) [OF ok i] evicted_refl [OF ok]
    by (simp add: evict_block_def sb_isValid_at_def)
next
  case True
  then obtain info where info: "m_block_infos sb ! i = Some info" "cbi_isValid info" by (auto simp: slot_valid_iff)
  from evict_slot [OF ok i info, of c] obtain sb1 bd1 c1 where e: "evictBlockInfo i sb = Inr (Some info, sb1)"
    "evictBlockData bd i (Some (replicate bs 0)) c = Inr (Some (m_data bd ! i), bd1, c1)"
    "way_ok cb bs sb1 bd1" "counted c bd c1 bd1"
    "way_lines sb bd = insert (info, m_data bd ! i) (way_lines sb1 bd1)"
    "m_tag info \<notin> tags_of (way_lines sb1 bd1)" "m_block_infos sb1 = (m_block_infos sb)[i := None]" by blast
  obtain a where a: "tagToAddress cb (m_tag info) = Inr a" using split_of_tag [OF geo] by blast
  have "evict_block cb bs i (sb, bd, c, wbs) = Inr (sb1, bd1, c1, wbs @ [(a, info, m_data bd ! i)])"
    using e(1,2) a info way_ok_valid(3) [OF ok i] by (simp add: evict_block_def sb_isValid_at_def)
  moreover have "evicted cb bs (sb, bd, c, wbs) (sb1, bd1, c1, wbs @ [(a, info, m_data bd ! i)])"
    using e(3-6) a by (auto simp: evicted_def)
  ultimately show ?thesis using e(7) True by auto
qed

lemma evict_block_fold:
  assumes geo: "geometry_ok cb" and ok: "way_ok cb bs sb bd" and sub: "set is \<subseteq> {..<SUPERBLOCK_SIZE}"
  shows "\<exists>r'. fold_r (evict_block cb bs) is (sb, bd, c, wbs) = Inr r' \<and> evicted cb bs (sb, bd, c, wbs) r' \<and>
    (\<forall>i < SUPERBLOCK_SIZE. slot_valid (m_block_infos (fst r') ! i) \<longrightarrow>
       slot_valid (m_block_infos sb ! i) \<and> i \<notin> set is)"
  using ok sub
proof (induction "is" arbitrary: sb bd c wbs)
  case Nil
  then show ?case using evicted_refl by simp
next
  case (Cons i "is")
  have i: "i < SUPERBLOCK_SIZE" using Cons.prems(2) by simp
  from evict_block_step [OF geo Cons.prems(1) i, of c wbs] obtain sb1 bd1 c1 wbs1 where
    st: "evict_block cb bs i (sb, bd, c, wbs) = Inr (sb1, bd1, c1, wbs1)"
    "evicted cb bs (sb, bd, c, wbs) (sb1, bd1, c1, wbs1)"
    "m_block_infos sb1 = (if slot_valid (m_block_infos sb ! i) then (m_block_infos sb)[i := None]
      else m_block_infos sb)" by auto
  have ok1: "way_ok cb bs sb1 bd1" using st(2) by (simp add: evicted_def)
  from Cons.IH [OF ok1, of c1 wbs1] Cons.prems(2) obtain r' where
    r': "fold_r (evict_block cb bs) is (sb1, bd1, c1, wbs1) = Inr r'" "evicted cb bs (sb1, bd1, c1, wbs1) r'"
    "\<forall>i < SUPERBLOCK_SIZE. slot_valid (m_block_infos (fst r') ! i) \<longrightarrow>
       slot_valid (m_block_infos sb1 ! i) \<and> i \<notin> set is" by auto
  have "slot_valid (m_block_infos sb1 ! j) \<Longrightarrow> slot_valid (m_block_infos sb ! j) \<and> j \<noteq> i" for j
    using st(3) way_ok_valid(3) [OF Cons.prems(1) i] by (cases "j = i") (auto split: if_splits)
  then show ?case using st(1) r' evicted_trans [OF st(2) r'(2)] by (intro exI [of _ r']) auto
qed

section \<open>Replacing one way\<close>

definition other_lines :: "nat \<Rightarrow> cache_set \<Rightarrow> (cache_block_info \<times> u8 list) set" where
  "other_lines w st = (\<Union>v \<in> {..<m_associativity st} - {w}.
     way_lines (m_superblock_info_ways st ! v) (m_data_ways st ! v))"

text \<open>The number of frames in a scheme, and that the controller's counters moved with them while its
  switches and the dimensions of the set stayed.\<close>

definition frames_in :: "scheme_t \<Rightarrow> cache_set \<Rightarrow> int" where
  "frames_in s st = int (length (filter (\<lambda>b. m_scheme b = s) (m_data_ways st)))"

definition set_counted :: "set_state \<Rightarrow> set_state \<Rightarrow> bool" where
  "set_counted s s' \<longleftrightarrow>
     (let c = m_compress_cntlr (snd s); c' = m_compress_cntlr (snd s')
      in m_compressible c' = m_compressible c \<and> m_change_scheme_otf c' = m_change_scheme_otf c \<and>
         m_prune_dish_entries c' = m_prune_dish_entries c \<and>
         num_scheme1 c' - num_scheme1 c = frames_in SCHEME1 (fst s') - frames_in SCHEME1 (fst s) \<and>
         num_scheme2 c' - num_scheme2 c = frames_in SCHEME2 (fst s') - frames_in SCHEME2 (fst s) \<and>
         m_associativity (fst s') = m_associativity (fst s) \<and>
         m_num_attempts (fst s') = m_num_attempts (fst s))"

lemma put_way_simps [simp]:
  "m_policy (put_way w sb bd st) = m_policy st" "m_associativity (put_way w sb bd st) = m_associativity st"
  "m_set_blocksize (put_way w sb bd st) = m_set_blocksize st"
  "m_superblock_info_ways (put_way w sb bd st) = (m_superblock_info_ways st)[w := sb]"
  "m_data_ways (put_way w sb bd st) = (m_data_ways st)[w := bd]"
  "m_evict_bc_write (put_way w sb bd st) = m_evict_bc_write st"
  "m_num_attempts (put_way w sb bd st) = m_num_attempts st"
  "m_lru_priorities (put_way w sb bd st) = m_lru_priorities st"
  by (simp_all add: put_way_def)

lemma set_ok_wayD:
  assumes "set_ok cb s" "w < m_associativity (fst s)"
  shows "way_ok cb (m_cb_blocksize cb) (m_superblock_info_ways (fst s) ! w) (m_data_ways (fst s) ! w)"
    "w < length (m_superblock_info_ways (fst s))" "w < length (m_data_ways (fst s))"
  using assms by (simp_all add: set_ok_def)

lemma put_way_set_ok:
  assumes "set_ok cb (st, sh)" "way_ok cb (m_cb_blocksize cb) sb bd"
  shows "set_ok cb (put_way w sb bd st, sh\<lparr> m_compress_cntlr := c \<rparr>)"
proof -
  have "way_ok cb (m_cb_blocksize cb) ((m_superblock_info_ways st)[w := sb] ! v) ((m_data_ways st)[w := bd] ! v)"
    if "v < m_associativity st" for v
    using assms that by (cases "v = w") (auto simp: set_ok_def)
  then show ?thesis using assms by (auto simp: set_ok_def policy_ok_def lru_ok_def)
qed

lemma lines_way:
  "w < m_associativity st \<Longrightarrow>
     lines st = way_lines (m_superblock_info_ways st ! w) (m_data_ways st ! w) \<union> other_lines w st"
  by (auto simp: lines_def other_lines_def)

lemma lines_put_way:
  assumes "set_ok cb (st, sh)" "w < m_associativity st"
  shows "lines (put_way w sb bd st) = way_lines sb bd \<union> other_lines w st"
proof -
  have "other_lines w (put_way w sb bd st) = other_lines w st" by (simp add: other_lines_def)
  then show ?thesis
    using lines_way [of w "put_way w sb bd st"] assms by (simp add: set_ok_def)
qed

lemma unique_other:
  assumes "unique_tags st" "w < m_associativity st"
  shows "tags_of (way_lines (m_superblock_info_ways st ! w) (m_data_ways st ! w)) \<inter> tags_of (other_lines w st) = {}"
proof -
  have "tags_of (other_lines w st) = (\<Union>v \<in> {..<m_associativity st} - {w}.
     tags_of (way_lines (m_superblock_info_ways st ! v) (m_data_ways st ! v)))"
    by (auto simp: tags_of_def other_lines_def)
  then show ?thesis using assms by (force simp: unique_tags_def)
qed

lemma unique_put_way:
  assumes "unique_tags st" "set_ok cb (st, sh)" "w < m_associativity st"
    "tags_of (way_lines sb bd) \<inter> tags_of (other_lines w st) = {}"
  shows "unique_tags (put_way w sb bd st)"
proof -
  let ?L = "\<lambda>v. way_lines (m_superblock_info_ways st ! v) (m_data_ways st ! v)"
  have new: "tags_of (way_lines sb bd) \<inter> tags_of (?L v) = {}" if "v < m_associativity st" "v \<noteq> w" for v
    using assms(4) that by (auto simp: tags_of_def other_lines_def)
  have old: "tags_of (?L u) \<inter> tags_of (?L v) = {}"
    if "u < m_associativity st" "v < m_associativity st" "u \<noteq> v" for u v
    using assms(1) that by (simp add: unique_tags_def)
  have len: "w < length (m_superblock_info_ways st)" "w < length (m_data_ways st)"
    using set_ok_wayD [OF assms(2)] assms(3) by simp_all
  show ?thesis
    unfolding unique_tags_def
  proof (intro allI impI, elim conjE)
    fix u v
    assume uv: "u < m_associativity (put_way w sb bd st)" "v < m_associativity (put_way w sb bd st)" "u \<noteq> v"
    show "tags_of (way_lines (m_superblock_info_ways (put_way w sb bd st) ! u) (m_data_ways (put_way w sb bd st) ! u)) \<inter>
      tags_of (way_lines (m_superblock_info_ways (put_way w sb bd st) ! v) (m_data_ways (put_way w sb bd st) ! v)) = {}"
      using uv new [of u] new [of v] old [of u v] len by (cases "u = w"; cases "v = w") auto
  qed
qed

lemma put_way_counted:
  assumes "counted (m_compress_cntlr sh) (m_data_ways st ! w) c bd" "w < length (m_data_ways st)"
  shows "set_counted (st, sh) (put_way w sb bd st, sh\<lparr> m_compress_cntlr := c \<rparr>)"
  using assms length_filter_update [of w "m_data_ways st" "\<lambda>b. m_scheme b = SCHEME1" bd]
    length_filter_update [of w "m_data_ways st" "\<lambda>b. m_scheme b = SCHEME2" bd]
  by (auto simp: set_counted_def counted_def frames_in_def Let_def)

lemma set_counted_trans: "set_counted r s \<Longrightarrow> set_counted s t \<Longrightarrow> set_counted r t"
  by (simp add: set_counted_def Let_def)

text \<open>A replacement policy leaves all this alone.\<close>

lemma same_lines_set_ok: "same_lines s s' \<Longrightarrow> policy_ok s' \<Longrightarrow> set_ok cb s \<Longrightarrow> set_ok cb s'"
  by (simp add: same_lines_def set_ok_def)

lemma same_lines_lines:
  assumes "same_lines s s'"
  shows "lines (fst s') = lines (fst s)" "unique_tags (fst s') = unique_tags (fst s)" "set_counted s s'"
    "other_lines w (fst s') = other_lines w (fst s)"
  using assms by (simp_all add: same_lines_def lines_def unique_tags_def set_counted_def frames_in_def
      other_lines_def Let_def)

section \<open>Finding a line\<close>

lemma compareTags_way:
  assumes "way_ok cb bs sb bd"
  shows "compareTags sb tag = (if tag \<in> tags_of (way_lines sb bd) then Some (snd (tag_place cb tag)) else None)"
proof -
  have sb: "sb_ok cb sb" using assms by (simp add: way_ok_def)
  show ?thesis
  proof (cases "tag \<in> tags_of (way_lines sb bd)")
    case True
    then obtain info i where i: "i < SUPERBLOCK_SIZE" "m_block_infos sb ! i = Some info" "cbi_isValid info" "m_tag info = tag"
      by (auto simp: tags_of_def way_lines_iff)
    then have "snd (tag_place cb tag) = i" using sb by (auto simp: sb_ok_def)
    with i True show ?thesis using compareTags_eq_Some [OF sb, of tag i] by simp
  next
    case False
    have "compareTags sb tag \<noteq> Some i" for i
    proof
      assume "compareTags sb tag = Some i"
      then obtain info where "i < SUPERBLOCK_SIZE" "m_block_infos sb ! i = Some info" "cbi_isValid info" "m_tag info = tag"
        using compareTags_eq_Some [OF sb, of tag i] by blast
      then have "(info, m_data bd ! i) \<in> way_lines sb bd" by (auto simp: way_lines_iff)
      with \<open>m_tag info = tag\<close> False show False by (force simp: tags_of_def)
    qed
    with False show ?thesis by (cases "compareTags sb tag") auto
  qed
qed

lemma cs_find_spec:
  assumes ok: "set_ok cb (st, sh)" and blk: "blk = snd (tag_place cb tag)"
  shows "(tag \<notin> tags_of (lines st) \<and> cs_find st tag blk = Inr None) \<or>
    (\<exists>w info. cs_find st tag blk = Inr (Some (w, info)) \<and> w < m_associativity st \<and> m_tag info = tag \<and>
       m_block_infos (m_superblock_info_ways st ! w) ! blk = Some info \<and> cbi_isValid info)"
proof -
  have way: "compareTags (m_superblock_info_ways st ! w) tag =
      (if tag \<in> tags_of (way_lines (m_superblock_info_ways st ! w) (m_data_ways st ! w)) then Some blk else None)"
    if "w < m_associativity st" for w
    using compareTags_way [OF set_ok_wayD(1) [OF ok]] that blk by simp
  show ?thesis
  proof (cases "find (\<lambda>w. compareTags (m_superblock_info_ways st ! w) tag \<noteq> None) [0..<m_associativity st]")
    case None
    then have "\<forall>w < m_associativity st. compareTags (m_superblock_info_ways st ! w) tag = None"
      by (auto simp: find_None_iff)
    then have "tag \<notin> tags_of (lines st)" using way by (auto simp: tags_of_def lines_def split: if_splits)
    with None show ?thesis by (simp add: cs_find_def)
  next
    case (Some w)
    then have w: "w < m_associativity st" "compareTags (m_superblock_info_ways st ! w) tag = Some blk"
      using find_SomeD [OF Some] way [of w] by (auto split: if_splits)
    have sb: "sb_ok cb (m_superblock_info_ways st ! w)"
      using set_ok_wayD(1) [OF ok] w(1) by (simp add: way_ok_def)
    from compareTags_eq_Some [OF sb, of tag blk] w(2) obtain info where
      "blk < SUPERBLOCK_SIZE" "m_block_infos (m_superblock_info_ways st ! w) ! blk = Some info"
      "cbi_isValid info" "m_tag info = tag" by auto
    with Some w sb show ?thesis by (auto simp: cs_find_def sb_peekBlock_def)
  qed
qed

end
