(* ===== verification/Cache_Set_Ops.thy ===== *)
theory Cache_Set_Ops
  imports Cache_Set_Inv
begin

text \<open>
  What the operations of a cache set do to the lines it holds, and that they keep its invariant.
\<close>

section \<open>Inserting into a given way\<close>

definition inserted_data :: "block_data \<Rightarrow> nat \<Rightarrow> byte_ptr \<Rightarrow> nat \<Rightarrow> u8 list" where
  "inserted_data bd blk ins bs = (case ins of None \<Rightarrow> m_data bd ! blk | Some w \<Rightarrow> take bs w)"

text \<open>\<open>fresh st info\<close>: no tag is in two ways, and the tag of the new line is in none.\<close>

definition fresh :: "cache_set \<Rightarrow> cache_block_info \<Rightarrow> bool" where
  "fresh st info \<longleftrightarrow> unique_tags st \<and> m_tag info \<notin> tags_of (lines st)"

lemma insert_at_effect:
  assumes ok: "set_ok cb (st, sh)" and w: "w < m_associativity st"
    and can: "canInsertBlockInfo (m_superblock_info_ways st ! w) stg blk = Inr True"
    and place: "tag_place cb (m_tag info) = (stg, blk)" and v: "cbi_isValid info"
    and r: "insert_at w stg blk info ins (st, sh) = Inr s'"
  shows "set_ok cb s' \<and> set_counted (st, sh) s' \<and>
    lines (fst s') = insert (info, inserted_data (m_data_ways st ! w) blk ins (m_cb_blocksize cb)) (lines st) \<and>
    (fresh st info \<longrightarrow> unique_tags (fst s')) \<and> m_associativity (fst s') = m_associativity st"
proof -
  note way = set_ok_wayD [OF ok, simplified, OF w]
  from r way obtain bd1 c1 sb1 where b: "insertBlockData (m_data_ways st ! w) blk ins (m_compress_cntlr sh) = Inr (bd1, c1)"
    "insertBlockInfo stg blk (Some info) (m_superblock_info_ways st ! w) = Inr sb1"
    "s' = (put_way w sb1 bd1 st, sh\<lparr> m_compress_cntlr := c1 \<rparr>)"
    by (auto simp: insert_at_def res_simps)
  from insert_way [OF way(1) can place v b(1)] b(2) have iw: "way_ok cb (m_cb_blocksize cb) sb1 bd1"
    "way_lines sb1 bd1 = insert (info, inserted_data (m_data_ways st ! w) blk ins (m_cb_blocksize cb))
      (way_lines (m_superblock_info_ways st ! w) (m_data_ways st ! w))"
    by (auto simp: inserted_data_def)
  have c: "counted (m_compress_cntlr sh) (m_data_ways st ! w) c1 bd1"
    using insertBlockData_effect [OF b(1)] way(1) by (simp add: way_ok_def)
  have "unique_tags (put_way w sb1 bd1 st)" if "fresh st info"
  proof (rule unique_put_way [OF _ ok w])
    show "tags_of (way_lines sb1 bd1) \<inter> tags_of (other_lines w st) = {}"
      using that unique_other [OF _ w] lines_way [OF w] iw(2) by (auto simp: fresh_def)
  qed (use that in \<open>simp add: fresh_def\<close>)
  then show ?thesis
    using b(3) put_way_set_ok [OF ok iw(1)] put_way_counted [OF c way(3)] lines_put_way [OF ok w]
      lines_way [OF w] iw(2) by simp
qed

lemma insert_at_total:
  assumes ok: "set_ok cb (st, sh)" and w: "w < m_associativity st"
    and can: "canInsertBlockInfo (m_superblock_info_ways st ! w) stg blk = Inr True"
    and place: "tag_place cb (m_tag info) = (stg, blk)" and v: "cbi_isValid info"
    and r: "\<exists>r. insertBlockData (m_data_ways st ! w) blk ins (m_compress_cntlr sh) = Inr r"
  shows "\<exists>s'. insert_at w stg blk info ins (st, sh) = Inr s'"
proof -
  note way = set_ok_wayD [OF ok, simplified, OF w]
  from r obtain bd1 c1 where "insertBlockData (m_data_ways st ! w) blk ins (m_compress_cntlr sh) = Inr (bd1, c1)"
    by auto
  with insert_way [OF way(1) can place v this] way show ?thesis by (auto simp: insert_at_def)
qed

section \<open>The scan for a way to merge into\<close>

lemma find_merge_Some:
  "find_merge st c stg blk ins ws = Inr (Some w) \<Longrightarrow> w \<in> set ws \<and>
     canInsertBlockInfo (m_superblock_info_ways st ! w) stg blk = Inr True \<and>
     canInsertBlockData (m_data_ways st ! w) blk ins c = Inr True"
  by (induction ws) (auto simp: res_simps split: if_splits)

lemma canInsertBlockData_total:
  assumes ok: "frame_ok b" and blk: "blk < SUPERBLOCK_SIZE" and w: "m_blocksize b \<le> length w"
    and otf: "\<not> canChangeSchemeOTF c"
  shows "\<exists>v. canInsertBlockData b blk (Some w) c = Inr v"
proof -
  have sh: "shape_ok b" "m_scheme b \<noteq> scheme_t.INVALID" using ok by (auto simp: frame_ok_def)
  have bits: "blk < length (m_valid b)" "m_chunks_per_block b * 4 \<le> m_blocksize b"
    using sh blk by (auto simp: shape_ok_def dish_consts)
  have row: "length (m_data b ! blk) = m_blocksize b" using shape_ok_rows(6) [OF sh(1) blk] .
  have t: "test_data b blk 0 0 w (m_blocksize b) = Inr (overwrite 0 (take (m_blocksize b) w) (m_data b ! blk))"
    by (rule test_data_0 [OF sh(1) blk w]) simp
  have rd: "\<exists>cs. rd_chunks w (m_chunks_per_block b) = Inr cs" "\<exists>cs. rd_chunks w (m_blocksize b div GRANULARITY_BYTES) = Inr cs"
    using bits(2) w sh(1) by (auto simp: shape_ok_def dish_consts)
  have s1: "\<exists>v. isScheme1Compressible b blk 0 (Some w) (m_blocksize b) c = Inr v"
    using sh(2) t rd(1) bits row blk otf w
    by (cases "m_scheme b") (auto simp: isScheme1Compressible_def bd_isValid_at_def Let_def)
  have s2: "\<exists>v. isScheme2Compressible b blk 0 (Some w) (m_blocksize b) c = Inr v"
    using sh(2) t rd(2) bits row blk otf w
    by (cases "m_scheme b") (auto simp: isScheme2Compressible_def bd_isValid_at_def Let_def)
  obtain v1 v2 where v: "isScheme1Compressible b blk 0 (Some w) (m_blocksize b) c = Inr v1"
    "isScheme2Compressible b blk 0 (Some w) (m_blocksize b) c = Inr v2" using s1 s2 by blast
  have "getDefaultScheme c = SCHEME1 \<or> getDefaultScheme c = SCHEME2" by (simp add: getDefaultScheme_def)
  then have "\<exists>s. getSchemeForInsertion b blk (Some w) c = Inr s"
    using sh(2) bits(1) otf v by (cases "m_scheme b") (auto simp: getSchemeForInsertion_def Let_def)
  then show ?thesis using bits(1) by (auto simp: canInsertBlockData_def)
qed

lemma find_merge_total:
  assumes ok: "set_ok cb (st, sh)" and blk: "blk < SUPERBLOCK_SIZE" and d: "m_cb_blocksize cb \<le> length d"
    and otf: "\<not> canChangeSchemeOTF c" and ws: "set ws \<subseteq> {..<m_associativity st}"
  shows "\<exists>r. find_merge st c stg blk (Some d) ws = Inr r"
  using ws
proof (induction ws)
  case (Cons w ws)
  then have w: "way_ok cb (m_cb_blocksize cb) (m_superblock_info_ways st ! w) (m_data_ways st ! w)"
    using set_ok_wayD(1) [OF ok] by simp
  obtain v1 where "canInsertBlockInfo (m_superblock_info_ways st ! w) stg blk = Inr v1"
    using canInsertBlockInfo_eq_Inr [of cb _ blk stg] blk w by (auto simp: way_ok_def)
  moreover obtain v2 where "canInsertBlockData (m_data_ways st ! w) blk (Some d) c = Inr v2"
    using canInsertBlockData_total [OF _ blk _ otf] w d by (fastforce simp: way_ok_def)
  ultimately show ?case using Cons by auto
qed simp

section \<open>Emptying a way\<close>

lemma evict_way_effect:
  assumes geo: "geometry_ok cb" and ok: "set_ok cb (st, sh)" and w: "w < m_associativity st"
  shows "\<exists>s' new. evict_way cb w ((st, sh), wbs) = Inr (s', wbs @ new) \<and> set_ok cb s' \<and>
    set_counted (st, sh) s' \<and> wb_addrs cb new \<and> lines (fst s') = other_lines w st \<and>
    way_lines (m_superblock_info_ways st ! w) (m_data_ways st ! w) = wb_lines new \<and>
    \<not> sb_isValid (m_superblock_info_ways (fst s') ! w) \<and> m_associativity (fst s') = m_associativity st \<and>
    (unique_tags st \<longrightarrow> unique_tags (fst s')) \<and>
    snd s' = sh\<lparr> m_compress_cntlr := m_compress_cntlr (snd s') \<rparr>"
proof -
  note way = set_ok_wayD [OF ok, simplified, OF w]
  let ?bs = "m_cb_blocksize cb"
  have bs: "m_set_blocksize st = ?bs" using ok by (simp add: set_ok_def)
  have "set [0..<SUPERBLOCK_SIZE] \<subseteq> {..<SUPERBLOCK_SIZE}" by auto
  from evict_block_fold [OF geo way(1) this, of "m_compress_cntlr sh" wbs] obtain r' where r': "fold_r (evict_block cb ?bs)
      [0..<SUPERBLOCK_SIZE] (m_superblock_info_ways st ! w, m_data_ways st ! w, m_compress_cntlr sh, wbs) = Inr r'"
    "evicted cb ?bs (m_superblock_info_ways st ! w, m_data_ways st ! w, m_compress_cntlr sh, wbs) r'"
    "\<forall>i < SUPERBLOCK_SIZE. slot_valid (m_block_infos (fst r') ! i) \<longrightarrow>
       slot_valid (m_block_infos (m_superblock_info_ways st ! w) ! i) \<and> i \<notin> set [0..<SUPERBLOCK_SIZE]" by blast
  obtain sb1 bd1 c1 wbs1 where rr: "r' = (sb1, bd1, c1, wbs1)" by (cases r')
  have "\<forall>i < SUPERBLOCK_SIZE. \<not> slot_valid (m_block_infos sb1 ! i)"
    using r'(3) unfolding rr by auto
  then have f: "fold_r (evict_block cb ?bs) [0..<SUPERBLOCK_SIZE]
      (m_superblock_info_ways st ! w, m_data_ways st ! w, m_compress_cntlr sh, wbs) = Inr (sb1, bd1, c1, wbs1)"
    "evicted cb ?bs (m_superblock_info_ways st ! w, m_data_ways st ! w, m_compress_cntlr sh, wbs) (sb1, bd1, c1, wbs1)"
    "\<forall>i < SUPERBLOCK_SIZE. \<not> slot_valid (m_block_infos sb1 ! i)"
    using r'(1,2) unfolding rr by blast+
  from f(2) obtain new where e: "way_ok cb ?bs sb1 bd1" "counted (m_compress_cntlr sh) (m_data_ways st ! w) c1 bd1"
    "wbs1 = wbs @ new" "wb_addrs cb new"
    "way_lines (m_superblock_info_ways st ! w) (m_data_ways st ! w) = way_lines sb1 bd1 \<union> wb_lines new"
    by (auto simp: evicted_def)
  have empty: "way_lines sb1 bd1 = {}" using f(3) slot_lines_empty by (auto simp: way_lines_def)
  have "length (m_block_infos sb1) = SUPERBLOCK_SIZE" using e(1) by (simp add: way_ok_def sb_ok_def)
  then have inv: "\<not> sb_isValid sb1" using f(3) sb_isValid_iff by blast
  have run: "evict_way cb w ((st, sh), wbs) =
      Inr ((put_way w sb1 bd1 st, sh\<lparr> m_compress_cntlr := c1 \<rparr>), wbs @ new)"
    using f(1) e(3) inv way(2,3) bs by (simp add: evict_way_def)
  moreover have "unique_tags (put_way w sb1 bd1 st)" if "unique_tags st"
    using unique_put_way [OF that ok w] empty by simp
  ultimately show ?thesis
    using put_way_set_ok [OF ok e(1)] put_way_counted [OF e(2) way(3)] lines_put_way [OF ok w, of sb1 bd1]
      e(4,5) empty inv way(2) by (intro exI conjI) auto
qed

section \<open>Inserting a line\<close>

text \<open>What an insertion of \<open>info\<close> with data \<open>D\<close> may do: the lines the set holds afterwards and those
  appended to the writebacks are together the lines held before and the new one; a line is either kept
  or written back, never both; the new line is held, or it bypasses the set, which keeps its lines.\<close>

definition line_inserted ::
    "cache_base \<Rightarrow> cache_block_info \<Rightarrow> u8 list \<Rightarrow> set_state \<Rightarrow> set_state \<Rightarrow> writeback list \<Rightarrow> bool" where
  "line_inserted cb info D s s' new \<longleftrightarrow>
     set_ok cb s' \<and> set_counted s s' \<and> wb_addrs cb new \<and> m_associativity (fst s') = m_associativity (fst s) \<and>
     lines (fst s') \<union> wb_lines new = insert (info, D) (lines (fst s)) \<and>
     ((info, D) \<in> lines (fst s') \<or> (wb_lines new = {(info, D)} \<and> lines (fst s') = lines (fst s))) \<and>
     (fresh (fst s) info \<longrightarrow> unique_tags (fst s') \<and> tags_of (lines (fst s')) \<inter> tags_of (wb_lines new) = {})"

lemma insertLine_cases:
  assumes geo: "geometry_ok cb"
    and r: "insertLine cb (Some info) ins fwd cntlr ((st, sh), wbs) = Inr (s', wbs')"
  obtains stg blk where "tag_place cb (m_tag info) = (stg, blk)"
    "(\<exists>w. find_merge st (m_compress_cntlr sh) stg blk ins [0..<m_associativity st] = Inr (Some w) \<and>
        insert_at w stg blk info ins (st, sh) = Inr s' \<and> wbs' = wbs) \<or>
     (\<exists>w s1. getReplacementWay fwd cntlr (st, sh) = Inr (w, s1) \<and>
        (if w = m_associativity st
         then \<exists>a d. tagToAddress cb (m_tag info) = Inr a \<and> ins = Some d \<and> m_set_blocksize st \<le> length d \<and>
           s' = s1 \<and> wbs' = wbs @ [(a, info, take (m_set_blocksize st) d)]
         else \<exists>s2. evict_way cb w (s1, wbs) = Inr (s2, wbs') \<and> insert_at w stg blk info ins s2 = Inr s'))"
proof -
  from split_of_tag [OF geo] obtain a sp where a: "tagToAddress cb (m_tag info) = Inr a"
    "splitAddress cb a = Inr sp" "(s_supertag sp, s_block_id sp) = tag_place cb (m_tag info)" by blast
  have p: "tag_place cb (m_tag info) = (s_supertag sp, s_block_id sp)" using a(3) by simp
  show thesis
  proof (rule that [OF p])
    from r a(1,2) obtain merge where m: "find_merge st (m_compress_cntlr sh) (s_supertag sp) (s_block_id sp) ins
        [0..<m_associativity st] = Inr merge" by (auto simp: insertLine_def res_simps)
    show "(\<exists>w. find_merge st (m_compress_cntlr sh) (s_supertag sp) (s_block_id sp) ins [0..<m_associativity st] = Inr (Some w) \<and>
        insert_at w (s_supertag sp) (s_block_id sp) info ins (st, sh) = Inr s' \<and> wbs' = wbs) \<or>
     (\<exists>w s1. getReplacementWay fwd cntlr (st, sh) = Inr (w, s1) \<and>
        (if w = m_associativity st
         then \<exists>a d. tagToAddress cb (m_tag info) = Inr a \<and> ins = Some d \<and> m_set_blocksize st \<le> length d \<and>
           s' = s1 \<and> wbs' = wbs @ [(a, info, take (m_set_blocksize st) d)]
         else \<exists>s2. evict_way cb w (s1, wbs) = Inr (s2, wbs') \<and>
           insert_at w (s_supertag sp) (s_block_id sp) info ins s2 = Inr s'))"
    proof (cases merge)
      case None
      with r a(1,2) m obtain w s1 where g: "getReplacementWay fwd cntlr (st, sh) = Inr (w, s1)"
        by (auto simp: insertLine_def res_simps)
      show ?thesis
      proof (cases "w = m_associativity st")
        case True
        with r a(1,2) m g None show ?thesis by (auto simp: insertLine_def res_simps)
      next
        case False
        with r a(1,2) m g None show ?thesis by (auto simp: insertLine_def res_simps)
      qed
    next
      case (Some w)
      with r a(1,2) m show ?thesis by (auto simp: insertLine_def res_simps)
    qed
  qed
qed

lemma insertLine_effect:
  assumes geo: "geometry_ok cb" and ok: "set_ok cb (st, sh)" and v: "cbi_isValid info"
    and r: "insertLine cb (Some info) ins fwd cntlr ((st, sh), wbs) = Inr (s', wbs')"
  shows "\<exists>new D. wbs' = wbs @ new \<and> line_inserted cb info D (st, sh) s' new \<and>
    (\<forall>d. ins = Some d \<longrightarrow> D = take (m_cb_blocksize cb) d)"
  using geo r
proof (cases rule: insertLine_cases)
  case (1 stg blk)
  let ?bs = "m_cb_blocksize cb"
  have blk: "blk < SUPERBLOCK_SIZE" using tag_place_block [of cb "m_tag info"] 1(1) by simp
  have bs: "m_set_blocksize st = ?bs" using ok by (simp add: set_ok_def)
  have D: "\<forall>d. ins = Some d \<longrightarrow> inserted_data b blk ins ?bs = take ?bs d" for b
    by (simp add: inserted_data_def)
  from 1(2) show ?thesis
  proof (elim disjE exE conjE)
    fix w assume m: "find_merge st (m_compress_cntlr sh) stg blk ins [0..<m_associativity st] = Inr (Some w)"
      and i: "insert_at w stg blk info ins (st, sh) = Inr s'" and "wbs' = wbs"
    from find_merge_Some [OF m] have w: "w < m_associativity st"
      "canInsertBlockInfo (m_superblock_info_ways st ! w) stg blk = Inr True" by auto
    from insert_at_effect [OF ok w 1(1) v i] \<open>wbs' = wbs\<close> D show ?thesis
      by (intro exI [of _ "[]"] exI [of _ "inserted_data (m_data_ways st ! w) blk ins ?bs"])
        (auto simp: line_inserted_def)
  next
    fix w s1 assume g: "getReplacementWay fwd cntlr (st, sh) = Inr (w, s1)"
      and k: "if w = m_associativity st
         then \<exists>a d. tagToAddress cb (m_tag info) = Inr a \<and> ins = Some d \<and> m_set_blocksize st \<le> length d \<and>
           s' = s1 \<and> wbs' = wbs @ [(a, info, take (m_set_blocksize st) d)]
         else \<exists>s2. evict_way cb w (s1, wbs) = Inr (s2, wbs') \<and> insert_at w stg blk info ins s2 = Inr s'"
    have pol: "policy_ok (st, sh)" using ok by (simp add: set_ok_def)
    note keep = getReplacementWay_keeps [OF pol g]
    have ok1: "set_ok cb s1" by (rule same_lines_set_ok [OF keep(1,2) ok])
    note sl = same_lines_lines [OF keep(1)]
    have as1: "m_associativity (fst s1) = m_associativity st" using keep(1) by (simp add: same_lines_def)
    show ?thesis
    proof (cases "w = m_associativity st")
      case True
      with k obtain a d where b: "tagToAddress cb (m_tag info) = Inr a" "ins = Some d" "s' = s1"
        "wbs' = wbs @ [(a, info, take ?bs d)]" by (auto simp: bs)
      then show ?thesis using ok1 sl as1
        by (intro exI [of _ "[(a, info, take ?bs d)]"] exI [of _ "take ?bs d"])
          (auto simp: line_inserted_def fresh_def)
    next
      case False
      with keep(3) have w: "w < m_associativity st" by simp
      obtain st1 sh1 where s1: "s1 = (st1, sh1)" by fastforce
      have w1: "w < m_associativity st1" using w as1 s1 by simp
      from k False obtain s2 where e: "evict_way cb w (s1, wbs) = Inr (s2, wbs')"
        and i: "insert_at w stg blk info ins s2 = Inr s'" by auto
      from evict_way_effect [OF geo ok1 [unfolded s1] w1, of wbs] obtain new where ev: "wbs' = wbs @ new"
        "set_ok cb s2" "set_counted s1 s2" "wb_addrs cb new" "lines (fst s2) = other_lines w st1"
        "way_lines (m_superblock_info_ways st1 ! w) (m_data_ways st1 ! w) = wb_lines new"
        "\<not> sb_isValid (m_superblock_info_ways (fst s2) ! w)" "m_associativity (fst s2) = m_associativity st1"
        "unique_tags st1 \<longrightarrow> unique_tags (fst s2)" using e s1 by auto
      obtain st2 sh2 where s2: "s2 = (st2, sh2)" by fastforce
      have w2: "w < m_associativity st2" using ev(8) w1 s2 by simp
      have can: "canInsertBlockInfo (m_superblock_info_ways st2 ! w) stg blk = Inr True"
        using ev(7) s2 by (simp add: canInsertBlockInfo_def)
      define D where "D = inserted_data (m_data_ways st2 ! w) blk ins ?bs"
      note ia = insert_at_effect [OF ev(2) [unfolded s2] w2 can 1(1) v i [unfolded s2], folded D_def]
      have lst: "lines st = wb_lines new \<union> lines st2"
        using sl(1) lines_way [OF w1] ev(5,6) s1 s2 by simp
      have "set_counted (st, sh) s'"
        using set_counted_trans [OF sl(3)] set_counted_trans [OF ev(3)] ia s2 by blast
      moreover have "unique_tags (fst s') \<and> tags_of (lines (fst s')) \<inter> tags_of (wb_lines new) = {}"
        if "fresh st info"
      proof -
        have u: "unique_tags st1" using that sl(2) s1 by (simp add: fresh_def)
        then have "tags_of (wb_lines new) \<inter> tags_of (lines st2) = {}"
          using unique_other [OF u w1] ev(5,6) s2 by simp
        moreover have "m_tag info \<notin> tags_of (lines st)" using that by (simp add: fresh_def)
        ultimately show ?thesis using ia u ev(9) s2 lst by (auto simp: fresh_def)
      qed
      ultimately have "line_inserted cb info D (st, sh) s' new"
        using ia ev(4,8) as1 s1 s2 lst by (auto simp: line_inserted_def)
      then show ?thesis using ev(1) D D_def by blast
    qed
  qed
qed

text \<open>An insertion always runs to its end: with a controller, without on-the-fly changes, for lines of
  at most 64 bytes.\<close>

lemma canInsert_empty:
  assumes "way_ok cb bs sb bd" "\<not> sb_isValid sb" "blk < SUPERBLOCK_SIZE"
  shows "canInsertBlockData bd blk (Some d) c = Inr True"
proof -
  have e: "\<not> bd_isValid bd" using way_ok_isValid [OF assms(1)] assms(2) by simp
  then have "\<not> m_valid bd ! blk" using assms(3) by (auto simp: bd_isValid_def list_ex_iff)
  moreover have "getSchemeForInsertion bd blk (Some d) c = Inr UNCOMPRESSED"
    using e by (simp add: getSchemeForInsertion_def Let_def)
  ultimately show ?thesis using way_ok_valid(2) [OF assms(1,3)] by (simp add: canInsertBlockData_def)
qed

lemma insertBlockData_way:
  assumes "way_ok cb bs sb bd" "bs \<le> 64" "bs \<le> length d" "\<not> canChangeSchemeOTF c"
    "canInsertBlockData bd blk (Some d) c = Inr True"
  shows "\<exists>r. insertBlockData bd blk (Some d) c = Inr r"
proof (rule insertBlockData_ok [OF _ _ _ assms(4,5)])
  show "frame_ok bd" using assms(1) by (simp add: way_ok_def)
  have "m_chunks_per_block bd = bs div 4"
    using assms(1) by (simp add: way_ok_def frame_ok_def shape_ok_def dish_consts)
  then show "m_chunks_per_block bd \<le> BLOCK_ENTRIES" using assms(2) by (simp add: dish_consts)
  show "m_blocksize bd \<le> length d" using assms(1,3) by (simp add: way_ok_def)
qed

lemma set_counted_otf:
  "set_counted s s' \<Longrightarrow> canChangeSchemeOTF (m_compress_cntlr (snd s')) = canChangeSchemeOTF (m_compress_cntlr (snd s))"
  by (simp add: set_counted_def Let_def canChangeSchemeOTF_def)

lemma insertLine_total:
  assumes geo: "geometry_ok cb" and ok: "set_ok cb (st, sh)" and v: "cbi_isValid info"
    and d: "m_cb_blocksize cb \<le> length d" "m_cb_blocksize cb \<le> 64"
    and otf: "\<not> canChangeSchemeOTF (m_compress_cntlr sh)"
  shows "\<exists>r. insertLine cb (Some info) (Some d) fwd (Some q) ((st, sh), wbs) = Inr r"
proof -
  from split_of_tag [OF geo] obtain a sp where a: "tagToAddress cb (m_tag info) = Inr a"
    "splitAddress cb a = Inr sp" "(s_supertag sp, s_block_id sp) = tag_place cb (m_tag info)" by blast
  let ?stg = "s_supertag sp" and ?blk = "s_block_id sp"
  have p: "tag_place cb (m_tag info) = (?stg, ?blk)" using a(3) by simp
  have blk: "?blk < SUPERBLOCK_SIZE" using tag_place_block [of cb "m_tag info"] p by simp
  have ws: "set [0..<m_associativity st] \<subseteq> {..<m_associativity st}" by auto
  obtain merge where m: "find_merge st (m_compress_cntlr sh) ?stg ?blk (Some d) [0..<m_associativity st] = Inr merge"
    using find_merge_total [OF ok blk d(1) otf ws] by blast
  have pol: "policy_ok (st, sh)" using ok by (simp add: set_ok_def)
  obtain w s1 where g: "getReplacementWay fwd (Some q) (st, sh) = Inr (w, s1)"
    using getReplacementWay_total [OF pol] by fastforce
  show ?thesis
  proof (cases merge)
    case (Some w)
    from find_merge_Some [OF m [unfolded Some]] have w: "w < m_associativity st"
      "canInsertBlockInfo (m_superblock_info_ways st ! w) ?stg ?blk = Inr True"
      "canInsertBlockData (m_data_ways st ! w) ?blk (Some d) (m_compress_cntlr sh) = Inr True" by auto
    have way: "way_ok cb (m_cb_blocksize cb) (m_superblock_info_ways st ! w) (m_data_ways st ! w)"
      using set_ok_wayD(1) [OF ok] w(1) by simp
    from insert_at_total [OF ok w(1,2) p v insertBlockData_way [OF way d(2,1) otf w(3)]]
    show ?thesis using a m Some by (auto simp: insertLine_def)
  next
    case None
    show ?thesis
    proof (cases "w = m_associativity st")
      case True
      have "m_set_blocksize st \<le> length d" using ok d by (simp add: set_ok_def)
      then show ?thesis using a m None g True by (simp add: insertLine_def)
    next
      case False
      note keep = getReplacementWay_keeps [OF pol g]
      have ok1: "set_ok cb s1" by (rule same_lines_set_ok [OF keep(1,2) ok])
      obtain st1 sh1 where s1: "s1 = (st1, sh1)" by fastforce
      have w1: "w < m_associativity st1" using False keep(1,3) s1 by (simp add: same_lines_def)
      from evict_way_effect [OF geo ok1 [unfolded s1] w1, of wbs] obtain s2 new where
        ev: "evict_way cb w (s1, wbs) = Inr (s2, wbs @ new)" "set_ok cb s2" "set_counted s1 s2"
        "\<not> sb_isValid (m_superblock_info_ways (fst s2) ! w)" "m_associativity (fst s2) = m_associativity st1"
        using s1 by auto
      obtain st2 sh2 where s2: "s2 = (st2, sh2)" by fastforce
      have w2: "w < m_associativity st2" using ev(5) w1 s2 by simp
      have way: "way_ok cb (m_cb_blocksize cb) (m_superblock_info_ways st2 ! w) (m_data_ways st2 ! w)"
        using set_ok_wayD(1) [OF ev(2)] w2 s2 by simp
      have inv: "\<not> sb_isValid (m_superblock_info_ways st2 ! w)" using ev(4) s2 by simp
      have can: "canInsertBlockInfo (m_superblock_info_ways st2 ! w) ?stg ?blk = Inr True"
        using inv by (simp add: canInsertBlockInfo_def)
      have otf2: "\<not> canChangeSchemeOTF (m_compress_cntlr sh2)"
        using otf set_counted_otf [OF same_lines_lines(3) [OF keep(1)]] set_counted_otf [OF ev(3)] s1 s2 by simp
      from insert_at_total [OF ev(2) [unfolded s2] w2 can p v
          insertBlockData_way [OF way d(2,1) otf2 canInsert_empty [OF way inv blk]]]
      show ?thesis using a m None g False ev(1) s2 by (auto simp: insertLine_def)
    qed
  qed
qed

section \<open>Invalidating and reading\<close>

lemma invalidate_way:
  assumes ok: "way_ok cb bs sb bd" and blk: "blk < SUPERBLOCK_SIZE"
    and info: "m_block_infos sb ! blk = Some info" "cbi_isValid info" "m_tag info = tag"
  shows "\<exists>sb1 bd1 c1. invalidateBlockInfo tag blk sb = Inr sb1 \<and> invalidateBlockData bd blk c = Inr (bd1, c1) \<and>
    way_ok cb bs sb1 bd1 \<and> counted c bd c1 bd1 \<and>
    way_lines sb1 bd1 = {l \<in> way_lines sb bd. m_tag (fst l) \<noteq> tag}"
proof -
  have ok': "sb_ok cb sb" "frame_ok bd" "m_blocksize bd = bs" "m_valid bd = valids sb"
    using ok by (auto simp: way_ok_def)
  from invalidateBlockInfo_ok [OF ok'(1) blk info(1,3)] obtain sb1 where sb1:
    "invalidateBlockInfo tag blk sb = Inr sb1" "sb_ok cb sb1"
    "m_block_infos sb1 = (m_block_infos sb)[blk := Some (cbi_invalidate info)]" "valids sb1 = (valids sb)[blk := False]"
    by blast
  obtain bd1 c1 where bd1: "invalidateBlockData bd blk c = Inr (bd1, c1)"
    using way_ok_valid(2) [OF ok blk] by (fastforce simp: invalidateBlockData_def Let_def)
  note e = invalidateBlockData_effect [OF bd1 ok'(2)]
  have data: "m_data bd1 = (m_data bd)[blk := replicate bs 0]" using e ok'(3) by simp
  have ok1: "way_ok cb bs sb1 bd1" using e sb1 ok' by (simp add: way_ok_def)
  have "slot_lines sb1 bd1 blk = {}"
    using slot_lines_empty [of sb1 blk bd1] sb1(3) way_ok_valid(3) [OF ok blk] by simp
  then have rest: "way_lines sb1 bd1 = (\<Union>j \<in> {..<SUPERBLOCK_SIZE} - {blk}. slot_lines sb bd j)"
    using way_lines_update [OF sb1(3) data blk] by simp
  have pl: "snd (tag_place cb tag) = blk" using ok'(1) blk info by (auto simp: sb_ok_def)
  have other: "m_tag (fst l) \<noteq> tag" if "l \<in> slot_lines sb bd j" "j \<in> {..<SUPERBLOCK_SIZE} - {blk}" for l j
    using that ok'(1) pl by (auto simp: slot_lines_def sb_ok_def)
  have "{l \<in> way_lines sb bd. m_tag (fst l) \<noteq> tag} = way_lines sb1 bd1"
    using way_lines_split [OF blk, of sb bd] slot_lines_valid [OF info(1,2)] info(3) other rest by auto
  with sb1 bd1 ok1 e show ?thesis by blast
qed

lemma cs_invalidate_effect:
  assumes ok: "set_ok cb (st, sh)" and u: "unique_tags st" and blk: "blk = snd (tag_place cb tag)"
  shows "\<exists>s'. cs_invalidate tag blk (st, sh) = Inr s' \<and> set_ok cb s' \<and> set_counted (st, sh) s' \<and>
    unique_tags (fst s') \<and> m_associativity (fst s') = m_associativity st \<and>
    lines (fst s') = {l \<in> lines st. m_tag (fst l) \<noteq> tag}"
  using cs_find_spec [OF ok blk]
proof (elim disjE conjE exE)
  assume n: "tag \<notin> tags_of (lines st)" "cs_find st tag blk = Inr None"
  then have "lines st = {l \<in> lines st. m_tag (fst l) \<noteq> tag}" by (auto simp: tags_of_def)
  then show ?thesis using n ok u by (auto simp: cs_invalidate_def set_counted_def)
next
  fix w info assume f: "cs_find st tag blk = Inr (Some (w, info))" "w < m_associativity st" "m_tag info = tag"
    "m_block_infos (m_superblock_info_ways st ! w) ! blk = Some info" "cbi_isValid info"
  note way = set_ok_wayD [OF ok, simplified, OF f(2)]
  have b: "blk < SUPERBLOCK_SIZE" using tag_place_block blk by simp
  from invalidate_way [OF way(1) b f(4,5,3), of "m_compress_cntlr sh"] obtain sb1 bd1 c1 where
    i: "invalidateBlockInfo tag blk (m_superblock_info_ways st ! w) = Inr sb1"
    "invalidateBlockData (m_data_ways st ! w) blk (m_compress_cntlr sh) = Inr (bd1, c1)"
    "way_ok cb (m_cb_blocksize cb) sb1 bd1" "counted (m_compress_cntlr sh) (m_data_ways st ! w) c1 bd1"
    "way_lines sb1 bd1 = {l \<in> way_lines (m_superblock_info_ways st ! w) (m_data_ways st ! w). m_tag (fst l) \<noteq> tag}"
    by blast
  have run: "cs_invalidate tag blk (st, sh) = Inr (put_way w sb1 bd1 st, sh\<lparr> m_compress_cntlr := c1 \<rparr>)"
    using f(1) i(1,2) way(2,3) by (simp add: cs_invalidate_def)
  note ot = unique_other [OF u f(2)]
  have tag_here: "tag \<in> tags_of (way_lines (m_superblock_info_ways st ! w) (m_data_ways st ! w))"
    using f(3-5) b by (force simp: tags_of_def way_lines_def slot_lines_def)
  have "unique_tags (put_way w sb1 bd1 st)"
    using ot i(5) by (intro unique_put_way [OF u ok f(2)]) (auto simp: tags_of_def)
  moreover have "lines (put_way w sb1 bd1 st) = {l \<in> lines st. m_tag (fst l) \<noteq> tag}"
    using lines_put_way [OF ok f(2)] lines_way [OF f(2)] i(5) ot tag_here by (auto simp: tags_of_def)
  ultimately show ?thesis
    using run put_way_set_ok [OF ok i(3)] put_way_counted [OF i(4) way(3)] by auto
qed

section \<open>Writing a line\<close>

abbreviation without :: "u64 \<Rightarrow> (cache_block_info \<times> u8 list) set \<Rightarrow> (cache_block_info \<times> u8 list) set" where
  "without tag L \<equiv> {l \<in> L. m_tag (fst l) \<noteq> tag}"

lemma without_id: "tag \<notin> tags_of L \<Longrightarrow> without tag L = L"
  by (auto simp: tags_of_def)

lemma slot_tag_place:
  "sb_ok cb sb \<Longrightarrow> l \<in> slot_lines sb bd j \<Longrightarrow> j < SUPERBLOCK_SIZE \<Longrightarrow> snd (tag_place cb (m_tag (fst l))) = j"
  by (auto simp: slot_lines_def sb_ok_def)

lemma write_way:
  assumes ok: "way_ok cb bs sb bd" and blk: "blk < SUPERBLOCK_SIZE"
    and info: "m_block_infos sb ! blk = Some info" "cbi_isValid info"
    and wr: "writeBlockData bd blk off wr n c = Inr (bd1, c1)"
  shows "way_ok cb bs sb bd1 \<and> counted c bd c1 bd1 \<and>
    way_lines sb bd1 = insert (info, m_data bd1 ! blk) (without (m_tag info) (way_lines sb bd))"
proof -
  have ok': "sb_ok cb sb" "frame_ok bd" "m_blocksize bd = bs" "m_valid bd = valids sb"
    using ok by (auto simp: way_ok_def)
  note e = writeBlockData_effect [OF wr ok'(2)]
  obtain x where data: "m_data bd1 = (m_data bd)[blk := x]"
    using e by (cases wr) (auto intro: that [of "m_data bd ! blk"])
  have same: "m_block_infos sb = (m_block_infos sb)[blk := m_block_infos sb ! blk]" by simp
  have ok1: "way_ok cb bs sb bd1" using e ok' by (simp add: way_ok_def)
  have pl: "snd (tag_place cb (m_tag info)) = blk" using ok'(1) blk info by (auto simp: sb_ok_def)
  have other: "m_tag (fst l) \<noteq> m_tag info" if "l \<in> slot_lines sb bd j" "j \<in> {..<SUPERBLOCK_SIZE} - {blk}" for l j
    using slot_tag_place [OF ok'(1) that(1)] that(2) pl by auto
  have "without (m_tag info) (way_lines sb bd) = (\<Union>j \<in> {..<SUPERBLOCK_SIZE} - {blk}. slot_lines sb bd j)"
    using way_lines_split [OF blk, of sb bd] slot_lines_valid [OF info] other by auto
  then have "way_lines sb bd1 = insert (info, m_data bd1 ! blk) (without (m_tag info) (way_lines sb bd))"
    using way_lines_update [OF same data blk] slot_lines_valid [OF info] by simp
  then show ?thesis using ok1 writeBlockData_counted [OF wr ok'(2)] by simp
qed

lemma evict_counter_simps [simp]:
  "set_ok cb (st\<lparr> m_evict_bc_write := k \<rparr>, sh) = set_ok cb (st, sh)"
  "lines (st\<lparr> m_evict_bc_write := k \<rparr>) = lines st" "unique_tags (st\<lparr> m_evict_bc_write := k \<rparr>) = unique_tags st"
  "other_lines w (st\<lparr> m_evict_bc_write := k \<rparr>) = other_lines w st"
  "put_way w sb bd (st\<lparr> m_evict_bc_write := k \<rparr>) = (put_way w sb bd st)\<lparr> m_evict_bc_write := k \<rparr>"
  "set_counted s (st\<lparr> m_evict_bc_write := k \<rparr>, sh) = set_counted s (st, sh)"
  by (simp_all add: set_ok_def policy_ok_def lru_ok_def lines_def unique_tags_def other_lines_def put_way_def
      set_counted_def frames_in_def)

text \<open>What a write of the line \<open>info\<close> does, when its data becomes \<open>D\<close>.\<close>

definition line_written ::
    "cache_base \<Rightarrow> cache_block_info \<Rightarrow> u8 list \<Rightarrow> set_state \<Rightarrow> set_state \<Rightarrow> writeback list \<Rightarrow> bool" where
  "line_written cb info D s s' new \<longleftrightarrow>
     set_ok cb s' \<and> set_counted s s' \<and> wb_addrs cb new \<and> unique_tags (fst s') \<and>
     m_associativity (fst s') = m_associativity (fst s) \<and>
     lines (fst s') \<union> wb_lines new = insert (info, D) (without (m_tag info) (lines (fst s))) \<and>
     tags_of (lines (fst s')) \<inter> tags_of (wb_lines new) = {}"

lemma write_in_place:
  assumes ok: "set_ok cb (st, sh)" and u: "unique_tags st" and w: "w < m_associativity st"
    and blk: "blk < SUPERBLOCK_SIZE" and info: "m_block_infos (m_superblock_info_ways st ! w) ! blk = Some info" "cbi_isValid info"
    and wr: "writeBlockData (m_data_ways st ! w) blk off wr n (m_compress_cntlr sh) = Inr (bd1, c1)"
  shows "line_written cb info (m_data bd1 ! blk) (st, sh)
    (put_way w (m_superblock_info_ways st ! w) bd1 st, sh\<lparr> m_compress_cntlr := c1 \<rparr>) []"
proof -
  note way = set_ok_wayD [OF ok, simplified, OF w]
  let ?sb = "m_superblock_info_ways st ! w" and ?L = "way_lines (m_superblock_info_ways st ! w) (m_data_ways st ! w)"
  note ww = write_way [OF way(1) blk info wr]
  note ot = unique_other [OF u w]
  have here: "m_tag info \<in> tags_of ?L"
    using info blk by (force simp: tags_of_def way_lines_def slot_lines_def)
  have "tags_of (way_lines ?sb bd1) \<subseteq> tags_of ?L" using ww here by (auto simp: tags_of_def)
  then have "unique_tags (put_way w ?sb bd1 st)" using ot by (intro unique_put_way [OF u ok w]) blast
  moreover have "without (m_tag info) (other_lines w st) = other_lines w st"
    using here ot by (intro without_id) auto
  then have "lines (put_way w ?sb bd1 st) = insert (info, m_data bd1 ! blk) (without (m_tag info) (lines st))"
    using lines_put_way [OF ok w] lines_way [OF w] ww by auto
  ultimately show ?thesis
    using put_way_set_ok [OF ok conjunct1 [OF ww]] put_way_counted [OF _ way(3)] ww by (simp add: line_written_def)
qed

lemma write_by_reinsertion:
  assumes geo: "geometry_ok cb" and ok: "set_ok cb (st, sh)" and u: "unique_tags st" and w: "w < m_associativity st"
    and blk: "blk < SUPERBLOCK_SIZE" and info: "m_block_infos (m_superblock_info_ways st ! w) ! blk = Some info" "cbi_isValid info"
    and ei: "evictBlockInfo blk (m_superblock_info_ways st ! w) = Inr (mi, sb1)"
    and ed: "evictBlockData (m_data_ways st ! w) blk (Some (replicate (m_cb_blocksize cb) 0)) (m_compress_cntlr sh) = Inr (buf, bd1, c1)"
    and ins: "insertLine cb mi (Some d) fwd cntlr
      (((put_way w sb1 bd1 st)\<lparr> m_evict_bc_write := k \<rparr>, sh\<lparr> m_compress_cntlr := c1 \<rparr>), wbs) = Inr (s', wbs')"
  shows "buf = Some (m_data (m_data_ways st ! w) ! blk) \<and>
    (\<exists>new. wbs' = wbs @ new \<and> line_written cb info (take (m_cb_blocksize cb) d) (st, sh) s' new \<and>
      (info, take (m_cb_blocksize cb) d) \<in> lines (fst s') \<union> wb_lines new)"
proof -
  note way = set_ok_wayD [OF ok, simplified, OF w]
  let ?L = "way_lines (m_superblock_info_ways st ! w) (m_data_ways st ! w)" and ?D = "take (m_cb_blocksize cb) d"
  from evict_slot [OF way(1) blk info, of "m_compress_cntlr sh"] ei ed have
    e: "mi = Some info" "buf = Some (m_data (m_data_ways st ! w) ! blk)" "way_ok cb (m_cb_blocksize cb) sb1 bd1"
    "counted (m_compress_cntlr sh) (m_data_ways st ! w) c1 bd1"
    "?L = insert (info, m_data (m_data_ways st ! w) ! blk) (way_lines sb1 bd1)"
    "m_tag info \<notin> tags_of (way_lines sb1 bd1)" by auto
  let ?st = "(put_way w sb1 bd1 st)\<lparr> m_evict_bc_write := k \<rparr>" and ?sh = "sh\<lparr> m_compress_cntlr := c1 \<rparr>"
  note ot = unique_other [OF u w]
  have tags: "tags_of ?L = insert (m_tag info) (tags_of (way_lines sb1 bd1))" by (subst e(5)) simp
  have ok1: "set_ok cb (?st, ?sh)" using put_way_set_ok [OF ok e(3)] by simp
  have lst: "lines ?st = without (m_tag info) (lines st)"
  proof -
    have "without (m_tag info) (other_lines w st) = other_lines w st" using ot tags by (intro without_id) auto
    moreover have "without (m_tag info) ?L = without (m_tag info) (way_lines sb1 bd1)" by (subst e(5)) auto
    moreover have "without (m_tag info) (lines st) = without (m_tag info) ?L \<union> without (m_tag info) (other_lines w st)"
      unfolding lines_way [OF w] by blast
    ultimately show ?thesis using lines_put_way [OF ok w, of sb1 bd1] without_id [OF e(6)] by simp
  qed
  have "unique_tags ?st" using ot tags unique_put_way [OF u ok w, of sb1 bd1] by auto
  then have fr: "fresh ?st info" using lst by (auto simp: fresh_def tags_of_def)
  from insertLine_effect [OF geo ok1 info(2) ins [unfolded e(1)]] obtain new where
    i: "wbs' = wbs @ new" "line_inserted cb info ?D (?st, ?sh) s' new" by auto
  have "set_counted (st, sh) s'"
    using set_counted_trans [of "(st, sh)" "(?st, ?sh)" s'] put_way_counted [OF e(4) way(3)] i(2)
    by (simp add: line_inserted_def)
  then have "line_written cb info ?D (st, sh) s' new"
    using i(2) fr lst by (simp add: line_inserted_def line_written_def)
  moreover have "(info, ?D) \<in> lines (fst s') \<union> wb_lines new" using i(2) by (simp add: line_inserted_def)
  ultimately show ?thesis using e(2) i(1) by blast
qed

lemma line_written_touch:
  assumes "line_written cb info D s s2 new" "same_lines s2 s'" "policy_ok s'"
  shows "line_written cb info D s s' new"
  using assms same_lines_set_ok [OF assms(2,3)] same_lines_lines [OF assms(2)] set_counted_trans [of s s2 s']
  by (auto simp: line_written_def same_lines_def)

lemma touch_same:
  assumes "policy_ok s2" "w < m_associativity (fst s2)" "updateReplacementWay w s2 = Inr s3"
  shows "same_lines s2 s3 \<and> policy_ok s3"
  using updateReplacementWay_moves [OF assms(1,2)] assms(3) by auto

text \<open>The two ways a write can go.\<close>

lemma writeLine_cases:
  assumes ok: "set_ok cb (st, sh)" and blk: "blk = snd (tag_place cb tag)"
    and r: "writeLine cb tag blk off wr n upd is_wb cntlr ((st, sh), wbs) = Inr (s', wbs')"
  obtains w info s2 where "cs_find st tag blk = Inr (Some (w, info))" "w < m_associativity st" "m_tag info = tag"
    "m_block_infos (m_superblock_info_ways st ! w) ! blk = Some info" "cbi_isValid info"
    "(\<exists>bd1 c1. writeBlockData (m_data_ways st ! w) blk off wr n (m_compress_cntlr sh) = Inr (bd1, c1) \<and>
        wbs' = wbs \<and> s2 = (put_way w (m_superblock_info_ways st ! w) bd1 st, sh\<lparr> m_compress_cntlr := c1 \<rparr>) \<and>
        (if upd then updateReplacementWay w s2 = Inr s' else s' = s2)) \<or>
     (\<exists>buf bd1 c1 mi sb1 mod0 d. evictBlockData (m_data_ways st ! w) blk
          (Some (replicate (m_set_blocksize st) 0)) (m_compress_cntlr sh) = Inr (buf, bd1, c1) \<and>
        evictBlockInfo blk (m_superblock_info_ways st ! w) = Inr (mi, sb1) \<and> buf = Some mod0 \<and>
        copy_n (case wr of None \<Rightarrow> [] | Some w \<Rightarrow> w) off n mod0 0 = Inr d \<and>
        insertLine cb mi (Some d) (\<not> is_wb) cntlr
          (((put_way w sb1 bd1 st)\<lparr> m_evict_bc_write := m_evict_bc_write st + 1 \<rparr>, sh\<lparr> m_compress_cntlr := c1 \<rparr>), wbs)
          = Inr (s2, wbs') \<and>
        (if upd then \<not> is_wb \<and> (\<exists>v i. cs_find (fst s2) tag blk = Inr (Some (v, i)) \<and> updateReplacementWay v s2 = Inr s')
         else s' = s2))"
proof -
  from cs_find_spec [OF ok blk] r obtain w info where f: "cs_find st tag blk = Inr (Some (w, info))"
    "w < m_associativity st" "m_tag info = tag"
    "m_block_infos (m_superblock_info_ways st ! w) ! blk = Some info" "cbi_isValid info"
    by (auto simp: writeLine_def res_simps)
  note way = set_ok_wayD(2,3) [OF ok, simplified, OF f(2)]
  from r f(1) way obtain can where can: "canWriteBlockData (m_data_ways st ! w) blk off wr n (m_compress_cntlr sh) = Inr can"
    by (auto simp: writeLine_def res_simps)
  show thesis
  proof (cases can)
    case True
    from r f(1) way can True obtain bd1 c1 where
      "writeBlockData (m_data_ways st ! w) blk off wr n (m_compress_cntlr sh) = Inr (bd1, c1)" "wbs' = wbs"
      "if upd then updateReplacementWay w (put_way w (m_superblock_info_ways st ! w) bd1 st, sh\<lparr> m_compress_cntlr := c1 \<rparr>) = Inr s'
       else s' = (put_way w (m_superblock_info_ways st ! w) bd1 st, sh\<lparr> m_compress_cntlr := c1 \<rparr>)"
      by (auto simp: writeLine_def res_simps split: if_splits)
    then show thesis by (intro that [OF f]) blast
  next
    case False
    from r f(1) way can False obtain buf bd1 c1 mi sb1 mod0 d s2 where
      "evictBlockData (m_data_ways st ! w) blk (Some (replicate (m_set_blocksize st) 0)) (m_compress_cntlr sh) = Inr (buf, bd1, c1)"
      "evictBlockInfo blk (m_superblock_info_ways st ! w) = Inr (mi, sb1)" "buf = Some mod0"
      "copy_n (case wr of None \<Rightarrow> [] | Some w \<Rightarrow> w) off n mod0 0 = Inr d"
      "insertLine cb mi (Some d) (\<not> is_wb) cntlr
          (((put_way w sb1 bd1 st)\<lparr> m_evict_bc_write := m_evict_bc_write st + 1 \<rparr>, sh\<lparr> m_compress_cntlr := c1 \<rparr>), wbs)
          = Inr (s2, wbs')"
      "if upd then \<not> is_wb \<and> (\<exists>v i. cs_find (fst s2) tag blk = Inr (Some (v, i)) \<and> updateReplacementWay v s2 = Inr s')
       else s' = s2"
      by (auto simp: writeLine_def res_simps Let_def split: if_splits option.splits)
    then show thesis by (intro that [OF f]) blast
  qed
qed

lemma writeLine_effect:
  assumes geo: "geometry_ok cb" and ok: "set_ok cb (st, sh)" and u: "unique_tags st"
    and blk: "blk = snd (tag_place cb tag)"
    and r: "writeLine cb tag blk off wr n upd is_wb cntlr ((st, sh), wbs) = Inr (s', wbs')"
  shows "\<exists>info old D new. m_tag info = tag \<and> (info, old) \<in> lines st \<and> wbs' = wbs @ new \<and>
    line_written cb info D (st, sh) s' new \<and>
    (off = 0 \<longrightarrow> D = (case wr of None \<Rightarrow> old | Some w \<Rightarrow> overwrite 0 (take n w) old))"
  using ok blk r
proof (cases rule: writeLine_cases)
  case (1 w info s2)
  note way = set_ok_wayD [OF ok, simplified, OF 1(2)]
  have b: "blk < SUPERBLOCK_SIZE" using tag_place_block blk by simp
  let ?old = "m_data (m_data_ways st ! w) ! blk" and ?bs = "m_cb_blocksize cb"
  have old: "(info, ?old) \<in> lines st" "length ?old = ?bs"
    using 1(2,4,5) b way_ok_valid(5) [OF way(1) b] by (auto simp: lines_def way_lines_iff)
  have bs: "m_set_blocksize st = ?bs" using ok by (simp add: set_ok_def)
  from 1(6) show ?thesis
  proof (elim disjE exE conjE)
    fix bd1 c1
    assume wr: "writeBlockData (m_data_ways st ! w) blk off wr n (m_compress_cntlr sh) = Inr (bd1, c1)" and "wbs' = wbs"
      and s2: "s2 = (put_way w (m_superblock_info_ways st ! w) bd1 st, sh\<lparr> m_compress_cntlr := c1 \<rparr>)"
      and t: "if upd then updateReplacementWay w s2 = Inr s' else s' = s2"
    have lw: "line_written cb info (m_data bd1 ! blk) (st, sh) s2 []"
      unfolding s2 by (rule write_in_place [OF ok u 1(2) b 1(4,5) wr])
    then have "policy_ok s2" "w < m_associativity (fst s2)" using 1(2) by (auto simp: line_written_def set_ok_def)
    then have "line_written cb info (m_data bd1 ! blk) (st, sh) s' []"
      using t lw line_written_touch [OF lw] touch_same [of s2 w s'] by (auto split: if_splits)
    moreover have "m_data bd1 ! blk = (case wr of None \<Rightarrow> ?old | Some w \<Rightarrow> overwrite 0 (take n w) ?old)" if "off = 0"
    proof -
      have fr: "frame_ok (m_data_ways st ! w)" using way(1) by (simp add: way_ok_def)
      show ?thesis using writeBlockData_effect [OF wr fr] that way_ok_valid(4) [OF way(1) b]
        by (auto split: option.splits)
    qed
    ultimately show ?thesis using 1(3) old(1) \<open>wbs' = wbs\<close> by (intro exI [of _ info] exI [of _ ?old] exI) auto
  next
    fix buf bd1 c1 mi sb1 mod0 d
    assume ed: "evictBlockData (m_data_ways st ! w) blk (Some (replicate (m_set_blocksize st) 0)) (m_compress_cntlr sh) = Inr (buf, bd1, c1)"
      and ei: "evictBlockInfo blk (m_superblock_info_ways st ! w) = Inr (mi, sb1)" and bf: "buf = Some mod0"
      and cp: "copy_n (case wr of None \<Rightarrow> [] | Some w \<Rightarrow> w) off n mod0 0 = Inr d"
      and ins: "insertLine cb mi (Some d) (\<not> is_wb) cntlr
          (((put_way w sb1 bd1 st)\<lparr> m_evict_bc_write := m_evict_bc_write st + 1 \<rparr>, sh\<lparr> m_compress_cntlr := c1 \<rparr>), wbs)
          = Inr (s2, wbs')"
      and t: "if upd then \<not> is_wb \<and> (\<exists>v i. cs_find (fst s2) tag blk = Inr (Some (v, i)) \<and> updateReplacementWay v s2 = Inr s')
         else s' = s2"
    from write_by_reinsertion [OF geo ok u 1(2) b 1(4,5) ei ed [unfolded bs] ins] bf obtain new where
      n: "mod0 = ?old" "wbs' = wbs @ new" "line_written cb info (take ?bs d) (st, sh) s2 new" by auto
    have s2ok: "set_ok cb (fst s2, snd s2)" using n(3) by (simp add: line_written_def)
    have "line_written cb info (take ?bs d) (st, sh) s' new"
    proof (cases upd)
      case True
      then obtain v i where v: "cs_find (fst s2) tag blk = Inr (Some (v, i))" "updateReplacementWay v s2 = Inr s'"
        using t by auto
      then have "v < m_associativity (fst s2)" using cs_find_spec [OF s2ok blk] by auto
      then have "same_lines s2 s' \<and> policy_ok s'"
        using s2ok v(2) by (intro touch_same) (simp_all add: set_ok_def)
      then show ?thesis using line_written_touch [OF n(3)] by blast
    qed (use t n(3) in simp)
    moreover have "take ?bs d = (case wr of None \<Rightarrow> ?old | Some w \<Rightarrow> overwrite 0 (take n w) ?old)" if "off = 0"
      using cp that n(1) old(2) by (cases wr) (auto simp: copy_n_eq_Inr overwrite_def)
    ultimately show ?thesis using 1(3) old(1) n(2) by (intro exI [of _ info] exI [of _ ?old] exI) auto
  qed
qed

end
