(* ===== verification/Cache.thy ===== *)
theory Cache
  imports Cache_Set_Ops
begin

text \<open>
  The cache (\<^verbatim>\<open>cache/cache.cc\<close>): sets of superblock frames, one compression controller and one
  statistics object for all of them. The simulator passes program data by address: a data cache reads
  the line it inserts straight from the memory of the simulated program. That memory is the parameter
  \<open>mem\<close>, which gives the bytes that can be read from an address on. The fault injector is stored but not
  used by this code; locks, logging and the simulated time are left out.
\<close>

section \<open>Definitions\<close>

record cache =
  c_base :: cache_base
  m_enabled :: bool
  m_num_accesses :: u64
  m_num_hits :: u64
  m_cache_type :: cache_t
  m_sets :: "cache_set list"
  c_shared :: cache_shared

definition Cache ::
    "cache_base \<Rightarrow> bool \<Rightarrow> string \<Rightarrow> cache_t \<Rightarrow> bool \<Rightarrow> bool \<Rightarrow> nat \<Rightarrow> cache res" where
  "Cache cb compressible policy_name cache_type change_scheme_otf prune_dish_entries cfg_attempts =
     rbind (createCacheSetInfo policy_name (m_cb_associativity cb) cfg_attempts) (\<lambda>info.
     rbind (map_r (\<lambda>_. createCacheSet policy_name (m_cb_associativity cb) (m_cb_blocksize cb) cfg_attempts)
              [0..<m_num_sets cb]) (\<lambda>sets.
     Inr \<lparr> c_base = cb, m_enabled = False, m_num_accesses = 0, m_num_hits = 0,
           m_cache_type = cache_type, m_sets = sets,
           c_shared = \<lparr> m_compress_cntlr = CacheCompressionCntlr compressible change_scheme_otf prune_dish_entries,
                        m_set_info = info, qbs_lookups = 0 \<rparr> \<rparr>))"

definition cache_isCompressible :: "cache \<Rightarrow> bool" where
  "cache_isCompressible c = canCompress (m_compress_cntlr (c_shared c))"

definition getSuperblockSize :: nat where
  "getSuperblockSize = SUPERBLOCK_SIZE"

text \<open>A set together with the shared objects, and the cache after one of its sets changed.\<close>

definition set_state_of :: "cache \<Rightarrow> nat \<Rightarrow> set_state res" where
  "set_state_of c set_index = rbind (nth_r (m_sets c) set_index) (\<lambda>st. Inr (st, c_shared c))"

definition put_set :: "nat \<Rightarrow> set_state \<Rightarrow> cache \<Rightarrow> cache" where
  "put_set set_index s c = c\<lparr> m_sets := (m_sets c)[set_index := fst s], c_shared := snd s \<rparr>"

definition invalidateSingleLine :: "u64 \<Rightarrow> cache \<Rightarrow> cache res" where
  "invalidateSingleLine addr c =
     rbind (splitAddress (c_base c) addr) (\<lambda>sp.
     rbind (set_state_of c (s_set_index sp)) (\<lambda>s.
     rbind (cs_invalidate (s_tag sp) (s_block_id sp) s) (\<lambda>s1.
     Inr (put_set (s_set_index sp) s1 c))))"

text \<open>The block info of the line (\<open>None\<close> on a miss), the caller's buffer, the cache and the
  writebacks.\<close>

definition accessSingleLine ::
    "(u64 \<Rightarrow> u8 list) \<Rightarrow> u64 \<Rightarrow> access_t \<Rightarrow> byte_ptr \<Rightarrow> nat \<Rightarrow> bool \<Rightarrow> bool \<Rightarrow> writeback list option \<Rightarrow>
     cache_cntlr \<Rightarrow> cache \<Rightarrow> (cache_block_info option \<times> byte_ptr \<times> cache \<times> writeback list option) res" where
  "accessSingleLine mem addr access_type acc_data bytes update_replacement is_writeback writebacks cntlr c =
     rbind (splitAddress (c_base c) addr) (\<lambda>sp.
     rbind (set_state_of c (s_set_index sp)) (\<lambda>s.
     rbind (cs_find (fst s) (s_tag sp) (s_block_id sp)) (\<lambda>found.
     case found of
       None \<Rightarrow> Inr (None, acc_data, c, writebacks)
     | Some (init_way, block_info) \<Rightarrow>
         if access_type = LOAD then
           rbind (readLine init_way (s_block_id sp) (s_offset sp) bytes update_replacement acc_data s) (\<lambda>(rd, s1).
           Inr (Some block_info, rd, put_set (s_set_index sp) s1 c, writebacks))
         else
           (case writebacks of
              None \<Rightarrow> Inl Assert_Failed
            | Some wbs \<Rightarrow>
                if cntlr = None then Inl Assert_Failed
                else
                  let wr_data_mux =
                        (if acc_data = None \<and> bytes \<noteq> 0 then Some (mem addr) else acc_data)
                  in rbind (writeLine (c_base c) (s_tag sp) (s_block_id sp) (s_offset sp) wr_data_mux bytes
                              update_replacement is_writeback cntlr (s, wbs)) (\<lambda>(s1, wbs1).
                     Inr (Some block_info, acc_data, put_set (s_set_index sp) s1 c, Some wbs1))))))"

definition insertSingleLine ::
    "(u64 \<Rightarrow> u8 list) \<Rightarrow> u64 \<Rightarrow> byte_ptr \<Rightarrow> bool \<Rightarrow> writeback list option \<Rightarrow> cache_cntlr \<Rightarrow> cache \<Rightarrow>
     (cache \<times> writeback list) res" where
  "insertSingleLine mem addr ins_data is_fill writebacks cntlr c =
     (case writebacks of
        None \<Rightarrow> Inl Assert_Failed
      | Some wbs \<Rightarrow>
          rbind (splitAddress (c_base c) addr) (\<lambda>sp.
          rbind (case cntlr of
                   Some _ \<Rightarrow>
                     if is_fill then (if ins_data = None then Inl Assert_Failed else Inr ins_data)
                     else Inr (Some (mem addr))
                 | None \<Rightarrow> Inr None) (\<lambda>ins_data_mux.
          rbind (cbi_create (m_cache_type c)) (\<lambda>block_info.
          rbind (set_state_of c (s_set_index sp)) (\<lambda>s.
          rbind (insertLine (c_base c) (Some (block_info\<lparr> m_tag := s_tag sp \<rparr>)) ins_data_mux True cntlr
                   (s, wbs)) (\<lambda>(s1, wbs1).
          Inr (put_set (s_set_index sp) s1 c, wbs1)))))))"

definition peekSingleLine :: "u64 \<Rightarrow> cache \<Rightarrow> cache_block_info option res" where
  "peekSingleLine addr c =
     rbind (splitAddress (c_base c) addr) (\<lambda>sp.
     rbind (nth_r (m_sets c) (s_set_index sp)) (\<lambda>st.
     rbind (cs_find st (s_tag sp) (s_block_id sp)) (\<lambda>found.
     Inr (map_option snd found))))"

definition cache_peekBlock :: "cache \<Rightarrow> nat \<Rightarrow> nat \<Rightarrow> nat \<Rightarrow> cache_block_info option res" where
  "cache_peekBlock c set_index way block_id =
     rbind (nth_r (m_sets c) set_index) (\<lambda>st. cs_peekBlock st way block_id)"

definition updateCounters :: "bool \<Rightarrow> cache \<Rightarrow> cache" where
  "updateCounters cache_hit c =
     (if m_enabled c
      then c\<lparr> m_num_accesses := m_num_accesses c + 1,
              m_num_hits := (if cache_hit then m_num_hits c + 1 else m_num_hits c) \<rparr>
      else c)"

definition updateHits :: "u64 \<Rightarrow> cache \<Rightarrow> cache" where
  "updateHits hits c =
     (if m_enabled c
      then c\<lparr> m_num_accesses := m_num_accesses c + hits, m_num_hits := m_num_hits c + hits \<rparr>
      else c)"

definition cache_enable :: "cache \<Rightarrow> cache" where "cache_enable c = c\<lparr> m_enabled := True \<rparr>"
definition cache_disable :: "cache \<Rightarrow> cache" where "cache_disable c = c\<lparr> m_enabled := False \<rparr>"

section \<open>Invariant\<close>

text \<open>The set a tag belongs to.\<close>

definition tag_set :: "cache_base \<Rightarrow> u64 \<Rightarrow> nat" where
  "tag_set cb tag = unat (drop_bit (log_bs cb + 4) (linear cb (push_bit (log_bs cb) tag)) AND
     mask (log2_nat (m_num_sets cb)))"

definition total_frames :: "scheme_t \<Rightarrow> cache \<Rightarrow> int" where
  "total_frames s c = sum_list (map (frames_in s) (m_sets c))"

definition cache_ok :: "cache \<Rightarrow> bool" where
  "cache_ok c \<longleftrightarrow> geometry_ok (c_base c) \<and> 1 < m_cb_blocksize (c_base c) \<and>
     length (m_sets c) = m_num_sets (c_base c) \<and>
     (\<forall>i < length (m_sets c).
        set_ok (c_base c) (m_sets c ! i, c_shared c) \<and> unique_tags (m_sets c ! i) \<and>
        (\<forall>tag \<in> tags_of (lines (m_sets c ! i)). tag_set (c_base c) tag = i)) \<and>
     num_scheme1 (m_compress_cntlr (c_shared c)) = total_frames SCHEME1 c \<and>
     num_scheme2 (m_compress_cntlr (c_shared c)) = total_frames SCHEME2 c"

text \<open>The lines of the cache: block info and data of every resident line.\<close>

definition cache_lines :: "cache \<Rightarrow> (cache_block_info \<times> u8 list) set" where
  "cache_lines c = (\<Union>st \<in> set (m_sets c). lines st)"

lemma tag_set_split:
  assumes "geometry_ok cb" "splitAddress cb a = Inr sp"
  shows "tag_set cb (s_tag sp) = s_set_index sp"
  using split_line_addr [OF assms] assms(2)
  by (auto simp: splitAddress_eq [OF assms(1)] tag_set_def line_addr_def)

lemma sum_list_update_int:
  "i < length xs \<Longrightarrow> sum_list (map f (xs[i := x])) = sum_list (map f xs) - f (xs ! i) + (f x :: int)"
  by (induction xs arbitrary: i) (auto simp: nth_Cons split: nat.splits)

lemma put_set_simps [simp]:
  "c_base (put_set i s c) = c_base c" "m_sets (put_set i s c) = (m_sets c)[i := fst s]"
  "c_shared (put_set i s c) = snd s" "m_cache_type (put_set i s c) = m_cache_type c"
  by (simp_all add: put_set_def)

lemma cache_ok_setD:
  assumes "cache_ok c" "i < length (m_sets c)"
  shows "set_ok (c_base c) (m_sets c ! i, c_shared c)" "unique_tags (m_sets c ! i)"
    "\<And>tag. tag \<in> tags_of (lines (m_sets c ! i)) \<Longrightarrow> tag_set (c_base c) tag = i"
  using assms by (auto simp: cache_ok_def)

lemma set_ok_shared:
  assumes "set_ok cb (st, sh)" "length (m_access (m_set_info sh')) = length (m_access (m_set_info sh))"
    "length (m_attempts (m_set_info sh')) = length (m_attempts (m_set_info sh))"
  shows "set_ok cb (st, sh')"
  using assms by (simp add: set_ok_def policy_ok_def lru_ok_def)

lemma put_set_ok:
  assumes ok: "cache_ok c" and i: "i < length (m_sets c)"
    and s: "set_ok (c_base c) s" "unique_tags (fst s)" "set_counted (m_sets c ! i, c_shared c) s"
    and tags: "\<And>tag. tag \<in> tags_of (lines (fst s)) \<Longrightarrow> tag_set (c_base c) tag = i"
  shows "cache_ok (put_set i s c)"
proof -
  note old = cache_ok_setD [OF ok i]
  have len: "length (m_access (m_set_info (snd s))) = length (m_access (m_set_info (c_shared c)))"
    "length (m_attempts (m_set_info (snd s))) = length (m_attempts (m_set_info (c_shared c)))"
    using old(1) s(1,3) by (auto simp: set_ok_def policy_ok_def lru_ok_def set_counted_def Let_def)
  have sets: "set_ok (c_base c) ((m_sets c)[i := fst s] ! j, snd s) \<and> unique_tags ((m_sets c)[i := fst s] ! j) \<and>
      (\<forall>tag \<in> tags_of (lines ((m_sets c)[i := fst s] ! j)). tag_set (c_base c) tag = j)"
    if "j < length (m_sets c)" for j
    using that s(1,2) tags i cache_ok_setD [OF ok that] set_ok_shared [OF _ len]
    by (cases "j = i") auto
  have fr: "total_frames k (put_set i s c) = total_frames k c - frames_in k (m_sets c ! i) + frames_in k (fst s)" for k
    using sum_list_update_int [OF i] by (simp add: total_frames_def)
  show ?thesis
    using ok sets fr [of SCHEME1] fr [of SCHEME2] s(3)
    by (simp add: cache_ok_def set_counted_def Let_def)
qed

definition other_sets :: "nat \<Rightarrow> cache \<Rightarrow> (cache_block_info \<times> u8 list) set" where
  "other_sets i c = (\<Union>j \<in> {..<length (m_sets c)} - {i}. lines (m_sets c ! j))"

lemma cache_lines_set:
  "i < length (m_sets c) \<Longrightarrow> cache_lines c = lines (m_sets c ! i) \<union> other_sets i c"
  by (auto simp: cache_lines_def other_sets_def set_conv_nth)

lemma cache_lines_put_set:
  assumes "i < length (m_sets c)"
  shows "cache_lines (put_set i s c) = lines (fst s) \<union> other_sets i c"
proof -
  have "other_sets i (put_set i s c) = other_sets i c" by (simp add: other_sets_def)
  then show ?thesis using cache_lines_set [of i "put_set i s c"] assms by simp
qed

lemma other_sets_tags:
  assumes "cache_ok c" "tag \<in> tags_of (other_sets i c)"
  shows "tag_set (c_base c) tag \<noteq> i"
proof -
  from assms(2) obtain j where "j < length (m_sets c)" "j \<noteq> i" "tag \<in> tags_of (lines (m_sets c ! j))"
    by (auto simp: other_sets_def tags_of_def)
  with cache_ok_setD(3) [OF assms(1)] show ?thesis by blast
qed

text \<open>The set an address is looked up in.\<close>

lemma cache_split:
  assumes ok: "cache_ok c"
  obtains sp where "splitAddress (c_base c) addr = Inr sp" "s_set_index sp < length (m_sets c)"
    "tag_set (c_base c) (s_tag sp) = s_set_index sp" "s_block_id sp = snd (tag_place (c_base c) (s_tag sp))"
    "tag_place (c_base c) (s_tag sp) = (s_supertag sp, s_block_id sp)"
    "set_state_of c (s_set_index sp) = Inr (m_sets c ! s_set_index sp, c_shared c)"
    "s_tag sp \<noteq> TAG_UNUSED"
proof -
  have geo: "geometry_ok (c_base c)" using ok by (simp add: cache_ok_def)
  from splitAddress_eq [OF geo] obtain sp where sp: "splitAddress (c_base c) addr = Inr sp" by blast
  have "s_set_index sp < m_num_sets (c_base c)"
  proof -
    have "log2_nat (m_num_sets (c_base c)) < 64" using geo by (auto simp: geometry_ok_def)
    then show ?thesis
      by (subst geometry_masks(3) [OF geo]) (use sp splitAddress_eq [OF geo, of addr] in \<open>auto intro!: and_mask_lt\<close>)
  qed
  then have i: "s_set_index sp < length (m_sets c)" using ok by (simp add: cache_ok_def)
  have k: "0 < log_bs (c_base c)" "log_bs (c_base c) < 32"
    using ok geometry_log [OF geo] by (auto simp: cache_ok_def intro!: Nat.gr0I)
  have "\<not> bit (drop_bit (log_bs (c_base c)) addr) 63" using k by (auto simp: bit_simps dest: bit_imp_le_length)
  moreover have "bit (- 1 :: u64) 63" by simp
  ultimately have "drop_bit (log_bs (c_base c)) addr \<noteq> TAG_UNUSED" unfolding TAG_UNUSED_def by metis
  then have "s_tag sp \<noteq> TAG_UNUSED" using sp splitAddress_eq [OF geo, of addr] by auto
  then show thesis
    using that [OF sp i] tag_set_split [OF geo sp] tag_place_split [OF geo sp] i
    by (simp add: set_state_of_def)
qed

end
