(* ===== verification/Cache_Props.thy ===== *)
theory Cache_Props
  imports Cache
begin

text \<open>
  The properties of a cache as a whole: its invariant over any run, the accounting of the compression
  controller, and what insertions, accesses and invalidations do to the lines it holds.
\<close>

definition addr_tag :: "cache_base \<Rightarrow> u64 \<Rightarrow> u64" where
  "addr_tag cb addr = drop_bit (log_bs cb) addr"

lemma addr_tag_split: "geometry_ok cb \<Longrightarrow> splitAddress cb addr = Inr sp \<Longrightarrow> s_tag sp = addr_tag cb addr"
  by (auto simp: splitAddress_eq addr_tag_def)

section \<open>Effects\<close>

text \<open>A set-level change with its writebacks, seen from the cache. \<open>L\<close> are the lines the set holds or
  hands out afterwards.\<close>

lemma set_change:
  assumes ok: "cache_ok c" and i: "i < length (m_sets c)"
    and s: "set_ok (c_base c) s" "unique_tags (fst s)" "set_counted (m_sets c ! i, c_shared c) s"
    and L: "lines (fst s) \<union> wb_lines new = L" "\<And>tag. tag \<in> tags_of L \<Longrightarrow> tag_set (c_base c) tag = i"
    and dis: "tags_of (lines (fst s)) \<inter> tags_of (wb_lines new) = {}"
  shows "cache_ok (put_set i s c)" "cache_lines (put_set i s c) \<union> wb_lines new = L \<union> other_sets i c"
    "tags_of (cache_lines (put_set i s c)) \<inter> tags_of (wb_lines new) = {}"
proof -
  have tags: "tag_set (c_base c) tag = i" if "tag \<in> tags_of (lines (fst s)) \<or> tag \<in> tags_of (wb_lines new)" for tag
    using that L by (auto simp: tags_of_def)
  show "cache_ok (put_set i s c)" using put_set_ok [OF ok i s] tags by blast
  show "cache_lines (put_set i s c) \<union> wb_lines new = L \<union> other_sets i c"
    using cache_lines_put_set [OF i, of s] L(1) by auto
  show "tags_of (cache_lines (put_set i s c)) \<inter> tags_of (wb_lines new) = {}"
    unfolding cache_lines_put_set [OF i, of s] tags_of_Un using dis tags other_sets_tags [OF ok] by blast
qed

lemma insertSingleLine_effect:
  assumes ok: "cache_ok c" and new: "addr_tag (c_base c) addr \<notin> tags_of (cache_lines c)"
    and r: "insertSingleLine mem addr ins is_fill (Some wbs) cntlr c = Inr (c', wbs')"
  shows "\<exists>info D new. wbs' = wbs @ new \<and> cache_ok c' \<and> c_base c' = c_base c \<and>
    m_tag info = addr_tag (c_base c) addr \<and> wb_addrs (c_base c) new \<and>
    (\<forall>q. cntlr = Some q \<longrightarrow> D = take (m_cb_blocksize (c_base c)) (if is_fill then the ins else mem addr)) \<and>
    cache_lines c' \<union> wb_lines new = insert (info, D) (cache_lines c) \<and>
    tags_of (cache_lines c') \<inter> tags_of (wb_lines new) = {} \<and>
    ((info, D) \<in> cache_lines c' \<or> (wb_lines new = {(info, D)} \<and> cache_lines c' = cache_lines c))"
proof -
  have geo: "geometry_ok (c_base c)" using ok by (simp add: cache_ok_def)
  from cache_split [OF ok, of addr] obtain sp where sp: "splitAddress (c_base c) addr = Inr sp"
    "s_set_index sp < length (m_sets c)" "tag_set (c_base c) (s_tag sp) = s_set_index sp"
    "set_state_of c (s_set_index sp) = Inr (m_sets c ! s_set_index sp, c_shared c)" "s_tag sp \<noteq> TAG_UNUSED" .
  let ?i = "s_set_index sp" and ?cb = "c_base c"
  from r sp(1,4) obtain mux bi s' where m: "(case cntlr of
        Some _ \<Rightarrow> if is_fill then (if ins = None then Inl Assert_Failed else Inr ins) else Inr (Some (mem addr))
      | None \<Rightarrow> Inr None) = Inr mux"
    "insertLine ?cb (Some (bi\<lparr> m_tag := s_tag sp \<rparr>)) mux True cntlr ((m_sets c ! ?i, c_shared c), wbs) = Inr (s', wbs')"
    "c' = put_set ?i s' c"
    by (auto simp: insertSingleLine_def res_simps)
  note set = cache_ok_setD [OF ok sp(2)]
  have v: "cbi_isValid (bi\<lparr> m_tag := s_tag sp \<rparr>)" using sp(5) by (simp add: cbi_isValid_def)
  from insertLine_effect [OF geo set(1) v m(2)] obtain new D where e: "wbs' = wbs @ new"
    "line_inserted ?cb (bi\<lparr> m_tag := s_tag sp \<rparr>) D (m_sets c ! ?i, c_shared c) s' new"
    "\<forall>d. mux = Some d \<longrightarrow> D = take (m_cb_blocksize ?cb) d" by blast
  let ?info = "bi\<lparr> m_tag := s_tag sp \<rparr>"
  have tag: "s_tag sp = addr_tag ?cb addr" by (rule addr_tag_split [OF geo sp(1)])
  have fr: "fresh (m_sets c ! ?i) ?info"
    using new tag set(2) cache_lines_set [OF sp(2)] by (auto simp: fresh_def)
  note li = e(2) [unfolded line_inserted_def, simplified]
  have un: "unique_tags (fst s')" "tags_of (lines (fst s')) \<inter> tags_of (wb_lines new) = {}" using li fr by auto
  have L: "lines (fst s') \<union> wb_lines new = insert (?info, D) (lines (m_sets c ! ?i))" using li by simp
  have Lt: "tag_set ?cb t = ?i" if "t \<in> tags_of (insert (?info, D) (lines (m_sets c ! ?i)))" for t
    using that set(3) sp(3) by auto
  from li have s': "set_ok ?cb s'" "set_counted (m_sets c ! ?i, c_shared c) s'" by auto
  note sc = set_change [OF ok sp(2) s'(1) un(1) s'(2) L Lt un(2)]
  have "\<forall>q. cntlr = Some q \<longrightarrow> D = take (m_cb_blocksize ?cb) (if is_fill then the ins else mem addr)"
    using m(1) e(3) by (auto split: if_splits option.splits)
  moreover have "(?info, D) \<in> cache_lines c' \<or> (wb_lines new = {(?info, D)} \<and> cache_lines c' = cache_lines c)"
    using li m(3) cache_lines_put_set [OF sp(2), of s'] cache_lines_set [OF sp(2)] by auto
  ultimately show ?thesis
    using e(1) m(3) sc tag li cache_lines_set [OF sp(2)] by (intro exI [of _ ?info] exI [of _ D] exI [of _ new]) auto
qed

lemma invalidateSingleLine_effect:
  assumes ok: "cache_ok c"
  shows "\<exists>c'. invalidateSingleLine addr c = Inr c' \<and> cache_ok c' \<and> c_base c' = c_base c \<and>
    cache_lines c' = without (addr_tag (c_base c) addr) (cache_lines c)"
proof -
  have geo: "geometry_ok (c_base c)" using ok by (simp add: cache_ok_def)
  from cache_split [OF ok, of addr] obtain sp where sp: "splitAddress (c_base c) addr = Inr sp"
    "s_set_index sp < length (m_sets c)" "tag_set (c_base c) (s_tag sp) = s_set_index sp"
    "s_block_id sp = snd (tag_place (c_base c) (s_tag sp))"
    "set_state_of c (s_set_index sp) = Inr (m_sets c ! s_set_index sp, c_shared c)" .
  let ?i = "s_set_index sp"
  note set = cache_ok_setD [OF ok sp(2)]
  from cs_invalidate_effect [OF set(1,2) sp(4)] obtain s' where s':
    "cs_invalidate (s_tag sp) (s_block_id sp) (m_sets c ! ?i, c_shared c) = Inr s'" "set_ok (c_base c) s'"
    "set_counted (m_sets c ! ?i, c_shared c) s'" "unique_tags (fst s')"
    "lines (fst s') = without (s_tag sp) (lines (m_sets c ! ?i))" by blast
  have tag: "s_tag sp = addr_tag (c_base c) addr" by (rule addr_tag_split [OF geo sp(1)])
  have "cache_ok (put_set ?i s' c)"
    using set(3) s'(5) by (intro put_set_ok [OF ok sp(2) s'(2,4,3)]) (auto simp: tags_of_def)
  moreover have "s_tag sp \<notin> tags_of (other_sets ?i c)" using other_sets_tags [OF ok] sp(3) by blast
  then have "cache_lines (put_set ?i s' c) = without (s_tag sp) (cache_lines c)"
    using cache_lines_put_set [OF sp(2)] cache_lines_set [OF sp(2)] s'(5) without_id by blast
  ultimately show ?thesis using sp(1,5) s'(1) tag by (simp add: invalidateSingleLine_def)
qed

lemma readLine_effect:
  assumes ok: "set_ok cb (st, sh)" and w: "w < m_associativity st" and blk: "blk < SUPERBLOCK_SIZE"
    and info: "m_block_infos (m_superblock_info_ways st ! w) ! blk = Some info" "cbi_isValid info"
    and n: "off + n \<le> m_cb_blocksize cb" "\<And>b. buf = Some b \<Longrightarrow> off + n \<le> length b"
  shows "\<exists>s'. readLine w blk off n upd buf (st, sh) =
      Inr (map_option (overwrite off (take n (drop off (m_data (m_data_ways st ! w) ! blk)))) buf, s') \<and>
    same_lines (st, sh) s' \<and> policy_ok s'"
proof -
  note way = set_ok_wayD [OF ok, simplified, OF w]
  have bs: "m_set_blocksize st = m_cb_blocksize cb" "policy_ok (st, sh)" using ok by (auto simp: set_ok_def)
  have "m_blocksize (m_data_ways st ! w) < 2 ^ 32" "m_blocksize (m_data_ways st ! w) = m_cb_blocksize cb"
    using way(1) by (auto simp: way_ok_def frame_ok_def shape_ok_def)
  then have a: "add32 off n = off + n" using n(1) by (intro add32_exact) simp
  have sh: "shape_ok (m_data_ways st ! w)" using way(1) by (simp add: way_ok_def frame_ok_def)
  have vd: "m_valid (m_data_ways st ! w) ! blk" using way_ok_valid(1) [OF way(1) blk] info by simp
  have len: "blk < length (m_valid (m_data_ways st ! w))" "blk < length (m_data (m_data_ways st ! w))"
    "length (m_data (m_data_ways st ! w) ! blk) = m_cb_blocksize cb" "blk < length (m_block_infos (m_superblock_info_ways st ! w))"
    using way_ok_valid [OF way(1) blk] by auto
  obtain s' where s': "(if upd then updateReplacementWay w (st, sh) else Inr (st, sh)) = Inr s'"
    "same_lines (st, sh) s'" "policy_ok s'"
    using updateReplacementWay_moves [OF bs(2), of w] w bs(2) by (cases upd) auto
  show ?thesis
  proof (cases buf)
    case None
    then show ?thesis using s' n a bs by (simp add: readLine_def)
  next
    case (Some b)
    then have "readBlockData (m_data_ways st ! w) blk off n buf =
        Inr (Some (overwrite off (take n (drop off (m_data (m_data_ways st ! w) ! blk))) b))"
      using n vd len by (simp add: readBlockData_def copy_n_def)
    then show ?thesis using Some s' n a bs way info len by (simp add: readLine_def sb_isValid_at_def)
  qed
qed

text \<open>An access that misses, a load and a store.\<close>

lemma accessSingleLine_cases:
  assumes ok: "cache_ok c"
    and r: "accessSingleLine mem addr ty acc n upd is_wb wbs cntlr c = Inr (res, acc', c', wbs')"
  shows "(addr_tag (c_base c) addr \<notin> tags_of (cache_lines c) \<and> res = None \<and> acc' = acc \<and> c' = c \<and> wbs' = wbs) \<or>
    (\<exists>info sp i w. res = Some info \<and> m_tag info = addr_tag (c_base c) addr \<and>
       splitAddress (c_base c) addr = Inr sp \<and> i = s_set_index sp \<and> i < length (m_sets c) \<and> w < m_associativity (m_sets c ! i) \<and>
       m_block_infos (m_superblock_info_ways (m_sets c ! i) ! w) ! s_block_id sp = Some info \<and> cbi_isValid info \<and>
       (if ty = LOAD then \<exists>s'. readLine w (s_block_id sp) (s_offset sp) n upd acc (m_sets c ! i, c_shared c) = Inr (acc', s') \<and>
          c' = put_set i s' c \<and> wbs' = wbs
        else \<exists>wb wb' s'. wbs = Some wb \<and> wbs' = Some wb' \<and> acc' = acc \<and> c' = put_set i s' c \<and>
          writeLine (c_base c) (s_tag sp) (s_block_id sp) (s_offset sp)
            (if acc = None \<and> n \<noteq> 0 then Some (mem addr) else acc) n upd is_wb cntlr
            ((m_sets c ! i, c_shared c), wb) = Inr (s', wb')))"
proof -
  have geo: "geometry_ok (c_base c)" using ok by (simp add: cache_ok_def)
  from cache_split [OF ok, of addr] obtain sp where sp: "splitAddress (c_base c) addr = Inr sp"
    "s_set_index sp < length (m_sets c)" "tag_set (c_base c) (s_tag sp) = s_set_index sp"
    "s_block_id sp = snd (tag_place (c_base c) (s_tag sp))"
    "set_state_of c (s_set_index sp) = Inr (m_sets c ! s_set_index sp, c_shared c)" .
  let ?i = "s_set_index sp"
  note set = cache_ok_setD [OF ok sp(2)]
  have tag: "s_tag sp = addr_tag (c_base c) addr" by (rule addr_tag_split [OF geo sp(1)])
  from cs_find_spec [OF set(1) sp(4)] show ?thesis
  proof (elim disjE conjE exE)
    assume n: "s_tag sp \<notin> tags_of (lines (m_sets c ! ?i))" "cs_find (m_sets c ! ?i) (s_tag sp) (s_block_id sp) = Inr None"
    have "s_tag sp \<notin> tags_of (other_sets ?i c)" using other_sets_tags [OF ok] sp(3) by blast
    then show ?thesis using n r sp(1,5) cache_lines_set [OF sp(2)] tag by (auto simp: accessSingleLine_def)
  next
    fix w info assume f: "cs_find (m_sets c ! ?i) (s_tag sp) (s_block_id sp) = Inr (Some (w, info))"
      "w < m_associativity (m_sets c ! ?i)" "m_tag info = s_tag sp"
      "m_block_infos (m_superblock_info_ways (m_sets c ! ?i) ! w) ! s_block_id sp = Some info" "cbi_isValid info"
    show ?thesis
    proof (cases "ty = LOAD")
      case True
      then have "res = Some info" "\<exists>s'. readLine w (s_block_id sp) (s_offset sp) n upd acc (m_sets c ! ?i, c_shared c) = Inr (acc', s') \<and>
          c' = put_set ?i s' c \<and> wbs' = wbs"
        using r f(1) sp(1,5) by (auto simp: accessSingleLine_def res_simps)
      then show ?thesis using f sp tag True by (intro disjI2 exI [of _ info] exI [of _ sp] exI [of _ ?i] exI [of _ w]) auto
    next
      case False
      then have "res = Some info" "\<exists>wb wb' s'. wbs = Some wb \<and> wbs' = Some wb' \<and> acc' = acc \<and> c' = put_set ?i s' c \<and>
          writeLine (c_base c) (s_tag sp) (s_block_id sp) (s_offset sp)
            (if acc = None \<and> n \<noteq> 0 then Some (mem addr) else acc) n upd is_wb cntlr
            ((m_sets c ! ?i, c_shared c), wb) = Inr (s', wb')"
        using r f(1) sp(1,5) by (auto simp: accessSingleLine_def res_simps Let_def split: option.splits if_splits)
      then show ?thesis using f sp tag False by (intro disjI2 exI [of _ info] exI [of _ sp] exI [of _ ?i] exI [of _ w]) auto
    qed
  qed
qed

lemma put_set_same_lines:
  assumes ok: "cache_ok c" and i: "i < length (m_sets c)" and s: "same_lines (m_sets c ! i, c_shared c) s" "policy_ok s"
  shows "cache_ok (put_set i s c) \<and> cache_lines (put_set i s c) = cache_lines c"
proof -
  note set = cache_ok_setD [OF ok i]
  have sl: "lines (fst s) = lines (m_sets c ! i)" "unique_tags (fst s)" "set_counted (m_sets c ! i, c_shared c) s"
    using same_lines_lines(1-3) [OF s(1)] set(2) by auto
  have "cache_ok (put_set i s c)"
    by (rule put_set_ok [OF ok i same_lines_set_ok [OF s set(1)] sl(2,3)]) (rule set(3), simp only: sl(1))
  then show ?thesis using cache_lines_put_set [OF i, of s] cache_lines_set [OF i] sl(1) by simp
qed

lemma readLine_keeps:
  assumes "set_ok cb (st, sh)" "w < m_associativity st" "readLine w blk off n upd buf (st, sh) = Inr (buf', s')"
  shows "same_lines (st, sh) s' \<and> policy_ok s'"
proof -
  have "policy_ok (st, sh)" using assms(1) by (simp add: set_ok_def)
  with assms(2,3) touch_same [of "(st, sh)" w s'] show ?thesis
    by (auto simp: readLine_def res_simps split: if_splits)
qed

lemma store_effect:
  assumes ok: "cache_ok c" and sp: "splitAddress (c_base c) addr = Inr sp"
    and w: "writeLine (c_base c) (s_tag sp) (s_block_id sp) (s_offset sp) wr n upd is_wb cntlr
      ((m_sets c ! s_set_index sp, c_shared c), wb) = Inr (s', wb')"
  shows "\<exists>info old D new. wb' = wb @ new \<and> cache_ok (put_set (s_set_index sp) s' c) \<and>
    m_tag info = addr_tag (c_base c) addr \<and> (info, old) \<in> cache_lines c \<and> wb_addrs (c_base c) new \<and>
    (s_offset sp = 0 \<longrightarrow> D = (case wr of None \<Rightarrow> old | Some x \<Rightarrow> overwrite 0 (take n x) old)) \<and>
    cache_lines (put_set (s_set_index sp) s' c) \<union> wb_lines new =
      insert (info, D) (without (m_tag info) (cache_lines c)) \<and>
    tags_of (cache_lines (put_set (s_set_index sp) s' c)) \<inter> tags_of (wb_lines new) = {}"
proof -
  have geo: "geometry_ok (c_base c)" using ok by (simp add: cache_ok_def)
  from cache_split [OF ok, of addr] obtain sq where sq: "splitAddress (c_base c) addr = Inr sq"
    "s_set_index sq < length (m_sets c)" "tag_set (c_base c) (s_tag sq) = s_set_index sq"
    "s_block_id sq = snd (tag_place (c_base c) (s_tag sq))" .
  have "sq = sp" using sq(1) sp by simp
  with sq have sp2: "s_set_index sp < length (m_sets c)" "tag_set (c_base c) (s_tag sp) = s_set_index sp"
    "s_block_id sp = snd (tag_place (c_base c) (s_tag sp))" by simp_all
  let ?i = "s_set_index sp"
  note set = cache_ok_setD [OF ok sp2(1)]
  have tag: "s_tag sp = addr_tag (c_base c) addr" by (rule addr_tag_split [OF geo sp])
  obtain info old D new where
    e: "m_tag info = s_tag sp" "(info, old) \<in> lines (m_sets c ! ?i)" "wb' = wb @ new"
    "line_written (c_base c) info D (m_sets c ! ?i, c_shared c) s' new"
    "s_offset sp = 0 \<longrightarrow> D = (case wr of None \<Rightarrow> old | Some w \<Rightarrow> overwrite 0 (take n w) old)"
    using writeLine_effect [OF geo set(1,2) sp2(3) w] by (elim exE conjE) (rule that)
  note lw = e(4) [unfolded line_written_def, simplified]
  have L: "lines (fst s') \<union> wb_lines new = insert (info, D) (without (m_tag info) (lines (m_sets c ! ?i)))" using lw by simp
  have Lt: "tag_set (c_base c) t = ?i" if "t \<in> tags_of (insert (info, D) (without (m_tag info) (lines (m_sets c ! ?i))))" for t
    using that set(3) sp2(2) e(1) by (auto simp: tags_of_def)
  have dis: "tags_of (lines (fst s')) \<inter> tags_of (wb_lines new) = {}" using lw by simp
  from lw have s': "set_ok (c_base c) s'" "unique_tags (fst s')" "set_counted (m_sets c ! ?i, c_shared c) s'" by auto
  note sc = set_change [OF ok sp2(1) s' L Lt dis]
  have "m_tag info \<notin> tags_of (other_sets ?i c)" using other_sets_tags [OF ok] sp2(2) e(1) by metis
  then have "without (m_tag info) (other_sets ?i c) = other_sets ?i c" by (rule without_id)
  then have "insert (info, D) (without (m_tag info) (lines (m_sets c ! ?i))) \<union> other_sets ?i c =
      insert (info, D) (without (m_tag info) (cache_lines c))"
    using cache_lines_set [OF sp2(1)] by blast
  with sc e tag lw cache_lines_set [OF sp2(1)] show ?thesis
    by (intro exI [of _ info] exI [of _ old] exI [of _ D] exI [of _ new]) auto
qed

lemma accessSingleLine_keeps:
  assumes ok: "cache_ok c"
    and r: "accessSingleLine mem addr ty acc n upd is_wb wbs cntlr c = Inr (res, acc', c', wbs')"
  shows "cache_ok c' \<and> c_base c' = c_base c \<and> (ty = LOAD \<longrightarrow> cache_lines c' = cache_lines c)"
  using accessSingleLine_cases [OF ok r]
proof (elim disjE conjE exE)
  fix info sp i w
  assume sp: "splitAddress (c_base c) addr = Inr sp" "i = s_set_index sp" "i < length (m_sets c)" "w < m_associativity (m_sets c ! i)"
    and k: "if ty = LOAD then \<exists>s'. readLine w (s_block_id sp) (s_offset sp) n upd acc (m_sets c ! i, c_shared c) = Inr (acc', s') \<and>
          c' = put_set i s' c \<and> wbs' = wbs
        else \<exists>wb wb' s'. wbs = Some wb \<and> wbs' = Some wb' \<and> acc' = acc \<and> c' = put_set i s' c \<and>
          writeLine (c_base c) (s_tag sp) (s_block_id sp) (s_offset sp)
            (if acc = None \<and> n \<noteq> 0 then Some (mem addr) else acc) n upd is_wb cntlr
            ((m_sets c ! i, c_shared c), wb) = Inr (s', wb')"
  show ?thesis
  proof (cases "ty = LOAD")
    case True
    with k obtain s' where s': "readLine w (s_block_id sp) (s_offset sp) n upd acc (m_sets c ! i, c_shared c) = Inr (acc', s')"
      "c' = put_set i s' c" by auto
    from readLine_keeps [OF cache_ok_setD(1) [OF ok sp(3)] sp(4) s'(1)] put_set_same_lines [OF ok sp(3)] s'(2)
    show ?thesis by auto
  next
    case False
    with k obtain wb wb' s' where s': "c' = put_set (s_set_index sp) s' c"
      "writeLine (c_base c) (s_tag sp) (s_block_id sp) (s_offset sp)
            (if acc = None \<and> n \<noteq> 0 then Some (mem addr) else acc) n upd is_wb cntlr
            ((m_sets c ! s_set_index sp, c_shared c), wb) = Inr (s', wb')" using sp(2) by auto
    from store_effect [OF ok sp(1) s'(2)] s'(1) False show ?thesis by auto
  qed
qed (use ok in simp)

text \<open>A tag has one line.\<close>

lemma tags_ofI: "l \<in> L \<Longrightarrow> m_tag (fst l) \<in> tags_of L"
  by (simp add: tags_of_def)

lemma set_line_unique:
  assumes ok: "set_ok cb (st, sh)" and u: "unique_tags st" and l: "l \<in> lines st" "l' \<in> lines st" "m_tag (fst l) = m_tag (fst l')"
  shows "l = l'"
proof -
  let ?L = "\<lambda>w. way_lines (m_superblock_info_ways st ! w) (m_data_ways st ! w)"
  from l(1,2) obtain w w' where w: "w < m_associativity st" "l \<in> ?L w" "w' < m_associativity st" "l' \<in> ?L w'"
    by (auto simp: lines_def)
  have "m_tag (fst l) \<in> tags_of (?L w) \<inter> tags_of (?L w')"
    using tags_ofI [OF w(2)] tags_ofI [OF w(4)] l(3) by simp
  then have "w = w'" using u w by (auto simp: unique_tags_def)
  with w l(3) way_line_unique [OF set_ok_wayD(1) [OF ok]] show ?thesis by auto
qed

lemma cache_line_in_set:
  assumes ok: "cache_ok c" and l: "(info, d) \<in> cache_lines c"
  shows "tag_set (c_base c) (m_tag info) < length (m_sets c) \<and> (info, d) \<in> lines (m_sets c ! tag_set (c_base c) (m_tag info))"
proof -
  from l obtain j where j: "j < length (m_sets c)" "(info, d) \<in> lines (m_sets c ! j)"
    by (auto simp: cache_lines_def set_conv_nth)
  then have "tag_set (c_base c) (m_tag info) = j" using cache_ok_setD(3) [OF ok j(1)] by (force simp: tags_of_def)
  with j show ?thesis by simp
qed

lemma load_effect:
  assumes ok: "cache_ok c" and l: "(info, d) \<in> cache_lines c" "m_tag info = addr_tag (c_base c) addr"
    and sp: "splitAddress (c_base c) addr = Inr sp"
    and n: "s_offset sp + n \<le> m_cb_blocksize (c_base c)" "s_offset sp + n \<le> length buf"
  shows "\<exists>c'. accessSingleLine mem addr LOAD (Some buf) n upd is_wb wbs cntlr c =
      Inr (Some info, Some (overwrite (s_offset sp) (take n (drop (s_offset sp) d)) buf), c', wbs) \<and>
    cache_ok c' \<and> cache_lines c' = cache_lines c"
proof -
  have geo: "geometry_ok (c_base c)" using ok by (simp add: cache_ok_def)
  from cache_split [OF ok, of addr] obtain sq where sq: "splitAddress (c_base c) addr = Inr sq"
    "s_set_index sq < length (m_sets c)" "tag_set (c_base c) (s_tag sq) = s_set_index sq"
    "s_block_id sq = snd (tag_place (c_base c) (s_tag sq))"
    "set_state_of c (s_set_index sq) = Inr (m_sets c ! s_set_index sq, c_shared c)" .
  have [simp]: "sq = sp" using sq(1) sp by simp
  let ?i = "s_set_index sp"
  have tag: "s_tag sp = m_tag info" using addr_tag_split [OF geo sp] l(2) by simp
  have i: "?i < length (m_sets c)" "(info, d) \<in> lines (m_sets c ! ?i)"
    using cache_line_in_set [OF ok l(1)] sq(3) tag by simp_all
  note set = cache_ok_setD [OF ok i(1)]
  have "s_tag sp \<in> tags_of (lines (m_sets c ! ?i))" using i(2) tag by (force simp: tags_of_def)
  then obtain w info' where f: "cs_find (m_sets c ! ?i) (s_tag sp) (s_block_id sp) = Inr (Some (w, info'))"
    "w < m_associativity (m_sets c ! ?i)" "m_tag info' = s_tag sp"
    "m_block_infos (m_superblock_info_ways (m_sets c ! ?i) ! w) ! s_block_id sp = Some info'" "cbi_isValid info'"
    using cs_find_spec [OF set(1) sq(4) [simplified]] by blast
  have b: "s_block_id sp < SUPERBLOCK_SIZE" using tag_place_block sq(4) by simp
  let ?d = "m_data (m_data_ways (m_sets c ! ?i) ! w) ! s_block_id sp"
  have "(info', ?d) \<in> lines (m_sets c ! ?i)" using f b by (auto simp: lines_def way_lines_iff)
  then have eq: "(info', ?d) = (info, d)"
    using set_line_unique [OF set(1,2) _ i(2)] f(3) tag by simp
  from readLine_effect [OF set(1) f(2) b f(4,5) n(1), of "Some buf" upd] n(2) obtain s' where
    s': "readLine w (s_block_id sp) (s_offset sp) n upd (Some buf) (m_sets c ! ?i, c_shared c) =
      Inr (Some (overwrite (s_offset sp) (take n (drop (s_offset sp) ?d)) buf), s')"
    "same_lines (m_sets c ! ?i, c_shared c) s'" "policy_ok s'" by auto
  have "accessSingleLine mem addr LOAD (Some buf) n upd is_wb wbs cntlr c =
      Inr (Some info, Some (overwrite (s_offset sp) (take n (drop (s_offset sp) d)) buf), put_set ?i s' c, wbs)"
    using sp sq(5) f(1) s'(1) eq by (simp add: accessSingleLine_def)
  with put_set_same_lines [OF ok i(1) s'(2,3)] show ?thesis by blast
qed

lemma peek_effect:
  assumes ok: "cache_ok c"
  shows "peekSingleLine addr c = Inr None \<longleftrightarrow> addr_tag (c_base c) addr \<notin> tags_of (cache_lines c)"
    and "\<exists>r. peekSingleLine addr c = Inr r"
proof -
  have geo: "geometry_ok (c_base c)" using ok by (simp add: cache_ok_def)
  from cache_split [OF ok, of addr] obtain sp where sp: "splitAddress (c_base c) addr = Inr sp"
    "s_set_index sp < length (m_sets c)" "tag_set (c_base c) (s_tag sp) = s_set_index sp"
    "s_block_id sp = snd (tag_place (c_base c) (s_tag sp))" .
  have tag: "s_tag sp = addr_tag (c_base c) addr" by (rule addr_tag_split [OF geo sp(1)])
  note set = cache_ok_setD [OF ok sp(2)]
  have "s_tag sp \<notin> tags_of (other_sets (s_set_index sp) c)" using other_sets_tags [OF ok] sp(3) by blast
  then have t: "s_tag sp \<in> tags_of (cache_lines c) \<longleftrightarrow> s_tag sp \<in> tags_of (lines (m_sets c ! s_set_index sp))"
    using cache_lines_set [OF sp(2)] by simp
  have found: "s_tag sp \<in> tags_of (lines (m_sets c ! s_set_index sp))"
    if "w < m_associativity (m_sets c ! s_set_index sp)" "m_tag info = s_tag sp"
      "m_block_infos (m_superblock_info_ways (m_sets c ! s_set_index sp) ! w) ! s_block_id sp = Some info" "cbi_isValid info" for w info
  proof -
    have "s_block_id sp < SUPERBLOCK_SIZE" using tag_place_block sp(4) by simp
    then have "(info, m_data (m_data_ways (m_sets c ! s_set_index sp) ! w) ! s_block_id sp) \<in> lines (m_sets c ! s_set_index sp)"
      using that unfolding lines_def by (auto simp: way_lines_iff)
    from tags_ofI [OF this] that(2) show ?thesis by simp
  qed
  from cs_find_spec [OF set(1) sp(4)] show "\<exists>r. peekSingleLine addr c = Inr r"
    using sp(1,2) by (auto simp: peekSingleLine_def)
  from cs_find_spec [OF set(1) sp(4)]
  show "peekSingleLine addr c = Inr None \<longleftrightarrow> addr_tag (c_base c) addr \<notin> tags_of (cache_lines c)"
    using sp(1,2) t tag found by (elim disjE conjE exE) (simp_all add: peekSingleLine_def)
qed

section \<open>Runs\<close>

inductive cache_run :: "cache \<Rightarrow> cache \<Rightarrow> bool" for c0 :: cache where
  k_init: "cache_run c0 c0"
| k_insert: "cache_run c0 c \<Longrightarrow> addr_tag (c_base c) addr \<notin> tags_of (cache_lines c) \<Longrightarrow>
    insertSingleLine mem addr ins is_fill (Some wbs) cntlr c = Inr (c', wbs') \<Longrightarrow> cache_run c0 c'"
| k_access: "cache_run c0 c \<Longrightarrow>
    accessSingleLine mem addr ty acc n upd is_wb owbs cntlr c = Inr (res, acc', c', owbs') \<Longrightarrow> cache_run c0 c'"
| k_invalidate: "cache_run c0 c \<Longrightarrow> invalidateSingleLine addr c = Inr c' \<Longrightarrow> cache_run c0 c'"
| k_counters: "cache_run c0 c \<Longrightarrow> c' \<in> {updateCounters hit c, updateHits hits c, cache_enable c, cache_disable c} \<Longrightarrow>
    cache_run c0 c'"

lemma cache_ok_counters:
  assumes "c' \<in> {updateCounters hit c, updateHits hits c, cache_enable c, cache_disable c}"
  shows "c_base c' = c_base c" "cache_ok c' = cache_ok c"
proof -
  have f: "c_base c' = c_base c \<and> m_sets c' = m_sets c \<and> c_shared c' = c_shared c"
    using assms by (auto simp: updateCounters_def updateHits_def cache_enable_def cache_disable_def)
  then show "c_base c' = c_base c" ..
  show "cache_ok c' = cache_ok c" using f by (simp add: cache_ok_def total_frames_def)
qed

lemma map_r_const: "map_r (\<lambda>_. Inr x) xs = Inr (replicate (length xs) x)"
  by (induction xs) auto

lemma way_lines_new: "way_lines SuperblockInfo b = {}"
  using slot_lines_empty [of SuperblockInfo] by (auto simp: way_lines_def SuperblockInfo_def)

lemma CacheSet_ok:
  assumes "geometry_ok cb" "pol = LRU \<and> info = CacheSetInfoLRU assoc \<and> k = 0 \<or> pol = LRU_QBS \<and> info = CacheSetInfoLRUQBS assoc k"
  shows "set_ok cb (CacheSet pol assoc (m_cb_blocksize cb) k, \<lparr> m_compress_cntlr = cc, m_set_info = info, qbs_lookups = q \<rparr>)"
    "lines (CacheSet pol assoc (m_cb_blocksize cb) k) = {}" "frames_in s (CacheSet pol assoc (m_cb_blocksize cb) k) =
      (if s = UNCOMPRESSED then int assoc else 0)"
proof -
  have "m_cb_blocksize cb < 2 ^ 32"
    using geometry_log [OF assms(1)] by (metis one_less_numeral_iff power_strict_increasing semiring_norm(76))
  note w = way_ok_new [OF this]
  show "lines (CacheSet pol assoc (m_cb_blocksize cb) k) = {}"
    by (simp add: lines_def CacheSet_def way_lines_new)
  show "set_ok cb (CacheSet pol assoc (m_cb_blocksize cb) k, \<lparr> m_compress_cntlr = cc, m_set_info = info, qbs_lookups = q \<rparr>)"
    using assms(2) w by (auto simp: set_ok_def CacheSet_def policy_ok_def lru_ok_def CacheSetInfoLRU_def CacheSetInfoLRUQBS_def)
  show "frames_in s (CacheSet pol assoc (m_cb_blocksize cb) k) = (if s = UNCOMPRESSED then int assoc else 0)"
    by (auto simp: frames_in_def CacheSet_def BlockData_def changeScheme_same)
qed

lemma Cache_ok:
  assumes geo: "geometry_ok cb" "1 < m_cb_blocksize cb" and c: "Cache cb cmp pol ty otf pr k = Inr c"
  shows "cache_ok c \<and> c_base c = cb \<and> cache_lines c = {}"
proof -
  obtain p info kk where p: "c = \<lparr> c_base = cb, m_enabled = False, m_num_accesses = 0, m_num_hits = 0, m_cache_type = ty,
      m_sets = replicate (m_num_sets cb) (CacheSet p (m_cb_associativity cb) (m_cb_blocksize cb) kk),
      c_shared = \<lparr> m_compress_cntlr = CacheCompressionCntlr cmp otf pr, m_set_info = info, qbs_lookups = 0 \<rparr> \<rparr>"
    "p = LRU \<and> info = CacheSetInfoLRU (m_cb_associativity cb) \<and> kk = 0 \<or>
     p = LRU_QBS \<and> info = CacheSetInfoLRUQBS (m_cb_associativity cb) kk"
    using c by (cases "parsePolicyType pol")
      (auto simp: Cache_def createCacheSetInfo_def createCacheSet_def res_simps map_r_const split: ReplacementPolicy.splits)
  note s = CacheSet_ok [OF geo(1) p(2)]
  have u: "unique_tags (CacheSet p (m_cb_associativity cb) (m_cb_blocksize cb) kk)"
    by (simp add: unique_tags_def CacheSet_def tags_of_def way_lines_new)
  have z: "total_frames t c = 0" if "t \<noteq> UNCOMPRESSED" for t
    using that s(3) by (simp add: total_frames_def p(1) sum_list_replicate)
  show ?thesis
    using geo s(1,2) u z [of SCHEME1] z [of SCHEME2] by (simp add: p(1) cache_ok_def cache_lines_def CacheCompressionCntlr_def)
qed

lemma cache_run_ok: "cache_run c0 c \<Longrightarrow> cache_ok c0 \<Longrightarrow> cache_ok c \<and> c_base c = c_base c0"
proof (induction rule: cache_run.induct)
  case (k_insert c addr mem ins is_fill wbs cntlr c' wbs')
  then show ?case using insertSingleLine_effect [OF _ k_insert.hyps(2,3)] by metis
next
  case (k_access c mem addr ty acc n upd is_wb owbs cntlr res acc' c' owbs')
  then show ?case using accessSingleLine_keeps [OF _ k_access.hyps(2)] by metis
next
  case (k_invalidate c addr c')
  then show ?case using invalidateSingleLine_effect [of c addr] by auto
next
  case (k_counters c c' hit hits)
  then show ?case using cache_ok_counters [OF k_counters.hyps(2)] by simp
qed simp

end
