(* ===== verification/Cache_Contract.thy ===== *)
theory Cache_Contract
  imports Cache_Props
begin

text \<open>
  What the cache promises its controller. The abstract cache is a map from tags to lines; what a
  cache holds and answers is determined by the log of the calls made on it, and no operation loses a
  line: what leaves the cache is in the writebacks.
\<close>

section \<open>The abstract cache\<close>

type_synonym contents = "(u64 \<times> u8 list) set"

definition contents :: "cache \<Rightarrow> contents" where
  "contents c = (\<lambda>(info, d). (m_tag info, d)) ` cache_lines c"

definition evictions :: "writeback list \<Rightarrow> contents" where
  "evictions wbs = (\<lambda>(info, d). (m_tag info, d)) ` wb_lines wbs"

text \<open>What a caller sees of a call: the address, the bytes it passes and gets back, and the new
  writebacks. A load carries its length, the buffer before and after, and whether it hit.\<close>

datatype cache_event =
    Filled u64 "u8 list" "writeback list"
  | Stored u64 "u8 list" "writeback list"
  | Loaded u64 nat byte_ptr byte_ptr bool "writeback list"
  | Invalidated u64
  | Counted

text \<open>The abstract cache is a finite map from tags to lines. It has no sets, frames or dictionaries;
  of the lines that leave it knows what the writebacks say.\<close>

type_synonym line_store = "u64 \<rightharpoonup> u8 list"

definition addr_offset :: "cache_base \<Rightarrow> u64 \<Rightarrow> nat" where
  "addr_offset cb a = (case splitAddress cb a of Inl _ \<Rightarrow> 0 | Inr sp \<Rightarrow> s_offset sp)"

definition leaving :: "writeback list \<Rightarrow> line_store \<Rightarrow> line_store" where
  "leaving wbs m = m |` (- fst ` evictions wbs)"

fun store_put :: "cache_base \<Rightarrow> cache_event \<Rightarrow> line_store \<Rightarrow> line_store" where
  "store_put cb (Filled a d wbs) m = m(addr_tag cb a \<mapsto> d)"
| "store_put cb (Stored a x wbs) m =
     (case m (addr_tag cb a) of None \<Rightarrow> m | Some old \<Rightarrow> m(addr_tag cb a \<mapsto> overwrite 0 x old))"
| "store_put cb (Invalidated a) m = m(addr_tag cb a := None)"
| "store_put cb _ m = m"

fun event_wbs :: "cache_event \<Rightarrow> writeback list" where
  "event_wbs (Filled a d wbs) = wbs"
| "event_wbs (Stored a x wbs) = wbs"
| "event_wbs (Loaded a n b b' hit wbs) = wbs"
| "event_wbs _ = []"

text \<open>The lines after the calls of a log, the newest call first: every call changes the line of its
  address, and then exactly the lines of its writebacks leave.\<close>

primrec store_of :: "cache_base \<Rightarrow> cache_event list \<Rightarrow> line_store" where
  "store_of cb [] = Map.empty"
| "store_of cb (e # log) = leaving (event_wbs e) (store_put cb e (store_of cb log))"

text \<open>What the caller gets back agrees with the map: a load hits exactly the lines of the map, copies
  their bytes and writes nothing back; a writeback carries the bytes the map has for its tag after
  the change, and the address of the tag; a filled line stays, unless it is the only one to leave; a
  store that misses writes nothing back.\<close>

definition wbs_agree :: "cache_base \<Rightarrow> writeback list \<Rightarrow> line_store \<Rightarrow> bool" where
  "wbs_agree cb wbs m \<longleftrightarrow> evictions wbs \<subseteq> Map.graph m \<and> wb_addrs cb wbs"

fun answer_agrees :: "cache_base \<Rightarrow> cache_event \<Rightarrow> line_store \<Rightarrow> bool" where
  "answer_agrees cb (Filled a d wbs) m \<longleftrightarrow> wbs_agree cb wbs (m(addr_tag cb a \<mapsto> d)) \<and>
     (addr_tag cb a \<in> fst ` evictions wbs \<longrightarrow> fst ` evictions wbs = {addr_tag cb a})"
| "answer_agrees cb (Stored a x wbs) m \<longleftrightarrow> wbs_agree cb wbs (store_put cb (Stored a x wbs) m) \<and>
     (m (addr_tag cb a) = None \<longrightarrow> wbs = [])"
| "answer_agrees cb (Loaded a n b b' hit wbs) m \<longleftrightarrow> wbs = [] \<and>
     (case m (addr_tag cb a) of None \<Rightarrow> \<not> hit \<and> b' = b
      | Some d \<Rightarrow> hit \<and>
          (case b of None \<Rightarrow> True
           | Some buf \<Rightarrow> addr_offset cb a + n \<le> m_cb_blocksize cb \<and> addr_offset cb a + n \<le> length buf \<longrightarrow>
               b' = Some (overwrite (addr_offset cb a) (take n (drop (addr_offset cb a) d)) buf)))"
| "answer_agrees cb _ m \<longleftrightarrow> True"

primrec answers_agree :: "cache_base \<Rightarrow> cache_event list \<Rightarrow> bool" where
  "answers_agree cb [] \<longleftrightarrow> True"
| "answers_agree cb (e # log) \<longleftrightarrow> answers_agree cb log \<and> answer_agrees cb e (store_of cb log)"

text \<open>The calls of a cache that keeps data, with their log. The new writebacks are what the call has
  added behind the ones it was given. A store starts at the beginning of a line.\<close>

definition new_wbs :: "writeback list option \<Rightarrow> writeback list option \<Rightarrow> writeback list" where
  "new_wbs old new = drop (length (case old of None \<Rightarrow> [] | Some w \<Rightarrow> w)) (case new of None \<Rightarrow> [] | Some w \<Rightarrow> w)"

definition stored_bytes :: "(u64 \<Rightarrow> u8 list) \<Rightarrow> u64 \<Rightarrow> byte_ptr \<Rightarrow> nat \<Rightarrow> u8 list" where
  "stored_bytes mem addr acc n =
     (case (if acc = None \<and> n \<noteq> 0 then Some (mem addr) else acc) of None \<Rightarrow> [] | Some x \<Rightarrow> take n x)"

inductive cache_trace :: "cache \<Rightarrow> cache_event list \<Rightarrow> cache \<Rightarrow> bool" for c0 :: cache where
  t_init: "cache_trace c0 [] c0"
| t_fill: "cache_trace c0 log c \<Longrightarrow> addr_tag (c_base c) addr \<notin> tags_of (cache_lines c) \<Longrightarrow>
    insertSingleLine mem addr ins is_fill (Some wbs) (Some q) c = Inr (c', wbs') \<Longrightarrow>
    cache_trace c0 (Filled addr (take (m_cb_blocksize (c_base c)) (if is_fill then the ins else mem addr))
      (drop (length wbs) wbs') # log) c'"
| t_store: "cache_trace c0 log c \<Longrightarrow> ty \<noteq> LOAD \<Longrightarrow> addr_offset (c_base c) addr = 0 \<Longrightarrow>
    accessSingleLine mem addr ty acc n upd is_wb owbs cntlr c = Inr (res, acc', c', owbs') \<Longrightarrow>
    cache_trace c0 (Stored addr (stored_bytes mem addr acc n) (new_wbs owbs owbs') # log) c'"
| t_load: "cache_trace c0 log c \<Longrightarrow>
    accessSingleLine mem addr LOAD acc n upd is_wb owbs cntlr c = Inr (res, acc', c', owbs') \<Longrightarrow>
    cache_trace c0 (Loaded addr n acc acc' (res \<noteq> None) (new_wbs owbs owbs') # log) c'"
| t_invalidate: "cache_trace c0 log c \<Longrightarrow> invalidateSingleLine addr c = Inr c' \<Longrightarrow> cache_trace c0 (Invalidated addr # log) c'"
| t_counters: "cache_trace c0 log c \<Longrightarrow> c' \<in> {updateCounters hit c, updateHits hits c, cache_enable c, cache_disable c} \<Longrightarrow>
    cache_trace c0 (Counted # log) c'"

lemma cache_trace_run: "cache_trace c0 log c \<Longrightarrow> cache_run c0 c"
  by (induction rule: cache_trace.induct) (blast intro: cache_run.intros)+

lemma fst_contents: "fst ` (\<lambda>(info, d). (m_tag info, d)) ` L = tags_of L"
  by (force simp: tags_of_def image_def)

lemma contents_tags [simp]: "fst ` contents c = tags_of (cache_lines c)" "fst ` evictions w = tags_of (wb_lines w)"
  by (simp_all add: contents_def evictions_def fst_contents)

lemma evictions_Nil [simp]: "evictions [] = {}" "leaving [] m = m" "wbs_agree cb [] m"
  by (simp_all add: evictions_def wb_lines_def leaving_def wbs_agree_def wb_addrs_def tags_of_def restrict_map_def)

lemma contents_without:
  "(\<lambda>(info, d). (m_tag info, d)) ` without t L = {l \<in> (\<lambda>(info, d). (m_tag info, d)) ` L. fst l \<noteq> t}"
  by (force simp: image_def)

lemma contents_partition:
  assumes "cache_lines c' \<union> wb_lines new = insert (info, D) L"
  shows "contents c' \<union> evictions new = insert (m_tag info, D) ((\<lambda>(info, d). (m_tag info, d)) ` L)"
proof -
  have "contents c' \<union> evictions new = (\<lambda>(info, d). (m_tag info, d)) ` (cache_lines c' \<union> wb_lines new)"
    by (simp add: contents_def evictions_def image_Un)
  then show ?thesis by (simp add: assms)
qed

lemma graph_put: "insert (t, d) {l \<in> Map.graph m. fst l \<noteq> t} = Map.graph (m(t \<mapsto> d))"
  "{l \<in> Map.graph m. fst l \<noteq> t} = Map.graph (m(t := None))"
  by (auto simp: Map.graph_def split: if_splits)

text \<open>When what stays and what leaves are disjoint parts of a map, the map without the tags that leave
  is what stays.\<close>

lemma graph_leaving:
  assumes "A \<union> evictions wbs = Map.graph m" "fst ` A \<inter> fst ` evictions wbs = {}"
  shows "A = Map.graph (leaving wbs m)" "evictions wbs \<subseteq> Map.graph m"
proof -
  show "A = Map.graph (leaving wbs m)"
  proof (rule set_eqI, clarify)
    fix t d
    have "(t, d) \<in> A \<longleftrightarrow> (t, d) \<in> Map.graph m \<and> t \<notin> fst ` evictions wbs"
      using assms by (metis IntI Un_iff empty_iff fst_conv image_eqI)
    then show "(t, d) \<in> A \<longleftrightarrow> (t, d) \<in> Map.graph (leaving wbs m)"
      by (auto simp: Map.graph_def leaving_def restrict_map_def)
  qed
  show "evictions wbs \<subseteq> Map.graph m" using assms(1) by blast
qed

lemma contents_lookup:
  "contents c = Map.graph m \<Longrightarrow> (m t = None \<longleftrightarrow> t \<notin> tags_of (cache_lines c))"
  "contents c = Map.graph m \<Longrightarrow> m t = Some d \<Longrightarrow> \<exists>info. (info, d) \<in> cache_lines c \<and> m_tag info = t"
proof -
  assume c: "contents c = Map.graph m"
  have "fst ` contents c = dom m" unfolding c by (force simp: Map.graph_def dom_def image_def)
  then show "m t = None \<longleftrightarrow> t \<notin> tags_of (cache_lines c)" by (auto simp: domIff)
next
  assume c: "contents c = Map.graph m" "m t = Some d"
  then have "(t, d) \<in> contents c" by (simp add: Map.graph_def)
  then show "\<exists>info. (info, d) \<in> cache_lines c \<and> m_tag info = t" by (auto simp: contents_def)
qed

text \<open>One lemma per kind of call: the change of the lines, and that the answer agrees.\<close>

abbreviation refines :: "cache_base \<Rightarrow> cache_event \<Rightarrow> line_store \<Rightarrow> cache \<Rightarrow> bool" where
  "refines cb e m c' \<equiv> contents c' = Map.graph (leaving (event_wbs e) (store_put cb e m)) \<and> answer_agrees cb e m"

lemma fill_refines:
  assumes ok: "cache_ok c" and m: "contents c = Map.graph m" and new: "addr_tag (c_base c) addr \<notin> tags_of (cache_lines c)"
    and r: "insertSingleLine mem addr ins is_fill (Some wbs) (Some q) c = Inr (c', wbs')"
  shows "refines (c_base c) (Filled addr (take (m_cb_blocksize (c_base c)) (if is_fill then the ins else mem addr))
      (drop (length wbs) wbs')) m c'"
proof -
  let ?t = "addr_tag (c_base c) addr" and ?d = "take (m_cb_blocksize (c_base c)) (if is_fill then the ins else mem addr)"
  from insertSingleLine_effect [OF ok new r] obtain info D new where
    e: "wbs' = wbs @ new" "m_tag info = ?t" "wb_addrs (c_base c) new" "D = ?d"
    "cache_lines c' \<union> wb_lines new = insert (info, D) (cache_lines c)"
    "tags_of (cache_lines c') \<inter> tags_of (wb_lines new) = {}"
    "(info, D) \<in> cache_lines c' \<or> (wb_lines new = {(info, D)} \<and> cache_lines c' = cache_lines c)"
    by (elim exE conjE) (rule that, simp_all)
  have "contents c' \<union> evictions new = insert (?t, ?d) (contents c)"
    using contents_partition [OF e(5)] e(2,4) unfolding contents_def by simp
  also have "contents c = {l \<in> Map.graph m. fst l \<noteq> ?t}"
    using contents_lookup(1) [OF m, of ?t] new by (auto simp: m Map.graph_def)
  finally have part: "contents c' \<union> evictions new = Map.graph (m(?t \<mapsto> ?d))" by (simp only: graph_put(1))
  have "tags_of (wb_lines new) = {?t}" if "?t \<in> tags_of (wb_lines new)"
  proof -
    have "?t \<notin> tags_of (cache_lines c')" using that e(6) by blast
    then have "(info, D) \<notin> cache_lines c'" using e(2) by (force simp: tags_of_def)
    then show ?thesis using e(2,7) by (auto simp: tags_of_def)
  qed
  moreover have "fst ` contents c' \<inter> fst ` evictions new = {}" using e(6) by simp
  note graph_leaving [OF part this]
  ultimately show ?thesis using e(1,3) by (simp add: wbs_agree_def split del: if_split)
qed

lemma store_refines:
  assumes ok: "cache_ok c" and m: "contents c = Map.graph m" and off: "addr_offset (c_base c) addr = 0" "ty \<noteq> LOAD"
    and r: "accessSingleLine mem addr ty acc n upd is_wb owbs cntlr c = Inr (res, acc', c', owbs')"
  shows "refines (c_base c) (Stored addr (stored_bytes mem addr acc n) (new_wbs owbs owbs')) m c'"
  using accessSingleLine_cases [OF ok r]
proof (elim disjE conjE exE)
  assume "addr_tag (c_base c) addr \<notin> tags_of (cache_lines c)" "c' = c" "owbs' = owbs"
  moreover from this have "m (addr_tag (c_base c) addr) = None" using contents_lookup(1) [OF m] by blast
  ultimately show ?thesis using m by (simp add: new_wbs_def)
next
  let ?t = "addr_tag (c_base c) addr"
  fix info sp i w
  assume sp: "splitAddress (c_base c) addr = Inr sp" "i = s_set_index sp"
    and k: "if ty = LOAD then \<exists>s'. readLine w (s_block_id sp) (s_offset sp) n upd acc (m_sets c ! i, c_shared c) = Inr (acc', s') \<and>
        c' = put_set i s' c \<and> owbs' = owbs
      else \<exists>wb wb' s'. owbs = Some wb \<and> owbs' = Some wb' \<and> acc' = acc \<and> c' = put_set i s' c \<and>
        writeLine (c_base c) (s_tag sp) (s_block_id sp) (s_offset sp)
          (if acc = None \<and> n \<noteq> 0 then Some (mem addr) else acc) n upd is_wb cntlr
          ((m_sets c ! i, c_shared c), wb) = Inr (s', wb')"
  let ?w = "if acc = None \<and> n \<noteq> 0 then Some (mem addr) else acc"
  from k off(2) sp(2) obtain wb wb' s' where s': "owbs = Some wb" "owbs' = Some wb'" "c' = put_set (s_set_index sp) s' c"
    "writeLine (c_base c) (s_tag sp) (s_block_id sp) (s_offset sp) ?w n upd is_wb cntlr
       ((m_sets c ! s_set_index sp, c_shared c), wb) = Inr (s', wb')" by auto
  have off0: "s_offset sp = 0" using off(1) sp(1) by (simp add: addr_offset_def)
  from store_effect [OF ok sp(1) s'(4)] off0 s'(3) obtain inf old D new where
    e: "wb' = wb @ new" "m_tag inf = ?t" "(inf, old) \<in> cache_lines c" "wb_addrs (c_base c) new"
    "D = (case ?w of None \<Rightarrow> old | Some x \<Rightarrow> overwrite 0 (take n x) old)"
    "cache_lines c' \<union> wb_lines new = insert (inf, D) (without (m_tag inf) (cache_lines c))"
    "tags_of (cache_lines c') \<inter> tags_of (wb_lines new) = {}" by blast
  have D: "D = overwrite 0 (stored_bytes mem addr acc n) old"
    using e(5) by (cases ?w) (simp_all add: stored_bytes_def overwrite_def)
  have old: "m ?t = Some old"
  proof -
    have "(?t, old) \<in> contents c" using e(2,3) by (force simp: contents_def)
    then show ?thesis by (simp add: m Map.graph_def)
  qed
  have "contents c' \<union> evictions new = insert (?t, D) {l \<in> contents c. fst l \<noteq> ?t}"
    using contents_partition [OF e(6)] e(2) by (simp add: contents_without contents_def)
  then have part: "contents c' \<union> evictions new = Map.graph (m(?t \<mapsto> D))" unfolding m graph_put(1) .
  have "fst ` contents c' \<inter> fst ` evictions new = {}" using e(7) by simp
  with graph_leaving [OF part this] e(1,4) s'(1,2) D old show ?thesis by (simp add: wbs_agree_def new_wbs_def)
qed

lemma accessSingleLine_hit:
  assumes ok: "cache_ok c"
    and r: "accessSingleLine mem addr ty acc n upd is_wb owbs cntlr c = Inr (res, acc', c', owbs')"
    and absent: "addr_tag (c_base c) addr \<notin> tags_of (cache_lines c)"
  shows "res = None"
proof -
  have "peekSingleLine addr c = Inr None" using peek_effect(1) [OF ok] absent by simp
  then show ?thesis
    using r by (auto simp: accessSingleLine_def peekSingleLine_def set_state_of_def res_simps)
qed

lemma load_refines:
  assumes ok: "cache_ok c" and m: "contents c = Map.graph m"
    and r: "accessSingleLine mem addr LOAD acc n upd is_wb owbs cntlr c = Inr (res, acc', c', owbs')"
  shows "refines (c_base c) (Loaded addr n acc acc' (res \<noteq> None) (new_wbs owbs owbs')) m c'"
proof -
  let ?t = "addr_tag (c_base c) addr"
  have c': "contents c' = Map.graph m" using accessSingleLine_keeps [OF ok r] m by (simp add: contents_def)
  have w: "owbs' = owbs" "res = None \<longleftrightarrow> ?t \<notin> tags_of (cache_lines c)" "res = None \<Longrightarrow> acc' = acc"
    using accessSingleLine_cases [OF ok r] accessSingleLine_hit [OF ok r] by auto
  obtain sp where sp: "splitAddress (c_base c) addr = Inr sp" "addr_offset (c_base c) addr = s_offset sp"
    using cache_split [OF ok, of addr] by (metis addr_offset_def sum.simps(6))
  have bytes: "acc' = Some (overwrite (s_offset sp) (take n (drop (s_offset sp) d)) buf)"
    if "m ?t = Some d" "acc = Some buf" "s_offset sp + n \<le> m_cb_blocksize (c_base c)" "s_offset sp + n \<le> length buf" for d buf
  proof -
    from contents_lookup(2) [OF m that(1)] obtain info where i: "(info, d) \<in> cache_lines c" "m_tag info = ?t" by blast
    from load_effect [OF ok i sp(1) that(3,4), of mem upd is_wb owbs cntlr] r that(2) show ?thesis by auto
  qed
  show ?thesis
    using c' w bytes contents_lookup(1) [OF m, of ?t] by (auto simp: new_wbs_def sp(2) split: option.splits)
qed

lemma invalidate_refines:
  assumes ok: "cache_ok c" and m: "contents c = Map.graph m" and r: "invalidateSingleLine addr c = Inr c'"
  shows "refines (c_base c) (Invalidated addr) m c'"
proof -
  from invalidateSingleLine_effect [OF ok, of addr] r
  have "contents c' = {l \<in> contents c. fst l \<noteq> addr_tag (c_base c) addr}"
    by (auto simp: contents_def contents_without [symmetric])
  then show ?thesis by (simp add: m graph_put(2))
qed

lemma counters_keep_contents:
  assumes "c' \<in> {updateCounters hit c, updateHits hits c, cache_enable c, cache_disable c}"
  shows "contents c' = contents c"
proof -
  have "m_sets c' = m_sets c"
    using assms by (auto simp: updateCounters_def updateHits_def cache_enable_def cache_disable_def)
  then show ?thesis by (simp add: contents_def cache_lines_def)
qed

lemma trace_refines:
  "cache_trace c0 log c \<Longrightarrow> cache_ok c0 \<Longrightarrow> cache_lines c0 = {} \<Longrightarrow>
   contents c = Map.graph (store_of (c_base c0) log) \<and> answers_agree (c_base c0) log"
proof (induction rule: cache_trace.induct)
  case t_init
  then show ?case by (simp add: contents_def)
next
  case (t_fill log c addr mem ins is_fill wbs q c' wbs')
  have "cache_ok c" "c_base c = c_base c0" using cache_run_ok [OF cache_trace_run [OF t_fill.hyps(1)] t_fill.prems(1)] by simp_all
  with fill_refines [OF this(1) _ t_fill.hyps(2,3)] t_fill.IH t_fill.prems show ?case by simp
next
  case (t_store log c ty addr mem acc n upd is_wb owbs cntlr res acc' c' owbs')
  have "cache_ok c" "c_base c = c_base c0" using cache_run_ok [OF cache_trace_run [OF t_store.hyps(1)] t_store.prems(1)] by simp_all
  with store_refines [OF this(1) _ t_store.hyps(3,2,4)] t_store.IH t_store.prems show ?case by simp
next
  case (t_load log c mem addr acc n upd is_wb owbs cntlr res acc' c' owbs')
  have "cache_ok c" "c_base c = c_base c0" using cache_run_ok [OF cache_trace_run [OF t_load.hyps(1)] t_load.prems(1)] by simp_all
  with load_refines [OF this(1) _ t_load.hyps(2)] t_load.IH t_load.prems show ?case by simp
next
  case (t_invalidate log c addr c')
  have "cache_ok c" "c_base c = c_base c0"
    using cache_run_ok [OF cache_trace_run [OF t_invalidate.hyps(1)] t_invalidate.prems(1)] by simp_all
  with invalidate_refines [OF this(1) _ t_invalidate.hyps(2), of "store_of (c_base c0) log"] t_invalidate.IH t_invalidate.prems
  show ?case by (simp del: fun_upd_apply)
next
  case (t_counters log c c' hit hits)
  then show ?case using counters_keep_contents [OF t_counters.hyps(2)] by simp
qed

lemma insertSingleLine_total:
  assumes ok: "cache_ok c" and small: "m_cb_blocksize (c_base c) \<le> 64"
    and otf: "\<not> canChangeSchemeOTF (m_compress_cntlr (c_shared c))"
    and ty: "m_cache_type c \<in> {PR_L1_CACHE, PR_L2_CACHE, SHARED_CACHE}"
    and d: "m_cb_blocksize (c_base c) \<le> length d"
  shows "\<exists>c' wbs'. insertSingleLine mem addr (Some d) True (Some wbs) (Some q) c = Inr (c', wbs')"
proof -
  have geo: "geometry_ok (c_base c)" using ok by (simp add: cache_ok_def)
  from cache_split [OF ok, of addr] obtain sp where sp: "splitAddress (c_base c) addr = Inr sp"
    "s_set_index sp < length (m_sets c)"
    "set_state_of c (s_set_index sp) = Inr (m_sets c ! s_set_index sp, c_shared c)" "s_tag sp \<noteq> TAG_UNUSED" .
  obtain bi where bi: "cbi_create (m_cache_type c) = Inr bi" using ty by (auto simp: cbi_create_def)
  have v: "cbi_isValid (bi\<lparr> m_tag := s_tag sp \<rparr>)" using sp(4) by (simp add: cbi_isValid_def)
  from insertLine_total [OF geo cache_ok_setD(1) [OF ok sp(2)] v d small otf]
  obtain r where "insertLine (c_base c) (Some (bi\<lparr> m_tag := s_tag sp \<rparr>)) (Some d) True (Some q)
      ((m_sets c ! s_set_index sp, c_shared c), wbs) = Inr r" by blast
  then show ?thesis using sp bi by (cases r) (auto simp: insertSingleLine_def res_simps)
qed

section \<open>Example\<close>

text \<open>A last-level cache of 64 sets with four ways of four 64-byte lines.\<close>

definition ex_cache :: cache where
  "ex_cache = \<lparr> c_base = ex_cb, m_enabled = False, m_num_accesses = 0, m_num_hits = 0, m_cache_type = SHARED_CACHE,
     m_sets = replicate 64 (CacheSet LRU 4 64 0),
     c_shared = \<lparr> m_compress_cntlr = CacheCompressionCntlr True False True, m_set_info = CacheSetInfoLRU 4,
                  qbs_lookups = 0 \<rparr> \<rparr>"

lemma ex_cache_created: "Cache ex_cb True ''lru'' SHARED_CACHE False True 0 = Inr ex_cache"
  by (simp add: Cache_def createCacheSetInfo_def createCacheSet_def parsePolicyType_def res_simps map_r_const
      ex_cache_def ex_cb_def)

lemma ex_cache_ok: "cache_ok ex_cache" "c_base ex_cache = ex_cb" "cache_lines ex_cache = {}"
  using Cache_ok [OF ex_cb_ok(1) _ ex_cache_created] by (simp_all add: ex_cb_def)

lemma ex_cache_insert:
  assumes "length d = 64"
  shows "\<exists>c' wbs'. insertSingleLine mem addr (Some d) True (Some wbs) (Some q) ex_cache = Inr (c', wbs')"
  by (rule insertSingleLine_total [OF ex_cache_ok(1)]) (use assms in \<open>simp_all add: ex_cache_def ex_cb_def CacheCompressionCntlr_def canChangeSchemeOTF_def\<close>)

lemma ex_cache_new: "addr_tag (c_base ex_cache) addr \<notin> tags_of (cache_lines ex_cache)"
  by (simp add: ex_cache_ok tags_of_def)

text \<open>The same cache with one line.\<close>

definition ex_line :: "u8 list" where "ex_line = replicate 64 7"

definition ex_filled :: cache where
  "ex_filled = (case insertSingleLine (\<lambda>_. []) 0x1040 (Some ex_line) True (Some []) (Some (\<lambda>_. True)) ex_cache of
     Inl _ \<Rightarrow> ex_cache | Inr (c, wbs) \<Rightarrow> c)"

lemma ex_filled_insert:
  "insertSingleLine (\<lambda>_. []) 0x1040 (Some ex_line) True (Some []) (Some (\<lambda>_. True)) ex_cache = Inr (ex_filled, [])"
proof -
  have "case insertSingleLine (\<lambda>_. []) 0x1040 (Some ex_line) True (Some []) (Some (\<lambda>_. True)) ex_cache of
      Inl _ \<Rightarrow> False | Inr (c, wbs) \<Rightarrow> wbs = []"
    by code_simp
  then show ?thesis by (simp add: ex_filled_def split: sum.splits prod.splits)
qed

lemma ex_filled_run: "cache_run ex_cache ex_filled"
  by (rule k_insert [OF k_init ex_cache_new ex_filled_insert])

lemma ex_filled_ok: "cache_ok ex_filled" "c_base ex_filled = ex_cb"
  using cache_run_ok [OF ex_filled_run ex_cache_ok(1)] ex_cache_ok(2) by simp_all

lemma ex_filled_lines:
  obtains info where "m_tag info = addr_tag ex_cb 0x1040" "cache_lines ex_filled = {(info, ex_line)}"
proof -
  from insertSingleLine_effect [OF ex_cache_ok(1) ex_cache_new ex_filled_insert] obtain info D new where
    e: "[] = [] @ new" "m_tag info = addr_tag (c_base ex_cache) 0x1040"
    "\<forall>q. Some (\<lambda>_ :: cache_block_info. True) = Some q \<longrightarrow>
       D = take (m_cb_blocksize (c_base ex_cache)) (if True then the (Some ex_line) else [])"
    "cache_lines ex_filled \<union> wb_lines new = insert (info, D) (cache_lines ex_cache)"
    by (elim exE conjE) (rule that)
  have "D = ex_line" using e(3) by (simp add: ex_cache_ok ex_cb_def ex_line_def)
  with e(1,2,4) show thesis by (intro that [of info]) (simp_all add: ex_cache_ok wb_lines_def)
qed

lemma ex_split: "\<exists>sp. splitAddress ex_cb 0x1040 = Inr sp \<and> s_offset sp = 0"
proof -
  have "case splitAddress ex_cb 0x1040 of Inl _ \<Rightarrow> False | Inr sp \<Rightarrow> s_offset sp = 0" by code_simp
  then show ?thesis by (auto split: sum.splits)
qed

text \<open>A store of two bytes to that line.\<close>

definition ex_stored :: "(cache_block_info option \<times> byte_ptr \<times> cache \<times> writeback list option) res" where
  "ex_stored = accessSingleLine (\<lambda>_. []) 0x1040 STORE (Some [1, 2]) 2 True False (Some []) (Some (\<lambda>_. True)) ex_filled"

lemma ex_overwrite: "overwrite 0 [1, 2] ex_line = [1, 2] @ replicate 62 7"
  by code_simp

lemma ex_stored_run:
  obtains info acc' c' where "ex_stored = Inr (Some info, acc', c', Some [])"
    "cache_trace ex_cache [Stored 0x1040 [1, 2] [], Filled 0x1040 ex_line []] c'"
proof -
  have "case ex_stored of Inr (Some info, acc', c', Some wbs') \<Rightarrow> wbs' = [] | _ \<Rightarrow> False" by code_simp
  then obtain info acc' c' where r: "ex_stored = Inr (Some info, acc', c', Some [])"
    by (auto split: sum.splits prod.splits option.splits)
  have fill: "cache_trace ex_cache [Filled 0x1040 ex_line []] ex_filled"
    using t_fill [OF t_init ex_cache_new ex_filled_insert] by (simp add: ex_cache_ok ex_cb_def ex_line_def)
  have "addr_offset (c_base ex_filled) 0x1040 = 0" using ex_split by (auto simp: addr_offset_def ex_filled_ok)
  from t_store [OF fill _ this r [unfolded ex_stored_def]]
  have "cache_trace ex_cache [Stored 0x1040 [1, 2] [], Filled 0x1040 ex_line []] c'"
    by (simp add: stored_bytes_def new_wbs_def)
  with r show thesis by (rule that)
qed

section \<open>Properties\<close>

text \<open>C12: whatever sequence of insertions of absent lines, reads, writes, invalidations and counter
  updates a cache goes through from its construction, it keeps its invariant: every set is well formed
  with its frames within capacity, a tag has at most one line and that line is in the set its address
  selects, and the counters of the compression controller equal the number of frames of each scheme.\<close>

theorem cache_run_invariant:
  assumes geo: "geometry_ok cb" "1 < m_cb_blocksize cb"
    and c0: "Cache cb compressible policy ty otf prune attempts = Inr c0" and run: "cache_run c0 c"
  shows "cache_ok c \<and> (\<forall>l \<in> cache_lines c. \<forall>l' \<in> cache_lines c. m_tag (fst l) = m_tag (fst l') \<longrightarrow> l = l') \<and>
    num_scheme1 (m_compress_cntlr (c_shared c)) = total_frames SCHEME1 c \<and>
    num_scheme2 (m_compress_cntlr (c_shared c)) = total_frames SCHEME2 c"
proof (intro conjI ballI impI)
  show ok: "cache_ok c" using cache_run_ok [OF run] Cache_ok [OF geo c0] by simp
  then show "num_scheme1 (m_compress_cntlr (c_shared c)) = total_frames SCHEME1 c"
    "num_scheme2 (m_compress_cntlr (c_shared c)) = total_frames SCHEME2 c" by (simp_all add: cache_ok_def)
  fix l l'
  assume l: "l \<in> cache_lines c" "l' \<in> cache_lines c" "m_tag (fst l) = m_tag (fst l')"
  obtain i d i' d' where p: "l = (i, d)" "l' = (i', d')" by (cases l, cases l')
  note q = cache_line_in_set [OF ok l(1) [unfolded p]] cache_line_in_set [OF ok l(2) [unfolded p]]
  show "l = l'"
    using set_line_unique [OF cache_ok_setD(1,2) [OF ok conjunct1 [OF q(1)]], of l l'] q l(3) by (simp add: p)
qed

theorem cache_run_invariant_witness: "cache_ok ex_filled \<and> cache_run ex_cache ex_filled"
  using cache_run_invariant [OF ex_cb_ok(1) _ ex_cache_created ex_filled_run] ex_filled_run by (simp add: ex_cb_def)

text \<open>C3: a cache that keeps data implements a map from tags to lines. For every sequence of fills of
  absent lines, stores to the start of a line, loads, invalidations and counter updates from the
  construction of the cache, the lines it holds are those of the map that the calls themselves and
  their writebacks determine: a call changes the line of its address, and exactly the lines of its
  new writebacks leave. Every load answers from that map, every writeback carries the bytes and the
  address of its line in it, and a filled line stays unless it is the only one to leave.\<close>

theorem cache_refines_store:
  assumes geo: "geometry_ok cb" "1 < m_cb_blocksize cb"
    and c0: "Cache cb compressible policy ty otf prune attempts = Inr c0" and run: "cache_trace c0 log c"
  shows "contents c = Map.graph (store_of cb log) \<and> answers_agree cb log"
  using trace_refines [OF run] Cache_ok [OF geo c0] by simp

theorem cache_refines_store_witness:
  "\<exists>info acc' c'. ex_stored = Inr (Some info, acc', c', Some []) \<and> contents c' = {(0x41, [1, 2] @ replicate 62 7)}"
proof -
  obtain info acc' c' where r: "ex_stored = Inr (Some info, acc', c', Some [])"
    "cache_trace ex_cache [Stored 0x1040 [1, 2] [], Filled 0x1040 ex_line []] c'" by (rule ex_stored_run)
  have t: "addr_tag ex_cb 0x1040 = 0x41" by code_simp
  have "contents c' = Map.graph (store_of ex_cb [Stored 0x1040 [1, 2] [], Filled 0x1040 ex_line []])"
    using cache_refines_store [OF ex_cb_ok(1) _ ex_cache_created r(2)] by (simp add: ex_cb_def)
  then have "contents c' = {(0x41, [1, 2] @ replicate 62 7)}" by (simp add: t ex_overwrite)
  with r(1) show ?thesis by blast
qed

text \<open>C11: filling an absent line into a reachable cache always succeeds (with a controller, lines of at
  most 64 bytes and no on-the-fly scheme changes), however full the set is and whatever the frames
  hold. Afterwards the line and all former lines are in the cache or in the new writebacks, none in
  both, the line carries the bytes of the fill, and every writeback has the address of its line.\<close>

theorem fill_conserves_lines:
  assumes ok: "cache_ok c" and small: "m_cb_blocksize (c_base c) \<le> 64"
    and otf: "\<not> canChangeSchemeOTF (m_compress_cntlr (c_shared c))"
    and ty: "m_cache_type c \<in> {PR_L1_CACHE, PR_L2_CACHE, SHARED_CACHE}"
    and d: "length d = m_cb_blocksize (c_base c)"
    and absent: "addr_tag (c_base c) addr \<notin> tags_of (cache_lines c)"
  shows "\<exists>c' new info. insertSingleLine mem addr (Some d) True (Some wbs) (Some q) c = Inr (c', wbs @ new) \<and>
    cache_ok c' \<and> m_tag info = addr_tag (c_base c) addr \<and>
    cache_lines c' \<union> wb_lines new = insert (info, d) (cache_lines c) \<and>
    tags_of (cache_lines c') \<inter> tags_of (wb_lines new) = {} \<and> wb_addrs (c_base c) new"
proof -
  obtain c' wbs' where r: "insertSingleLine mem addr (Some d) True (Some wbs) (Some q) c = Inr (c', wbs')"
    using insertSingleLine_total [OF ok small otf ty] d by (metis order_refl)
  from insertSingleLine_effect [OF ok absent r] d r show ?thesis by auto
qed

theorem fill_conserves_lines_witness:
  "\<exists>c' new info. insertSingleLine (\<lambda>_. []) 0x1040 (Some (replicate 64 7)) True (Some []) (Some (\<lambda>_. True)) ex_cache = Inr (c', [] @ new) \<and>
     cache_lines c' \<union> wb_lines new = {(info, replicate 64 7)}"
  using fill_conserves_lines [OF ex_cache_ok(1) _ _ _ _ ex_cache_new,
      of "replicate 64 7" "\<lambda>_. []" "0x1040" "[]" "\<lambda>_. True"] ex_cache_ok(3)
  by (auto simp: ex_cache_def ex_cb_def CacheCompressionCntlr_def canChangeSchemeOTF_def)

text \<open>A load of a resident line hits, copies exactly the requested bytes of the line to the caller's
  buffer, keeps every line of the cache, and adds no writebacks.\<close>

lemma load_hits:
  assumes ok: "cache_ok c" and l: "(info, d) \<in> cache_lines c" "m_tag info = addr_tag (c_base c) addr"
    and sp: "splitAddress (c_base c) addr = Inr sp"
    and n: "s_offset sp + n \<le> m_cb_blocksize (c_base c)" "s_offset sp + n \<le> length buf"
  shows "\<exists>c'. accessSingleLine mem addr LOAD (Some buf) n upd is_wb wbs cntlr c =
      Inr (Some info, Some (overwrite (s_offset sp) (take n (drop (s_offset sp) d)) buf), c', wbs) \<and>
    cache_ok c' \<and> cache_lines c' = cache_lines c"
  by (rule load_effect [OF ok l sp n])

text \<open>C16: a store to the start of a resident line that the cache performs leaves the line with the
  stored bytes in front and the old bytes behind, and every other line as it was. The written line
  may no longer fit its frame; then it moves to another frame or leaves with its new bytes as a
  writeback, as do the lines it displaces.\<close>

theorem store_updates_line:
  assumes ok: "cache_ok c" and sp: "splitAddress (c_base c) addr = Inr sp" "s_offset sp = 0"
    and r: "accessSingleLine mem addr STORE (Some x) n upd is_wb (Some wbs) cntlr c = Inr (Some info, acc', c', Some wbs')"
  shows "\<exists>info' old new. wbs' = wbs @ new \<and> cache_ok c' \<and> m_tag info' = addr_tag (c_base c) addr \<and>
    (info', old) \<in> cache_lines c \<and> wb_addrs (c_base c) new \<and>
    cache_lines c' \<union> wb_lines new = insert (info', overwrite 0 (take n x) old) (without (m_tag info') (cache_lines c)) \<and>
    tags_of (cache_lines c') \<inter> tags_of (wb_lines new) = {}"
proof -
  from accessSingleLine_cases [OF ok r] sp(1) obtain wb wb' s' where s': "wbs = wb" "wbs' = wb'" "c' = put_set (s_set_index sp) s' c"
    "writeLine (c_base c) (s_tag sp) (s_block_id sp) (s_offset sp) (Some x) n upd is_wb cntlr
       ((m_sets c ! s_set_index sp, c_shared c), wb) = Inr (s', wb')" by auto
  from store_effect [OF ok sp(1) s'(4)] obtain info' old D new where
    e: "wb' = wb @ new" "cache_ok (put_set (s_set_index sp) s' c)" "m_tag info' = addr_tag (c_base c) addr"
    "(info', old) \<in> cache_lines c" "wb_addrs (c_base c) new"
    "s_offset sp = 0 \<longrightarrow> D = (case Some x of None \<Rightarrow> old | Some x \<Rightarrow> overwrite 0 (take n x) old)"
    "cache_lines (put_set (s_set_index sp) s' c) \<union> wb_lines new = insert (info', D) (without (m_tag info') (cache_lines c))"
    "tags_of (cache_lines (put_set (s_set_index sp) s' c)) \<inter> tags_of (wb_lines new) = {}"
    by (elim exE conjE) (rule that)
  have D: "D = overwrite 0 (take n x) old" using e(6) sp(2) by simp
  show ?thesis
    unfolding s'(1-3) by (rule exI [of _ info'], rule exI [of _ old], rule exI [of _ new], intro conjI e(1-5,8) e(7) [unfolded D])
qed

theorem store_updates_line_witness:
  "\<exists>info acc' c' wbs'. ex_stored = Inr (Some info, acc', c', Some wbs') \<and> cache_ok c' \<and>
     (\<exists>l \<in> cache_lines c' \<union> wb_lines wbs'. snd l = [1, 2] @ replicate 62 7)"
proof -
  have "case ex_stored of Inr (Some info, acc', c', Some wbs') \<Rightarrow> True | _ \<Rightarrow> False" by code_simp
  then obtain info acc' c' wbs' where r: "ex_stored = Inr (Some info, acc', c', Some wbs')"
    by (auto split: sum.splits prod.splits option.splits)
  obtain sp where sp: "splitAddress (c_base ex_filled) 0x1040 = Inr sp" "s_offset sp = 0"
    using ex_split by (auto simp: ex_filled_ok(2))
  obtain inf where i: "cache_lines ex_filled = {(inf, ex_line)}" using ex_filled_lines .
  have o: "overwrite 0 (take 2 [1, 2]) ex_line = [1, 2] @ replicate 62 7" using ex_overwrite by simp
  from store_updates_line [OF ex_filled_ok(1) sp r [unfolded ex_stored_def]] obtain info' old new where
    e: "wbs' = [] @ new" "cache_ok c'" "(info', old) \<in> cache_lines ex_filled"
    "cache_lines c' \<union> wb_lines new = insert (info', overwrite 0 (take 2 [1, 2]) old) (without (m_tag info') (cache_lines ex_filled))"
    by blast
  have "(info', [1, 2] @ replicate 62 7) \<in> cache_lines c' \<union> wb_lines wbs'" using e i o by simp
  with r e(2) show ?thesis by (metis snd_conv)
qed

text \<open>Invalidating an address succeeds on every well-formed cache, removes exactly the line of that
  address, and the line is not found afterwards.\<close>

lemma invalidate_then_peek:
  assumes ok: "cache_ok c"
  shows "\<exists>c'. invalidateSingleLine addr c = Inr c' \<and> cache_ok c' \<and>
    cache_lines c' = without (addr_tag (c_base c) addr) (cache_lines c) \<and> peekSingleLine addr c' = Inr None"
proof -
  from invalidateSingleLine_effect [OF ok, of addr] obtain c' where
    c': "invalidateSingleLine addr c = Inr c'" "cache_ok c'" "c_base c' = c_base c"
    "cache_lines c' = without (addr_tag (c_base c) addr) (cache_lines c)" by blast
  then have "addr_tag (c_base c') addr \<notin> tags_of (cache_lines c')" by (auto simp: tags_of_def)
  with c' peek_effect(1) [OF c'(2), of addr] show ?thesis by blast
qed

end
