(* ===== verification/Thread_Manager.thy ===== *)
theory Thread_Manager
  imports Prelude "HOL-Library.Multiset"
begin

text \<open>
  Simulated threads (\<^verbatim>\<open>common/system/thread_manager.cc\<close>, \<^verbatim>\<open>common/core/thread.cc\<close>): their states,
  which core they run on, stalling and resuming, creation, join and exit.

  The simulator runs every simulated thread on a host thread of its own and serialises the calls below
  with one lock, so each is an atomic step. A call that stalls gives the lock away inside
  \<^verbatim>\<open>Thread::wait\<close>: the model splits it there. \<open>stallThread\<close> is the part before the wait,
  \<open>stallThread_return\<close> what the caller gets once it has been signalled. Hooks are recorded in
  the order they are called. The scheduler is registered for them: an operation with such a callback in its
  middle is given in two parts, and \<open>Scheduler\<close> puts the callback between them; the choice of a core is an
  argument of \<open>createThread_unlocked\<close>.
\<close>

section \<open>Data\<close>

type_synonym thread_id = int

definition INVALID_THREAD_ID :: thread_id where "INVALID_THREAD_ID = - 1"
definition MaxTime :: time where "MaxTime = 0xffffffffffffffff"

datatype core_state = RUNNING | INITIALIZING | STALLED | SLEEPING | WAKING_UP | IDLE | BROKEN

datatype stall_type_t =
    STALL_UNSCHEDULED | STALL_BROKEN | STALL_JOIN | STALL_MUTEX | STALL_COND | STALL_BARRIER
  | STALL_FUTEX | STALL_PAUSE | STALL_SLEEP | STALL_SYSCALL

datatype hook =
    HOOK_THREAD_CREATE thread_id thread_id
  | HOOK_THREAD_START thread_id time
  | HOOK_THREAD_EXIT thread_id time
  | HOOK_THREAD_STALL thread_id stall_type_t time
  | HOOK_THREAD_RESUME thread_id thread_id time
  | HOOK_THREAD_MIGRATE thread_id core_id time

record thread_state =
  status :: core_state
  stalled_reason :: stall_type_t
  waiter :: thread_id

text \<open>Of a thread: the operating system identity, the core (\<open>INVALID_CORE_ID\<close> for a null pointer) and
  what the last signal carried. The message is only used as a truth value.\<close>

record thread =
  m_app_id :: int
  m_wakeup_time :: time
  m_wakeup_msg :: bool
  m_core :: core_id
  os_tid :: int
  os_tid_ptr :: u64
  os_clear_tid :: bool

record core =
  m_core_state :: core_state
  core_thread :: thread_id
  elapsed_time :: time
  m_instructions :: u64

record thread_spawn_request =
  req_thread_by :: thread_id
  req_thread_id :: thread_id
  req_time :: time

record thread_manager =
  m_thread_state :: "thread_state list"
  m_threads :: "thread list"
  m_thread_spawn_list :: "thread_spawn_request list"
  m_cores :: "core list"
  hooks_called :: "hook list"

section \<open>Access\<close>

definition at_id :: "'a list \<Rightarrow> int \<Rightarrow> 'a res" where
  "at_id xs i = (if 0 \<le> i \<and> nat i < length xs then Inr (xs ! nat i) else Inl Out_Of_Bounds)"

definition upd_id :: "int \<Rightarrow> ('a \<Rightarrow> 'a) \<Rightarrow> 'a list \<Rightarrow> 'a list res" where
  "upd_id i f xs = (if 0 \<le> i \<and> nat i < length xs then Inr (xs[nat i := f (xs ! nat i)]) else Inl Out_Of_Bounds)"

definition getThreadFromID :: "thread_id \<Rightarrow> thread_manager \<Rightarrow> thread res" where
  "getThreadFromID thread_id tm =
     (if 0 \<le> thread_id \<and> nat thread_id < length (m_threads tm)
      then Inr (m_threads tm ! nat thread_id) else Inl Assert_Failed)"

definition getNumThreads :: "thread_manager \<Rightarrow> nat" where
  "getNumThreads tm = length (m_threads tm)"

definition getThreadState :: "thread_id \<Rightarrow> thread_manager \<Rightarrow> core_state res" where
  "getThreadState thread_id tm = rbind (at_id (m_thread_state tm) thread_id) (\<lambda>s. Inr (status s))"

definition getThreadStallReason :: "thread_id \<Rightarrow> thread_manager \<Rightarrow> stall_type_t res" where
  "getThreadStallReason thread_id tm = rbind (at_id (m_thread_state tm) thread_id) (\<lambda>s. Inr (stalled_reason s))"

text \<open>The number of the first thread with this operating system identity.\<close>

definition findThreadByTid :: "int \<Rightarrow> thread_manager \<Rightarrow> nat option" where
  "findThreadByTid tid tm =
     List.find (\<lambda>i. os_tid (m_threads tm ! i) = tid) [0..<length (m_threads tm)]"

definition upd_state :: "thread_id \<Rightarrow> (thread_state \<Rightarrow> thread_state) \<Rightarrow> thread_manager \<Rightarrow> thread_manager res" where
  "upd_state thread_id f tm = rbind (upd_id thread_id f (m_thread_state tm)) (\<lambda>l. Inr (tm\<lparr> m_thread_state := l \<rparr>))"

definition upd_thread :: "thread_id \<Rightarrow> (thread \<Rightarrow> thread) \<Rightarrow> thread_manager \<Rightarrow> thread_manager res" where
  "upd_thread thread_id f tm = rbind (upd_id thread_id f (m_threads tm)) (\<lambda>l. Inr (tm\<lparr> m_threads := l \<rparr>))"

definition upd_core :: "core_id \<Rightarrow> (core \<Rightarrow> core) \<Rightarrow> thread_manager \<Rightarrow> thread_manager res" where
  "upd_core core_id f tm = rbind (upd_id core_id f (m_cores tm)) (\<lambda>l. Inr (tm\<lparr> m_cores := l \<rparr>))"

definition callHooks :: "hook \<Rightarrow> thread_manager \<Rightarrow> thread_manager" where
  "callHooks h tm = tm\<lparr> hooks_called := hooks_called tm @ [h] \<rparr>"

definition core_setState :: "core_id \<Rightarrow> core_state \<Rightarrow> thread_manager \<Rightarrow> thread_manager res" where
  "core_setState core_id st = upd_core core_id (\<lambda>c. c\<lparr> m_core_state := st \<rparr>)"

definition setCore :: "thread_id \<Rightarrow> core_id \<Rightarrow> thread_manager \<Rightarrow> thread_manager res" where
  "setCore thread_id core_id tm =
     rbind (getThreadFromID thread_id tm) (\<lambda>t.
     rbind (if m_core t \<noteq> INVALID_CORE_ID then upd_core (m_core t) (\<lambda>c. c\<lparr> core_thread := INVALID_THREAD_ID \<rparr>) tm
            else Inr tm) (\<lambda>tm1.
     rbind (upd_thread thread_id (\<lambda>t. t\<lparr> m_core := core_id \<rparr>) tm1) (\<lambda>tm2.
     if core_id = INVALID_CORE_ID then Inr tm2
     else
       rbind (at_id (m_cores tm2) core_id) (\<lambda>c.
       if core_thread c \<noteq> INVALID_THREAD_ID then Inl Assert_Failed
       else upd_core core_id (\<lambda>c. c\<lparr> core_thread := thread_id \<rparr>) tm2))))"

text \<open>\<^verbatim>\<open>Thread::signal\<close> and the assignment \<^verbatim>\<open>Thread::wait\<close> makes before it gives the lock away.\<close>

definition signal :: "thread_id \<Rightarrow> time \<Rightarrow> bool \<Rightarrow> thread_manager \<Rightarrow> thread_manager res" where
  "signal thread_id t msg tm =
     rbind (getThreadFromID thread_id tm) (\<lambda>_.
     upd_thread thread_id (\<lambda>th. th\<lparr> m_wakeup_time := t, m_wakeup_msg := msg \<rparr>) tm)"

definition wait_begin :: "thread_id \<Rightarrow> thread_manager \<Rightarrow> thread_manager res" where
  "wait_begin thread_id tm =
     rbind (getThreadFromID thread_id tm) (\<lambda>_. upd_thread thread_id (\<lambda>th. th\<lparr> m_wakeup_msg := False \<rparr>) tm)"

section \<open>Stalling and resuming\<close>

definition stallThread_async :: "thread_id \<Rightarrow> stall_type_t \<Rightarrow> time \<Rightarrow> thread_manager \<Rightarrow> thread_manager res" where
  "stallThread_async thread_id reason t tm =
     rbind (upd_state thread_id (\<lambda>s. s\<lparr> status := STALLED, stalled_reason := reason \<rparr>) tm) (\<lambda>tm1.
     Inr (callHooks (HOOK_THREAD_STALL thread_id reason t) tm1))"

definition stallThread :: "thread_id \<Rightarrow> stall_type_t \<Rightarrow> time \<Rightarrow> thread_manager \<Rightarrow> thread_manager res" where
  "stallThread thread_id reason t tm =
     rbind (stallThread_async thread_id reason t tm) (wait_begin thread_id)"

definition stallThread_return :: "thread_id \<Rightarrow> thread_manager \<Rightarrow> (time \<times> bool) res" where
  "stallThread_return thread_id tm =
     rbind (getThreadFromID thread_id tm) (\<lambda>th. Inr (m_wakeup_time th, m_wakeup_msg th))"

definition resumeThread_async :: "thread_id \<Rightarrow> thread_id \<Rightarrow> time \<Rightarrow> thread_manager \<Rightarrow> thread_manager res" where
  "resumeThread_async thread_id thread_by t tm =
     rbind (upd_state thread_id (\<lambda>s. s\<lparr> status := RUNNING \<rparr>) tm) (\<lambda>tm1.
     Inr (callHooks (HOOK_THREAD_RESUME thread_id thread_by t) tm1))"

definition resumeThread :: "thread_id \<Rightarrow> thread_id \<Rightarrow> time \<Rightarrow> bool \<Rightarrow> thread_manager \<Rightarrow> thread_manager res" where
  "resumeThread thread_id thread_by t msg tm =
     rbind (signal thread_id t msg tm) (resumeThread_async thread_id thread_by t)"

definition isThreadRunning :: "thread_id \<Rightarrow> thread_manager \<Rightarrow> bool res" where
  "isThreadRunning thread_id tm = rbind (at_id (m_thread_state tm) thread_id) (\<lambda>s. Inr (status s = RUNNING))"

definition isThreadInitializing :: "thread_id \<Rightarrow> thread_manager \<Rightarrow> bool res" where
  "isThreadInitializing thread_id tm =
     rbind (at_id (m_thread_state tm) thread_id) (\<lambda>s. Inr (status s = INITIALIZING))"

fun any_running_from :: "thread_id list \<Rightarrow> thread_manager \<Rightarrow> bool res" where
  "any_running_from [] tm = Inr False"
| "any_running_from (t # ts) tm =
     rbind (isThreadRunning t tm) (\<lambda>r.
     rbind (if r then Inr True else isThreadInitializing t tm) (\<lambda>b.
     if b then Inr True else any_running_from ts tm))"

definition anyThreadRunning :: "thread_manager \<Rightarrow> bool res" where
  "anyThreadRunning tm = any_running_from (map int [0..<getNumThreads tm]) tm"

definition areAllCoresRunning :: "thread_manager \<Rightarrow> bool" where
  "areAllCoresRunning tm = list_all (\<lambda>s. status s \<noteq> IDLE) (m_thread_state tm)"

section \<open>Life of a thread\<close>

text \<open>\<open>sched_core\<close> is the answer of \<^verbatim>\<open>Scheduler::threadCreate\<close>.\<close>

definition createThread_unlocked ::
    "core_id \<Rightarrow> int \<Rightarrow> thread_id \<Rightarrow> thread_manager \<Rightarrow> (thread_id \<times> thread_manager) res" where
  "createThread_unlocked sched_core app_id creator_thread_id tm =
     (let thread_id = int (length (m_threads tm));
          tm1 = tm\<lparr> m_threads := m_threads tm @ [\<lparr> m_app_id = app_id, m_wakeup_time = 0, m_wakeup_msg = False,
                      m_core = INVALID_CORE_ID, os_tid = 0, os_tid_ptr = 0, os_clear_tid = False \<rparr>],
                    m_thread_state := m_thread_state tm @ [\<lparr> status = IDLE, stalled_reason = STALL_UNSCHEDULED,
                      waiter = INVALID_THREAD_ID \<rparr>] \<rparr>
      in rbind (upd_state thread_id (\<lambda>s. s\<lparr> status := INITIALIZING \<rparr>) tm1) (\<lambda>tm2.
         rbind (if sched_core \<noteq> INVALID_CORE_ID
                then rbind (setCore thread_id sched_core tm2) (core_setState sched_core INITIALIZING)
                else Inr tm2) (\<lambda>tm3.
         Inr (thread_id, callHooks (HOOK_THREAD_CREATE thread_id creator_thread_id) tm3))))"

text \<open>The start of a thread, before and after the callbacks of its hook.\<close>

definition onThreadStart_begin :: "thread_id \<Rightarrow> time \<Rightarrow> thread_manager \<Rightarrow> thread_manager res" where
  "onThreadStart_begin thread_id t tm =
     rbind (getThreadFromID thread_id tm) (\<lambda>_.
     rbind (upd_state thread_id (\<lambda>s. s\<lparr> status := RUNNING \<rparr>) tm) (\<lambda>tm1.
     Inr (callHooks (HOOK_THREAD_START thread_id t) tm1)))"

definition onThreadStart_end :: "thread_id \<Rightarrow> time \<Rightarrow> thread_manager \<Rightarrow> thread_manager res" where
  "onThreadStart_end thread_id t tm2 =
     rbind (getThreadFromID thread_id tm2) (\<lambda>th.
     rbind
       (if m_core th \<noteq> INVALID_CORE_ID then
          rbind (core_setState (m_core th) RUNNING tm2) (\<lambda>tm3.
          rbind (at_id (m_cores tm3) (m_core th)) (\<lambda>c.
          let t' = max t (elapsed_time c) in
          rbind (upd_state thread_id (\<lambda>s. s\<lparr> status := RUNNING \<rparr>) tm3) (\<lambda>tm4.
          Inr (t', callHooks (HOOK_THREAD_MIGRATE thread_id (m_core th) t') tm4))))
        else
          rbind (upd_state thread_id (\<lambda>s. s\<lparr> status := STALLED, stalled_reason := STALL_UNSCHEDULED \<rparr>) tm2) (\<lambda>tm3.
          Inr (t, tm3))) (\<lambda>(t', tm5).
     rbind (at_id (m_thread_state tm5) thread_id) (\<lambda>s.
     if waiter s \<noteq> INVALID_THREAD_ID then
       rbind (signal (waiter s) t' False tm5) (upd_state thread_id (\<lambda>s. s\<lparr> waiter := INVALID_THREAD_ID \<rparr>))
     else Inr tm5)))"

definition onThreadStart :: "thread_id \<Rightarrow> time \<Rightarrow> thread_manager \<Rightarrow> thread_manager res" where
  "onThreadStart thread_id t tm = rbind (onThreadStart_begin thread_id t tm) (onThreadStart_end thread_id t)"

definition wakeUpWaiter :: "thread_id \<Rightarrow> time \<Rightarrow> thread_manager \<Rightarrow> thread_manager res" where
  "wakeUpWaiter thread_id t tm =
     rbind (at_id (m_thread_state tm) thread_id) (\<lambda>s.
     if waiter s \<noteq> INVALID_THREAD_ID then
       rbind (resumeThread (waiter s) thread_id t False tm)
         (upd_state thread_id (\<lambda>s. s\<lparr> waiter := INVALID_THREAD_ID \<rparr>))
     else Inr tm)"

definition spawnThread ::
    "core_id \<Rightarrow> thread_id \<Rightarrow> int \<Rightarrow> thread_manager \<Rightarrow> (thread_id \<times> thread_manager) res" where
  "spawnThread sched_core thread_id app_id tm =
     rbind (if thread_id \<noteq> INVALID_THREAD_ID then
              rbind (getThreadFromID thread_id tm) (\<lambda>th.
              if m_core th = INVALID_CORE_ID then Inl Null_Deref
              else rbind (at_id (m_cores tm) (m_core th)) (\<lambda>c. Inr (elapsed_time c)))
            else Inr 0) (\<lambda>time_start.
     rbind (createThread_unlocked sched_core app_id thread_id tm) (\<lambda>(new_thread, tm1).
     Inr (new_thread, tm1\<lparr> m_thread_spawn_list := m_thread_spawn_list tm1 @
       [\<lparr> req_thread_by = thread_id, req_thread_id = new_thread, req_time = time_start \<rparr>] \<rparr>)))"

definition getThreadToSpawn :: "thread_manager \<Rightarrow> (thread_id \<times> time \<times> thread_manager) res" where
  "getThreadToSpawn tm =
     (case m_thread_spawn_list tm of
        [] \<Rightarrow> Inl Assert_Failed
      | req # rest \<Rightarrow> Inr (req_thread_id req, req_time req, tm\<lparr> m_thread_spawn_list := rest \<rparr>))"

text \<open>\<open>True\<close>: the caller waits until the other thread has started.\<close>

definition waitForThreadStart :: "thread_id \<Rightarrow> thread_id \<Rightarrow> thread_manager \<Rightarrow> (bool \<times> thread_manager) res" where
  "waitForThreadStart thread_id wait_thread_id tm =
     rbind (getThreadFromID thread_id tm) (\<lambda>_.
     rbind (at_id (m_thread_state tm) wait_thread_id) (\<lambda>s.
     if status s = INITIALIZING then
       if waiter s \<noteq> INVALID_THREAD_ID then Inl Assert_Failed
       else
         rbind (upd_state wait_thread_id (\<lambda>s. s\<lparr> waiter := thread_id \<rparr>) tm) (\<lambda>tm1.
         rbind (wait_begin thread_id tm1) (\<lambda>tm2. Inr (True, tm2)))
     else Inr (False, tm)))"

text \<open>A thread is moved to a core or, with \<open>INVALID_CORE_ID\<close>, off its core. A thread that was only waiting
  for a core is resumed: the first part ends there, before the callbacks of that hook, and says whether it did.\<close>

definition moveThread_begin :: "thread_id \<Rightarrow> core_id \<Rightarrow> time \<Rightarrow> thread_manager \<Rightarrow> (bool \<times> thread_manager) res" where
  "moveThread_begin thread_id core_id t tm =
     rbind (getThreadFromID thread_id tm) (\<lambda>th.
     rbind (if m_core th \<noteq> INVALID_CORE_ID then core_setState (m_core th) IDLE tm else Inr tm) (\<lambda>tm1.
     if core_id = INVALID_CORE_ID then Inr (False, tm1)
     else
       rbind (at_id (m_thread_state tm1) thread_id) (\<lambda>s.
       if m_core th = INVALID_CORE_ID \<and> status s = STALLED \<and> stalled_reason s = STALL_UNSCHEDULED
       then rbind (resumeThread thread_id INVALID_THREAD_ID t False tm1) (\<lambda>tm2. Inr (True, tm2))
       else Inr (False, tm1))))"

definition moveThread_end :: "thread_id \<Rightarrow> core_id \<Rightarrow> time \<Rightarrow> thread_manager \<Rightarrow> thread_manager res" where
  "moveThread_end thread_id core_id t tm =
     rbind
       (if core_id = INVALID_CORE_ID then setCore thread_id INVALID_CORE_ID tm
        else
          rbind (setCore thread_id core_id tm) (\<lambda>tm3.
          rbind (getThreadState thread_id tm3) (\<lambda>st.
          if st \<noteq> STALLED then core_setState core_id RUNNING tm3 else Inr tm3))) (\<lambda>tm4.
     Inr (callHooks (HOOK_THREAD_MIGRATE thread_id core_id t) tm4))"

text \<open>\<open>True\<close>: the caller is stalled until the other thread exits.\<close>

definition joinThread :: "thread_id \<Rightarrow> thread_id \<Rightarrow> thread_manager \<Rightarrow> (bool \<times> thread_manager) res" where
  "joinThread thread_id join_thread_id tm =
     rbind (getThreadFromID thread_id tm) (\<lambda>th.
     rbind (at_id (m_thread_state tm) join_thread_id) (\<lambda>s.
     if status s = IDLE then Inr (False, tm)
     else if m_core th = INVALID_CORE_ID then Inl Null_Deref
     else
       rbind (at_id (m_cores tm) (m_core th)) (\<lambda>c.
       if waiter s \<noteq> INVALID_THREAD_ID then Inl Assert_Failed
       else
         rbind (upd_state join_thread_id (\<lambda>s. s\<lparr> waiter := thread_id \<rparr>) tm) (\<lambda>tm1.
         rbind (stallThread thread_id STALL_JOIN (elapsed_time c) tm1) (\<lambda>tm2. Inr (True, tm2))))))"

text \<open>The exit of a thread. \<open>futex_wake\<close> is the call of \<^verbatim>\<open>SyscallServer::futexWake\<close> on the cleared
  thread identity, which is a step of the system call server.\<close>

definition onThreadExit_begin :: "thread_id \<Rightarrow> thread_manager \<Rightarrow> (thread \<times> core \<times> thread_manager) res" where
  "onThreadExit_begin thread_id tm =
     (if \<not> (0 \<le> thread_id \<and> nat thread_id < length (m_thread_state tm)) then Inl Assert_Failed
      else
        rbind (getThreadFromID thread_id tm) (\<lambda>th.
        if m_core th = INVALID_CORE_ID then Inl Assert_Failed
        else
          rbind (at_id (m_cores tm) (m_core th)) (\<lambda>c.
          rbind (at_id (m_thread_state tm) thread_id) (\<lambda>s.
          if status s \<noteq> RUNNING then Inl Assert_Failed
          else
            rbind (upd_state thread_id (\<lambda>s. s\<lparr> status := IDLE \<rparr>) tm) (\<lambda>tm1. Inr (th, c, tm1))))))"

definition onThreadExit_end :: "thread_id \<Rightarrow> thread \<Rightarrow> core \<Rightarrow> thread_manager \<Rightarrow> thread_manager res" where
  "onThreadExit_end thread_id th c tm =
     rbind (core_setState (m_core th) IDLE tm) (\<lambda>tm4.
     rbind (setCore thread_id INVALID_CORE_ID tm4) (\<lambda>tm5.
     Inr (callHooks (HOOK_THREAD_EXIT thread_id (elapsed_time c)) tm5)))"

definition onThreadExit ::
    "(thread_id \<Rightarrow> u64 \<Rightarrow> time \<Rightarrow> thread_manager \<times> 's \<Rightarrow> (thread_manager \<times> 's) res) \<Rightarrow>
     thread_id \<Rightarrow> thread_manager \<times> 's \<Rightarrow> (thread_manager \<times> 's) res" where
  "onThreadExit futex_wake thread_id w =
     rbind (onThreadExit_begin thread_id (fst w)) (\<lambda>(th, c, tm1).
     rbind (wakeUpWaiter thread_id (elapsed_time c) tm1) (\<lambda>tm2.
     rbind (if os_clear_tid th then futex_wake thread_id (os_tid_ptr th) (elapsed_time c) (tm2, snd w)
            else Inr (tm2, snd w)) (\<lambda>w3.
     rbind (onThreadExit_end thread_id th c (fst w3)) (\<lambda>tm5. Inr (tm5, snd w3)))))"

section \<open>Which threads are stalled\<close>

definition tm_ok :: "thread_manager \<Rightarrow> bool" where
  "tm_ok tm \<longleftrightarrow> length (m_threads tm) = length (m_thread_state tm)"

definition valid_id :: "thread_manager \<Rightarrow> thread_id \<Rightarrow> bool" where
  "valid_id tm t \<longleftrightarrow> 0 \<le> t \<and> nat t < length (m_thread_state tm)"

definition in_state :: "core_state \<Rightarrow> thread_manager \<Rightarrow> thread_id set" where
  "in_state st tm = {t. valid_id tm t \<and> status (m_thread_state tm ! nat t) = st}"

abbreviation stalled :: "thread_manager \<Rightarrow> thread_id set" where
  "stalled \<equiv> in_state STALLED"

lemma in_state_valid: "t \<in> in_state st tm \<Longrightarrow> valid_id tm t"
  by (simp add: in_state_def)

lemma in_state_finite [simp]: "finite (in_state st tm)"
proof -
  have "in_state st tm \<subseteq> int ` {..<length (m_thread_state tm)}"
    by (auto simp: in_state_def valid_id_def) (metis image_eqI int_nat_eq lessThan_iff)
  then show ?thesis by (rule finite_subset) simp
qed

lemma not_invalid [simp]: "\<not> valid_id tm INVALID_THREAD_ID"
  by (simp add: valid_id_def INVALID_THREAD_ID_def)

text \<open>The interface the synchronisation servers use: one operation that stalls a running thread, one
  that resumes a stalled one. \<open>wf\<close> is the invariant, \<open>asleep\<close> the set of stalled threads, \<open>known\<close>
  the threads there are.\<close>

locale stall_resume =
  fixes stall :: "thread_id \<Rightarrow> stall_type_t \<Rightarrow> time \<Rightarrow> 'm \<Rightarrow> 'm res"
    and resume :: "thread_id \<Rightarrow> thread_id \<Rightarrow> time \<Rightarrow> bool \<Rightarrow> 'm \<Rightarrow> 'm res"
    and wf :: "'m \<Rightarrow> bool" and asleep :: "'m \<Rightarrow> thread_id set" and known :: "'m \<Rightarrow> thread_id set"
  assumes stall_law: "wf m \<Longrightarrow> t \<in> known m \<Longrightarrow>
      \<exists>m'. stall t r tau m = Inr m' \<and> wf m' \<and> asleep m' = insert t (asleep m) \<and> known m' = known m"
    and resume_law: "wf m \<Longrightarrow> t \<in> known m \<Longrightarrow>
      \<exists>m'. resume t u tau msg m = Inr m' \<and> wf m' \<and> asleep m' = asleep m - {t} \<and> known m' = known m"
    and asleep_known: "asleep m \<subseteq> known m"
begin

lemma resume_all:
  assumes "wf m" "set ts \<subseteq> known m"
  shows "\<exists>m'. fold_r (\<lambda>t. resume t u tau msg) ts m = Inr m' \<and> wf m' \<and> asleep m' = asleep m - set ts \<and> known m' = known m"
  using assms
proof (induction ts arbitrary: m)
  case (Cons t ts)
  from resume_law [of m t u tau msg] Cons.prems obtain m1 where
    m1: "resume t u tau msg m = Inr m1" "wf m1" "asleep m1 = asleep m - {t}" "known m1 = known m" by auto
  from Cons.IH [OF m1(2)] Cons.prems m1 obtain m2 where
    "fold_r (\<lambda>t. resume t u tau msg) ts m1 = Inr m2" "wf m2" "asleep m2 = asleep m1 - set ts" "known m2 = known m1" by auto
  with m1 show ?case by auto
qed simp

end

lemma upd_state_eq:
  assumes "valid_id tm t"
  shows "upd_state t f tm = Inr (tm\<lparr> m_thread_state := (m_thread_state tm)[nat t := f (m_thread_state tm ! nat t)] \<rparr>)"
  using assms by (simp add: upd_state_def upd_id_def valid_id_def)

lemma thread_eq:
  assumes "tm_ok tm" "valid_id tm t"
  shows "getThreadFromID t tm = Inr (m_threads tm ! nat t)"
    and "upd_thread t f tm = Inr (tm\<lparr> m_threads := (m_threads tm)[nat t := f (m_threads tm ! nat t)] \<rparr>)"
  using assms by (simp_all add: getThreadFromID_def upd_thread_def upd_id_def valid_id_def tm_ok_def)

lemma in_state_cong:
  "m_thread_state tm' = m_thread_state tm \<Longrightarrow> in_state st tm' = in_state st tm"
  "m_thread_state tm' = m_thread_state tm \<Longrightarrow> valid_id tm' = valid_id tm"
  by (simp_all add: in_state_def valid_id_def fun_eq_iff)

text \<open>The state after one thread changed its status.\<close>

lemma in_state_update:
  assumes "valid_id tm t" and l: "m_thread_state tm' = (m_thread_state tm)[nat t := s]"
  shows "in_state st tm' = (if status s = st then insert t (in_state st tm) else in_state st tm - {t})"
    and "valid_id tm' = valid_id tm"
proof -
  show v: "valid_id tm' = valid_id tm" by (simp add: valid_id_def l fun_eq_iff)
  have t: "nat t < length (m_thread_state tm)" using assms(1) by (simp add: valid_id_def)
  have ne: "nat t \<noteq> nat u" if "valid_id tm u" "u \<noteq> t" for u using that assms(1) by (auto simp: valid_id_def)
  have "u \<in> in_state st tm' \<longleftrightarrow> u \<in> (if status s = st then insert t (in_state st tm) else in_state st tm - {t})" for u
  proof (cases "u = t")
    case True
    then show ?thesis using assms(1) t by (simp add: in_state_def v l)
  next
    case False
    then show ?thesis using ne [of u] by (cases "valid_id tm u") (simp_all add: in_state_def v l)
  qed
  then show "in_state st tm' = (if status s = st then insert t (in_state st tm) else in_state st tm - {t})" by blast
qed

lemma stallThread_eq:
  assumes "tm_ok tm" "valid_id tm t"
  shows "stallThread t r tau tm = Inr (tm\<lparr>
    m_thread_state := (m_thread_state tm)[nat t := (m_thread_state tm ! nat t)\<lparr> status := STALLED, stalled_reason := r \<rparr>],
    m_threads := (m_threads tm)[nat t := (m_threads tm ! nat t)\<lparr> m_wakeup_msg := False \<rparr>],
    hooks_called := hooks_called tm @ [HOOK_THREAD_STALL t r tau] \<rparr>)"
  using assms
  by (simp add: stallThread_def stallThread_async_def upd_state_eq callHooks_def wait_begin_def getThreadFromID_def
      upd_thread_def upd_id_def valid_id_def tm_ok_def)

lemma resumeThread_eq:
  assumes "tm_ok tm" "valid_id tm t"
  shows "resumeThread t u tau msg tm = Inr (tm\<lparr>
    m_threads := (m_threads tm)[nat t := (m_threads tm ! nat t)\<lparr> m_wakeup_time := tau, m_wakeup_msg := msg \<rparr>],
    m_thread_state := (m_thread_state tm)[nat t := (m_thread_state tm ! nat t)\<lparr> status := RUNNING \<rparr>],
    hooks_called := hooks_called tm @ [HOOK_THREAD_RESUME t u tau] \<rparr>)"
  using assms
  by (simp add: resumeThread_def resumeThread_async_def signal_def thread_eq upd_state_def upd_id_def callHooks_def
      valid_id_def)

interpretation tms: stall_resume stallThread resumeThread tm_ok stalled "\<lambda>tm. {t. valid_id tm t}"
proof
  fix tm t r tau assume "tm_ok tm" "t \<in> {t. valid_id tm t}"
  then have ok: "tm_ok tm" "valid_id tm t" by simp_all
  show "\<exists>tm'. stallThread t r tau tm = Inr tm' \<and> tm_ok tm' \<and> stalled tm' = insert t (stalled tm) \<and>
    {t. valid_id tm' t} = {t. valid_id tm t}"
    unfolding stallThread_eq [OF ok] by (intro exI conjI, rule refl)
      (use ok in_state_update [OF ok(2)] in \<open>simp_all add: tm_ok_def\<close>)
next
  fix tm t u tau msg assume "tm_ok tm" "t \<in> {t. valid_id tm t}"
  then have ok: "tm_ok tm" "valid_id tm t" by simp_all
  show "\<exists>tm'. resumeThread t u tau msg tm = Inr tm' \<and> tm_ok tm' \<and> stalled tm' = stalled tm - {t} \<and>
    {t. valid_id tm' t} = {t. valid_id tm t}"
    unfolding resumeThread_eq [OF ok] by (intro exI conjI, rule refl)
      (use ok in_state_update [OF ok(2)] in \<open>simp_all add: tm_ok_def\<close>)
qed (auto simp: in_state_def)

end
