(* ===== verification/Sync_Server.thy ===== *)
theory Sync_Server
  imports Thread_Manager "HOL-Library.AList"
begin

text \<open>
  Mutexes, condition variables and barriers of the simulated program
  (\<^verbatim>\<open>common/system/sync_server.cc\<close>). A call that stalls its caller answers \<open>None\<close>; what it returns
  once the caller has been resumed is the definition with the suffix \<open>_resumed\<close>.

  The objects are kept in hash maps from the address of the program's object. A pointer to a
  \<^verbatim>\<open>SimMutex\<close> stays valid while the map grows, so the model uses the address for it.
\<close>

section \<open>Data\<close>

definition NO_OWNER :: thread_id where "NO_OWNER = - 1"

record sim_mutex =
  mx_waiting :: "thread_id list"
  mx_owner :: thread_id

record cond_waiter =
  cw_thread_id :: thread_id
  cw_mutex :: u64

record sim_barrier =
  br_waiting :: "thread_id list"
  br_count :: nat

record sync_server =
  m_mutexes :: "(u64 \<times> sim_mutex) list"
  m_conds :: "(u64 \<times> cond_waiter list) list"
  m_barriers :: "sim_barrier list"
  m_reschedule_cost :: time

type_synonym sync_sys = "thread_manager \<times> sync_server"

section \<open>Mutexes\<close>

definition SimMutex :: sim_mutex where
  "SimMutex = \<lparr> mx_waiting = [], mx_owner = NO_OWNER \<rparr>"

definition isLocked :: "thread_id \<Rightarrow> sim_mutex \<Rightarrow> bool" where
  "isLocked thread_id mx =
     (if mx_owner mx = NO_OWNER then False else if mx_owner mx = thread_id then False else True)"

definition mx_lock ::
    "thread_id \<Rightarrow> time \<Rightarrow> sim_mutex \<times> thread_manager \<Rightarrow> (time option \<times> sim_mutex \<times> thread_manager) res" where
  "mx_lock thread_id t p =
     (case p of (mx, tm) \<Rightarrow>
        if mx_owner mx = NO_OWNER then Inr (Some t, mx\<lparr> mx_owner := thread_id \<rparr>, tm)
        else
          rbind (stallThread thread_id STALL_MUTEX t tm) (\<lambda>tm1.
          Inr (None, mx\<lparr> mx_waiting := mx_waiting mx @ [thread_id] \<rparr>, tm1)))"

definition lock_async ::
    "thread_id \<Rightarrow> thread_id \<Rightarrow> time \<Rightarrow> sim_mutex \<times> thread_manager \<Rightarrow> (bool \<times> sim_mutex \<times> thread_manager) res" where
  "lock_async thread_id thread_by t p =
     (case p of (mx, tm) \<Rightarrow>
        if mx_owner mx = NO_OWNER then
          rbind (resumeThread thread_id thread_by t False tm) (\<lambda>tm1.
          Inr (True, mx\<lparr> mx_owner := thread_id \<rparr>, tm1))
        else Inr (False, mx\<lparr> mx_waiting := mx_waiting mx @ [thread_id] \<rparr>, tm))"

definition mx_unlock ::
    "thread_id \<Rightarrow> time \<Rightarrow> sim_mutex \<times> thread_manager \<Rightarrow> (thread_id \<times> sim_mutex \<times> thread_manager) res" where
  "mx_unlock thread_id t p =
     (case p of (mx, tm) \<Rightarrow>
        if mx_owner mx \<noteq> thread_id then Inl Assert_Failed
        else
          case mx_waiting mx of
            [] \<Rightarrow> Inr (NO_OWNER, mx\<lparr> mx_owner := NO_OWNER \<rparr>, tm)
          | w # ws \<Rightarrow>
              rbind (resumeThread w thread_id t False tm) (\<lambda>tm1.
              Inr (w, mx\<lparr> mx_waiting := ws, mx_owner := w \<rparr>, tm1)))"

text \<open>\<open>getMutex\<close> finds or creates the mutex of an address.\<close>

definition getMutex :: "u64 \<Rightarrow> bool \<Rightarrow> sync_server \<Rightarrow> (sim_mutex \<times> sync_server) res" where
  "getMutex mux canCreate ss =
     (case map_of (m_mutexes ss) mux of
        Some mx \<Rightarrow> Inr (mx, ss)
      | None \<Rightarrow>
          if canCreate then Inr (SimMutex, ss\<lparr> m_mutexes := AList.update mux SimMutex (m_mutexes ss) \<rparr>)
          else Inl Assert_Failed)"

definition put_mutex :: "u64 \<Rightarrow> sim_mutex \<Rightarrow> sync_server \<Rightarrow> sync_server" where
  "put_mutex mux mx ss = ss\<lparr> m_mutexes := AList.update mux mx (m_mutexes ss) \<rparr>"

definition mutexInit :: "u64 \<Rightarrow> sync_sys \<Rightarrow> sync_sys res" where
  "mutexInit mux w = rbind (getMutex mux True (snd w)) (\<lambda>(_, ss). Inr (fst w, ss))"

definition mutexLock :: "thread_id \<Rightarrow> u64 \<Rightarrow> bool \<Rightarrow> time \<Rightarrow> sync_sys \<Rightarrow> ((time \<times> bool) option \<times> sync_sys) res" where
  "mutexLock thread_id mux tryLock t w =
     rbind (getMutex mux True (snd w)) (\<lambda>(mx, ss).
     if tryLock \<and> isLocked thread_id mx then Inr (Some (t, False), fst w, ss)
     else
       rbind (mx_lock thread_id t (mx, fst w)) (\<lambda>(time_end, mx1, tm1).
       Inr (map_option (\<lambda>e. (e + m_reschedule_cost ss, True)) time_end, tm1, put_mutex mux mx1 ss)))"

definition mutexLock_resumed :: "thread_id \<Rightarrow> sync_sys \<Rightarrow> (time \<times> bool) res" where
  "mutexLock_resumed thread_id w =
     rbind (stallThread_return thread_id (fst w)) (\<lambda>(time_end, _). Inr (time_end + m_reschedule_cost (snd w), True))"

definition mutexUnlock :: "thread_id \<Rightarrow> u64 \<Rightarrow> time \<Rightarrow> sync_sys \<Rightarrow> (time \<times> sync_sys) res" where
  "mutexUnlock thread_id mux t w =
     rbind (getMutex mux False (snd w)) (\<lambda>(mx, ss).
     rbind (mx_unlock thread_id (t + m_reschedule_cost ss) (mx, fst w)) (\<lambda>(new_owner, mx1, tm1).
     Inr (t + (if new_owner = NO_OWNER then 0 else m_reschedule_cost ss), tm1, put_mutex mux mx1 ss)))"

section \<open>Condition variables\<close>

definition getCond :: "u64 \<Rightarrow> bool \<Rightarrow> sync_server \<Rightarrow> (cond_waiter list \<times> sync_server) res" where
  "getCond cnd canCreate ss =
     (case map_of (m_conds ss) cnd of
        Some cv \<Rightarrow> Inr (cv, ss)
      | None \<Rightarrow>
          if canCreate then Inr ([], ss\<lparr> m_conds := AList.update cnd [] (m_conds ss) \<rparr>)
          else Inl Assert_Failed)"

definition put_cond :: "u64 \<Rightarrow> cond_waiter list \<Rightarrow> sync_server \<Rightarrow> sync_server" where
  "put_cond cnd cv ss = ss\<lparr> m_conds := AList.update cnd cv (m_conds ss) \<rparr>"

text \<open>The mutex a waiter points to, locked in its name.\<close>

definition lock_woken ::
    "cond_waiter \<Rightarrow> thread_id \<Rightarrow> time \<Rightarrow> sync_sys \<Rightarrow> (bool \<times> sync_sys) res" where
  "lock_woken woken thread_id t w =
     (case map_of (m_mutexes (snd w)) (cw_mutex woken) of
        None \<Rightarrow> Inl Null_Deref
      | Some mx \<Rightarrow>
          rbind (lock_async (cw_thread_id woken) thread_id t (mx, fst w)) (\<lambda>(got, mx1, tm1).
          Inr (got, tm1, put_mutex (cw_mutex woken) mx1 (snd w))))"

definition cond_signal :: "thread_id \<Rightarrow> time \<Rightarrow> u64 \<Rightarrow> cond_waiter list \<Rightarrow> sync_sys \<Rightarrow> (thread_id \<times> sync_sys) res" where
  "cond_signal thread_id t cnd cv w =
     (case cv of
        [] \<Rightarrow> Inr (INVALID_THREAD_ID, w)
      | woken # rest \<Rightarrow>
          rbind (lock_woken woken thread_id t (fst w, put_cond cnd rest (snd w))) (\<lambda>(got, w1).
          Inr (if got then cw_thread_id woken else INVALID_THREAD_ID, w1)))"

fun cond_broadcast :: "thread_id \<Rightarrow> time \<Rightarrow> u64 \<Rightarrow> cond_waiter list \<Rightarrow> sync_sys \<Rightarrow> sync_sys res" where
  "cond_broadcast thread_id t cnd [] w = Inr w"
| "cond_broadcast thread_id t cnd (woken # rest) w =
     rbind (lock_woken woken thread_id t (fst w, put_cond cnd rest (snd w))) (\<lambda>(_, w1).
     cond_broadcast thread_id t cnd rest w1)"

definition cond_wait :: "thread_id \<Rightarrow> time \<Rightarrow> u64 \<Rightarrow> u64 \<Rightarrow> cond_waiter list \<Rightarrow> sim_mutex \<Rightarrow> sync_sys \<Rightarrow> sync_sys res" where
  "cond_wait thread_id t cnd mux cv mx w =
     rbind (mx_unlock thread_id t (mx, fst w)) (\<lambda>(_, mx1, tm1).
     rbind (stallThread thread_id STALL_COND t tm1) (\<lambda>tm2.
     Inr (tm2, put_cond cnd (cv @ [\<lparr> cw_thread_id = thread_id, cw_mutex = mux \<rparr>]) (put_mutex mux mx1 (snd w)))))"

definition condInit :: "u64 \<Rightarrow> sync_sys \<Rightarrow> sync_sys res" where
  "condInit cnd w = rbind (getCond cnd True (snd w)) (\<lambda>(_, ss). Inr (fst w, ss))"

definition condWait :: "thread_id \<Rightarrow> u64 \<Rightarrow> u64 \<Rightarrow> time \<Rightarrow> sync_sys \<Rightarrow> sync_sys res" where
  "condWait thread_id cnd mux t w =
     rbind (getMutex mux True (snd w)) (\<lambda>(mx, ss).
     rbind (getCond cnd True ss) (\<lambda>(cv, ss1).
     cond_wait thread_id t cnd mux cv mx (fst w, ss1)))"

definition condSignal :: "thread_id \<Rightarrow> u64 \<Rightarrow> time \<Rightarrow> sync_sys \<Rightarrow> (time \<times> sync_sys) res" where
  "condSignal thread_id cnd t w =
     rbind (getCond cnd True (snd w)) (\<lambda>(cv, ss).
     rbind (cond_signal thread_id t cnd cv (fst w, ss)) (\<lambda>(_, w1). Inr (t, w1)))"

definition condBroadcast :: "thread_id \<Rightarrow> u64 \<Rightarrow> time \<Rightarrow> sync_sys \<Rightarrow> (time \<times> sync_sys) res" where
  "condBroadcast thread_id cnd t w =
     rbind (getCond cnd True (snd w)) (\<lambda>(cv, ss).
     rbind (cond_broadcast thread_id t cnd cv (fst w, ss)) (\<lambda>w1. Inr (t, w1)))"

section \<open>Barriers\<close>

definition SimBarrier :: "nat \<Rightarrow> sim_barrier" where
  "SimBarrier cnt = \<lparr> br_waiting = [], br_count = cnt \<rparr>"

text \<open>\<open>br_count - 1\<close> is unsigned 32-bit arithmetic.\<close>

definition br_wait ::
    "thread_id \<Rightarrow> time \<Rightarrow> sim_barrier \<times> thread_manager \<Rightarrow> (time option \<times> sim_barrier \<times> thread_manager) res" where
  "br_wait thread_id t p =
     (case p of (br, tm) \<Rightarrow>
        if length (br_waiting br) = sub32 (br_count br) 1 then
          rbind (fold_r (\<lambda>w. resumeThread w thread_id t False) (br_waiting br) tm) (\<lambda>tm1.
          Inr (Some t, br\<lparr> br_waiting := [] \<rparr>, tm1))
        else
          rbind (stallThread thread_id STALL_BARRIER t tm) (\<lambda>tm1.
          Inr (None, br\<lparr> br_waiting := br_waiting br @ [thread_id] \<rparr>, tm1)))"

definition barrierInit :: "nat \<Rightarrow> sync_sys \<Rightarrow> nat \<times> sync_sys" where
  "barrierInit cnt w =
     (let bs = m_barriers (snd w) @ [SimBarrier cnt]
      in (length bs - 1, fst w, (snd w)\<lparr> m_barriers := bs \<rparr>))"

definition barrierWait :: "thread_id \<Rightarrow> nat \<Rightarrow> time \<Rightarrow> sync_sys \<Rightarrow> (time option \<times> sync_sys) res" where
  "barrierWait thread_id barrier t w =
     rbind (nth_r (m_barriers (snd w)) barrier) (\<lambda>br.
     rbind (br_wait thread_id t (br, fst w)) (\<lambda>(r, br1, tm1).
     Inr (r, tm1, (snd w)\<lparr> m_barriers := (m_barriers (snd w))[barrier := br1] \<rparr>)))"

end
