(* ===== verification/Syscall_Server.thy ===== *)
theory Syscall_Server
  imports Thread_Manager "HOL-Library.AList"
begin

text \<open>
  Sleeping threads and futexes (\<^verbatim>\<open>common/system/syscall_server.cc\<close>). A call that stalls its caller
  answers \<open>None\<close>; the suffix \<open>_resumed\<close> marks what it returns later. The 32-bit words of the simulated
  program that the futex calls read and write are \<open>app_mem\<close>. The translation of addresses is a function
  the frontend installs in a thread; here it is the argument \<open>va2pa\<close>.

  Constants of \<^verbatim>\<open>linux/futex.h\<close> and \<^verbatim>\<open>errno.h\<close> have their documented values.
\<close>

unbundle bit_operations_syntax

section \<open>Data\<close>

record futex_waiter =
  fw_thread_id :: thread_id
  fw_mask :: u32
  fw_timeout :: time

record syscall_server =
  sc_reschedule_cost :: time
  m_sleeping :: "futex_waiter list"
  m_futexes :: "(u64 \<times> futex_waiter list) list"
  app_mem :: "u64 \<Rightarrow> u32"
  os_time_start :: u64

text \<open>The arguments of the call; the timeout is a null pointer or points to seconds and nanoseconds.\<close>

record futex_args_t =
  fa_uaddr :: u64
  fa_op :: u32
  fa_val :: u32
  fa_timeout :: "(u64 \<times> u64) option"
  fa_val2 :: u32
  fa_uaddr2 :: u64
  fa_val3 :: u32

type_synonym call_sys = "thread_manager \<times> syscall_server"

definition FUTEX_BITSET_MATCH_ANY :: u32 where "FUTEX_BITSET_MATCH_ANY = 0xffffffff"
definition FUTEX_WAIT :: u32 where "FUTEX_WAIT = 0"
definition FUTEX_WAKE :: u32 where "FUTEX_WAKE = 1"
definition FUTEX_CMP_REQUEUE :: u32 where "FUTEX_CMP_REQUEUE = 4"
definition FUTEX_WAKE_OP :: u32 where "FUTEX_WAKE_OP = 5"
definition FUTEX_WAIT_BITSET :: u32 where "FUTEX_WAIT_BITSET = 9"
definition FUTEX_WAKE_BITSET :: u32 where "FUTEX_WAKE_BITSET = 10"
definition FUTEX_CMD_MASK :: u32 where "FUTEX_CMD_MASK = 0x7f"
definition FUTEX_PRIVATE_FLAG :: u32 where "FUTEX_PRIVATE_FLAG = 128"
definition EAGAIN :: u64 where "EAGAIN = 11"
definition ETIMEDOUT :: u64 where "ETIMEDOUT = 110"

lemmas futex_consts = FUTEX_BITSET_MATCH_ANY_def FUTEX_WAIT_def FUTEX_WAKE_def FUTEX_CMP_REQUEUE_def
  FUTEX_WAKE_OP_def FUTEX_WAIT_BITSET_def FUTEX_WAKE_BITSET_def FUTEX_CMD_MASK_def FUTEX_PRIVATE_FLAG_def
  EAGAIN_def ETIMEDOUT_def

definition NS_1 :: u64 where "NS_1 = 1000000"
definition SEC_1 :: u64 where "SEC_1 = 1000000000000000"

section \<open>One futex\<close>

definition enqueueWaiter ::
    "thread_id \<Rightarrow> u32 \<Rightarrow> time \<Rightarrow> time \<Rightarrow> futex_waiter list \<times> thread_manager \<Rightarrow> (futex_waiter list \<times> thread_manager) res" where
  "enqueueWaiter thread_id msk t timeout_time p =
     rbind (stallThread thread_id STALL_FUTEX t (snd p)) (\<lambda>tm1.
     Inr (fst p @ [\<lparr> fw_thread_id = thread_id, fw_mask = msk, fw_timeout = timeout_time \<rparr>], tm1))"

definition dequeueWaiter ::
    "thread_id \<Rightarrow> u32 \<Rightarrow> time \<Rightarrow> futex_waiter list \<times> thread_manager \<Rightarrow>
     (thread_id \<times> futex_waiter list \<times> thread_manager) res" where
  "dequeueWaiter thread_by msk t p =
     (case List.extract (\<lambda>x. msk AND fw_mask x \<noteq> 0) (fst p) of
        None \<Rightarrow> Inr (INVALID_THREAD_ID, p)
      | Some (ys, x, zs) \<Rightarrow>
          rbind (resumeThread (fw_thread_id x) thread_by t True (snd p)) (\<lambda>tm1.
          Inr (fw_thread_id x, ys @ zs, tm1)))"

definition wakeTimedOut :: "time \<Rightarrow> futex_waiter list \<times> thread_manager \<Rightarrow> (futex_waiter list \<times> thread_manager) res" where
  "wakeTimedOut t p =
     (case List.extract (\<lambda>x. fw_timeout x \<le> t) (fst p) of
        None \<Rightarrow> Inr p
      | Some (ys, x, zs) \<Rightarrow>
          rbind (resumeThread (fw_thread_id x) INVALID_THREAD_ID t False (snd p)) (\<lambda>tm1.
          Inr (ys @ zs, tm1)))"

definition futex_getNextTimeout :: "futex_waiter list \<Rightarrow> time" where
  "futex_getNextTimeout q = fold (\<lambda>x next. if fw_timeout x < MaxTime then fw_timeout x else next) q MaxTime"

section \<open>The server\<close>

text \<open>The reschedule cost, unless the thread has not executed an instruction yet.\<close>

definition applyRescheduleCost :: "thread_id \<Rightarrow> bool \<Rightarrow> call_sys \<Rightarrow> time res" where
  "applyRescheduleCost thread_id conditional w =
     (if \<not> conditional then Inr 0
      else
        rbind (getThreadFromID thread_id (fst w)) (\<lambda>th.
        if m_core th = INVALID_CORE_ID then Inl Null_Deref
        else
          rbind (at_id (m_cores (fst w)) (m_core th)) (\<lambda>c.
          Inr (if m_instructions c = 0 then 0 else sc_reschedule_cost (snd w)))))"

text \<open>The futex at a translated address; \<^verbatim>\<open>operator[]\<close> creates an empty one.\<close>

definition futex_at :: "u64 \<Rightarrow> syscall_server \<Rightarrow> futex_waiter list" where
  "futex_at a sc = (case map_of (m_futexes sc) a of None \<Rightarrow> [] | Some q \<Rightarrow> q)"

definition put_futex :: "u64 \<Rightarrow> futex_waiter list \<Rightarrow> syscall_server \<Rightarrow> syscall_server" where
  "put_futex a q sc = sc\<lparr> m_futexes := AList.update a q (m_futexes sc) \<rparr>"

definition findFutexByUaddr :: "(thread_id \<Rightarrow> u64 \<Rightarrow> u64) \<Rightarrow> u64 \<Rightarrow> thread_id \<Rightarrow> call_sys \<Rightarrow> (u64 \<times> call_sys) res" where
  "findFutexByUaddr va2pa uaddr thread_id w =
     rbind (getThreadFromID thread_id (fst w)) (\<lambda>_.
     let address = va2pa thread_id uaddr
     in Inr (address, fst w, put_futex address (futex_at address (snd w)) (snd w)))"

definition handleSleepCall :: "thread_id \<Rightarrow> time \<Rightarrow> time \<Rightarrow> call_sys \<Rightarrow> call_sys res" where
  "handleSleepCall thread_id wake_time curr_time w =
     rbind (stallThread thread_id STALL_SLEEP curr_time (fst w)) (\<lambda>tm1.
     Inr (tm1, (snd w)\<lparr> m_sleeping := m_sleeping (snd w) @
       [\<lparr> fw_thread_id = thread_id, fw_mask = 0, fw_timeout = wake_time \<rparr>] \<rparr>))"

text \<open>The answer of a futex call: result and end time, or \<open>None\<close> when the caller stalls.\<close>

definition futexWait ::
    "(thread_id \<Rightarrow> u64 \<Rightarrow> u64) \<Rightarrow> thread_id \<Rightarrow> u64 \<Rightarrow> u32 \<Rightarrow> u32 \<Rightarrow> u32 \<Rightarrow> time \<Rightarrow> time \<Rightarrow> call_sys \<Rightarrow>
     ((u64 \<times> time) option \<times> call_sys) res" where
  "futexWait va2pa thread_id uaddr val act_val msk curr_time timeout_time w =
     rbind (findFutexByUaddr va2pa uaddr thread_id w) (\<lambda>(a, w1).
     if val \<noteq> act_val then Inr (Some (- EAGAIN, curr_time), w1)
     else
       rbind (enqueueWaiter thread_id msk curr_time timeout_time (futex_at a (snd w1), fst w1)) (\<lambda>(q, tm1).
       Inr (None, tm1, put_futex a q (snd w1))))"

definition futexWait_resumed :: "thread_id \<Rightarrow> call_sys \<Rightarrow> (u64 \<times> time) res" where
  "futexWait_resumed thread_id w =
     rbind (stallThread_return thread_id (fst w)) (\<lambda>(end_time, success).
     Inr (if success then 0 else - ETIMEDOUT, end_time))"

definition wakeFutexOne :: "u64 \<Rightarrow> thread_id \<Rightarrow> u32 \<Rightarrow> time \<Rightarrow> call_sys \<Rightarrow> (thread_id \<times> call_sys) res" where
  "wakeFutexOne a thread_by msk curr_time w =
     rbind (applyRescheduleCost thread_by True w) (\<lambda>cost.
     rbind (dequeueWaiter thread_by msk (curr_time + cost) (futex_at a (snd w), fst w)) (\<lambda>(t, q, tm1).
     Inr (t, tm1, put_futex a q (snd w))))"

text \<open>\<^verbatim>\<open>for (int i = 0; i < n; i++) { wake one; if none: break; count }\<close>\<close>

fun wake_loop :: "nat \<Rightarrow> (call_sys \<Rightarrow> (thread_id \<times> call_sys) res) \<Rightarrow> call_sys \<Rightarrow> (nat \<times> call_sys) res" where
  "wake_loop 0 wake w = Inr (0, w)"
| "wake_loop (Suc n) wake w =
     rbind (wake w) (\<lambda>(t, w1).
     if t = INVALID_THREAD_ID then Inr (0, w1)
     else rbind (wake_loop n wake w1) (\<lambda>(k, w2). Inr (Suc k, w2)))"

abbreviation int_loop :: "u32 \<Rightarrow> nat" where
  "int_loop n \<equiv> nat (sint n)"

definition futexWake ::
    "(thread_id \<Rightarrow> u64 \<Rightarrow> u64) \<Rightarrow> thread_id \<Rightarrow> u64 \<Rightarrow> u32 \<Rightarrow> u32 \<Rightarrow> time \<Rightarrow> call_sys \<Rightarrow>
     ((u64 \<times> time) option \<times> call_sys) res" where
  "futexWake va2pa thread_id uaddr nr_wake msk curr_time w =
     rbind (findFutexByUaddr va2pa uaddr thread_id w) (\<lambda>(a, w1).
     rbind (wake_loop (int_loop nr_wake) (wakeFutexOne a thread_id msk curr_time) w1) (\<lambda>(k, w2).
     rbind (applyRescheduleCost thread_id (0 < k) w2) (\<lambda>cost.
     Inr (Some (of_nat k, curr_time + cost), w2))))"

text \<open>The operation of \<^verbatim>\<open>FUTEX_WAKE_OP\<close>: the operand and the comparison are sign-extended 12-bit fields.\<close>

definition op_field :: "u32 \<Rightarrow> u32" where "op_field e = signed_drop_bit 28 e AND 7"
definition cmp_field :: "u32 \<Rightarrow> u32" where "cmp_field e = signed_drop_bit 24 e AND 15"
definition oparg_field :: "u32 \<Rightarrow> u32" where "oparg_field e = signed_drop_bit 20 (push_bit 8 e)"
definition cmparg_field :: "u32 \<Rightarrow> u32" where "cmparg_field e = signed_drop_bit 20 (push_bit 20 e)"

definition op_arg :: "u32 \<Rightarrow> u32 res" where
  "op_arg e =
     (if e AND push_bit 28 8 \<noteq> 0 then
        (if 0 \<le> sint (oparg_field e) \<and> sint (oparg_field e) < 32
         then Inr (push_bit (nat (sint (oparg_field e))) 1) else Inl Undefined)
      else Inr (oparg_field e))"

definition op_newval :: "u32 \<Rightarrow> u32 \<Rightarrow> u32 \<Rightarrow> u32 res" where
  "op_newval opr oldval oparg =
     (if opr = 0 then Inr oparg
      else if opr = 1 then Inr (oldval + oparg)
      else if opr = 2 then Inr (oldval OR oparg)
      else if opr = 3 then Inr (oldval AND NOT oparg)
      else if opr = 4 then Inr (oldval XOR oparg)
      else Inl Assert_Failed)"

definition op_compare :: "u32 \<Rightarrow> u32 \<Rightarrow> u32 \<Rightarrow> bool res" where
  "op_compare cmp oldval cmparg =
     (if cmp = 0 then Inr (oldval = cmparg)
      else if cmp = 1 then Inr (oldval \<noteq> cmparg)
      else if cmp = 2 then Inr (sint oldval < sint cmparg)
      else if cmp = 5 then Inr (sint oldval \<ge> sint cmparg)
      else if cmp = 3 then Inr (sint oldval \<le> sint cmparg)
      else if cmp = 4 then Inr (sint oldval > sint cmparg)
      else Inl Assert_Failed)"

definition futexDoOp :: "u32 \<Rightarrow> u64 \<Rightarrow> syscall_server \<Rightarrow> (bool \<times> syscall_server) res" where
  "futexDoOp encoded_op uaddr sc =
     rbind (op_arg encoded_op) (\<lambda>oparg.
     let oldval = app_mem sc uaddr in
     rbind (op_newval (op_field encoded_op) oldval oparg) (\<lambda>newval.
     let sc1 = sc\<lparr> app_mem := (app_mem sc)(uaddr := newval) \<rparr> in
     rbind (op_compare (cmp_field encoded_op) oldval (cmparg_field encoded_op)) (\<lambda>ret.
     Inr (ret, sc1))))"

definition futexWakeOp ::
    "(thread_id \<Rightarrow> u64 \<Rightarrow> u64) \<Rightarrow> thread_id \<Rightarrow> u64 \<Rightarrow> u64 \<Rightarrow> u32 \<Rightarrow> u32 \<Rightarrow> u32 \<Rightarrow> time \<Rightarrow> call_sys \<Rightarrow>
     ((u64 \<times> time) option \<times> call_sys) res" where
  "futexWakeOp va2pa thread_id uaddr uaddr2 nr_wake nr_wake2 opr curr_time w =
     rbind (findFutexByUaddr va2pa uaddr thread_id w) (\<lambda>(a, w1).
     rbind (findFutexByUaddr va2pa uaddr2 thread_id w1) (\<lambda>(a2, w2).
     rbind (getThreadFromID thread_id (fst w2)) (\<lambda>th.
     if m_core th = INVALID_CORE_ID then Inl Assert_Failed
     else
       rbind (futexDoOp opr uaddr2 (snd w2)) (\<lambda>(op_ret, sc3).
       rbind (wake_loop (int_loop nr_wake) (wakeFutexOne a thread_id FUTEX_BITSET_MATCH_ANY curr_time)
                (fst w2, sc3)) (\<lambda>(k, w4).
       rbind (if op_ret
              then wake_loop (int_loop nr_wake2) (wakeFutexOne a2 thread_id FUTEX_BITSET_MATCH_ANY curr_time) w4
              else Inr (0, w4)) (\<lambda>(k2, w5).
       rbind (applyRescheduleCost thread_id (0 < k + k2) w5) (\<lambda>cost.
       Inr (Some (of_nat (k + k2), curr_time + cost), w5))))))))"

text \<open>One waiter moves from the futex at \<open>a\<close> to the end of the one at \<open>b\<close>; the loop over it ends when
  the first is empty. When both addresses are the same the waiter goes to the end of its own queue.\<close>

definition requeueWaiter :: "u64 \<Rightarrow> u64 \<Rightarrow> syscall_server \<Rightarrow> thread_id \<times> syscall_server" where
  "requeueWaiter a b sc =
     (case futex_at a sc of
        [] \<Rightarrow> (INVALID_THREAD_ID, sc)
      | x # rest \<Rightarrow>
          let sc1 = put_futex a rest sc
          in (fw_thread_id x, put_futex b (futex_at b sc1 @ [x]) sc1))"

fun requeue_loop :: "nat \<Rightarrow> u64 \<Rightarrow> u64 \<Rightarrow> syscall_server \<Rightarrow> syscall_server res" where
  "requeue_loop 0 a b sc = Inl Out_Of_Fuel"
| "requeue_loop (Suc n) a b sc =
     (let (t, sc1) = requeueWaiter a b sc in if t = INVALID_THREAD_ID then Inr sc1 else requeue_loop n a b sc1)"

definition cmp_wake_one :: "u64 \<Rightarrow> thread_id \<Rightarrow> time \<Rightarrow> call_sys \<Rightarrow> (thread_id \<times> call_sys) res" where
  "cmp_wake_one a thread_id curr_time w =
     rbind (dequeueWaiter thread_id FUTEX_BITSET_MATCH_ANY curr_time (futex_at a (snd w), fst w)) (\<lambda>(t, q, tm1).
     Inr (t, tm1, put_futex a q (snd w)))"

definition futexCmpRequeue ::
    "nat \<Rightarrow> (thread_id \<Rightarrow> u64 \<Rightarrow> u64) \<Rightarrow> thread_id \<Rightarrow> u64 \<Rightarrow> u32 \<Rightarrow> u64 \<Rightarrow> u32 \<Rightarrow> u32 \<Rightarrow> time \<Rightarrow> call_sys \<Rightarrow>
     ((u64 \<times> time) option \<times> call_sys) res" where
  "futexCmpRequeue fuel va2pa thread_id uaddr val uaddr2 val3 act_val curr_time w =
     rbind (findFutexByUaddr va2pa uaddr thread_id w) (\<lambda>(a, w1).
     if val3 \<noteq> act_val then Inr (Some (- EAGAIN, curr_time), w1)
     else
       rbind (wake_loop (int_loop val) (cmp_wake_one a thread_id curr_time) w1) (\<lambda>(k, w2).
       rbind (findFutexByUaddr va2pa uaddr2 thread_id w2) (\<lambda>(a2, w3).
       rbind (requeue_loop fuel a a2 (snd w3)) (\<lambda>sc4.
       Inr (Some (of_nat k, curr_time), fst w3, sc4)))))"

text \<open>The time a wait may last: absolute for \<^verbatim>\<open>FUTEX_WAIT_BITSET\<close>, relative for \<^verbatim>\<open>FUTEX_WAIT\<close>; the start of
  the simulated clock is subtracted in both cases.\<close>

definition timeout_of :: "u32 \<Rightarrow> (u64 \<times> u64) option \<Rightarrow> time \<Rightarrow> syscall_server \<Rightarrow> time" where
  "timeout_of cmd tmo curr_time sc =
     (case tmo of
        None \<Rightarrow> MaxTime
      | Some (tv_sec, tv_nsec) \<Rightarrow>
          let timeout_val = (tv_sec - os_time_start sc) * SEC_1 + tv_nsec * NS_1
          in if cmd = FUTEX_WAIT_BITSET then timeout_val else curr_time + timeout_val)"

definition handleFutexCall ::
    "nat \<Rightarrow> (thread_id \<Rightarrow> u64 \<Rightarrow> u64) \<Rightarrow> thread_id \<Rightarrow> futex_args_t \<Rightarrow> time \<Rightarrow> call_sys \<Rightarrow>
     ((u64 \<times> time) option \<times> call_sys) res" where
  "handleFutexCall fuel va2pa thread_id args curr_time w =
     (let cmd = (fa_op args AND FUTEX_CMD_MASK) AND NOT FUTEX_PRIVATE_FLAG in
      rbind (getThreadFromID thread_id (fst w)) (\<lambda>th.
      if m_core th = INVALID_CORE_ID then Inl Assert_Failed
      else if cmd \<notin> {FUTEX_WAIT, FUTEX_WAIT_BITSET, FUTEX_WAKE, FUTEX_WAKE_BITSET, FUTEX_WAKE_OP, FUTEX_CMP_REQUEUE}
      then Inl Assert_Failed
      else
        let act_val = app_mem (snd w) (fa_uaddr args) in
        if cmd = FUTEX_WAIT \<or> cmd = FUTEX_WAIT_BITSET then
          futexWait va2pa thread_id (fa_uaddr args) (fa_val args) act_val
            (if cmd = FUTEX_WAIT_BITSET then fa_val3 args else FUTEX_BITSET_MATCH_ANY) curr_time
            (timeout_of cmd (fa_timeout args) curr_time (snd w)) w
        else if cmd = FUTEX_WAKE \<or> cmd = FUTEX_WAKE_BITSET then
          futexWake va2pa thread_id (fa_uaddr args) (fa_val args)
            (if cmd = FUTEX_WAIT_BITSET then fa_val3 args else FUTEX_BITSET_MATCH_ANY) curr_time w
        else if cmd = FUTEX_WAKE_OP then
          futexWakeOp va2pa thread_id (fa_uaddr args) (fa_uaddr2 args) (fa_val args) (fa_val2 args) (fa_val3 args) curr_time w
        else if fa_uaddr args = fa_uaddr2 args then Inl Assert_Failed
        else
          futexCmpRequeue fuel va2pa thread_id (fa_uaddr args) (fa_val args) (fa_uaddr2 args) (fa_val3 args) act_val
            curr_time w))"

section \<open>Timeouts\<close>

text \<open>The map is walked in the order of the list; which thread of which futex is woken does not depend on it.\<close>

definition periodic_futex :: "time \<Rightarrow> u64 \<Rightarrow> call_sys \<Rightarrow> call_sys res" where
  "periodic_futex t a w =
     rbind (wakeTimedOut t (futex_at a (snd w), fst w)) (\<lambda>(q, tm1). Inr (tm1, put_futex a q (snd w)))"

definition wake_sleeper :: "time \<Rightarrow> call_sys \<Rightarrow> call_sys res" where
  "wake_sleeper t w =
     (case List.extract (\<lambda>x. fw_timeout x \<le> t) (m_sleeping (snd w)) of
        None \<Rightarrow> Inr w
      | Some (ys, x, zs) \<Rightarrow>
          rbind (resumeThread (fw_thread_id x) (fw_thread_id x) t False (fst w)) (\<lambda>tm1.
          Inr (tm1, (snd w)\<lparr> m_sleeping := ys @ zs \<rparr>)))"

definition futexPeriodic :: "time \<Rightarrow> call_sys \<Rightarrow> call_sys res" where
  "futexPeriodic t w =
     rbind (wake_sleeper t w) (\<lambda>w1. fold_r (periodic_futex t) (map fst (m_futexes (snd w1))) w1)"

definition getNextTimeout :: "syscall_server \<Rightarrow> time" where
  "getNextTimeout sc =
     fold (\<lambda>(_, q) next. if futex_getNextTimeout q < next then futex_getNextTimeout q else next) (m_futexes sc)
       (fold (\<lambda>x next. if fw_timeout x < MaxTime then fw_timeout x else next) (m_sleeping sc) MaxTime)"

end
