(* ===== verification/Sync_System.thy ===== *)
theory Sync_System
  imports Sync_Server Syscall_Server
begin

text \<open>
  The thread manager, the synchronisation server and the system call server together. The invariant ties
  the queues of the servers to the states of the threads: a thread is stalled exactly when it waits in
  one queue, so no wake-up is lost and none is given twice.
\<close>

section \<open>Queues as multisets\<close>

definition sleepers :: "thread_manager \<Rightarrow> thread_id multiset" where
  "sleepers tm = mset_set (stalled tm)"

text \<open>Threads that wait for another to exit.\<close>

definition joining :: "thread_manager \<Rightarrow> thread_id multiset" where
  "joining tm = filter_mset (\<lambda>t. t \<noteq> INVALID_THREAD_ID) (mset (map waiter (m_thread_state tm)))"

definition queue_sum :: "('v \<Rightarrow> thread_id multiset) \<Rightarrow> ('k \<times> 'v) list \<Rightarrow> thread_id multiset" where
  "queue_sum f al = sum_list (map (f \<circ> snd) al)"

definition mx_queue :: "sim_mutex \<Rightarrow> thread_id multiset" where "mx_queue mx = mset (mx_waiting mx)"
definition cv_queue :: "cond_waiter list \<Rightarrow> thread_id multiset" where "cv_queue cv = mset (map cw_thread_id cv)"
definition br_queue :: "sim_barrier \<Rightarrow> thread_id multiset" where "br_queue br = mset (br_waiting br)"
definition fx_queue :: "futex_waiter list \<Rightarrow> thread_id multiset" where "fx_queue q = mset (map fw_thread_id q)"

definition sync_queues :: "sync_server \<Rightarrow> thread_id multiset" where
  "sync_queues ss = queue_sum mx_queue (m_mutexes ss) + queue_sum cv_queue (m_conds ss) +
     sum_list (map br_queue (m_barriers ss))"

definition call_queues :: "syscall_server \<Rightarrow> thread_id multiset" where
  "call_queues sc = fx_queue (m_sleeping sc) + queue_sum fx_queue (m_futexes sc)"

lemma queue_sum_simps [simp]:
  "queue_sum f [] = {#}" "queue_sum f (x # al) = f (snd x) + queue_sum f al"
  by (simp_all add: queue_sum_def)

lemma queue_sum_update:
  "map_of al k = Some v \<Longrightarrow> queue_sum f (AList.update k v' al) + f v = queue_sum f al + f v'"
  "map_of al k = None \<Longrightarrow> queue_sum f (AList.update k v' al) = queue_sum f al + f v'"
  by (induction al) (auto simp: ac_simps split: if_splits)

lemma queue_sum_entry: "map_of al k = Some v \<Longrightarrow> f v \<subseteq># queue_sum f al"
  by (induction al) (auto split: if_splits intro: subset_mset.add_increasing)

lemma sum_list_update_mset:
  "i < length xs \<Longrightarrow> sum_list (map f (xs[i := y])) + f (xs ! i) = sum_list (map f xs) + (f y :: 'a multiset)"
  by (induction xs arbitrary: i) (auto simp: ac_simps split: nat.splits)

lemma sum_list_nth_mset: "i < length xs \<Longrightarrow> f (xs ! i) \<subseteq># sum_list (map f xs)"
  by (induction xs arbitrary: i) (auto simp: nth_Cons intro: subset_mset.add_increasing split: nat.splits)

section \<open>Stalling and resuming as changes of the multiset\<close>

text \<open>What an operation may not touch.\<close>

definition same_threads :: "thread_manager \<Rightarrow> thread_manager \<Rightarrow> bool" where
  "same_threads tm tm' \<longleftrightarrow> tm_ok tm' \<and> valid_id tm' = valid_id tm \<and> joining tm' = joining tm \<and>
     map m_core (m_threads tm') = map m_core (m_threads tm) \<and> m_cores tm' = m_cores tm"

lemma same_threads_trans: "same_threads a b \<Longrightarrow> same_threads b c \<Longrightarrow> same_threads a c"
  by (simp add: same_threads_def)

lemma same_threads_refl: "tm_ok a \<Longrightarrow> same_threads a a"
  by (simp add: same_threads_def)

lemma joining_cong: "map waiter (m_thread_state tm') = map waiter (m_thread_state tm) \<Longrightarrow> joining tm' = joining tm"
  unfolding joining_def by (simp only:)

lemma stall_step:
  assumes "tm_ok tm" "valid_id tm t" "t \<notin> stalled tm"
  shows "\<exists>tm'. stallThread t r tau tm = Inr tm' \<and> same_threads tm tm' \<and> sleepers tm' = add_mset t (sleepers tm)"
proof -
  from tms.stall_law [of tm t r tau] assms obtain tm' where
    s: "stallThread t r tau tm = Inr tm'" "tm_ok tm'" "stalled tm' = insert t (stalled tm)" "valid_id tm' = valid_id tm"
    by (auto simp: set_eq_iff)
  have i: "nat t < length (m_thread_state tm)" "nat t < length (m_threads tm)"
    using assms by (simp_all add: valid_id_def tm_ok_def)
  have "map waiter (m_thread_state tm') = map waiter (m_thread_state tm)"
    "map m_core (m_threads tm') = map m_core (m_threads tm)" "m_cores tm' = m_cores tm"
    using s(1) [unfolded stallThread_eq [OF assms(1,2)]] i by (auto simp: map_update_same)
  note keep = joining_cong [OF this(1)] this(2,3)
  show ?thesis using s assms(3) keep by (simp add: same_threads_def sleepers_def)
qed

lemma resume_step:
  assumes "tm_ok tm" "t \<in> stalled tm"
  shows "\<exists>tm'. resumeThread t u tau msg tm = Inr tm' \<and> same_threads tm tm' \<and> add_mset t (sleepers tm') = sleepers tm"
proof -
  have v: "valid_id tm t" by (rule in_state_valid [OF assms(2)])
  from tms.resume_law [of tm t u tau msg] assms v obtain tm' where
    s: "resumeThread t u tau msg tm = Inr tm'" "tm_ok tm'" "stalled tm' = stalled tm - {t}" "valid_id tm' = valid_id tm"
    by (auto simp: set_eq_iff)
  have i: "nat t < length (m_thread_state tm)" "nat t < length (m_threads tm)"
    using assms v by (simp_all add: valid_id_def tm_ok_def)
  have "map waiter (m_thread_state tm') = map waiter (m_thread_state tm)"
    "map m_core (m_threads tm') = map m_core (m_threads tm)" "m_cores tm' = m_cores tm"
    using s(1) [unfolded resumeThread_eq [OF assms(1) v]] i by (auto simp: map_update_same)
  note keep = joining_cong [OF this(1)] this(2,3)
  have "add_mset t (mset_set (stalled tm - {t})) = mset_set (stalled tm)"
    using mset_set.remove [OF in_state_finite assms(2)] by simp
  then show ?thesis using s keep by (simp add: same_threads_def sleepers_def)
qed

lemma resume_steps:
  assumes "tm_ok tm" "mset ts \<subseteq># sleepers tm"
  shows "\<exists>tm'. fold_r (\<lambda>t. resumeThread t u tau msg) ts tm = Inr tm' \<and> same_threads tm tm' \<and>
    mset ts + sleepers tm' = sleepers tm"
  using assms
proof (induction ts arbitrary: tm)
  case (Cons t ts)
  have "t \<in># sleepers tm" using Cons.prems(2) by (metis list.set_intros(1) mset_subset_eqD set_mset_mset)
  then have "t \<in> stalled tm" by (simp add: sleepers_def)
  from resume_step [OF Cons.prems(1) this, of u tau msg] obtain tm1 where
    1: "resumeThread t u tau msg tm = Inr tm1" "same_threads tm tm1" "add_mset t (sleepers tm1) = sleepers tm" by blast
  have "mset ts \<subseteq># sleepers tm1" using Cons.prems(2) 1(3) by (metis mset.simps(2) mset_subset_eq_add_mset_cancel)
  from Cons.IH [OF _ this] 1(2) obtain tm2 where
    "fold_r (\<lambda>t. resumeThread t u tau msg) ts tm1 = Inr tm2" "same_threads tm1 tm2" "mset ts + sleepers tm2 = sleepers tm1"
    by (auto simp: same_threads_def)
  with 1 show ?case by (auto intro: same_threads_trans)
qed (simp add: same_threads_refl)

lemma add_mset_sub: "add_mset w A = B \<Longrightarrow> A \<subseteq># B"
  by (metis add_mset_add_single mset_subset_eq_add_left)

lemma in_sleepers: "t \<in># q \<Longrightarrow> q \<subseteq># sleepers tm \<Longrightarrow> t \<in> stalled tm"
  by (drule mset_subset_eqD, assumption) (simp add: sleepers_def)


section \<open>Operations of one object\<close>

definition mx_ok :: "sim_mutex \<Rightarrow> bool" where
  "mx_ok mx \<longleftrightarrow> (mx_owner mx = NO_OWNER \<longrightarrow> mx_waiting mx = [])"

lemma valid_not_no_owner: "valid_id tm t \<Longrightarrow> t \<noteq> NO_OWNER"
  by (auto simp: valid_id_def NO_OWNER_def)

lemma mx_lock_step:
  assumes "tm_ok tm" "valid_id tm t" "t \<notin> stalled tm" "mx_ok mx"
  shows "\<exists>r mx' tm'. mx_lock t tau (mx, tm) = Inr (r, mx', tm') \<and> mx_ok mx' \<and> same_threads tm tm' \<and>
    sleepers tm' + mx_queue mx = sleepers tm + mx_queue mx' \<and>
    (r = None \<longleftrightarrow> mx_owner mx \<noteq> NO_OWNER) \<and> (r \<noteq> None \<longrightarrow> mx_owner mx' = t \<and> tm' = tm)"
proof (cases "mx_owner mx = NO_OWNER")
  case True
  then show ?thesis using assms valid_not_no_owner [OF assms(2)]
    by (simp add: mx_lock_def mx_ok_def mx_queue_def same_threads_refl)
next
  case False
  from stall_step [OF assms(1-3)] obtain tm' where
    "stallThread t STALL_MUTEX tau tm = Inr tm'" "same_threads tm tm'" "sleepers tm' = add_mset t (sleepers tm)" by blast
  with False show ?thesis by (simp add: mx_lock_def mx_ok_def mx_queue_def)
qed

lemma lock_async_step:
  assumes "tm_ok tm" "t \<in> stalled tm" "mx_ok mx"
  shows "\<exists>got mx' tm'. lock_async t u tau (mx, tm) = Inr (got, mx', tm') \<and> mx_ok mx' \<and> same_threads tm tm' \<and>
    sleepers tm' + mx_queue mx + {#t#} = sleepers tm + mx_queue mx' \<and>
    (got \<longleftrightarrow> mx_owner mx = NO_OWNER) \<and> (got \<longrightarrow> mx_owner mx' = t)"
proof (cases "mx_owner mx = NO_OWNER")
  case True
  from resume_step [OF assms(1,2)] obtain tm' where
    "resumeThread t u tau False tm = Inr tm'" "same_threads tm tm'" "add_mset t (sleepers tm') = sleepers tm" by blast
  with True show ?thesis using valid_not_no_owner [OF in_state_valid [OF assms(2)]] assms(3)
    by (auto simp: lock_async_def mx_ok_def mx_queue_def)
next
  case False
  then show ?thesis using assms by (auto simp: lock_async_def mx_ok_def mx_queue_def same_threads_refl)
qed

lemma mx_unlock_step:
  assumes "tm_ok tm" "mx_queue mx \<subseteq># sleepers tm" "mx_owner mx = t"
  shows "\<exists>n mx' tm'. mx_unlock t tau (mx, tm) = Inr (n, mx', tm') \<and> mx_ok mx' \<and> same_threads tm tm' \<and>
    sleepers tm' + mx_queue mx = sleepers tm + mx_queue mx' \<and> mx_owner mx' = n \<and> sleepers tm' \<subseteq># sleepers tm \<and>
    n = (case mx_waiting mx of [] \<Rightarrow> NO_OWNER | w # ws \<Rightarrow> w)"
proof (cases "mx_waiting mx")
  case Nil
  then show ?thesis using assms by (simp add: mx_unlock_def mx_ok_def mx_queue_def same_threads_refl)
next
  case (Cons w ws)
  have w: "w \<in> stalled tm" using in_sleepers [OF _ assms(2)] Cons by (simp add: mx_queue_def)
  from resume_step [OF assms(1) w] obtain tm' where
    "resumeThread w t tau False tm = Inr tm'" "same_threads tm tm'" "add_mset w (sleepers tm') = sleepers tm" by blast
  with Cons assms(3) valid_not_no_owner [OF in_state_valid [OF w]] show ?thesis
    by (auto simp: mx_unlock_def mx_ok_def mx_queue_def intro: add_mset_sub)
qed

text \<open>A barrier: the last of the threads it counts releases all that wait.\<close>

lemma br_wait_step:
  assumes "tm_ok tm" "valid_id tm t" "t \<notin> stalled tm" "br_queue br \<subseteq># sleepers tm"
  shows "\<exists>r br' tm'. br_wait t tau (br, tm) = Inr (r, br', tm') \<and> same_threads tm tm' \<and>
    sleepers tm' + br_queue br = sleepers tm + br_queue br'"
proof (cases "length (br_waiting br) = sub32 (br_count br) 1")
  case True
  from resume_steps [OF assms(1) assms(4) [unfolded br_queue_def], of t tau False] obtain tm' where
    "fold_r (\<lambda>w. resumeThread w t tau False) (br_waiting br) tm = Inr tm'" "same_threads tm tm'"
    "mset (br_waiting br) + sleepers tm' = sleepers tm" by blast
  with True show ?thesis by (simp add: br_wait_def br_queue_def add.commute)
next
  case False
  from stall_step [OF assms(1-3)] obtain tm' where
    "stallThread t STALL_BARRIER tau tm = Inr tm'" "same_threads tm tm'" "sleepers tm' = add_mset t (sleepers tm)" by blast
  with False show ?thesis by (simp add: br_wait_def br_queue_def)
qed

lemma extract_queue:
  assumes "List.extract P q = Some (ys, x, zs)"
  shows "fx_queue q = add_mset (fw_thread_id x) (fx_queue (ys @ zs))" "x \<in> set q"
  using extract_SomeE [OF assms] by (simp_all add: fx_queue_def)

lemma dequeue_step:
  assumes "tm_ok tm" "fx_queue q \<subseteq># sleepers tm"
  shows "\<exists>t q' tm'. dequeueWaiter u msk tau (q, tm) = Inr (t, q', tm') \<and> same_threads tm tm' \<and>
    sleepers tm' + fx_queue q = sleepers tm + fx_queue q' \<and> sleepers tm' \<subseteq># sleepers tm"
proof (cases "List.extract (\<lambda>x. msk AND fw_mask x \<noteq> 0) q")
  case None
  then show ?thesis using assms by (simp add: dequeueWaiter_def same_threads_refl)
next
  case (Some p)
  obtain ys x zs where p: "p = (ys, x, zs)" by (cases p)
  note e = extract_queue [OF Some [unfolded p]]
  have "fw_thread_id x \<in> stalled tm" using in_sleepers [OF _ assms(2)] e(1) by simp
  from resume_step [OF assms(1) this] obtain tm' where
    "resumeThread (fw_thread_id x) u tau True tm = Inr tm'" "same_threads tm tm'"
    "add_mset (fw_thread_id x) (sleepers tm') = sleepers tm" by blast
  with Some p e(1) show ?thesis by (auto simp: dequeueWaiter_def intro: add_mset_sub)
qed

lemma timed_out_step:
  assumes "tm_ok tm" "fx_queue q \<subseteq># sleepers tm"
  shows "\<exists>q' tm'. wakeTimedOut tau (q, tm) = Inr (q', tm') \<and> same_threads tm tm' \<and>
    sleepers tm' + fx_queue q = sleepers tm + fx_queue q'"
proof (cases "List.extract (\<lambda>x. fw_timeout x \<le> tau) q")
  case None
  then show ?thesis using assms by (simp add: wakeTimedOut_def same_threads_refl)
next
  case (Some p)
  obtain ys x zs where p: "p = (ys, x, zs)" by (cases p)
  note e = extract_queue [OF Some [unfolded p]]
  have "fw_thread_id x \<in> stalled tm" using in_sleepers [OF _ assms(2)] e(1) by simp
  from resume_step [OF assms(1) this] obtain tm' where
    "resumeThread (fw_thread_id x) INVALID_THREAD_ID tau False tm = Inr tm'" "same_threads tm tm'"
    "add_mset (fw_thread_id x) (sleepers tm') = sleepers tm" by blast
  with Some p e(1) show ?thesis by (auto simp: wakeTimedOut_def)
qed

section \<open>Servers\<close>

text \<open>A server keeps a state of type \<open>'s\<close> with queues \<open>Q\<close> and an invariant \<open>K\<close> of its own. Its threads
  are stalled; an operation keeps the invariant and changes the stalled threads exactly as the queues.\<close>

definition srv_inv :: "('s \<Rightarrow> thread_id multiset) \<Rightarrow> ('s \<Rightarrow> bool) \<Rightarrow> thread_manager \<times> 's \<Rightarrow> bool" where
  "srv_inv Q K w \<longleftrightarrow> tm_ok (fst w) \<and> K (snd w) \<and> Q (snd w) \<subseteq># sleepers (fst w)"

definition srv_rel ::
    "('s \<Rightarrow> thread_id multiset) \<Rightarrow> ('s \<Rightarrow> bool) \<Rightarrow> thread_manager \<times> 's \<Rightarrow> thread_manager \<times> 's \<Rightarrow> bool" where
  "srv_rel Q K w w' \<longleftrightarrow> srv_inv Q K w' \<and> same_threads (fst w) (fst w') \<and>
     sleepers (fst w') + Q (snd w) = sleepers (fst w) + Q (snd w')"

lemma mset_balance:
  assumes "S' + X = S + X'" "X \<subseteq># (S :: 'a multiset)"
  shows "X' \<subseteq># S'"
proof -
  from assms(2) obtain Y where "S = X + Y" by (auto simp: subset_mset.le_iff_add)
  with assms(1) have "S' = Y + X'" by (simp add: ac_simps)
  then show ?thesis by simp
qed

lemma mset_balance_trans:
  assumes "S' + X = S + X'" "S'' + X' = S' + X''"
  shows "S'' + X = S + (X'' :: 'a multiset)"
proof -
  have "S'' + X + X' = S + X'' + X'" using assms by (metis (no_types) add.assoc add.commute)
  then show ?thesis by simp
qed

lemma srv_relI:
  assumes "srv_inv Q K w" "same_threads (fst w) tm'" "K s'"
    "sleepers tm' + Q (snd w) = sleepers (fst w) + Q s'"
  shows "srv_rel Q K w (tm', s')"
  using assms mset_balance [OF assms(4)] by (simp add: srv_rel_def srv_inv_def same_threads_def)

lemma srv_rel_refl: "srv_inv Q K w \<Longrightarrow> srv_rel Q K w w"
  by (simp add: srv_rel_def srv_inv_def same_threads_refl)

lemma srv_rel_trans: "srv_rel Q K a b \<Longrightarrow> srv_rel Q K b c \<Longrightarrow> srv_rel Q K a c"
  by (auto simp: srv_rel_def intro: same_threads_trans mset_balance_trans)

text \<open>Creating an object on first use changes no queue.\<close>

lemma srv_lookup:
  assumes "srv_inv Q K (tm, s)" "K s'" "Q s' = Q s"
  shows "srv_inv Q K (tm, s')" "srv_rel Q K (tm, s) (tm, s')"
proof -
  have "tm_ok tm" using assms(1) by (simp add: srv_inv_def)
  from srv_relI [OF assms(1), of tm s'] same_threads_refl [OF this] assms(2,3)
  show "srv_rel Q K (tm, s) (tm, s')" by simp
  then show "srv_inv Q K (tm, s')" by (simp add: srv_rel_def)
qed

text \<open>Replacing one queue \<open>q\<close> by \<open>q'\<close> while the thread manager follows.\<close>

lemma srv_replace:
  assumes inv: "srv_inv Q K (tm, s)" and K: "K s'" and s: "Q s' + q = Q s + q'"
    and tm: "same_threads tm tm'" "sleepers tm' + q = sleepers tm + q'"
  shows "srv_rel Q K (tm, s) (tm', s')"
proof -
  have "sleepers tm' + Q s + (q + q') = (sleepers tm' + q) + (Q s + q')" by (simp add: ac_simps)
  also have "\<dots> = sleepers tm + Q s' + (q + q')" unfolding tm(2) s [symmetric] by (simp add: ac_simps)
  finally have "sleepers tm' + Q s = sleepers tm + Q s'" by simp
  then show ?thesis using srv_relI [OF inv] tm(1) K by simp
qed

section \<open>The synchronisation server\<close>

definition ss_ok :: "sync_server \<Rightarrow> bool" where
  "ss_ok ss \<longleftrightarrow> distinct (map fst (m_mutexes ss)) \<and> distinct (map fst (m_conds ss)) \<and>
     (\<forall>k mx. map_of (m_mutexes ss) k = Some mx \<longrightarrow> mx_ok mx) \<and>
     (\<forall>k cv. map_of (m_conds ss) k = Some cv \<longrightarrow> (\<forall>cw \<in> set cv. map_of (m_mutexes ss) (cw_mutex cw) \<noteq> None))"

lemma ss_ok_cong: "m_mutexes ss' = m_mutexes ss \<Longrightarrow> m_conds ss' = m_conds ss \<Longrightarrow> ss_ok ss' = ss_ok ss"
  unfolding ss_ok_def by (simp only:)

abbreviation sync_inv :: "sync_sys \<Rightarrow> bool" where "sync_inv \<equiv> srv_inv sync_queues ss_ok"
abbreviation sync_rel :: "sync_sys \<Rightarrow> sync_sys \<Rightarrow> bool" where "sync_rel \<equiv> srv_rel sync_queues ss_ok"

lemma getMutex_step:
  assumes "ss_ok ss"
  shows "\<exists>mx ss'. getMutex mux True ss = Inr (mx, ss') \<and> ss_ok ss' \<and> map_of (m_mutexes ss') mux = Some mx \<and> mx_ok mx \<and>
    sync_queues ss' = sync_queues ss \<and> m_reschedule_cost ss' = m_reschedule_cost ss \<and> m_conds ss' = m_conds ss"
proof (cases "map_of (m_mutexes ss) mux")
  case None
  then show ?thesis using assms queue_sum_update(2) [OF None, of mx_queue SimMutex]
    by (auto simp: getMutex_def ss_ok_def mx_ok_def SimMutex_def sync_queues_def mx_queue_def update_conv' distinct_update)
next
  case (Some mx)
  then show ?thesis using assms by (auto simp: getMutex_def ss_ok_def)
qed

lemma getCond_step:
  assumes "ss_ok ss"
  shows "\<exists>cv ss'. getCond cnd True ss = Inr (cv, ss') \<and> ss_ok ss' \<and> map_of (m_conds ss') cnd = Some cv \<and>
    sync_queues ss' = sync_queues ss \<and> m_reschedule_cost ss' = m_reschedule_cost ss \<and> m_mutexes ss' = m_mutexes ss"
proof (cases "map_of (m_conds ss) cnd")
  case None
  then show ?thesis using assms queue_sum_update(2) [OF None, of cv_queue "[]"]
    by (auto simp: getCond_def ss_ok_def sync_queues_def cv_queue_def update_conv' distinct_update)
next
  case (Some mx)
  then show ?thesis using assms by (auto simp: getCond_def ss_ok_def)
qed

lemma put_mutex_step:
  assumes "ss_ok ss" "map_of (m_mutexes ss) mux = Some mx" "mx_ok mx'"
  shows "ss_ok (put_mutex mux mx' ss)"
    and "sync_queues (put_mutex mux mx' ss) + mx_queue mx = sync_queues ss + mx_queue mx'"
    and "map_of (m_mutexes (put_mutex mux mx' ss)) mux = Some mx'"
    and "m_conds (put_mutex mux mx' ss) = m_conds ss"
    and "map_of (m_mutexes (put_mutex mux mx' ss)) k \<noteq> None \<longleftrightarrow> map_of (m_mutexes ss) k \<noteq> None"
  using assms queue_sum_update(1) [OF assms(2), of mx_queue mx']
  by (auto simp: put_mutex_def ss_ok_def sync_queues_def update_conv' distinct_update ac_simps)

lemma put_cond_step:
  assumes "ss_ok ss" "map_of (m_conds ss) cnd = Some cv" "\<forall>cw \<in> set cv'. map_of (m_mutexes ss) (cw_mutex cw) \<noteq> None"
  shows "ss_ok (put_cond cnd cv' ss)"
    and "sync_queues (put_cond cnd cv' ss) + cv_queue cv = sync_queues ss + cv_queue cv'"
    and "map_of (m_conds (put_cond cnd cv' ss)) cnd = Some cv'"
    and "m_mutexes (put_cond cnd cv' ss) = m_mutexes ss"
  using assms queue_sum_update(1) [OF assms(2), of cv_queue cv']
  by (auto simp: put_cond_def ss_ok_def sync_queues_def update_conv' distinct_update ac_simps)

lemma mx_queue_sub:
  assumes "sync_inv (tm, ss)" "map_of (m_mutexes ss) mux = Some mx"
  shows "mx_queue mx \<subseteq># sleepers tm"
proof -
  have "mx_queue mx \<subseteq># sync_queues ss"
    using queue_sum_entry [OF assms(2), of mx_queue] by (simp add: sync_queues_def subset_mset.add_increasing2 add.assoc)
  then show ?thesis using assms(1) by (auto simp: srv_inv_def)
qed

lemma br_queue_sub:
  assumes "sync_inv (tm, ss)" "b < length (m_barriers ss)"
  shows "br_queue (m_barriers ss ! b) \<subseteq># sleepers tm"
proof -
  have "br_queue (m_barriers ss ! b) \<subseteq># sync_queues ss"
    using sum_list_nth_mset [OF assms(2), of br_queue] by (simp add: sync_queues_def subset_mset.add_increasing)
  then show ?thesis using assms(1) by (auto simp: srv_inv_def)
qed

lemma put_mutex_rel:
  assumes inv: "sync_inv (tm, ss)" and mx: "map_of (m_mutexes ss) mux = Some mx" "mx_ok mx'"
    and tm: "same_threads tm tm'" "sleepers tm' + mx_queue mx = sleepers tm + mx_queue mx'"
  shows "sync_rel (tm, ss) (tm', put_mutex mux mx' ss)"
proof -
  have ok: "ss_ok ss" using inv by (simp add: srv_inv_def)
  note p = put_mutex_step [OF ok mx]
  show ?thesis by (rule srv_replace [OF inv p(1,2) tm])
qed

lemma mutexLock_step:
  assumes inv: "sync_inv w" and t: "valid_id (fst w) t" "t \<notin> stalled (fst w)"
  shows "\<exists>r w'. mutexLock t mux tryLock tau w = Inr (r, w') \<and> sync_rel w w'"
proof -
  obtain tm ss where w: "w = (tm, ss)" by (cases w)
  have "ss_ok ss" using inv by (simp add: w srv_inv_def)
  from getMutex_step [OF this, of mux] obtain mx ss1 where
    g: "getMutex mux True ss = Inr (mx, ss1)" "ss_ok ss1" "map_of (m_mutexes ss1) mux = Some mx" "mx_ok mx"
    "sync_queues ss1 = sync_queues ss" by blast
  note l = srv_lookup [OF inv [unfolded w] g(2,5)]
  show ?thesis
  proof (cases "tryLock \<and> isLocked t mx")
    case True
    then show ?thesis using g(1) l(2) by (simp add: mutexLock_def w)
  next
    case False
    have "tm_ok tm" using inv by (simp add: w srv_inv_def)
    from mx_lock_step [OF this t [unfolded w fst_conv] g(4), of tau] obtain r mx' tm' where
      m: "mx_lock t tau (mx, tm) = Inr (r, mx', tm')" "mx_ok mx'" "same_threads tm tm'"
      "sleepers tm' + mx_queue mx = sleepers tm + mx_queue mx'" by blast
    from put_mutex_rel [OF l(1) g(3) m(2-4)] srv_rel_trans [OF l(2)] False g(1) m(1)
    show ?thesis by (auto simp: mutexLock_def w)
  qed
qed

lemma mutexUnlock_step:
  assumes inv: "sync_inv w" and mx: "map_of (m_mutexes (snd w)) mux = Some mx" "mx_owner mx = t"
  shows "\<exists>r w'. mutexUnlock t mux tau w = Inr (r, w') \<and> sync_rel w w' \<and>
    (\<exists>mx'. map_of (m_mutexes (snd w')) mux = Some mx' \<and> mx_owner mx' = (case mx_waiting mx of [] \<Rightarrow> NO_OWNER | u # us \<Rightarrow> u))"
proof -
  obtain tm ss where w: "w = (tm, ss)" by (cases w)
  have ok: "tm_ok tm" "ss_ok ss" using inv by (simp_all add: w srv_inv_def)
  from mx_unlock_step [OF ok(1) mx_queue_sub [OF inv [unfolded w] mx(1) [unfolded w snd_conv]] mx(2),
      of "tau + m_reschedule_cost ss"]
  obtain n mx' tm' where m: "mx_unlock t (tau + m_reschedule_cost ss) (mx, tm) = Inr (n, mx', tm')" "mx_ok mx'" "same_threads tm tm'"
    "sleepers tm' + mx_queue mx = sleepers tm + mx_queue mx'" "mx_owner mx' = n"
    "n = (case mx_waiting mx of [] \<Rightarrow> NO_OWNER | w # ws \<Rightarrow> w)" by blast
  have mx1: "map_of (m_mutexes ss) mux = Some mx" using mx(1) by (simp add: w)
  from put_mutex_rel [OF inv [unfolded w] mx1 m(2-4)] put_mutex_step(3) [OF ok(2) mx1 m(2)] m(1,5,6) mx1
  show ?thesis by (auto simp: mutexUnlock_def getMutex_def w)
qed

lemma condWait_step:
  assumes inv: "sync_inv w" and t: "valid_id (fst w) t" "t \<notin> stalled (fst w)"
    and mx: "map_of (m_mutexes (snd w)) mux = Some mx" "mx_owner mx = t"
  shows "\<exists>w'. condWait t cnd mux tau w = Inr w' \<and> sync_rel w w'"
proof -
  obtain tm ss where w: "w = (tm, ss)" by (cases w)
  have ok: "tm_ok tm" "ss_ok ss" using inv by (simp_all add: w srv_inv_def)
  have mx1: "map_of (m_mutexes ss) mux = Some mx" using mx(1) by (simp add: w)
  from getCond_step [OF ok(2), of cnd] obtain cv ss1 where
    g: "getCond cnd True ss = Inr (cv, ss1)" "ss_ok ss1" "map_of (m_conds ss1) cnd = Some cv"
    "sync_queues ss1 = sync_queues ss" "m_mutexes ss1 = m_mutexes ss" by blast
  note l = srv_lookup [OF inv [unfolded w] g(2,4)]
  have mx2: "map_of (m_mutexes ss1) mux = Some mx" using mx1 g(5) by simp
  from mx_unlock_step [OF ok(1) mx_queue_sub [OF l(1) mx2] mx(2), of tau]
  obtain n mx' tm1 where m: "mx_unlock t tau (mx, tm) = Inr (n, mx', tm1)" "mx_ok mx'" "same_threads tm tm1"
    "sleepers tm1 + mx_queue mx = sleepers tm + mx_queue mx'" "sleepers tm1 \<subseteq># sleepers tm" by blast
  have r1: "sync_rel (tm, ss1) (tm1, put_mutex mux mx' ss1)" by (rule put_mutex_rel [OF l(1) mx2 m(2-4)])
  have "t \<notin># sleepers tm" using t(2) by (simp add: w sleepers_def)
  then have "t \<notin># sleepers tm1" using m(5) by (meson mset_subset_eqD)
  then have t1: "valid_id tm1 t" "t \<notin> stalled tm1" "tm_ok tm1"
    using t(1) m(3) by (simp_all add: w same_threads_def sleepers_def)
  from stall_step [OF t1(3,1,2), of STALL_COND tau] obtain tm2 where
    st: "stallThread t STALL_COND tau tm1 = Inr tm2" "same_threads tm1 tm2" "sleepers tm2 = add_mset t (sleepers tm1)" by blast
  let ?ss2 = "put_mutex mux mx' ss1" and ?cw = "\<lparr> cw_thread_id = t, cw_mutex = mux \<rparr>"
  note pm = put_mutex_step [OF g(2) mx2 m(2)]
  have c: "map_of (m_conds ?ss2) cnd = Some cv" using g(3) pm(4) by simp
  have "\<forall>cw \<in> set (cv @ [?cw]). map_of (m_mutexes ?ss2) (cw_mutex cw) \<noteq> None"
    using pm(1,3) c by (auto simp: ss_ok_def)
  note pc = put_cond_step [OF pm(1) c this]
  have "sync_queues (put_cond cnd (cv @ [?cw]) ?ss2) = add_mset t (sync_queues ?ss2)"
    using pc(2) by (simp add: cv_queue_def)
  then have "sync_rel (tm1, ?ss2) (tm2, put_cond cnd (cv @ [?cw]) ?ss2)"
    using srv_relI [of _ _ "(tm1, ?ss2)" tm2] r1 st pc(1) by (simp add: srv_rel_def)
  with r1 l(2) have "sync_rel w (tm2, put_cond cnd (cv @ [?cw]) ?ss2)" unfolding w by (blast intro: srv_rel_trans)
  moreover have "getMutex mux True ss = Inr (mx, ss)" using mx1 by (simp add: getMutex_def)
  ultimately show ?thesis using g(1) m(1) st(1) by (simp add: condWait_def cond_wait_def w)
qed

lemma wake_one_step:
  assumes inv: "sync_inv (tm, ss)" and cv: "map_of (m_conds ss) cnd = Some (woken # rest)"
  shows "\<exists>got w'. lock_woken woken u tau (tm, put_cond cnd rest ss) = Inr (got, w') \<and> sync_rel (tm, ss) w' \<and>
    map_of (m_conds (snd w')) cnd = Some rest"
proof -
  have ok: "tm_ok tm" "ss_ok ss" using inv by (simp_all add: srv_inv_def)
  let ?t = "cw_thread_id woken" and ?m = "cw_mutex woken" and ?ss1 = "put_cond cnd rest ss"
  have r: "\<forall>cw \<in> set (woken # rest). map_of (m_mutexes ss) (cw_mutex cw) \<noteq> None"
    using ok(2) cv unfolding ss_ok_def by blast
  then obtain mx where mx: "map_of (m_mutexes ss) ?m = Some mx" by auto
  have "\<forall>cw \<in> set rest. map_of (m_mutexes ss) (cw_mutex cw) \<noteq> None" using r by simp
  note pc = put_cond_step [OF ok(2) cv this]
  have q1: "sync_queues ss = add_mset ?t (sync_queues ?ss1)" using pc(2) by (simp add: cv_queue_def)
  then have t: "?t \<in> stalled tm" using inv in_sleepers [of ?t "sync_queues ss" tm] by (simp add: srv_inv_def)
  have mxok: "mx_ok mx" using ok(2) mx unfolding ss_ok_def by blast
  from lock_async_step [OF ok(1) t mxok, of u tau] obtain got mx' tm' where
    a: "lock_async ?t u tau (mx, tm) = Inr (got, mx', tm')" "mx_ok mx'" "same_threads tm tm'"
    "sleepers tm' + mx_queue mx + {#?t#} = sleepers tm + mx_queue mx'" by blast
  have mx1: "map_of (m_mutexes ?ss1) ?m = Some mx" using mx pc(4) by simp
  note pm = put_mutex_step [OF pc(1) mx1 a(2)]
  have "sleepers tm' + sync_queues ss + (mx_queue mx + mx_queue mx') =
      (sleepers tm' + mx_queue mx + {#?t#}) + sync_queues ?ss1 + mx_queue mx'" by (simp add: q1 ac_simps)
  also have "\<dots> = sleepers tm + mx_queue mx' + (sync_queues ?ss1 + mx_queue mx')"
    unfolding a(4) by (simp add: ac_simps)
  also have "\<dots> = sleepers tm + sync_queues (put_mutex ?m mx' ?ss1) + (mx_queue mx + mx_queue mx')"
    unfolding pm(2) [symmetric] by (simp add: ac_simps)
  finally have "sleepers tm' + sync_queues ss = sleepers tm + sync_queues (put_mutex ?m mx' ?ss1)" by simp
  then have "sync_rel (tm, ss) (tm', put_mutex ?m mx' ?ss1)" using srv_relI [OF inv] a(3) pm(1) by simp
  then show ?thesis using mx1 a(1) pc(3) pm(4) by (simp add: lock_woken_def)
qed

lemma condSignal_step:
  assumes inv: "sync_inv w"
  shows "\<exists>w'. condSignal t cnd tau w = Inr (tau, w') \<and> sync_rel w w'"
proof -
  obtain tm ss where w: "w = (tm, ss)" by (cases w)
  have ok: "ss_ok ss" using inv by (simp add: w srv_inv_def)
  from getCond_step [OF ok, of cnd] obtain cv ss1 where
    g: "getCond cnd True ss = Inr (cv, ss1)" "ss_ok ss1" "map_of (m_conds ss1) cnd = Some cv" "sync_queues ss1 = sync_queues ss"
    by blast
  note l = srv_lookup [OF inv [unfolded w] g(2,4)]
  show ?thesis
  proof (cases cv)
    case Nil
    then show ?thesis using g(1) l(2) by (simp add: condSignal_def cond_signal_def w)
  next
    case (Cons woken rest)
    from wake_one_step [OF l(1) g(3) [unfolded Cons], of t tau] obtain got w' where
      "lock_woken woken t tau (tm, put_cond cnd rest ss1) = Inr (got, w')" "sync_rel (tm, ss1) w'" by blast
    then show ?thesis using g(1) Cons srv_rel_trans [OF l(2)] by (simp add: condSignal_def cond_signal_def w)
  qed
qed

lemma broadcast_step:
  assumes "sync_inv w" "map_of (m_conds (snd w)) cnd = Some cv"
  shows "\<exists>w'. cond_broadcast t tau cnd cv w = Inr w' \<and> sync_rel w w' \<and> map_of (m_conds (snd w')) cnd = Some []"
  using assms
proof (induction cv arbitrary: w)
  case Nil
  then show ?case by (simp add: srv_rel_refl)
next
  case (Cons woken rest)
  obtain tm ss where w: "w = (tm, ss)" by (cases w)
  from wake_one_step [of tm ss cnd woken rest t tau] Cons.prems obtain got w1 where
    1: "lock_woken woken t tau (tm, put_cond cnd rest ss) = Inr (got, w1)" "sync_rel w w1"
    "map_of (m_conds (snd w1)) cnd = Some rest" by (auto simp: w)
  from Cons.IH [OF _ 1(3)] 1(2) obtain w2 where
    "cond_broadcast t tau cnd rest w1 = Inr w2" "sync_rel w1 w2" "map_of (m_conds (snd w2)) cnd = Some []"
    by (auto simp: srv_rel_def)
  with 1 show ?case by (auto simp: w intro: srv_rel_trans)
qed

lemma condBroadcast_step:
  assumes inv: "sync_inv w"
  shows "\<exists>w'. condBroadcast t cnd tau w = Inr (tau, w') \<and> sync_rel w w' \<and> map_of (m_conds (snd w')) cnd = Some []"
proof -
  obtain tm ss where w: "w = (tm, ss)" by (cases w)
  have ok: "ss_ok ss" using inv by (simp add: w srv_inv_def)
  from getCond_step [OF ok, of cnd] obtain cv ss1 where
    g: "getCond cnd True ss = Inr (cv, ss1)" "ss_ok ss1" "map_of (m_conds ss1) cnd = Some cv" "sync_queues ss1 = sync_queues ss"
    by blast
  note l = srv_lookup [OF inv [unfolded w] g(2,4)]
  from broadcast_step [OF l(1), of cnd cv t tau] g(3) obtain w' where
    "cond_broadcast t tau cnd cv (tm, ss1) = Inr w'" "sync_rel (tm, ss1) w'" "map_of (m_conds (snd w')) cnd = Some []" by auto
  then show ?thesis using g(1) srv_rel_trans [OF l(2)] by (simp add: condBroadcast_def w)
qed

lemma barrierWait_step:
  assumes inv: "sync_inv w" and t: "valid_id (fst w) t" "t \<notin> stalled (fst w)" and b: "b < length (m_barriers (snd w))"
  shows "\<exists>r w'. barrierWait t b tau w = Inr (r, w') \<and> sync_rel w w'"
proof -
  obtain tm ss where w: "w = (tm, ss)" by (cases w)
  have ok: "tm_ok tm" "ss_ok ss" using inv by (simp_all add: w srv_inv_def)
  have b': "b < length (m_barriers ss)" using b by (simp add: w)
  let ?br = "m_barriers ss ! b"
  from br_wait_step [OF ok(1) t [unfolded w fst_conv] br_queue_sub [OF inv [unfolded w] b'], of tau] obtain r br' tm' where
    m: "br_wait t tau (?br, tm) = Inr (r, br', tm')" "same_threads tm tm'"
    "sleepers tm' + br_queue ?br = sleepers tm + br_queue br'" by blast
  let ?ss' = "ss\<lparr> m_barriers := (m_barriers ss)[b := br'] \<rparr>"
  have q: "sync_queues ?ss' + br_queue ?br = sync_queues ss + br_queue br'"
    using sum_list_update_mset [OF b', of br_queue br'] by (simp add: sync_queues_def ac_simps)
  have "ss_ok ?ss'" using ok(2) ss_ok_cong [of ?ss' ss] by simp
  from srv_replace [OF inv [unfolded w] this q m(2,3)] have "sync_rel (tm, ss) (tm', ?ss')" .
  then show ?thesis using m(1) b' by (simp add: barrierWait_def nth_r_def w)
qed

end
