(* ===== verification/Futex_System.thy ===== *)
theory Futex_System
  imports Sync_System
begin

text \<open>
  The futex operations change the stalled threads exactly as the queues of the system call server, and
  every one of them runs to its end.
\<close>

unbundle bit_operations_syntax

definition sc_ok :: "syscall_server \<Rightarrow> bool" where
  "sc_ok sc \<longleftrightarrow> distinct (map fst (m_futexes sc))"

abbreviation call_inv :: "call_sys \<Rightarrow> bool" where "call_inv \<equiv> srv_inv call_queues sc_ok"
abbreviation call_rel :: "call_sys \<Rightarrow> call_sys \<Rightarrow> bool" where "call_rel \<equiv> srv_rel call_queues sc_ok"

text \<open>The thread that calls: known, awake and on a core.\<close>

definition on_core :: "thread_manager \<Rightarrow> thread_id \<Rightarrow> bool" where
  "on_core tm t \<longleftrightarrow> valid_id tm t \<and>
     0 \<le> m_core (m_threads tm ! nat t) \<and> nat (m_core (m_threads tm ! nat t)) < length (m_cores tm)"

lemma on_core_same:
  assumes "same_threads tm tm'" "tm_ok tm"
  shows "on_core tm' t = on_core tm t"
proof -
  have l: "length (m_threads tm') = length (m_threads tm)" "m_cores tm' = m_cores tm" "valid_id tm' = valid_id tm"
    using assms map_eq_imp_length_eq by (auto simp: same_threads_def)
  have "m_core (m_threads tm' ! nat t) = m_core (m_threads tm ! nat t)" if "valid_id tm t"
  proof -
    have "nat t < length (m_threads tm)" using that assms(2) by (simp add: valid_id_def tm_ok_def)
    moreover have "map m_core (m_threads tm') ! nat t = map m_core (m_threads tm) ! nat t"
      using assms(1) by (simp add: same_threads_def)
    ultimately show ?thesis using l(1) by simp
  qed
  then show ?thesis by (auto simp: on_core_def l)
qed

lemma futex_at_put [simp]:
  "futex_at a (put_futex b q sc) = (if a = b then q else futex_at a sc)"
  by (simp add: futex_at_def put_futex_def update_conv')

lemma put_futex_step:
  assumes "sc_ok sc"
  shows "sc_ok (put_futex a q sc)" "call_queues (put_futex a q sc) + fx_queue (futex_at a sc) = call_queues sc + fx_queue q"
proof -
  show "sc_ok (put_futex a q sc)" using assms by (simp add: sc_ok_def put_futex_def distinct_update)
  show "call_queues (put_futex a q sc) + fx_queue (futex_at a sc) = call_queues sc + fx_queue q"
  proof (cases "map_of (m_futexes sc) a")
    case None
    then show ?thesis using queue_sum_update(2) [OF None, of fx_queue q]
      by (simp add: call_queues_def put_futex_def futex_at_def fx_queue_def ac_simps)
  next
    case (Some q0)
    then show ?thesis using queue_sum_update(1) [OF Some, of fx_queue q]
      by (simp add: call_queues_def put_futex_def futex_at_def ac_simps)
  qed
qed

lemma fx_queue_sub:
  assumes "call_inv (tm, sc)"
  shows "fx_queue (futex_at a sc) \<subseteq># sleepers tm"
proof (cases "map_of (m_futexes sc) a")
  case (Some q)
  have "fx_queue q \<subseteq># call_queues sc"
    using queue_sum_entry [OF Some, of fx_queue] by (simp add: call_queues_def subset_mset.add_increasing)
  then show ?thesis using assms Some by (auto simp: srv_inv_def futex_at_def)
qed (simp add: futex_at_def fx_queue_def)

lemma put_futex_rel:
  assumes "call_inv (tm, sc)" "same_threads tm tm'" "sleepers tm' + fx_queue (futex_at a sc) = sleepers tm + fx_queue q"
  shows "call_rel (tm, sc) (tm', put_futex a q sc)"
proof -
  have "sc_ok sc" using assms(1) by (simp add: srv_inv_def)
  from put_futex_step [OF this, of a q] show ?thesis by (rule srv_replace [OF assms(1) _ _ assms(2,3)])
qed

lemma findFutex_step:
  assumes "call_inv w" "valid_id (fst w) t"
  shows "\<exists>w'. findFutexByUaddr va2pa u t w = Inr (va2pa t u, w') \<and> call_rel w w' \<and> fst w' = fst w \<and>
    (\<forall>a. futex_at a (snd w') = futex_at a (snd w)) \<and> app_mem (snd w') = app_mem (snd w)"
proof -
  obtain tm sc where w: "w = (tm, sc)" by (cases w)
  have "tm_ok tm" "sc_ok sc" using assms by (simp_all add: w srv_inv_def)
  then show ?thesis
    using put_futex_rel [OF assms(1) [unfolded w] same_threads_refl [OF \<open>tm_ok tm\<close>], of "va2pa t u" "futex_at (va2pa t u) sc"]
      thread_eq(1) [of tm t] assms(2)
    by (simp add: findFutexByUaddr_def Let_def w) (simp add: put_futex_def)
qed

lemma cost_step:
  assumes "call_inv w" "on_core (fst w) t"
  shows "\<exists>c. applyRescheduleCost t b w = Inr c"
proof -
  have v: "tm_ok (fst w)" "valid_id (fst w) t" using assms by (simp_all add: srv_inv_def on_core_def)
  have "m_core (m_threads (fst w) ! nat t) \<noteq> INVALID_CORE_ID"
    using assms(2) by (auto simp: on_core_def INVALID_CORE_ID_def)
  then show ?thesis using assms(2) thread_eq(1) [OF v] by (auto simp: applyRescheduleCost_def at_id_def on_core_def)
qed

text \<open>Waking one thread, and waking in a loop.\<close>

definition wakes :: "(call_sys \<Rightarrow> (thread_id \<times> call_sys) res) \<Rightarrow> thread_id \<Rightarrow> bool" where
  "wakes wake t \<longleftrightarrow> (\<forall>w. call_inv w \<and> on_core (fst w) t \<longrightarrow> (\<exists>u w'. wake w = Inr (u, w') \<and> call_rel w w'))"

lemma wakesI: "(\<And>w. call_inv w \<Longrightarrow> on_core (fst w) t \<Longrightarrow> \<exists>u w'. wake w = Inr (u, w') \<and> call_rel w w') \<Longrightarrow> wakes wake t"
  by (simp add: wakes_def)

lemma call_rel_core: "call_inv w \<Longrightarrow> call_rel w w' \<Longrightarrow> call_inv w' \<and> on_core (fst w') t = on_core (fst w) t"
  using on_core_same by (auto simp: srv_rel_def srv_inv_def)

lemma wake_loop_step:
  assumes "wakes wake t" "call_inv w" "on_core (fst w) t"
  shows "\<exists>k w'. wake_loop n wake w = Inr (k, w') \<and> call_rel w w'"
  using assms(2,3)
proof (induction n arbitrary: w)
  case 0
  then show ?case by (simp add: srv_rel_refl)
next
  case (Suc n)
  then obtain u w1 where 1: "wake w = Inr (u, w1)" "call_rel w w1" using assms(1) unfolding wakes_def by blast
  note c = call_rel_core [OF Suc.prems(1) 1(2), of t]
  from Suc.IH [of w1] c Suc.prems(2) obtain k w2 where "wake_loop n wake w1 = Inr (k, w2)" "call_rel w1 w2" by auto
  with 1 show ?case by (cases "u = INVALID_THREAD_ID") (auto intro: srv_rel_trans)
qed

lemma dequeue_at_step:
  assumes "call_inv (tm, sc)"
  shows "\<exists>u q tm'. dequeueWaiter t msk tau (futex_at a sc, tm) = Inr (u, q, tm') \<and> call_rel (tm, sc) (tm', put_futex a q sc)"
proof -
  have "tm_ok tm" using assms by (simp add: srv_inv_def)
  from dequeue_step [OF this fx_queue_sub [OF assms]] obtain u q tm' where
    "dequeueWaiter t msk tau (futex_at a sc, tm) = Inr (u, q, tm')" "same_threads tm tm'"
    "sleepers tm' + fx_queue (futex_at a sc) = sleepers tm + fx_queue q" by blast
  with put_futex_rel [OF assms] show ?thesis by blast
qed

lemma wakeFutexOne_wakes: "wakes (wakeFutexOne a t msk tau) t"
proof (rule wakesI)
  fix w assume w: "call_inv w" "on_core (fst w) t"
  obtain c where c: "applyRescheduleCost t True w = Inr c" using cost_step [OF w] by blast
  obtain tm sc where p: "w = (tm, sc)" by (cases w)
  from dequeue_at_step [OF w(1) [unfolded p], of t msk "tau + c" a] c
  show "\<exists>u w'. wakeFutexOne a t msk tau w = Inr (u, w') \<and> call_rel w w'" by (auto simp: wakeFutexOne_def p)
qed

lemma cmp_wake_one_wakes: "wakes (cmp_wake_one a t tau) t"
proof (rule wakesI)
  fix w assume w: "call_inv w" "on_core (fst w) t"
  obtain tm sc where p: "w = (tm, sc)" by (cases w)
  from dequeue_at_step [OF w(1) [unfolded p], of t FUTEX_BITSET_MATCH_ANY tau a]
  show "\<exists>u w'. cmp_wake_one a t tau w = Inr (u, w') \<and> call_rel w w'" by (auto simp: cmp_wake_one_def p)
qed

section \<open>The calls\<close>

lemma handleSleepCall_step:
  assumes inv: "call_inv w" and t: "valid_id (fst w) t" "t \<notin> stalled (fst w)"
  shows "\<exists>w'. handleSleepCall t wake_time tau w = Inr w' \<and> call_rel w w'"
proof -
  obtain tm sc where w: "w = (tm, sc)" by (cases w)
  have ok: "tm_ok tm" "sc_ok sc" using inv by (simp_all add: w srv_inv_def)
  from stall_step [OF ok(1) t [unfolded w fst_conv], of STALL_SLEEP tau] obtain tm' where
    s: "stallThread t STALL_SLEEP tau tm = Inr tm'" "same_threads tm tm'" "sleepers tm' = add_mset t (sleepers tm)" by blast
  let ?sc = "sc\<lparr> m_sleeping := m_sleeping sc @ [\<lparr> fw_thread_id = t, fw_mask = 0, fw_timeout = wake_time \<rparr>] \<rparr>"
  have "call_rel (tm, sc) (tm', ?sc)"
    by (rule srv_relI [OF inv [unfolded w]]) (use s ok in \<open>simp_all add: sc_ok_def call_queues_def fx_queue_def\<close>)
  then show ?thesis using s(1) by (simp add: handleSleepCall_def w)
qed

lemma futexWait_step:
  assumes inv: "call_inv w" and t: "valid_id (fst w) t" "t \<notin> stalled (fst w)"
  shows "\<exists>r w'. futexWait va2pa t u val act msk tau tmo w = Inr (r, w') \<and> call_rel w w'"
proof -
  from findFutex_step [OF inv t(1), of va2pa u] obtain w1 where
    f: "findFutexByUaddr va2pa u t w = Inr (va2pa t u, w1)" "call_rel w w1" "fst w1 = fst w" by blast
  obtain tm sc where w: "w1 = (tm, sc)" by (cases w1)
  have inv1: "call_inv (tm, sc)" using f(2) by (simp add: w srv_rel_def)
  then have ok: "tm_ok tm" by (simp add: srv_inv_def)
  show ?thesis
  proof (cases "val = act")
    case False
    then show ?thesis using f by (simp add: futexWait_def)
  next
    case True
    from stall_step [OF ok, of t STALL_FUTEX tau] t f(3) obtain tm' where
      s: "stallThread t STALL_FUTEX tau tm = Inr tm'" "same_threads tm tm'" "sleepers tm' = add_mset t (sleepers tm)"
      by (auto simp: w)
    let ?q = "futex_at (va2pa t u) sc @ [\<lparr> fw_thread_id = t, fw_mask = msk, fw_timeout = tmo \<rparr>]"
    have "call_rel (tm, sc) (tm', put_futex (va2pa t u) ?q sc)"
      by (rule put_futex_rel [OF inv1 s(2)]) (simp add: s(3) fx_queue_def)
    with f(2) have "call_rel w (tm', put_futex (va2pa t u) ?q sc)" unfolding w by (rule srv_rel_trans)
    then show ?thesis using f(1) s(1) True by (simp add: futexWait_def enqueueWaiter_def w)
  qed
qed

lemma futexWake_step:
  assumes inv: "call_inv w" and t: "on_core (fst w) t"
  shows "\<exists>r w'. futexWake va2pa t u n msk tau w = Inr (r, w') \<and> call_rel w w'"
proof -
  have v: "valid_id (fst w) t" using t by (simp add: on_core_def)
  from findFutex_step [OF inv v, of va2pa u] obtain w1 where
    f: "findFutexByUaddr va2pa u t w = Inr (va2pa t u, w1)" "call_rel w w1" by blast
  note c1 = call_rel_core [OF inv f(2), of t]
  from wake_loop_step [OF wakeFutexOne_wakes, of w1 t] c1 t obtain k w2 where
    l: "wake_loop (int_loop n) (wakeFutexOne (va2pa t u) t msk tau) w1 = Inr (k, w2)" "call_rel w1 w2" by blast
  note c2 = call_rel_core [OF conjunct1 [OF c1] l(2), of t]
  obtain c where "applyRescheduleCost t (0 < k) w2 = Inr c" using cost_step [of w2 t] c1 c2 t by blast
  then show ?thesis using f l by (auto simp: futexWake_def intro: srv_rel_trans)
qed

lemma call_rel_mem:
  assumes "call_inv (tm, sc)"
  shows "call_rel (tm, sc) (tm, sc\<lparr> app_mem := m \<rparr>)"
  using srv_lookup(2) [OF assms, of "sc\<lparr> app_mem := m \<rparr>"] assms by (simp add: srv_inv_def sc_ok_def call_queues_def)

lemma futexWakeOp_step:
  assumes inv: "call_inv w" and t: "on_core (fst w) t" and opr: "futexDoOp opr u2 (snd w) = Inr (ret, sc')"
  shows "\<exists>r w'. futexWakeOp va2pa t u u2 n n2 opr tau w = Inr (r, w') \<and> call_rel w w'"
proof -
  have v: "valid_id (fst w) t" using t by (simp add: on_core_def)
  from findFutex_step [OF inv v, of va2pa u] obtain w1 where
    f1: "findFutexByUaddr va2pa u t w = Inr (va2pa t u, w1)" "call_rel w w1" "fst w1 = fst w" "app_mem (snd w1) = app_mem (snd w)" by blast
  note c1 = call_rel_core [OF inv f1(2), of t]
  from findFutex_step [of w1 t va2pa u2] c1 v f1(3) obtain w2 where
    f2: "findFutexByUaddr va2pa u2 t w1 = Inr (va2pa t u2, w2)" "call_rel w1 w2" "fst w2 = fst w1" "app_mem (snd w2) = app_mem (snd w1)"
    by auto
  note c2 = call_rel_core [OF conjunct1 [OF c1] f2(2), of t]
  obtain m where d: "futexDoOp opr u2 (snd w2) = Inr (ret, (snd w2)\<lparr> app_mem := m \<rparr>)"
    using opr f1(4) f2(4) by (auto simp: futexDoOp_def Let_def res_simps)
  obtain tm2 sc2 where w2: "w2 = (tm2, sc2)" by (cases w2)
  have r3: "call_rel w2 (tm2, sc2\<lparr> app_mem := m \<rparr>)" using call_rel_mem c2 by (simp add: w2)
  note c3 = call_rel_core [OF conjunct1 [OF c2] r3, of t]
  from wake_loop_step [OF wakeFutexOne_wakes, of "(tm2, sc2\<lparr> app_mem := m \<rparr>)" t] c1 c2 c3 t obtain k w4 where
    l1: "wake_loop (int_loop n) (wakeFutexOne (va2pa t u) t FUTEX_BITSET_MATCH_ANY tau) (tm2, sc2\<lparr> app_mem := m \<rparr>) = Inr (k, w4)"
    "call_rel (tm2, sc2\<lparr> app_mem := m \<rparr>) w4" by blast
  note c4 = call_rel_core [OF conjunct1 [OF c3] l1(2), of t]
  obtain k2 w5 where l2: "(if ret then wake_loop (int_loop n2) (wakeFutexOne (va2pa t u2) t FUTEX_BITSET_MATCH_ANY tau) w4
      else Inr (0, w4)) = Inr (k2, w5)" "call_rel w4 w5"
  proof (cases ret)
    case True
    from wake_loop_step [OF wakeFutexOne_wakes, of w4 t "int_loop n2"] c1 c2 c3 c4 t obtain k2 w5 where
      "wake_loop (int_loop n2) (wakeFutexOne (va2pa t u2) t FUTEX_BITSET_MATCH_ANY tau) w4 = Inr (k2, w5)" "call_rel w4 w5"
      by blast
    then show ?thesis using that True by simp
  next
    case False
    then show ?thesis using that [of 0 w4] srv_rel_refl [OF conjunct1 [OF c4]] by simp
  qed
  note c5 = call_rel_core [OF conjunct1 [OF c4] l2(2), of t]
  obtain c where cost: "applyRescheduleCost t (0 < k + k2) w5 = Inr c" using cost_step [of w5 t] c1 c2 c3 c4 c5 t by blast
  have core: "m_core (m_threads tm2 ! nat t) \<noteq> INVALID_CORE_ID" "getThreadFromID t tm2 = Inr (m_threads tm2 ! nat t)"
    using c1 c2 t thread_eq(1) [of tm2 t] by (auto simp: w2 on_core_def INVALID_CORE_ID_def srv_inv_def)
  have "call_rel w w5" using f1(2) f2(2) r3 l1(2) l2(2) by (blast intro: srv_rel_trans)
  then show ?thesis using f1(1) f2(1) d l1(1) l2(1) cost core by (simp add: futexWakeOp_def w2)
qed

text \<open>Requeueing: with two different futexes the loop ends when the first is empty, after as many rounds
  as it has waiters, and they are behind the waiters of the second in their old order.\<close>

lemma requeue_loop_eq:
  assumes "a \<noteq> b" "\<forall>x \<in> set (futex_at a sc). fw_thread_id x \<noteq> INVALID_THREAD_ID" "length (futex_at a sc) < fuel"
  shows "\<exists>sc'. requeue_loop fuel a b sc = Inr sc' \<and> (futex_at a sc \<noteq> [] \<longrightarrow> futex_at a sc' = []) \<and>
    futex_at b sc' = futex_at b sc @ futex_at a sc \<and> (\<forall>c. c \<noteq> a \<and> c \<noteq> b \<longrightarrow> futex_at c sc' = futex_at c sc) \<and>
    (sc_ok sc \<longrightarrow> sc_ok sc' \<and> call_queues sc' = call_queues sc)"
  using assms(2,3)
proof (induction fuel arbitrary: sc)
  case (Suc n)
  show ?case
  proof (cases "futex_at a sc")
    case Nil
    then show ?thesis by (simp add: requeueWaiter_def)
  next
    case (Cons x rest)
    let ?sc1 = "put_futex a rest sc"
    let ?sc2 = "put_futex b (futex_at b ?sc1 @ [x]) ?sc1"
    have fa: "futex_at a ?sc2 = rest" "futex_at b ?sc2 = futex_at b sc @ [x]"
      "\<And>c. c \<noteq> a \<Longrightarrow> c \<noteq> b \<Longrightarrow> futex_at c ?sc2 = futex_at c sc" using assms(1) by auto
    from Suc.IH [of ?sc2] Suc.prems Cons fa obtain sc' where
      s: "requeue_loop n a b ?sc2 = Inr sc'" "rest \<noteq> [] \<longrightarrow> futex_at a sc' = []"
      "futex_at b sc' = (futex_at b sc @ [x]) @ rest" "\<forall>c. c \<noteq> a \<and> c \<noteq> b \<longrightarrow> futex_at c sc' = futex_at c sc"
      "sc_ok ?sc2 \<longrightarrow> sc_ok sc' \<and> call_queues sc' = call_queues ?sc2" by auto
    have "sc_ok ?sc2 \<and> call_queues ?sc2 = call_queues sc" if "sc_ok sc"
    proof -
      note p1 = put_futex_step [OF that, of a rest]
      note p2 = put_futex_step [OF p1(1), of b "futex_at b ?sc1 @ [x]"]
      have "call_queues ?sc2 + fx_queue (futex_at b ?sc1) = call_queues sc + fx_queue (futex_at b ?sc1)"
        using p1(2) p2(2) Cons by (simp add: fx_queue_def)
      then show ?thesis using p2(1) by simp
    qed
    moreover have "futex_at a sc' = []"
    proof (cases rest)
      case Nil
      with s(1) fa(1) Suc.prems Cons have "sc' = ?sc2" by (cases n) (simp_all add: requeueWaiter_def)
      then show ?thesis using fa(1) Nil by simp
    qed (use s(2) in simp)
    ultimately show ?thesis using s Cons Suc.prems(1) by (simp add: requeueWaiter_def Let_def)
  qed
qed simp

text \<open>When both addresses translate to the same futex and a thread waits there, the loop never ends.\<close>

lemma requeue_loop_same:
  assumes "futex_at a sc \<noteq> []" "\<forall>x \<in> set (futex_at a sc). fw_thread_id x \<noteq> INVALID_THREAD_ID"
  shows "requeue_loop fuel a a sc = Inl Out_Of_Fuel"
  using assms
proof (induction fuel arbitrary: sc)
  case (Suc n)
  then obtain x rest where x: "futex_at a sc = x # rest" by (cases "futex_at a sc") auto
  from Suc.IH [of "put_futex a (rest @ [x]) (put_futex a rest sc)"] Suc.prems x show ?case
    by (simp add: requeueWaiter_def Let_def)
qed simp

lemma fx_ids_valid:
  assumes "call_inv (tm, sc)"
  shows "\<forall>x \<in> set (futex_at a sc). fw_thread_id x \<noteq> INVALID_THREAD_ID"
proof
  fix x assume "x \<in> set (futex_at a sc)"
  then have "fw_thread_id x \<in># fx_queue (futex_at a sc)" by (simp add: fx_queue_def)
  then have "fw_thread_id x \<in> stalled tm" using in_sleepers fx_queue_sub [OF assms] by blast
  then show "fw_thread_id x \<noteq> INVALID_THREAD_ID" using in_state_valid not_invalid by metis
qed

lemma wake_loop_shrinks:
  assumes "wake_loop n (cmp_wake_one a t tau) w = Inr (k, w')"
  shows "length (futex_at a (snd w')) \<le> length (futex_at a (snd w))"
  using assms
proof (induction n arbitrary: w k)
  case (Suc n)
  from Suc.prems obtain u w1 where 1: "cmp_wake_one a t tau w = Inr (u, w1)"
    "u = INVALID_THREAD_ID \<and> w' = w1 \<or> (\<exists>k2. wake_loop n (cmp_wake_one a t tau) w1 = Inr (k2, w'))"
    by (auto simp: res_simps split: if_splits)
  have "length (futex_at a (snd w1)) \<le> length (futex_at a (snd w))"
    using 1(1) by (auto simp: cmp_wake_one_def dequeueWaiter_def res_simps split: option.splits dest!: extract_SomeE)
  with 1(2) Suc.IH [of w1] show ?case by fastforce
qed simp

lemma futexCmpRequeue_step:
  assumes inv: "call_inv w" and t: "on_core (fst w) t" and ne: "va2pa t u \<noteq> va2pa t u2"
    and fuel: "length (futex_at (va2pa t u) (snd w)) < fuel"
  shows "\<exists>r w'. futexCmpRequeue fuel va2pa t u val u2 val3 act tau w = Inr (r, w') \<and> call_rel w w'"
proof -
  have v: "valid_id (fst w) t" using t by (simp add: on_core_def)
  from findFutex_step [OF inv v, of va2pa u] obtain w1 where
    f1: "findFutexByUaddr va2pa u t w = Inr (va2pa t u, w1)" "call_rel w w1" "\<forall>a. futex_at a (snd w1) = futex_at a (snd w)" by blast
  show ?thesis
  proof (cases "val3 = act")
    case False
    then show ?thesis using f1 by (simp add: futexCmpRequeue_def)
  next
    case True
    note c1 = call_rel_core [OF inv f1(2), of t]
    from wake_loop_step [OF cmp_wake_one_wakes, of w1 t] c1 t obtain k w2 where
      l: "wake_loop (int_loop val) (cmp_wake_one (va2pa t u) t tau) w1 = Inr (k, w2)" "call_rel w1 w2" by blast
    note c2 = call_rel_core [OF conjunct1 [OF c1] l(2), of t]
    from findFutex_step [of w2 t va2pa u2] c1 c2 t obtain w3 where
      f3: "findFutexByUaddr va2pa u2 t w2 = Inr (va2pa t u2, w3)" "call_rel w2 w3" "\<forall>a. futex_at a (snd w3) = futex_at a (snd w2)"
      by (auto simp: on_core_def)
    obtain tm3 sc3 where w3: "w3 = (tm3, sc3)" by (cases w3)
    have inv3: "call_inv (tm3, sc3)" using f3(2) by (simp add: w3 srv_rel_def)
    have "length (futex_at (va2pa t u) sc3) < fuel"
      using fuel wake_loop_shrinks [OF l(1)] f1(3) f3(3) by (simp add: w3)
    from requeue_loop_eq [OF ne fx_ids_valid [OF inv3] this] obtain sc4 where
      q: "requeue_loop fuel (va2pa t u) (va2pa t u2) sc3 = Inr sc4" "sc_ok sc3 \<longrightarrow> sc_ok sc4 \<and> call_queues sc4 = call_queues sc3"
      by blast
    have "call_rel (tm3, sc3) (tm3, sc4)" using srv_lookup(2) [OF inv3] q(2) inv3 by (simp add: srv_inv_def)
    then have "call_rel w (tm3, sc4)" using f1(2) l(2) f3(2) unfolding w3 by (blast intro: srv_rel_trans)
    then show ?thesis using f1(1) l(1) f3(1) q(1) True by (simp add: futexCmpRequeue_def w3)
  qed
qed

lemma periodic_futex_step:
  assumes inv: "call_inv w"
  shows "\<exists>w'. periodic_futex tau a w = Inr w' \<and> call_rel w w'"
proof -
  obtain tm sc where w: "w = (tm, sc)" by (cases w)
  have "tm_ok tm" using inv by (simp add: w srv_inv_def)
  from timed_out_step [OF this fx_queue_sub [OF inv [unfolded w]], of tau a] obtain q tm' where
    "wakeTimedOut tau (futex_at a sc, tm) = Inr (q, tm')" "same_threads tm tm'"
    "sleepers tm' + fx_queue (futex_at a sc) = sleepers tm + fx_queue q" by blast
  with put_futex_rel [OF inv [unfolded w]] show ?thesis by (simp add: periodic_futex_def w)
qed

lemma wake_sleeper_step:
  assumes inv: "call_inv w"
  shows "\<exists>w'. wake_sleeper tau w = Inr w' \<and> call_rel w w'"
proof -
  obtain tm sc where w: "w = (tm, sc)" by (cases w)
  have ok: "tm_ok tm" "sc_ok sc" "call_queues sc \<subseteq># sleepers tm" using inv by (simp_all add: w srv_inv_def)
  show ?thesis
  proof (cases "List.extract (\<lambda>x. fw_timeout x \<le> tau) (m_sleeping sc)")
    case None
    then show ?thesis using srv_rel_refl [OF inv] by (simp add: wake_sleeper_def w)
  next
    case (Some p)
    obtain ys x zs where p: "p = (ys, x, zs)" by (cases p)
    let ?sc = "sc\<lparr> m_sleeping := ys @ zs \<rparr>"
    have q: "call_queues sc = add_mset (fw_thread_id x) (call_queues ?sc)"
      using extract_queue(1) [OF Some [unfolded p]] by (simp add: call_queues_def)
    have "fw_thread_id x \<in> stalled tm" using in_sleepers [OF _ ok(3)] q by simp
    from resume_step [OF ok(1) this] obtain tm' where
      s: "resumeThread (fw_thread_id x) (fw_thread_id x) tau False tm = Inr tm'" "same_threads tm tm'"
      "add_mset (fw_thread_id x) (sleepers tm') = sleepers tm" by blast
    have "call_rel (tm, sc) (tm', ?sc)"
      by (rule srv_relI [OF inv [unfolded w]]) (use s ok q in \<open>auto simp: sc_ok_def\<close>)
    then show ?thesis using Some p s(1) by (simp add: wake_sleeper_def w)
  qed
qed

lemma futexPeriodic_step:
  assumes inv: "call_inv w"
  shows "\<exists>w'. futexPeriodic tau w = Inr w' \<and> call_rel w w'"
proof -
  from wake_sleeper_step [OF inv, of tau] obtain w1 where w1: "wake_sleeper tau w = Inr w1" "call_rel w w1" by blast
  have "\<exists>w2. fold_r (periodic_futex tau) as w1 = Inr w2 \<and> call_rel w w2" for as
  proof (rule fold_r_ok)
    fix a v assume v: "call_rel w v"
    then have "call_inv v" by (simp add: srv_rel_def)
    with periodic_futex_step [of v tau a] v show "\<exists>v'. periodic_futex tau a v = Inr v' \<and> call_rel w v'"
      by (blast intro: srv_rel_trans)
  qed (rule w1(2))
  then show ?thesis using w1(1) by (simp add: futexPeriodic_def)
qed

section \<open>The whole system\<close>

type_synonym sys = "thread_manager \<times> sync_server \<times> syscall_server"

definition sys_ok :: "sys \<Rightarrow> bool" where
  "sys_ok w \<longleftrightarrow> (case w of (tm, ss, sc) \<Rightarrow> tm_ok tm \<and> ss_ok ss \<and> sc_ok sc \<and>
     sleepers tm = sync_queues ss + call_queues sc + joining tm)"

text \<open>The creation of a thread, its start, the calls of running threads, the periodic timer, and the end
  of a thread. The relation is without a scheduler: a thread starts on the core it was created with and
  keeps it. A thread starts before another joins it (what happens otherwise is \<open>join_before_start\<close> of
  \<open>Sync_Props\<close>). The caller of a futex call has a core, and its two addresses translate to different
  futexes; on the same futex the requeueing would not end.\<close>

definition exit_wake ::
    "(thread_id \<Rightarrow> u64 \<Rightarrow> u64) \<Rightarrow> thread_id \<Rightarrow> u64 \<Rightarrow> time \<Rightarrow> call_sys \<Rightarrow> call_sys res" where
  "exit_wake va2pa t tid_ptr tau w =
     rbind (futexWake va2pa t tid_ptr 1 FUTEX_BITSET_MATCH_ANY tau
              (fst w, (snd w)\<lparr> app_mem := (app_mem (snd w))(tid_ptr := 0) \<rparr>)) (\<lambda>(_, w1). Inr w1)"

inductive sys_step :: "sys \<Rightarrow> sys \<Rightarrow> bool" where
  y_lock: "t \<in> in_state RUNNING tm \<Longrightarrow> mutexLock t mux try tau (tm, ss) = Inr (r, tm', ss') \<Longrightarrow>
    sys_step (tm, ss, sc) (tm', ss', sc)"
| y_unlock: "mutexUnlock t mux tau (tm, ss) = Inr (r, tm', ss') \<Longrightarrow> sys_step (tm, ss, sc) (tm', ss', sc)"
| y_mutex_init: "mutexInit mux (tm, ss) = Inr (tm', ss') \<Longrightarrow> sys_step (tm, ss, sc) (tm', ss', sc)"
| y_cond_init: "condInit cnd (tm, ss) = Inr (tm', ss') \<Longrightarrow> sys_step (tm, ss, sc) (tm', ss', sc)"
| y_wait: "t \<in> in_state RUNNING tm \<Longrightarrow> condWait t cnd mux tau (tm, ss) = Inr (tm', ss') \<Longrightarrow>
    sys_step (tm, ss, sc) (tm', ss', sc)"
| y_signal: "condSignal t cnd tau (tm, ss) = Inr (r, tm', ss') \<Longrightarrow> sys_step (tm, ss, sc) (tm', ss', sc)"
| y_broadcast: "condBroadcast t cnd tau (tm, ss) = Inr (r, tm', ss') \<Longrightarrow> sys_step (tm, ss, sc) (tm', ss', sc)"
| y_barrier_init: "barrierInit n (tm, ss) = (b, tm', ss') \<Longrightarrow> sys_step (tm, ss, sc) (tm', ss', sc)"
| y_barrier: "t \<in> in_state RUNNING tm \<Longrightarrow> barrierWait t b tau (tm, ss) = Inr (r, tm', ss') \<Longrightarrow>
    sys_step (tm, ss, sc) (tm', ss', sc)"
| y_sleep: "t \<in> in_state RUNNING tm \<Longrightarrow> handleSleepCall t wake tau (tm, sc) = Inr (tm', sc') \<Longrightarrow>
    sys_step (tm, ss, sc) (tm', ss, sc')"
| y_futex: "t \<in> in_state RUNNING tm \<Longrightarrow> on_core tm t \<Longrightarrow> va2pa t (fa_uaddr args) \<noteq> va2pa t (fa_uaddr2 args) \<Longrightarrow>
    length (futex_at (va2pa t (fa_uaddr args)) sc) < fuel \<Longrightarrow>
    handleFutexCall fuel va2pa t args tau (tm, sc) = Inr (r, tm', sc') \<Longrightarrow> sys_step (tm, ss, sc) (tm', ss, sc')"
| y_periodic: "futexPeriodic tau (tm, sc) = Inr (tm', sc') \<Longrightarrow> sys_step (tm, ss, sc) (tm', ss, sc')"
| y_join: "t \<in> in_state RUNNING tm \<Longrightarrow> joinThread t u tm = Inr (r, tm') \<Longrightarrow> sys_step (tm, ss, sc) (tm', ss, sc)"
| y_exit: "onThreadExit (exit_wake va2pa) t (tm, sc) = Inr (tm', sc') \<Longrightarrow> sys_step (tm, ss, sc) (tm', ss, sc')"
| y_create: "createThread_unlocked core_id app_id creator tm = Inr (u, tm') \<Longrightarrow> sys_step (tm, ss, sc) (tm', ss, sc)"
| y_start: "u \<in> in_state INITIALIZING tm \<Longrightarrow> on_core tm u \<Longrightarrow> waiter (m_thread_state tm ! nat u) = INVALID_THREAD_ID \<Longrightarrow>
    onThreadStart u tau tm = Inr tm' \<Longrightarrow> sys_step (tm, ss, sc) (tm', ss, sc)"

inductive_cases sys_stepE: "sys_step w w'"

lemma sys_ok_parts:
  assumes "sys_ok (tm, ss, sc)"
  shows "sync_inv (tm, ss)" "call_inv (tm, sc)"
  using assms by (auto simp: sys_ok_def srv_inv_def subset_mset.add_increasing subset_mset.add_increasing2 ac_simps)

lemma sys_ok_sync:
  assumes "sys_ok (tm, ss, sc)" "sync_rel (tm, ss) (tm', ss')"
  shows "sys_ok (tm', ss', sc)"
proof -
  have "sleepers tm' + sync_queues ss = (sync_queues ss' + call_queues sc + joining tm') + sync_queues ss"
    using assms by (simp add: sys_ok_def srv_rel_def same_threads_def ac_simps)
  then have "sleepers tm' = sync_queues ss' + call_queues sc + joining tm'" by simp
  then show ?thesis using assms by (simp add: sys_ok_def srv_rel_def srv_inv_def)
qed

lemma sys_ok_call:
  assumes "sys_ok (tm, ss, sc)" "call_rel (tm, sc) (tm', sc')"
  shows "sys_ok (tm', ss, sc')"
proof -
  have "sleepers tm' + call_queues sc = (sync_queues ss + call_queues sc' + joining tm') + call_queues sc"
    using assms by (simp add: sys_ok_def srv_rel_def same_threads_def ac_simps)
  then have "sleepers tm' = sync_queues ss + call_queues sc' + joining tm'" by simp
  then show ?thesis using assms by (simp add: sys_ok_def srv_rel_def srv_inv_def)
qed

lemma running_awake: "t \<in> in_state RUNNING tm \<Longrightarrow> valid_id tm t \<and> t \<notin> stalled tm"
  by (simp add: in_state_def)

lemma unlock_needs_owner:
  assumes "mutexUnlock t mux tau (tm, ss) = Inr r"
  obtains mx where "map_of (m_mutexes ss) mux = Some mx" "mx_owner mx = t"
  using assms by (auto simp: mutexUnlock_def getMutex_def mx_unlock_def res_simps split: option.splits if_splits)

lemma condWait_needs_owner:
  assumes "condWait t cnd mux tau (tm, ss) = Inr r" "valid_id tm t"
  obtains mx where "map_of (m_mutexes ss) mux = Some mx" "mx_owner mx = t"
proof (cases "map_of (m_mutexes ss) mux")
  case None
  then show ?thesis using assms valid_not_no_owner [OF assms(2)]
    by (auto simp: condWait_def cond_wait_def getMutex_def mx_unlock_def SimMutex_def res_simps)
next
  case (Some mx)
  then have "mx_owner mx = t"
    using assms(1) by (auto simp: condWait_def cond_wait_def getMutex_def mx_unlock_def res_simps split: if_splits)
  with Some that show ?thesis by blast
qed

lemma doOp_mem: "app_mem sc = app_mem sc' \<Longrightarrow> futexDoOp e u sc = Inr (b, x) \<Longrightarrow> \<exists>y. futexDoOp e u sc' = Inr (b, y)"
  by (auto simp: futexDoOp_def Let_def res_simps)

lemma wakeOp_needs_op:
  assumes "futexWakeOp va2pa t u u2 n n2 opr tau w = Inr r" "call_inv w" "valid_id (fst w) t"
  obtains b sc' where "futexDoOp opr u2 (snd w) = Inr (b, sc')"
proof -
  from findFutex_step [OF assms(2,3), of va2pa u] obtain w1 where
    f1: "findFutexByUaddr va2pa u t w = Inr (va2pa t u, w1)" "call_rel w w1" "fst w1 = fst w" "app_mem (snd w1) = app_mem (snd w)" by blast
  have inv1: "call_inv w1" using f1(2) by (simp add: srv_rel_def)
  from findFutex_step [OF inv1, of t va2pa u2] assms(3) f1(3) obtain w2 where
    f2: "findFutexByUaddr va2pa u2 t w1 = Inr (va2pa t u2, w2)" "app_mem (snd w2) = app_mem (snd w1)" by auto
  from assms(1) f1(1) f2(1) obtain b x where "futexDoOp opr u2 (snd w2) = Inr (b, x)"
    by (auto simp: futexWakeOp_def res_simps split: if_splits)
  from doOp_mem [OF _ this, of "snd w"] f1(4) f2(2) that show thesis by auto
qed

lemma handleFutexCall_step:
  assumes inv: "call_inv w" and t: "t \<in> in_state RUNNING (fst w)" "on_core (fst w) t"
    and ne: "va2pa t (fa_uaddr args) \<noteq> va2pa t (fa_uaddr2 args)"
    and fuel: "length (futex_at (va2pa t (fa_uaddr args)) (snd w)) < fuel"
    and r: "handleFutexCall fuel va2pa t args tau w = Inr (r, w')"
  shows "call_rel w w'"
proof -
  have v: "valid_id (fst w) t" "t \<notin> stalled (fst w)" using running_awake [OF t(1)] by simp_all
  let ?cmd = "(fa_op args AND FUTEX_CMD_MASK) AND NOT FUTEX_PRIVATE_FLAG"
  consider (a) val act msk tmo where "futexWait va2pa t (fa_uaddr args) val act msk tau tmo w = Inr (r, w')"
    | (b) n msk where "futexWake va2pa t (fa_uaddr args) n msk tau w = Inr (r, w')"
    | (c) n n2 opr where "futexWakeOp va2pa t (fa_uaddr args) (fa_uaddr2 args) n n2 opr tau w = Inr (r, w')"
    | (d) val val3 act where "futexCmpRequeue fuel va2pa t (fa_uaddr args) val (fa_uaddr2 args) val3 act tau w = Inr (r, w')"
    using r by (auto simp: handleFutexCall_def Let_def res_simps split: if_splits)
  then show ?thesis
  proof cases
    case (a val act msk tmo)
    then show ?thesis using futexWait_step [OF inv v, of va2pa "fa_uaddr args" val act msk tau tmo] by auto
  next
    case (b n msk)
    then show ?thesis using futexWake_step [OF inv t(2), of va2pa "fa_uaddr args" n msk tau] by auto
  next
    case (c n n2 opr)
    obtain x sc' where "futexDoOp opr (fa_uaddr2 args) (snd w) = Inr (x, sc')" by (rule wakeOp_needs_op [OF c inv v(1)])
    from futexWakeOp_step [OF inv t(2) this, of va2pa "fa_uaddr args" n n2 tau] c show ?thesis by auto
  next
    case (d val val3 act)
    then show ?thesis using futexCmpRequeue_step [where w = w and t = t and va2pa = va2pa and u = "fa_uaddr args",
        OF inv t(2) ne fuel, of val val3 act tau] by auto
  qed
qed

end
