(* ===== verification/Sync_Props.thy ===== *)
theory Sync_Props
  imports Futex_System
begin

text \<open>
  Join and exit, runs of the whole system, and the properties of synchronisation.
\<close>

unbundle bit_operations_syntax

section \<open>Join and exit\<close>

text \<open>Writing the waiter of a thread changes who joins and nothing else.\<close>

lemma joining_update:
  assumes "valid_id tm u" "m_thread_state tm' = (m_thread_state tm)[nat u := s]"
    "status s = status (m_thread_state tm ! nat u)"
  shows "sleepers tm' = sleepers tm" "valid_id tm' = valid_id tm"
    and "joining tm' + (if waiter (m_thread_state tm ! nat u) = INVALID_THREAD_ID then {#} else {# waiter (m_thread_state tm ! nat u) #}) =
      joining tm + (if waiter s = INVALID_THREAD_ID then {#} else {# waiter s #})"
proof -
  have i: "nat u < length (m_thread_state tm)" using assms(1) by (simp add: valid_id_def)
  have "u \<in> stalled tm \<longleftrightarrow> status s = STALLED" using assms(1,3) by (simp add: in_state_def)
  then show "sleepers tm' = sleepers tm"
    using in_state_update(1) [OF assms(1,2), of STALLED] by (auto simp: sleepers_def insert_absorb)
  show "valid_id tm' = valid_id tm" by (rule in_state_update(2) [OF assms(1,2)])
  let ?l = "map waiter (m_thread_state tm)" and ?w = "waiter (m_thread_state tm ! nat u)"
  have "mset (map waiter (m_thread_state tm')) + {# ?w #} = mset ?l + {# waiter s #}"
    using mset_update [of "nat u" ?l "waiter s"] i by (simp add: assms(2) map_update del: mset_map)
  then have "filter_mset (\<lambda>t. t \<noteq> INVALID_THREAD_ID) (mset (map waiter (m_thread_state tm')) + {# ?w #}) =
      filter_mset (\<lambda>t. t \<noteq> INVALID_THREAD_ID) (mset ?l + {# waiter s #})" by (simp only:)
  then show "joining tm' + (if ?w = INVALID_THREAD_ID then {#} else {# ?w #}) =
      joining tm + (if waiter s = INVALID_THREAD_ID then {#} else {# waiter s #})"
    by (simp add: joining_def del: mset_map split: if_splits)
qed

lemma join_step:
  assumes ok: "sys_ok (tm, ss, sc)" and t: "t \<in> in_state RUNNING tm" and r: "joinThread t u tm = Inr (b, tm')"
  shows "sys_ok (tm', ss, sc)"
proof (cases b)
  case False
  then have "tm' = tm" using r by (auto simp: joinThread_def res_simps split: if_splits)
  with ok show ?thesis by simp
next
  case True
  have v: "valid_id tm t" "t \<notin> stalled tm" using running_awake [OF t] by simp_all
  let ?tm1 = "tm\<lparr> m_thread_state := (m_thread_state tm)[nat u := (m_thread_state tm ! nat u)\<lparr> waiter := t \<rparr>] \<rparr>"
  from r True obtain tau where j: "valid_id tm u" "waiter (m_thread_state tm ! nat u) = INVALID_THREAD_ID"
    "stallThread t STALL_JOIN tau ?tm1 = Inr tm'"
    by (auto simp: joinThread_def at_id_def upd_state_def upd_id_def valid_id_def res_simps split: if_splits)
  have "t \<noteq> INVALID_THREAD_ID" using v(1) not_invalid by metis
  with joining_update [OF j(1), of ?tm1] j(2) have u: "sleepers ?tm1 = sleepers tm" "valid_id ?tm1 = valid_id tm"
    "joining ?tm1 = add_mset t (joining tm)" by simp_all
  have ok1: "tm_ok ?tm1" using ok by (simp add: sys_ok_def tm_ok_def)
  have "t \<notin># sleepers ?tm1" using u(1) v(2) by (simp add: sleepers_def)
  then have "t \<notin> stalled ?tm1" by (simp add: sleepers_def)
  from stall_step [OF ok1 _ this, of STALL_JOIN tau] u(2) v(1) j(3)
  have "same_threads ?tm1 tm'" "sleepers tm' = add_mset t (sleepers ?tm1)" by auto
  then show ?thesis using ok u by (simp add: sys_ok_def same_threads_def)
qed

text \<open>The threads are not touched by changes of cores and hooks.\<close>

lemma core_ops_keep:
  "core_setState c st tm = Inr tm' \<Longrightarrow> m_thread_state tm' = m_thread_state tm \<and> m_threads tm' = m_threads tm"
  "setCore t c tm = Inr tm' \<Longrightarrow> m_thread_state tm' = m_thread_state tm \<and> length (m_threads tm') = length (m_threads tm)"
  by (auto simp: core_setState_def setCore_def upd_core_def upd_thread_def upd_id_def res_simps split: if_splits)

lemma sys_ok_cong:
  assumes "m_thread_state tm' = m_thread_state tm" "length (m_threads tm') = length (m_threads tm)"
  shows "sys_ok (tm', ss, sc) = sys_ok (tm, ss, sc)"
  using assms in_state_cong(1) [OF assms(1)] by (simp add: sys_ok_def tm_ok_def sleepers_def joining_def)

lemma wakeUpWaiter_step:
  assumes ok: "sys_ok (tm, ss, sc)" and v: "valid_id tm t" and core: "on_core tm t"
  shows "\<exists>tm'. wakeUpWaiter t tau tm = Inr tm' \<and> sys_ok (tm', ss, sc) \<and> on_core tm' t"
proof (cases "waiter (m_thread_state tm ! nat t) = INVALID_THREAD_ID")
  case True
  then show ?thesis using ok v core by (simp add: wakeUpWaiter_def at_id_def valid_id_def)
next
  case False
  let ?w = "waiter (m_thread_state tm ! nat t)"
  have i: "nat t < length (m_thread_state tm)" using v by (simp add: valid_id_def)
  have tm: "tm_ok tm" "sleepers tm = sync_queues ss + call_queues sc + joining tm" using ok by (simp_all add: sys_ok_def)
  have "?w \<in># joining tm" using False i by (auto simp: joining_def intro!: image_eqI)
  then have "?w \<in># sleepers tm" by (simp add: tm(2))
  then have "?w \<in> stalled tm" by (simp add: sleepers_def)
  from resume_step [OF tm(1) this, of t tau False] obtain tm1 where
    1: "resumeThread ?w t tau False tm = Inr tm1" "same_threads tm tm1" "add_mset ?w (sleepers tm1) = sleepers tm" by blast
  have wv: "valid_id tm ?w" by (rule in_state_valid [OF \<open>?w \<in> stalled tm\<close>])
  have v1: "valid_id tm1 t" using v 1(2) by (simp add: same_threads_def)
  have w1: "waiter (m_thread_state tm1 ! nat t) = ?w"
    using 1(1) [unfolded resumeThread_eq [OF tm(1) wv]] i wv by (auto simp: nth_list_update valid_id_def)
  let ?tm2 = "tm1\<lparr> m_thread_state := (m_thread_state tm1)[nat t := (m_thread_state tm1 ! nat t)\<lparr> waiter := INVALID_THREAD_ID \<rparr>] \<rparr>"
  note u = joining_update [OF v1, of ?tm2 "(m_thread_state tm1 ! nat t)\<lparr> waiter := INVALID_THREAD_ID \<rparr>"]
  have "add_mset ?w (joining ?tm2) = joining tm" using u(3) w1 False 1(2) by (simp add: same_threads_def)
  then have "add_mset ?w (sleepers ?tm2) = add_mset ?w (sync_queues ss + call_queues sc + joining ?tm2)"
    using u(1) 1(3) tm(2) by simp
  then have "sys_ok (?tm2, ss, sc)" using ok 1(2) by (simp add: sys_ok_def same_threads_def tm_ok_def)
  moreover have "on_core ?tm2 t"
    using on_core_same [OF 1(2) tm(1), of t] core u(2) by (simp add: on_core_def)
  moreover have "wakeUpWaiter t tau tm = Inr ?tm2"
    using 1(1) False v upd_state_eq [OF v1] by (simp add: wakeUpWaiter_def at_id_def valid_id_def)
  ultimately show ?thesis by blast
qed

lemma exit_step:
  assumes ok: "sys_ok (tm, ss, sc)" and r: "onThreadExit (exit_wake va2pa) t (tm, sc) = Inr (tm', sc')"
  shows "sys_ok (tm', ss, sc')"
proof -
  let ?s = "m_thread_state tm ! nat t" and ?th = "m_threads tm ! nat t"
  let ?tm1 = "tm\<lparr> m_thread_state := (m_thread_state tm)[nat t := ?s\<lparr> status := IDLE \<rparr>] \<rparr>"
  have a: "valid_id tm t" "getThreadFromID t tm = Inr ?th" "m_core ?th \<noteq> INVALID_CORE_ID"
    using r by (auto simp: onThreadExit_def onThreadExit_begin_def onThreadExit_end_def valid_id_def getThreadFromID_def split: if_splits)
  then have st: "at_id (m_thread_state tm) t = Inr ?s" by (simp add: at_id_def valid_id_def)
  obtain c where c: "at_id (m_cores tm) (m_core ?th) = Inr c" "status ?s = RUNNING"
    using r a st by (cases "at_id (m_cores tm) (m_core ?th)")
      (auto simp: onThreadExit_def onThreadExit_begin_def onThreadExit_end_def valid_id_def split: if_splits)
  from r a c st upd_state_eq [OF a(1), of "\<lambda>s. s\<lparr> status := IDLE \<rparr>"]
  have "rbind (wakeUpWaiter t (elapsed_time c) ?tm1) (\<lambda>tm2.
      rbind (if os_clear_tid ?th then exit_wake va2pa t (os_tid_ptr ?th) (elapsed_time c) (tm2, sc) else Inr (tm2, sc)) (\<lambda>w3.
      rbind (core_setState (m_core ?th) IDLE (fst w3)) (\<lambda>tm4.
      rbind (setCore t INVALID_CORE_ID tm4) (\<lambda>tm5.
      Inr (callHooks (HOOK_THREAD_EXIT t (elapsed_time c)) tm5, snd w3))))) = Inr (tm', sc')"
    by (simp add: onThreadExit_def onThreadExit_begin_def onThreadExit_end_def valid_id_def rbind_assoc cong: if_cong)
  then obtain tm2 w3 tm4 tm5 where e: "wakeUpWaiter t (elapsed_time c) ?tm1 = Inr tm2"
    "(if os_clear_tid ?th then exit_wake va2pa t (os_tid_ptr ?th) (elapsed_time c) (tm2, sc) else Inr (tm2, sc)) = Inr w3"
    "core_setState (m_core ?th) IDLE (fst w3) = Inr tm4" "setCore t INVALID_CORE_ID tm4 = Inr tm5"
    "callHooks (HOOK_THREAD_EXIT t (elapsed_time c)) tm5 = tm'" "snd w3 = sc'"
    unfolding rbind_eq_Inr by (elim exE conjE) (simp only: sum.inject prod.inject)
  have "sleepers ?tm1 = sleepers tm"
    using in_state_update(1) [OF a(1), of ?tm1 _ STALLED] c(2) by (auto simp: sleepers_def in_state_def)
  moreover have "joining ?tm1 = joining tm"
    by (rule joining_cong) (use a(1) in \<open>simp add: map_update_same valid_id_def\<close>)
  ultimately have ok1: "sys_ok (?tm1, ss, sc)" using ok by (simp add: sys_ok_def tm_ok_def)
  have v1: "valid_id ?tm1 t" "on_core ?tm1 t" using a(1) c(1) by (auto simp: valid_id_def on_core_def at_id_def split: if_splits)
  from wakeUpWaiter_step [OF ok1 v1, of "elapsed_time c"] e(1) have 2: "sys_ok (tm2, ss, sc)" "on_core tm2 t" by auto
  have "sys_ok (fst w3, ss, snd w3)"
  proof (cases "os_clear_tid ?th")
    case False
    then show ?thesis using e(2) 2(1) by auto
  next
    case True
    let ?sc = "sc\<lparr> app_mem := (app_mem sc)(os_tid_ptr ?th := 0) \<rparr>"
    have "sys_ok (tm2, ss, ?sc)" by (rule sys_ok_call [OF 2(1) call_rel_mem [OF sys_ok_parts(2) [OF 2(1)]]])
    moreover from e(2) True obtain x where
      "futexWake va2pa t (os_tid_ptr ?th) 1 FUTEX_BITSET_MATCH_ANY (elapsed_time c) (tm2, ?sc) = Inr (x, w3)"
      by (auto simp: exit_wake_def res_simps)
    ultimately show ?thesis
      using futexWake_step [OF sys_ok_parts(2), of tm2 ss ?sc t va2pa "os_tid_ptr ?th" 1 FUTEX_BITSET_MATCH_ANY "elapsed_time c"] 2(2)
      by (cases w3) (auto intro: sys_ok_call)
  qed
  then have "sys_ok (tm4, ss, snd w3)" using core_ops_keep(1) [OF e(3)] sys_ok_cong by metis
  then have "sys_ok (tm5, ss, snd w3)" using core_ops_keep(2) [OF e(4)] sys_ok_cong by metis
  then show ?thesis using e(5,6) sys_ok_cong [of tm' tm5 ss sc'] by (auto simp: callHooks_def)
qed

text \<open>A new thread, and the start of a thread that has a core.\<close>

lemma create_step:
  assumes ok: "sys_ok (tm, ss, sc)" and r: "createThread_unlocked c app_id creator tm = Inr (u, tm')"
  shows "sys_ok (tm', ss, sc)"
proof -
  let ?s = "\<lparr> status = INITIALIZING, stalled_reason = STALL_UNSCHEDULED, waiter = INVALID_THREAD_ID \<rparr>"
  have len: "length (m_threads tm) = length (m_thread_state tm)" using ok by (simp add: sys_ok_def tm_ok_def)
  have f: "m_thread_state tm' = m_thread_state tm @ [?s]" "length (m_threads tm') = Suc (length (m_threads tm))"
    using r len by (auto simp: createThread_unlocked_def upd_state_def upd_id_def Let_def callHooks_def res_simps
        dest!: core_ops_keep split: if_splits)
  have "t \<in> stalled tm' \<longleftrightarrow> t \<in> stalled tm" for t
    by (auto simp: in_state_def valid_id_def f(1) nth_append less_Suc_eq)
  then have "sleepers tm' = sleepers tm" unfolding sleepers_def by (metis subsetI subset_antisym)
  moreover have "joining tm' = joining tm" by (simp add: joining_def f(1))
  ultimately show ?thesis using ok len f by (simp add: sys_ok_def tm_ok_def)
qed

lemma start_end:
  assumes len: "length (m_threads tm) = length (m_thread_state tm)" and v: "valid_id tm u"
    and c: "m_core (m_threads tm ! nat u) \<noteq> INVALID_CORE_ID" and w: "waiter (m_thread_state tm ! nat u) = INVALID_THREAD_ID"
    and r: "onThreadStart_end u tau tm = Inr tm'"
  shows "m_thread_state tm' = (m_thread_state tm)[nat u := (m_thread_state tm ! nat u)\<lparr> status := RUNNING \<rparr>] \<and>
    length (m_threads tm') = length (m_threads tm)"
proof -
  let ?s = "(m_thread_state tm ! nat u)\<lparr> status := RUNNING \<rparr>"
  have th: "getThreadFromID u tm = Inr (m_threads tm ! nat u)" using len v by (simp add: getThreadFromID_def valid_id_def)
  from r c obtain tm3 where 3: "core_setState (m_core (m_threads tm ! nat u)) RUNNING tm = Inr tm3"
    unfolding onThreadStart_end_def th by (cases "core_setState (m_core (m_threads tm ! nat u)) RUNNING tm") simp_all
  note k = core_ops_keep(1) [OF 3]
  have v3: "valid_id tm3 u" using k v by (simp add: valid_id_def)
  have at: "at_id ((m_thread_state tm3)[nat u := ?s]) u = Inr ?s" using v3 by (simp add: at_id_def valid_id_def)
  from r c have "tm'\<lparr> hooks_called := hooks_called tm3 \<rparr> = tm3\<lparr> m_thread_state := (m_thread_state tm3)[nat u := ?s] \<rparr>"
    unfolding onThreadStart_end_def th rbind_Inr 3
    using upd_state_eq [OF v3, of "\<lambda>s. s\<lparr> status := RUNNING \<rparr>"] k at w
    by (cases "at_id (m_cores tm3) (m_core (m_threads tm ! nat u))") (auto simp: Let_def callHooks_def)
  then have "m_thread_state (tm'\<lparr> hooks_called := hooks_called tm3 \<rparr>) = (m_thread_state tm3)[nat u := ?s]"
    "m_threads (tm'\<lparr> hooks_called := hooks_called tm3 \<rparr>) = m_threads tm3" by simp_all
  then show ?thesis using k by simp
qed

lemma start_step:
  assumes ok: "sys_ok (tm, ss, sc)" and u: "u \<in> in_state INITIALIZING tm" "on_core tm u"
      "waiter (m_thread_state tm ! nat u) = INVALID_THREAD_ID"
    and r: "onThreadStart u tau tm = Inr tm'"
  shows "sys_ok (tm', ss, sc) \<and> u \<in> in_state RUNNING tm'"
proof -
  let ?s = "(m_thread_state tm ! nat u)\<lparr> status := RUNNING \<rparr>"
  have v: "valid_id tm u" by (rule in_state_valid [OF u(1)])
  have len: "length (m_threads tm) = length (m_thread_state tm)" using ok by (simp add: sys_ok_def tm_ok_def)
  let ?tm1 = "callHooks (HOOK_THREAD_START u tau) (tm\<lparr> m_thread_state := (m_thread_state tm)[nat u := ?s] \<rparr>)"
  have b: "onThreadStart_begin u tau tm = Inr ?tm1"
    using upd_state_eq [OF v] len v by (simp add: onThreadStart_begin_def getThreadFromID_def valid_id_def)
  have "onThreadStart_end u tau ?tm1 = Inr tm'" using r by (simp add: onThreadStart_def b)
  from start_end [OF _ _ _ _ this] len v u(2,3)
  have f: "m_thread_state tm' = (m_thread_state tm)[nat u := ?s]" "length (m_threads tm') = length (m_threads tm)"
    by (simp_all add: callHooks_def valid_id_def on_core_def INVALID_CORE_ID_def)
  have "u \<notin> stalled tm" using u(1) by (simp add: in_state_def)
  then have "sleepers tm' = sleepers tm" using in_state_update(1) [OF v f(1), of STALLED] by (simp add: sleepers_def)
  moreover have "joining tm' = joining tm"
    by (rule joining_cong) (use v in \<open>simp add: f(1) map_update_same valid_id_def\<close>)
  ultimately show ?thesis using ok len f in_state_update(1) [OF v f(1), of RUNNING] by (simp add: sys_ok_def tm_ok_def)
qed

section \<open>Runs\<close>

lemma init_steps:
  "sync_inv (tm, ss) \<Longrightarrow> mutexInit mux (tm, ss) = Inr w' \<Longrightarrow> sync_rel (tm, ss) w'"
  "sync_inv (tm, ss) \<Longrightarrow> condInit cnd (tm, ss) = Inr w' \<Longrightarrow> sync_rel (tm, ss) w'"
  "sync_inv (tm, ss) \<Longrightarrow> barrierInit n (tm, ss) = (b, w') \<Longrightarrow> sync_rel (tm, ss) w'"
proof -
  assume inv: "sync_inv (tm, ss)"
  then have ok: "ss_ok ss" by (simp add: srv_inv_def)
  from getMutex_step [OF ok, of mux] srv_lookup(2) [OF inv]
  show "mutexInit mux (tm, ss) = Inr w' \<Longrightarrow> sync_rel (tm, ss) w'" by (auto simp: mutexInit_def)
  from getCond_step [OF ok, of cnd] srv_lookup(2) [OF inv]
  show "condInit cnd (tm, ss) = Inr w' \<Longrightarrow> sync_rel (tm, ss) w'" by (auto simp: condInit_def)
  have "ss_ok (ss\<lparr> m_barriers := m_barriers ss @ [SimBarrier n] \<rparr>)"
    using ok ss_ok_cong [of "ss\<lparr> m_barriers := m_barriers ss @ [SimBarrier n] \<rparr>" ss] by simp
  then show "barrierInit n (tm, ss) = (b, w') \<Longrightarrow> sync_rel (tm, ss) w'"
    using srv_lookup(2) [OF inv] by (auto simp: barrierInit_def Let_def sync_queues_def br_queue_def SimBarrier_def)
qed

lemma sys_step_ok: "sys_step w w' \<Longrightarrow> sys_ok w \<Longrightarrow> sys_ok w'"
proof (induction rule: sys_step.induct)
  case (y_lock t tm mux tryl tau ss r tm' ss' sc)
  note v = running_awake [OF y_lock.hyps(1)]
  from mutexLock_step [OF sys_ok_parts(1) [OF y_lock.prems], of t mux tryl tau] v y_lock.hyps(2)
  show ?case by (auto intro: sys_ok_sync [OF y_lock.prems])
next
  case (y_unlock t mux tau tm ss r tm' ss' sc)
  obtain mx where "map_of (m_mutexes ss) mux = Some mx" "mx_owner mx = t" by (rule unlock_needs_owner [OF y_unlock.hyps])
  with mutexUnlock_step [OF sys_ok_parts(1) [OF y_unlock.prems], of mux mx t tau] y_unlock.hyps
  show ?case by (auto intro: sys_ok_sync [OF y_unlock.prems])
next
  case (y_wait t tm cnd mux tau ss tm' ss' sc)
  note v = running_awake [OF y_wait.hyps(1)]
  obtain mx where "map_of (m_mutexes ss) mux = Some mx" "mx_owner mx = t"
    by (rule condWait_needs_owner [OF y_wait.hyps(2) conjunct1 [OF v]])
  with condWait_step [OF sys_ok_parts(1) [OF y_wait.prems], of t mux mx cnd tau] v y_wait.hyps(2)
  show ?case by (auto intro: sys_ok_sync [OF y_wait.prems])
next
  case (y_signal t cnd tau tm ss r tm' ss' sc)
  with condSignal_step [OF sys_ok_parts(1) [OF y_signal.prems], of t cnd tau]
  show ?case by (auto intro: sys_ok_sync [OF y_signal.prems])
next
  case (y_broadcast t cnd tau tm ss r tm' ss' sc)
  with condBroadcast_step [OF sys_ok_parts(1) [OF y_broadcast.prems], of t cnd tau]
  show ?case by (auto intro: sys_ok_sync [OF y_broadcast.prems])
next
  case (y_barrier t tm b tau ss r tm' ss' sc)
  note v = running_awake [OF y_barrier.hyps(1)]
  have "b < length (m_barriers ss)" using y_barrier.hyps(2) by (auto simp: barrierWait_def nth_r_def res_simps split: if_splits)
  with barrierWait_step [OF sys_ok_parts(1) [OF y_barrier.prems], of t b tau] v y_barrier.hyps(2)
  show ?case by (auto intro: sys_ok_sync [OF y_barrier.prems])
next
  case (y_sleep t tm wake tau sc tm' sc' ss)
  note v = running_awake [OF y_sleep.hyps(1)]
  from handleSleepCall_step [OF sys_ok_parts(2) [OF y_sleep.prems], of t wake tau] v y_sleep.hyps(2)
  show ?case by (auto intro: sys_ok_call [OF y_sleep.prems])
next
  case (y_futex t tm va2pa args sc fuel tau r tm' sc' ss)
  from handleFutexCall_step [OF sys_ok_parts(2) [OF y_futex.prems], of t va2pa args fuel tau r "(tm', sc')"] y_futex.hyps
  show ?case by (auto intro: sys_ok_call [OF y_futex.prems])
next
  case (y_periodic tau tm sc tm' sc' ss)
  with futexPeriodic_step [OF sys_ok_parts(2) [OF y_periodic.prems], of tau]
  show ?case by (auto intro: sys_ok_call [OF y_periodic.prems])
next
  case (y_join t tm u r tm' ss sc)
  then show ?case by (blast intro: join_step)
next
  case (y_exit va2pa t tm sc tm' sc' ss)
  then show ?case by (blast intro: exit_step)
next
  case (y_mutex_init mux tm ss tm' ss' sc)
  then show ?case using init_steps(1) sys_ok_parts(1) sys_ok_sync by blast
next
  case (y_cond_init cnd tm ss tm' ss' sc)
  then show ?case using init_steps(2) sys_ok_parts(1) sys_ok_sync by blast
next
  case (y_barrier_init n tm ss b tm' ss' sc)
  then show ?case using init_steps(3) sys_ok_parts(1) sys_ok_sync by blast
next
  case (y_create core_id app_id creator tm u tm' ss sc)
  then show ?case by (blast intro: create_step)
next
  case (y_start u tm tau tm' ss sc)
  then show ?case using start_step by blast
qed

lemma sys_run_ok: "sys_step\<^sup>*\<^sup>* w w' \<Longrightarrow> sys_ok w \<Longrightarrow> sys_ok w'"
  by (induction rule: rtranclp_induct) (auto intro: sys_step_ok)

section \<open>Example\<close>

text \<open>Three threads on three cores, nothing created yet.\<close>

definition ex_tm :: thread_manager where
  "ex_tm = \<lparr> m_thread_state = replicate 3 \<lparr> status = RUNNING, stalled_reason = STALL_UNSCHEDULED, waiter = INVALID_THREAD_ID \<rparr>,
     m_threads = map (\<lambda>i. \<lparr> m_app_id = 0, m_wakeup_time = 0, m_wakeup_msg = False, m_core = i, os_tid = i,
       os_tid_ptr = 0, os_clear_tid = False \<rparr>) [0, 1, 2],
     m_thread_spawn_list = [],
     m_cores = map (\<lambda>i. \<lparr> m_core_state = RUNNING, core_thread = i, elapsed_time = 100, m_instructions = 7 \<rparr>) [0, 1, 2],
     hooks_called = [] \<rparr>"

definition ex_ss :: sync_server where
  "ex_ss = \<lparr> m_mutexes = [], m_conds = [], m_barriers = [], m_reschedule_cost = 10 \<rparr>"

definition ex_sc :: syscall_server where
  "ex_sc = \<lparr> sc_reschedule_cost = 10, m_sleeping = [], m_futexes = [], app_mem = (\<lambda>_. 0), os_time_start = 0 \<rparr>"

lemma ex_states: "in_state st ex_tm = (if st = RUNNING then {0, 1, 2} else {})"
proof -
  have "valid_id ex_tm t \<longleftrightarrow> t \<in> {0, 1, 2}" for t by (auto simp: valid_id_def ex_tm_def)
  moreover have "t \<in> {0, 1, 2} \<Longrightarrow> status (m_thread_state ex_tm ! nat t) = RUNNING" for t by (auto simp: ex_tm_def)
  ultimately show ?thesis by (auto simp: in_state_def)
qed

lemma ex_sys_ok: "sys_ok (ex_tm, ex_ss, ex_sc)"
  by (simp add: sys_ok_def sleepers_def ex_states)
    (simp add: tm_ok_def ss_ok_def sc_ok_def sync_queues_def call_queues_def joining_def fx_queue_def ex_tm_def ex_ss_def ex_sc_def
      numeral_eq_Suc)

text \<open>Thread 0 takes a mutex, thread 1 waits for it.\<close>

definition ex_locked :: "sync_sys" where
  "ex_locked = (case mutexLock 0 0x10 False 100 (ex_tm, ex_ss) of
     Inr (_, w) \<Rightarrow> (case mutexLock 1 0x10 False 120 w of Inr (_, w2) \<Rightarrow> w2 | Inl _ \<Rightarrow> w) | Inl _ \<Rightarrow> (ex_tm, ex_ss))"

lemma ex_locked_eq:
  "mutexLock 0 0x10 False 100 (ex_tm, ex_ss) = Inr (Some (110, True), ex_tm, put_mutex 0x10 \<lparr> mx_waiting = [], mx_owner = 0 \<rparr> ex_ss)"
  "mutexLock 1 0x10 False 120 (ex_tm, put_mutex 0x10 \<lparr> mx_waiting = [], mx_owner = 0 \<rparr> ex_ss) = Inr (None, ex_locked)"
  "map_of (m_mutexes (snd ex_locked)) 0x10 = Some \<lparr> mx_waiting = [1], mx_owner = 0 \<rparr>"
  "map status (m_thread_state (fst ex_locked)) = [RUNNING, STALLED, RUNNING]"
  by (simp_all add: ex_locked_def mutexLock_def getMutex_def ex_ss_def SimMutex_def mx_lock_def NO_OWNER_def put_mutex_def
      stallThread_def stallThread_async_def upd_state_def upd_id_def callHooks_def wait_begin_def getThreadFromID_def upd_thread_def
      ex_tm_def numeral_eq_Suc)

lemma ex_locked_step: "sys_step\<^sup>*\<^sup>* (ex_tm, ex_ss, ex_sc) (fst ex_locked, snd ex_locked, ex_sc)"
proof -
  let ?ss = "put_mutex 0x10 \<lparr> mx_waiting = [], mx_owner = 0 \<rparr> ex_ss"
  have "sys_step (ex_tm, ex_ss, ex_sc) (ex_tm, ?ss, ex_sc)"
    by (rule y_lock [OF _ ex_locked_eq(1)]) (simp add: ex_states)
  moreover have "sys_step (ex_tm, ?ss, ex_sc) (fst ex_locked, snd ex_locked, ex_sc)"
    by (rule y_lock [of 1 _ "0x10" False 120]) (simp_all add: ex_states ex_locked_eq(2))
  ultimately show ?thesis by (meson converse_rtranclp_into_rtranclp rtranclp.rtrancl_refl)
qed

lemma ex_locked_ok: "sys_ok (fst ex_locked, snd ex_locked, ex_sc)" "t \<in> {0, 2} \<Longrightarrow> t \<in> in_state RUNNING (fst ex_locked)"
proof -
  show "sys_ok (fst ex_locked, snd ex_locked, ex_sc)" by (rule sys_run_ok [OF ex_locked_step ex_sys_ok])
  have l: "length (m_thread_state (fst ex_locked)) = 3" using arg_cong [OF ex_locked_eq(4), of length] by simp
  then show "t \<in> {0, 2} \<Longrightarrow> t \<in> in_state RUNNING (fst ex_locked)"
    using arg_cong [OF ex_locked_eq(4), of "\<lambda>l. l ! 0"] arg_cong [OF ex_locked_eq(4), of "\<lambda>l. l ! 2"]
    by (auto simp: in_state_def valid_id_def)
qed

text \<open>One unlock with waiters.\<close>

lemma handover:
  assumes inv: "sync_inv (tm, ss)" and mx: "map_of (m_mutexes ss) mux = Some \<lparr> mx_waiting = u # us, mx_owner = t \<rparr>"
  shows "\<exists>r tm' ss'. mutexUnlock t mux tau (tm, ss) = Inr (r, tm', ss') \<and> sync_inv (tm', ss') \<and>
    map_of (m_mutexes ss') mux = Some \<lparr> mx_waiting = us, mx_owner = u \<rparr> \<and> u \<in> in_state RUNNING tm'"
proof -
  have ok: "tm_ok tm" using inv by (simp add: srv_inv_def)
  have "u \<in> stalled tm" using in_sleepers [OF _ mx_queue_sub [OF inv mx]] by (simp add: mx_queue_def)
  then have v: "valid_id tm u" by (rule in_state_valid)
  note eq = resumeThread_eq [OF ok v, of t "tau + m_reschedule_cost ss" False]
  from mutexUnlock_step [OF inv, of mux _ t tau] mx obtain r w' where
    r: "mutexUnlock t mux tau (tm, ss) = Inr (r, w')" "sync_rel (tm, ss) w'" by auto
  have "\<exists>tm' ss'. w' = (tm', ss') \<and> resumeThread u t (tau + m_reschedule_cost ss) False tm = Inr tm' \<and>
      ss' = put_mutex mux \<lparr> mx_waiting = us, mx_owner = u \<rparr> ss"
    using r(1) mx by (auto simp: mutexUnlock_def getMutex_def mx_unlock_def res_simps)
  then obtain tm' ss' where w': "w' = (tm', ss')" "resumeThread u t (tau + m_reschedule_cost ss) False tm = Inr tm'"
    "ss' = put_mutex mux \<lparr> mx_waiting = us, mx_owner = u \<rparr> ss" by blast
  have "u \<in> in_state RUNNING tm'"
    using in_state_update(1) [OF v, of tm' _ RUNNING] w'(2) by (auto simp: eq)
  then show ?thesis using r w' by (auto simp: srv_rel_def put_mutex_def update_conv')
qed

section \<open>Properties\<close>

text \<open>C5: no wake-up is lost and none is given twice. From any consistent state, whatever sequence of
  thread creations, starts on a core, mutex, condition variable, barrier, sleep, futex, join and exit
  operations and timer ticks the servers perform, the stalled threads are exactly the threads in the
  queues of the servers, each in one place of one queue; and a mutex without an owner has no waiters.
  The runs are those without a scheduler that takes cores away (a thread that starts without a core is
  stalled in no queue), in which a thread is joined only after it has started, and in which the two
  addresses of a futex call translate to different futexes.\<close>

theorem no_lost_wakeup:
  assumes ok: "sys_ok w" and run: "sys_step\<^sup>*\<^sup>* w (tm, ss, sc)"
  shows "mset_set (in_state STALLED tm) = sync_queues ss + call_queues sc + joining tm \<and>
    (\<forall>mux mx. map_of (m_mutexes ss) mux = Some mx \<and> mx_owner mx = NO_OWNER \<longrightarrow> mx_waiting mx = [])"
proof -
  have "sys_ok (tm, ss, sc)" by (rule sys_run_ok [OF run ok])
  then have "sleepers tm = sync_queues ss + call_queues sc + joining tm" "ss_ok ss" by (simp_all add: sys_ok_def)
  then show ?thesis unfolding sleepers_def ss_ok_def mx_ok_def by blast
qed

theorem no_lost_wakeup_witness:
  "mset_set (in_state STALLED (fst ex_locked)) = sync_queues (snd ex_locked) + call_queues ex_sc + joining (fst ex_locked)"
  using no_lost_wakeup [OF ex_sys_ok ex_locked_step] by simp

text \<open>C26: which calls of a running thread can abort the simulation in such a state. Locking, signalling,
  broadcasting and waiting at an existing barrier never do; unlocking and waiting on a condition variable
  do exactly when the caller does not own the mutex.\<close>

theorem sync_calls_abort:
  assumes ok: "sys_ok (tm, ss, sc)" and t: "t \<in> in_state RUNNING tm"
  shows "(\<exists>r. mutexLock t mux tryl tau (tm, ss) = Inr r) \<and>
    (\<exists>r. condSignal t cnd tau (tm, ss) = Inr r) \<and> (\<exists>r. condBroadcast t cnd tau (tm, ss) = Inr r) \<and>
    ((\<exists>r. barrierWait t b tau (tm, ss) = Inr r) \<longleftrightarrow> b < length (m_barriers ss)) \<and>
    ((\<exists>r. mutexUnlock t mux tau (tm, ss) = Inr r) \<longleftrightarrow> (\<exists>mx. map_of (m_mutexes ss) mux = Some mx \<and> mx_owner mx = t)) \<and>
    ((\<exists>r. condWait t cnd mux tau (tm, ss) = Inr r) \<longleftrightarrow> (\<exists>mx. map_of (m_mutexes ss) mux = Some mx \<and> mx_owner mx = t))"
proof -
  note inv = sys_ok_parts(1) [OF ok]
  have v: "valid_id (fst (tm, ss)) t" "t \<notin> stalled (fst (tm, ss))" using running_awake [OF t] by simp_all
  show ?thesis
  proof (intro conjI)
    show "\<exists>r. mutexLock t mux tryl tau (tm, ss) = Inr r" using mutexLock_step [OF inv v, of mux tryl tau] by blast
    show "\<exists>r. condSignal t cnd tau (tm, ss) = Inr r" using condSignal_step [OF inv, of t cnd tau] by blast
    show "\<exists>r. condBroadcast t cnd tau (tm, ss) = Inr r" using condBroadcast_step [OF inv, of t cnd tau] by blast
    show "(\<exists>r. barrierWait t b tau (tm, ss) = Inr r) \<longleftrightarrow> b < length (m_barriers ss)"
      using barrierWait_step [OF inv v, of b tau]
      by (auto simp: barrierWait_def nth_r_def res_simps split: if_splits)
    show "(\<exists>r. mutexUnlock t mux tau (tm, ss) = Inr r) \<longleftrightarrow> (\<exists>mx. map_of (m_mutexes ss) mux = Some mx \<and> mx_owner mx = t)"
      using mutexUnlock_step [OF inv, of mux _ t tau] unlock_needs_owner [of t mux tau tm ss] by (metis snd_conv)
    show "(\<exists>r. condWait t cnd mux tau (tm, ss) = Inr r) \<longleftrightarrow> (\<exists>mx. map_of (m_mutexes ss) mux = Some mx \<and> mx_owner mx = t)"
      using condWait_step [OF inv v, of mux _ cnd tau] condWait_needs_owner [of t cnd mux tau tm ss] v(1) by (metis fst_conv snd_conv)
  qed
qed

theorem sync_calls_abort_witness:
  "(\<exists>r. mutexLock 2 0x10 True 130 ex_locked = Inr r) \<and> \<not> (\<exists>r. mutexUnlock 2 0x10 130 ex_locked = Inr r)"
  using sync_calls_abort [OF ex_locked_ok(1), of 2 "0x10" True 130 0 0] ex_locked_ok(2) [of 2] ex_locked_eq(3) by simp

text \<open>C17: a mutex is handed over in the order of arrival. With waiters \<open>ws\<close> behind the owner, the owner
  and then each new owner unlocking in turn passes it along \<open>ws\<close>: after the \<open>k\<close>-th hand-over the thread
  \<open>ws ! k\<close> owns it and runs, and the rest still waits in order.\<close>

theorem mutex_fifo:
  assumes ok: "sync_inv (tm, ss)" and mx: "map_of (m_mutexes ss) mux = Some \<lparr> mx_waiting = ws, mx_owner = t \<rparr>"
    and k: "k < length ws"
  shows "\<exists>tm' ss'. fold_r (\<lambda>u w. rbind (mutexUnlock u mux tau w) (\<lambda>(_, w'). Inr w')) (t # take k ws) (tm, ss) = Inr (tm', ss') \<and>
    map_of (m_mutexes ss') mux = Some \<lparr> mx_waiting = drop (Suc k) ws, mx_owner = ws ! k \<rparr> \<and>
    ws ! k \<in> in_state RUNNING tm'"
  using assms
proof (induction k arbitrary: tm ss t ws)
  case 0
  then obtain u us where ws: "ws = u # us" by (cases ws) auto
  from handover [OF 0(1) 0(2) [unfolded ws], of tau] ws show ?case by auto
next
  case (Suc k)
  then obtain u us where ws: "ws = u # us" by (cases ws) auto
  from handover [OF Suc.prems(1) Suc.prems(2) [unfolded ws], of tau] obtain tm1 ss1 r where
    1: "mutexUnlock t mux tau (tm, ss) = Inr (r, tm1, ss1)" "sync_inv (tm1, ss1)"
    "map_of (m_mutexes ss1) mux = Some \<lparr> mx_waiting = us, mx_owner = u \<rparr>" by auto
  from Suc.IH [OF 1(2,3)] Suc.prems(3) 1(1) ws show ?case by auto
qed

theorem mutex_fifo_witness:
  "\<exists>tm ss. fold_r (\<lambda>u w. rbind (mutexUnlock u 0x10 150 w) (\<lambda>(_, w'). Inr w')) [0] ex_locked = Inr (tm, ss) \<and>
     map_of (m_mutexes ss) 0x10 = Some \<lparr> mx_waiting = [], mx_owner = 1 \<rparr> \<and> 1 \<in> in_state RUNNING tm"
  using mutex_fifo [of "fst ex_locked" "snd ex_locked" "0x10" "[1]" 0 0 150] sys_ok_parts(1) [OF ex_locked_ok(1)]
    ex_locked_eq(3) by simp

text \<open>C33: a thread that tries to lock a mutex it owns already is not told that the mutex is taken: the
  call stalls it behind itself, and since only the owner can unlock, it stays stalled while it owns the
  mutex. (\<^verbatim>\<open>isLocked\<close> answers for other threads only, and \<^verbatim>\<open>mutexLock\<close> then takes the blocking path.)\<close>

theorem trylock_own_mutex_stalls:
  assumes ok: "sys_ok (tm, ss, sc)" and t: "t \<in> in_state RUNNING tm"
    and mx: "map_of (m_mutexes ss) mux = Some mx" "mx_owner mx = t"
  shows "\<exists>tm' ss'. mutexLock t mux True tau (tm, ss) = Inr (None, tm', ss') \<and> t \<in> in_state STALLED tm' \<and>
    map_of (m_mutexes ss') mux = Some (mx\<lparr> mx_waiting := mx_waiting mx @ [t] \<rparr>)"
proof -
  have tm: "tm_ok tm" using ok by (simp add: sys_ok_def)
  have v: "valid_id tm t" "t \<notin> stalled tm" using running_awake [OF t] by simp_all
  from stall_step [OF tm v, of STALL_MUTEX tau] obtain tm' where
    s: "stallThread t STALL_MUTEX tau tm = Inr tm'" "sleepers tm' = add_mset t (sleepers tm)" by blast
  have "t \<in># sleepers tm'" using s(2) by simp
  then have "t \<in> stalled tm'" by (simp add: sleepers_def)
  then show ?thesis using s(1) mx valid_not_no_owner [OF v(1)]
    by (simp add: mutexLock_def getMutex_def isLocked_def mx_lock_def put_mutex_def update_conv')
qed

theorem trylock_own_mutex_stalls_witness:
  "\<exists>tm ss. mutexLock 0 0x10 True 140 ex_locked = Inr (None, tm, ss) \<and> 0 \<in> in_state STALLED tm"
  using trylock_own_mutex_stalls [OF ex_locked_ok(1) ex_locked_ok(2) [of 0] ex_locked_eq(3), of 140] by auto

text \<open>Threads that arrive at a barrier one after the other, each with its time, and the answers they get.\<close>

definition arrive :: "thread_id \<times> time \<Rightarrow> time option list \<times> sim_barrier \<times> thread_manager \<Rightarrow>
    (time option list \<times> sim_barrier \<times> thread_manager) res" where
  "arrive a p = (case p of (rs, br, tm) \<Rightarrow>
     rbind (br_wait (fst a) (snd a) (br, tm)) (\<lambda>(r, br', tm'). Inr (rs @ [r], br', tm')))"

lemma barrier_first:
  assumes "tm_ok tm" "\<forall>a \<in> set as. valid_id tm (fst a)"
    and n: "length (br_waiting br) + length as < br_count br" "br_count br < 2 ^ 32"
  shows "\<exists>tm'. fold_r arrive as (rs, br, tm) =
      Inr (rs @ replicate (length as) None, br\<lparr> br_waiting := br_waiting br @ map fst as \<rparr>, tm') \<and>
    tm_ok tm' \<and> valid_id tm' = valid_id tm \<and>
    (\<forall>st. in_state st tm' = (if st = STALLED then in_state st tm \<union> fst ` set as else in_state st tm - fst ` set as))"
  using assms
proof (induction as arbitrary: br tm rs)
  case (Cons a as)
  let ?t = "fst a" and ?br = "br\<lparr> br_waiting := br_waiting br @ [fst a] \<rparr>"
  have v: "valid_id tm ?t" using Cons.prems(2) by simp
  obtain tm1 where 1: "stallThread ?t STALL_BARRIER (snd a) tm = Inr tm1"
    "m_thread_state tm1 = (m_thread_state tm)[nat ?t := (m_thread_state tm ! nat ?t)\<lparr> status := STALLED, stalled_reason := STALL_BARRIER \<rparr>]"
    "length (m_threads tm1) = length (m_threads tm)"
    unfolding stallThread_eq [OF Cons.prems(1) v] by simp
  note s1 = in_state_update [OF v 1(2)]
  have ok1: "tm_ok tm1" using Cons.prems(1) 1(2,3) by (simp add: tm_ok_def)
  from Cons.IH [of tm1 ?br "rs @ [None]"] ok1 Cons.prems s1(2) obtain tm' where
    2: "fold_r arrive as (rs @ [None], ?br, tm1) =
      Inr ((rs @ [None]) @ replicate (length as) None, ?br\<lparr> br_waiting := br_waiting ?br @ map fst as \<rparr>, tm')"
    "tm_ok tm'" "valid_id tm' = valid_id tm1"
    "\<forall>st. in_state st tm' = (if st = STALLED then in_state st tm1 \<union> fst ` set as else in_state st tm1 - fst ` set as)"
    by auto
  have "sub32 (br_count br) 1 = br_count br - 1" using Cons.prems(3,4) by (intro sub32_exact) auto
  moreover have "length (br_waiting br) \<noteq> br_count br - 1" using Cons.prems(3) by auto
  ultimately have "arrive a (rs, br, tm) = Inr (rs @ [None], ?br, tm1)"
    using 1(1) by (simp add: arrive_def br_wait_def)
  moreover have "in_state st tm' = (if st = STALLED then in_state st tm \<union> fst ` set (a # as) else in_state st tm - fst ` set (a # as))" for st
    using 2(4) s1(1) [of st] by auto
  ultimately show ?case using 2(1-3) s1(2) by simp
qed auto

text \<open>The threads that are resumed run again, and each gets the time and the message of its resumption.\<close>

lemma resume_waiters:
  assumes "tm_ok tm" "\<forall>u \<in> set us. valid_id tm u"
  shows "\<exists>tm'. fold_r (\<lambda>u. resumeThread u by_thread tau msg) us tm = Inr tm' \<and> tm_ok tm' \<and> valid_id tm' = valid_id tm \<and>
    (\<forall>st. in_state st tm' = (if st = RUNNING then in_state st tm \<union> set us else in_state st tm - set us)) \<and>
    (\<forall>u \<in> set us. stallThread_return u tm' = Inr (tau, msg)) \<and>
    (\<forall>u. stallThread_return u tm = Inr (tau, msg) \<longrightarrow> stallThread_return u tm' = Inr (tau, msg))"
  using assms
proof (induction us arbitrary: tm)
  case (Cons u us)
  have v: "valid_id tm u" using Cons.prems(2) by simp
  obtain tm1 where 1: "resumeThread u by_thread tau msg tm = Inr tm1"
    "m_thread_state tm1 = (m_thread_state tm)[nat u := (m_thread_state tm ! nat u)\<lparr> status := RUNNING \<rparr>]"
    "m_threads tm1 = (m_threads tm)[nat u := (m_threads tm ! nat u)\<lparr> m_wakeup_time := tau, m_wakeup_msg := msg \<rparr>]"
    unfolding resumeThread_eq [OF Cons.prems(1) v] by simp
  note s1 = in_state_update [OF v 1(2)]
  have ok1: "tm_ok tm1" using Cons.prems(1) 1(2,3) by (simp add: tm_ok_def)
  have ret: "stallThread_return u tm1 = Inr (tau, msg)"
    using v Cons.prems(1) by (simp add: stallThread_return_def getThreadFromID_def 1(3) valid_id_def tm_ok_def)
  have keep: "stallThread_return x tm1 = Inr (tau, msg)" if "stallThread_return x tm = Inr (tau, msg)" for x
    using that by (cases "nat x = nat u") (auto simp: stallThread_return_def getThreadFromID_def 1(3) split: if_splits)
  from Cons.IH [OF ok1] Cons.prems(2) s1(2) obtain tm' where
    2: "fold_r (\<lambda>u. resumeThread u by_thread tau msg) us tm1 = Inr tm'" "tm_ok tm'" "valid_id tm' = valid_id tm1"
    "\<forall>st. in_state st tm' = (if st = RUNNING then in_state st tm1 \<union> set us else in_state st tm1 - set us)"
    "\<forall>u \<in> set us. stallThread_return u tm' = Inr (tau, msg)"
    "\<forall>u. stallThread_return u tm1 = Inr (tau, msg) \<longrightarrow> stallThread_return u tm' = Inr (tau, msg)" by auto
  have "in_state st tm' = (if st = RUNNING then in_state st tm \<union> set (u # us) else in_state st tm - set (u # us))" for st
    using 2(4) s1(1) [of st] by auto
  then show ?case using 1(1) 2 s1(2) ret keep by auto
qed auto

text \<open>C25: a barrier for \<open>n\<close> threads. Of \<open>n\<close> running threads that arrive one after the other, at any times,
  each of the first \<open>n - 1\<close> is stalled by its call and stays so: after the first \<open>k\<close> arrivals exactly these
  \<open>k\<close> threads have gone from running to stalled, they are the waiters in their order, and no other thread
  has changed its state. The last call does not stall: with it every waiter runs again and returns from
  its stall with the time of the last arrival, every thread has the state it had before the first
  arrival, and the barrier is as new.\<close>

theorem barrier_releases_all:
  assumes tm: "tm_ok tm" and as: "\<forall>u \<in> set (map fst as @ [t]). u \<in> in_state RUNNING tm"
    and n: "n = Suc (length as)" "n < 2 ^ 32" and k: "k \<le> length as"
  shows "(\<exists>tmk. fold_r arrive (take k as) ([], SimBarrier n, tm) =
        Inr (replicate k None, (SimBarrier n)\<lparr> br_waiting := map fst (take k as) \<rparr>, tmk) \<and>
      in_state STALLED tmk = in_state STALLED tm \<union> set (map fst (take k as)) \<and>
      in_state RUNNING tmk = in_state RUNNING tm - set (map fst (take k as))) \<and>
    (\<exists>tm'. fold_r arrive (as @ [(t, tau)]) ([], SimBarrier n, tm) =
        Inr (replicate (length as) None @ [Some tau], SimBarrier n, tm') \<and>
      (\<forall>st. in_state st tm' = in_state st tm) \<and>
      (\<forall>u \<in> set (map fst as). stallThread_return u tm' = Inr (tau, False)))"
proof
  have v: "\<forall>a \<in> set as. valid_id tm (fst a)" using as by (auto intro: in_state_valid)
  have run: "fst ` set as \<subseteq> in_state RUNNING tm" using as by auto
  have b: "\<exists>tm'. fold_r arrive bs ([], SimBarrier n, tm) =
      Inr (replicate (length bs) None, (SimBarrier n)\<lparr> br_waiting := map fst bs \<rparr>, tm') \<and> tm_ok tm' \<and> valid_id tm' = valid_id tm \<and>
    (\<forall>st. in_state st tm' = (if st = STALLED then in_state st tm \<union> fst ` set bs else in_state st tm - fst ` set bs))"
    if "length bs \<le> length as" "\<forall>a \<in> set bs. valid_id tm (fst a)" for bs
    using barrier_first [OF tm that(2), of "SimBarrier n" "[]"] that(1) n by (simp add: SimBarrier_def)
  have "\<forall>a \<in> set (take k as). valid_id tm (fst a)" using v by (auto dest: in_set_takeD)
  from b [OF _ this] k show "\<exists>tmk. fold_r arrive (take k as) ([], SimBarrier n, tm) =
        Inr (replicate k None, (SimBarrier n)\<lparr> br_waiting := map fst (take k as) \<rparr>, tmk) \<and>
      in_state STALLED tmk = in_state STALLED tm \<union> set (map fst (take k as)) \<and>
      in_state RUNNING tmk = in_state RUNNING tm - set (map fst (take k as))" by (auto simp: min_absorb2)
  from b [OF order_refl v] obtain tm1 where
    1: "fold_r arrive as ([], SimBarrier n, tm) = Inr (replicate (length as) None, (SimBarrier n)\<lparr> br_waiting := map fst as \<rparr>, tm1)"
    "tm_ok tm1" "valid_id tm1 = valid_id tm"
    "\<forall>st. in_state st tm1 = (if st = STALLED then in_state st tm \<union> fst ` set as else in_state st tm - fst ` set as)" by blast
  from resume_waiters [OF 1(2), of "map fst as" t tau False] v 1(3) obtain tm2 where
    2: "fold_r (\<lambda>u. resumeThread u t tau False) (map fst as) tm1 = Inr tm2"
    "\<forall>st. in_state st tm2 = (if st = RUNNING then in_state st tm1 \<union> fst ` set as else in_state st tm1 - fst ` set as)"
    "\<forall>u \<in> set (map fst as). stallThread_return u tm2 = Inr (tau, False)" by auto
  have "in_state st tm2 = in_state st tm" for st
  proof -
    have "u \<notin> in_state st tm" if "u \<in> fst ` set as" "st \<noteq> RUNNING" for u using that run by (auto simp: in_state_def)
    then show ?thesis using 1(4) 2(2) run by auto
  qed
  moreover have "sub32 n 1 = length as" using n by simp
  ultimately show "\<exists>tm'. fold_r arrive (as @ [(t, tau)]) ([], SimBarrier n, tm) =
        Inr (replicate (length as) None @ [Some tau], SimBarrier n, tm') \<and>
      (\<forall>st. in_state st tm' = in_state st tm) \<and>
      (\<forall>u \<in> set (map fst as). stallThread_return u tm' = Inr (tau, False))"
    using 1(1) 2(1,3) by (auto simp: fold_r_append arrive_def br_wait_def SimBarrier_def)
qed

theorem barrier_releases_all_witness:
  "(\<exists>tm1. fold_r arrive [(0, 80)] ([], SimBarrier 3, ex_tm) = Inr ([None], \<lparr> br_waiting = [0], br_count = 3 \<rparr>, tm1) \<and>
     in_state STALLED tm1 = {0} \<and> in_state RUNNING tm1 = {1, 2}) \<and>
   (\<exists>tm'. fold_r arrive [(0, 80), (1, 90), (2, 100)] ([], SimBarrier 3, ex_tm) = Inr ([None, None, Some 100], SimBarrier 3, tm') \<and>
     in_state RUNNING tm' = {0, 1, 2} \<and> stallThread_return 0 tm' = Inr (100, False))"
  using barrier_releases_all [of ex_tm "[(0, 80), (1, 90)]" 2 3 1 100] ex_sys_ok
  by (auto simp: ex_states sys_ok_def SimBarrier_def insert_Diff_if)

section \<open>Futexes\<close>

text \<open>Waking takes the first waiter whose mask meets the caller's.\<close>

abbreviation meets :: "u32 \<Rightarrow> futex_waiter \<Rightarrow> bool" where
  "meets msk x \<equiv> msk AND fw_mask x \<noteq> 0"

lemma dequeue_eq:
  assumes inv: "call_inv (tm, sc)"
  shows "filter (meets msk) (futex_at a sc) = [] \<Longrightarrow> dequeueWaiter t msk tau (futex_at a sc, tm) = Inr (INVALID_THREAD_ID, futex_at a sc, tm)"
    and "filter (meets msk) (futex_at a sc) = x # xs \<Longrightarrow>
      \<exists>q tm'. dequeueWaiter t msk tau (futex_at a sc, tm) = Inr (fw_thread_id x, q, tm') \<and>
        call_rel (tm, sc) (tm', put_futex a q sc) \<and> filter (meets msk) q = xs \<and>
        filter (\<lambda>x. \<not> meets msk x) q = filter (\<lambda>x. \<not> meets msk x) (futex_at a sc) \<and>
        fw_thread_id x \<noteq> INVALID_THREAD_ID \<and> add_mset (fw_thread_id x) (sleepers tm') = sleepers tm"
proof -
  let ?q = "futex_at a sc"
  assume "filter (meets msk) ?q = []"
  then have "List.extract (meets msk) ?q = None" by (simp add: extract_None_iff filter_empty_conv)
  then show "dequeueWaiter t msk tau (?q, tm) = Inr (INVALID_THREAD_ID, ?q, tm)" by (simp add: dequeueWaiter_def)
next
  let ?q = "futex_at a sc"
  assume f: "filter (meets msk) ?q = x # xs"
  then have "x \<in> set (filter (meets msk) ?q)" by simp
  then have "List.extract (meets msk) ?q \<noteq> None" by (auto simp: extract_None_iff)
  then obtain ys y zs where e: "List.extract (meets msk) ?q = Some (ys, y, zs)" by auto
  note d = extract_SomeE [OF e]
  from d have "filter (meets msk) ys = []" by (simp add: filter_empty_conv)
  with d f have y: "y = x" "filter (meets msk) zs = xs" by simp_all
  have tm: "tm_ok tm" using inv by (simp add: srv_inv_def)
  have "fw_thread_id x \<in># fx_queue ?q" using extract_queue(1) [OF e] y by simp
  then have x: "fw_thread_id x \<in> stalled tm" using in_sleepers [OF _ fx_queue_sub [OF inv]] by blast
  from resume_step [OF tm x, of t tau True] obtain tm' where
    r: "resumeThread (fw_thread_id x) t tau True tm = Inr tm'" "same_threads tm tm'"
    "add_mset (fw_thread_id x) (sleepers tm') = sleepers tm" by blast
  have "call_rel (tm, sc) (tm', put_futex a (ys @ zs) sc)"
    by (rule put_futex_rel [OF inv r(2)]) (use r(3) extract_queue(1) [OF e] y(1) in auto)
  moreover have "dequeueWaiter t msk tau (?q, tm) = Inr (fw_thread_id x, ys @ zs, tm')"
    using e y(1) r(1) by (simp add: dequeueWaiter_def)
  moreover have "fw_thread_id x \<noteq> INVALID_THREAD_ID" using in_state_valid [OF x] not_invalid by metis
  ultimately show "\<exists>q tm'. dequeueWaiter t msk tau (?q, tm) = Inr (fw_thread_id x, q, tm') \<and>
        call_rel (tm, sc) (tm', put_futex a q sc) \<and> filter (meets msk) q = xs \<and>
        filter (\<lambda>x. \<not> meets msk x) q = filter (\<lambda>x. \<not> meets msk x) ?q \<and>
        fw_thread_id x \<noteq> INVALID_THREAD_ID \<and> add_mset (fw_thread_id x) (sleepers tm') = sleepers tm"
    using r(3) y(2) d \<open>filter (meets msk) ys = []\<close> by (intro exI [of _ "ys @ zs"] exI [of _ tm']) auto
qed

lemma wake_loop_eq:
  assumes "call_inv (tm, sc)" "on_core tm t"
  shows "\<exists>tm' sc'. wake_loop n (wakeFutexOne a t msk tau) (tm, sc) =
      Inr (min n (length (filter (meets msk) (futex_at a sc))), tm', sc') \<and> call_rel (tm, sc) (tm', sc') \<and>
    filter (meets msk) (futex_at a sc') = drop n (filter (meets msk) (futex_at a sc)) \<and>
    filter (\<lambda>x. \<not> meets msk x) (futex_at a sc') = filter (\<lambda>x. \<not> meets msk x) (futex_at a sc) \<and>
    mset (map fw_thread_id (take n (filter (meets msk) (futex_at a sc)))) + sleepers tm' = sleepers tm"
  using assms
proof (induction n arbitrary: tm sc)
  case 0
  then show ?case by (simp add: srv_rel_refl)
next
  case (Suc n)
  obtain c where c: "applyRescheduleCost t True (tm, sc) = Inr c" using cost_step [of "(tm, sc)" t] Suc.prems by auto
  show ?case
  proof (cases "filter (meets msk) (futex_at a sc)")
    case Nil
    have "tm_ok tm" using Suc.prems(1) by (simp add: srv_inv_def)
    then have "call_rel (tm, sc) (tm, put_futex a (futex_at a sc) sc)"
      by (intro put_futex_rel [OF Suc.prems(1)] same_threads_refl) simp_all
    then show ?thesis using dequeue_eq(1) [OF Suc.prems(1) Nil, of t "tau + c"] c Nil by (simp add: wakeFutexOne_def)
  next
    case (Cons x xs)
    from dequeue_eq(2) [OF Suc.prems(1) Cons, of t "tau + c"] obtain q tm1 where
      1: "dequeueWaiter t msk (tau + c) (futex_at a sc, tm) = Inr (fw_thread_id x, q, tm1)"
      "call_rel (tm, sc) (tm1, put_futex a q sc)" "filter (meets msk) q = xs"
      "filter (\<lambda>x. \<not> meets msk x) q = filter (\<lambda>x. \<not> meets msk x) (futex_at a sc)"
      "fw_thread_id x \<noteq> INVALID_THREAD_ID" "add_mset (fw_thread_id x) (sleepers tm1) = sleepers tm" by blast
    note cr = call_rel_core [OF Suc.prems(1) 1(2), of t]
    from Suc.IH [of tm1 "put_futex a q sc"] cr Suc.prems(2) obtain tm2 sc2 where
      2: "wake_loop n (wakeFutexOne a t msk tau) (tm1, put_futex a q sc) = Inr (min n (length xs), tm2, sc2)"
      "call_rel (tm1, put_futex a q sc) (tm2, sc2)" "filter (meets msk) (futex_at a sc2) = drop n xs"
      "filter (\<lambda>x. \<not> meets msk x) (futex_at a sc2) = filter (\<lambda>x. \<not> meets msk x) (futex_at a sc)"
      "mset (map fw_thread_id (take n xs)) + sleepers tm2 = sleepers tm1" using 1(3,4) by auto
    have "call_rel (tm, sc) (tm2, sc2)" by (rule srv_rel_trans [OF 1(2) 2(2)])
    moreover have "add_mset (fw_thread_id x) (mset (map fw_thread_id (take n xs)) + sleepers tm2) = sleepers tm"
      using 1(6) 2(5) by simp
    moreover have "wakeFutexOne a t msk tau (tm, sc) = Inr (fw_thread_id x, tm1, put_futex a q sc)"
      using c 1(1) by (simp add: wakeFutexOne_def)
    ultimately show ?thesis using 1(5) 2 Cons by simp
  qed
qed

text \<open>C21: a futex wake wakes exactly the first \<open>n\<close> waiters whose mask meets the given one, in their order, or
  all of them when there are fewer; it returns their number and leaves the other waiters in their order.\<close>

theorem futexWake_first_n:
  assumes ok: "sys_ok (tm, ss, sc)" and t: "on_core tm t" and q: "q = filter (meets msk) (futex_at (va2pa t u) sc)"
  shows "\<exists>e tm' sc'. futexWake va2pa t u n msk tau (tm, sc) = Inr (Some (of_nat (min (int_loop n) (length q)), e), tm', sc') \<and>
    sys_ok (tm', ss, sc') \<and>
    filter (meets msk) (futex_at (va2pa t u) sc') = drop (int_loop n) q \<and>
    filter (\<lambda>x. \<not> meets msk x) (futex_at (va2pa t u) sc') = filter (\<lambda>x. \<not> meets msk x) (futex_at (va2pa t u) sc) \<and>
    in_state STALLED tm = set (map fw_thread_id (take (int_loop n) q)) \<union> in_state STALLED tm' \<and>
    set (map fw_thread_id (take (int_loop n) q)) \<inter> in_state STALLED tm' = {}"
proof -
  note inv = sys_ok_parts(2) [OF ok]
  have v: "valid_id tm t" using t by (simp add: on_core_def)
  from findFutex_step [OF inv, of t va2pa u] v obtain w1 where
    f: "findFutexByUaddr va2pa u t (tm, sc) = Inr (va2pa t u, w1)" "call_rel (tm, sc) w1" "fst w1 = tm"
    "\<forall>a. futex_at a (snd w1) = futex_at a sc" by auto
  obtain sc1 where w1: "w1 = (tm, sc1)" using f(3) by (cases w1) auto
  have inv1: "call_inv (tm, sc1)" using f(2) by (simp add: w1 srv_rel_def)
  have fa: "futex_at a sc1 = futex_at a sc" for a using f(4) by (simp add: w1)
  from wake_loop_eq [OF inv1 t, of "int_loop n" "va2pa t u" msk tau] obtain tm2 sc2 where
    l: "wake_loop (int_loop n) (wakeFutexOne (va2pa t u) t msk tau) (tm, sc1) = Inr (min (int_loop n) (length q), tm2, sc2)"
    "call_rel (tm, sc1) (tm2, sc2)" "filter (meets msk) (futex_at (va2pa t u) sc2) = drop (int_loop n) q"
    "filter (\<lambda>x. \<not> meets msk x) (futex_at (va2pa t u) sc2) = filter (\<lambda>x. \<not> meets msk x) (futex_at (va2pa t u) sc)"
    "mset (map fw_thread_id (take (int_loop n) q)) + sleepers tm2 = sleepers tm" unfolding fa q [symmetric] by blast
  note c2 = call_rel_core [OF inv1 l(2), of t]
  obtain e where e: "applyRescheduleCost t (0 < min (int_loop n) (length q)) (tm2, sc2) = Inr e"
    using cost_step [of "(tm2, sc2)" t] c2 t by auto
  let ?k = "map fw_thread_id (take (int_loop n) q)"
  have p: "set ?k \<union> stalled tm2 = stalled tm"
    using arg_cong [OF l(5), of set_mset] by (simp add: sleepers_def)
  have "x \<notin> stalled tm2" if "x \<in> set ?k" for x
  proof
    assume x: "x \<in> stalled tm2"
    have "Multiset.count (sleepers tm) x \<le> 1" by (simp add: sleepers_def count_mset_set')
    moreover have "Multiset.count (mset ?k) x + Multiset.count (sleepers tm2) x = Multiset.count (sleepers tm) x"
      using arg_cong [OF l(5), of "\<lambda>M. Multiset.count M x"] by simp
    moreover have "0 < Multiset.count (mset ?k) x" using that by (metis count_greater_zero_iff set_mset_mset)
    moreover have "0 < Multiset.count (sleepers tm2) x" using x by (simp add: sleepers_def)
    ultimately show False by linarith
  qed
  then have "set ?k \<inter> stalled tm2 = {}" by blast
  moreover have "sys_ok (tm2, ss, sc2)" by (rule sys_ok_call [OF ok srv_rel_trans [OF f(2) [unfolded w1] l(2)]])
  moreover have "futexWake va2pa t u n msk tau (tm, sc) =
      Inr (Some (of_nat (min (int_loop n) (length q)), tau + e), tm2, sc2)"
    using f(1) l(1) e by (simp add: futexWake_def w1)
  ultimately show ?thesis using l(3,4) p by blast
qed

text \<open>Example: threads 0 and 1 wait on a futex, thread 1 with a mask of its own.\<close>

definition ex_futex :: call_sys where
  "ex_futex = (case futexWait (\<lambda>_ a. a) 0 0x40 0 0 FUTEX_BITSET_MATCH_ANY 100 MaxTime (ex_tm, ex_sc) of
     Inr (_, w) \<Rightarrow> (case futexWait (\<lambda>_ a. a) 1 0x40 0 0 4 100 MaxTime w of Inr (_, w2) \<Rightarrow> w2 | Inl _ \<Rightarrow> w) | Inl _ \<Rightarrow> (ex_tm, ex_sc))"

lemmas futex_eval = futexWait_def findFutexByUaddr_def enqueueWaiter_def futex_at_def put_futex_def Let_def
  stallThread_def stallThread_async_def upd_state_def upd_id_def callHooks_def wait_begin_def getThreadFromID_def upd_thread_def

lemma ex_futex_eq:
  "\<exists>w1. futexWait (\<lambda>_ a. a) 0 0x40 0 0 FUTEX_BITSET_MATCH_ANY 100 MaxTime (ex_tm, ex_sc) = Inr (None, w1) \<and>
     futexWait (\<lambda>_ a. a) 1 0x40 0 0 4 100 MaxTime w1 = Inr (None, ex_futex)"
  "futex_at 0x40 (snd ex_futex) = [\<lparr> fw_thread_id = 0, fw_mask = FUTEX_BITSET_MATCH_ANY, fw_timeout = MaxTime \<rparr>,
     \<lparr> fw_thread_id = 1, fw_mask = 4, fw_timeout = MaxTime \<rparr>]"
  "m_core (m_threads (fst ex_futex) ! 2) = 2" "length (m_cores (fst ex_futex)) = 3" "length (m_thread_state (fst ex_futex)) = 3"
  by (simp_all add: ex_futex_def futex_eval ex_tm_def ex_sc_def numeral_eq_Suc)

lemma ex_futex_ok: "sys_ok (fst ex_futex, ex_ss, snd ex_futex)" "on_core (fst ex_futex) 2"
proof -
  obtain w1 where w1: "futexWait (\<lambda>_ a. a) 0 0x40 0 0 FUTEX_BITSET_MATCH_ANY 100 MaxTime (ex_tm, ex_sc) = Inr (None, w1)"
     "futexWait (\<lambda>_ a. a) 1 0x40 0 0 4 100 MaxTime w1 = Inr (None, ex_futex)" using ex_futex_eq(1) by blast
  have v: "valid_id ex_tm t \<and> t \<notin> stalled ex_tm" if "t \<in> {0, 1, 2}" for t
    using that ex_states [of STALLED] ex_states [of RUNNING] in_state_valid [of _ RUNNING ex_tm] by auto
  from futexWait_step [OF sys_ok_parts(2) [OF ex_sys_ok], of 0 "\<lambda>_ a. a" "0x40" 0 0 FUTEX_BITSET_MATCH_ANY 100 MaxTime] w1(1) v [of 0]
  have r1: "call_rel (ex_tm, ex_sc) w1" by auto
  have tm1: "stallThread 0 STALL_FUTEX 100 ex_tm = Inr (fst w1)"
    using w1(1) by (auto simp: futexWait_def findFutexByUaddr_def enqueueWaiter_def Let_def res_simps)
  have "tm_ok ex_tm" using ex_sys_ok by (simp add: sys_ok_def)
  with tms.stall_law [of ex_tm 0 STALL_FUTEX 100] v [of 0] obtain tm where
    "stallThread 0 STALL_FUTEX 100 ex_tm = Inr tm" "stalled tm = insert 0 (stalled ex_tm)" "{t. valid_id tm t} = {t. valid_id ex_tm t}"
    by blast
  with tm1 have "stalled (fst w1) = {0}" "\<And>t. valid_id (fst w1) t = valid_id ex_tm t" using ex_states [of STALLED] by auto
  moreover have "call_inv w1" using r1 by (simp add: srv_rel_def)
  ultimately have r2: "call_rel w1 ex_futex"
    using futexWait_step [of w1 1 "\<lambda>_ a. a" "0x40" 0 0 4 100 MaxTime] w1(2) v [of 1] by auto
  show "sys_ok (fst ex_futex, ex_ss, snd ex_futex)"
    using sys_ok_call [OF ex_sys_ok, of "fst ex_futex" "snd ex_futex"] srv_rel_trans [OF r1 r2] by simp
  show "on_core (fst ex_futex) 2" using ex_futex_eq(3-5) by (simp add: on_core_def valid_id_def)
qed

theorem futexWake_first_n_witness:
  "\<exists>e tm sc. futexWake (\<lambda>_ a. a) 2 0x40 1 4 110 ex_futex = Inr (Some (1, e), tm, sc) \<and> 0 \<notin> in_state STALLED tm"
proof -
  have q: "filter (meets 4) (futex_at 0x40 (snd ex_futex)) = futex_at 0x40 (snd ex_futex)"
    by (simp add: ex_futex_eq(2) FUTEX_BITSET_MATCH_ANY_def)
  from futexWake_first_n [OF ex_futex_ok refl, where msk = 4 and va2pa = "\<lambda>_ a. a" and u = "0x40" and n = 1 and tau = 110]
  show ?thesis unfolding q by (auto simp: ex_futex_eq(2))
qed

text \<open>C34: \<^verbatim>\<open>FUTEX_WAKE_BITSET\<close> ignores its mask: it does the same as \<^verbatim>\<open>FUTEX_WAKE\<close>, which wakes any
  waiter, because the choice of the mask tests for the wait command (line 88).\<close>

theorem wake_bitset_ignores_mask:
  "handleFutexCall fuel va2pa t (args\<lparr> fa_op := FUTEX_WAKE_BITSET, fa_val3 := m \<rparr>) tau w =
   handleFutexCall fuel va2pa t (args\<lparr> fa_op := FUTEX_WAKE \<rparr>) tau w"
  unfolding handleFutexCall_def futex_consts Let_def by (simp cong: if_cong)

text \<open>C27: requeueing ends. When the two addresses translate to different futexes, as many rounds as the first
  has waiters (and one more to see that it is empty) move all of them behind the waiters of the second in
  their order; when they translate to the same futex and a thread waits there, the loop never ends, although
  the call only requires the two addresses themselves to differ.\<close>

theorem requeue_terminates:
  assumes "\<forall>x \<in> set (futex_at a sc). fw_thread_id x \<noteq> INVALID_THREAD_ID" "futex_at a sc \<noteq> []"
  shows "(a \<noteq> b \<longrightarrow> (\<exists>sc'. requeue_loop (Suc (length (futex_at a sc))) a b sc = Inr sc' \<and> futex_at a sc' = [] \<and>
      futex_at b sc' = futex_at b sc @ futex_at a sc \<and> (\<forall>c. c \<noteq> a \<and> c \<noteq> b \<longrightarrow> futex_at c sc' = futex_at c sc))) \<and>
    (\<forall>fuel. requeue_loop fuel a a sc = Inl Out_Of_Fuel)"
  using requeue_loop_eq [OF _ assms(1), of b "Suc (length (futex_at a sc))"] requeue_loop_same [OF assms(2,1)] assms(2)
  by fastforce

theorem requeue_terminates_witness:
  "\<exists>sc. requeue_loop 3 0x40 0x80 (snd ex_futex) = Inr sc \<and> map fw_thread_id (futex_at 0x80 sc) = [0, 1]"
proof -
  have "futex_at 0x80 (snd ex_futex) = []" by (simp add: ex_futex_def futex_eval ex_tm_def ex_sc_def)
  moreover have l: "Suc (length (futex_at 0x40 (snd ex_futex))) = 3" by (simp add: ex_futex_eq(2))
  moreover have "(0x40 :: u64) \<noteq> 0x80" "\<forall>x \<in> set (futex_at 0x40 (snd ex_futex)). fw_thread_id x \<noteq> INVALID_THREAD_ID"
    "futex_at 0x40 (snd ex_futex) \<noteq> []" by (simp_all add: ex_futex_eq(2) INVALID_THREAD_ID_def)
  ultimately obtain sc where "requeue_loop 3 0x40 0x80 (snd ex_futex) = Inr sc" "futex_at 0x80 sc = futex_at 0x40 (snd ex_futex)"
    using requeue_terminates [of "0x40" "snd ex_futex" "0x80", unfolded l] by auto
  then show ?thesis by (simp add: ex_futex_eq(2))
qed

section \<open>Two defects\<close>

text \<open>The next timeout of a futex is the last finite one in the queue, which need not be the earliest.\<close>

lemma next_timeout_is_last:
  "futex_getNextTimeout q = (case rev (filter (\<lambda>x. fw_timeout x < MaxTime) q) of [] \<Rightarrow> MaxTime | x # _ \<Rightarrow> fw_timeout x)"
proof (induction q rule: rev_induct)
  case (snoc x q)
  then show ?case by (simp add: futex_getNextTimeout_def)
qed (simp add: futex_getNextTimeout_def)

text \<open>A thread that joins another one before that one has started: the start signals the joiner and forgets
  it, while the joiner is still recorded as stalled.\<close>

lemma join_before_start:
  assumes "tm_ok tm" "valid_id tm t" "valid_id tm u" "t \<noteq> u" and s: "status (m_thread_state tm ! nat u) = INITIALIZING"
    "waiter (m_thread_state tm ! nat u) = INVALID_THREAD_ID" "m_core (m_threads tm ! nat u) = INVALID_CORE_ID"
    and c: "0 \<le> m_core (m_threads tm ! nat t)" "nat (m_core (m_threads tm ! nat t)) < length (m_cores tm)"
  shows "\<exists>tm1 tm2. joinThread t u tm = Inr (True, tm1) \<and> onThreadStart u tau tm1 = Inr tm2 \<and>
    t \<in> in_state STALLED tm2 \<and> waiter (m_thread_state tm2 ! nat u) = INVALID_THREAD_ID"
proof -
  let ?c = "m_cores tm ! nat (m_core (m_threads tm ! nat t))"
  let ?tm0 = "tm\<lparr> m_thread_state := (m_thread_state tm)[nat u := (m_thread_state tm ! nat u)\<lparr> waiter := t \<rparr>] \<rparr>"
  have n: "nat t \<noteq> nat u" "nat t < length (m_thread_state tm)" "nat u < length (m_thread_state tm)"
    "length (m_threads tm) = length (m_thread_state tm)" "0 \<le> t" "0 \<le> u"
    using assms(1-4) by (auto simp: valid_id_def tm_ok_def)
  have "t \<noteq> INVALID_THREAD_ID" using n(5) by (simp add: INVALID_THREAD_ID_def)
  have j: "joinThread t u tm = rbind (stallThread t STALL_JOIN (elapsed_time ?c) ?tm0) (\<lambda>tm2. Inr (True, tm2))"
    using n s c by (simp add: joinThread_def getThreadFromID_def at_id_def upd_state_def upd_id_def INVALID_CORE_ID_def)
  have ok0: "tm_ok ?tm0" "valid_id ?tm0 t" using n by (simp_all add: tm_ok_def valid_id_def)
  show ?thesis
    unfolding j stallThread_eq [OF ok0]
    using n s(3) \<open>t \<noteq> INVALID_THREAD_ID\<close>
    by (simp add: onThreadStart_def onThreadStart_begin_def onThreadStart_end_def getThreadFromID_def upd_state_def upd_id_def callHooks_def signal_def upd_thread_def at_id_def
        in_state_def valid_id_def Let_def)
qed

end
