(* ===== verification/Req_Queue.thy ===== *)
theory Req_Queue
  imports Prelude
begin

text \<open>
  The queues of outstanding requests of \<^verbatim>\<open>cache/req_queue_list_template.h\<close> (one first-in-first-out
  queue per address, \<^verbatim>\<open>ReqQueueListTemplate\<close>) and the ring buffer of
  \<^verbatim>\<open>misc/circular_queue.h\<close> (\<^verbatim>\<open>CircularQueue\<close>). The locale \<open>fifo\<close> states what a client of a queue
  relies on; both implementations interpret it.
\<close>

section \<open>Queues of requests per address\<close>

type_synonym 'r req_queue_list = "u64 \<Rightarrow> 'r list option"

definition enqueue :: "u64 \<Rightarrow> 'r \<Rightarrow> 'r req_queue_list \<Rightarrow> 'r req_queue_list" where
  "enqueue a r q = q(a \<mapsto> (case q a of None \<Rightarrow> [r] | Some rs \<Rightarrow> rs @ [r]))"

definition dequeue :: "u64 \<Rightarrow> 'r req_queue_list \<Rightarrow> ('r \<times> 'r req_queue_list) res" where
  "dequeue a q = (case q a of
      None \<Rightarrow> Inl Assert_Failed
    | Some [] \<Rightarrow> Inl Undefined
    | Some (r # rs) \<Rightarrow> Inr (r, if rs = [] then q(a := None) else q(a \<mapsto> rs)))"

definition front :: "u64 \<Rightarrow> 'r req_queue_list \<Rightarrow> 'r res" where
  "front a q = (case q a of
      None \<Rightarrow> Inl Assert_Failed
    | Some [] \<Rightarrow> Inl Undefined
    | Some (r # rs) \<Rightarrow> Inr r)"

definition rq_back :: "u64 \<Rightarrow> 'r req_queue_list \<Rightarrow> 'r res" where
  "rq_back a q = (case q a of
      None \<Rightarrow> Inl Assert_Failed
    | Some [] \<Rightarrow> Inl Undefined
    | Some rs \<Rightarrow> Inr (last rs))"

definition rq_size :: "u64 \<Rightarrow> 'r req_queue_list \<Rightarrow> nat" where
  "rq_size a q = (case q a of None \<Rightarrow> 0 | Some rs \<Rightarrow> length rs)"

definition rq_empty :: "u64 \<Rightarrow> 'r req_queue_list \<Rightarrow> bool" where
  "rq_empty a q \<longleftrightarrow> q a = None"

text \<open>The code keeps pointers to queued requests and changes the front one in place.\<close>

definition upd_front :: "u64 \<Rightarrow> ('r \<Rightarrow> 'r) \<Rightarrow> 'r req_queue_list \<Rightarrow> 'r req_queue_list" where
  "upd_front a f q = (case q a of Some (r # rs) \<Rightarrow> q(a \<mapsto> f r # rs) | _ \<Rightarrow> q)"

text \<open>The requests waiting at an address, and the invariant that only nonempty queues are kept.\<close>

definition queue_at :: "u64 \<Rightarrow> 'r req_queue_list \<Rightarrow> 'r list" where
  "queue_at a q = (case q a of None \<Rightarrow> [] | Some rs \<Rightarrow> rs)"

definition rq_ok :: "'r req_queue_list \<Rightarrow> bool" where
  "rq_ok q \<longleftrightarrow> (\<forall>a. q a \<noteq> Some [])"

section \<open>The ring buffer\<close>

text \<open>A slot is \<open>None\<close> until it is assigned for the first time.\<close>

record 'a circular_queue =
  cq_size :: nat
  cq_first :: nat
  cq_last :: nat
  cq_queue :: "'a option list"

definition cq_mod :: "'a circular_queue \<Rightarrow> nat \<Rightarrow> nat res" where
  "cq_mod q n = (if cq_size q = 0 then Inl Undefined else Inr (n mod cq_size q))"

definition CircularQueue :: "nat \<Rightarrow> 'a circular_queue" where
  "CircularQueue sz = \<lparr> cq_size = add32 sz 1, cq_first = 0, cq_last = 0,
     cq_queue = replicate (add32 sz 1) None \<rparr>"

definition cq_full :: "'a circular_queue \<Rightarrow> bool res" where
  "cq_full q = rbind (cq_mod q (add32 (cq_first q) 1)) (\<lambda>n. Inr (n = cq_last q))"

definition cq_empty :: "'a circular_queue \<Rightarrow> bool" where
  "cq_empty q \<longleftrightarrow> cq_first q = cq_last q"

definition cq_length :: "'a circular_queue \<Rightarrow> nat res" where
  "cq_length q = cq_mod q (sub32 (add32 (cq_first q) (cq_size q)) (cq_last q))"

definition cq_get :: "'a circular_queue \<Rightarrow> nat \<Rightarrow> 'a res" where
  "cq_get q i = rbind (nth_r (cq_queue q) i)
     (\<lambda>x. case x of None \<Rightarrow> Inl Uninitialised | Some v \<Rightarrow> Inr v)"

definition cq_copy :: "'a circular_queue \<Rightarrow> 'a circular_queue res" where
  "cq_copy q = rbind (cq_length q) (\<lambda>n.
     if n \<noteq> 0 then Inl Assert_Failed
     else Inr \<lparr> cq_size = cq_size q, cq_first = 0, cq_last = 0, cq_queue = replicate (cq_size q) None \<rparr>)"

definition cq_push :: "'a \<Rightarrow> 'a circular_queue \<Rightarrow> 'a circular_queue res" where
  "cq_push t q = rbind (cq_full q) (\<lambda>full.
     if full then Inl Assert_Failed
     else rbind (upd_r (cq_queue q) (cq_first q) (Some t)) (\<lambda>xs.
       rbind (cq_mod q (add32 (cq_first q) 1)) (\<lambda>n. Inr (q\<lparr> cq_queue := xs, cq_first := n \<rparr>))))"

text \<open>\<^verbatim>\<open>next\<close> returns a reference to the next slot, which the caller fills; here its number.\<close>

definition cq_next :: "'a circular_queue \<Rightarrow> (nat \<times> 'a circular_queue) res" where
  "cq_next q = rbind (cq_full q) (\<lambda>full.
     if full then Inl Assert_Failed
     else rbind (nth_r (cq_queue q) (cq_first q)) (\<lambda>slot.
       rbind (cq_mod q (add32 (cq_first q) 1)) (\<lambda>n. Inr (cq_first q, q\<lparr> cq_first := n \<rparr>))))"

definition cq_pop :: "'a circular_queue \<Rightarrow> ('a \<times> 'a circular_queue) res" where
  "cq_pop q =
     (if cq_empty q then Inl Assert_Failed
      else rbind (cq_mod q (add32 (cq_last q) 1)) (\<lambda>n.
        rbind (cq_get q (cq_last q)) (\<lambda>x. Inr (x, q\<lparr> cq_last := n \<rparr>))))"

definition cq_pushCircular :: "'a \<Rightarrow> 'a circular_queue \<Rightarrow> 'a circular_queue res" where
  "cq_pushCircular t q = rbind (cq_full q) (\<lambda>full.
     rbind (if full then rbind (cq_pop q) (\<lambda>p. Inr (snd p)) else Inr q) (cq_push t))"

definition cq_front :: "'a circular_queue \<Rightarrow> 'a res" where
  "cq_front q = (if cq_empty q then Inl Assert_Failed else cq_get q (cq_last q))"

definition cq_back :: "'a circular_queue \<Rightarrow> 'a res" where
  "cq_back q =
     (if cq_empty q then Inl Assert_Failed
      else rbind (cq_mod q (sub32 (add32 (cq_first q) (cq_size q)) 1)) (cq_get q))"

definition cq_at :: "'a circular_queue \<Rightarrow> nat \<Rightarrow> 'a res" where
  "cq_at q idx = rbind (cq_length q) (\<lambda>n.
     if \<not> idx < n then Inl Assert_Failed
     else rbind (cq_mod q (add32 (cq_last q) idx)) (cq_get q))"

text \<open>The elements from the oldest to the youngest. One slot is always unused, and twice the
  number of slots must not wrap in \<^verbatim>\<open>size()\<close>.\<close>

definition cq_slot :: "'a circular_queue \<Rightarrow> nat \<Rightarrow> nat" where
  "cq_slot q i = (cq_last q + i) mod cq_size q"

definition cq_count :: "'a circular_queue \<Rightarrow> nat" where
  "cq_count q = (cq_first q + cq_size q - cq_last q) mod cq_size q"

definition cq_items :: "'a circular_queue \<Rightarrow> 'a list" where
  "cq_items q = map (\<lambda>i. the (cq_queue q ! cq_slot q i)) [0..<cq_count q]"

definition cq_ok :: "'a circular_queue \<Rightarrow> bool" where
  "cq_ok q \<longleftrightarrow> 0 < cq_size q \<and> cq_size q \<le> 2 ^ 31 \<and> length (cq_queue q) = cq_size q \<and>
     cq_first q < cq_size q \<and> cq_last q < cq_size q \<and>
     (\<forall>i < cq_count q. cq_queue q ! cq_slot q i \<noteq> None)"

section \<open>What a client relies on\<close>

locale fifo =
  fixes items :: "'q \<Rightarrow> 'a list" and good :: "'q \<Rightarrow> bool" and room :: "'q \<Rightarrow> nat"
    and push :: "'a \<Rightarrow> 'q \<Rightarrow> 'q res" and pop :: "'q \<Rightarrow> ('a \<times> 'q) res" and first :: "'q \<Rightarrow> 'a res"
  assumes push_law: "good q \<Longrightarrow> 0 < room q \<Longrightarrow>
      \<exists>q'. push x q = Inr q' \<and> good q' \<and> items q' = items q @ [x] \<and> room q \<le> Suc (room q')"
    and pop_law: "good q \<Longrightarrow> items q = x # xs \<Longrightarrow> \<exists>q'. pop q = Inr (x, q') \<and> good q' \<and> items q' = xs"
    and first_law: "good q \<Longrightarrow> items q = x # xs \<Longrightarrow> first q = Inr x"
begin

lemma push_many:
  assumes "good q" "length xs \<le> room q"
  shows "\<exists>q'. fold_r push xs q = Inr q' \<and> good q' \<and> items q' = items q @ xs"
  using assms
proof (induction xs arbitrary: q)
  case (Cons x xs)
  from push_law [OF Cons.prems(1), of x] Cons.prems(2)
  obtain q1 where q1: "push x q = Inr q1" "good q1" "items q1 = items q @ [x]" "length xs \<le> room q1"
    by auto
  from Cons.IH [OF q1(2,4)] q1(1,3) show ?case by auto
qed simp

fun drain :: "nat \<Rightarrow> 'q \<Rightarrow> ('a list \<times> 'q) res" where
  "drain 0 q = Inr ([], q)"
| "drain (Suc n) q = rbind (pop q) (\<lambda>(x, q1). rbind (drain n q1) (\<lambda>(xs, q2). Inr (x # xs, q2)))"

lemma drain_items:
  assumes "good q" "n \<le> length (items q)"
  shows "\<exists>q'. drain n q = Inr (take n (items q), q') \<and> good q' \<and> items q' = drop n (items q)"
  using assms
proof (induction n arbitrary: q)
  case (Suc n)
  then obtain x xs where xs: "items q = x # xs" by (cases "items q") auto
  from pop_law [OF Suc.prems(1) xs] obtain q1 where q1: "pop q = Inr (x, q1)" "good q1" "items q1 = xs" by blast
  from Suc.IH [OF q1(2)] Suc.prems(2) xs q1(1,3) show ?case by auto
qed simp

lemma first_in_first_out:
  assumes "good q" "items q = []" "length xs \<le> room q" "n \<le> length xs"
  shows "\<exists>q1 q2. fold_r push xs q = Inr q1 \<and> drain n q1 = Inr (take n xs, q2) \<and> items q2 = drop n xs"
proof -
  from push_many [OF assms(1,3)] assms(2) obtain q1 where q1: "fold_r push xs q = Inr q1" "good q1" "items q1 = xs" by auto
  from drain_items [OF q1(2)] q1(3) assms(4) obtain q2 where "drain n q1 = Inr (take n xs, q2)" "items q2 = drop n xs" by auto
  with q1(1) show ?thesis by blast
qed

end

section \<open>The queues per address\<close>

lemma queue_at_enqueue [simp]: "queue_at b (enqueue a r q) = (if a = b then queue_at a q @ [r] else queue_at b q)"
  by (auto simp: queue_at_def enqueue_def split: option.splits)

lemma queue_at_upd_front [simp]:
  "queue_at b (upd_front a f q) = (if a = b \<and> queue_at a q \<noteq> [] then f (hd (queue_at a q)) # tl (queue_at a q) else queue_at b q)"
  by (auto simp: queue_at_def upd_front_def split: option.splits list.splits)

lemma rq_size_queue_at: "rq_size a q = length (queue_at a q)"
  by (simp add: rq_size_def queue_at_def split: option.splits)

lemma rq_empty_queue_at: "rq_ok q \<Longrightarrow> rq_empty a q \<longleftrightarrow> queue_at a q = []"
  by (auto simp: rq_empty_def queue_at_def rq_ok_def split: option.splits)

lemma rq_ok_enqueue [intro]: "rq_ok q \<Longrightarrow> rq_ok (enqueue a r q)"
  by (auto simp: rq_ok_def enqueue_def split: option.splits)

lemma rq_ok_upd_front [intro]: "rq_ok q \<Longrightarrow> rq_ok (upd_front a f q)"
  by (auto simp: rq_ok_def upd_front_def split: option.splits list.splits)

lemma front_queue_at: "rq_ok q \<Longrightarrow> front a q = (case queue_at a q of [] \<Rightarrow> Inl Assert_Failed | r # rs \<Rightarrow> Inr r)"
  by (auto simp: front_def queue_at_def rq_ok_def split: option.splits list.splits)

lemma front_eq_Inr: "front a q = Inr r \<longleftrightarrow> (\<exists>rs. queue_at a q = r # rs)"
  by (auto simp: front_def queue_at_def split: option.splits list.splits)

lemma dequeue_eq_Inr:
  assumes "dequeue a q = Inr (r, q')"
  shows "queue_at a q = r # queue_at a q'" "b \<noteq> a \<Longrightarrow> queue_at b q' = queue_at b q" "rq_ok q \<Longrightarrow> rq_ok q'"
  using assms by (auto simp: dequeue_def queue_at_def rq_ok_def split: option.splits list.splits if_splits)

lemma dequeue_ok: "rq_ok q \<Longrightarrow> queue_at a q \<noteq> [] \<Longrightarrow> \<exists>q'. dequeue a q = Inr (hd (queue_at a q), q')"
  by (auto simp: dequeue_def queue_at_def rq_ok_def split: option.splits list.splits)

interpretation rq: fifo "queue_at a" rq_ok "\<lambda>q. Suc n" "\<lambda>r q. Inr (enqueue a r q)" "dequeue a" "front a" for a n
proof unfold_locales
  show "\<exists>q'. Inr (enqueue a r q) = (Inr q' :: 'b req_queue_list res) \<and> rq_ok q' \<and> queue_at a q' = queue_at a q @ [r] \<and> Suc n \<le> Suc (Suc n)"
    if "rq_ok q" for q :: "'b req_queue_list" and r using that by auto
  show "\<exists>q'. dequeue a q = Inr (r, q') \<and> rq_ok q' \<and> queue_at a q' = rs"
    if "rq_ok q" "queue_at a q = r # rs" for q :: "'b req_queue_list" and r rs
    using dequeue_ok [OF that(1), of a] that dequeue_eq_Inr by fastforce
  show "front a q = Inr r" if "rq_ok q" "queue_at a q = r # rs" for q :: "'b req_queue_list" and r rs
    using that by (simp add: front_queue_at)
qed

section \<open>The ring buffer is a bounded queue\<close>

lemma cq_mod_ok [simp]: "cq_ok q \<Longrightarrow> cq_mod q n = Inr (n mod cq_size q)"
  by (simp add: cq_mod_def cq_ok_def)

lemma cq_ok_sizes: "cq_ok q \<Longrightarrow> 0 < cq_size q \<and> cq_size q \<le> 2 ^ 31 \<and> cq_first q < cq_size q \<and> cq_last q < cq_size q"
  by (simp add: cq_ok_def)

lemma cq_count_eq:
  "cq_ok q \<Longrightarrow> cq_count q = (if cq_last q \<le> cq_first q then cq_first q - cq_last q else cq_first q + cq_size q - cq_last q)"
  by (auto simp: cq_count_def cq_ok_def mod_if)

lemma cq_count_less: "cq_ok q \<Longrightarrow> cq_count q < cq_size q"
  by (simp add: cq_count_def cq_ok_def)

lemma cq_slot_eq:
  "cq_ok q \<Longrightarrow> i < cq_size q \<Longrightarrow>
     cq_slot q i = (if cq_last q + i < cq_size q then cq_last q + i else cq_last q + i - cq_size q)"
  by (auto simp: cq_slot_def cq_ok_def mod_if)

lemma cq_slot_count [simp]: "cq_ok q \<Longrightarrow> cq_slot q (cq_count q) = cq_first q"
  using cq_ok_sizes [of q] cq_count_less [of q] by (auto simp: cq_slot_eq cq_count_eq split: if_splits)

lemma cq_slot_less: "cq_ok q \<Longrightarrow> cq_slot q i < length (cq_queue q)"
  by (simp add: cq_slot_def cq_ok_def)

lemma cq_slot_inj: "cq_ok q \<Longrightarrow> i < cq_size q \<Longrightarrow> j < cq_size q \<Longrightarrow> cq_slot q i = cq_slot q j \<longleftrightarrow> i = j"
  using cq_ok_sizes [of q] by (auto simp: cq_slot_eq split: if_splits)

lemma cq_length_ok: "cq_ok q \<Longrightarrow> cq_length q = Inr (length (cq_items q))"
  using cq_ok_sizes [of q] by (simp add: cq_length_def cq_items_def cq_count_def)

lemma cq_empty_iff: "cq_ok q \<Longrightarrow> cq_empty q \<longleftrightarrow> cq_items q = []"
  using cq_ok_sizes [of q] by (auto simp: cq_empty_def cq_items_def cq_count_eq split: if_splits)

lemma next_slot: "x < (n :: nat) \<Longrightarrow> Suc x mod n = (if Suc x = n then 0 else Suc x)"
  by (auto simp: mod_if)

lemma cq_full_iff: "cq_ok q \<Longrightarrow> cq_full q = Inr (Suc (length (cq_items q)) = cq_size q)"
  using cq_ok_sizes [of q] by (auto simp: cq_full_def cq_items_def next_slot cq_count_eq)

lemma cq_get_item:
  assumes "cq_ok q" "i < length (cq_items q)"
  shows "cq_get q (cq_slot q i) = Inr (cq_items q ! i)"
proof -
  have "i < cq_count q" using assms(2) by (simp add: cq_items_def)
  moreover from this obtain v where "cq_queue q ! cq_slot q i = Some v" using assms(1) by (auto simp: cq_ok_def)
  ultimately show ?thesis using cq_slot_less [OF assms(1)] by (simp add: cq_get_def cq_items_def)
qed

lemma cq_push_ok:
  assumes ok: "cq_ok q" and room: "Suc (length (cq_items q)) < cq_size q"
  shows "\<exists>q'. cq_push x q = Inr q' \<and> cq_ok q' \<and> cq_items q' = cq_items q @ [x] \<and> cq_size q' = cq_size q"
proof -
  note sz = cq_ok_sizes [OF ok]
  let ?q = "q\<lparr> cq_queue := (cq_queue q)[cq_first q := Some x], cq_first := add32 (cq_first q) 1 mod cq_size q \<rparr>"
  have push: "cq_push x q = Inr ?q"
    using ok room sz by (simp add: cq_push_def cq_full_iff upd_r_def cq_ok_def)
  have cnt: "Suc (cq_count q) < cq_size q" using room by (simp add: cq_items_def)
  have cnt': "cq_count ?q = Suc (cq_count q)"
    using cnt sz cq_count_eq [OF ok] by (auto simp: cq_count_def next_slot mod_if split: if_splits)
  have slot: "cq_slot ?q i = cq_slot q i" for i by (simp add: cq_slot_def)
  have old: "cq_slot q i \<noteq> cq_first q" if "i < cq_count q" for i
    using cq_slot_inj [OF ok, of i "cq_count q"] cq_slot_count [OF ok] that cnt by auto
  have first: "cq_first q < length (cq_queue q)" using ok by (simp add: cq_ok_def)
  have val: "cq_queue ?q ! cq_slot q i = (if i = cq_count q then Some x else cq_queue q ! cq_slot q i)"
    if "i < Suc (cq_count q)" for i
    using that old [of i] first cq_slot_count [OF ok] by auto
  have "cq_items ?q = cq_items q @ [x]"
    unfolding cq_items_def cnt' slot using val by (auto intro!: map_cong)
  moreover have "cq_ok ?q"
    unfolding cq_ok_def cnt' slot using ok val sz by (auto simp: cq_ok_def less_Suc_eq)
  ultimately show ?thesis using push by auto
qed

lemma cq_push_next:
  "cq_push x q = rbind (cq_next q) (\<lambda>(i, q'). rbind (upd_r (cq_queue q') i (Some x)) (\<lambda>xs. Inr (q'\<lparr> cq_queue := xs \<rparr>)))"
  by (cases "cq_full q"; cases "cq_mod q (add32 (cq_first q) 1)")
    (auto simp: cq_push_def cq_next_def nth_r_def upd_r_def)

lemma cq_copy_ok: "cq_ok q \<Longrightarrow> cq_items q = [] \<Longrightarrow> \<exists>q'. cq_copy q = Inr q' \<and> cq_ok q' \<and> cq_items q' = []"
  by (simp add: cq_copy_def cq_length_ok, simp add: cq_ok_def cq_items_def cq_count_def)

lemma cq_pop_ok:
  assumes ok: "cq_ok q" and items: "cq_items q = x # xs"
  shows "\<exists>q'. cq_pop q = Inr (x, q') \<and> cq_ok q' \<and> cq_items q' = xs \<and> cq_size q' = cq_size q"
proof -
  note sz = cq_ok_sizes [OF ok]
  let ?q = "q\<lparr> cq_last := add32 (cq_last q) 1 mod cq_size q \<rparr>"
  have n: "cq_count q = Suc (length xs)" using arg_cong [OF items, of length] by (simp add: cq_items_def)
  have "cq_slot q 0 = cq_last q" using sz by (simp add: cq_slot_def)
  then have "cq_get q (cq_last q) = Inr x" using cq_get_item [OF ok, of 0] items by simp
  then have pop: "cq_pop q = Inr (x, ?q)" using ok items by (simp add: cq_pop_def cq_empty_iff)
  have cnt': "cq_count ?q = length xs"
    using n sz cq_count_eq [OF ok] by (auto simp: cq_count_def next_slot mod_if split: if_splits)
  have slot: "cq_slot ?q i = cq_slot q (Suc i)" for i
    using sz by (simp add: cq_slot_def mod_add_left_eq)
  have "cq_items ?q = tl (cq_items q)"
    unfolding cq_items_def cnt' slot n by (rule nth_equalityI) (auto simp: nth_tl simp del: upt_Suc)
  moreover have "cq_ok ?q"
    unfolding cq_ok_def cnt' slot using ok n sz by (auto simp: cq_ok_def)
  ultimately show ?thesis using pop items by auto
qed

lemma cq_front_ok: "cq_ok q \<Longrightarrow> cq_items q = x # xs \<Longrightarrow> cq_front q = Inr x"
  using cq_get_item [of q 0] cq_ok_sizes [of q] by (simp add: cq_front_def cq_empty_iff cq_slot_def)

interpretation cq: fifo cq_items cq_ok "\<lambda>q. cq_size q - Suc (length (cq_items q))" cq_push cq_pop cq_front
proof unfold_locales
  show "\<exists>q'. cq_push x q = Inr q' \<and> cq_ok q' \<and> cq_items q' = cq_items q @ [x] \<and>
      cq_size q - Suc (length (cq_items q)) \<le> Suc (cq_size q' - Suc (length (cq_items q')))"
    if "cq_ok q" "0 < cq_size q - Suc (length (cq_items q))" for q :: "'a circular_queue" and x
    using cq_push_ok [OF that(1), of x] that(2) by auto
  show "\<exists>q'. cq_pop q = Inr (x, q') \<and> cq_ok q' \<and> cq_items q' = xs"
    if "cq_ok q" "cq_items q = x # xs" for q :: "'a circular_queue" and x xs
    using cq_pop_ok [OF that] by blast
qed (rule cq_front_ok)

lemma youngest_slot:
  assumes "f < (n :: nat)" "l < n" "f \<noteq> l"
  shows "(f + n - 1) mod n = (l + ((f + n - l) mod n - 1)) mod n"
proof (cases "l \<le> f")
  case True
  then have k: "(f + n - l) mod n = f - l" using assms by (simp add: mod_if)
  have "l + (f - l - 1) = f - 1" "f + n - 1 = f - 1 + n" using True assms by simp_all
  then show ?thesis unfolding k by (metis mod_add_self2)
next
  case False
  then have k: "(f + n - l) mod n = f + n - l" using assms by simp
  have "l + (f + n - l - 1) = f + n - 1" using False assms by simp
  then show ?thesis unfolding k by simp
qed

lemma cq_back_ok:
  assumes ok: "cq_ok q" and "cq_items q \<noteq> []"
  shows "cq_back q = Inr (last (cq_items q))"
proof -
  note sz = cq_ok_sizes [OF ok]
  let ?n = "length (cq_items q)"
  have n: "cq_count q = ?n" "0 < ?n" using assms(2) by (simp_all add: cq_items_def)
  have "(cq_first q + cq_size q - 1) mod cq_size q = cq_slot q (cq_count q - 1)"
    unfolding cq_slot_def cq_count_def
    using sz assms(2) cq_empty_iff [OF ok] by (intro youngest_slot) (auto simp: cq_empty_def)
  then have "(cq_first q + cq_size q - 1) mod cq_size q = cq_slot q (?n - 1)" by (simp only: n(1))
  moreover have "cq_get q (cq_slot q (?n - 1)) = Inr (last (cq_items q))"
    using cq_get_item [OF ok, of "?n - 1"] n(2) assms(2) by (simp add: last_conv_nth)
  ultimately show ?thesis using assms sz by (simp add: cq_back_def cq_empty_iff)
qed

lemma cq_at_ok: "cq_ok q \<Longrightarrow> i < length (cq_items q) \<Longrightarrow> cq_at q i = Inr (cq_items q ! i)"
  using cq_get_item [of q i] cq_ok_sizes [of q] cq_count_less [of q]
  by (simp add: cq_at_def cq_length_ok cq_slot_def cq_items_def)

lemma cq_pushCircular_ok:
  assumes ok: "cq_ok q" and "1 < cq_size q"
  shows "\<exists>q'. cq_pushCircular x q = Inr q' \<and> cq_ok q' \<and>
    cq_items q' = (if Suc (length (cq_items q)) = cq_size q then tl (cq_items q) else cq_items q) @ [x]"
proof (cases "Suc (length (cq_items q)) = cq_size q")
  case True
  then obtain y ys where it: "cq_items q = y # ys" using assms(2) by (cases "cq_items q") auto
  from cq_pop_ok [OF ok it] obtain q1 where q1: "cq_pop q = Inr (y, q1)" "cq_ok q1" "cq_items q1 = ys" "cq_size q1 = cq_size q" by blast
  have "Suc (length (cq_items q1)) < cq_size q1" using True it q1 by simp
  from cq_push_ok [OF q1(2) this, of x] q1 it True ok show ?thesis
    by (auto simp: cq_pushCircular_def cq_full_iff)
next
  case False
  then have "Suc (length (cq_items q)) < cq_size q"
    using cq_count_less [OF ok] by (simp add: cq_items_def)
  from cq_push_ok [OF ok this, of x] False ok show ?thesis
    by (auto simp: cq_pushCircular_def cq_full_iff)
qed

lemma CircularQueue_ok: "n < 2 ^ 31 \<Longrightarrow> cq_ok (CircularQueue n :: 'a circular_queue) \<and>
    cq_items (CircularQueue n :: 'a circular_queue) = [] \<and> cq_size (CircularQueue n :: 'a circular_queue) = Suc n"
  by (simp add: CircularQueue_def cq_ok_def cq_items_def cq_count_def)

text \<open>C35: the ring buffer is a bounded first-in-first-out queue. Built for \<open>n\<close> elements it accepts
  \<open>n\<close> elements and refuses the next one; elements come out in the order they went in; the size, the
  oldest, the youngest and the indexed element agree with the list of elements. Pushing onto a full
  buffer with \<^verbatim>\<open>pushCircular\<close> drops the oldest element only.\<close>

theorem circular_queue_is_fifo:
  assumes "cq_ok q"
  shows "cq_length q = Inr (length (cq_items q)) \<and>
    (if Suc (length (cq_items q)) = cq_size q then cq_push x q = Inl Assert_Failed
     else \<exists>q'. cq_push x q = Inr q' \<and> cq_ok q' \<and> cq_items q' = cq_items q @ [x]) \<and>
    (case cq_items q of
       [] \<Rightarrow> cq_pop q = Inl Assert_Failed
     | y # ys \<Rightarrow> (\<exists>q'. cq_pop q = Inr (y, q') \<and> cq_ok q' \<and> cq_items q' = ys) \<and>
         cq_front q = Inr y \<and> cq_back q = Inr (last (y # ys))) \<and>
    (\<forall>i < length (cq_items q). cq_at q i = Inr (cq_items q ! i)) \<and>
    (1 < cq_size q \<longrightarrow> (\<exists>q'. cq_pushCircular x q = Inr q' \<and> cq_ok q' \<and>
       cq_items q' = (if Suc (length (cq_items q)) = cq_size q then tl (cq_items q) else cq_items q) @ [x]))"
proof (intro conjI)
  show "if Suc (length (cq_items q)) = cq_size q then cq_push x q = Inl Assert_Failed
     else \<exists>q'. cq_push x q = Inr q' \<and> cq_ok q' \<and> cq_items q' = cq_items q @ [x]"
  proof (cases "Suc (length (cq_items q)) = cq_size q")
    case False
    then have "0 < cq_size q - Suc (length (cq_items q))"
      using cq_count_less [OF assms] by (simp add: cq_items_def)
    from cq.push_law [OF assms this, of x] False show ?thesis by auto
  qed (use assms in \<open>simp add: cq_push_def cq_full_iff\<close>)
  show "case cq_items q of
       [] \<Rightarrow> cq_pop q = Inl Assert_Failed
     | y # ys \<Rightarrow> (\<exists>q'. cq_pop q = Inr (y, q') \<and> cq_ok q' \<and> cq_items q' = ys) \<and>
         cq_front q = Inr y \<and> cq_back q = Inr (last (y # ys))"
    using cq.pop_law [OF assms] cq.first_law [OF assms] cq_back_ok [OF assms] assms
    by (auto simp: cq_pop_def cq_empty_iff split: list.splits)
  show "\<forall>i < length (cq_items q). cq_at q i = Inr (cq_items q ! i)" using cq_at_ok [OF assms] by blast
  show "1 < cq_size q \<longrightarrow> (\<exists>q'. cq_pushCircular x q = Inr q' \<and> cq_ok q' \<and>
       cq_items q' = (if Suc (length (cq_items q)) = cq_size q then tl (cq_items q) else cq_items q) @ [x])"
    using cq_pushCircular_ok [OF assms] by blast
qed (rule cq_length_ok [OF assms])

theorem circular_queue_is_fifo_witness:
  "\<exists>q'. cq_push (7 :: nat) (CircularQueue 2) = Inr q' \<and> cq_items q' = [7]"
proof -
  have "cq_ok (CircularQueue 2 :: nat circular_queue)" and e: "cq_items (CircularQueue 2 :: nat circular_queue) = []"
    "cq_size (CircularQueue 2 :: nat circular_queue) = 3"
    using CircularQueue_ok [of 2, where ?'a = nat] by simp_all
  from circular_queue_is_fifo [OF this(1), of 7] show ?thesis unfolding e by auto
qed

end
