(* ===== verification/Directory.thy ===== *)
theory Directory
  imports Cache_Block_Info Req_Queue
begin

unbundle bit_operations_syntax

text \<open>
  The coherence directory's data: directory entries of
  \<^verbatim>\<open>directory_schemes/directory_entry*.h\<close>, the array of entries of
  \<^verbatim>\<open>directory_schemes/directory.cc\<close> and the set-associative directory cache of
  \<^verbatim>\<open>pr_l1_pr_l2_dram_directory_msi/dram_directory_cache.cc\<close>.

  Entries are heap objects in the code. An entry is either in the array or in the list of replaced
  entries, and no pointer to an entry is used after the entry has moved; the model points at an
  entry with its place (\<open>Slot\<close> or \<open>Replaced\<close>).
\<close>

section \<open>The simulated clock and the random numbers\<close>

text \<open>The clock is the simulation thread's element of \<^verbatim>\<open>ShmemPerfModel::m_elapsed_time\<close>.\<close>

definition updateElapsedTime :: "time \<Rightarrow> time \<Rightarrow> time" where
  "updateElapsedTime t now = (if now < t then t else now)"

definition incrElapsedTime :: "time \<Rightarrow> time \<Rightarrow> time res" where
  "incrElapsedTime t now = (if now + t < now then Inl Assert_Failed else Inr (now + t))"

text \<open>\<^verbatim>\<open>Random::next\<close>; the limit is not zero where it is used.\<close>

definition rand_next :: "u32 \<Rightarrow> u32 \<Rightarrow> u32 \<times> u32" where
  "rand_next limit seed =
     (let s = seed * 1103515245 + 12345 in ((s div 65536) mod limit, s))"

section \<open>Directory entries\<close>

datatype dstate_t = UNCACHED | SHARED | OWNED | MODIFIED | EXCLUSIVE

datatype entry_kind = Limited_No_Broadcast | Limitless

record directory_entry =
  m_address :: u64
  m_dstate :: dstate_t
  m_owner_id :: core_id
  m_forwarder_id :: core_id
  m_sharers :: "bool list"
  m_entry_kind :: entry_kind
  m_rand_num :: u32
  m_software_trap_enabled :: bool
  m_software_trap_penalty :: time

text \<open>The number of bits the storage class chosen by \<^verbatim>\<open>createDirectoryEntry\<close> holds.\<close>

definition sharers_capacity :: "nat \<Rightarrow> nat" where
  "sharers_capacity max_num_sharers =
     (if max_num_sharers \<le> 64 then 64
      else if max_num_sharers \<le> 128 then 128
      else if max_num_sharers \<le> 256 then 256
      else if max_num_sharers \<le> 1024 then 1024
      else max_num_sharers)"

text \<open>The constructor does not assign \<^verbatim>\<open>m_forwarder_id\<close>; \<open>junk\<close> is what it finds there.\<close>

definition DirectoryEntry :: "entry_kind \<Rightarrow> nat \<Rightarrow> time \<Rightarrow> core_id \<Rightarrow> directory_entry" where
  "DirectoryEntry kind max_num_sharers penalty junk =
     \<lparr> m_address = INVALID_ADDRESS, m_dstate = UNCACHED, m_owner_id = INVALID_CORE_ID,
       m_forwarder_id = junk, m_sharers = replicate (sharers_capacity max_num_sharers) False,
       m_entry_kind = kind, m_rand_num = 1, m_software_trap_enabled = False,
       m_software_trap_penalty = penalty \<rparr>"

definition hasSharer :: "core_id \<Rightarrow> directory_entry \<Rightarrow> bool res" where
  "hasSharer c e = (if c < 0 then Inl Out_Of_Bounds else nth_r (m_sharers e) (nat c))"

definition getNumSharers :: "directory_entry \<Rightarrow> nat" where
  "getNumSharers e = length (filter id (m_sharers e))"

text \<open>The first component says whether invalidations are to be broadcast; it is never set.\<close>

definition getSharersList :: "directory_entry \<Rightarrow> bool \<times> core_id list" where
  "getSharersList e = (False, map int (filter (\<lambda>j. m_sharers e ! j) [0..<length (m_sharers e)]))"

definition addSharer :: "core_id \<Rightarrow> nat \<Rightarrow> directory_entry \<Rightarrow> (bool \<times> directory_entry) res" where
  "addSharer c max_hw_sharers e = rbind (hasSharer c e) (\<lambda>has.
     if has then Inl Assert_Failed
     else case m_entry_kind e of
       Limited_No_Broadcast \<Rightarrow>
         if getNumSharers e \<ge> max_hw_sharers then Inr (False, e)
         else Inr (True, e\<lparr> m_sharers := (m_sharers e)[nat c := True] \<rparr>)
     | Limitless \<Rightarrow>
         let e1 = (if length (m_sharers e) = max_hw_sharers then e\<lparr> m_software_trap_enabled := True \<rparr> else e)
         in Inr (True, e1\<lparr> m_sharers := (m_sharers e)[nat c := True] \<rparr>))"

definition removeSharer :: "core_id \<Rightarrow> bool \<Rightarrow> directory_entry \<Rightarrow> directory_entry res" where
  "removeSharer c reply_expected e =
     (if reply_expected then Inl Assert_Failed
      else rbind (hasSharer c e) (\<lambda>has.
        if \<not> has then Inl Assert_Failed
        else Inr (e\<lparr> m_sharers := (m_sharers e)[nat c := False] \<rparr>)))"

definition setOwner :: "core_id \<Rightarrow> directory_entry \<Rightarrow> directory_entry res" where
  "setOwner c e =
     (if c = INVALID_CORE_ID then Inr (e\<lparr> m_owner_id := c \<rparr>)
      else rbind (hasSharer c e) (\<lambda>has.
        if \<not> has then Inl Assert_Failed else Inr (e\<lparr> m_owner_id := c \<rparr>)))"

definition getOneSharer :: "directory_entry \<Rightarrow> (core_id \<times> directory_entry) res" where
  "getOneSharer e =
     (let l = snd (getSharersList e)
      in if l = [] then Inl Assert_Failed
         else case m_entry_kind e of
           Limited_No_Broadcast \<Rightarrow>
             let (i, s) = rand_next (of_nat (length l)) (m_rand_num e)
             in rbind (nth_r l (unat i)) (\<lambda>c. Inr (c, e\<lparr> m_rand_num := s \<rparr>))
         | Limitless \<Rightarrow> Inr (hd l, e))"

definition getLatency :: "directory_entry \<Rightarrow> time" where
  "getLatency e = (if m_entry_kind e = Limitless \<and> m_software_trap_enabled e then m_software_trap_penalty e else 0)"

section \<open>The array of entries\<close>

datatype directory_type = FULL_MAP | LIMITED_NO_BROADCAST | LIMITLESS

record directory =
  m_directory_type :: directory_type
  m_num_entries :: nat
  m_num_entries_allocated :: u64
  m_max_hw_sharers :: nat
  m_use_max_hw_sharers :: nat
  m_max_num_sharers :: nat
  m_limitless_software_trap_penalty :: time
  m_junk :: core_id
  m_directory_entry_list :: "directory_entry option list"

definition parseDirectoryType :: "string \<Rightarrow> directory_type res" where
  "parseDirectoryType s =
     (if s = ''full_map'' then Inr FULL_MAP
      else if s = ''limited_no_broadcast'' then Inr LIMITED_NO_BROADCAST
      else if s = ''limitless'' then Inr LIMITLESS
      else Inl Log_Error)"

text \<open>\<open>cfg_penalty\<close> is the configured \<^verbatim>\<open>software_trap_penalty\<close>, if there is one.\<close>

definition Directory :: "string \<Rightarrow> nat \<Rightarrow> nat \<Rightarrow> nat \<Rightarrow> time option \<Rightarrow> core_id \<Rightarrow> directory res" where
  "Directory type_str num_entries max_hw_sharers max_num_sharers cfg_penalty junk =
     rbind (parseDirectoryType type_str) (\<lambda>t.
     rbind (if t = LIMITLESS then (case cfg_penalty of None \<Rightarrow> Inl Log_Error | Some p \<Rightarrow> Inr p) else Inr 0) (\<lambda>p.
       Inr \<lparr> m_directory_type = t, m_num_entries = num_entries, m_num_entries_allocated = 0,
             m_max_hw_sharers = max_hw_sharers, m_use_max_hw_sharers = max_hw_sharers,
             m_max_num_sharers = max_num_sharers, m_limitless_software_trap_penalty = p,
             m_junk = junk, m_directory_entry_list = replicate num_entries None \<rparr>))"

definition createDirectoryEntry :: "directory \<Rightarrow> directory_entry \<times> directory" where
  "createDirectoryEntry d =
     (case m_directory_type d of
        FULL_MAP \<Rightarrow> (DirectoryEntry Limited_No_Broadcast (m_max_num_sharers d) 0 (m_junk d),
                     d\<lparr> m_use_max_hw_sharers := m_max_num_sharers d \<rparr>)
      | LIMITED_NO_BROADCAST \<Rightarrow> (DirectoryEntry Limited_No_Broadcast (m_max_num_sharers d) 0 (m_junk d), d)
      | LIMITLESS \<Rightarrow>
          (DirectoryEntry Limitless (m_max_num_sharers d) (m_limitless_software_trap_penalty d) (m_junk d), d))"

text \<open>\<^verbatim>\<open>Directory::getDirectoryEntry\<close>: the entry with a number, created on first use.\<close>

definition dir_entry_at :: "nat \<Rightarrow> directory \<Rightarrow> (directory_entry \<times> directory) res" where
  "dir_entry_at n d =
     (if \<not> n < m_num_entries d then Inl Assert_Failed
      else rbind (nth_r (m_directory_entry_list d) n) (\<lambda>x. case x of
        Some e \<Rightarrow> Inr (e, d)
      | None \<Rightarrow>
          let (e, d1) = createDirectoryEntry d
          in Inr (e, d1\<lparr> m_directory_entry_list := (m_directory_entry_list d1)[n := Some e],
                        m_num_entries_allocated := m_num_entries_allocated d1 + 1 \<rparr>)))"

definition setDirectoryEntry :: "nat \<Rightarrow> directory_entry \<Rightarrow> directory \<Rightarrow> directory res" where
  "setDirectoryEntry n e d = rbind (upd_r (m_directory_entry_list d) n (Some e))
     (\<lambda>l. Inr (d\<lparr> m_directory_entry_list := l \<rparr>))"

section \<open>The directory cache\<close>

datatype entry_ref = Slot nat | Replaced nat

text \<open>\<open>m_replacement_ptrs\<close> is not initialised by the constructor; \<open>ptrs\<close> is what it finds there.\<close>

record dram_directory_cache =
  m_directory :: directory
  m_replacement_ptrs :: "u32 list"
  m_replaced_directory_entry_list :: "directory_entry list"
  m_dd_associativity :: u32
  m_dd_num_sets :: u32
  m_log_num_sets :: u32
  m_log_cache_block_size :: u32
  m_dram_directory_cache_access_time :: time

definition DramDirectoryCache ::
    "string \<Rightarrow> u32 \<Rightarrow> u32 \<Rightarrow> u32 \<Rightarrow> nat \<Rightarrow> nat \<Rightarrow> time \<Rightarrow> time option \<Rightarrow> core_id \<Rightarrow> (nat \<Rightarrow> u32)
     \<Rightarrow> dram_directory_cache res" where
  "DramDirectoryCache type_str total_entries associativity block_size max_hw_sharers max_num_sharers
     access_time cfg_penalty junk ptrs =
     (if associativity = 0 then Inl Undefined
      else
        let num_sets = total_entries div associativity
        in rbind (Directory type_str (unat total_entries) max_hw_sharers max_num_sharers cfg_penalty junk) (\<lambda>d.
          Inr \<lparr> m_directory = d, m_replacement_ptrs = map ptrs [0..<unat num_sets],
                m_replaced_directory_entry_list = [], m_dd_associativity = associativity,
                m_dd_num_sets = num_sets, m_log_num_sets = of_int (floorLog2 num_sets),
                m_log_cache_block_size = of_int (floorLog2 block_size),
                m_dram_directory_cache_access_time = access_time \<rparr>))"

definition getMaxHwSharers :: "dram_directory_cache \<Rightarrow> nat" where
  "getMaxHwSharers dc = m_use_max_hw_sharers (m_directory dc)"

text \<open>Tag and set index; the shifts are undefined for widths of 64 and more.\<close>

definition dd_splitAddress :: "dram_directory_cache \<Rightarrow> u64 \<Rightarrow> (u64 \<times> u32) res" where
  "dd_splitAddress dc address =
     (if unat (m_log_cache_block_size dc) \<ge> 64 \<or> unat (m_log_num_sets dc) \<ge> 64 then Inl Undefined
      else
        let block = drop_bit (unat (m_log_cache_block_size dc)) address
        in Inr (drop_bit (unat (m_log_num_sets dc)) block, ucast block AND (m_dd_num_sets dc - 1)))"

definition slot_num :: "dram_directory_cache \<Rightarrow> u32 \<Rightarrow> u32 \<Rightarrow> nat" where
  "slot_num dc set_index i = unat (set_index * m_dd_associativity dc + i)"

definition set_slots :: "dram_directory_cache \<Rightarrow> u32 \<Rightarrow> nat list" where
  "set_slots dc set_index = map (\<lambda>i. slot_num dc set_index (of_nat i)) [0..<unat (m_dd_associativity dc)]"

text \<open>A loop over slots that returns the first entry with a property.\<close>

fun find_slot :: "(directory_entry \<Rightarrow> bool) \<Rightarrow> nat list \<Rightarrow> directory \<Rightarrow> (nat option \<times> directory) res" where
  "find_slot P [] d = Inr (None, d)"
| "find_slot P (n # ns) d = rbind (dir_entry_at n d) (\<lambda>(e, d1).
     if P e then Inr (Some n, d1) else find_slot P ns d1)"

definition find_replaced :: "u64 \<Rightarrow> directory_entry list \<Rightarrow> nat option" where
  "find_replaced a l = find (\<lambda>k. m_address (l ! k) = a) [0..<length l]"

definition get_entry :: "entry_ref \<Rightarrow> dram_directory_cache \<Rightarrow> directory_entry res" where
  "get_entry r dc = (case r of
      Slot n \<Rightarrow> rbind (nth_r (m_directory_entry_list (m_directory dc)) n)
        (\<lambda>x. case x of None \<Rightarrow> Inl Null_Deref | Some e \<Rightarrow> Inr e)
    | Replaced k \<Rightarrow> nth_r (m_replaced_directory_entry_list dc) k)"

definition put_entry :: "entry_ref \<Rightarrow> directory_entry \<Rightarrow> dram_directory_cache \<Rightarrow> dram_directory_cache res" where
  "put_entry r e dc = (case r of
      Slot n \<Rightarrow> rbind (setDirectoryEntry n e (m_directory dc)) (\<lambda>d. Inr (dc\<lparr> m_directory := d \<rparr>))
    | Replaced k \<Rightarrow> rbind (upd_r (m_replaced_directory_entry_list dc) k e)
        (\<lambda>l. Inr (dc\<lparr> m_replaced_directory_entry_list := l \<rparr>)))"

definition getDirectoryEntry ::
    "u64 \<Rightarrow> bool \<Rightarrow> time \<times> dram_directory_cache \<Rightarrow> (entry_ref option \<times> time \<times> dram_directory_cache) res" where
  "getDirectoryEntry address modeled tdc =
     (let (now, dc) = tdc in
      rbind (if modeled then incrElapsedTime (m_dram_directory_cache_access_time dc) now else Inr now) (\<lambda>now1.
      rbind (dd_splitAddress dc address) (\<lambda>(tag, set_index).
      rbind (find_slot (\<lambda>e. m_address e = address) (set_slots dc set_index) (m_directory dc)) (\<lambda>(hit, d1).
        let dc1 = dc\<lparr> m_directory := d1 \<rparr>
        in case hit of
          Some n \<Rightarrow>
            rbind (get_entry (Slot n) dc1) (\<lambda>e.
            rbind (if modeled then incrElapsedTime (getLatency e) now1 else Inr now1) (\<lambda>now2.
              Inr (Some (Slot n), now2, dc1)))
        | None \<Rightarrow>
            rbind (find_slot (\<lambda>e. m_address e = INVALID_ADDRESS) (set_slots dc set_index) d1) (\<lambda>(free, d2).
              let dc2 = dc\<lparr> m_directory := d2 \<rparr>
              in case free of
                Some n \<Rightarrow>
                  rbind (get_entry (Slot n) dc2) (\<lambda>e.
                  rbind (put_entry (Slot n) (e\<lparr> m_address := address \<rparr>) dc2) (\<lambda>dc3.
                    Inr (Some (Slot n), now1, dc3)))
              | None \<Rightarrow>
                  Inr (map_option Replaced (find_replaced address (m_replaced_directory_entry_list dc2)), now1, dc2))))))"

text \<open>The candidates are slots; the pointer of the set moves on.\<close>

definition getReplacementCandidates ::
    "u64 \<Rightarrow> time \<times> dram_directory_cache \<Rightarrow> (nat list \<times> time \<times> dram_directory_cache) res" where
  "getReplacementCandidates address tdc =
     rbind (getDirectoryEntry address False tdc) (\<lambda>(r, now, dc).
     if r \<noteq> None then Inl Assert_Failed
     else
       rbind (dd_splitAddress dc address) (\<lambda>(tag, set_index).
       rbind (nth_r (m_replacement_ptrs dc) (unat set_index)) (\<lambda>ptr.
         let slots = map (\<lambda>i. slot_num dc set_index ((of_nat i + ptr) mod m_dd_associativity dc))
               [0..<unat (m_dd_associativity dc)]
         in rbind (find_slot (\<lambda>e. False) slots (m_directory dc)) (\<lambda>(x, d1).
           Inr (slots, now, dc\<lparr> m_directory := d1,
                 m_replacement_ptrs := (m_replacement_ptrs dc)[unat set_index := ptr + 1] \<rparr>)))))"

definition replaceDirectoryEntry ::
    "u64 \<Rightarrow> u64 \<Rightarrow> bool \<Rightarrow> time \<times> dram_directory_cache \<Rightarrow> (entry_ref \<times> time \<times> dram_directory_cache) res" where
  "replaceDirectoryEntry replaced_address address modeled tdc =
     (let (now, dc) = tdc in
      rbind (if modeled then incrElapsedTime (m_dram_directory_cache_access_time dc) now else Inr now) (\<lambda>now1.
      rbind (dd_splitAddress dc replaced_address) (\<lambda>(tag, set_index).
      rbind (find_slot (\<lambda>e. m_address e = replaced_address) (set_slots dc set_index) (m_directory dc)) (\<lambda>(hit, d1).
        case hit of
          None \<Rightarrow> Inl Log_Error
        | Some n \<Rightarrow>
            rbind (get_entry (Slot n) (dc\<lparr> m_directory := d1 \<rparr>)) (\<lambda>old.
            let (e, d2) = createDirectoryEntry d1
            in rbind (setDirectoryEntry n (e\<lparr> m_address := address \<rparr>) d2) (\<lambda>d3.
              Inr (Slot n, now1, dc\<lparr> m_directory := d3,
                m_replaced_directory_entry_list := m_replaced_directory_entry_list dc @ [old] \<rparr>)))))))"

definition invalidateDirectoryEntry :: "u64 \<Rightarrow> dram_directory_cache \<Rightarrow> dram_directory_cache res" where
  "invalidateDirectoryEntry address dc =
     (case find_replaced address (m_replaced_directory_entry_list dc) of
        None \<Rightarrow> Inl Log_Error
      | Some k \<Rightarrow> Inr (dc\<lparr> m_replaced_directory_entry_list :=
          take k (m_replaced_directory_entry_list dc) @ drop (Suc k) (m_replaced_directory_entry_list dc) \<rparr>))"

end
