(* ===== verification/Directory_Cntlr.thy ===== *)
theory Directory_Cntlr
  imports Directory
begin

text \<open>
  The coherence controller of \<^verbatim>\<open>pr_l1_pr_l2_dram_directory_msi/dram_directory_cntlr.cc\<close>: the
  handlers of the messages from the last-level caches and from DRAM, the requests that wait for
  them, and the delivery of a packet by \<^verbatim>\<open>MemoryManager::handleMsgFromNetwork\<close>.

  Messages the controller sends are collected in \<open>m_sent\<close>, in order, with the simulated time at
  which they are sent. \<^verbatim>\<open>ShmemPerf\<close>, the breakdown of a request's latency kept for the statistics of
  the requesting core, is not modelled.

  The handlers call each other: a finished request starts the next one. \<^verbatim>\<open>processNextReqFromL2Cache\<close>
  is passed to the handlers as the argument \<open>next\<close>, and is defined with fuel at the end.
\<close>

section \<open>Messages and requests\<close>

datatype msg_t =
    INVALID_MSG_TYPE | EX_REQ | SH_REQ | UPGRADE_REQ | INV_REQ | FLUSH_REQ | WB_REQ
  | EX_REP | SH_REP | UPGRADE_REP | INV_REP | FLUSH_REP | WB_REP | NULLIFY_REQ
  | DRAM_READ_REQ | DRAM_WRITE_REQ | DRAM_READ_REP

datatype where_t =
    WHERE_FIRST | L1I | L1_OWN | L2_OWN | L3_OWN | L4_OWN | MISS | NUCA_CACHE | DRAM_CACHE | DRAM
  | DRAM_LOCAL | DRAM_REMOTE | CACHE_REMOTE | SIBLING | L1_SIBLING | L2_SIBLING | L3_SIBLING
  | L4_SIBLING | UNKNOWN | PREDICATE_FALSE | PREFETCH_NO_MAPPING

text \<open>A data pointer of a message: null, to the bytes of a live buffer, or to a deleted buffer.\<close>

datatype data_ptr = Null_Ptr | Buf "u8 list" | Deleted

text \<open>\<open>m_where\<close> is \<open>None\<close> in a copied message: the copy constructor does not assign it.\<close>

record shmem_msg =
  m_msg_type :: msg_t
  m_sender_mem_component :: mem_component
  m_receiver_mem_component :: mem_component
  m_requester :: core_id
  m_where :: "where_t option"
  m_msg_address :: u64
  m_data_buf :: data_ptr

record shmem_req =
  m_shmem_msg :: shmem_msg
  m_time :: time
  m_wait_for_data :: bool
  m_forwarding_from :: core_id

record packet =
  pkt_time :: time
  pkt_receiver :: core_id
  pkt_msg :: shmem_msg

datatype protocol_t = MSI | MESI | MESIF

record dir_cntlr =
  m_dram_directory_cache :: dram_directory_cache
  m_dram_directory_req_queue_list :: "shmem_req req_queue_list"
  m_dram_controller_home_lookup :: address_home_lookup
  m_dd_block_size :: nat
  m_protocol :: protocol_t
  m_elapsed :: time
  evict :: "dstate_t \<Rightarrow> u64"
  forward :: u64
  forward_failed :: u64
  m_sent :: "packet list"

definition BROADCAST :: core_id where "BROADCAST = sint (0xDEADBABE :: u32)"

definition parseProtocol :: "string \<Rightarrow> protocol_t res" where
  "parseProtocol s =
     (if s = ''msi'' then Inr MSI else if s = ''mesi'' then Inr MESI
      else if s = ''mesif'' then Inr MESIF else Inl Log_Error)"

text \<open>The controller at the start; \<open>ev\<close> is what the counter of evicted uncached entries, which the
  constructor does not assign, holds.\<close>

definition DramDirectoryCntlr ::
    "dram_directory_cache \<Rightarrow> address_home_lookup \<Rightarrow> nat \<Rightarrow> string \<Rightarrow> u64 \<Rightarrow> dir_cntlr res" where
  "DramDirectoryCntlr dc home block_size protocol ev =
     rbind (parseProtocol protocol) (\<lambda>p.
       Inr \<lparr> m_dram_directory_cache = dc, m_dram_directory_req_queue_list = (\<lambda>a. None),
             m_dram_controller_home_lookup = home, m_dd_block_size = block_size, m_protocol = p,
             m_elapsed = 0, evict = (\<lambda>s. if s = UNCACHED then ev else 0),
             forward = 0, forward_failed = 0, m_sent = [] \<rparr>)"

definition ShmemReq :: "shmem_msg \<Rightarrow> time \<Rightarrow> shmem_req res" where
  "ShmemReq msg t =
     (if m_data_buf msg \<noteq> Null_Ptr then Inl Assert_Failed
      else Inr \<lparr> m_shmem_msg = msg\<lparr> m_where := None \<rparr>, m_time = t, m_wait_for_data = False,
                 m_forwarding_from = INVALID_CORE_ID \<rparr>)"

definition updateTime :: "time \<Rightarrow> shmem_req \<Rightarrow> shmem_req" where
  "updateTime t r = (if t > m_time r then r\<lparr> m_time := t \<rparr> else r)"

definition req_type :: "shmem_req \<Rightarrow> msg_t" where
  "req_type r = m_msg_type (m_shmem_msg r)"

definition req_core :: "shmem_req \<Rightarrow> core_id" where
  "req_core r = m_requester (m_shmem_msg r)"

definition req_addr :: "shmem_req \<Rightarrow> u64" where
  "req_addr r = m_msg_address (m_shmem_msg r)"

section \<open>Sending\<close>

text \<open>\<^verbatim>\<open>ShmemMsg::makeMsgBuf\<close> copies \<open>len\<close> bytes of the data into the packet.\<close>

definition makeMsgBuf :: "data_ptr \<Rightarrow> nat \<Rightarrow> data_ptr res" where
  "makeMsgBuf buf len =
     (if len = 0 then Inr buf
      else case buf of
        Null_Ptr \<Rightarrow> Inl Assert_Failed
      | Deleted \<Rightarrow> Inl Undefined
      | Buf b \<Rightarrow> rbind (read_n b 0 len) (\<lambda>c. Inr (Buf c)))"

definition sendMsg ::
    "msg_t \<Rightarrow> mem_component \<Rightarrow> core_id \<Rightarrow> core_id \<Rightarrow> u64 \<Rightarrow> data_ptr \<Rightarrow> nat \<Rightarrow> where_t \<Rightarrow> dir_cntlr \<Rightarrow> dir_cntlr res" where
  "sendMsg typ receiver_component requester receiver address buf len whr st =
     (if (buf = Null_Ptr) \<noteq> (len = 0) then Inl Assert_Failed
      else rbind (makeMsgBuf buf len) (\<lambda>b.
        Inr (st\<lparr> m_sent := m_sent st @ [\<lparr> pkt_time = m_elapsed st, pkt_receiver = receiver,
          pkt_msg = \<lparr> m_msg_type = typ, m_sender_mem_component = TAG_DIR,
            m_receiver_mem_component = receiver_component, m_requester = requester,
            m_where = Some whr, m_msg_address = address, m_data_buf = b \<rparr> \<rparr>] \<rparr>)))"

definition sendDataToDram :: "u64 \<Rightarrow> core_id \<Rightarrow> data_ptr \<Rightarrow> dir_cntlr \<Rightarrow> dir_cntlr res" where
  "sendDataToDram address requester buf st =
     rbind (getHome (m_dram_controller_home_lookup st) address) (\<lambda>dram_node.
       sendMsg DRAM_WRITE_REQ mem_component.DRAM requester dram_node address buf (m_dd_block_size st) UNKNOWN st)"

section \<open>Entries and queues of the controller\<close>

definition lookup_entry :: "u64 \<Rightarrow> bool \<Rightarrow> dir_cntlr \<Rightarrow> (entry_ref option \<times> dir_cntlr) res" where
  "lookup_entry a modeled st =
     rbind (getDirectoryEntry a modeled (m_elapsed st, m_dram_directory_cache st)) (\<lambda>(r, t, dc).
       Inr (r, st\<lparr> m_elapsed := t, m_dram_directory_cache := dc \<rparr>))"

definition read_entry :: "entry_ref \<Rightarrow> dir_cntlr \<Rightarrow> directory_entry res" where
  "read_entry r st = get_entry r (m_dram_directory_cache st)"

definition write_entry :: "entry_ref \<Rightarrow> directory_entry \<Rightarrow> dir_cntlr \<Rightarrow> dir_cntlr res" where
  "write_entry r e st = rbind (put_entry r e (m_dram_directory_cache st))
     (\<lambda>dc. Inr (st\<lparr> m_dram_directory_cache := dc \<rparr>))"

definition req_queue :: "u64 \<Rightarrow> dir_cntlr \<Rightarrow> shmem_req list" where
  "req_queue a st = queue_at a (m_dram_directory_req_queue_list st)"

definition upd_queue ::
    "(shmem_req req_queue_list \<Rightarrow> shmem_req req_queue_list) \<Rightarrow> dir_cntlr \<Rightarrow> dir_cntlr" where
  "upd_queue f st = st\<lparr> m_dram_directory_req_queue_list := f (m_dram_directory_req_queue_list st) \<rparr>"

definition queue_front :: "u64 \<Rightarrow> dir_cntlr \<Rightarrow> shmem_req res" where
  "queue_front a st = front a (m_dram_directory_req_queue_list st)"

text \<open>Invalidations to the sharers of an entry (in \<^verbatim>\<open>processNullifyReq\<close> and
  \<^verbatim>\<open>processExReqFromL2Cache\<close>).\<close>

definition send_invalidations :: "core_id \<Rightarrow> u64 \<Rightarrow> directory_entry \<Rightarrow> dir_cntlr \<Rightarrow> dir_cntlr res" where
  "send_invalidations requester a e st =
     (let (bcast, sharers) = getSharersList e
      in if bcast then sendMsg INV_REQ L2_CACHE requester BROADCAST a Null_Ptr 0 UNKNOWN st
         else fold_r (\<lambda>c. sendMsg INV_REQ L2_CACHE requester c a Null_Ptr 0 UNKNOWN) sharers st)"

section \<open>Making room in the directory\<close>

definition processNullifyReq :: "(u64 \<Rightarrow> dir_cntlr \<Rightarrow> dir_cntlr res) \<Rightarrow> shmem_req \<Rightarrow> dir_cntlr \<Rightarrow> dir_cntlr res" where
  "processNullifyReq next req st =
     (let a = req_addr req; requester = req_core req in
      rbind (lookup_entry a False st) (\<lambda>(r, st1). case r of
        None \<Rightarrow> Inl Assert_Failed
      | Some ref \<Rightarrow>
          rbind (read_entry ref st1) (\<lambda>e. case m_dstate e of
            EXCLUSIVE \<Rightarrow> sendMsg FLUSH_REQ L2_CACHE requester (m_owner_id e) a Null_Ptr 0 UNKNOWN st1
          | MODIFIED \<Rightarrow> sendMsg FLUSH_REQ L2_CACHE requester (m_owner_id e) a Null_Ptr 0 UNKNOWN st1
          | SHARED \<Rightarrow> send_invalidations requester a e st1
          | UNCACHED \<Rightarrow>
              rbind (invalidateDirectoryEntry a (m_dram_directory_cache st1)) (\<lambda>dc.
                next a (st1\<lparr> m_dram_directory_cache := dc \<rparr>))
          | OWNED \<Rightarrow> Inl Log_Error)))"

text \<open>The candidate with the fewest sharers among those without waiting requests; the first of
  several.\<close>

fun pick_candidate :: "nat list \<Rightarrow> (nat \<times> directory_entry) option \<Rightarrow> dir_cntlr \<Rightarrow> (nat \<times> directory_entry) option res" where
  "pick_candidate [] best st = Inr best"
| "pick_candidate (n # ns) best st =
     rbind (read_entry (Slot n) st) (\<lambda>e.
       pick_candidate ns
         (if (case best of None \<Rightarrow> True | Some (m, b) \<Rightarrow> getNumSharers b > getNumSharers e) \<and>
             rq_size (m_address e) (m_dram_directory_req_queue_list st) = 0
          then Some (n, e) else best) st)"

definition nullify_msg :: "core_id \<Rightarrow> u64 \<Rightarrow> shmem_msg" where
  "nullify_msg requester a = \<lparr> m_msg_type = NULLIFY_REQ, m_sender_mem_component = TAG_DIR,
     m_receiver_mem_component = TAG_DIR, m_requester = requester, m_where = Some UNKNOWN,
     m_msg_address = a, m_data_buf = Null_Ptr \<rparr>"

definition processDirectoryEntryAllocationReq ::
    "(u64 \<Rightarrow> dir_cntlr \<Rightarrow> dir_cntlr res) \<Rightarrow> shmem_req \<Rightarrow> dir_cntlr \<Rightarrow> (entry_ref \<times> dir_cntlr) res" where
  "processDirectoryEntryAllocationReq next req st =
     (let a = req_addr req; requester = req_core req; msg_time = m_elapsed st in
      rbind (getReplacementCandidates a (m_elapsed st, m_dram_directory_cache st)) (\<lambda>(slots, t1, dc1).
      let st1 = st\<lparr> m_elapsed := t1, m_dram_directory_cache := dc1 \<rparr> in
      rbind (pick_candidate slots None st1) (\<lambda>best. case best of
        None \<Rightarrow> Inl Assert_Failed
      | Some (n, e) \<Rightarrow>
          let st2 = st1\<lparr> evict := (evict st1)(m_dstate e := evict st1 (m_dstate e) + 1) \<rparr>;
              ra = m_address e
          in rbind (replaceDirectoryEntry ra a True (m_elapsed st2, m_dram_directory_cache st2)) (\<lambda>(ref, t3, dc3).
             let st3 = st2\<lparr> m_elapsed := t3, m_dram_directory_cache := dc3 \<rparr> in
             rbind (ShmemReq (nullify_msg requester ra) msg_time) (\<lambda>nullify_req.
             let st4 = upd_queue (enqueue ra nullify_req) st3 in
             if rq_size ra (m_dram_directory_req_queue_list st4) \<noteq> 1 then Inl Assert_Failed
             else rbind (processNullifyReq next nullify_req st4) (\<lambda>st5. Inr (ref, st5)))))))"

text \<open>The entry of a request's address, allocated when the directory has none.\<close>

definition entry_for ::
    "(u64 \<Rightarrow> dir_cntlr \<Rightarrow> dir_cntlr res) \<Rightarrow> shmem_req \<Rightarrow> dir_cntlr \<Rightarrow> (entry_ref \<times> dir_cntlr) res" where
  "entry_for next req st =
     rbind (lookup_entry (req_addr req) False st) (\<lambda>(r, st1). case r of
       Some ref \<Rightarrow> Inr (ref, st1)
     | None \<Rightarrow> processDirectoryEntryAllocationReq next req st1)"

section \<open>Answering a request\<close>

definition retrieveDataAndSendToL2Cache ::
    "(u64 \<Rightarrow> dir_cntlr \<Rightarrow> dir_cntlr res) \<Rightarrow> msg_t \<Rightarrow> core_id \<Rightarrow> u64 \<Rightarrow> data_ptr \<Rightarrow> dir_cntlr \<Rightarrow> dir_cntlr res" where
  "retrieveDataAndSendToL2Cache next reply_msg_type receiver a cached_data_buf st =
     rbind (lookup_entry a False st) (\<lambda>(r, st1). case r of
       None \<Rightarrow> Inl Assert_Failed
     | Some ref \<Rightarrow>
         rbind (read_entry ref st1) (\<lambda>e.
         if cached_data_buf \<noteq> Null_Ptr then
           rbind (write_entry ref (e\<lparr> m_forwarder_id := receiver \<rparr>) st1) (\<lambda>st2.
           rbind (sendMsg reply_msg_type L2_CACHE receiver receiver a cached_data_buf (m_dd_block_size st2)
                    CACHE_REMOTE st2) (next a))
         else if req_queue a st1 = [] then Inl Assert_Failed
         else
           rbind (queue_front a st1) (\<lambda>req.
           if m_protocol st1 = MESIF \<and> m_forwarding_from req = INVALID_CORE_ID \<and> m_dstate e = SHARED \<and>
              m_forwarder_id e \<noteq> INVALID_CORE_ID
           then
             sendMsg WB_REQ L2_CACHE receiver (m_forwarder_id e) a Null_Ptr 0 UNKNOWN
               (upd_queue (upd_front a (\<lambda>q. q\<lparr> m_forwarding_from := m_forwarder_id e \<rparr>)) st1)
           else
             let st2 = upd_queue (upd_front a (\<lambda>q. q\<lparr> m_wait_for_data := True \<rparr>)) st1
             in rbind (getHome (m_dram_controller_home_lookup st2) a) (\<lambda>dram_node.
                sendMsg DRAM_READ_REQ mem_component.DRAM receiver dram_node a Null_Ptr 0 UNKNOWN st2))))"

definition processExReqFromL2Cache ::
    "(u64 \<Rightarrow> dir_cntlr \<Rightarrow> dir_cntlr res) \<Rightarrow> shmem_req \<Rightarrow> data_ptr \<Rightarrow> dir_cntlr \<Rightarrow> dir_cntlr res" where
  "processExReqFromL2Cache next req cached_data_buf st =
     (let a = req_addr req; requester = req_core req in
      rbind (entry_for next req st) (\<lambda>(ref, st1).
      rbind (read_entry ref st1) (\<lambda>e. case m_dstate e of
        EXCLUSIVE \<Rightarrow>
          if cached_data_buf \<noteq> Null_Ptr then Inl Assert_Failed
          else sendMsg FLUSH_REQ L2_CACHE requester (m_owner_id e) a Null_Ptr 0 UNKNOWN st1
      | MODIFIED \<Rightarrow>
          if cached_data_buf \<noteq> Null_Ptr then Inl Assert_Failed
          else sendMsg FLUSH_REQ L2_CACHE requester (m_owner_id e) a Null_Ptr 0 UNKNOWN st1
      | SHARED \<Rightarrow>
          if cached_data_buf \<noteq> Null_Ptr then Inl Assert_Failed
          else send_invalidations requester a e st1
      | UNCACHED \<Rightarrow>
          rbind (addSharer requester (getMaxHwSharers (m_dram_directory_cache st1)) e) (\<lambda>(added, e1).
          if \<not> added then Inl Assert_Failed
          else
            rbind (setOwner requester e1) (\<lambda>e2.
            rbind (write_entry ref (e2\<lparr> m_dstate := MODIFIED \<rparr>) st1) (\<lambda>st2.
              retrieveDataAndSendToL2Cache next EX_REP requester a cached_data_buf st2)))
      | OWNED \<Rightarrow> Inl Log_Error)))"

definition processShReqFromL2Cache ::
    "(u64 \<Rightarrow> dir_cntlr \<Rightarrow> dir_cntlr res) \<Rightarrow> shmem_req \<Rightarrow> data_ptr \<Rightarrow> dir_cntlr \<Rightarrow> dir_cntlr res" where
  "processShReqFromL2Cache next req cached_data_buf st =
     (let a = req_addr req; requester = req_core req in
      rbind (entry_for next req st) (\<lambda>(ref, st1).
      rbind (read_entry ref st1) (\<lambda>e. case m_dstate e of
        EXCLUSIVE \<Rightarrow>
          if requester = m_owner_id e then Inl Assert_Failed
          else if cached_data_buf \<noteq> Null_Ptr then Inl Assert_Failed
          else sendMsg WB_REQ L2_CACHE requester (m_owner_id e) a Null_Ptr 0 UNKNOWN st1
      | MODIFIED \<Rightarrow>
          if cached_data_buf \<noteq> Null_Ptr then Inl Assert_Failed
          else sendMsg WB_REQ L2_CACHE requester (m_owner_id e) a Null_Ptr 0 UNKNOWN st1
      | SHARED \<Rightarrow>
          rbind (hasSharer requester e) (\<lambda>has.
          if has then
            let st2 = st1\<lparr> forward := forward st1 + 1,
                  forward_failed := forward_failed st1 + (if cached_data_buf = Null_Ptr then 1 else 0) \<rparr>
            in retrieveDataAndSendToL2Cache next SH_REP requester a cached_data_buf st2
          else
            rbind (addSharer requester (getMaxHwSharers (m_dram_directory_cache st1)) e) (\<lambda>(added, e1).
            if \<not> added then
              rbind (getOneSharer e1) (\<lambda>(sharer, e2).
              rbind (write_entry ref e2 st1) (\<lambda>st2.
                sendMsg INV_REQ L2_CACHE requester sharer a Null_Ptr 0 UNKNOWN st2))
            else
              rbind (write_entry ref e1 st1) (\<lambda>st2.
                retrieveDataAndSendToL2Cache next SH_REP requester a cached_data_buf st2)))
      | UNCACHED \<Rightarrow>
          rbind (addSharer requester (getMaxHwSharers (m_dram_directory_cache st1)) e) (\<lambda>(added, e1).
          if \<not> added then Inl Assert_Failed
          else
            rbind (setOwner requester e1) (\<lambda>e2.
            if m_protocol st1 = MSI then
              rbind (write_entry ref (e2\<lparr> m_dstate := SHARED \<rparr>) st1) (\<lambda>st2.
                retrieveDataAndSendToL2Cache next SH_REP requester a cached_data_buf st2)
            else
              rbind (write_entry ref (e2\<lparr> m_dstate := EXCLUSIVE \<rparr>) st1) (\<lambda>st2.
                retrieveDataAndSendToL2Cache next EX_REP requester a cached_data_buf st2)))
      | OWNED \<Rightarrow> Inl Log_Error)))"

text \<open>Invalidations for an upgrade: the first sharer of a line the requester does not hold is
  flushed, so that its data is sent to the directory.\<close>

definition upgrade_invalidations :: "core_id \<Rightarrow> bool \<Rightarrow> u64 \<Rightarrow> core_id list \<Rightarrow> dir_cntlr \<Rightarrow> dir_cntlr res" where
  "upgrade_invalidations requester has_copy a sharers st =
     fold_r (\<lambda>(i, c) s.
        if c = requester then Inr s
        else sendMsg (if \<not> has_copy \<and> i = 0 then FLUSH_REQ else INV_REQ) L2_CACHE requester c a Null_Ptr 0 UNKNOWN s)
       (enumerate 0 sharers) st"

definition processUpgradeReqFromL2Cache ::
    "(u64 \<Rightarrow> dir_cntlr \<Rightarrow> dir_cntlr res) \<Rightarrow> shmem_req \<Rightarrow> data_ptr \<Rightarrow> dir_cntlr \<Rightarrow> dir_cntlr res" where
  "processUpgradeReqFromL2Cache next req cached_data_buf st =
     (let a = req_addr req; requester = req_core req in
      rbind (entry_for next req st) (\<lambda>(ref, st1).
      rbind (read_entry ref st1) (\<lambda>e.
      let (bcast, sharers) = getSharersList e;
          exclusive_case =
            rbind (nth_r sharers 0) (\<lambda>s0.
            if s0 = requester then
              if m_owner_id e \<noteq> requester then Inl Assert_Failed
              else rbind (sendMsg UPGRADE_REP L2_CACHE requester requester a Null_Ptr 0 UNKNOWN st1) (\<lambda>st2.
                   rbind (write_entry ref (e\<lparr> m_dstate := MODIFIED \<rparr>) st2) (next a))
            else sendMsg FLUSH_REQ L2_CACHE requester (m_owner_id e) a Null_Ptr 0 UNKNOWN st1)
      in case m_dstate e of
        EXCLUSIVE \<Rightarrow> exclusive_case
      | MODIFIED \<Rightarrow> exclusive_case
      | SHARED \<Rightarrow>
          if sharers = [requester] then
            rbind (setOwner requester e) (\<lambda>e1.
            rbind (write_entry ref (e1\<lparr> m_dstate := MODIFIED \<rparr>) st1) (\<lambda>st2.
            rbind (sendMsg UPGRADE_REP L2_CACHE requester requester a Null_Ptr 0 UNKNOWN st2) (next a)))
          else
            rbind (hasSharer requester e) (\<lambda>has_copy.
            if bcast then sendMsg INV_REQ L2_CACHE requester BROADCAST a Null_Ptr 0 UNKNOWN st1
            else upgrade_invalidations requester has_copy a sharers st1)
      | UNCACHED \<Rightarrow>
          if sharers \<noteq> [] then Inl Assert_Failed
          else
            rbind (addSharer requester (getMaxHwSharers (m_dram_directory_cache st1)) e) (\<lambda>(added, e1).
            if \<not> added then Inl Assert_Failed
            else
              rbind (setOwner requester e1) (\<lambda>e2.
              rbind (write_entry ref (e2\<lparr> m_dstate := MODIFIED \<rparr>) st1) (\<lambda>st2.
                retrieveDataAndSendToL2Cache next EX_REP requester a
                  (if cached_data_buf = Null_Ptr then m_data_buf (m_shmem_msg req) else cached_data_buf) st2)))
      | OWNED \<Rightarrow> Inl Log_Error)))"

section \<open>The next request\<close>

fun processNextReqFromL2Cache :: "nat \<Rightarrow> u64 \<Rightarrow> dir_cntlr \<Rightarrow> dir_cntlr res" where
  "processNextReqFromL2Cache 0 a st = Inl Out_Of_Fuel"
| "processNextReqFromL2Cache (Suc n) a st =
     (if rq_size a (m_dram_directory_req_queue_list st) = 0 then Inl Assert_Failed
      else rbind (dequeue a (m_dram_directory_req_queue_list st)) (\<lambda>(completed, q).
        let st1 = st\<lparr> m_dram_directory_req_queue_list := q \<rparr>
        in if rq_empty a q then Inr st1
           else rbind (front a q) (\<lambda>req.
             let st2 = st1\<lparr> m_elapsed := m_time req \<rparr>; next = processNextReqFromL2Cache n
             in case req_type req of
                EX_REQ \<Rightarrow> processExReqFromL2Cache next req Null_Ptr st2
              | SH_REQ \<Rightarrow> processShReqFromL2Cache next req Null_Ptr st2
              | UPGRADE_REQ \<Rightarrow> processUpgradeReqFromL2Cache next req Null_Ptr st2
              | _ \<Rightarrow> Inl Log_Error)))"

text \<open>Every round removes a request from the queue of the address, so this fuel is enough for
  one message.\<close>

definition processNext :: "u64 \<Rightarrow> dir_cntlr \<Rightarrow> u64 \<Rightarrow> dir_cntlr \<Rightarrow> dir_cntlr res" where
  "processNext a st = processNextReqFromL2Cache (Suc (Suc (length (req_queue a st))))"

section \<open>Messages from DRAM and from the caches\<close>

definition processDRAMReply ::
    "(u64 \<Rightarrow> dir_cntlr \<Rightarrow> dir_cntlr res) \<Rightarrow> core_id \<Rightarrow> shmem_msg \<Rightarrow> dir_cntlr \<Rightarrow> dir_cntlr res" where
  "processDRAMReply next sender msg st =
     (let a = m_msg_address msg in
      if req_queue a st = [] then Inl Assert_Failed
      else
        rbind (queue_front a st) (\<lambda>req.
        rbind (lookup_entry a False st) (\<lambda>(r, st1). case r of
          None \<Rightarrow> Inl Assert_Failed
        | Some ref \<Rightarrow>
            rbind (read_entry ref st1) (\<lambda>e.
            rbind (case req_type req of
                     SH_REQ \<Rightarrow>
                       if m_dstate e \<noteq> SHARED \<and> m_dstate e \<noteq> EXCLUSIVE then Inl Assert_Failed
                       else Inr (if m_dstate e = EXCLUSIVE then EX_REP else SH_REP)
                   | EX_REQ \<Rightarrow> if m_dstate e \<noteq> MODIFIED then Inl Assert_Failed else Inr EX_REP
                   | UPGRADE_REQ \<Rightarrow> Inr EX_REP
                   | _ \<Rightarrow> Inl Log_Error) (\<lambda>reply_msg_type.
            rbind (case m_where msg of None \<Rightarrow> Inl Uninitialised | Some w \<Rightarrow> Inr w) (\<lambda>whr.
            let hit_where = (if whr = DRAM then (if sender = m_requester msg then DRAM_LOCAL else DRAM_REMOTE) else whr)
            in rbind (sendMsg reply_msg_type L2_CACHE (req_core req) (req_core req) a (m_data_buf msg)
                        (m_dd_block_size st1) hit_where st1) (next a)))))))"

text \<open>The front request and the clock take the time of a reply.\<close>

definition update_times :: "u64 \<Rightarrow> dir_cntlr \<Rightarrow> dir_cntlr" where
  "update_times a st =
     (case req_queue a st of
        [] \<Rightarrow> st
      | r # rs \<Rightarrow> upd_queue (upd_front a (updateTime (m_elapsed st)))
          (st\<lparr> m_elapsed := updateElapsedTime (m_time (updateTime (m_elapsed st) r)) (m_elapsed st) \<rparr>))"

text \<open>The entry without a core that gave its copy up, and the request that waited for it.\<close>

definition invalidated_entry :: "core_id \<Rightarrow> directory_entry \<Rightarrow> directory_entry res" where
  "invalidated_entry sender e =
     (if m_dstate e \<noteq> SHARED \<and> m_dstate e \<noteq> EXCLUSIVE then Inl Assert_Failed
      else
        rbind (removeSharer sender False e) (\<lambda>e1.
        let e2 = (if m_forwarder_id e1 = sender then e1\<lparr> m_forwarder_id := INVALID_CORE_ID \<rparr> else e1)
        in Inr (if getNumSharers e2 = 0 then e2\<lparr> m_dstate := UNCACHED \<rparr> else e2)))"

definition resume_invalidated ::
    "(u64 \<Rightarrow> dir_cntlr \<Rightarrow> dir_cntlr res) \<Rightarrow> core_id \<Rightarrow> entry_ref \<Rightarrow> directory_entry \<Rightarrow> shmem_req \<Rightarrow> dir_cntlr \<Rightarrow> dir_cntlr res" where
  "resume_invalidated next sender ref e req st =
     (case req_type req of
        EX_REQ \<Rightarrow>
          if m_dstate e = UNCACHED then processExReqFromL2Cache next req Null_Ptr st else Inr st
      | UPGRADE_REQ \<Rightarrow>
          if getNumSharers e = 1 then
            rbind (hasSharer (req_core req) e) (\<lambda>has.
              if has then processUpgradeReqFromL2Cache next req Null_Ptr st else Inr st)
          else if getNumSharers e = 0 then
            rbind (write_entry ref (e\<lparr> m_dstate := UNCACHED \<rparr>) st)
              (processUpgradeReqFromL2Cache next req Null_Ptr)
          else Inr st
      | SH_REQ \<Rightarrow>
          if m_wait_for_data req then Inr st
          else if m_forwarding_from req \<noteq> INVALID_CORE_ID \<and> sender \<noteq> m_forwarding_from req then Inr st
          else processShReqFromL2Cache next req Null_Ptr st
      | _ \<Rightarrow>
          if m_dstate e = UNCACHED then processNullifyReq next req st else Inr st)"

definition processInvRepFromL2Cache ::
    "(u64 \<Rightarrow> dir_cntlr \<Rightarrow> dir_cntlr res) \<Rightarrow> core_id \<Rightarrow> shmem_msg \<Rightarrow> dir_cntlr \<Rightarrow> dir_cntlr res" where
  "processInvRepFromL2Cache next sender msg st =
     (let a = m_msg_address msg in
      rbind (lookup_entry a False st) (\<lambda>(r, st1). case r of
        None \<Rightarrow> Inl Assert_Failed
      | Some ref \<Rightarrow>
          rbind (read_entry ref st1) (\<lambda>e0.
          rbind (invalidated_entry sender e0) (\<lambda>e.
          rbind (write_entry ref e st1) (\<lambda>st2.
            if req_queue a st2 = [] then Inr st2
            else
              let st3 = update_times a st2
              in rbind (queue_front a st3) (\<lambda>req. resume_invalidated next sender ref e req st3))))))"

definition flushed_entry :: "core_id \<Rightarrow> directory_entry \<Rightarrow> directory_entry res" where
  "flushed_entry sender e =
     rbind (hasSharer sender e) (\<lambda>has.
     if \<not> has then Inl Assert_Failed
     else
       rbind (removeSharer sender False e) (\<lambda>e1.
       rbind (setOwner INVALID_CORE_ID (e1\<lparr> m_forwarder_id := INVALID_CORE_ID \<rparr>)) (\<lambda>e2.
       if getNumSharers e2 = 0 then Inr (e2\<lparr> m_dstate := UNCACHED \<rparr>)
       else if m_dstate e2 \<noteq> SHARED then Inl Assert_Failed else Inr e2)))"

definition resume_flushed ::
    "(u64 \<Rightarrow> dir_cntlr \<Rightarrow> dir_cntlr res) \<Rightarrow> shmem_msg \<Rightarrow> entry_ref \<Rightarrow> directory_entry \<Rightarrow> shmem_req \<Rightarrow> dir_cntlr \<Rightarrow> dir_cntlr res" where
  "resume_flushed next msg ref e req st =
     (let a = m_msg_address msg in
      case req_type req of
        EX_REQ \<Rightarrow> processExReqFromL2Cache next req (m_data_buf msg) st
      | SH_REQ \<Rightarrow>
          rbind (sendDataToDram a (m_requester msg) (m_data_buf msg) st)
            (processShReqFromL2Cache next req (m_data_buf msg))
      | UPGRADE_REQ \<Rightarrow>
          if getNumSharers e = 0 then
            rbind (write_entry ref (e\<lparr> m_dstate := UNCACHED \<rparr>) st)
              (processUpgradeReqFromL2Cache next req (m_data_buf msg))
          else
            Inr (upd_queue (upd_front a (\<lambda>q. q\<lparr> m_shmem_msg := (m_shmem_msg q)\<lparr> m_data_buf := m_data_buf msg \<rparr> \<rparr>)) st)
      | _ \<Rightarrow>
          rbind (sendDataToDram a (m_requester msg) (m_data_buf msg) st)
            (processNullifyReq next req))"

definition processFlushRepFromL2Cache ::
    "(u64 \<Rightarrow> dir_cntlr \<Rightarrow> dir_cntlr res) \<Rightarrow> core_id \<Rightarrow> shmem_msg \<Rightarrow> dir_cntlr \<Rightarrow> dir_cntlr res" where
  "processFlushRepFromL2Cache next sender msg st =
     (let a = m_msg_address msg in
      rbind (lookup_entry a False st) (\<lambda>(r, st1). case r of
        None \<Rightarrow> Inl Assert_Failed
      | Some ref \<Rightarrow>
          rbind (read_entry ref st1) (\<lambda>e0.
          rbind (flushed_entry sender e0) (\<lambda>e.
          rbind (write_entry ref e st1) (\<lambda>st2.
            if req_queue a st2 = [] then sendDataToDram a (m_requester msg) (m_data_buf msg) st2
            else
              let st3 = update_times a st2
              in rbind (queue_front a st3) (\<lambda>req. resume_flushed next msg ref e req st3))))))"

definition processWbRepFromL2Cache ::
    "(u64 \<Rightarrow> dir_cntlr \<Rightarrow> dir_cntlr res) \<Rightarrow> core_id \<Rightarrow> shmem_msg \<Rightarrow> dir_cntlr \<Rightarrow> dir_cntlr res" where
  "processWbRepFromL2Cache next sender msg st =
     (let a = m_msg_address msg in
      rbind (lookup_entry a False st) (\<lambda>(r, st1). case r of
        None \<Rightarrow> Inl Assert_Failed
      | Some ref \<Rightarrow>
          rbind (read_entry ref st1) (\<lambda>e.
          rbind (hasSharer sender e) (\<lambda>has.
          if \<not> has then Inl Assert_Failed
          else
            rbind (setOwner INVALID_CORE_ID e) (\<lambda>e1.
            rbind (write_entry ref (e1\<lparr> m_dstate := SHARED \<rparr>) st1) (\<lambda>st2.
              if req_queue a st2 = [] then Inl Log_Error
              else
                let st3 = update_times a st2
                in rbind (queue_front a st3) (\<lambda>req.
                  if req_type req \<noteq> SH_REQ then Inl Assert_Failed
                  else processShReqFromL2Cache next req (m_data_buf msg) st3)))))))"

text \<open>A new request is processed at once when no other request waits for its address.\<close>

definition queue_request :: "shmem_msg \<Rightarrow> time \<Rightarrow> dir_cntlr \<Rightarrow> (shmem_req \<times> bool \<times> dir_cntlr) res" where
  "queue_request msg t st =
     rbind (ShmemReq msg t) (\<lambda>req.
       let st1 = upd_queue (enqueue (m_msg_address msg) req) st
       in Inr (req, rq_size (m_msg_address msg) (m_dram_directory_req_queue_list st1) = 1, st1))"

definition handleMsgFromL2Cache :: "core_id \<Rightarrow> shmem_msg \<Rightarrow> dir_cntlr \<Rightarrow> dir_cntlr res" where
  "handleMsgFromL2Cache sender msg st =
     (let a = m_msg_address msg; msg_time = m_elapsed st; next = processNext a st in
      rbind (lookup_entry a True st) (\<lambda>(r, st1).
      case m_msg_type msg of
        EX_REQ \<Rightarrow> rbind (queue_request msg msg_time st1) (\<lambda>(req, alone, st2).
          if alone then processExReqFromL2Cache next req Null_Ptr st2 else Inr st2)
      | SH_REQ \<Rightarrow> rbind (queue_request msg msg_time st1) (\<lambda>(req, alone, st2).
          if alone then processShReqFromL2Cache next req Null_Ptr st2 else Inr st2)
      | INV_REP \<Rightarrow> processInvRepFromL2Cache next sender msg st1
      | FLUSH_REP \<Rightarrow> processFlushRepFromL2Cache next sender msg st1
      | WB_REP \<Rightarrow> processWbRepFromL2Cache next sender msg st1
      | UPGRADE_REQ \<Rightarrow> rbind (queue_request msg msg_time st1) (\<lambda>(req, alone, st2).
          if alone then processUpgradeReqFromL2Cache next req Null_Ptr st2 else Inr st2)
      | _ \<Rightarrow> Inl Log_Error))"

definition handleMsgFromDRAM :: "core_id \<Rightarrow> shmem_msg \<Rightarrow> dir_cntlr \<Rightarrow> dir_cntlr res" where
  "handleMsgFromDRAM sender msg st =
     (case m_msg_type msg of
        DRAM_READ_REP \<Rightarrow> processDRAMReply (processNext (m_msg_address msg) st) sender msg st
      | _ \<Rightarrow> Inl Log_Error)"

text \<open>The delivery of a packet to the directory. The buffer of the message is deleted at the end:
  a pointer to it that a waiting request has kept dangles from then on.\<close>

definition drop_buffers :: "shmem_req list \<Rightarrow> shmem_req list" where
  "drop_buffers = map (\<lambda>r. case m_data_buf (m_shmem_msg r) of
      Buf b \<Rightarrow> r\<lparr> m_shmem_msg := (m_shmem_msg r)\<lparr> m_data_buf := Deleted \<rparr> \<rparr> | _ \<Rightarrow> r)"

definition handleMsgFromNetwork :: "core_id \<Rightarrow> time \<Rightarrow> shmem_msg \<Rightarrow> dir_cntlr \<Rightarrow> dir_cntlr res" where
  "handleMsgFromNetwork sender t msg st =
     (let st1 = st\<lparr> m_elapsed := t \<rparr> in
      rbind (case m_sender_mem_component msg of
               LAST_LEVEL_CACHE \<Rightarrow> handleMsgFromL2Cache sender msg st1
             | mem_component.DRAM \<Rightarrow> handleMsgFromDRAM sender msg st1
             | _ \<Rightarrow> Inl Log_Error) (\<lambda>st2.
        Inr (upd_queue (\<lambda>q a. map_option drop_buffers (q a)) st2)))"

end
