(* ===== verification/Directory_Store.thy ===== *)
theory Directory_Store
  imports Directory_Cntlr
begin

text \<open>
  The directory cache as a finite map from addresses to entries. \<open>dc_ok\<close> is its invariant: an entry
  is in the set of its address, no address has two entries, and an address has a replaced entry only
  while its set is full. Each operation is described by its effect on the map.
\<close>

section \<open>The map and the invariant\<close>

definition ref_entry :: "entry_ref \<Rightarrow> dram_directory_cache \<Rightarrow> directory_entry option" where
  "ref_entry r dc = (case r of
      Slot n \<Rightarrow> (let l = m_directory_entry_list (m_directory dc) in if n < length l then l ! n else None)
    | Replaced k \<Rightarrow> (let l = m_replaced_directory_entry_list dc in if k < length l then Some (l ! k) else None))"

definition dir_entries :: "dram_directory_cache \<Rightarrow> directory_entry list" where
  "dir_entries dc = List.map_filter id (m_directory_entry_list (m_directory dc)) @ m_replaced_directory_entry_list dc"

definition ent :: "dram_directory_cache \<Rightarrow> u64 \<Rightarrow> directory_entry option" where
  "ent dc a = (if a = INVALID_ADDRESS then None else find (\<lambda>e. m_address e = a) (dir_entries dc))"

definition set_index_of :: "dram_directory_cache \<Rightarrow> u64 \<Rightarrow> u32" where
  "set_index_of dc a = ucast (drop_bit (unat (m_log_cache_block_size dc)) a) AND (m_dd_num_sets dc - 1)"

definition home_slots :: "dram_directory_cache \<Rightarrow> u64 \<Rightarrow> nat list" where
  "home_slots dc a = set_slots dc (set_index_of dc a)"

definition placed :: "dram_directory_cache \<Rightarrow> bool" where
  "placed dc \<longleftrightarrow> (\<forall>n e. ref_entry (Slot n) dc = Some e \<longrightarrow> m_address e \<noteq> INVALID_ADDRESS \<longrightarrow>
     n \<in> set (home_slots dc (m_address e)))"

definition unique :: "dram_directory_cache \<Rightarrow> bool" where
  "unique dc \<longleftrightarrow> (\<forall>r r' e e'. ref_entry r dc = Some e \<longrightarrow> ref_entry r' dc = Some e' \<longrightarrow>
     m_address e = m_address e' \<longrightarrow> m_address e \<noteq> INVALID_ADDRESS \<longrightarrow> r = r')"

definition set_full :: "dram_directory_cache \<Rightarrow> u64 \<Rightarrow> bool" where
  "set_full dc a \<longleftrightarrow> (\<forall>n \<in> set (home_slots dc a). \<exists>e. ref_entry (Slot n) dc = Some e \<and> m_address e \<noteq> INVALID_ADDRESS)"

definition fresh_entry :: "directory_entry \<Rightarrow> bool" where
  "fresh_entry e \<longleftrightarrow> m_dstate e = UNCACHED \<and> True \<notin> set (m_sharers e)"

definition blank :: "dram_directory_cache \<Rightarrow> bool" where
  "blank dc \<longleftrightarrow> (\<forall>n e. ref_entry (Slot n) dc = Some e \<longrightarrow> m_address e = INVALID_ADDRESS \<longrightarrow> fresh_entry e)"

definition geom_ok :: "dram_directory_cache \<Rightarrow> bool" where
  "geom_ok dc \<longleftrightarrow> 0 < unat (m_dd_num_sets dc) \<and> unat (m_dd_num_sets dc) * unat (m_dd_associativity dc) < 2 ^ 32"

definition dc_ok :: "dram_directory_cache \<Rightarrow> bool" where
  "dc_ok dc \<longleftrightarrow> geom_ok dc \<and> placed dc \<and> unique dc \<and> blank dc \<and>
     (\<forall>k e. ref_entry (Replaced k) dc = Some e \<longrightarrow> m_address e \<noteq> INVALID_ADDRESS \<and> set_full dc (m_address e))"

lemma set_map_filter_id: "e \<in> set (List.map_filter id l) \<longleftrightarrow> Some e \<in> set l"
  by (induction l) (auto simp: List.map_filter_simps split: option.splits)

lemma ref_entry_Slot:
  "ref_entry (Slot n) dc = Some e \<longleftrightarrow>
     n < length (m_directory_entry_list (m_directory dc)) \<and> m_directory_entry_list (m_directory dc) ! n = Some e"
  by (simp add: ref_entry_def Let_def)

lemma ref_entry_Replaced:
  "ref_entry (Replaced k) dc = Some e \<longleftrightarrow>
     k < length (m_replaced_directory_entry_list dc) \<and> m_replaced_directory_entry_list dc ! k = e"
  by (simp add: ref_entry_def Let_def)

lemma dir_entries_ref: "e \<in> set (dir_entries dc) \<longleftrightarrow> (\<exists>r. ref_entry r dc = Some e)"
proof -
  have "Some e \<in> set (m_directory_entry_list (m_directory dc)) \<longleftrightarrow> (\<exists>n. ref_entry (Slot n) dc = Some e)"
    by (auto simp: ref_entry_Slot in_set_conv_nth)
  moreover have "e \<in> set (m_replaced_directory_entry_list dc) \<longleftrightarrow> (\<exists>k. ref_entry (Replaced k) dc = Some e)"
    by (auto simp: ref_entry_Replaced in_set_conv_nth)
  moreover have "(\<exists>r. ref_entry r dc = Some e) \<longleftrightarrow>
      (\<exists>n. ref_entry (Slot n) dc = Some e) \<or> (\<exists>k. ref_entry (Replaced k) dc = Some e)"
    by (metis entry_ref.exhaust)
  ultimately show ?thesis by (auto simp: dir_entries_def set_map_filter_id)
qed

lemma ent_iff:
  assumes "unique dc"
  shows "ent dc a = Some e \<longleftrightarrow> a \<noteq> INVALID_ADDRESS \<and> m_address e = a \<and> (\<exists>r. ref_entry r dc = Some e)"
proof
  assume "ent dc a = Some e"
  then have a: "a \<noteq> INVALID_ADDRESS" "find (\<lambda>e. m_address e = a) (dir_entries dc) = Some e"
    by (auto simp: ent_def split: if_splits)
  from find_SomeD [OF a(2)] a(1) show "a \<noteq> INVALID_ADDRESS \<and> m_address e = a \<and> (\<exists>r. ref_entry r dc = Some e)"
    using dir_entries_ref by simp
next
  assume r: "a \<noteq> INVALID_ADDRESS \<and> m_address e = a \<and> (\<exists>r. ref_entry r dc = Some e)"
  then have "e \<in> set (dir_entries dc)" by (simp add: dir_entries_ref)
  then obtain e' where e': "find (\<lambda>e. m_address e = a) (dir_entries dc) = Some e'"
    using find_Some_iff_set [of "\<lambda>e. m_address e = a" "dir_entries dc"] r by blast
  from find_SomeD [OF this] have "m_address e' = a" "\<exists>r. ref_entry r dc = Some e'" by (auto simp: dir_entries_ref)
  with r assms have "e' = e" unfolding unique_def by (metis option.inject)
  with e' r show "ent dc a = Some e" by (simp add: ent_def)
qed

lemma ent_None_iff:
  assumes "unique dc"
  shows "ent dc a = None \<longleftrightarrow> a = INVALID_ADDRESS \<or> (\<forall>r e. ref_entry r dc = Some e \<longrightarrow> m_address e \<noteq> a)"
  using ent_iff [OF assms, of a] by (metis not_None_eq)

lemma ent_eqI:
  assumes "unique dc" "unique dc'"
    and "\<And>e. m_address e \<noteq> INVALID_ADDRESS \<Longrightarrow> (\<exists>r. ref_entry r dc' = Some e) \<longleftrightarrow> (\<exists>r. ref_entry r dc = Some e)"
  shows "ent dc' = ent dc"
proof
  fix a show "ent dc' a = ent dc a"
    using ent_iff [OF assms(1), of a] ent_iff [OF assms(2), of a] assms(3)
    by (cases "ent dc a"; cases "ent dc' a") (auto, metis+)
qed

lemma get_entry_eq_Inr: "get_entry r dc = Inr e \<longleftrightarrow> ref_entry r dc = Some e"
  by (cases r) (auto simp: get_entry_def ref_entry_def nth_r_def Let_def split: option.splits)

section \<open>Entries created on first use\<close>

text \<open>\<open>grown d d'\<close>: some entries without an address were created.\<close>

definition grown :: "directory \<Rightarrow> directory \<Rightarrow> bool" where
  "grown d d' \<longleftrightarrow> length (m_directory_entry_list d') = length (m_directory_entry_list d) \<and>
     (\<forall>n < length (m_directory_entry_list d). m_directory_entry_list d' ! n = m_directory_entry_list d ! n \<or>
        m_directory_entry_list d ! n = None \<and>
        (\<exists>e. m_directory_entry_list d' ! n = Some e \<and> m_address e = INVALID_ADDRESS \<and> fresh_entry e))"

lemma createDirectoryEntry_fresh:
  "createDirectoryEntry d = (e, d') \<Longrightarrow> m_address e = INVALID_ADDRESS \<and> fresh_entry e \<and>
     m_directory_entry_list d' = m_directory_entry_list d"
  by (auto simp: createDirectoryEntry_def DirectoryEntry_def fresh_entry_def split: directory_type.splits)

lemma grown_refl [simp]: "grown d d"
  by (simp add: grown_def)

lemma grown_trans: "grown d d' \<Longrightarrow> grown d' d'' \<Longrightarrow> grown d d''"
  unfolding grown_def by (metis (no_types, lifting))

lemma dir_entry_at_eq_Inr:
  assumes "dir_entry_at n d = Inr (e, d')"
  shows "grown d d' \<and> n < length (m_directory_entry_list d') \<and> m_directory_entry_list d' ! n = Some e"
proof -
  obtain e0 d0 where c: "createDirectoryEntry d = (e0, d0)" by fastforce
  show ?thesis using assms createDirectoryEntry_fresh [OF c]
    by (auto simp: dir_entry_at_def grown_def nth_list_update res_simps c split: if_splits option.splits)
qed

lemma find_slot_eq_Inr:
  assumes "find_slot P ns d = Inr (r, d')"
  shows "grown d d' \<and> (case r of
      Some n \<Rightarrow> n \<in> set ns \<and> n < length (m_directory_entry_list d') \<and> (\<exists>e. m_directory_entry_list d' ! n = Some e \<and> P e)
    | None \<Rightarrow> \<forall>n \<in> set ns. n < length (m_directory_entry_list d') \<and> (\<exists>e. m_directory_entry_list d' ! n = Some e \<and> \<not> P e))"
  using assms
proof (induction ns arbitrary: d)
  case (Cons n ns)
  from Cons.prems obtain e d1 where e: "dir_entry_at n d = Inr (e, d1)"
    and r: "(if P e then Inr (Some n, d1) else find_slot P ns d1) = Inr (r, d')"
    by (auto simp: rbind_eq_Inr)
  note e1 = dir_entry_at_eq_Inr [OF e]
  show ?case
  proof (cases "P e")
    case True
    with r e1 show ?thesis by auto
  next
    case False
    with r have f: "find_slot P ns d1 = Inr (r, d')" by simp
    note ih = Cons.IH [OF f]
    have keep: "n < length (m_directory_entry_list d') \<and> m_directory_entry_list d' ! n = Some e"
      using ih e1 unfolding grown_def by auto
    show ?thesis using ih e1 keep False grown_trans by (cases r) auto
  qed
qed simp

section \<open>Changes of the cache\<close>

text \<open>Two caches with the same geometry. \<open>entries_by F dc dc'\<close>: the references of \<open>dc'\<close> with an
  address are those of \<open>F\<close>.\<close>

definition same_geometry :: "dram_directory_cache \<Rightarrow> dram_directory_cache \<Rightarrow> bool" where
  "same_geometry dc dc' \<longleftrightarrow> m_dd_associativity dc' = m_dd_associativity dc \<and>
     m_dd_num_sets dc' = m_dd_num_sets dc \<and> m_log_cache_block_size dc' = m_log_cache_block_size dc"

lemma geom_ok_same: "same_geometry dc dc' \<Longrightarrow> geom_ok dc' = geom_ok dc"
  by (simp add: same_geometry_def geom_ok_def)

text \<open>A slot belongs to one set.\<close>

lemma slot_num_eq:
  assumes "geom_ok dc" "s < m_dd_num_sets dc" "i < unat (m_dd_associativity dc)"
  shows "slot_num dc s (of_nat i) = unat s * unat (m_dd_associativity dc) + i"
proof -
  let ?A = "unat (m_dd_associativity dc)"
  have i: "unat (of_nat i :: u32) = i"
    using assms(3) unsigned_less [of "m_dd_associativity dc", where ?'a = nat] by (simp add: unat_of_nat)
  have s: "Suc (unat s) \<le> unat (m_dd_num_sets dc)" using assms(2) by (simp add: word_less_nat_alt)
  have "unat s * ?A + ?A \<le> unat (m_dd_num_sets dc) * ?A"
    using mult_le_mono1 [OF s, of ?A] by simp
  then have lt: "unat s * ?A + i < 2 ^ 32" using assms(1,3) by (simp add: geom_ok_def)
  have m: "unat (s * m_dd_associativity dc) = unat s * ?A"
    using lt by (subst unat_mult_lem [THEN iffD1]) simp_all
  have "unat (s * m_dd_associativity dc + of_nat i) = unat s * ?A + i"
    using lt m i by (subst unat_add_lem [THEN iffD1]) simp_all
  then show ?thesis by (simp add: slot_num_def)
qed

lemma set_index_less: "geom_ok dc \<Longrightarrow> set_index_of dc a < m_dd_num_sets dc"
proof -
  assume g: "geom_ok dc"
  have "set_index_of dc a \<le> m_dd_num_sets dc - 1" unfolding set_index_of_def by (rule word_and_le1)
  moreover have "m_dd_num_sets dc \<noteq> 0" using g by (auto simp: geom_ok_def)
  ultimately show ?thesis by (simp add: word_le_nat_alt word_less_nat_alt unat_minus_one) (metis Suc_pred le_imp_less_Suc unat_gt_0)
qed

lemma home_slots_disjoint:
  assumes g: "geom_ok dc" and n: "n \<in> set (home_slots dc a)" "n \<in> set (home_slots dc b)"
  shows "home_slots dc b = home_slots dc a"
proof -
  let ?A = "unat (m_dd_associativity dc)"
  have div: "unat (set_index_of dc c) = n div ?A" if "n \<in> set (home_slots dc c)" for c
  proof -
    from that obtain i where "i < ?A" "n = slot_num dc (set_index_of dc c) (of_nat i)"
      by (auto simp: home_slots_def set_slots_def)
    then show ?thesis using slot_num_eq [OF g set_index_less [OF g]] by simp
  qed
  from div [OF n(1)] div [OF n(2)] have "set_index_of dc a = set_index_of dc b" by (simp add: word_unat_eq_iff)
  then show ?thesis by (simp add: home_slots_def)
qed

lemma home_slots_same: "same_geometry dc dc' \<Longrightarrow> home_slots dc' a = home_slots dc a"
  by (simp add: same_geometry_def home_slots_def set_slots_def set_index_of_def slot_num_def)

lemma ref_entry_grown:
  assumes "grown (m_directory dc) d'"
  shows "m_address e \<noteq> INVALID_ADDRESS \<Longrightarrow> ref_entry r (dc\<lparr> m_directory := d' \<rparr>) = Some e \<longleftrightarrow> ref_entry r dc = Some e"
    and "ref_entry r dc = Some e \<Longrightarrow> ref_entry r (dc\<lparr> m_directory := d' \<rparr>) = Some e"
  using assms unfolding ref_entry_def grown_def Let_def
  by (cases r; auto split: if_splits; metis option.distinct(1) option.inject)+

lemma dc_ok_grown:
  assumes ok: "dc_ok dc" and g: "grown (m_directory dc) d'"
  shows "dc_ok (dc\<lparr> m_directory := d' \<rparr>)" "ent (dc\<lparr> m_directory := d' \<rparr>) = ent dc"
proof -
  let ?dc = "dc\<lparr> m_directory := d' \<rparr>"
  have hs: "home_slots ?dc a = home_slots dc a" for a
    by (rule home_slots_same) (simp add: same_geometry_def)
  note r = ref_entry_grown [OF g]
  have u: "unique ?dc"
    using ok r(1) unfolding dc_ok_def unique_def by metis
  have full: "set_full ?dc a" if "set_full dc a" for a
    using that r(2) unfolding set_full_def hs by blast
  have "placed ?dc" using ok r(1) unfolding dc_ok_def placed_def hs by metis
  moreover have "ref_entry (Replaced k) ?dc = ref_entry (Replaced k) dc" for k by (simp add: ref_entry_def)
  moreover have "blank ?dc"
    using ok g unfolding dc_ok_def blank_def grown_def ref_entry_Slot by (simp, metis option.inject)
  moreover have "geom_ok ?dc" using ok geom_ok_same [of dc ?dc] by (simp add: dc_ok_def same_geometry_def)
  ultimately show "dc_ok ?dc" using u ok full by (auto simp: dc_ok_def)
  show "ent ?dc = ent dc" by (rule ent_eqI) (use ok u r(1) in \<open>auto simp: dc_ok_def\<close>)
qed

lemma put_entry_ref:
  assumes "put_entry r e' dc = Inr dc'" "ref_entry r dc = Some e"
  shows "ref_entry r' dc' = (if r' = r then Some e' else ref_entry r' dc)" "same_geometry dc dc'"
  using assms by (cases r; cases r'; auto simp: put_entry_def setDirectoryEntry_def ref_entry_def same_geometry_def res_simps Let_def split: if_splits)+

lemma put_entry_ok:
  assumes ok: "dc_ok dc" and put: "put_entry r e' dc = Inr dc'" and r: "ref_entry r dc = Some e"
    and a: "m_address e' = m_address e" "m_address e \<noteq> INVALID_ADDRESS"
  shows "dc_ok dc'" "ent dc' = (ent dc)(m_address e \<mapsto> e')" "ref_entry r dc' = Some e'"
proof -
  note p = put_entry_ref [OF put r]
  have hs: "home_slots dc' b = home_slots dc b" for b using p(2) by (rule home_slots_same)
  have okD: "placed dc" "unique dc" "blank dc" using ok by (auto simp: dc_ok_def)
  have u: "unique dc'"
    using okD(2) r a p(1) unfolding unique_def by (metis option.inject)
  have full: "set_full dc' b" if "set_full dc b" for b
    using that r a p(1) unfolding set_full_def hs by (metis option.inject)
  have "placed dc'" using okD(1) r a p(1) unfolding placed_def hs by (metis option.inject)
  moreover have "\<forall>k e. ref_entry (Replaced k) dc' = Some e \<longrightarrow> m_address e \<noteq> INVALID_ADDRESS \<and> set_full dc' (m_address e)"
    using ok r a p(1) full unfolding dc_ok_def by (metis option.inject)
  moreover have "blank dc'" using okD(3) a p(1) unfolding blank_def by (metis option.inject)
  moreover have "geom_ok dc'" using ok geom_ok_same [OF p(2)] by (simp add: dc_ok_def)
  ultimately show "dc_ok dc'" using u by (simp add: dc_ok_def)
  show "ref_entry r dc' = Some e'" using p(1) by simp
  show "ent dc' = (ent dc)(m_address e \<mapsto> e')"
  proof
    fix b
    show "ent dc' b = ((ent dc)(m_address e \<mapsto> e')) b"
    proof (cases "b = m_address e")
      case True
      then show ?thesis using ent_iff [OF u, of b e'] a p(1) by auto
    next
      case False
      have "ent dc' b = Some x \<longleftrightarrow> ent dc b = Some x" for x
        using ent_iff [OF u, of b x] ent_iff [OF okD(2), of b x] p(1) r a False by (metis option.inject)
      with False show ?thesis by (cases "ent dc b"; cases "ent dc' b") auto
    qed
  qed
qed


section \<open>Looking an entry up\<close>

lemma dd_splitAddress_index: "dd_splitAddress dc a = Inr (tag, i) \<Longrightarrow> i = set_index_of dc a"
  by (auto simp: dd_splitAddress_def set_index_of_def Let_def split: if_splits)

lemma find_replaced_Some:
  "find_replaced a l = Some k \<Longrightarrow> k < length l \<and> m_address (l ! k) = a"
  by (auto simp: find_replaced_def dest: find_SomeD)

lemma find_replaced_None:
  "find_replaced a l = None \<Longrightarrow> k < length l \<Longrightarrow> m_address (l ! k) \<noteq> a"
  by (auto simp: find_replaced_def find_None_iff)

lemma slot_found:
  assumes ok: "dc_ok dc" and f: "find_slot P (home_slots dc a) (m_directory dc) = Inr (r, d')"
  shows "dc_ok (dc\<lparr> m_directory := d' \<rparr>)" "ent (dc\<lparr> m_directory := d' \<rparr>) = ent dc"
    "case r of
      Some n \<Rightarrow> n \<in> set (home_slots dc a) \<and> (\<exists>e. ref_entry (Slot n) (dc\<lparr> m_directory := d' \<rparr>) = Some e \<and> P e)
    | None \<Rightarrow> \<forall>n \<in> set (home_slots dc a). \<exists>e. ref_entry (Slot n) (dc\<lparr> m_directory := d' \<rparr>) = Some e \<and> \<not> P e"
  using find_slot_eq_Inr [OF f] dc_ok_grown [OF ok, of d']
  by (auto simp: ref_entry_Slot split: option.splits)

text \<open>A free slot takes the address when no entry has it.\<close>

lemma claim_ok:
  assumes ok: "dc_ok dc" and n: "n \<in> set (home_slots dc a)" "ref_entry (Slot n) dc = Some e"
    and e: "m_address e = INVALID_ADDRESS" and a: "a \<noteq> INVALID_ADDRESS" "ent dc a = None"
    and put: "put_entry (Slot n) (e\<lparr> m_address := a \<rparr>) dc = Inr dc'"
  shows "dc_ok dc'" "ent dc' = (ent dc)(a \<mapsto> e\<lparr> m_address := a \<rparr>)" "fresh_entry e"
proof -
  let ?e = "e\<lparr> m_address := a \<rparr>"
  note p = put_entry_ref [OF put n(2)]
  have hs: "home_slots dc' b = home_slots dc b" for b using p(2) by (rule home_slots_same)
  have okD: "placed dc" "unique dc" "blank dc" using ok by (auto simp: dc_ok_def)
  have none: "m_address x \<noteq> a" if "ref_entry r dc = Some x" for r x
    using that a ent_None_iff [OF okD(2)] by blast
  have addr: "m_address ?e = a" by simp
  have u: "unique dc'"
    using okD(2) none p(1) addr unfolding unique_def by (metis option.inject)
  have full: "set_full dc' b" if "set_full dc b" for b
    using that a p(1) addr unfolding set_full_def hs by metis
  have "placed dc'" using okD(1) n(1) p(1) addr unfolding placed_def hs by (metis entry_ref.inject(1) option.inject)
  moreover have "\<forall>k e. ref_entry (Replaced k) dc' = Some e \<longrightarrow> m_address e \<noteq> INVALID_ADDRESS \<and> set_full dc' (m_address e)"
    using ok p(1) full unfolding dc_ok_def by auto
  moreover have "blank dc'" using okD(3) a(1) p(1) addr unfolding blank_def by (metis option.inject)
  moreover have "geom_ok dc'" using ok geom_ok_same [OF p(2)] by (simp add: dc_ok_def)
  ultimately show "dc_ok dc'" using u by (simp add: dc_ok_def)
  show "fresh_entry e" using okD(3) n(2) e unfolding blank_def by blast
  show "ent dc' = (ent dc)(a \<mapsto> ?e)"
  proof
    fix b
    have "ent dc' b = Some x \<longleftrightarrow> ent dc b = Some x" if "b \<noteq> a" for x
      using ent_iff [OF u, of b x] ent_iff [OF okD(2), of b x] p(1) n(2) e addr that by (metis option.inject)
    then have "b \<noteq> a \<Longrightarrow> ent dc' b = ent dc b" by (metis not_None_eq)
    then show "ent dc' b = ((ent dc)(a \<mapsto> ?e)) b"
      using ent_iff [OF u, of a ?e] a p(1) addr by auto
  qed
qed

lemma getDirectoryEntry_ok:
  assumes g: "getDirectoryEntry a m (t, dc) = Inr (r, t', dc')" and ok: "dc_ok dc" and a: "a \<noteq> INVALID_ADDRESS"
  shows "dc_ok dc' \<and> (case r of
      None \<Rightarrow> ent dc' = ent dc \<and> ent dc a = None \<and> set_full dc' a
    | Some ref \<Rightarrow> \<exists>e. ref_entry ref dc' = Some e \<and> ent dc' = (ent dc)(a \<mapsto> e) \<and> m_address e = a \<and>
        (case ent dc a of None \<Rightarrow> fresh_entry e | Some e0 \<Rightarrow> e = e0)) \<and>
    (\<forall>q x. ref_entry q dc = Some x \<longrightarrow> m_address x \<noteq> INVALID_ADDRESS \<longrightarrow> ref_entry q dc' = Some x)"
proof -
  from g obtain t1 tag i hit d1 where s: "dd_splitAddress dc a = Inr (tag, i)"
    and f1: "find_slot (\<lambda>e. m_address e = a) (set_slots dc i) (m_directory dc) = Inr (hit, d1)"
    and rest: "(case hit of
          Some n \<Rightarrow>
            rbind (get_entry (Slot n) (dc\<lparr> m_directory := d1 \<rparr>)) (\<lambda>e.
            rbind (if m then incrElapsedTime (getLatency e) t1 else Inr t1) (\<lambda>now2.
              Inr (Some (Slot n), now2, dc\<lparr> m_directory := d1 \<rparr>)))
        | None \<Rightarrow>
            rbind (find_slot (\<lambda>e. m_address e = INVALID_ADDRESS) (set_slots dc i) d1) (\<lambda>(free, d2).
              case free of
                Some n \<Rightarrow>
                  rbind (get_entry (Slot n) (dc\<lparr> m_directory := d2 \<rparr>)) (\<lambda>e.
                  rbind (put_entry (Slot n) (e\<lparr> m_address := a \<rparr>) (dc\<lparr> m_directory := d2 \<rparr>)) (\<lambda>dc3.
                    Inr (Some (Slot n), t1, dc3)))
              | None \<Rightarrow>
                  Inr (map_option Replaced (find_replaced a (m_replaced_directory_entry_list (dc\<lparr> m_directory := d2 \<rparr>))),
                       t1, dc\<lparr> m_directory := d2 \<rparr>))) =
       Inr (r, t', dc')"
    unfolding getDirectoryEntry_def Let_def prod.case by (elim rbindE [where f = "\<lambda>now1. rbind (dd_splitAddress dc a) (F now1)" for F] rbind2E) (rule that)
  let ?dc1 = "dc\<lparr> m_directory := d1 \<rparr>"
  have hs: "set_slots dc i = home_slots dc a" using dd_splitAddress_index [OF s] by (simp add: home_slots_def)
  note s1 = slot_found [OF ok f1 [unfolded hs]]
  have u1: "unique ?dc1" using s1(1) by (simp add: dc_ok_def)
  have keep1: "ref_entry q ?dc1 = Some x" if "ref_entry q dc = Some x" for q x
    using ref_entry_grown(2) find_slot_eq_Inr [OF f1] that by blast
  show ?thesis
  proof (cases hit)
    case (Some n)
    with rest have r: "r = Some (Slot n)" "dc' = ?dc1" by (auto simp: rbind_eq_Inr)
    from s1(3) Some obtain e where e: "ref_entry (Slot n) ?dc1 = Some e" "m_address e = a" by auto
    then have "ent dc a = Some e" using ent_iff [OF u1, of a e] a s1(2) by auto
    then show ?thesis using r s1(1,2) e keep1 by (auto simp: fun_upd_idem)
  next
    case None
    from rest None obtain free d2 where f2: "find_slot (\<lambda>e. m_address e = INVALID_ADDRESS) (set_slots dc i) d1 = Inr (free, d2)"
      and rest2: "(case free of
          Some n \<Rightarrow>
            rbind (get_entry (Slot n) (dc\<lparr> m_directory := d2 \<rparr>)) (\<lambda>e.
            rbind (put_entry (Slot n) (e\<lparr> m_address := a \<rparr>) (dc\<lparr> m_directory := d2 \<rparr>)) (\<lambda>dc3.
              Inr (Some (Slot n), t1, dc3)))
        | None \<Rightarrow> Inr (map_option Replaced (find_replaced a (m_replaced_directory_entry_list dc)), t1, dc\<lparr> m_directory := d2 \<rparr>))
        = Inr (r, t', dc')"
      by (auto elim!: rbind2E simp: dram_directory_cache.simps cong: option.case_cong)
    let ?dc2 = "dc\<lparr> m_directory := d2 \<rparr>"
    have hs1: "set_slots dc i = home_slots ?dc1 a"
      using hs home_slots_same [of dc ?dc1 a] by (simp add: same_geometry_def)
    have "find_slot (\<lambda>e. m_address e = INVALID_ADDRESS) (home_slots ?dc1 a) (m_directory ?dc1) = Inr (free, d2)"
      using f2 hs1 by simp
    note s2 = slot_found [OF s1(1) this, simplified]
    have u2: "unique ?dc2" using s2(1) by (simp add: dc_ok_def)
    have hs2: "home_slots ?dc2 a = home_slots dc a" "home_slots ?dc1 a = home_slots dc a"
      using home_slots_same [of dc ?dc2 a] home_slots_same [of dc ?dc1 a] by (simp_all add: same_geometry_def)
    have noslot: "m_address e \<noteq> a" if "ref_entry (Slot n) ?dc2 = Some e" for n e
    proof
      assume ea: "m_address e = a"
      then have "ent ?dc1 a = Some e" using ent_iff [OF u2, of a e] that a s2(2) by auto
      then obtain q where q: "ref_entry q ?dc1 = Some e" using ent_iff [OF u1] by blast
      have "ref_entry q ?dc2 = Some e"
        using ref_entry_grown(2) [of ?dc1 d2 q e] find_slot_eq_Inr [OF f2] q by simp
      then have "q = Slot n" using u2 that ea a unfolding unique_def by blast
      then have "n \<in> set (home_slots dc a)" using s1(1) q ea a hs2 unfolding dc_ok_def placed_def by metis
      then show False using s1(3) None q ea \<open>q = Slot n\<close> by auto
    qed
    have keep2: "ref_entry q ?dc2 = Some x" if "ref_entry q dc = Some x" for q x
      using ref_entry_grown(2) [of ?dc1 d2 q x] find_slot_eq_Inr [OF f2] keep1 [OF that] by simp
    show ?thesis
    proof (cases free)
      case (Some n)
      from s2(3) Some obtain e where e: "n \<in> set (home_slots ?dc2 a)" "ref_entry (Slot n) ?dc2 = Some e" "m_address e = INVALID_ADDRESS"
        using hs2 by auto
      from rest2 Some e(2) have r: "r = Some (Slot n)" "put_entry (Slot n) (e\<lparr> m_address := a \<rparr>) ?dc2 = Inr dc'"
        by (auto simp: rbind_eq_Inr get_entry_eq_Inr)
      have "m_address x \<noteq> a" if x: "ref_entry q ?dc2 = Some x" for q x
      proof (cases q)
        case (Replaced k)
        then show ?thesis using x s2(1) e unfolding dc_ok_def set_full_def by (metis option.inject)
      qed (use noslot x in blast)
      then have none: "ent ?dc2 a = None" using ent_None_iff [OF u2] by blast
      note c = claim_ok [OF s2(1) e(1,2,3) a none r(2)]
      have "ref_entry (Slot n) dc' = Some (e\<lparr> m_address := a \<rparr>)" using put_entry_ref(1) [OF r(2) e(2)] by simp
      moreover have "ent ?dc2 = ent dc" using s1(2) s2(2) by simp
      moreover have "ref_entry q dc' = Some x" if "ref_entry q dc = Some x" "m_address x \<noteq> INVALID_ADDRESS" for q x
        using put_entry_ref(1) [OF r(2) e(2), of q] keep2 [OF that(1)] that(2) e(2,3) by auto
      ultimately show ?thesis using c r(1) none by (auto simp: fresh_entry_def)
    next
      case None
      with rest2 have r: "r = map_option Replaced (find_replaced a (m_replaced_directory_entry_list dc))" "dc' = ?dc2" by auto
      have eq: "ent ?dc2 = ent dc" using s1(2) s2(2) by simp
      have full: "set_full ?dc2 a" using s2(3) None hs2 unfolding set_full_def by auto
      show ?thesis
      proof (cases "find_replaced a (m_replaced_directory_entry_list dc)")
        case (Some k)
        then have k: "ref_entry (Replaced k) ?dc2 = Some (m_replaced_directory_entry_list dc ! k)"
          "m_address (m_replaced_directory_entry_list dc ! k) = a"
          using find_replaced_Some by (auto simp: ref_entry_Replaced)
        then have "ent dc a = Some (m_replaced_directory_entry_list dc ! k)" using ent_iff [OF u2, of a] a eq by auto
        then show ?thesis using r Some k s2(1) eq keep2 by (auto simp: fun_upd_idem)
      next
        case None
        have "m_address x \<noteq> a" if x: "ref_entry q ?dc2 = Some x" for q x
          using noslot find_replaced_None [OF None] x by (cases q) (auto simp: ref_entry_Replaced)
        then have "ent ?dc2 a = None" using ent_None_iff [OF u2] by blast
        then show ?thesis using r None s2(1) eq full keep2 by simp
      qed
    qed
  qed
qed


section \<open>Replacing and removing entries\<close>

lemma getReplacementCandidates_ok:
  assumes g: "getReplacementCandidates a (t, dc) = Inr (slots, t', dc')" and ok: "dc_ok dc" and a: "a \<noteq> INVALID_ADDRESS"
  shows "dc_ok dc'" "ent dc' = ent dc" "ent dc a = None" "set_full dc' a"
    "\<forall>n \<in> set slots. n \<in> set (home_slots dc' a) \<and> (\<exists>e. ref_entry (Slot n) dc' = Some e)"
proof -
  from g obtain t1 dc1 i ptr ptrs x d1 where e: "getDirectoryEntry a False (t, dc) = Inr (None, t1, dc1)"
    and f: "find_slot (\<lambda>e. False) slots (m_directory dc1) = Inr (x, d1)"
    and slots: "dd_splitAddress dc1 a = Inr i"
      "slots = map (\<lambda>j. slot_num dc1 (snd i) ((of_nat j + ptr) mod m_dd_associativity dc1)) [0..<unat (m_dd_associativity dc1)]"
    and dc': "dc' = dc1\<lparr> m_directory := d1, m_replacement_ptrs := ptrs \<rparr>"
    unfolding getReplacementCandidates_def Let_def
    by (elim rbind3E) (auto elim!: rbindE rbind2E split: if_splits)
  note g = getDirectoryEntry_ok [OF e ok a, unfolded option.case]
  note f1 = find_slot_eq_Inr [OF f]
  let ?dc = "dc1\<lparr> m_directory := d1 \<rparr>"
  have ref: "ref_entry r dc' = ref_entry r ?dc" for r unfolding dc' by (cases r) (simp_all add: ref_entry_def)
  have hs: "home_slots dc' b = home_slots ?dc b" "home_slots dc' b = home_slots dc1 b" for b
    unfolding dc' by (rule home_slots_same, simp add: same_geometry_def)+
  have eq: "dc_ok dc' = dc_ok ?dc" "ent dc' = ent ?dc"
    unfolding dc_ok_def placed_def unique_def blank_def set_full_def ref hs(1)
    by (simp_all add: fun_eq_iff ent_def dir_entries_def geom_ok_def dc')
  note gr = dc_ok_grown [of dc1 d1]
  show "dc_ok dc'" "ent dc' = ent dc" "ent dc a = None" using eq gr g f1 by auto
  show "set_full dc' a" using g ref_entry_grown(2) [of dc1 d1] f1 unfolding set_full_def hs(2) ref by blast
  have "x = None" using f1 by (cases x) auto
  then have ex: "\<exists>e. ref_entry (Slot n) dc' = Some e" if "n \<in> set slots" for n
    using f1 that unfolding ref by (auto simp: ref_entry_Slot)
  have "n \<in> set (home_slots dc1 a)" if n: "n \<in> set slots" for n
  proof -
    from n obtain j where j: "j < unat (m_dd_associativity dc1)" "n = slot_num dc1 (set_index_of dc1 a) ((of_nat j + ptr) mod m_dd_associativity dc1)"
      using slots dd_splitAddress_index [of dc1 a "fst i" "snd i"] by auto
    let ?w = "(of_nat j + ptr) mod m_dd_associativity dc1"
    have "unat ?w < unat (m_dd_associativity dc1)" using j(1) by (simp add: unat_mod)
    moreover have "of_nat (unat ?w) = ?w" by simp
    ultimately show ?thesis using j(2) unfolding home_slots_def set_slots_def by (auto intro!: image_eqI [of _ _ "unat ?w"])
  qed
  then show "\<forall>n \<in> set slots. n \<in> set (home_slots dc' a) \<and> (\<exists>e. ref_entry (Slot n) dc' = Some e)"
    using ex hs(2) by simp
qed

lemma replaceDirectoryEntry_ok:
  assumes g: "replaceDirectoryEntry ra a m (t, dc) = Inr (ref, t', dc')" and ok: "dc_ok dc"
    and a: "a \<noteq> INVALID_ADDRESS" "ra \<noteq> INVALID_ADDRESS" "ent dc a = None" "set_full dc a"
    and slot: "\<exists>n \<in> set (home_slots dc a). \<exists>e. ref_entry (Slot n) dc = Some e \<and> m_address e = ra"
  shows "dc_ok dc'" "\<exists>e. ref_entry ref dc' = Some e \<and> fresh_entry e \<and> m_address e = a \<and> ent dc' = (ent dc)(a \<mapsto> e)"
    "\<exists>n. ref = Slot n"
proof -
  from g obtain now1 tag i hit d1 where s: "dd_splitAddress dc ra = Inr (tag, i)"
    and f: "find_slot (\<lambda>e. m_address e = ra) (set_slots dc i) (m_directory dc) = Inr (hit, d1)"
    and rest: "(case hit of
          None \<Rightarrow> Inl Log_Error
        | Some n \<Rightarrow>
            rbind (get_entry (Slot n) (dc\<lparr> m_directory := d1 \<rparr>)) (\<lambda>old.
            case createDirectoryEntry d1 of (e, d2) \<Rightarrow>
              rbind (setDirectoryEntry n (e\<lparr> m_address := a \<rparr>) d2) (\<lambda>d3.
              Inr (Slot n, now1, dc\<lparr> m_directory := d3,
                m_replaced_directory_entry_list := m_replaced_directory_entry_list dc @ [old] \<rparr>)))) = Inr (ref, t', dc')"
    unfolding replaceDirectoryEntry_def Let_def prod.case
    by (elim rbindE [where f = "\<lambda>now1. rbind (dd_splitAddress dc ra) (F now1)" for F] rbind2E) (rule that)
  have hs: "set_slots dc i = home_slots dc ra" using dd_splitAddress_index [OF s] by (simp add: home_slots_def)
  note s1 = slot_found [OF ok f [unfolded hs]]
  let ?dc1 = "dc\<lparr> m_directory := d1 \<rparr>"
  from rest obtain n where n: "hit = Some n" by (cases hit) auto
  obtain e0 d2 where c: "createDirectoryEntry d1 = (e0, d2)" by fastforce
  note c0 = createDirectoryEntry_fresh [OF c]
  from s1(3) n obtain old where old: "n \<in> set (home_slots dc ra)" "ref_entry (Slot n) ?dc1 = Some old" "m_address old = ra" by auto
  let ?e = "e0\<lparr> m_address := a \<rparr>"
  from rest n c old(2) c0 have r: "ref = Slot n"
    and len: "n < length (m_directory_entry_list d1)"
    and dc': "dc' = dc\<lparr> m_directory := d2\<lparr> m_directory_entry_list := (m_directory_entry_list d1)[n := Some ?e] \<rparr>,
        m_replaced_directory_entry_list := m_replaced_directory_entry_list dc @ [old] \<rparr>"
    by (auto simp: rbind_eq_Inr get_entry_eq_Inr setDirectoryEntry_def res_simps)
  let ?k = "length (m_replaced_directory_entry_list dc)"
  have ref: "ref_entry q dc' = (if q = Slot n then Some ?e else if q = Replaced ?k then Some old else ref_entry q ?dc1)" for q
    using len unfolding dc' by (cases q) (auto simp: ref_entry_def Let_def nth_append)
  have fresh_k: "ref_entry (Replaced ?k) ?dc1 = None" by (simp add: ref_entry_def)
  have sg: "same_geometry ?dc1 dc'" "same_geometry dc dc'" unfolding dc' by (simp_all add: same_geometry_def)
  note hs1 = home_slots_same [OF sg(1)] home_slots_same [OF sg(2)]
  have addr: "m_address ?e = a" by simp
  have okD: "placed ?dc1" "unique ?dc1" "blank ?dc1" using s1(1) by (auto simp: dc_ok_def)
  have none: "m_address x \<noteq> a" if "ref_entry q ?dc1 = Some x" for q x
    using that a(1,3) ent_None_iff [OF okD(2), of a] s1(2) by auto
  have same_slot: "q = Slot n" if "ref_entry q ?dc1 = Some x" "m_address x = ra" for q x
    using that old okD(2) a(2) unfolding unique_def by metis
  define origin_of where "origin_of r = (if r = Replaced ?k then Slot n else r)" for r
  have origin: "ref_entry r dc' = ref_entry (origin_of r) ?dc1" if "r \<noteq> Slot n" for r
    using ref that old(2) by (simp add: origin_of_def)
  have new: "m_address y = a \<longleftrightarrow> r = Slot n" if "ref_entry r dc' = Some y" for r y
  proof (cases "r = Slot n")
    case False
    then show ?thesis using that none origin by metis
  qed (use that ref addr in auto)
  have u: "unique dc'"
    unfolding unique_def
  proof (intro allI impI)
    fix q q' x x'
    assume x: "ref_entry q dc' = Some x" "ref_entry q' dc' = Some x'" "m_address x = m_address x'" "m_address x \<noteq> INVALID_ADDRESS"
    show "q = q'"
    proof (cases "q = Slot n \<or> q' = Slot n")
      case True
      then show ?thesis using new x by metis
    next
      case False
      then have "origin_of q = origin_of q'" using x origin okD(2) unfolding unique_def by metis
      with False show ?thesis by (auto simp: origin_of_def split: if_splits)
    qed
  qed
  have full: "set_full dc' b" if "set_full ?dc1 b" for b
    using that a(1) addr unfolding set_full_def hs1(1) ref by auto
  from slot obtain n' x where n': "n' \<in> set (home_slots dc a)" "ref_entry (Slot n') dc = Some x" "m_address x = ra" by blast
  have "ref_entry (Slot n') ?dc1 = Some x" using ref_entry_grown(2) n'(2) find_slot_eq_Inr [OF f] by blast
  then have "n' = n" using same_slot n'(3) by auto
  have "placed dc'"
    using okD(1) n'(1) \<open>n' = n\<close> addr unfolding placed_def hs1(1) ref
    by (auto split: if_splits simp: home_slots_same [of dc ?dc1] same_geometry_def)
  moreover have "blank dc'" using okD(3) a(1) addr unfolding blank_def ref by auto
  moreover have "home_slots dc ra = home_slots dc a"
    using home_slots_disjoint [of dc n a ra] old(1) n'(1) \<open>n' = n\<close> ok by (simp add: dc_ok_def)
  then have "set_full dc ra" using a(4) by (simp add: set_full_def)
  then have "set_full ?dc1 ra"
    using ref_entry_grown(2) [of dc d1] find_slot_eq_Inr [OF f] home_slots_same [of dc ?dc1 ra]
    unfolding set_full_def by (auto simp: same_geometry_def)
  then have "\<forall>k e. ref_entry (Replaced k) dc' = Some e \<longrightarrow> m_address e \<noteq> INVALID_ADDRESS \<and> set_full dc' (m_address e)"
    using s1(1) full old a(2) unfolding dc_ok_def ref by auto
  moreover have "geom_ok dc'" using ok geom_ok_same [OF sg(2)] by (simp add: dc_ok_def)
  ultimately show "dc_ok dc'" using u by (simp add: dc_ok_def)
  have "ent dc' = (ent dc)(a \<mapsto> ?e)"
  proof
    fix b
    have "ent dc' b = Some x \<longleftrightarrow> ent ?dc1 b = Some x" if "b \<noteq> a" for x
    proof -
      have "(\<exists>r. ref_entry r dc' = Some x) \<longleftrightarrow> (\<exists>r. ref_entry r ?dc1 = Some x)" if "m_address x = b"
      proof
        assume "\<exists>r. ref_entry r dc' = Some x"
        then obtain r where r: "ref_entry r dc' = Some x" by blast
        then show "\<exists>r. ref_entry r ?dc1 = Some x" using origin [of r] new [OF r] that \<open>b \<noteq> a\<close> by auto
      next
        assume "\<exists>r. ref_entry r ?dc1 = Some x"
        then obtain r where r: "ref_entry r ?dc1 = Some x" by blast
        show "\<exists>r. ref_entry r dc' = Some x"
        proof (cases "r = Slot n")
          case True
          then show ?thesis using r old(2) ref [of "Replaced ?k"] by auto
        next
          case False
          then show ?thesis using r fresh_k ref [of r] by (metis option.distinct(1))
        qed
      qed
      then show ?thesis using ent_iff [OF u, of b x] ent_iff [OF okD(2), of b x] by blast
    qed
    then have "b \<noteq> a \<Longrightarrow> ent dc' b = ent ?dc1 b" by (metis not_None_eq)
    then show "ent dc' b = ((ent dc)(a \<mapsto> ?e)) b"
      using ent_iff [OF u, of a ?e] a(1) ref addr s1(2) by auto
  qed
  then show "\<exists>e. ref_entry ref dc' = Some e \<and> fresh_entry e \<and> m_address e = a \<and> ent dc' = (ent dc)(a \<mapsto> e)"
    using ref r c0 by (auto simp: fresh_entry_def)
  show "\<exists>n. ref = Slot n" using r by blast
qed

lemma invalidateDirectoryEntry_ok:
  assumes i: "invalidateDirectoryEntry a dc = Inr dc'" and ok: "dc_ok dc" and a: "a \<noteq> INVALID_ADDRESS"
  shows "dc_ok dc'" "ent dc' = (ent dc)(a := None)" "ref_entry (Slot n) dc' = ref_entry (Slot n) dc"
proof -
  let ?l = "m_replaced_directory_entry_list dc"
  from i obtain k where f: "find_replaced a ?l = Some k"
    and dc': "dc' = dc\<lparr> m_replaced_directory_entry_list := take k ?l @ drop (Suc k) ?l \<rparr>"
    by (auto simp: invalidateDirectoryEntry_def split: option.splits)
  from find_replaced_Some [OF f] have k: "k < length ?l" "m_address (?l ! k) = a" by auto
  have slot: "ref_entry (Slot n) dc' = ref_entry (Slot n) dc" for n unfolding dc' by (simp add: ref_entry_def)
  have repl: "ref_entry (Replaced j) dc' = ref_entry (Replaced (if j < k then j else Suc j)) dc" for j
    using k unfolding dc' by (auto simp: ref_entry_def Let_def nth_append min_def)
  have okD: "placed dc" "unique dc" "blank dc" using ok by (auto simp: dc_ok_def)
  have hs: "home_slots dc' b = home_slots dc b" for b by (rule home_slots_same) (simp add: dc' same_geometry_def)
  define shift where "shift q = (case q of Slot n \<Rightarrow> Slot n | Replaced j \<Rightarrow> Replaced (if j < k then j else Suc j))" for q
  have ref: "ref_entry q dc' = ref_entry (shift q) dc" for q
    using slot repl by (cases q) (simp_all add: shift_def)
  have inj: "shift q = shift q' \<longleftrightarrow> q = q'" for q q'
    by (cases q; cases q') (auto simp: shift_def split: if_splits)
  have hit: "(\<exists>q. shift q = r) \<longleftrightarrow> r \<noteq> Replaced k" for r
  proof (cases r)
    case (Replaced j)
    show ?thesis
    proof (cases "j = k")
      case False
      then have "shift (Replaced (if j < k then j else j - 1)) = r" using Replaced by (auto simp: shift_def)
      then show ?thesis using False Replaced by auto
    qed (use Replaced in \<open>auto simp: shift_def split: entry_ref.splits if_splits\<close>)
  qed (auto simp: shift_def split: entry_ref.splits)
  have u: "unique dc'" using okD(2) inj unfolding unique_def ref by metis
  have full: "set_full dc' b \<longleftrightarrow> set_full dc b" for b unfolding set_full_def hs slot ..
  have "placed dc'" "blank dc'" using okD unfolding placed_def blank_def hs slot by auto
  moreover have "geom_ok dc'" using ok by (simp add: dc_ok_def geom_ok_def dc')
  ultimately show "dc_ok dc'" using ok u full repl unfolding dc_ok_def by auto
  have only: "ref_entry q dc = Some x \<Longrightarrow> m_address x = a \<Longrightarrow> q = Replaced k" for q x
    using okD(2) k a unfolding unique_def by (metis ref_entry_Replaced)
  show "ent dc' = (ent dc)(a := None)"
  proof
    fix b
    have "ent dc' b = Some x \<longleftrightarrow> ent dc b = Some x" if "b \<noteq> a" for x
    proof -
      have "(\<exists>r. ref_entry r dc' = Some x) \<longleftrightarrow> (\<exists>r. ref_entry r dc = Some x)" if "m_address x = b"
      proof
        assume "\<exists>r. ref_entry r dc = Some x"
        then obtain r where r: "ref_entry r dc = Some x" by blast
        moreover have "r \<noteq> Replaced k" using r k \<open>b \<noteq> a\<close> that by (auto simp: ref_entry_Replaced)
        ultimately show "\<exists>r. ref_entry r dc' = Some x" using hit [of r] ref by auto
      qed (use ref in auto)
      then show ?thesis using ent_iff [OF u, of b x] ent_iff [OF okD(2), of b x] by blast
    qed
    then have "b \<noteq> a \<Longrightarrow> ent dc' b = ent dc b" by (metis not_None_eq)
    moreover have "ent dc' a = None"
    proof -
      have "m_address x \<noteq> a" if "ref_entry r dc' = Some x" for r x
        using that only [of "shift r" x] hit [of "shift r"] unfolding ref by auto
      then show ?thesis using ent_None_iff [OF u, of a] by blast
    qed
    ultimately show "ent dc' b = ((ent dc)(a := None)) b" by auto
  qed
  show "ref_entry (Slot n) dc' = ref_entry (Slot n) dc" by (rule slot)
qed

end
