(* ===== verification/Directory_Inv.thy ===== *)
theory Directory_Inv
  imports Directory_Store
begin

text \<open>
  What the caches may hold, and the invariant that relates it to the directory.

  For every line, \<open>line_ghost\<close> records what follows from the messages exchanged so far: the cores a
  copy was sent to and that have not given it up (\<open>holders\<close>), those among them that may write
  (\<open>writers\<close>), the cores asked for a write-back or a flush, the cores with an unanswered request, and
  the reads DRAM has not answered. \<open>line_ok\<close> is the invariant of one line.
\<close>

section \<open>Sharers of an entry\<close>

definition sharer_set :: "directory_entry \<Rightarrow> core_id set" where
  "sharer_set e = set (snd (getSharersList e))"

definition exclusive :: "directory_entry \<Rightarrow> bool" where
  "exclusive e \<longleftrightarrow> m_dstate e = MODIFIED \<or> m_dstate e = EXCLUSIVE"

definition entry_wf :: "directory_entry \<Rightarrow> bool" where
  "entry_wf e \<longleftrightarrow> (m_dstate e = UNCACHED \<longleftrightarrow> sharer_set e = {}) \<and>
     (exclusive e \<longrightarrow> sharer_set e = {m_owner_id e}) \<and> m_dstate e \<noteq> OWNED"

lemma sharer_set_iff: "c \<in> sharer_set e \<longleftrightarrow> 0 \<le> c \<and> nat c < length (m_sharers e) \<and> m_sharers e ! nat c"
  by (auto simp: sharer_set_def getSharersList_def image_iff)

lemma sharer_valid: "c \<in> sharer_set e \<Longrightarrow> c \<noteq> INVALID_CORE_ID"
  by (auto simp: sharer_set_iff INVALID_CORE_ID_def)

lemma hasSharer_eq_Inr: "hasSharer c e = Inr b \<Longrightarrow> b \<longleftrightarrow> c \<in> sharer_set e"
  by (auto simp: hasSharer_def sharer_set_iff res_simps split: if_splits)

lemma sharer_set_fields [simp]:
  "sharer_set (e\<lparr> m_dstate := s \<rparr>) = sharer_set e"
  "sharer_set (e\<lparr> m_owner_id := c \<rparr>) = sharer_set e"
  "sharer_set (e\<lparr> m_forwarder_id := c \<rparr>) = sharer_set e"
  "sharer_set (e\<lparr> m_address := a \<rparr>) = sharer_set e"
  "sharer_set (e\<lparr> m_rand_num := n \<rparr>) = sharer_set e"
  by (simp_all add: sharer_set_def getSharersList_def)

text \<open>Entries that agree on everything the invariant looks at but the sharers.\<close>

definition same_state :: "directory_entry \<Rightarrow> directory_entry \<Rightarrow> bool" where
  "same_state e e' \<longleftrightarrow> m_dstate e' = m_dstate e \<and> m_owner_id e' = m_owner_id e \<and>
     m_address e' = m_address e \<and> m_forwarder_id e' = m_forwarder_id e"

lemma addSharer_eq_Inr:
  assumes "addSharer c mx e = Inr (added, e')"
  shows "c \<notin> sharer_set e" "same_state e e'" "sharer_set e' = (if added then insert c (sharer_set e) else sharer_set e)"
proof -
  from assms obtain has where has: "hasSharer c e = Inr has"
    and f: "(if has then Inl Assert_Failed
     else case m_entry_kind e of
       Limited_No_Broadcast \<Rightarrow>
         if getNumSharers e \<ge> mx then Inr (False, e)
         else Inr (True, e\<lparr> m_sharers := (m_sharers e)[nat c := True] \<rparr>)
     | Limitless \<Rightarrow>
         let e1 = (if length (m_sharers e) = mx then e\<lparr> m_software_trap_enabled := True \<rparr> else e)
         in Inr (True, e1\<lparr> m_sharers := (m_sharers e)[nat c := True] \<rparr>)) = Inr (added, e')"
    unfolding addSharer_def by (elim rbindE) (rule that)
  then have "\<not> has" by auto
  note k = f [unfolded if_not_P [OF this]]
  from has \<open>\<not> has\<close> have "hasSharer c e = Inr False" by simp
  then have c: "0 \<le> c" "nat c < length (m_sharers e)" "\<not> m_sharers e ! nat c"
    by (auto simp: hasSharer_def res_simps split: if_splits)
  then show "c \<notin> sharer_set e" by (simp add: sharer_set_iff)
  show "same_state e e'" using k by (auto simp: same_state_def Let_def split: entry_kind.splits if_splits)
  have "sharer_set e' = insert c (sharer_set e)" if "m_sharers e' = (m_sharers e)[nat c := True]"
    using c that by (auto simp: sharer_set_iff nth_list_update set_eq_iff eq_nat_nat_iff)
  then show "sharer_set e' = (if added then insert c (sharer_set e) else sharer_set e)"
    using k by (auto simp: Let_def split: entry_kind.splits if_splits)
qed

lemma removeSharer_eq_Inr:
  assumes "removeSharer c False e = Inr e'"
  shows "c \<in> sharer_set e" "same_state e e'" "sharer_set e' = sharer_set e - {c}"
proof -
  from assms have h: "hasSharer c e = Inr True" and e': "e' = e\<lparr> m_sharers := (m_sharers e)[nat c := False] \<rparr>"
    by (auto simp: removeSharer_def rbind_eq_Inr split: if_splits)
  then have c: "0 \<le> c" "nat c < length (m_sharers e)" "m_sharers e ! nat c"
    by (auto simp: hasSharer_def res_simps split: if_splits)
  then show "c \<in> sharer_set e" by (simp add: sharer_set_iff)
  show "same_state e e'" by (simp add: same_state_def e')
  show "sharer_set e' = sharer_set e - {c}"
    using c unfolding e' by (auto simp: sharer_set_iff nth_list_update set_eq_iff eq_nat_nat_iff)
qed

lemma setOwner_eq_Inr:
  "setOwner c e = Inr e' \<Longrightarrow> e' = e\<lparr> m_owner_id := c \<rparr> \<and> (c = INVALID_CORE_ID \<or> c \<in> sharer_set e)"
  by (auto simp: setOwner_def rbind_eq_Inr dest: hasSharer_eq_Inr split: if_splits)

lemma getOneSharer_eq_Inr:
  "getOneSharer e = Inr (c, e') \<Longrightarrow> same_state e e' \<and> sharer_set e' = sharer_set e"
  by (auto simp: getOneSharer_def Let_def rbind_eq_Inr same_state_def split: entry_kind.splits if_splits prod.splits)

lemma getSharersList_eq: "getSharersList e = (b, cs) \<Longrightarrow> \<not> b \<and> distinct cs \<and> set cs = sharer_set e"
  by (auto simp: getSharersList_def sharer_set_def distinct_map)

lemma getNumSharers_card: "getNumSharers e = card (sharer_set e)"
proof -
  have "length (filter (\<lambda>j. l ! j) [0..<length l]) = length (filter id l)" for l :: "bool list"
    unfolding length_filter_conv_card by (rule arg_cong [where f = card]) auto
  then have "length (snd (getSharersList e)) = getNumSharers e" by (simp add: getSharersList_def getNumSharers_def)
  moreover have "distinct (snd (getSharersList e))" by (simp add: getSharersList_def distinct_map)
  ultimately show ?thesis using distinct_card [of "snd (getSharersList e)"] by (simp add: sharer_set_def)
qed

lemma finite_sharer_set [simp]: "finite (sharer_set e)"
  by (simp add: sharer_set_def)

lemma getNumSharers_0: "getNumSharers e = 0 \<longleftrightarrow> sharer_set e = {}"
  by (simp add: getNumSharers_card)

lemma fresh_entry_wf: "fresh_entry e \<Longrightarrow> entry_wf e \<and> sharer_set e = {} \<and> m_dstate e = UNCACHED"
  by (auto simp: fresh_entry_def entry_wf_def exclusive_def sharer_set_iff set_eq_iff in_set_conv_nth)

section \<open>What the messages tell\<close>

record line_ghost =
  holders :: "core_id set"
  writers :: "core_id set"
  asked_wb :: "core_id set"
  asked_flush :: "core_id set"
  requesting :: "core_id set"
  dram_reads :: nat

definition no_ghost :: line_ghost where
  "no_ghost = \<lparr> holders = {}, writers = {}, asked_wb = {}, asked_flush = {}, requesting = {}, dram_reads = 0 \<rparr>"

text \<open>A copy sent to a core overtakes no earlier question to that core: a core that had no copy has
  ignored the question.\<close>

definition grant_copy :: "core_id \<Rightarrow> line_ghost \<Rightarrow> line_ghost" where
  "grant_copy c h = h\<lparr> holders := insert c (holders h), asked_wb := asked_wb h - {c},
     asked_flush := asked_flush h - {c}, requesting := requesting h - {c} \<rparr>"

definition sent_line :: "msg_t \<Rightarrow> core_id \<Rightarrow> line_ghost \<Rightarrow> line_ghost" where
  "sent_line typ c h =
     (if typ = SH_REP then grant_copy c h
      else if typ = EX_REP \<or> typ = UPGRADE_REP then (grant_copy c h)\<lparr> writers := insert c (writers h) \<rparr>
      else if typ = WB_REQ then h\<lparr> asked_wb := insert c (asked_wb h) \<rparr>
      else if typ = FLUSH_REQ then h\<lparr> asked_flush := insert c (asked_flush h) \<rparr>
      else if typ = DRAM_READ_REQ then h\<lparr> dram_reads := Suc (dram_reads h) \<rparr>
      else h)"

definition received_line :: "msg_t \<Rightarrow> core_id \<Rightarrow> line_ghost \<Rightarrow> line_ghost" where
  "received_line typ c h =
     (if typ = INV_REP \<or> typ = FLUSH_REP then
        h\<lparr> holders := holders h - {c}, writers := writers h - {c}, asked_wb := asked_wb h - {c},
           asked_flush := asked_flush h - {c} \<rparr>
      else if typ = WB_REP then h\<lparr> writers := writers h - {c}, asked_wb := asked_wb h - {c} \<rparr>
      else if typ = DRAM_READ_REP then h\<lparr> dram_reads := dram_reads h - 1 \<rparr>
      else if typ = EX_REQ \<or> typ = SH_REQ \<or> typ = UPGRADE_REQ then h\<lparr> requesting := insert c (requesting h) \<rparr>
      else h)"

type_synonym ghost = "u64 \<Rightarrow> line_ghost"

definition sent_packet :: "packet \<Rightarrow> ghost \<Rightarrow> ghost" where
  "sent_packet p g = g(m_msg_address (pkt_msg p) :=
     sent_line (m_msg_type (pkt_msg p)) (pkt_receiver p) (g (m_msg_address (pkt_msg p))))"

definition received_msg :: "core_id \<Rightarrow> shmem_msg \<Rightarrow> ghost \<Rightarrow> ghost" where
  "received_msg c m g = g(m_msg_address m := received_line (m_msg_type m) c (g (m_msg_address m)))"

section \<open>The invariant of a line\<close>

definition core_req :: "shmem_req \<Rightarrow> bool" where
  "core_req r \<longleftrightarrow> req_type r = EX_REQ \<or> req_type r = SH_REQ \<or> req_type r = UPGRADE_REQ"

definition entry_part :: "directory_entry option \<Rightarrow> line_ghost \<Rightarrow> bool" where
  "entry_part e h \<longleftrightarrow>
     (case e of None \<Rightarrow> holders h = {} | Some x \<Rightarrow> entry_wf x \<and> holders h \<subseteq> sharer_set x) \<and>
     writers h \<subseteq> holders h \<and>
     (writers h \<noteq> {} \<longrightarrow> (\<exists>x. e = Some x \<and> exclusive x))"

definition queue_part :: "u64 \<Rightarrow> shmem_req list \<Rightarrow> line_ghost \<Rightarrow> bool" where
  "queue_part a q h \<longleftrightarrow>
     (\<forall>r \<in> set q. req_addr r = a \<and> (core_req r \<or> req_type r = NULLIFY_REQ) \<and>
        (req_type r = EX_REQ \<or> req_type r = SH_REQ \<longrightarrow> req_core r \<notin> holders h)) \<and>
     (\<forall>r \<in> set (tl q). core_req r \<and> \<not> m_wait_for_data r \<and> m_forwarding_from r = INVALID_CORE_ID) \<and>
     distinct (map req_core (filter core_req q)) \<and>
     req_core ` set (filter core_req q) \<subseteq> requesting h"

definition asked_ok :: "directory_entry option \<Rightarrow> shmem_req \<Rightarrow> line_ghost \<Rightarrow> bool" where
  "asked_ok e r h \<longleftrightarrow>
     (\<forall>c \<in> asked_wb h \<inter> holders h. req_type r = SH_REQ \<and>
        (\<exists>x. e = Some x \<and> (exclusive x \<or> m_dstate x = SHARED \<and> m_forwarding_from r = c \<and> req_core r \<in> sharer_set x))) \<and>
     (\<forall>c \<in> asked_flush h \<inter> holders h. req_type r \<noteq> SH_REQ \<and>
        (\<exists>x. e = Some x \<and> (m_dstate x = SHARED \<longrightarrow> req_type r = UPGRADE_REQ)))"

definition none_asked :: "line_ghost \<Rightarrow> bool" where
  "none_asked h \<longleftrightarrow> asked_wb h \<inter> holders h = {} \<and> asked_flush h \<inter> holders h = {}"

definition waiting_ok :: "directory_entry option \<Rightarrow> shmem_req \<Rightarrow> line_ghost \<Rightarrow> bool" where
  "waiting_ok e r h \<longleftrightarrow> none_asked h \<and> dram_reads h = 1 \<and> req_core r \<notin> holders h \<and>
     (\<exists>x. e = Some x \<and> req_core r \<in> sharer_set x \<and>
        (if req_type r = SH_REQ then m_dstate x = SHARED \<or> m_dstate x = EXCLUSIVE
         else core_req r \<and> m_dstate x = MODIFIED))"

definition front_part :: "directory_entry option \<Rightarrow> shmem_req list \<Rightarrow> line_ghost \<Rightarrow> bool" where
  "front_part e q h \<longleftrightarrow> (case q of
      [] \<Rightarrow> none_asked h \<and> dram_reads h = 0
    | r # rs \<Rightarrow> if m_wait_for_data r then waiting_ok e r h else asked_ok e r h \<and> dram_reads h = 0)"

definition line_ok :: "u64 \<Rightarrow> directory_entry option \<Rightarrow> shmem_req list \<Rightarrow> line_ghost \<Rightarrow> bool" where
  "line_ok a e q h \<longleftrightarrow> entry_part e h \<and> queue_part a q h \<and> front_part e q h"

lemma line_ok_start [simp]: "line_ok a None [] no_ghost"
  by (simp add: line_ok_def entry_part_def queue_part_def front_part_def none_asked_def no_ghost_def)

section \<open>Steps of one line\<close>

lemma line_ok_entry:
  assumes "line_ok a (Some e) q h"
  shows "entry_wf e" "holders h \<subseteq> sharer_set e" "writers h \<subseteq> holders h" "writers h \<noteq> {} \<Longrightarrow> exclusive e"
  using assms by (auto simp: line_ok_def entry_part_def)

text \<open>Only state, owner and sharers of an entry matter.\<close>

lemma line_ok_cong:
  assumes "line_ok a (Some e) q h" "sharer_set e' = sharer_set e" "m_dstate e' = m_dstate e" "m_owner_id e' = m_owner_id e"
  shows "line_ok a (Some e') q h"
proof -
  have e: "exclusive e' = exclusive e" "entry_wf e' = entry_wf e"
    using assms(2-4) by (simp_all add: exclusive_def entry_wf_def)
  have "entry_part (Some e') h = entry_part (Some e) h" using assms(2) e by (simp add: entry_part_def)
  moreover have "waiting_ok (Some e') r h = waiting_ok (Some e) r h" for r using assms(2,3) by (simp add: waiting_ok_def)
  moreover have "asked_ok (Some e') r h = asked_ok (Some e) r h" for r using assms(2,3) e by (simp add: asked_ok_def)
  ultimately show ?thesis using assms(1) by (cases q) (simp_all add: line_ok_def front_part_def)
qed

text \<open>An entry without sharers appears where there was none.\<close>

lemma line_ok_fresh:
  assumes "line_ok a None q h" "fresh_entry e"
  shows "line_ok a (Some e) q h"
proof -
  have "holders h = {}" "writers h = {}" using assms(1) by (auto simp: line_ok_def entry_part_def)
  with assms show ?thesis
    by (auto simp: line_ok_def entry_part_def front_part_def waiting_ok_def asked_ok_def fresh_entry_wf split: list.splits if_splits)
qed

text \<open>A line without sharers loses its entry.\<close>

lemma line_ok_remove:
  assumes "line_ok a (Some e) (r # rs) h" "m_dstate e = UNCACHED"
  shows "holders h = {}" "\<not> m_wait_for_data r" "line_ok a None rs h"
proof -
  have e: "sharer_set e = {}" using line_ok_entry(1) [OF assms(1)] assms(2) by (simp add: entry_wf_def)
  then show h: "holders h = {}" using line_ok_entry(2) [OF assms(1)] by simp
  show w: "\<not> m_wait_for_data r"
    using assms(1) e by (auto simp: line_ok_def front_part_def waiting_ok_def)
  show "line_ok a None rs h"
    using assms(1) h w
    by (cases rs) (auto simp: line_ok_def entry_part_def queue_part_def front_part_def none_asked_def asked_ok_def split: if_splits)
qed


lemma sent_line_simps [simp]:
  "sent_line SH_REP c h = grant_copy c h"
  "sent_line EX_REP c h = (grant_copy c h)\<lparr> writers := insert c (writers h) \<rparr>"
  "sent_line UPGRADE_REP c h = (grant_copy c h)\<lparr> writers := insert c (writers h) \<rparr>"
  "sent_line WB_REQ c h = h\<lparr> asked_wb := insert c (asked_wb h) \<rparr>"
  "sent_line FLUSH_REQ c h = h\<lparr> asked_flush := insert c (asked_flush h) \<rparr>"
  "sent_line INV_REQ c h = h"
  "sent_line DRAM_WRITE_REQ c h = h"
  "sent_line DRAM_READ_REQ c h = h\<lparr> dram_reads := Suc (dram_reads h) \<rparr>"
  by (simp_all add: sent_line_def)

lemma line_ok_exclusive:
  assumes "line_ok a (Some e) q h" "exclusive e" "c \<in> holders h"
  shows "sharer_set e = {c}" "holders h = {c}"
  using line_ok_entry [OF assms(1)] assms(2,3) by (auto simp: entry_wf_def)

text \<open>Requests that agree in the fields the invariant looks at.\<close>

definition same_req :: "shmem_req \<Rightarrow> shmem_req \<Rightarrow> bool" where
  "same_req r r' \<longleftrightarrow> req_type r' = req_type r \<and> req_core r' = req_core r \<and> req_addr r' = req_addr r \<and>
     m_wait_for_data r' = m_wait_for_data r \<and> m_forwarding_from r' = m_forwarding_from r"

lemma line_ok_same_req:
  assumes "line_ok a e q h" "list_all2 same_req q q'"
  shows "line_ok a e q' h"
proof -
  have c: "core_req r' = core_req r" if "same_req r r'" for r r' using that by (simp add: same_req_def core_req_def)
  have f: "map req_core (filter core_req q') = map req_core (filter core_req q)"
    using assms(2) by (induction rule: list_all2_induct) (auto simp: c, auto simp: same_req_def)
  then have f': "req_core ` set (filter core_req q') = req_core ` set (filter core_req q)" by (metis set_map)
  have in_q: "\<exists>r \<in> set q. same_req r r'" if "r' \<in> set q'" for r'
    using list_all2_in_right [OF assms(2) that] .
  have tl: "\<exists>r \<in> set (tl q). same_req r r'" if "r' \<in> set (tl q')" for r'
  proof -
    have "list_all2 same_req (tl q) (tl q')" using assms(2) by (cases q; cases q') auto
    then show ?thesis using list_all2_in_right that by metis
  qed
  have "queue_part a q h \<Longrightarrow> queue_part a q' h"
    unfolding queue_part_def f f' using in_q tl c unfolding same_req_def by metis
  moreover have "waiting_ok e r' h = waiting_ok e r h" "asked_ok e r' h = asked_ok e r h" "m_wait_for_data r' = m_wait_for_data r"
    if "same_req r r'" for r r'
    using that c [OF that] by (simp_all add: waiting_ok_def asked_ok_def same_req_def)
  then have "front_part e q h \<Longrightarrow> front_part e q' h"
    using assms(2) by (cases q; cases q') (auto simp: front_part_def split: if_splits)
  ultimately show ?thesis using assms(1) by (simp add: line_ok_def)
qed

lemma line_ok_front_req:
  "line_ok a e (r # rs) h \<Longrightarrow> same_req r r' \<Longrightarrow> line_ok a e (r' # rs) h"
  by (erule line_ok_same_req) (simp add: list_all2_same, simp add: same_req_def)

text \<open>Of the front request.\<close>

lemma line_ok_front:
  assumes "line_ok a e (r # rs) h"
  shows "req_addr r = a" "core_req r \<or> req_type r = NULLIFY_REQ"
    "req_type r = EX_REQ \<or> req_type r = SH_REQ \<Longrightarrow> req_core r \<notin> holders h"
    "m_wait_for_data r \<Longrightarrow> waiting_ok e r h" "\<not> m_wait_for_data r \<Longrightarrow> asked_ok e r h \<and> dram_reads h = 0"
  using assms by (auto simp: line_ok_def queue_part_def front_part_def)

lemma line_ok_not_waiting:
  "line_ok a e (r # rs) h \<Longrightarrow> entry_part e' h \<Longrightarrow> asked_ok e' r h \<Longrightarrow> \<not> m_wait_for_data r \<Longrightarrow> line_ok a e' (r # rs) h"
  by (auto simp: line_ok_def front_part_def)

text \<open>The front request is answered with a copy.\<close>

lemma line_grant:
  assumes q: "queue_part a (r # rs) h" and e: "entry_part (Some e) h" and r: "core_req r" "req_core r = c" "c \<in> sharer_set e"
    and asked: "asked_wb h \<inter> holders h = {}" "asked_flush h \<inter> holders h \<subseteq> {c}" and reads: "dram_reads h = 0"
    and ty: "typ = SH_REP \<or> (typ = EX_REP \<or> typ = UPGRADE_REP) \<and> exclusive e"
  shows "line_ok a (Some e) rs (sent_line typ c h)"
proof -
  let ?h = "sent_line typ c h"
  have h: "holders ?h = insert c (holders h)" "asked_wb ?h = asked_wb h - {c}" "asked_flush ?h = asked_flush h - {c}"
    "requesting ?h = requesting h - {c}" "dram_reads ?h = 0" "writers ?h = (if typ = SH_REP then writers h else insert c (writers h))"
    using ty reads by (auto simp: grant_copy_def)
  have rs: "\<forall>x \<in> set rs. core_req x" using q by (simp add: queue_part_def)
  then have fl: "filter core_req rs = rs" by simp
  have q': "distinct (c # map req_core rs)" "insert c (req_core ` set rs) \<subseteq> requesting h"
    using q r(1,2) by (simp_all add: queue_part_def fl)
  have "queue_part a rs ?h"
    unfolding queue_part_def h fl
  proof (intro conjI ballI)
    fix x assume "x \<in> set (tl rs)"
    then have "x \<in> set rs" by (cases rs) auto
    with q show "core_req x" "\<not> m_wait_for_data x" "m_forwarding_from x = INVALID_CORE_ID" by (auto simp: queue_part_def)
  next
    fix x assume x: "x \<in> set rs"
    with q show "req_addr x = a" "core_req x \<or> req_type x = NULLIFY_REQ" by (auto simp: queue_part_def)
    show "req_type x = EX_REQ \<or> req_type x = SH_REQ \<longrightarrow> req_core x \<notin> insert c (holders h)"
      using q q'(1) x by (auto simp: queue_part_def)
  qed (use q' in auto)
  moreover have "entry_part (Some e) ?h"
    unfolding entry_part_def h using e r(3) ty by (auto simp: entry_part_def)
  moreover have none: "none_asked ?h" unfolding none_asked_def h using asked by auto
  then have "front_part (Some e) rs ?h"
    using q h(5) by (cases rs) (auto simp: front_part_def asked_ok_def none_asked_def queue_part_def)
  ultimately show ?thesis by (simp add: line_ok_def)
qed

text \<open>A core gives its copy up.\<close>

lemma line_lose:
  assumes ok: "line_ok a (Some e) q h" and c: "c \<in> holders h"
    and sh: "sharer_set e' = sharer_set e - {c}"
    and st: "if sharer_set e' = {} then m_dstate e' = UNCACHED else m_dstate e' = m_dstate e \<and> m_dstate e = SHARED"
    and ty: "typ = INV_REP \<or> typ = FLUSH_REP"
  shows "line_ok a (Some e') q (received_line typ c h)"
proof -
  let ?h = "received_line typ c h"
  note e = line_ok_entry [OF ok]
  have h: "holders ?h = holders h - {c}" "asked_wb ?h = asked_wb h - {c}" "asked_flush ?h = asked_flush h - {c}"
    "requesting ?h = requesting h" "dram_reads ?h = dram_reads h" "writers ?h = writers h - {c}"
    using ty by (auto simp: received_line_def)
  have excl: "exclusive e \<Longrightarrow> holders h = {c}" using line_ok_exclusive [OF ok _ c] by blast
  have "writers ?h = {}" using e(3,4) excl unfolding h by blast
  moreover have "entry_wf e'"
    using e(1) st by (cases "sharer_set e' = {}") (simp_all add: entry_wf_def exclusive_def)
  ultimately have "entry_part (Some e') ?h"
    unfolding entry_part_def h using e(2) sh by auto
  moreover have "queue_part a q ?h" unfolding queue_part_def h using ok by (auto simp: line_ok_def queue_part_def)
  moreover have "front_part (Some e') q ?h"
  proof (cases q)
    case Nil
    then show ?thesis using ok h by (auto simp: line_ok_def front_part_def none_asked_def)
  next
    case (Cons r rs)
    note f = line_ok_front [OF ok [unfolded Cons]]
    show ?thesis
    proof (cases "m_wait_for_data r")
      case True
      from f(4) [OF True] have w: "req_core r \<notin> holders h" "req_core r \<in> sharer_set e" "none_asked h" "dram_reads h = 1"
        "if req_type r = SH_REQ then m_dstate e = SHARED \<or> m_dstate e = EXCLUSIVE else core_req r \<and> m_dstate e = MODIFIED"
        by (auto simp: waiting_ok_def)
      have "req_core r \<in> sharer_set e'" using w c sh by auto
      moreover from this have "m_dstate e' = m_dstate e" using st by (auto split: if_splits)
      ultimately show ?thesis using Cons True w unfolding front_part_def waiting_ok_def none_asked_def h by auto
    next
      case False
      from f(5) [OF False] have ao: "asked_ok (Some e) r h" "dram_reads h = 0" by auto
      have "asked_ok (Some e') r ?h"
        unfolding asked_ok_def h
      proof (intro conjI ballI)
        fix c' assume c': "c' \<in> (asked_wb h - {c}) \<inter> (holders h - {c})"
        then have "\<not> exclusive e" using excl by auto
        with ao c' have t: "req_type r = SH_REQ" "m_dstate e = SHARED" "m_forwarding_from r = c'" "req_core r \<in> sharer_set e"
          by (auto simp: asked_ok_def)
        have "c' \<in> sharer_set e'" using c' e(2) sh by auto
        then have "m_dstate e' = SHARED" using st by (auto split: if_splits)
        moreover have "req_core r \<in> sharer_set e'" using t f(3) c sh by auto
        ultimately show "\<exists>x. Some e' = Some x \<and> (exclusive x \<or> m_dstate x = SHARED \<and> m_forwarding_from r = c' \<and> req_core r \<in> sharer_set x)"
          using t by simp
        show "req_type r = SH_REQ" by (rule t(1))
      next
        fix c' assume "c' \<in> (asked_flush h - {c}) \<inter> (holders h - {c})"
        with ao st show "req_type r \<noteq> SH_REQ" "\<exists>x. Some e' = Some x \<and> (m_dstate x = SHARED \<longrightarrow> req_type r = UPGRADE_REQ)"
          by (auto simp: asked_ok_def split: if_splits)
      qed
      then show ?thesis using Cons False ao(2) h by (simp add: front_part_def)
    qed
  qed
  ultimately show ?thesis by (simp add: line_ok_def)
qed


text \<open>The answer to a write-back request.\<close>

lemma line_write_back:
  assumes ok: "line_ok a (Some e) (r # rs) h" and c: "c \<in> asked_wb h" "c \<in> holders h"
    and e': "sharer_set e' = sharer_set e" "m_dstate e' = SHARED"
  shows "\<not> m_wait_for_data r" "req_type r = SH_REQ" "line_ok a (Some e') (r # rs) (received_line WB_REP c h)"
    "none_asked (received_line WB_REP c h)"
proof -
  let ?h = "received_line WB_REP c h"
  have h: "holders ?h = holders h" "asked_wb ?h = asked_wb h - {c}" "asked_flush ?h = asked_flush h"
    "requesting ?h = requesting h" "dram_reads ?h = dram_reads h" "writers ?h = writers h - {c}"
    by (auto simp: received_line_def)
  note e = line_ok_entry [OF ok] and f = line_ok_front [OF ok]
  show w: "\<not> m_wait_for_data r" using f(4) c by (auto simp: waiting_ok_def none_asked_def)
  then have ao: "asked_ok (Some e) r h" "dram_reads h = 0" using f(5) by auto
  then show sh: "req_type r = SH_REQ" using c by (auto simp: asked_ok_def)
  from ao(1) c have x: "exclusive e \<or> m_dstate e = SHARED \<and> m_forwarding_from r = c \<and> req_core r \<in> sharer_set e"
    by (auto simp: asked_ok_def)
  have wr: "writers ?h = {}"
    using e(3,4) line_ok_exclusive(2) [OF ok _ c(2)] unfolding h by blast
  show none: "none_asked ?h"
    unfolding none_asked_def h
  proof
    have "c' = c" if c': "c' \<in> asked_wb h" "c' \<in> holders h" for c'
    proof (cases "exclusive e")
      case True
      then show ?thesis using line_ok_exclusive(2) [OF ok _ c(2)] c'(2) by auto
    next
      case False
      with x ao(1) c' show ?thesis by (auto simp: asked_ok_def)
    qed
    then show "(asked_wb h - {c}) \<inter> holders h = {}" by auto
    show "asked_flush h \<inter> holders h = {}" using ao(1) sh by (auto simp: asked_ok_def)
  qed
  have "sharer_set e \<noteq> {}" using c(2) e(2) by auto
  then have "entry_part (Some e') ?h"
    using wr e(2) e' unfolding entry_part_def h by (auto simp: entry_wf_def exclusive_def)
  moreover have "queue_part a (r # rs) ?h" using ok unfolding queue_part_def h by (simp add: line_ok_def queue_part_def)
  moreover have "front_part (Some e') (r # rs) ?h"
    using w ao(2) none h(5) by (auto simp: front_part_def asked_ok_def none_asked_def)
  ultimately show "line_ok a (Some e') (r # rs) ?h" by (simp add: line_ok_def)
qed

text \<open>New requests.\<close>

lemma line_request:
  assumes ok: "line_ok a e q h" and r: "core_req r" "req_addr r = a" "\<not> m_wait_for_data r" "m_forwarding_from r = INVALID_CORE_ID"
    and c: "req_core r \<notin> requesting h" "req_type r = EX_REQ \<or> req_type r = SH_REQ \<Longrightarrow> req_core r \<notin> holders h"
  shows "line_ok a e (q @ [r]) (received_line (req_type r) (req_core r) h)"
proof -
  let ?h = "received_line (req_type r) (req_core r) h"
  have h: "?h = h\<lparr> requesting := insert (req_core r) (requesting h) \<rparr>"
    using r(1) by (auto simp: received_line_def core_req_def)
  have qp: "queue_part a q h" using ok by (simp add: line_ok_def)
  have "entry_part e ?h" using ok by (cases e) (simp_all add: line_ok_def entry_part_def h)
  moreover have "queue_part a (q @ [r]) ?h"
  proof -
    have "req_core r \<notin> req_core ` set (filter core_req q)" using qp c(1) by (auto simp: queue_part_def)
    then have "distinct (map req_core (filter core_req (q @ [r])))" using qp by (auto simp: queue_part_def)
    moreover have "req_core ` set (filter core_req (q @ [r])) \<subseteq> requesting ?h" using qp by (auto simp: queue_part_def h)
    moreover have "\<forall>x \<in> set (tl (q @ [r])). core_req x \<and> \<not> m_wait_for_data x \<and> m_forwarding_from x = INVALID_CORE_ID"
      using qp r by (cases q) (auto simp: queue_part_def)
    ultimately show ?thesis using qp r c(2) unfolding queue_part_def h by auto
  qed
  moreover have "front_part e (q @ [r]) ?h"
  proof (cases q)
    case Nil
    then show ?thesis using ok r(3) by (auto simp: line_ok_def front_part_def asked_ok_def none_asked_def h)
  next
    case (Cons x xs)
    moreover have "waiting_ok e x ?h = waiting_ok e x h" "asked_ok e x ?h = asked_ok e x h"
      by (simp_all add: waiting_ok_def asked_ok_def none_asked_def h)
    ultimately show ?thesis using ok h by (auto simp: line_ok_def front_part_def)
  qed
  ultimately show ?thesis by (simp add: line_ok_def)
qed

lemma line_nullify:
  assumes "line_ok a e [] h" "req_type r = NULLIFY_REQ" "req_addr r = a" "\<not> m_wait_for_data r"
  shows "line_ok a e [r] h"
  using assms by (auto simp: line_ok_def queue_part_def front_part_def asked_ok_def none_asked_def core_req_def)

text \<open>Questions to the caches and to DRAM.\<close>

lemma line_ask_flush:
  assumes "line_ok a (Some e) (r # rs) h" "\<not> m_wait_for_data r" "req_type r \<noteq> SH_REQ"
    "m_dstate e = SHARED \<Longrightarrow> req_type r = UPGRADE_REQ"
  shows "line_ok a (Some e) (r # rs) (sent_line FLUSH_REQ c h)"
  using assms by (auto simp: line_ok_def entry_part_def queue_part_def front_part_def asked_ok_def)

lemma line_ask_write_back:
  assumes "line_ok a (Some e) (r # rs) h" "\<not> m_wait_for_data r" "req_type r = SH_REQ" "exclusive e"
  shows "line_ok a (Some e) (r # rs) (sent_line WB_REQ c h)"
  using assms by (auto simp: line_ok_def entry_part_def queue_part_def front_part_def asked_ok_def)

lemma queue_part_front:
  assumes "queue_part a (r # rs) h" "req_type r' = req_type r" "req_core r' = req_core r" "req_addr r' = req_addr r"
    "holders h' = holders h" "requesting h' = requesting h"
  shows "queue_part a (r' # rs) h'"
proof -
  have "core_req r' = core_req r" using assms(2) by (simp add: core_req_def)
  moreover have "filter core_req rs = rs" using assms(1) by (simp add: queue_part_def)
  ultimately show ?thesis using assms by (cases "core_req r") (simp_all add: queue_part_def)
qed

lemma req_fields [simp]:
  "req_type (r\<lparr> m_forwarding_from := c \<rparr>) = req_type r" "req_type (r\<lparr> m_wait_for_data := w \<rparr>) = req_type r" "req_type (r\<lparr> m_time := t \<rparr>) = req_type r"
  "req_core (r\<lparr> m_forwarding_from := c \<rparr>) = req_core r" "req_core (r\<lparr> m_wait_for_data := w \<rparr>) = req_core r" "req_core (r\<lparr> m_time := t \<rparr>) = req_core r"
  "req_addr (r\<lparr> m_forwarding_from := c \<rparr>) = req_addr r" "req_addr (r\<lparr> m_wait_for_data := w \<rparr>) = req_addr r" "req_addr (r\<lparr> m_time := t \<rparr>) = req_addr r"
  by (simp_all add: req_type_def req_core_def req_addr_def)

lemma line_ask_forwarder:
  assumes "line_ok a (Some e) (r # rs) h" "\<not> m_wait_for_data r" "req_type r = SH_REQ" "m_dstate e = SHARED"
    "req_core r \<in> sharer_set e" "asked_wb h \<inter> holders h = {}"
  shows "line_ok a (Some e) (r\<lparr> m_forwarding_from := c \<rparr> # rs) (sent_line WB_REQ c h)"
proof -
  have q: "queue_part a (r\<lparr> m_forwarding_from := c \<rparr> # rs) (sent_line WB_REQ c h)"
    using assms(1) queue_part_front [of a r rs h] by (simp add: line_ok_def)
  have "entry_part (Some e) (sent_line WB_REQ c h)" using assms(1) by (simp add: line_ok_def entry_part_def)
  moreover have "front_part (Some e) (r\<lparr> m_forwarding_from := c \<rparr> # rs) (sent_line WB_REQ c h)"
    using assms line_ok_front(5) [OF assms(1,2)] by (auto simp: front_part_def asked_ok_def)
  ultimately show ?thesis using q by (simp add: line_ok_def)
qed

lemma line_ask_dram:
  assumes "line_ok a (Some e) (r # rs) h" "\<not> m_wait_for_data r" "core_req r" "none_asked h"
    "req_core r \<in> sharer_set e" "req_core r \<notin> holders h"
    "if req_type r = SH_REQ then m_dstate e = SHARED \<or> m_dstate e = EXCLUSIVE else m_dstate e = MODIFIED"
  shows "line_ok a (Some e) (r\<lparr> m_wait_for_data := True \<rparr> # rs) (sent_line DRAM_READ_REQ c h)"
proof -
  have q: "queue_part a (r\<lparr> m_wait_for_data := True \<rparr> # rs) (sent_line DRAM_READ_REQ c h)"
    using assms(1) queue_part_front [of a r rs h] by (simp add: line_ok_def)
  have "entry_part (Some e) (sent_line DRAM_READ_REQ c h)" using assms(1) by (simp add: line_ok_def entry_part_def)
  moreover have "front_part (Some e) (r\<lparr> m_wait_for_data := True \<rparr> # rs) (sent_line DRAM_READ_REQ c h)"
    using assms(3-7) line_ok_front(5) [OF assms(1,2)]
    by (simp add: front_part_def waiting_ok_def none_asked_def core_req_def) blast
  ultimately show ?thesis using q by (simp add: line_ok_def)
qed

text \<open>The requester becomes a sharer.\<close>

lemma line_first_sharer:
  assumes ok: "line_ok a (Some e) (r # rs) h" and u: "m_dstate e = UNCACHED"
    and e': "sharer_set e' = {c}" "m_owner_id e' = c" "m_dstate e' = MODIFIED \<or> m_dstate e' = EXCLUSIVE \<or> m_dstate e' = SHARED"
  shows "line_ok a (Some e') (r # rs) h" "\<not> m_wait_for_data r" "holders h = {}"
proof -
  note z = line_ok_remove [OF ok u]
  show "\<not> m_wait_for_data r" "holders h = {}" by (rule z)+
  have "entry_part (Some e') h"
    using z(1) line_ok_entry(3) [OF ok] e' by (auto simp: entry_part_def entry_wf_def exclusive_def)
  moreover have "asked_ok (Some e') r h" using z(1) by (simp add: asked_ok_def)
  ultimately show "line_ok a (Some e') (r # rs) h" using line_ok_not_waiting ok z(2) by blast
qed

lemma line_more_sharers:
  assumes ok: "line_ok a (Some e) (r # rs) h" "\<not> m_wait_for_data r" and s: "m_dstate e = SHARED"
    and e': "sharer_set e \<subseteq> sharer_set e'" "m_dstate e' = SHARED"
  shows "line_ok a (Some e') (r # rs) h"
proof -
  note e = line_ok_entry [OF ok(1)]
  have "writers h = {}" using e(4) s by (auto simp: exclusive_def)
  then have "entry_part (Some e') h" using e s e' by (auto simp: entry_part_def entry_wf_def exclusive_def)
  moreover have "asked_ok (Some e') r h"
    using line_ok_front(5) [OF ok] s e' by (auto simp: asked_ok_def exclusive_def)
  ultimately show ?thesis using line_ok_not_waiting ok by blast
qed

lemma line_upgrade:
  assumes ok: "line_ok a (Some e) (r # rs) h" "\<not> m_wait_for_data r" and s: "m_dstate e = SHARED" "sharer_set e = {c}"
    and r: "req_type r = UPGRADE_REQ"
    and e': "sharer_set e' = {c}" "m_dstate e' = MODIFIED" "m_owner_id e' = c"
  shows "line_ok a (Some e') (r # rs) h"
proof -
  note e = line_ok_entry [OF ok(1)]
  have "entry_part (Some e') h" using e s e' by (auto simp: entry_part_def entry_wf_def exclusive_def)
  moreover have "asked_ok (Some e') r h"
    using line_ok_front(5) [OF ok] e' r by (auto simp: asked_ok_def)
  ultimately show ?thesis using line_ok_not_waiting ok by blast
qed

end
