(* ===== verification/Directory_Steps.thy ===== *)
theory Directory_Steps
  imports Directory_Inv
begin

text \<open>
  The effect of the controller's functions on the line they work on, and that every handler keeps
  the invariant of all lines. \<open>eff g a st st' e q h\<close> describes a step that touches only the line
  \<open>a\<close> and leaves it with entry \<open>e\<close>, queue \<open>q\<close> and ghost \<open>h\<close>.
\<close>

section \<open>Views of the controller\<close>

definition sdir :: "dir_cntlr \<Rightarrow> u64 \<Rightarrow> directory_entry option" where
  "sdir st = ent (m_dram_directory_cache st)"

definition gh :: "ghost \<Rightarrow> dir_cntlr \<Rightarrow> ghost" where
  "gh g st = fold sent_packet (m_sent st) g"

definition store_ok :: "dir_cntlr \<Rightarrow> bool" where
  "store_ok st \<longleftrightarrow> dc_ok (m_dram_directory_cache st) \<and> rq_ok (m_dram_directory_req_queue_list st)"

definition lok :: "ghost \<Rightarrow> u64 \<Rightarrow> dir_cntlr \<Rightarrow> bool" where
  "lok g a st \<longleftrightarrow> line_ok a (sdir st a) (req_queue a st) (gh g st a)"

definition cinv :: "ghost \<Rightarrow> dir_cntlr \<Rightarrow> bool" where
  "cinv g st \<longleftrightarrow> store_ok st \<and> (\<forall>a. lok g a st)"

text \<open>The request at the front of \<open>a\<close> is finished and still has to be removed.\<close>

definition fin :: "ghost \<Rightarrow> u64 \<Rightarrow> dir_cntlr \<Rightarrow> bool" where
  "fin g a st \<longleftrightarrow> store_ok st \<and> (\<forall>b. b \<noteq> a \<longrightarrow> lok g b st) \<and>
     line_ok a (sdir st a) (tl (req_queue a st)) (gh g st a) \<and>
     (\<forall>r \<in> set (tl (req_queue a st)). \<not> m_wait_for_data r \<and> m_forwarding_from r = INVALID_CORE_ID)"

definition eff :: "ghost \<Rightarrow> u64 \<Rightarrow> dir_cntlr \<Rightarrow> dir_cntlr \<Rightarrow> directory_entry option \<Rightarrow> shmem_req list \<Rightarrow> line_ghost \<Rightarrow> bool" where
  "eff g a st st' e q h \<longleftrightarrow> (store_ok st \<longrightarrow> store_ok st') \<and>
     (\<forall>b. b \<noteq> a \<longrightarrow> sdir st' b = sdir st b \<and> req_queue b st' = req_queue b st \<and> gh g st' b = gh g st b) \<and>
     sdir st' a = e \<and> req_queue a st' = q \<and> gh g st' a = h"

lemma eff_refl: "eff g a st st (sdir st a) (req_queue a st) (gh g st a)"
  by (simp add: eff_def)

lemma eff_trans: "eff g a st st1 e1 q1 h1 \<Longrightarrow> eff g a st1 st2 e2 q2 h2 \<Longrightarrow> eff g a st st2 e2 q2 h2"
  by (simp add: eff_def)

lemma eff_self: "eff g a st st' e q h \<Longrightarrow> sdir st' a = e \<and> req_queue a st' = q \<and> gh g st' a = h"
  by (simp add: eff_def)

lemma eff_store: "eff g a st st' e q h \<Longrightarrow> store_ok st \<Longrightarrow> store_ok st'"
  by (simp add: eff_def)

lemma cinv_eff:
  assumes "cinv g st" "eff g a st st' e q h" "line_ok a e q h"
  shows "cinv g st'"
proof -
  have "lok g b st'" for b
    using assms by (cases "b = a") (auto simp: cinv_def eff_def lok_def)
  with assms show ?thesis by (simp add: cinv_def eff_def)
qed

lemma fin_eff:
  assumes "cinv g st" "eff g a st st' e q h" "line_ok a e (tl q) h" "tl q = tl (req_queue a st)"
  shows "fin g a st'"
proof -
  have "queue_part a (req_queue a st) (gh g st a)" using assms(1) by (simp add: cinv_def lok_def line_ok_def)
  then show ?thesis using assms by (simp add: fin_def cinv_def eff_def lok_def queue_part_def)
qed

lemma cinv_line: "cinv g st \<Longrightarrow> store_ok st \<and> line_ok a (sdir st a) (req_queue a st) (gh g st a)"
  by (simp add: cinv_def lok_def)

lemma cinv_no_address: "cinv g st \<Longrightarrow> sdir st a = Some e \<Longrightarrow> a \<noteq> INVALID_ADDRESS"
  by (auto simp: sdir_def ent_def)

section \<open>Primitives\<close>

lemma sendMsg_eq:
  assumes "sendMsg typ rc rq c a buf len w st = Inr st'"
  shows "\<exists>p. st' = st\<lparr> m_sent := m_sent st @ [p] \<rparr> \<and> m_msg_type (pkt_msg p) = typ \<and> pkt_receiver p = c \<and> m_msg_address (pkt_msg p) = a"
  using assms by (auto simp: sendMsg_def rbind_eq_Inr split: if_splits)

lemma sendMsg_eff:
  assumes "sendMsg typ rc rq c a buf len w st = Inr st'"
  shows "eff g a st st' (sdir st a) (req_queue a st) (sent_line typ c (gh g st a))"
    "m_dram_directory_cache st' = m_dram_directory_cache st"
proof -
  from sendMsg_eq [OF assms] obtain p where p: "st' = st\<lparr> m_sent := m_sent st @ [p] \<rparr>" "m_msg_type (pkt_msg p) = typ"
    "pkt_receiver p = c" "m_msg_address (pkt_msg p) = a" by blast
  then show "m_dram_directory_cache st' = m_dram_directory_cache st" by simp
  show "eff g a st st' (sdir st a) (req_queue a st) (sent_line typ c (gh g st a))"
    using p by (simp add: eff_def sdir_def store_ok_def req_queue_def gh_def sent_packet_def)
qed

lemma write_entry_eff:
  assumes w: "write_entry r e' st = Inr st'" and ok: "store_ok st" and r: "ref_entry r (m_dram_directory_cache st) = Some e"
    and a: "m_address e = a" "m_address e' = a" "a \<noteq> INVALID_ADDRESS"
  shows "eff g a st st' (Some e') (req_queue a st) (gh g st a)" "ref_entry r (m_dram_directory_cache st') = Some e'"
proof -
  from w obtain dc where put: "put_entry r e' (m_dram_directory_cache st) = Inr dc" and st': "st' = st\<lparr> m_dram_directory_cache := dc \<rparr>"
    unfolding write_entry_def by (elim rbindE) auto
  have "dc_ok (m_dram_directory_cache st)" using ok by (simp add: store_ok_def)
  note p = put_entry_ok [OF this put r] and a
  then show "eff g a st st' (Some e') (req_queue a st) (gh g st a)" "ref_entry r (m_dram_directory_cache st') = Some e'"
    using ok by (simp_all add: eff_def st' sdir_def store_ok_def req_queue_def gh_def)
qed

lemma upd_front_eff:
  assumes "req_queue a st = r # rs"
  shows "eff g a st (upd_queue (upd_front a f) st) (sdir st a) (f r # rs) (gh g st a)"
  using assms by (auto simp: eff_def upd_queue_def sdir_def store_ok_def req_queue_def gh_def)

lemma same_view_eff:
  "m_dram_directory_cache st' = m_dram_directory_cache st \<Longrightarrow>
   m_dram_directory_req_queue_list st' = m_dram_directory_req_queue_list st \<Longrightarrow> m_sent st' = m_sent st \<Longrightarrow>
   eff g a st st' (sdir st a) (req_queue a st) (gh g st a)"
  by (simp add: eff_def sdir_def store_ok_def req_queue_def gh_def)

lemma update_times_eff:
  assumes "req_queue a st = r # rs"
  shows "\<exists>r'. same_req r r' \<and> eff g a st (update_times a st) (sdir st a) (r' # rs) (gh g st a)"
    "m_dram_directory_cache (update_times a st) = m_dram_directory_cache st"
proof -
  let ?t = "updateElapsedTime (m_time (updateTime (m_elapsed st) r)) (m_elapsed st)"
  have u: "update_times a st = upd_queue (upd_front a (updateTime (m_elapsed st))) (st\<lparr> m_elapsed := ?t \<rparr>)"
    using assms by (simp add: update_times_def)
  then show "m_dram_directory_cache (update_times a st) = m_dram_directory_cache st" by (simp add: upd_queue_def)
  have "same_req r (updateTime (m_elapsed st) r)" by (simp add: same_req_def updateTime_def)
  moreover have "eff g a st (st\<lparr> m_elapsed := ?t \<rparr>) (sdir st a) (req_queue a st) (gh g st a)"
    by (rule same_view_eff) simp_all
  moreover have "eff g a (st\<lparr> m_elapsed := ?t \<rparr>) (update_times a st) (sdir st a) (updateTime (m_elapsed st) r # rs) (gh g st a)"
    using upd_front_eff [of a "st\<lparr> m_elapsed := ?t \<rparr>" r rs g "updateTime (m_elapsed st)"] assms u
    by (simp add: req_queue_def sdir_def gh_def)
  ultimately show "\<exists>r'. same_req r r' \<and> eff g a st (update_times a st) (sdir st a) (r' # rs) (gh g st a)"
    using eff_trans by blast
qed

lemma lookup_eq:
  assumes "lookup_entry a m st = Inr (r, st1)"
  obtains t dc where "getDirectoryEntry a m (m_elapsed st, m_dram_directory_cache st) = Inr (r, t, dc)"
    "st1 = st\<lparr> m_elapsed := t, m_dram_directory_cache := dc \<rparr>"
  using assms unfolding lookup_entry_def by (elim rbind3E) auto

lemma lookup_Some:
  assumes l: "lookup_entry a m st = Inr (Some ref, st1)" and ok: "store_ok st" and a: "a \<noteq> INVALID_ADDRESS"
  shows "\<exists>e. eff g a st st1 (Some e) (req_queue a st) (gh g st a) \<and> ref_entry ref (m_dram_directory_cache st1) = Some e \<and>
    m_address e = a \<and> (case sdir st a of None \<Rightarrow> fresh_entry e | Some e0 \<Rightarrow> e = e0)"
    "ref_entry q (m_dram_directory_cache st) = Some x \<Longrightarrow> m_address x \<noteq> INVALID_ADDRESS \<Longrightarrow>
       ref_entry q (m_dram_directory_cache st1) = Some x"
proof -
  from l obtain t dc where g: "getDirectoryEntry a m (m_elapsed st, m_dram_directory_cache st) = Inr (Some ref, t, dc)"
    and st1: "st1 = st\<lparr> m_elapsed := t, m_dram_directory_cache := dc \<rparr>" by (rule lookup_eq)
  have "dc_ok (m_dram_directory_cache st)" using ok by (simp add: store_ok_def)
  from getDirectoryEntry_ok [OF g this a] obtain e where e: "dc_ok dc" "ref_entry ref dc = Some e"
    "ent dc = (ent (m_dram_directory_cache st))(a \<mapsto> e)" "m_address e = a"
    "case ent (m_dram_directory_cache st) a of None \<Rightarrow> fresh_entry e | Some e0 \<Rightarrow> e = e0"
    "\<forall>q x. ref_entry q (m_dram_directory_cache st) = Some x \<longrightarrow> m_address x \<noteq> INVALID_ADDRESS \<longrightarrow> ref_entry q dc = Some x" by auto
  then have "eff g a st st1 (Some e) (req_queue a st) (gh g st a)"
    using ok by (simp add: eff_def st1 sdir_def store_ok_def req_queue_def gh_def)
  then show "\<exists>e. eff g a st st1 (Some e) (req_queue a st) (gh g st a) \<and> ref_entry ref (m_dram_directory_cache st1) = Some e \<and>
    m_address e = a \<and> (case sdir st a of None \<Rightarrow> fresh_entry e | Some e0 \<Rightarrow> e = e0)"
    using e by (intro exI [of _ e]) (simp add: st1 sdir_def)
  show "ref_entry q (m_dram_directory_cache st) = Some x \<Longrightarrow> m_address x \<noteq> INVALID_ADDRESS \<Longrightarrow>
       ref_entry q (m_dram_directory_cache st1) = Some x" using e(6) by (simp add: st1)
qed

lemma lookup_None:
  assumes l: "lookup_entry a m st = Inr (None, st1)" and ok: "store_ok st" and a: "a \<noteq> INVALID_ADDRESS"
  shows "eff g a st st1 None (req_queue a st) (gh g st a)" "sdir st a = None"
proof -
  from l obtain t dc where g: "getDirectoryEntry a m (m_elapsed st, m_dram_directory_cache st) = Inr (None, t, dc)"
    and st1: "st1 = st\<lparr> m_elapsed := t, m_dram_directory_cache := dc \<rparr>" by (rule lookup_eq)
  have "dc_ok (m_dram_directory_cache st)" using ok by (simp add: store_ok_def)
  from getDirectoryEntry_ok [OF g this a] have e: "dc_ok dc" "ent dc = ent (m_dram_directory_cache st)"
    "ent (m_dram_directory_cache st) a = None" by auto
  then show "eff g a st st1 None (req_queue a st) (gh g st a)" "sdir st a = None"
    using ok by (simp_all add: eff_def st1 sdir_def store_ok_def req_queue_def gh_def)
qed

lemma lookup_hit:
  assumes l: "lookup_entry a m st = Inr (Some ref, st1)" and ok: "store_ok st" and e: "sdir st a = Some e"
  shows "eff g a st st1 (Some e) (req_queue a st) (gh g st a)" "ref_entry ref (m_dram_directory_cache st1) = Some e" "m_address e = a"
    "ref_entry q (m_dram_directory_cache st) = Some x \<Longrightarrow> m_address x \<noteq> INVALID_ADDRESS \<Longrightarrow>
       ref_entry q (m_dram_directory_cache st1) = Some x"
proof -
  have a: "a \<noteq> INVALID_ADDRESS" using e by (auto simp: sdir_def ent_def)
  from lookup_Some(1) [OF l ok a, where g = g]
  show "eff g a st st1 (Some e) (req_queue a st) (gh g st a)" "ref_entry ref (m_dram_directory_cache st1) = Some e" "m_address e = a"
    using e by auto
  show "ref_entry q (m_dram_directory_cache st) = Some x \<Longrightarrow> m_address x \<noteq> INVALID_ADDRESS \<Longrightarrow>
       ref_entry q (m_dram_directory_cache st1) = Some x" by (rule lookup_Some(2) [OF l ok a])
qed

text \<open>Looking an entry up keeps the invariant.\<close>

lemma line_ok_looked_up:
  "line_ok a e0 q h \<Longrightarrow> (case e0 of None \<Rightarrow> fresh_entry e | Some x \<Rightarrow> e = x) \<Longrightarrow> line_ok a (Some e) q h"
  by (cases e0) (auto intro: line_ok_fresh)

lemma lookup_cinv:
  assumes "lookup_entry a m st = Inr (r, st1)" "cinv g st" "a \<noteq> INVALID_ADDRESS"
  shows "cinv g st1" "req_queue a st1 = req_queue a st" "gh g st1 a = gh g st a"
proof -
  note c = cinv_line [OF assms(2), of a]
  have "cinv g st1 \<and> req_queue a st1 = req_queue a st \<and> gh g st1 a = gh g st a"
  proof (cases r)
    case None
    note l = lookup_None [OF assms(1) [unfolded None] conjunct1 [OF c] assms(3)]
    show ?thesis using cinv_eff [OF assms(2) l(1)] eff_self [OF l(1) [of g]] l(2) c by simp
  next
    case (Some ref)
    from lookup_Some(1) [OF assms(1) [unfolded Some] conjunct1 [OF c] assms(3), where g = g] obtain e
      where e: "eff g a st st1 (Some e) (req_queue a st) (gh g st a)" "case sdir st a of None \<Rightarrow> fresh_entry e | Some e0 \<Rightarrow> e = e0"
      by blast
    then show ?thesis using cinv_eff [OF assms(2) e(1)] line_ok_looked_up c eff_self by blast
  qed
  then show "cinv g st1" "req_queue a st1 = req_queue a st" "gh g st1 a = gh g st a" by auto
qed

lemma lookup_someE:
  "rbind (lookup_entry a m st) (\<lambda>(r, st1). case r of None \<Rightarrow> Inl x | Some ref \<Rightarrow> f ref st1) = Inr y \<Longrightarrow>
   (\<And>ref st1. lookup_entry a m st = Inr (Some ref, st1) \<Longrightarrow> f ref st1 = Inr y \<Longrightarrow> P) \<Longrightarrow> P"
  by (elim rbind2E) (auto split: option.splits)

lemma read_entry_eq: "read_entry r st = Inr e \<longleftrightarrow> ref_entry r (m_dram_directory_cache st) = Some e"
  by (simp add: read_entry_def get_entry_eq_Inr)

lemma queue_front_eq: "queue_front a st = Inr r \<longleftrightarrow> (\<exists>rs. req_queue a st = r # rs)"
  by (simp add: queue_front_def req_queue_def front_eq_Inr)

section \<open>Invalidations\<close>

lemma send_invalidations_eff:
  assumes "send_invalidations c a e st = Inr st'"
  shows "eff g a st st' (sdir st a) (req_queue a st) (gh g st a)" "m_dram_directory_cache st' = m_dram_directory_cache st"
proof -
  obtain b cs where l: "getSharersList e = (b, cs)" by fastforce
  from assms l getSharersList_eq [OF l] have f: "fold_r (\<lambda>x. sendMsg INV_REQ L2_CACHE c x a Null_Ptr 0 UNKNOWN) cs st = Inr st'"
    by (simp add: send_invalidations_def)
  from f show "m_dram_directory_cache st' = m_dram_directory_cache st"
    by (rule fold_r_inv [where P = "\<lambda>s. m_dram_directory_cache s = m_dram_directory_cache st"]) (use sendMsg_eff(2) in fastforce)+
  from f show "eff g a st st' (sdir st a) (req_queue a st) (gh g st a)"
  proof (rule fold_r_inv [where P = "\<lambda>s. eff g a st s (sdir st a) (req_queue a st) (gh g st a)"])
    show "eff g a st t (sdir st a) (req_queue a st) (gh g st a)"
      if "sendMsg INV_REQ L2_CACHE c x a Null_Ptr 0 UNKNOWN s = Inr t" "eff g a st s (sdir st a) (req_queue a st) (gh g st a)" for x s t
      using eff_trans [OF that(2)] sendMsg_eff(1) [OF that(1), of g] eff_self [OF that(2)] by simp
  qed (rule eff_refl)
qed

lemma upgrade_invalidations_ok:
  assumes u: "upgrade_invalidations c hc a cs st = Inr st'"
    and "cinv g st" "sdir st a = Some e" "req_queue a st = r # rs" "\<not> m_wait_for_data r" "req_type r = UPGRADE_REQ"
  shows "cinv g st'"
proof -
  let ?P = "\<lambda>s. cinv g s \<and> sdir s a = Some e \<and> req_queue a s = r # rs"
  have "?P st'"
  proof (rule fold_r_inv [where P = ?P, OF u [unfolded upgrade_invalidations_def]])
    fix x s t
    assume s: "(case x of (i, d) \<Rightarrow> \<lambda>s. if d = c then Inr s
        else sendMsg (if \<not> hc \<and> i = 0 then FLUSH_REQ else INV_REQ) L2_CACHE c d a Null_Ptr 0 UNKNOWN s) s = Inr t" and P: "?P s"
    obtain i d where x: "x = (i, d)" by fastforce
    show "?P t"
    proof (cases "d = c")
      case False
      with s x have "sendMsg (if \<not> hc \<and> i = 0 then FLUSH_REQ else INV_REQ) L2_CACHE c d a Null_Ptr 0 UNKNOWN s = Inr t" by simp
      note e = sendMsg_eff(1) [OF this, of g]
      have l: "line_ok a (Some e) (r # rs) (gh g s a)" using P cinv_line [of g s a] by simp
      have "line_ok a (Some e) (r # rs) (sent_line FLUSH_REQ d (gh g s a))"
        by (rule line_ask_flush [OF l]) (use assms in auto)
      with l have "line_ok a (Some e) (r # rs) (sent_line (if \<not> hc \<and> i = 0 then FLUSH_REQ else INV_REQ) d (gh g s a))" by simp
      with P e show ?thesis by (metis cinv_eff eff_self)
    qed (use s x P in simp)
  qed (use assms in simp)
  then show ?thesis by simp
qed

end
