(* ===== verification/Directory_Handlers.thy ===== *)
theory Directory_Handlers
  imports Directory_Steps
begin

text \<open>
  Every handler of the controller keeps the invariant of all lines, given that the continuation
  \<open>next\<close>, which starts the next request of a line, does.
\<close>

definition next_ok :: "ghost \<Rightarrow> (u64 \<Rightarrow> dir_cntlr \<Rightarrow> dir_cntlr res) \<Rightarrow> bool" where
  "next_ok g next \<longleftrightarrow> (\<forall>a st st'. a \<noteq> INVALID_ADDRESS \<longrightarrow> next a st = Inr st' \<longrightarrow>
     (fin g a st \<longrightarrow> cinv g st') \<and>
     (length (req_queue a st) = 1 \<longrightarrow> store_ok st \<longrightarrow>
        m_dram_directory_cache st' = m_dram_directory_cache st \<and> m_sent st' = m_sent st \<and>
        (\<forall>b. req_queue b st' = (if b = a then [] else req_queue b st))))"

lemma next_fin: "next_ok g next \<Longrightarrow> a \<noteq> INVALID_ADDRESS \<Longrightarrow> next a st = Inr st' \<Longrightarrow> fin g a st \<Longrightarrow> cinv g st'"
  by (simp add: next_ok_def)

section \<open>Answering a request\<close>

lemma no_flush_asked:
  assumes "line_ok a (Some e) (r # rs) h" "\<not> m_wait_for_data r" "req_core r \<notin> holders h" "req_core r \<in> sharer_set e"
    "if req_type r = SH_REQ then True else exclusive e"
  shows "asked_flush h \<inter> holders h = {}"
proof (cases "req_type r = SH_REQ")
  case True
  then show ?thesis using line_ok_front(5) [OF assms(1,2)] by (auto simp: asked_ok_def)
next
  case False
  with assms(5) have "sharer_set e = {m_owner_id e}" using line_ok_entry(1) [OF assms(1)] by (simp add: entry_wf_def)
  then show ?thesis using line_ok_entry(2) [OF assms(1)] assms(3,4) by auto
qed

lemma retrieve_ok:
  assumes nx: "next_ok g next" and inv: "cinv g st"
    and r: "retrieveDataAndSendToL2Cache next typ c a data st = Inr st'"
    and line: "sdir st a = Some e" "req_queue a st = q # rs"
    and q: "\<not> m_wait_for_data q" "core_req q" "req_core q = c" "c \<in> sharer_set e" "c \<notin> holders (gh g st a)"
      "asked_wb (gh g st a) \<inter> holders (gh g st a) = {}"
    and kind: "typ = SH_REP \<and> m_dstate e = SHARED \<and> req_type q = SH_REQ \<or>
      typ = EX_REP \<and> (if req_type q = SH_REQ then m_dstate e = EXCLUSIVE else m_dstate e = MODIFIED)"
  shows "cinv g st'"
proof -
  let ?h = "gh g st a"
  have a: "a \<noteq> INVALID_ADDRESS" using cinv_no_address [OF inv line(1)] .
  note c = cinv_line [OF inv, of a, unfolded line]
  from r obtain ref st1 e1 where lk: "lookup_entry a False st = Inr (Some ref, st1)" and e1: "read_entry ref st1 = Inr e1"
    and rest: "(if data \<noteq> Null_Ptr then
           rbind (write_entry ref (e1\<lparr> m_forwarder_id := c \<rparr>) st1) (\<lambda>st2.
           rbind (sendMsg typ L2_CACHE c c a data (m_dd_block_size st2) CACHE_REMOTE st2) (next a))
         else if req_queue a st1 = [] then Inl Assert_Failed
         else
           rbind (queue_front a st1) (\<lambda>req.
           if m_protocol st1 = MESIF \<and> m_forwarding_from req = INVALID_CORE_ID \<and> m_dstate e1 = SHARED \<and>
              m_forwarder_id e1 \<noteq> INVALID_CORE_ID
           then
             sendMsg WB_REQ L2_CACHE c (m_forwarder_id e1) a Null_Ptr 0 UNKNOWN
               (upd_queue (upd_front a (\<lambda>q. q\<lparr> m_forwarding_from := m_forwarder_id e1 \<rparr>)) st1)
           else
             let st2 = upd_queue (upd_front a (\<lambda>q. q\<lparr> m_wait_for_data := True \<rparr>)) st1
             in rbind (getHome (m_dram_controller_home_lookup st2) a) (\<lambda>dram_node.
                sendMsg DRAM_READ_REQ mem_component.DRAM c dram_node a Null_Ptr 0 UNKNOWN st2))) = Inr st'"
    unfolding retrieveDataAndSendToL2Cache_def by (elim lookup_someE rbindE) (rule that)
  note hit = lookup_hit [OF lk conjunct1 [OF c] line(1)]
  note eff1 = hit(1) [where g = g, unfolded line(2)] and ref = hit(2,3)
  have es: "e1 = e" using e1 ref by (simp add: read_entry_eq)
  note st1 = eff_self [OF eff1]
  have lok: "line_ok a (Some e) (q # rs) ?h" using c by simp
  have fl: "asked_flush ?h \<inter> holders ?h = {}"
    using no_flush_asked [OF lok q(1)] q kind by (auto simp: exclusive_def split: if_splits)
  show ?thesis
  proof (cases "data = Null_Ptr")
    case False
    let ?e = "e\<lparr> m_forwarder_id := c \<rparr>"
    from rest False obtain st2 st3 where w: "write_entry ref ?e st1 = Inr st2"
      and s: "sendMsg typ L2_CACHE c c a data (m_dd_block_size st2) CACHE_REMOTE st2 = Inr st3" and n: "next a st3 = Inr st'"
      unfolding es by (auto elim!: rbindE)
    note w' = write_entry_eff(1) [OF w eff_store [OF eff1 conjunct1 [OF c]] ref _ a, where g = g, unfolded st1 [THEN conjunct2]]
    have eff2: "eff g a st st2 (Some ?e) (q # rs) ?h" using eff_trans [OF eff1 w'] ref st1 by simp
    note st2 = eff_self [OF eff2]
    have eff3: "eff g a st st3 (Some ?e) (q # rs) (sent_line typ c ?h)"
      using eff_trans [OF eff2 sendMsg_eff(1) [OF s]] st2 by simp
    have "line_ok a (Some ?e) rs (sent_line typ c ?h)"
    proof (rule line_grant)
      have "line_ok a (Some ?e) (q # rs) ?h" by (rule line_ok_cong [OF lok]) simp_all
      then show "queue_part a (q # rs) ?h" "entry_part (Some ?e) ?h" by (simp_all add: line_ok_def)
      show "dram_reads ?h = 0" using line_ok_front(5) [OF lok q(1)] by simp
      show "typ = SH_REP \<or> (typ = EX_REP \<or> typ = UPGRADE_REP) \<and> exclusive ?e"
        using kind by (auto simp: exclusive_def split: if_splits)
    qed (use q fl in auto)
    then have "fin g a st3" using fin_eff [OF inv eff3] line(2) by simp
    then show ?thesis using next_fin [OF nx a n] by simp
  next
    case True
    have qf: "queue_front a st1 = Inr q" using st1 by (simp add: queue_front_eq)
    have "req_queue a st1 \<noteq> []" using st1 by simp
    show ?thesis
    proof (cases "m_protocol st1 = MESIF \<and> m_forwarding_from q = INVALID_CORE_ID \<and> m_dstate e = SHARED \<and> m_forwarder_id e \<noteq> INVALID_CORE_ID")
      case fwd: True
      let ?f = "m_forwarder_id e" and ?st = "upd_queue (upd_front a (\<lambda>q. q\<lparr> m_forwarding_from := m_forwarder_id e \<rparr>)) st1"
      from rest True fwd qf st1 have s: "sendMsg WB_REQ L2_CACHE c ?f a Null_Ptr 0 UNKNOWN ?st = Inr st'" by (simp add: es)
      have eff2: "eff g a st ?st (Some e) (q\<lparr> m_forwarding_from := ?f \<rparr> # rs) ?h"
        using eff_trans [OF eff1 upd_front_eff [of a st1 q rs]] st1 by simp
      have eff3: "eff g a st st' (Some e) (q\<lparr> m_forwarding_from := ?f \<rparr> # rs) (sent_line WB_REQ ?f ?h)"
        using eff_trans [OF eff2 sendMsg_eff(1) [OF s]] eff_self [OF eff2] by simp
      show ?thesis
        by (rule cinv_eff [OF inv eff3], rule line_ask_forwarder [OF lok q(1)]) (use fwd q kind in \<open>auto split: if_splits\<close>)
    next
      case nofwd: False
      let ?st = "upd_queue (upd_front a (\<lambda>q. q\<lparr> m_wait_for_data := True \<rparr>)) st1"
      from rest True nofwd qf st1 obtain node where s: "sendMsg DRAM_READ_REQ mem_component.DRAM c node a Null_Ptr 0 UNKNOWN ?st = Inr st'"
        by (auto simp: es Let_def elim!: rbindE)
      have eff2: "eff g a st ?st (Some e) (q\<lparr> m_wait_for_data := True \<rparr> # rs) ?h"
        using eff_trans [OF eff1 upd_front_eff [of a st1 q rs]] st1 by simp
      have eff3: "eff g a st st' (Some e) (q\<lparr> m_wait_for_data := True \<rparr> # rs) (sent_line DRAM_READ_REQ node ?h)"
        using eff_trans [OF eff2 sendMsg_eff(1) [OF s]] eff_self [OF eff2] by simp
      show ?thesis
        by (rule cinv_eff [OF inv eff3], rule line_ask_dram [OF lok q(1)])
          (use q kind fl in \<open>auto simp: none_asked_def split: if_splits\<close>)
    qed
  qed
qed


section \<open>Making room\<close>

text \<open>A step at the line \<open>a\<close> that keeps the other lines and the entries with an address in their slots.\<close>

definition kept :: "ghost \<Rightarrow> u64 \<Rightarrow> dir_cntlr \<Rightarrow> dir_cntlr \<Rightarrow> bool" where
  "kept g a st st' \<longleftrightarrow>
     (\<forall>b. b \<noteq> a \<longrightarrow> sdir st' b = sdir st b \<and> req_queue b st' = req_queue b st \<and> gh g st' b = gh g st b) \<and>
     (\<forall>n x. ref_entry (Slot n) (m_dram_directory_cache st) = Some x \<longrightarrow> m_address x \<noteq> INVALID_ADDRESS \<longrightarrow>
        ref_entry (Slot n) (m_dram_directory_cache st') = Some x)"

lemma kept_eff:
  "eff g a st st' e q h \<Longrightarrow>
   (\<And>n x. ref_entry (Slot n) (m_dram_directory_cache st) = Some x \<Longrightarrow> m_address x \<noteq> INVALID_ADDRESS \<Longrightarrow>
      ref_entry (Slot n) (m_dram_directory_cache st') = Some x) \<Longrightarrow> kept g a st st'"
  by (simp add: kept_def eff_def)

lemma kept_single:
  assumes "next_ok g next" "a \<noteq> INVALID_ADDRESS" "next a st1 = Inr st'" "store_ok st1" "length (req_queue a st1) = 1" "kept g a st st1"
  shows "kept g a st st'"
proof -
  have n: "m_dram_directory_cache st' = m_dram_directory_cache st1" "m_sent st' = m_sent st1"
    "\<forall>b. req_queue b st' = (if b = a then [] else req_queue b st1)"
    using assms(1-5) by (auto simp: next_ok_def)
  then show ?thesis using assms(6) by (auto simp: kept_def sdir_def gh_def)
qed

lemma processNullifyReq_ok:
  assumes nx: "next_ok g next" and inv: "cinv g st" and a: "a \<noteq> INVALID_ADDRESS"
    and q: "req_queue a st = q # rs" "req_type q = NULLIFY_REQ" and p: "processNullifyReq next q st = Inr st'"
  shows "cinv g st'" "rs = [] \<Longrightarrow> kept g a st st'"
proof -
  note c = cinv_line [OF inv, of a, unfolded q(1)]
  note c1 = conjunct1 [OF c] and c2 = conjunct2 [OF c]
  have addr: "req_addr q = a" using line_ok_front(1) [OF c2] .
  have w: "\<not> m_wait_for_data q" using line_ok_front(4) [OF c2] q(2) by (auto simp: waiting_ok_def core_req_def)
  from p obtain ref st1 e1 where lk: "lookup_entry a False st = Inr (Some ref, st1)" and e1: "read_entry ref st1 = Inr e1"
    and rest: "(case m_dstate e1 of
            EXCLUSIVE \<Rightarrow> sendMsg FLUSH_REQ L2_CACHE (req_core q) (m_owner_id e1) a Null_Ptr 0 UNKNOWN st1
          | MODIFIED \<Rightarrow> sendMsg FLUSH_REQ L2_CACHE (req_core q) (m_owner_id e1) a Null_Ptr 0 UNKNOWN st1
          | SHARED \<Rightarrow> send_invalidations (req_core q) a e1 st1
          | UNCACHED \<Rightarrow>
              rbind (invalidateDirectoryEntry a (m_dram_directory_cache st1)) (\<lambda>dc.
                next a (st1\<lparr> m_dram_directory_cache := dc \<rparr>))
          | OWNED \<Rightarrow> Inl Log_Error) = Inr st'"
    unfolding processNullifyReq_def Let_def addr by (elim lookup_someE rbindE [where m = "read_entry r s" for r s]) (rule that)
  from lookup_Some(1) [OF lk c1 a, where g = g] e1 have
    eff1: "eff g a st st1 (Some e1) (q # rs) (gh g st a)" and ref: "ref_entry ref (m_dram_directory_cache st1) = Some e1"
    and l: "line_ok a (Some e1) (q # rs) (gh g st a)"
    using c2 line_ok_looked_up q(1) by (auto simp: read_entry_eq)
  note keep1 = lookup_Some(2) [OF lk c1 a] and st1 = eff_self [OF eff1]
  have "cinv g st' \<and> (rs = [] \<longrightarrow> kept g a st st')"
  proof (cases "m_dstate e1 = UNCACHED")
    case True
    with rest obtain dc where i: "invalidateDirectoryEntry a (m_dram_directory_cache st1) = Inr dc"
      and n: "next a (st1\<lparr> m_dram_directory_cache := dc \<rparr>) = Inr st'" by (auto elim!: rbindE)
    let ?st = "st1\<lparr> m_dram_directory_cache := dc \<rparr>"
    have "store_ok st1" by (rule eff_store [OF eff1 c1])
    note d = invalidateDirectoryEntry_ok [OF i _ a] and ok1 = this [unfolded store_ok_def]
    have "eff g a st1 ?st None (q # rs) (gh g st a)"
      using st1 d ok1 by (simp add: eff_def store_ok_def sdir_def req_queue_def gh_def)
    note eff2 = eff_trans [OF eff1 this]
    have "fin g a ?st" using fin_eff [OF inv eff2] line_ok_remove(3) [OF l True] q(1) by simp
    moreover have "kept g a st ?st" by (rule kept_eff [OF eff2]) (use keep1 d(3) ok1 in simp)
    ultimately show ?thesis
      using next_fin [OF nx a n] kept_single [OF nx a n eff_store [OF eff2 c1]] eff_self [OF eff2] by simp
  next
    case False
    obtain h where eff2: "eff g a st st' (Some e1) (q # rs) h" and h: "h = gh g st a \<or> h = sent_line FLUSH_REQ (m_owner_id e1) (gh g st a) \<and> m_dstate e1 \<noteq> SHARED"
      and dc: "m_dram_directory_cache st' = m_dram_directory_cache st1"
    proof (cases "m_dstate e1 = SHARED")
      case True
      with rest have "send_invalidations (req_core q) a e1 st1 = Inr st'" by simp
      from send_invalidations_eff [OF this] show thesis using that eff_trans [OF eff1] st1 by metis
    next
      case ex: False
      with rest False have "sendMsg FLUSH_REQ L2_CACHE (req_core q) (m_owner_id e1) a Null_Ptr 0 UNKNOWN st1 = Inr st'"
        by (cases "m_dstate e1") auto
      from sendMsg_eff [OF this] show thesis using that eff_trans [OF eff1] st1 ex by metis
    qed
    have "line_ok a (Some e1) (q # rs) h"
      using h l line_ask_flush [OF l w] q(2) by auto
    moreover have "kept g a st st'" by (rule kept_eff [OF eff2]) (use keep1 dc in simp)
    ultimately show ?thesis using cinv_eff [OF inv eff2] by simp
  qed
  then show "cinv g st'" "rs = [] \<Longrightarrow> kept g a st st'" by auto
qed

lemma pick_candidate_ok:
  assumes "pick_candidate ns best st = Inr (Some (n, e))"
    and "\<And>m b. best = Some (m, b) \<Longrightarrow> m \<in> S \<and> ref_entry (Slot m) (m_dram_directory_cache st) = Some b \<and> req_queue (m_address b) st = []"
    and "set ns \<subseteq> S"
  shows "n \<in> S \<and> ref_entry (Slot n) (m_dram_directory_cache st) = Some e \<and> req_queue (m_address e) st = []"
  using assms
proof (induction ns arbitrary: best)
  case (Cons m ns)
  from Cons.prems(1) obtain b where b: "ref_entry (Slot m) (m_dram_directory_cache st) = Some b"
    and p: "pick_candidate ns (if (case best of None \<Rightarrow> True | Some (m, b') \<Rightarrow> getNumSharers b' > getNumSharers b) \<and>
             rq_size (m_address b) (m_dram_directory_req_queue_list st) = 0 then Some (m, b) else best) st = Inr (Some (n, e))"
    by (auto simp: read_entry_eq elim!: rbindE)
  show ?case
    by (rule Cons.IH [OF p]) (use Cons.prems b in \<open>auto simp: rq_size_queue_at req_queue_def split: if_splits\<close>)
qed simp


text \<open>A replaced entry: the new address has a fresh entry, the replaced one a nullify request.\<close>

lemma replaced_cinv:
  assumes inv: "cinv g st" and dc: "dc_ok dc" "ent dc = (sdir st)(a \<mapsto> e)" "fresh_entry e" "sdir st a = None"
    and q: "req_queue ra st = []" "req_type r = NULLIFY_REQ" "req_addr r = ra" "\<not> m_wait_for_data r"
    and a: "req_queue a st \<noteq> []"
    and st': "m_dram_directory_cache st' = dc" "m_sent st' = m_sent st"
      "m_dram_directory_req_queue_list st' = enqueue ra r (m_dram_directory_req_queue_list st)"
  shows "cinv g st'" "req_queue ra st' = [r]" "req_queue a st' = req_queue a st"
proof -
  have ne: "ra \<noteq> a" using q(1) a by auto
  have rq: "req_queue b st' = (if b = ra then [r] else req_queue b st)" for b
    using q(1) st'(3) by (auto simp: req_queue_def)
  show "req_queue ra st' = [r]" "req_queue a st' = req_queue a st" using rq ne by auto
  have l: "line_ok b (sdir st b) (req_queue b st) (gh g st b)" for b using cinv_line [OF inv] by simp
  have gh: "gh g st' = gh g st" by (simp add: gh_def st'(2))
  have "lok g b st'" for b
  proof -
    consider "b = a" | "b = ra" | "b \<noteq> a" "b \<noteq> ra" by blast
    then show ?thesis
    proof cases
      case 1
      then show ?thesis using l [of a] line_ok_fresh [OF _ dc(3), of a] dc(2,4) rq ne by (simp add: lok_def sdir_def st'(1) gh)
    next
      case 2
      then show ?thesis using l [of ra] line_nullify [of ra _ _ r] q dc(2) rq ne by (simp add: lok_def sdir_def st'(1) gh)
    next
      case 3
      then show ?thesis using l [of b] dc(2) rq by (simp add: lok_def sdir_def st'(1) gh)
    qed
  qed
  moreover have "store_ok st'" using inv dc(1) st' by (auto simp: cinv_def store_ok_def)
  ultimately show "cinv g st'" by (simp add: cinv_def)
qed

lemma allocation_ok:
  assumes nx: "next_ok g next" and inv: "cinv g st" and a: "a \<noteq> INVALID_ADDRESS"
    and q: "req_queue a st = q # rs" "req_addr q = a" and n: "sdir st a = None"
    and p: "processDirectoryEntryAllocationReq next q st = Inr (ref, st')"
  shows "cinv g st' \<and> req_queue a st' = q # rs \<and> gh g st' a = gh g st a \<and>
    (\<exists>e. ref_entry ref (m_dram_directory_cache st') = Some e \<and> m_address e = a \<and> sdir st' a = Some e \<and> fresh_entry e)"
proof -
  from p obtain slots t1 dc1 k e t3 dc3 nq st5 where
    c1: "getReplacementCandidates a (m_elapsed st, m_dram_directory_cache st) = Inr (slots, t1, dc1)"
    and pick: "pick_candidate slots None (st\<lparr> m_elapsed := t1, m_dram_directory_cache := dc1 \<rparr>) = Inr (Some (k, e))"
    and rep: "replaceDirectoryEntry (m_address e) a True (t1, dc1) = Inr (ref, t3, dc3)"
    and nq: "ShmemReq (nullify_msg (req_core q) (m_address e)) (m_elapsed st) = Inr nq"
    and nul: "processNullifyReq next nq (upd_queue (enqueue (m_address e) nq)
       (st\<lparr> evict := (evict st)(m_dstate e := evict st (m_dstate e) + 1), m_elapsed := t3, m_dram_directory_cache := dc3 \<rparr>)) = Inr st'"
    unfolding processDirectoryEntryAllocationReq_def Let_def q(2)
    by (elim rbind3E) (auto elim!: rbindE rbind3E split: option.splits prod.splits if_splits)
  let ?ra = "m_address e" and ?st1 = "st\<lparr> m_elapsed := t1, m_dram_directory_cache := dc1 \<rparr>"
  let ?st4 = "upd_queue (enqueue ?ra nq)
       (st\<lparr> evict := (evict st)(m_dstate e := evict st (m_dstate e) + 1), m_elapsed := t3, m_dram_directory_cache := dc3 \<rparr>)"
  have dc: "dc_ok (m_dram_directory_cache st)" using inv by (simp add: cinv_def store_ok_def)
  note c = getReplacementCandidates_ok [OF c1 dc a]
  have pc: "k \<in> set slots" "ref_entry (Slot k) dc1 = Some e" "req_queue ?ra st = []"
    using pick_candidate_ok [OF pick, of "set slots"] by (auto simp: req_queue_def)
  have home: "k \<in> set (home_slots dc1 a)" using c(5) pc(1) by blast
  have ra: "?ra \<noteq> INVALID_ADDRESS" using c(4) home pc(2) unfolding set_full_def by (metis option.inject)
  have "ent dc1 a = None" using c(2,3) by simp
  note r = replaceDirectoryEntry_ok [OF rep c(1) a ra this c(4)]
  from r(2) home pc(2) obtain x where x: "ref_entry ref dc3 = Some x" "fresh_entry x" "m_address x = a" "ent dc3 = (ent dc1)(a \<mapsto> x)" by blast
  from r(3) home pc(2) obtain i where i: "ref = Slot i" by blast
  have nq': "req_type nq = NULLIFY_REQ" "req_addr nq = ?ra" "\<not> m_wait_for_data nq"
    using nq by (auto simp: ShmemReq_def nullify_msg_def req_type_def req_addr_def split: if_splits)
  have inv4: "cinv g ?st4" "req_queue ?ra ?st4 = [nq]" "req_queue a ?st4 = req_queue a st"
    by (rule replaced_cinv [OF inv, of dc3 a x ?ra nq];
        use r(1) home pc x n q nq' c(2) in \<open>auto simp: sdir_def upd_queue_def\<close>)+
  note z = processNullifyReq_ok [OF nx inv4(1) ra inv4(2) nq'(1) nul]
  have ne: "a \<noteq> ?ra" using pc(3) q(1) by auto
  from z(2) have k: "kept g ?ra ?st4 st'" by simp
  have "ref_entry ref (m_dram_directory_cache ?st4) = Some x" using x(1) by (simp add: upd_queue_def)
  then have "ref_entry ref (m_dram_directory_cache st') = Some x" using k x(3) a i by (auto simp: kept_def)
  moreover have "sdir st' a = Some x" using k ne x(4) by (auto simp: kept_def sdir_def upd_queue_def)
  moreover have "req_queue a st' = q # rs" using k ne inv4(3) q(1) by (auto simp: kept_def)
  moreover have "gh g st' a = gh g st a" using k ne by (auto simp: kept_def gh_def upd_queue_def)
  ultimately show ?thesis using z(1) x by blast
qed

lemma entry_for_ok:
  assumes nx: "next_ok g next" and inv: "cinv g st" and a: "a \<noteq> INVALID_ADDRESS"
    and q: "req_queue a st = q # rs" and p: "entry_for next q st = Inr (ref, st1)"
  obtains e where "cinv g st1" "req_queue a st1 = q # rs" "gh g st1 a = gh g st a"
    "ref_entry ref (m_dram_directory_cache st1) = Some e" "m_address e = a" "sdir st1 a = Some e"
    "case sdir st a of None \<Rightarrow> fresh_entry e | Some e0 \<Rightarrow> e = e0"
proof -
  note c = cinv_line [OF inv, of a, unfolded q]
  have addr: "req_addr q = a" using line_ok_front(1) [OF conjunct2 [OF c]] .
  from p obtain r st0 where l: "lookup_entry a False st = Inr (r, st0)"
    and rest: "(case r of Some ref \<Rightarrow> Inr (ref, st0) | None \<Rightarrow> processDirectoryEntryAllocationReq next q st0) = Inr (ref, st1)"
    unfolding entry_for_def addr by (elim rbind2E) (rule that)
  note l' = lookup_cinv [OF l inv a]
  show thesis
  proof (cases r)
    case (Some x)
    with rest have r: "x = ref" "st0 = st1" by auto
    from lookup_Some(1) [OF l [unfolded Some] conjunct1 [OF c] a, where g = g] r obtain e where
      "eff g a st st1 (Some e) (req_queue a st) (gh g st a)" "ref_entry ref (m_dram_directory_cache st1) = Some e"
      "m_address e = a" "case sdir st a of None \<Rightarrow> fresh_entry e | Some e0 \<Rightarrow> e = e0" by auto
    with that l' r q show thesis using eff_self by metis
  next
    case None
    note n = lookup_None [OF l [unfolded None] conjunct1 [OF c] a]
    from None rest have "processDirectoryEntryAllocationReq next q st0 = Inr (ref, st1)" by simp
    from allocation_ok [OF nx l'(1) a _ addr _ this, of rs] l'(2,3) q n eff_self [OF n(1) [of g]]
    show thesis using that by auto
  qed
qed

end
