(* ===== verification/Directory_Requests.thy ===== *)
theory Directory_Requests
  imports Directory_Handlers
begin

text \<open>
  The processing of a request at the front of its queue keeps the invariant of all lines, and so
  does the processing of all the requests that become ready with it.
\<close>

section \<open>Requests\<close>

lemma first_sharer_step:
  assumes inv: "cinv g st" and ref: "ref_entry ref (m_dram_directory_cache st) = Some e" "m_address e = a"
    and line: "sdir st a = Some e" "req_queue a st = q # rs" and u: "m_dstate e = UNCACHED"
    and add: "addSharer (req_core q) mx e = Inr (True, e1)" and own: "setOwner (req_core q) e1 = Inr e2"
    and w: "write_entry ref (e2\<lparr> m_dstate := s \<rparr>) st = Inr st'"
    and s: "s = MODIFIED \<or> s = EXCLUSIVE \<or> s = SHARED"
  shows "cinv g st'" "sdir st' a = Some (e2\<lparr> m_dstate := s \<rparr>)" "req_queue a st' = q # rs"
    "sharer_set (e2\<lparr> m_dstate := s \<rparr>) = {req_core q}" "holders (gh g st' a) = {}" "\<not> m_wait_for_data q"
proof -
  let ?e = "e2\<lparr> m_dstate := s \<rparr>"
  note c = cinv_line [OF inv, of a, unfolded line] and a = cinv_no_address [OF inv line(1)]
  have e0: "sharer_set e = {}" using line_ok_entry(1) [OF conjunct2 [OF c]] u by (simp add: entry_wf_def)
  have e2: "e2 = e1\<lparr> m_owner_id := req_core q \<rparr>" using setOwner_eq_Inr [OF own] by simp
  show sh: "sharer_set ?e = {req_core q}" using addSharer_eq_Inr(3) [OF add] e0 by (simp add: e2)
  have ad: "m_address ?e = a" using addSharer_eq_Inr(2) [OF add] ref(2) by (simp add: e2 same_state_def)
  note eff = write_entry_eff(1) [OF w conjunct1 [OF c] ref ad a, where g = g, unfolded line]
  note l = line_first_sharer [OF conjunct2 [OF c] u sh, unfolded e2]
  have l': "line_ok a (Some ?e) (q # rs) (gh g st a)" using l(1) s by (simp add: e2)
  show "cinv g st'" by (rule cinv_eff [OF inv eff l'])
  show "sdir st' a = Some ?e" "req_queue a st' = q # rs" using eff_self [OF eff] by auto
  show "holders (gh g st' a) = {}" using l(3) s eff_self [OF eff] by simp
  show "\<not> m_wait_for_data q" using l(2) s by simp
qed

lemma processExReq_ok:
  assumes nx: "next_ok g next" and inv: "cinv g st" and a: "a \<noteq> INVALID_ADDRESS"
    and q: "req_queue a st = q # rs" "req_type q = EX_REQ" "\<not> m_wait_for_data q"
    and p: "processExReqFromL2Cache next q data st = Inr st'"
  shows "cinv g st'"
proof -
  have addr: "req_addr q = a" using line_ok_front(1) cinv_line [OF inv, of a, unfolded q(1)] by blast
  from p obtain ref st1 e' where ef: "entry_for next q st = Inr (ref, st1)" and rd: "read_entry ref st1 = Inr e'"
    and rest: "(case m_dstate e' of
        EXCLUSIVE \<Rightarrow>
          if data \<noteq> Null_Ptr then Inl Assert_Failed
          else sendMsg FLUSH_REQ L2_CACHE (req_core q) (m_owner_id e') a Null_Ptr 0 UNKNOWN st1
      | MODIFIED \<Rightarrow>
          if data \<noteq> Null_Ptr then Inl Assert_Failed
          else sendMsg FLUSH_REQ L2_CACHE (req_core q) (m_owner_id e') a Null_Ptr 0 UNKNOWN st1
      | SHARED \<Rightarrow>
          if data \<noteq> Null_Ptr then Inl Assert_Failed
          else send_invalidations (req_core q) a e' st1
      | UNCACHED \<Rightarrow>
          rbind (addSharer (req_core q) (getMaxHwSharers (m_dram_directory_cache st1)) e') (\<lambda>(added, e1).
          if \<not> added then Inl Assert_Failed
          else
            rbind (setOwner (req_core q) e1) (\<lambda>e2.
            rbind (write_entry ref (e2\<lparr> m_dstate := MODIFIED \<rparr>) st1) (\<lambda>st2.
              retrieveDataAndSendToL2Cache next EX_REP (req_core q) a data st2)))
      | OWNED \<Rightarrow> Inl Log_Error) = Inr st'"
    unfolding processExReqFromL2Cache_def Let_def addr by (elim rbind2E rbindE [where m = "read_entry r s" for r s]) (rule that)
  from entry_for_ok [OF nx inv a q(1) ef] obtain e where
    inv1: "cinv g st1" and line: "req_queue a st1 = q # rs" "sdir st1 a = Some e"
    and ref: "ref_entry ref (m_dram_directory_cache st1) = Some e" "m_address e = a" by metis
  have e': "e' = e" using rd ref by (simp add: read_entry_eq)
  note l = conjunct2 [OF cinv_line [OF inv1, of a, unfolded line]]
  show ?thesis
  proof (cases "m_dstate e")
    case UNCACHED
    with rest e' obtain e1 e2 st2 where add: "addSharer (req_core q) (getMaxHwSharers (m_dram_directory_cache st1)) e = Inr (True, e1)"
      and own: "setOwner (req_core q) e1 = Inr e2" and w: "write_entry ref (e2\<lparr> m_dstate := MODIFIED \<rparr>) st1 = Inr st2"
      and r: "retrieveDataAndSendToL2Cache next EX_REP (req_core q) a data st2 = Inr st'"
      by (auto elim!: rbind2E rbindE split: if_splits)
    note f = first_sharer_step [OF inv1 ref line(2,1) UNCACHED add own w, simplified]
    show ?thesis
      by (rule retrieve_ok [OF nx f(1) r f(2,3)]) (use q f in \<open>auto simp: core_req_def\<close>)
  next
    case SHARED
    with rest e' have "send_invalidations (req_core q) a e st1 = Inr st'" by (auto split: if_splits)
    from send_invalidations_eff(1) [OF this, of g] show ?thesis using cinv_eff [OF inv1] l line by simp
  next
    case MODIFIED
    with rest e' have "sendMsg FLUSH_REQ L2_CACHE (req_core q) (m_owner_id e) a Null_Ptr 0 UNKNOWN st1 = Inr st'" by (auto split: if_splits)
    from cinv_eff [OF inv1 sendMsg_eff(1) [OF this]] line_ask_flush [OF l q(3)] q(2) MODIFIED line show ?thesis by simp
  next
    case EXCLUSIVE
    with rest e' have "sendMsg FLUSH_REQ L2_CACHE (req_core q) (m_owner_id e) a Null_Ptr 0 UNKNOWN st1 = Inr st'" by (auto split: if_splits)
    from cinv_eff [OF inv1 sendMsg_eff(1) [OF this]] line_ask_flush [OF l q(3)] q(2) EXCLUSIVE line show ?thesis by simp
  qed (use rest e' in simp)
qed


text \<open>A read of a line that other caches share.\<close>

lemma share_ok:
  assumes nx: "next_ok g next" and inv: "cinv g st" and ref: "ref_entry ref (m_dram_directory_cache st) = Some e" "m_address e = a"
    and line: "sdir st a = Some e" "req_queue a st = q # rs" and q: "req_type q = SH_REQ" "\<not> m_wait_for_data q"
    and s: "m_dstate e = SHARED" "asked_wb (gh g st a) \<inter> holders (gh g st a) = {}"
    and p: "rbind (hasSharer (req_core q) e) (\<lambda>has.
          if has then
            retrieveDataAndSendToL2Cache next SH_REP (req_core q) a data
              (st\<lparr> forward := forward st + 1,
                  forward_failed := forward_failed st + (if data = Null_Ptr then 1 else 0) \<rparr>)
          else
            rbind (addSharer (req_core q) mx e) (\<lambda>(added, e1).
            if \<not> added then
              rbind (getOneSharer e1) (\<lambda>(sharer, e2).
              rbind (write_entry ref e2 st) (\<lambda>st2.
                sendMsg INV_REQ L2_CACHE (req_core q) sharer a Null_Ptr 0 UNKNOWN st2))
            else
              rbind (write_entry ref e1 st) (\<lambda>st2.
                retrieveDataAndSendToL2Cache next SH_REP (req_core q) a data st2))) = Inr st'"
  shows "cinv g st'"
proof -
  let ?c = "req_core q" and ?h = "gh g st a"
  note c = cinv_line [OF inv, of a, unfolded line] and a = cinv_no_address [OF inv line(1)]
  note l = conjunct2 [OF c]
  have nh: "?c \<notin> holders ?h" using line_ok_front(3) [OF l] q by simp
  from p obtain has where has: "hasSharer ?c e = Inr has"
    and rest: "(if has then
            retrieveDataAndSendToL2Cache next SH_REP ?c a data
              (st\<lparr> forward := forward st + 1,
                  forward_failed := forward_failed st + (if data = Null_Ptr then 1 else 0) \<rparr>)
          else
            rbind (addSharer ?c mx e) (\<lambda>(added, e1).
            if \<not> added then
              rbind (getOneSharer e1) (\<lambda>(sharer, e2).
              rbind (write_entry ref e2 st) (\<lambda>st2.
                sendMsg INV_REQ L2_CACHE ?c sharer a Null_Ptr 0 UNKNOWN st2))
            else
              rbind (write_entry ref e1 st) (\<lambda>st2.
                retrieveDataAndSendToL2Cache next SH_REP ?c a data st2))) = Inr st'"
    by (elim rbindE) (rule that)
  show ?thesis
  proof (cases has)
    case True
    let ?st = "st\<lparr> forward := forward st + 1, forward_failed := forward_failed st + (if data = Null_Ptr then 1 else 0) \<rparr>"
    from rest True have r: "retrieveDataAndSendToL2Cache next SH_REP ?c a data ?st = Inr st'" by (simp add: Let_def)
    have eff: "eff g a st ?st (Some e) (q # rs) ?h" using same_view_eff [of ?st st g a] line by simp
    have "cinv g ?st" by (rule cinv_eff [OF inv eff l])
    then show ?thesis
      by (rule retrieve_ok [OF nx _ r]) (use eff_self [OF eff] q s nh hasSharer_eq_Inr [OF has] True in \<open>auto simp: core_req_def\<close>)
  next
    case False
    with rest obtain added e1 where add: "addSharer ?c mx e = Inr (added, e1)"
      and rest2: "(if \<not> added then
              rbind (getOneSharer e1) (\<lambda>(sharer, e2).
              rbind (write_entry ref e2 st) (\<lambda>st2.
                sendMsg INV_REQ L2_CACHE ?c sharer a Null_Ptr 0 UNKNOWN st2))
            else
              rbind (write_entry ref e1 st) (\<lambda>st2.
                retrieveDataAndSendToL2Cache next SH_REP ?c a data st2)) = Inr st'" by (auto elim!: rbind2E)
    note ad = addSharer_eq_Inr [OF add]
    have step: "eff g a st st2 (Some e2) (q # rs) ?h \<and> line_ok a (Some e2) (q # rs) ?h"
      if w: "write_entry ref e2 st = Inr st2" and e2: "sharer_set e \<subseteq> sharer_set e2" "same_state e e2" for e2 st2
    proof -
      have "m_address e2 = a" using e2(2) ref(2) by (simp add: same_state_def)
      note eff = write_entry_eff(1) [OF w conjunct1 [OF c] ref this a, where g = g, unfolded line]
      have "line_ok a (Some e2) (q # rs) ?h"
        by (rule line_more_sharers [OF l q(2) s(1) e2(1)]) (use e2(2) s in \<open>simp add: same_state_def\<close>)
      with eff show ?thesis by simp
    qed
    show ?thesis
    proof (cases added)
      case True
      with rest2 obtain st2 where w: "write_entry ref e1 st = Inr st2"
        and r: "retrieveDataAndSendToL2Cache next SH_REP ?c a data st2 = Inr st'" by (auto elim!: rbindE)
      have "eff g a st st2 (Some e1) (q # rs) ?h" "line_ok a (Some e1) (q # rs) ?h" using step [OF w] ad True by auto
      note inv2 = cinv_eff [OF inv this] and v = eff_self [OF this(1)]
      show ?thesis
        by (rule retrieve_ok [OF nx inv2 r conjunct1 [OF v] conjunct1 [OF conjunct2 [OF v]]]) (use v q s nh ad True in \<open>auto simp: core_req_def same_state_def\<close>)
    next
      case False
      with rest2 obtain d e2 st2 where o: "getOneSharer e1 = Inr (d, e2)" and w: "write_entry ref e2 st = Inr st2"
        and sd: "sendMsg INV_REQ L2_CACHE ?c d a Null_Ptr 0 UNKNOWN st2 = Inr st'" by (auto elim!: rbindE rbind2E)
      have "eff g a st st2 (Some e2) (q # rs) ?h" "line_ok a (Some e2) (q # rs) ?h"
        using step [OF w] ad False getOneSharer_eq_Inr [OF o] by (auto simp: same_state_def)
      note inv2 = cinv_eff [OF inv this] and v = eff_self [OF this(1)] and l2 = this(2)
      show ?thesis using cinv_eff [OF inv2 sendMsg_eff(1) [OF sd]] v l2 by simp
    qed
  qed
qed

lemma processShReq_ok:
  assumes nx: "next_ok g next" and inv: "cinv g st" and a: "a \<noteq> INVALID_ADDRESS"
    and q: "req_queue a st = q # rs" "req_type q = SH_REQ" "\<not> m_wait_for_data q"
    and asked: "\<And>x. sdir st a = Some x \<Longrightarrow> m_dstate x = SHARED \<Longrightarrow> asked_wb (gh g st a) \<inter> holders (gh g st a) = {}"
    and p: "processShReqFromL2Cache next q data st = Inr st'"
  shows "cinv g st'"
proof -
  let ?c = "req_core q"
  have addr: "req_addr q = a" using line_ok_front(1) cinv_line [OF inv, of a, unfolded q(1)] by blast
  obtain ref st1 where ef: "entry_for next q st = Inr (ref, st1)"
    using p unfolding processShReqFromL2Cache_def Let_def by (elim rbind2E) (rule that)
  from entry_for_ok [OF nx inv a q(1) ef] obtain e where
    inv1: "cinv g st1" and line: "req_queue a st1 = q # rs" "sdir st1 a = Some e" and gh: "gh g st1 a = gh g st a"
    and ref: "ref_entry ref (m_dram_directory_cache st1) = Some e" "m_address e = a"
    and e0: "case sdir st a of None \<Rightarrow> fresh_entry e | Some e0 \<Rightarrow> e = e0" by metis
  have rd: "read_entry ref st1 = Inr e" using ref by (simp add: read_entry_eq)
  note rest = p [unfolded processShReqFromL2Cache_def Let_def addr ef rbind_Inr prod.case rd]
  note l = conjunct2 [OF cinv_line [OF inv1, of a, unfolded line]]
  show ?thesis
  proof (cases "m_dstate e")
    case UNCACHED
    from rest [unfolded UNCACHED, simplified] obtain e1 e2
      where add: "addSharer ?c (getMaxHwSharers (m_dram_directory_cache st1)) e = Inr (True, e1)"
      and own: "setOwner ?c e1 = Inr e2"
      and r: "(if m_protocol st1 = MSI then
              rbind (write_entry ref (e2\<lparr> m_dstate := SHARED \<rparr>) st1) (\<lambda>st2.
                retrieveDataAndSendToL2Cache next SH_REP ?c a data st2)
            else
              rbind (write_entry ref (e2\<lparr> m_dstate := EXCLUSIVE \<rparr>) st1) (\<lambda>st2.
                retrieveDataAndSendToL2Cache next EX_REP ?c a data st2)) = Inr st'"
      by (elim rbind2E) (auto elim!: rbindE split: if_splits)
    note f = first_sharer_step [OF inv1 ref line(2,1) UNCACHED add own]
    show ?thesis
    proof (cases "m_protocol st1 = MSI")
      case True
      with r obtain st2 where w: "write_entry ref (e2\<lparr> m_dstate := SHARED \<rparr>) st1 = Inr st2"
        and r: "retrieveDataAndSendToL2Cache next SH_REP ?c a data st2 = Inr st'" by (auto elim!: rbindE)
      note f = f [OF w, simplified]
      show ?thesis by (rule retrieve_ok [OF nx f(1) r f(2,3)]) (use q f in \<open>auto simp: core_req_def\<close>)
    next
      case False
      with r obtain st2 where w: "write_entry ref (e2\<lparr> m_dstate := EXCLUSIVE \<rparr>) st1 = Inr st2"
        and r: "retrieveDataAndSendToL2Cache next EX_REP ?c a data st2 = Inr st'" by (auto elim!: rbindE)
      note f = f [OF w, simplified]
      show ?thesis by (rule retrieve_ok [OF nx f(1) r f(2,3)]) (use q f in \<open>auto simp: core_req_def\<close>)
    qed
  next
    case SHARED
    have "sdir st a = Some e" using e0 SHARED by (auto simp: fresh_entry_def split: option.splits)
    then have "asked_wb (gh g st1 a) \<inter> holders (gh g st1 a) = {}" using asked SHARED gh by simp
    from share_ok [OF nx inv1 ref line(2,1) q(2,3) SHARED this rest [unfolded SHARED dstate_t.case]] show ?thesis .
  next
    case MODIFIED
    with rest have "sendMsg WB_REQ L2_CACHE ?c (m_owner_id e) a Null_Ptr 0 UNKNOWN st1 = Inr st'" by (auto split: if_splits)
    from cinv_eff [OF inv1 sendMsg_eff(1) [OF this]] line_ask_write_back [OF l q(3,2)] MODIFIED line show ?thesis
      by (simp add: exclusive_def)
  next
    case EXCLUSIVE
    with rest have "sendMsg WB_REQ L2_CACHE ?c (m_owner_id e) a Null_Ptr 0 UNKNOWN st1 = Inr st'" by (auto split: if_splits)
    from cinv_eff [OF inv1 sendMsg_eff(1) [OF this]] line_ask_write_back [OF l q(3,2)] EXCLUSIVE line show ?thesis
      by (simp add: exclusive_def)
  qed (use rest in simp)
qed


lemma processUpgradeReq_ok:
  assumes nx: "next_ok g next" and inv: "cinv g st" and a: "a \<noteq> INVALID_ADDRESS"
    and q: "req_queue a st = q # rs" "req_type q = UPGRADE_REQ" "\<not> m_wait_for_data q"
    and p: "processUpgradeReqFromL2Cache next q data st = Inr st'"
  shows "cinv g st'"
proof -
  let ?c = "req_core q"
  have addr: "req_addr q = a" using line_ok_front(1) cinv_line [OF inv, of a, unfolded q(1)] by blast
  obtain ref st1 where ef: "entry_for next q st = Inr (ref, st1)"
    using p unfolding processUpgradeReqFromL2Cache_def Let_def by (elim rbind2E) (rule that)
  from entry_for_ok [OF nx inv a q(1) ef] obtain e where
    inv1: "cinv g st1" and line: "req_queue a st1 = q # rs" "sdir st1 a = Some e"
    and ref: "ref_entry ref (m_dram_directory_cache st1) = Some e" "m_address e = a" by metis
  have rd: "read_entry ref st1 = Inr e" using ref by (simp add: read_entry_eq)
  obtain b cs where gl: "getSharersList e = (b, cs)" by fastforce
  note cs = getSharersList_eq [OF gl]
  note rest = p [unfolded processUpgradeReqFromL2Cache_def Let_def addr ef rbind_Inr prod.case rd gl]
  note c1 = cinv_line [OF inv1, of a, unfolded line]
  note l = conjunct2 [OF c1]
  let ?h = "gh g st1 a"
  have w0: "asked_wb ?h \<inter> holders ?h = {}" "dram_reads ?h = 0"
    using line_ok_front(5) [OF l q(3)] q(2) by (auto simp: asked_ok_def)
  have cr: "core_req q" using q(2) by (simp add: core_req_def)
  have finished: "fin g a s" if "eff g a st1 s (Some x) (q # rs) (sent_line UPGRADE_REP ?c ?h)" "line_ok a (Some x) (q # rs) ?h"
    "exclusive x" "?c \<in> sharer_set x" for s x
  proof -
    have sh: "sharer_set x = {?c}" using line_ok_entry(1) [OF that(2)] that(3,4) by (auto simp: entry_wf_def)
    have "line_ok a (Some x) rs (sent_line UPGRADE_REP ?c ?h)"
      by (rule line_grant) (use that(2-4) sh w0 cr line_ok_entry(2) [OF that(2)] in \<open>auto simp: line_ok_def\<close>)
    then show ?thesis using fin_eff [OF inv1 that(1)] line(1) by simp
  qed
  have excl: ?thesis if ex: "exclusive e" and r: "rbind (nth_r cs 0) (\<lambda>s0.
            if s0 = ?c then
              if m_owner_id e \<noteq> ?c then Inl Assert_Failed
              else rbind (sendMsg UPGRADE_REP L2_CACHE ?c ?c a Null_Ptr 0 UNKNOWN st1) (\<lambda>st2.
                   rbind (write_entry ref (e\<lparr> m_dstate := MODIFIED \<rparr>) st2) (next a))
            else sendMsg FLUSH_REQ L2_CACHE ?c (m_owner_id e) a Null_Ptr 0 UNKNOWN st1) = Inr st'"
  proof -
    from r obtain s0 where s0: "nth_r cs 0 = Inr s0" and r: "(if s0 = ?c then
              if m_owner_id e \<noteq> ?c then Inl Assert_Failed
              else rbind (sendMsg UPGRADE_REP L2_CACHE ?c ?c a Null_Ptr 0 UNKNOWN st1) (\<lambda>st2.
                   rbind (write_entry ref (e\<lparr> m_dstate := MODIFIED \<rparr>) st2) (next a))
            else sendMsg FLUSH_REQ L2_CACHE ?c (m_owner_id e) a Null_Ptr 0 UNKNOWN st1) = Inr st'"
      by (elim rbindE) (rule that)
    show ?thesis
    proof (cases "s0 = ?c")
      case True
      with r obtain st2 st3 where s: "sendMsg UPGRADE_REP L2_CACHE ?c ?c a Null_Ptr 0 UNKNOWN st1 = Inr st2" and o: "m_owner_id e = ?c"
        and w: "write_entry ref (e\<lparr> m_dstate := MODIFIED \<rparr>) st2 = Inr st3" and n: "next a st3 = Inr st'"
        by (auto elim!: rbindE split: if_splits)
      let ?e = "e\<lparr> m_dstate := MODIFIED \<rparr>"
      have sh: "sharer_set e = {?c}" using line_ok_entry(1) [OF l] ex o by (simp add: entry_wf_def)
      note es = sendMsg_eff(1) [OF s, of g] sendMsg_eff(2) [OF s]
      have "eff g a st2 st3 (Some ?e) (req_queue a st2) (gh g st2 a)"
        by (rule write_entry_eff(1) [OF w eff_store [OF es(1) conjunct1 [OF c1]]]) (use es(2) ref a in auto)
      with es(1) have eff: "eff g a st1 st3 (Some ?e) (q # rs) (sent_line UPGRADE_REP ?c ?h)"
        using eff_trans [OF es(1)] eff_self [OF es(1)] line by metis
      have "line_ok a (Some ?e) (q # rs) ?h"
      proof (rule line_ok_not_waiting [OF l])
        show "entry_part (Some ?e) ?h" using l sh o by (auto simp: line_ok_def entry_part_def entry_wf_def exclusive_def)
        show "asked_ok (Some ?e) q ?h" using line_ok_front(5) [OF l q(3)] q(2) by (auto simp: asked_ok_def)
      qed (rule q(3))
      then have "fin g a st3" by (rule finished [OF eff]) (use sh in \<open>simp_all add: exclusive_def\<close>)
      then show ?thesis using next_fin [OF nx a n] by simp
    next
      case False
      with r have "sendMsg FLUSH_REQ L2_CACHE ?c (m_owner_id e) a Null_Ptr 0 UNKNOWN st1 = Inr st'" by simp
      from cinv_eff [OF inv1 sendMsg_eff(1) [OF this]] line_ask_flush [OF l q(3)] q(2) line show ?thesis by simp
    qed
  qed
  show ?thesis
  proof (cases "m_dstate e")
    case UNCACHED
    from rest [unfolded UNCACHED, simplified] obtain e1 e2 st2
      where add: "addSharer ?c (getMaxHwSharers (m_dram_directory_cache st1)) e = Inr (True, e1)"
      and own: "setOwner ?c e1 = Inr e2" and w: "write_entry ref (e2\<lparr> m_dstate := MODIFIED \<rparr>) st1 = Inr st2"
      and r: "retrieveDataAndSendToL2Cache next EX_REP ?c a (if data = Null_Ptr then m_data_buf (m_shmem_msg q) else data) st2 = Inr st'"
      by (auto elim!: rbind2E rbindE split: if_splits)
    note f = first_sharer_step [OF inv1 ref line(2,1) UNCACHED add own w, simplified]
    show ?thesis by (rule retrieve_ok [OF nx f(1) r f(2,3)]) (use q f in \<open>auto simp: core_req_def\<close>)
  next
    case SHARED
    show ?thesis
    proof (cases "cs = [?c]")
      case True
      with rest [unfolded SHARED] obtain e1 st2 st3 where own: "setOwner ?c e = Inr e1"
        and w: "write_entry ref (e1\<lparr> m_dstate := MODIFIED \<rparr>) st1 = Inr st2"
        and s: "sendMsg UPGRADE_REP L2_CACHE ?c ?c a Null_Ptr 0 UNKNOWN st2 = Inr st3" and n: "next a st3 = Inr st'"
        by (auto elim!: rbindE)
      let ?e = "e1\<lparr> m_dstate := MODIFIED \<rparr>"
      have e1: "e1 = e\<lparr> m_owner_id := ?c \<rparr>" using setOwner_eq_Inr [OF own] by simp
      have sh: "sharer_set e = {?c}" using cs True by simp
      have ad: "m_address ?e = a" using ref(2) e1 by simp
      note eff1 = write_entry_eff(1) [OF w conjunct1 [OF c1] ref ad a, where g = g, unfolded line]
      have eff: "eff g a st1 st3 (Some ?e) (q # rs) (sent_line UPGRADE_REP ?c ?h)"
        using eff_trans [OF eff1 sendMsg_eff(1) [OF s]] eff_self [OF eff1] by simp
      have "line_ok a (Some ?e) (q # rs) ?h"
        by (rule line_upgrade [OF l q(3) SHARED sh q(2)]) (simp_all add: e1 sh)
      then have "fin g a st3" by (rule finished [OF eff]) (use sh in \<open>simp_all add: exclusive_def e1\<close>)
      then show ?thesis using next_fin [OF nx a n] by simp
    next
      case False
      with rest [unfolded SHARED] cs obtain hc where "upgrade_invalidations ?c hc a cs st1 = Inr st'"
        by (auto elim!: rbindE)
      then show ?thesis by (rule upgrade_invalidations_ok [OF _ inv1 line(2,1) q(3,2)])
    qed
  next
    case MODIFIED
    then show ?thesis by (intro excl) (use rest MODIFIED in \<open>simp_all add: exclusive_def\<close>)
  next
    case EXCLUSIVE
    then show ?thesis by (intro excl) (use rest EXCLUSIVE in \<open>simp_all add: exclusive_def\<close>)
  qed (use rest in simp)
qed

end
