(* ===== verification/Directory_Delivery.thy ===== *)
theory Directory_Delivery
  imports Directory_Requests
begin

text \<open>
  Starting the next request of a line, the handlers of the replies from the caches and from DRAM,
  and the delivery of a message to the directory: all of them keep the invariant of all lines.
\<close>

section \<open>The next request\<close>

lemma dequeued:
  assumes "dequeue a (m_dram_directory_req_queue_list st) = Inr (c, q)"
  shows "\<exists>rs. req_queue a st = c # rs \<and>
    (\<forall>b. req_queue b (st\<lparr> m_dram_directory_req_queue_list := q \<rparr>) = (if b = a then rs else req_queue b st))"
    "store_ok st \<Longrightarrow> store_ok (st\<lparr> m_dram_directory_req_queue_list := q \<rparr>)"
  using dequeue_eq_Inr [OF assms] by (auto simp: req_queue_def store_ok_def)

lemma fin_dequeued:
  assumes f: "fin g a st" and s: "store_ok st'" and v: "m_dram_directory_cache st' = m_dram_directory_cache st" "m_sent st' = m_sent st"
    "\<forall>b. req_queue b st' = (if b = a then rs else req_queue b st)" and q: "req_queue a st = c # rs"
  shows "cinv g st'"
proof -
  have "lok g b st'" for b
    using f v q by (cases "b = a") (auto simp: fin_def lok_def sdir_def gh_def)
  with s show ?thesis by (simp add: cinv_def)
qed

text \<open>In a shared line only the cache that forwards the data of the front request is asked for it.\<close>

lemma asked_forwarder:
  assumes "line_ok a (Some x) (r # rs) h" "\<not> m_wait_for_data r" "m_dstate x = SHARED" "c \<in> asked_wb h \<inter> holders h"
  shows "c = m_forwarding_from r"
proof -
  have "asked_ok (Some x) r h" using line_ok_front(5) [OF assms(1,2)] by simp
  from bspec [OF conjunct1 [OF this [unfolded asked_ok_def]] assms(4)] show ?thesis using assms(3) by (simp add: exclusive_def)
qed

lemma none_forwards:
  assumes "line_ok a (Some x) (r # rs) h" "\<not> m_wait_for_data r" "m_dstate x = SHARED" "m_forwarding_from r \<notin> holders h"
  shows "asked_wb h \<inter> holders h = {}"
  using asked_forwarder [OF assms(1-3)] assms(4) by blast

lemma invalid_no_holder: "line_ok a (Some x) q h \<Longrightarrow> INVALID_CORE_ID \<notin> holders h"
  using line_ok_entry(2) sharer_valid by blast

lemma start_request_ok:
  assumes nx: "next_ok g next" and inv: "cinv g st" and a: "a \<noteq> INVALID_ADDRESS" and q: "req_queue a st = r # rs"
    and r: "\<not> m_wait_for_data r" "m_forwarding_from r = INVALID_CORE_ID"
    and p: "(case req_type r of
                EX_REQ \<Rightarrow> processExReqFromL2Cache next r Null_Ptr st
              | SH_REQ \<Rightarrow> processShReqFromL2Cache next r Null_Ptr st
              | UPGRADE_REQ \<Rightarrow> processUpgradeReqFromL2Cache next r Null_Ptr st
              | _ \<Rightarrow> Inl Log_Error) = Inr st'"
  shows "cinv g st'"
proof (cases "req_type r = SH_REQ")
  case True
  have "asked_wb (gh g st a) \<inter> holders (gh g st a) = {}" if x: "sdir st a = Some x" "m_dstate x = SHARED" for x
  proof -
    have l: "line_ok a (Some x) (r # rs) (gh g st a)" using cinv_line [OF inv, of a] x q by simp
    then show ?thesis using none_forwards [OF l r(1) x(2)] invalid_no_holder [OF l] r(2) by simp
  qed
  with True p show ?thesis using processShReq_ok [OF nx inv a q True r(1)] by simp
next
  case False
  with p consider "req_type r = EX_REQ" | "req_type r = UPGRADE_REQ" by (cases "req_type r") auto
  then show ?thesis
    using p processExReq_ok [OF nx inv a q _ r(1)] processUpgradeReq_ok [OF nx inv a q _ r(1)] by cases auto
qed

lemma next_request_ok: "next_ok g (processNextReqFromL2Cache n)"
proof (induction n)
  case (Suc n)
  show ?case
    unfolding next_ok_def
  proof (intro allI impI)
    fix a st st'
    assume a: "a \<noteq> INVALID_ADDRESS" and n: "processNextReqFromL2Cache (Suc n) a st = Inr st'"
    from n obtain c q where d: "dequeue a (m_dram_directory_req_queue_list st) = Inr (c, q)"
      and rest: "(if rq_empty a q then Inr (st\<lparr> m_dram_directory_req_queue_list := q \<rparr>)
           else rbind (front a q) (\<lambda>req.
             case req_type req of
                EX_REQ \<Rightarrow> processExReqFromL2Cache (processNextReqFromL2Cache n) req Null_Ptr
                  (st\<lparr> m_dram_directory_req_queue_list := q, m_elapsed := m_time req \<rparr>)
              | SH_REQ \<Rightarrow> processShReqFromL2Cache (processNextReqFromL2Cache n) req Null_Ptr
                  (st\<lparr> m_dram_directory_req_queue_list := q, m_elapsed := m_time req \<rparr>)
              | UPGRADE_REQ \<Rightarrow> processUpgradeReqFromL2Cache (processNextReqFromL2Cache n) req Null_Ptr
                  (st\<lparr> m_dram_directory_req_queue_list := q, m_elapsed := m_time req \<rparr>)
              | _ \<Rightarrow> Inl Log_Error)) = Inr st'"
      unfolding processNextReqFromL2Cache.simps Let_def by (auto elim!: rbind2E split: if_splits)
    let ?st1 = "st\<lparr> m_dram_directory_req_queue_list := q \<rparr>"
    from dequeued(1) [OF d] obtain rs where rs: "req_queue a st = c # rs"
      "\<forall>b. req_queue b ?st1 = (if b = a then rs else req_queue b st)" by blast
    note ok = dequeued(2) [OF d]
    have em: "rq_empty a q \<longleftrightarrow> rs = []" if "store_ok st"
      using ok [OF that] rq_empty_queue_at [of q a] rs(2) by (simp add: store_ok_def req_queue_def)
    have "cinv g st'" if f: "fin g a st"
    proof (cases "rs = []")
      case True
      have "store_ok st" using f by (simp add: fin_def)
      with True rest em have "st' = ?st1" by simp
      then show ?thesis using fin_dequeued [OF f ok _ _ rs(2,1)] \<open>store_ok st\<close> by simp
    next
      case False
      then obtain r rs' where r: "rs = r # rs'" by (cases rs) auto
      have s: "store_ok st" using f by (simp add: fin_def)
      let ?st2 = "st\<lparr> m_dram_directory_req_queue_list := q, m_elapsed := m_time r \<rparr>"
      have fr: "front a q = Inr r" using rs(2) r by (simp add: front_eq_Inr req_queue_def)
      have rq2: "req_queue b ?st2 = req_queue b ?st1" for b by (simp add: req_queue_def)
      have inv2: "cinv g ?st2"
        by (rule fin_dequeued [OF f, of _ rs c]) (use ok [OF s] rs rq2 in \<open>simp_all add: store_ok_def\<close>)
      have w: "\<not> m_wait_for_data r" "m_forwarding_from r = INVALID_CORE_ID" using f rs(1) r by (auto simp: fin_def)
      show ?thesis
        by (rule start_request_ok [OF Suc.IH inv2 a _ w]) (use rest em [OF s] False fr rq2 rs(2) r in simp_all)
    qed
    moreover have "m_dram_directory_cache st' = m_dram_directory_cache st \<and> m_sent st' = m_sent st \<and>
        (\<forall>b. req_queue b st' = (if b = a then [] else req_queue b st))"
      if "length (req_queue a st) = 1" "store_ok st"
    proof -
      have "rs = []" using that(1) rs(1) by simp
      with em [OF that(2)] rest have "st' = ?st1" by simp
      with rs(2) \<open>rs = []\<close> show ?thesis by simp
    qed
    ultimately show "(fin g a st \<longrightarrow> cinv g st') \<and>
     (length (req_queue a st) = 1 \<longrightarrow> store_ok st \<longrightarrow>
        m_dram_directory_cache st' = m_dram_directory_cache st \<and> m_sent st' = m_sent st \<and>
        (\<forall>b. req_queue b st' = (if b = a then [] else req_queue b st)))" by blast
  qed
qed (simp add: next_ok_def)

section \<open>The line of a message\<close>

text \<open>The state between the arrival of a message and the change it makes to the entry of its line:
  the line agrees with the ghost \<open>h\<close> from before the message, the other lines with the present one.\<close>

definition pending :: "ghost \<Rightarrow> u64 \<Rightarrow> line_ghost \<Rightarrow> dir_cntlr \<Rightarrow> bool" where
  "pending g a h st \<longleftrightarrow> store_ok st \<and> (\<forall>b. b \<noteq> a \<longrightarrow> lok g b st) \<and> line_ok a (sdir st a) (req_queue a st) h"

lemma pending_line: "pending g a h st \<Longrightarrow> store_ok st \<and> line_ok a (sdir st a) (req_queue a st) h"
  by (simp add: pending_def)

lemma pending_eff:
  assumes "pending g a h st" "eff g a st st' e q h'" "line_ok a e q h'"
  shows "cinv g st'"
proof -
  have "lok g b st'" for b
    using assms by (cases "b = a") (auto simp: pending_def eff_def lok_def)
  with assms show ?thesis by (simp add: cinv_def pending_def eff_def)
qed

lemma pending_fin:
  assumes "pending g a h st" "eff g a st st' e q h'" "line_ok a e (tl q) h'" "tl q = tl (req_queue a st)"
  shows "fin g a st'"
proof -
  have "queue_part a (req_queue a st) h" using assms(1) by (simp add: pending_def line_ok_def)
  then show ?thesis using assms by (simp add: fin_def pending_def eff_def lok_def queue_part_def)
qed

lemma pending_step:
  assumes "pending g a h st" "eff g a st st' e q h'" "line_ok a e q h"
  shows "pending g a h st'"
  using assms by (simp add: pending_def eff_def lok_def)

lemma pending_lookup:
  assumes "lookup_entry a m st = Inr (r, st1)" "pending g a h st" "a \<noteq> INVALID_ADDRESS"
  shows "pending g a h st1" "req_queue a st1 = req_queue a st" "gh g st1 a = gh g st a"
proof -
  note c = pending_line [OF assms(2)]
  have "pending g a h st1 \<and> req_queue a st1 = req_queue a st \<and> gh g st1 a = gh g st a"
  proof (cases r)
    case None
    note l = lookup_None [OF assms(1) [unfolded None] conjunct1 [OF c] assms(3)]
    show ?thesis using pending_step [OF assms(2) l(1)] eff_self [OF l(1) [of g]] l(2) c by simp
  next
    case (Some ref)
    from lookup_Some(1) [OF assms(1) [unfolded Some] conjunct1 [OF c] assms(3), where g = g] obtain e
      where e: "eff g a st st1 (Some e) (req_queue a st) (gh g st a)" "case sdir st a of None \<Rightarrow> fresh_entry e | Some e0 \<Rightarrow> e = e0"
      by blast
    then show ?thesis using pending_step [OF assms(2) e(1)] line_ok_looked_up c eff_self by blast
  qed
  then show "pending g a h st1" "req_queue a st1 = req_queue a st" "gh g st1 a = gh g st a" by auto
qed

lemma pending_start:
  assumes "cinv g st" "m_sent st = []" "g' = received_msg c msg g" "a = m_msg_address msg"
  shows "pending g' a (g a) st" "gh g' st a = received_line (m_msg_type msg) c (g a)"
proof -
  show "gh g' st a = received_line (m_msg_type msg) c (g a)" using assms by (simp add: gh_def received_msg_def)
  have "lok g b st" for b using assms(1) by (simp add: cinv_def)
  moreover have "gh g' st b = gh g st b" if "b \<noteq> a" for b using assms that by (simp add: gh_def received_msg_def)
  moreover have "gh g st a = g a" using assms by (simp add: gh_def)
  ultimately show "pending g' a (g a) st"
    using assms(1) unfolding pending_def lok_def by (metis cinv_def)
qed

end
