(* ===== verification/Directory_Replies.thy ===== *)
theory Directory_Replies
  imports Directory_Delivery
begin

text \<open>
  The handlers of the replies: a cache that gives its copy up or writes it back, and data from DRAM.
\<close>

section \<open>Common steps\<close>

lemma reply_entry:
  assumes p: "pending g a h st" and c: "c \<in> holders h" and a: "a \<noteq> INVALID_ADDRESS"
    and lk: "lookup_entry a m st = Inr (Some ref, st1)" and rd: "read_entry ref st1 = Inr e"
  shows "ref_entry ref (m_dram_directory_cache st1) = Some e \<and> m_address e = a \<and> sdir st1 a = Some e \<and>
    pending g a h st1 \<and> req_queue a st1 = req_queue a st \<and> gh g st1 a = gh g st a \<and> line_ok a (Some e) (req_queue a st) h"
proof -
  note l = pending_line [OF p]
  have "sdir st a \<noteq> None" using l c by (auto simp: line_ok_def entry_part_def)
  then obtain x where x: "sdir st a = Some x" by auto
  note hit = lookup_hit [OF lk conjunct1 [OF l] x]
  have "e = x" using rd hit(2) by (simp add: read_entry_eq)
  with hit x l pending_lookup [OF lk p a] eff_self [OF hit(1)] show ?thesis by simp
qed

lemma reply_write:
  assumes p: "pending g a h st" and a: "a \<noteq> INVALID_ADDRESS" and ref: "ref_entry ref (m_dram_directory_cache st) = Some e" "m_address e = a"
    and w: "write_entry ref e' st = Inr st'" and e': "m_address e' = a" and l: "line_ok a (Some e') (req_queue a st) (gh g st a)"
  shows "cinv g st' \<and> sdir st' a = Some e' \<and> req_queue a st' = req_queue a st \<and> gh g st' a = gh g st a \<and>
    ref_entry ref (m_dram_directory_cache st') = Some e'"
proof -
  note eff = write_entry_eff [OF w conjunct1 [OF pending_line [OF p]] ref e' a]
  show ?thesis using pending_eff [OF p eff(1) l] eff_self [OF eff(1)] eff(2) by auto
qed

lemma reply_times:
  assumes inv: "cinv g st" and q: "req_queue a st = r # rs"
  shows "\<exists>r'. same_req r r' \<and> cinv g (update_times a st) \<and> req_queue a (update_times a st) = r' # rs \<and>
    sdir (update_times a st) a = sdir st a \<and> gh g (update_times a st) a = gh g st a \<and>
    m_dram_directory_cache (update_times a st) = m_dram_directory_cache st"
proof -
  from update_times_eff(1) [OF q, of g] obtain r' where r': "same_req r r'"
    and eff: "eff g a st (update_times a st) (sdir st a) (r' # rs) (gh g st a)" by blast
  have "line_ok a (sdir st a) (r' # rs) (gh g st a)"
    using line_ok_front_req r' conjunct2 [OF cinv_line [OF inv, of a, unfolded q]] by blast
  from cinv_eff [OF inv eff this] eff_self [OF eff] r' update_times_eff(2) [OF q] show ?thesis by blast
qed

lemma rewrite_entry:
  assumes inv: "cinv g st" and ref: "ref_entry ref (m_dram_directory_cache st) = Some e" "m_address e = a" and s: "sdir st a = Some e"
    and w: "write_entry ref e st = Inr st'"
  shows "cinv g st'" "req_queue a st' = req_queue a st"
proof -
  note l = cinv_line [OF inv, of a]
  note eff = write_entry_eff(1) [OF w conjunct1 [OF l] ref ref(2) cinv_no_address [OF inv s], where g = g]
  show "cinv g st'" by (rule cinv_eff [OF inv eff]) (use l s in simp)
  show "req_queue a st' = req_queue a st" using eff_self [OF eff] by simp
qed

section \<open>A copy is given up\<close>

lemma invalidated_entry_line:
  assumes l: "line_ok a (Some e) q h" and c: "c \<in> holders h" and i: "invalidated_entry c e = Inr e'"
  shows "line_ok a (Some e') q (received_line INV_REP c h)" "m_address e' = m_address e"
    "m_dstate e' = UNCACHED \<longleftrightarrow> sharer_set e' = {}" "m_dstate e' \<noteq> MODIFIED"
proof -
  from i obtain e1 where st: "m_dstate e = SHARED \<or> m_dstate e = EXCLUSIVE" and r: "removeSharer c False e = Inr e1"
    and e': "e' = (let e2 = (if m_forwarder_id e1 = c then e1\<lparr> m_forwarder_id := INVALID_CORE_ID \<rparr> else e1)
        in if getNumSharers e2 = 0 then e2\<lparr> m_dstate := UNCACHED \<rparr> else e2)"
    by (auto simp: invalidated_entry_def Let_def elim!: rbindE split: if_splits)
  note rm = removeSharer_eq_Inr [OF r]
  have sh: "sharer_set e' = sharer_set e - {c}" using rm(3) by (simp add: e' Let_def)
  show "m_address e' = m_address e" using rm(2) by (simp add: e' Let_def same_state_def)
  have d: "m_dstate e' = (if sharer_set e' = {} then UNCACHED else m_dstate e)"
    using rm(2) by (simp add: e' Let_def same_state_def getNumSharers_0)
  then show "m_dstate e' = UNCACHED \<longleftrightarrow> sharer_set e' = {}" "m_dstate e' \<noteq> MODIFIED" using st by auto
  have "sharer_set e' = {}" if "m_dstate e = EXCLUSIVE"
    using sh line_ok_exclusive(1) [OF l _ c] that by (simp add: exclusive_def)
  then show "line_ok a (Some e') q (received_line INV_REP c h)"
    by (intro line_lose [OF l c sh]) (use d st in auto)
qed

lemma resume_invalidated_ok:
  assumes nx: "next_ok g next" and inv: "cinv g st" and a: "a \<noteq> INVALID_ADDRESS"
    and ref: "ref_entry ref (m_dram_directory_cache st) = Some e" "m_address e = a" and line: "sdir st a = Some e" "req_queue a st = q # rs"
    and e: "m_dstate e = UNCACHED \<longleftrightarrow> sharer_set e = {}" "m_dstate e \<noteq> MODIFIED" and c: "c \<notin> holders (gh g st a)"
    and r: "resume_invalidated next c ref e q st = Inr st'"
  shows "cinv g st'"
proof -
  note l = conjunct2 [OF cinv_line [OF inv, of a, unfolded line]]
  have w: "\<not> m_wait_for_data q" if "m_dstate e = UNCACHED" using line_ok_remove(2) [OF l that] .
  consider "req_type q = EX_REQ" | "req_type q = SH_REQ" | "req_type q = UPGRADE_REQ" | "req_type q = NULLIFY_REQ"
    using line_ok_front(2) [OF l] by (auto simp: core_req_def)
  then show ?thesis
  proof cases
    case 1
    with r inv w processExReq_ok [OF nx inv a line(2) 1] show ?thesis by (auto simp: resume_invalidated_def split: if_splits)
  next
    case 2
    show ?thesis
    proof (cases "m_wait_for_data q \<or> m_forwarding_from q \<noteq> INVALID_CORE_ID \<and> c \<noteq> m_forwarding_from q")
      case True
      with r 2 inv show ?thesis by (auto simp: resume_invalidated_def split: if_splits)
    next
      case False
      then have wq: "\<not> m_wait_for_data q" and f: "m_forwarding_from q \<notin> holders (gh g st a)" using c invalid_no_holder [OF l] by auto
      from r 2 False have "processShReqFromL2Cache next q Null_Ptr st = Inr st'" by (auto simp: resume_invalidated_def)
      then show ?thesis
        by (rule processShReq_ok [OF nx inv a line(2) 2 wq, rotated]) (use none_forwards [OF l wq _ f] line in auto)
    qed
  next
    case 3
    have wq: "\<not> m_wait_for_data q" using line_ok_front(4) [OF l] 3 e(2) by (auto simp: waiting_ok_def)
    show ?thesis
    proof (cases "getNumSharers e = 0")
      case True
      with e(1) have "e\<lparr> m_dstate := UNCACHED \<rparr> = e" by (simp add: getNumSharers_0)
      with r 3 True obtain st1 where wr: "write_entry ref e st = Inr st1" and p: "processUpgradeReqFromL2Cache next q Null_Ptr st1 = Inr st'"
        by (auto simp: resume_invalidated_def elim!: rbindE)
      note z = rewrite_entry [OF inv ref line(1) wr]
      show ?thesis by (rule processUpgradeReq_ok [OF nx z(1) a _ 3 wq p]) (use z(2) line in simp)
    next
      case False
      with r 3 inv processUpgradeReq_ok [OF nx inv a line(2) 3 wq] show ?thesis
        by (auto simp: resume_invalidated_def elim!: rbindE split: if_splits)
    qed
  next
    case 4
    with r inv processNullifyReq_ok(1) [OF nx inv a line(2) 4] show ?thesis by (auto simp: resume_invalidated_def split: if_splits)
  qed
qed

lemma received_holders: "typ = INV_REP \<or> typ = FLUSH_REP \<Longrightarrow> holders (received_line typ c h) = holders h - {c}"
  by (auto simp: received_line_def)

lemma processInvRep_ok:
  assumes nx: "next_ok g next" and p: "pending g a h st" and a: "a \<noteq> INVALID_ADDRESS" "m_msg_address msg = a"
    and gh: "gh g st a = received_line INV_REP c h" and c: "c \<in> holders h"
    and r: "processInvRepFromL2Cache next c msg st = Inr st'"
  shows "cinv g st'"
proof -
  from r obtain ref st1 e e' st2 where lk: "lookup_entry a False st = Inr (Some ref, st1)" and rd: "read_entry ref st1 = Inr e"
    and i: "invalidated_entry c e = Inr e'" and w: "write_entry ref e' st1 = Inr st2"
    and rest: "(if req_queue a st2 = [] then Inr st2
      else rbind (queue_front a (update_times a st2)) (\<lambda>req. resume_invalidated next c ref e' req (update_times a st2))) = Inr st'"
    unfolding processInvRepFromL2Cache_def Let_def a(2)
    by (elim lookup_someE rbindE [where m = "read_entry r s" for r s] rbindE [where m = "invalidated_entry c r" for r]
        rbindE [where m = "write_entry r x s" for r x s]) (rule that)
  note z = reply_entry [OF p c a(1) lk rd]
  from z have l: "line_ok a (Some e) (req_queue a st1) h" and ad: "m_address e = a"
    and pn: "pending g a h st1" and ref: "ref_entry ref (m_dram_directory_cache st1) = Some e" and gh1: "gh g st1 a = received_line INV_REP c h"
    using gh by auto
  note e' = invalidated_entry_line [OF l c i]
  note y = reply_write [OF pn a(1) ref ad w, unfolded gh1 e'(2) ad, OF refl e'(1)]
  show ?thesis
  proof (cases "req_queue a st2")
    case Nil
    then show ?thesis using rest y by simp
  next
    case (Cons q rs)
    from reply_times [OF conjunct1 [OF y] Cons] obtain q' where
      t: "cinv g (update_times a st2)" "req_queue a (update_times a st2) = q' # rs" "sdir (update_times a st2) a = Some e'"
      "gh g (update_times a st2) a = received_line INV_REP c h" "m_dram_directory_cache (update_times a st2) = m_dram_directory_cache st2"
      using y by auto
    have "queue_front a (update_times a st2) = Inr q'" using t(2) by (simp add: queue_front_eq)
    with rest Cons have "resume_invalidated next c ref e' q' (update_times a st2) = Inr st'" by simp
    then show ?thesis
      by (intro resume_invalidated_ok [OF nx t(1) a(1) _ _ t(3,2) e'(3,4)]) (use t y e'(2) ad in \<open>auto simp: received_holders\<close>)
  qed
qed

section \<open>A copy is given up with its data\<close>

lemma sendDataToDram_ok:
  assumes inv: "cinv g st" and s: "sendDataToDram a c b st = Inr st'"
  shows "cinv g st'" "req_queue a st' = req_queue a st" "sdir st' a = sdir st a" "gh g st' a = gh g st a"
proof -
  from s obtain node where "sendMsg DRAM_WRITE_REQ mem_component.DRAM c node a b (m_dd_block_size st) UNKNOWN st = Inr st'"
    unfolding sendDataToDram_def by (elim rbindE)
  note eff = sendMsg_eff(1) [OF this, of g]
  show "cinv g st'" by (rule cinv_eff [OF inv eff]) (use cinv_line [OF inv, of a] in simp)
  show "req_queue a st' = req_queue a st" "sdir st' a = sdir st a" "gh g st' a = gh g st a" using eff_self [OF eff] by auto
qed

lemma flushed_entry_line:
  assumes l: "line_ok a (Some e) q h" and c: "c \<in> holders h" and i: "flushed_entry c e = Inr e'"
  shows "line_ok a (Some e') q (received_line FLUSH_REP c h)" "m_address e' = m_address e"
    "sharer_set e' = sharer_set e - {c}" "sharer_set e' = {} \<Longrightarrow> m_dstate e' = UNCACHED"
proof -
  have "hasSharer c e = Inr True" using i by (cases "hasSharer c e") (auto simp: flushed_entry_def split: if_splits)
  with i have "rbind (removeSharer c False e) (\<lambda>e1.
       rbind (setOwner INVALID_CORE_ID (e1\<lparr> m_forwarder_id := INVALID_CORE_ID \<rparr>)) (\<lambda>e2.
       if getNumSharers e2 = 0 then Inr (e2\<lparr> m_dstate := UNCACHED \<rparr>)
       else if m_dstate e2 \<noteq> SHARED then Inl Assert_Failed else Inr e2)) = Inr e'" by (simp add: flushed_entry_def)
  then obtain e1 e2 where r: "removeSharer c False e = Inr e1"
    and o: "setOwner INVALID_CORE_ID (e1\<lparr> m_forwarder_id := INVALID_CORE_ID \<rparr>) = Inr e2"
    and e': "(if getNumSharers e2 = 0 then Inr (e2\<lparr> m_dstate := UNCACHED \<rparr>)
       else if m_dstate e2 \<noteq> SHARED then Inl Assert_Failed else Inr e2) = Inr e'"
    by (elim rbindE) (rule that)
  note rm = removeSharer_eq_Inr [OF r]
  have e2: "e2 = e1\<lparr> m_forwarder_id := INVALID_CORE_ID, m_owner_id := INVALID_CORE_ID \<rparr>" using setOwner_eq_Inr [OF o] by simp
  have s2: "sharer_set e2 = sharer_set e - {c}" "m_address e2 = m_address e" "m_dstate e2 = m_dstate e"
    using rm(2,3) unfolding e2 by (simp_all add: same_state_def)
  have k: "e' = (if sharer_set e2 = {} then e2\<lparr> m_dstate := UNCACHED \<rparr> else e2)" "sharer_set e2 = {} \<or> m_dstate e2 = SHARED"
    using e' unfolding getNumSharers_0 by (simp_all split: if_splits)
  then show sh: "sharer_set e' = sharer_set e - {c}" and "m_address e' = m_address e" using s2(1,2) by simp_all
  have "sharer_set e' = sharer_set e2" using k(1) by simp
  then have d: "if sharer_set e' = {} then m_dstate e' = UNCACHED else m_dstate e' = m_dstate e \<and> m_dstate e = SHARED"
    using k s2(3) by auto
  then show "sharer_set e' = {} \<Longrightarrow> m_dstate e' = UNCACHED" by simp
  show "line_ok a (Some e') q (received_line FLUSH_REP c h)" by (rule line_lose [OF l c sh d]) simp
qed

text \<open>Only a request that does not wait for DRAM sees a flush; a read sees one of the last copy.\<close>

lemma flush_front:
  assumes l: "line_ok a (Some e) (q # rs) h" and c: "c \<in> holders h" "c \<in> writers h \<or> c \<in> asked_flush h"
  shows "\<not> m_wait_for_data q" "req_type q = SH_REQ \<Longrightarrow> holders h = {c}"
proof -
  have wr: "holders h = {c}" "sharer_set e = {c}" if "c \<in> writers h" using line_ok_exclusive [OF l _ c(1)] line_ok_entry(4) [OF l] that by auto
  show w: "\<not> m_wait_for_data q"
  proof
    assume "m_wait_for_data q"
    from line_ok_front(4) [OF l this] have "req_core q \<in> sharer_set e" "req_core q \<notin> holders h" "c \<notin> asked_flush h"
      using c(1) by (auto simp: waiting_ok_def none_asked_def)
    then show False using c(2) wr by auto
  qed
  show "holders h = {c}" if "req_type q = SH_REQ"
    using line_ok_front(5) [OF l w] c that wr(1) by (auto simp: asked_ok_def)
qed

lemma resume_flushed_ok:
  assumes nx: "next_ok g next" and inv: "cinv g st" and a: "a \<noteq> INVALID_ADDRESS" "m_msg_address msg = a"
    and ref: "ref_entry ref (m_dram_directory_cache st) = Some e" "m_address e = a" and line: "sdir st a = Some e" "req_queue a st = q # rs"
    and e: "sharer_set e = {} \<Longrightarrow> m_dstate e = UNCACHED"
    and w: "\<not> m_wait_for_data q" and sh: "req_type q = SH_REQ \<Longrightarrow> holders (gh g st a) = {}"
    and r: "resume_flushed next msg ref e q st = Inr st'"
  shows "cinv g st'"
proof -
  note l = conjunct2 [OF cinv_line [OF inv, of a, unfolded line]]
  consider "req_type q = EX_REQ" | "req_type q = SH_REQ" | "req_type q = UPGRADE_REQ" | "req_type q = NULLIFY_REQ"
    using line_ok_front(2) [OF l] by (auto simp: core_req_def)
  then show ?thesis
  proof cases
    case 1
    with r processExReq_ok [OF nx inv a(1) line(2) 1 w] show ?thesis by (simp add: resume_flushed_def)
  next
    case 2
    with r obtain st1 where s: "sendDataToDram a (m_requester msg) (m_data_buf msg) st = Inr st1"
      and p: "processShReqFromL2Cache next q (m_data_buf msg) st1 = Inr st'" by (auto simp: resume_flushed_def a(2) elim!: rbindE)
    note z = sendDataToDram_ok [OF inv s]
    show ?thesis
      by (rule processShReq_ok [OF nx z(1) a(1) _ 2 w _ p]) (use z line sh [OF 2] in simp_all)
  next
    case 3
    show ?thesis
    proof (cases "getNumSharers e = 0")
      case True
      with e have "e\<lparr> m_dstate := UNCACHED \<rparr> = e" by (simp add: getNumSharers_0)
      with r 3 True obtain st1 where wr: "write_entry ref e st = Inr st1" and p: "processUpgradeReqFromL2Cache next q (m_data_buf msg) st1 = Inr st'"
        by (auto simp: resume_flushed_def elim!: rbindE)
      note z = rewrite_entry [OF inv ref line(1) wr]
      show ?thesis by (rule processUpgradeReq_ok [OF nx z(1) a(1) _ 3 w p]) (use z(2) line in simp)
    next
      case False
      let ?f = "\<lambda>q. q\<lparr> m_shmem_msg := (m_shmem_msg q)\<lparr> m_data_buf := m_data_buf msg \<rparr> \<rparr>"
      from r 3 False have "st' = upd_queue (upd_front a ?f) st" by (simp add: resume_flushed_def a(2))
      moreover have "same_req q (?f q)" by (simp add: same_req_def req_type_def req_core_def req_addr_def)
      ultimately show ?thesis
        using cinv_eff [OF inv upd_front_eff [OF line(2), where f = ?f]] line_ok_front_req [OF l] line(1) by simp
    qed
  next
    case 4
    with r obtain st1 where s: "sendDataToDram a (m_requester msg) (m_data_buf msg) st = Inr st1"
      and p: "processNullifyReq next q st1 = Inr st'" by (auto simp: resume_flushed_def a(2) elim!: rbindE)
    note z = sendDataToDram_ok [OF inv s]
    show ?thesis by (rule processNullifyReq_ok(1) [OF nx z(1) a(1) _ 4 p]) (use z line in simp)
  qed
qed

lemma processFlushRep_ok:
  assumes nx: "next_ok g next" and p: "pending g a h st" and a: "a \<noteq> INVALID_ADDRESS" "m_msg_address msg = a"
    and gh: "gh g st a = received_line FLUSH_REP c h" and c: "c \<in> holders h" "c \<in> writers h \<or> c \<in> asked_flush h"
    and r: "processFlushRepFromL2Cache next c msg st = Inr st'"
  shows "cinv g st'"
proof -
  from r obtain ref st1 e e' st2 where lk: "lookup_entry a False st = Inr (Some ref, st1)" and rd: "read_entry ref st1 = Inr e"
    and i: "flushed_entry c e = Inr e'" and w: "write_entry ref e' st1 = Inr st2"
    and rest: "(if req_queue a st2 = [] then sendDataToDram a (m_requester msg) (m_data_buf msg) st2
      else rbind (queue_front a (update_times a st2)) (\<lambda>req. resume_flushed next msg ref e' req (update_times a st2))) = Inr st'"
    unfolding processFlushRepFromL2Cache_def Let_def a(2)
    by (elim lookup_someE rbindE [where m = "read_entry r s" for r s] rbindE [where m = "flushed_entry c r" for r]
        rbindE [where m = "write_entry r x s" for r x s]) (rule that)
  note z = reply_entry [OF p c(1) a(1) lk rd]
  from z have l: "line_ok a (Some e) (req_queue a st1) h" and ad: "m_address e = a"
    and pn: "pending g a h st1" and ref: "ref_entry ref (m_dram_directory_cache st1) = Some e" and gh1: "gh g st1 a = received_line FLUSH_REP c h"
    using gh by auto
  note e' = flushed_entry_line [OF l c(1) i]
  note y = reply_write [OF pn a(1) ref ad w, unfolded gh1 e'(2) ad, OF refl e'(1)]
  show ?thesis
  proof (cases "req_queue a st2")
    case Nil
    then show ?thesis using rest sendDataToDram_ok(1) [OF conjunct1 [OF y]] by simp
  next
    case (Cons q rs)
    then have l': "line_ok a (Some e) (q # rs) h" using l y by simp
    note fr = flush_front [OF l' c]
    from reply_times [OF conjunct1 [OF y] Cons] obtain q' where q': "same_req q q'" and
      t: "cinv g (update_times a st2)" "req_queue a (update_times a st2) = q' # rs" "sdir (update_times a st2) a = Some e'"
      "gh g (update_times a st2) a = received_line FLUSH_REP c h" "m_dram_directory_cache (update_times a st2) = m_dram_directory_cache st2"
      using y by auto
    have "queue_front a (update_times a st2) = Inr q'" using t(2) by (simp add: queue_front_eq)
    with rest Cons have r': "resume_flushed next msg ref e' q' (update_times a st2) = Inr st'" by simp
    have w': "\<not> m_wait_for_data q'" and sh: "req_type q' = SH_REQ \<Longrightarrow> holders (gh g (update_times a st2) a) = {}"
      using fr q' t(4) by (auto simp: same_req_def received_holders)
    have rf: "ref_entry ref (m_dram_directory_cache (update_times a st2)) = Some e'" "m_address e' = a" using t(5) y e'(2) ad by auto
    show ?thesis by (rule resume_flushed_ok [OF nx t(1) a rf t(3,2) e'(4) w' sh r'])
  qed
qed

section \<open>A copy is written back\<close>

lemma processWbRep_ok:
  assumes nx: "next_ok g next" and p: "pending g a h st" and a: "a \<noteq> INVALID_ADDRESS" "m_msg_address msg = a"
    and gh: "gh g st a = received_line WB_REP c h" and c: "c \<in> holders h" "c \<in> asked_wb h"
    and r: "processWbRepFromL2Cache next c msg st = Inr st'"
  shows "cinv g st'"
proof -
  from r obtain ref st1 e has where lk: "lookup_entry a False st = Inr (Some ref, st1)" and rd: "read_entry ref st1 = Inr e"
    and h: "hasSharer c e = Inr has"
    and rest0: "(if \<not> has then Inl Assert_Failed
          else
            rbind (setOwner INVALID_CORE_ID e) (\<lambda>e1.
            rbind (write_entry ref (e1\<lparr> m_dstate := SHARED \<rparr>) st1) (\<lambda>st2.
              if req_queue a st2 = [] then Inl Log_Error
              else
                rbind (queue_front a (update_times a st2)) (\<lambda>req.
                  if req_type req \<noteq> SH_REQ then Inl Assert_Failed
                  else processShReqFromL2Cache next req (m_data_buf msg) (update_times a st2))))) = Inr st'"
    unfolding processWbRepFromL2Cache_def Let_def a(2)
    by (elim lookup_someE rbindE [where m = "read_entry r s" for r s] rbindE [where m = "hasSharer r s" for r s]) (rule that)
  then obtain e1 st2 where o: "setOwner INVALID_CORE_ID e = Inr e1" and w: "write_entry ref (e1\<lparr> m_dstate := SHARED \<rparr>) st1 = Inr st2"
    and ne: "req_queue a st2 \<noteq> []"
    and rest: "rbind (queue_front a (update_times a st2)) (\<lambda>req.
                  if req_type req \<noteq> SH_REQ then Inl Assert_Failed
                  else processShReqFromL2Cache next req (m_data_buf msg) (update_times a st2)) = Inr st'"
    by (cases has) (auto elim!: rbindE [where m = "setOwner x y" for x y] rbindE [where m = "write_entry r x s" for r x s] split: if_splits)
  note z = reply_entry [OF p c(1) a(1) lk rd]
  from z have l: "line_ok a (Some e) (req_queue a st1) h" and ad: "m_address e = a"
    and pn: "pending g a h st1" and ref: "ref_entry ref (m_dram_directory_cache st1) = Some e" and gh1: "gh g st1 a = received_line WB_REP c h"
    using gh by auto
  let ?e = "e1\<lparr> m_dstate := SHARED \<rparr>"
  have e1: "e1 = e\<lparr> m_owner_id := INVALID_CORE_ID \<rparr>" using setOwner_eq_Inr [OF o] by simp
  have "req_queue a st1 = req_queue a st2" using w by (auto simp: write_entry_def req_queue_def elim!: rbindE)
  with ne obtain q rs where q: "req_queue a st1 = q # rs" "req_queue a st2 = q # rs" by (cases "req_queue a st2") auto
  note wb = line_write_back [OF l [unfolded q(1)] c(2,1), of ?e, simplified e1, simplified]
  have lw: "line_ok a (Some ?e) (req_queue a st1) (gh g st1 a)" using wb(3) q(1) gh1 e1 by simp
  have y: "cinv g st2" "sdir st2 a = Some ?e" "gh g st2 a = received_line WB_REP c h"
    using reply_write [OF pn a(1) ref ad w _ lw] ad e1 gh1 by simp_all
  from reply_times [OF y(1) q(2)] y obtain q' where q': "same_req q q'" and
    t: "cinv g (update_times a st2)" "req_queue a (update_times a st2) = q' # rs"
    "gh g (update_times a st2) a = received_line WB_REP c h" by auto
  have "queue_front a (update_times a st2) = Inr q'" using t(2) by (simp add: queue_front_eq)
  with rest have ty: "req_type q' = SH_REQ" and sh: "processShReqFromL2Cache next q' (m_data_buf msg) (update_times a st2) = Inr st'"
    by (auto split: if_splits)
  have "\<not> m_wait_for_data q'" using wb(1) q' by (simp add: same_req_def)
  then show ?thesis
    by (rule processShReq_ok [OF nx t(1) a(1) t(2) ty _ _ sh]) (use wb(4) t(3) in \<open>simp add: none_asked_def\<close>)
qed

section \<open>Data from DRAM\<close>

lemma processDRAMReply_ok:
  assumes nx: "next_ok g next" and p: "pending g a h st" and a: "a \<noteq> INVALID_ADDRESS" "m_msg_address msg = a"
    and gh: "gh g st a = received_line DRAM_READ_REP c h" and d: "dram_reads h \<noteq> 0"
    and r: "processDRAMReply next c msg st = Inr st'"
  shows "cinv g st'"
proof -
  note l = conjunct2 [OF pending_line [OF p]]
  from d l obtain q rs where q: "req_queue a st = q # rs" and w: "m_wait_for_data q"
    by (auto simp: line_ok_def front_part_def split: list.splits if_splits)
  note l = l [unfolded q]
  from line_ok_front(4) [OF l w] obtain e where e: "sdir st a = Some e" "req_core q \<in> sharer_set e" "none_asked h" "dram_reads h = 1"
    and k: "if req_type q = SH_REQ then m_dstate e = SHARED \<or> m_dstate e = EXCLUSIVE else core_req q \<and> m_dstate e = MODIFIED"
    by (auto simp: waiting_ok_def)
  have qf: "queue_front a st = Inr q" using q by (simp add: queue_front_eq)
  have ne: "(req_queue a st = []) = False" using q by simp
  note r' = r [unfolded processDRAMReply_def Let_def a(2) qf rbind_Inr ne if_False]
  from r' obtain ref st1 e1 reply whr st2 where lk: "lookup_entry a False st = Inr (Some ref, st1)" and rd: "read_entry ref st1 = Inr e1"
    and ty: "(case req_type q of
                     SH_REQ \<Rightarrow>
                       if m_dstate e1 \<noteq> SHARED \<and> m_dstate e1 \<noteq> EXCLUSIVE then Inl Assert_Failed
                       else Inr (if m_dstate e1 = EXCLUSIVE then EX_REP else SH_REP)
                   | EX_REQ \<Rightarrow> if m_dstate e1 \<noteq> MODIFIED then Inl Assert_Failed else Inr EX_REP
                   | UPGRADE_REQ \<Rightarrow> Inr EX_REP
                   | _ \<Rightarrow> Inl Log_Error) = Inr reply"
    and s: "sendMsg reply L2_CACHE (req_core q) (req_core q) a (m_data_buf msg) (m_dd_block_size st1) whr st1 = Inr st2"
    and n: "next a st2 = Inr st'"
    by (elim lookup_someE rbindE) (rule that)
  note hit = lookup_hit [OF lk conjunct1 [OF pending_line [OF p]] e(1)]
  have e1: "e1 = e" using rd hit(2) by (simp add: read_entry_eq)
  note v = eff_self [OF hit(1) [where g = g]]
  let ?h = "received_line DRAM_READ_REP c h"
  have eff: "eff g a st st2 (Some e) (q # rs) (sent_line reply (req_core q) ?h)"
    using eff_trans [OF hit(1) [where g = g] sendMsg_eff(1) [OF s, where g = g]] v q gh by simp
  have h: "?h = h\<lparr> dram_reads := 0 \<rparr>" using e(4) by (simp add: received_line_def)
  have "line_ok a (Some e) rs (sent_line reply (req_core q) ?h)"
  proof (rule line_grant)
    show "queue_part a (q # rs) ?h" using l by (simp add: line_ok_def queue_part_def h)
    show "entry_part (Some e) ?h" using l e(1) by (simp add: line_ok_def entry_part_def h)
    show "core_req q" using k by (auto simp: core_req_def split: if_splits)
    show "reply = SH_REP \<or> (reply = EX_REP \<or> reply = UPGRADE_REP) \<and> exclusive e"
      using ty k e1 by (auto simp: exclusive_def split: msg_t.splits if_splits)
  qed (use e in \<open>auto simp: none_asked_def h\<close>)
  then have "fin g a st2" using pending_fin [OF p eff] q by simp
  then show ?thesis using next_fin [OF nx a(1) n] by simp
qed

end
