(* ===== verification/Directory_System.thy ===== *)
theory Directory_System
  imports Directory_Replies
begin

text \<open>
  The directory together with its environment: the last-level caches and DRAM send messages that
  follow from what the directory has sent them, the directory answers. \<open>dir_reach\<close> are the states
  such an exchange can lead to.
\<close>

section \<open>Delivery of a message\<close>

text \<open>What the caches and DRAM may send, given the messages so far: a core has one request for a
  line at a time, and none to read or write a line that it holds; a cache gives up or writes back a
  line only while it holds it, writes back only when asked, and sends the data of a line along only
  when it may write it or when it was asked to; DRAM answers reads.\<close>

definition legal_msg :: "ghost \<Rightarrow> core_id \<Rightarrow> shmem_msg \<Rightarrow> bool" where
  "legal_msg g c msg \<longleftrightarrow> m_msg_address msg \<noteq> INVALID_ADDRESS \<and>
     (let h = g (m_msg_address msg) in
      case m_msg_type msg of
        EX_REQ \<Rightarrow> m_requester msg = c \<and> c \<notin> requesting h \<and> c \<notin> holders h
      | SH_REQ \<Rightarrow> m_requester msg = c \<and> c \<notin> requesting h \<and> c \<notin> holders h
      | UPGRADE_REQ \<Rightarrow> m_requester msg = c \<and> c \<notin> requesting h
      | INV_REP \<Rightarrow> c \<in> holders h
      | FLUSH_REP \<Rightarrow> c \<in> holders h \<and> (c \<in> writers h \<or> c \<in> asked_flush h)
      | WB_REP \<Rightarrow> c \<in> holders h \<and> c \<in> asked_wb h
      | DRAM_READ_REP \<Rightarrow> dram_reads h \<noteq> 0
      | _ \<Rightarrow> False)"

lemma request_ok:
  assumes nx: "next_ok g next" and p: "pending g a h st" and a: "a \<noteq> INVALID_ADDRESS" "m_msg_address msg = a"
    and gh: "gh g st a = received_line (m_msg_type msg) c h"
    and m: "m_requester msg = c" "c \<notin> requesting h" "m_msg_type msg = EX_REQ \<or> m_msg_type msg = SH_REQ \<Longrightarrow> c \<notin> holders h"
      "m_msg_type msg = EX_REQ \<or> m_msg_type msg = SH_REQ \<or> m_msg_type msg = UPGRADE_REQ"
    and r: "queue_request msg t st = Inr (req, alone, st1)"
  shows "cinv g st1" "req_type req = m_msg_type msg" "alone \<Longrightarrow> req_queue a st1 = [req]"
    "\<not> m_wait_for_data req" "m_forwarding_from req = INVALID_CORE_ID"
proof -
  have req: "req = \<lparr> m_shmem_msg = msg\<lparr> m_where := None \<rparr>, m_time = t, m_wait_for_data = False, m_forwarding_from = INVALID_CORE_ID \<rparr>"
    and st1: "st1 = upd_queue (enqueue a req) st" and al: "alone \<longleftrightarrow> length (req_queue a st1) = 1"
    using r a(2) by (auto simp: queue_request_def ShmemReq_def Let_def rq_size_queue_at req_queue_def split: if_splits)
  have f: "req_type req = m_msg_type msg" "req_core req = c" "req_addr req = a" using m(1) a(2) by (simp_all add: req req_type_def req_core_def req_addr_def)
  show "req_type req = m_msg_type msg" "\<not> m_wait_for_data req" "m_forwarding_from req = INVALID_CORE_ID" using f by (simp_all add: req)
  have q: "req_queue a st1 = req_queue a st @ [req]" by (simp add: st1 upd_queue_def req_queue_def)
  then show "alone \<Longrightarrow> req_queue a st1 = [req]" using al by simp
  have eff: "eff g a st st1 (sdir st a) (req_queue a st @ [req]) (gh g st a)"
    using q by (auto simp: eff_def st1 upd_queue_def req_queue_def sdir_def gh_def store_ok_def)
  have "line_ok a (sdir st a) (req_queue a st @ [req]) (gh g st a)"
    unfolding gh using line_request [OF conjunct2 [OF pending_line [OF p]], of req] f m(2-4)
    by (auto simp: req core_req_def)
  then show "cinv g st1" by (rule pending_eff [OF p eff])
qed

lemma new_request_ok:
  assumes nx: "next_ok g next" and p: "pending g a h st" and a: "a \<noteq> INVALID_ADDRESS" "m_msg_address msg = a"
    and gh: "gh g st a = received_line (m_msg_type msg) c h"
    and m: "m_requester msg = c" "c \<notin> requesting h" "m_msg_type msg = EX_REQ \<or> m_msg_type msg = SH_REQ \<Longrightarrow> c \<notin> holders h"
    and f: "(m_msg_type msg, f) \<in> {(EX_REQ, processExReqFromL2Cache next), (SH_REQ, processShReqFromL2Cache next),
      (UPGRADE_REQ, processUpgradeReqFromL2Cache next)}"
    and r: "rbind (queue_request msg t st) (\<lambda>(req, alone, st2). if alone then f req Null_Ptr st2 else Inr st2) = Inr st'"
  shows "cinv g st'"
proof -
  from r obtain req alone st2 where q: "queue_request msg t st = Inr (req, alone, st2)"
    and rest: "(if alone then f req Null_Ptr st2 else Inr st2) = Inr st'" by (elim rbind3E)
  note z = request_ok [OF nx p a gh m _ q]
  have ty: "m_msg_type msg = EX_REQ \<or> m_msg_type msg = SH_REQ \<or> m_msg_type msg = UPGRADE_REQ" using f by auto
  show ?thesis
  proof (cases alone)
    case True
    show ?thesis
      by (rule start_request_ok [OF nx z(1) a(1) z(3)]) (use z(2,4,5) True rest f ty in auto)
  qed (use rest z(1) ty in auto)
qed

lemma handleMsgFromL2Cache_ok:
  assumes p: "pending g a h st" and a: "a = m_msg_address msg" and gh: "gh g st a = received_line (m_msg_type msg) c h"
    and h: "h = g0 a" and m: "legal_msg g0 c msg" and r: "handleMsgFromL2Cache c msg st = Inr st'"
  shows "cinv g st'"
proof -
  have a0: "a \<noteq> INVALID_ADDRESS" "m_msg_address msg = a" using m a by (simp_all add: legal_msg_def)
  let ?next = "processNext a st"
  have nx: "next_ok g ?next" unfolding processNext_def by (rule next_request_ok)
  obtain x st1 where lk: "lookup_entry a True st = Inr (x, st1)"
    using r unfolding handleMsgFromL2Cache_def Let_def a0(2) by (elim rbind2E)
  note rest = r [unfolded handleMsgFromL2Cache_def Let_def a0(2) lk rbind_Inr prod.case]
  note p1 = pending_lookup [OF lk p a0(1)]
  note gh1 = trans [OF p1(3) gh]
  show ?thesis
  proof (cases "m_msg_type msg")
    case EX_REQ
    then show ?thesis
      by (intro new_request_ok [OF nx p1(1) a0 gh1, where f = "processExReqFromL2Cache ?next"])
        (use m rest a h in \<open>auto simp: legal_msg_def Let_def\<close>)
  next
    case SH_REQ
    then show ?thesis
      by (intro new_request_ok [OF nx p1(1) a0 gh1, where f = "processShReqFromL2Cache ?next"])
        (use m rest a h in \<open>auto simp: legal_msg_def Let_def\<close>)
  next
    case UPGRADE_REQ
    then show ?thesis
      by (intro new_request_ok [OF nx p1(1) a0 gh1, where f = "processUpgradeReqFromL2Cache ?next"])
        (use m rest a h in \<open>auto simp: legal_msg_def Let_def\<close>)
  next
    case INV_REP
    show ?thesis by (rule processInvRep_ok [OF nx p1(1) a0 gh1 [unfolded INV_REP]]) (use INV_REP m rest a h in \<open>auto simp: legal_msg_def Let_def\<close>)
  next
    case FLUSH_REP
    show ?thesis
      by (rule processFlushRep_ok [OF nx p1(1) a0 gh1 [unfolded FLUSH_REP]]) (use FLUSH_REP m rest a h in \<open>auto simp: legal_msg_def Let_def\<close>)
  next
    case WB_REP
    show ?thesis by (rule processWbRep_ok [OF nx p1(1) a0 gh1 [unfolded WB_REP]]) (use WB_REP m rest a h in \<open>auto simp: legal_msg_def Let_def\<close>)
  qed (use rest in auto)
qed

lemma handleMsgFromDRAM_ok:
  assumes p: "pending g a h st" and a: "a = m_msg_address msg" and gh: "gh g st a = received_line (m_msg_type msg) c h"
    and h: "h = g0 a" and m: "legal_msg g0 c msg" and r: "handleMsgFromDRAM c msg st = Inr st'"
  shows "cinv g st'"
proof -
  have a0: "a \<noteq> INVALID_ADDRESS" "m_msg_address msg = a" using m a by (simp_all add: legal_msg_def)
  have ty: "m_msg_type msg = DRAM_READ_REP" and r': "processDRAMReply (processNext a st) c msg st = Inr st'"
    using r a by (auto simp: handleMsgFromDRAM_def split: msg_t.splits)
  have nx: "next_ok g (processNext a st)" unfolding processNext_def by (rule next_request_ok)
  show ?thesis by (rule processDRAMReply_ok [OF nx p a0 gh [unfolded ty] _ r']) (use ty m a h in \<open>simp add: legal_msg_def Let_def\<close>)
qed

lemma drop_buffers_cinv:
  assumes "cinv g st"
  shows "cinv g (upd_queue (\<lambda>q a. map_option drop_buffers (q a)) st)"
proof -
  let ?st = "upd_queue (\<lambda>q a. map_option drop_buffers (q a)) st"
  have q: "req_queue b ?st = drop_buffers (req_queue b st)" for b
    by (cases "m_dram_directory_req_queue_list st b") (simp_all add: upd_queue_def req_queue_def queue_at_def drop_buffers_def)
  have "list_all2 same_req l (drop_buffers l)" for l
    unfolding drop_buffers_def list_all2_map2
    by (rule list.rel_refl) (auto simp: same_req_def req_type_def req_core_def req_addr_def split: data_ptr.splits)
  then have "line_ok b (sdir st b) (req_queue b ?st) (gh g st b)" for b
    using line_ok_same_req cinv_line [OF assms, of b] q by metis
  moreover have "sdir ?st = sdir st" "gh g ?st = gh g st" by (simp_all add: upd_queue_def sdir_def gh_def)
  moreover have "store_ok ?st"
    using assms by (auto simp: cinv_def store_ok_def upd_queue_def rq_ok_def drop_buffers_def)
  ultimately show ?thesis by (simp add: cinv_def lok_def)
qed

lemma handleMsgFromNetwork_ok:
  assumes inv: "cinv g st" "m_sent st = []" and m: "legal_msg g c msg" and r: "handleMsgFromNetwork c t msg st = Inr st'"
  shows "cinv (received_msg c msg g) st'"
proof -
  let ?st = "st\<lparr> m_elapsed := t \<rparr>" and ?a = "m_msg_address msg" and ?g = "received_msg c msg g"
  from r obtain st2 where h: "(case m_sender_mem_component msg of
               LAST_LEVEL_CACHE \<Rightarrow> handleMsgFromL2Cache c msg ?st
             | mem_component.DRAM \<Rightarrow> handleMsgFromDRAM c msg ?st
             | _ \<Rightarrow> Inl Log_Error) = Inr st2" and st': "st' = upd_queue (\<lambda>q a. map_option drop_buffers (q a)) st2"
    unfolding handleMsgFromNetwork_def Let_def by (elim rbindE) simp
  have "cinv g ?st" using cinv_eff [OF inv(1) same_view_eff [of ?st st g ?a]] cinv_line [OF inv(1)] by simp
  note p = pending_start [OF this _ refl refl, of c msg, simplified inv(2)]
  have "cinv ?g st2"
  proof (cases "m_sender_mem_component msg = mem_component.DRAM")
    case True
    with h show ?thesis using handleMsgFromDRAM_ok [OF p(1) refl p(2) refl m] inv(2) by simp
  next
    case False
    with h have "handleMsgFromL2Cache c msg ?st = Inr st2" by (auto split: mem_component.splits)
    then show ?thesis using handleMsgFromL2Cache_ok [OF p(1) refl p(2) refl m] inv(2) by simp
  qed
  then show ?thesis unfolding st' by (rule drop_buffers_cinv)
qed

section \<open>Reachable states\<close>

text \<open>The messages of a step leave with the network; the ghost keeps what they tell.\<close>

inductive dir_step :: "dir_cntlr \<times> ghost \<Rightarrow> dir_cntlr \<times> ghost \<Rightarrow> bool" where
  deliver: "legal_msg g c msg \<Longrightarrow> handleMsgFromNetwork c t msg (st\<lparr> m_sent := [] \<rparr>) = Inr st' \<Longrightarrow>
    dir_step (st, g) (st', fold sent_packet (m_sent st') (received_msg c msg g))"

inductive dir_reach :: "dir_cntlr \<Rightarrow> dir_cntlr \<times> ghost \<Rightarrow> bool" for st0 where
  start: "dir_reach st0 (st0, \<lambda>a. no_ghost)"
| step: "dir_reach st0 s \<Longrightarrow> dir_step s s' \<Longrightarrow> dir_reach st0 s'"

inductive_cases dir_stepE: "dir_step (st, g) s"

text \<open>A controller as the simulator constructs it.\<close>

definition new_directory :: "dir_cntlr \<Rightarrow> bool" where
  "new_directory st \<longleftrightarrow> (\<exists>ty n k bs hw mx acc pen junk ptrs dc home p ev.
     DramDirectoryCache ty n k bs hw mx acc pen junk ptrs = Inr dc \<and> k \<le> n \<and>
     DramDirectoryCntlr dc home (unat bs) p ev = Inr st)"

definition sys_ok :: "dir_cntlr \<times> ghost \<Rightarrow> bool" where
  "sys_ok s \<longleftrightarrow> cinv (snd s) ((fst s)\<lparr> m_sent := [] \<rparr>)"

lemma dc_ok_start:
  assumes "DramDirectoryCache ty n k bs hw mx acc pen junk ptrs = Inr dc" "k \<le> n"
  shows "dc_ok dc" "ent dc = (\<lambda>a. None)"
proof -
  from assms(1) obtain d where k: "k \<noteq> 0" and d: "Directory ty (unat n) hw mx pen junk = Inr d"
    and dc: "m_directory dc = d" "m_replaced_directory_entry_list dc = []" "m_dd_associativity dc = k" "m_dd_num_sets dc = n div k"
    by (auto simp: DramDirectoryCache_def Let_def elim!: rbindE split: if_splits)
  from d have l: "m_directory_entry_list d = replicate (unat n) None" by (auto simp: Directory_def elim!: rbindE)
  have none: "ref_entry r dc = None" for r
    by (cases r) (auto simp: ref_entry_def Let_def dc l)
  have "0 < unat k" using k by (simp add: unat_gt_0)
  moreover have "unat k \<le> unat n" using assms(2) by (simp add: word_le_nat_alt)
  moreover have le: "unat n div unat k * unat k \<le> unat n" by simp
  moreover have "unat n < 2 ^ 32" using unsigned_less [of n] by simp
  ultimately have "unat n div unat k * unat k < 2 ^ 32" "0 < unat n div unat k" by (linarith, simp add: div_greater_zero_iff)
  then have "geom_ok dc" by (simp add: geom_ok_def dc unat_div)
  then show ok: "dc_ok dc" using none by (simp add: dc_ok_def placed_def unique_def blank_def)
  then have "unique dc" by (simp add: dc_ok_def)
  then have "ent dc a = None" for a using none by (simp add: ent_None_iff)
  then show "ent dc = (\<lambda>a. None)" by blast
qed

lemma sys_ok_start:
  assumes "new_directory st"
  shows "sys_ok (st, \<lambda>a. no_ghost)"
proof -
  from assms obtain ty n k bs hw mx acc pen junk ptrs dc where
    c: "DramDirectoryCache ty n k bs hw mx acc pen junk ptrs = Inr dc" "k \<le> n" and st: "m_dram_directory_cache st = dc"
    "m_dram_directory_req_queue_list st = (\<lambda>a. None)"
    by (auto simp: new_directory_def DramDirectoryCntlr_def elim!: rbindE)
  from dc_ok_start [OF c] st show ?thesis
    by (simp add: sys_ok_def cinv_def store_ok_def lok_def sdir_def gh_def rq_ok_def req_queue_def queue_at_def)
qed

lemma sys_ok_step:
  assumes "sys_ok s" "dir_step s s'"
  shows "sys_ok s'"
  using assms(2)
proof cases
  case (deliver g c msg t st st')
  have "cinv (received_msg c msg g) st'"
    by (rule handleMsgFromNetwork_ok [OF _ _ deliver(3,4)]) (use assms(1) deliver(1) in \<open>simp_all add: sys_ok_def\<close>)
  then show ?thesis
    using deliver(2) by (simp add: sys_ok_def cinv_def store_ok_def lok_def sdir_def gh_def req_queue_def)
qed

lemma sys_ok_reach:
  assumes "new_directory st0" "dir_reach st0 s"
  shows "sys_ok s"
  using assms(2) by induction (use sys_ok_start [OF assms(1)] sys_ok_step in auto)

end
