(* ===== verification/Directory_Fuel.thy ===== *)
theory Directory_Fuel
  imports Directory_Cntlr
begin

text \<open>
  The chain of requests that one message starts ends: the fuel of \<open>processNext\<close> is enough. Every round
  removes a request from the queue of its line, and making room for an entry touches only a line
  without other requests.
\<close>

section \<open>The directory\<close>

lemma live_hasSharer [live_intros]: "live (hasSharer c e)"
  unfolding hasSharer_def by (intro live_intros) simp_all

lemma live_addSharer [live_intros]: "live (addSharer c mx e)"
  unfolding addSharer_def Let_def by (cases "m_entry_kind e") (auto intro!: live_intros)

lemma live_removeSharer [live_intros]: "live (removeSharer c b e)"
  unfolding removeSharer_def by (auto intro!: live_intros)

lemma live_setOwner [live_intros]: "live (setOwner c e)"
  unfolding setOwner_def by (auto intro!: live_intros)

lemma live_getOneSharer [live_intros]: "live (getOneSharer e)"
  unfolding getOneSharer_def Let_def by (cases "m_entry_kind e") (auto intro!: live_intros)

lemma live_incrElapsedTime [live_intros]: "live (incrElapsedTime t now)"
  unfolding incrElapsedTime_def by (auto intro!: live_intros)

lemma live_dd_splitAddress [live_intros]: "live (dd_splitAddress dc a)"
  unfolding dd_splitAddress_def Let_def by (auto intro!: live_intros)

lemma live_dir_entry_at [live_intros]: "live (dir_entry_at n d)"
  unfolding dir_entry_at_def Let_def by (auto intro!: live_intros)

lemma live_find_slot [live_intros]: "live (find_slot P ns d)"
  by (induction ns arbitrary: d) (auto intro!: live_intros)

lemma live_get_entry [live_intros]: "live (get_entry r dc)"
  unfolding get_entry_def by (cases r) (auto intro!: live_intros)

lemma live_put_entry [live_intros]: "live (put_entry r e dc)"
  unfolding put_entry_def setDirectoryEntry_def by (cases r) (auto intro!: live_intros)

lemma live_getDirectoryEntry [live_intros]: "live (getDirectoryEntry a m tdc)"
  unfolding getDirectoryEntry_def Let_def by (intro live_intros)

lemma live_getReplacementCandidates [live_intros]: "live (getReplacementCandidates a tdc)"
  unfolding getReplacementCandidates_def Let_def by (intro live_intros) simp_all

lemma live_replaceDirectoryEntry [live_intros]: "live (replaceDirectoryEntry ra a m tdc)"
  unfolding replaceDirectoryEntry_def setDirectoryEntry_def Let_def by (intro live_intros) simp_all

lemma live_invalidateDirectoryEntry [live_intros]: "live (invalidateDirectoryEntry a dc)"
  unfolding invalidateDirectoryEntry_def by (intro live_intros) simp_all

section \<open>The controller\<close>

lemma live_sendMsg [live_intros]: "live (sendMsg ty rc rq c a buf len w st)"
  unfolding sendMsg_def makeMsgBuf_def by (cases buf) (auto intro!: live_intros)

lemma live_getHome [live_intros]: "live (getHome h a)"
  unfolding getHome_def Let_def by (auto intro!: live_intros)

lemma live_sendDataToDram [live_intros]: "live (sendDataToDram a c b st)"
  unfolding sendDataToDram_def by (intro live_intros)

lemma live_lookup_entry [live_intros]: "live (lookup_entry a m st)"
  unfolding lookup_entry_def by (intro live_intros)

lemma live_read_entry [live_intros]: "live (read_entry r st)"
  unfolding read_entry_def by (intro live_intros)

lemma live_write_entry [live_intros]: "live (write_entry r e st)"
  unfolding write_entry_def by (intro live_intros)

lemma live_queue_front [live_intros]: "live (queue_front a st)"
  unfolding queue_front_def front_def by (auto simp: live_def split: option.splits list.splits)

lemma live_send_invalidations [live_intros]: "live (send_invalidations c a e st)"
  unfolding send_invalidations_def Let_def by (intro live_intros)

lemma live_upgrade_invalidations [live_intros]: "live (upgrade_invalidations c h a cs st)"
  unfolding upgrade_invalidations_def by (rule live_fold_r) (auto intro!: live_intros split: prod.splits)

lemma live_pick_candidate [live_intros]: "live (pick_candidate ns best st)"
  by (induction ns arbitrary: best) (auto intro!: live_intros)

lemma live_ShmemReq [live_intros]: "live (ShmemReq msg t)"
  unfolding ShmemReq_def by (intro live_intros) simp_all

section \<open>Queues\<close>

abbreviation queues :: "dir_cntlr \<Rightarrow> shmem_req req_queue_list" where
  "queues \<equiv> m_dram_directory_req_queue_list"

lemma queues_lookup: "lookup_entry a m st = Inr (r, st1) \<Longrightarrow> queues st1 = queues st"
  unfolding lookup_entry_def by (elim rbind3E) auto

lemma queues_write: "write_entry r e st = Inr st1 \<Longrightarrow> queues st1 = queues st"
  unfolding write_entry_def by (elim rbindE) auto

lemma queues_send: "sendMsg ty rc rq c a buf len w st = Inr st1 \<Longrightarrow> queues st1 = queues st"
  unfolding sendMsg_def by (auto elim!: rbindE split: if_splits)

lemma queues_send_data: "sendDataToDram a c b st = Inr st1 \<Longrightarrow> queues st1 = queues st"
  unfolding sendDataToDram_def by (elim rbindE) (rule queues_send)

lemma queues_invalidate: "send_invalidations c a e st = Inr st1 \<Longrightarrow> queues st1 = queues st"
  unfolding send_invalidations_def Let_def
  by (cases "getSharersList e")
    (auto split: if_splits intro: queues_send elim!: fold_r_inv [where P = "\<lambda>s. queues s = queues st"] dest: queues_send)

lemmas queues_simps = queues_lookup queues_write queues_send queues_send_data queues_invalidate

text \<open>Requests wait in the queue of their address; the queue of the line at hand is not empty and not
  longer than the fuel.\<close>

definition addr_ok :: "dir_cntlr \<Rightarrow> bool" where
  "addr_ok st \<longleftrightarrow> (\<forall>a. \<forall>r \<in> set (req_queue a st). req_addr r = a)"

definition bounded :: "nat \<Rightarrow> u64 \<Rightarrow> dir_cntlr \<Rightarrow> bool" where
  "bounded k a st \<longleftrightarrow> addr_ok st \<and> req_queue a st \<noteq> [] \<and> length (req_queue a st) \<le> k"

definition enough :: "nat \<Rightarrow> (u64 \<Rightarrow> dir_cntlr \<Rightarrow> dir_cntlr res) \<Rightarrow> bool" where
  "enough k next \<longleftrightarrow> 0 < k \<and> (\<forall>a st. (bounded k a st \<longrightarrow> live (next a st)) \<and>
     (\<forall>st'. length (req_queue a st) = 1 \<longrightarrow> next a st = Inr st' \<longrightarrow>
        (\<forall>b. req_queue b st' = (if b = a then [] else req_queue b st))))"

lemma bounded_keep: "bounded k a st \<Longrightarrow> queues st' = queues st \<Longrightarrow> bounded k a st'"
  by (simp add: bounded_def addr_ok_def req_queue_def)

lemma enough_live: "enough k next \<Longrightarrow> bounded k a st \<Longrightarrow> live (next a st)"
  by (simp add: enough_def)

lemma bounded_upd_front:
  "(\<And>q. req_addr (f q) = req_addr q) \<Longrightarrow> bounded k a st \<Longrightarrow> bounded k a (upd_queue (upd_front a f) st)"
  by (cases "req_queue a st") (auto simp: bounded_def addr_ok_def upd_queue_def req_queue_def)

section \<open>Handlers\<close>

lemma live_retrieve:
  assumes "enough k next" "bounded k a st"
  shows "live (retrieveDataAndSendToL2Cache next ty c a data st)"
  unfolding retrieveDataAndSendToL2Cache_def Let_def
  by (intro live_intros enough_live [OF assms(1)]) (auto dest!: queues_simps intro!: bounded_keep [OF assms(2)])

lemma live_nullify:
  assumes "enough k next" "bounded k (req_addr q) st"
  shows "live (processNullifyReq next q st)"
proof -
  have "live (case m_dstate e of
            EXCLUSIVE \<Rightarrow> sendMsg FLUSH_REQ L2_CACHE (req_core q) (m_owner_id e) (req_addr q) Null_Ptr 0 UNKNOWN st1
          | MODIFIED \<Rightarrow> sendMsg FLUSH_REQ L2_CACHE (req_core q) (m_owner_id e) (req_addr q) Null_Ptr 0 UNKNOWN st1
          | SHARED \<Rightarrow> send_invalidations (req_core q) (req_addr q) e st1
          | UNCACHED \<Rightarrow>
              rbind (invalidateDirectoryEntry (req_addr q) (m_dram_directory_cache st1)) (\<lambda>dc.
                next (req_addr q) (st1\<lparr> m_dram_directory_cache := dc \<rparr>))
          | OWNED \<Rightarrow> Inl Log_Error)" if "queues st1 = queues st" for e st1
    using that by (cases "m_dstate e") (auto intro!: live_intros enough_live [OF assms(1)] bounded_keep [OF assms(2)])
  then show ?thesis
    unfolding processNullifyReq_def Let_def by (intro live_intros) (auto dest: queues_simps)
qed

lemma nullify_queues:
  assumes "enough k next" "length (req_queue (req_addr q) st) = 1" "processNullifyReq next q st = Inr st'"
  shows "req_queue b st' = req_queue b st \<or> req_queue b st' = [] \<and> b = req_addr q"
proof -
  from assms(3) obtain ref st1 e where l: "lookup_entry (req_addr q) False st = Inr (Some ref, st1)"
    and rest: "(case m_dstate e of
            EXCLUSIVE \<Rightarrow> sendMsg FLUSH_REQ L2_CACHE (req_core q) (m_owner_id e) (req_addr q) Null_Ptr 0 UNKNOWN st1
          | MODIFIED \<Rightarrow> sendMsg FLUSH_REQ L2_CACHE (req_core q) (m_owner_id e) (req_addr q) Null_Ptr 0 UNKNOWN st1
          | SHARED \<Rightarrow> send_invalidations (req_core q) (req_addr q) e st1
          | UNCACHED \<Rightarrow>
              rbind (invalidateDirectoryEntry (req_addr q) (m_dram_directory_cache st1)) (\<lambda>dc.
                next (req_addr q) (st1\<lparr> m_dram_directory_cache := dc \<rparr>))
          | OWNED \<Rightarrow> Inl Log_Error) = Inr st'"
    unfolding processNullifyReq_def Let_def
    by (elim rbind2E) (auto elim!: rbindE [where m = "read_entry r s" for r s] split: option.splits)
  note qs = queues_lookup [OF l]
  show ?thesis
  proof (cases "m_dstate e = UNCACHED")
    case True
    with rest obtain dc where n: "next (req_addr q) (st1\<lparr> m_dram_directory_cache := dc \<rparr>) = Inr st'" by (auto elim!: rbindE)
    have "req_queue b (st1\<lparr> m_dram_directory_cache := dc \<rparr>) = req_queue b st" for b using qs by (simp add: req_queue_def)
    then show ?thesis using assms(1,2) n unfolding enough_def by metis
  next
    case False
    with rest have "queues st' = queues st1" by (cases "m_dstate e") (auto dest: queues_simps)
    with qs show ?thesis by (simp add: req_queue_def)
  qed
qed

text \<open>A nullify request is alone at its address, which is not the address of the request in progress.\<close>

lemma pick_candidate_idle:
  assumes "pick_candidate ns best st = Inr (Some (n, e))" "\<And>m b. best = Some (m, b) \<Longrightarrow> req_queue (m_address b) st = []"
  shows "req_queue (m_address e) st = []"
  using assms
proof (induction ns arbitrary: best)
  case (Cons m ns)
  from Cons.prems(1) obtain b where
    p: "pick_candidate ns (if (case best of None \<Rightarrow> True | Some (m, b') \<Rightarrow> getNumSharers b' > getNumSharers b) \<and>
             rq_size (m_address b) (queues st) = 0 then Some (m, b) else best) st = Inr (Some (n, e))"
    by (auto elim!: rbindE)
  show ?case by (rule Cons.IH [OF p]) (use Cons.prems in \<open>auto simp: rq_size_queue_at req_queue_def split: if_splits\<close>)
qed simp

lemma nullify_added:
  assumes k: "0 < k" and b: "bounded k a st" and n: "ShmemReq (nullify_msg c ra) t = Inr nq" and i: "req_queue ra st = []"
    and q: "queues st' = enqueue ra nq (queues st)"
  shows "bounded k ra st'" "bounded k a st'" "req_addr nq = ra" "req_queue ra st' = [nq]" "ra \<noteq> a"
proof -
  show nq: "req_addr nq = ra" using n by (auto simp: ShmemReq_def nullify_msg_def req_addr_def split: if_splits)
  show ne: "ra \<noteq> a" using b i by (auto simp: bounded_def)
  have rq: "req_queue x st' = (if x = ra then [nq] else req_queue x st)" for x using i q by (auto simp: req_queue_def)
  then show "req_queue ra st' = [nq]" by simp
  show "bounded k ra st'" "bounded k a st'" using b k ne nq by (auto simp: bounded_def addr_ok_def rq)
qed

lemma live_allocation:
  assumes en: "enough k next" and b: "bounded k (req_addr q) st"
  shows "live (processDirectoryEntryAllocationReq next q st)"
    "processDirectoryEntryAllocationReq next q st = Inr (ref, st') \<Longrightarrow> bounded k (req_addr q) st'"
proof -
  have k: "0 < k" using en by (simp add: enough_def)
  let ?st1 = "\<lambda>t dc. st\<lparr> m_elapsed := t, m_dram_directory_cache := dc \<rparr>"
  have idle: "req_queue (m_address e) st = []" if "pick_candidate ns None (?st1 t dc) = Inr (Some (n, e))" for ns t dc n e
    using pick_candidate_idle [OF that] by (simp add: req_queue_def)
  have added: "bounded k (req_addr nq) st'"
    if "ShmemReq (nullify_msg c (m_address e)) t = Inr nq" "pick_candidate ns None (?st1 u dc) = Inr (Some (n, e))"
      "queues st' = enqueue (m_address e) nq (queues st)" for c e t nq ns u dc n st'
    using nullify_added(1,3) [OF k b that(1) idle [OF that(2)] that(3)] by simp
  show "live (processDirectoryEntryAllocationReq next q st)"
    unfolding processDirectoryEntryAllocationReq_def Let_def
    by (intro live_intros live_nullify [OF en]) (auto simp: upd_queue_def elim: added)
  show "bounded k (req_addr q) st'" if "processDirectoryEntryAllocationReq next q st = Inr (ref, st')"
  proof -
    from that obtain slots t1 dc1 n e t3 dc3 nq where
      pick: "pick_candidate slots None (?st1 t1 dc1) = Inr (Some (n, e))"
      and nq: "ShmemReq (nullify_msg (req_core q) (m_address e)) (m_elapsed st) = Inr nq"
      and nul: "processNullifyReq next nq (upd_queue (enqueue (m_address e) nq)
       (st\<lparr> evict := (evict st)(m_dstate e := evict st (m_dstate e) + 1), m_elapsed := t3, m_dram_directory_cache := dc3 \<rparr>)) = Inr st'"
      unfolding processDirectoryEntryAllocationReq_def Let_def
      by (elim rbind3E) (auto elim!: rbindE rbind3E split: option.splits prod.splits if_splits)
    let ?st4 = "upd_queue (enqueue (m_address e) nq)
       (st\<lparr> evict := (evict st)(m_dstate e := evict st (m_dstate e) + 1), m_elapsed := t3, m_dram_directory_cache := dc3 \<rparr>)"
    have "queues ?st4 = enqueue (m_address e) nq (queues st)" by (simp add: upd_queue_def)
    note z = nullify_added [OF k b nq idle [OF pick] this]
    have "req_queue x st' = req_queue x ?st4 \<or> req_queue x st' = [] \<and> x = m_address e" for x
      using nullify_queues [OF en _ nul, of x] z(3,4) by simp
    then show ?thesis using z(2,5) unfolding bounded_def addr_ok_def by (metis empty_iff empty_set)
  qed
qed

lemma live_entry_for:
  assumes en: "enough k next" and b: "bounded k (req_addr q) st"
  shows "live (entry_for next q st)" "entry_for next q st = Inr (ref, st') \<Longrightarrow> bounded k (req_addr q) st'"
proof -
  show "live (entry_for next q st)"
    unfolding entry_for_def by (intro live_intros live_allocation(1) [OF en]) (auto dest!: queues_simps intro!: bounded_keep [OF b])
  show "bounded k (req_addr q) st'" if "entry_for next q st = Inr (ref, st')"
  proof -
    from that obtain r st1 where l: "lookup_entry (req_addr q) False st = Inr (r, st1)"
      and rest: "(case r of Some ref \<Rightarrow> Inr (ref, st1) | None \<Rightarrow> processDirectoryEntryAllocationReq next q st1) = Inr (ref, st')"
      unfolding entry_for_def by (elim rbind2E)
    have "bounded k (req_addr q) st1" by (rule bounded_keep [OF b queues_lookup [OF l]])
    then show ?thesis using rest live_allocation(2) [OF en] by (cases r) auto
  qed
qed

lemma live_dstate [live_intros]:
  "(s = MODIFIED \<Longrightarrow> live m1) \<Longrightarrow> (s = EXCLUSIVE \<Longrightarrow> live m2) \<Longrightarrow> (s = SHARED \<Longrightarrow> live m3) \<Longrightarrow>
   (s = UNCACHED \<Longrightarrow> live m4) \<Longrightarrow> (s = OWNED \<Longrightarrow> live m5) \<Longrightarrow>
   live (case s of MODIFIED \<Rightarrow> m1 | EXCLUSIVE \<Rightarrow> m2 | SHARED \<Rightarrow> m3 | UNCACHED \<Rightarrow> m4 | OWNED \<Rightarrow> m5)"
  by (cases s) simp_all

text \<open>After the entry is found, the rest of a request changes queues only at the end.\<close>

lemma live_request:
  assumes en: "enough k next" and b: "bounded k (req_addr q) st"
    and f: "\<And>ref st1. bounded k (req_addr q) st1 \<Longrightarrow> live (f ref st1)"
  shows "live (rbind (entry_for next q st) (\<lambda>(ref, st1). f ref st1))"
  using live_entry_for [OF en b] f by (intro live_intros) auto

lemma live_ExReq:
  assumes "enough k next" "bounded k (req_addr q) st"
  shows "live (processExReqFromL2Cache next q data st)"
  unfolding processExReqFromL2Cache_def Let_def
  by (rule live_request [OF assms], intro live_intros live_retrieve [OF assms(1)])
    (auto dest!: queues_simps elim: bounded_keep)

lemma live_ShReq:
  assumes "enough k next" "bounded k (req_addr q) st"
  shows "live (processShReqFromL2Cache next q data st)"
  unfolding processShReqFromL2Cache_def Let_def
  by (rule live_request [OF assms], intro live_intros live_retrieve [OF assms(1)])
    (auto dest!: queues_simps elim: bounded_keep)

lemma live_UpgradeReq:
  assumes "enough k next" "bounded k (req_addr q) st"
  shows "live (processUpgradeReqFromL2Cache next q data st)"
  unfolding processUpgradeReqFromL2Cache_def Let_def
  by (rule live_request [OF assms], intro live_intros live_retrieve [OF assms(1)] enough_live [OF assms(1)])
    (auto dest!: queues_simps elim: bounded_keep)

section \<open>The next request\<close>

lemma next_single:
  assumes "length (req_queue a st) = 1" "processNextReqFromL2Cache (Suc n) a st = Inr st'"
  shows "req_queue b st' = (if b = a then [] else req_queue b st)"
proof -
  from assms(1) obtain r where "queues st a = Some [r]"
    by (auto simp: req_queue_def queue_at_def length_Suc_conv split: option.splits)
  then have "st' = st\<lparr> m_dram_directory_req_queue_list := (queues st)(a := None) \<rparr>"
    using assms(2) by (simp add: rq_size_def dequeue_def rq_empty_def)
  then show ?thesis by (simp add: req_queue_def queue_at_def)
qed

lemma bounded_front:
  "bounded k a st \<Longrightarrow> queue_front a st = Inr r \<Longrightarrow> req_addr r = a"
  by (auto simp: bounded_def addr_ok_def queue_front_def req_queue_def front_eq_Inr)

lemma live_start:
  assumes "enough k next" "bounded k (req_addr r) st"
  shows "live (case req_type r of
      EX_REQ \<Rightarrow> processExReqFromL2Cache next r Null_Ptr st
    | SH_REQ \<Rightarrow> processShReqFromL2Cache next r Null_Ptr st
    | UPGRADE_REQ \<Rightarrow> processUpgradeReqFromL2Cache next r Null_Ptr st
    | _ \<Rightarrow> Inl Log_Error)"
  using live_ExReq [OF assms] live_ShReq [OF assms] live_UpgradeReq [OF assms] by (cases "req_type r") (simp_all add: live_def)

lemma enough_next: "enough (Suc n) (processNextReqFromL2Cache (Suc n))"
proof (induction n)
  case 0
  have "live (processNextReqFromL2Cache (Suc 0) a st)" if b: "bounded (Suc 0) a st" for a st
  proof -
    obtain r where "req_queue a st = [r]" using b by (cases "req_queue a st") (auto simp: bounded_def)
    then have "queues st a = Some [r]" by (auto simp: req_queue_def queue_at_def split: option.splits)
    then show ?thesis by (simp add: rq_size_def dequeue_def rq_empty_def live_def)
  qed
  then show ?case using next_single unfolding enough_def by blast
next
  case (Suc n)
  let ?next = "processNextReqFromL2Cache (Suc n)"
  have "live (processNextReqFromL2Cache (Suc (Suc n)) a st)" if b: "bounded (Suc (Suc n)) a st" for a st
  proof -
    have "bounded (Suc n) (req_addr r) (st\<lparr> m_dram_directory_req_queue_list := q, m_elapsed := t \<rparr>)"
      if d: "dequeue a (queues st) = Inr (c, q)" and f: "front a q = Inr r" for c q r t
    proof -
      note e = dequeue_eq_Inr [OF d]
      from f obtain rs where q: "queue_at a q = r # rs" by (auto simp: front_eq_Inr)
      have sub: "set (queue_at x q) \<subseteq> set (queue_at x (queues st))" for x using e(1) e(2) [of x] by (cases "x = a") auto
      have r: "req_addr r = a" using b e(1) q by (auto simp: bounded_def addr_ok_def req_queue_def)
      show ?thesis unfolding r using b e(1) q sub by (auto simp: bounded_def addr_ok_def req_queue_def)
    qed
    moreover have "live (dequeue a (queues st))" by (auto simp: dequeue_def live_def split: option.splits list.splits)
    moreover have "live (front a q)" for q :: "shmem_req req_queue_list"
      by (auto simp: front_def live_def split: option.splits list.splits)
    ultimately show ?thesis
      unfolding processNextReqFromL2Cache.simps(2) [of "Suc n"] Let_def
      by (intro live_intros live_start [OF Suc.IH]) (auto simp del: processNextReqFromL2Cache.simps)
  qed
  then show ?case using next_single [where n = "Suc n"] unfolding enough_def by blast
qed

section \<open>Messages\<close>

lemma live_msg_type [live_intros]:
  "(ty = EX_REQ \<Longrightarrow> live m1) \<Longrightarrow> (ty = SH_REQ \<Longrightarrow> live m2) \<Longrightarrow> (ty = UPGRADE_REQ \<Longrightarrow> live m3) \<Longrightarrow> live m4 \<Longrightarrow>
   live (case ty of EX_REQ \<Rightarrow> m1 | SH_REQ \<Rightarrow> m2 | UPGRADE_REQ \<Rightarrow> m3 | _ \<Rightarrow> m4)"
  by (cases ty) simp_all

lemma bounded_update_times:
  assumes "bounded k a st"
  shows "bounded k a (update_times a st)"
proof -
  have "bounded k a (st\<lparr> m_elapsed := t \<rparr>)" for t by (rule bounded_keep [OF assms]) simp
  moreover have "req_addr (updateTime t q) = req_addr q" for t q by (simp add: updateTime_def req_addr_def)
  ultimately show ?thesis using assms by (auto simp: update_times_def split: list.splits intro!: bounded_upd_front)
qed

lemma live_entries [live_intros]: "live (invalidated_entry c e)" "live (flushed_entry c e)"
  unfolding invalidated_entry_def flushed_entry_def Let_def by (intro live_intros; simp)+

text \<open>The front request of a line that is not idle is taken up again.\<close>

lemma bounded_resumed:
  assumes "addr_ok st" "length (req_queue a st) \<le> k" "queues st1 = queues st" "req_queue a st1 \<noteq> []"
    "queue_front a (update_times a st1) = Inr req"
  shows "bounded k (req_addr req) (update_times a st1)"
proof -
  have "bounded k a st1" using assms(1-4) by (simp add: bounded_def addr_ok_def req_queue_def)
  then have b: "bounded k a (update_times a st1)" by (rule bounded_update_times)
  then show ?thesis using bounded_front [OF b assms(5)] by simp
qed

lemma live_InvRep:
  assumes en: "enough k next" and b: "addr_ok st" "length (req_queue (m_msg_address msg) st) \<le> k"
  shows "live (processInvRepFromL2Cache next c msg st)"
proof -
  have resume: "live (resume_invalidated next c ref e req s)" if "bounded k (req_addr req) s" for ref e req s
    unfolding resume_invalidated_def
    by (intro live_intros live_ExReq [OF en] live_ShReq [OF en] live_UpgradeReq [OF en] live_nullify [OF en])
      (use that in \<open>auto dest!: queues_simps elim: bounded_keep\<close>)
  show ?thesis
    unfolding processInvRepFromL2Cache_def Let_def
    by (intro live_intros resume) (auto dest!: queues_simps intro!: bounded_resumed [OF b])
qed

lemma live_FlushRep:
  assumes en: "enough k next" and b: "addr_ok st" "length (req_queue (m_msg_address msg) st) \<le> k"
  shows "live (processFlushRepFromL2Cache next c msg st)"
proof -
  have resume: "live (resume_flushed next msg ref e req s)" if "bounded k (req_addr req) s" for ref e req s
    unfolding resume_flushed_def Let_def
    by (intro live_intros live_ExReq [OF en] live_ShReq [OF en] live_UpgradeReq [OF en] live_nullify [OF en])
      (use that in \<open>auto dest!: queues_simps elim: bounded_keep\<close>)
  show ?thesis
    unfolding processFlushRepFromL2Cache_def Let_def
    by (intro live_intros resume) (auto dest!: queues_simps intro!: bounded_resumed [OF b])
qed

lemma live_WbRep:
  assumes en: "enough k next" and b: "addr_ok st" "length (req_queue (m_msg_address msg) st) \<le> k"
  shows "live (processWbRepFromL2Cache next c msg st)"
  unfolding processWbRepFromL2Cache_def Let_def
  by (intro live_intros live_ShReq [OF en]) (auto dest!: queues_simps intro!: bounded_resumed [OF b])

lemma live_DRAMReply:
  assumes en: "enough k next" and b: "addr_ok st" "length (req_queue (m_msg_address msg) st) \<le> k"
  shows "live (processDRAMReply next c msg st)"
proof (cases "req_queue (m_msg_address msg) st = []")
  case False
  with b have bd: "bounded k (m_msg_address msg) st" by (simp add: bounded_def)
  show ?thesis
    unfolding processDRAMReply_def Let_def
    by (intro live_intros enough_live [OF en]) (auto dest!: queues_simps intro!: bounded_keep [OF bd])
qed (simp add: processDRAMReply_def live_def)

lemma live_queue_request [live_intros]: "live (queue_request msg t st)"
  unfolding queue_request_def Let_def by (intro live_intros)

lemma bounded_queue_request:
  assumes "queue_request msg t st = Inr (req, alone, st1)" "addr_ok st" "length (req_queue (m_msg_address msg) st) < k"
  shows "bounded k (req_addr req) st1"
proof -
  have r: "req_addr req = m_msg_address msg" and q: "queues st1 = enqueue (m_msg_address msg) req (queues st)"
    using assms(1) by (auto simp: queue_request_def ShmemReq_def req_addr_def upd_queue_def Let_def split: if_splits)
  show ?thesis unfolding r using assms(2,3) r by (auto simp: bounded_def addr_ok_def req_queue_def q)
qed

lemma live_handleMsgFromL2Cache:
  assumes "addr_ok st"
  shows "live (handleMsgFromL2Cache c msg st)"
proof -
  let ?a = "m_msg_address msg"
  let ?k = "Suc (Suc (length (req_queue ?a st)))"
  have en: "enough ?k (processNext ?a st)" unfolding processNext_def by (rule enough_next)
  have st1: "addr_ok st1" "length (req_queue ?a st1) < ?k" if "queues st1 = queues st" for st1
    using assms that by (simp_all add: addr_ok_def req_queue_def)
  have new: "live (rbind (queue_request msg t st1) (\<lambda>(req, alone, st2). if alone then f req Null_Ptr st2 else Inr st2))"
    if "queues st1 = queues st" "\<And>req s. bounded ?k (req_addr req) s \<Longrightarrow> live (f req Null_Ptr s)" for st1 t f
    by (intro live_intros that(2)) (auto dest: bounded_queue_request [OF _ st1 [OF that(1)]])
  note replies = live_InvRep [OF en] live_FlushRep [OF en] live_WbRep [OF en]
  have "live (case m_msg_type msg of
        EX_REQ \<Rightarrow> rbind (queue_request msg t st1) (\<lambda>(req, alone, st2).
          if alone then processExReqFromL2Cache (processNext ?a st) req Null_Ptr st2 else Inr st2)
      | SH_REQ \<Rightarrow> rbind (queue_request msg t st1) (\<lambda>(req, alone, st2).
          if alone then processShReqFromL2Cache (processNext ?a st) req Null_Ptr st2 else Inr st2)
      | INV_REP \<Rightarrow> processInvRepFromL2Cache (processNext ?a st) c msg st1
      | FLUSH_REP \<Rightarrow> processFlushRepFromL2Cache (processNext ?a st) c msg st1
      | WB_REP \<Rightarrow> processWbRepFromL2Cache (processNext ?a st) c msg st1
      | UPGRADE_REQ \<Rightarrow> rbind (queue_request msg t st1) (\<lambda>(req, alone, st2).
          if alone then processUpgradeReqFromL2Cache (processNext ?a st) req Null_Ptr st2 else Inr st2)
      | _ \<Rightarrow> Inl Log_Error)" if q: "queues st1 = queues st" for st1 t
    using new [OF q live_ExReq [OF en]] new [OF q live_ShReq [OF en]] new [OF q live_UpgradeReq [OF en]]
      replies [of st1] st1 [OF q]
    by (cases "m_msg_type msg") (auto intro: live_Inl)
  then show ?thesis unfolding handleMsgFromL2Cache_def Let_def by (intro live_intros) (auto dest: queues_lookup)
qed

lemma live_handleMsgFromNetwork:
  assumes "addr_ok st"
  shows "live (handleMsgFromNetwork c t msg st)"
proof -
  let ?st = "st\<lparr> m_elapsed := t \<rparr>" and ?a = "m_msg_address msg"
  have a: "addr_ok ?st" using assms by (simp add: addr_ok_def req_queue_def)
  have "enough (Suc (Suc (length (req_queue ?a ?st)))) (processNext ?a ?st)" unfolding processNext_def by (rule enough_next)
  then have "live (handleMsgFromDRAM c msg ?st)"
    unfolding handleMsgFromDRAM_def using live_DRAMReply [OF _ a] by (cases "m_msg_type msg") (auto intro: live_Inl)
  then show ?thesis
    unfolding handleMsgFromNetwork_def Let_def
    using live_handleMsgFromL2Cache [OF a] by (cases "m_sender_mem_component msg") (auto intro!: live_intros)
qed

end
