(* ===== verification/Directory_Props.thy ===== *)
theory Directory_Props
  imports Directory_System Directory_Fuel
begin

text \<open>
  Properties of the directory protocol as a whole, with runs of a small directory that show that
  their hypotheses can hold.
\<close>

section \<open>Runs\<close>

fun dir_run :: "(core_id \<times> time \<times> shmem_msg) list \<Rightarrow> dir_cntlr \<times> ghost \<Rightarrow> (dir_cntlr \<times> ghost) option" where
  "dir_run [] s = Some s"
| "dir_run ((c, t, msg) # ms) (st, g) =
     (if legal_msg g c msg then
        (case handleMsgFromNetwork c t msg (st\<lparr> m_sent := [] \<rparr>) of
           Inl err \<Rightarrow> None
         | Inr st' \<Rightarrow> dir_run ms (st', fold sent_packet (m_sent st') (received_msg c msg g)))
      else None)"

lemma dir_run_reach: "dir_run ms s = Some s' \<Longrightarrow> dir_reach st0 s \<Longrightarrow> dir_reach st0 s'"
proof (induction ms s rule: dir_run.induct)
  case (2 c t msg ms st g)
  then show ?case by (auto split: if_splits sum.splits intro: dir_reach.step dir_step.deliver)
qed simp

text \<open>A directory of two sets of two entries for lines of four bytes, and messages to it.\<close>

definition ex_dir :: "dir_cntlr res" where
  "ex_dir = rbind (DramDirectoryCache ''full_map'' 4 2 4 64 64 10 None 77 (\<lambda>i. 0)) (\<lambda>dc.
     rbind (AddressHomeLookup 6 [0, 4] 64) (\<lambda>home. DramDirectoryCntlr dc home 4 ''mesi'' 0))"

definition ex_msg :: "msg_t \<Rightarrow> core_id \<Rightarrow> data_ptr \<Rightarrow> core_id \<times> time \<times> shmem_msg" where
  "ex_msg typ c b = (c, 5, \<lparr> m_msg_type = typ,
     m_sender_mem_component = (if typ = DRAM_READ_REP then mem_component.DRAM else LAST_LEVEL_CACHE),
     m_receiver_mem_component = TAG_DIR, m_requester = c, m_where = Some DRAM, m_msg_address = 0, m_data_buf = b \<rparr>)"

definition ex_write :: "(core_id \<times> time \<times> shmem_msg) list" where
  "ex_write = [ex_msg EX_REQ 0 Null_Ptr, ex_msg DRAM_READ_REP 0 (Buf [1, 2, 3, 4])]"

lemma ex_dir_new: "\<exists>st. ex_dir = Inr st \<and> new_directory st"
proof -
  obtain dc where dc: "DramDirectoryCache ''full_map'' 4 2 4 64 64 10 None 77 (\<lambda>i. 0) = Inr dc"
    by (simp add: DramDirectoryCache_def Directory_def parseDirectoryType_def Let_def)
  have "(case AddressHomeLookup 6 [0, 4] 64 of Inl x \<Rightarrow> False | Inr h \<Rightarrow> True)" by code_simp
  then obtain home where h: "AddressHomeLookup 6 [0, 4] 64 = Inr home" by (auto split: sum.splits)
  obtain st where st: "DramDirectoryCntlr dc home 4 ''mesi'' 0 = Inr st"
    by (simp add: DramDirectoryCntlr_def parseProtocol_def)
  have "(2 :: u32) \<le> 4" by simp
  moreover have "DramDirectoryCntlr dc home (unat (4 :: u32)) ''mesi'' 0 = Inr st" using st by simp
  ultimately have "new_directory st" unfolding new_directory_def using dc by blast
  then show ?thesis using dc h st by (simp add: ex_dir_def)
qed

text \<open>What a run of the example ends in.\<close>

definition ex_after :: "(core_id \<times> time \<times> shmem_msg) list \<Rightarrow> (dir_cntlr \<times> ghost \<Rightarrow> bool) \<Rightarrow> bool" where
  "ex_after ms P = (case ex_dir of Inl err \<Rightarrow> False | Inr st \<Rightarrow>
     (case dir_run ms (st, \<lambda>a. no_ghost) of None \<Rightarrow> False | Some s \<Rightarrow> P s))"

lemma ex_afterE:
  assumes "ex_after ms P"
  obtains st0 st g where "new_directory st0" "dir_reach st0 (st, g)" "P (st, g)"
proof -
  obtain st0 where st0: "ex_dir = Inr st0" "new_directory st0" using ex_dir_new by blast
  have "case dir_run ms (st0, \<lambda>a. no_ghost) of None \<Rightarrow> False | Some s \<Rightarrow> P s"
    using assms unfolding ex_after_def st0(1) sum.case .
  then obtain st g where "dir_run ms (st0, \<lambda>a. no_ghost) = Some (st, g)" "P (st, g)" by (auto split: option.splits)
  then show thesis using that st0(2) dir_run_reach dir_reach.start by blast
qed

lemma ex_write_run: "ex_after ex_write (\<lambda>(st, g). 0 \<in> writers (g 0))"
  by code_simp

section \<open>Coherence\<close>

text \<open>C7: In every state the exchange with legal caches and DRAM can lead to, the directory knows of
  every copy it has handed out: a line without an entry has no copy in any cache, and the caches that
  may hold a copy of a line are sharers of its entry. A core that may write the line is the owner and
  the only sharer of an entry in state MODIFIED or EXCLUSIVE.\<close>

theorem directory_tracks_copies:
  assumes "new_directory st0" "dir_reach st0 (st, g)"
  shows "case ent (m_dram_directory_cache st) a of
      None \<Rightarrow> holders (g a) = {}
    | Some e \<Rightarrow> holders (g a) \<subseteq> sharer_set e \<and> (m_dstate e = UNCACHED \<longleftrightarrow> sharer_set e = {}) \<and>
        (\<forall>w \<in> writers (g a). (m_dstate e = MODIFIED \<or> m_dstate e = EXCLUSIVE) \<and> m_owner_id e = w \<and> sharer_set e = {w})"
proof -
  have "line_ok a (ent (m_dram_directory_cache st) a) (req_queue a st) (g a)"
    using cinv_line [OF sys_ok_reach [OF assms, unfolded sys_ok_def], of a] by (simp add: sdir_def gh_def req_queue_def)
  then show ?thesis
    by (auto simp: line_ok_def entry_part_def entry_wf_def exclusive_def split: option.splits)
qed

theorem directory_tracks_copies_witness:
  "\<exists>st0 st g e. new_directory st0 \<and> dir_reach st0 (st, g) \<and> 0 \<in> writers (g 0) \<and>
     ent (m_dram_directory_cache st) 0 = Some e \<and> sharer_set e = {0}"
proof -
  from ex_write_run obtain st0 st g where s: "new_directory st0" "dir_reach st0 (st, g)" and w: "0 \<in> writers (g 0)"
    by (rule ex_afterE) auto
  have "0 \<in> holders (g 0)" using sys_ok_reach [OF s] w by (auto simp: sys_ok_def cinv_def lok_def gh_def line_ok_def entry_part_def)
  with directory_tracks_copies [OF s, of 0] w obtain e where "ent (m_dram_directory_cache st) 0 = Some e" "sharer_set e = {0}"
    by (auto split: option.splits)
  with s w show ?thesis by blast
qed

text \<open>C6: A line that one core may write is in no other cache: whenever the directory has granted
  exclusive access to a line, by a reply to an exclusive, upgrade or MESI read request, every other
  copy has been given up before.\<close>

theorem single_writer:
  assumes "new_directory st0" "dir_reach st0 (st, g)" "w \<in> writers (g a)"
  shows "holders (g a) = {w}"
proof -
  have "line_ok a (sdir st a) (req_queue a st) (g a)"
    using cinv_line [OF sys_ok_reach [OF assms(1,2), unfolded sys_ok_def], of a] by (simp add: sdir_def gh_def req_queue_def)
  moreover from this obtain e where "sdir st a = Some e" "exclusive e" "w \<in> holders (g a)"
    using assms(3) by (auto simp: line_ok_def entry_part_def)
  ultimately show ?thesis using line_ok_exclusive(2) by simp
qed

theorem single_writer_witness:
  "\<exists>st0 st g. new_directory st0 \<and> dir_reach st0 (st, g) \<and> 0 \<in> writers (g 0) \<and> holders (g 0) = {0}"
proof -
  from ex_write_run obtain st0 st g where s: "new_directory st0" "dir_reach st0 (st, g)" and w: "0 \<in> writers (g 0)"
    by (rule ex_afterE) auto
  with single_writer [OF s w] show ?thesis by blast
qed

section \<open>The handling of a message ends\<close>

text \<open>C18: In every reachable state the handling of a message, whatever it is, ends: the requests that
  it lets the directory start one after the other, and the entries that are replaced for them, are
  bounded by the requests that wait for its line.\<close>

theorem directory_message_ends:
  assumes "new_directory st0" "dir_reach st0 (st, g)"
  shows "handleMsgFromNetwork c t msg (st\<lparr> m_sent := [] \<rparr>) \<noteq> Inl Out_Of_Fuel"
proof -
  have "queue_part a (req_queue a (st\<lparr> m_sent := [] \<rparr>)) (g a)" for a
    using cinv_line [OF sys_ok_reach [OF assms, unfolded sys_ok_def], of a] by (simp add: line_ok_def gh_def)
  then have "addr_ok (st\<lparr> m_sent := [] \<rparr>)" by (simp add: addr_ok_def queue_part_def)
  from live_handleMsgFromNetwork [OF this] show ?thesis by (simp add: live_def)
qed

theorem directory_message_ends_witness:
  "\<exists>st0 st g. new_directory st0 \<and> dir_reach st0 (st, g) \<and> 0 \<in> writers (g 0) \<and>
     handleMsgFromNetwork 1 5 (snd (snd (ex_msg SH_REQ 1 Null_Ptr))) (st\<lparr> m_sent := [] \<rparr>) \<noteq> Inl Out_Of_Fuel"
proof -
  from ex_write_run obtain st0 st g where s: "new_directory st0" "dir_reach st0 (st, g)" and w: "0 \<in> writers (g 0)"
    by (rule ex_afterE) auto
  with directory_message_ends [OF s, of 1 5 "snd (snd (ex_msg SH_REQ 1 Null_Ptr))"] show ?thesis by blast
qed

section \<open>A buffer used after its deletion\<close>

definition ex_upgrade :: "(core_id \<times> time \<times> shmem_msg) list" where
  "ex_upgrade = [ex_msg SH_REQ 0 Null_Ptr, ex_msg DRAM_READ_REP 0 (Buf [1, 2, 3, 4]),
     ex_msg SH_REQ 1 Null_Ptr, ex_msg WB_REP 0 (Buf [1, 2, 3, 4]),
     ex_msg UPGRADE_REQ 2 Null_Ptr, ex_msg FLUSH_REP 0 (Buf [1, 2, 3, 4])]"

text \<open>A core that lost its copy asks for an upgrade of a line that two others share. The data of
  the first, which is flushed, is kept with the request as a pointer to the buffer of a message that
  is deleted when its delivery ends; when the second has given its copy up the directory sends the
  data on from the deleted buffer.\<close>

lemma upgrade_reads_deleted_buffer:
  "\<exists>st0 st g. new_directory st0 \<and> dir_reach st0 (st, g) \<and> m_dd_block_size st = 4 \<and>
     map (\<lambda>r. (req_type r, m_data_buf (m_shmem_msg r))) (req_queue 0 st) = [(UPGRADE_REQ, Deleted)] \<and>
     legal_msg g 1 (snd (snd (ex_msg INV_REP 1 Null_Ptr))) \<and>
     handleMsgFromNetwork 1 5 (snd (snd (ex_msg INV_REP 1 Null_Ptr))) (st\<lparr> m_sent := [] \<rparr>) = Inl Undefined"
proof -
  let ?msg = "snd (snd (ex_msg INV_REP 1 Null_Ptr))"
  let ?P = "\<lambda>(st, g). m_dd_block_size st = 4 \<and>
     map (\<lambda>r. (req_type r, m_data_buf (m_shmem_msg r))) (req_queue 0 st) = [(UPGRADE_REQ, Deleted)] \<and> legal_msg g 1 ?msg \<and>
     (case handleMsgFromNetwork 1 5 ?msg (st\<lparr> m_sent := [] \<rparr>) of Inl err \<Rightarrow> err = Undefined | Inr s \<Rightarrow> False)"
  have "ex_after ex_upgrade ?P" by code_simp
  then obtain st0 st g where s: "new_directory st0" "dir_reach st0 (st, g)" and p: "?P (st, g)" by (rule ex_afterE)
  note m = p [unfolded prod.case]
  have u: "handleMsgFromNetwork 1 5 ?msg (st\<lparr> m_sent := [] \<rparr>) = Inl Undefined"
    using conjunct2 [OF conjunct2 [OF conjunct2 [OF m]]] by (auto split: sum.splits)
  show ?thesis using s m u by (intro exI [of _ st0] exI [of _ st] exI [of _ g] conjI) simp_all
qed

end
