(* ===== verification/Moving_Average.thy ===== *)
theory Moving_Average
  imports Req_Queue
begin

text \<open>
  Moving averages of times: \<^verbatim>\<open>ModuloNum\<close> (\<^verbatim>\<open>misc/modulo_num.cc\<close>) and \<^verbatim>\<open>MovingAverage\<close>
  (\<^verbatim>\<open>misc/moving_average.h\<close>) with its arithmetic mean, geometric mean and median. The C library's
  \<^verbatim>\<open>pow\<close>, with which the geometric mean takes a root, is the argument \<open>root\<close>.
\<close>

section \<open>Numbers modulo a bound\<close>

record modulo_num =
  mn_value :: u32
  mn_max_value :: u32

definition ModuloNum :: "u32 \<Rightarrow> u32 \<Rightarrow> modulo_num" where
  "ModuloNum max_value v = \<lparr> mn_value = v, mn_max_value = max_value \<rparr>"

definition mn_add :: "modulo_num \<Rightarrow> modulo_num \<Rightarrow> modulo_num res" where
  "mn_add x y =
     (if mn_max_value x \<noteq> mn_max_value y then Inl Assert_Failed
      else if mn_max_value x = 0 then Inl Undefined
      else Inr (ModuloNum (mn_max_value x) ((mn_value x + mn_value y) mod mn_max_value x)))"

definition mn_sub :: "modulo_num \<Rightarrow> modulo_num \<Rightarrow> modulo_num res" where
  "mn_sub x y =
     (if mn_max_value x \<noteq> mn_max_value y then Inl Assert_Failed
      else Inr (ModuloNum (mn_max_value x)
        (if mn_value x \<ge> mn_value y then mn_value x - mn_value y
         else mn_max_value x - mn_value y + mn_value x)))"

definition mn_add_value :: "modulo_num \<Rightarrow> u32 \<Rightarrow> modulo_num res" where
  "mn_add_value x v =
     (if mn_max_value x = 0 then Inl Undefined
      else mn_add x (ModuloNum (mn_max_value x) (v mod mn_max_value x)))"

definition mn_sub_value :: "modulo_num \<Rightarrow> u32 \<Rightarrow> modulo_num res" where
  "mn_sub_value x v =
     (if mn_max_value x = 0 then Inl Undefined
      else mn_sub x (ModuloNum (mn_max_value x) (v mod mn_max_value x)))"

section \<open>Moving averages\<close>

datatype AvgType_t = ARITHMETIC_MEAN | GEOMETRIC_MEAN | MEDIAN

record moving_average =
  ma_type :: AvgType_t
  m_num_list :: "time list"
  m_max_window_size :: u32
  m_curr_window_front :: modulo_num
  m_curr_window_back :: modulo_num
  ma_sum :: time

definition parseAvgType :: "string \<Rightarrow> AvgType_t res" where
  "parseAvgType s =
     (if s = ''arithmetic_mean'' then Inr ARITHMETIC_MEAN
      else if s = ''geometric_mean'' then Inr GEOMETRIC_MEAN
      else if s = ''median'' then Inr MEDIAN
      else Inl Log_Error)"

text \<open>The list is resized with zero times.\<close>

definition MovingAverage :: "AvgType_t \<Rightarrow> u32 \<Rightarrow> moving_average" where
  "MovingAverage ty max_window_size =
     \<lparr> ma_type = ty, m_num_list = replicate (unat (max_window_size + 1)) 0,
       m_max_window_size = max_window_size,
       m_curr_window_front = ModuloNum (max_window_size + 1) 0,
       m_curr_window_back = ModuloNum (max_window_size + 1) 0, ma_sum = 0 \<rparr>"

definition addToWindow :: "time \<Rightarrow> moving_average \<Rightarrow> moving_average res" where
  "addToWindow x m =
     rbind (upd_r (m_num_list m) (unat (mn_value (m_curr_window_back m))) x) (\<lambda>l.
     rbind (mn_add_value (m_curr_window_back m) 1) (\<lambda>b.
     rbind (if b = m_curr_window_front m then mn_add_value (m_curr_window_front m) 1 else Inr (m_curr_window_front m)) (\<lambda>f.
       Inr (m\<lparr> m_num_list := l, m_curr_window_back := b, m_curr_window_front := f \<rparr>))))"

definition curr_window_size :: "moving_average \<Rightarrow> u32 res" where
  "curr_window_size m = rbind (mn_sub (m_curr_window_back m) (m_curr_window_front m)) (\<lambda>d. Inr (mn_value d))"

definition ma_update :: "time \<Rightarrow> moving_average \<Rightarrow> moving_average res" where
  "ma_update x m =
     (if ma_type m \<noteq> ARITHMETIC_MEAN then addToWindow x m
      else
        rbind (curr_window_size m) (\<lambda>n.
        rbind (if n = m_max_window_size m
               then rbind (nth_r (m_num_list m) (unat (mn_value (m_curr_window_front m)))) (\<lambda>old. Inr (ma_sum m - old))
               else Inr (ma_sum m)) (\<lambda>s.
          addToWindow x (m\<lparr> ma_sum := s + x \<rparr>))))"

text \<open>The product of the window, from the front to the back; at most as many factors as the list has.\<close>

fun window_product :: "nat \<Rightarrow> modulo_num \<Rightarrow> time \<Rightarrow> moving_average \<Rightarrow> time res" where
  "window_product 0 i p m = (if i = m_curr_window_back m then Inr p else Inl Out_Of_Fuel)"
| "window_product (Suc n) i p m =
     (if i = m_curr_window_back m then Inr p
      else rbind (nth_r (m_num_list m) (unat (mn_value i))) (\<lambda>x.
        rbind (mn_add_value i 1) (\<lambda>j. window_product n j (p * x) m)))"

definition ma_compute :: "(time \<Rightarrow> u32 \<Rightarrow> time) \<Rightarrow> moving_average \<Rightarrow> time res" where
  "ma_compute root m =
     rbind (curr_window_size m) (\<lambda>n. case ma_type m of
       ARITHMETIC_MEAN \<Rightarrow> if n = 0 then Inl Undefined else Inr (ma_sum m div ucast n)
     | GEOMETRIC_MEAN \<Rightarrow>
         rbind (window_product (length (m_num_list m)) (m_curr_window_front m) 1 m) (\<lambda>p. Inr (root p n))
     | MEDIAN \<Rightarrow>
         rbind (mn_add_value (m_curr_window_front m) (n div 2)) (\<lambda>i. nth_r (m_num_list m) (unat (mn_value i))))"

definition ma_compute_next :: "(time \<Rightarrow> u32 \<Rightarrow> time) \<Rightarrow> time \<Rightarrow> moving_average \<Rightarrow> (time \<times> moving_average) res" where
  "ma_compute_next root x m =
     rbind (ma_update x m) (\<lambda>m1. rbind (ma_compute root m1) (\<lambda>t. Inr (t, m1)))"

section \<open>The window as a ring buffer\<close>

text \<open>The window is a ring buffer that drops its oldest element when it is full.\<close>

definition ring :: "moving_average \<Rightarrow> time circular_queue" where
  "ring m = \<lparr> cq_size = unat (mn_max_value (m_curr_window_back m)), cq_first = unat (mn_value (m_curr_window_back m)),
     cq_last = unat (mn_value (m_curr_window_front m)), cq_queue = map Some (m_num_list m) \<rparr>"

definition ma_window :: "moving_average \<Rightarrow> time list" where
  "ma_window m = cq_items (ring m)"

definition ma_ok :: "moving_average \<Rightarrow> bool" where
  "ma_ok m \<longleftrightarrow> cq_ok (ring m) \<and> 0 < m_max_window_size m \<and>
     mn_max_value (m_curr_window_back m) = m_max_window_size m + 1 \<and>
     mn_max_value (m_curr_window_front m) = m_max_window_size m + 1 \<and>
     (ma_type m = ARITHMETIC_MEAN \<longrightarrow> ma_sum m = sum_list (ma_window m))"

lemma ma_ok_sizes:
  assumes "ma_ok m"
  shows "cq_size (ring m) = Suc (unat (m_max_window_size m))" "Suc (unat (m_max_window_size m)) \<le> 2 ^ 31"
    "0 < unat (m_max_window_size m)" "unat (mn_value (m_curr_window_back m)) < Suc (unat (m_max_window_size m))"
    "unat (mn_value (m_curr_window_front m)) < Suc (unat (m_max_window_size m))"
    "length (m_num_list m) = Suc (unat (m_max_window_size m))" "m_max_window_size m + 1 \<noteq> 0"
proof -
  have ok: "0 < cq_size (ring m)" "cq_size (ring m) \<le> 2 ^ 31" "length (cq_queue (ring m)) = cq_size (ring m)"
    "cq_first (ring m) < cq_size (ring m)" "cq_last (ring m) < cq_size (ring m)"
    using assms by (auto simp: ma_ok_def cq_ok_def)
  have "unat (m_max_window_size m + 1) \<noteq> 0" using ok(1) assms by (simp add: ring_def ma_ok_def)
  then show ne: "m_max_window_size m + 1 \<noteq> 0" by auto
  then show sz: "cq_size (ring m) = Suc (unat (m_max_window_size m))"
    using assms by (simp add: ring_def ma_ok_def add.commute unatSuc)
  show "0 < unat (m_max_window_size m)" using assms by (simp add: ma_ok_def word_less_nat_alt)
  show "Suc (unat (m_max_window_size m)) \<le> 2 ^ 31" "unat (mn_value (m_curr_window_back m)) < Suc (unat (m_max_window_size m))"
    "unat (mn_value (m_curr_window_front m)) < Suc (unat (m_max_window_size m))"
    "length (m_num_list m) = Suc (unat (m_max_window_size m))"
    using ok sz by (simp_all add: ring_def)
qed

lemma mn_step:
  assumes "mn_max_value x = N" "0 < unat N" "unat N \<le> 2 ^ 31" "unat (mn_value x) < unat N" "1 < unat N"
  shows "\<exists>y. mn_add_value x 1 = Inr y \<and> mn_max_value y = N \<and> unat (mn_value y) = Suc (unat (mn_value x)) mod unat N"
proof -
  have "1 mod N = 1" using assms(5) by (simp add: word_less_nat_alt unsigned_1 word_arith_nat_mod)
  moreover have "unat (mn_value x + 1) = Suc (unat (mn_value x))" using assms(3,4) by unat_arith
  ultimately show ?thesis
    using assms by (auto simp: mn_add_value_def mn_add_def ModuloNum_def unat_mod)
qed

lemma addToWindow_ok:
  assumes ok: "ma_ok m"
  shows "\<exists>m'. addToWindow x m = Inr m' \<and> cq_pushCircular x (ring m) = Inr (ring m') \<and>
    m_max_window_size m' = m_max_window_size m \<and> ma_type m' = ma_type m \<and> ma_sum m' = ma_sum m \<and>
    mn_max_value (m_curr_window_back m') = m_max_window_size m + 1 \<and>
    mn_max_value (m_curr_window_front m') = m_max_window_size m + 1"
proof -
  note sz = ma_ok_sizes [OF ok]
  let ?N = "m_max_window_size m + 1" and ?b = "m_curr_window_back m" and ?f = "m_curr_window_front m"
  let ?n = "Suc (unat (m_max_window_size m))"
  have N: "unat ?N = ?n" using sz(7) by (simp add: add.commute unatSuc)
  have mx: "mn_max_value ?b = ?N" "mn_max_value ?f = ?N" using ok by (simp_all add: ma_ok_def)
  have lt: "unat (mn_value ?b) < unat ?N" "unat (mn_value ?f) < unat ?N" using sz N by simp_all
  have pre: "0 < unat ?N" "unat ?N \<le> 2 ^ 31" "1 < unat ?N" using sz N by simp_all
  from mn_step [OF mx(1) pre(1,2) lt(1) pre(3)] obtain b where b: "mn_add_value ?b 1 = Inr b" "mn_max_value b = ?N"
    "unat (mn_value b) = Suc (unat (mn_value ?b)) mod ?n" using N by auto
  from mn_step [OF mx(2) pre(1,2) lt(2) pre(3)] obtain f where f: "mn_add_value ?f 1 = Inr f" "mn_max_value f = ?N"
    "unat (mn_value f) = Suc (unat (mn_value ?f)) mod ?n" using N by auto
  have eq: "b = ?f \<longleftrightarrow> unat (mn_value b) = unat (mn_value ?f)"
    using b(2) mx(2) by (cases b; cases "?f") (auto simp: word_unat_eq_iff)
  let ?f' = "if b = ?f then f else ?f"
  let ?m = "m\<lparr> m_num_list := (m_num_list m)[unat (mn_value ?b) := x], m_curr_window_back := b, m_curr_window_front := ?f' \<rparr>"
  have add: "addToWindow x m = Inr ?m"
    using b(1) f(1) sz(4,6) by (simp add: addToWindow_def upd_r_def)
  have cq: "cq_ok (ring m)" using ok by (simp add: ma_ok_def)
  have full: "cq_full (ring m) = Inr (b = ?f)"
    using eq b(3) sz(1) cq sz(2,4) by (simp add: cq_full_def ring_def mx N)
  have ring': "ring ?m = (ring m)\<lparr> cq_queue := (cq_queue (ring m))[unat (mn_value ?b) := Some x],
      cq_first := Suc (unat (mn_value ?b)) mod ?n, cq_last := (if b = ?f then Suc (unat (mn_value ?f)) mod ?n else unat (mn_value ?f)) \<rparr>"
    using b f mx N by (simp add: ring_def map_update)
  have "cq_pushCircular x (ring m) = Inr (ring ?m)"
  proof (cases "b = ?f")
    case True
    have "cq_items (ring m) \<noteq> []"
      using full True cq_full_iff [OF cq] sz(1,3) by auto
    then obtain y ys where it: "cq_items (ring m) = y # ys" by (cases "cq_items (ring m)") auto
    from cq_pop_ok [OF cq it] obtain q where q: "cq_pop (ring m) = Inr (y, q)" "cq_ok q" "cq_items q = ys" "cq_size q = cq_size (ring m)" by blast
    have q': "q = (ring m)\<lparr> cq_last := Suc (unat (mn_value ?f)) mod ?n \<rparr>"
      using q(1) cq sz(1,2,5) by (auto simp: cq_pop_def ring_def mx N elim!: rbindE split: if_splits)
    have "\<not> Suc (length (cq_items q)) = cq_size q" using full True cq_full_iff [OF cq] it q by simp
    then have "cq_push x q = Inr (ring ?m)"
      using q(2) cq_full_iff [OF q(2)] sz(1,2,4,6) True unfolding ring' q'
      by (simp add: cq_push_def upd_r_def ring_def mx N)
    then show ?thesis using full True q(1) by (simp add: cq_pushCircular_def)
  next
    case False
    then show ?thesis
      using full sz(1,2,4,6) cq unfolding ring' by (simp add: cq_pushCircular_def cq_push_def upd_r_def) (simp add: ring_def mx N)
  qed
  with add b f mx show ?thesis by auto
qed

lemma window_size:
  assumes "ma_ok m"
  shows "\<exists>n. curr_window_size m = Inr n \<and> unat n = length (ma_window m)"
proof -
  note sz = ma_ok_sizes [OF assms]
  have mx: "mn_max_value (m_curr_window_back m) = m_max_window_size m + 1" "mn_max_value (m_curr_window_front m) = m_max_window_size m + 1"
    using assms by (simp_all add: ma_ok_def)
  have N: "unat (m_max_window_size m + 1) = Suc (unat (m_max_window_size m))" using sz(7) by (simp add: add.commute unatSuc)
  let ?b = "mn_value (m_curr_window_back m)" and ?f = "mn_value (m_curr_window_front m)" and ?N = "m_max_window_size m + 1"
  have "unat (if ?b \<ge> ?f then ?b - ?f else ?N - ?f + ?b) = (unat ?b + Suc (unat (m_max_window_size m)) - unat ?f) mod Suc (unat (m_max_window_size m))"
  proof (cases "?b \<ge> ?f")
    case True
    then have "unat (?b - ?f) = unat ?b - unat ?f" by (simp add: unat_sub)
    then show ?thesis using True sz(4,5) by (simp add: word_le_nat_alt mod_if)
  next
    case False
    have d: "unat (?N - ?f) = unat ?N - unat ?f" using sz(5) N by (simp add: unat_sub word_le_nat_alt)
    have "unat (?N - ?f) + unat ?b < 2 ^ LENGTH(32)"
      using False sz(2,4,5) N by (simp add: d word_le_nat_alt)
    then have "unat (?N - ?f + ?b) = unat (?N - ?f) + unat ?b" by (rule unat_add_lem [THEN iffD1])
    then have "unat (?N - ?f + ?b) = unat ?N - unat ?f + unat ?b" unfolding d .
    then show ?thesis using False sz(4,5) N by (simp add: word_le_nat_alt)
  qed
  then show ?thesis
    using mx sz(1) by (simp add: curr_window_size_def mn_sub_def ModuloNum_def ma_window_def cq_items_def cq_count_def ring_def N split: if_splits)
qed

section \<open>Sums over the window\<close>

text \<open>\<open>ma_ok\<close> holds of a new average; an update drops the oldest number when the window is full, and
  the arithmetic mean is the sum of the window, which is kept incrementally, over its length.\<close>

lemma MovingAverage_ok:
  assumes "0 < n" "unat n < 2 ^ 31"
  shows "ma_ok (MovingAverage ty n)" and "ma_window (MovingAverage ty n) = []"
proof -
  have n: "unat (n + 1) = Suc (unat n)" using assms(2) by (simp add: unat_word_ariths)
  show "ma_ok (MovingAverage ty n)" "ma_window (MovingAverage ty n) = []"
    using assms n by (simp_all add: ma_ok_def MovingAverage_def ring_def ModuloNum_def cq_ok_def cq_count_def ma_window_def cq_items_def)
qed

lemma front_is_oldest:
  assumes ok: "ma_ok m" and w: "ma_window m = x # xs"
  shows "nth_r (m_num_list m) (unat (mn_value (m_curr_window_front m))) = Inr x"
proof -
  have "cq_ok (ring m)" using ok by (simp add: ma_ok_def)
  from cq_pop_ok [OF this w [unfolded ma_window_def]] have "cq_get (ring m) (cq_last (ring m)) = Inr x"
    by (auto simp: cq_pop_def elim!: rbindE split: if_splits)
  then show ?thesis
    using ma_ok_sizes(5,6) [OF ok] by (simp add: cq_get_def ring_def nth_r_def)
qed

lemma addToWindow_sum:
  "addToWindow x (m\<lparr> ma_sum := s \<rparr>) = rbind (addToWindow x m) (\<lambda>m'. Inr (m'\<lparr> ma_sum := s \<rparr>))"
  by (cases m) (simp add: addToWindow_def rbind_assoc cong: if_cong)

lemma ring_sum [simp]: "ring (m\<lparr> ma_sum := s \<rparr>) = ring m"
  by (simp add: ring_def)

definition slide :: "nat \<Rightarrow> time \<Rightarrow> time list \<Rightarrow> time list" where
  "slide n x w = (if length w = n then tl w else w) @ [x]"

lemma window_bound: "ma_ok m \<Longrightarrow> length (ma_window m) \<le> unat (m_max_window_size m)"
  using cq_count_less [of "ring m"] ma_ok_sizes(1) [of m] by (simp add: ma_window_def cq_items_def ma_ok_def)

lemma ma_update_ok:
  assumes ok: "ma_ok m"
  shows "\<exists>m'. ma_update x m = Inr m' \<and> ma_ok m' \<and> m_max_window_size m' = m_max_window_size m \<and>
    ma_type m' = ma_type m \<and> ma_window m' = slide (unat (m_max_window_size m)) x (ma_window m)"
proof -
  let ?n = "unat (m_max_window_size m)" and ?w = "ma_window m"
  let ?s = "if ma_type m = ARITHMETIC_MEAN then sum_list (slide ?n x ?w) else ma_sum m"
  let ?m = "m\<lparr> ma_sum := ?s \<rparr>"
  note sz = ma_ok_sizes [OF ok]
  obtain k where k: "curr_window_size m = Inr k" "unat k = length ?w" using window_size [OF ok] by blast
  have "ma_update x m = addToWindow x ?m"
  proof (cases "ma_type m = ARITHMETIC_MEAN")
    case True
    have sum: "ma_sum m = sum_list ?w" using ok True by (simp add: ma_ok_def)
    show ?thesis
    proof (cases "length ?w = ?n")
      case full: True
      then obtain y ys where w: "?w = y # ys" using sz(3) by (cases ?w) auto
      have "k = m_max_window_size m" using full k by (simp add: word_unat_eq_iff)
      with True k front_is_oldest [OF ok w] show ?thesis
        by (simp add: ma_update_def sum slide_def full) (simp add: w full [unfolded w, simplified])
    next
      case False
      then have "k \<noteq> m_max_window_size m" using k by auto
      with True False k show ?thesis by (simp add: ma_update_def sum slide_def)
    qed
  qed (simp add: ma_update_def)
  moreover have "\<exists>m'. addToWindow x ?m = Inr m' \<and> cq_pushCircular x (ring m) = Inr (ring m') \<and>
    m_max_window_size m' = m_max_window_size m \<and> ma_type m' = ma_type m \<and> ma_sum m' = ?s \<and>
    mn_max_value (m_curr_window_back m') = m_max_window_size m + 1 \<and>
    mn_max_value (m_curr_window_front m') = m_max_window_size m + 1"
    using addToWindow_ok [OF ok, of x] by (auto simp: addToWindow_sum)
  then obtain m' where m': "addToWindow x ?m = Inr m'" "cq_pushCircular x (ring m) = Inr (ring m')"
    "m_max_window_size m' = m_max_window_size m" "ma_type m' = ma_type m" "ma_sum m' = ?s"
    "mn_max_value (m_curr_window_back m') = m_max_window_size m + 1"
    "mn_max_value (m_curr_window_front m') = m_max_window_size m + 1" by blast
  moreover have "cq_ok (ring m)" "1 < cq_size (ring m)" using ok sz(1,3) by (simp_all add: ma_ok_def)
  from cq_pushCircular_ok [OF this, of x] m'(2) have "cq_ok (ring m')" "ma_window m' = slide ?n x ?w"
    by (auto simp: ma_window_def slide_def sz(1))
  ultimately show ?thesis using ok by (auto simp: ma_ok_def)
qed

lemma ma_compute_mean:
  assumes ok: "ma_ok m" and "ma_window m \<noteq> []" and "ma_type m = ARITHMETIC_MEAN"
  shows "ma_compute root m = Inr (sum_list (ma_window m) div of_nat (length (ma_window m)))"
proof -
  obtain k where k: "curr_window_size m = Inr k" "unat k = length (ma_window m)" using window_size [OF ok] by blast
  then have "k \<noteq> 0" using assms(2) by auto
  moreover have "(ucast k :: time) = of_nat (length (ma_window m))"
    unfolding k(2) [symmetric] by simp
  ultimately show ?thesis using k assms by (simp add: ma_compute_def ma_ok_def)
qed

end
