(* ===== verification/Queue_Model.thy ===== *)
theory Queue_Model
  imports Moving_Average
begin

text \<open>
  Models of queueing delay: a single server (\<^verbatim>\<open>queue_model_basic.cc\<close>), a server with a history of
  its free intervals (\<^verbatim>\<open>queue_model_history_list.cc\<close>), a number of servers
  (\<^verbatim>\<open>contention_model.cc\<close> with \<^verbatim>\<open>queue_model_contention.cc\<close>), and an M/G/1 queue over a window of
  time (\<^verbatim>\<open>queue_model_windowed_mg1.cc\<close>). Times are 64-bit numbers of femtoseconds and wrap. The
  floating-point formula of the M/G/1 queue is the argument \<open>mg1\<close>, of the number of arrivals, the sum
  of their service times, the mean of the squares of these and the size of the window in picoseconds,
  and gives a number of picoseconds.
\<close>

section \<open>One server\<close>

record queue_model_basic =
  m_queue_time :: time
  m_moving_average :: "moving_average option"

definition QueueModelBasic :: "bool \<Rightarrow> u32 \<Rightarrow> string \<Rightarrow> queue_model_basic res" where
  "QueueModelBasic moving_avg_enabled moving_avg_window_size moving_avg_type_str =
     (if moving_avg_enabled then
        rbind (parseAvgType moving_avg_type_str) (\<lambda>ty.
          Inr \<lparr> m_queue_time = 0, m_moving_average = Some (MovingAverage ty moving_avg_window_size) \<rparr>)
      else Inr \<lparr> m_queue_time = 0, m_moving_average = None \<rparr>)"

definition basic_delay ::
    "(time \<Rightarrow> u32 \<Rightarrow> time) \<Rightarrow> time \<Rightarrow> time \<Rightarrow> queue_model_basic \<Rightarrow> (time \<times> queue_model_basic) res" where
  "basic_delay root pkt_time processing_time q =
     rbind (case m_moving_average q of
              None \<Rightarrow> Inr (pkt_time, None)
            | Some m \<Rightarrow> rbind (ma_compute_next root pkt_time m) (\<lambda>(t, m1). Inr (t, Some m1))) (\<lambda>(ref_time, avg).
       Inr (if m_queue_time q > ref_time then m_queue_time q - ref_time else 0,
            q\<lparr> m_queue_time := max (m_queue_time q) ref_time + processing_time, m_moving_average := avg \<rparr>))"

section \<open>Free intervals\<close>

record queue_model_history_list =
  m_min_processing_time :: time
  m_max_free_interval_list_size :: u32
  m_free_interval_list :: "(time \<times> time) list"
  m_utilized_time :: time
  m_total_queue_delay :: time
  m_average_delay :: moving_average
  m_analytical_model_enabled :: bool
  m_total_requests :: u64
  m_total_requests_using_analytical_model :: u64

definition QueueModelHistoryList :: "time \<Rightarrow> bool \<Rightarrow> u32 \<Rightarrow> queue_model_history_list" where
  "QueueModelHistoryList min_processing_time analytical_model_enabled max_list_size =
     \<lparr> m_min_processing_time = min_processing_time, m_max_free_interval_list_size = max_list_size,
       m_free_interval_list = [(0, push_bit 63 1)], m_utilized_time = 0, m_total_queue_delay = 0,
       m_average_delay = MovingAverage ARITHMETIC_MEAN max_list_size,
       m_analytical_model_enabled = analytical_model_enabled, m_total_requests = 0,
       m_total_requests_using_analytical_model = 0 \<rparr>"

text \<open>The loop over the free intervals: the delay and the list after it, or \<open>None\<close> at the end.\<close>

fun place_request :: "time \<Rightarrow> time \<Rightarrow> time \<Rightarrow> (time \<times> time) list \<Rightarrow> (time \<times> (time \<times> time) list) option" where
  "place_request mpt t p [] = None"
| "place_request mpt t p ((a, b) # l) =
     (if t \<ge> a \<and> t + p \<le> b then
        Some (0, (if t - a \<ge> mpt then [(a, t)] else []) @ (if b - (t + p) \<ge> mpt then [(t + p, b)] else []) @ l)
      else if t < a then
        Some (a - t, (if b - (a + p) \<ge> mpt then [(a + p, b)] else []) @ l)
      else map_option (\<lambda>(d, l'). (d, (a, b) # l')) (place_request mpt t p l))"

definition computeUsingHistoryList ::
    "time \<Rightarrow> time \<Rightarrow> queue_model_history_list \<Rightarrow> (time \<times> queue_model_history_list) res" where
  "computeUsingHistoryList pkt_time processing_time q =
     (if \<not> length (m_free_interval_list q) \<le> unat (m_max_free_interval_list_size q) then Inl Assert_Failed
      else case place_request (m_min_processing_time q) pkt_time processing_time (m_free_interval_list q) of
        None \<Rightarrow> Inl Assert_Failed
      | Some (d, l) \<Rightarrow>
          if d = - 1 then Inl Assert_Failed
          else Inr (d, q\<lparr> m_free_interval_list :=
            (if length l > unat (m_max_free_interval_list_size q) then tl l else l) \<rparr>))"

definition computeUsingAnalyticalModel :: "queue_model_history_list \<Rightarrow> time res" where
  "computeUsingAnalyticalModel q = ma_compute (\<lambda>p n. p) (m_average_delay q)"

definition updateAverageDelay :: "time \<Rightarrow> queue_model_history_list \<Rightarrow> queue_model_history_list res" where
  "updateAverageDelay d q = rbind (ma_update d (m_average_delay q)) (\<lambda>m. Inr (q\<lparr> m_average_delay := m \<rparr>))"

definition updateQueueUtilization :: "time \<Rightarrow> queue_model_history_list \<Rightarrow> queue_model_history_list" where
  "updateQueueUtilization processing_time q = q\<lparr> m_utilized_time := m_utilized_time q + processing_time \<rparr>"

definition history_delay ::
    "time \<Rightarrow> time \<Rightarrow> queue_model_history_list \<Rightarrow> (time \<times> queue_model_history_list) res" where
  "history_delay pkt_time processing_time q =
     (case m_free_interval_list q of
        [] \<Rightarrow> Inl Assert_Failed
      | (oldest, e) # l \<Rightarrow>
          rbind (if m_analytical_model_enabled q \<and> pkt_time + processing_time \<le> oldest then
                   let q1 = q\<lparr> m_total_requests_using_analytical_model := m_total_requests_using_analytical_model q + 1 \<rparr>
                   in rbind (computeUsingAnalyticalModel q1) (\<lambda>d. Inr (d, q1))
                 else
                   rbind (computeUsingHistoryList pkt_time processing_time q) (\<lambda>(d, q1).
                   rbind (updateAverageDelay d q1) (\<lambda>q2. Inr (d, q2)))) (\<lambda>(d, q1).
            let q2 = updateQueueUtilization processing_time q1
            in Inr (d, q2\<lparr> m_total_requests := m_total_requests q2 + 1,
                          m_total_queue_delay := m_total_queue_delay q2 + d \<rparr>)))"

section \<open>Several servers\<close>

record contention_model =
  m_num_outstanding :: u32
  m_busy :: "(time \<times> u64) list"
  m_t_last :: time
  m_n_requests :: u64
  m_n_barriers :: u64
  m_n_outoforder :: u64
  m_n_simultaneous :: u64
  m_n_hasfreefail :: u64
  m_total_delay :: time
  m_total_barrier_delay :: time

definition ContentionModel :: "u32 \<Rightarrow> contention_model" where
  "ContentionModel num_outstanding =
     \<lparr> m_num_outstanding = num_outstanding, m_busy = replicate (unat num_outstanding) (0, 0), m_t_last = 0,
       m_n_requests = 0, m_n_barriers = 0, m_n_outoforder = 0, m_n_simultaneous = 0, m_n_hasfreefail = 0,
       m_total_delay = 0, m_total_barrier_delay = 0 \<rparr>"

text \<open>The units are \<open>m_busy\<close> (\<^verbatim>\<open>m_time\<close> in the source): when each is free again, and its tag. There are
  \<open>m_num_outstanding\<close> of them.\<close>

definition getNumUsed :: "time \<Rightarrow> contention_model \<Rightarrow> nat" where
  "getNumUsed t c = length (filter (\<lambda>u. fst u > t) (m_busy c))"

definition getTagCompletionTime :: "u64 \<Rightarrow> contention_model \<Rightarrow> time" where
  "getTagCompletionTime tag c = (case find (\<lambda>u. snd u = tag) (m_busy c) of None \<Rightarrow> - 1 | Some u \<Rightarrow> fst u)"

definition hasFreeSlot :: "time \<Rightarrow> u64 \<Rightarrow> contention_model \<Rightarrow> bool \<times> contention_model" where
  "hasFreeSlot t tag c =
     (if \<exists>u \<in> set (m_busy c). fst u \<le> t \<or> snd u = tag then (True, c)
      else (False, c\<lparr> m_n_hasfreefail := m_n_hasfreefail c + 1 \<rparr>))"

definition hasTag :: "u64 \<Rightarrow> contention_model \<Rightarrow> bool" where
  "hasTag tag c \<longleftrightarrow> (\<exists>u \<in> set (m_busy c). snd u = tag)"

definition getBarrierCompletionTime :: "time \<Rightarrow> time \<Rightarrow> u64 \<Rightarrow> contention_model \<Rightarrow> time \<times> contention_model" where
  "getBarrierCompletionTime t d tag c =
     (if m_num_outstanding c = 0 then (t + d, c)
      else
        let max_time = fold (\<lambda>u x. if fst u > x then fst u else x) (m_busy c) t
        in (max_time + d, c\<lparr> m_busy := map (\<lambda>u. (max_time + d, tag)) (m_busy c),
              m_total_barrier_delay := m_total_barrier_delay c + (max_time - t), m_n_barriers := m_n_barriers c + 1 \<rparr>))"

text \<open>The loop that looks for a unit: the first that is free at \<open>t\<close>, otherwise the first of those
  that are free soonest. \<open>i\<close> is the number of the unit at hand, \<open>unit\<close> the best so far.\<close>

fun find_unit :: "time \<Rightarrow> time list \<Rightarrow> nat \<Rightarrow> nat \<Rightarrow> time list \<Rightarrow> nat" where
  "find_unit t ts best i [] = best"
| "find_unit t ts best i (x # xs) =
     (if x \<le> t then i
      else find_unit t ts (if x < ts ! best then i else best) (Suc i) xs)"

definition free_unit :: "time \<Rightarrow> contention_model \<Rightarrow> nat" where
  "free_unit t c = find_unit t (map fst (m_busy c)) 0 0 (map fst (m_busy c))"

definition getCompletionTime :: "time \<Rightarrow> time \<Rightarrow> u64 \<Rightarrow> contention_model \<Rightarrow> (time \<times> contention_model) res" where
  "getCompletionTime t d tag c =
     (if m_num_outstanding c = 0 then Inr (t + d, c)
      else
        rbind (if t = 0 then Inr (d, c)
               else if t < m_t_last c then Inr (t + d, c\<lparr> m_n_outoforder := m_n_outoforder c + 1 \<rparr>)
               else
                 let c1 = (if t = m_t_last c then c\<lparr> m_n_simultaneous := m_n_simultaneous c + 1 \<rparr> else c);
                     i = free_unit t c1
                 in rbind (nth_r (m_busy c1) i) (\<lambda>u.
                    let t_begin = (if t < fst u then fst u else t); t_end = t_begin + d
                    in Inr (t_end, c1\<lparr> m_busy := (m_busy c1)[i := (t_end, tag)],
                         m_total_delay := m_total_delay c1 + (t_begin - t), m_t_last := t \<rparr>))) (\<lambda>(t_end, c2).
          Inr (t_end, c2\<lparr> m_n_requests := m_n_requests c2 + 1 \<rparr>)))"

definition getStartTime :: "time \<Rightarrow> contention_model \<Rightarrow> time res" where
  "getStartTime t c =
     (if m_num_outstanding c = 0 then Inr t
      else if t < m_t_last c then Inr t
      else if \<exists>u \<in> set (m_busy c). fst u \<le> t then Inr t
      else rbind (nth_r (m_busy c) (free_unit t c)) (\<lambda>u. Inr (if t < fst u then fst u else t)))"

definition contention_delay :: "time \<Rightarrow> time \<Rightarrow> contention_model \<Rightarrow> (time \<times> contention_model) res" where
  "contention_delay pkt_time processing_time c =
     rbind (getCompletionTime pkt_time processing_time 0 c) (\<lambda>(t_complete, c1).
       Inr (t_complete - pkt_time - processing_time, c1))"

text \<open>The same operations for components that count in cycles, of a clock whose period is \<open>period\<close>.\<close>

definition cyclesToSubsecondTime :: "time \<Rightarrow> u64 \<Rightarrow> time" where
  "cyclesToSubsecondTime period cycles = period * cycles"

definition subsecondTimeToCycles :: "time \<Rightarrow> time \<Rightarrow> u64 res" where
  "subsecondTimeToCycles period t = (if period = 0 then Inl Undefined else Inr (t div period))"

definition getNumUsed_cycles :: "time \<Rightarrow> u64 \<Rightarrow> contention_model \<Rightarrow> nat" where
  "getNumUsed_cycles period t c = getNumUsed (cyclesToSubsecondTime period t) c"

definition hasFreeSlot_cycles :: "time \<Rightarrow> u64 \<Rightarrow> u64 \<Rightarrow> contention_model \<Rightarrow> bool \<times> contention_model" where
  "hasFreeSlot_cycles period t tag c = hasFreeSlot (cyclesToSubsecondTime period t) tag c"

definition getBarrierCompletionTime_cycles :: "time \<Rightarrow> u64 \<Rightarrow> u64 \<Rightarrow> u64 \<Rightarrow> contention_model \<Rightarrow> (u64 \<times> contention_model) res" where
  "getBarrierCompletionTime_cycles period t d tag c =
     (let (e, c1) = getBarrierCompletionTime (cyclesToSubsecondTime period t) (cyclesToSubsecondTime period d) tag c
      in rbind (subsecondTimeToCycles period e) (\<lambda>n. Inr (n, c1)))"

definition getCompletionTime_cycles :: "time \<Rightarrow> u64 \<Rightarrow> u64 \<Rightarrow> u64 \<Rightarrow> contention_model \<Rightarrow> (u64 \<times> contention_model) res" where
  "getCompletionTime_cycles period t d tag c =
     rbind (getCompletionTime (cyclesToSubsecondTime period t) (cyclesToSubsecondTime period d) tag c) (\<lambda>(e, c1).
     rbind (subsecondTimeToCycles period e) (\<lambda>n. Inr (n, c1)))"

definition getStartTime_cycles :: "time \<Rightarrow> u64 \<Rightarrow> contention_model \<Rightarrow> u64 res" where
  "getStartTime_cycles period t c =
     rbind (getStartTime (cyclesToSubsecondTime period t) c) (subsecondTimeToCycles period)"

section \<open>A window of time\<close>

record queue_model_windowed_mg1 =
  m_window_size :: time
  mg_total_requests :: u64
  mg_total_utilized_time :: time
  mg_total_queue_delay :: time
  m_window :: "(time \<times> time) list"
  m_num_arrivals :: u64
  m_service_time_sum :: u64
  m_service_time_sum2 :: u64

definition QueueModelWindowedMG1 :: "time \<Rightarrow> queue_model_windowed_mg1" where
  "QueueModelWindowedMG1 window_size =
     \<lparr> m_window_size = window_size, mg_total_requests = 0, mg_total_utilized_time = 0, mg_total_queue_delay = 0,
       m_window = [], m_num_arrivals = 0, m_service_time_sum = 0, m_service_time_sum2 = 0 \<rparr>"

text \<open>The multimap is a list in the order of its keys; a new element follows those with an equal key.\<close>

definition addItem :: "time \<Rightarrow> time \<Rightarrow> queue_model_windowed_mg1 \<Rightarrow> queue_model_windowed_mg1" where
  "addItem pkt_time service_time q = q\<lparr>
     m_window := takeWhile (\<lambda>e. fst e \<le> pkt_time) (m_window q) @ (pkt_time, service_time) # dropWhile (\<lambda>e. fst e \<le> pkt_time) (m_window q),
     m_num_arrivals := m_num_arrivals q + 1,
     m_service_time_sum := m_service_time_sum q + getPS service_time,
     m_service_time_sum2 := m_service_time_sum2 q + getPS service_time * getPS service_time \<rparr>"

function removeItems :: "time \<Rightarrow> queue_model_windowed_mg1 \<Rightarrow> queue_model_windowed_mg1" where
  "removeItems earliest_time q = (case m_window q of
      [] \<Rightarrow> q
    | (t, s) # w \<Rightarrow>
        if t < earliest_time then
          removeItems earliest_time (q\<lparr> m_num_arrivals := m_num_arrivals q - 1,
            m_service_time_sum := m_service_time_sum q - getPS s,
            m_service_time_sum2 := m_service_time_sum2 q - getPS s * getPS s, m_window := w \<rparr>)
        else q)"
  by pat_completeness auto
termination
  by (relation "measure (\<lambda>(t, q). length (m_window q))") auto

declare removeItems.simps [simp del]

definition mg1_delay ::
    "(u64 \<Rightarrow> u64 \<Rightarrow> u64 \<Rightarrow> u64 \<Rightarrow> u64) \<Rightarrow> time \<Rightarrow> time \<Rightarrow> time \<Rightarrow> queue_model_windowed_mg1 \<Rightarrow> time \<times> queue_model_windowed_mg1" where
  "mg1_delay mg1 global_time pkt_time processing_time q =
     (let q1 = removeItems (max (global_time - m_window_size q) (pkt_time - 10 * m_window_size q)) q;
          t_queue = (if m_num_arrivals q1 > 1 then
                       min (1000 * mg1 (m_num_arrivals q1) (m_service_time_sum q1)
                              (m_service_time_sum2 q1 div m_num_arrivals q1) (getPS (m_window_size q1))) (m_window_size q1)
                     else 0);
          q2 = addItem pkt_time processing_time q1
      in (t_queue, q2\<lparr> mg_total_requests := mg_total_requests q2 + 1,
            mg_total_utilized_time := mg_total_utilized_time q2 + processing_time,
            mg_total_queue_delay := mg_total_queue_delay q2 + t_queue \<rparr>))"

section \<open>Choice of a model\<close>

datatype queue_model =
    Basic queue_model_basic
  | History_List queue_model_history_list
  | Contention contention_model
  | Windowed_MG1 queue_model_windowed_mg1

record queue_cfg =
  cfg_moving_avg_enabled :: bool
  cfg_moving_avg_window_size :: u32
  cfg_moving_avg_type :: string
  cfg_analytical_model_enabled :: bool
  cfg_max_list_size :: u32
  cfg_window_size :: u64

definition createQueueModel :: "queue_cfg \<Rightarrow> string \<Rightarrow> time \<Rightarrow> queue_model res" where
  "createQueueModel cfg model_type min_processing_time =
     (if model_type = ''basic'' then
        rbind (QueueModelBasic (cfg_moving_avg_enabled cfg) (cfg_moving_avg_window_size cfg) (cfg_moving_avg_type cfg))
          (\<lambda>q. Inr (Basic q))
      else if model_type = ''history_list'' then
        Inr (History_List (QueueModelHistoryList min_processing_time (cfg_analytical_model_enabled cfg) (cfg_max_list_size cfg)))
      else if model_type = ''contention'' then Inr (Contention (ContentionModel 1))
      else if model_type = ''windowed_mg1'' then Inr (Windowed_MG1 (QueueModelWindowedMG1 (cfg_window_size cfg * 1000000)))
      else Inl Log_Error)"

text \<open>What the models ask of the rest of the simulator: roots, the M/G/1 formula and the global clock.\<close>

record queue_env =
  env_root :: "time \<Rightarrow> u32 \<Rightarrow> time"
  env_mg1 :: "u64 \<Rightarrow> u64 \<Rightarrow> u64 \<Rightarrow> u64 \<Rightarrow> u64"
  env_global_time :: time

definition computeQueueDelay :: "queue_env \<Rightarrow> time \<Rightarrow> time \<Rightarrow> queue_model \<Rightarrow> (time \<times> queue_model) res" where
  "computeQueueDelay env t p q = (case q of
      Basic x \<Rightarrow> rbind (basic_delay (env_root env) t p x) (\<lambda>(d, y). Inr (d, Basic y))
    | History_List x \<Rightarrow> rbind (history_delay t p x) (\<lambda>(d, y). Inr (d, History_List y))
    | Contention x \<Rightarrow> rbind (contention_delay t p x) (\<lambda>(d, y). Inr (d, Contention y))
    | Windowed_MG1 x \<Rightarrow> (case mg1_delay (env_mg1 env) (env_global_time env) t p x of (d, y) \<Rightarrow> Inr (d, Windowed_MG1 y)))"

end
