(* ===== verification/Contention_Props.thy ===== *)
theory Contention_Props
  imports Queue_Model "HOL-Library.Multiset"
begin

text \<open>
  What the queue models with a fixed number of servers compute. The reference is a queue in which
  requests are served in the order they arrive, each by the server that is free first; its state is
  the multiset of the times at which the servers are free again. \<open>contention_model\<close> keeps an array
  instead, takes the first unit that is free at all, and answers requests it sees out of order without
  a wait.
\<close>

section \<open>The unit that is chosen\<close>

lemma find_unit_inv:
  assumes "ts = pre @ xs" "ts \<noteq> []" "best \<le> length pre" "best < length ts"
    and "\<forall>y \<in> set pre. t < y \<and> ts ! best \<le> y"
  shows "find_unit t ts best (length pre) xs < length ts \<and>
    (ts ! find_unit t ts best (length pre) xs \<le> t \<or>
     (\<forall>y \<in> set ts. t < y \<and> ts ! find_unit t ts best (length pre) xs \<le> y))"
  using assms
proof (induction xs arbitrary: pre best)
  case Nil
  then show ?case by auto
next
  case (Cons x xs)
  have x: "ts ! length pre = x" using Cons.prems(1) by simp
  show ?case
  proof (cases "x \<le> t")
    case True
    then show ?thesis using Cons.prems(1) x by simp
  next
    case False
    let ?best = "if x < ts ! best then length pre else best"
    have "ts = (pre @ [x]) @ xs" "?best \<le> length (pre @ [x])" "?best < length ts"
      using Cons.prems by auto
    moreover have "\<forall>y \<in> set (pre @ [x]). t < y \<and> ts ! ?best \<le> y"
      using Cons.prems(5) False x by force
    ultimately show ?thesis
      using Cons.IH [of "pre @ [x]" ?best] Cons.prems(2) False by simp
  qed
qed

lemma free_unit_best:
  assumes "m_busy c \<noteq> []"
  shows "free_unit t c < length (m_busy c)"
    and "fst (m_busy c ! free_unit t c) \<le> t \<or>
      (\<forall>u \<in> set (m_busy c). t < fst u \<and> fst (m_busy c ! free_unit t c) \<le> fst u)"
proof -
  have "map fst (m_busy c) \<noteq> []" using assms by simp
  note inv = find_unit_inv [of "map fst (m_busy c)" "[]" "map fst (m_busy c)" 0 t, simplified, OF this [simplified]]
  from inv show "free_unit t c < length (m_busy c)" and "fst (m_busy c ! free_unit t c) \<le> t \<or>
      (\<forall>u \<in> set (m_busy c). t < fst u \<and> fst (m_busy c ! free_unit t c) \<le> fst u)"
    by (auto simp: free_unit_def)
qed

section \<open>A first-come first-served queue\<close>

definition serve :: "nat \<Rightarrow> nat \<Rightarrow> nat multiset \<Rightarrow> nat \<times> nat multiset" where
  "serve t d M = (let e = max t (Min_mset M) + d in (e, add_mset e (M - {#Min_mset M#})))"

fun serve_all :: "(nat \<times> nat) list \<Rightarrow> nat multiset \<Rightarrow> nat list" where
  "serve_all [] M = []"
| "serve_all ((t, d) # rs) M = fst (serve t d M) # serve_all rs (snd (serve t d M))"

text \<open>Two multisets are the same from \<open>t\<close> on when they differ only in times up to \<open>t\<close>.\<close>

abbreviation same_from :: "nat \<Rightarrow> nat multiset \<Rightarrow> nat multiset \<Rightarrow> bool" where
  "same_from t A B \<equiv> image_mset (max t) A = image_mset (max t) B"

lemma same_from_later: "same_from s A B \<Longrightarrow> s \<le> t \<Longrightarrow> same_from t A B"
proof -
  assume eq: "same_from s A B" and "s \<le> t"
  then have "max t (max s x) = max t x" for x by simp
  then have "image_mset (max t) M = image_mset (max t) (image_mset (max s) M)" for M
    by (simp add: image_mset.compositionality comp_def)
  then show ?thesis using eq by metis
qed

lemma max_Min_mset: "M \<noteq> {#} \<Longrightarrow> max t (Min_mset M) = Min_mset (image_mset (max t) M)"
  by (simp add: mono_Min_commute mono_def max.coboundedI2)

lemma serve_any_free:
  assumes same: "same_from t A B" and a: "a \<in># A" and best: "a \<le> t \<or> a = Min_mset A"
  shows "max t a = max t (Min_mset B)"
    and "same_from t (add_mset e (A - {#a#})) (add_mset e (B - {#Min_mset B#}))"
proof -
  have ne: "A \<noteq> {#}" "B \<noteq> {#}" using a same by auto
  have "max t a = max t (Min_mset A)"
    using best Min_le [OF finite_set_mset a] by (auto simp: max_def)
  then show eq: "max t a = max t (Min_mset B)"
    using same max_Min_mset [OF ne(1), of t] max_Min_mset [OF ne(2), of t] by simp
  have "Min_mset B \<in># B" using ne(2) by (simp add: Min_in)
  then show "same_from t (add_mset e (A - {#a#})) (add_mset e (B - {#Min_mset B#}))"
    using same a eq by (simp add: image_mset_Diff)
qed

section \<open>Units as servers\<close>

definition units :: "contention_model \<Rightarrow> nat multiset" where
  "units c = image_mset (\<lambda>u. unat (fst u)) (mset (m_busy c))"

lemma mset_update_unit:
  assumes "i < length us"
  shows "image_mset f (mset (us[i := v])) = add_mset (f v) (image_mset f (mset us) - {#f (us ! i)#})"
  using assms by (simp add: mset_update image_mset_Diff nth_mem_mset)

text \<open>A request that arrives no earlier than the last one.\<close>

lemma getCompletionTime_ok:
  assumes n: "m_num_outstanding c \<noteq> 0" and busy: "m_busy c \<noteq> []"
    and t: "t \<noteq> 0" "m_t_last c \<le> t" and same: "same_from (unat t) (units c) M"
    and room: "\<forall>x \<in># units c. max (unat t) x + unat d < 2 ^ 64"
  shows "\<exists>e c'. getCompletionTime t d tag c = Inr (e, c') \<and> unat e = fst (serve (unat t) (unat d) M) \<and>
    same_from (unat t) (units c') (snd (serve (unat t) (unat d) M)) \<and> m_t_last c' = t \<and>
    m_num_outstanding c' = m_num_outstanding c \<and> length (m_busy c') = length (m_busy c) \<and>
    (\<forall>x \<in># units c'. x \<in># units c \<or> x = unat e) \<and> (\<exists>x \<in># units c. unat e = max (unat t) x + unat d) \<and>
    getStartTime t c = Inr (e - d)"
proof -
  define i where "i = free_unit t c"
  define b where "b = fst (m_busy c ! i)"
  have i: "i < length (m_busy c)" and best: "b \<le> t \<or> (\<forall>u \<in> set (m_busy c). t < fst u \<and> b \<le> fst u)"
    using free_unit_best [OF busy, of t] unfolding i_def b_def by blast+
  have a: "unat b \<in># units c" unfolding units_def b_def using i by (simp add: nth_mem)
  have best': "unat b \<le> unat t \<or> unat b = Min_mset (units c)"
  proof (cases "b \<le> t")
    case False
    then have "\<forall>x \<in># units c. unat b \<le> x" using best by (auto simp: units_def word_le_nat_alt)
    then show ?thesis using a by (metis Min_eqI finite_set_mset)
  qed (simp add: word_le_nat_alt)
  let ?e = "(if t < b then b else t) + d"
  have start: "unat (if t < b then b else t) = max (unat t) (unat b)"
    by (simp add: word_less_nat_alt)
  have e: "unat ?e = max (unat t) (unat b) + unat d"
    using room a unfolding start [symmetric] by (intro unat_add_lem [THEN iffD1]) (auto simp: start)
  note any = serve_any_free [OF same a best']
  have e': "unat ?e = fst (serve (unat t) (unat d) M)" using e any(1) by (simp add: serve_def Let_def)
  let ?c1 = "if t = m_t_last c then c\<lparr> m_n_simultaneous := m_n_simultaneous c + 1 \<rparr> else c"
  let ?c = "?c1\<lparr> m_busy := (m_busy c)[i := (?e, tag)], m_total_delay := m_total_delay c + ((if t < b then b else t) - t),
     m_t_last := t, m_n_requests := m_n_requests c + 1 \<rparr>"
  have step: "getCompletionTime t d tag c = Inr (?e, ?c)"
    using n t(1) i t(2) [folded not_less]
    by (cases "t = m_t_last c") (simp_all add: getCompletionTime_def Let_def nth_r_def free_unit_def i_def b_def)
  have u: "units ?c = add_mset (unat ?e) (units c - {#unat b#})"
    using i by (simp add: units_def mset_update_unit b_def)
  have "same_from (unat t) (units ?c) (snd (serve (unat t) (unat d) M))"
    unfolding u e' using any(2) by (simp add: serve_def Let_def)
  moreover have "getStartTime t c = Inr (if t < b then b else t)"
  proof (cases "b \<le> t")
    case True
    moreover have "m_busy c ! i \<in> set (m_busy c)" using i by simp
    ultimately have "\<exists>u \<in> set (m_busy c). fst u \<le> t" unfolding b_def by blast
    moreover have "\<not> t < b" using True by simp
    ultimately show ?thesis using n t(2) by (simp add: getStartTime_def)
  next
    case False
    then have "\<not> (\<exists>u \<in> set (m_busy c). fst u \<le> t)" using best by auto
    then show ?thesis using n t(2) [folded not_less] i by (simp add: getStartTime_def nth_r_def i_def b_def)
  qed
  moreover have "\<forall>x \<in># units ?c. x \<in># units c \<or> x = unat ?e"
    unfolding u by (auto dest: in_diffD)
  moreover have "\<exists>x \<in># units c. unat ?e = max (unat t) x + unat d" using a e by blast
  ultimately show ?thesis
    by (intro exI [of _ ?e] exI [of _ ?c]) (simp add: step e')
qed

text \<open>The unit that is free last bounds the others: at most all the work so far after the last arrival.\<close>

fun contention_run :: "(time \<times> time) list \<Rightarrow> contention_model \<Rightarrow> time list res" where
  "contention_run [] c = Inr []"
| "contention_run ((t, d) # rs) c =
     rbind (getCompletionTime t d 0 c) (\<lambda>(e, c1). rbind (contention_run rs c1) (\<lambda>es. Inr (e # es)))"

abbreviation arrivals :: "(time \<times> time) list \<Rightarrow> (nat \<times> nat) list" where
  "arrivals rs \<equiv> map (map_prod unat unat) rs"

lemma contention_run_ok:
  assumes "m_num_outstanding c \<noteq> 0" "m_busy c \<noteq> []"
    and "sorted (map fst rs)" "\<forall>(t, d) \<in> set rs. t \<noteq> 0 \<and> m_t_last c \<le> t"
    and "same_from (unat (m_t_last c)) (units c) M"
    and "\<forall>x \<in># units c. x \<le> B" "unat (m_t_last c) \<le> B"
    and "\<forall>(t, d) \<in> set rs. max (unat t) B + sum_list (map snd (arrivals rs)) < 2 ^ 64"
  shows "\<exists>es. contention_run rs c = Inr es \<and> map unat es = serve_all (arrivals rs) M"
  using assms
proof (induction rs arbitrary: c M B)
  case Nil
  then show ?case by simp
next
  case (Cons r rs)
  obtain t d where r: "r = (t, d)" by (cases r)
  let ?S = "sum_list (map snd (arrivals rs))"
  let ?B = "max (unat t) B + unat d"
  have t: "t \<noteq> 0" "m_t_last c \<le> t" using Cons.prems(4) r by auto
  have fit: "max (unat t) B + (unat d + ?S) < 2 ^ 64" using Cons.prems(8) r by simp
  have same: "same_from (unat t) (units c) M"
    using same_from_later [OF Cons.prems(5)] t(2) by (simp add: word_le_nat_alt)
  have room: "\<forall>x \<in># units c. max (unat t) x + unat d < 2 ^ 64"
    using Cons.prems(6) fit by fastforce
  obtain e c' where c': "getCompletionTime t d 0 c = Inr (e, c')" "unat e = fst (serve (unat t) (unat d) M)"
    "same_from (unat t) (units c') (snd (serve (unat t) (unat d) M))" "m_t_last c' = t"
    "m_num_outstanding c' = m_num_outstanding c" "length (m_busy c') = length (m_busy c)"
    "\<forall>x \<in># units c'. x \<in># units c \<or> x = unat e" "\<exists>x \<in># units c. unat e = max (unat t) x + unat d"
    using getCompletionTime_ok [OF Cons.prems(1,2) t same room, of 0] by blast
  have e: "unat e \<le> ?B" using c'(8) Cons.prems(6) by fastforce
  have ne: "m_num_outstanding c' \<noteq> 0" "m_busy c' \<noteq> []" using c'(5,6) Cons.prems(1,2) by auto
  have le: "\<forall>(s, d) \<in> set rs. t \<le> s" and "sorted (map fst rs)"
    using Cons.prems(3) r by auto
  moreover have "\<forall>(s, d) \<in> set rs. s \<noteq> 0 \<and> m_t_last c' \<le> s"
    using le Cons.prems(4) c'(4) by auto
  moreover have "\<forall>x \<in># units c'. x \<le> ?B"
    using c'(7) e Cons.prems(6) by fastforce
  moreover have "unat (m_t_last c') \<le> ?B" using c'(4) by simp
  moreover have "\<forall>(s, d) \<in> set rs. max (unat s) ?B + ?S < 2 ^ 64"
  proof clarify
    fix s x assume s: "(s, x) \<in> set rs"
    then have "unat t \<le> unat s" using le by (auto simp: word_le_nat_alt)
    moreover have "max (unat s) B + (unat d + ?S) < 2 ^ 64" using Cons.prems(8) s r by fastforce
    ultimately show "max (unat s) ?B + ?S < 2 ^ 64" by simp
  qed
  ultimately have "\<exists>es. contention_run rs c' = Inr es \<and> map unat es = serve_all (arrivals rs) (snd (serve (unat t) (unat d) M))"
    using ne c'(3,4) by (intro Cons.IH) simp_all
  with c'(1,2) r show ?case by auto
qed


lemma map_unat_inj: "map unat xs = map unat ys \<Longrightarrow> xs = ys"
  by (erule map_injective) (simp add: inj_def word_unat_eq_iff)

text \<open>C19: a contention model with \<open>k\<close> units is a first-come first-served queue with \<open>k\<close> servers. For
  requests that arrive in order, after time zero, and as long as the clock does not wrap, every request
  is answered with the completion time the queue gives it: it waits for the server that is free
  first, exactly when all \<open>k\<close> are busy.\<close>

theorem contention_is_k_server:
  assumes "k \<noteq> 0" and "sorted (map fst rs)" and "\<forall>(t, d) \<in> set rs. t \<noteq> 0"
    and "\<forall>(t, d) \<in> set rs. unat t + sum_list (map snd (arrivals rs)) < 2 ^ 64"
  shows "\<exists>es. contention_run rs (ContentionModel k) = Inr es \<and>
    map unat es = serve_all (arrivals rs) (replicate_mset (unat k) 0)"
proof (rule contention_run_ok [where B = 0])
  have "unat k \<noteq> 0" using assms(1) by (simp add: unat_eq_0)
  then show "m_busy (ContentionModel k) \<noteq> []" by (simp add: ContentionModel_def)
qed (use assms in \<open>auto simp: ContentionModel_def units_def split: prod.splits\<close>)

theorem contention_is_k_server_witness:
  "contention_run [(1, 10), (2, 10), (3, 10), (30, 1)] (ContentionModel 2) = Inr [11, 12, 21, 31]"
proof -
  have two: "replicate_mset 2 (0 :: nat) = {#0, 0#}" by (simp add: eval_nat_numeral)
  have "serve_all (arrivals [(1, 10), (2, 10), (3, 10), (30, 1)]) (replicate_mset (unat (2 :: u32)) 0) = [11, 12, 21, 31]"
    using two by (simp add: serve_def)
  moreover obtain es where es: "contention_run [(1, 10), (2, 10), (3, 10), (30, 1)] (ContentionModel 2) = Inr es"
    "map unat es = serve_all (arrivals [(1, 10), (2, 10), (3, 10), (30, 1)]) (replicate_mset (unat (2 :: u32)) 0)"
    using contention_is_k_server [of 2 "[(1, 10), (2, 10), (3, 10), (30, 1)]"] by auto
  ultimately have "map unat es = map unat [11, 12, 21, 31 :: time]" by simp
  then have "es = [11, 12, 21, 31]" by (rule map_unat_inj)
  with es(1) show ?thesis by simp
qed

end
