(* ===== verification/History_Props.thy ===== *)
theory History_Props
  imports Contention_Props
begin

text \<open>
  What the queue model with a history of free intervals computes, for requests that arrive in any order:
  as long as no request takes longer than the least processing time the model was built for, the slots
  it hands out are disjoint and each is the earliest one left.
\<close>

section \<open>Lists of free intervals\<close>

text \<open>In order, disjoint, each at least \<open>m\<close> long, none beyond the end of time.\<close>

fun free_ok :: "nat \<Rightarrow> nat \<Rightarrow> (time \<times> time) list \<Rightarrow> bool" where
  "free_ok m lo [] \<longleftrightarrow> True"
| "free_ok m lo ((a, b) # l) \<longleftrightarrow> lo \<le> unat a \<and> unat a + m \<le> unat b \<and> unat b \<le> 2 ^ 63 \<and> free_ok m (unat b) l"

abbreviation within :: "nat \<Rightarrow> nat \<Rightarrow> time \<times> time \<Rightarrow> bool" where
  "within x y iv \<equiv> unat (fst iv) \<le> x \<and> y \<le> unat (snd iv)"

abbreviation apart :: "nat \<times> nat \<Rightarrow> nat \<times> nat \<Rightarrow> bool" where
  "apart s iv \<equiv> snd s \<le> fst iv \<or> snd iv \<le> fst s"

abbreviation span :: "time \<times> time \<Rightarrow> nat \<times> nat" where
  "span iv \<equiv> (unat (fst iv), unat (snd iv))"

lemma free_ok_lower: "free_ok m hi l \<Longrightarrow> lo \<le> hi \<Longrightarrow> free_ok m lo l"
  by (cases l) auto

lemma free_ok_after: "free_ok m lo l \<Longrightarrow> iv \<in> set l \<Longrightarrow> lo \<le> unat (fst iv) \<and> unat (fst iv) + m \<le> unat (snd iv) \<and> unat (snd iv) \<le> 2 ^ 63"
proof (induction l arbitrary: lo)
  case (Cons x l)
  obtain a b where x: "x = (a, b)" by (cases x)
  show ?case
  proof (cases "iv = x")
    case False
    then have "unat b \<le> unat (fst iv) \<and> unat (fst iv) + m \<le> unat (snd iv) \<and> unat (snd iv) \<le> 2 ^ 63"
      using Cons.IH [of "unat b"] Cons.prems False x by simp
    then show ?thesis using Cons.prems(1) x by simp
  qed (use Cons.prems(1) x in auto)
qed simp

lemma free_ok_append:
  "free_ok m lo (l1 @ l2) \<longleftrightarrow> free_ok m lo l1 \<and> free_ok m (if l1 = [] then lo else unat (snd (last l1))) l2"
  by (induction l1 arbitrary: lo) (auto split: if_splits)

lemma free_ok_tl: "free_ok m lo l \<Longrightarrow> free_ok m lo (tl l)"
  by (cases l) (auto intro: free_ok_lower)

lemma unat_interval:
  assumes "unat (a :: time) + unat p < 2 ^ 64"
  shows "unat (a + p) = unat a + unat p"
  using assms by (intro unat_add_lem [THEN iffD1]) simp

text \<open>What is left of an interval \<open>(a, b)\<close> when \<open>p\<close> is taken from \<open>s\<close> on.\<close>

definition cut :: "nat \<Rightarrow> nat \<Rightarrow> nat \<Rightarrow> (time \<times> time) \<Rightarrow> (time \<times> time) list \<Rightarrow> bool" where
  "cut m s p iv r \<longleftrightarrow> free_ok m (unat (fst iv)) r \<and>
     (\<forall>x \<in> set r. within (unat (fst x)) (unat (snd x)) iv \<and> apart (s, s + p) (span x))"

text \<open>The interval a request is placed in: the first it fits, and what the search leaves.\<close>

lemma place_request_Some:
  assumes "place_request mpt t p l = Some (d, l')" and "free_ok (unat mpt) lo l"
    and p: "unat p \<le> unat mpt" and t: "unat t + unat p \<le> 2 ^ 63"
  shows "\<exists>l1 iv l2 r. l = l1 @ iv # l2 \<and> l' = l1 @ r @ l2 \<and> cut (unat mpt) (unat t + unat d) (unat p) iv r \<and>
    within (unat t + unat d) (unat t + unat d + unat p) iv \<and>
    unat d = unat (fst iv) - unat t \<and> length r \<le> 2 \<and>
    (\<forall>x \<in> set l1. unat (fst x) \<le> unat t \<and> unat (snd x) < unat t + unat p) \<and>
    (unat mpt \<le> unat (snd iv) - (unat t + unat d + unat p) \<longrightarrow> (\<exists>r'. r = r' @ [(t + d + p, snd iv)]))"
  using assms(1,2)
proof (induction l arbitrary: lo d l')
  case Nil
  then show ?case by simp
next
  case (Cons x l)
  obtain a b where x: "x = (a, b)" by (cases x)
  have ab: "unat a + unat mpt \<le> unat b" "unat b \<le> 2 ^ 63" "free_ok (unat mpt) (unat b) l"
    using Cons.prems(2) x by simp_all
  have tp: "unat (t + p) = unat t + unat p" using t by (intro unat_interval) simp
  have ap: "unat (a + p) = unat a + unat p" using ab p by (intro unat_interval) simp
  consider (inside) "a \<le> t" "t + p \<le> b" | (before) "t < a" "\<not> (a \<le> t \<and> t + p \<le> b)" | (after) "a \<le> t" "\<not> t + p \<le> b"
    by fastforce
  then show ?case
  proof cases
    case inside
    let ?r = "(if t - a \<ge> mpt then [(a, t)] else []) @ (if b - (t + p) \<ge> mpt then [(t + p, b)] else [])"
    have le: "unat a \<le> unat t" "unat t + unat p \<le> unat b" using inside tp by (simp_all add: word_le_nat_alt)
    have sub: "unat (t - a) = unat t - unat a" "unat (b - (t + p)) = unat b - (unat t + unat p)"
      using inside tp by (simp_all add: unat_sub)
    have d: "d = 0" "l' = ?r @ l" using Cons.prems(1) x inside by (simp_all split: if_splits)
    have "cut (unat mpt) (unat t + unat d) (unat p) (a, b) ?r"
      using le ab sub tp unfolding cut_def d(1) by (auto simp: word_le_nat_alt)
    moreover have "unat mpt \<le> unat b - (unat t + unat d + unat p) \<longrightarrow> (\<exists>r'. ?r = r' @ [(t + d + p, b)])"
      using sub d(1) by (simp add: word_le_nat_alt)
    ultimately show ?thesis
      using le d x by (intro exI [of _ "[]"] exI [of _ x] exI [of _ l] exI [of _ ?r]) simp
  next
    case before
    let ?r = "if b - (a + p) \<ge> mpt then [(a + p, b)] else []"
    have sub: "unat (b - (a + p)) = unat b - (unat a + unat p)" using ab p ap by (simp add: unat_sub word_le_nat_alt)
    have d: "d = a - t" "l' = ?r @ l" using Cons.prems(1) x before by (simp_all split: if_splits)
    have ud: "unat d = unat a - unat t" "unat t < unat a" using before(1) d
      by (simp_all add: unat_sub order.strict_implies_order) (simp add: word_less_nat_alt)
    have "cut (unat mpt) (unat t + unat d) (unat p) (a, b) ?r"
      using ab sub ap ud p unfolding cut_def by (auto simp: word_le_nat_alt)
    moreover have "unat mpt \<le> unat b - (unat t + unat d + unat p) \<longrightarrow> (\<exists>r'. ?r = r' @ [(t + d + p, b)])"
      using sub d(1) ud by (simp add: word_le_nat_alt)
    ultimately show ?thesis
      using ab ud p d x by (intro exI [of _ "[]"] exI [of _ x] exI [of _ l] exI [of _ ?r]) simp
  next
    case after
    then obtain l'' where r: "place_request mpt t p l = Some (d, l'')" "l' = (a, b) # l''"
      using Cons.prems(1) x leD [OF after(1)] by auto
    from Cons.IH [OF r(1) ab(3)] obtain l1 iv l2 q where IH: "l = l1 @ iv # l2" "l'' = l1 @ q @ l2"
      "cut (unat mpt) (unat t + unat d) (unat p) iv q"
      "within (unat t + unat d) (unat t + unat d + unat p) iv" "unat d = unat (fst iv) - unat t" "length q \<le> 2"
      "\<forall>x \<in> set l1. unat (fst x) \<le> unat t \<and> unat (snd x) < unat t + unat p"
      "unat mpt \<le> unat (snd iv) - (unat t + unat d + unat p) \<longrightarrow> (\<exists>r'. q = r' @ [(t + d + p, snd iv)])" by blast
    moreover have "unat a \<le> unat t" "unat b < unat t + unat p" using after tp by (simp_all add: word_le_nat_alt)
    ultimately show ?thesis
      using r x by (intro exI [of _ "x # l1"] exI [of _ iv] exI [of _ l2] exI [of _ q]) simp
  qed
qed

lemma place_request_None:
  assumes "place_request mpt t p l = None" and "unat t + unat p \<le> 2 ^ 63" and "iv \<in> set l"
  shows "unat (snd iv) < unat t + unat p"
  using assms
proof (induction l)
  case (Cons x l)
  have tp: "unat (t + p) = unat t + unat p" using assms(2) by (intro unat_interval) simp
  obtain a b where x: "x = (a, b)" by (cases x)
  have "\<not> (a \<le> t \<and> t + p \<le> b)" "\<not> t < a" "place_request mpt t p l = None"
    using Cons.prems(1) x by (auto split: if_splits)
  then show ?case using Cons x tp by (auto simp: word_le_nat_alt word_less_nat_alt)
qed simp


section \<open>Slots\<close>

text \<open>The slots \<open>B\<close> handed out so far, as pairs of start and end, are free of the free intervals;
  the last interval reaches to the end of time and starts by \<open>H\<close>.\<close>

definition history_ok :: "time \<Rightarrow> nat \<Rightarrow> (nat \<times> nat) list \<Rightarrow> queue_model_history_list \<Rightarrow> bool" where
  "history_ok mpt H B q \<longleftrightarrow> m_min_processing_time q = mpt \<and>
     0 < m_max_free_interval_list_size q \<and> length (m_free_interval_list q) \<le> unat (m_max_free_interval_list_size q) \<and>
     ma_ok (m_average_delay q) \<and> free_ok (unat mpt) 0 (m_free_interval_list q) \<and>
     m_free_interval_list q \<noteq> [] \<and> unat (fst (last (m_free_interval_list q))) \<le> H \<and>
     unat (snd (last (m_free_interval_list q))) = 2 ^ 63 \<and>
     (\<forall>s \<in> set B. \<forall>iv \<in> set (m_free_interval_list q). apart s (span iv))"

text \<open>There is a delay to average once the oldest interval does not start at zero.\<close>

definition average_ok :: "queue_model_history_list \<Rightarrow> bool" where
  "average_ok q \<longleftrightarrow> ma_type (m_average_delay q) = ARITHMETIC_MEAN \<and>
     (ma_window (m_average_delay q) \<noteq> [] \<or> fst (hd (m_free_interval_list q)) = 0)"

lemma QueueModelHistoryList_ok:
  assumes "0 < n" "unat n < 2 ^ 31" "unat mpt \<le> 2 ^ 63"
  shows "history_ok mpt 0 [] (QueueModelHistoryList mpt analytical n)" "average_ok (QueueModelHistoryList mpt analytical n)"
proof -
  have "unat (push_bit 63 1 :: time) = 2 ^ 63" by simp
  moreover have "1 \<le> unat n" using assms(1) by (simp add: word_less_nat_alt)
  ultimately show "history_ok mpt 0 [] (QueueModelHistoryList mpt analytical n)"
    using assms by (simp add: history_ok_def QueueModelHistoryList_def MovingAverage_ok)
  show "average_ok (QueueModelHistoryList mpt analytical n)"
    by (simp add: average_ok_def QueueModelHistoryList_def MovingAverage_def)
qed

lemma cut_last:
  assumes fit: "within s (s + p) iv" and "cut m s p iv r" and "m \<le> unat (snd iv) - (s + p) \<longrightarrow> (\<exists>r'. r = r' @ [(x, snd iv)])"
    and "unat x = s + p" and "unat (snd (last (l1 @ iv # l2))) = 2 ^ 63" "unat (fst (last (l1 @ iv # l2))) \<le> H"
    and "s + p \<le> H'" "H \<le> H'" "H' + m \<le> 2 ^ 63"
  shows "l1 @ r @ l2 \<noteq> [] \<and> unat (snd (last (l1 @ r @ l2))) = 2 ^ 63 \<and> unat (fst (last (l1 @ r @ l2))) \<le> H'"
proof (cases "l2 = []")
  case True
  then have "unat (snd iv) = 2 ^ 63" using assms(5) by simp
  moreover then obtain r' where "r = r' @ [(x, snd iv)]" using assms(3,7,9) by auto
  ultimately show ?thesis using True assms(4,7) by simp
next
  case False
  then show ?thesis using assms(5,6,8) by simp
qed

lemma history_slot_free:
  assumes "l = l1 @ iv # l2" and cut: "cut m s p iv r" and free: "free_ok m lo l"
  shows "free_ok m lo (l1 @ r @ l2)" "x \<in> set (l1 @ r @ l2) \<Longrightarrow> within s (s + p) iv \<Longrightarrow> apart (s, s + p) (span x)"
    "x \<in> set (l1 @ r @ l2) \<Longrightarrow> \<exists>y \<in> set l. within (unat (fst x)) (unat (snd x)) y"
proof -
  obtain a b where iv: "iv = (a, b)" by (cases iv)
  have f: "free_ok m lo l1" "free_ok m (unat b) l2" "(if l1 = [] then lo else unat (snd (last l1))) \<le> unat a"
    using free assms(1) iv by (auto simp: free_ok_append)
  have r: "free_ok m (unat a) r" "\<forall>x \<in> set r. unat (snd x) \<le> unat b" using cut iv by (auto simp: cut_def)
  have "free_ok m (if r = [] then unat a else unat (snd (last r))) l2"
    using f(2) free assms(1) iv r by (auto intro: free_ok_lower simp: free_ok_append)
  then show "free_ok m lo (l1 @ r @ l2)"
    using f(1,3) free_ok_lower [OF r(1)] by (auto simp: free_ok_append intro: free_ok_lower)
  show "\<exists>y \<in> set l. within (unat (fst x)) (unat (snd x)) y" if "x \<in> set (l1 @ r @ l2)"
    using that cut assms(1) by (auto simp: cut_def)
  show "apart (s, s + p) (span x)" if x: "x \<in> set (l1 @ r @ l2)" and w: "within s (s + p) iv"
  proof -
    consider "x \<in> set l1" | "x \<in> set r" | "x \<in> set l2" using x by auto
    then show ?thesis
    proof cases
      case 1
      then obtain u v where "l1 = u @ x # v" by (meson split_list)
      then have "free_ok m (unat (snd x)) (v @ iv # l2)"
        using free assms(1) by (cases x) (simp add: free_ok_append [of _ _ u])
      then have "unat (snd x) \<le> unat a" using free_ok_after [of m "unat (snd x)" "v @ iv # l2" iv] iv by simp
      then show ?thesis using w iv by auto
    next
      case 2
      then show ?thesis using cut by (simp add: cut_def)
    next
      case 3
      then show ?thesis using free_ok_after [OF f(2)] w iv by fastforce
    qed
  qed
qed


lemma free_ok_last: "free_ok m lo l \<Longrightarrow> iv \<in> set l \<Longrightarrow> unat (fst iv) \<le> unat (fst (last l))"
proof (induction l arbitrary: lo)
  case (Cons x l)
  obtain a b where x: "x = (a, b)" by (cases x)
  have f: "unat a \<le> unat b" "free_ok m (unat b) l" using Cons.prems(1) x by simp_all
  show ?case
  proof (cases "l = []")
    case False
    then have "unat b \<le> unat (fst (last l))" using free_ok_after [OF f(2), of "last l"] by simp
    moreover have "iv = x \<or> unat (fst iv) \<le> unat (fst (last l))" using Cons.IH [OF f(2)] Cons.prems(2) by auto
    ultimately show ?thesis using False f(1) x by auto
  qed (use Cons.prems in simp)
qed simp

lemma drop_oldest:
  assumes "l \<noteq> []" "length l \<le> Suc n" "0 < n"
  shows "(if length l > n then tl l else l) \<noteq> []" "last (if length l > n then tl l else l) = last l"
    "set (if length l > n then tl l else l) \<subseteq> set l" "length (if length l > n then tl l else l) \<le> n"
proof -
  have "tl l \<noteq> []" if "length l > n"
  proof -
    from that assms(3) have "length (tl l) > 0" by simp
    then show ?thesis by blast
  qed
  then show "(if length l > n then tl l else l) \<noteq> []" "last (if length l > n then tl l else l) = last l"
    using assms(1) by (auto simp: last_tl)
  show "set (if length l > n then tl l else l) \<subseteq> set l" "length (if length l > n then tl l else l) \<le> n"
    using assms by (cases l; auto)+
qed

text \<open>The search succeeds: the last interval is long enough.\<close>

lemma history_search:
  assumes ok: "history_ok mpt H B q" and p: "unat p \<le> unat mpt"
    and room: "max H (unat t) + 2 * unat mpt \<le> 2 ^ 63"
  shows "\<exists>d l'. computeUsingHistoryList t p q = Inr (d, q\<lparr> m_free_interval_list := l' \<rparr>) \<and>
    history_ok mpt (max H (unat t) + unat mpt) ((unat t + unat d, unat t + unat d + unat p) # B) (q\<lparr> m_free_interval_list := l' \<rparr>) \<and>
    (\<exists>iv \<in> set (m_free_interval_list q). within (unat t + unat d) (unat t + unat d + unat p) iv) \<and>
    (\<forall>e. \<forall>iv \<in> set (m_free_interval_list q). within (unat t + e) (unat t + e + unat p) iv \<longrightarrow> unat d \<le> e)"
proof -
  let ?l = "m_free_interval_list q" and ?n = "unat (m_max_free_interval_list_size q)" and ?H = "max H (unat t) + unat mpt"
  have q: "m_min_processing_time q = mpt" "length ?l \<le> ?n" "0 < ?n" "free_ok (unat mpt) 0 ?l" "?l \<noteq> []"
    "unat (fst (last ?l)) \<le> H" "unat (snd (last ?l)) = 2 ^ 63"
    and booked: "\<forall>s \<in> set B. \<forall>iv \<in> set ?l. apart s (span iv)"
    using ok by (auto simp: history_ok_def word_less_nat_alt)
  have t: "unat t + unat p \<le> 2 ^ 63" using room p by linarith
  have "place_request mpt t p ?l \<noteq> None"
  proof
    assume "place_request mpt t p ?l = None"
    from place_request_None [OF this t, of "last ?l"] q(5,7) t show False by simp
  qed
  then obtain d l' where pl: "place_request mpt t p ?l = Some (d, l')" by auto
  let ?s = "unat t + unat d"
  from place_request_Some [OF pl q(4) p t] obtain l1 iv l2 r where c: "?l = l1 @ iv # l2" "l' = l1 @ r @ l2"
    "cut (unat mpt) ?s (unat p) iv r" "within ?s (?s + unat p) iv" "unat d = unat (fst iv) - unat t" "length r \<le> 2"
    "\<forall>x \<in> set l1. unat (fst x) \<le> unat t \<and> unat (snd x) < unat t + unat p"
    "unat mpt \<le> unat (snd iv) - (?s + unat p) \<longrightarrow> (\<exists>r'. r = r' @ [(t + d + p, snd iv)])" by blast
  have iv: "iv \<in> set ?l" "unat (fst iv) \<le> H" using c(1) free_ok_last [OF q(4), of iv] q(6) by auto
  have s: "?s \<le> max H (unat t)" using c(5) iv(2) by linarith
  have end_slot: "?s + unat p \<le> ?H" "?s + unat p < 2 ^ 64" using s p room by simp_all
  have "unat (t + d) = ?s" using end_slot(2) by (intro unat_interval) linarith
  then have x: "unat (t + d + p) = ?s + unat p" using end_slot(2) unat_interval [of "t + d" p] by simp
  have "d \<noteq> - 1"
  proof
    assume "d = - 1"
    then have "unat d = 2 ^ 64 - 1" by (simp add: unsigned_minus_1_eq_mask mask_eq_exp_minus_1)
    then show False using s room by simp
  qed
  let ?tl = "if length l' > ?n then tl l' else l'"
  have step: "computeUsingHistoryList t p q = Inr (d, q\<lparr> m_free_interval_list := ?tl \<rparr>)"
    using q(1,2) pl \<open>d \<noteq> - 1\<close> by (simp add: computeUsingHistoryList_def)
  have last: "l' \<noteq> []" "unat (snd (last l')) = 2 ^ 63" "unat (fst (last l')) \<le> ?H"
    using cut_last [OF c(4,3,8) x, of l1 l2 H ?H] q(6,7) c(1,2) end_slot(1) room by auto
  note free = history_slot_free [OF c(1,3) q(4)]
  have len: "length l' \<le> Suc ?n" using q(2) c(1,2,6) by simp
  have tl: "?tl \<noteq> []" "last ?tl = last l'" "set ?tl \<subseteq> set l'" "length ?tl \<le> ?n" "free_ok (unat mpt) 0 ?tl"
    using drop_oldest [OF last(1) len q(3)] free(1) free_ok_tl [OF free(1)] c(2) by auto
  have "apart u (span y)" if u: "u \<in> set ((?s, ?s + unat p) # B)" and y: "y \<in> set ?tl" for u y
  proof -
    have y': "y \<in> set (l1 @ r @ l2)" using y tl(3) c(2) by auto
    show ?thesis
    proof (cases "u = (?s, ?s + unat p)")
      case True
      then show ?thesis using free(2) [OF y' c(4)] by simp
    next
      case False
      from free(3) [OF y'] obtain z where z: "z \<in> set ?l" "within (unat (fst y)) (unat (snd y)) z" by blast
      from False u have "u \<in> set B" by simp
      with booked z(1) have "apart u (span z)" by blast
      then show ?thesis using z(2) by auto
    qed
  qed
  then have "history_ok mpt ?H ((?s, ?s + unat p) # B) (q\<lparr> m_free_interval_list := ?tl \<rparr>)"
    using ok tl last by (simp add: history_ok_def)
  moreover have "unat d \<le> e" if y: "y \<in> set ?l" and w: "within (unat t + e) (unat t + e + unat p) y" for y e
  proof -
    have "y \<notin> set l1" using c(7) w by fastforce
    then have "y \<in> set (iv # l2)" using y c(1) by auto
    moreover have "free_ok (unat mpt) (unat (fst iv)) (iv # l2)"
      using q(4) unfolding c(1) by (cases iv) (simp add: free_ok_append)
    ultimately have "unat (fst iv) \<le> unat (fst y)" using free_ok_after by blast
    then show ?thesis using c(5) w by linarith
  qed
  ultimately show ?thesis using step iv(1) c(4) by blast
qed


text \<open>An old request: one that ends before the oldest interval starts, with the analytical shortcut on.\<close>

definition old_request :: "time \<Rightarrow> time \<Rightarrow> queue_model_history_list \<Rightarrow> bool" where
  "old_request t p q \<longleftrightarrow> m_analytical_model_enabled q \<and> t + p \<le> fst (hd (m_free_interval_list q))"

lemma history_delay_new:
  assumes ok: "history_ok mpt H B q" "average_ok q" and p: "unat p \<le> unat mpt"
    and room: "max H (unat t) + 2 * unat mpt \<le> 2 ^ 63" and new: "\<not> old_request t p q"
  shows "\<exists>d q'. history_delay t p q = Inr (d, q') \<and>
    history_ok mpt (max H (unat t) + unat mpt) ((unat t + unat d, unat t + unat d + unat p) # B) q' \<and> average_ok q' \<and>
    m_analytical_model_enabled q' = m_analytical_model_enabled q \<and>
    (\<forall>s \<in> set B. apart s (unat t + unat d, unat t + unat d + unat p)) \<and>
    (\<exists>iv \<in> set (m_free_interval_list q). within (unat t + unat d) (unat t + unat d + unat p) iv) \<and>
    (\<forall>e. \<forall>iv \<in> set (m_free_interval_list q). within (unat t + e) (unat t + e + unat p) iv \<longrightarrow> unat d \<le> e)"
proof -
  from history_search [OF ok(1) p room] obtain d l' where s: "computeUsingHistoryList t p q = Inr (d, q\<lparr> m_free_interval_list := l' \<rparr>)"
    "history_ok mpt (max H (unat t) + unat mpt) ((unat t + unat d, unat t + unat d + unat p) # B) (q\<lparr> m_free_interval_list := l' \<rparr>)"
    "\<exists>iv \<in> set (m_free_interval_list q). within (unat t + unat d) (unat t + unat d + unat p) iv"
    "\<forall>e. \<forall>iv \<in> set (m_free_interval_list q). within (unat t + e) (unat t + e + unat p) iv \<longrightarrow> unat d \<le> e" by blast
  have "ma_ok (m_average_delay q)" using ok(1) by (simp add: history_ok_def)
  from ma_update_ok [OF this, of d] obtain m where m: "ma_update d (m_average_delay q) = Inr m" "ma_ok m"
    "ma_type m = ma_type (m_average_delay q)" "ma_window m \<noteq> []" by (auto simp: slide_def)
  let ?q = "q\<lparr> m_free_interval_list := l', m_average_delay := m, m_utilized_time := m_utilized_time q + p,
    m_total_requests := m_total_requests q + 1, m_total_queue_delay := m_total_queue_delay q + d \<rparr>"
  obtain a b l where l: "m_free_interval_list q = (a, b) # l" using ok(1) by (auto simp: history_ok_def neq_Nil_conv)
  then have "history_delay t p q = Inr (d, ?q)"
    using s(1) m(1) new
    by (auto simp: history_delay_def updateAverageDelay_def updateQueueUtilization_def old_request_def)
  moreover have "history_ok mpt (max H (unat t) + unat mpt) ((unat t + unat d, unat t + unat d + unat p) # B) ?q"
    using s(2) m(2) by (simp add: history_ok_def)
  moreover have "average_ok ?q" using ok(2) m by (simp add: average_ok_def)
  moreover have "\<forall>s \<in> set B. apart s (unat t + unat d, unat t + unat d + unat p)"
    using s(3) ok(1) unfolding history_ok_def by fastforce
  ultimately show ?thesis using s(3,4) by (intro exI [of _ d] exI [of _ ?q]) simp
qed

lemma history_delay_old:
  assumes ok: "history_ok mpt H B q" "average_ok q" and p: "0 < p" and t: "unat t + unat p \<le> 2 ^ 63"
    and old: "old_request t p q"
  shows "\<exists>d q'. history_delay t p q = Inr (d, q') \<and> history_ok mpt H B q' \<and> average_ok q' \<and>
    d = sum_list (ma_window (m_average_delay q)) div of_nat (length (ma_window (m_average_delay q)))"
proof -
  obtain a b l where l: "m_free_interval_list q = (a, b) # l" using ok(1) by (auto simp: history_ok_def neq_Nil_conv)
  have "unat (t + p) \<noteq> 0" using p t unat_interval [of t p] by (simp add: word_less_nat_alt)
  then have "a \<noteq> 0" using old l by (auto simp: old_request_def)
  then have "ma_window (m_average_delay q) \<noteq> []" using ok(2) l by (simp add: average_ok_def)
  moreover have "ma_ok (m_average_delay q)" "ma_type (m_average_delay q) = ARITHMETIC_MEAN"
    using ok by (simp_all add: history_ok_def average_ok_def)
  ultimately have "ma_compute (\<lambda>p n. p) (m_average_delay q) =
      Inr (sum_list (ma_window (m_average_delay q)) div of_nat (length (ma_window (m_average_delay q))))"
    by (intro ma_compute_mean)
  then show ?thesis
    using old ok l
    by (simp add: history_delay_def computeUsingAnalyticalModel_def updateQueueUtilization_def old_request_def Let_def
        history_ok_def average_ok_def)
qed

section \<open>Runs\<close>

fun delay_run :: "(time \<Rightarrow> time \<Rightarrow> 'q \<Rightarrow> (time \<times> 'q) res) \<Rightarrow> (time \<times> time) list \<Rightarrow> 'q \<Rightarrow> time list res" where
  "delay_run delay [] q = Inr []"
| "delay_run delay ((t, p) # rs) q =
     rbind (delay t p q) (\<lambda>(d, q1). rbind (delay_run delay rs q1) (\<lambda>ds. Inr (d # ds)))"

text \<open>The slots of the requests that are served from the list, in the order in which they are made.\<close>

fun history_slots :: "(time \<times> time) list \<Rightarrow> queue_model_history_list \<Rightarrow> (nat \<times> nat) list res" where
  "history_slots [] q = Inr []"
| "history_slots ((t, p) # rs) q =
     rbind (history_delay t p q) (\<lambda>(d, q1). rbind (history_slots rs q1) (\<lambda>ss.
       Inr (if old_request t p q then ss else (unat t + unat d, unat t + unat d + unat p) # ss)))"

lemma history_slots_ok:
  assumes "history_ok mpt H B q" "average_ok q" and "\<forall>(t, p) \<in> set rs. unat t \<le> T \<and> 0 < p \<and> unat p \<le> unat mpt"
    and "max H T + (length rs + 1) * unat mpt \<le> 2 ^ 63"
  shows "\<exists>ss. history_slots rs q = Inr ss \<and> (\<forall>s \<in> set B. \<forall>x \<in> set ss. apart s x) \<and> sorted_wrt apart ss"
  using assms
proof (induction rs arbitrary: q H B)
  case Nil
  then show ?case by simp
next
  case (Cons r rs)
  obtain t p where r: "r = (t, p)" by (cases r)
  have t: "unat t \<le> T" and p: "0 < p" "unat p \<le> unat mpt" using Cons.prems(3) r by auto
  have rs: "\<forall>(t, p) \<in> set rs. unat t \<le> T \<and> 0 < p \<and> unat p \<le> unat mpt" using Cons.prems(3) by simp
  have room: "max H T + 2 * unat mpt + length rs * unat mpt \<le> 2 ^ 63" using Cons.prems(4) by (simp add: algebra_simps)
  show ?case
  proof (cases "old_request t p q")
    case True
    have "unat t + unat p \<le> 2 ^ 63" using room t p(2) by linarith
    from history_delay_old [OF Cons.prems(1,2) p(1) this True] obtain d q' where
      d: "history_delay t p q = Inr (d, q')" "history_ok mpt H B q'" "average_ok q'" by blast
    have "max H T + (length rs + 1) * unat mpt \<le> 2 ^ 63" using room by (simp add: algebra_simps)
    from Cons.IH [OF d(2,3) rs this] show ?thesis using d(1) r True by auto
  next
    case False
    have room1: "max H (unat t) + 2 * unat mpt \<le> 2 ^ 63" using room t by linarith
    from history_delay_new [OF Cons.prems(1,2) p(2) room1 False] obtain d q' where
      d: "history_delay t p q = Inr (d, q')" "average_ok q'"
      "history_ok mpt (max H (unat t) + unat mpt) ((unat t + unat d, unat t + unat d + unat p) # B) q'"
      "\<forall>s \<in> set B. apart s (unat t + unat d, unat t + unat d + unat p)" by blast
    have "max (max H (unat t) + unat mpt) T + (length rs + 1) * unat mpt \<le> 2 ^ 63"
      using room t by (simp add: algebra_simps)
    from Cons.IH [OF d(3,2) rs this] show ?thesis using d(1,4) r False by auto
  qed
qed

text \<open>C10: the queue model with a history of free intervals, its analytical shortcut on or off. For
  requests in any order, none of them empty and none longer than the least processing time the model was
  built for (longer ones are the subject of the last property), and a simulation that stays below
  \<open>2 ^ 63\<close> femtoseconds by a margin of one such time per request, every request is answered, and the slots
  of the requests served from the list, from arrival plus delay on, are pairwise disjoint. Requests that
  the shortcut answers with the average delay have no slot.\<close>

theorem history_slots_disjoint:
  assumes "0 < n" and "unat n < 2 ^ 31" and "\<forall>(t, p) \<in> set rs. unat t \<le> T \<and> 0 < p \<and> unat p \<le> unat mpt"
    and "T + (length rs + 1) * unat mpt \<le> 2 ^ 63"
  shows "\<exists>ss. history_slots rs (QueueModelHistoryList mpt analytical n) = Inr ss \<and> sorted_wrt apart ss"
proof -
  have "unat mpt \<le> 2 ^ 63" using assms(4) by simp
  note ok = QueueModelHistoryList_ok [OF assms(1,2) this, of analytical]
  from history_slots_ok [OF ok assms(3)] assms(4) show ?thesis by auto
qed

theorem history_slots_disjoint_witness:
  "\<exists>ss. history_slots [(20, 10), (25, 10), (8, 10), (2, 5)] (QueueModelHistoryList 10 True 100) = Inr ss \<and> sorted_wrt apart ss"
  by (rule history_slots_disjoint [where T = 25]) simp_all

text \<open>The delay a request served from the list is given is the least one: the slot lies in a free
  interval, and a slot of the same length that starts earlier, at or after the arrival, lies in none.\<close>

lemma history_delay_earliest:
  assumes "history_ok mpt H B q" "average_ok q" and "unat p \<le> unat mpt" and "max H (unat t) + 2 * unat mpt \<le> 2 ^ 63"
    and "\<not> old_request t p q"
  shows "\<exists>d q'. history_delay t p q = Inr (d, q') \<and>
    (\<exists>iv \<in> set (m_free_interval_list q). within (unat t + unat d) (unat t + unat d + unat p) iv) \<and>
    (\<forall>e < unat d. \<forall>iv \<in> set (m_free_interval_list q). \<not> within (unat t + e) (unat t + e + unat p) iv)"
proof -
  from history_delay_new [OF assms] obtain d q' where d: "history_delay t p q = Inr (d, q')"
    "\<exists>iv \<in> set (m_free_interval_list q). within (unat t + unat d) (unat t + unat d + unat p) iv"
    and least: "\<forall>e. \<forall>iv \<in> set (m_free_interval_list q). within (unat t + e) (unat t + e + unat p) iv \<longrightarrow> unat d \<le> e"
    by blast
  have "\<forall>e < unat d. \<forall>iv \<in> set (m_free_interval_list q). \<not> within (unat t + e) (unat t + e + unat p) iv"
    using least by (meson not_le)
  with d show ?thesis by blast
qed

text \<open>The loop goes past intervals that have begun and are too short.\<close>

abbreviation passed :: "time \<Rightarrow> time \<Rightarrow> time \<times> time \<Rightarrow> bool" where
  "passed t p iv \<equiv> fst iv \<le> t \<and> snd iv < t + p"

lemma place_request_passed:
  "\<forall>iv \<in> set l0. passed t p iv \<Longrightarrow>
   place_request mpt t p (l0 @ l) = map_option (\<lambda>(d, l'). (d, l0 @ l')) (place_request mpt t p l)"
proof (induction l0)
  case (Cons iv l0)
  obtain a b where "iv = (a, b)" by (cases iv)
  with Cons show ?case by (auto simp: option.map_comp comp_def split_def not_le not_less)
qed (simp add: option.map_ident split_def)

lemma wrapped_rest:
  assumes "unat (b :: time) < unat a + unat p" "unat a + unat p + unat mpt < 2 ^ 64"
  shows "mpt \<le> b - (a + p)"
proof -
  have ap: "unat (a + p) = unat a + unat p" using assms(2) by (intro unat_interval) linarith
  have "unat (b - (a + p)) = unat b + 2 ^ 64 - (unat a + unat p)" using assms(1) by (simp add: unat_sub_if' ap)
  then show ?thesis unfolding word_le_nat_alt using assms(2) by linarith
qed

text \<open>C38: what a request does that is longer than the free interval it is put into, which can only
  happen with requests longer than the least processing time. It waits for the interval \<open>(a, b)\<close>; the
  length of what is left of it, computed without sign, wraps to a large number, and the inverted
  interval \<open>(a + p, b)\<close> is entered in the list. Every later request that comes to that entry before
  \<open>a + p\<close>, however short, is then given a slot from \<open>a + p\<close> on, after the end \<open>b\<close> of the interval, and
  leaves an inverted interval again, whatever intervals \<open>l\<close> are free after it.\<close>

theorem history_long_request:
  assumes t: "t < a" "unat b < unat a + unat p" and l0: "\<forall>iv \<in> set l0. passed t p iv" "\<forall>iv \<in> set l0. passed t' p' iv"
    and t': "unat t' < unat a + unat p" and room: "unat a + unat p + unat p' + unat mpt < 2 ^ 64"
  shows "place_request mpt t p (l0 @ (a, b) # l) = Some (a - t, l0 @ (a + p, b) # l) \<and>
    (\<exists>d. place_request mpt t' p' (l0 @ (a + p, b) # l) = Some (d, l0 @ (a + p + p', b) # l) \<and>
       unat t' + unat d = unat a + unat p \<and> unat b < unat t' + unat d)"
proof -
  have ap: "unat (a + p) = unat a + unat p" using room by (intro unat_interval) linarith
  have lt: "t' < a + p" unfolding word_less_nat_alt ap by (rule t')
  have "mpt \<le> b - (a + p)" by (rule wrapped_rest) (use t room in linarith)+
  then have 1: "place_request mpt t p ((a, b) # l) = Some (a - t, (a + p, b) # l)"
    using t(1) by (simp add: not_le [symmetric])
  have "mpt \<le> b - (a + p + p')" by (rule wrapped_rest) (use t room ap in linarith)+
  then have 2: "place_request mpt t' p' ((a + p, b) # l) = Some (a + p - t', (a + p + p', b) # l)"
    using lt by (simp add: not_le [symmetric])
  have "unat t' + unat (a + p - t') = unat a + unat p" using lt t' by (simp add: unat_sub word_less_nat_alt word_le_nat_alt ap)
  then show ?thesis using 1 2 t(2) place_request_passed [OF l0(1), of mpt] place_request_passed [OF l0(2), of mpt] by simp
qed

theorem history_long_request_witness:
  "place_request 10 5 15 [(10, 20), (30, 2 ^ 63)] = Some (5, [(25, 20), (30, 2 ^ 63)]) \<and>
   (\<exists>d. place_request 10 12 10 [(25, 20), (30, 2 ^ 63)] = Some (d, [(35, 20), (30, 2 ^ 63)]) \<and> 12 + unat d = 25)"
  using history_long_request [of 5 10 20 15 "[]" 12 10 10 "[(30, 2 ^ 63)]"] by simp

text \<open>In a run: the fourth request is given the slot from 25 to 35, of which the time from 25 to 30 was
  taken by the second.\<close>

lemma long_request_run:
  "history_slots [(0, 10), (20, 10), (5, 15), (12, 10)] (QueueModelHistoryList 10 False 100) =
     Inr [(0, 10), (20, 30), (10, 25), (25, 35)]"
  by code_simp

end
