(* ===== verification/Queue_Props.thy ===== *)
theory Queue_Props
  imports History_Props
begin

text \<open>
  The queue models as one interface: on requests that arrive in order each of them is a single server
  with a first-come first-served queue. The laws of the server are a locale, which the model with one
  counter, the contention model with one unit and the model with a history of free intervals satisfy.
\<close>

section \<open>What a client relies on\<close>

text \<open>The delays of a single server that is free from \<open>f\<close> on.\<close>

fun waits :: "(nat \<times> nat) list \<Rightarrow> nat \<Rightarrow> nat list" where
  "waits [] f = []"
| "waits ((t, p) # rs) f = (f - t) # waits rs (max t f + p)"

text \<open>\<open>good T f q\<close>: the last request arrived by \<open>T\<close>, and the server is free from \<open>f\<close> on.\<close>

locale single_server =
  fixes delay :: "time \<Rightarrow> time \<Rightarrow> 'q \<Rightarrow> (time \<times> 'q) res" and good :: "nat \<Rightarrow> nat \<Rightarrow> 'q \<Rightarrow> bool"
    and fits :: "time \<Rightarrow> bool" and horizon :: nat
  assumes delay_law: "good T f q \<Longrightarrow> t \<noteq> 0 \<Longrightarrow> T \<le> unat t \<Longrightarrow> fits p \<Longrightarrow> max (unat t) f + unat p \<le> horizon \<Longrightarrow>
    \<exists>d q'. delay t p q = Inr (d, q') \<and> unat d = f - unat t \<and> good (unat t) (max (unat t) f + unat p) q'"
begin

lemma first_come_first_served:
  assumes "good T f q" "sorted (map fst rs)" "\<forall>(t, p) \<in> set rs. t \<noteq> 0 \<and> T \<le> unat t \<and> fits p"
    and "\<forall>(t, p) \<in> set rs. max (unat t) f + sum_list (map snd (arrivals rs)) \<le> horizon"
  shows "\<exists>ds. delay_run delay rs q = Inr ds \<and> map unat ds = waits (arrivals rs) f"
  using assms
proof (induction rs arbitrary: q T f)
  case Nil
  then show ?case by simp
next
  case (Cons r rs)
  obtain t p where r: "r = (t, p)" by (cases r)
  let ?S = "sum_list (map snd (arrivals rs))" and ?f = "max (unat t) f + unat p"
  have t: "t \<noteq> 0" "T \<le> unat t" "fits p" using Cons.prems(3) r by auto
  have bound: "max (unat t) f + (unat p + ?S) \<le> horizon" using Cons.prems(4) r by simp
  then have "?f \<le> horizon" by simp
  from delay_law [OF Cons.prems(1) t this] obtain d q' where d: "delay t p q = Inr (d, q')" "unat d = f - unat t"
    "good (unat t) ?f q'" by blast
  have le: "\<forall>(s, x) \<in> set rs. unat t \<le> unat s" "sorted (map fst rs)"
    using Cons.prems(2) r by (simp_all) (auto simp: word_le_nat_alt)
  have "\<forall>(s, x) \<in> set rs. max (unat s) ?f + ?S \<le> horizon"
  proof clarify
    fix s x assume s: "(s, x) \<in> set rs"
    then have "unat t \<le> unat s" "max (unat s) f + (unat p + ?S) \<le> horizon" using le Cons.prems(4) r by fastforce+
    then show "max (unat s) ?f + ?S \<le> horizon" by simp
  qed
  moreover have "\<forall>(s, x) \<in> set rs. s \<noteq> 0 \<and> unat t \<le> unat s \<and> fits x" using le Cons.prems(3) by auto
  ultimately have "\<exists>ds. delay_run delay rs q' = Inr ds \<and> map unat ds = waits (arrivals rs) ?f"
    using d(3) le(2) by (intro Cons.IH)
  with d(1,2) r show ?case by auto
qed

end

section \<open>One counter\<close>

definition basic_good :: "nat \<Rightarrow> nat \<Rightarrow> queue_model_basic \<Rightarrow> bool" where
  "basic_good T f q \<longleftrightarrow> m_moving_average q = None \<and> unat (m_queue_time q) = f"

interpretation basic: single_server "basic_delay root" basic_good "\<lambda>p. True" "2 ^ 64 - 1" for root
proof
  fix T f :: nat and q :: queue_model_basic and t p :: time
  assume good: "basic_good T f q" and room: "max (unat t) f + unat p \<le> 2 ^ 64 - 1"
  let ?b = "m_queue_time q"
  have mx: "unat (max ?b t) = max (unat t) f"
    using good by (auto simp: basic_good_def max_def word_le_nat_alt)
  have "unat (max ?b t + p) = max (unat t) f + unat p"
    using room mx unat_interval [of "max ?b t" p] by simp
  moreover have "unat (if t < ?b then ?b - t else 0) = f - unat t"
    using good unat_sub [of t ?b] by (simp add: basic_good_def word_less_nat_alt word_le_nat_alt)
  ultimately show "\<exists>d q'. basic_delay root t p q = Inr (d, q') \<and> unat d = f - unat t \<and>
      basic_good (unat t) (max (unat t) f + unat p) q'"
    using good by (simp add: basic_good_def basic_delay_def)
qed

section \<open>One unit\<close>

definition unit_good :: "nat \<Rightarrow> nat \<Rightarrow> contention_model \<Rightarrow> bool" where
  "unit_good T f c \<longleftrightarrow> m_num_outstanding c \<noteq> 0 \<and> unat (m_t_last c) \<le> T \<and> length (m_busy c) = 1 \<and>
     same_from T (units c) {#f#}"

interpretation unit: single_server contention_delay unit_good "\<lambda>p. True" "2 ^ 64 - 1"
proof
  fix T f :: nat and c :: contention_model and t p :: time
  assume good: "unit_good T f c" and t: "t \<noteq> 0" "T \<le> unat t" and room: "max (unat t) f + unat p \<le> 2 ^ 64 - 1"
  have c: "m_num_outstanding c \<noteq> 0" "m_busy c \<noteq> []" "m_t_last c \<le> t" "length (m_busy c) = 1"
    using good t by (auto simp: unit_good_def word_le_nat_alt)
  from good have "same_from T (units c) {#f#}" unfolding unit_good_def by blast
  from same_from_later [OF this t(2)] have same: "same_from (unat t) (units c) {#f#}" .
  have "max (unat t) x = max (unat t) f" if "x \<in># units c" for x
  proof -
    from that have "max (unat t) x \<in># image_mset (max (unat t)) (units c)" by simp
    then show ?thesis unfolding same by simp
  qed
  then have "\<forall>x \<in># units c. max (unat t) x + unat p < 2 ^ 64" using room by fastforce
  from getCompletionTime_ok [OF c(1,2) t(1) c(3) same this, of 0]
  obtain e c' where e: "getCompletionTime t p 0 c = Inr (e, c')" "unat e = max (unat t) f + unat p"
    "m_t_last c' = t" "m_num_outstanding c' = m_num_outstanding c" "length (m_busy c') = 1"
    "same_from (unat t) (units c') {#max (unat t) f + unat p#}"
    unfolding c(4) by (auto simp: serve_def Let_def)
  have "t \<le> e" "p \<le> e - t" using e(2) by (simp_all add: word_le_nat_alt unat_sub)
  then have "unat (e - t - p) = f - unat t" using e(2) by (simp add: unat_sub)
  moreover have "unit_good (unat t) (max (unat t) f + unat p) c'" using e c(1) by (simp add: unit_good_def)
  ultimately show "\<exists>d q'. contention_delay t p c = Inr (d, q') \<and> unat d = f - unat t \<and>
      unit_good (unat t) (max (unat t) f + unat p) q'"
    using e(1) by (simp add: contention_delay_def)
qed

section \<open>Free intervals\<close>

text \<open>When requests arrive in order only the last interval counts; the others end before.\<close>

definition history_good :: "time \<Rightarrow> nat \<Rightarrow> nat \<Rightarrow> queue_model_history_list \<Rightarrow> bool" where
  "history_good mpt T f q \<longleftrightarrow> (\<exists>B. history_ok mpt f B q) \<and> average_ok q \<and> \<not> m_analytical_model_enabled q \<and>
     (\<exists>l a b. m_free_interval_list q = l @ [(a, b)] \<and> unat a = f \<and> (\<forall>iv \<in> set l. unat (snd iv) \<le> T))"

lemma history_ok_last:
  "history_ok mpt H B q \<Longrightarrow> unat (fst (last (m_free_interval_list q))) \<le> H' \<Longrightarrow> history_ok mpt H' B q"
  by (simp add: history_ok_def)

lemma place_in_order:
  assumes "\<forall>iv \<in> set l. unat (fst iv) \<le> unat t \<and> unat (snd iv) < unat (t + p)"
  shows "place_request mpt t p (l @ [x]) = map_option (\<lambda>(d, l'). (d, l @ l')) (place_request mpt t p [x])"
  using assms
proof (induction l)
  case Nil
  then show ?case by (cases "place_request mpt t p [x]") auto
next
  case (Cons iv l)
  obtain a b where iv: "iv = (a, b)" by (cases iv)
  have "\<not> t + p \<le> b" "\<not> t < a" using Cons.prems iv by (auto simp: word_le_nat_alt word_less_nat_alt)
  then show ?case using Cons iv by (cases "place_request mpt t p [x]") auto
qed

lemma place_last:
  assumes "place_request mpt t p [(a, b)] = Some (d, r)" and b: "unat b = 2 ^ 63"
    and fit: "max (unat a) (unat t) + unat p + unat mpt \<le> 2 ^ 63"
  shows "unat d = unat a - unat t"
    "\<exists>r' x. r = r' @ [(x, b)] \<and> unat x = max (unat t) (unat a) + unat p \<and> (\<forall>iv \<in> set r'. unat (snd iv) \<le> unat t)"
proof -
  have tp: "unat (t + p) = unat t + unat p" and ap: "unat (a + p) = unat a + unat p"
    using fit by (simp_all add: unat_interval)
  have rest: "mpt \<le> b - (t + p)" "mpt \<le> b - (a + p)" "t + p \<le> b"
    using tp ap b fit by (simp_all add: word_le_nat_alt unat_sub)
  have d: "d = (if t < a then a - t else 0)"
    and r: "r = (if t < a then [(a + p, b)] else (if mpt \<le> t - a then [(a, t)] else []) @ [(t + p, b)])"
    using assms(1) rest by (auto simp: not_less split: if_splits)
  show "unat d = unat a - unat t"
    using d by (simp add: unat_sub order.strict_implies_order) (simp add: word_less_nat_alt)
  show "\<exists>r' x. r = r' @ [(x, b)] \<and> unat x = max (unat t) (unat a) + unat p \<and> (\<forall>iv \<in> set r'. unat (snd iv) \<le> unat t)"
    unfolding r using tp ap by (auto simp: word_less_nat_alt max_def)
qed

lemma history_delay_list:
  assumes "history_delay t p q = Inr (d, q')" "\<not> m_analytical_model_enabled q"
  obtains l' where "place_request (m_min_processing_time q) t p (m_free_interval_list q) = Some (d, l')"
    "m_free_interval_list q' = (if length l' > unat (m_max_free_interval_list_size q) then tl l' else l')"
  using assms
  by (auto simp: history_delay_def computeUsingHistoryList_def updateAverageDelay_def updateQueueUtilization_def Let_def
      elim!: rbindE rbind2E split: list.splits prod.splits option.splits if_splits)


interpretation history: single_server history_delay "history_good mpt" "\<lambda>p. 0 < p \<and> p \<le> mpt" "2 ^ 63 - 2 * unat mpt" for mpt
proof
  fix T f :: nat and q :: queue_model_history_list and t p :: time
  assume good: "history_good mpt T f q" and t: "T \<le> unat t" and p: "0 < p \<and> p \<le> mpt"
    and room: "max (unat t) f + unat p \<le> 2 ^ 63 - 2 * unat mpt"
  from p have up: "0 < unat p" "unat p \<le> unat mpt" by (simp_all add: word_le_nat_alt word_less_nat_alt)
  from room up have fit: "max f (unat t) + unat p + 2 * unat mpt \<le> 2 ^ 63" by linarith
  obtain B l a b where ok: "history_ok mpt f B q" "average_ok q" "\<not> m_analytical_model_enabled q" and l: "m_free_interval_list q = l @ [(a, b)]" "unat a = f"
    and old: "\<forall>iv \<in> set l. unat (snd iv) \<le> T" using good by (auto simp: history_good_def)
  have free: "free_ok (unat mpt) 0 (l @ [(a, b)])" and b: "unat b = 2 ^ 63"
    and q: "\<not> old_request t p q" "m_min_processing_time q = mpt"
    using ok l by (auto simp: history_ok_def old_request_def)
  from history_delay_new [OF ok(1,2) up(2) _ q(1)] fit obtain d q' where d: "history_delay t p q = Inr (d, q')"
    "history_ok mpt (max f (unat t) + unat mpt) ((unat t + unat d, unat t + unat d + unat p) # B) q'" "average_ok q'"
    "\<not> m_analytical_model_enabled q'" using ok(3) by auto
  from history_delay_list [OF d(1) ok(3)] obtain l' where l': "place_request mpt t p (l @ [(a, b)]) = Some (d, l')"
    "m_free_interval_list q' = (if length l' > unat (m_max_free_interval_list_size q) then tl l' else l')"
    using l q(2) by auto
  have tp: "unat (t + p) = unat t + unat p" using fit by (simp add: unat_interval)
  have "unat (fst iv) \<le> unat t \<and> unat (snd iv) < unat (t + p)" if "iv \<in> set l" for iv
    using that old t tp up free_ok_after [OF free, of iv] by fastforce
  then obtain r where r: "place_request mpt t p [(a, b)] = Some (d, r)" "l' = l @ r"
    using l'(1) place_in_order [of l t p mpt "(a, b)"] by auto
  from place_last [OF r(1) b] fit l(2) obtain r' x where x: "unat d = f - unat t" "r = r' @ [(x, b)]"
    "unat x = max (unat t) f + unat p" "\<forall>iv \<in> set r'. unat (snd iv) \<le> unat t" by auto
  obtain l'' where l'': "m_free_interval_list q' = l'' @ [(x, b)]" "set l'' \<subseteq> set (l @ r')"
  proof (cases "length l' > unat (m_max_free_interval_list_size q)")
    case True
    have "l @ r' \<noteq> []" using True ok(1) r(2) x(2) by (auto simp: history_ok_def word_less_nat_alt)
    then obtain y ys where y: "l @ r' = y # ys" by (cases "l @ r'") auto
    then have "tl l' = ys @ [(x, b)]" using r(2) x(2) by (metis append_Cons append_assoc list.sel(3))
    then show ?thesis using that [of ys] True l'(2) y by auto
  qed (use that [of "l @ r'"] l'(2) r(2) x(2) in simp)
  have "history_ok mpt (max (unat t) f + unat p) ((unat t + unat d, unat t + unat d + unat p) # B) q'"
    using l''(1) x(3) by (intro history_ok_last [OF d(2)]) simp
  moreover have "\<forall>iv \<in> set l''. unat (snd iv) \<le> unat t" using l''(2) x(4) old t by fastforce
  ultimately have "history_good mpt (unat t) (max (unat t) f + unat p) q'"
    unfolding history_good_def using l''(1) x(3) d(3,4) by blast
  with d(1) x(1) show "\<exists>d q'. history_delay t p q = Inr (d, q') \<and> unat d = f - unat t \<and>
      history_good mpt (unat t) (max (unat t) f + unat p) q'" by blast
qed


section \<open>The models agree\<close>

text \<open>C20: the queue models without their approximations. On requests that arrive in order, after time zero,
  none of them empty and none longer than the least processing time of the history list, the three
  models answer the same delays, those of a single server that serves requests in the order they arrive:
  the model with one counter and its moving average off, the contention model with one unit, and the
  model with a history of free intervals and its analytical model off. (The shipped configuration has both
  approximations on.) The clock stays below \<open>2 ^ 63\<close> by twice the least processing time.\<close>

theorem queue_models_agree:
  assumes "sorted (map fst rs)" and "\<forall>(t, p) \<in> set rs. t \<noteq> 0 \<and> 0 < p \<and> p \<le> mpt"
    and "\<forall>(t, p) \<in> set rs. unat t + sum_list (map snd (arrivals rs)) + 2 * unat mpt \<le> 2 ^ 63"
    and "0 < n" and "unat n < 2 ^ 31"
  shows "\<exists>ds. delay_run (basic_delay root) rs \<lparr> m_queue_time = 0, m_moving_average = None \<rparr> = Inr ds \<and>
    delay_run contention_delay rs (ContentionModel 1) = Inr ds \<and>
    delay_run history_delay rs (QueueModelHistoryList mpt False n) = Inr ds \<and>
    map unat ds = waits (arrivals rs) 0"
proof -
  have b: "\<forall>(t, p) \<in> set rs. max (unat t) 0 + sum_list (map snd (arrivals rs)) \<le> 2 ^ 64 - 1"
    and h: "\<forall>(t, p) \<in> set rs. max (unat t) 0 + sum_list (map snd (arrivals rs)) \<le> 2 ^ 63 - 2 * unat mpt"
    using assms(3) by fastforce+
  have ne: "\<forall>(t, p) \<in> set rs. t \<noteq> 0 \<and> 0 \<le> unat t \<and> True"
    and fit: "\<forall>(t, p) \<in> set rs. t \<noteq> 0 \<and> 0 \<le> unat t \<and> 0 < p \<and> p \<le> mpt" using assms(2) by auto
  have "basic_good 0 0 \<lparr> m_queue_time = 0, m_moving_average = None \<rparr>" by (simp add: basic_good_def)
  from basic.first_come_first_served [OF this assms(1) ne b, of root]
  obtain d1 where d1: "delay_run (basic_delay root) rs \<lparr> m_queue_time = 0, m_moving_average = None \<rparr> = Inr d1"
    "map unat d1 = waits (arrivals rs) 0" by blast
  have "unit_good 0 0 (ContentionModel 1)" by (simp add: unit_good_def ContentionModel_def units_def)
  from unit.first_come_first_served [OF this assms(1) ne b]
  obtain d2 where d2: "delay_run contention_delay rs (ContentionModel 1) = Inr d2" "map unat d2 = waits (arrivals rs) 0" by blast
  have "history_good mpt 0 0 (QueueModelHistoryList mpt False n)" if "rs \<noteq> []"
  proof -
    have "unat mpt \<le> 2 ^ 63" using that assms(3) by (cases rs) auto
    from QueueModelHistoryList_ok [OF assms(4,5) this, of False] show ?thesis
      unfolding history_good_def by (intro conjI exI [of _ "[]"]) (auto simp: QueueModelHistoryList_def)
  qed
  then have "\<exists>ds. delay_run history_delay rs (QueueModelHistoryList mpt False n) = Inr ds \<and> map unat ds = waits (arrivals rs) 0"
    using history.first_come_first_served [OF _ assms(1) fit h] by (cases "rs = []") auto
  with d1 d2 show ?thesis by (metis map_unat_inj)
qed

theorem queue_models_agree_witness:
  "\<exists>ds. delay_run (basic_delay (\<lambda>x n. x)) [(1, 10), (5, 10), (40, 3)] \<lparr> m_queue_time = 0, m_moving_average = None \<rparr> = Inr ds \<and>
    delay_run contention_delay [(1, 10), (5, 10), (40, 3)] (ContentionModel 1) = Inr ds \<and>
    delay_run history_delay [(1, 10), (5, 10), (40, 3)] (QueueModelHistoryList 10 False 100) = Inr ds \<and>
    map unat ds = waits (arrivals [(1, 10), (5, 10), (40, 3)]) 0"
  by (rule queue_models_agree) simp_all

end
