(* ===== verification/Window_Props.thy ===== *)
theory Window_Props
  imports Queue_Model "HOL-Library.Multiset"
begin

text \<open>
  What the windowed M/G/1 queue model keeps of its requests: its counters are sums over the requests in
  its window.
\<close>

section \<open>The window\<close>

definition mg1_ok :: "queue_model_windowed_mg1 \<Rightarrow> bool" where
  "mg1_ok q \<longleftrightarrow> sorted (map fst (m_window q)) \<and> m_num_arrivals q = of_nat (length (m_window q)) \<and>
     m_service_time_sum q = sum_list (map (\<lambda>e. getPS (snd e)) (m_window q)) \<and>
     m_service_time_sum2 q = sum_list (map (\<lambda>e. getPS (snd e) * getPS (snd e)) (m_window q))"

lemma removeItems_ok:
  assumes "mg1_ok q"
  shows "mg1_ok (removeItems e q) \<and> m_window (removeItems e q) = filter (\<lambda>x. e \<le> fst x) (m_window q) \<and>
    m_window_size (removeItems e q) = m_window_size q"
  using assms
proof (induction e q rule: removeItems.induct)
  case (1 e q)
  show ?case
  proof (cases "m_window q")
    case Nil
    then show ?thesis using "1.prems" by (simp add: removeItems.simps)
  next
    case (Cons x w)
    obtain t s where x: "x = (t, s)" by (cases x)
    show ?thesis
    proof (cases "t < e")
      case True
      have "mg1_ok (q\<lparr> m_num_arrivals := m_num_arrivals q - 1, m_service_time_sum := m_service_time_sum q - getPS s,
        m_service_time_sum2 := m_service_time_sum2 q - getPS s * getPS s, m_window := w \<rparr>)"
        using "1.prems" Cons x by (simp add: mg1_ok_def)
      from "1.IH" [OF Cons x [symmetric] True this] show ?thesis
        using Cons x True by (simp add: removeItems.simps [of e q] leD)
    next
      case False
      then have "\<forall>y \<in> set (m_window q). e \<le> fst y"
        using "1.prems" Cons x by (auto simp: mg1_ok_def)
      then show ?thesis using "1.prems" Cons x False by (simp add: removeItems.simps)
    qed
  qed
qed

lemma sorted_between:
  "sorted (map fst (a @ b)) \<Longrightarrow> \<forall>x \<in> set a. fst x \<le> t \<Longrightarrow> \<forall>y \<in> set b. t \<le> fst y \<Longrightarrow> sorted (map fst (a @ (t, s) # b))"
  by (auto simp: sorted_append)

lemma addItem_ok:
  assumes "mg1_ok q"
  shows "mg1_ok (addItem t s q)" "mset (m_window (addItem t s q)) = add_mset (t, s) (mset (m_window q))"
    "m_window_size (addItem t s q) = m_window_size q"
proof -
  let ?a = "takeWhile (\<lambda>e. fst e \<le> t) (m_window q)" and ?b = "dropWhile (\<lambda>e. fst e \<le> t) (m_window q)"
  have w: "m_window q = ?a @ ?b" by simp
  have ord: "sorted (map fst (?a @ ?b))" using assms unfolding mg1_ok_def w [symmetric] by blast
  have gt: "\<forall>y \<in> set ?b. t \<le> fst y"
  proof (cases ?b)
    case Nil
    show ?thesis unfolding Nil by simp
  next
    case (Cons x b)
    then have "\<not> fst x \<le> t" using hd_dropWhile [of "\<lambda>e. fst e \<le> t" "m_window q"] by simp
    then show ?thesis using Cons ord by (auto simp: sorted_append)
  qed
  have "\<forall>x \<in> set ?a. fst x \<le> t" by (auto dest: set_takeWhileD)
  then have "sorted (map fst (?a @ (t, s) # ?b))" using ord gt by (intro sorted_between)
  moreover have "length (?a @ (t, s) # ?b) = Suc (length (m_window q))"
    unfolding length_append list.size w [THEN arg_cong, of length] by simp
  moreover have "sum_list (map f (?a @ (t, s) # ?b)) = sum_list (map f (m_window q)) + f (t, s)" for f :: "time \<times> time \<Rightarrow> u64"
  proof -
    have "sum_list (map f (?a @ ?b)) = sum_list (map f (m_window q))" by (simp only: w [symmetric])
    then show ?thesis by (simp only: map_append sum_list_append list.map sum_list.Cons) (simp add: add_ac)
  qed
  ultimately show "mg1_ok (addItem t s q)"
    using assms unfolding mg1_ok_def addItem_def by (simp only: queue_model_windowed_mg1.simps) simp
  show "mset (m_window (addItem t s q)) = add_mset (t, s) (mset (m_window q))"
    using mset_append [of ?a ?b, symmetric] by (simp add: addItem_def)
  show "m_window_size (addItem t s q) = m_window_size q" by (simp add: addItem_def)
qed


section \<open>Runs\<close>

text \<open>Requests with the global time at which they are made, and the window they leave.\<close>

fun mg1_run ::
    "(u64 \<Rightarrow> u64 \<Rightarrow> u64 \<Rightarrow> u64 \<Rightarrow> u64) \<Rightarrow> (time \<times> time \<times> time) list \<Rightarrow> queue_model_windowed_mg1 \<Rightarrow>
      time list \<times> queue_model_windowed_mg1" where
  "mg1_run mg1 [] q = ([], q)"
| "mg1_run mg1 ((g, t, p) # rs) q =
     (let (d, q1) = mg1_delay mg1 g t p q; (ds, q2) = mg1_run mg1 rs q1 in (d # ds, q2))"

fun window_after :: "time \<Rightarrow> (time \<times> time \<times> time) list \<Rightarrow> (time \<times> time) multiset \<Rightarrow> (time \<times> time) multiset" where
  "window_after w [] M = M"
| "window_after w ((g, t, p) # rs) M =
     window_after w rs (add_mset (t, p) (filter_mset (\<lambda>e. max (g - w) (t - 10 * w) \<le> fst e) M))"

lemma mg1_delay_ok:
  assumes ok: "mg1_ok q" and step: "mg1_delay mg1 g t p q = (d, q')"
  shows "mg1_ok q'" "m_window_size q' = m_window_size q" "d \<le> m_window_size q"
    "mset (m_window q') = add_mset (t, p) (filter_mset (\<lambda>e. max (g - m_window_size q) (t - 10 * m_window_size q) \<le> fst e) (mset (m_window q)))"
    "filter (\<lambda>e. max (g - m_window_size q) (t - 10 * m_window_size q) \<le> fst e) (m_window q) = [] \<Longrightarrow> d = 0"
proof -
  let ?e = "max (g - m_window_size q) (t - 10 * m_window_size q)"
  let ?q = "removeItems ?e q"
  have r: "mg1_ok ?q" "m_window ?q = filter (\<lambda>x. ?e \<le> fst x) (m_window q)" "m_window_size ?q = m_window_size q"
    using removeItems_ok [OF ok, of ?e] by blast+
  note a = addItem_ok [OF r(1), of t p]
  have q': "m_window q' = m_window (addItem t p ?q)" "mg1_ok q' = mg1_ok (addItem t p ?q)"
    "m_window_size q' = m_window_size (addItem t p ?q)"
    using step by (auto simp: mg1_delay_def Let_def mg1_ok_def)
  show "mg1_ok q'" "m_window_size q' = m_window_size q" using q' a r by simp_all
  show "mset (m_window q') = add_mset (t, p) (filter_mset (\<lambda>e. ?e \<le> fst e) (mset (m_window q)))"
    using q' a r by simp
  show "d \<le> m_window_size q" using step r(3) by (auto simp: mg1_delay_def Let_def)
  show "d = 0" if "filter (\<lambda>e. ?e \<le> fst e) (m_window q) = []"
  proof -
    have "m_num_arrivals ?q = 0" using r(1,2) that by (simp add: mg1_ok_def)
    then show ?thesis using step by (simp add: mg1_delay_def Let_def)
  qed
qed

lemma mg1_run_ok:
  assumes "mg1_ok q" and "mg1_run mg1 rs q = (ds, q')"
  shows "mg1_ok q' \<and> mset (m_window q') = window_after (m_window_size q) rs (mset (m_window q)) \<and>
    (\<forall>d \<in> set ds. d \<le> m_window_size q)"
  using assms
proof (induction rs arbitrary: q ds)
  case Nil
  then show ?case by simp
next
  case (Cons r rs)
  obtain g t p where r: "r = (g, t, p)" by (cases r)
  obtain d q1 where d: "mg1_delay mg1 g t p q = (d, q1)" by (cases "mg1_delay mg1 g t p q")
  obtain ds' where ds: "mg1_run mg1 rs q1 = (ds', q')" "ds = d # ds'"
    using Cons.prems(2) r d by (auto split: prod.splits)
  note s = mg1_delay_ok [OF Cons.prems(1) d]
  from Cons.IH [OF s(1) ds(1)] show ?case using s(2,3,4) ds(2) r by auto
qed

lemma QueueModelWindowedMG1_ok: "mg1_ok (QueueModelWindowedMG1 w)"
  by (simp add: mg1_ok_def QueueModelWindowedMG1_def)

text \<open>The window of the M/G/1 model holds exactly the requests that are not dropped as too old, and
  its three counters, kept up to date as requests come and go, are the number of these requests, the sum
  of their service times and the sum of the squares of these, modulo \<open>2 ^ 64\<close>; no delay exceeds the
  window. This holds for every formula and every order of arrival.\<close>

lemma mg1_window_sums:
  "case mg1_run mg1 rs (QueueModelWindowedMG1 w) of (ds, q) \<Rightarrow>
     mset (m_window q) = window_after w rs {#} \<and>
     m_num_arrivals q = of_nat (size (window_after w rs {#})) \<and>
     m_service_time_sum q = (\<Sum>e \<in># window_after w rs {#}. getPS (snd e)) \<and>
     m_service_time_sum2 q = (\<Sum>e \<in># window_after w rs {#}. getPS (snd e) * getPS (snd e)) \<and>
     list_all (\<lambda>d. d \<le> w) ds"
proof -
  obtain ds q where run: "mg1_run mg1 rs (QueueModelWindowedMG1 w) = (ds, q)" by fastforce
  from mg1_run_ok [OF QueueModelWindowedMG1_ok run] have
    ok: "mg1_ok q" and w: "mset (m_window q) = window_after w rs {#}" and d: "\<forall>d \<in> set ds. d \<le> w"
    by (auto simp: QueueModelWindowedMG1_def)
  have "sum_list (map f (m_window q)) = (\<Sum>e \<in># window_after w rs {#}. f e)" for f :: "time \<times> time \<Rightarrow> u64"
    unfolding w [symmetric] by (simp add: sum_mset_sum_list flip: mset_map)
  moreover have "length (m_window q) = size (window_after w rs {#})" using w size_mset by metis
  ultimately show ?thesis using run ok w d by (simp add: mg1_ok_def list_all_iff)
qed


section \<open>The first ten windows\<close>

lemma ahead_of_window:
  assumes "t < 10 * (w :: time)" "unat w \<le> 2 ^ 59" "x < 10 * w"
  shows "\<not> t - 10 * w \<le> x"
proof -
  have w: "unat (10 * w) = 10 * unat w" using assms(2) by (simp add: unat_word_ariths)
  have "unat (t - 10 * w) = unat t + 2 ^ 64 - unat (10 * w)"
    using assms(1) by (simp add: unat_sub_if_size word_size word_less_nat_alt word_le_nat_alt)
  then show ?thesis using assms w by (simp add: word_le_nat_alt word_less_nat_alt)
qed

lemma mg1_run_warmup:
  assumes "mg1_ok q" and "m_window_size q = w" and "unat w \<le> 2 ^ 59" and "\<forall>(g, t, p) \<in> set rs. t < 10 * w"
    and "\<forall>e \<in> set (m_window q). fst e < 10 * w" and "mg1_run mg1 rs q = (ds, q')"
  shows "\<forall>d \<in> set ds. d = 0"
  using assms
proof (induction rs arbitrary: q ds)
  case (Cons r rs)
  obtain g t p where r: "r = (g, t, p)" by (cases r)
  obtain d q1 where d: "mg1_delay mg1 g t p q = (d, q1)" by (cases "mg1_delay mg1 g t p q")
  obtain ds' where ds: "mg1_run mg1 rs q1 = (ds', q')" "ds = d # ds'"
    using Cons.prems(6) r d by (auto split: prod.splits)
  have t: "t < 10 * w" using Cons.prems(4) r by simp
  note s = mg1_delay_ok [OF Cons.prems(1) d, unfolded Cons.prems(2)]
  have out: "\<not> max (g - w) (t - 10 * w) \<le> fst e" if "e \<in> set (m_window q)" for e
    using ahead_of_window [OF t Cons.prems(3), of "fst e"] Cons.prems(5) that by auto
  then have none: "filter (\<lambda>e. max (g - w) (t - 10 * w) \<le> fst e) (m_window q) = []" by (simp add: filter_empty_conv)
  then have "mset (m_window q1) = {#(t, p)#}" using s(4) by (simp flip: mset_filter)
  then have "\<forall>e \<in> set (m_window q1). fst e < 10 * w" using t by simp
  with Cons.IH [OF s(1,2) Cons.prems(3) _ _ ds(1)] Cons.prems(4) s(5) [OF none] ds(2) show ?case by auto
qed simp

text \<open>The M/G/1 model knows no contention in the first ten windows of a simulation. The age limit
  of ten windows before a request is computed without sign and wraps to a time far ahead, so the window
  is emptied at every request and every delay is zero, however many requests there are.\<close>

lemma mg1_no_delay_at_start:
  assumes "unat w \<le> 2 ^ 59" and "\<forall>(g, t, p) \<in> set rs. t < 10 * w"
  shows "list_all (\<lambda>d. d = 0) (fst (mg1_run mg1 rs (QueueModelWindowedMG1 w)))"
proof -
  obtain ds q where "mg1_run mg1 rs (QueueModelWindowedMG1 w) = (ds, q)" by fastforce
  from mg1_run_warmup [OF QueueModelWindowedMG1_ok _ assms _ this] this show ?thesis
    by (simp add: QueueModelWindowedMG1_def list_all_iff)
qed

end
