(* ===== verification/Prefetcher.thy ===== *)
theory Prefetcher
  imports Prelude
begin

unbundle bit_operations_syntax

text \<open>
  Prefetchers: the linear-stride prefetcher of \<^verbatim>\<open>simple_prefetcher.cc\<close> and the global history buffer
  of \<^verbatim>\<open>ghb_prefetcher.cc\<close>. Differences of addresses are kept as 64-bit words; the signed
  \<^verbatim>\<open>INT64_MAX\<close> marks an unused entry. The distance of two addresses is computed by a call of \<^verbatim>\<open>abs\<close> on
  an unsigned number; the overload the C++ library provides for it is the argument \<open>c_abs\<close>.
\<close>

section \<open>Strides\<close>

record simple_prefetcher =
  sp_core_id :: core_id
  shared_cores :: u32
  n_flows :: u32
  flows_per_core :: bool
  num_prefetches :: u32
  stop_at_page :: bool
  n_flow_next :: u32
  m_prev_address :: "u64 list list"

definition PAGE_SIZE :: u64 where "PAGE_SIZE = 4096"
definition PAGE_MASK :: u64 where "PAGE_MASK = NOT (PAGE_SIZE - 1)"

definition SimplePrefetcher :: "core_id \<Rightarrow> u32 \<Rightarrow> u32 \<Rightarrow> bool \<Rightarrow> u32 \<Rightarrow> bool \<Rightarrow> simple_prefetcher" where
  "SimplePrefetcher core shared flows per_core num stop =
     \<lparr> sp_core_id = core, shared_cores = shared, n_flows = flows, flows_per_core = per_core,
       num_prefetches = num, stop_at_page = stop, n_flow_next = 0,
       m_prev_address = replicate (if per_core then unat shared else 1) (replicate (unat flows) 0) \<rparr>"

text \<open>The flow whose last address is nearest, within a page.\<close>

fun nearest_flow :: "(u64 \<Rightarrow> u64) \<Rightarrow> u64 \<Rightarrow> nat \<Rightarrow> u64 \<Rightarrow> nat \<Rightarrow> u64 list \<Rightarrow> nat" where
  "nearest_flow c_abs a best min_dist i [] = best"
| "nearest_flow c_abs a best min_dist i (p # ps) =
     (let dist = c_abs (a - p)
      in if dist < min_dist then nearest_flow c_abs a i dist (Suc i) ps
         else nearest_flow c_abs a best min_dist (Suc i) ps)"

definition simple_next ::
    "(u64 \<Rightarrow> u64) \<Rightarrow> u64 \<Rightarrow> core_id \<Rightarrow> simple_prefetcher \<Rightarrow> (u64 list \<times> simple_prefetcher) res" where
  "simple_next c_abs current_address core p =
     (let k = (if flows_per_core p then core - sp_core_id p else 0) in
      if k < 0 then Inl Out_Of_Bounds
      else if n_flows p = 0 then Inl Undefined
      else
        rbind (nth_r (m_prev_address p) (nat k)) (\<lambda>prev.
        let flow = nearest_flow c_abs current_address (unat (n_flow_next p)) PAGE_SIZE 0 prev
        in rbind (nth_r prev flow) (\<lambda>last_address.
           let stride = current_address - last_address;
               candidates = map (\<lambda>i. current_address + of_nat i * stride) [0..<unat (num_prefetches p)]
           in Inr (if stride = 0 then []
                   else filter (\<lambda>a. \<not> stop_at_page p \<or> a AND PAGE_MASK = current_address AND PAGE_MASK) candidates,
                   p\<lparr> n_flow_next := (n_flow_next p + 1) mod n_flows p,
                      m_prev_address := (m_prev_address p)[nat k := prev[flow := current_address]] \<rparr>))))"

section \<open>The global history buffer\<close>

definition INVALID_DELTA :: u64 where "INVALID_DELTA = 0x7FFFFFFFFFFFFFFF"
definition INVALID_INDEX :: u32 where "INVALID_INDEX = - 1"

record ghb_entry =
  ge_nextIndex :: u32
  ge_delta :: u64
  ge_generation :: u32

record table_entry =
  te_ghbIndex :: u32
  te_delta :: u64
  te_generation :: u32

record ghb_prefetcher =
  m_prefetchWidth :: u32
  m_prefetchDepth :: u32
  m_lastAddress :: u64
  m_ghbSize :: u32
  m_ghbHead :: u32
  m_generation :: u32
  m_ghb :: "ghb_entry list"
  m_tableSize :: u32
  m_tableHead :: u32
  m_ghbTable :: "table_entry list"

definition GhbPrefetcher :: "u32 \<Rightarrow> u32 \<Rightarrow> u32 \<Rightarrow> u32 \<Rightarrow> ghb_prefetcher" where
  "GhbPrefetcher width depth ghb_size table_size =
     \<lparr> m_prefetchWidth = width, m_prefetchDepth = depth, m_lastAddress = INVALID_ADDRESS, m_ghbSize = ghb_size,
       m_ghbHead = 0, m_generation = 0,
       m_ghb = replicate (unat ghb_size) \<lparr> ge_nextIndex = INVALID_INDEX, ge_delta = INVALID_DELTA, ge_generation = 0 \<rparr>,
       m_tableSize = table_size, m_tableHead = 0,
       m_ghbTable = replicate (unat table_size) \<lparr> te_ghbIndex = INVALID_INDEX, te_delta = INVALID_DELTA, te_generation = 0 \<rparr> \<rparr>"

text \<open>The position of a delta in the table: the search ends at the first unused entry.\<close>

definition table_find :: "u64 \<Rightarrow> table_entry list \<Rightarrow> nat" where
  "table_find delta tbl = length (takeWhile (\<lambda>e. te_delta e \<noteq> INVALID_DELTA \<and> te_delta e \<noteq> delta) tbl)"

text \<open>The addresses the deltas from \<open>index\<close> on lead to, at most \<open>n\<close> more.\<close>

fun ghb_depth :: "nat \<Rightarrow> u32 \<Rightarrow> u32 \<Rightarrow> u64 \<Rightarrow> u64 list \<Rightarrow> ghb_prefetcher \<Rightarrow> u64 list res" where
  "ghb_depth 0 depth index address l p = Inr l"
| "ghb_depth (Suc n) depth index address l p =
     (if m_ghbSize p = 0 then Inl Undefined
      else rbind (nth_r (m_ghb p) (unat ((index + depth) mod m_ghbSize p))) (\<lambda>e.
        if ge_delta e = INVALID_DELTA then Inr l
        else
          let a = address + ge_delta e
          in ghb_depth n (depth + 1) index a (if a \<in> set l then l else l @ [a]) p))"

text \<open>The same from every earlier occurrence of the delta, at most \<open>n\<close> more.\<close>

fun ghb_width :: "nat \<Rightarrow> u32 \<Rightarrow> u64 \<Rightarrow> u64 list \<Rightarrow> ghb_prefetcher \<Rightarrow> u64 list res" where
  "ghb_width 0 index address l p = Inr l"
| "ghb_width (Suc n) index address l p =
     (if index = INVALID_INDEX then Inr l
      else
        rbind (ghb_depth (unat (m_prefetchDepth p)) 0 index address l p) (\<lambda>l1.
        rbind (nth_r (m_ghb p) (unat index)) (\<lambda>e.
          ghb_width n
            (if (ge_nextIndex e > index \<or> index > m_ghbHead p) \<and> ge_nextIndex e < m_ghbHead p then INVALID_INDEX
             else ge_nextIndex e) address l1 p)))"

definition ghb_predict :: "u64 \<Rightarrow> u64 \<Rightarrow> ghb_prefetcher \<Rightarrow> u64 list res" where
  "ghb_predict delta current_address p =
     (let i = table_find delta (m_ghbTable p) in
      if i = unat (m_tableSize p) then Inr []
      else
        rbind (nth_r (m_ghbTable p) i) (\<lambda>te.
        if te_delta te \<noteq> delta then Inr []
        else
          rbind (nth_r (m_ghb p) (unat (te_ghbIndex te))) (\<lambda>e.
          if te_generation te \<noteq> ge_generation e then Inr []
          else ghb_width (unat (m_prefetchWidth p)) (te_ghbIndex te) current_address [] p)))"

text \<open>The entry of the delta before the new one is pointed to the new one, which is linked to the
  former occurrence.\<close>

definition ghb_link :: "u64 \<Rightarrow> ghb_prefetcher \<Rightarrow> ghb_prefetcher res" where
  "ghb_link prev_delta p =
     (let i = table_find prev_delta (m_ghbTable p) in
      rbind (if i = unat (m_tableSize p) then Inr None
             else rbind (nth_r (m_ghbTable p) i) (\<lambda>te. Inr (if te_delta te = prev_delta then Some te else None))) (\<lambda>found.
      case found of
        Some te \<Rightarrow>
          rbind (nth_r (m_ghb p) (unat (te_ghbIndex te))) (\<lambda>old.
          rbind (nth_r (m_ghb p) (unat (m_ghbHead p))) (\<lambda>new.
          rbind (upd_r (m_ghb p) (unat (m_ghbHead p))
             (new\<lparr> ge_nextIndex := (if te_generation te = ge_generation old then te_ghbIndex te else INVALID_INDEX) \<rparr>)) (\<lambda>g.
          rbind (upd_r (m_ghbTable p) i (te\<lparr> te_ghbIndex := m_ghbHead p, te_generation := m_generation p \<rparr>)) (\<lambda>tbl.
            Inr (p\<lparr> m_ghb := g, m_ghbTable := tbl \<rparr>)))))
      | None \<Rightarrow>
          rbind (upd_r (m_ghbTable p) (unat (m_tableHead p))
             \<lparr> te_ghbIndex = m_ghbHead p, te_delta = prev_delta, te_generation = m_generation p \<rparr>) (\<lambda>tbl.
            if m_tableSize p = 0 then Inl Undefined
            else Inr (p\<lparr> m_ghbTable := tbl, m_tableHead := (m_tableHead p + 1) mod m_tableSize p \<rparr>))))"

definition ghb_record :: "u64 \<Rightarrow> ghb_prefetcher \<Rightarrow> ghb_prefetcher res" where
  "ghb_record delta p =
     rbind (upd_r (m_ghb p) (unat (m_ghbHead p))
        \<lparr> ge_nextIndex = INVALID_INDEX, ge_delta = delta, ge_generation = m_generation p \<rparr>) (\<lambda>g.
     let p1 = p\<lparr> m_ghb := g \<rparr>; prev_head = (if m_ghbHead p > 0 then m_ghbHead p - 1 else m_ghbSize p - 1)
     in rbind (nth_r g (unat prev_head)) (\<lambda>e.
        rbind (if ge_delta e \<noteq> INVALID_DELTA then ghb_link (ge_delta e) p1 else Inr p1) (\<lambda>p2.
        let head = m_ghbHead p2 + 1
        in Inr (if head = m_ghbSize p2
                then p2\<lparr> m_ghbHead := 0, m_generation := (m_generation p2 + 1) mod 4 \<rparr>
                else p2\<lparr> m_ghbHead := head \<rparr>))))"

definition ghb_next :: "u64 \<Rightarrow> ghb_prefetcher \<Rightarrow> (u64 list \<times> ghb_prefetcher) res" where
  "ghb_next current_address p =
     (if m_lastAddress p = INVALID_ADDRESS then Inr ([], p\<lparr> m_lastAddress := current_address \<rparr>)
      else
        let delta = current_address - m_lastAddress p; p1 = p\<lparr> m_lastAddress := current_address \<rparr>
        in rbind (ghb_predict delta current_address p1) (\<lambda>l.
           rbind (ghb_record delta p1) (\<lambda>p2. Inr (l, p2))))"

section \<open>Choice of a prefetcher\<close>

datatype prefetcher = Simple simple_prefetcher | Ghb ghb_prefetcher

definition createPrefetcher :: "simple_prefetcher \<Rightarrow> ghb_prefetcher \<Rightarrow> string \<Rightarrow> prefetcher option res" where
  "createPrefetcher simple ghb ty =
     (if ty = ''none'' then Inr None
      else if ty = ''simple'' then Inr (Some (Simple simple))
      else if ty = ''ghb'' then Inr (Some (Ghb ghb))
      else Inl Log_Error)"

definition getNextAddress :: "(u64 \<Rightarrow> u64) \<Rightarrow> u64 \<Rightarrow> core_id \<Rightarrow> prefetcher \<Rightarrow> (u64 list \<times> prefetcher) res" where
  "getNextAddress c_abs a core p = (case p of
      Simple x \<Rightarrow> rbind (simple_next c_abs a core x) (\<lambda>(l, y). Inr (l, Simple y))
    | Ghb x \<Rightarrow> rbind (ghb_next a x) (\<lambda>(l, y). Inr (l, Ghb y)))"

section \<open>The buffer stays in its bounds\<close>

definition ghb_ok :: "ghb_prefetcher \<Rightarrow> bool" where
  "ghb_ok p \<longleftrightarrow> 0 < m_ghbSize p \<and> length (m_ghb p) = unat (m_ghbSize p) \<and> m_ghbHead p < m_ghbSize p \<and>
     0 < m_tableSize p \<and> length (m_ghbTable p) = unat (m_tableSize p) \<and> m_tableHead p < m_tableSize p \<and>
     (\<forall>e \<in> set (m_ghb p). ge_nextIndex e = INVALID_INDEX \<or> ge_nextIndex e < m_ghbSize p) \<and>
     (\<forall>e \<in> set (m_ghbTable p). te_delta e = INVALID_DELTA \<or> te_ghbIndex e < m_ghbSize p)"

lemma ghb_ok_index: "ghb_ok p \<Longrightarrow> i < m_ghbSize p \<Longrightarrow> unat i < length (m_ghb p)"
  by (simp add: ghb_ok_def word_less_nat_alt)

lemma ghb_ok_table:
  assumes "ghb_ok p" and "i < length (m_ghbTable p) \<and> te_delta (m_ghbTable p ! i) = d" and "d \<noteq> INVALID_DELTA"
  shows "te_ghbIndex (m_ghbTable p ! i) < m_ghbSize p"
proof -
  have "m_ghbTable p ! i \<in> set (m_ghbTable p)" using assms(2) by simp
  then have "te_delta (m_ghbTable p ! i) = INVALID_DELTA \<or> te_ghbIndex (m_ghbTable p ! i) < m_ghbSize p"
    using assms(1) unfolding ghb_ok_def by blast
  then show ?thesis using assms(2,3) by auto
qed

lemma ghb_depth_ok:
  assumes ok: "ghb_ok p"
  shows "\<exists>l'. ghb_depth n depth index a l p = Inr l' \<and> (distinct l \<longrightarrow> distinct l') \<and> length l' \<le> length l + n"
proof (induction n arbitrary: depth a l)
  case (Suc n)
  have size: "0 < m_ghbSize p" using ok by (simp add: ghb_ok_def)
  then have "(index + depth) mod m_ghbSize p < m_ghbSize p" by (simp add: word_mod_less_divisor)
  then have i: "unat ((index + depth) mod m_ghbSize p) < length (m_ghb p)" by (rule ghb_ok_index [OF ok])
  let ?e = "m_ghb p ! unat ((index + depth) mod m_ghbSize p)"
  let ?l = "if a + ge_delta ?e \<in> set l then l else l @ [a + ge_delta ?e]"
  from Suc.IH [of "depth + 1" "a + ge_delta ?e" ?l] obtain l' where
    "ghb_depth n (depth + 1) index (a + ge_delta ?e) ?l p = Inr l'" "distinct ?l \<longrightarrow> distinct l'" "length l' \<le> length ?l + n" by blast
  then show ?case using i size by (auto simp: Let_def split: if_splits)
qed simp

lemma ghb_width_ok:
  assumes ok: "ghb_ok p" and "index = INVALID_INDEX \<or> index < m_ghbSize p" and "distinct l"
  shows "\<exists>l'. ghb_width n index a l p = Inr l' \<and> distinct l' \<and> length l' \<le> length l + n * unat (m_prefetchDepth p)"
  using assms(2,3)
proof (induction n arbitrary: index l)
  case (Suc n)
  show ?case
  proof (cases "index = INVALID_INDEX")
    case True
    then show ?thesis using Suc.prems by simp
  next
    case False
    then have i: "unat index < length (m_ghb p)" using Suc.prems(1) ghb_ok_index [OF ok] by simp
    obtain l1 where l1: "ghb_depth (unat (m_prefetchDepth p)) 0 index a l p = Inr l1" "distinct l1"
      "length l1 \<le> length l + unat (m_prefetchDepth p)"
      using ghb_depth_ok [OF ok] Suc.prems(2) by blast
    let ?e = "m_ghb p ! unat index"
    let ?j = "if (ge_nextIndex ?e > index \<or> index > m_ghbHead p) \<and> ge_nextIndex ?e < m_ghbHead p then INVALID_INDEX else ge_nextIndex ?e"
    have "?j = INVALID_INDEX \<or> ?j < m_ghbSize p" using ok i by (auto simp: ghb_ok_def)
    from Suc.IH [OF this l1(2)] obtain l' where l': "ghb_width n ?j a l1 p = Inr l'" "distinct l'"
      "length l' \<le> length l1 + n * unat (m_prefetchDepth p)" by blast
    then show ?thesis using l1(1,3) i False by simp
  qed
qed simp


lemma table_find_entry:
  assumes "table_find d tbl < length tbl"
  shows "te_delta (tbl ! table_find d tbl) = INVALID_DELTA \<or> te_delta (tbl ! table_find d tbl) = d"
  using nth_length_takeWhile [of "\<lambda>e. te_delta e \<noteq> INVALID_DELTA \<and> te_delta e \<noteq> d" tbl] assms
  by (auto simp: table_find_def)

lemma table_find_bound: "table_find d tbl \<le> length tbl"
  by (simp add: table_find_def length_takeWhile_le)

lemma ghb_predict_ok:
  assumes ok: "ghb_ok p" and d: "d \<noteq> INVALID_DELTA"
  shows "\<exists>l. ghb_predict d a p = Inr l \<and> distinct l \<and> length l \<le> unat (m_prefetchWidth p) * unat (m_prefetchDepth p)"
proof -
  let ?i = "table_find d (m_ghbTable p)"
  let ?te = "m_ghbTable p ! ?i"
  have len: "length (m_ghbTable p) = unat (m_tableSize p)" using ok by (simp add: ghb_ok_def)
  show ?thesis
  proof (cases "?i < length (m_ghbTable p) \<and> te_delta ?te = d")
    case True
    then have "te_ghbIndex ?te < m_ghbSize p" using ghb_ok_table [OF ok] d by blast
    moreover from this have "unat (te_ghbIndex ?te) < length (m_ghb p)" by (rule ghb_ok_index [OF ok])
    ultimately show ?thesis
      using ghb_width_ok [OF ok, of "te_ghbIndex ?te" "[]" "unat (m_prefetchWidth p)" a] True len
      by (auto simp: ghb_predict_def Let_def)
  next
    case False
    then show ?thesis using table_find_bound [of d "m_ghbTable p"] len by (auto simp: ghb_predict_def Let_def)
  qed
qed

lemma ghb_ok_put_entry:
  assumes "ghb_ok p" "ge_nextIndex x = INVALID_INDEX \<or> ge_nextIndex x < m_ghbSize p"
  shows "ghb_ok (p\<lparr> m_ghb := (m_ghb p)[i := x] \<rparr>)"
  using assms set_update_subset_insert [of "m_ghb p" i x] unfolding ghb_ok_def by fastforce

lemma ghb_ok_put_table:
  assumes "ghb_ok p" "te_ghbIndex x < m_ghbSize p"
  shows "ghb_ok (p\<lparr> m_ghbTable := (m_ghbTable p)[i := x] \<rparr>)"
  using assms set_update_subset_insert [of "m_ghbTable p" i x] unfolding ghb_ok_def by fastforce

lemma ghb_ok_heads:
  assumes "ghb_ok p" "h < m_ghbSize p" "k < m_tableSize p"
  shows "ghb_ok (p\<lparr> m_ghbHead := h, m_generation := g, m_tableHead := k, m_lastAddress := a \<rparr>)"
  using assms unfolding ghb_ok_def by simp

lemma ghb_link_ok:
  assumes ok: "ghb_ok p" and d: "d \<noteq> INVALID_DELTA"
  shows "\<exists>p'. ghb_link d p = Inr p' \<and> ghb_ok p' \<and> m_ghbHead p' = m_ghbHead p \<and> m_ghbSize p' = m_ghbSize p \<and>
    m_prefetchWidth p' = m_prefetchWidth p \<and> m_prefetchDepth p' = m_prefetchDepth p \<and> m_lastAddress p' = m_lastAddress p"
proof -
  let ?i = "table_find d (m_ghbTable p)"
  let ?te = "m_ghbTable p ! ?i"
  have len: "length (m_ghbTable p) = unat (m_tableSize p)" and head: "unat (m_ghbHead p) < length (m_ghb p)"
    and th: "unat (m_tableHead p) < length (m_ghbTable p)"
    and head_ok: "m_ghbHead p < m_ghbSize p" and next_head: "(m_tableHead p + 1) mod m_tableSize p < m_tableSize p"
    using ok by (simp_all add: ghb_ok_def word_less_nat_alt [symmetric] word_mod_less_divisor)
  show ?thesis
  proof (cases "?i < length (m_ghbTable p) \<and> te_delta ?te = d")
    case True
    then have idx: "te_ghbIndex ?te < m_ghbSize p" using ghb_ok_table [OF ok] d by blast
    then have "unat (te_ghbIndex ?te) < length (m_ghb p)" by (rule ghb_ok_index [OF ok])
    let ?new = "(m_ghb p ! unat (m_ghbHead p))\<lparr> ge_nextIndex :=
      (if te_generation ?te = ge_generation (m_ghb p ! unat (te_ghbIndex ?te)) then te_ghbIndex ?te else INVALID_INDEX) \<rparr>"
    let ?p = "p\<lparr> m_ghb := (m_ghb p)[unat (m_ghbHead p) := ?new],
      m_ghbTable := (m_ghbTable p)[?i := ?te\<lparr> te_ghbIndex := m_ghbHead p, te_generation := m_generation p \<rparr>] \<rparr>"
    have "ghb_ok (p\<lparr> m_ghb := (m_ghb p)[unat (m_ghbHead p) := ?new] \<rparr>)" using idx by (intro ghb_ok_put_entry [OF ok]) simp
    from ghb_ok_put_table [OF this, of "?te\<lparr> te_ghbIndex := m_ghbHead p, te_generation := m_generation p \<rparr>" ?i] head_ok
    have "ghb_ok ?p" by simp
    moreover have "ghb_link d p = Inr ?p" using True len head idx ghb_ok_index [OF ok idx] by (simp add: ghb_link_def Let_def)
    ultimately show ?thesis by simp
  next
    case False
    let ?p = "p\<lparr> m_ghbTable := (m_ghbTable p)[unat (m_tableHead p) :=
        \<lparr> te_ghbIndex = m_ghbHead p, te_delta = d, te_generation = m_generation p \<rparr>],
      m_tableHead := (m_tableHead p + 1) mod m_tableSize p \<rparr>"
    have "ghb_link d p = Inr ?p"
      using False table_find_bound [of d "m_ghbTable p"] len th ok by (auto simp: ghb_link_def Let_def ghb_ok_def)
    moreover have "ghb_ok ?p"
      using ghb_ok_put_table [OF ok, of "\<lparr> te_ghbIndex = m_ghbHead p, te_delta = d, te_generation = m_generation p \<rparr>"
        "unat (m_tableHead p)"] head_ok next_head unfolding ghb_ok_def by simp
    ultimately show ?thesis by simp
  qed
qed

lemma ghb_record_ok:
  assumes ok: "ghb_ok p"
  shows "\<exists>p'. ghb_record d p = Inr p' \<and> ghb_ok p' \<and> m_prefetchWidth p' = m_prefetchWidth p \<and>
    m_prefetchDepth p' = m_prefetchDepth p \<and> m_lastAddress p' = m_lastAddress p"
proof -
  let ?x = "\<lparr> ge_nextIndex = INVALID_INDEX, ge_delta = d, ge_generation = m_generation p \<rparr>"
  let ?p1 = "p\<lparr> m_ghb := (m_ghb p)[unat (m_ghbHead p) := ?x] \<rparr>"
  let ?h = "if m_ghbHead p > 0 then m_ghbHead p - 1 else m_ghbSize p - 1"
  have sz: "0 < m_ghbSize p" "m_ghbHead p < m_ghbSize p" using ok by (simp_all add: ghb_ok_def)
  have ok1: "ghb_ok ?p1" by (rule ghb_ok_put_entry [OF ok]) simp
  have "?h < m_ghbSize p"
    using sz measure_unat [of "m_ghbHead p"] measure_unat [of "m_ghbSize p"] by (auto simp: word_less_nat_alt unat_gt_0)
  then have h: "unat ?h < length (m_ghb p)" by (rule ghb_ok_index [OF ok])
  let ?e = "m_ghb ?p1 ! unat ?h"
  obtain p2 where p2: "(if ge_delta ?e \<noteq> INVALID_DELTA then ghb_link (ge_delta ?e) ?p1 else Inr ?p1) = Inr p2" "ghb_ok p2"
    "m_ghbHead p2 = m_ghbHead p" "m_ghbSize p2 = m_ghbSize p" "m_prefetchWidth p2 = m_prefetchWidth p"
    "m_prefetchDepth p2 = m_prefetchDepth p" "m_lastAddress p2 = m_lastAddress p"
    using ghb_link_ok [OF ok1, of "ge_delta ?e"] ok1 by (cases "ge_delta ?e = INVALID_DELTA") auto
  have "m_ghbHead p + 1 < m_ghbSize p" if "m_ghbHead p + 1 \<noteq> m_ghbSize p"
    using sz(2) that by (metis inc_le le_neq_trans)
  then have "ghb_ok (p2\<lparr> m_ghbHead := 0, m_generation := g \<rparr>)" "m_ghbHead p + 1 \<noteq> m_ghbSize p \<Longrightarrow> ghb_ok (p2\<lparr> m_ghbHead := m_ghbHead p + 1 \<rparr>)" for g
    using p2(2,4) sz(1) by (auto simp: ghb_ok_def)
  then show ?thesis
    using p2 h ghb_ok_index [OF ok sz(2)] by (auto simp: ghb_record_def Let_def)
qed


lemma small_delta:
  assumes "a < 2 ^ 62" "b < 2 ^ 62"
  shows "a - b \<noteq> INVALID_DELTA"
proof
  assume "a - b = INVALID_DELTA"
  then have "a = b + INVALID_DELTA" by (simp add: algebra_simps)
  moreover have "unat b + unat INVALID_DELTA < 2 ^ 64" using assms(2) by (simp add: INVALID_DELTA_def word_less_nat_alt)
  ultimately have "unat a = unat b + unat INVALID_DELTA" using unat_add_lem [of b INVALID_DELTA] by simp
  then show False using assms(1) by (simp add: INVALID_DELTA_def word_less_nat_alt)
qed

fun ghb_run :: "u64 list \<Rightarrow> ghb_prefetcher \<Rightarrow> u64 list list res" where
  "ghb_run [] p = Inr []"
| "ghb_run (a # as) p = rbind (ghb_next a p) (\<lambda>(l, p1). rbind (ghb_run as p1) (\<lambda>ls. Inr (l # ls)))"

lemma ghb_next_ok:
  assumes ok: "ghb_ok p" and "m_lastAddress p = INVALID_ADDRESS \<or> m_lastAddress p < 2 ^ 62" and "a < 2 ^ 62"
  shows "\<exists>l p'. ghb_next a p = Inr (l, p') \<and> ghb_ok p' \<and> m_lastAddress p' = a \<and> m_prefetchWidth p' = m_prefetchWidth p \<and>
    m_prefetchDepth p' = m_prefetchDepth p \<and> distinct l \<and> length l \<le> unat (m_prefetchWidth p) * unat (m_prefetchDepth p)"
proof -
  let ?p = "p\<lparr> m_lastAddress := a \<rparr>"
  have ok1: "ghb_ok ?p" using ok by (simp add: ghb_ok_def)
  show ?thesis
  proof (cases "m_lastAddress p = INVALID_ADDRESS")
    case True
    then show ?thesis using ok1 by (simp add: ghb_next_def)
  next
    case False
    then have "a - m_lastAddress p \<noteq> INVALID_DELTA" using assms(2,3) by (intro small_delta) auto
    from ghb_predict_ok [OF ok1 this, of a] obtain l where l: "ghb_predict (a - m_lastAddress p) a ?p = Inr l" "distinct l"
      "length l \<le> unat (m_prefetchWidth p) * unat (m_prefetchDepth p)" by auto
    from ghb_record_ok [OF ok1, of "a - m_lastAddress p"] obtain p' where
      "ghb_record (a - m_lastAddress p) ?p = Inr p'" "ghb_ok p'" "m_prefetchWidth p' = m_prefetchWidth p"
      "m_prefetchDepth p' = m_prefetchDepth p" "m_lastAddress p' = a" by auto
    with l False show ?thesis by (simp add: ghb_next_def)
  qed
qed

lemma ghb_run_ok:
  assumes "ghb_ok p" "m_lastAddress p = INVALID_ADDRESS \<or> m_lastAddress p < 2 ^ 62" "\<forall>a \<in> set as. a < 2 ^ 62"
  shows "\<exists>ls. ghb_run as p = Inr ls \<and>
    list_all (\<lambda>l. distinct l \<and> length l \<le> unat (m_prefetchWidth p) * unat (m_prefetchDepth p)) ls"
  using assms
proof (induction as arbitrary: p)
  case (Cons a as)
  then have a: "a < 2 ^ 62" by simp
  from ghb_next_ok [OF Cons.prems(1,2) a] obtain l p' where l: "ghb_next a p = Inr (l, p')" "ghb_ok p'"
    "m_lastAddress p' = a" "m_prefetchWidth p' = m_prefetchWidth p" "m_prefetchDepth p' = m_prefetchDepth p" "distinct l"
    "length l \<le> unat (m_prefetchWidth p) * unat (m_prefetchDepth p)" by blast
  with Cons.IH [of p'] Cons.prems(3) a show ?case by auto
qed simp

text \<open>C39: the global history buffer stays in its bounds. With a buffer and a table that are not empty, whatever
  addresses below \<open>2 ^ 62\<close> it is trained with (so that no difference is the one that marks a free entry), no call of the prefetcher reads or writes outside its buffer or its table, although
  entries are linked by indices and overwritten in a circle, and every list of addresses to prefetch is free of
  duplicates and holds at most width times depth of them.\<close>

theorem ghb_in_bounds:
  assumes "0 < ghb_size" "0 < table_size" "\<forall>a \<in> set as. a < 2 ^ 62"
  shows "\<exists>ls. ghb_run as (GhbPrefetcher width depth ghb_size table_size) = Inr ls \<and>
    list_all (\<lambda>l. distinct l \<and> length l \<le> unat width * unat depth) ls"
proof -
  have "ghb_ok (GhbPrefetcher width depth ghb_size table_size)"
    using assms(1,2) by (simp add: ghb_ok_def GhbPrefetcher_def)
  from ghb_run_ok [OF this _ assms(3)] show ?thesis by (simp add: GhbPrefetcher_def)
qed

theorem ghb_in_bounds_witness:
  "\<exists>ls. ghb_run [0, 64, 128, 192, 64, 128] (GhbPrefetcher 2 2 4 4) = Inr ls \<and>
    list_all (\<lambda>l. distinct l \<and> length l \<le> 4) ls"
  using ghb_in_bounds [of 4 4 "[0, 64, 128, 192, 64, 128]" 2 2] by (simp del: ghb_run.simps)

end
