(* ===== verification/Sift_Format.thy ===== *)
theory Sift_Format
  imports Prelude
begin

unbundle bit_operations_syntax

text \<open>
  The trace format of \<^verbatim>\<open>sniper/sift/sift_format.h\<close> and \<^verbatim>\<open>sift.h\<close>: numbers in little-endian order,
  the header, the three kinds of record and the types of the records that are not instructions.
  Enumerations that travel as plain numbers are words of the width they are written with.
\<close>

type_synonym u16 = "16 word"

section \<open>Numbers\<close>

text \<open>The bytes of a number in memory, lowest first, and back.\<close>

primrec le :: "nat \<Rightarrow> 'a::len word \<Rightarrow> u8 list" where
  "le 0 w = []"
| "le (Suc n) w = ucast w # le n (drop_bit 8 w)"

primrec of_le :: "u8 list \<Rightarrow> 'a::len word" where
  "of_le [] = 0"
| "of_le (b # bs) = ucast b OR push_bit 8 (of_le bs)"

lemma length_le [simp]: "length (le n w) = n"
  by (induction n arbitrary: w) auto

lemma of_le_take_bit: "of_le (le n w) = take_bit (8 * n) w"
proof (induction n arbitrary: w)
  case (Suc n)
  have "bit (ucast (ucast w :: u8) OR push_bit 8 (take_bit (8 * n) (drop_bit 8 w))) i = bit (take_bit (8 * Suc n) w) i"
    if "i < LENGTH('a)" for i
    using that by (auto simp: bit_simps)
  then show ?case unfolding le.simps of_le.simps Suc by (simp add: bit_eq_iff)
qed simp

lemma of_le_le [simp]: "8 * n = LENGTH('a::len) \<Longrightarrow> of_le (le n w) = (w :: 'a word)"
  by (simp add: of_le_take_bit take_bit_length_eq)

section \<open>Constants\<close>

definition MagicNumber :: u32 where "MagicNumber = 0x54464953"
definition Sift_PAGE_SIZE :: u64 where "Sift_PAGE_SIZE = 4096"
definition ICACHE_SIZE :: nat where "ICACHE_SIZE = 0x1000"
definition ICACHE_OFFSET_MASK :: u64 where "ICACHE_OFFSET_MASK = of_nat ICACHE_SIZE - 1"
definition ICACHE_PAGE_MASK :: u64 where "ICACHE_PAGE_MASK = NOT ICACHE_OFFSET_MASK"
definition MAX_DYNAMIC_ADDRESSES :: nat where "MAX_DYNAMIC_ADDRESSES = 2"

text \<open>The bits of \<^verbatim>\<open>Option\<close>.\<close>

definition CompressionZlib :: u64 where "CompressionZlib = 1"
definition ArchIA32 :: u64 where "ArchIA32 = 2"
definition IcacheVariable :: u64 where "IcacheVariable = 4"
definition PhysicalAddress :: u64 where "PhysicalAddress = 8"

definition MemRead :: u32 where "MemRead = 1"
definition MemWrite :: u32 where "MemWrite = 2"
definition ModeUnknown :: u32 where "ModeUnknown = 0"

text \<open>Sizes of the two unions of emulation calls.\<close>

definition sizeof_EmuRequest :: nat where "sizeof_EmuRequest = 8"
definition sizeof_EmuReply :: nat where "sizeof_EmuReply = 48"

datatype rec_other =
    RecOtherIcache | RecOtherOutput | RecOtherSyscallRequest | RecOtherSyscallResponse
  | RecOtherNewThread | RecOtherNewThreadResponse | RecOtherMemoryRequest | RecOtherMemoryResponse
  | RecOtherJoin | RecOtherJoinResponse | RecOtherEndResponse | RecOtherIcacheVariable
  | RecOtherSync | RecOtherSyncResponse | RecOtherLogical2Physical | RecOtherMagicInstruction
  | RecOtherMagicInstructionResponse | RecOtherRoutineChange | RecOtherRoutineAnnounce
  | RecOtherEmu | RecOtherEmuResponse | RecOtherFork | RecOtherForkResponse
  | RecOtherInstructionCount | RecOtherCacheOnly | RecOtherEnd

text \<open>The numbers of the enumerators. A byte that is none of them is a type the program does not know.\<close>

definition rec_others :: "rec_other list" where
  "rec_others =
     [RecOtherIcache, RecOtherOutput, RecOtherSyscallRequest, RecOtherSyscallResponse,
      RecOtherNewThread, RecOtherNewThreadResponse, RecOtherMemoryRequest, RecOtherMemoryResponse,
      RecOtherJoin, RecOtherJoinResponse, RecOtherEndResponse, RecOtherIcacheVariable,
      RecOtherSync, RecOtherSyncResponse, RecOtherLogical2Physical, RecOtherMagicInstruction,
      RecOtherMagicInstructionResponse, RecOtherRoutineChange, RecOtherRoutineAnnounce,
      RecOtherEmu, RecOtherEmuResponse, RecOtherFork, RecOtherForkResponse,
      RecOtherInstructionCount, RecOtherCacheOnly]"

definition rec_num :: "rec_other \<Rightarrow> u8" where
  "rec_num t = (if t = RecOtherEnd then 0xff else of_nat (length (takeWhile (\<lambda>x. x \<noteq> t) rec_others)))"

definition rec_of :: "u8 \<Rightarrow> rec_other option" where
  "rec_of b =
     (if b = 0xff then Some RecOtherEnd
      else if unat b < length rec_others then Some (rec_others ! unat b) else None)"

lemma rec_of_num [simp]: "rec_of (rec_num t) = Some t"
  by (cases t) (simp_all add: rec_of_def rec_num_def rec_others_def)

section \<open>Records\<close>

text \<open>\<^verbatim>\<open>Header\<close>, 16 bytes, and \<^verbatim>\<open>Record::Other\<close>, 6 bytes before its data.\<close>

definition header_bytes :: "u64 \<Rightarrow> u8 list" where
  "header_bytes opts = le 4 MagicNumber @ le 4 (0 :: u32) @ le 8 opts"

definition other_bytes :: "rec_other \<Rightarrow> u32 \<Rightarrow> u8 list" where
  "other_bytes t n = [0, rec_num t] @ le 4 n"

lemma length_header_bytes [simp]: "length (header_bytes opts) = 16"
  by (simp add: header_bytes_def)

lemma length_other_bytes [simp]: "length (other_bytes t n) = 6"
  by (simp add: other_bytes_def)

lemma other_bytes_parts [simp]:
  "other_bytes t n ! 0 = 0" "other_bytes t n ! Suc 0 = rec_num t" "drop 2 (other_bytes t n) = le 4 n"
  by (simp_all add: other_bytes_def)

text \<open>The byte of \<^verbatim>\<open>Record::Instruction\<close>: four bits of size, two of the number of addresses, then
  \<^verbatim>\<open>is_branch\<close> and \<^verbatim>\<open>taken\<close>. Assigning to a bit field keeps the low bits.\<close>

definition flag :: "nat \<Rightarrow> bool \<Rightarrow> u8" where
  "flag i b = (if b then push_bit i 1 else 0)"

definition instruction_byte :: "u8 \<Rightarrow> u8 \<Rightarrow> bool \<Rightarrow> bool \<Rightarrow> u8" where
  "instruction_byte sz num is_branch taken =
     take_bit 4 sz OR push_bit 4 (take_bit 2 num) OR flag 6 is_branch OR flag 7 taken"

text \<open>The ten bytes of \<^verbatim>\<open>Record::InstructionExt\<close>.\<close>

definition ext_flags :: "u8 \<Rightarrow> bool \<Rightarrow> bool \<Rightarrow> bool \<Rightarrow> bool \<Rightarrow> u8" where
  "ext_flags num is_branch taken is_predicate executed =
     take_bit 2 num OR flag 2 is_branch OR flag 3 taken OR flag 4 is_predicate OR flag 5 executed"

definition instruction_ext_bytes :: "u8 \<Rightarrow> u8 \<Rightarrow> bool \<Rightarrow> bool \<Rightarrow> bool \<Rightarrow> bool \<Rightarrow> u64 \<Rightarrow> u8 list" where
  "instruction_ext_bytes sz num is_branch taken is_predicate executed addr =
     [push_bit 4 sz, ext_flags num is_branch taken is_predicate executed] @ le 8 addr"

lemma length_ext [simp]: "length (instruction_ext_bytes sz num br tk pr ex a) = 10"
  by (simp add: instruction_ext_bytes_def)

text \<open>Reading the fields gives what was stored.\<close>

lemma bit_flag [simp]: "bit (flag i b) j \<longleftrightarrow> b \<and> i = j \<and> j < 8"
  by (auto simp: flag_def bit_simps)

lemma take_bit_small: "unat (w :: u8) < 2 ^ n \<Longrightarrow> take_bit n w = w"
  by (simp add: word_unat_eq_iff unsigned_take_bit_eq take_bit_nat_eq_self)

lemma instruction_byte_fields:
  "take_bit 4 (instruction_byte sz num br tk) = take_bit 4 sz"
  "take_bit 2 (drop_bit 4 (instruction_byte sz num br tk)) = take_bit 2 num"
  "bit (instruction_byte sz num br tk) 6 = br" "bit (instruction_byte sz num br tk) 7 = tk"
  unfolding instruction_byte_def
  by (rule bit_eqI, auto simp: bit_simps) (rule bit_eqI, auto simp: bit_simps)

lemma instruction_ext_fields:
  "take_bit 2 (ext_flags num br tk pr ex) = take_bit 2 num"
  "bit (ext_flags num br tk pr ex) 2 = br" "bit (ext_flags num br tk pr ex) 3 = tk"
  "bit (ext_flags num br tk pr ex) 4 = pr" "bit (ext_flags num br tk pr ex) 5 = ex"
  unfolding ext_flags_def by (rule bit_eqI, auto simp: bit_simps)

lemma nibble_swap: "unat (sz :: u8) < 16 \<Longrightarrow> take_bit 4 (drop_bit 4 (push_bit 4 sz :: u8)) = sz"
proof -
  assume "unat sz < 16"
  then have "take_bit 4 sz = sz" using take_bit_small [of sz 4] by simp
  moreover have "take_bit 4 (drop_bit 4 (push_bit 4 sz)) = take_bit 4 sz"
    by (rule bit_eqI) (auto simp: bit_simps)
  ultimately show ?thesis by simp
qed

end
