(* ===== verification/Sift_Reader.thy ===== *)
theory Sift_Reader
  imports Sift_Format
begin

unbundle bit_operations_syntax

text \<open>
  The reader of instruction traces (\<^verbatim>\<open>sniper/sift/sift_reader.cc\<close>). \<^verbatim>\<open>Read\<close> returns the next
  instruction of the trace and on the way calls the handlers of its client for the other records, sending
  the answers back to the writer. A handler may read and write the memory of the traced program through
  \<^verbatim>\<open>AccessMemory\<close>; its behaviour is a tree of such accesses (\<open>act\<close>) with a result at the end.

  Arguments of the model are the decompression of zlib and the instruction decoder of XED, which gives
  no result for bytes it cannot decode. Decoded instructions are kept in \<open>rd_scache\<close> under their address,
  which also serves as the pointer to them. The cells of a page of code have no value until
  they are written.
\<close>

record 'x static_instruction =
  si_addr :: u64
  si_size :: u8
  si_data :: "u8 list"
  xed_inst :: 'x
  si_next :: "u64 option"

record sift_instruction =
  in_sinst :: "u64 option"
  in_num_addresses :: u8
  in_addresses :: "u64 list"
  in_is_branch :: bool
  in_taken :: bool
  in_is_predicate :: bool
  in_executed :: bool

record 'x sift_reader =
  rd_file :: "u8 list"
  rd_input :: "u8 list"
  rd_open :: bool
  rd_compressed :: bool
  rd_out :: "u8 list"
  rd_response_open :: bool
  rd_response_filename :: string
  rd_arch32 :: bool
  rd_last_address :: u64
  rd_icache :: "u64 \<rightharpoonup> u8 option list"
  rd_scache :: "u64 \<rightharpoonup> 'x static_instruction"
  rd_vcache :: "u64 \<rightharpoonup> u64"
  m_trace_has_pa :: bool
  m_seen_end :: bool
  m_last_sinst :: "u64 option"

record 'x reader_env =
  inflate :: "u8 list \<Rightarrow> u8 list"
  xed_decode :: "bool \<Rightarrow> u8 list \<Rightarrow> 'x option"

text \<open>What a handler does: it ends with a result and the state of the client, or it accesses memory with a
  lock, an operation, an address and a buffer, and goes on with the buffer after the access.\<close>

datatype ('r, 'c) act =
    Ret 'r 'c
  | Access u32 u32 u64 "u8 list" "u8 list \<Rightarrow> ('r, 'c) act"

text \<open>\<open>None\<close> is a handler that is not set.\<close>

record 'c handlers =
  handleInstructionCountFunc :: "(u32 \<Rightarrow> 'c \<Rightarrow> (u32, 'c) act) option"
  handleCacheOnlyFunc :: "(u8 \<Rightarrow> u8 \<Rightarrow> u64 \<Rightarrow> u64 \<Rightarrow> 'c \<Rightarrow> (unit, 'c) act) option"
  handleOutputFunc :: "(u8 \<Rightarrow> u8 list \<Rightarrow> 'c \<Rightarrow> (unit, 'c) act) option"
  handleSyscallFunc :: "(u16 \<Rightarrow> u8 list \<Rightarrow> 'c \<Rightarrow> (u64, 'c) act) option"
  handleNewThreadFunc :: "('c \<Rightarrow> (u32, 'c) act) option"
  handleForkFunc :: "('c \<Rightarrow> (u32, 'c) act) option"
  handleJoinFunc :: "(u32 \<Rightarrow> 'c \<Rightarrow> (u32, 'c) act) option"
  handleMagicFunc :: "(u64 \<Rightarrow> u64 \<Rightarrow> u64 \<Rightarrow> 'c \<Rightarrow> (u64, 'c) act) option"
  handleEmuFunc :: "(u16 \<Rightarrow> u8 list \<Rightarrow> 'c \<Rightarrow> (bool \<times> u8 list, 'c) act) option"
  handleRoutineChangeFunc :: "(u8 \<Rightarrow> u64 \<Rightarrow> u64 \<Rightarrow> u64 \<Rightarrow> 'c \<Rightarrow> (unit, 'c) act) option"
  handleRoutineAnnounceFunc ::
    "(u64 \<Rightarrow> u8 list \<Rightarrow> u8 list \<Rightarrow> u64 \<Rightarrow> u32 \<Rightarrow> u32 \<Rightarrow> u8 list \<Rightarrow> 'c \<Rightarrow> (unit, 'c) act) option"

definition Reader :: "u8 list \<Rightarrow> string \<Rightarrow> 'x sift_reader" where
  "Reader file response_filename =
     \<lparr> rd_file = file, rd_input = [], rd_open = False, rd_compressed = False, rd_out = [],
       rd_response_open = False, rd_response_filename = response_filename, rd_arch32 = False,
       rd_last_address = 0, rd_icache = Map.empty, rd_scache = Map.empty, rd_vcache = Map.empty,
       m_trace_has_pa = False, m_seen_end = False, m_last_sinst = None \<rparr>"

section \<open>Streams\<close>

definition r_read :: "nat \<Rightarrow> 'x sift_reader \<Rightarrow> (u8 list \<times> 'x sift_reader) res" where
  "r_read n r =
     (if n \<le> length (rd_input r)
      then Inr (take n (rd_input r), r\<lparr> rd_input := drop n (rd_input r) \<rparr>)
      else Inl Uninitialised)"

text \<open>At the end of a plain file \<^verbatim>\<open>peek\<close> gives a byte that is not there and does not fail; the record is then
  read without a value. At the end of a compressed one it fails.\<close>

definition r_peek :: "'x sift_reader \<Rightarrow> u8 res" where
  "r_peek r =
     (case rd_input r of [] \<Rightarrow> Inl (if rd_compressed r then Assert_Failed else Uninitialised) | b # bs \<Rightarrow> Inr b)"

definition initStream :: "'x reader_env \<Rightarrow> 'x sift_reader \<Rightarrow> 'x sift_reader res" where
  "initStream env r =
     rbind (read_n (rd_file r) 0 16) (\<lambda>hdr.
       let opts = of_le (drop 8 hdr) :: u64; zlib = (opts AND CompressionZlib \<noteq> 0); rest = drop 16 (rd_file r)
       in if (of_le (take 4 hdr) :: u32) \<noteq> MagicNumber then Inl Assert_Failed
          else if (of_le (take 4 (drop 4 hdr)) :: u32) \<noteq> 0 then Inl Assert_Failed
          else if opts AND NOT CompressionZlib AND NOT ArchIA32 AND NOT PhysicalAddress AND NOT IcacheVariable \<noteq> 0
          then Inl Assert_Failed
          else Inr (r\<lparr> rd_open := True, rd_compressed := zlib,
                      rd_input := if zlib then inflate env rest else rest,
                      rd_arch32 := (opts AND ArchIA32 \<noteq> 0),
                      m_trace_has_pa := m_trace_has_pa r \<or> opts AND PhysicalAddress \<noteq> 0 \<rparr>))"

definition r_initResponse :: "'x sift_reader \<Rightarrow> 'x sift_reader res" where
  "r_initResponse r =
     (if rd_response_open r then Inr r
      else if rd_response_filename r = [] then Inl Assert_Failed
      else Inr (r\<lparr> rd_response_open := True \<rparr>))"

definition r_send :: "u8 list \<Rightarrow> 'x sift_reader \<Rightarrow> 'x sift_reader res" where
  "r_send bs r = rbind (r_initResponse r) (\<lambda>r. Inr (r\<lparr> rd_out := rd_out r @ bs \<rparr>))"

definition sendSyscallResponse :: "u64 \<Rightarrow> 'x sift_reader \<Rightarrow> 'x sift_reader res" where
  "sendSyscallResponse return_code = r_send (other_bytes RecOtherSyscallResponse 8 @ le 8 return_code)"

definition sendEmuResponse :: "bool \<Rightarrow> u8 list \<Rightarrow> 'x sift_reader \<Rightarrow> 'x sift_reader res" where
  "sendEmuResponse handled rep =
     r_send (other_bytes RecOtherEmuResponse (of_nat (1 + sizeof_EmuReply)) @ [of_bool handled] @ rep)"

definition sendSimpleResponse :: "rec_other \<Rightarrow> u8 list \<Rightarrow> 'x sift_reader \<Rightarrow> 'x sift_reader res" where
  "sendSimpleResponse t bytes = r_send (other_bytes t (of_nat (length bytes)) @ bytes)"

section \<open>Memory of the traced program\<close>

definition AccessMemory ::
    "'x reader_env \<Rightarrow> u32 \<Rightarrow> u32 \<Rightarrow> u64 \<Rightarrow> u8 list \<Rightarrow> 'x sift_reader \<Rightarrow> (u8 list \<times> 'x sift_reader) res" where
  "AccessMemory env lock_signal mem_op d_addr buf r =
     (let data_size = of_nat (length buf) :: u32;
          payload = (if mem_op = MemWrite then buf else [])
      in
      rbind (if rd_open r then Inr r else initStream env r) (\<lambda>r.
      rbind (r_send (other_bytes RecOtherMemoryRequest (20 + of_nat (length payload)) @ le 8 d_addr @
               le 4 data_size @ le 4 lock_signal @ le 4 mem_op @ payload) r) (\<lambda>r.
      rbind (r_read 6 r) (\<lambda>(hdr, r).
        if rec_of (hdr ! 1) \<noteq> Some RecOtherMemoryResponse then Inl Assert_Failed
        else rbind (r_read 12 r) (\<lambda>(bs, r).
             if (of_le (take 8 bs) :: u64) \<noteq> d_addr then Inl Assert_Failed
             else let payload_size = of_le (drop 2 hdr) - 12 :: u32 in
                  if mem_op = MemRead
                  then if data_size \<noteq> payload_size then Inl Assert_Failed
                       else r_read (length buf) r
                  else if mem_op = MemWrite
                  then if payload_size \<noteq> 0 then Inl Assert_Failed else Inr (buf, r)
                  else Inl Assert_Failed)))))"

primrec run_act :: "'x reader_env \<Rightarrow> ('r, 'c) act \<Rightarrow> 'x sift_reader \<Rightarrow> ('r \<times> 'x sift_reader \<times> 'c) res" where
  "run_act env (Ret x c) r = Inr (x, r, c)"
| "run_act env (Access lock_signal mem_op d_addr buf k) r =
     rbind (AccessMemory env lock_signal mem_op d_addr buf r) (\<lambda>(buf, r). run_act env (k buf) r)"

section \<open>Code\<close>

lemma offset_bound: "unat (a AND ICACHE_OFFSET_MASK) < ICACHE_SIZE"
proof -
  have "a AND ICACHE_OFFSET_MASK \<le> ICACHE_OFFSET_MASK" by (rule word_and_le1)
  then show ?thesis by (simp add: word_le_nat_alt ICACHE_OFFSET_MASK_def ICACHE_SIZE_def)
qed

lemma icache_pos: "0 < ICACHE_SIZE"
  by (simp add: ICACHE_SIZE_def)

text \<open>The code in a record of any size, written into the pages it falls in.\<close>

function load_code :: "u64 \<Rightarrow> nat \<Rightarrow> 'x sift_reader \<Rightarrow> 'x sift_reader res" where
  "load_code address size_left r =
     (if size_left = 0 then Inr r
      else
        let base_addr = address AND ICACHE_PAGE_MASK;
            page = (case rd_icache r base_addr of None \<Rightarrow> replicate ICACHE_SIZE None | Some p \<Rightarrow> p);
            offset = unat (address AND ICACHE_OFFSET_MASK);
            read_amount = min size_left (ICACHE_SIZE - offset)
        in rbind (r_read read_amount r) (\<lambda>(bs, r).
           rbind (write_n page offset (map Some bs)) (\<lambda>page.
           load_code (base_addr + of_nat ICACHE_SIZE) (size_left - read_amount)
             (r\<lparr> rd_icache := (rd_icache r)(base_addr \<mapsto> page) \<rparr>))))"
  by pat_completeness auto
termination
  by (relation "measure (\<lambda>(a, n, r). n)") (auto simp: min_def offset_bound icache_pos)

declare load_code.simps [simp del]

text \<open>The bytes of an instruction, from the page of its address and the ones after it.\<close>

function fetch_code :: "(u64 \<rightharpoonup> u8 option list) \<Rightarrow> u64 \<Rightarrow> bool \<Rightarrow> u64 \<Rightarrow> nat \<Rightarrow> u8 list res" where
  "fetch_code ic addr first base_addr n =
     (if n = 0 then Inr []
      else
        let offset = (if first then unat (addr AND ICACHE_OFFSET_MASK) else 0);
            k = min n (ICACHE_SIZE - offset)
        in case ic base_addr of
             None \<Rightarrow> Inl Assert_Failed
           | Some page \<Rightarrow>
               rbind (read_n page offset k) (\<lambda>cells.
               rbind (map_r (\<lambda>x. case x of None \<Rightarrow> Inl Uninitialised | Some b \<Rightarrow> Inr b) cells) (\<lambda>bs.
               rbind (fetch_code ic addr False (base_addr + of_nat ICACHE_SIZE) (n - k)) (\<lambda>rest.
               Inr (bs @ rest)))))"
  by pat_completeness auto
termination
  by (relation "measure (\<lambda>(ic, a, f, b, n). n)") (auto simp: min_def offset_bound icache_pos)

declare fetch_code.simps [simp del]

definition decodeInstruction :: "'x reader_env \<Rightarrow> u64 \<Rightarrow> u8 \<Rightarrow> 'x sift_reader \<Rightarrow> 'x static_instruction res" where
  "decodeInstruction env addr sz r =
     rbind (fetch_code (rd_icache r) addr True (addr AND ICACHE_PAGE_MASK) (unat sz)) (\<lambda>bytes.
       case xed_decode env (rd_arch32 r) bytes of
         None \<Rightarrow> Inl Assert_Failed
       | Some x \<Rightarrow> Inr \<lparr> si_addr = addr, si_size = sz, si_data = bytes, xed_inst = x, si_next = None \<rparr>)"

text \<open>The instruction that followed the last one before is tried first; its size is not compared.\<close>

definition followed_by :: "'x sift_reader \<Rightarrow> u64 \<Rightarrow> bool res" where
  "followed_by r addr =
     (case m_last_sinst r of
        None \<Rightarrow> Inr False
      | Some l \<Rightarrow>
          (case rd_scache r l of
             None \<Rightarrow> Inl Null_Deref
           | Some s \<Rightarrow>
               (case si_next s of
                  None \<Rightarrow> Inr False
                | Some b \<Rightarrow> (case rd_scache r b of None \<Rightarrow> Inl Null_Deref | Some s' \<Rightarrow> Inr (si_addr s' = addr)))))"

definition link_sinst :: "u64 \<Rightarrow> 'x sift_reader \<Rightarrow> 'x sift_reader res" where
  "link_sinst addr r =
     (case m_last_sinst r of
        None \<Rightarrow> Inr (r\<lparr> m_last_sinst := Some addr \<rparr>)
      | Some l \<Rightarrow>
          (case rd_scache r l of
             None \<Rightarrow> Inl Null_Deref
           | Some s \<Rightarrow>
               Inr (r\<lparr> rd_scache := (if si_next s = None then (rd_scache r)(l \<mapsto> s\<lparr> si_next := Some addr \<rparr>) else rd_scache r),
                      m_last_sinst := Some addr \<rparr>)))"

definition getStaticInstruction :: "'x reader_env \<Rightarrow> u64 \<Rightarrow> u8 \<Rightarrow> 'x sift_reader \<Rightarrow> 'x sift_reader res" where
  "getStaticInstruction env addr sz r =
     rbind (followed_by r addr) (\<lambda>quick.
     rbind (if quick then Inr r
            else case rd_scache r addr of
                   Some s \<Rightarrow> if si_size s = sz then Inr r else Inl Assert_Failed
                 | None \<Rightarrow> rbind (decodeInstruction env addr sz r) (\<lambda>s.
                             Inr (r\<lparr> rd_scache := (rd_scache r)(addr \<mapsto> s) \<rparr>))) (link_sinst addr))"

section \<open>Records\<close>

text \<open>A call of a handler that may be missing, with the value it has then.\<close>

definition call_opt :: "'x reader_env \<Rightarrow> 'r \<Rightarrow> ('c \<Rightarrow> ('r, 'c) act) option \<Rightarrow> 'x sift_reader \<Rightarrow> 'c \<Rightarrow> ('r \<times> 'x sift_reader \<times> 'c) res" where
  "call_opt env dflt f r c = (case f of None \<Rightarrow> Inr (dflt, r, c) | Some g \<Rightarrow> run_act env (g c) r)"

definition call_req :: "'x reader_env \<Rightarrow> ('c \<Rightarrow> ('r, 'c) act) option \<Rightarrow> 'x sift_reader \<Rightarrow> 'c \<Rightarrow> ('r \<times> 'x sift_reader \<times> 'c) res" where
  "call_req env f r c = (case f of None \<Rightarrow> Inl Assert_Failed | Some g \<Rightarrow> run_act env (g c) r)"

abbreviation app1 :: "('a \<Rightarrow> 'b) option \<Rightarrow> 'a \<Rightarrow> 'b option" where
  "app1 f x \<equiv> map_option (\<lambda>g. g x) f"

definition r_read_str :: "'x sift_reader \<Rightarrow> (u8 list \<times> 'x sift_reader) res" where
  "r_read_str r = rbind (r_read 2 r) (\<lambda>(len, r). r_read (unat (of_le len :: u16)) r)"

definition read_announce :: "'x reader_env \<Rightarrow> 'c handlers \<Rightarrow> 'x sift_reader \<Rightarrow> 'c \<Rightarrow> ('x sift_reader \<times> 'c) res" where
  "read_announce env h r c =
     rbind (r_read 8 r) (\<lambda>(eip, r). rbind (r_read_str r) (\<lambda>(nm, r). rbind (r_read_str r) (\<lambda>(imgname, r).
     rbind (r_read 8 r) (\<lambda>(offset, r). rbind (r_read 4 r) (\<lambda>(line, r). rbind (r_read 4 r) (\<lambda>(column, r).
     rbind (r_read_str r) (\<lambda>(filename, r).
     rbind (call_opt env () (map_option (\<lambda>f. f (of_le eip) nm imgname (of_le offset) (of_le line) (of_le column) filename)
              (handleRoutineAnnounceFunc h)) r c) (\<lambda>(u, r, c). Inr (r, c)))))))))"

text \<open>The records of system calls, threads and routines; \<open>False\<close> tells that the trace goes on. A record of a type
  without a meaning to the reader is skipped.\<close>

definition read_service ::
    "'x reader_env \<Rightarrow> 'c handlers \<Rightarrow> rec_other option \<Rightarrow> u32 \<Rightarrow> 'x sift_reader \<Rightarrow> 'c \<Rightarrow> (bool \<times> 'x sift_reader \<times> 'c) res" where
  "read_service env h t sz r c =
     (case t of
        Some RecOtherSyscallRequest \<Rightarrow>
          if \<not> sz > 2 then Inl Assert_Failed
          else rbind (r_read 2 r) (\<lambda>(nr, r). rbind (r_read (unat (sz - 2)) r) (\<lambda>(bytes, r).
               rbind (call_req env (map_option (\<lambda>f. f (of_le nr) bytes) (handleSyscallFunc h)) r c) (\<lambda>(ret, r, c).
               rbind (sendSyscallResponse ret r) (\<lambda>r. Inr (False, r, c)))))
      | Some RecOtherNewThread \<Rightarrow>
          if sz \<noteq> 0 then Inl Assert_Failed
          else rbind (call_req env (handleNewThreadFunc h) r c) (\<lambda>(ret, r, c).
               rbind (sendSimpleResponse RecOtherNewThreadResponse (le 4 ret) r) (\<lambda>r. Inr (False, r, c)))
      | Some RecOtherJoin \<Rightarrow>
          if sz \<noteq> 4 then Inl Assert_Failed
          else rbind (r_read 4 r) (\<lambda>(thread, r).
               rbind (call_req env (app1 (handleJoinFunc h) (of_le thread)) r c) (\<lambda>(ret, r, c).
               rbind (sendSimpleResponse RecOtherJoinResponse (le 4 ret) r) (\<lambda>r. Inr (False, r, c))))
      | Some RecOtherSync \<Rightarrow>
          if sz \<noteq> 0 then Inl Assert_Failed
          else rbind (call_opt env ModeUnknown (app1 (handleInstructionCountFunc h) 0) r c) (\<lambda>(mode, r, c).
               rbind (sendSimpleResponse RecOtherSyncResponse (le 4 mode) r) (\<lambda>r. Inr (False, r, c)))
      | Some RecOtherFork \<Rightarrow>
          if sz \<noteq> 0 then Inl Assert_Failed
          else rbind (call_req env (handleForkFunc h) r c) (\<lambda>(ret, r, c).
               rbind (sendSimpleResponse RecOtherForkResponse (le 4 ret) r) (\<lambda>r. Inr (False, r, c)))
      | Some RecOtherMagicInstruction \<Rightarrow>
          if sz \<noteq> 24 then Inl Assert_Failed
          else rbind (r_read 8 r) (\<lambda>(a, r). rbind (r_read 8 r) (\<lambda>(b, r). rbind (r_read 8 r) (\<lambda>(d, r).
               rbind (call_opt env (of_le a) (map_option (\<lambda>f. f (of_le a) (of_le b) (of_le d)) (handleMagicFunc h)) r c) (\<lambda>(result, r, c).
               rbind (sendSimpleResponse RecOtherMagicInstructionResponse (le 8 result) r) (\<lambda>r. Inr (False, r, c))))))
      | Some RecOtherEmu \<Rightarrow>
          if unat sz > 2 + sizeof_EmuRequest then Inl Assert_Failed
          else rbind (r_read 2 r) (\<lambda>(ty, r).
               if sz < 2 then Inl Out_Of_Bounds
               else rbind (r_read (unat sz - 2) r) (\<lambda>(req, r).
                    rbind (call_opt env (False, replicate sizeof_EmuReply 0)
                             (map_option (\<lambda>f. f (of_le ty) req) (handleEmuFunc h)) r c) (\<lambda>(reply, r, c).
                    rbind (sendEmuResponse (fst reply) (snd reply) r) (\<lambda>r. Inr (False, r, c)))))
      | Some RecOtherRoutineChange \<Rightarrow>
          if sz \<noteq> 25 then Inl Assert_Failed
          else rbind (r_read 25 r) (\<lambda>(bs, r).
               rbind (call_opt env () (map_option (\<lambda>f. f (bs ! 0) (of_le (take 8 (drop 1 bs))) (of_le (take 8 (drop 9 bs)))
                        (of_le (drop 17 bs))) (handleRoutineChangeFunc h)) r c) (\<lambda>(u, r, c). Inr (False, r, c)))
      | Some RecOtherRoutineAnnounce \<Rightarrow> rbind (read_announce env h r c) (\<lambda>(r, c). Inr (False, r, c))
      | _ \<Rightarrow> rbind (r_read (unat sz) r) (\<lambda>(bytes, r). Inr (False, r, c)))"

text \<open>A record that is no instruction, after its first six bytes; \<open>True\<close> for the end of the trace.\<close>

definition read_other ::
    "'x reader_env \<Rightarrow> 'c handlers \<Rightarrow> rec_other option \<Rightarrow> u32 \<Rightarrow> 'x sift_reader \<Rightarrow> 'c \<Rightarrow> (bool \<times> 'x sift_reader \<times> 'c) res" where
  "read_other env h t sz r c =
     (case t of
        Some RecOtherEnd \<Rightarrow> if sz \<noteq> 0 then Inl Assert_Failed else Inr (True, r\<lparr> m_seen_end := True \<rparr>, c)
      | Some RecOtherIcache \<Rightarrow>
          if unat sz \<noteq> 8 + ICACHE_SIZE then Inl Assert_Failed
          else rbind (r_read 8 r) (\<lambda>(address, r). rbind (r_read ICACHE_SIZE r) (\<lambda>(bytes, r).
               Inr (False, r\<lparr> rd_icache := (rd_icache r)(of_le address \<mapsto> map Some bytes) \<rparr>, c)))
      | Some RecOtherIcacheVariable \<Rightarrow>
          rbind (r_read 8 r) (\<lambda>(address, r).
          rbind (load_code (of_le address) (unat (ucast sz - 8 :: u64)) r) (\<lambda>r. Inr (False, r, c)))
      | Some RecOtherLogical2Physical \<Rightarrow>
          if sz \<noteq> 16 then Inl Assert_Failed
          else rbind (r_read 8 r) (\<lambda>(vp, r). rbind (r_read 8 r) (\<lambda>(pp, r).
               Inr (False, r\<lparr> rd_vcache := (rd_vcache r)(of_le vp \<mapsto> of_le pp) \<rparr>, c)))
      | Some RecOtherInstructionCount \<Rightarrow>
          if sz \<noteq> 4 then Inl Assert_Failed
          else rbind (r_read 4 r) (\<lambda>(icount, r).
               rbind (call_opt env ModeUnknown (app1 (handleInstructionCountFunc h) (of_le icount)) r c) (\<lambda>(mode, r, c).
               rbind (sendSimpleResponse RecOtherSyncResponse (le 4 mode) r) (\<lambda>r. Inr (False, r, c))))
      | Some RecOtherCacheOnly \<Rightarrow>
          if sz \<noteq> 18 then Inl Assert_Failed
          else rbind (r_read 18 r) (\<lambda>(bs, r).
               rbind (call_opt env () (map_option (\<lambda>f. f (bs ! 0) (bs ! 1) (of_le (take 8 (drop 2 bs))) (of_le (drop 10 bs)))
                        (handleCacheOnlyFunc h)) r c) (\<lambda>(u, r, c). Inr (False, r, c)))
      | Some RecOtherOutput \<Rightarrow>
          if \<not> sz > 1 then Inl Assert_Failed
          else rbind (r_read 1 r) (\<lambda>(fd, r). rbind (r_read (unat (sz - 1)) r) (\<lambda>(bytes, r).
               rbind (call_opt env () (map_option (\<lambda>f. f (hd fd) bytes) (handleOutputFunc h)) r c) (\<lambda>(u, r, c).
               Inr (False, r, c))))
      | _ \<Rightarrow> read_service env h t sz r c)"

text \<open>The addresses that follow an instruction; the array of the caller has two elements and the field of
  the record goes up to three.\<close>

fun read_addresses :: "nat list \<Rightarrow> sift_instruction \<Rightarrow> 'x sift_reader \<Rightarrow> (sift_instruction \<times> 'x sift_reader) res" where
  "read_addresses [] inst r = Inr (inst, r)"
| "read_addresses (i # is) inst r =
     rbind (r_read 8 r) (\<lambda>(bs, r).
     rbind (upd_r (in_addresses inst) i (of_le bs)) (\<lambda>as.
     read_addresses is (inst\<lparr> in_addresses := as \<rparr>) r))"

definition read_instruction ::
    "'x reader_env \<Rightarrow> u8 \<Rightarrow> sift_instruction \<Rightarrow> 'x sift_reader \<Rightarrow> (sift_instruction \<times> 'x sift_reader) res" where
  "read_instruction env byte inst r =
     rbind (if byte AND 0xf \<noteq> 0
            then rbind (r_read 1 r) (\<lambda>(bs, r).
                 Inr (take_bit 4 (hd bs), rd_last_address r,
                      inst\<lparr> in_num_addresses := take_bit 2 (drop_bit 4 (hd bs)), in_is_branch := bit (hd bs) 6,
                            in_taken := bit (hd bs) 7, in_is_predicate := False, in_executed := True \<rparr>, r))
            else rbind (r_read 10 r) (\<lambda>(bs, r).
                 let addr = of_le (drop 2 bs); fl = bs ! 1 in
                 Inr (take_bit 4 (drop_bit 4 (hd bs)), addr,
                      inst\<lparr> in_num_addresses := take_bit 2 fl, in_is_branch := bit fl 2, in_taken := bit fl 3,
                            in_is_predicate := bit fl 4, in_executed := bit fl 5 \<rparr>,
                      r\<lparr> rd_last_address := addr \<rparr>))) (\<lambda>(sz, addr, inst, r).
     rbind (read_addresses [0..<unat (in_num_addresses inst)] inst (r\<lparr> rd_last_address := rd_last_address r + ucast sz \<rparr>)) (\<lambda>(inst, r).
     rbind (getStaticInstruction env addr sz r) (\<lambda>r.
     Inr (inst\<lparr> in_sinst := Some addr \<rparr>, r))))"

text \<open>One round of the loop: \<open>None\<close> to go on, or the result of \<^verbatim>\<open>Read\<close>.\<close>

definition read_record ::
    "'x reader_env \<Rightarrow> 'c handlers \<Rightarrow> sift_instruction \<Rightarrow> 'x sift_reader \<Rightarrow> 'c \<Rightarrow>
      (bool option \<times> sift_instruction \<times> 'x sift_reader \<times> 'c) res" where
  "read_record env h inst r c =
     rbind (r_peek r) (\<lambda>byte.
       if byte = 0
       then rbind (r_read 6 r) (\<lambda>(hdr, r).
            rbind (read_other env h (rec_of (hdr ! 1)) (of_le (drop 2 hdr)) r c) (\<lambda>(fin, r, c).
            Inr (if fin then Some False else None, inst, r, c)))
       else rbind (read_instruction env byte inst r) (\<lambda>(inst, r). Inr (Some True, inst, r, c)))"

fun read_loop ::
    "nat \<Rightarrow> 'x reader_env \<Rightarrow> 'c handlers \<Rightarrow> sift_instruction \<Rightarrow> 'x sift_reader \<Rightarrow> 'c \<Rightarrow>
      (bool \<times> sift_instruction \<times> 'x sift_reader \<times> 'c) res" where
  "read_loop 0 env h inst r c = Inl Out_Of_Fuel"
| "read_loop (Suc n) env h inst r c =
     (if m_seen_end r then Inr (True, inst, r, c)
      else rbind (read_record env h inst r c) (\<lambda>(ret, inst, r, c).
             case ret of Some b \<Rightarrow> Inr (b, inst, r, c) | None \<Rightarrow> read_loop n env h inst r c))"

text \<open>Every round takes at least a byte from the input.\<close>

definition Read ::
    "'x reader_env \<Rightarrow> 'c handlers \<Rightarrow> sift_instruction \<Rightarrow> 'x sift_reader \<Rightarrow> 'c \<Rightarrow>
      (bool \<times> sift_instruction \<times> 'x sift_reader \<times> 'c) res" where
  "Read env h inst r c =
     rbind (if rd_open r then Inr r else initStream env r) (\<lambda>r.
       read_loop (Suc (length (rd_input r))) env h inst r c)"

definition va2pa :: "u64 \<Rightarrow> 'x sift_reader \<Rightarrow> u64" where
  "va2pa va r =
     (if m_trace_has_pa r
      then case rd_vcache r (va div Sift_PAGE_SIZE) of
             None \<Rightarrow> 0
           | Some pp \<Rightarrow> (pp * Sift_PAGE_SIZE) OR (va AND (Sift_PAGE_SIZE - 1))
      else va)"

end
