(* ===== verification/Sift_Writer.thy ===== *)
theory Sift_Writer
  imports Sift_Format
begin

unbundle bit_operations_syntax

text \<open>
  The writer of instruction traces (\<^verbatim>\<open>sniper/sift/sift_writer.cc\<close>). The traced program calls it for
  every instruction and event; it writes records to the output and, for the calls that need an answer,
  waits for a record on the response stream. \<open>wr_output\<close> are the bytes written after the header, and
  \<open>wr_response\<close> the bytes of the response stream that were not read yet. A read beyond the end of a
  stream leaves its variable without a value. Opening files succeeds.

  The parts of the program around the writer are arguments: the code of the traced program (the callback
  \<^verbatim>\<open>getCodeFunc\<close>), the page map of the operating system, which may be too short for a page, and the
  callback for memory accesses, which works on a memory of any type.
\<close>

record sift_writer =
  wr_output :: "u8 list"
  wr_output_open :: bool
  wr_options :: u64
  wr_response :: "u8 list"
  wr_response_open :: bool
  wr_response_filename :: string
  ninstrs :: u64
  hsize :: "u64 list"
  haddr :: "u64 list"
  nbranch :: u64
  npredicate :: u64
  ninstrsmall :: u64
  ninstrext :: u64
  wr_last_address :: u64
  wr_icache :: "u64 set"
  m_va2pa :: "u64 set"
  m_requires_icache_per_insn :: bool
  m_send_va2pa_mapping :: bool

text \<open>The callback gets the kind of lock, the operation, the address and a buffer, which it may fill;
  \<open>None\<close> is a pointer that was not set.\<close>

type_synonym 'm access_fun = "u32 \<Rightarrow> u32 \<Rightarrow> u64 \<Rightarrow> u8 list \<Rightarrow> 'm \<Rightarrow> u8 list \<times> 'm"

record 'm writer_env =
  code :: "u64 \<Rightarrow> u8"
  pagemap :: "u64 \<Rightarrow> u64 option"
  handleAccessMemoryFunc :: "'m access_fun option"

definition setHandleAccessMemoryFunc :: "'m access_fun option \<Rightarrow> 'm writer_env \<Rightarrow> 'm writer_env res" where
  "setHandleAccessMemoryFunc f env =
     (if f = None then Inl Assert_Failed else Inr (env\<lparr> handleAccessMemoryFunc := f \<rparr>))"

definition getCode :: "(u64 \<Rightarrow> u8) \<Rightarrow> u64 \<Rightarrow> nat \<Rightarrow> u8 list" where
  "getCode cd a n = map (\<lambda>i. cd (a + of_nat i)) [0..<n]"

section \<open>Streams\<close>

definition w_write :: "u8 list \<Rightarrow> sift_writer \<Rightarrow> sift_writer res" where
  "w_write bs w =
     (if wr_output_open w then Inr (w\<lparr> wr_output := wr_output w @ bs \<rparr>) else Inl Null_Deref)"

definition w_read :: "sim_error \<Rightarrow> nat \<Rightarrow> sift_writer \<Rightarrow> (u8 list \<times> sift_writer) res" where
  "w_read e n w =
     (if n \<le> length (wr_response w)
      then Inr (take n (wr_response w), w\<lparr> wr_response := drop n (wr_response w) \<rparr>)
      else Inl e)"

text \<open>The first six bytes of a record of the response stream.\<close>

definition w_read_other :: "sim_error \<Rightarrow> sift_writer \<Rightarrow> (rec_other option \<times> u32 \<times> sift_writer) res" where
  "w_read_other e w =
     rbind (w_read e 6 w) (\<lambda>(bs, w).
       if bs ! 0 \<noteq> 0 then Inl Assert_Failed else Inr (rec_of (bs ! 1), of_le (drop 2 bs), w))"

definition Writer :: "bool \<Rightarrow> string \<Rightarrow> bool \<Rightarrow> bool \<Rightarrow> bool \<Rightarrow> u8 list \<Rightarrow> sift_writer" where
  "Writer useCompression response_filename arch32 requires_icache_per_insn send_va2pa_mapping resp =
     \<lparr> wr_output = [], wr_output_open = True,
       wr_options = (if useCompression then CompressionZlib else 0) OR (if arch32 then ArchIA32 else 0) OR
         (if requires_icache_per_insn then IcacheVariable else 0) OR
         (if send_va2pa_mapping then PhysicalAddress else 0),
       wr_response = resp, wr_response_open = False, wr_response_filename = response_filename,
       ninstrs = 0, hsize = replicate 16 0, haddr = replicate (MAX_DYNAMIC_ADDRESSES + 1) 0,
       nbranch = 0, npredicate = 0, ninstrsmall = 0, ninstrext = 0,
       wr_last_address = 0, wr_icache = {}, m_va2pa = {},
       m_requires_icache_per_insn = requires_icache_per_insn, m_send_va2pa_mapping = send_va2pa_mapping \<rparr>"

text \<open>The file of a finished trace: the header, then what was written, compressed if asked for. The
  compression is that of zlib, the argument \<open>deflate\<close>.\<close>

definition trace_file :: "(u8 list \<Rightarrow> u8 list) \<Rightarrow> sift_writer \<Rightarrow> u8 list" where
  "trace_file deflate w = header_bytes (wr_options w) @
     (if wr_options w AND CompressionZlib \<noteq> 0 then deflate (wr_output w) else wr_output w)"

definition w_initResponse :: "sift_writer \<Rightarrow> sift_writer res" where
  "w_initResponse w =
     (if wr_response_open w then Inr w
      else if wr_response_filename w = [] then Inl Assert_Failed
      else Inr (w\<lparr> wr_response_open := True \<rparr>))"

definition End :: "sift_writer \<Rightarrow> sift_writer res" where
  "End w =
     rbind (if wr_output_open w then w_write (other_bytes RecOtherEnd 0) w else Inr w) (\<lambda>w.
       Inr (w\<lparr> wr_response_open := False, wr_output_open := False \<rparr>))"

section \<open>Physical addresses\<close>

text \<open>\<^verbatim>\<open>va2pa_lookup\<close>; a short read gives the page itself.\<close>

definition va2pa_lookup :: "(u64 \<Rightarrow> u64 option) \<Rightarrow> u64 \<Rightarrow> u64" where
  "va2pa_lookup pm vp =
     (if vp \<ge> 0xffffffffff600 \<and> vp < 0xfffffffffffff then vp
      else case pm vp of None \<Rightarrow> vp | Some pp \<Rightarrow> pp)"

definition send_va2pa :: "'m writer_env \<Rightarrow> u64 \<Rightarrow> sift_writer \<Rightarrow> sift_writer res" where
  "send_va2pa env va w =
     (let vp = va div Sift_PAGE_SIZE; pp = va2pa_lookup (pagemap env) vp in
      if m_send_va2pa_mapping w \<and> vp \<notin> m_va2pa w \<and> pp \<noteq> 0
      then rbind (w_write (other_bytes RecOtherLogical2Physical 16 @ le 8 vp @ le 8 pp) w) (\<lambda>w.
             Inr (w\<lparr> m_va2pa := insert vp (m_va2pa w) \<rparr>))
      else Inr w)"

section \<open>Instructions\<close>

text \<open>A page of code, once; the loop over the pages of an instruction, with a bound on its rounds. An
  instruction has at most 15 bytes and lies in two pages; in the last page of the address space
  the comparison never fails.\<close>

definition send_page :: "(u64 \<Rightarrow> u8) \<Rightarrow> u64 \<Rightarrow> sift_writer \<Rightarrow> sift_writer res" where
  "send_page cd base_addr w =
     (if base_addr \<in> wr_icache w then Inr w
      else rbind (w_write (other_bytes RecOtherIcache (8 + of_nat ICACHE_SIZE) @ le 8 base_addr @
               getCode cd base_addr ICACHE_SIZE) w) (\<lambda>w.
             Inr (w\<lparr> wr_icache := insert base_addr (wr_icache w) \<rparr>)))"

fun icache_loop :: "nat \<Rightarrow> (u64 \<Rightarrow> u8) \<Rightarrow> u64 \<Rightarrow> u64 \<Rightarrow> sift_writer \<Rightarrow> sift_writer res" where
  "icache_loop 0 cd base_addr lastb w = Inl Out_Of_Fuel"
| "icache_loop (Suc n) cd base_addr lastb w =
     (if base_addr \<le> lastb
      then rbind (send_page cd base_addr w) (icache_loop n cd (base_addr + of_nat ICACHE_SIZE) lastb)
      else Inr w)"

definition send_code :: "(u64 \<Rightarrow> u8) \<Rightarrow> u64 \<Rightarrow> u8 \<Rightarrow> sift_writer \<Rightarrow> sift_writer res" where
  "send_code cd addr sz w =
     (if m_requires_icache_per_insn w
      then if addr \<in> wr_icache w then Inr w
           else rbind (w_write (other_bytes RecOtherIcacheVariable (8 + ucast sz) @ le 8 addr @
                    getCode cd addr (unat sz)) w) (\<lambda>w.
                  Inr (w\<lparr> wr_icache := insert addr (wr_icache w) \<rparr>))
      else icache_loop 3 cd (addr AND ICACHE_PAGE_MASK)
             ((addr + ucast sz - 1) AND ICACHE_PAGE_MASK) w)"

definition w_Instruction ::
    "'m writer_env \<Rightarrow> u64 \<Rightarrow> u8 \<Rightarrow> u8 \<Rightarrow> u64 list \<Rightarrow> bool \<Rightarrow> bool \<Rightarrow> bool \<Rightarrow> bool \<Rightarrow> sift_writer \<Rightarrow> sift_writer res" where
  "w_Instruction env addr sz num_addresses addresses is_branch taken is_predicate executed w =
     (if \<not> sz < 16 then Inl Assert_Failed
      else if unat num_addresses > MAX_DYNAMIC_ADDRESSES then Inl Assert_Failed
      else
        rbind (send_code (code env) addr sz w) (\<lambda>w.
        rbind (send_va2pa env addr w) (\<lambda>w.
        rbind (map_r (nth_r addresses) [0..<unat num_addresses]) (\<lambda>as.
        rbind (fold_r (send_va2pa env) as w) (\<lambda>w.
        rbind (if addr = wr_last_address w \<and> \<not> is_predicate
               then rbind (w_write [instruction_byte sz num_addresses is_branch taken] w) (\<lambda>w.
                      Inr (w\<lparr> ninstrsmall := ninstrsmall w + 1 \<rparr>))
               else rbind (w_write (instruction_ext_bytes sz num_addresses is_branch taken is_predicate executed addr) w) (\<lambda>w.
                      Inr (w\<lparr> wr_last_address := addr, ninstrext := ninstrext w + 1 \<rparr>))) (\<lambda>w.
        rbind (w_write (concat (map (le 8) as)) w) (\<lambda>w.
        rbind (nth_r (hsize w) (unat sz)) (\<lambda>hs.
        rbind (nth_r (haddr w) (unat num_addresses)) (\<lambda>ha.
        Inr (w\<lparr> wr_last_address := wr_last_address w + ucast sz, ninstrs := ninstrs w + 1,
               hsize := (hsize w)[unat sz := hs + 1], haddr := (haddr w)[unat num_addresses := ha + 1],
               nbranch := nbranch w + of_bool is_branch,
               npredicate := npredicate w + of_bool is_predicate \<rparr>))))))))))"

section \<open>Events without an answer\<close>

definition CacheOnly :: "'m writer_env \<Rightarrow> u8 \<Rightarrow> u8 \<Rightarrow> u64 \<Rightarrow> u64 \<Rightarrow> sift_writer \<Rightarrow> sift_writer res" where
  "CacheOnly env icount ty eip address w =
     rbind (send_va2pa env eip w) (\<lambda>w.
     rbind (send_va2pa env address w) (\<lambda>w.
     w_write (other_bytes RecOtherCacheOnly 18 @ [icount, ty] @ le 8 eip @ le 8 address) w))"

text \<open>The data of \<open>Output\<close> and \<open>Syscall\<close> is a pointer with a 32-bit size; here a list of as many bytes.\<close>

definition Output :: "u8 \<Rightarrow> u8 list \<Rightarrow> sift_writer \<Rightarrow> sift_writer res" where
  "Output fd bytes w = w_write (other_bytes RecOtherOutput (1 + of_nat (length bytes)) @ [fd] @ bytes) w"

definition RoutineChange :: "u8 \<Rightarrow> u64 \<Rightarrow> u64 \<Rightarrow> u64 \<Rightarrow> sift_writer \<Rightarrow> sift_writer res" where
  "RoutineChange event eip esp callEip w =
     w_write (other_bytes RecOtherRoutineChange 25 @ [event] @ le 8 eip @ le 8 esp @ le 8 callEip) w"

text \<open>A string without its terminating zero; its length with it is kept in 16 bits.\<close>

definition str_len :: "u8 list \<Rightarrow> u16" where
  "str_len s = of_nat (length s) + 1"

definition str_bytes :: "u8 list \<Rightarrow> u8 list" where
  "str_bytes s = le 2 (str_len s) @ take (unat (str_len s)) (s @ [0])"

definition RoutineAnnounce ::
    "u64 \<Rightarrow> u8 list \<Rightarrow> u8 list \<Rightarrow> u64 \<Rightarrow> u32 \<Rightarrow> u32 \<Rightarrow> u8 list \<Rightarrow> sift_writer \<Rightarrow> sift_writer res" where
  "RoutineAnnounce eip nm imgname offset line column filename w =
     w_write (other_bytes RecOtherRoutineAnnounce
         (8 + 2 + ucast (str_len nm) + 2 + ucast (str_len imgname) + 8 + 4 + 4 + 2 + ucast (str_len filename)) @
       le 8 eip @ str_bytes nm @ str_bytes imgname @ le 8 offset @ le 4 line @ le 4 column @
       str_bytes filename) w"

section \<open>Events with an answer\<close>

text \<open>\<^verbatim>\<open>handleMemoryRequest\<close>: the simulator reads or writes memory of the traced program while it works on
  an event. \<open>sz\<close> is the size of the request record.\<close>

definition handleMemoryRequest :: "'m writer_env \<Rightarrow> u32 \<Rightarrow> sift_writer \<times> 'm \<Rightarrow> (sift_writer \<times> 'm) res" where
  "handleMemoryRequest env sz wm =
     (if sz < 20 then Inl Assert_Failed
      else
        rbind (w_read Uninitialised 20 (fst wm)) (\<lambda>(bs, w).
          let addr = of_le (take 8 bs) :: u64; n = of_le (take 4 (drop 8 bs)) :: u32;
              lock = of_le (take 4 (drop 12 bs)) :: u32; ty = of_le (drop 16 bs) :: u32;
              payload_size = sz - 20
          in case handleAccessMemoryFunc env of
               None \<Rightarrow> Inl Uninitialised
             | Some acc \<Rightarrow>
                 if ty = MemRead
                 then if payload_size \<noteq> 0 \<or> n = 0 then Inl Assert_Failed
                      else let (read_data, m) = acc lock ty addr (replicate (unat n) 0) (snd wm)
                           in rbind (w_write (other_bytes RecOtherMemoryResponse (12 + n) @ le 8 addr @ le 4 ty @ read_data) w)
                                (\<lambda>w. Inr (w, m))
                 else if ty = MemWrite
                 then if payload_size = 0 \<or> payload_size \<noteq> n then Inl Assert_Failed
                      else rbind (w_read Uninitialised (unat payload_size) w) (\<lambda>(payload, w).
                           let (x, m) = acc lock ty addr payload (snd wm)
                           in rbind (w_write (other_bytes RecOtherMemoryResponse 12 @ le 8 addr @ le 4 ty) w)
                                (\<lambda>w. Inr (w, m)))
                 else Inl Assert_Failed))"

text \<open>Waiting for a record of one type, with memory requests before it: the size of the record. Without
  \<open>strict\<close> other records are skipped. Every round takes six bytes from the stream.\<close>

fun await_loop :: "nat \<Rightarrow> bool \<Rightarrow> rec_other \<Rightarrow> 'm writer_env \<Rightarrow> sift_writer \<times> 'm \<Rightarrow> (u32 \<times> sift_writer \<times> 'm) res" where
  "await_loop 0 strict t env wm = Inl Out_Of_Fuel"
| "await_loop (Suc k) strict t env wm =
     rbind (w_read_other Assert_Failed (fst wm)) (\<lambda>(ty, sz, w).
       if ty = Some t then Inr (sz, w, snd wm)
       else if ty = Some RecOtherMemoryRequest
            then rbind (handleMemoryRequest env sz (w, snd wm)) (await_loop k strict t env)
       else if strict then Inl Assert_Failed
       else await_loop k strict t env (w, snd wm))"

definition await :: "bool \<Rightarrow> rec_other \<Rightarrow> 'm writer_env \<Rightarrow> sift_writer \<times> 'm \<Rightarrow> (u32 \<times> sift_writer \<times> 'm) res" where
  "await strict t env wm = await_loop (Suc (length (wr_response (fst wm)))) strict t env wm"

text \<open>Waiting for one record, and its data of \<open>n\<close> bytes.\<close>

definition await_one :: "sim_error \<Rightarrow> rec_other \<Rightarrow> nat \<Rightarrow> sift_writer \<Rightarrow> (u8 list \<times> sift_writer) res" where
  "await_one e t n w =
     rbind (w_read_other e w) (\<lambda>(ty, sz, w).
       if ty \<noteq> Some t \<or> unat sz \<noteq> n then Inl Assert_Failed else w_read e n w)"

definition InstructionCount :: "u32 \<Rightarrow> sift_writer \<Rightarrow> (u32 \<times> sift_writer) res" where
  "InstructionCount icount w =
     rbind (w_write (other_bytes RecOtherInstructionCount 4 @ le 4 icount) w) (\<lambda>w.
     rbind (w_initResponse w) (\<lambda>w.
     rbind (await_one Uninitialised RecOtherSyncResponse 4 w) (\<lambda>(bs, w). Inr (of_le bs, w))))"

definition NewThread :: "sift_writer \<Rightarrow> (u32 \<times> sift_writer) res" where
  "NewThread w =
     rbind (w_write (other_bytes RecOtherNewThread 0) w) (\<lambda>w.
     rbind (w_initResponse w) (\<lambda>w.
     rbind (await_one Uninitialised RecOtherNewThreadResponse 4 w) (\<lambda>(bs, w). Inr (of_le bs, w))))"

definition Join :: "u32 \<Rightarrow> sift_writer \<Rightarrow> (u32 \<times> sift_writer) res" where
  "Join thread w =
     rbind (w_write (other_bytes RecOtherJoin 4 @ le 4 thread) w) (\<lambda>w.
     rbind (w_initResponse w) (\<lambda>w.
     rbind (await_one Uninitialised RecOtherJoinResponse 4 w) (\<lambda>(bs, w). Inr (of_le bs, w))))"

definition Fork :: "sift_writer \<Rightarrow> (u32 \<times> sift_writer) res" where
  "Fork w =
     rbind (w_write (other_bytes RecOtherFork 0) w) (\<lambda>w.
     rbind (w_initResponse w) (\<lambda>w.
     rbind (await_one Assert_Failed RecOtherForkResponse 4 w) (\<lambda>(bs, w). Inr (of_le bs, w))))"

text \<open>\<^verbatim>\<open>SYS_write\<close> and \<^verbatim>\<open>SYS_futex\<close> of x86-64. Before the request, the mapping of the memory that their
  arguments point at is sent; \<open>args[i]\<close> are the words of the data.\<close>

definition SYS_write :: u16 where "SYS_write = 1"
definition SYS_futex :: u16 where "SYS_futex = 202"

definition syscall_va2pa :: "'m writer_env \<Rightarrow> u16 \<Rightarrow> u8 list \<Rightarrow> sift_writer \<Rightarrow> sift_writer res" where
  "syscall_va2pa env syscall_number bytes w =
     (if syscall_number = SYS_futex
      then rbind (read_n bytes 0 8) (\<lambda>a. send_va2pa env (of_le a) w)
      else if syscall_number = SYS_write
      then rbind (read_n bytes 8 8) (\<lambda>a. send_va2pa env (of_le a) w)
      else Inr w)"

definition Syscall :: "'m writer_env \<Rightarrow> u16 \<Rightarrow> u8 list \<Rightarrow> sift_writer \<times> 'm \<Rightarrow> (u64 \<times> sift_writer \<times> 'm) res" where
  "Syscall env syscall_number bytes wm =
     rbind (syscall_va2pa env syscall_number bytes (fst wm)) (\<lambda>w.
     rbind (w_write (other_bytes RecOtherSyscallRequest (2 + of_nat (length bytes)) @ le 2 syscall_number @ bytes) w) (\<lambda>w.
     rbind (w_initResponse w) (\<lambda>w.
     rbind (await False RecOtherSyscallResponse env (w, snd wm)) (\<lambda>(sz, w, m).
       if sz \<noteq> 8 then Inl Assert_Failed
       else rbind (w_read Uninitialised 8 w) (\<lambda>(bs, w). Inr (of_le bs, w, m))))))"

definition Sync :: "'m writer_env \<Rightarrow> sift_writer \<times> 'm \<Rightarrow> (u32 \<times> sift_writer \<times> 'm) res" where
  "Sync env wm =
     rbind (w_write (other_bytes RecOtherSync 0) (fst wm)) (\<lambda>w.
     rbind (w_initResponse w) (\<lambda>w.
     rbind (await True RecOtherSyncResponse env (w, snd wm)) (\<lambda>(sz, w, m).
       if sz \<noteq> 4 then Inl Assert_Failed
       else rbind (w_read Uninitialised 4 w) (\<lambda>(bs, w). Inr (of_le bs, w, m)))))"

definition Magic :: "'m writer_env \<Rightarrow> u64 \<Rightarrow> u64 \<Rightarrow> u64 \<Rightarrow> sift_writer \<times> 'm \<Rightarrow> (u64 \<times> sift_writer \<times> 'm) res" where
  "Magic env a b c wm =
     rbind (w_write (other_bytes RecOtherMagicInstruction 24 @ le 8 a @ le 8 b @ le 8 c) (fst wm)) (\<lambda>w.
     rbind (w_initResponse w) (\<lambda>w.
     rbind (await True RecOtherMagicInstructionResponse env (w, snd wm)) (\<lambda>(sz, w, m).
       if sz \<noteq> 8 then Inl Assert_Failed
       else rbind (w_read Uninitialised 8 w) (\<lambda>(bs, w). Inr (of_le bs, w, m)))))"

text \<open>\<open>req\<close> are the eight bytes of the request, \<open>rep\<close> those of the caller's reply buffer, which a shorter
  reply leaves in part as it was. A record of size zero makes the size of the read wrap around.\<close>

definition Emulate ::
    "'m writer_env \<Rightarrow> u16 \<Rightarrow> u8 list \<Rightarrow> u8 list \<Rightarrow> sift_writer \<times> 'm \<Rightarrow> (bool \<times> u8 list \<times> sift_writer \<times> 'm) res" where
  "Emulate env ty req rep wm =
     rbind (w_write (other_bytes RecOtherEmu (of_nat (2 + sizeof_EmuRequest)) @ le 2 ty @ req) (fst wm)) (\<lambda>w.
     rbind (w_initResponse w) (\<lambda>w.
     rbind (await True RecOtherEmuResponse env (w, snd wm)) (\<lambda>(sz, w, m).
       if unat sz > 1 + sizeof_EmuReply then Inl Assert_Failed
       else rbind (w_read Uninitialised 1 w) (\<lambda>(result, w).
            if sz = 0 then Inl Out_Of_Bounds
            else rbind (w_read Uninitialised (unat sz - 1) w) (\<lambda>(bs, w).
                 rbind (write_n rep 0 bs) (\<lambda>rep. Inr (hd result \<noteq> 0, rep, w, m)))))))"

end
