(* ===== verification/Sift_Stream.thy ===== *)
theory Sift_Stream
  imports Sift_Reader Sift_Writer
begin

text \<open>
  Reader and writer always end, whatever the streams hold. The reader only moves forward in its input, so
  its loop is the recursion it looks like, without the bound on its rounds.
\<close>

section \<open>The reader moves forward\<close>

text \<open>\<open>adv k r r'\<close>: from the open stream of \<open>r\<close> at least \<open>k\<close> bytes were read.\<close>

definition adv :: "nat \<Rightarrow> 'x sift_reader \<Rightarrow> 'x sift_reader \<Rightarrow> bool" where
  "adv k r r' \<longleftrightarrow> (rd_open r \<longrightarrow> rd_open r' \<and> k + length (rd_input r') \<le> length (rd_input r))"

lemma adv_refl [simp]: "adv 0 r r"
  by (simp add: adv_def)

lemma adv_trans: "adv j r r1 \<Longrightarrow> adv k r1 r2 \<Longrightarrow> adv 0 r r2" "adv (Suc j) r r1 \<Longrightarrow> adv k r1 r2 \<Longrightarrow> adv (Suc 0) r r2"
  by (auto simp: adv_def)

text \<open>\<open>ahead p r m\<close>: what \<open>p\<close> picks from the result of \<open>m\<close> is ahead of \<open>r\<close>.\<close>

definition ahead :: "('a \<Rightarrow> 'x sift_reader) \<Rightarrow> 'x sift_reader \<Rightarrow> 'a res \<Rightarrow> bool" where
  "ahead p r m \<longleftrightarrow> (\<forall>y. m = Inr y \<longrightarrow> adv 0 r (p y))"

named_theorems ahead_intros \<open>rules that show that a reader moves forward\<close>

lemma ahead_Inr [ahead_intros]: "adv 0 r (p y) \<Longrightarrow> ahead p r (Inr y)"
  by (simp add: ahead_def)

lemma ahead_Inl [ahead_intros]: "ahead p r (Inl e)"
  by (simp add: ahead_def)

lemma ahead_if [ahead_intros]: "ahead p r m \<Longrightarrow> ahead p r n \<Longrightarrow> ahead p r (if b then m else n)"
  by simp

lemma ahead_same [simp]: "rd_open r' = rd_open r \<Longrightarrow> rd_input r' = rd_input r \<Longrightarrow> adv 0 r r'"
  by (simp add: adv_def)

lemma ahead_same_start: "rd_open r' = rd_open r \<Longrightarrow> rd_input r' = rd_input r \<Longrightarrow> ahead p r' m \<Longrightarrow> ahead p r m"
  by (simp add: ahead_def adv_def)

lemma ahead_bind: "ahead q r m \<Longrightarrow> (\<And>x. ahead p (q x) (f x)) \<Longrightarrow> ahead p r (rbind m f)"
  unfolding ahead_def by (cases m) (auto intro: adv_trans(1))

lemma r_read_adv: "r_read n r = Inr (bs, r') \<Longrightarrow> adv n r r'"
  by (auto simp: r_read_def adv_def split: if_splits)

lemma ahead_r_read: "ahead snd r (r_read n r)"
  unfolding ahead_def adv_def r_read_def by simp

lemma ahead_send: "ahead id r (r_send bs r)"
  by (auto simp: ahead_def adv_def r_send_def r_initResponse_def elim!: rbindE)

text \<open>The shapes in which the code threads the reader through a computation.\<close>

lemma ahead_read [ahead_intros]: "(\<And>bs r. ahead p r (f bs r)) \<Longrightarrow> ahead p r (rbind (r_read n r) (\<lambda>(bs, r). f bs r))"
  by (rule ahead_bind [OF ahead_r_read]) (simp add: case_prod_beta)

lemma ahead_sent [ahead_intros]: "(\<And>r. ahead p r (f r)) \<Longrightarrow> ahead p r (rbind (r_send bs r) f)"
  by (rule ahead_bind [OF ahead_send]) simp

lemma ahead_AccessMemory: "rd_open r \<Longrightarrow> ahead snd r (AccessMemory env l mo a buf r)"
  unfolding AccessMemory_def Let_def by (auto intro!: ahead_intros simp: ahead_r_read)

lemma ahead_run_act: "ahead (\<lambda>(x, r, c). r) r (run_act env t r)"
proof (cases "rd_open r")
  case True
  then show ?thesis
  proof (induction t arbitrary: r)
    case (Access l mo a buf k)
    have *: "ahead snd r (AccessMemory env l mo a buf r)" by (rule ahead_AccessMemory [OF Access.prems])
    show ?case unfolding ahead_def
    proof (intro allI impI)
      fix y assume "run_act env (Access l mo a buf k) r = Inr y"
      then obtain buf' r1 where m: "AccessMemory env l mo a buf r = Inr (buf', r1)" and k: "run_act env (k buf') r1 = Inr y"
        by (auto elim!: rbind2E)
      have f: "adv 0 r r1" using * m by (auto simp: ahead_def)
      moreover have "rd_open r1" using f Access.prems by (simp add: adv_def)
      ultimately show "adv 0 r (case y of (x, r, c) \<Rightarrow> r)"
        using Access.IH [of "k buf'" r1] k adv_trans(1) by (auto simp: ahead_def)
    qed
  qed (simp add: ahead_def)
qed (simp add: ahead_def adv_def)

lemma ahead_called [ahead_intros]:
  "(\<And>x r c. ahead p r (f x r c)) \<Longrightarrow> ahead p r (rbind (call_opt env d g r c) (\<lambda>(x, r, c). f x r c))"
  "(\<And>x r c. ahead p r (f x r c)) \<Longrightarrow> ahead p r (rbind (call_req env g r c) (\<lambda>(x, r, c). f x r c))"
proof -
  have "ahead (\<lambda>(x, r, c). r) r (call_opt env d g r c)" "ahead (\<lambda>(x, r, c). r) r (call_req env g r c)"
    by (auto simp: call_opt_def call_req_def ahead_run_act split: option.splits intro!: ahead_intros)
  note * = this [THEN ahead_bind]
  assume a: "\<And>x r c. ahead p r (f x r c)"
  show "ahead p r (rbind (call_opt env d g r c) (\<lambda>(x, r, c). f x r c))" by (rule *(1)) (simp add: a case_prod_beta)
  show "ahead p r (rbind (call_req env g r c) (\<lambda>(x, r, c). f x r c))" by (rule *(2)) (simp add: a case_prod_beta)
qed

lemma ahead_other: "(\<And>x. ahead p r (f x)) \<Longrightarrow> ahead p r (rbind m f)"
  by (cases m) (auto simp: ahead_def)

lemma ahead_load_code: "ahead id r (load_code a n r)"
proof (induction n arbitrary: a r rule: less_induct)
  case (less n)
  show ?case
  proof (cases "n = 0")
    case False
    let ?off = "unat (a AND ICACHE_OFFSET_MASK)"
    have "n - min n (ICACHE_SIZE - ?off) < n" using False offset_bound [of a] by auto
    note IH = less [OF this]
    show ?thesis unfolding load_code.simps [of a n r] Let_def if_not_P [OF False]
      by (intro ahead_read ahead_other, rule ahead_same_start [OF _ _ IH]) simp_all
  qed (simp add: load_code.simps ahead_def)
qed

lemma ahead_loaded [ahead_intros]: "(\<And>r. ahead p r (f r)) \<Longrightarrow> ahead p r (rbind (load_code a n r) f)"
  by (rule ahead_bind [OF ahead_load_code]) simp

lemma ahead_str [ahead_intros]: "(\<And>bs r. ahead p r (f bs r)) \<Longrightarrow> ahead p r (rbind (r_read_str r) (\<lambda>(bs, r). f bs r))"
  unfolding r_read_str_def rbind_assoc
  by (rule ahead_bind [OF ahead_r_read]) (auto simp: case_prod_beta intro!: ahead_bind [OF ahead_r_read])

lemma ahead_announce: "ahead fst r (read_announce env h r c)"
  unfolding read_announce_def by (intro ahead_intros) simp

lemma ahead_read_other: "ahead (\<lambda>(b, r, c). r) r (read_other env h t sz r c)"
proof -
  have ann: "ahead (\<lambda>(b, r, c). r) r (rbind (read_announce env h r c) (\<lambda>(r, c). Inr (False, r, c)))"
    by (rule ahead_bind [OF ahead_announce]) (auto intro!: ahead_intros)
  show ?thesis
  proof (cases t)
    case (Some t')
    then show ?thesis
      by (cases t') (auto simp: read_other_def read_service_def sendSimpleResponse_def sendSyscallResponse_def sendEmuResponse_def ann
          intro!: ahead_intros)
  qed (auto simp: read_other_def read_service_def intro!: ahead_intros)
qed

lemma ahead_read_addresses: "ahead snd r (read_addresses is inst r)"
proof (induction "is" arbitrary: inst r)
  case (Cons i "is")
  show ?case unfolding read_addresses.simps by (intro ahead_read ahead_other Cons.IH)
qed (simp add: ahead_def)

lemma getStaticInstruction_stream:
  "getStaticInstruction env a n r = Inr r' \<Longrightarrow> rd_open r' = rd_open r \<and> rd_input r' = rd_input r"
  by (auto simp: getStaticInstruction_def link_sinst_def elim!: rbindE split: option.splits if_splits)

lemma ahead_static: "ahead id r (getStaticInstruction env a n r)"
  unfolding ahead_def using getStaticInstruction_stream by fastforce

lemma ahead_inst [ahead_intros]:
  "(\<And>inst r. ahead p r (f inst r)) \<Longrightarrow> ahead p r (rbind (read_addresses is inst r) (\<lambda>(inst, r). f inst r))"
  "(\<And>r. ahead p r (g r)) \<Longrightarrow> ahead p r (rbind (getStaticInstruction env a n r) g)"
  by (rule ahead_bind [OF ahead_read_addresses], simp add: case_prod_beta) (rule ahead_bind [OF ahead_static], simp)

lemma read_instruction_adv:
  assumes "read_instruction env b inst r = Inr (inst', r')"
  shows "adv (Suc 0) r r'"
proof -
  from assms obtain sz a inst1 r1 where
    f: "(if b AND 0xf \<noteq> 0
            then rbind (r_read 1 r) (\<lambda>(bs, r).
                 Inr (take_bit 4 (hd bs), rd_last_address r,
                      inst\<lparr> in_num_addresses := take_bit 2 (drop_bit 4 (hd bs)), in_is_branch := bit (hd bs) 6,
                            in_taken := bit (hd bs) 7, in_is_predicate := False, in_executed := True \<rparr>, r))
            else rbind (r_read 10 r) (\<lambda>(bs, r).
                 let addr = of_le (drop 2 bs); fl = bs ! 1 in
                 Inr (take_bit 4 (drop_bit 4 (hd bs)), addr,
                      inst\<lparr> in_num_addresses := take_bit 2 fl, in_is_branch := bit fl 2, in_taken := bit fl 3,
                            in_is_predicate := bit fl 4, in_executed := bit fl 5 \<rparr>,
                      r\<lparr> rd_last_address := addr \<rparr>))) = Inr (sz, a, inst1, r1)"
    and g: "rbind (read_addresses [0..<unat (in_num_addresses inst1)] inst1 (r1\<lparr> rd_last_address := rd_last_address r1 + ucast sz \<rparr>)) (\<lambda>(inst, r).
     rbind (getStaticInstruction env a sz r) (\<lambda>r. Inr (inst\<lparr> in_sinst := Some a \<rparr>, r))) = Inr (inst', r')"
    unfolding read_instruction_def by (auto elim!: rbindE)
  have "adv (Suc 0) r r1" using f by (auto simp: r_read_def adv_def Let_def split: if_splits elim!: rbind2E)
  moreover have "adv 0 r1 r'"
  proof -
    have "ahead snd r1 (rbind (read_addresses [0..<unat (in_num_addresses inst1)] inst1 (r1\<lparr> rd_last_address := rd_last_address r1 + ucast sz \<rparr>)) (\<lambda>(inst, r).
     rbind (getStaticInstruction env a sz r) (\<lambda>r. Inr (inst\<lparr> in_sinst := Some a \<rparr>, r))))"
      by (rule ahead_same_start [where r' = "r1\<lparr> rd_last_address := rd_last_address r1 + ucast sz \<rparr>"], simp_all)
        (intro ahead_intros, simp)
    then show ?thesis unfolding g by (simp add: ahead_def)
  qed
  ultimately show ?thesis by (rule adv_trans(2))
qed

lemma read_record_adv:
  assumes "read_record env h inst r c = Inr (ret, inst', r', c')"
  shows "adv (Suc 0) r r'"
proof -
  consider (other) hdr r1 fin where "r_read 6 r = Inr (hdr, r1)"
      "read_other env h (rec_of (hdr ! 1)) (of_le (drop 2 hdr)) r1 c = Inr (fin, r', c')"
    | (instr) b where "read_instruction env b inst r = Inr (inst', r')"
    using assms unfolding read_record_def by (auto elim!: rbindE split: if_splits)
  then show ?thesis
  proof cases
    case other
    have "adv (Suc 5) r r1" using r_read_adv [OF other(1)] by simp
    moreover have "adv 0 r1 r'" using ahead_read_other [of r1 env h] other(2) by (fastforce simp: ahead_def)
    ultimately show ?thesis by (rule adv_trans(2))
  qed (rule read_instruction_adv)
qed

section \<open>The loop of Read\<close>

lemma read_loop_fuel:
  "rd_open r \<Longrightarrow> length (rd_input r) < n \<Longrightarrow> length (rd_input r) < m \<Longrightarrow>
   read_loop n env h inst r c = read_loop m env h inst r c"
proof (induction n arbitrary: m inst r c)
  case (Suc n)
  then obtain k where m: "m = Suc k" by (cases m) auto
  show ?case
  proof (cases "m_seen_end r")
    case False
    have "(case ret of Some b \<Rightarrow> Inr (b, inst', r', c') | None \<Rightarrow> read_loop n env h inst' r' c') =
          (case ret of Some b \<Rightarrow> Inr (b, inst', r', c') | None \<Rightarrow> read_loop k env h inst' r' c')"
      if "read_record env h inst r c = Inr (ret, inst', r', c')" for ret inst' r' c'
    proof -
      have "rd_open r'" "length (rd_input r') < length (rd_input r)"
        using read_record_adv [OF that] Suc.prems(1) by (simp_all add: adv_def)
      then have "read_loop n env h inst' r' c' = read_loop k env h inst' r' c'"
        using Suc.prems m by (intro Suc.IH) auto
      then show ?thesis by (simp split: option.split)
    qed
    then show ?thesis using False unfolding m by (auto intro!: rbind_cong)
  qed (simp add: m)
qed simp

text \<open>\<open>Read\<close> from an open stream, without the bound.\<close>

lemma Read_step:
  assumes "rd_open r"
  shows "Read env h inst r c =
    (if m_seen_end r then Inr (True, inst, r, c)
     else rbind (read_record env h inst r c) (\<lambda>(ret, inst, r, c).
            case ret of Some b \<Rightarrow> Inr (b, inst, r, c) | None \<Rightarrow> Read env h inst r c))"
proof -
  have "(case ret of Some b \<Rightarrow> Inr (b, inst', r', c') | None \<Rightarrow> read_loop (length (rd_input r)) env h inst' r' c') =
        (case ret of Some b \<Rightarrow> Inr (b, inst', r', c') | None \<Rightarrow> Read env h inst' r' c')"
    if "read_record env h inst r c = Inr (ret, inst', r', c')" for ret inst' r' c'
  proof -
    have "rd_open r'" "length (rd_input r') < length (rd_input r)"
      using read_record_adv [OF that] assms by (simp_all add: adv_def)
    then have "read_loop (length (rd_input r)) env h inst' r' c' = Read env h inst' r' c'"
      using read_loop_fuel [of r' "length (rd_input r)" "Suc (length (rd_input r'))"]
      by (simp add: Read_def del: read_loop.simps)
    then show ?thesis by (simp split: option.split)
  qed
  then show ?thesis using assms by (auto simp: Read_def [of env h inst r c] intro!: rbind_cong)
qed

section \<open>Both programs end\<close>

lemma live_r_read [live_intros]: "live (r_read n r)"
  by (simp add: r_read_def live_def)

lemma live_r_send [live_intros]: "live (r_send bs r)"
  by (auto simp: r_send_def r_initResponse_def intro!: live_intros)

lemma live_initStream [live_intros]: "live (initStream env r)"
  by (auto simp: initStream_def Let_def intro!: live_intros)

lemma live_AccessMemory [live_intros]: "live (AccessMemory env l mo a buf r)"
  unfolding AccessMemory_def Let_def by (auto intro!: live_intros)

lemma live_run_act [live_intros]: "live (run_act env t r)"
  by (induction t arbitrary: r) (auto intro!: live_intros)

lemma live_calls [live_intros]: "live (call_opt env d g r c)" "live (call_req env g r c)"
  by (auto simp: call_opt_def call_req_def intro!: live_intros)

lemma live_load_code [live_intros]: "live (load_code a n r)"
proof (induction n arbitrary: a r rule: less_induct)
  case (less n)
  show ?case
  proof (cases "n = 0")
    case False
    let ?off = "unat (a AND ICACHE_OFFSET_MASK)"
    have "n - min n (ICACHE_SIZE - ?off) < n" using False offset_bound [of a] by auto
    note IH = less [OF this]
    show ?thesis unfolding load_code.simps [of a n r] Let_def if_not_P [OF False]
      by (intro live_intros IH)
  qed (simp add: load_code.simps live_intros)
qed

lemma live_fetch_code [live_intros]: "live (fetch_code ic a first b n)"
proof (induction n arbitrary: first b rule: less_induct)
  case (less n)
  show ?case
  proof (cases "n = 0")
    case False
    let ?off = "if first then unat (a AND ICACHE_OFFSET_MASK) else 0"
    have "n - min n (ICACHE_SIZE - ?off) < n" using False offset_bound [of a] icache_pos by auto
    note IH = less [OF this]
    show ?thesis unfolding fetch_code.simps [of ic a first b n] Let_def if_not_P [OF False]
      by (intro live_intros IH) simp_all
  qed (simp add: fetch_code.simps live_intros)
qed

lemma live_getStaticInstruction [live_intros]: "live (getStaticInstruction env a n r)"
  unfolding getStaticInstruction_def followed_by_def link_sinst_def decodeInstruction_def
  by (auto intro!: live_intros)

lemma live_read_announce [live_intros]: "live (read_announce env h r c)"
  unfolding read_announce_def r_read_str_def by (intro live_intros)

lemma live_read_other [live_intros]: "live (read_other env h t sz r c)"
proof (cases t)
  case (Some t')
  then show ?thesis
    by (cases t') (auto simp: read_other_def read_service_def sendSimpleResponse_def sendSyscallResponse_def sendEmuResponse_def
        intro!: live_intros)
qed (auto simp: read_other_def read_service_def intro!: live_intros)

lemma live_read_addresses [live_intros]: "live (read_addresses is inst r)"
  by (induction "is" arbitrary: inst r) (auto intro!: live_intros)

lemma live_read_record: "live (read_record env h inst r c)"
  unfolding read_record_def read_instruction_def r_peek_def Let_def
  by (auto intro!: live_intros split: list.splits)

lemma live_read_loop: "rd_open r \<Longrightarrow> length (rd_input r) < n \<Longrightarrow> live (read_loop n env h inst r c)"
proof (induction n arbitrary: inst r c)
  case (Suc n)
  show ?case
  proof (cases "m_seen_end r")
    case False
    have "live (read_loop n env h inst' r' c')" if "read_record env h inst r c = Inr (None, inst', r', c')" for inst' r' c'
      using read_record_adv [OF that] Suc.prems by (intro Suc.IH) (auto simp: adv_def)
    then show ?thesis using False by (auto intro!: live_intros live_read_record)
  qed (simp add: live_intros)
qed simp

lemma live_w_read [live_intros]: "err \<noteq> Out_Of_Fuel \<Longrightarrow> live (w_read err n w)"
  by (simp add: w_read_def live_def)

lemma live_w_write [live_intros]: "live (w_write bs w)"
  by (simp add: w_write_def live_def)

lemma live_handleMemoryRequest [live_intros]: "live (handleMemoryRequest env sz wm)"
  unfolding handleMemoryRequest_def Let_def by (auto intro!: live_intros)

lemma w_read_length: "w_read err n w = Inr (bs, w') \<Longrightarrow> n + length (wr_response w') = length (wr_response w)"
  by (auto simp: w_read_def split: if_splits)

lemma handleMemoryRequest_length:
  "handleMemoryRequest env sz (w, m) = Inr (w', m') \<Longrightarrow> length (wr_response w') \<le> length (wr_response w)"
  by (auto simp: handleMemoryRequest_def Let_def w_write_def split: if_splits option.splits prod.splits elim!: rbindE
      dest!: w_read_length)

lemma live_await_loop: "length (wr_response (fst wm)) < n \<Longrightarrow> live (await_loop n strict t env wm)"
proof (induction n arbitrary: wm)
  case (Suc n)
  have other: "live (w_read_other Assert_Failed w)" for w
    unfolding w_read_other_def by (auto intro!: live_intros)
  have later: "live (await_loop n b t env (w', m'))"
    if "b = strict" "w_read_other Assert_Failed (fst wm) = Inr (ty, sz, w)" "length (wr_response w') \<le> length (wr_response w)" for b ty sz w w' m'
    unfolding that(1) using that(2-) Suc.prems by (intro Suc.IH) (auto simp: w_read_other_def split: if_splits elim!: rbindE dest!: w_read_length)
  show ?case unfolding await_loop.simps
    by (intro live_intros other) (auto intro: later dest: handleMemoryRequest_length)
qed simp

text \<open>The rounds given to the loops of the model are enough: every call of the reader ends within them, and
  so does a writer that waits for a response. In the model a read past the end of a stream stops the call;
  the program goes on there with what its buffer holds, so this says nothing of truncated traces.\<close>

lemma sift_reading_ends:
  "Read env h inst r c \<noteq> Inl Out_Of_Fuel \<and> await strict t wenv wm \<noteq> Inl Out_Of_Fuel"
proof -
  have "live (Read env h inst r c)"
    unfolding Read_def
    by (intro live_intros live_read_loop) (auto simp: initStream_def Let_def split: if_splits elim!: rbindE)
  moreover have "live (await strict t wenv wm)"
    unfolding await_def by (rule live_await_loop) simp
  ultimately show ?thesis by (simp add: live_def)
qed

end
