(* ===== verification/Sift_Code.thy ===== *)
theory Sift_Code
  imports Sift_Stream
begin

unbundle bit_operations_syntax

text \<open>
  The pages of code on both sides of a trace: what the writer sends once is what the reader fetches.
\<close>

section \<open>Pages\<close>

abbreviation page_of :: "u64 \<Rightarrow> u64" where
  "page_of a \<equiv> a AND ICACHE_PAGE_MASK"

abbreviation offset_of :: "u64 \<Rightarrow> nat" where
  "offset_of a \<equiv> unat (a AND ICACHE_OFFSET_MASK)"

lemma offset_mod: "offset_of a = unat a mod 4096"
proof -
  have "a AND ICACHE_OFFSET_MASK = take_bit 12 a"
    by (simp add: ICACHE_OFFSET_MASK_def ICACHE_SIZE_def take_bit_eq_mask mask_eq_exp_minus_1)
  moreover have "unat (take_bit 12 a) = take_bit 12 (unat a)" by (rule unsigned_take_bit_eq)
  ultimately show ?thesis by (simp only: take_bit_eq_mod) simp
qed

lemma page_plus_offset: "page_of a + (a AND ICACHE_OFFSET_MASK) = a"
proof -
  have "page_of a AND (a AND ICACHE_OFFSET_MASK) = 0"
    unfolding ICACHE_PAGE_MASK_def by (simp add: and.assoc and.left_commute [of "NOT _"] )
  then have "page_of a + (a AND ICACHE_OFFSET_MASK) = page_of a OR (a AND ICACHE_OFFSET_MASK)"
    by (rule disjunctive_add_eq_or)
  also have "\<dots> = a"
    unfolding ICACHE_PAGE_MASK_def by (rule bit_eqI) (auto simp: bit_simps)
  finally show ?thesis .
qed

lemma unat_page: "unat (page_of a) = unat a div 4096 * 4096"
proof -
  have "unat (page_of a) = unat (a - (a AND ICACHE_OFFSET_MASK))" using page_plus_offset [of a] by (metis add_diff_cancel_right')
  also have "\<dots> = unat a - offset_of a"
    by (rule unat_sub) (simp add: word_le_nat_alt offset_mod)
  finally show ?thesis by (simp add: offset_mod minus_mod_eq_div_mult)
qed

lemma page_page [simp]: "page_of (page_of a) = page_of a" "offset_of (page_of a) = 0"
  by (simp_all add: word_unat_eq_iff unat_page offset_mod)

lemma mod_plus_small:
  fixes x :: nat
  assumes "x mod k + i < k"
  shows "(x + i) div k = x div k" "(x + i) mod k = x mod k + i"
proof -
  have "x + i = k * (x div k) + (x mod k + i)" by simp
  then show "(x + i) div k = x div k" "(x + i) mod k = x mod k + i" using assms by (metis div_mult_self4 div_less add.right_neutral not_less0, metis mod_mult_self4 mod_less)
qed

lemma same_page:
  assumes "offset_of a + i < ICACHE_SIZE"
  shows "page_of (a + of_nat i) = page_of a" "offset_of (a + of_nat i) = offset_of a + i"
proof -
  have i: "i < 2 ^ 64" "unat (of_nat i :: u64) = i" using assms by (simp_all add: ICACHE_SIZE_def unat_of_nat)
  have d: "unat a = unat a div 4096 * 4096 + offset_of a" by (simp add: offset_mod)
  have "unat a < 2 ^ LENGTH(64)" by (rule unsigned_less)
  then have "unat a div 4096 < 2 ^ 52" by (simp add: less_mult_imp_div_less)
  then have "unat a + i < 2 ^ 64" using d assms by (simp add: ICACHE_SIZE_def)
  then have s: "unat (a + of_nat i) = unat a + i" using i by (simp add: unat_word_ariths)
  have "unat a mod 4096 + i < 4096" using assms by (simp add: offset_mod ICACHE_SIZE_def)
  note m = mod_plus_small [OF this]
  show "page_of (a + of_nat i) = page_of a" by (simp add: word_unat_eq_iff unat_page s m)
  show "offset_of (a + of_nat i) = offset_of a + i" by (simp add: offset_mod s m)
qed

lemma next_page: "a + of_nat (ICACHE_SIZE - offset_of a) = page_of a + of_nat ICACHE_SIZE"
proof -
  have "a + of_nat (ICACHE_SIZE - offset_of a) = page_of a + (a AND ICACHE_OFFSET_MASK) + (of_nat ICACHE_SIZE - of_nat (offset_of a))"
    unfolding page_plus_offset using offset_bound [of a] by (simp add: of_nat_diff)
  then show ?thesis by simp
qed

lemma next_page_aligned: "page_of a = a \<Longrightarrow> page_of (a + of_nat ICACHE_SIZE) = a + of_nat ICACHE_SIZE"
proof -
  assume "page_of a = a"
  then have "unat a mod 4096 = 0" using page_page(2) [of a] by (simp add: offset_mod)
  moreover have "unat (a + of_nat ICACHE_SIZE) mod 4096 = unat a mod 4096"
    by (simp add: unat_word_ariths ICACHE_SIZE_def mod_mod_cancel)
  ultimately have "offset_of (a + of_nat ICACHE_SIZE) = 0" unfolding offset_mod by simp
  then have "(a + of_nat ICACHE_SIZE) AND ICACHE_OFFSET_MASK = 0" by (simp only: unat_eq_0)
  then show ?thesis using page_plus_offset [of "a + of_nat ICACHE_SIZE"] by simp
qed

section \<open>Code in the pages of the reader\<close>

definition has_code :: "(u64 \<Rightarrow> u8) \<Rightarrow> (u64 \<rightharpoonup> u8 option list) \<Rightarrow> u64 \<Rightarrow> bool" where
  "has_code cd ic a \<longleftrightarrow> (\<exists>p. ic (page_of a) = Some p \<and> length p = ICACHE_SIZE \<and> p ! offset_of a = Some (cd a))"

definition pages_ok :: "(u64 \<rightharpoonup> u8 option list) \<Rightarrow> bool" where
  "pages_ok ic \<longleftrightarrow> (\<forall>b p. ic b = Some p \<longrightarrow> length p = ICACHE_SIZE)"

lemma length_getCode [simp]: "length (getCode cd a n) = n"
  by (simp add: getCode_def)

lemma nth_getCode [simp]: "i < n \<Longrightarrow> getCode cd a n ! i = cd (a + of_nat i)"
  by (simp add: getCode_def)

lemma getCode_split: "getCode cd a (k + n) = getCode cd a k @ getCode cd (a + of_nat k) n"
  by (rule nth_equalityI) (auto simp: nth_append add.assoc [symmetric] simp flip: of_nat_add)

lemma map_r_Some: "map_r (\<lambda>x. case x of None \<Rightarrow> Inl e | Some b \<Rightarrow> Inr b) (map Some xs) = Inr xs"
  by (induction xs) auto

text \<open>The cells from an address to the end of its page, or as many as are needed.\<close>

lemma page_cells:
  assumes c: "\<And>i. i < k \<Longrightarrow> has_code cd ic (a + of_nat i)" and k: "0 < k" "offset_of a + k \<le> ICACHE_SIZE"
  obtains p where "ic (page_of a) = Some p" "length p = ICACHE_SIZE"
    "take k (drop (offset_of a) p) = map Some (getCode cd a k)"
proof -
  from c [OF k(1)] obtain p where p: "ic (page_of a) = Some p" "length p = ICACHE_SIZE" by (auto simp: has_code_def)
  have "p ! (offset_of a + i) = Some (cd (a + of_nat i))" if "i < k" for i
    using c [OF that] same_page [of a i] that k(2) p by (simp add: has_code_def)
  then have "take k (drop (offset_of a) p) = map Some (getCode cd a k)"
    using p k(2) by (intro nth_equalityI) auto
  with p that show ?thesis by blast
qed

lemma fetch_code_ok:
  assumes "\<And>i. i < n \<Longrightarrow> has_code cd ic (a + of_nat i)" "b = page_of a" "first \<longrightarrow> a = addr" "\<not> first \<longrightarrow> a = b"
  shows "fetch_code ic addr first b n = Inr (getCode cd a n)"
  using assms
proof (induction n arbitrary: a b first rule: less_induct)
  case (less n)
  show ?case
  proof (cases "n = 0")
    case False
    define off where "off = (if first then offset_of addr else 0)"
    define k where "k = min n (ICACHE_SIZE - off)"
    have "offset_of a = 0" if "\<not> first" using that less.prems(2,4) page_page(2) [of a] by metis
    then have off: "off = offset_of a" using less.prems(3) by (simp add: off_def)
    have k: "0 < k" "offset_of a + k \<le> ICACHE_SIZE" "k \<le> n" "n - k < n"
      using False offset_bound [of a] by (auto simp: k_def off)
    have "has_code cd ic (a + of_nat i)" if "i < k" for i using that k(3) by (intro less.prems(1)) simp
    then obtain p where p: "ic (page_of a) = Some p" "length p = ICACHE_SIZE" "take k (drop (offset_of a) p) = map Some (getCode cd a k)"
      by (rule page_cells [OF _ k(1,2)])
    have rest: "fetch_code ic addr False (b + of_nat ICACHE_SIZE) (n - k) = Inr (getCode cd (a + of_nat k) (n - k))"
    proof (cases "n - k = 0")
      case False
      then have "k = ICACHE_SIZE - offset_of a" by (auto simp: k_def off)
      then have e: "a + of_nat k = b + of_nat ICACHE_SIZE" using next_page [of a] less.prems(2) by simp
      have "page_of (b + of_nat ICACHE_SIZE) = b + of_nat ICACHE_SIZE"
        by (rule next_page_aligned) (simp add: less.prems(2))
      then show ?thesis unfolding e
        using less.prems(1) by (intro less.IH [OF k(4)]) (auto simp: e [symmetric] add.assoc simp flip: of_nat_add)
    qed (simp add: fetch_code.simps getCode_def)
    have "fetch_code ic addr first b n = Inr (getCode cd a k @ getCode cd (a + of_nat k) (n - k))"
      using False p k(2) rest unfolding fetch_code.simps [of ic addr first b n] Let_def off_def [symmetric] k_def [symmetric]
      by (simp add: less.prems(2) off map_r_Some)
    then show ?thesis using getCode_split [of cd a k "n - k"] k(3) by simp
  qed (simp add: fetch_code.simps getCode_def)
qed

text \<open>Storing a page or a part of it keeps the code that was there.\<close>

lemma store_cells:
  assumes p: "pages_ok ic" and k: "offset_of a + k \<le> ICACHE_SIZE"
    and q: "q = overwrite (offset_of a) (map Some (getCode cd a k)) (case ic (page_of a) of None \<Rightarrow> replicate ICACHE_SIZE None | Some p \<Rightarrow> p)"
  shows "pages_ok (ic(page_of a \<mapsto> q))" "\<And>i. i < k \<Longrightarrow> has_code cd (ic(page_of a \<mapsto> q)) (a + of_nat i)"
    "\<And>x. has_code cd ic x \<Longrightarrow> has_code cd (ic(page_of a \<mapsto> q)) x"
proof -
  define old where "old = (case ic (page_of a) of None \<Rightarrow> replicate ICACHE_SIZE None | Some p \<Rightarrow> p)"
  have l: "length old = ICACHE_SIZE" using p by (auto simp: old_def pages_ok_def split: option.split)
  have lq: "length q = ICACHE_SIZE" using k l by (simp add: q old_def [symmetric])
  have nth: "q ! j = (if offset_of a \<le> j \<and> j < offset_of a + k then Some (cd (a + of_nat (j - offset_of a))) else old ! j)"
    if "j < ICACHE_SIZE" for j
  proof -
    have "map Some (getCode cd a k) ! (j - offset_of a) = Some (cd (a + of_nat (j - offset_of a)))" if "offset_of a \<le> j" "j < offset_of a + k"
      by (subst nth_map) (use that in auto)
    then show ?thesis using that k l by (auto simp: q old_def [symmetric] nth_overwrite simp del: of_nat_diff)
  qed
  show "pages_ok (ic(page_of a \<mapsto> q))" using p lq by (auto simp: pages_ok_def)
  show "has_code cd (ic(page_of a \<mapsto> q)) (a + of_nat i)" if "i < k" for i
    using that k lq same_page [of a i] nth [of "offset_of a + i"] by (simp add: has_code_def)
  show "has_code cd (ic(page_of a \<mapsto> q)) x" if x: "has_code cd ic x" for x
  proof (cases "page_of x = page_of a")
    case True
    from x obtain p' where p': "ic (page_of a) = Some p'" "p' ! offset_of x = Some (cd x)" by (auto simp: has_code_def True)
    have "q ! offset_of x = Some (cd x)"
    proof (cases "offset_of a \<le> offset_of x \<and> offset_of x < offset_of a + k")
      case in_part: True
      have "a + of_nat (offset_of x - offset_of a) = page_of a + (a AND ICACHE_OFFSET_MASK) + (of_nat (offset_of x) - of_nat (offset_of a))"
        unfolding page_plus_offset using in_part by (simp add: of_nat_diff)
      also have "\<dots> = page_of x + (x AND ICACHE_OFFSET_MASK)" by (simp add: True)
      also have "\<dots> = x" by (rule page_plus_offset)
      finally show ?thesis using nth [OF offset_bound, of x] in_part by simp
    next
      case False
      then show ?thesis using nth [OF offset_bound, of x] p' by (auto simp: old_def)
    qed
    then show ?thesis using lq True by (simp add: has_code_def)
  next
    case False
    then show ?thesis using x by (simp add: has_code_def)
  qed
qed

lemma swap_upd: "(r\<lparr> rd_input := x \<rparr>)\<lparr> rd_icache := y \<rparr> = (r\<lparr> rd_icache := y \<rparr>)\<lparr> rd_input := x \<rparr>"
  by simp

lemma r_read_app [simp]: "length xs = n \<Longrightarrow> r_read n (r\<lparr> rd_input := xs @ ys \<rparr>) = Inr (xs, r\<lparr> rd_input := ys \<rparr>)"
  by (simp add: r_read_def)

lemma load_code_ok:
  assumes "pages_ok (rd_icache r)"
  shows "\<exists>ic. (\<forall>ys. load_code a n (r\<lparr> rd_input := getCode cd a n @ ys \<rparr>) = Inr (r\<lparr> rd_icache := ic, rd_input := ys \<rparr>)) \<and>
    pages_ok ic \<and> (\<forall>i < n. has_code cd ic (a + of_nat i)) \<and> (\<forall>x. has_code cd (rd_icache r) x \<longrightarrow> has_code cd ic x)"
  using assms
proof (induction n arbitrary: a r rule: less_induct)
  case (less n)
  show ?case
  proof (cases "n = 0")
    case False
    define k where "k = min n (ICACHE_SIZE - offset_of a)"
    have k: "0 < k" "offset_of a + k \<le> ICACHE_SIZE" "k \<le> n" "n - k < n"
      using False offset_bound [of a] by (auto simp: k_def)
    define page where "page = (case rd_icache r (page_of a) of None \<Rightarrow> replicate ICACHE_SIZE None | Some p \<Rightarrow> p)"
    define q where "q = overwrite (offset_of a) (map Some (getCode cd a k)) page"
    note st = store_cells [OF less.prems k(2) q_def [unfolded page_def]]
    define ic1 where "ic1 = (rd_icache r)(page_of a \<mapsto> q)"
    have l: "length page = ICACHE_SIZE" using less.prems by (auto simp: page_def pages_ok_def split: option.split)
    have g: "getCode cd a n = getCode cd a k @ getCode cd (a + of_nat k) (n - k)"
      using getCode_split [of cd a k "n - k"] k(3) by simp
    have step: "load_code a n (r\<lparr> rd_input := getCode cd a n @ ys \<rparr>) =
      load_code (page_of a + of_nat ICACHE_SIZE) (n - k) ((r\<lparr> rd_icache := ic1 \<rparr>)\<lparr> rd_input := getCode cd (a + of_nat k) (n - k) @ ys \<rparr>)" for ys
      using False k(2) l unfolding load_code.simps [of a n] Let_def k_def [symmetric] g
      by (simp add: page_def [symmetric] q_def swap_upd ic1_def)
    have "\<exists>ic. (\<forall>ys. load_code (page_of a + of_nat ICACHE_SIZE) (n - k) ((r\<lparr> rd_icache := ic1 \<rparr>)\<lparr> rd_input := getCode cd (a + of_nat k) (n - k) @ ys \<rparr>) =
        Inr (r\<lparr> rd_icache := ic, rd_input := ys \<rparr>)) \<and>
      pages_ok ic \<and> (\<forall>i < n - k. has_code cd ic (a + of_nat k + of_nat i)) \<and> (\<forall>x. has_code cd ic1 x \<longrightarrow> has_code cd ic x)"
    proof (cases "n - k = 0")
      case True
      then show ?thesis using st(1) by (intro exI [of _ ic1]) (simp add: load_code.simps getCode_def ic1_def)
    next
      case False
      then have "k = ICACHE_SIZE - offset_of a" by (auto simp: k_def)
      then have e: "page_of a + of_nat ICACHE_SIZE = a + of_nat k" using next_page [of a] by simp
      have "pages_ok (rd_icache (r\<lparr> rd_icache := ic1 \<rparr>))" using st(1) by (simp add: ic1_def)
      from less.IH [OF k(4) this, of "a + of_nat k"] show ?thesis unfolding e by simp
    qed
    then obtain ic where ic: "\<And>ys. load_code a n (r\<lparr> rd_input := getCode cd a n @ ys \<rparr>) = Inr (r\<lparr> rd_icache := ic, rd_input := ys \<rparr>)"
      "pages_ok ic" "\<And>i. i < n - k \<Longrightarrow> has_code cd ic (a + of_nat k + of_nat i)" "\<And>x. has_code cd ic1 x \<Longrightarrow> has_code cd ic x"
      unfolding step by blast
    have "has_code cd ic (a + of_nat i)" if "i < n" for i
    proof (cases "i < k")
      case False
      then have "a + of_nat i = a + of_nat k + of_nat (i - k)" by (simp add: of_nat_diff)
      then show ?thesis using ic(3) [of "i - k"] that False by simp
    qed (use st(2) ic(4) in \<open>simp add: ic1_def del: fun_upd_apply\<close>)
    moreover have "has_code cd ic x" if "has_code cd (rd_icache r) x" for x using st(3) [OF that] ic(4) unfolding ic1_def by blast
    ultimately show ?thesis using ic(1,2) by blast
  qed (use less.prems in \<open>auto simp: load_code.simps getCode_def intro!: exI [of _ "rd_icache r"]\<close>)
qed

end
