(* ===== verification/Sift_Link.thy ===== *)
theory Sift_Link
  imports Sift_Code
begin

unbundle bit_operations_syntax

text \<open>
  The relation between a writer and the reader of its trace, and what the records that go before an
  instruction do to it.
\<close>

section \<open>Writer and reader in step\<close>

text \<open>\<open>isz\<close> gives the size of the instruction at an address. The code the writer has marked as sent is in the
  pages of the reader.\<close>

definition code_sent :: "(u64 \<Rightarrow> u8) \<Rightarrow> (u64 \<Rightarrow> u8) \<Rightarrow> sift_writer \<Rightarrow> (u64 \<rightharpoonup> u8 option list) \<Rightarrow> bool" where
  "code_sent cd isz w ic \<longleftrightarrow>
     (\<forall>a \<in> wr_icache w. \<forall>i < (if m_requires_icache_per_insn w then unat (isz a) else ICACHE_SIZE).
        has_code cd ic (a + of_nat i))"

definition sinst_ok :: "(u64 \<Rightarrow> u8) \<Rightarrow> (u64 \<Rightarrow> u8) \<Rightarrow> 'x reader_env \<Rightarrow> bool \<Rightarrow> u64 \<Rightarrow> 'x static_instruction \<Rightarrow> bool" where
  "sinst_ok cd isz re arch a s \<longleftrightarrow> si_addr s = a \<and> si_size s = isz a \<and> si_data s = getCode cd a (unat (isz a)) \<and>
     xed_decode re arch (si_data s) = Some (xed_inst s)"

definition sinsts_ok :: "(u64 \<Rightarrow> u8) \<Rightarrow> (u64 \<Rightarrow> u8) \<Rightarrow> 'x reader_env \<Rightarrow> 'x sift_reader \<Rightarrow> bool" where
  "sinsts_ok cd isz re r \<longleftrightarrow>
     (\<forall>a s. rd_scache r a = Some s \<longrightarrow> sinst_ok cd isz re (rd_arch32 r) a s \<and> (\<forall>b. si_next s = Some b \<longrightarrow> rd_scache r b \<noteq> None)) \<and>
     (\<forall>l. m_last_sinst r = Some l \<longrightarrow> rd_scache r l \<noteq> None)"

lemma sinsts_ok_upd [simp]:
  "sinsts_ok cd isz re (r\<lparr> rd_input := a \<rparr>) = sinsts_ok cd isz re r" "sinsts_ok cd isz re (r\<lparr> rd_out := a \<rparr>) = sinsts_ok cd isz re r"
  "sinsts_ok cd isz re (r\<lparr> rd_response_open := b \<rparr>) = sinsts_ok cd isz re r" "sinsts_ok cd isz re (r\<lparr> rd_vcache := v \<rparr>) = sinsts_ok cd isz re r"
  "sinsts_ok cd isz re (r\<lparr> rd_icache := i \<rparr>) = sinsts_ok cd isz re r" "sinsts_ok cd isz re (r\<lparr> rd_last_address := l \<rparr>) = sinsts_ok cd isz re r"
  by (simp_all add: sinsts_ok_def)

lemma code_sent_upd [simp]:
  "code_sent cd isz (w\<lparr> wr_output := a \<rparr>) = code_sent cd isz w" "code_sent cd isz (w\<lparr> wr_response := a \<rparr>) = code_sent cd isz w"
  "code_sent cd isz (w\<lparr> wr_response_open := b \<rparr>) = code_sent cd isz w" "code_sent cd isz (w\<lparr> m_va2pa := v \<rparr>) = code_sent cd isz w"
  "code_sent cd isz (w\<lparr> wr_last_address := l \<rparr>) = code_sent cd isz w" "code_sent cd isz (w\<lparr> ninstrs := l \<rparr>) = code_sent cd isz w"
  "code_sent cd isz (w\<lparr> hsize := hs \<rparr>) = code_sent cd isz w" "code_sent cd isz (w\<lparr> haddr := hs \<rparr>) = code_sent cd isz w"
  "code_sent cd isz (w\<lparr> nbranch := l \<rparr>) = code_sent cd isz w" "code_sent cd isz (w\<lparr> npredicate := l \<rparr>) = code_sent cd isz w"
  "code_sent cd isz (w\<lparr> ninstrsmall := l \<rparr>) = code_sent cd isz w" "code_sent cd isz (w\<lparr> ninstrext := l \<rparr>) = code_sent cd isz w"
  by (simp_all add: code_sent_def fun_eq_iff)

definition linked :: "'m writer_env \<Rightarrow> 'x reader_env \<Rightarrow> (u64 \<Rightarrow> u8) \<Rightarrow> sift_writer \<Rightarrow> 'x sift_reader \<Rightarrow> bool" where
  "linked we re isz w r \<longleftrightarrow>
     wr_output_open w \<and> wr_response_filename w \<noteq> [] \<and> length (hsize w) = 16 \<and> length (haddr w) = 3 \<and>
     rd_open r \<and> \<not> m_seen_end r \<and> rd_response_filename r \<noteq> [] \<and>
     rd_last_address r = wr_last_address w \<and> pages_ok (rd_icache r) \<and> code_sent (code we) isz w (rd_icache r) \<and>
     (\<forall>vp \<in> m_va2pa w. rd_vcache r vp = Some (va2pa_lookup (pagemap we) vp)) \<and>
     sinsts_ok (code we) isz re r"

text \<open>\<open>eats re h B r c r' c'\<close>: reading the bytes \<open>B\<close> takes the reader and its client from \<open>(r, c)\<close> to
  \<open>(r', c')\<close> without returning. The input of \<open>r\<close> and \<open>r'\<close> does not matter.\<close>

definition eats ::
    "'x reader_env \<Rightarrow> 'c handlers \<Rightarrow> u8 list \<Rightarrow> 'x sift_reader \<Rightarrow> 'c \<Rightarrow> 'x sift_reader \<Rightarrow> 'c \<Rightarrow> bool" where
  "eats re h B r c r' c' \<longleftrightarrow>
     (\<forall>ys inst. Read re h inst (r\<lparr> rd_input := B @ ys \<rparr>) c = Read re h inst (r'\<lparr> rd_input := ys \<rparr>) c')"

lemma eats_Nil: "eats re h [] r c r c"
  by (simp add: eats_def)

lemma eats_append: "eats re h A r c r1 c1 \<Longrightarrow> eats re h B r1 c1 r2 c2 \<Longrightarrow> eats re h (A @ B) r c r2 c2"
  by (simp add: eats_def)

lemmas read_other_simps =
  read_other_def [of _ _ "Some RecOtherEnd", unfolded option.case rec_other.case]
  read_other_def [of _ _ "Some RecOtherIcache", unfolded option.case rec_other.case]
  read_other_def [of _ _ "Some RecOtherIcacheVariable", unfolded option.case rec_other.case]
  read_other_def [of _ _ "Some RecOtherLogical2Physical", unfolded option.case rec_other.case]
  read_other_def [of _ _ "Some RecOtherInstructionCount", unfolded option.case rec_other.case]
  read_other_def [of _ _ "Some RecOtherCacheOnly", unfolded option.case rec_other.case]
  read_other_def [of _ _ "Some RecOtherOutput", unfolded option.case rec_other.case]
  read_other_def [of _ _ "Some RecOtherSyscallRequest", unfolded option.case rec_other.case read_service_def]
  read_other_def [of _ _ "Some RecOtherNewThread", unfolded option.case rec_other.case read_service_def]
  read_other_def [of _ _ "Some RecOtherJoin", unfolded option.case rec_other.case read_service_def]
  read_other_def [of _ _ "Some RecOtherSync", unfolded option.case rec_other.case read_service_def]
  read_other_def [of _ _ "Some RecOtherFork", unfolded option.case rec_other.case read_service_def]
  read_other_def [of _ _ "Some RecOtherMagicInstruction", unfolded option.case rec_other.case read_service_def]
  read_other_def [of _ _ "Some RecOtherEmu", unfolded option.case rec_other.case read_service_def]
  read_other_def [of _ _ "Some RecOtherRoutineChange", unfolded option.case rec_other.case read_service_def]
  read_other_def [of _ _ "Some RecOtherRoutineAnnounce", unfolded option.case rec_other.case read_service_def]

lemma Read_other:
  assumes "rd_open r" "\<not> m_seen_end r"
  shows "Read re h inst (r\<lparr> rd_input := other_bytes t n @ ys \<rparr>) c =
    rbind (read_other re h (Some t) n (r\<lparr> rd_input := ys \<rparr>) c) (\<lambda>(fin, r, c).
      if fin then Inr (False, inst, r, c) else Read re h inst r c)"
proof -
  have "read_record re h inst (r\<lparr> rd_input := other_bytes t n @ ys \<rparr>) c =
    rbind (read_other re h (Some t) n (r\<lparr> rd_input := ys \<rparr>) c) (\<lambda>(fin, r, c). Inr (if fin then Some False else None, inst, r, c))"
  proof -
    have "r_peek (r\<lparr> rd_input := other_bytes t n @ ys \<rparr>) = Inr 0" by (simp add: r_peek_def other_bytes_def)
    then show ?thesis by (simp add: read_record_def)
  qed
  then show ?thesis using assms unfolding Read_step [of "r\<lparr> rd_input := other_bytes t n @ ys \<rparr>"]
    by (auto simp: rbind_assoc Read_step intro!: rbind_cong)
qed

lemma eats_other:
  assumes "rd_open r" "\<not> m_seen_end r"
    and "\<And>ys. read_other re h (Some t) n (r\<lparr> rd_input := B @ ys \<rparr>) c = Inr (False, r'\<lparr> rd_input := ys \<rparr>, c')"
  shows "eats re h (other_bytes t n @ B) r c r' c'"
  unfolding eats_def append_assoc Read_other [OF assms(1,2)] assms(3) by simp

text \<open>\<open>conveys\<close>: the writer goes from \<open>w\<close> to \<open>w'\<close>, the reader eats what it wrote, and the answers \<open>R\<close> of the
  reader are what the writer read.\<close>

definition conveys ::
    "'m writer_env \<Rightarrow> 'x reader_env \<Rightarrow> (u64 \<Rightarrow> u8) \<Rightarrow> 'c handlers \<Rightarrow> u8 list \<Rightarrow>
      sift_writer \<Rightarrow> 'x sift_reader \<Rightarrow> 'c \<Rightarrow> sift_writer \<Rightarrow> 'x sift_reader \<Rightarrow> 'c \<Rightarrow> bool" where
  "conveys we re isz h R w r c w' r' c' \<longleftrightarrow>
     linked we re isz w' r' \<and> wr_response w = R @ wr_response w' \<and> rd_out r' = rd_out r @ R \<and>
     wr_options w' = wr_options w \<and> m_requires_icache_per_insn w' = m_requires_icache_per_insn w \<and>
     rd_arch32 r' = rd_arch32 r \<and> (\<exists>B. wr_output w' = wr_output w @ B \<and> eats re h B r c r' c')"

lemma conveys_refl: "linked we re isz w r \<Longrightarrow> conveys we re isz h [] w r c w r c"
  by (auto simp: conveys_def intro: eats_Nil)

lemma conveys_trans:
  assumes "conveys we re isz h R w r c w1 r1 c1" "conveys we re isz h S w1 r1 c1 w2 r2 c2"
  shows "conveys we re isz h (R @ S) w r c w2 r2 c2"
proof -
  from assms obtain A B where "wr_output w1 = wr_output w @ A" "eats re h A r c r1 c1"
    "wr_output w2 = wr_output w1 @ B" "eats re h B r1 c1 r2 c2" by (auto simp: conveys_def)
  then have "wr_output w2 = wr_output w @ (A @ B) \<and> eats re h (A @ B) r c r2 c2" using eats_append by fastforce
  then show ?thesis using assms unfolding conveys_def by auto
qed

lemma conveys_linked: "conveys we re isz h R w r c w' r' c' \<Longrightarrow> linked we re isz w' r'"
  by (simp add: conveys_def)

lemma linked_open: "linked we re isz w r \<Longrightarrow> rd_open r \<and> \<not> m_seen_end r \<and> wr_output_open w"
  by (simp add: linked_def)

text \<open>One record that the writer writes.\<close>

lemma conveys_other:
  assumes "linked we re isz w r" "linked we re isz w' r'" "wr_output w' = wr_output w @ other_bytes t n @ B"
    "wr_response w' = wr_response w" "wr_options w' = wr_options w" "m_requires_icache_per_insn w' = m_requires_icache_per_insn w"
    "rd_out r' = rd_out r" "rd_arch32 r' = rd_arch32 r"
    "\<And>ys. read_other re h (Some t) n (r\<lparr> rd_input := B @ ys \<rparr>) c = Inr (False, r'\<lparr> rd_input := ys \<rparr>, c')"
  shows "conveys we re isz h [] w r c w' r' c'"
  using assms eats_other [OF _ _ assms(9)] by (auto simp: conveys_def linked_def)

section \<open>Physical addresses\<close>

lemma send_va2pa_conveys:
  assumes "linked we re isz w r"
  shows "\<exists>w' r'. send_va2pa we va w = Inr w' \<and> conveys we re isz h [] w r c w' r' c \<and>
    wr_last_address w' = wr_last_address w \<and> rd_icache r' = rd_icache r"
proof -
  define vp where "vp = va div Sift_PAGE_SIZE"
  define pp where "pp = va2pa_lookup (pagemap we) vp"
  show ?thesis
  proof (cases "m_send_va2pa_mapping w \<and> vp \<notin> m_va2pa w \<and> pp \<noteq> 0")
    case True
    let ?w = "w\<lparr> wr_output := wr_output w @ other_bytes RecOtherLogical2Physical 16 @ le 8 vp @ le 8 pp, m_va2pa := insert vp (m_va2pa w) \<rparr>"
    let ?r = "r\<lparr> rd_vcache := (rd_vcache r)(vp \<mapsto> pp) \<rparr>"
    have "send_va2pa we va w = Inr ?w"
      using True linked_open [OF assms] by (simp add: send_va2pa_def Let_def vp_def pp_def w_write_def)
    moreover have "linked we re isz ?w ?r" using assms by (simp add: linked_def pp_def)
    then have "conveys we re isz h [] w r c ?w ?r c"
      by (rule conveys_other [OF assms, where t = RecOtherLogical2Physical and n = 16 and B = "le 8 vp @ le 8 pp"])
        (simp_all add: read_other_simps)
    ultimately show ?thesis by (intro exI [of _ ?w] exI [of _ ?r]) simp
  next
    case False
    then have "send_va2pa we va w = Inr w" by (auto simp: send_va2pa_def Let_def vp_def pp_def)
    then show ?thesis using conveys_refl [OF assms, of h c] by auto
  qed
qed

text \<open>The reader translates an address whose page was sent as the page map does.\<close>

lemma va2pa_linked:
  "linked we re isz w r \<Longrightarrow> m_trace_has_pa r \<Longrightarrow> va div Sift_PAGE_SIZE \<in> m_va2pa w \<Longrightarrow>
   va2pa va r = va2pa_lookup (pagemap we) (va div Sift_PAGE_SIZE) * Sift_PAGE_SIZE OR (va AND (Sift_PAGE_SIZE - 1))"
  by (simp add: va2pa_def linked_def)

section \<open>Code\<close>

lemma page_sent:
  assumes "linked we re isz w r" "\<not> m_requires_icache_per_insn w" "page_of x \<in> wr_icache w"
  shows "has_code (code we) (rd_icache r) x"
proof -
  have "\<forall>i < ICACHE_SIZE. has_code (code we) (rd_icache r) (page_of x + of_nat i)"
    using assms by (simp add: linked_def code_sent_def)
  with offset_bound [of x] have "has_code (code we) (rd_icache r) (page_of x + of_nat (offset_of x))" by blast
  then show ?thesis by (simp add: page_plus_offset)
qed

lemma send_page_conveys:
  assumes l: "linked we re isz w r" and p: "\<not> m_requires_icache_per_insn w" and b: "page_of b = b"
  shows "\<exists>w' r'. send_page (code we) b w = Inr w' \<and> conveys we re isz h [] w r c w' r' c \<and>
    wr_last_address w' = wr_last_address w \<and> insert b (wr_icache w) \<subseteq> wr_icache w'"
proof (cases "b \<in> wr_icache w")
  case True
  then show ?thesis using conveys_refl [OF l, of h c] by (auto simp: send_page_def)
next
  case False
  define q where "q = map Some (getCode (code we) b ICACHE_SIZE)"
  let ?B = "le 8 b @ getCode (code we) b ICACHE_SIZE"
  let ?w = "w\<lparr> wr_output := wr_output w @ other_bytes RecOtherIcache (8 + of_nat ICACHE_SIZE) @ ?B, wr_icache := insert b (wr_icache w) \<rparr>"
  let ?r = "r\<lparr> rd_icache := (rd_icache r)(b \<mapsto> q) \<rparr>"
  have pages: "pages_ok (rd_icache r)" using l by (simp add: linked_def)
  have "offset_of b = 0" using page_page(2) [of b] b by simp
  moreover have "length (case rd_icache r (page_of b) of None \<Rightarrow> replicate ICACHE_SIZE None | Some p \<Rightarrow> p) = ICACHE_SIZE"
    using pages by (auto simp: pages_ok_def split: option.split)
  ultimately have "q = overwrite (offset_of b) (map Some (getCode (code we) b ICACHE_SIZE)) (case rd_icache r (page_of b) of None \<Rightarrow> replicate ICACHE_SIZE None | Some p \<Rightarrow> p)"
    by (simp add: q_def)
  note st = store_cells [OF pages _ this, unfolded b]
  have "code_sent (code we) isz ?w ((rd_icache r)(b \<mapsto> q))"
    using l p st(2,3) \<open>offset_of b = 0\<close> by (auto simp: code_sent_def linked_def simp del: fun_upd_apply)
  then have "linked we re isz ?w ?r" using l st(1) \<open>offset_of b = 0\<close> by (simp add: linked_def del: fun_upd_apply)
  then have "conveys we re isz h [] w r c ?w ?r c"
    by (rule conveys_other [OF l, where t = RecOtherIcache and n = "8 + of_nat ICACHE_SIZE" and B = ?B])
      (simp_all add: read_other_simps q_def ICACHE_SIZE_def)
  moreover have "send_page (code we) b w = Inr ?w"
    using False linked_open [OF l] by (simp add: send_page_def w_write_def)
  ultimately show ?thesis by (intro exI [of _ ?w] exI [of _ ?r]) auto
qed

text \<open>An instruction that does not reach the last page of the address space lies in one page or in two.\<close>

lemma instruction_pages:
  fixes a :: u64
  assumes "0 < n" "n < 16" "unat a + n + 4096 \<le> 2 ^ 64"
  shows "page_of (a + of_nat n - 1) = page_of a \<or> page_of (a + of_nat n - 1) = page_of a + of_nat ICACHE_SIZE"
    "\<And>i. i < n \<Longrightarrow> page_of (a + of_nat i) = page_of a \<or> page_of (a + of_nat i) = page_of (a + of_nat n - 1)"
    "unat (page_of (a + of_nat n - 1)) + 4096 < 2 ^ 64" "unat (page_of a) + 4096 < 2 ^ 64"
proof -
  have u: "unat (a + of_nat i) = unat a + i" if "i < n" for i
    using that assms by (simp add: unat_word_ariths unat_of_nat)
  have e: "a + of_nat n - 1 = a + of_nat (n - 1)" using assms(1) by (simp add: of_nat_diff)
  let ?p = "\<lambda>i. (unat a + i) div 4096"
  have pg: "unat (page_of (a + of_nat i)) = ?p i * 4096" if "i < n" for i using u [OF that] by (simp add: unat_page)
  have two: "?p i = unat a div 4096 \<or> ?p i = Suc (unat a div 4096)" if "i < n" for i
  proof -
    have "unat a div 4096 \<le> ?p i" by (simp add: div_le_mono)
    moreover have "?p i \<le> (unat a + 4096) div 4096" using that assms(2) by (intro div_le_mono) simp
    ultimately show ?thesis by (simp add: div_add_self2) linarith
  qed
  have lt: "?p i * 4096 + 4096 < 2 ^ 64" if "i < n" for i
  proof -
    have "unat a + i < (2 ^ 52 - 1) * 4096" using that assms(3) by simp
    then have "?p i < 2 ^ 52 - 1" by (rule less_mult_imp_div_less)
    then show ?thesis by simp
  qed
  show "page_of (a + of_nat n - 1) = page_of a \<or> page_of (a + of_nat n - 1) = page_of a + of_nat ICACHE_SIZE"
    using two [of "n - 1"] pg [of "n - 1"] lt [of 0] assms(1) unfolding e
    by (auto simp: word_unat_eq_iff unat_page unat_word_ariths ICACHE_SIZE_def)
  show "unat (page_of (a + of_nat n - 1)) + 4096 < 2 ^ 64" "unat (page_of a) + 4096 < 2 ^ 64"
    using pg [of "n - 1"] lt [of "n - 1"] lt [of 0] assms(1) unfolding e by (simp_all add: unat_page)
  show "page_of (a + of_nat i) = page_of a \<or> page_of (a + of_nat i) = page_of (a + of_nat n - 1)" if "i < n" for i
  proof -
    have "?p i \<le> ?p (n - 1)" using that by (intro div_le_mono) simp
    then show ?thesis using two [OF that] two [of "n - 1"] pg [OF that] pg [of "n - 1"] that unfolding e
      by (auto simp: word_unat_eq_iff unat_page)
  qed
qed

lemma send_pages_conveys:
  assumes l: "linked we re isz w r" and p: "\<not> m_requires_icache_per_insn w"
    and n: "0 < unat sz" "unat sz < 16" "unat addr + unat sz + 4096 \<le> 2 ^ 64"
  shows "\<exists>w' r'. icache_loop 3 (code we) (page_of addr) (page_of (addr + ucast sz - 1)) w = Inr w' \<and>
    conveys we re isz h [] w r c w' r' c \<and> wr_last_address w' = wr_last_address w \<and>
    {page_of addr, page_of (addr + ucast sz - 1)} \<subseteq> wr_icache w'"
proof -
  let ?b = "page_of addr" and ?l = "page_of (addr + ucast sz - 1)"
  have u: "(ucast sz :: u64) = of_nat (unat sz)" by simp
  note pg = instruction_pages [OF n, folded u]
  have up: "unat (x + of_nat ICACHE_SIZE) = unat x + 4096" if "unat x + 4096 < 2 ^ 64" for x :: u64
    using that by (simp add: unat_word_ariths ICACHE_SIZE_def)
  obtain w1 r1 where 1: "send_page (code we) ?b w = Inr w1" "conveys we re isz h [] w r c w1 r1 c"
    "wr_last_address w1 = wr_last_address w" "insert ?b (wr_icache w) \<subseteq> wr_icache w1"
    using send_page_conveys [OF l p page_page(1), where h = h and c = c] by blast
  show ?thesis
  proof (cases "?l = ?b")
    case True
    have "\<not> ?b + of_nat ICACHE_SIZE \<le> ?b" using up [OF pg(4)] by (simp add: word_le_nat_alt)
    then have "icache_loop 3 (code we) ?b ?l w = Inr w1" using 1(1) unfolding True by (simp add: numeral_3_eq_3)
    then show ?thesis using 1 True by auto
  next
    case False
    then have e: "?l = ?b + of_nat ICACHE_SIZE" using pg(1) by simp
    have "\<not> m_requires_icache_per_insn w1" "page_of ?l = ?l" using 1(2) p by (simp_all add: conveys_def)
    then obtain w2 r2 where 2: "send_page (code we) ?l w1 = Inr w2" "conveys we re isz h [] w1 r1 c w2 r2 c"
      "wr_last_address w2 = wr_last_address w1" "insert ?l (wr_icache w1) \<subseteq> wr_icache w2"
      using send_page_conveys [OF conveys_linked [OF 1(2)], where b = ?l and h = h and c = c] by blast
    have "\<not> ?l + of_nat ICACHE_SIZE \<le> ?l" "?b \<le> ?l" using up [OF pg(3)] up [OF pg(4)] e by (simp_all add: word_le_nat_alt)
    then have "icache_loop 3 (code we) ?b ?l w = Inr w2" using 1(1) 2(1) by (simp add: numeral_3_eq_3 e [symmetric])
    moreover have "conveys we re isz h [] w r c w2 r2 c" using conveys_trans [OF 1(2) 2(2)] by simp
    ultimately show ?thesis using 1(3,4) 2(3,4) by auto
  qed
qed

lemma send_code_conveys:
  assumes l: "linked we re isz w r" and sz: "sz = isz addr"
    and n: "0 < unat sz" "unat sz < 16" "unat addr + unat sz + 4096 \<le> 2 ^ 64"
  shows "\<exists>w' r'. send_code (code we) addr sz w = Inr w' \<and> conveys we re isz h [] w r c w' r' c \<and>
    wr_last_address w' = wr_last_address w \<and> (\<forall>i < unat sz. has_code (code we) (rd_icache r') (addr + of_nat i))"
proof (cases "m_requires_icache_per_insn w")
  case False
  from send_pages_conveys [OF l False n, of h c] obtain w' r' where
    1: "icache_loop 3 (code we) (page_of addr) (page_of (addr + ucast sz - 1)) w = Inr w'" "conveys we re isz h [] w r c w' r' c"
    "wr_last_address w' = wr_last_address w" "{page_of addr, page_of (addr + ucast sz - 1)} \<subseteq> wr_icache w'" by blast
  have p: "\<not> m_requires_icache_per_insn w'" using 1(2) False by (simp add: conveys_def)
  have "has_code (code we) (rd_icache r') (addr + of_nat i)" if "i < unat sz" for i
    using instruction_pages(2) [OF n that] 1(4) by (intro page_sent [OF conveys_linked [OF 1(2)] p]) auto
  then show ?thesis using 1 False by (auto simp: send_code_def)
next
  case True
  show ?thesis
  proof (cases "addr \<in> wr_icache w")
    case in_cache: True
    have "\<forall>i < unat sz. has_code (code we) (rd_icache r) (addr + of_nat i)"
      using l in_cache True by (simp add: linked_def code_sent_def sz)
    then show ?thesis using in_cache True conveys_refl [OF l, of h c] by (auto simp: send_code_def)
  next
    case False
    let ?B = "le 8 addr @ getCode (code we) addr (unat sz)"
    let ?w = "w\<lparr> wr_output := wr_output w @ other_bytes RecOtherIcacheVariable (8 + ucast sz) @ ?B, wr_icache := insert addr (wr_icache w) \<rparr>"
    obtain ic where ic: "\<And>ys. load_code addr (unat sz) (r\<lparr> rd_input := getCode (code we) addr (unat sz) @ ys \<rparr>) = Inr (r\<lparr> rd_icache := ic, rd_input := ys \<rparr>)"
      "pages_ok ic" "\<And>i. i < unat sz \<Longrightarrow> has_code (code we) ic (addr + of_nat i)"
      "\<And>x. has_code (code we) (rd_icache r) x \<Longrightarrow> has_code (code we) ic x"
      using load_code_ok [of r addr "unat sz" "code we"] l unfolding linked_def by blast
    let ?r = "r\<lparr> rd_icache := ic \<rparr>"
    have s: "unat (ucast (8 + ucast sz :: u32) - 8 :: u64) = unat sz"
    proof -
      have "unat (ucast (8 + ucast sz :: u32) :: u64) = unat (8 + ucast sz :: u64)"
        using n(2) by (simp add: unat_word_ariths unsigned_ucast_eq take_bit_eq_mod)
      then have "(ucast (8 + ucast sz :: u32) :: u64) = 8 + ucast sz" by (simp only: word_unat_eq_iff)
      then show ?thesis using n(2) by (simp add: unsigned_ucast_eq take_bit_eq_mod unat_word_ariths)
    qed
    have "code_sent (code we) isz ?w ic"
      using l True ic(3,4) sz by (auto simp: code_sent_def linked_def)
    then have "linked we re isz ?w ?r" using l ic(2) by (simp add: linked_def)
    then have "conveys we re isz h [] w r c ?w ?r c"
      by (rule conveys_other [OF l, where t = RecOtherIcacheVariable and n = "8 + ucast sz" and B = ?B])
        (simp_all add: read_other_simps s ic(1))
    moreover have "send_code (code we) addr sz w = Inr ?w"
      using False True linked_open [OF l] by (simp add: send_code_def w_write_def)
    ultimately show ?thesis using ic(3) by (intro exI [of _ ?w] exI [of _ ?r]) auto
  qed
qed

end
