(* ===== verification/Sift_Inst.thy ===== *)
theory Sift_Inst
  imports Sift_Link
begin

unbundle bit_operations_syntax

text \<open>
  Instructions through a trace: the reader returns each with the code and the addresses it was written with.
\<close>

section \<open>Decoded instructions\<close>

lemma static_input:
  "getStaticInstruction env a n (r\<lparr> rd_input := ys \<rparr>) =
     rbind (getStaticInstruction env a n r) (\<lambda>r. Inr (r\<lparr> rd_input := ys \<rparr>))"
proof -
  have f: "followed_by (r\<lparr> rd_input := ys \<rparr>) a = followed_by r a" by (simp add: followed_by_def split: option.split)
  have d: "decodeInstruction env a n (r\<lparr> rd_input := ys \<rparr>) = decodeInstruction env a n r" by (simp add: decodeInstruction_def)
  have l: "link_sinst a (r\<lparr> rd_input := ys \<rparr>) = rbind (link_sinst a r) (\<lambda>r. Inr (r\<lparr> rd_input := ys \<rparr>))" for r :: "'a sift_reader"
    by (simp add: link_sinst_def split: option.split)
  have c: "link_sinst a (r\<lparr> rd_input := ys, rd_scache := sc \<rparr>) = rbind (link_sinst a (r\<lparr> rd_scache := sc \<rparr>)) (\<lambda>r. Inr (r\<lparr> rd_input := ys \<rparr>))" for sc
  proof -
    have "r\<lparr> rd_input := ys, rd_scache := sc \<rparr> = r\<lparr> rd_scache := sc, rd_input := ys \<rparr>" by simp
    then show ?thesis using l [of "r\<lparr> rd_scache := sc \<rparr>"] by (simp only:)
  qed
  show ?thesis unfolding getStaticInstruction_def f d
    by (cases "followed_by r a"; cases "rd_scache r a"; cases "decodeInstruction env a n r") (simp_all add: l c)
qed

lemma followed_by_ok:
  assumes "sinsts_ok cd isz re r"
  shows "\<exists>q. followed_by r a = Inr q \<and> (q \<longrightarrow> rd_scache r a \<noteq> None)"
proof (cases "m_last_sinst r")
  case (Some l)
  then obtain s where s: "rd_scache r l = Some s" using assms by (auto simp: sinsts_ok_def)
  show ?thesis
  proof (cases "si_next s")
    case (Some b)
    then obtain s' where s': "rd_scache r b = Some s'" using assms s unfolding sinsts_ok_def by blast
    then have "si_addr s' = b" using assms by (auto simp: sinsts_ok_def sinst_ok_def)
    then show ?thesis using \<open>m_last_sinst r = Some l\<close> s Some s' by (auto simp: followed_by_def)
  qed (auto simp: followed_by_def s Some)
qed (auto simp: followed_by_def)

lemma link_sinst_ok:
  assumes ok: "sinsts_ok cd isz re r" and a: "rd_scache r a \<noteq> None"
  shows "\<exists>sc. link_sinst a r = Inr (r\<lparr> rd_scache := sc, m_last_sinst := Some a \<rparr>) \<and>
    sinsts_ok cd isz re (r\<lparr> rd_scache := sc, m_last_sinst := Some a \<rparr>) \<and> sc a \<noteq> None"
proof (cases "m_last_sinst r")
  case None
  then show ?thesis using assms by (intro exI [of _ "rd_scache r"]) (auto simp: link_sinst_def sinsts_ok_def)
next
  case (Some l)
  then obtain s where s: "rd_scache r l = Some s" using ok by (auto simp: sinsts_ok_def)
  define sc where "sc = (if si_next s = None then (rd_scache r)(l \<mapsto> s\<lparr> si_next := Some a \<rparr>) else rd_scache r)"
  have dom: "sc b = None \<longleftrightarrow> rd_scache r b = None" for b using s by (auto simp: sc_def)
  have one: "sinst_ok cd isz re (rd_arch32 r) b t \<and> (\<forall>d. si_next t = Some d \<longrightarrow> sc d \<noteq> None)" if "sc b = Some t" for b t
  proof (cases "si_next s = None \<and> b = l")
    case True
    then have "t = s\<lparr> si_next := Some a \<rparr>" using that by (simp add: sc_def)
    moreover have "sinst_ok cd isz re (rd_arch32 r) l s" using ok s by (simp add: sinsts_ok_def)
    ultimately show ?thesis using a True dom by (auto simp: sinst_ok_def)
  next
    case False
    then have "rd_scache r b = Some t" using that by (auto simp: sc_def split: if_splits)
    then show ?thesis using ok dom unfolding sinsts_ok_def by blast
  qed
  have "link_sinst a r = Inr (r\<lparr> rd_scache := sc, m_last_sinst := Some a \<rparr>)" using Some s by (simp add: link_sinst_def sc_def)
  moreover have "sinsts_ok cd isz re (r\<lparr> rd_scache := sc, m_last_sinst := Some a \<rparr>)"
    unfolding sinsts_ok_def using one dom a by simp
  ultimately show ?thesis using dom a by (intro exI [of _ sc]) simp
qed

lemma getStaticInstruction_ok:
  assumes ok: "sinsts_ok cd isz re r" and sz: "sz = isz a"
    and code: "\<And>i. i < unat sz \<Longrightarrow> has_code cd (rd_icache r) (a + of_nat i)"
    and x: "xed_decode re (rd_arch32 r) (getCode cd a (unat sz)) = Some x"
  shows "\<exists>sc. getStaticInstruction re a sz r = Inr (r\<lparr> rd_scache := sc, m_last_sinst := Some a \<rparr>) \<and>
    sinsts_ok cd isz re (r\<lparr> rd_scache := sc, m_last_sinst := Some a \<rparr>) \<and> sc a \<noteq> None"
proof -
  obtain q where q: "followed_by r a = Inr q" "q \<Longrightarrow> rd_scache r a \<noteq> None" using followed_by_ok [OF ok] by blast
  show ?thesis
  proof (cases "rd_scache r a")
    case (Some s)
    then have "si_size s = sz" using ok sz by (auto simp: sinsts_ok_def sinst_ok_def)
    then have "getStaticInstruction re a sz r = link_sinst a r" using q(1) Some by (simp add: getStaticInstruction_def)
    then show ?thesis using link_sinst_ok [OF ok, of a] Some by simp
  next
    case None
    then have nq: "\<not> q" using q(2) by blast
    define s where "s = \<lparr> si_addr = a, si_size = sz, si_data = getCode cd a (unat sz), xed_inst = x, si_next = None \<rparr>"
    define r1 where "r1 = r\<lparr> rd_scache := (rd_scache r)(a \<mapsto> s) \<rparr>"
    have "decodeInstruction re a sz r = Inr s"
      using fetch_code_ok [OF code, of "unat sz" "page_of a" True a] x by (simp add: decodeInstruction_def s_def)
    then have g: "getStaticInstruction re a sz r = link_sinst a r1" using q(1) nq None by (simp add: getStaticInstruction_def r1_def)
    have "sinst_ok cd isz re (rd_arch32 r) a s" using x sz by (simp add: sinst_ok_def s_def)
    then have "sinsts_ok cd isz re r1" using ok None by (auto simp: sinsts_ok_def r1_def s_def)
    from link_sinst_ok [OF this, of a] show ?thesis unfolding g by (simp add: r1_def)
  qed
qed

section \<open>Instructions\<close>

lemma low_nibble: "(b :: u8) AND 0xf = take_bit 4 b"
  by (simp add: take_bit_eq_mask mask_eq_exp_minus_1)

text \<open>The bytes of an instruction in the format the writer chooses.\<close>

definition inst_bytes :: "bool \<Rightarrow> u64 \<Rightarrow> u8 \<Rightarrow> u8 \<Rightarrow> bool \<Rightarrow> bool \<Rightarrow> bool \<Rightarrow> bool \<Rightarrow> u8 list" where
  "inst_bytes simple addr sz num br tk pr ex =
     (if simple then [instruction_byte sz num br tk] else instruction_ext_bytes sz num br tk pr ex addr)"

lemma inst_bytes_head:
  assumes "0 < unat sz" "unat sz < 16"
  shows "hd (inst_bytes simple addr sz num br tk pr ex) \<noteq> 0"
    "hd (inst_bytes simple addr sz num br tk pr ex) AND 0xf \<noteq> 0 \<longleftrightarrow> simple"
proof -
  have t: "take_bit 4 sz = sz" "sz \<noteq> 0" using take_bit_small [of sz 4] assms by auto
  have "push_bit 4 sz \<noteq> 0" using nibble_swap [OF assms(2)] t(2) by auto
  moreover have "instruction_byte sz num br tk \<noteq> 0" using instruction_byte_fields(1) [of sz num br tk] t by auto
  moreover have "take_bit 4 (push_bit 4 sz) = 0" by (rule bit_eqI) (auto simp: bit_simps)
  ultimately show "hd (inst_bytes simple addr sz num br tk pr ex) \<noteq> 0"
    "hd (inst_bytes simple addr sz num br tk pr ex) AND 0xf \<noteq> 0 \<longleftrightarrow> simple"
    using t by (auto simp: inst_bytes_def instruction_ext_bytes_def low_nibble instruction_byte_fields)
qed

lemma read_addresses_ok:
  assumes "length (in_addresses inst) = 2" "length as \<le> 2"
  shows "read_addresses [0..<length as] inst (r\<lparr> rd_input := concat (map (le 8) as) @ ys \<rparr>) =
    Inr (inst\<lparr> in_addresses := as @ drop (length as) (in_addresses inst) \<rparr>, r\<lparr> rd_input := ys \<rparr>)"
proof -
  obtain x y where xy: "in_addresses inst = [x, y]"
    using assms(1) by (metis (no_types, lifting) length_0_conv length_Suc_conv numeral_2_eq_2)
  consider "as = []" | a where "as = [a]" | a b where "as = [a, b]"
    using assms(2) by (cases as; cases "tl as"; cases "tl (tl as)") auto
  then show ?thesis by cases (simp_all add: xy numeral_2_eq_2)
qed

lemma read_instruction_ok:
  assumes sz: "0 < unat sz" "unat sz < 16" and as: "length (in_addresses inst) = 2" "length as \<le> 2"
    and f: "simple \<Longrightarrow> rd_last_address r = addr \<and> \<not> pr \<and> ex"
  shows "read_instruction re (hd (inst_bytes simple addr sz (of_nat (length as)) br tk pr ex)) inst
      (r\<lparr> rd_input := inst_bytes simple addr sz (of_nat (length as)) br tk pr ex @ concat (map (le 8) as) @ ys \<rparr>) =
    rbind (getStaticInstruction re addr sz (r\<lparr> rd_last_address := addr + ucast sz \<rparr>)) (\<lambda>r.
      Inr (inst\<lparr> in_num_addresses := of_nat (length as), in_is_branch := br, in_taken := tk, in_is_predicate := pr,
         in_executed := ex, in_addresses := as @ drop (length as) (in_addresses inst), in_sinst := Some addr \<rparr>,
         r\<lparr> rd_input := ys \<rparr>))"
proof -
  have n: "unat (of_nat (length as) :: u8) = length as" using as(2) by (simp add: unat_of_nat)
  then have nb: "take_bit 2 (of_nat (length as) :: u8) = of_nat (length as)" using as(2) by (intro take_bit_small) simp
  have t: "take_bit 4 sz = sz" using take_bit_small [of sz 4] sz(2) by simp
  have sw: "r\<lparr> rd_input := z, rd_last_address := l \<rparr> = r\<lparr> rd_last_address := l, rd_input := z \<rparr>" for z l by simp
  show ?thesis
  proof (cases simple)
    case True
    then have fs: "rd_last_address r = addr" "\<not> pr" "ex" using f by auto
    let ?b = "instruction_byte sz (of_nat (length as)) br tk"
    have b: "inst_bytes simple addr sz (of_nat (length as)) br tk pr ex = [?b]" using True by (simp add: inst_bytes_def)
    have h: "?b AND 0xf \<noteq> 0" using inst_bytes_head(2) [OF sz, of simple addr "of_nat (length as)" br tk pr ex] True unfolding b by simp
    have o: "r_read 1 (r\<lparr> rd_input := [?b] @ zs \<rparr>) = Inr ([?b], r\<lparr> rd_input := zs \<rparr>)" for zs by (simp add: r_read_def)
    show ?thesis using fs h as(1)
      unfolding read_instruction_def b o
      by (simp add: instruction_byte_fields nb t n sw static_input rbind_assoc read_addresses_ok [OF _ as(2)])
  next
    case False
    let ?b = "instruction_ext_bytes sz (of_nat (length as)) br tk pr ex addr"
    have b: "inst_bytes simple addr sz (of_nat (length as)) br tk pr ex = ?b" using False by (simp add: inst_bytes_def)
    have h: "\<not> hd ?b AND 0xf \<noteq> 0" using inst_bytes_head(2) [OF sz, of simple addr "of_nat (length as)" br tk pr ex] False unfolding b by simp
    have e: "?b ! 1 = ext_flags (of_nat (length as)) br tk pr ex" "drop 2 ?b = le 8 addr" "hd ?b = push_bit 4 sz"
      by (simp_all add: instruction_ext_bytes_def)
    show ?thesis using as(1)
      unfolding read_instruction_def b if_not_P [OF h]
      by (simp add: instruction_ext_fields e [simplified] Let_def nb nibble_swap [OF sz(2)] n sw static_input rbind_assoc
          read_addresses_ok [OF _ as(2)])
  qed
qed

text \<open>What the client of the reader can see of an instruction.\<close>

record 'x seen_inst =
  sn_addr :: u64
  sn_size :: u8
  sn_code :: "u8 list"
  sn_decoded :: 'x
  sn_addresses :: "u64 list"
  sn_branch :: bool
  sn_taken :: bool
  sn_predicate :: bool
  sn_executed :: bool

definition seen :: "sift_instruction \<Rightarrow> 'x sift_reader \<Rightarrow> 'x seen_inst res" where
  "seen inst r =
     (case in_sinst inst of
        None \<Rightarrow> Inl Null_Deref
      | Some a \<Rightarrow>
          (case rd_scache r a of
             None \<Rightarrow> Inl Null_Deref
           | Some s \<Rightarrow>
               Inr \<lparr> sn_addr = si_addr s, sn_size = si_size s, sn_code = si_data s, sn_decoded = xed_inst s,
                     sn_addresses = take (unat (in_num_addresses inst)) (in_addresses inst),
                     sn_branch = in_is_branch inst, sn_taken = in_taken inst,
                     sn_predicate = in_is_predicate inst, sn_executed = in_executed inst \<rparr>))"

lemma seen_input [simp]: "seen inst (r\<lparr> rd_input := ys \<rparr>) = seen inst r"
  by (simp add: seen_def split: option.split)

lemma map_r_nth: "map_r (nth_r xs) [0..<length xs] = Inr xs"
proof -
  have "map_r (nth_r xs) is = Inr (map ((!) xs) is)" if "\<forall>i \<in> set is. i < length xs" for "is"
    using that by (induction "is") auto
  then show ?thesis by (simp add: map_nth)
qed

lemma send_all_conveys:
  assumes "linked we re isz w r"
  shows "\<exists>w' r'. fold_r (send_va2pa we) as w = Inr w' \<and> conveys we re isz h [] w r c w' r' c \<and>
    wr_last_address w' = wr_last_address w \<and> rd_icache r' = rd_icache r"
  using assms
proof (induction as arbitrary: w r)
  case Nil
  then show ?case using conveys_refl [OF Nil, of h c] by auto
next
  case (Cons a as)
  from send_va2pa_conveys [OF Cons.prems, of a h c] obtain w1 r1 where 1: "send_va2pa we a w = Inr w1"
    "conveys we re isz h [] w r c w1 r1 c" "wr_last_address w1 = wr_last_address w" "rd_icache r1 = rd_icache r" by blast
  from Cons.IH [OF conveys_linked [OF 1(2)]] obtain w2 r2 where 2: "fold_r (send_va2pa we) as w1 = Inr w2"
    "conveys we re isz h [] w1 r1 c w2 r2 c" "wr_last_address w2 = wr_last_address w1" "rd_icache r2 = rd_icache r1" by blast
  have "conveys we re isz h [] w r c w2 r2 c" using conveys_trans [OF 1(2) 2(2)] by simp
  then show ?case using 1 2 by auto
qed

text \<open>The mapping of an instruction: the mappings of its addresses and its code, then its record.\<close>

lemma before_instruction:
  assumes l: "linked we re isz w r" and sz: "sz = isz addr" "0 < unat sz" "unat sz < 16" "unat addr + unat sz + 4096 \<le> 2 ^ 64"
  shows "\<exists>w' r'. rbind (send_code (code we) addr sz w) (\<lambda>w. rbind (send_va2pa we addr w) (fold_r (send_va2pa we) as)) = Inr w' \<and>
    conveys we re isz h [] w r c w' r' c \<and> wr_last_address w' = wr_last_address w \<and>
    (\<forall>i < unat sz. has_code (code we) (rd_icache r') (addr + of_nat i))"
proof -
  from send_code_conveys [OF l sz, of h c] obtain w1 r1 where 1: "send_code (code we) addr sz w = Inr w1"
    "conveys we re isz h [] w r c w1 r1 c" "wr_last_address w1 = wr_last_address w"
    "\<forall>i < unat sz. has_code (code we) (rd_icache r1) (addr + of_nat i)" by blast
  from send_all_conveys [OF conveys_linked [OF 1(2)], of "addr # as" h c] obtain w2 r2 where
    2: "fold_r (send_va2pa we) (addr # as) w1 = Inr w2" "conveys we re isz h [] w1 r1 c w2 r2 c"
    "wr_last_address w2 = wr_last_address w1" "rd_icache r2 = rd_icache r1" by blast
  have "conveys we re isz h [] w r c w2 r2 c" using conveys_trans [OF 1(2) 2(2)] by simp
  then show ?thesis using 1 2 by auto
qed

lemma Instruction_conveys:
  assumes l: "linked we re isz w r" and sz: "sz = isz addr" "0 < unat sz" "unat sz < 16" "unat addr + unat sz + 4096 \<le> 2 ^ 64"
    and as: "length as \<le> 2" and ex: "pr \<or> ex" and x: "xed_decode re (rd_arch32 r) (getCode (code we) addr (unat sz)) = Some x"
  shows "\<exists>w' r' B. w_Instruction we addr sz (of_nat (length as)) as br tk pr ex w = Inr w' \<and> linked we re isz w' r' \<and>
    wr_response w' = wr_response w \<and> rd_out r' = rd_out r \<and> wr_options w' = wr_options w \<and>
    m_requires_icache_per_insn w' = m_requires_icache_per_insn w \<and> rd_arch32 r' = rd_arch32 r \<and>
    wr_output w' = wr_output w @ B \<and>
    (\<forall>ys inst. length (in_addresses inst) = 2 \<longrightarrow> (\<exists>inst'. Read re h inst (r\<lparr> rd_input := B @ ys \<rparr>) c = Inr (True, inst', r'\<lparr> rd_input := ys \<rparr>, c) \<and>
       length (in_addresses inst') = 2 \<and>
       seen inst' r' = Inr \<lparr> sn_addr = addr, sn_size = sz, sn_code = getCode (code we) addr (unat sz), sn_decoded = x,
         sn_addresses = as, sn_branch = br, sn_taken = tk, sn_predicate = pr, sn_executed = ex \<rparr>))"
proof -
  from before_instruction [OF l sz, of as h c] obtain w1 r1 where
    1: "rbind (send_code (code we) addr sz w) (\<lambda>w. rbind (send_va2pa we addr w) (fold_r (send_va2pa we) as)) = Inr w1"
    "conveys we re isz h [] w r c w1 r1 c" "wr_last_address w1 = wr_last_address w"
    "\<And>i. i < unat sz \<Longrightarrow> has_code (code we) (rd_icache r1) (addr + of_nat i)" by blast
  have l1: "linked we re isz w1 r1" by (rule conveys_linked [OF 1(2)])
  define simple where "simple \<longleftrightarrow> addr = wr_last_address w1 \<and> \<not> pr"
  define num where "num = (of_nat (length as) :: u8)"
  have n: "unat num = length as" using as by (simp add: num_def unat_of_nat)
  define F where "F = inst_bytes simple addr sz num br tk pr ex"
  define C where "C = concat (map (le 8) as)"
  from 1(2) obtain A where A: "wr_output w1 = wr_output w @ A" "eats re h A r c r1 c" by (auto simp: conveys_def)
  define w2 where "w2 = w1\<lparr> wr_output := wr_output w1 @ F @ C, wr_last_address := addr + ucast sz, ninstrs := ninstrs w1 + 1,
    hsize := (hsize w1)[unat sz := hsize w1 ! unat sz + 1], haddr := (haddr w1)[unat num := haddr w1 ! unat num + 1],
    nbranch := nbranch w1 + of_bool br, npredicate := npredicate w1 + of_bool pr,
    ninstrsmall := ninstrsmall w1 + of_bool simple, ninstrext := ninstrext w1 + of_bool (\<not> simple) \<rparr>"
  have s: "sz < 16" using sz(3) by (simp add: word_less_nat_alt)
  have w: "w_Instruction we addr sz num as br tk pr ex w = Inr w2"
  proof -
    from 1(1) obtain u1 u2 where u: "send_code (code we) addr sz w = Inr u1" "send_va2pa we addr u1 = Inr u2"
      "fold_r (send_va2pa we) as u2 = Inr w1" by (auto elim!: rbindE)
    have o: "wr_output_open w1" "length (hsize w1) = 16" "length (haddr w1) = 3" using l1 by (simp_all add: linked_def)
    define w3 where "w3 = w1\<lparr> wr_output := wr_output w1 @ F, wr_last_address := addr,
      ninstrsmall := ninstrsmall w1 + of_bool simple, ninstrext := ninstrext w1 + of_bool (\<not> simple) \<rparr>"
    have "(if addr = wr_last_address w1 \<and> \<not> pr
           then rbind (w_write [instruction_byte sz num br tk] w1) (\<lambda>w. Inr (w\<lparr> ninstrsmall := ninstrsmall w + 1 \<rparr>))
           else rbind (w_write (instruction_ext_bytes sz num br tk pr ex addr) w1) (\<lambda>w.
                  Inr (w\<lparr> wr_last_address := addr, ninstrext := ninstrext w + 1 \<rparr>))) = Inr w3"
    proof (cases simple)
      case True
      then have a: "wr_last_address w1 = addr" "\<not> pr" by (simp_all add: simple_def)
      have "w1\<lparr> wr_output := wr_output w1 @ F, ninstrsmall := ninstrsmall w1 + 1 \<rparr> = w3"
        by (rule sift_writer.equality) (simp_all add: w3_def a True)
      then show ?thesis using a o(1) True by (simp add: w_write_def F_def inst_bytes_def)
    next
      case False
      then have a: "\<not> (addr = wr_last_address w1 \<and> \<not> pr)" by (simp add: simple_def)
      have "w1\<lparr> wr_output := wr_output w1 @ F, wr_last_address := addr, ninstrext := ninstrext w1 + 1 \<rparr> = w3"
        by (rule sift_writer.equality) (simp_all add: w3_def False)
      then show ?thesis using o(1) False unfolding if_not_P [OF a] by (simp add: w_write_def F_def inst_bytes_def)
    qed
    moreover have "w_write C w3 = Inr (w3\<lparr> wr_output := wr_output w1 @ F @ C \<rparr>)" using o(1) by (simp add: w_write_def w3_def)
    moreover have "nth_r (hsize w3) (unat sz) = Inr (hsize w1 ! unat sz)" "nth_r (haddr w3) (unat num) = Inr (haddr w1 ! unat num)"
      using o(2,3) sz(3) as n by (simp_all add: w3_def)
    ultimately show ?thesis using u s n as map_r_nth [of as]
      by (simp add: w_Instruction_def MAX_DYNAMIC_ADDRESSES_def C_def [symmetric]) (simp add: w2_def w3_def)
  qed
  define r2 where "r2 = r1\<lparr> rd_last_address := addr + ucast sz \<rparr>"
  obtain sc where sc: "getStaticInstruction re addr sz r2 = Inr (r2\<lparr> rd_scache := sc, m_last_sinst := Some addr \<rparr>)"
    "sinsts_ok (code we) isz re (r2\<lparr> rd_scache := sc, m_last_sinst := Some addr \<rparr>)" "sc addr \<noteq> None"
    using getStaticInstruction_ok [of "code we" isz re r2 sz addr x] l1 sz(1) 1(2,4) x by (auto simp: linked_def r2_def conveys_def)
  define r3 where "r3 = r2\<lparr> rd_scache := sc, m_last_sinst := Some addr \<rparr>"
  have l2: "linked we re isz w2 r3" using l1 sc(2) by (simp add: linked_def w2_def r3_def r2_def)
  obtain si where si: "sc addr = Some si" "sinst_ok (code we) isz re (rd_arch32 r) addr si"
    using sc 1(2) by (auto simp: sinsts_ok_def r2_def conveys_def)
  have "\<exists>inst'. Read re h inst (r\<lparr> rd_input := (A @ F @ C) @ ys \<rparr>) c = Inr (True, inst', r3\<lparr> rd_input := ys \<rparr>, c) \<and>
       length (in_addresses inst') = 2 \<and>
       seen inst' r3 = Inr \<lparr> sn_addr = addr, sn_size = sz, sn_code = getCode (code we) addr (unat sz), sn_decoded = x,
         sn_addresses = as, sn_branch = br, sn_taken = tk, sn_predicate = pr, sn_executed = ex \<rparr>"
    if i: "length (in_addresses inst) = 2" for ys inst
  proof -
    let ?i = "inst\<lparr> in_num_addresses := num, in_is_branch := br, in_taken := tk, in_is_predicate := pr,
         in_executed := ex, in_addresses := as @ drop (length as) (in_addresses inst), in_sinst := Some addr \<rparr>"
    have f: "rd_last_address r1 = addr \<and> \<not> pr \<and> ex" if simple using that l1 ex by (auto simp: simple_def linked_def)
    have h: "hd F \<noteq> 0" using inst_bytes_head(1) [OF sz(2,3)] by (simp add: F_def)
    then have p: "r_peek (r1\<lparr> rd_input := F @ C @ ys \<rparr>) = Inr (hd F)"
      by (cases F) (simp_all add: r_peek_def F_def inst_bytes_def instruction_ext_bytes_def split: if_splits)
    have "read_instruction re (hd F) inst (r1\<lparr> rd_input := F @ C @ ys \<rparr>) = Inr (?i, r3\<lparr> rd_input := ys \<rparr>)"
      using read_instruction_ok [OF sz(2,3) i as f, where re = re and br = br and tk = tk and ys = ys] sc(1) by (simp add: F_def C_def num_def r2_def r3_def)
    then have "Read re h inst (r1\<lparr> rd_input := F @ C @ ys \<rparr>) c = Inr (True, ?i, r3\<lparr> rd_input := ys \<rparr>, c)"
      using h p linked_open [OF l1] by (simp add: Read_step read_record_def)
    moreover have "Read re h inst (r\<lparr> rd_input := (A @ F @ C) @ ys \<rparr>) c = Read re h inst (r1\<lparr> rd_input := F @ C @ ys \<rparr>) c"
      using A(2) by (simp add: eats_def)
    moreover have "length (in_addresses ?i) = 2" using i as by simp
    moreover have "seen ?i r3 = Inr \<lparr> sn_addr = addr, sn_size = sz, sn_code = getCode (code we) addr (unat sz), sn_decoded = x,
         sn_addresses = as, sn_branch = br, sn_taken = tk, sn_predicate = pr, sn_executed = ex \<rparr>"
      using si sz(1) x n by (auto simp: seen_def r3_def sinst_ok_def)
    ultimately show ?thesis by (intro exI [of _ ?i]) simp
  qed
  then show ?thesis using w l2 A(1) 1(2) unfolding num_def
    by (intro exI [of _ w2] exI [of _ r3] exI [of _ "A @ F @ C"]) (simp add: w2_def r3_def r2_def conveys_def)
qed

end
