(* ===== verification/Sift_Act.thy ===== *)
theory Sift_Act
  imports Sift_Inst
begin

text \<open>
  Handlers that access the memory of the traced program: through the two streams they see the same memory as
  if they worked on it directly.
\<close>

section \<open>Handlers and memory\<close>

text \<open>What a handler does when it works on the memory itself: its result, the state of the client and the
  memory after it. A read starts from a buffer of zeros.\<close>

definition access_memory :: "'m access_fun \<Rightarrow> u32 \<Rightarrow> u32 \<Rightarrow> u64 \<Rightarrow> u8 list \<Rightarrow> 'm \<Rightarrow> u8 list \<times> 'm" where
  "access_memory acc lock mo a buf m =
     (if mo = MemRead then acc lock mo a (replicate (length buf) 0) m else (buf, snd (acc lock mo a buf m)))"

primrec direct :: "'m access_fun \<Rightarrow> ('r, 'c) act \<Rightarrow> 'm \<Rightarrow> 'r \<times> 'c \<times> 'm" where
  "direct acc (Ret x c) m = (x, c, m)"
| "direct acc (Access lock mo a buf k) m =
     (let (b, m1) = access_memory acc lock mo a buf m in direct acc (k b) m1)"

text \<open>The requests that the reader sends for it, and what the writer answers.\<close>

definition request_bytes :: "u32 \<Rightarrow> u32 \<Rightarrow> u64 \<Rightarrow> u8 list \<Rightarrow> u8 list" where
  "request_bytes lock mo a buf =
     (let payload = (if mo = MemWrite then buf else [])
      in other_bytes RecOtherMemoryRequest (20 + of_nat (length payload)) @ le 8 a @
         le 4 (of_nat (length buf) :: u32) @ le 4 lock @ le 4 mo @ payload)"

definition reply_bytes :: "u32 \<Rightarrow> u64 \<Rightarrow> u8 list \<Rightarrow> u8 list" where
  "reply_bytes mo a buf =
     (let payload = (if mo = MemRead then buf else [])
      in other_bytes RecOtherMemoryResponse (12 + of_nat (length payload)) @ le 8 a @ le 4 mo @ payload)"

primrec requests :: "'m access_fun \<Rightarrow> ('r, 'c) act \<Rightarrow> 'm \<Rightarrow> u8 list" where
  "requests acc (Ret x c) m = []"
| "requests acc (Access lock mo a buf k) m =
     (let (b, m1) = access_memory acc lock mo a buf m in request_bytes lock mo a buf @ requests acc (k b) m1)"

primrec replies :: "'m access_fun \<Rightarrow> ('r, 'c) act \<Rightarrow> 'm \<Rightarrow> u8 list" where
  "replies acc (Ret x c) m = []"
| "replies acc (Access lock mo a buf k) m =
     (let (b, m1) = access_memory acc lock mo a buf m in reply_bytes mo a b @ replies acc (k b) m1)"

text \<open>Accesses that the protocol has room for, and a condition on the result.\<close>

primrec legal_act :: "('r \<Rightarrow> bool) \<Rightarrow> ('r, 'c) act \<Rightarrow> bool" where
  "legal_act P (Ret x c) = P x"
| "legal_act P (Access lock mo a buf k) \<longleftrightarrow>
     (mo = MemRead \<or> mo = MemWrite) \<and> buf \<noteq> [] \<and> length buf + 20 < 2 ^ 32 \<and>
     (\<forall>b. length b = length buf \<longrightarrow> legal_act P (k b))"

definition keeps_length :: "'m access_fun \<Rightarrow> bool" where
  "keeps_length acc \<longleftrightarrow> (\<forall>lock mo a buf m. length (fst (acc lock mo a buf m)) = length buf)"

lemma access_memory_length: "keeps_length acc \<Longrightarrow> access_memory acc lock mo a buf m = (b, m1) \<Longrightarrow> length b = length buf"
  by (auto simp: keeps_length_def access_memory_def split: if_splits) (metis fst_conv length_replicate)

lemma legal_direct:
  assumes "legal_act P t" "keeps_length acc"
  shows "P (fst (direct acc t m))"
  using assms(1)
proof (induction t arbitrary: m)
  case (Access lock mo a buf k)
  obtain b m1 where b: "access_memory acc lock mo a buf m = (b, m1)" by (cases "access_memory acc lock mo a buf m")
  then have "legal_act P (k b)" using Access.prems access_memory_length [OF assms(2)] by auto
  then show ?case using b Access.IH [of "k b"] by simp
qed simp

text \<open>Bytes that the reader sends.\<close>

definition sent :: "u8 list \<Rightarrow> 'x sift_reader \<Rightarrow> 'x sift_reader" where
  "sent bs r = (if bs = [] then r else r\<lparr> rd_out := rd_out r @ bs, rd_response_open := True \<rparr>)"

lemma sent_append: "sent (xs @ ys) r = sent ys (sent xs r)"
  by (simp add: sent_def)

lemma sent_Nil [simp]: "sent [] r = r"
  by (simp add: sent_def)

lemma sent_fields [simp]: "rd_out (sent bs r) = rd_out r @ bs" "rd_open (sent bs r) = rd_open r"
  "rd_response_filename (sent bs r) = rd_response_filename r" "rd_arch32 (sent bs r) = rd_arch32 r"
  "m_seen_end (sent bs r) = m_seen_end r"
  by (simp_all add: sent_def)

lemma sent_input: "sent bs (r\<lparr> rd_input := ys \<rparr>) = (sent bs r)\<lparr> rd_input := ys \<rparr>"
  by (simp add: sent_def)

lemma linked_sent [simp]: "linked we re isz w (sent bs r) = linked we re isz w r"
  by (simp add: sent_def linked_def)

lemma r_send_ok:
  assumes "rd_response_filename r \<noteq> []" "bs \<noteq> []"
  shows "r_send bs r = Inr (sent bs r)"
proof -
  have "rd_response_open r \<Longrightarrow> r\<lparr> rd_response_open := True \<rparr> = r" by simp
  then show ?thesis using assms by (auto simp: r_send_def r_initResponse_def sent_def intro!: sift_reader.equality)
qed

lemma AccessMemory_ok:
  assumes "rd_open r" "rd_response_filename r \<noteq> []" "mo = MemRead \<or> mo = MemWrite" "length buf + 20 < 2 ^ 32"
    "length b = length buf" "mo = MemWrite \<Longrightarrow> b = buf"
  shows "AccessMemory re lock mo a buf (r\<lparr> rd_input := reply_bytes mo a b @ ys \<rparr>) =
    Inr (b, (sent (request_bytes lock mo a buf) r)\<lparr> rd_input := ys \<rparr>)"
proof -
  have m: "MemRead \<noteq> MemWrite" by (simp add: MemRead_def MemWrite_def)
  have q: "request_bytes lock mo a buf \<noteq> []" by (simp add: request_bytes_def Let_def other_bytes_def)
  have s: "r_send (request_bytes lock mo a buf) (r\<lparr> rd_input := zs \<rparr>) = Inr ((sent (request_bytes lock mo a buf) r)\<lparr> rd_input := zs \<rparr>)" for zs
    using r_send_ok [OF _ q, of "r\<lparr> rd_input := zs \<rparr>"] assms(2) by (simp add: sent_input)
  have t: "drop 8 (le 8 a @ le 4 mo) = le 4 mo" "take 8 (le 8 a @ le 4 mo) = le 8 a" by simp_all
  have rd: "r_read 12 (u\<lparr> rd_input := le 8 a @ le 4 mo @ zs \<rparr>) = Inr (le 8 a @ le 4 mo, u\<lparr> rd_input := zs \<rparr>)" for zs and u :: "'a sift_reader"
    using r_read_app [where xs = "le 8 a @ le 4 mo" and n = 12 and r = u and ys = zs] by simp
  show ?thesis
  proof (cases "mo = MemRead")
    case True
    then show ?thesis using assms(1,5) s rd m
      by (simp add: AccessMemory_def Let_def reply_bytes_def request_bytes_def t)
  next
    case False
    then show ?thesis using assms(1,3,6) s rd m
      by (simp add: AccessMemory_def Let_def reply_bytes_def request_bytes_def t)
  qed
qed

lemma run_act_ok:
  assumes "rd_open r" "rd_response_filename r \<noteq> []" "legal_act P t" "keeps_length acc" "direct acc t m = (x, c, m')"
  shows "run_act re t (r\<lparr> rd_input := replies acc t m @ ys \<rparr>) = Inr (x, (sent (requests acc t m) r)\<lparr> rd_input := ys \<rparr>, c)"
  using assms
proof (induction t arbitrary: r m)
  case (Access lock mo a buf k)
  obtain b m1 where b: "access_memory acc lock mo a buf m = (b, m1)" by (cases "access_memory acc lock mo a buf m")
  have l: "length b = length buf" by (rule access_memory_length [OF Access.prems(4) b])
  have w: "mo = MemWrite \<Longrightarrow> b = buf" using b by (auto simp: access_memory_def MemRead_def MemWrite_def split: if_splits)
  let ?r = "sent (request_bytes lock mo a buf) r"
  have "AccessMemory re lock mo a buf (r\<lparr> rd_input := reply_bytes mo a b @ (replies acc (k b) m1 @ ys) \<rparr>) =
    Inr (b, ?r\<lparr> rd_input := replies acc (k b) m1 @ ys \<rparr>)"
    using Access.prems by (intro AccessMemory_ok) (auto simp: l w)
  moreover have "run_act re (k b) (?r\<lparr> rd_input := replies acc (k b) m1 @ ys \<rparr>) =
    Inr (x, (sent (requests acc (k b) m1) ?r)\<lparr> rd_input := ys \<rparr>, c)"
    using Access.prems l b by (intro Access.IH) auto
  ultimately show ?case using b by (simp add: sent_append)
qed simp

lemma w_read_app [simp]: "length xs = n \<Longrightarrow> w_read e n (w\<lparr> wr_response := xs @ ys \<rparr>) = Inr (xs, w\<lparr> wr_response := ys \<rparr>)"
  by (simp add: w_read_def)

lemma w_read_other_app [simp]: "w_read_other e (w\<lparr> wr_response := other_bytes t n @ ys \<rparr>) = Inr (Some t, n, w\<lparr> wr_response := ys \<rparr>)"
  by (simp add: w_read_other_def)

lemma handleMemoryRequest_ok:
  assumes "wr_output_open w" "handleAccessMemoryFunc we = Some acc" "mo = MemRead \<or> mo = MemWrite" "buf \<noteq> []" "length buf + 20 < 2 ^ 32"
    "access_memory acc lock mo a buf m = (b, m1)" "length b = length buf"
  shows "\<exists>sz body. request_bytes lock mo a buf = other_bytes RecOtherMemoryRequest sz @ body \<and>
    (\<forall>ys. handleMemoryRequest we sz (w\<lparr> wr_response := body @ ys \<rparr>, m) =
      Inr (w\<lparr> wr_output := wr_output w @ reply_bytes mo a b, wr_response := ys \<rparr>, m1))"
proof -
  have m: "MemRead \<noteq> MemWrite" by (simp add: MemRead_def MemWrite_def)
  let ?n = "of_nat (length buf) :: u32"
  have n: "unat ?n = length buf" "?n \<noteq> 0" using assms(4,5) by (simp_all add: unat_of_nat word_unat_eq_iff)
  let ?head = "le 8 a @ le 4 ?n @ le 4 lock @ le 4 mo"
  have h: "take 8 ?head = le 8 a" "take 4 (drop 8 ?head) = le 4 ?n" "take 4 (drop 12 ?head) = le 4 lock" "drop 16 ?head = le 4 mo"
    by simp_all
  have rd: "w_read e 20 (w\<lparr> wr_response := ?head @ zs \<rparr>) = Inr (?head, w\<lparr> wr_response := zs \<rparr>)" for e zs
    by (rule w_read_app) simp
  show ?thesis
  proof (cases "mo = MemRead")
    case True
    have "handleMemoryRequest we 20 (w\<lparr> wr_response := ?head @ ys \<rparr>, m) =
      Inr (w\<lparr> wr_output := wr_output w @ reply_bytes mo a b, wr_response := ys \<rparr>, m1)" for ys
      using assms(1,2,6,7) True n unfolding handleMemoryRequest_def fst_conv rd
      by (simp add: h Let_def access_memory_def w_write_def reply_bytes_def)
    then show ?thesis using True m by (intro exI [of _ 20] exI [of _ ?head]) (simp add: request_bytes_def Let_def)
  next
    case False
    then have w: "mo = MemWrite" "b = buf" "m1 = snd (acc lock mo a buf m)" using assms(3,6) by (auto simp: access_memory_def)
    have s: "\<not> 20 + ?n < 20" "20 + ?n - 20 = ?n"
      using assms(5) n by (simp_all add: word_less_nat_alt unat_word_ariths)
    have "handleMemoryRequest we (20 + ?n) (w\<lparr> wr_response := ?head @ buf @ ys \<rparr>, m) =
      Inr (w\<lparr> wr_output := wr_output w @ reply_bytes mo a b, wr_response := ys \<rparr>, m1)" for ys
      using assms(1,2) w m n s unfolding handleMemoryRequest_def fst_conv rd
      by (simp add: h Let_def w_write_def reply_bytes_def case_prod_beta)
    then show ?thesis using w by (intro exI [of _ "20 + ?n"] exI [of _ "?head @ buf"]) (simp add: request_bytes_def Let_def)
  qed
qed

lemma await_loop_ok:
  assumes "wr_output_open w" "handleAccessMemoryFunc we = Some acc" "legal_act P t" "keeps_length acc"
    "direct acc t m = (x, c, m')" "T \<noteq> RecOtherMemoryRequest" "length (requests acc t m) < k"
  shows "await_loop k strict T we (w\<lparr> wr_response := requests acc t m @ other_bytes T n @ ys \<rparr>, m) =
    Inr (n, w\<lparr> wr_output := wr_output w @ replies acc t m, wr_response := ys \<rparr>, m')"
  using assms
proof (induction t arbitrary: w m k)
  case (Ret x c)
  then show ?case by (cases k) auto
next
  case (Access lock mo a buf f)
  then obtain j where k: "k = Suc j" by (cases k) auto
  obtain b m1 where b: "access_memory acc lock mo a buf m = (b, m1)" by (cases "access_memory acc lock mo a buf m")
  have l: "length b = length buf" by (rule access_memory_length [OF Access.prems(4) b])
  obtain sz body where rq: "request_bytes lock mo a buf = other_bytes RecOtherMemoryRequest sz @ body"
    and hm: "\<And>ys. handleMemoryRequest we sz (w\<lparr> wr_response := body @ ys \<rparr>, m) =
      Inr (w\<lparr> wr_output := wr_output w @ reply_bytes mo a b, wr_response := ys \<rparr>, m1)"
    using handleMemoryRequest_ok [OF Access.prems(1,2) _ _ _ b l] Access.prems(3) by (auto simp del: One_nat_def)
  let ?w = "w\<lparr> wr_output := wr_output w @ reply_bytes mo a b \<rparr>"
  have "await_loop j strict T we (?w\<lparr> wr_response := requests acc (f b) m1 @ other_bytes T n @ ys \<rparr>, m1) =
    Inr (n, ?w\<lparr> wr_output := wr_output ?w @ replies acc (f b) m1, wr_response := ys \<rparr>, m')"
    using Access.prems b l k by (intro Access.IH) (auto simp: rq)
  then show ?case using b k Access.prems(6) rq hm by simp
qed

lemma await_ok:
  assumes "wr_output_open w" "handleAccessMemoryFunc we = Some acc" "legal_act P t" "keeps_length acc"
    "direct acc t m = (x, c, m')" "T \<noteq> RecOtherMemoryRequest"
  shows "await strict T we (w\<lparr> wr_response := requests acc t m @ other_bytes T n @ ys \<rparr>, m) =
    Inr (n, w\<lparr> wr_output := wr_output w @ replies acc t m, wr_response := ys \<rparr>, m')"
  unfolding await_def by (rule await_loop_ok [OF assms]) simp

end
