(* ===== verification/Sift_Event.thy ===== *)
theory Sift_Event
  imports Sift_Act
begin

text \<open>
  A whole trace. The traced program reports a list of events; the writer turns them into a file, and a
  client that reads it instruction by instruction sees the same events in the same order, while the program
  gets the answers of the handlers.
\<close>

section \<open>Events\<close>

datatype sift_event =
    EInstruction u64 u8 "u64 list" bool bool bool bool
  | EInstructionCount u32
  | ECacheOnly u8 u8 u64 u64
  | EOutput u8 "u8 list"
  | ESyscall u16 "u8 list"
  | ENewThread
  | EJoin u32
  | ESync
  | EFork
  | EMagic u64 u64 u64
  | EEmulate u16 "u8 list"
  | ERoutineChange u8 u64 u64 u64
  | ERoutineAnnounce u64 "u8 list" "u8 list" u64 u32 u32 "u8 list"

datatype answer = No_Answer | Answer32 u32 | Answer64 u64 | Answer_Emu bool "u8 list"

definition no_answer :: "sift_writer res \<Rightarrow> 'm \<Rightarrow> (answer \<times> sift_writer \<times> 'm) res" where
  "no_answer u m = rbind u (\<lambda>w. Inr (No_Answer, w, m))"

definition answer32 :: "(u32 \<times> sift_writer) res \<Rightarrow> 'm \<Rightarrow> (answer \<times> sift_writer \<times> 'm) res" where
  "answer32 u m = rbind u (\<lambda>(x, w). Inr (Answer32 x, w, m))"

fun write_event :: "'m writer_env \<Rightarrow> sift_event \<Rightarrow> sift_writer \<Rightarrow> 'm \<Rightarrow> (answer \<times> sift_writer \<times> 'm) res" where
  "write_event we (EInstruction addr sz as br tk pr ex) w m =
     no_answer (w_Instruction we addr sz (of_nat (length as)) as br tk pr ex w) m"
| "write_event we (EInstructionCount icount) w m = answer32 (InstructionCount icount w) m"
| "write_event we (ECacheOnly icount ty eip a) w m = no_answer (CacheOnly we icount ty eip a w) m"
| "write_event we (EOutput fd bytes) w m = no_answer (Output fd bytes w) m"
| "write_event we (ESyscall nr bytes) w m = rbind (Syscall we nr bytes (w, m)) (\<lambda>(x, w, m). Inr (Answer64 x, w, m))"
| "write_event we ENewThread w m = answer32 (NewThread w) m"
| "write_event we (EJoin thread) w m = answer32 (Join thread w) m"
| "write_event we ESync w m = rbind (Sync we (w, m)) (\<lambda>(x, w, m). Inr (Answer32 x, w, m))"
| "write_event we EFork w m = answer32 (Fork w) m"
| "write_event we (EMagic a b c) w m = rbind (Magic we a b c (w, m)) (\<lambda>(x, w, m). Inr (Answer64 x, w, m))"
| "write_event we (EEmulate ty req) w m =
     rbind (Emulate we ty req (replicate sizeof_EmuReply 0) (w, m)) (\<lambda>(x, rep, w, m). Inr (Answer_Emu x rep, w, m))"
| "write_event we (ERoutineChange event eip esp callEip) w m = no_answer (RoutineChange event eip esp callEip w) m"
| "write_event we (ERoutineAnnounce eip nm img off line col fil) w m =
     no_answer (RoutineAnnounce eip nm img off line col fil w) m"

fun write_trace :: "'m writer_env \<Rightarrow> sift_event list \<Rightarrow> sift_writer \<Rightarrow> 'm \<Rightarrow> (answer list \<times> sift_writer \<times> 'm) res" where
  "write_trace we [] w m = rbind (End w) (\<lambda>w. Inr ([], w, m))"
| "write_trace we (e # es) w m =
     rbind (write_event we e w m) (\<lambda>(a, w, m). rbind (write_trace we es w m) (\<lambda>(as, w, m). Inr (a # as, w, m)))"

text \<open>The loop of a client: it takes each instruction in, \<open>take_in\<close>, until the trace ends.\<close>

fun read_trace ::
    "nat \<Rightarrow> 'x reader_env \<Rightarrow> 'c handlers \<Rightarrow> ('x seen_inst \<Rightarrow> 'c \<Rightarrow> 'c) \<Rightarrow> sift_instruction \<Rightarrow> 'x sift_reader \<Rightarrow> 'c \<Rightarrow>
      ('x sift_reader \<times> 'c) res" where
  "read_trace 0 re h take_in inst r c = Inl Out_Of_Fuel"
| "read_trace (Suc n) re h take_in inst r c =
     rbind (Read re h inst r c) (\<lambda>(more, inst, r, c).
       if more then rbind (seen inst r) (\<lambda>v. read_trace n re h take_in inst r (take_in v c)) else Inr (r, c))"

section \<open>The same events without a trace\<close>

definition opt_act :: "'r \<Rightarrow> ('c \<Rightarrow> ('r, 'c) act) option \<Rightarrow> 'c \<Rightarrow> ('r, 'c) act" where
  "opt_act d f c = (case f of None \<Rightarrow> Ret d c | Some g \<Rightarrow> g c)"

text \<open>The handler that an event calls.\<close>

fun event_act :: "'c handlers \<Rightarrow> sift_event \<Rightarrow> 'c \<Rightarrow> (answer, 'c) act" where
  "event_act h (EInstruction addr sz as br tk pr ex) c = Ret No_Answer c"
| "event_act h (EInstructionCount icount) c = map_act Answer32 id (opt_act ModeUnknown (app1 (handleInstructionCountFunc h) icount) c)"
| "event_act h (ECacheOnly icount ty eip a) c =
     map_act (\<lambda>u. No_Answer) id (opt_act () (map_option (\<lambda>f. f icount ty eip a) (handleCacheOnlyFunc h)) c)"
| "event_act h (EOutput fd bytes) c = map_act (\<lambda>u. No_Answer) id (opt_act () (map_option (\<lambda>f. f fd bytes) (handleOutputFunc h)) c)"
| "event_act h (ESyscall nr bytes) c = map_act Answer64 id (opt_act 0 (map_option (\<lambda>f. f nr bytes) (handleSyscallFunc h)) c)"
| "event_act h ENewThread c = map_act Answer32 id (opt_act 0 (handleNewThreadFunc h) c)"
| "event_act h (EJoin thread) c = map_act Answer32 id (opt_act 0 (app1 (handleJoinFunc h) thread) c)"
| "event_act h ESync c = map_act Answer32 id (opt_act ModeUnknown (app1 (handleInstructionCountFunc h) 0) c)"
| "event_act h EFork c = map_act Answer32 id (opt_act 0 (handleForkFunc h) c)"
| "event_act h (EMagic a b d) c = map_act Answer64 id (opt_act a (map_option (\<lambda>f. f a b d) (handleMagicFunc h)) c)"
| "event_act h (EEmulate ty req) c =
     map_act (\<lambda>p. Answer_Emu (fst p) (snd p)) id
       (opt_act (False, replicate sizeof_EmuReply 0) (map_option (\<lambda>f. f ty req) (handleEmuFunc h)) c)"
| "event_act h (ERoutineChange event eip esp callEip) c =
     map_act (\<lambda>u. No_Answer) id (opt_act () (map_option (\<lambda>f. f event eip esp callEip) (handleRoutineChangeFunc h)) c)"
| "event_act h (ERoutineAnnounce eip nm img off line col fil) c =
     map_act (\<lambda>u. No_Answer) id
       (opt_act () (map_option (\<lambda>f. f eip (nm @ [0]) (img @ [0]) off line col (fil @ [0])) (handleRoutineAnnounceFunc h)) c)"

text \<open>The record that carries the answer.\<close>

fun answer_bytes :: "sift_event \<Rightarrow> answer \<Rightarrow> u8 list" where
  "answer_bytes (EInstructionCount n) (Answer32 x) = other_bytes RecOtherSyncResponse 4 @ le 4 x"
| "answer_bytes ESync (Answer32 x) = other_bytes RecOtherSyncResponse 4 @ le 4 x"
| "answer_bytes ENewThread (Answer32 x) = other_bytes RecOtherNewThreadResponse 4 @ le 4 x"
| "answer_bytes (EJoin t) (Answer32 x) = other_bytes RecOtherJoinResponse 4 @ le 4 x"
| "answer_bytes EFork (Answer32 x) = other_bytes RecOtherForkResponse 4 @ le 4 x"
| "answer_bytes (ESyscall nr bytes) (Answer64 x) = other_bytes RecOtherSyscallResponse 8 @ le 8 x"
| "answer_bytes (EMagic a b c) (Answer64 x) = other_bytes RecOtherMagicInstructionResponse 8 @ le 8 x"
| "answer_bytes (EEmulate ty req) (Answer_Emu x rep) = other_bytes RecOtherEmuResponse 49 @ [of_bool x] @ rep"
| "answer_bytes e a = []"

text \<open>The events one after the other: the answers, the bytes sent back, the state of the client and the
  memory. The instruction is taken in as it is.\<close>

fun take_event :: "'m writer_env \<Rightarrow> 'x reader_env \<Rightarrow> bool \<Rightarrow> ('x seen_inst \<Rightarrow> 'c \<Rightarrow> 'c) \<Rightarrow> sift_event \<Rightarrow> 'c \<Rightarrow> 'c" where
  "take_event we re arch take_in (EInstruction addr sz as br tk pr ex) c =
     take_in \<lparr> sn_addr = addr, sn_size = sz, sn_code = getCode (code we) addr (unat sz),
       sn_decoded = the (xed_decode re arch (getCode (code we) addr (unat sz))), sn_addresses = as, sn_branch = br,
       sn_taken = tk, sn_predicate = pr, sn_executed = ex \<rparr> c"
| "take_event we re arch take_in e c = c"

fun direct_events ::
    "'m writer_env \<Rightarrow> 'x reader_env \<Rightarrow> bool \<Rightarrow> 'm access_fun \<Rightarrow> 'c handlers \<Rightarrow> ('x seen_inst \<Rightarrow> 'c \<Rightarrow> 'c) \<Rightarrow>
      sift_event list \<Rightarrow> 'c \<Rightarrow> 'm \<Rightarrow> answer list \<times> u8 list \<times> 'c \<times> 'm" where
  "direct_events we re arch acc h take_in [] c m = ([], [], c, m)"
| "direct_events we re arch acc h take_in (e # es) c m =
     (let t = event_act h e c; (a, c1, m1) = direct acc t m;
          (as, R, c2, m2) = direct_events we re arch acc h take_in es (take_event we re arch take_in e c1) m1
      in (a # as, requests acc t m @ answer_bytes e a @ R, c2, m2))"

text \<open>Events the format can carry. Only four kinds of event let the handler access memory.\<close>

definition waits_for :: "sift_event \<Rightarrow> bool" where
  "waits_for e = (case e of ESyscall nr bs \<Rightarrow> True | ESync \<Rightarrow> True | EMagic a b c \<Rightarrow> True | EEmulate ty req \<Rightarrow> True | _ \<Rightarrow> False)"

definition answer_ok :: "answer \<Rightarrow> bool" where
  "answer_ok a = (case a of Answer_Emu x rep \<Rightarrow> length rep = sizeof_EmuReply | _ \<Rightarrow> True)"

fun is_Ret :: "('r, 'c) act \<Rightarrow> bool" where
  "is_Ret (Ret x c) = True"
| "is_Ret (Access l mo a buf k) = False"

fun event_ok :: "'m writer_env \<Rightarrow> 'x reader_env \<Rightarrow> bool \<Rightarrow> (u64 \<Rightarrow> u8) \<Rightarrow> 'c handlers \<Rightarrow> sift_event \<Rightarrow> bool" where
  "event_ok we re arch isz h (EInstruction addr sz as br tk pr ex) \<longleftrightarrow>
     sz = isz addr \<and> 0 < sz \<and> sz < 16 \<and> unat addr + unat sz + 4096 \<le> 2 ^ 64 \<and> length as \<le> 2 \<and> (pr \<or> ex) \<and>
     xed_decode re arch (getCode (code we) addr (unat sz)) \<noteq> None"
| "event_ok we re arch isz h (EOutput fd bytes) \<longleftrightarrow> bytes \<noteq> [] \<and> length bytes + 1 < 2 ^ 32"
| "event_ok we re arch isz h (ESyscall nr bytes) \<longleftrightarrow>
     handleSyscallFunc h \<noteq> None \<and> bytes \<noteq> [] \<and> length bytes + 2 < 2 ^ 32 \<and>
     (nr = SYS_futex \<longrightarrow> 8 \<le> length bytes) \<and> (nr = SYS_write \<longrightarrow> 16 \<le> length bytes)"
| "event_ok we re arch isz h ENewThread \<longleftrightarrow> handleNewThreadFunc h \<noteq> None"
| "event_ok we re arch isz h (EJoin thread) \<longleftrightarrow> handleJoinFunc h \<noteq> None"
| "event_ok we re arch isz h EFork \<longleftrightarrow> handleForkFunc h \<noteq> None"
| "event_ok we re arch isz h (EEmulate ty req) \<longleftrightarrow> length req = sizeof_EmuRequest"
| "event_ok we re arch isz h (ERoutineAnnounce eip nm img off line col fil) \<longleftrightarrow>
     length nm + 1 < 2 ^ 16 \<and> length img + 1 < 2 ^ 16 \<and> length fil + 1 < 2 ^ 16"
| "event_ok we re arch isz h e \<longleftrightarrow> True"

definition handler_ok :: "'c handlers \<Rightarrow> sift_event \<Rightarrow> bool" where
  "handler_ok h e \<longleftrightarrow> (\<forall>c. legal_act answer_ok (event_act h e c) \<and> (waits_for e \<or> is_Ret (event_act h e c)))"

lemma map_act_semantics [simp]:
  "requests acc (map_act g id t) m = requests acc t m" "replies acc (map_act g id t) m = replies acc t m"
  "direct acc (map_act g id t) m = (case direct acc t m of (x, c, m') \<Rightarrow> (g x, c, m'))"
  "legal_act P (map_act g id t) = legal_act (P \<circ> g) t" "is_Ret (map_act g id t) = is_Ret t"
proof -
  show "requests acc (map_act g id t) m = requests acc t m" by (induction t arbitrary: m) (simp_all add: case_prod_beta)
  show "replies acc (map_act g id t) m = replies acc t m" by (induction t arbitrary: m) (simp_all add: case_prod_beta)
  show "direct acc (map_act g id t) m = (case direct acc t m of (x, c, m') \<Rightarrow> (g x, c, m'))"
    by (induction t arbitrary: m) (simp_all add: case_prod_beta)
  show "legal_act P (map_act g id t) = legal_act (P \<circ> g) t" by (induction t) simp_all
  show "is_Ret (map_act g id t) = is_Ret t" by (cases t) simp_all
qed

lemma call_act: "call_opt re d f r c = run_act re (opt_act d f c) r" "f \<noteq> None \<Longrightarrow> call_req re f r c = run_act re (opt_act d f c) r"
  by (auto simp: call_opt_def call_req_def opt_act_def split: option.split)

end
