(* ===== verification/Sift_Carry.thy ===== *)
theory Sift_Carry
  imports Sift_Event
begin

text \<open>
  Each kind of event through the trace: the record the writer writes makes the reader call the handler with
  the reported values, and the record the reader sends back gives the writer the handler's result.
\<close>

section \<open>One event through the trace\<close>

lemma r_send_input:
  "rd_response_filename r \<noteq> [] \<Longrightarrow> bs \<noteq> [] \<Longrightarrow> r_send bs (r\<lparr> rd_input := zs \<rparr>) = Inr ((sent bs r)\<lparr> rd_input := zs \<rparr>)"
  by (simp add: r_send_ok sent_input)

lemma called:
  assumes "linked we re isz w r" "legal_act P (opt_act d f c)" "keeps_length acc" "direct acc (opt_act d f c) m = (x, c', m')"
  shows "call_opt re d f (r\<lparr> rd_input := replies acc (opt_act d f c) m @ zs \<rparr>) c =
      Inr (x, (sent (requests acc (opt_act d f c) m) r)\<lparr> rd_input := zs \<rparr>, c')"
    and "f \<noteq> None \<Longrightarrow> call_req re f (r\<lparr> rd_input := replies acc (opt_act d f c) m @ zs \<rparr>) c =
      Inr (x, (sent (requests acc (opt_act d f c) m) r)\<lparr> rd_input := zs \<rparr>, c')"
  using assms run_act_ok [OF _ _ assms(2-4), of r re zs] by (simp_all add: call_act [where d = d] linked_def)

text \<open>The writer waits for an answer.\<close>

definition answered :: "u8 list \<Rightarrow> u8 list \<Rightarrow> sift_writer \<Rightarrow> sift_writer" where
  "answered Q ys w = w\<lparr> wr_output := wr_output w @ Q, wr_response := ys, wr_response_open := True \<rparr>"

lemma linked_answered [simp]: "linked we re isz (answered Q ys w) r = linked we re isz w r"
  by (simp add: answered_def linked_def)

lemma answered_fields [simp]: "wr_output (answered Q ys w) = wr_output w @ Q" "wr_response (answered Q ys w) = ys"
  "wr_options (answered Q ys w) = wr_options w" "m_requires_icache_per_insn (answered Q ys w) = m_requires_icache_per_insn w"
  by (simp_all add: answered_def)

lemma initResponse_ok: "wr_response_filename w \<noteq> [] \<Longrightarrow> w_initResponse w = Inr (w\<lparr> wr_response_open := True \<rparr>)"
  by (auto simp: w_initResponse_def intro!: sift_writer.equality)

lemma asked:
  assumes l: "linked we re isz w r" and acc: "handleAccessMemoryFunc we = Some acc" "legal_act P t" "keeps_length acc" "direct acc t m = (x, c', m')"
    and T: "T \<noteq> RecOtherMemoryRequest" and y: "wr_response w = requests acc t m @ other_bytes T n @ ys"
  shows "rbind (w_write Q w) (\<lambda>w. rbind (w_initResponse w) (\<lambda>w. rbind (await strict T we (w, m)) F)) =
    F (n, answered (Q @ replies acc t m) ys w, m')"
proof -
  have o: "wr_output_open w" "wr_response_filename w \<noteq> []" using l by (simp_all add: linked_def)
  define w1 where "w1 = w\<lparr> wr_output := wr_output w @ Q, wr_response_open := True \<rparr>"
  have "w1 = w1\<lparr> wr_response := requests acc t m @ other_bytes T n @ ys \<rparr>" using y by (simp add: w1_def)
  then have "await strict T we (w1, m) = Inr (n, w1\<lparr> wr_output := wr_output w1 @ replies acc t m, wr_response := ys \<rparr>, m')"
    using await_ok [OF _ acc T, of w1 strict n ys] o by (simp add: w1_def)
  moreover have "w1\<lparr> wr_output := wr_output w1 @ replies acc t m, wr_response := ys \<rparr> = answered (Q @ replies acc t m) ys w"
    by (simp add: w1_def answered_def)
  ultimately show ?thesis using o by (simp add: w_write_def initResponse_ok w1_def)
qed

lemma asked_one:
  assumes l: "linked we re isz w r" and y: "wr_response w = other_bytes T n @ bs @ ys" "length bs = unat n"
  shows "rbind (w_write Q w) (\<lambda>w. rbind (w_initResponse w) (\<lambda>w. rbind (await_one e T (unat n) w) F)) = F (bs, answered Q ys w)"
proof -
  have o: "wr_output_open w" "wr_response_filename w \<noteq> []" using l by (simp_all add: linked_def)
  define w1 where "w1 = w\<lparr> wr_output := wr_output w @ Q, wr_response_open := True \<rparr>"
  have e: "w1 = w1\<lparr> wr_response := other_bytes T n @ bs @ ys \<rparr>" using y by (simp add: w1_def)
  have "await_one e T (unat n) w1 = Inr (bs, w1\<lparr> wr_response := ys \<rparr>)"
    by (subst e) (simp add: await_one_def y(2))
  moreover have "w1\<lparr> wr_response := ys \<rparr> = answered Q ys w" by (simp add: w1_def answered_def)
  ultimately show ?thesis using o by (simp add: w_write_def initResponse_ok w1_def)
qed

text \<open>Reading the request of such an event.\<close>

lemma conveys_answered:
  assumes l: "linked we re isz w r" and y: "wr_response w = R @ ys"
    and rd: "\<And>zs. read_other re h (Some T) n (r\<lparr> rd_input := B @ zs \<rparr>) c = Inr (False, (sent R r)\<lparr> rd_input := zs \<rparr>, c')"
  shows "conveys we re isz h R w r c (answered (other_bytes T n @ B) ys w) (sent R r) c'"
  using l y eats_other [OF _ _ rd] linked_open [OF l] by (auto simp: conveys_def)

lemma conveys_plain:
  assumes l: "linked we re isz w r"
    and rd: "\<And>zs. read_other re h (Some T) n (r\<lparr> rd_input := B @ zs \<rparr>) c = Inr (False, r\<lparr> rd_input := zs \<rparr>, c')"
  shows "w_write (other_bytes T n @ B) w = Inr (w\<lparr> wr_output := wr_output w @ other_bytes T n @ B \<rparr>)"
    "conveys we re isz h [] w r c (w\<lparr> wr_output := wr_output w @ other_bytes T n @ B \<rparr>) r c'"
  using l eats_other [OF _ _ rd] by (auto simp: conveys_def linked_def w_write_def)

lemma is_Ret_act: "is_Ret t \<Longrightarrow> direct acc t m = (x, c', m') \<Longrightarrow> requests acc t m = [] \<and> replies acc t m = [] \<and> m' = m"
  by (cases t) simp_all

text \<open>What has to be shown of an event.\<close>

definition carried ::
    "'m writer_env \<Rightarrow> 'x reader_env \<Rightarrow> (u64 \<Rightarrow> u8) \<Rightarrow> 'c handlers \<Rightarrow> 'm access_fun \<Rightarrow> sift_event \<Rightarrow>
      sift_writer \<Rightarrow> 'x sift_reader \<Rightarrow> 'c \<Rightarrow> 'm \<Rightarrow> bool" where
  "carried we re isz h acc e w r c m \<longleftrightarrow>
     (\<forall>a c' m' ys. direct acc (event_act h e c) m = (a, c', m') \<longrightarrow>
        wr_response w = (requests acc (event_act h e c) m @ answer_bytes e a) @ ys \<longrightarrow>
        (\<exists>w' r'. write_event we e w m = Inr (a, w', m') \<and>
           conveys we re isz h (requests acc (event_act h e c) m @ answer_bytes e a) w r c w' r' c'))"

lemma w_read_answered [simp]: "length xs = n \<Longrightarrow> w_read e n (answered Q (xs @ ys) w) = Inr (xs, answered Q ys w)"
  by (simp add: w_read_def answered_def)

lemma data_size:
  assumes "0 < length bytes" "length bytes + k < 2 ^ 32"
  shows "unat (of_nat k + of_nat (length bytes) - of_nat k :: u32) = length bytes"
    "(of_nat k :: u32) < of_nat k + of_nat (length bytes)"
  using assms by (simp_all add: unat_of_nat word_less_nat_alt unat_word_ariths)

lemma syscall_sends:
  assumes l: "linked we re isz w r" and b: "nr = SYS_futex \<longrightarrow> 8 \<le> length bytes" "nr = SYS_write \<longrightarrow> 16 \<le> length bytes"
  shows "\<exists>w' r'. syscall_va2pa we nr bytes w = Inr w' \<and> conveys we re isz h [] w r c w' r' c"
  using b send_va2pa_conveys [OF l, of "of_le (take 8 bytes)" h c] send_va2pa_conveys [OF l, of "of_le (take 8 (drop 8 bytes))" h c]
    conveys_refl [OF l, of h c] by (auto simp: syscall_va2pa_def)

lemma carried_Syscall:
  assumes l: "linked we re isz w r" and acc: "handleAccessMemoryFunc we = Some acc" "keeps_length acc"
    and e: "event_ok we re arch isz h (ESyscall nr bytes)" "handler_ok h (ESyscall nr bytes)"
  shows "carried we re isz h acc (ESyscall nr bytes) w r c m"
  unfolding carried_def
proof (intro allI impI)
  fix a c' m' ys
  let ?f = "map_option (\<lambda>f. f nr bytes) (handleSyscallFunc h)"
  let ?t = "opt_act 0 ?f c" and ?n = "2 + of_nat (length bytes) :: u32"
  assume d: "direct acc (event_act h (ESyscall nr bytes) c) m = (a, c', m')"
    and y: "wr_response w = (requests acc (event_act h (ESyscall nr bytes) c) m @ answer_bytes (ESyscall nr bytes) a) @ ys"
  then obtain x where x: "direct acc ?t m = (x, c', m')" "a = Answer64 x" by (auto split: prod.splits)
  have lg: "legal_act (answer_ok \<circ> Answer64) ?t" using e(2) by (auto simp: handler_ok_def)
  obtain w1 r1 where s: "syscall_va2pa we nr bytes w = Inr w1" "conveys we re isz h [] w r c w1 r1 c"
    using syscall_sends [OF l] e(1) by fastforce
  note l1 = conveys_linked [OF s(2)]
  let ?R = "requests acc ?t m @ other_bytes RecOtherSyscallResponse 8 @ le 8 x"
  let ?B = "le 2 nr @ bytes @ replies acc ?t m"
  have y1: "wr_response w1 = requests acc ?t m @ other_bytes RecOtherSyscallResponse 8 @ le 8 x @ ys"
    using s(2) y x(2) by (simp add: conveys_def)
  have sz: "unat (?n - 2) = length bytes" "2 < ?n" using data_size [of bytes 2] e(1) by auto
  have rd: "read_other re h (Some RecOtherSyscallRequest) ?n (r1\<lparr> rd_input := ?B @ zs \<rparr>) c = Inr (False, (sent ?R r1)\<lparr> rd_input := zs \<rparr>, c')" for zs
  proof -
    have "call_req re ?f (r1\<lparr> rd_input := replies acc ?t m @ zs \<rparr>) c = Inr (x, (sent (requests acc ?t m) r1)\<lparr> rd_input := zs \<rparr>, c')"
      using called(2) [OF l1 lg acc(2) x(1)] e(1) by simp
    moreover have "sendSyscallResponse x ((sent (requests acc ?t m) r1)\<lparr> rd_input := zs \<rparr>) = Inr ((sent ?R r1)\<lparr> rd_input := zs \<rparr>)"
      using l1 by (simp add: sendSyscallResponse_def r_send_input sent_append linked_def other_bytes_def)
    ultimately show ?thesis using sz by (simp add: read_other_simps)
  qed
  have "write_event we (ESyscall nr bytes) w m = Inr (a, answered (other_bytes RecOtherSyscallRequest ?n @ ?B) ys w1, m')"
    using s(1) x(2) by (simp add: Syscall_def asked [OF l1 acc(1) lg acc(2) x(1) _ y1])
  moreover have "conveys we re isz h ?R w1 r1 c (answered (other_bytes RecOtherSyscallRequest ?n @ ?B) ys w1) (sent ?R r1) c'"
    by (rule conveys_answered [OF l1 _ rd]) (simp add: y1)
  ultimately show "\<exists>w' r'. write_event we (ESyscall nr bytes) w m = Inr (a, w', m') \<and>
      conveys we re isz h (requests acc (event_act h (ESyscall nr bytes) c) m @ answer_bytes (ESyscall nr bytes) a) w r c w' r' c'"
    using conveys_trans [OF s(2)] x(2) by fastforce
qed

lemma simple_response:
  "linked we re isz w r \<Longrightarrow> sendSimpleResponse T bs ((sent S r)\<lparr> rd_input := zs \<rparr>) =
     Inr ((sent (S @ other_bytes T (of_nat (length bs)) @ bs) r)\<lparr> rd_input := zs \<rparr>)"
  by (simp add: sendSimpleResponse_def r_send_input sent_append linked_def other_bytes_def)

lemma simple_response_only:
  "linked we re isz w r \<Longrightarrow> sendSimpleResponse T bs (r\<lparr> rd_input := zs \<rparr>) =
     Inr ((sent (other_bytes T (of_nat (length bs)) @ bs) r)\<lparr> rd_input := zs \<rparr>)"
  using simple_response [where S = "[]" and zs = zs] by fastforce

text \<open>Events whose answer may come after memory requests, and events with an answer at once.\<close>

lemma waiting_event:
  assumes l: "linked we re isz w r" and acc: "handleAccessMemoryFunc we = Some acc" "legal_act P t" "keeps_length acc" "direct acc t m = (x, c', m')"
    and T: "T \<noteq> RecOtherMemoryRequest" and y: "wr_response w = (requests acc t m @ other_bytes T n @ bs) @ ys"
    and rd: "\<And>zs. read_other re h (Some U) k (r\<lparr> rd_input := B @ replies acc t m @ zs \<rparr>) c =
      Inr (False, (sent (requests acc t m @ other_bytes T n @ bs) r)\<lparr> rd_input := zs \<rparr>, c')"
  shows "rbind (w_write (other_bytes U k @ B) w) (\<lambda>w. rbind (w_initResponse w) (\<lambda>w. rbind (await strict T we (w, m)) F)) =
      F (n, answered (other_bytes U k @ B @ replies acc t m) (bs @ ys) w, m')"
    and "conveys we re isz h (requests acc t m @ other_bytes T n @ bs) w r c
      (answered (other_bytes U k @ B @ replies acc t m) ys w) (sent (requests acc t m @ other_bytes T n @ bs) r) c'"
proof -
  have y': "wr_response w = requests acc t m @ other_bytes T n @ bs @ ys" using y by simp
  show "rbind (w_write (other_bytes U k @ B) w) (\<lambda>w. rbind (w_initResponse w) (\<lambda>w. rbind (await strict T we (w, m)) F)) =
      F (n, answered (other_bytes U k @ B @ replies acc t m) (bs @ ys) w, m')"
    using asked [OF l acc T y', of "other_bytes U k @ B"] by simp
  show "conveys we re isz h (requests acc t m @ other_bytes T n @ bs) w r c
      (answered (other_bytes U k @ B @ replies acc t m) ys w) (sent (requests acc t m @ other_bytes T n @ bs) r) c'"
    by (rule conveys_answered [OF l y]) (simp add: rd)
qed

lemma carried_Sync:
  assumes l: "linked we re isz w r" and acc: "handleAccessMemoryFunc we = Some acc" "keeps_length acc" and e: "handler_ok h ESync"
  shows "carried we re isz h acc ESync w r c m"
  unfolding carried_def
proof (intro allI impI)
  fix a c' m' ys
  let ?f = "app1 (handleInstructionCountFunc h) 0"
  let ?t = "opt_act ModeUnknown ?f c"
  assume d: "direct acc (event_act h ESync c) m = (a, c', m')"
    and y: "wr_response w = (requests acc (event_act h ESync c) m @ answer_bytes ESync a) @ ys"
  then obtain x where x: "direct acc ?t m = (x, c', m')" "a = Answer32 x" by (auto split: prod.splits)
  have lg: "legal_act (answer_ok \<circ> Answer32) ?t" using e by (auto simp: handler_ok_def)
  have y1: "wr_response w = (requests acc ?t m @ other_bytes RecOtherSyncResponse 4 @ le 4 x) @ ys" using y x(2) by simp
  have rd: "read_other re h (Some RecOtherSync) 0 (r\<lparr> rd_input := [] @ replies acc ?t m @ zs \<rparr>) c =
      Inr (False, (sent (requests acc ?t m @ other_bytes RecOtherSyncResponse 4 @ le 4 x) r)\<lparr> rd_input := zs \<rparr>, c')" for zs
    by (simp add: read_other_simps called(1) [OF l lg acc(2) x(1)] simple_response [OF l])
  note ev = waiting_event [OF l acc(1) lg acc(2) x(1) _ y1 rd, simplified]
  show "\<exists>w' r'. write_event we ESync w m = Inr (a, w', m') \<and>
      conveys we re isz h (requests acc (event_act h ESync c) m @ answer_bytes ESync a) w r c w' r' c'"
    using ev(2) x(2) by (auto simp: Sync_def ev(1))
qed

lemma carried_Magic:
  assumes l: "linked we re isz w r" and acc: "handleAccessMemoryFunc we = Some acc" "keeps_length acc" and e: "handler_ok h (EMagic p q v)"
  shows "carried we re isz h acc (EMagic p q v) w r c m"
  unfolding carried_def
proof (intro allI impI)
  fix a c' m' ys
  let ?f = "map_option (\<lambda>f. f p q v) (handleMagicFunc h)"
  let ?t = "opt_act p ?f c"
  assume d: "direct acc (event_act h (EMagic p q v) c) m = (a, c', m')"
    and y: "wr_response w = (requests acc (event_act h (EMagic p q v) c) m @ answer_bytes (EMagic p q v) a) @ ys"
  then obtain x where x: "direct acc ?t m = (x, c', m')" "a = Answer64 x" by (auto split: prod.splits)
  have lg: "legal_act (answer_ok \<circ> Answer64) ?t" using e by (auto simp: handler_ok_def)
  have y1: "wr_response w = (requests acc ?t m @ other_bytes RecOtherMagicInstructionResponse 8 @ le 8 x) @ ys" using y x(2) by simp
  have rd: "read_other re h (Some RecOtherMagicInstruction) 24 (r\<lparr> rd_input := (le 8 p @ le 8 q @ le 8 v) @ replies acc ?t m @ zs \<rparr>) c =
      Inr (False, (sent (requests acc ?t m @ other_bytes RecOtherMagicInstructionResponse 8 @ le 8 x) r)\<lparr> rd_input := zs \<rparr>, c')" for zs
    by (simp add: read_other_simps called(1) [OF l lg acc(2) x(1)] simple_response [OF l])
  note ev = waiting_event [OF l acc(1) lg acc(2) x(1) _ y1 rd, simplified]
  show "\<exists>w' r'. write_event we (EMagic p q v) w m = Inr (a, w', m') \<and>
      conveys we re isz h (requests acc (event_act h (EMagic p q v) c) m @ answer_bytes (EMagic p q v) a) w r c w' r' c'"
    using ev(2) x(2) by (auto simp: Magic_def ev(1))
qed

lemma carried_Emulate:
  assumes l: "linked we re isz w r" and acc: "handleAccessMemoryFunc we = Some acc" "keeps_length acc"
    and e: "event_ok we re arch isz h (EEmulate ty req)" "handler_ok h (EEmulate ty req)"
  shows "carried we re isz h acc (EEmulate ty req) w r c m"
  unfolding carried_def
proof (intro allI impI)
  fix a c' m' ys
  let ?f = "map_option (\<lambda>f. f ty req) (handleEmuFunc h)"
  let ?t = "opt_act (False, replicate sizeof_EmuReply 0) ?f c"
  assume d: "direct acc (event_act h (EEmulate ty req) c) m = (a, c', m')"
    and y: "wr_response w = (requests acc (event_act h (EEmulate ty req) c) m @ answer_bytes (EEmulate ty req) a) @ ys"
  then obtain b rep where x: "direct acc ?t m = ((b, rep), c', m')" "a = Answer_Emu b rep" by (auto split: prod.splits)
  let ?P = "answer_ok \<circ> (\<lambda>p. Answer_Emu (fst p) (snd p))"
  have lg: "legal_act ?P ?t" using e(2) by (auto simp: handler_ok_def)
  have rep: "length rep = 48" using legal_direct [OF lg acc(2), of m] x(1) by (simp add: answer_ok_def sizeof_EmuReply_def)
  have req: "length req = 8" using e(1) by (simp add: sizeof_EmuRequest_def)
  have y1: "wr_response w = (requests acc ?t m @ other_bytes RecOtherEmuResponse 49 @ of_bool b # rep) @ ys" using y x(2) by simp
  have rd: "read_other re h (Some RecOtherEmu) 10 (r\<lparr> rd_input := (le 2 ty @ req) @ replies acc ?t m @ zs \<rparr>) c =
      Inr (False, (sent (requests acc ?t m @ other_bytes RecOtherEmuResponse 49 @ of_bool b # rep) r)\<lparr> rd_input := zs \<rparr>, c')" for zs
  proof -
    have "sendEmuResponse b rep ((sent (requests acc ?t m) r)\<lparr> rd_input := zs \<rparr>) =
        Inr ((sent (requests acc ?t m @ other_bytes RecOtherEmuResponse 49 @ of_bool b # rep) r)\<lparr> rd_input := zs \<rparr>)"
      using l by (simp add: sendEmuResponse_def r_send_input sent_append linked_def other_bytes_def sizeof_EmuReply_def)
    then show ?thesis using req
      by (simp add: read_other_simps called(1) [OF l lg acc(2) x(1)] sizeof_EmuRequest_def)
  qed
  note ev = waiting_event [OF l acc(1) lg acc(2) x(1) _ y1 rd, simplified]
  have w1: "w_read Uninitialised (Suc 0) (answered Q (of_bool b # rep @ ys) w) = Inr ([of_bool b], answered Q (rep @ ys) w)" for Q
    using w_read_answered [where xs = "[of_bool b]" and n = 1 and ys = "rep @ ys"] by simp
  show "\<exists>w' r'. write_event we (EEmulate ty req) w m = Inr (a, w', m') \<and>
      conveys we re isz h (requests acc (event_act h (EEmulate ty req) c) m @ answer_bytes (EEmulate ty req) a) w r c w' r' c'"
    using ev(2) x(2) rep by (auto simp: Emulate_def sizeof_EmuReply_def sizeof_EmuRequest_def ev(1) w1)
qed

text \<open>Events that are answered at once. The handler makes no access.\<close>

lemma single_event:
  assumes l: "linked we re isz w r" and y: "wr_response w = (other_bytes T 4 @ le 4 x) @ ys"
    and rd: "\<And>zs. read_other re h (Some U) k (r\<lparr> rd_input := B @ zs \<rparr>) c = Inr (False, (sent (other_bytes T 4 @ le 4 x) r)\<lparr> rd_input := zs \<rparr>, c')"
  shows "rbind (w_write (other_bytes U k @ B) w) (\<lambda>w. rbind (w_initResponse w) (\<lambda>w. rbind (await_one e T 4 w) F)) =
      F (le 4 x, answered (other_bytes U k @ B) ys w)"
    and "conveys we re isz h (other_bytes T 4 @ le 4 x) w r c (answered (other_bytes U k @ B) ys w) (sent (other_bytes T 4 @ le 4 x) r) c'"
  using asked_one [OF l, of T 4 "le 4 x" ys] y conveys_answered [OF l y rd] by auto

lemma is_Ret_obtain:
  assumes "handler_ok h e" "\<not> waits_for e" "event_act h e c = map_act g id t" "direct acc (event_act h e c) m = (a, c', m')"
  obtains x where "t = Ret x c'" "a = g x" "m' = m"
proof -
  have "is_Ret t" using assms(1-3) unfolding handler_ok_def by (metis map_act_semantics(5))
  then show ?thesis using that assms(3,4) by (cases t) auto
qed

lemma carried_InstructionCount:
  assumes l: "linked we re isz w r" and e: "handler_ok h (EInstructionCount n)"
  shows "carried we re isz h acc (EInstructionCount n) w r c m"
  unfolding carried_def
proof (intro allI impI)
  fix a c' m' ys
  assume d: "direct acc (event_act h (EInstructionCount n) c) m = (a, c', m')"
    and y: "wr_response w = (requests acc (event_act h (EInstructionCount n) c) m @ answer_bytes (EInstructionCount n) a) @ ys"
  from is_Ret_obtain [OF e _ _ d] obtain x where t: "opt_act ModeUnknown (app1 (handleInstructionCountFunc h) n) c = Ret x c'"
    and a: "a = Answer32 x" "m' = m" by (auto simp: waits_for_def)
  have y1: "wr_response w = (other_bytes RecOtherSyncResponse 4 @ le 4 x) @ ys" using y a t by simp
  have rd: "read_other re h (Some RecOtherInstructionCount) 4 (r\<lparr> rd_input := le 4 n @ zs \<rparr>) c =
      Inr (False, (sent (other_bytes RecOtherSyncResponse 4 @ le 4 x) r)\<lparr> rd_input := zs \<rparr>, c')" for zs
    using t by (simp add: read_other_simps call_act(1) simple_response_only [OF l])
  show "\<exists>w' r'. write_event we (EInstructionCount n) w m = Inr (a, w', m') \<and>
      conveys we re isz h (requests acc (event_act h (EInstructionCount n) c) m @ answer_bytes (EInstructionCount n) a) w r c w' r' c'"
    using single_event(2) [OF l y1 rd] a t by (auto simp: InstructionCount_def answer32_def single_event(1) [OF l y1 rd])
qed

lemma carried_NewThread:
  assumes l: "linked we re isz w r" and e: "handler_ok h ENewThread" "handleNewThreadFunc h \<noteq> None"
  shows "carried we re isz h acc ENewThread w r c m"
  unfolding carried_def
proof (intro allI impI)
  fix a c' m' ys
  assume d: "direct acc (event_act h ENewThread c) m = (a, c', m')"
    and y: "wr_response w = (requests acc (event_act h ENewThread c) m @ answer_bytes ENewThread a) @ ys"
  from is_Ret_obtain [OF e(1) _ _ d] obtain x where t: "opt_act 0 (handleNewThreadFunc h) c = Ret x c'"
    and a: "a = Answer32 x" "m' = m" by (auto simp: waits_for_def)
  have y1: "wr_response w = (other_bytes RecOtherNewThreadResponse 4 @ le 4 x) @ ys" using y a t by simp
  have rd: "read_other re h (Some RecOtherNewThread) 0 (r\<lparr> rd_input := [] @ zs \<rparr>) c =
      Inr (False, (sent (other_bytes RecOtherNewThreadResponse 4 @ le 4 x) r)\<lparr> rd_input := zs \<rparr>, c')" for zs
    using t e(2) by (simp add: read_other_simps call_act(2) [where d = 0] simple_response_only [OF l])
  show "\<exists>w' r'. write_event we ENewThread w m = Inr (a, w', m') \<and>
      conveys we re isz h (requests acc (event_act h ENewThread c) m @ answer_bytes ENewThread a) w r c w' r' c'"
    using single_event(2) [OF l y1 rd] a t by (auto simp: NewThread_def answer32_def single_event(1) [OF l y1 rd, simplified])
qed

lemma carried_Join:
  assumes l: "linked we re isz w r" and e: "handler_ok h (EJoin n)" "handleJoinFunc h \<noteq> None"
  shows "carried we re isz h acc (EJoin n) w r c m"
  unfolding carried_def
proof (intro allI impI)
  fix a c' m' ys
  assume d: "direct acc (event_act h (EJoin n) c) m = (a, c', m')"
    and y: "wr_response w = (requests acc (event_act h (EJoin n) c) m @ answer_bytes (EJoin n) a) @ ys"
  from is_Ret_obtain [OF e(1) _ _ d] obtain x where t: "opt_act 0 (app1 (handleJoinFunc h) n) c = Ret x c'"
    and a: "a = Answer32 x" "m' = m" by (auto simp: waits_for_def)
  have y1: "wr_response w = (other_bytes RecOtherJoinResponse 4 @ le 4 x) @ ys" using y a t by simp
  have rd: "read_other re h (Some RecOtherJoin) 4 (r\<lparr> rd_input := le 4 n @ zs \<rparr>) c =
      Inr (False, (sent (other_bytes RecOtherJoinResponse 4 @ le 4 x) r)\<lparr> rd_input := zs \<rparr>, c')" for zs
    using t e(2) by (simp add: read_other_simps call_act(2) [where d = 0] simple_response_only [OF l])
  show "\<exists>w' r'. write_event we (EJoin n) w m = Inr (a, w', m') \<and>
      conveys we re isz h (requests acc (event_act h (EJoin n) c) m @ answer_bytes (EJoin n) a) w r c w' r' c'"
    using single_event(2) [OF l y1 rd] a t by (auto simp: Join_def answer32_def single_event(1) [OF l y1 rd])
qed

lemma carried_Fork:
  assumes l: "linked we re isz w r" and e: "handler_ok h EFork" "handleForkFunc h \<noteq> None"
  shows "carried we re isz h acc EFork w r c m"
  unfolding carried_def
proof (intro allI impI)
  fix a c' m' ys
  assume d: "direct acc (event_act h EFork c) m = (a, c', m')"
    and y: "wr_response w = (requests acc (event_act h EFork c) m @ answer_bytes EFork a) @ ys"
  from is_Ret_obtain [OF e(1) _ _ d] obtain x where t: "opt_act 0 (handleForkFunc h) c = Ret x c'"
    and a: "a = Answer32 x" "m' = m" by (auto simp: waits_for_def)
  have y1: "wr_response w = (other_bytes RecOtherForkResponse 4 @ le 4 x) @ ys" using y a t by simp
  have rd: "read_other re h (Some RecOtherFork) 0 (r\<lparr> rd_input := [] @ zs \<rparr>) c =
      Inr (False, (sent (other_bytes RecOtherForkResponse 4 @ le 4 x) r)\<lparr> rd_input := zs \<rparr>, c')" for zs
    using t e(2) by (simp add: read_other_simps call_act(2) [where d = 0] simple_response_only [OF l])
  show "\<exists>w' r'. write_event we EFork w m = Inr (a, w', m') \<and>
      conveys we re isz h (requests acc (event_act h EFork c) m @ answer_bytes EFork a) w r c w' r' c'"
    using single_event(2) [OF l y1 rd] a t by (auto simp: Fork_def answer32_def single_event(1) [OF l y1 rd, simplified])
qed

text \<open>Events without an answer.\<close>

lemma carried_plain:
  assumes l: "linked we re isz w r" and e: "handler_ok h e" "\<not> waits_for e" "event_act h e c = map_act (\<lambda>u. No_Answer) id (opt_act () f c)"
    and p: "\<exists>w1 r1 T n B. conveys we re isz h [] w r c w1 r1 c \<and>
        write_event we e w m = no_answer (w_write (other_bytes T n @ B) w1) m \<and>
        (\<forall>zs. read_other re h (Some T) n (r1\<lparr> rd_input := B @ zs \<rparr>) c =
          rbind (call_opt re () f (r1\<lparr> rd_input := zs \<rparr>) c) (\<lambda>(u, r, c). Inr (False, r, c)))"
    and a: "\<And>a. answer_bytes e a = []"
  shows "carried we re isz h acc e w r c m"
  unfolding carried_def
proof (intro allI impI)
  fix a c' m' ys
  assume d: "direct acc (event_act h e c) m = (a, c', m')"
    and y: "wr_response w = (requests acc (event_act h e c) m @ answer_bytes e a) @ ys"
  from p obtain w1 r1 T n B where p: "conveys we re isz h [] w r c w1 r1 c"
    "write_event we e w m = no_answer (w_write (other_bytes T n @ B) w1) m"
    "\<And>zs. read_other re h (Some T) n (r1\<lparr> rd_input := B @ zs \<rparr>) c =
          rbind (call_opt re () f (r1\<lparr> rd_input := zs \<rparr>) c) (\<lambda>(u, r, c). Inr (False, r, c))" by blast
  obtain u where t: "opt_act () f c = Ret u c'" "a = No_Answer" "m' = m" by (rule is_Ret_obtain [OF e d])
  have rd: "read_other re h (Some T) n (r1\<lparr> rd_input := B @ zs \<rparr>) c = Inr (False, r1\<lparr> rd_input := zs \<rparr>, c')" for zs
    by (simp add: p(3) call_act(1) t(1))
  note cv = conveys_plain [OF conveys_linked [OF p(1)] rd]
  have "requests acc (event_act h e c) m = []" by (simp add: e(3) t(1))
  then show "\<exists>w' r'. write_event we e w m = Inr (a, w', m') \<and>
      conveys we re isz h (requests acc (event_act h e c) m @ answer_bytes e a) w r c w' r' c'"
    using conveys_trans [OF p(1) cv(2)] by (auto simp: p(2) no_answer_def cv(1) t a)
qed

lemma carried_CacheOnly:
  assumes l: "linked we re isz w r" and e: "handler_ok h (ECacheOnly i ty eip ad)"
  shows "carried we re isz h acc (ECacheOnly i ty eip ad) w r c m"
proof (rule carried_plain [OF l e _ _ ])
  from send_all_conveys [OF l, of "[eip, ad]" h c] obtain w1 r1 where 1: "fold_r (send_va2pa we) [eip, ad] w = Inr w1"
    "conveys we re isz h [] w r c w1 r1 c" by blast
  let ?B = "[i, ty] @ le 8 eip @ le 8 ad"
  have "rbind (send_va2pa we eip w) (\<lambda>w. rbind (send_va2pa we ad w) G) = G w1" for G :: "sift_writer \<Rightarrow> sift_writer res"
    using 1(1) by (auto elim!: rbindE)
  then have w: "write_event we (ECacheOnly i ty eip ad) w m = no_answer (w_write (other_bytes RecOtherCacheOnly 18 @ ?B) w1) m"
    by (simp add: CacheOnly_def)
  have rd: "read_other re h (Some RecOtherCacheOnly) 18 (r1\<lparr> rd_input := ?B @ zs \<rparr>) c =
      rbind (call_opt re () (map_option (\<lambda>f. f i ty eip ad) (handleCacheOnlyFunc h)) (r1\<lparr> rd_input := zs \<rparr>) c) (\<lambda>(u, r, c). Inr (False, r, c))" for zs
  proof -
    have "r_read 18 (r1\<lparr> rd_input := ?B @ zs \<rparr>) = Inr (?B, r1\<lparr> rd_input := zs \<rparr>)" by (rule r_read_app) simp
    then show ?thesis by (simp add: read_other_simps)
  qed
  show "\<exists>w1 r1 T n B. conveys we re isz h [] w r c w1 r1 c \<and>
        write_event we (ECacheOnly i ty eip ad) w m = no_answer (w_write (other_bytes T n @ B) w1) m \<and>
        (\<forall>zs. read_other re h (Some T) n (r1\<lparr> rd_input := B @ zs \<rparr>) c =
          rbind (call_opt re () (map_option (\<lambda>f. f i ty eip ad) (handleCacheOnlyFunc h)) (r1\<lparr> rd_input := zs \<rparr>) c) (\<lambda>(u, r, c). Inr (False, r, c)))"
    using 1(2) w rd by blast
qed (simp_all add: waits_for_def)

lemma carried_Output:
  assumes l: "linked we re isz w r" and e: "handler_ok h (EOutput fd bytes)" "event_ok we re arch isz h (EOutput fd bytes)"
  shows "carried we re isz h acc (EOutput fd bytes) w r c m"
proof (rule carried_plain [OF l e(1)])
  let ?n = "1 + of_nat (length bytes) :: u32"
  have sz: "unat (?n - 1) = length bytes" "1 < ?n" using data_size [of bytes 1] e(2) by auto
  have rd: "read_other re h (Some RecOtherOutput) ?n (r\<lparr> rd_input := ([fd] @ bytes) @ zs \<rparr>) c =
      rbind (call_opt re () (map_option (\<lambda>f. f fd bytes) (handleOutputFunc h)) (r\<lparr> rd_input := zs \<rparr>) c) (\<lambda>(u, r, c). Inr (False, r, c))" for zs
  proof -
    have "r_read 1 (r\<lparr> rd_input := [fd] @ bytes @ zs \<rparr>) = Inr ([fd], r\<lparr> rd_input := bytes @ zs \<rparr>)" by (rule r_read_app) simp
    then show ?thesis using sz by (simp add: read_other_simps)
  qed
  show "\<exists>w1 r1 T n B. conveys we re isz h [] w r c w1 r1 c \<and>
        write_event we (EOutput fd bytes) w m = no_answer (w_write (other_bytes T n @ B) w1) m \<and>
        (\<forall>zs. read_other re h (Some T) n (r1\<lparr> rd_input := B @ zs \<rparr>) c =
          rbind (call_opt re () (map_option (\<lambda>f. f fd bytes) (handleOutputFunc h)) (r1\<lparr> rd_input := zs \<rparr>) c) (\<lambda>(u, r, c). Inr (False, r, c)))"
    using rd conveys_refl [OF l, of h c]
    by (intro exI [of _ w] exI [of _ r] exI [of _ RecOtherOutput] exI [of _ ?n] exI [of _ "[fd] @ bytes"]) (simp add: Output_def)
qed (simp_all add: waits_for_def)

lemma carried_RoutineChange:
  assumes l: "linked we re isz w r" and e: "handler_ok h (ERoutineChange ev eip esp cl)"
  shows "carried we re isz h acc (ERoutineChange ev eip esp cl) w r c m"
proof (rule carried_plain [OF l e])
  let ?B = "[ev] @ le 8 eip @ le 8 esp @ le 8 cl"
  have rd: "read_other re h (Some RecOtherRoutineChange) 25 (r\<lparr> rd_input := ?B @ zs \<rparr>) c =
      rbind (call_opt re () (map_option (\<lambda>f. f ev eip esp cl) (handleRoutineChangeFunc h)) (r\<lparr> rd_input := zs \<rparr>) c) (\<lambda>(u, r, c). Inr (False, r, c))" for zs
  proof -
    have "r_read 25 (r\<lparr> rd_input := ?B @ zs \<rparr>) = Inr (?B, r\<lparr> rd_input := zs \<rparr>)" by (rule r_read_app) simp
    then show ?thesis by (simp add: read_other_simps)
  qed
  show "\<exists>w1 r1 T n B. conveys we re isz h [] w r c w1 r1 c \<and>
        write_event we (ERoutineChange ev eip esp cl) w m = no_answer (w_write (other_bytes T n @ B) w1) m \<and>
        (\<forall>zs. read_other re h (Some T) n (r1\<lparr> rd_input := B @ zs \<rparr>) c =
          rbind (call_opt re () (map_option (\<lambda>f. f ev eip esp cl) (handleRoutineChangeFunc h)) (r1\<lparr> rd_input := zs \<rparr>) c) (\<lambda>(u, r, c). Inr (False, r, c)))"
    using rd conveys_refl [OF l, of h c]
    by (intro exI [of _ w] exI [of _ r] exI [of _ RecOtherRoutineChange] exI [of _ 25] exI [of _ ?B]) (simp add: RoutineChange_def)
qed (simp_all add: waits_for_def)

lemma r_read_str_ok:
  assumes "length s + 1 < 2 ^ 16"
  shows "r_read_str (r\<lparr> rd_input := str_bytes s @ zs \<rparr>) = Inr (s @ [0], r\<lparr> rd_input := zs \<rparr>)"
proof -
  have "unat (str_len s) = Suc (length s)" using assms by (simp add: str_len_def unat_word_ariths unat_of_nat)
  moreover have "r_read (Suc (length s)) (r\<lparr> rd_input := s @ 0 # zs \<rparr>) = Inr (s @ [0], r\<lparr> rd_input := zs \<rparr>)"
    using r_read_app [where xs = "s @ [0]" and n = "Suc (length s)" and ys = zs] by simp
  ultimately show ?thesis by (simp add: r_read_str_def str_bytes_def)
qed

lemma carried_RoutineAnnounce:
  assumes l: "linked we re isz w r" and e: "handler_ok h (ERoutineAnnounce eip nm img off line col fil)"
    "event_ok we re arch isz h (ERoutineAnnounce eip nm img off line col fil)"
  shows "carried we re isz h acc (ERoutineAnnounce eip nm img off line col fil) w r c m"
proof (rule carried_plain [OF l e(1)])
  let ?f = "map_option (\<lambda>f. f eip (nm @ [0]) (img @ [0]) off line col (fil @ [0])) (handleRoutineAnnounceFunc h)"
  let ?n = "8 + 2 + ucast (str_len nm) + 2 + ucast (str_len img) + 8 + 4 + 4 + 2 + ucast (str_len fil) :: u32"
  let ?B = "le 8 eip @ str_bytes nm @ str_bytes img @ le 8 off @ le 4 line @ le 4 col @ str_bytes fil"
  have rd: "read_other re h (Some RecOtherRoutineAnnounce) ?n (r\<lparr> rd_input := ?B @ zs \<rparr>) c =
      rbind (call_opt re () ?f (r\<lparr> rd_input := zs \<rparr>) c) (\<lambda>(u, r, c). Inr (False, r, c))" for zs
    using e(2) by (simp add: read_other_simps read_announce_def r_read_str_ok rbind_assoc case_prod_unfold)
  show "\<exists>w1 r1 T n B. conveys we re isz h [] w r c w1 r1 c \<and>
        write_event we (ERoutineAnnounce eip nm img off line col fil) w m = no_answer (w_write (other_bytes T n @ B) w1) m \<and>
        (\<forall>zs. read_other re h (Some T) n (r1\<lparr> rd_input := B @ zs \<rparr>) c =
          rbind (call_opt re () ?f (r1\<lparr> rd_input := zs \<rparr>) c) (\<lambda>(u, r, c). Inr (False, r, c)))"
    using rd conveys_refl [OF l, of h c]
    by (intro exI [of _ w] exI [of _ r] exI [of _ RecOtherRoutineAnnounce] exI [of _ ?n] exI [of _ ?B]) (simp add: RoutineAnnounce_def)
qed (simp_all add: waits_for_def)

end
