(* ===== verification/Sift_Props.thy ===== *)
theory Sift_Props
  imports Sift_Carry
begin

unbundle bit_operations_syntax

text \<open>
  The properties of instruction traces.
\<close>

lemma event_carried:
  assumes l: "linked we re isz w r" and acc: "handleAccessMemoryFunc we = Some acc" "keeps_length acc"
    and e: "event_ok we re arch isz h e" "handler_ok h e" and i: "\<And>a n as br tk pr ex. e \<noteq> EInstruction a n as br tk pr ex"
  shows "carried we re isz h acc e w r c m"
proof (cases e)
  case (EInstruction a n as br tk pr ex)
  then show ?thesis using i by blast
next
  case (ESyscall nr bytes)
  show ?thesis using carried_Syscall [OF l acc e [unfolded ESyscall]] ESyscall by simp
next
  case (EEmulate ty req)
  show ?thesis using carried_Emulate [OF l acc e [unfolded EEmulate]] EEmulate by simp
next
  case (EOutput fd bytes)
  show ?thesis using carried_Output [OF l e(2) [unfolded EOutput] e(1) [unfolded EOutput]] EOutput by simp
next
  case (ERoutineAnnounce eip nm img off line col fil)
  show ?thesis using carried_RoutineAnnounce [OF l e(2) [unfolded ERoutineAnnounce] e(1) [unfolded ERoutineAnnounce]] ERoutineAnnounce by simp
qed (use e l acc in \<open>simp_all add: carried_Sync carried_Magic carried_InstructionCount carried_NewThread carried_Join
    carried_Fork carried_CacheOnly carried_RoutineChange\<close>)

section \<open>A trace from beginning to end\<close>

lemma read_trace_eats:
  "eats re h B r c r' c' \<Longrightarrow> 0 < n \<Longrightarrow>
   read_trace n re h take_in inst (r\<lparr> rd_input := B @ ys \<rparr>) c = read_trace n re h take_in inst (r'\<lparr> rd_input := ys \<rparr>) c'"
  by (cases n) (simp_all add: eats_def)

lemma trace_end:
  assumes l: "linked we re isz w r"
  shows "\<exists>w'. write_trace we [] w m = Inr ([], w', m) \<and> wr_output w' = wr_output w @ other_bytes RecOtherEnd 0 \<and>
      wr_response w' = wr_response w \<and> wr_options w' = wr_options w"
    and "0 < n \<Longrightarrow> \<exists>r'. read_trace n re h take_in inst (r\<lparr> rd_input := other_bytes RecOtherEnd 0 @ ys \<rparr>) c = Inr (r', c) \<and> rd_out r' = rd_out r"
proof -
  show "\<exists>w'. write_trace we [] w m = Inr ([], w', m) \<and> wr_output w' = wr_output w @ other_bytes RecOtherEnd 0 \<and>
      wr_response w' = wr_response w \<and> wr_options w' = wr_options w"
    using linked_open [OF l] by (simp add: End_def w_write_def)
  assume "0 < n"
  then show "\<exists>r'. read_trace n re h take_in inst (r\<lparr> rd_input := other_bytes RecOtherEnd 0 @ ys \<rparr>) c = Inr (r', c) \<and> rd_out r' = rd_out r"
    using linked_open [OF l] by (cases n) (simp_all add: Read_other read_other_simps)
qed

text \<open>What a trace does, from the states of a writer and a reader that are linked: the writer returns the answers \<open>as\<close> and
  the memory \<open>m'\<close>, and a client with \<open>n\<close> calls left that reads what was written ends in \<open>c'\<close>.\<close>

definition trace_carried where
  "trace_carried we re h take_in evs w r c m n as R c' m' ys \<longleftrightarrow>
     (\<exists>w' B. write_trace we evs w m = Inr (as, w', m') \<and> wr_output w' = wr_output w @ B \<and> wr_response w' = ys \<and>
      wr_options w' = wr_options w \<and>
      (\<forall>inst. length (in_addresses inst) = 2 \<longrightarrow>
         (\<exists>r'. read_trace n re h take_in inst (r\<lparr> rd_input := B \<rparr>) c = Inr (r', c') \<and> rd_out r' = rd_out r @ R)))"

lemma trace_carriedE:
  assumes "trace_carried we re h take_in evs w r c m n as R c' m' ys"
  obtains w' B where "write_trace we evs w m = Inr (as, w', m')" "wr_output w' = wr_output w @ B" "wr_response w' = ys"
    "wr_options w' = wr_options w"
    "\<And>inst. length (in_addresses inst) = 2 \<Longrightarrow>
       \<exists>r'. read_trace n re h take_in inst (r\<lparr> rd_input := B \<rparr>) c = Inr (r', c') \<and> rd_out r' = rd_out r @ R"
  using assms by (auto simp: trace_carried_def)

text \<open>An event that is no instruction is consumed without a return to the client.\<close>

lemma trace_other:
  assumes e: "write_event we e w m = Inr (a, w1, m1)" "conveys we re isz h R1 w r c w1 r1 c1" and n: "0 < n"
    and later: "trace_carried we re h take_in es w1 r1 c1 m1 n as R2 c' m' ys"
  shows "trace_carried we re h take_in (e # es) w r c m n (a # as) (R1 @ R2) c' m' ys"
proof -
  from later obtain w2 B2 where
    2: "write_trace we es w1 m1 = Inr (as, w2, m')" "wr_output w2 = wr_output w1 @ B2" "wr_response w2 = ys" "wr_options w2 = wr_options w1"
    and rt: "\<And>inst. length (in_addresses inst) = 2 \<Longrightarrow>
      \<exists>r2. read_trace n re h take_in inst (r1\<lparr> rd_input := B2 \<rparr>) c1 = Inr (r2, c') \<and> rd_out r2 = rd_out r1 @ R2"
    by (rule trace_carriedE) blast
  from e(2) obtain B1 where b: "wr_output w1 = wr_output w @ B1" "eats re h B1 r c r1 c1" "rd_out r1 = rd_out r @ R1"
    "wr_options w1 = wr_options w" by (auto simp: conveys_def)
  have "read_trace n re h take_in inst (r\<lparr> rd_input := B1 @ B2 \<rparr>) c = read_trace n re h take_in inst (r1\<lparr> rd_input := B2 \<rparr>) c1" for inst
    by (rule read_trace_eats [OF b(2) n])
  then show ?thesis unfolding trace_carried_def using e(1) 2 b rt by (intro exI [of _ w2] exI [of _ "B1 @ B2"]) simp
qed

text \<open>An instruction is returned, and the client goes on with one call less.\<close>

lemma trace_instruction:
  assumes e: "write_event we e w m = Inr (a, w1, m)" "wr_output w1 = wr_output w @ B1" "wr_options w1 = wr_options w" "rd_out r1 = rd_out r"
    and rd: "\<And>ys inst. length (in_addresses inst) = 2 \<Longrightarrow>
      \<exists>inst'. Read re h inst (r\<lparr> rd_input := B1 @ ys \<rparr>) c = Inr (True, inst', r1\<lparr> rd_input := ys \<rparr>, c) \<and>
        length (in_addresses inst') = 2 \<and> seen inst' r1 = Inr v"
    and later: "trace_carried we re h take_in es w1 r1 (take_in v c) m n as R c' m' ys"
  shows "trace_carried we re h take_in (e # es) w r c m (Suc n) (a # as) R c' m' ys"
proof -
  from later obtain w2 B2 where
    2: "write_trace we es w1 m = Inr (as, w2, m')" "wr_output w2 = wr_output w1 @ B2" "wr_response w2 = ys" "wr_options w2 = wr_options w1"
    and rt: "\<And>inst. length (in_addresses inst) = 2 \<Longrightarrow>
      \<exists>r2. read_trace n re h take_in inst (r1\<lparr> rd_input := B2 \<rparr>) (take_in v c) = Inr (r2, c') \<and> rd_out r2 = rd_out r1 @ R"
    by (rule trace_carriedE) blast
  have "\<exists>r2. read_trace (Suc n) re h take_in inst (r\<lparr> rd_input := B1 @ B2 \<rparr>) c = Inr (r2, c') \<and> rd_out r2 = rd_out r @ R"
    if i: "length (in_addresses inst) = 2" for inst
  proof -
    from rd [OF i, of B2] obtain inst' where i': "Read re h inst (r\<lparr> rd_input := B1 @ B2 \<rparr>) c = Inr (True, inst', r1\<lparr> rd_input := B2 \<rparr>, c)"
      "length (in_addresses inst') = 2" "seen inst' r1 = Inr v" by blast
    then show ?thesis using rt [OF i'(2)] e(4) by simp
  qed
  then show ?thesis unfolding trace_carried_def using e 2 by (intro exI [of _ w2] exI [of _ "B1 @ B2"]) simp
qed

lemma trace_ok:
  assumes "linked we re isz w r" "rd_arch32 r = arch" "handleAccessMemoryFunc we = Some acc" "keeps_length acc"
    "\<forall>e \<in> set evs. event_ok we re arch isz h e \<and> handler_ok h e"
    "direct_events we re arch acc h take_in evs c m = (as, R, c', m')" "wr_response w = R @ ys" "length evs < n"
  shows "trace_carried we re h take_in evs w r c m n as R c' m' ys"
  using assms
proof (induction evs arbitrary: w r c m as R n)
  case Nil
  then show ?case unfolding trace_carried_def
    using trace_end(1) [OF Nil.prems(1), of m] trace_end(2) [OF Nil.prems(1), of n h take_in _ "[]" c] by auto
next
  case (Cons e es)
  let ?t = "event_act h e c"
  obtain a c1 m1 where d: "direct acc ?t m = (a, c1, m1)" by (cases "direct acc ?t m")
  obtain as2 R2 where d2: "direct_events we re arch acc h take_in es (take_event we re arch take_in e c1) m1 = (as2, R2, c', m')"
    and as: "as = a # as2" and R: "R = (requests acc ?t m @ answer_bytes e a) @ R2"
    using Cons.prems(6) d by (auto simp: Let_def split: prod.splits)
  have ok: "event_ok we re arch isz h e" "handler_ok h e" and oks: "\<forall>e \<in> set es. event_ok we re arch isz h e \<and> handler_ok h e"
    using Cons.prems(5) by auto
  obtain n' where n: "n = Suc n'" using Cons.prems(8) by (cases n) auto
  show ?case
  proof (cases "\<exists>ad k xs br tk pr ex. e = EInstruction ad k xs br tk pr ex")
    case False
    have "carried we re isz h acc e w r c m" using event_carried [OF Cons.prems(1,3,4) ok] False by blast
    then obtain w1 r1 where 1: "write_event we e w m = Inr (a, w1, m1)" "conveys we re isz h (requests acc ?t m @ answer_bytes e a) w r c w1 r1 c1"
      unfolding carried_def using d Cons.prems(7) R by (metis append.assoc)
    have te: "take_event we re arch take_in e c1 = c1" using False by (cases e) auto
    have l1: "linked we re isz w1 r1" "rd_arch32 r1 = arch" "wr_response w1 = R2 @ ys" "length es < n"
      using 1(2) Cons.prems(2,7,8) R by (simp_all add: conveys_def)
    from Cons.IH [OF l1(1,2) Cons.prems(3,4) oks d2 [unfolded te] l1(3,4)] show ?thesis
      unfolding as R by (intro trace_other [OF 1]) (simp_all add: n)
  next
    case True
    then obtain ad k xs br tk pr ex where e: "e = EInstruction ad k xs br tk pr ex" by blast
    obtain x where x: "xed_decode re arch (getCode (code we) ad (unat k)) = Some x" using ok(1) e by auto
    have k: "k = isz ad" "0 < unat k" "unat k < 16" "unat ad + unat k + 4096 \<le> 2 ^ 64" "length xs \<le> 2" "pr \<or> ex"
      using ok(1) e by (auto simp: word_less_nat_alt unat_gt_0)
    let ?v = "\<lparr> sn_addr = ad, sn_size = k, sn_code = getCode (code we) ad (unat k), sn_decoded = x,
         sn_addresses = xs, sn_branch = br, sn_taken = tk, sn_predicate = pr, sn_executed = ex \<rparr>"
    obtain w1 r1 B1 where 1: "w_Instruction we ad k (of_nat (length xs)) xs br tk pr ex w = Inr w1" "linked we re isz w1 r1"
      "wr_response w1 = wr_response w" "rd_out r1 = rd_out r" "wr_options w1 = wr_options w" "rd_arch32 r1 = rd_arch32 r"
      "wr_output w1 = wr_output w @ B1"
      and rd: "\<And>ys inst. length (in_addresses inst) = 2 \<Longrightarrow> \<exists>inst'. Read re h inst (r\<lparr> rd_input := B1 @ ys \<rparr>) c = Inr (True, inst', r1\<lparr> rd_input := ys \<rparr>, c) \<and>
        length (in_addresses inst') = 2 \<and> seen inst' r1 = Inr ?v"
      using Instruction_conveys [OF Cons.prems(1) k, of x br tk h c] x Cons.prems(2) by blast
    have a: "a = No_Answer" "c1 = c" "m1 = m" "R = R2" using d R e by auto
    have te: "take_event we re arch take_in e c1 = take_in ?v c" using x by (simp add: e a)
    have we: "write_event we e w m = Inr (a, w1, m)" using 1(1) a(1) by (simp add: e no_answer_def)
    have l1: "rd_arch32 r1 = arch" "wr_response w1 = R2 @ ys" "length es < n'" using 1 Cons.prems(2,7,8) a n by auto
    from Cons.IH [OF 1(2) l1(1) Cons.prems(3,4) oks d2 [unfolded te] l1(2,3)] show ?thesis
      unfolding as a(3,4) n by (intro trace_instruction [OF we 1(7,5,4) rd])
  qed
qed

section \<open>The header\<close>

lemma options_ok:
  defines "opts zl ar ic pa \<equiv> (if zl then CompressionZlib else 0) OR (if ar then ArchIA32 else 0) OR
         (if ic then IcacheVariable else 0) OR (if pa then PhysicalAddress else 0)"
  shows "opts zl ar ic pa AND CompressionZlib \<noteq> 0 \<longleftrightarrow> zl" "opts zl ar ic pa AND ArchIA32 \<noteq> 0 \<longleftrightarrow> ar"
    "opts zl ar ic pa AND NOT CompressionZlib AND NOT ArchIA32 AND NOT PhysicalAddress AND NOT IcacheVariable = 0"
  unfolding opts_def by (auto simp: CompressionZlib_def ArchIA32_def IcacheVariable_def PhysicalAddress_def)

text \<open>The file of a writer, opened by a reader.\<close>

lemma initStream_ok:
  assumes "zl \<Longrightarrow> inflate re (deflate (wr_output w)) = wr_output w" "wr_options w = wr_options (Writer zl f ar ic pa R)"
  shows "\<exists>r. initStream re (Reader (trace_file deflate w) g) = Inr (r\<lparr> rd_input := wr_output w \<rparr>) \<and>
    rd_arch32 r = ar \<and> rd_out r = [] \<and> rd_open r \<and> \<not> m_seen_end r \<and>
    (f \<noteq> [] \<longrightarrow> g \<noteq> [] \<longrightarrow> linked we re isz (Writer zl f ar ic pa R) r)"
proof -
  define opts where "opts = wr_options w"
  have o: "opts AND CompressionZlib \<noteq> 0 \<longleftrightarrow> zl" "opts AND ArchIA32 \<noteq> 0 \<longleftrightarrow> ar"
    "opts AND NOT CompressionZlib AND NOT ArchIA32 AND NOT PhysicalAddress AND NOT IcacheVariable = 0"
    using options_ok [of zl ar ic pa] by (simp_all add: opts_def assms(2) Writer_def)
  let ?file = "trace_file deflate w"
  let ?r = "(Reader ?file g)\<lparr> rd_open := True, rd_compressed := zl, rd_arch32 := ar, m_trace_has_pa := (opts AND PhysicalAddress \<noteq> 0) \<rparr> :: 'a sift_reader"
  have f: "take 16 ?file = header_bytes opts" "16 \<le> length ?file"
    "drop 16 ?file = (if zl then deflate (wr_output w) else wr_output w)"
    using o(1) by (simp_all add: trace_file_def opts_def)
  have h: "take 4 (header_bytes opts) = le 4 MagicNumber" "take 4 (drop 4 (header_bytes opts)) = le 4 (0 :: u32)" "drop 8 (header_bytes opts) = le 8 opts"
    by (simp_all add: header_bytes_def)
  have "read_n ?file 0 16 = Inr (header_bytes opts)" using f(1,2) by simp
  then have "initStream re (Reader ?file g) = Inr (?r\<lparr> rd_input := wr_output w \<rparr>)"
    using o assms(1) f(3) by (simp add: initStream_def Reader_def Let_def h)
  moreover have "linked we re isz (Writer zl f ar ic pa R) ?r" if "f \<noteq> []" "g \<noteq> []" using that
    by (simp add: linked_def Writer_def Reader_def MAX_DYNAMIC_ADDRESSES_def pages_ok_def code_sent_def sinsts_ok_def)
  moreover have "rd_arch32 ?r = ar" "rd_out ?r = []" "rd_open ?r" "\<not> m_seen_end ?r" by (simp_all add: Reader_def)
  ultimately show ?thesis by blast
qed

lemma read_trace_open:
  assumes "initStream re r = Inr r0" "rd_open r0" "\<not> rd_open r" "0 < n"
  shows "read_trace n re h take_in inst r c = read_trace n re h take_in inst r0 c"
proof -
  have "Read re h inst r c = Read re h inst r0 c" using assms by (simp add: Read_def del: read_loop.simps)
  then show ?thesis using assms(4) by (cases n) simp_all
qed

section \<open>Properties\<close>

text \<open>C4: a trace loses nothing. Let a program whose code does not change report any events the format can carry (outputs
  and system calls with at least one byte among them), to any handlers that end, and memory.
  Handling them one after the other without a trace gives the answers \<open>as\<close>, the bytes \<open>R\<close> sent back, the state of
  the client \<open>c'\<close> and the memory \<open>m'\<close>. Then the writer, whose response stream holds \<open>R\<close>, gets exactly these answers and
  this memory and reads \<open>R\<close> to its end; and a client that reads the file it wrote, compressed or not, with the
  code sent by pages or by instructions, ends in the state \<open>c'\<close> having sent exactly \<open>R\<close>: every instruction is returned
  with its code, decoding, addresses and flags, every handler is called with the reported values, in
  order, and the accesses of the handlers act on the memory of the program.\<close>

theorem sift_roundtrip:
  assumes "\<And>xs. inflate re (deflate xs) = xs"
    and "handleAccessMemoryFunc we = Some acc" "keeps_length acc"
    and "\<forall>e \<in> set evs. event_ok we re arch isz h e \<and> handler_ok h e"
    and "length (in_addresses inst) = 2" "f \<noteq> []" "g \<noteq> []"
    and "direct_events we re arch acc h take_in evs c m = (as, R, c', m')"
  shows "\<exists>w r. write_trace we evs (Writer zl f arch ic pa R) m = Inr (as, w, m') \<and> wr_response w = [] \<and>
    read_trace (Suc (length evs)) re h take_in inst (Reader (trace_file deflate w) g) c = Inr (r, c') \<and> rd_out r = R"
proof -
  let ?W = "Writer zl f arch ic pa R"
  obtain r1 where l: "linked we re isz ?W r1" "rd_arch32 r1 = arch"
    using initStream_ok [where re = re and deflate = deflate and w = ?W and zl = zl and f = f and ar = arch and ic = ic and pa = pa and R = R and g = g and we = we and isz = isz]
      assms(1,6,7) by blast
  have "wr_response ?W = R @ []" "length evs < Suc (length evs)" "wr_output ?W = []" by (simp_all add: Writer_def)
  from trace_ok [OF l assms(2-4,8) this(1,2)] obtain w where
    w: "write_trace we evs ?W m = Inr (as, w, m')" "wr_response w = []" "wr_options w = wr_options ?W" by (rule trace_carriedE) blast
  obtain r where r: "initStream re (Reader (trace_file deflate w) g) = Inr (r\<lparr> rd_input := wr_output w \<rparr>)" "rd_arch32 r = arch"
    "rd_out r = []" "rd_open r" "linked we re isz ?W r"
    using initStream_ok [OF _ w(3), of re deflate g we isz] assms(1,6,7) by blast
  from trace_ok [OF r(5,2) assms(2-4,8), of "[]" "Suc (length evs)"] w(1) assms(5) obtain r' where
    "read_trace (Suc (length evs)) re h take_in inst (r\<lparr> rd_input := wr_output w \<rparr>) c = Inr (r', c')" "rd_out r' = R"
    by (auto simp: Writer_def r(3) elim!: trace_carriedE)
  moreover have "read_trace (Suc (length evs)) re h take_in inst (Reader (trace_file deflate w) g) c =
    read_trace (Suc (length evs)) re h take_in inst (r\<lparr> rd_input := wr_output w \<rparr>) c"
    by (rule read_trace_open [OF r(1)]) (simp_all add: r(4) Reader_def)
  ultimately show ?thesis using w(1,2) by auto
qed

text \<open>A program of three instructions that prints a byte and makes a system call, for which the handler reads a byte of
  its memory.\<close>

definition ex_acc :: "(u64 \<Rightarrow> u8) access_fun" where
  "ex_acc lock mo a buf m =
     (if mo = MemRead then (map (\<lambda>i. m (a + of_nat i)) [0..<length buf], m) else (buf, m))"

definition ex_we :: "(u64 \<Rightarrow> u8) writer_env" where
  "ex_we = \<lparr> code = (\<lambda>a. 0x90), pagemap = (\<lambda>p. None), handleAccessMemoryFunc = Some ex_acc \<rparr>"

definition ex_re :: "u8 reader_env" where
  "ex_re = \<lparr> inflate = (\<lambda>xs. xs), xed_decode = (\<lambda>arch bytes. Some (hd bytes)) \<rparr>"

definition ex_h :: "u64 list handlers" where
  "ex_h = \<lparr> handleInstructionCountFunc = None, handleCacheOnlyFunc = None,
     handleOutputFunc = Some (\<lambda>fd bytes c. Ret () (c @ [ucast (hd bytes)])),
     handleSyscallFunc = Some (\<lambda>nr bytes c. Access 1 MemRead 100 [0] (\<lambda>b. Ret (ucast (hd b)) (c @ [ucast nr]))),
     handleNewThreadFunc = None, handleForkFunc = None, handleJoinFunc = None, handleMagicFunc = None, handleEmuFunc = None,
     handleRoutineChangeFunc = None, handleRoutineAnnounceFunc = None \<rparr>"

definition ex_events :: "sift_event list" where
  "ex_events = [EInstruction 0x400ffe 3 [8] False False False True, EOutput 1 [65], EInstruction 0x401001 3 [] True True False True,
     ESyscall 39 [0], EInstruction 0x400ffe 3 [9, 10] False False False True]"

definition ex_inst :: sift_instruction where
  "ex_inst = \<lparr> in_sinst = None, in_num_addresses = 0, in_addresses = [0, 0], in_is_branch = False, in_taken = False,
     in_is_predicate = False, in_executed = False \<rparr>"

theorem sift_roundtrip_witness:
  "\<exists>w r. write_trace ex_we ex_events (Writer True ''resp'' False False False
       (request_bytes 1 MemRead 100 [0] @ other_bytes RecOtherSyscallResponse 8 @ le 8 (7 :: u64))) (\<lambda>a. 7) =
       Inr ([No_Answer, No_Answer, No_Answer, Answer64 7, No_Answer], w, \<lambda>a. 7) \<and> wr_response w = [] \<and>
    read_trace 6 ex_re ex_h (\<lambda>v c. c @ [sn_addr v]) ex_inst (Reader (trace_file (\<lambda>xs. xs) w) ''resp'') [] =
      Inr (r, [0x400ffe, 65, 0x401001, 39, 0x400ffe]) \<and>
    rd_out r = request_bytes 1 MemRead 100 [0] @ other_bytes RecOtherSyscallResponse 8 @ le 8 (7 :: u64)"
proof -
  have ok: "\<forall>e \<in> set ex_events. event_ok ex_we ex_re False (\<lambda>a. 3) ex_h e \<and> handler_ok ex_h e"
    by (simp add: ex_events_def ex_we_def ex_re_def ex_h_def handler_ok_def waits_for_def answer_ok_def opt_act_def
        SYS_futex_def SYS_write_def)
  have k: "keeps_length ex_acc" by (simp add: keeps_length_def ex_acc_def)
  have d: "direct_events ex_we ex_re False ex_acc ex_h (\<lambda>v c. c @ [sn_addr v]) ex_events [] (\<lambda>a. 7) =
    ([No_Answer, No_Answer, No_Answer, Answer64 7, No_Answer],
     request_bytes 1 MemRead 100 [0] @ other_bytes RecOtherSyscallResponse 8 @ le 8 (7 :: u64),
     [0x400ffe, 65, 0x401001, 39, 0x400ffe], \<lambda>a. 7)"
    by (simp add: ex_events_def ex_h_def ex_acc_def opt_act_def access_memory_def)
  have "\<exists>w r. write_trace ex_we ex_events (Writer True ''resp'' False False False
       (request_bytes 1 MemRead 100 [0] @ other_bytes RecOtherSyscallResponse 8 @ le 8 (7 :: u64))) (\<lambda>a. 7) =
       Inr ([No_Answer, No_Answer, No_Answer, Answer64 7, No_Answer], w, \<lambda>a. 7) \<and> wr_response w = [] \<and>
    read_trace (Suc (length ex_events)) ex_re ex_h (\<lambda>v c. c @ [sn_addr v]) ex_inst (Reader (trace_file (\<lambda>xs. xs) w) ''resp'') [] =
      Inr (r, [0x400ffe, 65, 0x401001, 39, 0x400ffe]) \<and>
    rd_out r = request_bytes 1 MemRead 100 [0] @ other_bytes RecOtherSyscallResponse 8 @ le 8 (7 :: u64)"
    by (rule sift_roundtrip [OF _ _ k ok _ _ _ d]) (simp_all add: ex_re_def ex_we_def ex_inst_def)
  moreover have "Suc (length ex_events) = 6" by (simp add: ex_events_def)
  ultimately show ?thesis by (simp only:)
qed

text \<open>C40: writer and reader disagree on an output of no bytes: the writer accepts it, and the reader of the
  trace stops at an assertion. (The recorder under \<^verbatim>\<open>sift/recorder\<close> does not report such outputs.)\<close>

theorem sift_empty_output:
  "\<exists>w. write_trace we [EOutput fd []] (Writer False f arch ic pa R) m = Inr ([No_Answer], w, m) \<and>
    Read re h inst (Reader (trace_file deflate w) g) c = Inl Assert_Failed"
proof -
  let ?W = "Writer False f arch ic pa R"
  define w where "w = ?W\<lparr> wr_output := other_bytes RecOtherOutput 1 @ [fd] @ other_bytes RecOtherEnd 0, wr_output_open := False \<rparr>"
  have t: "write_trace we [EOutput fd []] ?W m = Inr ([No_Answer], w, m)"
    by (simp add: Output_def no_answer_def w_write_def End_def Writer_def w_def)
  obtain r :: "'b sift_reader" where r: "initStream re (Reader (trace_file deflate w) g) = Inr (r\<lparr> rd_input := wr_output w \<rparr>)" "rd_open r" "\<not> m_seen_end r"
    using initStream_ok [of False re deflate w f arch ic pa R g] by (auto simp: w_def)
  have "Read re h inst (Reader (trace_file deflate w) g) c = Read re h inst (r\<lparr> rd_input := wr_output w \<rparr>) c"
    using r by (simp add: Read_def Reader_def del: read_loop.simps)
  also have "\<dots> = Inl Assert_Failed" by (simp add: w_def Read_other [OF r(2,3)] read_other_simps)
  finally show ?thesis using t by blast
qed

text \<open>In the last page of the address space the loop that sends the pages of an instruction does not end.\<close>

lemma last_page_loops:
  assumes "wr_output_open w" "page_of b = b"
  shows "icache_loop n cd b ICACHE_PAGE_MASK w = Inl Out_Of_Fuel"
  using assms
proof (induction n arbitrary: b w)
  case (Suc n)
  have "b \<le> ICACHE_PAGE_MASK" using word_and_le1 [of b ICACHE_PAGE_MASK] Suc.prems(2) by simp
  moreover obtain w' where "send_page cd b w = Inr w'" "wr_output_open w'"
    using Suc.prems(1) by (cases "b \<in> wr_icache w") (auto simp: send_page_def w_write_def)
  ultimately show ?case using Suc.IH next_page_aligned [OF Suc.prems(2)] by simp
qed simp

end
