(* ===== verification/Scheduler.thy ===== *)
theory Scheduler
  imports Thread_Manager
begin

text \<open>
  The schedulers (\<^verbatim>\<open>common/scheduler/\<close>): which thread runs on which core. \<^verbatim>\<open>SchedulerPinnedBase\<close> gives every
  thread a set of cores it may run on and shares a core between its threads by time slices;
  \<^verbatim>\<open>SchedulerPinned\<close> and \<^verbatim>\<open>SchedulerRoaming\<close> differ in the set a new thread gets. \<^verbatim>\<open>SchedulerStatic\<close> places a new
  thread on an idle core for good.

  The scheduler moves threads through the thread manager, and the thread manager calls the scheduler back when a
  move resumes a thread, so the two are one state here, a pair. The nesting of these calls is bounded by the
  number of free cores: each level occupies one. \<open>reschedule\<close> carries that bound as fuel.
\<close>

section \<open>Data\<close>

record thread_info =
  m_has_affinity :: bool
  m_explicit_affinity :: bool
  m_core_affinity :: "bool list"
  m_core_running :: core_id
  m_last_scheduled_in :: time
  m_last_scheduled_out :: time

datatype scheduler_type = Sched_Pinned | Sched_Roaming

record scheduler =
  sched_type :: scheduler_type
  app_cores :: nat
  m_threads_runnable :: "bool list"
  m_in_periodic :: bool
  m_quantum :: time
  m_last_periodic :: time
  m_thread_info :: "thread_info list"
  m_core_thread_running :: "thread_id list"
  m_quantum_left :: "time list"
  m_interleaving :: int
  m_core_mask :: "bool list"
  m_next_core :: core_id

type_synonym sched_sys = "thread_manager \<times> scheduler"

definition ThreadInfo :: "nat \<Rightarrow> thread_info" where
  "ThreadInfo n = \<lparr> m_has_affinity = False, m_explicit_affinity = False, m_core_affinity = replicate n False,
     m_core_running = INVALID_CORE_ID, m_last_scheduled_in = 0, m_last_scheduled_out = 0 \<rparr>"

text \<open>The constructors; the quantum is in nanoseconds, the mask and the interleaving come from the configuration.\<close>

definition SchedulerPinnedBase :: "scheduler_type \<Rightarrow> nat \<Rightarrow> u64 \<Rightarrow> int \<Rightarrow> bool list \<Rightarrow> scheduler" where
  "SchedulerPinnedBase ty cores quantum_ns interleaving core_mask =
     \<lparr> sched_type = ty, app_cores = cores, m_threads_runnable = replicate 16 False, m_in_periodic = False,
       m_quantum = quantum_ns * 1000000, m_last_periodic = 0, m_thread_info = [],
       m_core_thread_running = replicate cores INVALID_THREAD_ID, m_quantum_left = replicate cores 0,
       m_interleaving = interleaving, m_core_mask = core_mask, m_next_core = 0 \<rparr>"

section \<open>Threads and their cores\<close>

definition clearAffinity :: "thread_info \<Rightarrow> thread_info" where
  "clearAffinity i = i\<lparr> m_core_affinity := map (\<lambda>_. False) (m_core_affinity i) \<rparr>"

definition addAffinity :: "core_id \<Rightarrow> thread_info \<Rightarrow> thread_info res" where
  "addAffinity core_id i =
     rbind (upd_id core_id (\<lambda>_. True) (m_core_affinity i)) (\<lambda>a.
     Inr (i\<lparr> m_core_affinity := a, m_has_affinity := True \<rparr>))"

definition hasAffinity :: "core_id \<Rightarrow> thread_info \<Rightarrow> bool res" where
  "hasAffinity core_id i = at_id (m_core_affinity i) core_id"

definition isRunning :: "thread_info \<Rightarrow> bool" where
  "isRunning i \<longleftrightarrow> m_core_running i \<noteq> INVALID_CORE_ID"

definition upd_info :: "thread_id \<Rightarrow> (thread_info \<Rightarrow> thread_info res) \<Rightarrow> scheduler \<Rightarrow> scheduler res" where
  "upd_info thread_id f s =
     rbind (at_id (m_thread_info s) thread_id) (\<lambda>i.
     rbind (f i) (\<lambda>i'. Inr (s\<lparr> m_thread_info := (m_thread_info s)[nat thread_id := i'] \<rparr>)))"

definition set_running :: "core_id \<Rightarrow> thread_id \<Rightarrow> scheduler \<Rightarrow> scheduler res" where
  "set_running core_id thread_id s =
     rbind (upd_id core_id (\<lambda>_. thread_id) (m_core_thread_running s)) (\<lambda>l. Inr (s\<lparr> m_core_thread_running := l \<rparr>))"

definition set_quantum_left :: "core_id \<Rightarrow> time \<Rightarrow> scheduler \<Rightarrow> scheduler res" where
  "set_quantum_left core_id t s =
     rbind (upd_id core_id (\<lambda>_. t) (m_quantum_left s)) (\<lambda>l. Inr (s\<lparr> m_quantum_left := l \<rparr>))"

definition set_runnable :: "thread_id \<Rightarrow> bool \<Rightarrow> scheduler \<Rightarrow> scheduler res" where
  "set_runnable thread_id b s =
     rbind (upd_id thread_id (\<lambda>_. b) (m_threads_runnable s)) (\<lambda>l. Inr (s\<lparr> m_threads_runnable := l \<rparr>))"

definition app_core_ids :: "scheduler \<Rightarrow> core_id list" where
  "app_core_ids s = map int [0..<app_cores s]"

fun find_free_core :: "core_id list \<Rightarrow> thread_info \<Rightarrow> scheduler \<Rightarrow> core_id res" where
  "find_free_core [] i s = Inr INVALID_CORE_ID"
| "find_free_core (c # cs) i s =
     rbind (hasAffinity c i) (\<lambda>a.
     rbind (if a then rbind (at_id (m_core_thread_running s) c) (\<lambda>r. Inr (r = INVALID_THREAD_ID)) else Inr False) (\<lambda>free.
     if free then Inr c else find_free_core cs i s))"

definition findFreeCoreForThread :: "thread_id \<Rightarrow> scheduler \<Rightarrow> core_id res" where
  "findFreeCoreForThread thread_id s =
     (if app_cores s = 0 then Inr INVALID_CORE_ID
      else rbind (at_id (m_thread_info s) thread_id) (\<lambda>i. find_free_core (app_core_ids s) i s))"

section \<open>Choosing a thread\<close>

text \<open>The thread may run on the core, is not stalled, and is not running somewhere else.\<close>

definition eligible :: "core_id \<Rightarrow> scheduler \<Rightarrow> thread_id \<Rightarrow> bool res" where
  "eligible core_id s thread_id =
     rbind (at_id (m_thread_info s) thread_id) (\<lambda>i.
     rbind (hasAffinity core_id i) (\<lambda>a.
     if \<not> a then Inr False
     else
       rbind (at_id (m_threads_runnable s) thread_id) (\<lambda>r.
       Inr (r \<and> (\<not> isRunning i \<or> m_core_running i = core_id)))))"

definition score :: "time \<Rightarrow> thread_info \<Rightarrow> int" where
  "score t i =
     sint (if isRunning i then getPS (m_last_scheduled_in i) - getPS t else getPS t - getPS (m_last_scheduled_out i))"

definition INT64_MIN :: int where "INT64_MIN = - (2 ^ 63)"

fun choose_loop :: "thread_id list \<Rightarrow> time \<Rightarrow> core_id \<Rightarrow> scheduler \<Rightarrow> thread_id \<Rightarrow> int \<Rightarrow> thread_id res" where
  "choose_loop [] t core_id s new_thread_id max_score = Inr new_thread_id"
| "choose_loop (u # us) t core_id s new_thread_id max_score =
     rbind (eligible core_id s u) (\<lambda>e.
     if \<not> e then choose_loop us t core_id s new_thread_id max_score
     else
       rbind (at_id (m_thread_info s) u) (\<lambda>i.
       if max_score < score t i then choose_loop us t core_id s u (score t i)
       else choose_loop us t core_id s new_thread_id max_score))"

definition choose_thread :: "time \<Rightarrow> core_id \<Rightarrow> scheduler \<Rightarrow> thread_id res" where
  "choose_thread t core_id s =
     choose_loop (map int [0..<length (m_threads_runnable s)]) t core_id s INVALID_THREAD_ID INT64_MIN"

section \<open>Moving threads\<close>

text \<open>The callback of a resumed thread, and a move with the callback in it. \<open>resched\<close> is \<open>reschedule\<close> with less fuel.\<close>

definition hook_thread_resume :: "(time \<Rightarrow> core_id \<Rightarrow> sched_sys \<Rightarrow> sched_sys res) \<Rightarrow> thread_id \<Rightarrow> time \<Rightarrow> sched_sys \<Rightarrow> sched_sys res" where
  "hook_thread_resume resched thread_id t w =
     rbind (set_runnable thread_id True (snd w)) (\<lambda>s1.
     rbind (findFreeCoreForThread thread_id s1) (\<lambda>free_core_id.
     if free_core_id \<noteq> INVALID_CORE_ID then resched t free_core_id (fst w, s1) else Inr (fst w, s1)))"

definition sched_moveThread ::
    "(time \<Rightarrow> core_id \<Rightarrow> sched_sys \<Rightarrow> sched_sys res) \<Rightarrow> thread_id \<Rightarrow> core_id \<Rightarrow> time \<Rightarrow> sched_sys \<Rightarrow> sched_sys res" where
  "sched_moveThread resched thread_id core_id t w =
     rbind (moveThread_begin thread_id core_id t (fst w)) (\<lambda>(resumed, tm1).
     rbind (if resumed then hook_thread_resume resched thread_id t (tm1, snd w) else Inr (tm1, snd w)) (\<lambda>w2.
     rbind (moveThread_end thread_id core_id t (fst w2)) (\<lambda>tm3. Inr (tm3, snd w2))))"

definition unschedule ::
    "(time \<Rightarrow> core_id \<Rightarrow> sched_sys \<Rightarrow> sched_sys res) \<Rightarrow> thread_id \<Rightarrow> core_id \<Rightarrow> time \<Rightarrow> sched_sys \<Rightarrow> sched_sys res" where
  "unschedule resched thread_id core_id t w =
     rbind (upd_info thread_id (\<lambda>i. Inr (i\<lparr> m_core_running := INVALID_CORE_ID,
         m_last_scheduled_out := t + of_int core_id * 1000 \<rparr>)) (snd w)) (\<lambda>s1.
     sched_moveThread resched thread_id INVALID_CORE_ID t (fst w, s1))"

definition schedule_in ::
    "(time \<Rightarrow> core_id \<Rightarrow> sched_sys \<Rightarrow> sched_sys res) \<Rightarrow> thread_id \<Rightarrow> core_id \<Rightarrow> time \<Rightarrow> sched_sys \<Rightarrow> sched_sys res" where
  "schedule_in resched thread_id core_id t w =
     rbind (at_id (m_thread_info (snd w)) thread_id) (\<lambda>i.
     rbind (if isRunning i then set_running (m_core_running i) INVALID_THREAD_ID (snd w) else Inr (snd w)) (\<lambda>s1.
     rbind (upd_info thread_id (\<lambda>i. Inr (i\<lparr> m_core_running := core_id, m_last_scheduled_in := t \<rparr>)) s1) (\<lambda>s2.
     sched_moveThread resched thread_id core_id t (fst w, s2))))"

definition starting_up :: "thread_id \<Rightarrow> thread_manager \<Rightarrow> bool res" where
  "starting_up thread_id tm =
     (if thread_id = INVALID_THREAD_ID then Inr False
      else rbind (getThreadState thread_id tm) (\<lambda>st. Inr (st = INITIALIZING)))"

primrec reschedule :: "nat \<Rightarrow> time \<Rightarrow> core_id \<Rightarrow> sched_sys \<Rightarrow> sched_sys res" where
  "reschedule 0 = (\<lambda>t core_id w. Inl Out_Of_Fuel)"
| "reschedule (Suc n) = (\<lambda>t core_id w.
     rbind (at_id (m_core_thread_running (snd w)) core_id) (\<lambda>current_thread_id.
     rbind (starting_up current_thread_id (fst w)) (\<lambda>starting.
     if starting then Inr w
     else
       rbind (choose_thread t core_id (snd w)) (\<lambda>new_thread_id.
       rbind
         (if current_thread_id \<noteq> new_thread_id then
            rbind (if current_thread_id \<noteq> INVALID_THREAD_ID then unschedule (reschedule n) current_thread_id core_id t w
                   else Inr w) (\<lambda>w1.
            rbind (set_running core_id new_thread_id (snd w1)) (\<lambda>s2.
            if new_thread_id \<noteq> INVALID_THREAD_ID then schedule_in (reschedule n) new_thread_id core_id t (fst w1, s2)
            else Inr (fst w1, s2)))
          else Inr w) (\<lambda>w3.
       rbind (set_quantum_left core_id (m_quantum (snd w3)) (snd w3)) (\<lambda>s4. Inr (fst w3, s4)))))))"

text \<open>A call from outside: as many nested calls as there are cores are possible.\<close>

definition reschedule_now :: "time \<Rightarrow> core_id \<Rightarrow> sched_sys \<Rightarrow> sched_sys res" where
  "reschedule_now t core_id w = reschedule (Suc (app_cores (snd w))) t core_id w"

definition reschedule_if_free :: "time \<Rightarrow> thread_id \<Rightarrow> sched_sys \<Rightarrow> sched_sys res" where
  "reschedule_if_free t thread_id w =
     rbind (findFreeCoreForThread thread_id (snd w)) (\<lambda>free_core_id.
     if free_core_id \<noteq> INVALID_CORE_ID then reschedule_now t free_core_id w else Inr w)"

definition reschedule_if_running :: "time \<Rightarrow> thread_id \<Rightarrow> sched_sys \<Rightarrow> sched_sys res" where
  "reschedule_if_running t thread_id w =
     rbind (at_id (m_thread_info (snd w)) thread_id) (\<lambda>i.
     if isRunning i then reschedule_now t (m_core_running i) w else Inr w)"

section \<open>The cores of a new thread\<close>

fun getNextCore_loop :: "nat \<Rightarrow> core_id \<Rightarrow> scheduler \<Rightarrow> core_id res" where
  "getNextCore_loop 0 core_id s = Inl Out_Of_Fuel"
| "getNextCore_loop (Suc n) core_id s =
     (let c1 = core_id + m_interleaving s in
      rbind (if int (app_cores s) \<le> c1
             then if app_cores s = 0 \<or> m_interleaving s = 0 then Inl Undefined
                  else Inr ((c1 mod int (app_cores s) + 1) mod \<bar>m_interleaving s\<bar>)
             else Inr c1) (\<lambda>c2.
      rbind (at_id (m_core_mask s) c2) (\<lambda>allowed.
      if allowed then Inr c2 else getNextCore_loop n c2 s)))"

definition getNextCore :: "core_id \<Rightarrow> scheduler \<Rightarrow> core_id res" where
  "getNextCore core_id s = getNextCore_loop (app_cores s) core_id s"

fun getFreeCore_loop :: "nat \<Rightarrow> core_id \<Rightarrow> core_id \<Rightarrow> scheduler \<Rightarrow> core_id res" where
  "getFreeCore_loop 0 core_first core_next s = Inl Out_Of_Fuel"
| "getFreeCore_loop (Suc n) core_first core_next s =
     rbind (at_id (m_core_thread_running s) core_next) (\<lambda>r.
     rbind (if r = INVALID_THREAD_ID then at_id (m_core_mask s) core_next else Inr False) (\<lambda>free.
     if free then Inr core_next
     else
       rbind (getNextCore core_next s) (\<lambda>next_core.
       if next_core \<noteq> core_first then getFreeCore_loop n core_first next_core s else Inr core_first)))"

definition getFreeCore :: "core_id \<Rightarrow> scheduler \<Rightarrow> core_id res" where
  "getFreeCore core_first s = getFreeCore_loop (app_cores s) core_first core_first s"

definition setInitialAffinity_pinned :: "thread_id \<Rightarrow> scheduler \<Rightarrow> scheduler res" where
  "setInitialAffinity_pinned thread_id s =
     rbind (getFreeCore (m_next_core s) s) (\<lambda>core_id.
     rbind (getNextCore core_id s) (\<lambda>next_core.
     upd_info thread_id (\<lambda>i. addAffinity core_id (clearAffinity i)) (s\<lparr> m_next_core := next_core \<rparr>)))"

definition setInitialAffinity_roaming :: "thread_id \<Rightarrow> scheduler \<Rightarrow> scheduler res" where
  "setInitialAffinity_roaming thread_id s =
     upd_info thread_id (\<lambda>i.
       fold_r (\<lambda>c i. rbind (at_id (m_core_mask s) c) (\<lambda>allowed. if allowed then addAffinity c i else Inr i))
         (app_core_ids s) (clearAffinity i)) s"

definition threadSetInitialAffinity :: "thread_id \<Rightarrow> scheduler \<Rightarrow> scheduler res" where
  "threadSetInitialAffinity thread_id s =
     (case sched_type s of
        Sched_Pinned \<Rightarrow> setInitialAffinity_pinned thread_id s
      | Sched_Roaming \<Rightarrow> setInitialAffinity_roaming thread_id s)"

section \<open>Operations\<close>

definition threadCreate :: "thread_id \<Rightarrow> scheduler \<Rightarrow> (core_id \<times> scheduler) res" where
  "threadCreate thread_id s =
     (let s1 = (if length (m_thread_info s) \<le> nat thread_id
                then s\<lparr> m_thread_info := m_thread_info s @ replicate 16 (ThreadInfo (app_cores s)) \<rparr> else s)
      in rbind (at_id (m_thread_info s1) thread_id) (\<lambda>i.
         rbind (if m_has_affinity i then Inr s1 else threadSetInitialAffinity thread_id s1) (\<lambda>s2.
         rbind (findFreeCoreForThread thread_id s2) (\<lambda>free_core_id.
         rbind (upd_info thread_id (\<lambda>i. Inr (i\<lparr> m_core_running := free_core_id \<rparr>)) s2) (\<lambda>s3.
         if free_core_id \<noteq> INVALID_CORE_ID then
           rbind (set_running free_core_id thread_id s3) (\<lambda>s4.
           rbind (set_quantum_left free_core_id (m_quantum s4) s4) (\<lambda>s5. Inr (free_core_id, s5)))
         else Inr (INVALID_CORE_ID, s3))))))"

definition threadYield :: "thread_id \<Rightarrow> sched_sys \<Rightarrow> sched_sys res" where
  "threadYield thread_id w =
     rbind (at_id (m_thread_info (snd w)) thread_id) (\<lambda>i.
     let core_id = m_core_running i in
     if core_id = INVALID_CORE_ID then Inr w
     else
       rbind (at_id (m_cores (fst w)) core_id) (\<lambda>c.
       rbind (set_quantum_left core_id 0 (snd w)) (\<lambda>s1.
       rbind (reschedule_now (elapsed_time c) core_id (fst w, s1)) (\<lambda>w2.
       rbind (at_id (m_thread_info (snd w2)) thread_id) (\<lambda>i2.
       rbind (hasAffinity core_id i2) (\<lambda>a.
       if \<not> a then reschedule_if_free (elapsed_time c) thread_id w2 else Inr w2))))))"

definition setAffinity_mask :: "nat \<Rightarrow> bool list option \<Rightarrow> thread_info \<Rightarrow> thread_info res" where
  "setAffinity_mask cores cpus i0 =
     (let i = i0\<lparr> m_explicit_affinity := True \<rparr> in
      case cpus of
        None \<Rightarrow> fold_r addAffinity (map int [0..<cores]) i
      | Some bits \<Rightarrow>
          fold_r (\<lambda>(cpu, b) i. if b then if cores \<le> cpu then Inl Assert_Failed else addAffinity (int cpu) i else Inr i)
            (List.enumerate 0 bits) (clearAffinity i))"

text \<open>The mask is a list of bits, or absent. The call always answers \<open>true\<close>.\<close>

definition threadSetAffinity :: "time \<Rightarrow> thread_id \<Rightarrow> thread_id \<Rightarrow> bool list option \<Rightarrow> sched_sys \<Rightarrow> sched_sys res" where
  "threadSetAffinity global_time calling_thread_id thread_id cpus w =
     (let s = snd w;
          s1 = (if length (m_thread_info s) \<le> nat thread_id
                then s\<lparr> m_thread_info := m_thread_info s @
                       replicate (nat thread_id + 16 - length (m_thread_info s)) (ThreadInfo (app_cores s)) \<rparr> else s)
      in rbind (upd_info thread_id (setAffinity_mask (app_cores s) cpus) s1) (\<lambda>s2.
         if getNumThreads (fst w) \<le> nat thread_id then Inr (fst w, s2)
         else if thread_id = calling_thread_id then threadYield thread_id (fst w, s2)
         else
           rbind (at_id (m_thread_info s2) thread_id) (\<lambda>i.
           rbind (if isRunning i then rbind (hasAffinity (m_core_running i) i) (\<lambda>a. Inr (\<not> a)) else Inr False) (\<lambda>misplaced.
           if misplaced then rbind (set_quantum_left (m_core_running i) 0 s2) (\<lambda>s3. Inr (fst w, s3))
           else
             rbind (at_id (m_threads_runnable s2) thread_id) (\<lambda>r.
             if r \<and> \<not> isRunning i then
               rbind (findFreeCoreForThread thread_id s2) (\<lambda>free_core_id.
               if free_core_id \<noteq> INVALID_CORE_ID then
                 rbind (at_id (m_cores (fst w)) free_core_id) (\<lambda>c.
                 reschedule_now (max (elapsed_time c) global_time) free_core_id (fst w, s2))
               else Inr (fst w, s2))
             else Inr (fst w, s2))))))"

text \<open>\<open>None\<close> is the answer \<open>false\<close>; otherwise the bits written to the mask.\<close>

definition threadGetAffinity :: "thread_id \<Rightarrow> nat \<Rightarrow> scheduler \<Rightarrow> bool list option res" where
  "threadGetAffinity thread_id cpusetsize s =
     (if cpusetsize * 8 < app_cores s then Inr None
      else if app_cores s = 0 then Inr (Some (replicate (8 * cpusetsize) False))
      else
        rbind (at_id (m_thread_info s) thread_id) (\<lambda>i.
        rbind (map_r (\<lambda>c. hasAffinity c i) (app_core_ids s)) (\<lambda>a.
        Inr (Some (map (\<lambda>x. x \<or> \<not> m_explicit_affinity i) a @ replicate (8 * cpusetsize - app_cores s) False)))))"

section \<open>Callbacks\<close>

definition hook_thread_start :: "thread_id \<Rightarrow> time \<Rightarrow> sched_sys \<Rightarrow> sched_sys res" where
  "hook_thread_start thread_id t w =
     (let s = snd w;
          s1 = (if length (m_threads_runnable s) \<le> nat thread_id
                then s\<lparr> m_threads_runnable := m_threads_runnable s @ replicate 16 False \<rparr> else s)
      in rbind (set_runnable thread_id True s1) (\<lambda>s2. reschedule_if_free t thread_id (fst w, s2)))"

definition hook_thread_stall :: "thread_id \<Rightarrow> stall_type_t \<Rightarrow> time \<Rightarrow> sched_sys \<Rightarrow> sched_sys res" where
  "hook_thread_stall thread_id reason t w =
     (if reason = STALL_UNSCHEDULED then Inr w
      else rbind (set_runnable thread_id False (snd w)) (\<lambda>s1. reschedule_if_running t thread_id (fst w, s1)))"

definition hook_thread_exit :: "thread_id \<Rightarrow> time \<Rightarrow> sched_sys \<Rightarrow> sched_sys res" where
  "hook_thread_exit thread_id t w =
     rbind (set_runnable thread_id False (snd w)) (\<lambda>s1. reschedule_if_running t thread_id (fst w, s1))"

definition periodic_core :: "time \<Rightarrow> time \<Rightarrow> core_id \<Rightarrow> sched_sys \<Rightarrow> sched_sys res" where
  "periodic_core t delta core_id w =
     rbind (at_id (m_quantum_left (snd w)) core_id) (\<lambda>q.
     rbind (if q < delta then Inr True
            else rbind (at_id (m_core_thread_running (snd w)) core_id) (\<lambda>r. Inr (r = INVALID_THREAD_ID))) (\<lambda>b.
     if b then reschedule_now t core_id w
     else rbind (set_quantum_left core_id (q - delta) (snd w)) (\<lambda>s1. Inr (fst w, s1))))"

definition periodic :: "time \<Rightarrow> sched_sys \<Rightarrow> sched_sys res" where
  "periodic t w =
     rbind (fold_r (periodic_core t (t - m_last_periodic (snd w))) (app_core_ids (snd w)) w) (\<lambda>w1.
     Inr (fst w1, (snd w1)\<lparr> m_last_periodic := t \<rparr>))"

definition hook_periodic :: "time \<Rightarrow> sched_sys \<Rightarrow> sched_sys res" where
  "hook_periodic t w =
     rbind (periodic t (fst w, (snd w)\<lparr> m_in_periodic := True \<rparr>)) (\<lambda>w1.
     Inr (fst w1, (snd w1)\<lparr> m_in_periodic := False \<rparr>))"

section \<open>The static scheduler\<close>

fun find_idle_core :: "core_id list \<Rightarrow> bool list \<Rightarrow> thread_manager \<Rightarrow> core_id res" where
  "find_idle_core [] cpus tm = Inr INVALID_CORE_ID"
| "find_idle_core (c # cs) cpus tm =
     rbind (at_id cpus c) (\<lambda>allowed.
     rbind (if allowed then rbind (at_id (m_cores tm) c) (\<lambda>x. Inr (m_core_state x = IDLE)) else Inr False) (\<lambda>free.
     if free then Inr c else find_idle_core cs cpus tm))"

definition findFirstFreeMaskedCore :: "nat \<Rightarrow> bool list \<Rightarrow> thread_manager \<Rightarrow> core_id res" where
  "findFirstFreeMaskedCore cores cpus tm = find_idle_core (map int [0..<cores]) cpus tm"

definition threadCreate_static :: "nat \<Rightarrow> bool list \<Rightarrow> thread_manager \<Rightarrow> core_id res" where
  "threadCreate_static cores cpus tm =
     rbind (findFirstFreeMaskedCore cores cpus tm) (\<lambda>core_id.
     if core_id = INVALID_CORE_ID then Inl Assert_Failed else Inr core_id)"

section \<open>Thread manager and scheduler together\<close>

definition sys_create :: "int \<Rightarrow> thread_id \<Rightarrow> sched_sys \<Rightarrow> sched_sys res" where
  "sys_create app_id creator w =
     rbind (threadCreate (int (getNumThreads (fst w))) (snd w)) (\<lambda>(core_id, s1).
     rbind (createThread_unlocked core_id app_id creator (fst w)) (\<lambda>(_, tm1). Inr (tm1, s1)))"

definition sys_start :: "thread_id \<Rightarrow> time \<Rightarrow> sched_sys \<Rightarrow> sched_sys res" where
  "sys_start thread_id t w =
     rbind (onThreadStart_begin thread_id t (fst w)) (\<lambda>tm1.
     rbind (hook_thread_start thread_id t (tm1, snd w)) (\<lambda>w2.
     rbind (onThreadStart_end thread_id t (fst w2)) (\<lambda>tm3. Inr (tm3, snd w2))))"

definition sys_stall :: "thread_id \<Rightarrow> stall_type_t \<Rightarrow> time \<Rightarrow> sched_sys \<Rightarrow> sched_sys res" where
  "sys_stall thread_id reason t w =
     rbind (stallThread_async thread_id reason t (fst w)) (\<lambda>tm1. hook_thread_stall thread_id reason t (tm1, snd w))"

definition sys_resume :: "thread_id \<Rightarrow> thread_id \<Rightarrow> time \<Rightarrow> bool \<Rightarrow> sched_sys \<Rightarrow> sched_sys res" where
  "sys_resume thread_id thread_by t msg w =
     rbind (resumeThread thread_id thread_by t msg (fst w)) (\<lambda>tm1.
     hook_thread_resume reschedule_now thread_id t (tm1, snd w))"

text \<open>The exit of a thread resumes the thread that joins it and, through the futex on its identity, the threads \<open>woken\<close>.\<close>

definition sys_wakeUpWaiter :: "thread_id \<Rightarrow> time \<Rightarrow> sched_sys \<Rightarrow> sched_sys res" where
  "sys_wakeUpWaiter thread_id t w =
     rbind (at_id (m_thread_state (fst w)) thread_id) (\<lambda>s.
     if waiter s \<noteq> INVALID_THREAD_ID then
       rbind (sys_resume (waiter s) thread_id t False w) (\<lambda>w1.
       rbind (upd_state thread_id (\<lambda>s. s\<lparr> waiter := INVALID_THREAD_ID \<rparr>) (fst w1)) (\<lambda>tm2. Inr (tm2, snd w1)))
     else Inr w)"

definition sys_exit :: "thread_id list \<Rightarrow> thread_id \<Rightarrow> sched_sys \<Rightarrow> sched_sys res" where
  "sys_exit woken thread_id w =
     rbind (onThreadExit_begin thread_id (fst w)) (\<lambda>(th, c, tm1).
     rbind (sys_wakeUpWaiter thread_id (elapsed_time c) (tm1, snd w)) (\<lambda>w2.
     rbind (fold_r (\<lambda>u. sys_resume u thread_id (elapsed_time c) True) woken w2) (\<lambda>w3.
     rbind (onThreadExit_end thread_id th c (fst w3)) (\<lambda>tm5.
     hook_thread_exit thread_id (elapsed_time c) (tm5, snd w3)))))"

text \<open>The part of a join before the caller waits; \<open>stallThread\<close> with its callback.\<close>

definition sys_join :: "thread_id \<Rightarrow> thread_id \<Rightarrow> sched_sys \<Rightarrow> sched_sys res" where
  "sys_join thread_id join_thread_id w =
     rbind (getThreadFromID thread_id (fst w)) (\<lambda>th.
     rbind (at_id (m_thread_state (fst w)) join_thread_id) (\<lambda>st.
     if status st = IDLE then Inr w
     else if m_core th = INVALID_CORE_ID then Inl Null_Deref
     else
       rbind (at_id (m_cores (fst w)) (m_core th)) (\<lambda>c.
       if waiter st \<noteq> INVALID_THREAD_ID then Inl Assert_Failed
       else
         rbind (upd_state join_thread_id (\<lambda>st. st\<lparr> waiter := thread_id \<rparr>) (fst w)) (\<lambda>tm1.
         sys_stall thread_id STALL_JOIN (elapsed_time c) (tm1, snd w)))))"

definition sys_waitForThreadStart :: "thread_id \<Rightarrow> thread_id \<Rightarrow> sched_sys \<Rightarrow> sched_sys res" where
  "sys_waitForThreadStart thread_id wait_thread_id w =
     rbind (waitForThreadStart thread_id wait_thread_id (fst w)) (\<lambda>(_, tm1). Inr (tm1, snd w))"

end
