(* ===== verification/Sched_Inv.thy ===== *)
theory Sched_Inv
  imports Scheduler
begin

text \<open>
  The invariant of the scheduler and the thread manager: a core runs at most one thread, a thread is on at most one
  core, and both sides agree on it; and that rescheduling, with the nested calls it makes, keeps it and
  never fails.
\<close>

section \<open>Access by number\<close>

lemma at_id_int [simp]: "at_id xs (int k) = (if k < length xs then Inr (xs ! k) else Inl Out_Of_Bounds)"
  by (simp add: at_id_def)

lemma upd_id_int [simp]: "upd_id (int k) f xs = (if k < length xs then Inr (xs[k := f (xs ! k)]) else Inl Out_Of_Bounds)"
  by (simp add: upd_id_def)

lemma int_not_invalid [simp]:
  "int k \<noteq> INVALID_THREAD_ID" "INVALID_THREAD_ID \<noteq> int k" "int k \<noteq> INVALID_CORE_ID" "INVALID_CORE_ID \<noteq> int k"
  by (simp_all add: INVALID_THREAD_ID_def INVALID_CORE_ID_def)

lemma getThreadFromID_int [simp]: "k < length (m_threads tm) \<Longrightarrow> getThreadFromID (int k) tm = Inr (m_threads tm ! k)"
  by (simp add: getThreadFromID_def)

section \<open>The invariant\<close>

abbreviation running_on :: "scheduler \<Rightarrow> nat \<Rightarrow> thread_id" where
  "running_on s c \<equiv> m_core_thread_running s ! c"

abbreviation core_of :: "scheduler \<Rightarrow> nat \<Rightarrow> core_id" where
  "core_of s t \<equiv> m_core_running (m_thread_info s ! t)"

definition sched_shape :: "sched_sys \<Rightarrow> bool" where
  "sched_shape w \<longleftrightarrow> (let tm = fst w; s = snd w in
     length (m_cores tm) = app_cores s \<and> length (m_core_thread_running s) = app_cores s \<and>
     length (m_quantum_left s) = app_cores s \<and> list_all (\<lambda>i. length (m_core_affinity i) = app_cores s) (m_thread_info s) \<and>
     length (m_thread_state tm) = length (m_threads tm) \<and> length (m_threads tm) \<le> length (m_thread_info s) \<and>
     (m_threads tm \<noteq> [] \<longrightarrow> length (m_threads_runnable s) \<le> length (m_thread_info s)))"

definition placed :: "nat \<Rightarrow> scheduler \<Rightarrow> bool" where
  "placed n s \<longleftrightarrow>
     (\<forall>c < app_cores s. running_on s c = INVALID_THREAD_ID \<or> (\<exists>t < n. running_on s c = int t \<and> core_of s t = int c)) \<and>
     (\<forall>t < length (m_thread_info s). core_of s t = INVALID_CORE_ID \<or>
        (\<exists>c < app_cores s. core_of s t = int c \<and> running_on s c = int t))"

text \<open>The cores in \<open>X\<close> have been given to a thread by the scheduler, but not yet by the thread manager.\<close>

definition agree :: "nat set \<Rightarrow> sched_sys \<Rightarrow> bool" where
  "agree X w \<longleftrightarrow> (let tm = fst w; s = snd w in
     (\<forall>c < app_cores s. core_thread (m_cores tm ! c) = (if c \<in> X then INVALID_THREAD_ID else running_on s c)) \<and>
     (\<forall>t < length (m_threads tm). m_core (m_threads tm ! t) =
        (if core_of s t \<in> int ` X then INVALID_CORE_ID else core_of s t)))"

definition started :: "sched_sys \<Rightarrow> nat \<Rightarrow> bool" where
  "started w t \<longleftrightarrow> t < length (m_threads (fst w)) \<and> t < length (m_threads_runnable (snd w))"

definition waiters_ok :: "sched_sys \<Rightarrow> bool" where
  "waiters_ok w \<longleftrightarrow> (\<forall>t < length (m_threads (fst w)). waiter (m_thread_state (fst w) ! t) = INVALID_THREAD_ID \<or>
     (\<exists>u. waiter (m_thread_state (fst w) ! t) = int u \<and> started w u))"

definition runnable_ok :: "sched_sys \<Rightarrow> bool" where
  "runnable_ok w \<longleftrightarrow> (\<forall>t < length (m_threads_runnable (snd w)). m_threads_runnable (snd w) ! t \<longrightarrow> t < length (m_threads (fst w)))"

definition sched_inv :: "nat set \<Rightarrow> sched_sys \<Rightarrow> bool" where
  "sched_inv X w \<longleftrightarrow> sched_shape w \<and> placed (length (m_threads (fst w))) (snd w) \<and> agree X w \<and> waiters_ok w \<and>
     runnable_ok w \<and> (\<forall>c \<in> X. c < app_cores (snd w) \<and> running_on (snd w) c \<noteq> INVALID_THREAD_ID)"

text \<open>What a rescheduling of the cores \<open>C\<close> leaves alone: sizes, the other cores that are occupied, and that a
  thread has left its start behind.\<close>

definition config_of :: "scheduler \<Rightarrow> scheduler_type \<times> int \<times> bool list \<times> core_id" where
  "config_of s = (sched_type s, m_interleaving s, m_core_mask s, m_next_core s)"

definition frame :: "nat set \<Rightarrow> sched_sys \<Rightarrow> sched_sys \<Rightarrow> bool" where
  "frame C w w' \<longleftrightarrow> config_of (snd w') = config_of (snd w) \<and> app_cores (snd w') = app_cores (snd w) \<and> length (m_threads (fst w')) = length (m_threads (fst w)) \<and>
     length (m_threads_runnable (snd w')) = length (m_threads_runnable (snd w)) \<and>
     length (m_thread_info (snd w')) = length (m_thread_info (snd w)) \<and>
     (\<forall>d < app_cores (snd w). d \<notin> C \<longrightarrow> running_on (snd w) d \<noteq> INVALID_THREAD_ID \<longrightarrow> running_on (snd w') d = running_on (snd w) d) \<and>
     (\<forall>t < length (m_threads (fst w)). status (m_thread_state (fst w') ! t) = INITIALIZING \<longrightarrow>
        status (m_thread_state (fst w) ! t) = INITIALIZING)"

definition free_cores :: "scheduler \<Rightarrow> nat" where
  "free_cores s = length (filter (\<lambda>r. r = INVALID_THREAD_ID) (m_core_thread_running s))"

lemma frame_refl: "frame C w w"
  by (simp add: frame_def)

lemma frame_trans: "frame C w1 w2 \<Longrightarrow> frame C w2 w3 \<Longrightarrow> frame C w1 w3"
  by (simp add: frame_def)

lemma frame_mono: "frame C w w' \<Longrightarrow> C \<subseteq> D \<Longrightarrow> frame D w w'"
  by (auto simp: frame_def)

text \<open>A core that was free is not occupied, so nothing is promised about it.\<close>

lemma frame_free:
  assumes "frame {c} w w'" "running_on (snd w) c = INVALID_THREAD_ID"
  shows "frame {} w w'"
proof -
  have "running_on (snd w') d = running_on (snd w) d"
    if "d < app_cores (snd w)" "running_on (snd w) d \<noteq> INVALID_THREAD_ID" for d
    using assms that by (cases "d = c") (simp_all add: frame_def)
  then show ?thesis using assms(1) by (simp add: frame_def)
qed

lemma frame_fewer_free:
  assumes "frame {} w w'" "length (m_core_thread_running (snd w)) = app_cores (snd w)"
    "length (m_core_thread_running (snd w')) = app_cores (snd w')"
  shows "free_cores (snd w') \<le> free_cores (snd w)"
proof -
  have "{i. i < app_cores (snd w) \<and> running_on (snd w') i = INVALID_THREAD_ID} \<subseteq>
    {i. i < app_cores (snd w) \<and> running_on (snd w) i = INVALID_THREAD_ID}"
    using assms(1) by (auto simp: frame_def)
  then have "card {i. i < app_cores (snd w) \<and> running_on (snd w') i = INVALID_THREAD_ID} \<le>
    card {i. i < app_cores (snd w) \<and> running_on (snd w) i = INVALID_THREAD_ID}" by (rule card_mono [rotated]) simp
  then show ?thesis using assms by (simp add: free_cores_def length_filter_conv_card frame_def)
qed

section \<open>Parts of the invariant\<close>

lemma sched_inv_shape:
  assumes "sched_inv X (tm, s)"
  shows "length (m_cores tm) = app_cores s" "length (m_core_thread_running s) = app_cores s"
    "length (m_quantum_left s) = app_cores s" "length (m_thread_state tm) = length (m_threads tm)"
    "length (m_threads tm) \<le> length (m_thread_info s)"
    "t < length (m_thread_info s) \<Longrightarrow> length (m_core_affinity (m_thread_info s ! t)) = app_cores s"
    "m_threads tm \<noteq> [] \<Longrightarrow> length (m_threads_runnable s) \<le> length (m_thread_info s)"
  using assms by (simp_all add: sched_inv_def sched_shape_def list_all_length)

lemma sched_inv_core:
  assumes "sched_inv X (tm, s)" "c < app_cores s" "running_on s c \<noteq> INVALID_THREAD_ID"
  obtains t where "t < length (m_threads tm)" "running_on s c = int t" "core_of s t = int c"
  using assms by (auto simp: sched_inv_def placed_def)

lemma sched_inv_thread:
  assumes "sched_inv X (tm, s)" "t < length (m_thread_info s)" "core_of s t \<noteq> INVALID_CORE_ID"
  obtains c where "c < app_cores s" "core_of s t = int c" "running_on s c = int t"
  using assms by (auto simp: sched_inv_def placed_def)

lemma sched_inv_cong:
  assumes "sched_inv X (tm, s)" "app_cores s' = app_cores s" "m_thread_info s' = m_thread_info s"
    "m_core_thread_running s' = m_core_thread_running s" "length (m_quantum_left s') = length (m_quantum_left s)"
    "m_threads_runnable s' = m_threads_runnable s"
    "map core_thread (m_cores tm') = map core_thread (m_cores tm)" "map m_core (m_threads tm') = map m_core (m_threads tm)"
    "map waiter (m_thread_state tm') = map waiter (m_thread_state tm)"
  shows "sched_inv X (tm', s')"
proof -
  have l: "length (m_cores tm') = length (m_cores tm)" "length (m_threads tm') = length (m_threads tm)"
    "length (m_thread_state tm') = length (m_thread_state tm)" using assms(7-9) map_eq_imp_length_eq by blast+
  have n: "core_thread (m_cores tm' ! c) = core_thread (m_cores tm ! c)" if "c < length (m_cores tm)" for c
    using arg_cong [OF assms(7), of "\<lambda>l. l ! c"] that l by simp
  have m: "m_core (m_threads tm' ! t) = m_core (m_threads tm ! t)" if "t < length (m_threads tm)" for t
    using arg_cong [OF assms(8), of "\<lambda>l. l ! t"] that l by simp
  have v: "waiter (m_thread_state tm' ! t) = waiter (m_thread_state tm ! t)" if "t < length (m_thread_state tm)" for t
    using arg_cong [OF assms(9), of "\<lambda>l. l ! t"] that l by simp
  have "m_threads tm' = [] \<longleftrightarrow> m_threads tm = []" using l(2) by (metis length_0_conv)
  then show ?thesis using assms(1-6) l n m v
    by (simp add: sched_inv_def sched_shape_def placed_def agree_def waiters_ok_def runnable_ok_def started_def)
qed

lemma set_runnable_ok:
  assumes "sched_inv X (tm, s)" "started (tm, s) t"
  shows "set_runnable (int t) b s = Inr (s\<lparr> m_threads_runnable := (m_threads_runnable s)[t := b] \<rparr>)"
    and "sched_inv X (tm, s\<lparr> m_threads_runnable := (m_threads_runnable s)[t := b] \<rparr>)"
proof -
  show "set_runnable (int t) b s = Inr (s\<lparr> m_threads_runnable := (m_threads_runnable s)[t := b] \<rparr>)"
    using assms(2) by (simp add: set_runnable_def started_def)
  show "sched_inv X (tm, s\<lparr> m_threads_runnable := (m_threads_runnable s)[t := b] \<rparr>)"
    using assms by (auto simp: sched_inv_def sched_shape_def placed_def agree_def waiters_ok_def runnable_ok_def started_def nth_list_update)
qed

lemma set_quantum_ok:
  assumes "sched_inv X (tm, s)" "c < app_cores s"
  shows "set_quantum_left (int c) q s = Inr (s\<lparr> m_quantum_left := (m_quantum_left s)[c := q] \<rparr>)"
    and "sched_inv X (tm, s\<lparr> m_quantum_left := (m_quantum_left s)[c := q] \<rparr>)"
    and "frame C (tm, s) (tm, s\<lparr> m_quantum_left := (m_quantum_left s)[c := q] \<rparr>)"
  using sched_inv_shape [OF assms(1)] assms(2) sched_inv_cong [OF assms(1)] by (simp_all add: set_quantum_left_def frame_def config_of_def)

section \<open>Searching\<close>

lemma find_free_core_ok:
  assumes "length (m_core_thread_running s) = app_cores s" "length (m_core_affinity i) = app_cores s" "\<forall>c \<in> set cs. c < app_cores s"
  shows "\<exists>r. find_free_core (map int cs) i s = Inr r \<and>
    (r = INVALID_CORE_ID \<and> (\<forall>c \<in> set cs. \<not> (m_core_affinity i ! c \<and> running_on s c = INVALID_THREAD_ID)) \<or>
     (\<exists>c \<in> set cs. r = int c \<and> m_core_affinity i ! c \<and> running_on s c = INVALID_THREAD_ID))"
  using assms(3)
proof (induction cs)
  case (Cons c cs)
  then show ?case using assms(1,2) by (auto simp: hasAffinity_def)
qed simp

lemma findFreeCore_ok:
  assumes "sched_inv X (tm, s)" "t < length (m_thread_info s)"
  obtains "findFreeCoreForThread (int t) s = Inr INVALID_CORE_ID"
      "\<And>c. c < app_cores s \<Longrightarrow> m_core_affinity (m_thread_info s ! t) ! c \<Longrightarrow> running_on s c \<noteq> INVALID_THREAD_ID"
  | c where "findFreeCoreForThread (int t) s = Inr (int c)" "c < app_cores s" "running_on s c = INVALID_THREAD_ID"
      "m_core_affinity (m_thread_info s ! t) ! c"
proof -
  note sh = sched_inv_shape [OF assms(1)]
  have "\<exists>r. find_free_core (app_core_ids s) (m_thread_info s ! t) s = Inr r \<and>
    (r = INVALID_CORE_ID \<and> (\<forall>c \<in> set [0..<app_cores s]. \<not> (m_core_affinity (m_thread_info s ! t) ! c \<and> running_on s c = INVALID_THREAD_ID)) \<or>
     (\<exists>c \<in> set [0..<app_cores s]. r = int c \<and> m_core_affinity (m_thread_info s ! t) ! c \<and> running_on s c = INVALID_THREAD_ID))"
    unfolding app_core_ids_def by (rule find_free_core_ok) (use sh(2) sh(6) [OF assms(2)] in auto)
  then show thesis using that assms(2) by (cases "app_cores s = 0") (auto simp: findFreeCoreForThread_def)
qed

section \<open>The choice of a thread\<close>

definition can_run :: "scheduler \<Rightarrow> nat \<Rightarrow> nat \<Rightarrow> bool" where
  "can_run s c t \<longleftrightarrow> m_core_affinity (m_thread_info s ! t) ! c \<and> m_threads_runnable s ! t \<and>
     (core_of s t = INVALID_CORE_ID \<or> core_of s t = int c)"

lemma eligible_ok:
  assumes "t < length (m_thread_info s)" "t < length (m_threads_runnable s)" "c < length (m_core_affinity (m_thread_info s ! t))"
  shows "eligible (int c) s (int t) = Inr (can_run s c t)"
  using assms by (auto simp: eligible_def hasAffinity_def can_run_def isRunning_def)

text \<open>The score is a difference of picoseconds that never wraps.\<close>

lemma sint_diff:
  assumes "uint a < 2 ^ 62" "uint b < 2 ^ 62"
  shows "sint (a - b :: u64) = uint a - uint b"
proof -
  have small: "signed_take_bit 63 k = k" if "- (2 ^ 62) < k" "k < 2 ^ 62" for k :: int
    by (rule signed_take_bit_int_eq_self) (use that in simp_all)
  have nonneg: "0 \<le> uint a" "0 \<le> uint b" by simp_all
  have "sint a = uint a" "sint b = uint b"
    using small [of "uint a"] small [of "uint b"] assms nonneg by (simp_all add: sint_uint)
  then have "sint (a - b) = signed_take_bit 63 (uint a - uint b)" by (simp add: sint_word_ariths)
  also have "\<dots> = uint a - uint b" by (rule small) (use assms nonneg in linarith)+
  finally show ?thesis .
qed

lemma getPS_bound: "uint (getPS t) < 2 ^ 62"
  using uint_bounded [of t] by (simp add: getPS_def uint_div)

lemma score_eq:
  "score t i = (if isRunning i then uint (getPS (m_last_scheduled_in i)) - uint (getPS t)
     else uint (getPS t) - uint (getPS (m_last_scheduled_out i)))"
  using sint_diff [OF getPS_bound getPS_bound] by (simp add: score_def)

lemma score_min: "INT64_MIN < score t i"
proof -
  have "0 \<le> uint (getPS u) \<and> uint (getPS u) < 2 ^ 62" for u using getPS_bound [of u] by simp
  then have "- (2 ^ 62) < score t i" unfolding score_eq by (smt (verit))
  then show ?thesis by (simp add: INT64_MIN_def)
qed

lemma choose_loop_ok:
  assumes "n \<le> length (m_thread_info s)" "n \<le> length (m_threads_runnable s)"
    "\<And>t. t < n \<Longrightarrow> c < length (m_core_affinity (m_thread_info s ! t))"
  shows "\<exists>r. choose_loop (map int [k..<n]) tau (int c) s new mx = Inr r \<and>
    (r = new \<and> (\<forall>t \<in> {k..<n}. can_run s c t \<longrightarrow> score tau (m_thread_info s ! t) \<le> mx) \<or>
     (\<exists>t \<in> {k..<n}. r = int t \<and> can_run s c t \<and> mx < score tau (m_thread_info s ! t) \<and>
       (\<forall>u \<in> {k..<n}. can_run s c u \<longrightarrow> score tau (m_thread_info s ! u) \<le> score tau (m_thread_info s ! t) \<and>
          (u < t \<longrightarrow> score tau (m_thread_info s ! u) < score tau (m_thread_info s ! t)))))"
proof (induction "n - k" arbitrary: k new mx)
  case (Suc m)
  then have k: "k < n" and m: "m = n - Suc k" by simp_all
  have split: "{k..<n} = insert k {Suc k..<n}" "[k..<n] = k # [Suc k..<n]" using k by (auto simp: upt_rec)
  have e: "eligible (int c) s (int k) = Inr (can_run s c k)" using eligible_ok assms k by simp
  have i: "at_id (m_thread_info s) (int k) = Inr (m_thread_info s ! k)" using assms(1) k by simp
  let ?sc = "\<lambda>t. score tau (m_thread_info s ! t)"
  show ?case
  proof (cases "can_run s c k \<and> mx < ?sc k")
    case True
    from Suc.hyps(1) [OF m, of "int k" "?sc k"] show ?thesis
      using True e i unfolding split by (auto simp: less_imp_le)
  next
    case False
    from Suc.hyps(1) [OF m, of new mx] show ?thesis
      using False e i unfolding split by (auto simp: less_imp_le)
  qed
qed simp

text \<open>The thread chosen for a core has the greatest score of those that can run there, and the least number among
  those with that score.\<close>

definition chosen :: "time \<Rightarrow> nat \<Rightarrow> scheduler \<Rightarrow> thread_id \<Rightarrow> bool" where
  "chosen tau c s new \<longleftrightarrow>
     new = INVALID_THREAD_ID \<and> (\<forall>t < length (m_threads_runnable s). \<not> can_run s c t) \<or>
     (\<exists>t < length (m_threads_runnable s). new = int t \<and> can_run s c t \<and>
       (\<forall>u < length (m_threads_runnable s). can_run s c u \<longrightarrow>
          score tau (m_thread_info s ! u) \<le> score tau (m_thread_info s ! t) \<and>
          (u < t \<longrightarrow> score tau (m_thread_info s ! u) < score tau (m_thread_info s ! t))))"

lemma choose_thread_ok:
  assumes "sched_inv X (tm, s)" "m_threads tm \<noteq> []" "c < app_cores s"
  shows "\<exists>new. choose_thread tau (int c) s = Inr new \<and> chosen tau c s new"
proof -
  note sh = sched_inv_shape [OF assms(1)]
  have "c < length (m_core_affinity (m_thread_info s ! t))" if "t < length (m_threads_runnable s)" for t
    using that sh(7) [OF assms(2)] sh(6) [of t] assms(3) by simp
  from choose_loop_ok [OF sh(7) [OF assms(2)] order_refl this, of 0 tau INVALID_THREAD_ID INT64_MIN]
  show ?thesis unfolding choose_thread_def chosen_def
    using score_min by (fastforce simp: not_less [symmetric])
qed

end
