(* ===== verification/Sched_Moves.thy ===== *)
theory Sched_Moves
  imports Sched_Inv
begin

text \<open>
  Rescheduling keeps the invariant, for every core and whatever nested calls it makes, and the fuel it has is enough.
\<close>

section \<open>Off a core\<close>

lemma move_off_eq:
  assumes t: "t < length (m_threads tm)" and c: "m_core (m_threads tm ! t) = int c \<Longrightarrow> c < length (m_cores tm)"
    "m_core (m_threads tm ! t) = INVALID_CORE_ID \<or> m_core (m_threads tm ! t) = int c"
  shows "sched_moveThread resched (int t) INVALID_CORE_ID tau (tm, s) = Inr (callHooks (HOOK_THREAD_MIGRATE (int t) INVALID_CORE_ID tau)
    (tm\<lparr> m_cores := if m_core (m_threads tm ! t) = INVALID_CORE_ID then m_cores tm
             else (m_cores tm)[c := (m_cores tm ! c)\<lparr> m_core_state := IDLE, core_thread := INVALID_THREAD_ID \<rparr>],
         m_threads := (m_threads tm)[t := (m_threads tm ! t)\<lparr> m_core := INVALID_CORE_ID \<rparr>] \<rparr>), s)"
proof (cases "m_core (m_threads tm ! t) = INVALID_CORE_ID")
  case True
  then show ?thesis using t
    by (simp add: sched_moveThread_def moveThread_begin_def moveThread_end_def setCore_def upd_thread_def)
next
  case False
  then have m: "m_core (m_threads tm ! t) = int c" "c < length (m_cores tm)" using c by auto
  show ?thesis using t m
    by (simp add: sched_moveThread_def moveThread_begin_def moveThread_end_def setCore_def upd_thread_def core_setState_def
        upd_core_def)
qed

lemma int_image [simp]: "int c \<in> int ` X \<longleftrightarrow> c \<in> X" "INVALID_CORE_ID \<notin> int ` X"
  by auto

lemma sched_inv_m_core:
  assumes "sched_inv X (tm, s)" "t < length (m_threads tm)" "c < app_cores s"
  shows "core_of s t = int c \<Longrightarrow> m_core (m_threads tm ! t) = (if c \<in> X then INVALID_CORE_ID else int c)"
    and "core_of s t = INVALID_CORE_ID \<Longrightarrow> m_core (m_threads tm ! t) = INVALID_CORE_ID"
    and "core_thread (m_cores tm ! c) = (if c \<in> X then INVALID_THREAD_ID else running_on s c)"
proof -
  have "agree X (tm, s)" using assms(1) by (simp add: sched_inv_def)
  then have a: "core_thread (m_cores tm ! c) = (if c \<in> X then INVALID_THREAD_ID else running_on s c)"
    "m_core (m_threads tm ! t) = (if core_of s t \<in> int ` X then INVALID_CORE_ID else core_of s t)"
    using assms(2,3) by (simp_all add: agree_def)
  show "core_thread (m_cores tm ! c) = (if c \<in> X then INVALID_THREAD_ID else running_on s c)" by (rule a(1))
  show "core_of s t = int c \<Longrightarrow> m_core (m_threads tm ! t) = (if c \<in> X then INVALID_CORE_ID else int c)"
    and "core_of s t = INVALID_CORE_ID \<Longrightarrow> m_core (m_threads tm ! t) = INVALID_CORE_ID" using a(2) by simp_all
qed

lemma sched_inv_alone:
  assumes "sched_inv X (tm, s)" "c < app_cores s" "running_on s c = int t" "u < length (m_thread_info s)" "core_of s u = int c"
  shows "u = t"
proof -
  have "core_of s u \<noteq> INVALID_CORE_ID" using assms(5) by simp
  from sched_inv_thread [OF assms(1,4) this] show ?thesis using assms(3,5) by (metis of_nat_eq_iff)
qed

text \<open>A thread leaves its core on both sides; the thread manager may have taken it off before.\<close>

lemma vacate_inv:
  assumes inv: "sched_inv X (tm, s)" and c: "c < app_cores s" "running_on s c = int t" and i: "m_core_running i = INVALID_CORE_ID"
    "length (m_core_affinity i) = app_cores s"
    and tm': "tm' = callHooks h (tm\<lparr> m_cores := if m_core (m_threads tm ! t) = INVALID_CORE_ID then m_cores tm
             else (m_cores tm)[c := (m_cores tm ! c)\<lparr> m_core_state := IDLE, core_thread := INVALID_THREAD_ID \<rparr>],
         m_threads := (m_threads tm)[t := (m_threads tm ! t)\<lparr> m_core := INVALID_CORE_ID \<rparr>] \<rparr>)"
  shows "sched_inv (X - {c}) (tm', s\<lparr> m_thread_info := (m_thread_info s)[t := i],
    m_core_thread_running := (m_core_thread_running s)[c := INVALID_THREAD_ID] \<rparr>)" (is "sched_inv _ (_, ?s2)")
proof -
  note sh = sched_inv_shape [OF inv]
  have t: "t < length (m_threads tm)" "core_of s t = int c"
    using sched_inv_core [OF inv c(1)] c(2) by (metis int_not_invalid(1) of_nat_eq_iff)+
  have ti: "t < length (m_thread_info s)" using t(1) sh(5) by simp
  note m = sched_inv_m_core [OF inv t(1) c(1)] and alone = sched_inv_alone [OF inv c]
  have "sched_shape (tm', ?s2)" using inv i(2) by (simp add: sched_inv_def sched_shape_def tm' callHooks_def list_all_upd)
  moreover have "placed (length (m_threads tm')) ?s2"
  proof -
    have "running_on ?s2 d = INVALID_THREAD_ID \<or> (\<exists>u < length (m_threads tm). running_on ?s2 d = int u \<and> core_of ?s2 u = int d)"
      if d: "d < app_cores s" for d
    proof (cases "d = c \<or> running_on s d = INVALID_THREAD_ID")
      case False
      then obtain u where "u < length (m_threads tm)" "running_on s d = int u" "core_of s u = int d"
        using sched_inv_core [OF inv d] by metis
      moreover from this False t(2) have "u \<noteq> t" by auto
      ultimately show ?thesis using False by (intro disjI2 exI [of _ u]) auto
    qed (use c sh in \<open>auto simp: nth_list_update\<close>)
    moreover have "core_of ?s2 u = INVALID_CORE_ID \<or> (\<exists>d < app_cores s. core_of ?s2 u = int d \<and> running_on ?s2 d = int u)"
      if u: "u < length (m_thread_info s)" for u
    proof (cases "u = t \<or> core_of s u = INVALID_CORE_ID")
      case False
      then obtain d where d: "d < app_cores s" "core_of s u = int d" "running_on s d = int u"
        using sched_inv_thread [OF inv u] by metis
      then have "d \<noteq> c" using alone [OF u] False by auto
      then show ?thesis using False d by (intro disjI2 exI [of _ d]) auto
    qed (use ti i(1) in \<open>auto simp: nth_list_update\<close>)
    ultimately show ?thesis by (simp add: placed_def tm' callHooks_def)
  qed
  moreover have "agree (X - {c}) (tm', ?s2)"
  proof -
    have "core_thread (m_cores tm' ! d) = (if d \<in> X - {c} then INVALID_THREAD_ID else running_on ?s2 d)" if "d < app_cores s" for d
      using sched_inv_m_core(3) [OF inv t(1) that] m(1) [OF t(2)] c(1) sh that by (auto simp: tm' callHooks_def nth_list_update)
    moreover have "m_core (m_threads tm' ! u) = (if core_of ?s2 u \<in> int ` (X - {c}) then INVALID_CORE_ID else core_of ?s2 u)"
      if u: "u < length (m_threads tm)" for u
    proof (cases "u = t")
      case True
      then show ?thesis using t(1) ti i(1) by (auto simp: tm' callHooks_def)
    next
      case False
      then have "core_of s u \<noteq> int c" using alone [of u] u sh(5) by auto
      moreover have "m_core (m_threads tm ! u) = (if core_of s u \<in> int ` X then INVALID_CORE_ID else core_of s u)"
        using inv u by (simp add: sched_inv_def agree_def)
      ultimately show ?thesis using False by (auto simp: tm' callHooks_def)
    qed
    ultimately show ?thesis by (simp add: agree_def tm' callHooks_def)
  qed
  moreover have "waiters_ok (tm', ?s2)" "runnable_ok (tm', ?s2)"
    using inv by (simp_all add: sched_inv_def waiters_ok_def runnable_ok_def started_def tm' callHooks_def)
  ultimately show ?thesis using inv by (auto simp: sched_inv_def)
qed

text \<open>The state after a thread has left its core: the invariant holds once the core counts as free.\<close>

lemma unschedule_ok:
  assumes inv: "sched_inv X (tm, s)" and c: "c < app_cores s" "running_on s c = int t"
  shows "\<exists>tm' i. unschedule resched (int t) (int c) tau (tm, s) = Inr (tm', s\<lparr> m_thread_info := (m_thread_info s)[t := i] \<rparr>) \<and>
    sched_inv (X - {c}) (tm', s\<lparr> m_thread_info := (m_thread_info s)[t := i], m_core_thread_running := (m_core_thread_running s)[c := INVALID_THREAD_ID] \<rparr>) \<and>
    m_thread_state tm' = m_thread_state tm \<and> length (m_threads tm') = length (m_threads tm) \<and>
    i = (m_thread_info s ! t)\<lparr> m_core_running := INVALID_CORE_ID, m_last_scheduled_out := tau + of_nat c * 1000 \<rparr>"
proof -
  note sh = sched_inv_shape [OF inv]
  have t: "t < length (m_threads tm)" "core_of s t = int c"
    using sched_inv_core [OF inv c(1)] c(2) by (metis int_not_invalid(1) of_nat_eq_iff)+
  let ?i = "(m_thread_info s ! t)\<lparr> m_core_running := INVALID_CORE_ID, m_last_scheduled_out := tau + of_nat c * 1000 \<rparr>"
  let ?s1 = "s\<lparr> m_thread_info := (m_thread_info s)[t := ?i] \<rparr>"
  let ?s2 = "?s1\<lparr> m_core_thread_running := (m_core_thread_running s)[c := INVALID_THREAD_ID] \<rparr>"
  note m = sched_inv_m_core [OF inv t(1) c(1)]
  let ?tm = "callHooks (HOOK_THREAD_MIGRATE (int t) INVALID_CORE_ID tau)
    (tm\<lparr> m_cores := if m_core (m_threads tm ! t) = INVALID_CORE_ID then m_cores tm
             else (m_cores tm)[c := (m_cores tm ! c)\<lparr> m_core_state := IDLE, core_thread := INVALID_THREAD_ID \<rparr>],
         m_threads := (m_threads tm)[t := (m_threads tm ! t)\<lparr> m_core := INVALID_CORE_ID \<rparr>] \<rparr>)"
  have ti: "t < length (m_thread_info s)" using t(1) sh(5) by simp
  have "sched_moveThread resched (int t) INVALID_CORE_ID tau (tm, ?s1) = Inr (?tm, ?s1)"
    by (rule move_off_eq [OF t(1)]) (use m(1) [OF t(2)] c(1) sh(1) in auto)
  then have "unschedule resched (int t) (int c) tau (tm, s) = Inr (?tm, ?s1)"
    using ti by (simp add: unschedule_def upd_info_def)
  moreover have "sched_inv (X - {c}) (?tm, ?s2)"
    by (rule vacate_inv [OF inv c _ _ refl]) (use sh(6) [OF ti] in simp_all)
  ultimately show ?thesis by (intro exI [of _ ?tm] exI [of _ ?i]) (simp add: callHooks_def)
qed

section \<open>Onto a core\<close>

lemma sched_inv_busy: "sched_inv X w \<Longrightarrow> running_on (snd w) c = INVALID_THREAD_ID \<Longrightarrow> c \<notin> X"
  by (auto simp: sched_inv_def)

text \<open>The scheduler gives a free core to a thread without one; the thread manager does not know yet.\<close>

lemma assign_inv:
  assumes inv: "sched_inv X (tm, s)" and c: "c < app_cores s" "running_on s c = INVALID_THREAD_ID"
    and t: "t < length (m_threads tm)" "core_of s t = INVALID_CORE_ID"
    and i: "m_core_running i = int c" "length (m_core_affinity i) = app_cores s"
  shows "sched_inv (insert c X) (tm, s\<lparr> m_core_thread_running := (m_core_thread_running s)[c := int t],
    m_thread_info := (m_thread_info s)[t := i] \<rparr>)" (is "sched_inv _ (tm, ?s)")
proof -
  note sh = sched_inv_shape [OF inv]
  have ti: "t < length (m_thread_info s)" using t(1) sh(5) by simp
  have cX: "c \<notin> X" using sched_inv_busy [OF inv] c(2) by simp
  have "sched_shape (tm, ?s)" using inv i(2) by (simp add: sched_inv_def sched_shape_def list_all_upd)
  moreover have "placed (length (m_threads tm)) ?s"
  proof -
    have "running_on ?s d = INVALID_THREAD_ID \<or> (\<exists>u < length (m_threads tm). running_on ?s d = int u \<and> core_of ?s u = int d)"
      if d: "d < app_cores s" for d
    proof (cases "d = c \<or> running_on s d = INVALID_THREAD_ID")
      case False
      then obtain u where "u < length (m_threads tm)" "running_on s d = int u" "core_of s u = int d"
        using sched_inv_core [OF inv d] by metis
      moreover from this t(2) have "u \<noteq> t" by auto
      ultimately show ?thesis using False by (intro disjI2 exI [of _ u]) auto
    qed (use c sh t(1) i(1) ti in \<open>auto simp: nth_list_update\<close>)
    moreover have "core_of ?s u = INVALID_CORE_ID \<or> (\<exists>d < app_cores s. core_of ?s u = int d \<and> running_on ?s d = int u)"
      if u: "u < length (m_thread_info s)" for u
    proof (cases "u = t \<or> core_of s u = INVALID_CORE_ID")
      case False
      then obtain d where d: "d < app_cores s" "core_of s u = int d" "running_on s d = int u"
        using sched_inv_thread [OF inv u] by metis
      then have "d \<noteq> c" using c(2) by auto
      then show ?thesis using False d by (intro disjI2 exI [of _ d]) auto
    qed (use ti c(1) i(1) sh(2) in \<open>auto simp: nth_list_update\<close>)
    ultimately show ?thesis by (simp add: placed_def)
  qed
  moreover have "agree (insert c X) (tm, ?s)"
  proof -
    have "core_thread (m_cores tm ! d) = (if d \<in> insert c X then INVALID_THREAD_ID else running_on ?s d)" if "d < app_cores s" for d
      using sched_inv_m_core(3) [OF inv t(1) that] c(2) cX by (auto simp: nth_list_update)
    moreover have "m_core (m_threads tm ! u) = (if core_of ?s u \<in> int ` insert c X then INVALID_CORE_ID else core_of ?s u)"
      if u: "u < length (m_threads tm)" for u
    proof (cases "u = t")
      case True
      then show ?thesis using sched_inv_m_core(2) [OF inv t(1) c(1) t(2)] i(1) ti by simp
    next
      case False
      have "core_of s u \<noteq> int c"
        using sched_inv_thread [OF inv, of u] c(2) u sh(5) by (metis int_not_invalid(2,3) of_nat_eq_iff order_less_le_trans)
      moreover have "m_core (m_threads tm ! u) = (if core_of s u \<in> int ` X then INVALID_CORE_ID else core_of s u)"
        using inv u by (simp add: sched_inv_def agree_def)
      ultimately show ?thesis using False by auto
    qed
    ultimately show ?thesis by (simp add: agree_def)
  qed
  moreover have "waiters_ok (tm, ?s)" "runnable_ok (tm, ?s)"
    using inv by (simp_all add: sched_inv_def waiters_ok_def runnable_ok_def started_def)
  moreover have "\<forall>d \<in> insert c X. d < app_cores s \<and> running_on ?s d \<noteq> INVALID_THREAD_ID"
    using inv c(1) sh(2) cX by (auto simp: sched_inv_def nth_list_update)
  ultimately show ?thesis by (simp add: sched_inv_def)
qed

text \<open>The thread manager follows.\<close>

lemma set_core_ok:
  assumes inv: "sched_inv (insert c X) (tm, s)" and c: "c \<notin> X" "running_on s c = int t"
  shows "\<exists>tm'. setCore (int t) (int c) tm = Inr tm' \<and> sched_inv X (tm', s) \<and>
    m_thread_state tm' = m_thread_state tm \<and> length (m_threads tm') = length (m_threads tm)"
proof -
  note sh = sched_inv_shape [OF inv]
  have ca: "c < app_cores s" using inv by (simp add: sched_inv_def)
  have t: "t < length (m_threads tm)" "core_of s t = int c"
    using sched_inv_core [OF inv ca] c(2) by (metis int_not_invalid(1) of_nat_eq_iff)+
  note m = sched_inv_m_core [OF inv t(1) ca]
  let ?tm = "tm\<lparr> m_threads := (m_threads tm)[t := (m_threads tm ! t)\<lparr> m_core := int c \<rparr>],
    m_cores := (m_cores tm)[c := (m_cores tm ! c)\<lparr> core_thread := int t \<rparr>] \<rparr>"
  have e: "setCore (int t) (int c) tm = Inr ?tm"
    using t m sh ca by (simp add: setCore_def upd_thread_def upd_core_def)
  have "core_thread (m_cores ?tm ! d) = (if d \<in> X then INVALID_THREAD_ID else running_on s d)" if "d < app_cores s" for d
    using sched_inv_m_core(3) [OF inv t(1) that] c sh ca by (auto simp: nth_list_update)
  moreover have "m_core (m_threads ?tm ! u) = (if core_of s u \<in> int ` X then INVALID_CORE_ID else core_of s u)"
    if u: "u < length (m_threads tm)" for u
  proof (cases "u = t")
    case True
    then show ?thesis using t c(1) by simp
  next
    case False
    then have "core_of s u \<noteq> int c" using sched_inv_alone [OF inv ca c(2), of u] u sh(5) by auto
    moreover have "m_core (m_threads tm ! u) = (if core_of s u \<in> int ` insert c X then INVALID_CORE_ID else core_of s u)"
      using inv u by (simp add: sched_inv_def agree_def)
    ultimately show ?thesis using False by simp
  qed
  ultimately have "agree X (?tm, s)" by (simp add: agree_def)
  then have "sched_inv X (?tm, s)"
    using inv by (simp add: sched_inv_def sched_shape_def waiters_ok_def runnable_ok_def started_def)
  then show ?thesis using e by simp
qed

lemma core_state_inv:
  assumes "sched_inv X (tm, s)" "c < app_cores s"
  shows "\<exists>tm'. core_setState (int c) st tm = Inr tm' \<and> sched_inv X (tm', s) \<and> m_thread_state tm' = m_thread_state tm \<and>
    m_threads tm' = m_threads tm"
proof -
  let ?tm = "tm\<lparr> m_cores := (m_cores tm)[c := (m_cores tm ! c)\<lparr> m_core_state := st \<rparr>] \<rparr>"
  have "core_setState (int c) st tm = Inr ?tm"
    using sched_inv_shape(1) [OF assms(1)] assms(2) by (simp add: core_setState_def upd_core_def)
  moreover have "sched_inv X (?tm, s)"
    by (rule sched_inv_cong [OF assms(1)]) (use sched_inv_shape(1) [OF assms(1)] assms(2) in \<open>simp_all add: map_update_same\<close>)
  ultimately show ?thesis by simp
qed

lemma hooks_inv: "sched_inv X (callHooks h tm, s) \<longleftrightarrow> sched_inv X (tm, s)"
  by (simp add: sched_inv_def sched_shape_def agree_def waiters_ok_def runnable_ok_def started_def callHooks_def)

lemma move_on_ok:
  assumes inv: "sched_inv (insert c X) (tm, s)" and c: "c \<notin> X" "running_on s c = int t"
  shows "\<exists>tm'. moveThread_end (int t) (int c) tau tm = Inr tm' \<and> sched_inv X (tm', s) \<and>
    m_thread_state tm' = m_thread_state tm \<and> length (m_threads tm') = length (m_threads tm)"
proof -
  have ca: "c < app_cores s" using inv by (simp add: sched_inv_def)
  have "t < length (m_threads tm)" using sched_inv_core [OF inv ca] c(2) by (metis int_not_invalid(1) of_nat_eq_iff)
  moreover obtain tm1 where 1: "setCore (int t) (int c) tm = Inr tm1" "sched_inv X (tm1, s)"
    "m_thread_state tm1 = m_thread_state tm" "length (m_threads tm1) = length (m_threads tm)"
    using set_core_ok [OF inv c] by blast
  ultimately show ?thesis
    using core_state_inv [OF 1(2) ca, of RUNNING] hooks_inv sched_inv_shape(4) [OF 1(2)]
    by (auto simp: moveThread_end_def getThreadState_def callHooks_def)
qed

section \<open>Rescheduling\<close>

text \<open>What a rescheduling of a free core promises, for the nested calls.\<close>

definition resched_ok :: "nat \<Rightarrow> (time \<Rightarrow> core_id \<Rightarrow> sched_sys \<Rightarrow> sched_sys res) \<Rightarrow> bool" where
  "resched_ok n resched \<longleftrightarrow> (\<forall>X w c tau. sched_inv X w \<longrightarrow> m_threads (fst w) \<noteq> [] \<longrightarrow> c < app_cores (snd w) \<longrightarrow>
     running_on (snd w) c = INVALID_THREAD_ID \<longrightarrow> free_cores (snd w) \<le> n \<longrightarrow>
     (\<exists>w'. resched tau (int c) w = Inr w' \<and> sched_inv X w' \<and> frame {} w w'))"

lemma hook_resume_ok:
  assumes r: "resched_ok n resched" and inv: "sched_inv X (tm, s)" and t: "started (tm, s) t" and f: "free_cores s \<le> n"
  shows "\<exists>w'. hook_thread_resume resched (int t) tau (tm, s) = Inr w' \<and> sched_inv X w' \<and> frame {} (tm, s) w'"
proof -
  let ?s = "s\<lparr> m_threads_runnable := (m_threads_runnable s)[t := True] \<rparr>"
  note s1 = set_runnable_ok [OF inv t, of True]
  have fr: "frame {} (tm, s) (tm, ?s)" "free_cores ?s = free_cores s" by (simp_all add: frame_def free_cores_def config_of_def)
  have ti: "t < length (m_thread_info ?s)" "m_threads tm \<noteq> []" using t sched_inv_shape(5) [OF inv] by (auto simp: started_def)
  show ?thesis
  proof (cases rule: findFreeCore_ok [OF s1(2) ti(1)])
    case 1
    then show ?thesis using s1 fr by (simp add: hook_thread_resume_def)
  next
    case (2 c)
    then have "\<exists>w'. resched tau (int c) (tm, ?s) = Inr w' \<and> sched_inv X w' \<and> frame {} (tm, ?s) w'"
      using r [unfolded resched_ok_def, rule_format, of X "(tm, ?s)" c tau] s1(2) ti(2) fr(2) f by simp
    then show ?thesis using s1(1) 2(1) frame_trans [OF fr(1)] by (auto simp: hook_thread_resume_def)
  qed
qed

lemma move_begin_ok:
  assumes inv: "sched_inv X (tm, s)" and t: "t < length (m_threads tm)" "m_core (m_threads tm ! t) = INVALID_CORE_ID"
  shows "\<exists>b tm'. moveThread_begin (int t) (int c) tau tm = Inr (b, tm') \<and> sched_inv X (tm', s) \<and> frame {} (tm, s) (tm', s)"
proof -
  note sh = sched_inv_shape [OF inv]
  let ?st = "m_thread_state tm ! t"
  show ?thesis
  proof (cases "status ?st = STALLED \<and> stalled_reason ?st = STALL_UNSCHEDULED")
    case False
    then show ?thesis using t sh(4) inv frame_refl by (auto simp: moveThread_begin_def)
  next
    case True
    let ?tm = "tm\<lparr> m_threads := (m_threads tm)[t := (m_threads tm ! t)\<lparr> m_wakeup_time := tau, m_wakeup_msg := False \<rparr>],
       m_thread_state := (m_thread_state tm)[t := ?st\<lparr> status := RUNNING \<rparr>],
       hooks_called := hooks_called tm @ [HOOK_THREAD_RESUME (int t) INVALID_THREAD_ID tau] \<rparr>"
    have "resumeThread (int t) INVALID_THREAD_ID tau False tm = Inr ?tm"
      using resumeThread_eq [of tm "int t" INVALID_THREAD_ID tau False] t(1) sh(4) by (simp add: tm_ok_def valid_id_def)
    moreover have "sched_inv X (?tm, s)"
      by (rule sched_inv_cong [OF inv]) (use t(1) sh(4) in \<open>simp_all add: map_update_same\<close>)
    moreover have "frame {} (tm, s) (?tm, s)" using t(1) sh(4) by (simp add: frame_def nth_list_update)
    ultimately show ?thesis using True t sh(4) by (intro exI [of _ True] exI [of _ ?tm]) (simp add: moveThread_begin_def)
  qed
qed

lemma free_cores_assign:
  assumes "c < length (m_core_thread_running s)" "running_on s c = INVALID_THREAD_ID"
  shows "Suc (free_cores (s\<lparr> m_core_thread_running := (m_core_thread_running s)[c := int t] \<rparr>)) = free_cores s"
  using length_filter_update [OF assms(1), of "\<lambda>r. r = INVALID_THREAD_ID" "int t"] assms(2) by (simp add: free_cores_def)

lemma schedule_in_ok:
  assumes inv: "sched_inv X (tm, s)" and c: "c < app_cores s" "running_on s c = INVALID_THREAD_ID"
    and t: "started (tm, s) t" "core_of s t = INVALID_CORE_ID" and r: "resched_ok n resched" and f: "free_cores s \<le> Suc n"
  shows "\<exists>w'. schedule_in resched (int t) (int c) tau (tm, s\<lparr> m_core_thread_running := (m_core_thread_running s)[c := int t] \<rparr>) = Inr w' \<and>
    sched_inv X w' \<and> frame {} (tm, s) w' \<and> running_on (snd w') c = int t"
proof -
  note sh = sched_inv_shape [OF inv]
  have tt: "t < length (m_threads tm)" "t < length (m_thread_info s)" using t(1) sh(5) by (auto simp: started_def)
  let ?i = "(m_thread_info s ! t)\<lparr> m_core_running := int c, m_last_scheduled_in := tau \<rparr>"
  let ?s = "s\<lparr> m_core_thread_running := (m_core_thread_running s)[c := int t], m_thread_info := (m_thread_info s)[t := ?i] \<rparr>"
  have cX: "c \<notin> X" using sched_inv_busy [OF inv] c(2) by simp
  have inv1: "sched_inv (insert c X) (tm, ?s)"
    by (rule assign_inv [OF inv c tt(1) t(2)]) (use sh(6) [OF tt(2)] in simp_all)
  have fr1: "frame {} (tm, s) (tm, ?s)" using c(2) by (auto simp: frame_def config_of_def) (metis nth_list_update_neq)
  have f1: "free_cores ?s \<le> n" using free_cores_assign [of c s t] c sh(2) f by (simp add: free_cores_def)
  have m: "m_core (m_threads tm ! t) = INVALID_CORE_ID" using sched_inv_m_core(2) [OF inv tt(1) c(1) t(2)] .
  obtain b tm1 where b: "moveThread_begin (int t) (int c) tau tm = Inr (b, tm1)" "sched_inv (insert c X) (tm1, ?s)"
    "frame {} (tm, ?s) (tm1, ?s)" using move_begin_ok [OF inv1 tt(1) m] by blast
  have st: "started (tm1, ?s) t" using t(1) b(3) by (simp add: started_def frame_def)
  obtain tm2 s2 where h: "(if b then hook_thread_resume resched (int t) tau (tm1, ?s) else Inr (tm1, ?s)) = Inr (tm2, s2)"
    "sched_inv (insert c X) (tm2, s2)" "frame {} (tm1, ?s) (tm2, s2)"
    using hook_resume_ok [OF r b(2) st f1, of tau] b(2) frame_refl [of "{}" "(tm1, ?s)"] by (cases b) auto
  have fr2: "frame {} (tm, s) (tm2, s2)" using frame_trans [OF frame_trans [OF fr1 b(3)] h(3)] .
  have on: "running_on s2 c = int t" using h(3) c(1) sh(2) by (simp add: frame_def)
  obtain tm3 where e: "moveThread_end (int t) (int c) tau tm2 = Inr tm3" "sched_inv X (tm3, s2)"
    "m_thread_state tm3 = m_thread_state tm2" "length (m_threads tm3) = length (m_threads tm2)"
    using move_on_ok [OF h(2) cX on] by blast
  have "frame {} (tm2, s2) (tm3, s2)" using e(3,4) by (simp add: frame_def)
  then have "frame {} (tm, s) (tm3, s2)" using frame_trans [OF fr2] by blast
  moreover have "schedule_in resched (int t) (int c) tau (tm, s\<lparr> m_core_thread_running := (m_core_thread_running s)[c := int t] \<rparr>) = Inr (tm3, s2)"
    using tt(2) t(2) b(1) h(1) e(1) by (cases b) (simp_all add: schedule_in_def isRunning_def upd_info_def sched_moveThread_def)
  ultimately show ?thesis using e(2) on by auto
qed

text \<open>The change of the thread on a core; a core in \<open>X\<close> is left by its thread here.\<close>

lemma switch_ok:
  assumes inv: "sched_inv X (tm, s)" and c: "c < app_cores s" and ch: "chosen tau c s new" "running_on s c \<noteq> new"
    and r: "resched_ok n resched" and f: "free_cores s \<le> (if running_on s c = INVALID_THREAD_ID then Suc n else n)"
  shows "\<exists>w'. rbind (if running_on s c \<noteq> INVALID_THREAD_ID then unschedule resched (running_on s c) (int c) tau (tm, s) else Inr (tm, s)) (\<lambda>w1.
      rbind (set_running (int c) new (snd w1)) (\<lambda>s2.
      if new \<noteq> INVALID_THREAD_ID then schedule_in resched new (int c) tau (fst w1, s2) else Inr (fst w1, s2))) = Inr w' \<and>
    sched_inv (X - {c}) w' \<and> frame {c} (tm, s) w' \<and> running_on (snd w') c = new"
proof -
  note sh = sched_inv_shape [OF inv]
  let ?vac = "\<lambda>s. s\<lparr> m_core_thread_running := (m_core_thread_running s)[c := INVALID_THREAD_ID] \<rparr>"
  obtain tm1 s1 where u: "(if running_on s c \<noteq> INVALID_THREAD_ID then unschedule resched (running_on s c) (int c) tau (tm, s) else Inr (tm, s)) = Inr (tm1, s1)"
    and inv1: "sched_inv (X - {c}) (tm1, ?vac s1)" and st: "m_thread_state tm1 = m_thread_state tm" "length (m_threads tm1) = length (m_threads tm)"
    and s1: "m_core_thread_running s1 = m_core_thread_running s" "app_cores s1 = app_cores s" "m_threads_runnable s1 = m_threads_runnable s"
      "length (m_thread_info s1) = length (m_thread_info s)"
      "\<And>v. int v \<noteq> running_on s c \<Longrightarrow> m_thread_info s1 ! v = m_thread_info s ! v" "config_of s1 = config_of s"
  proof (cases "running_on s c = INVALID_THREAD_ID")
    case True
    then have "?vac s = s" by (simp add: list_update_same_conv c sh(2))
    moreover have "c \<notin> X" using sched_inv_busy [OF inv] True by simp
    ultimately show thesis using that [of tm s] inv True by simp
  next
    case False
    then obtain t where t: "t < length (m_threads tm)" "running_on s c = int t" using sched_inv_core [OF inv c] by metis
    from unschedule_ok [OF inv c t(2), of resched tau] obtain tm' i where
      "unschedule resched (int t) (int c) tau (tm, s) = Inr (tm', s\<lparr> m_thread_info := (m_thread_info s)[t := i] \<rparr>)"
      "sched_inv (X - {c}) (tm', ?vac (s\<lparr> m_thread_info := (m_thread_info s)[t := i] \<rparr>))"
      "m_thread_state tm' = m_thread_state tm" "length (m_threads tm') = length (m_threads tm)" by auto
    then show thesis using that [of tm' "s\<lparr> m_thread_info := (m_thread_info s)[t := i] \<rparr>"] t(2) by (auto simp: config_of_def)
  qed
  have fr1: "frame {c} (tm, s) (tm1, ?vac s1)" using st s1 by (simp add: frame_def config_of_def)
  have f1: "free_cores (?vac s1) \<le> Suc n"
    using length_filter_update [of c "m_core_thread_running s" "\<lambda>r. r = INVALID_THREAD_ID" INVALID_THREAD_ID] f c sh(2)
    by (simp add: free_cores_def s1(1) split: if_splits)
  have sr: "set_running (int c) v s1 = Inr ((?vac s1)\<lparr> m_core_thread_running := (m_core_thread_running (?vac s1))[c := v] \<rparr>)" for v
    using c sh(2) s1 by (simp add: set_running_def)
  show ?thesis
  proof (cases "new = INVALID_THREAD_ID")
    case True
    then show ?thesis using inv1 fr1 u sr c sh(2) s1(1,2) by (simp add: list_update_overwrite)
  next
    case False
    with ch(1) obtain t where t: "t < length (m_threads_runnable s)" "new = int t" "can_run s c t" by (auto simp: chosen_def)
    then have tn: "t < length (m_threads tm)" using inv by (simp add: sched_inv_def runnable_ok_def can_run_def)
    have "core_of s t \<noteq> int c"
    proof
      assume a: "core_of s t = int c"
      then have "running_on s c = int t"
        using sched_inv_thread [OF inv, of t] tn sh(5) by (metis int_not_invalid(3) of_nat_eq_iff order_less_le_trans)
      then show False using ch(2) t(2) by simp
    qed
    then have "core_of (?vac s1) t = INVALID_CORE_ID" using t(3) s1(5) [of t] ch(2) t(2) by (auto simp: can_run_def)
    moreover have "started (tm1, ?vac s1) t" using t(1) tn st s1 by (simp add: started_def)
    ultimately obtain w' where "schedule_in resched (int t) (int c) tau
        (tm1, (?vac s1)\<lparr> m_core_thread_running := (m_core_thread_running (?vac s1))[c := int t] \<rparr>) = Inr w'"
      "sched_inv (X - {c}) w'" "frame {} (tm1, ?vac s1) w'" "running_on (snd w') c = int t"
      using schedule_in_ok [OF inv1 _ _ _ _ r f1, of c t tau] c sh(2) s1 by auto
    then show ?thesis using u sr [of new] t(2) False frame_trans [OF fr1 frame_mono [of "{}"]] by auto
  qed
qed

lemma starting_up_ok:
  assumes "sched_inv X (tm, s)" "c < app_cores s"
  shows "\<exists>b. starting_up (running_on s c) tm = Inr b \<and>
    (b \<longleftrightarrow> (\<exists>t < length (m_threads tm). running_on s c = int t \<and> status (m_thread_state tm ! t) = INITIALIZING))"
proof (cases "running_on s c = INVALID_THREAD_ID")
  case False
  then obtain t where t: "t < length (m_threads tm)" "running_on s c = int t" using sched_inv_core [OF assms] by metis
  then show ?thesis using sched_inv_shape(4) [OF assms(1)] by (auto simp: starting_up_def getThreadState_def)
qed (auto simp: starting_up_def)

text \<open>One rescheduling, given what the nested ones promise. The result names the thread the core runs afterwards.\<close>

lemma reschedule_step:
  assumes inv: "sched_inv X (tm, s)" "m_threads tm \<noteq> []" and c: "c < app_cores s"
    and r: "resched_ok n (reschedule n)" and f: "free_cores s \<le> (if running_on s c = INVALID_THREAD_ID then Suc n else n)"
    and cX: "c \<in> X \<Longrightarrow> starting_up (running_on s c) tm = Inr False \<and> \<not> chosen tau c s (running_on s c)"
  shows "\<exists>w'. reschedule (Suc n) tau (int c) (tm, s) = Inr w' \<and> sched_inv (X - {c}) w' \<and> frame {c} (tm, s) w' \<and>
    (if starting_up (running_on s c) tm = Inr True then w' = (tm, s) else chosen tau c s (running_on (snd w') c))"
proof -
  note sh = sched_inv_shape [OF inv(1)]
  have at: "c < length (m_core_thread_running s)" using c sh(2) by simp
  obtain b where b: "starting_up (running_on s c) tm = Inr b" using starting_up_ok [OF inv(1) c] by blast
  show ?thesis
  proof (cases b)
    case True
    then have "X - {c} = X" using cX b by auto
    then show ?thesis using at b True inv(1) frame_refl by simp
  next
    case False
    obtain new where n: "choose_thread tau (int c) s = Inr new" "chosen tau c s new" using choose_thread_ok [OF inv c] by blast
    show ?thesis
    proof (cases "running_on s c = new")
      case True
      then have X: "X - {c} = X" using cX n(2) by auto
      let ?s = "s\<lparr> m_quantum_left := (m_quantum_left s)[c := m_quantum s] \<rparr>"
      note q = set_quantum_ok [OF inv(1) c, where q = "m_quantum s"]
      have "reschedule (Suc n) tau (int c) (tm, s) = Inr (tm, ?s)" using at b False n(1) True q(1) by simp
      then show ?thesis using q(2,3) X b False n(2) True by auto
    next
      case ne: False
      from switch_ok [OF inv(1) c n(2) ne r f] obtain w1 where
        w1: "rbind (if running_on s c \<noteq> INVALID_THREAD_ID then unschedule (reschedule n) (running_on s c) (int c) tau (tm, s) else Inr (tm, s)) (\<lambda>w1.
          rbind (set_running (int c) new (snd w1)) (\<lambda>s2.
          if new \<noteq> INVALID_THREAD_ID then schedule_in (reschedule n) new (int c) tau (fst w1, s2) else Inr (fst w1, s2))) = Inr w1"
        "sched_inv (X - {c}) w1" "frame {c} (tm, s) w1" "running_on (snd w1) c = new" by blast
      obtain tm1 s1 where p: "w1 = (tm1, s1)" by (cases w1)
      have c1: "c < app_cores s1" using w1(3) c by (simp add: p frame_def)
      let ?s = "s1\<lparr> m_quantum_left := (m_quantum_left s1)[c := m_quantum s1] \<rparr>"
      note q = set_quantum_ok [OF w1(2) [unfolded p] c1, where q = "m_quantum s1"]
      have "reschedule (Suc n) tau (int c) (tm, s) = Inr (tm1, ?s)" using at b False n(1) ne w1(1) q(1) by (simp add: p)
      then show ?thesis using q(2) frame_trans [OF w1(3) [unfolded p] q(3)] w1(4) b False n(2) p by auto
    qed
  qed
qed

declare reschedule.simps(2) [simp del]

text \<open>Every level of nesting occupies a free core, so the fuel is enough.\<close>

lemma reschedule_ok_n: "resched_ok n (reschedule n)"
proof (induction n)
  case 0
  have "0 < free_cores s" if "sched_inv X (tm, s)" "c < app_cores s" "running_on s c = INVALID_THREAD_ID" for X tm s c
    using free_cores_assign [of c s 0] that sched_inv_shape(2) [OF that(1)] by simp
  then show ?case by (fastforce simp: resched_ok_def)
next
  case (Suc n)
  show ?case unfolding resched_ok_def
  proof (intro allI impI)
    fix X w c tau
    assume a: "sched_inv X w" "m_threads (fst w) \<noteq> []" "c < app_cores (snd w)" "running_on (snd w) c = INVALID_THREAD_ID"
      "free_cores (snd w) \<le> Suc n"
    obtain tm s where w: "w = (tm, s)" by (cases w)
    have "c \<notin> X" using sched_inv_busy [OF a(1,4)] .
    then have "\<exists>w'. reschedule (Suc n) tau (int c) (tm, s) = Inr w' \<and> sched_inv (X - {c}) w' \<and> frame {c} (tm, s) w'"
      using reschedule_step [OF _ _ _ Suc.IH, of X tm s c tau] a w by auto
    then show "\<exists>w'. reschedule (Suc n) tau (int c) w = Inr w' \<and> sched_inv X w' \<and> frame {} w w'"
      using \<open>c \<notin> X\<close> frame_free [of c w] a(4) w by auto
  qed
qed

end
