(* ===== verification/Sched_Cores.thy ===== *)
theory Sched_Cores
  imports Sched_Inv
begin

text \<open>
  The order in which the pinned scheduler hands out cores. When the interleaving divides the number of cores the
  next core runs through all of them in a cycle, so the searches end, find an allowed core, and a free one if there is one.
\<close>

section \<open>The cycle\<close>

definition next_core :: "int \<Rightarrow> int \<Rightarrow> int \<Rightarrow> int" where
  "next_core il n c = (if n \<le> c + il then ((c + il) mod n + 1) mod il else c + il)"

text \<open>The place of a core in the cycle: first by its remainder, then by its quotient.\<close>

definition place :: "int \<Rightarrow> int \<Rightarrow> int \<Rightarrow> int" where
  "place il n c = (c mod il) * (n div il) + c div il"

lemma mult_add_less:
  fixes a b x y :: int
  assumes "0 \<le> x" "x < a" "0 \<le> y" "y < b"
  shows "x * b + y < a * b"
proof -
  have "x * b + y < (x + 1) * b" using assms by (simp add: algebra_simps)
  also have "\<dots> \<le> a * b" using assms by (intro mult_right_mono) auto
  finally show ?thesis .
qed

lemma div_bounds:
  fixes c il q :: int
  assumes "0 < il"
  shows "c < q * il \<Longrightarrow> c div il < q" "q * il \<le> c \<Longrightarrow> q \<le> c div il"
proof -
  show "c div il < q" if "c < q * il"
  proof (rule ccontr)
    assume "\<not> c div il < q"
    then have "q * il \<le> c div il * il" using assms by simp
    also have "\<dots> \<le> c" using assms by (simp add: minus_mod_eq_div_mult [symmetric])
    finally show False using that by simp
  qed
  show "q \<le> c div il" if "q * il \<le> c"
    using zdiv_mono1 [OF that assms] assms by simp
qed

definition interleaved :: "int \<Rightarrow> int \<Rightarrow> bool" where
  "interleaved il n \<longleftrightarrow> 0 < il \<and> 0 < n \<and> il dvd n"

lemma interleaved_facts:
  assumes "interleaved il n"
  shows "0 < il" "0 < n" "il \<le> n" "n = il * (n div il)" "0 < n div il"
    and "0 \<le> c \<Longrightarrow> c < n \<Longrightarrow> 0 \<le> c div il \<and> c div il < n div il"
proof -
  show p: "0 < il" "0 < n" and n: "n = il * (n div il)" using assms by (simp_all add: interleaved_def)
  show "il \<le> n" using assms zdvd_imp_le by (simp add: interleaved_def)
  show "0 < n div il" using p n by (metis zero_less_mult_pos)
  show "0 \<le> c div il \<and> c div il < n div il" if "0 \<le> c" "c < n"
  proof -
    have "c < n div il * il" using that n by (simp add: mult.commute)
    then show ?thesis using that p div_bounds(1) by (simp add: pos_imp_zdiv_nonneg_iff)
  qed
qed

lemma place_range:
  assumes i: "interleaved il n" and c: "0 \<le> c" "c < n"
  shows "0 \<le> place il n c" "place il n c < n"
proof -
  note f = interleaved_facts [OF i]
  have "place il n c < il * (n div il)"
    unfolding place_def by (rule mult_add_less) (use f(1) f(6) [OF c] in simp_all)
  then show "place il n c < n" using f(4) by simp
  show "0 \<le> place il n c" unfolding place_def using f(1,5) f(6) [OF c] by simp
qed

lemma place_inj:
  assumes i: "interleaved il n" and c: "0 \<le> c" "c < n" and d: "0 \<le> d" "d < n" and e: "place il n c = place il n d"
  shows "c = d"
proof -
  note f = interleaved_facts [OF i]
  have "c mod il = place il n c div (n div il)" "d mod il = place il n d div (n div il)"
    "c div il = place il n c mod (n div il)" "d div il = place il n d mod (n div il)"
    unfolding place_def using f(5) f(6) [OF c] f(6) [OF d] by simp_all
  then have "c mod il = d mod il" "c div il = d div il" using e by simp_all
  then show ?thesis by (metis mult_div_mod_eq)
qed

lemma next_core_range:
  assumes "interleaved il n" "0 \<le> c" "c < n"
  shows "0 \<le> next_core il n c" "next_core il n c < n"
proof -
  note f = interleaved_facts [OF assms(1)]
  have "((c + il) mod n + 1) mod il < il" "0 \<le> ((c + il) mod n + 1) mod il" using f(1) by simp_all
  then show "0 \<le> next_core il n c" "next_core il n c < n" using assms(2,3) f(1,3) unfolding next_core_def by (smt (verit))+
qed

lemma place_next:
  assumes i: "interleaved il n" and c: "0 \<le> c" "c < n"
  shows "place il n (next_core il n c) = (place il n c + 1) mod n"
proof (cases "n \<le> c + il")
  case False
  note f = interleaved_facts [OF i]
  have "place il n (c + il) = place il n c + 1" using f(1) by (simp add: place_def div_add_self2)
  moreover have "place il n (c + il) < n" using place_range(2) [OF i, of "c + il"] False c f(1) by simp
  ultimately show ?thesis using place_range [OF i c] False by (simp add: next_core_def)
next
  case True
  note f = interleaved_facts [OF i]
  let ?q = "n div il" and ?j = "c mod il"
  have j: "0 \<le> ?j" "?j < il" using f(1) by simp_all
  have "(?q - 1) * il \<le> c" using True f(4) by (simp add: algebra_simps)
  then have "?q - 1 \<le> c div il" using div_bounds(2) [OF f(1)] by blast
  then have d: "c div il = ?q - 1" using f(6) [OF c] by simp
  have "c = il * (?q - 1) + ?j" using d by (metis mult_div_mod_eq)
  then have "c + il = n + ?j" using f(4) by (simp add: algebra_simps)
  then have nx: "next_core il n c = (?j + 1) mod il" using True j f(3) by (simp add: next_core_def)
  have p: "place il n c + 1 = (?j + 1) * ?q" by (simp add: place_def d algebra_simps)
  show ?thesis
  proof (cases "?j + 1 < il")
    case True
    then have "next_core il n c = ?j + 1" using nx j by simp
    then have "place il n (next_core il n c) = (?j + 1) * ?q" using True j by (simp add: place_def)
    moreover have "(?j + 1) * ?q < il * ?q" "0 \<le> (?j + 1) * ?q" using True f(5) j by simp_all
    ultimately show ?thesis using p f(4) by simp
  next
    case False
    then have e: "?j + 1 = il" using j by simp
    then show ?thesis using nx p f(4) by (simp add: place_def)
  qed
qed

lemma iter_range:
  assumes "interleaved il n" "0 \<le> c" "c < n"
  shows "0 \<le> (next_core il n ^^ k) c" "(next_core il n ^^ k) c < n"
  by (induction k) (use assms next_core_range in auto)

lemma place_iter:
  assumes i: "interleaved il n" and c: "0 \<le> c" "c < n"
  shows "place il n ((next_core il n ^^ k) c) = (place il n c + int k) mod n"
proof (induction k)
  case (Suc k)
  have "place il n ((next_core il n ^^ Suc k) c) = ((place il n c + int k) mod n + 1) mod n"
    using place_next [OF i iter_range [OF i c]] Suc by simp
  also have "\<dots> = (place il n c + int k + 1) mod n" by (rule mod_add_left_eq)
  finally show ?case by (simp add: algebra_simps)
qed (use place_range [OF i c] in simp)

lemma iter_back:
  assumes i: "interleaved il n" and c: "0 \<le> c" "c < n"
  shows "(next_core il n ^^ k) c = c \<longleftrightarrow> n dvd int k"
proof -
  have "(next_core il n ^^ k) c = c \<longleftrightarrow> (place il n c + int k) mod n = place il n c"
    using place_inj [OF i iter_range [OF i c] c] place_iter [OF i c] by metis
  also have "\<dots> \<longleftrightarrow> (place il n c + int k) mod n = place il n c mod n" using place_range [OF i c] by simp
  also have "\<dots> \<longleftrightarrow> n dvd int k" by (simp add: mod_eq_dvd_iff)
  finally show ?thesis .
qed

text \<open>Every core is reached in less than one round.\<close>

lemma iter_reach:
  assumes i: "interleaved il n" and c: "0 \<le> c" "c < n" and d: "0 \<le> d" "d < n"
  shows "\<exists>k. int k < n \<and> (next_core il n ^^ k) c = d"
proof -
  let ?k = "nat ((place il n d - place il n c) mod n)"
  have n: "0 < n" using i by (simp add: interleaved_def)
  then have k: "int ?k = (place il n d - place il n c) mod n" by simp
  have "place il n ((next_core il n ^^ ?k) c) = (place il n c + (place il n d - place il n c) mod n) mod n"
    using place_iter [OF i c, of ?k] k by simp
  also have "\<dots> = place il n d" using place_range [OF i d] by (simp add: mod_add_right_eq)
  finally have "(next_core il n ^^ ?k) c = d" using place_inj [OF i iter_range [OF i c, of ?k] d] by blast
  moreover have "int ?k < n" using k n by simp
  ultimately show ?thesis by blast
qed

section \<open>The searches\<close>

definition cores_ok :: "scheduler \<Rightarrow> bool" where
  "cores_ok s \<longleftrightarrow> interleaved (m_interleaving s) (int (app_cores s)) \<and> length (m_core_mask s) = app_cores s \<and>
     length (m_core_thread_running s) = app_cores s"

abbreviation nxt :: "scheduler \<Rightarrow> int \<Rightarrow> int" where
  "nxt s \<equiv> next_core (m_interleaving s) (int (app_cores s))"

abbreviation allowed :: "scheduler \<Rightarrow> int \<Rightarrow> bool" where
  "allowed s c \<equiv> m_core_mask s ! nat c"

definition is_core :: "scheduler \<Rightarrow> int \<Rightarrow> bool" where
  "is_core s c \<longleftrightarrow> 0 \<le> c \<and> c < int (app_cores s)"

lemma is_core_iter: "cores_ok s \<Longrightarrow> is_core s c \<Longrightarrow> is_core s ((nxt s ^^ k) c)"
  using iter_range [of "m_interleaving s" "int (app_cores s)" c k] by (simp add: cores_ok_def is_core_def)

lemma is_core_nxt: "cores_ok s \<Longrightarrow> is_core s c \<Longrightarrow> is_core s (nxt s c)"
  using is_core_iter [of s c 1] by simp

lemma is_core_reach: "cores_ok s \<Longrightarrow> is_core s c \<Longrightarrow> is_core s d \<Longrightarrow> \<exists>k < app_cores s. (nxt s ^^ k) c = d"
  using iter_reach [of "m_interleaving s" "int (app_cores s)" c d] by (auto simp: cores_ok_def is_core_def)

lemma is_core_back: "cores_ok s \<Longrightarrow> is_core s c \<Longrightarrow> (nxt s ^^ k) c = c \<longleftrightarrow> app_cores s dvd k"
  using iter_back [of "m_interleaving s" "int (app_cores s)" c k] by (simp add: cores_ok_def is_core_def)

lemma at_core: "is_core s c \<Longrightarrow> length xs = app_cores s \<Longrightarrow> at_id xs c = Inr (xs ! nat c)"
  by (simp add: is_core_def at_id_def nat_less_iff)

lemma getNextCore_loop_step:
  assumes "cores_ok s" "is_core s c"
  shows "getNextCore_loop (Suc n) c s = (if allowed s (nxt s c) then Inr (nxt s c) else getNextCore_loop n (nxt s c) s)"
proof -
  have "0 < m_interleaving s" "app_cores s \<noteq> 0" "length (m_core_mask s) = app_cores s"
    using assms(1) by (auto simp: cores_ok_def interleaved_def)
  moreover from this have "at_id (m_core_mask s) (nxt s c) = Inr (allowed s (nxt s c))"
    using at_core [OF is_core_nxt [OF assms]] by blast
  moreover have "(if int (app_cores s) \<le> c + m_interleaving s
      then if app_cores s = 0 \<or> m_interleaving s = 0 then Inl Undefined
           else Inr (((c + m_interleaving s) mod int (app_cores s) + 1) mod \<bar>m_interleaving s\<bar>)
      else Inr (c + m_interleaving s)) = Inr (nxt s c)"
    using calculation(1,2) by (simp add: next_core_def)
  ultimately show ?thesis by (simp only: getNextCore_loop.simps Let_def rbind_Inr)
qed

lemma getNextCore_loop_ok:
  assumes "cores_ok s" "is_core s c" "allowed s ((nxt s ^^ k) (nxt s c))" "k < n"
  shows "\<exists>j \<le> k. getNextCore_loop n c s = Inr ((nxt s ^^ j) (nxt s c)) \<and> allowed s ((nxt s ^^ j) (nxt s c)) \<and>
    (\<forall>i < j. \<not> allowed s ((nxt s ^^ i) (nxt s c)))"
  using assms(2-)
proof (induction n arbitrary: c k)
  case (Suc n)
  note step = getNextCore_loop_step [OF assms(1) Suc.prems(1), of n]
  show ?case
  proof (cases "allowed s (nxt s c)")
    case True
    then show ?thesis using step by (intro exI [of _ 0]) simp
  next
    case False
    then obtain k' where k: "k = Suc k'" using Suc.prems(2) by (cases k) auto
    then have "allowed s ((nxt s ^^ k') (nxt s (nxt s c)))" "k' < n" using Suc.prems(2,3) by (simp_all add: funpow_swap1)
    from Suc.IH [OF is_core_nxt [OF assms(1) Suc.prems(1)] this] obtain j where
      j: "j \<le> k'" "getNextCore_loop n (nxt s c) s = Inr ((nxt s ^^ j) (nxt s (nxt s c)))"
      "allowed s ((nxt s ^^ j) (nxt s (nxt s c)))" "\<forall>i < j. \<not> allowed s ((nxt s ^^ i) (nxt s (nxt s c)))" by blast
    have "\<not> allowed s ((nxt s ^^ i) (nxt s c))" if "i < Suc j" for i
      using that False j(4) by (cases i) (simp_all add: funpow_swap1)
    then show ?thesis using step False j k by (intro exI [of _ "Suc j"]) (simp add: funpow_swap1)
  qed
qed simp

text \<open>From the core at place \<open>a\<close> of the round that starts at \<open>f\<close>, the next allowed one.\<close>

lemma getNextCore_ok:
  assumes ok: "cores_ok s" "is_core s f" and a: "a < k" "k \<le> a + app_cores s" "allowed s ((nxt s ^^ k) f)"
  shows "\<exists>b. a < b \<and> b \<le> k \<and> getNextCore ((nxt s ^^ a) f) s = Inr ((nxt s ^^ b) f) \<and> allowed s ((nxt s ^^ b) f) \<and>
    (\<forall>i. a < i \<longrightarrow> i < b \<longrightarrow> \<not> allowed s ((nxt s ^^ i) f))"
proof -
  have e: "(nxt s ^^ j) (nxt s ((nxt s ^^ a) f)) = (nxt s ^^ (a + Suc j)) f" for j
  proof -
    have "a + Suc j = j + Suc a" by simp
    then have "(nxt s ^^ (a + Suc j)) f = (nxt s ^^ j) ((nxt s ^^ Suc a) f)" by (simp only: funpow_add comp_apply)
    then show ?thesis by simp
  qed
  have "allowed s ((nxt s ^^ (k - a - 1)) (nxt s ((nxt s ^^ a) f)))" using a by (simp add: e)
  moreover have "k - a - 1 < app_cores s" using a by simp
  ultimately obtain j where
    j: "j \<le> k - a - 1" "getNextCore ((nxt s ^^ a) f) s = Inr ((nxt s ^^ (a + Suc j)) f)" "allowed s ((nxt s ^^ (a + Suc j)) f)"
    "\<forall>i < j. \<not> allowed s ((nxt s ^^ (a + Suc i)) f)"
    using getNextCore_loop_ok [OF ok(1) is_core_iter [OF ok], where k1 = a and n = "app_cores s"] unfolding getNextCore_def e by blast
  have "\<not> allowed s ((nxt s ^^ i) f)" if "a < i" "i < a + Suc j" for i
    using j(4) [rule_format, of "i - a - 1"] that by simp
  then show ?thesis using j(1-3) a by (intro exI [of _ "a + Suc j"]) auto
qed

definition free_allowed :: "scheduler \<Rightarrow> int \<Rightarrow> bool" where
  "free_allowed s c \<longleftrightarrow> allowed s c \<and> m_core_thread_running s ! nat c = INVALID_THREAD_ID"

lemma getFreeCore_loop_ok:
  assumes ok: "cores_ok s" "is_core s f" "allowed s f"
    and "a < app_cores s" "app_cores s - a \<le> n" "\<forall>i < a. \<not> free_allowed s ((nxt s ^^ i) f)"
  shows "\<exists>c. getFreeCore_loop n f ((nxt s ^^ a) f) s = Inr c \<and> is_core s c \<and> allowed s c \<and>
    (free_allowed s c \<or> (\<forall>i < app_cores s. \<not> free_allowed s ((nxt s ^^ i) f)))"
  using assms(4-)
proof (induction n arbitrary: a)
  case (Suc n)
  let ?c = "(nxt s ^^ a) f" and ?N = "app_cores s"
  have ic: "is_core s ?c" by (rule is_core_iter [OF ok(1,2)])
  have at: "at_id (m_core_thread_running s) ?c = Inr (m_core_thread_running s ! nat ?c)" "at_id (m_core_mask s) ?c = Inr (allowed s ?c)"
    using at_core [OF ic] ok(1) unfolding cores_ok_def by blast+
  show ?case
  proof (cases "free_allowed s ?c")
    case True
    then show ?thesis using at ic by (intro exI [of _ ?c]) (simp add: free_allowed_def)
  next
    case False
    have "(nxt s ^^ ?N) f = f" using is_core_back [OF ok(1,2), of ?N] by simp
    then obtain b where b: "a < b" "b \<le> ?N" "getNextCore ?c s = Inr ((nxt s ^^ b) f)" "allowed s ((nxt s ^^ b) f)"
      "\<forall>i. a < i \<longrightarrow> i < b \<longrightarrow> \<not> allowed s ((nxt s ^^ i) f)"
      using getNextCore_ok [OF ok(1,2), of a ?N] Suc.prems(1) ok(3) by auto
    have none: "\<forall>i < b. \<not> free_allowed s ((nxt s ^^ i) f)"
    proof (intro allI impI)
      fix i assume "i < b"
      then consider "i < a" | "i = a" | "a < i" by linarith
      then show "\<not> free_allowed s ((nxt s ^^ i) f)" using Suc.prems(3) False b(5) \<open>i < b\<close> by cases (auto simp: free_allowed_def)
    qed
    have wrap: "(nxt s ^^ b) f = f \<longleftrightarrow> b = ?N"
      using is_core_back [OF ok(1,2), of b] b(1,2) by (auto dest: dvd_imp_le)
    have loop: "getFreeCore_loop (Suc n) f ?c s = (if b \<noteq> ?N then getFreeCore_loop n f ((nxt s ^^ b) f) s else Inr f)"
      using at b(3) False wrap by (auto simp: free_allowed_def)
    show ?thesis
    proof (cases "b = ?N")
      case True
      then show ?thesis using loop none ok(2,3) by simp
    next
      case ne: False
      then show ?thesis using Suc.IH [of b] loop none b(1,2) Suc.prems(2) by simp
    qed
  qed
qed simp

text \<open>The core for a new thread: an allowed one, free if an allowed core is free.\<close>

lemma getFreeCore_ok:
  assumes ok: "cores_ok s" "is_core s f" "allowed s f"
  shows "\<exists>c. getFreeCore f s = Inr c \<and> is_core s c \<and> allowed s c \<and> (free_allowed s c \<or> (\<forall>d. is_core s d \<longrightarrow> \<not> free_allowed s d))"
proof -
  have "0 < app_cores s" using ok(2) by (simp add: is_core_def)
  from getFreeCore_loop_ok [OF ok, of 0 "app_cores s"] this obtain c where
    "getFreeCore f s = Inr c" "is_core s c" "allowed s c" "free_allowed s c \<or> (\<forall>i < app_cores s. \<not> free_allowed s ((nxt s ^^ i) f))"
    by (auto simp: getFreeCore_def)
  then show ?thesis using is_core_reach [OF ok(1,2)] by metis
qed

lemma getNextCore_allowed:
  assumes ok: "cores_ok s" "is_core s f" "allowed s f"
  shows "\<exists>c. getNextCore f s = Inr c \<and> is_core s c \<and> allowed s c"
proof -
  have "(nxt s ^^ app_cores s) f = f" "0 < app_cores s" using is_core_back [OF ok(1,2), of "app_cores s"] ok(2) by (auto simp: is_core_def)
  then show ?thesis using getNextCore_ok [OF ok(1,2), of 0 "app_cores s"] ok(3) is_core_iter [OF ok(1,2)] by auto
qed

end
