(* ===== verification/Sched_System.thy ===== *)
theory Sched_System
  imports Sched_Moves Sched_Cores
begin

text \<open>
  The scheduler together with the thread manager: every operation of a program succeeds and keeps the invariant.
\<close>

section \<open>The invariant of the system\<close>

text \<open>The two tables grow in steps of sixteen, and the table of runnable threads is never the longer one.\<close>

definition growth_ok :: "scheduler \<Rightarrow> bool" where
  "growth_ok s \<longleftrightarrow> 16 dvd length (m_thread_info s) \<and> 16 dvd length (m_threads_runnable s) \<and>
     length (m_threads_runnable s) \<le> max 16 (length (m_thread_info s))"

text \<open>The configuration of a pinned scheduler: the interleaving divides the number of cores, and the core to start
  from is allowed.\<close>

definition pinned_ok :: "scheduler \<Rightarrow> bool" where
  "pinned_ok s \<longleftrightarrow> length (m_core_mask s) = app_cores s \<and>
     (sched_type s = Sched_Pinned \<longrightarrow> interleaved (m_interleaving s) (int (app_cores s)) \<and> is_core s (m_next_core s) \<and>
        allowed s (m_next_core s))"

definition sys_inv :: "sched_sys \<Rightarrow> bool" where
  "sys_inv w \<longleftrightarrow> sched_inv {} w \<and> growth_ok (snd w) \<and> pinned_ok (snd w)"

lemma frame_static:
  assumes "frame C w w'"
  shows "growth_ok (snd w) \<Longrightarrow> growth_ok (snd w')" "pinned_ok (snd w) \<Longrightarrow> pinned_ok (snd w')"
    "started w t \<Longrightarrow> started w' t" "length (m_threads (fst w')) = length (m_threads (fst w))"
    "m_threads (fst w) \<noteq> [] \<Longrightarrow> m_threads (fst w') \<noteq> []" "app_cores (snd w') = app_cores (snd w)"
proof -
  show n: "length (m_threads (fst w')) = length (m_threads (fst w))" using assms by (simp add: frame_def)
  show "m_threads (fst w') \<noteq> []" if "m_threads (fst w) \<noteq> []" using n that by (metis length_0_conv)
qed (use assms in \<open>auto simp: frame_def growth_ok_def pinned_ok_def started_def config_of_def is_core_def\<close>)

lemma frame_sys_inv: "frame C w w' \<Longrightarrow> sys_inv w \<Longrightarrow> sched_inv {} w' \<Longrightarrow> sys_inv w'"
  by (simp add: sys_inv_def frame_static)

text \<open>An operation that succeeds, keeps the invariant and the sizes.\<close>

definition keeps :: "nat set \<Rightarrow> sched_sys \<Rightarrow> sched_sys res \<Rightarrow> bool" where
  "keeps C w m \<longleftrightarrow> (\<exists>w'. m = Inr w' \<and> sched_inv {} w' \<and> frame C w w')"

lemma keepsI: "m = Inr w' \<Longrightarrow> sched_inv {} w' \<Longrightarrow> frame C w w' \<Longrightarrow> keeps UNIV w m"
  unfolding keeps_def using frame_mono by blast

lemma keeps_mono: "keeps {} w m \<Longrightarrow> keeps C w m"
  unfolding keeps_def using frame_mono by blast

lemma keeps_self: "sched_inv {} w \<Longrightarrow> keeps C w (Inr w)"
  by (simp add: keeps_def frame_refl)

lemma keeps_rbind:
  assumes "keeps C w m" "\<And>w'. m = Inr w' \<Longrightarrow> sched_inv {} w' \<Longrightarrow> frame C w w' \<Longrightarrow> keeps C w' (f w')"
  shows "keeps C w (rbind m f)"
  using assms frame_trans unfolding keeps_def by fastforce

lemma keeps_fold:
  assumes "sched_inv {} w" "\<And>x w'. x \<in> set xs \<Longrightarrow> sched_inv {} w' \<Longrightarrow> frame C w w' \<Longrightarrow> keeps C w' (f x w')"
  shows "keeps C w (fold_r f xs w)"
  using assms
proof (induction xs arbitrary: w)
  case Nil
  then show ?case by (simp add: keeps_self)
next
  case (Cons x xs)
  have "keeps C w (f x w)" using Cons.prems frame_refl by simp
  moreover have "keeps C w1 (fold_r f xs w1)" if "sched_inv {} w1" "frame C w w1" for w1
    using Cons.IH [OF that(1)] Cons.prems(2) frame_trans [OF that(2)] by simp
  ultimately show ?case by (simp add: keeps_rbind)
qed

lemma keeps_trans: "frame {} w w' \<Longrightarrow> keeps C w' m \<Longrightarrow> keeps C w m"
  unfolding keeps_def using frame_trans frame_mono [of "{}"] by (metis empty_subsetI)

section \<open>Rescheduling from outside\<close>

lemma free_cores_le: "sched_inv X w \<Longrightarrow> free_cores (snd w) \<le> app_cores (snd w)"
  by (cases w) (metis free_cores_def length_filter_le sched_inv_shape(2) snd_conv)

lemma reschedule_now_ok:
  assumes inv: "sched_inv X (tm, s)" "m_threads tm \<noteq> []" and c: "c < app_cores s"
    and cX: "c \<in> X \<Longrightarrow> starting_up (running_on s c) tm = Inr False \<and> \<not> chosen tau c s (running_on s c)"
  shows "\<exists>w'. reschedule_now tau (int c) (tm, s) = Inr w' \<and> sched_inv (X - {c}) w' \<and> frame {c} (tm, s) w' \<and>
    (if starting_up (running_on s c) tm = Inr True then w' = (tm, s) else chosen tau c s (running_on (snd w') c))"
  using reschedule_step [OF inv c reschedule_ok_n _ cX, of "app_cores s"] free_cores_le [OF inv(1)]
  by (simp add: reschedule_now_def)

lemma reschedule_now_keeps:
  assumes "sched_inv {} w" "m_threads (fst w) \<noteq> []" "c < app_cores (snd w)"
  shows "keeps UNIV w (reschedule_now tau (int c) w)"
  using reschedule_now_ok [of "{}" "fst w" "snd w" c tau] assms by (auto intro: keepsI)

lemma reschedule_now_resched_ok: "resched_ok n reschedule_now"
  unfolding resched_ok_def
proof (intro allI impI)
  fix X w c tau
  assume a: "sched_inv X w" "m_threads (fst w) \<noteq> []" "c < app_cores (snd w)" "running_on (snd w) c = INVALID_THREAD_ID"
  have "c \<notin> X" using sched_inv_busy [OF a(1,4)] .
  then show "\<exists>w'. reschedule_now tau (int c) w = Inr w' \<and> sched_inv X w' \<and> frame {} w w'"
    using reschedule_now_ok [of X "fst w" "snd w" c tau] frame_free [of c w] a by auto
qed

lemma reschedule_if_free_keeps:
  assumes inv: "sched_inv {} w" and t: "t < length (m_threads (fst w))"
  shows "keeps UNIV w (reschedule_if_free tau (int t) w)"
proof -
  obtain tm s where w: "w = (tm, s)" by (cases w)
  have ti: "t < length (m_thread_info s)" using t sched_inv_shape(5) [OF inv [unfolded w]] w by simp
  show ?thesis
  proof (cases rule: findFreeCore_ok [OF inv [unfolded w] ti])
    case 1
    then show ?thesis using inv w by (simp add: reschedule_if_free_def keeps_self)
  next
    case (2 c)
    moreover have "keeps UNIV w (reschedule_now tau (int c) w)" by (rule reschedule_now_keeps [OF inv]) (use t 2 w in auto)
    ultimately show ?thesis using w by (simp add: reschedule_if_free_def)
  qed
qed

lemma reschedule_if_running_keeps:
  assumes inv: "sched_inv {} w" and t: "t < length (m_threads (fst w))"
  shows "keeps UNIV w (reschedule_if_running tau (int t) w)"
proof -
  obtain tm s where w: "w = (tm, s)" by (cases w)
  have ti: "t < length (m_thread_info s)" using t sched_inv_shape(5) [OF inv [unfolded w]] w by simp
  show ?thesis
  proof (cases "core_of s t = INVALID_CORE_ID")
    case True
    then show ?thesis using ti inv w by (simp add: reschedule_if_running_def isRunning_def keeps_self)
  next
    case False
    then obtain c where c: "c < app_cores s" "core_of s t = int c" using sched_inv_thread [OF inv [unfolded w] ti] by metis
    moreover have "keeps UNIV w (reschedule_now tau (int c) w)" by (rule reschedule_now_keeps [OF inv]) (use t c w in auto)
    ultimately show ?thesis using ti w by (simp add: reschedule_if_running_def isRunning_def)
  qed
qed

section \<open>Stalling and resuming\<close>

lemma upd_state_inv:
  assumes "sched_inv X (tm, s)" "t < length (m_threads tm)" "waiter (f (m_thread_state tm ! t)) = waiter (m_thread_state tm ! t)"
  shows "upd_state (int t) f tm = Inr (tm\<lparr> m_thread_state := (m_thread_state tm)[t := f (m_thread_state tm ! t)] \<rparr>)"
    and "sched_inv X (tm\<lparr> m_thread_state := (m_thread_state tm)[t := f (m_thread_state tm ! t)] \<rparr>, s)"
proof -
  note sh = sched_inv_shape(4) [OF assms(1)]
  show "upd_state (int t) f tm = Inr (tm\<lparr> m_thread_state := (m_thread_state tm)[t := f (m_thread_state tm ! t)] \<rparr>)"
    using assms(2) sh by (simp add: upd_state_def)
  show "sched_inv X (tm\<lparr> m_thread_state := (m_thread_state tm)[t := f (m_thread_state tm ! t)] \<rparr>, s)"
    by (rule sched_inv_cong [OF assms(1)]) (use assms(2,3) sh in \<open>simp_all add: map_update_same\<close>)
qed

lemma sys_stall_keeps:
  assumes inv: "sched_inv {} w" and t: "started w t"
  shows "keeps UNIV w (sys_stall (int t) reason tau w)"
proof -
  obtain tm s where w: "w = (tm, s)" by (cases w)
  have tn: "t < length (m_threads tm)" using t w by (simp add: started_def)
  let ?f = "\<lambda>st. st\<lparr> status := STALLED, stalled_reason := reason \<rparr>"
  let ?tm = "callHooks (HOOK_THREAD_STALL (int t) reason tau) (tm\<lparr> m_thread_state := (m_thread_state tm)[t := ?f (m_thread_state tm ! t)] \<rparr>)"
  note u = upd_state_inv [OF inv [unfolded w] tn, of ?f]
  have inv1: "sched_inv {} (?tm, s)" using u(2) by (simp add: hooks_inv)
  have fr: "frame {} w (?tm, s)" using tn sched_inv_shape(4) [OF inv [unfolded w]] w by (simp add: frame_def callHooks_def nth_list_update)
  have st1: "started (?tm, s) t" using t w by (simp add: started_def callHooks_def)
  have "keeps UNIV (?tm, s) (hook_thread_stall (int t) reason tau (?tm, s))"
  proof (cases "reason = STALL_UNSCHEDULED")
    case True
    then show ?thesis using inv1 by (simp add: hook_thread_stall_def keeps_self)
  next
    case False
    let ?s = "s\<lparr> m_threads_runnable := (m_threads_runnable s)[t := False] \<rparr>"
    note r = set_runnable_ok [OF inv1 st1, of False]
    have "frame {} (?tm, s) (?tm, ?s)" by (simp add: frame_def config_of_def)
    then show ?thesis using False r reschedule_if_running_keeps [OF r(2), of t tau] tn keeps_trans
      by (simp add: hook_thread_stall_def callHooks_def)
  qed
  then show ?thesis using keeps_trans [OF fr] u(1) w by (simp add: sys_stall_def stallThread_async_def)
qed

lemma sys_resume_keeps:
  assumes inv: "sched_inv {} w" and t: "started w t"
  shows "keeps {} w (sys_resume (int t) u tau msg w)"
proof -
  obtain tm s where w: "w = (tm, s)" by (cases w)
  have tn: "t < length (m_threads tm)" using t w by (simp add: started_def)
  note sh = sched_inv_shape [OF inv [unfolded w]]
  let ?tm = "tm\<lparr> m_threads := (m_threads tm)[t := (m_threads tm ! t)\<lparr> m_wakeup_time := tau, m_wakeup_msg := msg \<rparr>],
     m_thread_state := (m_thread_state tm)[t := (m_thread_state tm ! t)\<lparr> status := RUNNING \<rparr>],
     hooks_called := hooks_called tm @ [HOOK_THREAD_RESUME (int t) u tau] \<rparr>"
  have r: "resumeThread (int t) u tau msg tm = Inr ?tm"
    using resumeThread_eq [of tm "int t" u tau msg] tn sh(4) by (simp add: tm_ok_def valid_id_def)
  have inv1: "sched_inv {} (?tm, s)"
    by (rule sched_inv_cong [OF inv [unfolded w]]) (use tn sh(4) in \<open>simp_all add: map_update_same\<close>)
  have fr: "frame {} w (?tm, s)" using tn sh(4) w by (simp add: frame_def nth_list_update)
  have "started (?tm, s) t" using t w by (simp add: started_def)
  from hook_resume_ok [OF reschedule_now_resched_ok inv1 this order_refl, of tau] show ?thesis
    using r w frame_trans [OF fr] by (auto simp: sys_resume_def keeps_def)
qed

section \<open>Affinity, yielding and time slices\<close>

lemma info_upd_inv:
  assumes inv: "sched_inv X (tm, s)" and "m_core_running i = core_of s t" "length (m_core_affinity i) = app_cores s"
  shows "sched_inv X (tm, s\<lparr> m_thread_info := (m_thread_info s)[t := i] \<rparr>)"
    and "frame C (tm, s) (tm, s\<lparr> m_thread_info := (m_thread_info s)[t := i] \<rparr>)"
proof -
  let ?s = "s\<lparr> m_thread_info := (m_thread_info s)[t := i] \<rparr>"
  have c: "core_of ?s u = core_of s u" for u
    using assms(2) by (cases "t < length (m_thread_info s)") (auto simp: nth_list_update list_update_beyond)
  have "sched_shape (tm, ?s)" using inv assms(3) by (simp add: sched_inv_def sched_shape_def list_all_upd)
  moreover have "placed (length (m_threads tm)) ?s" "agree X (tm, ?s)"
    using inv by (simp_all only: sched_inv_def placed_def agree_def fst_conv snd_conv Let_def c) simp_all
  ultimately show "sched_inv X (tm, ?s)" using inv by (simp add: sched_inv_def waiters_ok_def runnable_ok_def started_def)
  show "frame C (tm, s) (tm, ?s)" by (simp add: frame_def config_of_def)
qed

text \<open>Adding cores to the affinity of a thread.\<close>

definition affinity_like :: "thread_info \<Rightarrow> thread_info \<Rightarrow> bool" where
  "affinity_like i i' \<longleftrightarrow> m_core_running i' = m_core_running i \<and> length (m_core_affinity i') = length (m_core_affinity i)"

lemma addAffinity_ok:
  "c < length (m_core_affinity i) \<Longrightarrow> \<exists>i'. addAffinity (int c) i = Inr i' \<and> affinity_like i i' \<and> m_has_affinity i'"
  by (simp add: addAffinity_def affinity_like_def)

lemma fold_affinity:
  assumes "\<And>x j. x \<in> set xs \<Longrightarrow> affinity_like i j \<Longrightarrow> \<exists>j'. f x j = Inr j' \<and> affinity_like j j'"
  shows "\<exists>j. fold_r f xs i = Inr j \<and> affinity_like i j"
proof (rule fold_r_ok [where P = "affinity_like i"])
  show "affinity_like i i" by (simp add: affinity_like_def)
  fix x j assume "x \<in> set xs" "affinity_like i j"
  then show "\<exists>t. f x j = Inr t \<and> affinity_like i t" using assms by (fastforce simp: affinity_like_def)
qed

definition mask_ok :: "nat \<Rightarrow> bool list option \<Rightarrow> bool" where
  "mask_ok cores cpus \<longleftrightarrow> (\<forall>bits. cpus = Some bits \<longrightarrow> (\<forall>i < length bits. bits ! i \<longrightarrow> i < cores))"

lemma setAffinity_mask_ok:
  assumes "length (m_core_affinity i) = cores" "mask_ok cores cpus"
  shows "\<exists>j. setAffinity_mask cores cpus i = Inr j \<and> affinity_like i j"
proof (cases cpus)
  case None
  let ?i = "i\<lparr> m_explicit_affinity := True \<rparr>"
  have "\<exists>j. fold_r addAffinity (map int [0..<cores]) ?i = Inr j \<and> affinity_like ?i j"
  proof (rule fold_affinity)
    fix x j assume "x \<in> set (map int [0..<cores])" "affinity_like ?i j"
    then obtain c where "x = int c" "c < length (m_core_affinity j)" using assms(1) by (auto simp: affinity_like_def)
    then show "\<exists>j'. addAffinity x j = Inr j' \<and> affinity_like j j'" using addAffinity_ok by blast
  qed
  then show ?thesis using None by (auto simp: setAffinity_mask_def affinity_like_def)
next
  case (Some bits)
  let ?i = "clearAffinity (i\<lparr> m_explicit_affinity := True \<rparr>)"
  let ?f = "\<lambda>(cpu, b) i. if b then if cores \<le> cpu then Inl Assert_Failed else addAffinity (int cpu) i else Inr i"
  have len: "length (m_core_affinity ?i) = cores" using assms(1) by (simp add: clearAffinity_def)
  have "\<exists>j. fold_r ?f (List.enumerate 0 bits) ?i = Inr j \<and> affinity_like ?i j"
  proof (rule fold_affinity)
    fix x j assume x: "x \<in> set (List.enumerate 0 bits)" and j: "affinity_like ?i j"
    obtain k b where kb: "x = (k, b)" by (cases x)
    then have "k < length bits" "b = bits ! k" using x by (auto simp: in_set_enumerate_eq)
    then have "b \<Longrightarrow> k < cores" using assms(2) Some by (simp add: mask_ok_def)
    then show "\<exists>j'. ?f x j = Inr j' \<and> affinity_like j j'"
      using addAffinity_ok [of k j] j len kb by (auto simp: affinity_like_def)
  qed
  then show ?thesis using Some by (auto simp: setAffinity_mask_def affinity_like_def clearAffinity_def)
qed

lemma set_quantum_keeps:
  assumes "sched_inv {} (tm, s)" "c < app_cores s"
  shows "keeps UNIV (tm, s) (rbind (set_quantum_left (int c) q s) (\<lambda>s1. Inr (tm, s1)))"
  using set_quantum_ok [OF assms] by (auto intro: keepsI)

lemma threadYield_keeps:
  assumes inv: "sched_inv {} w" and t: "t < length (m_threads (fst w))"
  shows "keeps UNIV w (threadYield (int t) w)"
proof -
  obtain tm s where w: "w = (tm, s)" by (cases w)
  note sh = sched_inv_shape [OF inv [unfolded w]]
  have ti: "t < length (m_thread_info s)" using t sh(5) w by simp
  show ?thesis
  proof (cases "core_of s t = INVALID_CORE_ID")
    case True
    then show ?thesis using ti inv w by (simp add: threadYield_def keeps_self)
  next
    case False
    then obtain c where c: "c < app_cores s" "core_of s t = int c" using sched_inv_thread [OF inv [unfolded w] ti] by metis
    let ?s = "s\<lparr> m_quantum_left := (m_quantum_left s)[c := 0] \<rparr>" and ?tau = "elapsed_time (m_cores tm ! c)"
    note q = set_quantum_ok [OF inv [unfolded w] c(1), where q = 0]
    have "m_threads tm \<noteq> []" using t w by auto
    then have "keeps UNIV (tm, ?s) (reschedule_now ?tau (int c) (tm, ?s))" by (intro reschedule_now_keeps) (use q(2) c(1) in simp_all)
    then have "keeps UNIV (tm, ?s) (rbind (reschedule_now ?tau (int c) (tm, ?s)) (\<lambda>w2. rbind (at_id (m_thread_info (snd w2)) (int t)) (\<lambda>i2.
      rbind (hasAffinity (int c) i2) (\<lambda>a. if \<not> a then reschedule_if_free ?tau (int t) w2 else Inr w2))))"
    proof (rule keeps_rbind)
      fix w2 assume w2: "sched_inv {} w2" "frame UNIV (tm, ?s) w2"
      obtain tm2 s2 where p: "w2 = (tm2, s2)" by (cases w2)
      have t2: "t < length (m_threads tm2)" "t < length (m_thread_info s2)" "c < app_cores s2"
        using w2(2) t ti c(1) w by (simp_all add: p frame_def)
      then show "keeps UNIV w2 (rbind (at_id (m_thread_info (snd w2)) (int t)) (\<lambda>i2. rbind (hasAffinity (int c) i2) (\<lambda>a.
        if \<not> a then reschedule_if_free ?tau (int t) w2 else Inr w2)))"
        using sched_inv_shape(6) [OF w2(1) [unfolded p] t2(2)] reschedule_if_free_keeps [OF w2(1)] keeps_self [OF w2(1)]
        by (simp add: p hasAffinity_def)
    qed
    then show ?thesis using keeps_trans [OF q(3)] ti c q(1) sh(1) w by (simp add: threadYield_def Let_def)
  qed
qed

lemma threadSetAffinity_keeps:
  assumes inv: "sched_inv {} w" and t: "t < length (m_threads (fst w))" and m: "mask_ok (app_cores (snd w)) cpus"
    and st: "caller = int t \<or> started w t"
  shows "keeps UNIV w (threadSetAffinity global caller (int t) cpus w)"
proof -
  obtain tm s where w: "w = (tm, s)" by (cases w)
  note sh = sched_inv_shape [OF inv [unfolded w]]
  have ti: "t < length (m_thread_info s)" using t sh(5) w by simp
  obtain j where j: "setAffinity_mask (app_cores s) cpus (m_thread_info s ! t) = Inr j" "affinity_like (m_thread_info s ! t) j"
    using setAffinity_mask_ok [OF sh(6) [OF ti]] m w by auto
  let ?s = "s\<lparr> m_thread_info := (m_thread_info s)[t := j] \<rparr>"
  have i: "sched_inv {} (tm, ?s)" "frame {} (tm, s) (tm, ?s)"
    using info_upd_inv [OF inv [unfolded w], of j t] j(2) sh(6) [OF ti] by (simp_all add: affinity_like_def)
  have u: "upd_info (int t) (setAffinity_mask (app_cores s) cpus) s = Inr ?s" using ti j(1) by (simp add: upd_info_def)
  have tn: "t < length (m_threads tm)" using t w by simp
  have tj: "t < length (m_thread_info ?s)" "m_thread_info ?s ! t = j" using ti by simp_all
  have "keeps UNIV (tm, ?s) (threadSetAffinity global caller (int t) cpus w)"
  proof (cases "int t = caller")
    case True
    show ?thesis unfolding True [symmetric] using threadYield_keeps [OF i(1), of t] u tn ti w
      by (simp add: threadSetAffinity_def getNumThreads_def)
  next
    case ne: False
    then have r: "t < length (m_threads_runnable s)" using st w by (simp add: started_def)
    show ?thesis
    proof (cases "m_core_running j = INVALID_CORE_ID")
      case False
      then obtain c where c: "c < app_cores s" "m_core_running j = int c"
        using sched_inv_thread [OF i(1) tj(1)] by (auto simp: ti)
      have "c < length (m_core_affinity j)" using c(1) j(2) sh(6) [OF ti] by (simp add: affinity_like_def)
      then show ?thesis using set_quantum_keeps [OF i(1), of c 0] keeps_self [OF i(1)] c r u tn ti ne w
        by (simp add: threadSetAffinity_def getNumThreads_def isRunning_def hasAffinity_def)
    next
      case True
      show ?thesis
      proof (cases rule: findFreeCore_ok [OF i(1) tj(1)])
        case 1
        then show ?thesis using True keeps_self [OF i(1)] r u tn ti ne w
          by (simp add: threadSetAffinity_def getNumThreads_def isRunning_def)
      next
        case (2 c)
        have "m_threads tm \<noteq> []" using tn by auto
        then have "keeps UNIV (tm, ?s) (reschedule_now (max (elapsed_time (m_cores tm ! c)) global) (int c) (tm, ?s))"
          using reschedule_now_keeps [OF i(1)] 2(2) by simp
        then show ?thesis using True keeps_self [OF i(1)] r u tn ti ne 2 sh(1) w
          by (simp add: threadSetAffinity_def getNumThreads_def isRunning_def)
      qed
    qed
  qed
  then show ?thesis using keeps_trans [OF i(2)] w by simp
qed

lemma hook_periodic_keeps:
  assumes inv: "sched_inv {} w" and n: "m_threads (fst w) \<noteq> []"
  shows "keeps UNIV w (hook_periodic tau w)"
proof -
  obtain tm s where w: "w = (tm, s)" by (cases w)
  let ?w = "(tm, s\<lparr> m_in_periodic := True \<rparr>)"
  have same: "sched_inv {} (tm', s'\<lparr> m_in_periodic := b \<rparr>)" "sched_inv {} (tm', s'\<lparr> m_last_periodic := t' \<rparr>)"
    "frame C (tm', s') (tm', s'\<lparr> m_in_periodic := b \<rparr>)" "frame C (tm', s') (tm', s'\<lparr> m_last_periodic := t' \<rparr>)"
    if "sched_inv {} (tm', s')" for tm' s' b t' C
    using sched_inv_cong [OF that] by (simp_all add: frame_def config_of_def)
  have one: "keeps UNIV w1 (periodic_core tau delta x w1)" if x: "x \<in> set (app_core_ids s)" and i: "sched_inv {} w1" and f: "frame UNIV ?w w1"
    for x w1 delta
  proof -
    obtain tm1 s1 where p: "w1 = (tm1, s1)" by (cases w1)
    obtain c where c: "x = int c" "c < app_cores s1" using x f by (auto simp: app_core_ids_def p frame_def)
    have "m_threads tm1 \<noteq> []" using frame_static(5) [OF f] n w p by simp
    then have "keeps UNIV w1 (reschedule_now tau (int c) w1)" using reschedule_now_keeps [OF i] c(2) p by simp
    then show ?thesis using set_quantum_keeps [OF i [unfolded p] c(2)] sched_inv_shape(2,3) [OF i [unfolded p]] c
      by (auto simp: periodic_core_def p)
  qed
  have "sched_inv {} ?w" using same(1) inv w by simp
  from keeps_fold [OF this one] have "keeps UNIV ?w (periodic tau ?w)"
    unfolding periodic_def
    by (rule keeps_rbind) (use same in \<open>auto simp: app_core_ids_def intro!: keepsI\<close>)
  then have "keeps UNIV ?w (hook_periodic tau w)"
    unfolding hook_periodic_def w fst_conv snd_conv by (rule keeps_rbind) (use same in \<open>auto intro!: keepsI\<close>)
  then show ?thesis using keeps_trans [OF same(3)] inv w by blast
qed

section \<open>The end of a thread\<close>

lemma waiter_inv:
  assumes inv: "sched_inv X (tm, s)" and v: "v = INVALID_THREAD_ID \<or> (\<exists>u. v = int u \<and> started (tm, s) u)"
    and t: "t < length (m_threads tm)"
  shows "upd_state (int t) (\<lambda>st. st\<lparr> waiter := v \<rparr>) tm = Inr (tm\<lparr> m_thread_state := (m_thread_state tm)[t := (m_thread_state tm ! t)\<lparr> waiter := v \<rparr>] \<rparr>)"
    and "sched_inv X (tm\<lparr> m_thread_state := (m_thread_state tm)[t := (m_thread_state tm ! t)\<lparr> waiter := v \<rparr>] \<rparr>, s)" (is "sched_inv X (?tm, s)")
    and "frame {} (tm, s) (tm\<lparr> m_thread_state := (m_thread_state tm)[t := (m_thread_state tm ! t)\<lparr> waiter := v \<rparr>] \<rparr>, s)"
proof -
  note sh = sched_inv_shape(4) [OF inv]
  show "upd_state (int t) (\<lambda>st. st\<lparr> waiter := v \<rparr>) tm = Inr ?tm" using t sh by (simp add: upd_state_def)
  have "waiters_ok (?tm, s)" using inv v t sh by (simp add: sched_inv_def waiters_ok_def started_def nth_list_update)
  then show "sched_inv X (?tm, s)" using inv by (simp add: sched_inv_def sched_shape_def agree_def runnable_ok_def)
  show "frame {} (tm, s) (?tm, s)" using t sh by (simp add: frame_def nth_list_update)
qed

lemma sys_wakeUpWaiter_keeps:
  assumes inv: "sched_inv {} w" and t: "t < length (m_threads (fst w))"
  shows "keeps {} w (sys_wakeUpWaiter (int t) tau w)"
proof -
  obtain tm s where w: "w = (tm, s)" by (cases w)
  let ?v = "waiter (m_thread_state tm ! t)"
  have at: "t < length (m_thread_state tm)" using t sched_inv_shape(4) [OF inv [unfolded w]] w by simp
  have v: "?v = INVALID_THREAD_ID \<or> (\<exists>u. ?v = int u \<and> started w u)" using inv t w by (simp add: sched_inv_def waiters_ok_def)
  show ?thesis
  proof (cases "?v = INVALID_THREAD_ID")
    case True
    then show ?thesis using at w inv by (simp add: sys_wakeUpWaiter_def keeps_self)
  next
    case False
    with v obtain u where u: "?v = int u" "started w u" by blast
    have "keeps {} w (rbind (sys_resume (int u) (int t) tau False w) (\<lambda>w1.
       rbind (upd_state (int t) (\<lambda>s. s\<lparr> waiter := INVALID_THREAD_ID \<rparr>) (fst w1)) (\<lambda>tm2. Inr (tm2, snd w1))))"
    proof (rule keeps_rbind [OF sys_resume_keeps [OF inv u(2)]])
      fix w1 assume w1: "sched_inv {} w1" "frame {} w w1"
      obtain tm1 s1 where p: "w1 = (tm1, s1)" by (cases w1)
      have "t < length (m_threads tm1)" using w1(2) t p by (simp add: frame_def)
      from waiter_inv [OF w1(1) [unfolded p] _ this, of INVALID_THREAD_ID]
      show "keeps {} w1 (rbind (upd_state (int t) (\<lambda>s. s\<lparr> waiter := INVALID_THREAD_ID \<rparr>) (fst w1)) (\<lambda>tm2. Inr (tm2, snd w1)))"
        by (simp add: p keeps_def)
    qed
    then show ?thesis using at u w False by (simp add: sys_wakeUpWaiter_def)
  qed
qed

text \<open>A thread that exits leaves its core to nobody, before the scheduler hears of it.\<close>

lemma exit_end_ok:
  assumes inv: "sched_inv {} (tm, s)" and c: "c < app_cores s" "running_on s c = int t" and th: "m_core th = int c"
  shows "\<exists>tm'. onThreadExit_end (int t) th x tm = Inr tm' \<and> sched_inv {c} (tm', s) \<and>
    m_thread_state tm' = m_thread_state tm \<and> length (m_threads tm') = length (m_threads tm)"
proof -
  note sh = sched_inv_shape [OF inv]
  have t: "t < length (m_threads tm)" "core_of s t = int c"
    using sched_inv_core [OF inv c(1)] c(2) by (metis int_not_invalid(1) of_nat_eq_iff)+
  note m = sched_inv_m_core [OF inv t(1) c(1)]
  let ?tm = "callHooks (HOOK_THREAD_EXIT (int t) (elapsed_time x))
    (tm\<lparr> m_cores := (m_cores tm)[c := (m_cores tm ! c)\<lparr> m_core_state := IDLE, core_thread := INVALID_THREAD_ID \<rparr>],
         m_threads := (m_threads tm)[t := (m_threads tm ! t)\<lparr> m_core := INVALID_CORE_ID \<rparr>] \<rparr>)"
  have e: "onThreadExit_end (int t) th x tm = Inr ?tm"
    using t m sh(1) c(1) th by (simp add: onThreadExit_end_def core_setState_def setCore_def upd_core_def upd_thread_def)
  have "m_core (m_threads ?tm ! u) = (if core_of s u \<in> int ` {c} then INVALID_CORE_ID else core_of s u)"
    if u: "u < length (m_threads tm)" for u
  proof (cases "u = t")
    case True
    then show ?thesis using t by (simp add: callHooks_def)
  next
    case False
    then have "core_of s u \<noteq> int c" using sched_inv_alone [OF inv c, of u] u sh(5) by auto
    moreover have "m_core (m_threads tm ! u) = core_of s u" using inv u by (simp add: sched_inv_def agree_def)
    ultimately show ?thesis using False by (simp add: callHooks_def)
  qed
  moreover have "core_thread (m_cores ?tm ! d) = (if d \<in> {c} then INVALID_THREAD_ID else running_on s d)" if "d < app_cores s" for d
    using sched_inv_m_core(3) [OF inv t(1) that] sh(1) c(1) by (simp add: callHooks_def nth_list_update)
  ultimately have "agree {c} (?tm, s)" by (simp add: agree_def callHooks_def)
  then have "sched_inv {c} (?tm, s)"
    using inv c by (simp add: sched_inv_def sched_shape_def waiters_ok_def runnable_ok_def started_def callHooks_def)
  then show ?thesis using e by (simp add: callHooks_def)
qed

lemma hook_thread_exit_ok:
  assumes inv: "sched_inv {c} (tm, s)" and c: "running_on s c = int t" and st: "started (tm, s) t"
    and nst: "status (m_thread_state tm ! t) \<noteq> INITIALIZING"
  shows "keeps UNIV (tm, s) (hook_thread_exit (int t) tau (tm, s))"
proof -
  have ca: "c < app_cores s" using inv by (simp add: sched_inv_def)
  have t: "t < length (m_threads tm)" "core_of s t = int c"
    using sched_inv_core [OF inv ca] c by (metis int_not_invalid(1) of_nat_eq_iff)+
  let ?s = "s\<lparr> m_threads_runnable := (m_threads_runnable s)[t := False] \<rparr>"
  note r = set_runnable_ok [OF inv st, of False]
  have fr: "frame {} (tm, s) (tm, ?s)" by (simp add: frame_def config_of_def)
  have "\<not> can_run ?s c t" using st by (simp add: can_run_def started_def)
  then have "\<not> chosen tau c ?s (running_on ?s c)" using c by (auto simp: chosen_def)
  moreover have "starting_up (running_on ?s c) tm = Inr False"
    using c nst t(1) sched_inv_shape(4) [OF inv] by (simp add: starting_up_def getThreadState_def)
  moreover have "m_threads tm \<noteq> []" using t(1) by auto
  ultimately obtain w' where "reschedule_now tau (int c) (tm, ?s) = Inr w'" "sched_inv {} w'" "frame {c} (tm, ?s) w'"
    using reschedule_now_ok [OF r(2), of c tau] ca by auto
  moreover have "t < length (m_thread_info s)" using t(1) sched_inv_shape(5) [OF inv] by simp
  ultimately show ?thesis using r(1) t(2) keeps_trans [OF fr] keepsI
    by (simp add: hook_thread_exit_def reschedule_if_running_def isRunning_def)
qed

lemma sys_exit_keeps:
  assumes inv: "sched_inv {} w" and st: "started w t" "\<forall>u \<in> set woken. \<exists>v. u = int v \<and> started w v"
    and run: "m_core (m_threads (fst w) ! t) \<noteq> INVALID_CORE_ID" "status (m_thread_state (fst w) ! t) = RUNNING"
  shows "keeps UNIV w (sys_exit woken (int t) w)"
proof -
  obtain tm s where w: "w = (tm, s)" by (cases w)
  note sh = sched_inv_shape [OF inv [unfolded w]]
  have t: "t < length (m_threads tm)" "t < length (m_thread_info s)" using st(1) sh(5) w by (auto simp: started_def)
  have mc: "m_core (m_threads tm ! t) = core_of s t" using inv t(1) w by (simp add: sched_inv_def agree_def)
  then obtain c where c: "c < app_cores s" "core_of s t = int c" "running_on s c = int t"
    using sched_inv_thread [OF inv [unfolded w] t(2)] run(1) w by auto
  let ?th = "m_threads tm ! t" and ?x = "m_cores tm ! c"
  let ?f = "\<lambda>st. st\<lparr> status := IDLE \<rparr>"
  let ?tm = "tm\<lparr> m_thread_state := (m_thread_state tm)[t := ?f (m_thread_state tm ! t)] \<rparr>"
  note u = upd_state_inv [OF inv [unfolded w] t(1), of ?f]
  have b: "onThreadExit_begin (int t) tm = Inr (?th, ?x, ?tm)"
    using t sh(1,4) mc c run(2) u(1) w by (simp add: onThreadExit_begin_def)
  have fr: "frame {} w (?tm, s)" using t(1) sh(4) w by (simp add: frame_def nth_list_update)
  have "keeps {} (?tm, s) (rbind (sys_wakeUpWaiter (int t) (elapsed_time ?x) (?tm, s)) (fold_r (\<lambda>u. sys_resume u (int t) (elapsed_time ?x) True) woken))"
  proof (rule keeps_rbind [OF sys_wakeUpWaiter_keeps])
    fix w2 assume w2: "sched_inv {} w2" "frame {} (?tm, s) w2"
    show "keeps {} w2 (fold_r (\<lambda>u. sys_resume u (int t) (elapsed_time ?x) True) woken w2)"
    proof (rule keeps_fold [OF w2(1)])
      fix y w3 assume y: "y \<in> set woken" and w3: "sched_inv {} w3" "frame {} w2 w3"
      from y st(2) obtain v where v: "y = int v" "started w v" by blast
      have "started w3 v" using frame_static(3) [OF frame_trans [OF frame_trans [OF fr w2(2)] w3(2)] v(2)] .
      then show "keeps {} w3 (sys_resume y (int t) (elapsed_time ?x) True w3)" using sys_resume_keeps [OF w3(1)] v(1) by simp
    qed
  qed (use u(2) t(1) in simp_all)
  then obtain tm3 s3 where 3: "rbind (sys_wakeUpWaiter (int t) (elapsed_time ?x) (?tm, s)) (fold_r (\<lambda>u. sys_resume u (int t) (elapsed_time ?x) True) woken) = Inr (tm3, s3)"
    "sched_inv {} (tm3, s3)" "frame {} (?tm, s) (tm3, s3)" by (auto simp: keeps_def)
  have fr3: "frame {} w (tm3, s3)" using frame_trans [OF fr 3(3)] .
  have on: "c < app_cores s3" "running_on s3 c = int t" using fr3 c w by (simp_all add: frame_def)
  have idle: "status (m_thread_state tm3 ! t) \<noteq> INITIALIZING" using 3(3) t(1) sh(4) by (auto simp: frame_def)
  obtain tm4 where 4: "onThreadExit_end (int t) ?th ?x tm3 = Inr tm4" "sched_inv {c} (tm4, s3)"
    "m_thread_state tm4 = m_thread_state tm3" "length (m_threads tm4) = length (m_threads tm3)"
    using exit_end_ok [OF 3(2) on, of ?th ?x] mc c(2) by auto
  have fr4: "frame {} (tm3, s3) (tm4, s3)" using 4(3,4) by (simp add: frame_def)
  have "started (tm4, s3) t" using frame_static(3) [OF frame_trans [OF fr3 fr4] st(1)] .
  from hook_thread_exit_ok [OF 4(2) on(2) this, of "elapsed_time ?x"] idle 4(3)
  have "keeps UNIV (tm4, s3) (hook_thread_exit (int t) (elapsed_time ?x) (tm4, s3))" by simp
  then have "keeps UNIV w (hook_thread_exit (int t) (elapsed_time ?x) (tm4, s3))"
    using keeps_trans [OF frame_trans [OF fr3 fr4]] by blast
  moreover have "sys_exit woken (int t) w = hook_thread_exit (int t) (elapsed_time ?x) (tm4, s3)"
    using b 3(1) 4(1) w by (simp add: sys_exit_def rbind_assoc [symmetric])
  ultimately show ?thesis by simp
qed

end
