(* ===== verification/Sched_Life.thy ===== *)
theory Sched_Life
  imports Sched_System
begin

text \<open>
  The creation and the start of threads, and waiting for another thread.
\<close>

section \<open>Joining\<close>

lemma sys_join_keeps:
  assumes inv: "sched_inv {} w" and t: "started w t" "m_core (m_threads (fst w) ! t) \<noteq> INVALID_CORE_ID"
    and u: "u < length (m_threads (fst w))" "waiter (m_thread_state (fst w) ! u) = INVALID_THREAD_ID"
  shows "keeps UNIV w (sys_join (int t) (int u) w)"
proof -
  obtain tm s where w: "w = (tm, s)" by (cases w)
  note sh = sched_inv_shape [OF inv [unfolded w]]
  have tt: "t < length (m_threads tm)" "t < length (m_thread_info s)" using t(1) sh(5) w by (auto simp: started_def)
  have "m_core (m_threads tm ! t) = core_of s t" using inv tt(1) w by (simp add: sched_inv_def agree_def)
  then obtain c where c: "c < app_cores s" "m_core (m_threads tm ! t) = int c"
    using sched_inv_thread [OF inv [unfolded w] tt(2)] t(2) w by auto
  let ?tm = "tm\<lparr> m_thread_state := (m_thread_state tm)[u := (m_thread_state tm ! u)\<lparr> waiter := int t \<rparr>] \<rparr>"
  have "int t = INVALID_THREAD_ID \<or> (\<exists>v. int t = int v \<and> started (tm, s) v)" using t(1) w by auto
  note v = waiter_inv [OF inv [unfolded w] this, of u]
  have un: "u < length (m_threads tm)" using u(1) w by simp
  have "keeps UNIV (?tm, s) (sys_stall (int t) STALL_JOIN (elapsed_time (m_cores tm ! c)) (?tm, s))"
    by (rule sys_stall_keeps [OF v(2) [OF un]]) (use t(1) w in \<open>simp add: started_def\<close>)
  then show ?thesis using keeps_trans [OF v(3) [OF un]] keeps_self [OF inv] v(1) [OF un] un tt(1) c sh(1,4) u(2) w
    by (simp add: sys_join_def)
qed

lemma wait_begin_inv:
  assumes "sched_inv X (tm, s)" "t < length (m_threads tm)"
  shows "\<exists>tm'. wait_begin (int t) tm = Inr tm' \<and> sched_inv X (tm', s) \<and> frame {} (tm, s) (tm', s)"
proof -
  let ?tm = "tm\<lparr> m_threads := (m_threads tm)[t := (m_threads tm ! t)\<lparr> m_wakeup_msg := False \<rparr>] \<rparr>"
  have "wait_begin (int t) tm = Inr ?tm" using assms(2) by (simp add: wait_begin_def upd_thread_def)
  moreover have "sched_inv X (?tm, s)" by (rule sched_inv_cong [OF assms(1)]) (use assms(2) in \<open>simp_all add: map_update_same\<close>)
  ultimately show ?thesis by (simp add: frame_def)
qed

lemma sys_waitForThreadStart_keeps:
  assumes inv: "sched_inv {} w" and t: "started w t"
    and u: "u < length (m_threads (fst w))" "waiter (m_thread_state (fst w) ! u) = INVALID_THREAD_ID"
  shows "keeps UNIV w (sys_waitForThreadStart (int t) (int u) w)"
proof -
  obtain tm s where w: "w = (tm, s)" by (cases w)
  note sh = sched_inv_shape [OF inv [unfolded w]]
  have tt: "t < length (m_threads tm)" "u < length (m_threads tm)" using t u w by (auto simp: started_def)
  let ?tm = "tm\<lparr> m_thread_state := (m_thread_state tm)[u := (m_thread_state tm ! u)\<lparr> waiter := int t \<rparr>] \<rparr>"
  have "int t = INVALID_THREAD_ID \<or> (\<exists>v. int t = int v \<and> started (tm, s) v)" using t w by auto
  note v = waiter_inv [OF inv [unfolded w] this tt(2)]
  obtain tm2 where b: "wait_begin (int t) ?tm = Inr tm2" "sched_inv {} (tm2, s)" "frame {} (?tm, s) (tm2, s)"
    using wait_begin_inv [OF v(2), of t] tt(1) by auto
  have "keeps UNIV w (Inr (tm2, s))" by (rule keepsI [OF refl b(2)]) (use frame_trans [OF v(3) b(3)] w in simp)
  then show ?thesis using b(1) v(1) tt sh(4) u(2) keeps_self [OF inv] w
    by (simp add: sys_waitForThreadStart_def waitForThreadStart_def)
qed

section \<open>Starting\<close>

lemma extend_runnable:
  assumes inv: "sys_inv (tm, s)" and t: "t < length (m_threads tm)" "length (m_threads_runnable s) \<le> t"
  shows "sys_inv (tm, s\<lparr> m_threads_runnable := m_threads_runnable s @ replicate 16 False \<rparr>)" (is "sys_inv (tm, ?s)")
proof -
  have si: "sched_inv {} (tm, s)" using inv by (simp add: sys_inv_def)
  have g: "16 dvd length (m_thread_info s)" "16 dvd length (m_threads_runnable s)" using inv by (simp_all add: sys_inv_def growth_ok_def)
  have "length (m_threads_runnable s) < length (m_thread_info s)" using t sched_inv_shape(5) [OF si] by simp
  then have l: "length (m_threads_runnable s) + 16 \<le> length (m_thread_info s)" using g by (elim dvdE) simp
  have "sched_inv {} (tm, ?s)"
    using si l by (auto simp: sched_inv_def sched_shape_def placed_def agree_def waiters_ok_def runnable_ok_def started_def nth_append)
  then show ?thesis using inv l g by (simp add: sys_inv_def growth_ok_def pinned_ok_def is_core_def)
qed

lemma start_end_ok:
  assumes inv: "sched_inv {} (tm, s)" and t: "t < length (m_threads tm)"
  shows "\<exists>tm'. onThreadStart_end (int t) tau tm = Inr tm' \<and> sched_inv {} (tm', s)"
proof -
  note sh = sched_inv_shape [OF inv]
  have ti: "t < length (m_thread_info s)" using t sh(5) by simp
  have mc: "m_core (m_threads tm ! t) = core_of s t" using inv t by (simp add: sched_inv_def agree_def)
  obtain t' tm5 where 5: "(if m_core (m_threads tm ! t) \<noteq> INVALID_CORE_ID then
          rbind (core_setState (m_core (m_threads tm ! t)) RUNNING tm) (\<lambda>tm3.
          rbind (at_id (m_cores tm3) (m_core (m_threads tm ! t))) (\<lambda>c.
          let t' = max tau (elapsed_time c) in
          rbind (upd_state (int t) (\<lambda>s. s\<lparr> status := RUNNING \<rparr>) tm3) (\<lambda>tm4.
          Inr (t', callHooks (HOOK_THREAD_MIGRATE (int t) (m_core (m_threads tm ! t)) t') tm4))))
        else
          rbind (upd_state (int t) (\<lambda>s. s\<lparr> status := STALLED, stalled_reason := STALL_UNSCHEDULED \<rparr>) tm) (\<lambda>tm3.
          Inr (tau, tm3))) = Inr (t', tm5)" "sched_inv {} (tm5, s)" "length (m_threads tm5) = length (m_threads tm)"
  proof (cases "core_of s t = INVALID_CORE_ID")
    case True
    then show thesis using that mc upd_state_inv [OF inv t, of "\<lambda>s. s\<lparr> status := STALLED, stalled_reason := STALL_UNSCHEDULED \<rparr>"] by simp
  next
    case False
    then obtain c where c: "c < app_cores s" "core_of s t = int c" using sched_inv_thread [OF inv ti] by metis
    obtain tm3 where 3: "core_setState (int c) RUNNING tm = Inr tm3" "sched_inv {} (tm3, s)" "m_threads tm3 = m_threads tm"
      using core_state_inv [OF inv c(1)] by blast
    have "c < length (m_cores tm3)" using sched_inv_shape(1) [OF 3(2)] c(1) by simp
    moreover note u = upd_state_inv [OF 3(2), of t "\<lambda>s. s\<lparr> status := RUNNING \<rparr>"]
    moreover have "m_threads (callHooks h x) = m_threads x" for h x by (simp add: callHooks_def)
    ultimately show thesis using that mc c 3 t hooks_inv by (simp add: Let_def)
  qed
  have t5: "t < length (m_threads tm5)" using t 5(3) by simp
  let ?v = "waiter (m_thread_state tm5 ! t)"
  have v: "?v = INVALID_THREAD_ID \<or> (\<exists>u. ?v = int u \<and> started (tm5, s) u)" using 5(2) t5 by (simp add: sched_inv_def waiters_ok_def)
  have at: "t < length (m_thread_state tm5)" using t5 sched_inv_shape(4) [OF 5(2)] by simp
  have g: "getThreadFromID (int t) tm = Inr (m_threads tm ! t)" using t by simp
  show ?thesis
  proof (cases "?v = INVALID_THREAD_ID")
    case True
    then show ?thesis unfolding onThreadStart_end_def g rbind_Inr 5(1) using 5(2) at by simp
  next
    case False
    with v obtain u where u: "?v = int u" "u < length (m_threads tm5)" by (auto simp: started_def)
    let ?tm = "tm5\<lparr> m_threads := (m_threads tm5)[u := (m_threads tm5 ! u)\<lparr> m_wakeup_time := t', m_wakeup_msg := False \<rparr>] \<rparr>"
    have s: "signal (int u) t' False tm5 = Inr ?tm" using u(2) by (simp add: signal_def upd_thread_def)
    have "sched_inv {} (?tm, s)" by (rule sched_inv_cong [OF 5(2)]) (use u(2) in \<open>simp_all add: map_update_same\<close>)
    from waiter_inv [OF this, of INVALID_THREAD_ID t] t5 show ?thesis
      unfolding onThreadStart_end_def g rbind_Inr 5(1) using at u(1) False s by simp
  qed
qed

lemma sys_start_ok:
  assumes inv: "sys_inv w" and t: "t < length (m_threads (fst w))" "t < length (m_threads_runnable (snd w)) + 16"
  shows "\<exists>w'. sys_start (int t) tau w = Inr w' \<and> sys_inv w'"
proof -
  obtain tm s where w: "w = (tm, s)" by (cases w)
  have si: "sched_inv {} (tm, s)" using inv w by (simp add: sys_inv_def)
  have tn: "t < length (m_threads tm)" using t(1) w by simp
  let ?tm = "callHooks (HOOK_THREAD_START (int t) tau) (tm\<lparr> m_thread_state := (m_thread_state tm)[t := (m_thread_state tm ! t)\<lparr> status := RUNNING \<rparr>] \<rparr>)"
  note u = upd_state_inv [OF si tn, of "\<lambda>s. s\<lparr> status := RUNNING \<rparr>"]
  have b: "onThreadStart_begin (int t) tau tm = Inr ?tm" using tn u(1) by (simp add: onThreadStart_begin_def)
  have inv1: "sys_inv (?tm, s)" using inv u(2) hooks_inv w by (simp add: sys_inv_def)
  define s1 where "s1 = (if length (m_threads_runnable s) \<le> t then s\<lparr> m_threads_runnable := m_threads_runnable s @ replicate 16 False \<rparr> else s)"
  have inv2: "sys_inv (?tm, s1)" using extend_runnable [OF inv1, of t] inv1 tn by (simp add: s1_def callHooks_def)
  have st: "started (?tm, s1) t" using t(2) tn w by (auto simp: started_def s1_def callHooks_def)
  let ?s = "s1\<lparr> m_threads_runnable := (m_threads_runnable s1)[t := True] \<rparr>"
  note r = set_runnable_ok [OF _ st, of "{}" True]
  have ir: "sched_inv {} (?tm, ?s)" using r(2) inv2 by (simp add: sys_inv_def)
  then have inv3: "sys_inv (?tm, ?s)" using inv2 by (simp add: sys_inv_def growth_ok_def pinned_ok_def is_core_def)
  obtain tm2 s2 where f: "reschedule_if_free tau (int t) (?tm, ?s) = Inr (tm2, s2)" "sched_inv {} (tm2, s2)" "frame UNIV (?tm, ?s) (tm2, s2)"
    using reschedule_if_free_keeps [OF ir, of t tau] tn by (auto simp: keeps_def callHooks_def)
  have h: "hook_thread_start (int t) tau (?tm, s) = Inr (tm2, s2)"
    using f(1) r(1) inv2 by (simp add: hook_thread_start_def Let_def s1_def sys_inv_def)
  obtain tm3 where e: "onThreadStart_end (int t) tau tm2 = Inr tm3" "sched_inv {} (tm3, s2)"
    using start_end_ok [OF f(2), of t tau] f(3) tn by (auto simp: frame_def callHooks_def)
  have "sys_inv (tm2, s2)" using frame_sys_inv [OF f(3) inv3 f(2)] .
  then have "sys_inv (tm3, s2)" using e(2) by (simp add: sys_inv_def)
  then show ?thesis using b h e(1) w by (simp add: sys_start_def)
qed

section \<open>Creation\<close>

text \<open>The cores of a new thread, by the kind of scheduler.\<close>

lemma threadSetInitialAffinity_ok:
  assumes inv: "sys_inv (tm, s)" and t: "t < length (m_thread_info s)"
  shows "\<exists>s' i. threadSetInitialAffinity (int t) s = Inr s' \<and> sys_inv (tm, s') \<and> affinity_like (m_thread_info s ! t) i \<and>
    m_thread_info s' = (m_thread_info s)[t := i] \<and> m_core_thread_running s' = m_core_thread_running s \<and>
    app_cores s' = app_cores s"
proof -
  have si: "sched_inv {} (tm, s)" and g: "growth_ok s" and p: "pinned_ok s" using inv by (simp_all add: sys_inv_def)
  note len = sched_inv_shape(6) [OF si t]
  have fin: "sys_inv (tm, s\<lparr> m_next_core := n, m_thread_info := (m_thread_info s)[t := i] \<rparr>)"
    if "affinity_like (m_thread_info s ! t) i" "pinned_ok (s\<lparr> m_next_core := n \<rparr>)" for i n
  proof -
    have "sched_inv {} (tm, s\<lparr> m_next_core := n \<rparr>)" using sched_inv_cong [OF si] by simp
    from info_upd_inv(1) [OF this, of i t] that len
    have "sched_inv {} (tm, s\<lparr> m_next_core := n, m_thread_info := (m_thread_info s)[t := i] \<rparr>)" by (simp add: affinity_like_def)
    then show ?thesis using g that(2) by (simp add: sys_inv_def growth_ok_def pinned_ok_def is_core_def)
  qed
  show ?thesis
  proof (cases "sched_type s")
    case Sched_Pinned
    then have ok: "cores_ok s" "is_core s (m_next_core s)" "allowed s (m_next_core s)"
      using p sched_inv_shape(2) [OF si] by (simp_all add: pinned_ok_def cores_ok_def)
    obtain c where c: "getFreeCore (m_next_core s) s = Inr c" "is_core s c" "allowed s c" using getFreeCore_ok [OF ok] by blast
    obtain n where n: "getNextCore c s = Inr n" "is_core s n" "allowed s n" using getNextCore_allowed [OF ok(1) c(2,3)] by blast
    have "nat c < length (m_core_affinity (clearAffinity (m_thread_info s ! t)))" "c = int (nat c)"
      using c(2) len by (auto simp: clearAffinity_def is_core_def)
    then obtain i where i: "addAffinity c (clearAffinity (m_thread_info s ! t)) = Inr i" "affinity_like (clearAffinity (m_thread_info s ! t)) i"
      using addAffinity_ok by metis
    have "affinity_like (m_thread_info s ! t) i" using i(2) by (simp add: affinity_like_def clearAffinity_def)
    moreover have "pinned_ok (s\<lparr> m_next_core := n \<rparr>)" using p n by (simp add: pinned_ok_def is_core_def)
    ultimately show ?thesis using fin [of i n] c(1) n(1) i(1) t Sched_Pinned
      by (intro exI [of _ "s\<lparr> m_next_core := n, m_thread_info := (m_thread_info s)[t := i] \<rparr>"] exI [of _ i])
        (simp add: threadSetInitialAffinity_def setInitialAffinity_pinned_def setInitialAffinity_roaming_def upd_info_def)
  next
    case Sched_Roaming
    let ?i = "clearAffinity (m_thread_info s ! t)"
    let ?f = "\<lambda>c i. rbind (at_id (m_core_mask s) c) (\<lambda>allowed. if allowed then addAffinity c i else Inr i)"
    have "\<exists>i. fold_r ?f (app_core_ids s) ?i = Inr i \<and> affinity_like ?i i"
    proof (rule fold_affinity)
      fix x j assume "x \<in> set (app_core_ids s)" "affinity_like ?i j"
      then obtain c where "x = int c" "c < app_cores s" "c < length (m_core_affinity j)"
        using len by (auto simp: app_core_ids_def affinity_like_def clearAffinity_def)
      then show "\<exists>j'. ?f x j = Inr j' \<and> affinity_like j j'"
        using addAffinity_ok [of c j] p by (cases "m_core_mask s ! c") (auto simp: pinned_ok_def affinity_like_def)
    qed
    then obtain i where i: "fold_r ?f (app_core_ids s) ?i = Inr i" "affinity_like ?i i" by blast
    then have "affinity_like (m_thread_info s ! t) i" by (simp add: affinity_like_def clearAffinity_def)
    then show ?thesis using fin [of i "m_next_core s"] p i(1) t Sched_Roaming
      by (intro exI [of _ "s\<lparr> m_thread_info := (m_thread_info s)[t := i] \<rparr>"] exI [of _ i])
        (simp add: threadSetInitialAffinity_def setInitialAffinity_pinned_def setInitialAffinity_roaming_def upd_info_def)
  qed
qed

definition new_thread :: "int \<Rightarrow> thread" where
  "new_thread app_id = \<lparr> m_app_id = app_id, m_wakeup_time = 0, m_wakeup_msg = False, m_core = INVALID_CORE_ID,
     os_tid = 0, os_tid_ptr = 0, os_clear_tid = False \<rparr>"

definition with_new_thread :: "int \<Rightarrow> thread_manager \<Rightarrow> thread_manager" where
  "with_new_thread app_id tm = tm\<lparr> m_threads := m_threads tm @ [new_thread app_id],
     m_thread_state := m_thread_state tm @ [\<lparr> status = INITIALIZING, stalled_reason = STALL_UNSCHEDULED, waiter = INVALID_THREAD_ID \<rparr>] \<rparr>"

lemma createThread_eq:
  assumes "length (m_thread_state tm) = length (m_threads tm)"
  shows "createThread_unlocked sched_core app_id creator tm =
    rbind (if sched_core \<noteq> INVALID_CORE_ID
           then rbind (setCore (int (length (m_threads tm))) sched_core (with_new_thread app_id tm)) (core_setState sched_core INITIALIZING)
           else Inr (with_new_thread app_id tm)) (\<lambda>tm3.
    Inr (int (length (m_threads tm)), callHooks (HOOK_THREAD_CREATE (int (length (m_threads tm))) creator) tm3))"
  by (simp add: createThread_unlocked_def Let_def upd_state_def with_new_thread_def new_thread_def assms [symmetric])

text \<open>A new thread without a core, with a table that has room for it.\<close>

definition with_room :: "nat \<Rightarrow> scheduler \<Rightarrow> scheduler" where
  "with_room t s = (if length (m_thread_info s) \<le> t
     then s\<lparr> m_thread_info := m_thread_info s @ replicate 16 (ThreadInfo (app_cores s)) \<rparr> else s)"

lemma new_thread_inv:
  assumes inv: "sys_inv (tm, s)"
  defines "n \<equiv> length (m_threads tm)"
  shows "sys_inv (with_new_thread app_id tm, with_room n s)" (is "sys_inv (?tm, ?s)")
    and "n < length (m_thread_info (with_room n s))" "core_of (with_room n s) n = INVALID_CORE_ID"
proof -
  have si: "sched_inv {} (tm, s)" and g: "growth_ok s" using inv by (simp_all add: sys_inv_def)
  note sh = sched_inv_shape [OF si]
  have c: "core_of ?s u = (if u < length (m_thread_info s) then core_of s u else INVALID_CORE_ID)"
    if "u < length (m_thread_info ?s)" for u
    using that by (auto simp: with_room_def nth_append ThreadInfo_def split: if_splits)
  show l: "n < length (m_thread_info ?s)" using sh(5) by (auto simp: with_room_def n_def)
  have fresh: "core_of s n = INVALID_CORE_ID" if nl: "n < length (m_thread_info s)"
  proof (rule ccontr)
    assume "core_of s n \<noteq> INVALID_CORE_ID"
    then obtain d where "d < app_cores s" "running_on s d = int n" using sched_inv_thread [OF si nl] by metis
    then show False using sched_inv_core [OF si, of d] by (metis int_not_invalid(1) less_irrefl n_def of_nat_eq_iff)
  qed
  then show nc: "core_of ?s n = INVALID_CORE_ID" using c [OF l] by simp
  have r: "m_core_thread_running ?s = m_core_thread_running s" "app_cores ?s = app_cores s" "m_threads_runnable ?s = m_threads_runnable s"
    "m_quantum_left ?s = m_quantum_left s" "length (m_thread_info s) \<le> length (m_thread_info ?s)" by (auto simp: with_room_def)
  have "length (m_threads_runnable s) \<le> length (m_thread_info ?s)"
    using g l by (auto simp: growth_ok_def with_room_def max_def split: if_splits)
  moreover have "list_all (\<lambda>i. length (m_core_affinity i) = app_cores s) (m_thread_info ?s)"
    using si by (simp add: sched_inv_def sched_shape_def with_room_def ThreadInfo_def list_all_iff)
  ultimately have "sched_shape (?tm, ?s)" using sh l r by (simp add: sched_shape_def with_new_thread_def n_def)
  moreover have "placed (length (m_threads ?tm)) ?s"
  proof -
    have "running_on s d = INVALID_THREAD_ID \<or> (\<exists>u < Suc n. running_on s d = int u \<and> core_of ?s u = int d)" if d: "d < app_cores s" for d
    proof (cases "running_on s d = INVALID_THREAD_ID")
      case False
      then obtain u where u: "u < n" "running_on s d = int u" "core_of s u = int d" using sched_inv_core [OF si d] n_def by metis
      then show ?thesis using c [of u] sh(5) r(5) by (intro disjI2 exI [of _ u]) (auto simp: n_def)
    qed simp
    moreover have "core_of ?s u = INVALID_CORE_ID \<or> (\<exists>d < app_cores s. core_of ?s u = int d \<and> running_on s d = int u)"
      if u: "u < length (m_thread_info ?s)" for u
      using c [OF u] sched_inv_thread [OF si, of u] by (metis (no_types))
    ultimately show ?thesis unfolding placed_def r by (simp add: with_new_thread_def n_def)
  qed
  moreover have "agree {} (?tm, ?s)"
  proof -
    have "m_core (m_threads ?tm ! u) = core_of ?s u" if "u < Suc n" for u
    proof (cases "u = n")
      case True
      then show ?thesis using nc by (simp add: with_new_thread_def n_def new_thread_def nth_append)
    next
      case False
      then have "u < n" using that by simp
      moreover from this have "m_core (m_threads tm ! u) = core_of s u" using si by (simp add: sched_inv_def agree_def n_def)
      ultimately show ?thesis using c [of u] sh(5) r(5) by (simp add: with_new_thread_def n_def nth_append)
    qed
    moreover have "core_thread (m_cores tm ! d) = running_on s d" if "d < app_cores s" for d
      using si that by (simp add: sched_inv_def agree_def)
    ultimately show ?thesis unfolding agree_def Let_def fst_conv snd_conv r by (simp add: with_new_thread_def flip: n_def)
  qed
  moreover have "waiters_ok (?tm, ?s)"
    using si sh(4) by (auto simp: sched_inv_def waiters_ok_def started_def r with_new_thread_def nth_append)
  moreover have "runnable_ok (?tm, ?s)" using si by (auto simp: sched_inv_def runnable_ok_def r with_new_thread_def)
  ultimately have "sched_inv {} (?tm, ?s)" by (simp add: sched_inv_def)
  moreover have "growth_ok ?s" using g by (auto simp: growth_ok_def with_room_def max_def split: if_splits)
  moreover have "pinned_ok ?s" using inv by (simp add: sys_inv_def pinned_ok_def with_room_def is_core_def)
  ultimately show "sys_inv (?tm, ?s)" by (simp add: sys_inv_def)
qed

lemma sys_create_ok:
  assumes inv: "sys_inv w"
  shows "\<exists>w'. sys_create app_id creator w = Inr w' \<and> sys_inv w'"
proof -
  obtain tm s where w: "w = (tm, s)" by (cases w)
  define n where "n = length (m_threads tm)"
  let ?tm = "with_new_thread app_id tm"
  note nt = new_thread_inv [OF inv [unfolded w], folded n_def]
  obtain s2 where s2: "(if m_has_affinity (m_thread_info (with_room n s) ! n) then Inr (with_room n s)
      else threadSetInitialAffinity (int n) (with_room n s)) = Inr s2" "sys_inv (?tm, s2)" "n < length (m_thread_info s2)"
    "core_of s2 n = INVALID_CORE_ID"
  proof (cases "m_has_affinity (m_thread_info (with_room n s) ! n)")
    case True
    then show thesis using that nt by simp
  next
    case False
    then show thesis using that threadSetInitialAffinity_ok [OF nt(1) [of app_id] nt(2)] nt(2,3) by (auto simp: affinity_like_def)
  qed
  have si: "sched_inv {} (?tm, s2)" and g: "growth_ok s2" "pinned_ok s2" using s2(2) by (simp_all add: sys_inv_def)
  note sh = sched_inv_shape [OF si]
  have static: "growth_ok s2'" "pinned_ok s2'" if "frame {} (?tm, s2) (tm', s2')" for tm' s2'
    using frame_static(1,2) [OF that] g by simp_all
  have nn: "n < length (m_threads ?tm)" by (simp add: with_new_thread_def n_def)
  have len: "length (m_thread_state tm) = length (m_threads tm)" using inv w by (simp add: sys_inv_def sched_inv_def sched_shape_def)
  have tc: "threadCreate (int n) s = rbind (findFreeCoreForThread (int n) s2) (\<lambda>free_core_id.
       rbind (upd_info (int n) (\<lambda>i. Inr (i\<lparr> m_core_running := free_core_id \<rparr>)) s2) (\<lambda>s3.
       if free_core_id \<noteq> INVALID_CORE_ID then
         rbind (set_running free_core_id (int n) s3) (\<lambda>s4.
         rbind (set_quantum_left free_core_id (m_quantum s4) s4) (\<lambda>s5. Inr (free_core_id, s5)))
       else Inr (INVALID_CORE_ID, s3)))"
    using s2(1) nt(2) unfolding threadCreate_def Let_def nat_int with_room_def [symmetric] by simp
  show ?thesis
  proof (cases rule: findFreeCore_ok [OF si s2(3)])
    case 1
    let ?s = "s2\<lparr> m_thread_info := (m_thread_info s2)[n := (m_thread_info s2 ! n)\<lparr> m_core_running := INVALID_CORE_ID \<rparr>] \<rparr>"
    have "sched_inv {} (?tm, ?s)" "frame {} (?tm, s2) (?tm, ?s)" using info_upd_inv [OF si] s2(4) sh(6) [OF s2(3)] by simp_all
    then have "sys_inv (callHooks h ?tm, ?s)" for h using static hooks_inv by (simp add: sys_inv_def)
    moreover have "threadCreate (int n) s = Inr (INVALID_CORE_ID, ?s)" using tc 1(1) s2(3) by (simp add: upd_info_def)
    ultimately show ?thesis using createThread_eq [OF len] w by (simp add: sys_create_def getNumThreads_def n_def)
  next
    case (2 c)
    let ?i = "(m_thread_info s2 ! n)\<lparr> m_core_running := int c \<rparr>"
    let ?s3 = "s2\<lparr> m_core_thread_running := (m_core_thread_running s2)[c := int n], m_thread_info := (m_thread_info s2)[n := ?i] \<rparr>"
    let ?s = "?s3\<lparr> m_quantum_left := (m_quantum_left s2)[c := m_quantum s2] \<rparr>"
    have "sched_inv {c} (?tm, ?s3)" using assign_inv [OF si 2(2,3) nn s2(4), of ?i] sh(6) [OF s2(3)] by simp
    then have a: "sched_inv {c} (?tm, ?s)" using sched_inv_cong [of "{c}" ?tm ?s3 ?s ?tm] by simp
    have on: "running_on ?s c = int n" using 2(2) sh(2) by simp
    obtain tm1 where 1: "setCore (int n) (int c) ?tm = Inr tm1" "sched_inv {} (tm1, ?s)"
      using set_core_ok [of c "{}" ?tm ?s n] a on by auto
    obtain tm2 where t2: "core_setState (int c) INITIALIZING tm1 = Inr tm2" "sched_inv {} (tm2, ?s)"
      using core_state_inv [OF 1(2), of c INITIALIZING] 2(2) by auto
    have "growth_ok ?s" "pinned_ok ?s" using g by (simp_all add: growth_ok_def pinned_ok_def is_core_def)
    then have "sys_inv (callHooks h tm2, ?s)" for h using t2(2) hooks_inv by (simp add: sys_inv_def)
    moreover have "threadCreate (int n) s = Inr (int c, ?s)"
      using tc 2 s2(3) sh by (simp add: upd_info_def set_running_def set_quantum_left_def)
    ultimately show ?thesis using createThread_eq [OF len] 1(1) t2(1) w by (simp add: sys_create_def getNumThreads_def n_def)
  qed
qed

end
