(* ===== verification/Sched_Props.thy ===== *)
theory Sched_Props
  imports Sched_Life
begin

text \<open>
  The properties of the schedulers: over every sequence of operations the placement of threads is exclusive and known
  to both sides and no operation fails; which thread a core runs next; which core a new thread gets; and where the
  code goes wrong.
\<close>

section \<open>Sequences of operations\<close>

datatype sched_op =
    Op_Create int thread_id
  | Op_Start nat time
  | Op_Stall nat stall_type_t time
  | Op_Resume nat thread_id time bool
  | Op_Exit "nat list" nat
  | Op_Join nat nat
  | Op_WaitStart nat nat
  | Op_Yield nat
  | Op_SetAffinity time thread_id nat "bool list option"
  | Op_Periodic time

fun run_op :: "sched_op \<Rightarrow> sched_sys \<Rightarrow> sched_sys res" where
  "run_op (Op_Create app_id creator) w = sys_create app_id creator w"
| "run_op (Op_Start t tau) w = sys_start (int t) tau w"
| "run_op (Op_Stall t reason tau) w = sys_stall (int t) reason tau w"
| "run_op (Op_Resume t thread_by tau msg) w = sys_resume (int t) thread_by tau msg w"
| "run_op (Op_Exit woken t) w = sys_exit (map int woken) (int t) w"
| "run_op (Op_Join t u) w = sys_join (int t) (int u) w"
| "run_op (Op_WaitStart t u) w = sys_waitForThreadStart (int t) (int u) w"
| "run_op (Op_Yield t) w = threadYield (int t) w"
| "run_op (Op_SetAffinity global caller t cpus) w = threadSetAffinity global caller (int t) cpus w"
| "run_op (Op_Periodic tau) w = hook_periodic tau w"

text \<open>What a program can do: start a created thread, not more than a table row ahead of the others; stall, resume and
  name threads that have started; exit and join from a core; set affinities to cores there are.\<close>

definition has_core :: "sched_sys \<Rightarrow> nat \<Rightarrow> bool" where
  "has_core w t \<longleftrightarrow> started w t \<and> m_core (m_threads (fst w) ! t) \<noteq> INVALID_CORE_ID"

definition unwaited :: "sched_sys \<Rightarrow> nat \<Rightarrow> bool" where
  "unwaited w t \<longleftrightarrow> t < length (m_threads (fst w)) \<and> waiter (m_thread_state (fst w) ! t) = INVALID_THREAD_ID"

fun legal :: "sched_op \<Rightarrow> sched_sys \<Rightarrow> bool" where
  "legal (Op_Create app_id creator) w = True"
| "legal (Op_Start t tau) w = (t < length (m_threads (fst w)) \<and> t < length (m_threads_runnable (snd w)) + 16)"
| "legal (Op_Stall t reason tau) w = started w t"
| "legal (Op_Resume t thread_by tau msg) w = started w t"
| "legal (Op_Exit woken t) w = (has_core w t \<and> status (m_thread_state (fst w) ! t) = RUNNING \<and> list_all (started w) woken)"
| "legal (Op_Join t u) w = (has_core w t \<and> unwaited w u)"
| "legal (Op_WaitStart t u) w = (started w t \<and> unwaited w u)"
| "legal (Op_Yield t) w = (t < length (m_threads (fst w)))"
| "legal (Op_SetAffinity global caller t cpus) w =
     (t < length (m_threads (fst w)) \<and> (caller = int t \<or> started w t) \<and>
      (case cpus of None \<Rightarrow> True | Some bits \<Rightarrow> list_all (\<lambda>i. bits ! i \<longrightarrow> i < app_cores (snd w)) [0..<length bits]))"
| "legal (Op_Periodic tau) w = (m_threads (fst w) \<noteq> [])"

fun legal_run :: "sched_op list \<Rightarrow> sched_sys \<Rightarrow> bool" where
  "legal_run [] w = True"
| "legal_run (x # xs) w = (legal x w \<and> (case run_op x w of Inl e \<Rightarrow> True | Inr w' \<Rightarrow> legal_run xs w'))"

definition idle_core :: core where
  "idle_core = \<lparr> m_core_state = IDLE, core_thread = INVALID_THREAD_ID, elapsed_time = 0, m_instructions = 0 \<rparr>"

definition sched_init :: "scheduler_type \<Rightarrow> nat \<Rightarrow> u64 \<Rightarrow> int \<Rightarrow> bool list \<Rightarrow> sched_sys" where
  "sched_init ty cores quantum_ns interleaving core_mask =
     (\<lparr> m_thread_state = [], m_threads = [], m_thread_spawn_list = [], m_cores = replicate cores idle_core, hooks_called = [] \<rparr>,
      SchedulerPinnedBase ty cores quantum_ns interleaving core_mask)"

text \<open>A configuration the pinned scheduler works with: the interleaving divides the number of cores and core 0 is allowed.\<close>

definition config_ok :: "scheduler_type \<Rightarrow> nat \<Rightarrow> int \<Rightarrow> bool list \<Rightarrow> bool" where
  "config_ok ty cores interleaving core_mask \<longleftrightarrow> length core_mask = cores \<and>
     (ty = Sched_Pinned \<longrightarrow> 0 < interleaving \<and> 0 < cores \<and> interleaving dvd int cores \<and> core_mask ! 0)"

lemma sched_init_inv:
  assumes "config_ok ty cores interleaving core_mask"
  shows "sys_inv (sched_init ty cores quantum_ns interleaving core_mask)"
  using assms
  by (auto simp: sys_inv_def sched_inv_def sched_shape_def placed_def agree_def waiters_ok_def runnable_ok_def growth_ok_def
      pinned_ok_def sched_init_def SchedulerPinnedBase_def idle_core_def config_ok_def interleaved_def is_core_def)

lemma keeps_sys: "keeps C w m \<Longrightarrow> sys_inv w \<Longrightarrow> \<exists>w'. m = Inr w' \<and> sys_inv w'"
  unfolding keeps_def using frame_sys_inv by blast

lemma run_op_ok:
  assumes inv: "sys_inv w" and l: "legal x w"
  shows "\<exists>w'. run_op x w = Inr w' \<and> sys_inv w'"
proof -
  have si: "sched_inv {} w" using inv by (simp add: sys_inv_def)
  show ?thesis
  proof (cases x)
    case (Op_Create app_id creator)
    then show ?thesis using sys_create_ok [OF inv] by simp
  next
    case (Op_Start t tau)
    then show ?thesis using sys_start_ok [OF inv, of t tau] l by simp
  next
    case (Op_Stall t reason tau)
    then show ?thesis using keeps_sys [OF sys_stall_keeps [OF si] inv] l by simp
  next
    case (Op_Resume t u tau msg)
    then show ?thesis using keeps_sys [OF sys_resume_keeps [OF si] inv] l by simp
  next
    case (Op_Exit woken t)
    have "keeps UNIV w (sys_exit (map int woken) (int t) w)"
      by (rule sys_exit_keeps [OF si]) (use l Op_Exit in \<open>auto simp: has_core_def list_all_iff\<close>)
    then show ?thesis using keeps_sys [OF _ inv] Op_Exit by simp
  next
    case (Op_Join t u)
    have "keeps UNIV w (sys_join (int t) (int u) w)"
      by (rule sys_join_keeps [OF si]) (use l Op_Join in \<open>auto simp: has_core_def unwaited_def\<close>)
    then show ?thesis using keeps_sys [OF _ inv] Op_Join by simp
  next
    case (Op_WaitStart t u)
    have "keeps UNIV w (sys_waitForThreadStart (int t) (int u) w)"
      by (rule sys_waitForThreadStart_keeps [OF si]) (use l Op_WaitStart in \<open>auto simp: unwaited_def\<close>)
    then show ?thesis using keeps_sys [OF _ inv] Op_WaitStart by simp
  next
    case (Op_Yield t)
    then show ?thesis using keeps_sys [OF threadYield_keeps [OF si] inv] l by simp
  next
    case (Op_SetAffinity global caller t cpus)
    have "mask_ok (app_cores (snd w)) cpus"
      using l Op_SetAffinity by (auto simp: mask_ok_def list_all_iff)
    then have "keeps UNIV w (threadSetAffinity global caller (int t) cpus w)"
      by (intro threadSetAffinity_keeps [OF si]) (use l Op_SetAffinity in auto)
    then show ?thesis using keeps_sys [OF _ inv] Op_SetAffinity by simp
  next
    case (Op_Periodic tau)
    then show ?thesis using keeps_sys [OF hook_periodic_keeps [OF si] inv] l by simp
  qed
qed

lemma run_ops_ok: "sys_inv w \<Longrightarrow> legal_run xs w \<Longrightarrow> \<exists>w'. fold_r run_op xs w = Inr w' \<and> sys_inv w'"
proof (induction xs arbitrary: w)
  case (Cons x xs)
  then show ?case using run_op_ok [OF Cons.prems(1), of x] by auto
qed simp

section \<open>Properties\<close>

text \<open>C8: the placement of threads, from a configuration that the scheduler works with (for the pinned one: core 0 is
  allowed and the interleaving divides the number of cores). Let a program create, start, stall, resume, join and end
  threads, yield and set affinities, in any order and at any times, with time slices ending in between, where each
  operation is legal when it is made: a thread starts at most 16 numbers after the table of runnable threads, stalls,
  resumptions and affinities set by others concern started threads, affinities name existing cores, a thread that joins or exits has a core,
  one that exits is running, and a thread has at most one thread that waits for its start or its end. Then every operation runs to its
  end, with all the moves it causes in turn: no assertion of the thread manager fails, no table is left, and the nesting
  of reschedulings is bounded by the number of cores. Afterwards the scheduler and the thread manager agree on the
  thread of every core and on the core of every thread, and no core has two threads and no thread two cores.\<close>

theorem placement_is_exclusive:
  assumes "config_ok ty cores interleaving core_mask" "legal_run ops (sched_init ty cores quantum_ns interleaving core_mask)"
  shows "\<exists>tm s. fold_r run_op ops (sched_init ty cores quantum_ns interleaving core_mask) = Inr (tm, s) \<and>
    map core_thread (m_cores tm) = m_core_thread_running s \<and>
    map m_core (m_threads tm) = map m_core_running (take (length (m_threads tm)) (m_thread_info s)) \<and>
    (\<forall>c t. c < length (m_cores tm) \<and> t < length (m_threads tm) \<and> core_thread (m_cores tm ! c) = int t \<longleftrightarrow>
       c < length (m_cores tm) \<and> t < length (m_threads tm) \<and> m_core (m_threads tm ! t) = int c)"
proof -
  obtain tm s where r: "fold_r run_op ops (sched_init ty cores quantum_ns interleaving core_mask) = Inr (tm, s)" "sys_inv (tm, s)"
    using run_ops_ok [OF sched_init_inv [OF assms(1)] assms(2)] by auto
  then have inv: "sched_inv {} (tm, s)" by (simp add: sys_inv_def)
  note sh = sched_inv_shape [OF inv]
  have a: "core_thread (m_cores tm ! c) = running_on s c" if "c < app_cores s" for c
    using inv that by (simp add: sched_inv_def agree_def)
  have b: "m_core (m_threads tm ! t) = core_of s t" if "t < length (m_threads tm)" for t
    using inv that by (simp add: sched_inv_def agree_def)
  have "map core_thread (m_cores tm) = m_core_thread_running s" by (rule nth_equalityI) (use a sh(1,2) in auto)
  moreover have "map m_core (m_threads tm) = map m_core_running (take (length (m_threads tm)) (m_thread_info s))"
    by (rule nth_equalityI) (use b sh(5) in auto)
  moreover have "running_on s c = int t \<longleftrightarrow> core_of s t = int c" if "c < app_cores s" "t < length (m_threads tm)" for c t
  proof
    show "core_of s t = int c" if "running_on s c = int t"
      using sched_inv_core [OF inv \<open>c < app_cores s\<close>] that by (metis int_not_invalid(1) of_nat_eq_iff)
    show "running_on s c = int t" if "core_of s t = int c"
      using sched_inv_thread [OF inv, of t] that \<open>t < length (m_threads tm)\<close> sh(5)
      by (metis int_not_invalid(3) of_nat_eq_iff order_less_le_trans)
  qed
  ultimately show ?thesis using r(1) a b sh(1) by (intro exI [of _ tm] exI [of _ s]) auto
qed

definition ex_ops :: "sched_op list" where
  "ex_ops = [Op_Create 0 (- 1), Op_Create 0 0, Op_Create 0 0, Op_Start 0 0, Op_Start 1 1000, Op_Start 2 2000,
     Op_Stall 0 STALL_FUTEX 5000, Op_Periodic 9000000, Op_Resume 0 1 9500000 True, Op_SetAffinity 0 1 0 (Some [True, True]),
     Op_Yield 1, Op_Join 1 2, Op_Periodic 30000000, Op_Exit [0] 2]"

theorem placement_is_exclusive_witness:
  "config_ok Sched_Pinned 2 1 [True, True] \<and> legal_run ex_ops (sched_init Sched_Pinned 2 5 1 [True, True]) \<and>
   (\<exists>tm s. fold_r run_op ex_ops (sched_init Sched_Pinned 2 5 1 [True, True]) = Inr (tm, s) \<and>
    map core_thread (m_cores tm) = m_core_thread_running s \<and>
    map m_core (m_threads tm) = map m_core_running (take (length (m_threads tm)) (m_thread_info s)))"
proof -
  have c: "config_ok Sched_Pinned 2 1 [True, True]" by (simp add: config_ok_def)
  have l: "legal_run ex_ops (sched_init Sched_Pinned 2 5 1 [True, True])" by code_simp
  show ?thesis using c l placement_is_exclusive [OF c l] by blast
qed

text \<open>A thread that waits for a core: it may run there, is not stalled and has no core.\<close>

definition waits :: "scheduler \<Rightarrow> nat \<Rightarrow> nat \<Rightarrow> bool" where
  "waits s c t \<longleftrightarrow> t < length (m_threads_runnable s) \<and> can_run s c t \<and> core_of s t = INVALID_CORE_ID"

abbreviation out_time :: "scheduler \<Rightarrow> nat \<Rightarrow> u64" where
  "out_time s t \<equiv> getPS (m_last_scheduled_out (m_thread_info s ! t))"

text \<open>Before others: longer off a core or, after the same time, the smaller number.\<close>

definition goes_before :: "scheduler \<Rightarrow> nat \<Rightarrow> nat \<Rightarrow> bool" where
  "goes_before s u v \<longleftrightarrow> out_time s u < out_time s v \<or> out_time s u = out_time s v \<and> u \<le> v"

text \<open>The times recorded in the table are in the past.\<close>

definition past :: "time \<Rightarrow> nat \<Rightarrow> scheduler \<Rightarrow> bool" where
  "past tau c s \<longleftrightarrow> list_all (\<lambda>i. getPS (m_last_scheduled_out i) \<le> getPS tau \<and>
     (m_core_running i = int c \<longrightarrow> getPS (m_last_scheduled_in i) < getPS tau)) (m_thread_info s)"

lemma score_waiting:
  assumes "t < length (m_thread_info s)" "past tau c s"
  shows "core_of s t = INVALID_CORE_ID \<Longrightarrow> score tau (m_thread_info s ! t) = uint (getPS tau) - uint (out_time s t) \<and>
      0 \<le> score tau (m_thread_info s ! t)"
    and "core_of s t = int c \<Longrightarrow> score tau (m_thread_info s ! t) < 0"
  using assms by (simp_all add: score_eq isRunning_def past_def list_all_length word_le_def word_less_def)

lemma chosen_waiting:
  assumes inv: "sched_inv {} (tm, s)" "m_threads tm \<noteq> []" and p: "past tau c s" and ch: "chosen tau c s new" and v: "waits s c v"
  shows "\<exists>u. new = int u \<and> waits s c u \<and> (\<forall>x. waits s c x \<longrightarrow> goes_before s u x)"
proof -
  let ?sc = "\<lambda>t. score tau (m_thread_info s ! t)"
  have vr: "v < length (m_threads_runnable s)" "can_run s c v" using v by (simp_all add: waits_def)
  then obtain u where u: "u < length (m_threads_runnable s)" "new = int u" "can_run s c u"
    "\<And>x. x < length (m_threads_runnable s) \<Longrightarrow> can_run s c x \<Longrightarrow> ?sc x \<le> ?sc u \<and> (x < u \<longrightarrow> ?sc x < ?sc u)"
    using ch by (auto simp: chosen_def)
  have len: "x < length (m_thread_info s)" if "x < length (m_threads_runnable s)" for x
    using that sched_inv_shape(7) [OF inv] by simp
  have "0 \<le> ?sc v" using score_waiting(1) [OF len [OF vr(1)] p] v by (simp add: waits_def)
  then have "0 \<le> ?sc u" using u(4) [OF vr] by simp
  then have "core_of s u \<noteq> int c" using score_waiting(2) [OF len [OF u(1)] p] by auto
  then have wu: "waits s c u" using u(1,3) by (simp add: waits_def can_run_def)
  have "goes_before s u x" if x: "waits s c x" for x
  proof -
    have xr: "x < length (m_threads_runnable s)" "can_run s c x" using x by (simp_all add: waits_def)
    have "?sc x = uint (getPS tau) - uint (out_time s x)" "?sc u = uint (getPS tau) - uint (out_time s u)"
      using score_waiting(1) [OF len p] xr(1) u(1) x wu by (simp_all add: waits_def)
    then have "uint (out_time s u) \<le> uint (out_time s x)" "x < u \<longrightarrow> uint (out_time s u) < uint (out_time s x)"
      using u(4) [OF xr] by auto
    then show ?thesis by (auto simp: goes_before_def word_less_def word_uint_eq_iff)
  qed
  then show ?thesis using u(2) wu by blast
qed

text \<open>C9: a core takes the thread that waits longest. In any state that legal operations lead to from such a
  configuration, take a core whose thread is not starting up, at a time that is not before any time at which a thread
  was taken off a core and after the time at which the core took its thread (with skewed clocks the scores compare
  otherwise). A rescheduling of the core then ends, and if threads wait for it, it runs afterwards the one among them that was
  taken off a core first, the smallest number of those taken off in the same picosecond. Without waiting threads it
  keeps its thread if that may still run there, and is free otherwise.\<close>

theorem longest_waiting_runs_next:
  assumes "config_ok ty cores interleaving core_mask" "legal_run ops (sched_init ty cores quantum_ns interleaving core_mask)"
    and "fold_r run_op ops (sched_init ty cores quantum_ns interleaving core_mask) = Inr (tm, s)"
    and c: "c < length (m_cores tm)" "m_threads tm \<noteq> []" "starting_up (m_core_thread_running s ! c) tm = Inr False" "past tau c s"
  shows "\<exists>w'. reschedule_now tau (int c) (tm, s) = Inr w' \<and>
    (\<forall>v. waits s c v \<longrightarrow> (\<exists>u. m_core_thread_running (snd w') ! c = int u \<and> waits s c u \<and> (\<forall>x. waits s c x \<longrightarrow> goes_before s u x))) \<and>
    ((\<forall>v. \<not> waits s c v) \<longrightarrow> m_core_thread_running (snd w') ! c =
       (if \<exists>t < length (m_threads_runnable s). m_core_thread_running s ! c = int t \<and> can_run s c t
        then m_core_thread_running s ! c else INVALID_THREAD_ID))"
proof -
  have "sys_inv (tm, s)" using run_ops_ok [OF sched_init_inv [OF assms(1)] assms(2)] assms(3) by simp
  then have inv: "sched_inv {} (tm, s)" by (simp add: sys_inv_def)
  have ac: "c < app_cores s" using c(1) sched_inv_shape(1) [OF inv] by simp
  obtain w' where w: "reschedule_now tau (int c) (tm, s) = Inr w'" "chosen tau c s (running_on (snd w') c)"
    using reschedule_now_ok [OF inv c(2) ac, of tau] c(3) by auto
  have "running_on (snd w') c = (if \<exists>t < length (m_threads_runnable s). running_on s c = int t \<and> can_run s c t
      then running_on s c else INVALID_THREAD_ID)" if none: "\<forall>v. \<not> waits s c v"
  proof -
    have "running_on s c = int t" if "t < length (m_threads_runnable s)" "can_run s c t" for t
    proof -
      have "core_of s t = int c" using none that by (auto simp: waits_def can_run_def)
      moreover have "t < length (m_thread_info s)" using that(1) sched_inv_shape(7) [OF inv c(2)] by simp
      ultimately show ?thesis using sched_inv_thread [OF inv, of t] by (metis int_not_invalid(3) of_nat_eq_iff)
    qed
    then show ?thesis using w(2) by (auto simp: chosen_def)
  qed
  then show ?thesis using w chosen_waiting [OF inv c(2,4) w(2)] by blast
qed

definition ex_busy :: sched_sys where
  "ex_busy = (let w = sched_init Sched_Pinned 1 5 1 [True] in
     case fold_r run_op [Op_Create 0 (- 1), Op_Create 0 0, Op_Create 0 0, Op_Start 0 0, Op_Start 2 1000, Op_Start 1 2000, Op_Periodic 6000000] w of
       Inl e \<Rightarrow> w | Inr w' \<Rightarrow> w')"

theorem longest_waiting_runs_next_witness:
  "\<exists>w' u. reschedule_now 20000000 (int 0) ex_busy = Inr w' \<and> m_core_thread_running (snd w') ! 0 = int u \<and> waits (snd ex_busy) 0 u"
proof -
  let ?ops = "[Op_Create 0 (- 1), Op_Create 0 0, Op_Create 0 0, Op_Start 0 0, Op_Start 2 1000, Op_Start 1 2000, Op_Periodic 6000000]"
  let ?w = "sched_init Sched_Pinned 1 5 1 [True]"
  have c: "config_ok Sched_Pinned 1 1 [True]" by (simp add: config_ok_def)
  have l: "legal_run ?ops ?w" by code_simp
  have "\<not> isl (fold_r run_op ?ops ?w)" by code_simp
  then have r: "fold_r run_op ?ops ?w = Inr (fst ex_busy, snd ex_busy)"
    by (auto simp: ex_busy_def Let_def split: sum.splits simp del: fold_r.simps)
  have p: "0 < length (m_cores (fst ex_busy))" "m_threads (fst ex_busy) \<noteq> []"
    "starting_up (m_core_thread_running (snd ex_busy) ! 0) (fst ex_busy) = Inr False" "past 20000000 0 (snd ex_busy)" "waits (snd ex_busy) 0 2"
    by code_simp+
  from longest_waiting_runs_next [OF c l r p(1-4)] p(5) show ?thesis by auto
qed

section \<open>The core of a new thread, and where the code goes wrong\<close>

text \<open>A new thread of the pinned scheduler gets one core, an allowed one, and a free one if an allowed core is free.\<close>

lemma new_thread_core:
  assumes inv: "sys_inv (tm, s)" and t: "sched_type s = Sched_Pinned" "t < length (m_thread_info s)"
  shows "\<exists>c s'. threadSetInitialAffinity (int t) s = Inr s' \<and> c < app_cores s \<and> m_core_mask s ! c \<and>
    m_core_affinity (m_thread_info s' ! t) = (replicate (app_cores s) False)[c := True] \<and>
    (running_on s c = INVALID_THREAD_ID \<or> (\<forall>d < app_cores s. m_core_mask s ! d \<longrightarrow> running_on s d \<noteq> INVALID_THREAD_ID))"
proof -
  have si: "sched_inv {} (tm, s)" and p: "pinned_ok s" using inv by (simp_all add: sys_inv_def)
  have ok: "cores_ok s" "is_core s (m_next_core s)" "allowed s (m_next_core s)"
    using p t(1) sched_inv_shape(2) [OF si] by (simp_all add: pinned_ok_def cores_ok_def)
  obtain c where c: "getFreeCore (m_next_core s) s = Inr c" "is_core s c" "allowed s c"
    "free_allowed s c \<or> (\<forall>d. is_core s d \<longrightarrow> \<not> free_allowed s d)" using getFreeCore_ok [OF ok] by blast
  obtain n where n: "getNextCore c s = Inr n" using getNextCore_allowed [OF ok(1) c(2,3)] by blast
  obtain k where k: "c = int k" "k < app_cores s" using c(2) by (metis is_core_def of_nat_less_iff zero_le_imp_eq_int)
  have free: "running_on s k = INVALID_THREAD_ID \<or> (\<forall>d < app_cores s. m_core_mask s ! d \<longrightarrow> running_on s d \<noteq> INVALID_THREAD_ID)"
  proof (cases "free_allowed s c")
    case False
    then have "\<not> free_allowed s (int d)" if "d < app_cores s" for d using c(4) that by (simp add: is_core_def)
    then show ?thesis by (auto simp: free_allowed_def)
  qed (simp add: free_allowed_def k)
  show ?thesis using c(1,3) n k free t sched_inv_shape(6) [OF si t(2)]
    by (intro exI [of _ k]) (simp add: threadSetInitialAffinity_def setInitialAffinity_pinned_def setInitialAffinity_roaming_def upd_info_def addAffinity_def clearAffinity_def map_replicate_const)
qed

text \<open>When the interleaving does not divide the number of cores, some cores are never handed out; when it exceeds
  it, the mask is read outside its bounds.\<close>

lemma interleaving_skips_cores:
  fixes q :: u64
  defines "s \<equiv> SchedulerPinnedBase Sched_Pinned 4 q 3 [True, True, True, True]"
  shows "getNextCore 0 s = Inr 3" "getNextCore 3 s = Inr 0"
    and "getNextCore 2 (s\<lparr> m_interleaving := 5 \<rparr>) = Inl Out_Of_Bounds"
  by (simp_all add: s_def SchedulerPinnedBase_def getNextCore_def eval_nat_numeral at_id_def)

text \<open>The table of runnable threads grows by one row however far ahead the thread that starts is: when the thread with
  number 32 is the first to start, it is written outside its bounds.\<close>

lemma late_start_out_of_bounds:
  "rbind (fold_r run_op (replicate 33 (Op_Create 0 0)) (sched_init Sched_Pinned 1 5 1 [True])) (sys_start 32 0) = Inl Out_Of_Bounds"
  by code_simp

text \<open>An affinity for a thread that does not exist yet makes the two tables grow differently; the loop over the runnable
  threads then leaves the other table.\<close>

lemma early_affinity_out_of_bounds:
  "rbind (fold_r run_op (replicate 16 (Op_Create 0 0)) (sched_init Sched_Pinned 1 5 1 [True])) (\<lambda>w.
   rbind (threadSetAffinity 0 (- 1) 20 None w) (\<lambda>w.
   rbind (fold_r run_op (replicate 20 (Op_Create 0 0) @ [Op_Start 0 0, Op_Start 16 0, Op_Start 32 0]) w) (hook_periodic 90000000))) = Inl Out_Of_Bounds"
  by code_simp

end
