(* ===== verification/Spec2Isabelle.thy ===== *)
theory Spec2Isabelle
  imports Block_Data_Props Cache_Contract Sync_Props Directory_Props Queue_Props Window_Props Prefetcher Sift_Props Sched_Props
begin

text \<open>
  A verification development for the memory system of the Sniper multicore simulator with DISH
  compressed caches (\<^verbatim>\<open>src/sniper\<close>), and for the parts of the simulator around it that schedule
  and delay the simulated program. Paths below are relative to \<^verbatim>\<open>src/sniper/common\<close>, and those of
  the memory system to \<^verbatim>\<open>core/memory_subsystem\<close>, unless they start with \<^verbatim>\<open>sniper\<close>.

  \<^bold>\<open>The program and how its parts interact.\<close> A simulated core sends its loads and stores to a hierarchy
  of private caches. A cache is an array of sets, a set an array of ways, and a way of a compressed
  cache holds a superblock: up to four neighbouring lines that share one frame of storage when their
  contents compress against a common dictionary. A line that no private cache holds is requested from
  the directory of its home core, which \<^verbatim>\<open>AddressHomeLookup\<close> computes from the address; the directory
  keeps, per line, which caches have a copy, asks them to give it up or to write it back, reads and
  writes DRAM, and answers. Requests for a line wait in a queue while one of them is served. The delays of
  shared resources come from queue models, and prefetchers watch the addresses of the misses. The
  simulated program's threads are stalled and resumed by the thread manager on behalf of the servers
  for mutexes, condition variables, barriers, futexes and sleeping. A program that runs outside the simulator
  is fed to it as an instruction trace.

  \<^bold>\<open>Conventions.\<close> \<open>Prelude\<close> has the types. A function that can abort returns \<open>'a res\<close>, an error or a
  value: \<^verbatim>\<open>assert\<close>, \<^verbatim>\<open>LOG_ASSERT_ERROR\<close> and \<^verbatim>\<open>LOG_PRINT_ERROR\<close> are the errors \<open>Assert_Failed\<close> and
  \<open>Log_Error\<close>; what C++ leaves undefined (an access outside an array, a null or deleted pointer, a
  variable without a value, a division by zero) is an error as well, so a theorem that says a
  computation succeeds also says that it is defined. Addresses, times, masks and packed fields are
  words of their width and wrap; sizes and indices that are bounded by their arrays are naturals.
  State is passed explicitly; an object that several others share is kept in the state of the
  component that owns it. Member names are kept where Isabelle allows it; a prefix (\<open>cs_\<close>, \<open>cq_\<close>,
  \<open>rq_\<close>) tells overloads apart.

  \<^bold>\<open>Compressed frames\<close> (\<^verbatim>\<open>cache/block_data.cc\<close>, \<^verbatim>\<open>cache/compress_utils.h\<close>, the compression controller
  of \<^verbatim>\<open>cache/cache.h\<close>). \<open>Dish\<close> and \<open>Block_Data\<close> hold the record of a frame and one definition per member
  function of \<^verbatim>\<open>BlockData\<close>. \<open>Block_Data_Dict\<close> and \<open>Block_Data_Coding\<close> treat the two schemes once, through the
  locales \<open>granule_encoder\<close> and \<open>frame_encoder\<close>, which both schemes interpret. \<open>Block_Data_Frame\<close>,
  \<open>Block_Data_Ops\<close> and \<open>Block_Data_Safe\<close> have the invariant of a frame, the effect of every operation on the
  lines it holds, and that the compressibility checks are exact. \<open>Block_Data_Props\<close> states the
  properties over all reachable frames: the invariant, that the dictionary, pointers and offsets decode
  to exactly the stored bytes, the capacity, what a read returns after an insertion, a write and an
  eviction, and that \<open>canInsertBlockData\<close> and \<open>canWriteBlockData\<close> answer yes exactly when the operation
  runs through; and two defects: compaction of the second scheme loses entries that lines need, and a write at an
  offset into a compressed frame takes the wrong bytes.

  \<^bold>\<open>Addresses\<close> (\<^verbatim>\<open>misc/utils.cc\<close>, \<^verbatim>\<open>address_home_lookup.cc\<close>, \<^verbatim>\<open>cache/cache_base.cc\<close>). \<open>Utils\<close> has the bit
  utilities with their mathematical meaning, \<open>Address\<close> the home of an address and the split of an
  address into tag, set and offset, with the round trip, the injectivity of home and linear address and
  the mapping of a superblock to one set.

  \<^bold>\<open>Caches\<close> (\<^verbatim>\<open>cache/cache_block_info.cc\<close>, \<^verbatim>\<open>superblock_info.cc\<close>, \<^verbatim>\<open>cache_set*.cc\<close>, \<^verbatim>\<open>cache.cc\<close>).
  \<open>Cache_Block_Info\<close> and \<open>Superblock_Info\<close> hold the tags; \<open>Replacement\<close> the LRU and the query-based policies,
  behind the locale \<open>replacement_policy\<close>; \<open>Cache_Set\<close> and \<open>Cache\<close> the operations, with the evictions of
  a merge or of a write that no longer fits. \<open>Cache_Set_Inv\<close>, \<open>Cache_Set_Ops\<close> and \<open>Cache_Props\<close> prove that every
  operation keeps the invariant (tags and data describe the same lines, no tag twice, the
  controller counts the compressed frames) and what it does to the lines. \<open>Cache_Contract\<close> has the
  abstract specification, a map from tags to lines that is computed from a log of the calls and of the writebacks they
  returned; a cache implements it: its lines are those of the map, its loads answer from the map,
  exactly the lines in the writebacks leave, with their bytes. The log covers caches that keep data, fills of absent lines and
  stores to the start of a line (elsewhere a compressed frame takes other bytes, a defect). The counters of compressed
  frames are integers without a bound, and the table of list positions of the LRU policy is part of its list.
  The memory of the simulated program, from which a filled line is read, is the parameter \<open>mem\<close>.

  \<^bold>\<open>The directory\<close> (\<^verbatim>\<open>directory_schemes/\<close>, \<^verbatim>\<open>pr_l1_pr_l2_dram_directory_msi/\<close>). \<open>Req_Queue\<close> has the queues of
  requests and the ring buffer, both instances of the locale \<open>fifo\<close>. \<open>Directory\<close> models the entries (full
  map, limited, limitless), their array and the directory cache; \<open>Directory_Cntlr\<close> every handler of
  \<^verbatim>\<open>DramDirectoryCntlr\<close> in the MSI, MESI and MESIF protocols with the messages it sends.
  \<open>Directory_Store\<close> shows that the directory cache is a finite map from addresses to entries.
  \<open>Directory_Inv\<close> defines, per line, the ghost state that follows from the messages exchanged (who holds a
  copy, who may write, who was asked for what) and the invariant that ties it to the entry and the queue;
  \<open>Directory_Steps\<close>, \<open>Directory_Handlers\<close>, \<open>Directory_Requests\<close>, \<open>Directory_Delivery\<close>, \<open>Directory_Replies\<close> prove that every
  handler keeps it for all lines, \<open>Directory_System\<close> composes the directory with its environment: the
  caches and DRAM may send any message that \<open>legal_msg\<close> allows, in any order. Its conditions are what
  \<^verbatim>\<open>cache_cntlr.cc\<close> does: one request per core and line, replies only for copies a cache has or
  was asked for. \<open>new_directory\<close> allows any configuration the constructors accept, more than the
  simulator builds. \<open>Directory_Props\<close> concludes that a core that may write is alone, that the
  entry names every copy, that the handling of every message ends, and exhibits an exchange in which the
  code uses a deleted buffer.

  \<^bold>\<open>Threads and synchronisation\<close> (\<^verbatim>\<open>system/thread_manager.cc\<close>, \<^verbatim>\<open>core/thread.cc\<close>, \<^verbatim>\<open>system/sync_server.cc\<close>,
  \<^verbatim>\<open>system/syscall_server.cc\<close>). \<open>Thread_Manager\<close>, \<open>Sync_Server\<close> and \<open>Syscall_Server\<close> have the operations; the lock of the
  thread manager makes each of them an atomic step, and a call that blocks is split where it waits. Of \<^verbatim>\<open>stallThread\<close>
  that is the part before its loop, which advances the simulated clock while no thread runs; a thread that the clock wakes
  again is a step of the timer.
  The servers rely on stalling and resuming through the locale \<open>stall_resume\<close>. \<open>Sync_System\<close> and
  \<open>Futex_System\<close> prove the invariant of the whole system, that the stalled threads are exactly those in
  some queue, for runs in which threads are created and started on a core of their own (\<open>sys_step\<close>: no scheduler takes
  it away, a thread starts before it is joined, the addresses of a futex call are two futexes), and \<open>Sync_Props\<close> the properties: no lost wake-up, first-come first-served mutexes, barriers that
  release all, the effect of every futex wake, when calls abort, and the defects found. The translation of
  addresses by the frontend is an argument.

  \<^bold>\<open>Schedulers\<close> (\<^verbatim>\<open>scheduler/scheduler_pinned_base.cc\<close>, \<^verbatim>\<open>scheduler_dynamic.cc\<close>, \<^verbatim>\<open>scheduler_pinned.cc\<close>,
  \<^verbatim>\<open>scheduler_roaming.cc\<close>, \<^verbatim>\<open>scheduler_static.cc\<close>). \<open>Scheduler\<close> has the operations and the callbacks, and composes them
  with those of the thread manager, whose operations with a callback in the middle are given in two parts.
  \<open>Sched_Inv\<close> defines the invariant, that both sides agree on an exclusive placement, and characterises the choice of a
  thread; \<open>Sched_Moves\<close> proves that a rescheduling with all the reschedulings nested in it keeps the invariant,
  \<open>Sched_Cores\<close> that the pinned scheduler goes through all cores in a cycle, \<open>Sched_System\<close> and \<open>Sched_Life\<close> that every
  operation succeeds and keeps the invariant, and \<open>Sched_Props\<close> states the properties over all sequences of
  operations. The elapsed times of the cores and the global clock are arguments.

  \<^bold>\<open>Delays\<close> (\<^verbatim>\<open>misc/modulo_num.cc\<close>, \<^verbatim>\<open>misc/moving_average.h\<close>, \<^verbatim>\<open>performance_model/queue_model*.cc\<close>,
  \<^verbatim>\<open>performance_model/contention_model.cc\<close>). \<open>Moving_Average\<close> and \<open>Queue_Model\<close> have the models. \<open>Contention_Props\<close>
  refines the contention model to a queue with several servers, \<open>History_Props\<close> shows that the slots
  handed out by the history list are disjoint, \<open>Queue_Props\<close> that the models agree on requests in order (the
  locale \<open>single_server\<close>, interpreted on three of them), \<open>Window_Props\<close> what the M/G/1 window keeps. The
  root of the geometric mean, the floating-point formula of the M/G/1 queue and the
  global clock are arguments.

  \<^bold>\<open>Prefetchers\<close> (\<^verbatim>\<open>parametric_dram_directory_msi/*prefetcher.cc\<close>). \<open>Prefetcher\<close> has both, and that the global
  history buffer stays inside its arrays.

  \<^bold>\<open>Instruction traces\<close> (\<^verbatim>\<open>sniper/sift/sift_format.h\<close>, \<^verbatim>\<open>sift_writer.cc\<close>, \<^verbatim>\<open>sift_reader.cc\<close>). A traced program and
  the simulator are two processes; the program writes its instructions and system calls as records, the
  simulator answers on a second stream and reads and writes the memory of the program through it.
  \<open>Sift_Format\<close> has the records and the little-endian codec of their fields, \<open>Sift_Writer\<close> and \<open>Sift_Reader\<close> every
  member function of \<^verbatim>\<open>Sift::Writer\<close> and \<^verbatim>\<open>Sift::Reader\<close>; the handlers a client installs are trees of memory
  accesses (\<open>act\<close>) that the reader runs. \<open>Sift_Stream\<close> shows that reading moves forward in the input. A read past the end of
  a stream stops the model, where the program goes on with what its buffer holds, so nothing is said of truncated
  traces; \<^verbatim>\<open>zfstream.cc\<close> is part of the argument that stands for zlib. The code of the traced program is a function
  of the address, so it does not change, and the handlers always return. \<open>Sift_Code\<close>, \<open>Sift_Link\<close>, \<open>Sift_Inst\<close> keep the relation between a writer and the reader
  that has consumed its output (the pages of code sent, the caches of decoded instructions, the last
  address, the page table), \<open>Sift_Act\<close> treats the accesses while an answer is awaited, \<open>Sift_Event\<close> defines a whole
  trace and what handling its events without a trace does, \<open>Sift_Carry\<close> shows for each kind of event that the
  two agree, and \<open>Sift_Props\<close> that they agree for whole traces; an output of no bytes is the exception.
  The response stream of the writer is given in advance; \<open>sift_roundtrip\<close> shows that the bytes the reader sends are
  exactly these, so the two processes running against each other behave like that. The zlib
  streams, the XED decoder, the bytes of the program's code, its page table and its memory are arguments;
  the one hypothesis on them is that inflating undoes deflating.

  \<^bold>\<open>Fuel and bounds.\<close> Loops over containers are structural recursions. Some loops carry fuel.
  The chain of requests started by a message to the directory (\<open>processNext\<close>) has two rounds more
  than requests wait at its line; \<open>Directory_Fuel\<close> proves that it never runs out. The requeue loop of
  a futex has the fuel of its caller; \<open>requeue_terminates\<close> says which fuel is enough, and that none is
  when both addresses translate to one futex. The nesting of reschedulings
  has one level more than there are cores; \<open>reschedule_ok_n\<close> shows that each level occupies a free core. The searches
  for a core have as many rounds as cores, which is a full cycle when the interleaving divides their number.
  Query-based selection has the attempts of its configuration, and \<open>qbs_spares_lower_levels\<close> says which way it returns. The reader
  of a trace has one round more than bytes are left, and so has the wait for an answer; \<open>sift_reading_ends\<close>
  says that the model never runs out of them. A client is given one call more than events, an instruction of at most 16 bytes
  three rounds of the loop over its pages, which is enough below the last page of the address space;
  \<open>last_page_loops\<close> shows that in the last page the loop of the code does not end. The bounds in the statements (lines of at most
  64 bytes, a request no longer than the least processing time, a table index below the size of the
  table) are those the code relies on, and each statement with a bound has a witness. The shipped configuration does not
  keep all of them: it turns on the approximations of the queue models, and the mesh network passes the times of whole
  packets to history lists made for one cycle (\<open>history_long_request\<close> is what they then do).

  \<^bold>\<open>Not modelled.\<close> The private cache controllers (\<^verbatim>\<open>cache_cntlr.cc\<close>) and the memory manager: their handlers
  block host threads on semaphores in the middle of an access and reach into other cores' objects, so a
  model of them is one of host-thread interleavings; of them the development has the caches they
  operate on, the messages and the conditions of \<open>legal_msg\<close>. The core timing models (interval, reorder
  buffer) and the networks compute cycle counts of decoded x86 instructions and packets, with no
  contract beyond their arithmetic. The instruction decoder is the XED library, and Pin, zlib and Python
  are external. Configuration, statistics, logging, host locks and host threads are glue; log lines
  and the registration of counters have no effect on the state modelled. DRAM controllers compute
  floating-point latencies and keep data only under fault injection. The translation buffers are caches of page
  numbers without data; the barrier of the simulated clock blocks host threads; the big-small and the sequential
  scheduler choose affinities, at random or from a list, through the operations modelled here.
\<close>

end
